(* ===== verification/DB_Prelude.thy ===== *)
theory DB_Prelude
  imports Main "HOL-Library.Word" "HOL-Library.List_Lexorder" "HOL-Library.Char_ord"
begin

unbundle bit_operations_syntax

text \<open>
  The shared vocabulary of the development: the machine integer types, the error codes of
  \<^verbatim>\<open>common/include/db_errno.h\<close>, the result type of fallible code, byte buffers with
  bounds-checked access, and the byte images of unsigned integers in host and network
  order (\<^verbatim>\<open>common/include/endian_convert.h\<close>, \<^verbatim>\<open>common/include/macro_utils.h\<close>).

  An access through a raw pointer that leaves its buffer is undefined behaviour in the
  source.  Here it is the outcome \<open>Fault\<close>, which no other branch produces, so a theorem that
  an operation is never \<open>Fault\<close> says that its guards keep every access inside the buffer.
\<close>

section \<open>Types\<close>

type_synonym byte = "8 word"
type_synonym u8 = "8 word"
type_synonym u16 = "16 word"
type_synonym u32 = "32 word"
type_synonym u64 = "64 word"
type_synonym label = "byte list"
type_synonym target = string

named_theorems codec "facts that evaluate byte images of integers and headers"
named_theorems safe_rd "introduction rules: a bounds-checked access does not fault"

section \<open>Error codes\<close>

text \<open>
  The error constants of \<^verbatim>\<open>db_errno.h\<close> that the modelled code returns; the source returns
  their negations, which the model identifies with the constants themselves.
\<close>

datatype errcode =
    E_OK | E_NOT_FOUND | E_INVALID_ARGS | E_SECUREC_ERROR | E_OUT_OF_MEMORY | E_NOT_PERMIT
  | E_ALREADY_REGISTER | E_ALREADY_ALLOC | E_CONTAINER_FULL | E_CONTAINER_EMPTY
  | E_CONTAINER_FULL_TO_NOTFULL | E_CONTAINER_NOTEMPTY_TO_EMPTY | E_WAIT_RETRY | E_PARSE_FAIL
  | E_TIMEOUT | E_SERIALIZE_ERROR | E_DESERIALIZE_ERROR | E_NOT_REGISTER | E_LENGTH_ERROR
  | E_PERIPHERAL_INTERFACE_FAIL | E_INTERNAL_ERROR | E_CONTAINER_ONLY_DELAY_TASK
  | E_SUM_CALCULATE_FAIL | E_SUM_MISMATCH | E_OUT_OF_DATE | E_COMBINE_FAIL
  | E_VERSION_NOT_SUPPORT | E_FRAME_TYPE_NOT_SUPPORT | E_FEEDBACK_UNKNOWN_MESSAGE
  | E_FEEDBACK_COMMUNICATOR_NOT_FOUND | E_FEEDBACK_DB_CLOSING | E_NEED_CORRECT_TARGET_USER
  | E_NO_TRUSTED_USER | E_SEND_FAIL | E_NOT_SUPPORT | E_INVALID_TIME | E_NEED_TIME_SYNC | E_NEED_ABILITY_SYNC | E_SYSTEM_API_FAIL | E_MAX_LIMITS | E_UNEXPECTED_DATA | E_NO_SYNC_TASK | E_OBJ_IS_KILLED
  | E_SEND_DATA | E_NO_DATA_SEND | E_RECV_FINISHED | E_NEED_PULL_REPONSE | E_RE_SEND_DATA | E_BUSY
  | E_INVALID_DB

section \<open>Results of fallible code\<close>

datatype 'a res = Ok 'a | Err errcode | Fault

primrec res_bind :: "'a res \<Rightarrow> ('a \<Rightarrow> 'b res) \<Rightarrow> 'b res" where
  "res_bind (Ok x) f = f x"
| "res_bind (Err e) f = Err e"
| "res_bind Fault f = Fault"

text \<open>An early return: continue only if the condition does not hold.\<close>

definition guard_err :: "bool \<Rightarrow> errcode \<Rightarrow> 'a res \<Rightarrow> 'a res" where
  "guard_err c e k = (if c then Err e else k)"

lemma res_bind_eq_Ok: "res_bind m f = Ok y \<longleftrightarrow> (\<exists>x. m = Ok x \<and> f x = Ok y)"
  by (cases m) auto

lemma res_bind_eq_Fault: "res_bind m f = Fault \<longleftrightarrow> m = Fault \<or> (\<exists>x. m = Ok x \<and> f x = Fault)"
  by (cases m) auto

lemma res_bind_assoc: "res_bind (res_bind m f) g = res_bind m (\<lambda>x. res_bind (f x) g)"
  by (cases m) auto

lemma guard_err_simps [simp]:
  "guard_err False e k = k" "guard_err True e k = Err e"
  by (simp_all add: guard_err_def)

lemma guard_err_eq_Ok [simp]: "guard_err c e k = Ok y \<longleftrightarrow> \<not> c \<and> k = Ok y"
  by (simp add: guard_err_def)

lemma guard_err_eq_Fault [simp]: "guard_err c e k = Fault \<longleftrightarrow> \<not> c \<and> k = Fault"
  by (simp add: guard_err_def)

lemma res_bind_safe [safe_rd]:
  "m \<noteq> Fault \<Longrightarrow> (\<And>x. m = Ok x \<Longrightarrow> f x \<noteq> Fault) \<Longrightarrow> res_bind m f \<noteq> Fault"
  by (cases m) auto

lemma guard_err_safe [safe_rd]: "(\<not> c \<Longrightarrow> k \<noteq> Fault) \<Longrightarrow> guard_err c e k \<noteq> Fault"
  by (cases c) auto

section \<open>Byte buffers\<close>

text \<open>Reading \<open>n\<close> bytes at offset \<open>off\<close>, and overwriting the bytes at an offset.\<close>

definition read_at :: "byte list \<Rightarrow> nat \<Rightarrow> nat \<Rightarrow> byte list res" where
  "read_at bs off n = (if off + n \<le> length bs then Ok (take n (drop off bs)) else Fault)"

definition overwrite :: "byte list \<Rightarrow> nat \<Rightarrow> byte list \<Rightarrow> byte list" where
  "overwrite bs off src = take off bs @ src @ drop (off + length src) bs"

definition write_at :: "byte list \<Rightarrow> nat \<Rightarrow> byte list \<Rightarrow> byte list res" where
  "write_at bs off src = (if off + length src \<le> length bs then Ok (overwrite bs off src) else Fault)"

text \<open>
  \<^verbatim>\<open>memcpy_s(dst, destMax, src, count)\<close> of C11 Annex K: it refuses to copy more than
  \<open>destMax\<close> bytes.  The destination is the buffer \<open>bs\<close> at offset \<open>off\<close>, and \<open>destMax\<close> is what the
  caller says is left there: when the caller is wrong about it the write leaves the buffer.
\<close>

definition memcpy_s :: "byte list \<Rightarrow> nat \<Rightarrow> nat \<Rightarrow> byte list \<Rightarrow> byte list res" where
  "memcpy_s bs off destMax src = guard_err (destMax < length src) E_SECUREC_ERROR (write_at bs off src)"

lemma read_at_Ok: "read_at bs off n = Ok xs \<longleftrightarrow> off + n \<le> length bs \<and> xs = take n (drop off bs)"
  by (auto simp: read_at_def)

lemma read_at_safe [safe_rd]: "off + n \<le> length bs \<Longrightarrow> read_at bs off n \<noteq> Fault"
  by (simp add: read_at_def)

lemma length_read_at: "read_at bs off n = Ok xs \<Longrightarrow> length xs = n"
  by (auto simp: read_at_Ok)

lemma length_overwrite [simp]:
  "off + length src \<le> length bs \<Longrightarrow> length (overwrite bs off src) = length bs"
  by (simp add: overwrite_def)

lemma take_overwrite_before [simp]:
  "n \<le> off \<Longrightarrow> off \<le> length bs \<Longrightarrow> take n (overwrite bs off src) = take n bs"
  by (simp add: overwrite_def min_def)

lemma drop_overwrite_after:
  "off + length src \<le> n \<Longrightarrow> off + length src \<le> length bs \<Longrightarrow> drop n (overwrite bs off src) = drop n bs"
  by (simp add: overwrite_def)

lemma slice_overwrite_same:
  "off + length src \<le> length bs \<Longrightarrow> take (length src) (drop off (overwrite bs off src)) = src"
  by (simp add: overwrite_def)

lemma overwrite_append:
  "k + length a + length c \<le> length bs \<Longrightarrow>
   overwrite (overwrite bs k a) (k + length a) c = overwrite bs k (a @ c)"
  by (simp add: overwrite_def ac_simps)

lemma overwrite_Nil [simp]: "overwrite bs k [] = bs"
  by (simp add: overwrite_def)

lemma write_at_Ok:
  "write_at bs off src = Ok bs' \<longleftrightarrow> off + length src \<le> length bs \<and> bs' = overwrite bs off src"
  by (auto simp: write_at_def)

lemma memcpy_s_Ok:
  "memcpy_s bs off m src = Ok bs' \<longleftrightarrow>
     length src \<le> m \<and> off + length src \<le> length bs \<and> bs' = overwrite bs off src"
  by (auto simp: memcpy_s_def write_at_Ok)

lemma memcpy_s_safe [safe_rd]: "off + m \<le> length bs \<Longrightarrow> memcpy_s bs off m src \<noteq> Fault"
  by (auto simp: memcpy_s_def write_at_def)

section \<open>Byte images of integers\<close>

primrec le_bytes :: "nat \<Rightarrow> 'a::len word \<Rightarrow> byte list" where
  "le_bytes 0 w = []"
| "le_bytes (Suc n) w = ucast w # le_bytes n (drop_bit 8 w)"

primrec le_word :: "byte list \<Rightarrow> 'a::len word" where
  "le_word [] = 0"
| "le_word (b # bs) = ucast b OR push_bit 8 (le_word bs)"

lemma le_bytes_numeral [simp, codec]:
  "le_bytes (numeral k) w = ucast w # le_bytes (pred_numeral k) (drop_bit 8 w)"
  by (simp add: numeral_eq_Suc)

lemma length_le_bytes [simp]: "length (le_bytes n w) = n"
  by (induction n arbitrary: w) auto

lemma le_word_le_bytes: "le_word (le_bytes n w) = take_bit (8 * n) w"
proof (induction n arbitrary: w)
  case (Suc n)
  show ?case by (rule bit_word_eqI) (auto simp: Suc bit_simps)
qed simp

lemma bit_le_word:
  "bit (le_word bs :: 'a::len word) i \<longleftrightarrow>
     i < LENGTH('a) \<and> i < 8 * length bs \<and> bit (bs ! (i div 8)) (i mod 8)"
proof (induction bs arbitrary: i)
  case (Cons b bs)
  show ?case
  proof (cases "i < 8")
    case True
    then show ?thesis by (auto simp: bit_simps)
  next
    case False
    then have bi: "\<not> bit b i" by (auto dest: bit_imp_le_length)
    have d: "i div 8 = Suc ((i - 8) div 8)" and m: "(i - 8) mod 8 = i mod 8"
      using False by (simp_all add: le_div_geq le_mod_geq)
    show ?thesis using False bi Cons[of "i - 8"] unfolding le_word.simps d by (auto simp: bit_simps m)
  qed
qed simp

lemma nth_le_bytes: "k < n \<Longrightarrow> le_bytes n w ! k = ucast (drop_bit (8 * k) w)"
proof (induction n arbitrary: k w)
  case (Suc n)
  then show ?case by (cases k) (auto simp: algebra_simps)
qed simp

lemma le_bytes_le_word:
  assumes "8 * length bs \<le> LENGTH('a)"
  shows "le_bytes (length bs) (le_word bs :: 'a::len word) = bs"
proof (rule nth_equalityI)
  fix k assume "k < length (le_bytes (length bs) (le_word bs :: 'a word))"
  then have k: "k < length bs" by simp
  show "le_bytes (length bs) (le_word bs :: 'a word) ! k = bs ! k"
  proof (rule bit_word_eqI)
    fix m assume m: "m < LENGTH(8)"
    then have "8 * k + m < 8 * length bs" using k by simp
    moreover have "(8 * k + m) div 8 = k" "(8 * k + m) mod 8 = m" using m by auto
    ultimately show "bit (le_bytes (length bs) (le_word bs :: 'a word) ! k) m = bit (bs ! k) m"
      using k m assms by (simp add: nth_le_bytes bit_simps bit_le_word)
  qed
qed simp

subsection \<open>Host memory and network order\<close>

text \<open>
  \<open>store_word be w\<close> is the memory image of \<open>w\<close> on a big-endian (\<open>be\<close>) or little-endian host,
  \<open>load_word be\<close> reads an integer back from such an image.  \<open>net_bytes\<close> and \<open>net_word\<close> are
  the network byte order, the same on every host.
\<close>

definition store_word :: "bool \<Rightarrow> 'a::len word \<Rightarrow> byte list" where
  "store_word be w =
     (if be then rev (le_bytes (LENGTH('a) div 8) w) else le_bytes (LENGTH('a) div 8) w)"

definition load_word :: "bool \<Rightarrow> byte list \<Rightarrow> 'a::len word" where
  "load_word be bs = (if be then le_word (rev bs) else le_word bs)"

definition net_bytes :: "'a::len word \<Rightarrow> byte list" where
  "net_bytes w = rev (le_bytes (LENGTH('a) div 8) w)"

definition net_word :: "byte list \<Rightarrow> 'a::len word" where
  "net_word bs = le_word (rev bs)"

text \<open>
  \<^verbatim>\<open>HostToNet\<close> reverses the bytes of the value's memory image unless the host is big-endian
  (\<^verbatim>\<open>IsBigEndian\<close>), and \<^verbatim>\<open>NetToHost\<close> is the same function.
\<close>

definition HostToNet :: "bool \<Rightarrow> 'a::len word \<Rightarrow> 'a word" where
  "HostToNet be from = (if be then from else load_word be (rev (store_word be from)))"

definition NetToHost :: "bool \<Rightarrow> 'a::len word \<Rightarrow> 'a word" where
  "NetToHost be from = HostToNet be from"

lemma length_store_word [simp]: "length (store_word be (w :: 'a::len word)) = LENGTH('a) div 8"
  by (simp add: store_word_def)

lemma length_net_bytes [simp]: "length (net_bytes (w :: 'a::len word)) = LENGTH('a) div 8"
  by (simp add: net_bytes_def)

lemma load_store_word:
  "8 dvd LENGTH('a) \<Longrightarrow> load_word be (store_word be (w :: 'a::len word)) = w"
  by (simp add: load_word_def store_word_def le_word_le_bytes)

lemma store_load_word:
  assumes "8 dvd LENGTH('a)" "length bs = LENGTH('a) div 8"
  shows "store_word be (load_word be bs :: 'a::len word) = bs"
proof -
  have l: "8 * length bs \<le> LENGTH('a)" "LENGTH('a) div 8 = length bs" using assms by auto
  show ?thesis
    using le_bytes_le_word[where 'a='a, of bs] le_bytes_le_word[where 'a='a, of "rev bs"] l
    by (auto simp: load_word_def store_word_def)
qed

text \<open>Writing a converted value to memory gives its network bytes on either kind of host.\<close>

lemma store_HostToNet:
  assumes "8 dvd LENGTH('a)"
  shows "store_word be (HostToNet be (w :: 'a::len word)) = net_bytes w"
proof (cases be)
  case True
  then show ?thesis by (simp add: HostToNet_def store_word_def net_bytes_def)
next
  case False
  have "store_word False (load_word False (rev (store_word False w)) :: 'a word) = rev (store_word False w)"
    by (rule store_load_word) (use assms in auto)
  then show ?thesis using False by (simp add: HostToNet_def net_bytes_def store_word_def)
qed

lemma NetToHost_load:
  assumes "8 dvd LENGTH('a)" "length bs = LENGTH('a) div 8"
  shows "NetToHost be (load_word be bs :: 'a::len word) = net_word bs"
proof (cases be)
  case True
  then show ?thesis by (simp add: NetToHost_def HostToNet_def load_word_def net_word_def)
next
  case False
  have "store_word False (load_word False bs :: 'a word) = bs"
    by (rule store_load_word) (use assms in auto)
  then show ?thesis using False
    by (simp add: NetToHost_def HostToNet_def net_word_def load_word_def)
qed

lemma net_word_net_bytes [simp]:
  "8 dvd LENGTH('a) \<Longrightarrow> net_word (net_bytes w) = (w :: 'a::len word)"
  by (simp add: net_word_def net_bytes_def le_word_le_bytes)

lemma net_bytes_net_word:
  assumes "8 dvd LENGTH('a)" "length bs = LENGTH('a) div 8"
  shows "net_bytes (net_word bs :: 'a::len word) = bs"
proof -
  have "le_bytes (length (rev bs)) (le_word (rev bs) :: 'a word) = rev bs"
    by (rule le_bytes_le_word) (use assms in auto)
  then show ?thesis using assms by (simp add: net_bytes_def net_word_def)
qed

lemma NetToHost_HostToNet [simp]:
  assumes "8 dvd LENGTH('a)"
  shows "NetToHost be (HostToNet be w) = (w :: 'a::len word)"
proof -
  have "NetToHost be (load_word be (store_word be (HostToNet be w)) :: 'a word) = net_word (net_bytes w)"
    using assms by (subst NetToHost_load) (auto simp: store_HostToNet)
  then show ?thesis using assms by (simp add: load_store_word)
qed

lemma HostToNet_NetToHost [simp]:
  "8 dvd LENGTH('a) \<Longrightarrow> HostToNet be (NetToHost be w) = (w :: 'a::len word)"
  using NetToHost_HostToNet[of be w] by (simp add: NetToHost_def)

section \<open>Alignment\<close>

text \<open>\<^verbatim>\<open>BYTE_8_ALIGN(x)\<close> of \<^verbatim>\<open>macro_utils.h\<close>, at the width of its argument.\<close>

definition BYTE_8_ALIGN :: "'a::len word \<Rightarrow> 'a word" where
  "BYTE_8_ALIGN x = (x + (8 - 1)) AND NOT (8 - 1)"

lemma and_not_mask_eq: "(x::'a::len word) AND NOT (mask n) = push_bit n (drop_bit n x)"
  by (rule bit_word_eqI) (auto simp: bit_simps)

lemma unat_BYTE_8_ALIGN:
  assumes "8 \<le> LENGTH('a)" and "unat x + 7 < 2 ^ LENGTH('a)"
  shows "unat (BYTE_8_ALIGN (x :: 'a::len word)) = 8 * ((unat x + 7) div 8)"
proof -
  have p: "(256::nat) \<le> 2 ^ LENGTH('a)"
    using power_increasing[OF assms(1), of "2::nat"] by simp
  have 7: "unat (7::'a word) = 7" and 8: "unat (8::'a word) = 8"
    using p by (simp_all add: unat_numeral take_bit_eq_mod)
  have s: "unat (x + 7) = unat x + 7"
    using assms 7 by (simp add: unat_word_ariths)
  have m: "(8 - 1::'a word) = mask 3" by (simp add: mask_eq_exp_minus_1)
  have d: "unat (drop_bit 3 (x + 7)) = (unat x + 7) div 8"
    by (subst unat_drop_bit_eq, simp only: s) (simp add: drop_bit_eq_div)
  have "unat (BYTE_8_ALIGN x) = unat (drop_bit 3 (x + 7) * 8)"
    unfolding BYTE_8_ALIGN_def by (subst (2) m) (simp add: and_not_mask_eq push_bit_eq_mult)
  also have "\<dots> = (unat x + 7) div 8 * 8 mod 2 ^ LENGTH('a)"
    by (simp only: unat_word_ariths(2) d 8)
  also have "\<dots> = 8 * ((unat x + 7) div 8)"
    using assms by (simp add: mult.commute)
  finally show ?thesis .
qed

lemma unat_BYTE_8_ALIGN32:
  "unat (x::u32) + 7 < 2 ^ 32 \<Longrightarrow> unat (BYTE_8_ALIGN x) = 8 * ((unat x + 7) div 8)"
  by (rule unat_BYTE_8_ALIGN) auto

section \<open>Arithmetic of 32-bit lengths\<close>

lemma unat_add32: "unat (a::u32) + unat b < 2 ^ 32 \<Longrightarrow> unat (a + b) = unat a + unat b"
  by (simp add: unat_word_ariths)

lemma unat_sub32: "b \<le> a \<Longrightarrow> unat (a - b) = unat (a::u32) - unat b"
  by (rule unat_sub)

lemma u32_le: "(a::u32) \<le> b \<longleftrightarrow> unat a \<le> unat b"
  by (rule word_le_nat_alt)

lemma u32_less: "(a::u32) < b \<longleftrightarrow> unat a < unat b"
  by (rule word_less_nat_alt)

lemma unat_u32_lt [simp]: "unat (a::u32) < 4294967296"
proof -
  have "unat a < 2 ^ LENGTH(32)" by (rule unsigned_less)
  then show ?thesis by simp
qed

lemma unat_u16_lt [simp]: "unat (a::u16) < 65536"
proof -
  have "unat a < 2 ^ LENGTH(16)" by (rule unsigned_less)
  then show ?thesis by simp
qed

lemma unat_u8_lt [simp]: "unat (a::u8) < 256"
proof -
  have "unat a < 2 ^ LENGTH(8)" by (rule unsigned_less)
  then show ?thesis by simp
qed

lemma unat_of_nat32: "n < 2 ^ 32 \<Longrightarrow> unat (of_nat n :: u32) = n"
  by (simp add: unat_of_nat take_bit_eq_mod)

lemma unat_of_nat64: "n < 18446744073709551616 \<Longrightarrow> unat (of_nat n :: u64) = n"
  by (simp add: unat_of_nat)

lemma unat_of_nat16: "n < 2 ^ 16 \<Longrightarrow> unat (of_nat n :: u16) = n"
  by (simp add: unat_of_nat take_bit_eq_mod)

section \<open>Allocation\<close>

text \<open>
  \<^verbatim>\<open>new (std::nothrow)\<close> may return a null pointer.  An \<open>allocator\<close> says which requests succeed:
  it is a parameter of every operation that allocates.
\<close>

datatype alloc_req = NewBytes u32 | NewSerialBuffer | NewMessage | NewCommunicator

type_synonym allocator = "alloc_req \<Rightarrow> bool"

abbreviation never_oom :: allocator where
  "never_oom \<equiv> \<lambda>_. True"

end
