(* ===== verification/Wire_Headers.thy ===== *)
theory Wire_Headers
  imports DB_Prelude
begin

text \<open>
  The headers of \<^verbatim>\<open>communicator/src/frame_header.h\<close> as records, their memory images on a host
  of either endianness, and \<^verbatim>\<open>HeaderConverter\<close> (\<^verbatim>\<open>communicator/src/header_converter.cpp\<close>), which
  converts every field between host and network order.  The structs have no padding: the fields
  are laid out at the offsets the images list them in (32, 8, 40 and 24 bytes).
  The contract \<open>header_codec\<close> says that a header converted and copied to the wire by one host is
  what any other host reads back; it is interpreted for each of the four headers.
\<close>

section \<open>The headers\<close>

record CommPhyHeader =
  ph_magic :: u16
  ph_version :: u16
  ph_packetLen :: u32
  ph_checkSum :: u64
  ph_sourceId :: u64
  ph_frameId :: u32
  ph_packetType :: u8
  ph_paddingLen :: u8
  ph_dbIntVer :: u16

record CommPhyOptHeader =
  po_frameLen :: u32
  po_fragCount :: u16
  po_fragNo :: u16

record CommDivergeHeader =
  dv_version :: u16
  dv_reserved :: u16
  dv_payLoadLen :: u32
  dv_commLabel :: "byte list"

record MessageHeader =
  mh_version :: u16
  mh_messageType :: u16
  mh_messageId :: u32
  mh_sessionId :: u32
  mh_sequenceId :: u32
  mh_errorNo :: u32
  mh_dataLen :: u32

definition COMM_LABEL_LENGTH :: nat where "COMM_LABEL_LENGTH = 32"

definition SIZEOF_PHY :: nat where "SIZEOF_PHY = 32"
definition SIZEOF_OPT :: nat where "SIZEOF_OPT = 8"
definition SIZEOF_DIVERGE :: nat where "SIZEOF_DIVERGE = 40"
definition SIZEOF_MSG :: nat where "SIZEOF_MSG = 24"

lemmas sizeofs = SIZEOF_PHY_def SIZEOF_OPT_def SIZEOF_DIVERGE_def SIZEOF_MSG_def COMM_LABEL_LENGTH_def

section \<open>HeaderConverter\<close>

definition ConvertHostToNet_phy :: "bool \<Rightarrow> CommPhyHeader \<Rightarrow> CommPhyHeader" where
  "ConvertHostToNet_phy be h =
     \<lparr>ph_magic = HostToNet be (ph_magic h), ph_version = HostToNet be (ph_version h),
      ph_packetLen = HostToNet be (ph_packetLen h), ph_checkSum = HostToNet be (ph_checkSum h),
      ph_sourceId = HostToNet be (ph_sourceId h), ph_frameId = HostToNet be (ph_frameId h),
      ph_packetType = HostToNet be (ph_packetType h), ph_paddingLen = HostToNet be (ph_paddingLen h),
      ph_dbIntVer = HostToNet be (ph_dbIntVer h)\<rparr>"

definition ConvertHostToNet_opt :: "bool \<Rightarrow> CommPhyOptHeader \<Rightarrow> CommPhyOptHeader" where
  "ConvertHostToNet_opt be h =
     \<lparr>po_frameLen = HostToNet be (po_frameLen h), po_fragCount = HostToNet be (po_fragCount h),
      po_fragNo = HostToNet be (po_fragNo h)\<rparr>"

definition ConvertNetToHost_diverge :: "bool \<Rightarrow> CommDivergeHeader \<Rightarrow> CommDivergeHeader" where
  "ConvertNetToHost_diverge be h =
     \<lparr>dv_version = NetToHost be (dv_version h), dv_reserved = NetToHost be (dv_reserved h),
      dv_payLoadLen = NetToHost be (dv_payLoadLen h), dv_commLabel = dv_commLabel h\<rparr>"

definition ConvertNetToHost_msg :: "bool \<Rightarrow> MessageHeader \<Rightarrow> MessageHeader" where
  "ConvertNetToHost_msg be h =
     \<lparr>mh_version = NetToHost be (mh_version h), mh_messageType = NetToHost be (mh_messageType h),
      mh_messageId = NetToHost be (mh_messageId h), mh_sessionId = NetToHost be (mh_sessionId h),
      mh_sequenceId = NetToHost be (mh_sequenceId h), mh_errorNo = NetToHost be (mh_errorNo h),
      mh_dataLen = NetToHost be (mh_dataLen h)\<rparr>"

text \<open>Each remaining overload delegates to the conversion in the other direction.\<close>

definition ConvertNetToHost_phy :: "bool \<Rightarrow> CommPhyHeader \<Rightarrow> CommPhyHeader" where
  "ConvertNetToHost_phy be h = ConvertHostToNet_phy be h"

definition ConvertNetToHost_opt :: "bool \<Rightarrow> CommPhyOptHeader \<Rightarrow> CommPhyOptHeader" where
  "ConvertNetToHost_opt be h = ConvertHostToNet_opt be h"

definition ConvertHostToNet_diverge :: "bool \<Rightarrow> CommDivergeHeader \<Rightarrow> CommDivergeHeader" where
  "ConvertHostToNet_diverge be h = ConvertNetToHost_diverge be h"

definition ConvertHostToNet_msg :: "bool \<Rightarrow> MessageHeader \<Rightarrow> MessageHeader" where
  "ConvertHostToNet_msg be h = ConvertNetToHost_msg be h"

section \<open>Memory images\<close>

definition phy_image :: "bool \<Rightarrow> CommPhyHeader \<Rightarrow> byte list" where
  "phy_image be h = store_word be (ph_magic h) @ store_word be (ph_version h) @
     store_word be (ph_packetLen h) @ store_word be (ph_checkSum h) @ store_word be (ph_sourceId h) @
     store_word be (ph_frameId h) @ store_word be (ph_packetType h) @ store_word be (ph_paddingLen h) @
     store_word be (ph_dbIntVer h)"

definition phy_load :: "bool \<Rightarrow> byte list \<Rightarrow> CommPhyHeader" where
  "phy_load be bs =
     \<lparr>ph_magic = load_word be (take 2 bs), ph_version = load_word be (take 2 (drop 2 bs)),
      ph_packetLen = load_word be (take 4 (drop 4 bs)), ph_checkSum = load_word be (take 8 (drop 8 bs)),
      ph_sourceId = load_word be (take 8 (drop 16 bs)), ph_frameId = load_word be (take 4 (drop 24 bs)),
      ph_packetType = load_word be (take 1 (drop 28 bs)), ph_paddingLen = load_word be (take 1 (drop 29 bs)),
      ph_dbIntVer = load_word be (take 2 (drop 30 bs))\<rparr>"

definition opt_image :: "bool \<Rightarrow> CommPhyOptHeader \<Rightarrow> byte list" where
  "opt_image be h = store_word be (po_frameLen h) @ store_word be (po_fragCount h) @ store_word be (po_fragNo h)"

definition opt_load :: "bool \<Rightarrow> byte list \<Rightarrow> CommPhyOptHeader" where
  "opt_load be bs =
     \<lparr>po_frameLen = load_word be (take 4 bs), po_fragCount = load_word be (take 2 (drop 4 bs)),
      po_fragNo = load_word be (take 2 (drop 6 bs))\<rparr>"

definition diverge_image :: "bool \<Rightarrow> CommDivergeHeader \<Rightarrow> byte list" where
  "diverge_image be h = store_word be (dv_version h) @ store_word be (dv_reserved h) @
     store_word be (dv_payLoadLen h) @ dv_commLabel h"

definition diverge_load :: "bool \<Rightarrow> byte list \<Rightarrow> CommDivergeHeader" where
  "diverge_load be bs =
     \<lparr>dv_version = load_word be (take 2 bs), dv_reserved = load_word be (take 2 (drop 2 bs)),
      dv_payLoadLen = load_word be (take 4 (drop 4 bs)), dv_commLabel = take COMM_LABEL_LENGTH (drop 8 bs)\<rparr>"

definition msg_image :: "bool \<Rightarrow> MessageHeader \<Rightarrow> byte list" where
  "msg_image be h = store_word be (mh_version h) @ store_word be (mh_messageType h) @
     store_word be (mh_messageId h) @ store_word be (mh_sessionId h) @ store_word be (mh_sequenceId h) @
     store_word be (mh_errorNo h) @ store_word be (mh_dataLen h)"

definition msg_load :: "bool \<Rightarrow> byte list \<Rightarrow> MessageHeader" where
  "msg_load be bs =
     \<lparr>mh_version = load_word be (take 2 bs), mh_messageType = load_word be (take 2 (drop 2 bs)),
      mh_messageId = load_word be (take 4 (drop 4 bs)), mh_sessionId = load_word be (take 4 (drop 8 bs)),
      mh_sequenceId = load_word be (take 4 (drop 12 bs)), mh_errorNo = load_word be (take 4 (drop 16 bs)),
      mh_dataLen = load_word be (take 4 (drop 20 bs))\<rparr>"

section \<open>The wire format\<close>

text \<open>The same layouts in network order: what the images of converted headers are.\<close>

definition phy_net :: "CommPhyHeader \<Rightarrow> byte list" where
  "phy_net h = net_bytes (ph_magic h) @ net_bytes (ph_version h) @ net_bytes (ph_packetLen h) @
     net_bytes (ph_checkSum h) @ net_bytes (ph_sourceId h) @ net_bytes (ph_frameId h) @
     net_bytes (ph_packetType h) @ net_bytes (ph_paddingLen h) @ net_bytes (ph_dbIntVer h)"

definition phy_of_net :: "byte list \<Rightarrow> CommPhyHeader" where
  "phy_of_net bs =
     \<lparr>ph_magic = net_word (take 2 bs), ph_version = net_word (take 2 (drop 2 bs)),
      ph_packetLen = net_word (take 4 (drop 4 bs)), ph_checkSum = net_word (take 8 (drop 8 bs)),
      ph_sourceId = net_word (take 8 (drop 16 bs)), ph_frameId = net_word (take 4 (drop 24 bs)),
      ph_packetType = net_word (take 1 (drop 28 bs)), ph_paddingLen = net_word (take 1 (drop 29 bs)),
      ph_dbIntVer = net_word (take 2 (drop 30 bs))\<rparr>"

definition opt_net :: "CommPhyOptHeader \<Rightarrow> byte list" where
  "opt_net h = net_bytes (po_frameLen h) @ net_bytes (po_fragCount h) @ net_bytes (po_fragNo h)"

definition opt_of_net :: "byte list \<Rightarrow> CommPhyOptHeader" where
  "opt_of_net bs =
     \<lparr>po_frameLen = net_word (take 4 bs), po_fragCount = net_word (take 2 (drop 4 bs)),
      po_fragNo = net_word (take 2 (drop 6 bs))\<rparr>"

definition diverge_net :: "CommDivergeHeader \<Rightarrow> byte list" where
  "diverge_net h = net_bytes (dv_version h) @ net_bytes (dv_reserved h) @
     net_bytes (dv_payLoadLen h) @ dv_commLabel h"

definition diverge_of_net :: "byte list \<Rightarrow> CommDivergeHeader" where
  "diverge_of_net bs =
     \<lparr>dv_version = net_word (take 2 bs), dv_reserved = net_word (take 2 (drop 2 bs)),
      dv_payLoadLen = net_word (take 4 (drop 4 bs)), dv_commLabel = take COMM_LABEL_LENGTH (drop 8 bs)\<rparr>"

definition msg_net :: "MessageHeader \<Rightarrow> byte list" where
  "msg_net h = net_bytes (mh_version h) @ net_bytes (mh_messageType h) @ net_bytes (mh_messageId h) @
     net_bytes (mh_sessionId h) @ net_bytes (mh_sequenceId h) @ net_bytes (mh_errorNo h) @ net_bytes (mh_dataLen h)"

definition msg_of_net :: "byte list \<Rightarrow> MessageHeader" where
  "msg_of_net bs =
     \<lparr>mh_version = net_word (take 2 bs), mh_messageType = net_word (take 2 (drop 2 bs)),
      mh_messageId = net_word (take 4 (drop 4 bs)), mh_sessionId = net_word (take 4 (drop 8 bs)),
      mh_sequenceId = net_word (take 4 (drop 12 bs)), mh_errorNo = net_word (take 4 (drop 16 bs)),
      mh_dataLen = net_word (take 4 (drop 20 bs))\<rparr>"

definition wf_diverge :: "CommDivergeHeader \<Rightarrow> bool" where
  "wf_diverge h \<longleftrightarrow> length (dv_commLabel h) = COMM_LABEL_LENGTH"

section \<open>The codec contract\<close>

locale header_codec =
  fixes size :: nat
    and wf :: "'h \<Rightarrow> bool"
    and image :: "bool \<Rightarrow> 'h \<Rightarrow> byte list"
    and load :: "bool \<Rightarrow> byte list \<Rightarrow> 'h"
    and to_net :: "bool \<Rightarrow> 'h \<Rightarrow> 'h"
    and to_host :: "bool \<Rightarrow> 'h \<Rightarrow> 'h"
    and net :: "'h \<Rightarrow> byte list"
    and of_net :: "byte list \<Rightarrow> 'h"
  assumes length_net: "wf h \<Longrightarrow> length (net h) = size"
    and image_to_net: "image be (to_net be h) = net h"
    and load_to_host: "size \<le> length bs \<Longrightarrow> to_host be (load be bs) = of_net bs"
    and of_net_net: "wf h \<Longrightarrow> of_net (net h @ rest) = h"
    and net_of_net: "size \<le> length bs \<Longrightarrow> net (of_net bs) = take size bs"
    and wf_of_net: "size \<le> length bs \<Longrightarrow> wf (of_net bs)"
begin

text \<open>What one host writes, any other host reads back.\<close>

lemma wire_roundtrip:
  assumes "wf h"
  shows "to_host be' (load be' (image be (to_net be h) @ rest)) = h"
  using assms by (simp add: image_to_net load_to_host length_net of_net_net)

text \<open>Different headers have different wire images.\<close>

lemma net_inj: "wf h \<Longrightarrow> wf h' \<Longrightarrow> net h = net h' \<Longrightarrow> h = h'"
  using of_net_net[of h "[]"] of_net_net[of h' "[]"] by simp

lemma of_net_take: "size \<le> length bs \<Longrightarrow> of_net (take size bs) = of_net bs"
proof -
  assume s: "size \<le> length bs"
  have "net (of_net (take size bs)) = net (of_net bs)"
    using s by (simp add: net_of_net)
  then show ?thesis using s by (intro net_inj wf_of_net) auto
qed

end

lemma take_glue: "k = n \<Longrightarrow> take n bs @ take m (drop k bs) = take (n + m) bs"
  by (simp add: take_add)

lemmas word_codec = store_HostToNet NetToHost_load net_bytes_net_word

interpretation phy: header_codec SIZEOF_PHY "\<lambda>_. True" phy_image phy_load ConvertHostToNet_phy
  ConvertNetToHost_phy phy_net phy_of_net
proof (unfold_locales, goal_cases)
  case (1 h) then show ?case by (simp add: phy_net_def sizeofs)
next
  case (2 be h) then show ?case
    by (simp add: phy_image_def ConvertHostToNet_phy_def phy_net_def word_codec)
next
  case (3 bs be) then show ?case
    by (simp add: phy_load_def phy_of_net_def ConvertNetToHost_phy_def ConvertHostToNet_phy_def
        NetToHost_def[symmetric] word_codec sizeofs)
next
  case (4 h rest) then show ?case by (simp add: phy_of_net_def phy_net_def)
next
  case (5 bs)
  then have "take 32 bs = take 2 bs @ take 2 (drop 2 bs) @ take 4 (drop 4 bs) @ take 8 (drop 8 bs) @
      take 8 (drop 16 bs) @ take 4 (drop 24 bs) @ take 1 (drop 28 bs) @ take 1 (drop 29 bs) @ take 2 (drop 30 bs)"
    by (simp add: take_glue append_assoc[symmetric] del: append_assoc)
  with 5 show ?case
    by (simp add: phy_of_net_def phy_net_def word_codec sizeofs)
next
  case (6 bs) then show ?case by simp
qed

interpretation opt: header_codec SIZEOF_OPT "\<lambda>_. True" opt_image opt_load ConvertHostToNet_opt
  ConvertNetToHost_opt opt_net opt_of_net
proof (unfold_locales, goal_cases)
  case (1 h) then show ?case by (simp add: opt_net_def sizeofs)
next
  case (2 be h) then show ?case
    by (simp add: opt_image_def ConvertHostToNet_opt_def opt_net_def word_codec)
next
  case (3 bs be) then show ?case
    by (simp add: opt_load_def opt_of_net_def ConvertNetToHost_opt_def ConvertHostToNet_opt_def
        NetToHost_def[symmetric] word_codec sizeofs)
next
  case (4 h rest) then show ?case by (simp add: opt_of_net_def opt_net_def)
next
  case (5 bs)
  then have "take 8 bs = take 4 bs @ take 2 (drop 4 bs) @ take 2 (drop 6 bs)"
    by (simp add: take_glue append_assoc[symmetric] del: append_assoc)
  with 5 show ?case by (simp add: opt_of_net_def opt_net_def word_codec sizeofs)
next
  case (6 bs) then show ?case by simp
qed

interpretation diverge: header_codec SIZEOF_DIVERGE wf_diverge diverge_image diverge_load
  ConvertHostToNet_diverge ConvertNetToHost_diverge diverge_net diverge_of_net
proof (unfold_locales, goal_cases)
  case (1 h) then show ?case by (simp add: diverge_net_def wf_diverge_def sizeofs)
next
  case (2 be h) then show ?case
    by (simp add: diverge_image_def ConvertHostToNet_diverge_def ConvertNetToHost_diverge_def
        diverge_net_def NetToHost_def word_codec)
next
  case (3 bs be) then show ?case
    by (simp add: diverge_load_def diverge_of_net_def ConvertNetToHost_diverge_def word_codec sizeofs)
next
  case (4 h rest) then show ?case by (simp add: diverge_of_net_def diverge_net_def wf_diverge_def sizeofs)
next
  case (5 bs)
  then have "take 40 bs = take 2 bs @ take 2 (drop 2 bs) @ take 4 (drop 4 bs) @ take 32 (drop 8 bs)"
    by (simp add: take_glue append_assoc[symmetric] del: append_assoc)
  with 5 show ?case by (simp add: diverge_of_net_def diverge_net_def word_codec sizeofs)
next
  case (6 bs) then show ?case by (simp add: diverge_of_net_def wf_diverge_def sizeofs)
qed

interpretation msg: header_codec SIZEOF_MSG "\<lambda>_. True" msg_image msg_load ConvertHostToNet_msg
  ConvertNetToHost_msg msg_net msg_of_net
proof (unfold_locales, goal_cases)
  case (1 h) then show ?case by (simp add: msg_net_def sizeofs)
next
  case (2 be h) then show ?case
    by (simp add: msg_image_def ConvertHostToNet_msg_def ConvertNetToHost_msg_def msg_net_def
        NetToHost_def word_codec)
next
  case (3 bs be) then show ?case
    by (simp add: msg_load_def msg_of_net_def ConvertNetToHost_msg_def word_codec sizeofs)
next
  case (4 h rest) then show ?case by (simp add: msg_of_net_def msg_net_def)
next
  case (5 bs)
  then have "take 24 bs = take 2 bs @ take 2 (drop 2 bs) @ take 4 (drop 4 bs) @ take 4 (drop 8 bs) @
      take 4 (drop 12 bs) @ take 4 (drop 16 bs) @ take 4 (drop 20 bs)"
    by (simp add: take_glue append_assoc[symmetric] del: append_assoc)
  with 5 show ?case by (simp add: msg_of_net_def msg_net_def word_codec sizeofs)
next
  case (6 bs) then show ?case by simp
qed

end
