(* ===== verification/Serial_Buffer.thy ===== *)
theory Serial_Buffer
  imports Wire_Headers
begin

text \<open>
  \<^verbatim>\<open>SerialBuffer\<close> (\<^verbatim>\<open>communicator/src/serial_buffer.cpp\<close>): the buffer that carries one frame.
  \<open>oringinalBytes\<close> is the owned allocation \<^verbatim>\<open>oringinalBytes_\<close>, \<open>bytesOff\<close> the offset of
  \<^verbatim>\<open>bytes_\<close> in it (the extend head lies before it), \<open>externalBytes\<close> the memory of a received
  packet that the buffer only refers to.  \<open>sb_ok\<close> is the type invariant; the operations that
  build a buffer establish it, and every view the accessors hand out lies inside the buffer.
\<close>

section \<open>State\<close>

record serial_buffer =
  oringinalBytes :: "byte list option"
  bytesOff :: "nat option"
  externalBytes :: "byte list option"
  totalLen :: u32
  headerLen :: u32
  payloadLen :: u32
  paddingLen :: u32
  extendHeadLen :: u32
  isExternalStackMemory :: bool

definition new_SerialBuffer :: serial_buffer where
  "new_SerialBuffer =
     \<lparr>oringinalBytes = None, bytesOff = None, externalBytes = None, totalLen = 0, headerLen = 0,
      payloadLen = 0, paddingLen = 0, extendHeadLen = 0, isExternalStackMemory = False\<rparr>"

definition MAX_TOTAL_LEN :: u32 where "MAX_TOTAL_LEN = 104857600"
definition MAX_EXTEND_HEAD_LENGTH :: u32 where "MAX_EXTEND_HEAD_LENGTH = 512"
definition INT32_MAX64 :: u64 where "INT32_MAX64 = 2147483647"

section \<open>Operations\<close>

definition SetExtendHeadLength :: "u32 \<Rightarrow> serial_buffer \<Rightarrow> serial_buffer" where
  "SetExtendHeadLength extendHeaderLen b = b\<lparr>extendHeadLen := extendHeaderLen\<rparr>"

definition AllocBufferByPayloadLength ::
    "allocator \<Rightarrow> u32 \<Rightarrow> u32 \<Rightarrow> serial_buffer \<Rightarrow> errcode \<times> serial_buffer" where
  "AllocBufferByPayloadLength mem inPayloadLen inHeaderLen b =
     (if oringinalBytes b \<noteq> None \<or> bytesOff b \<noteq> None \<or> externalBytes b \<noteq> None \<or>
         BYTE_8_ALIGN (ucast (payloadLen b) + ucast (headerLen b) :: u64) > INT32_MAX64
      then (E_NOT_PERMIT, b)
      else
        let total = BYTE_8_ALIGN (inPayloadLen + inHeaderLen);
            b1 = b\<lparr>payloadLen := inPayloadLen, headerLen := inHeaderLen, totalLen := total,
                   paddingLen := total - inPayloadLen - inHeaderLen\<rparr>
        in if total = 0 \<or> total > MAX_TOTAL_LEN then (E_INVALID_ARGS, b1)
           else if \<not> mem (NewBytes (total + extendHeadLen b1)) then (E_OUT_OF_MEMORY, b1)
           else (E_OK, b1\<lparr>oringinalBytes := Some (replicate (unat (total + extendHeadLen b1)) 0),
                          bytesOff := Some (unat (extendHeadLen b1))\<rparr>))"

definition AllocBufferByTotalLength ::
    "allocator \<Rightarrow> u32 \<Rightarrow> u32 \<Rightarrow> serial_buffer \<Rightarrow> errcode \<times> serial_buffer" where
  "AllocBufferByTotalLength mem inTotalLen inHeaderLen b =
     (if bytesOff b \<noteq> None \<or> externalBytes b \<noteq> None then (E_NOT_PERMIT, b)
      else if inTotalLen = 0 \<or> inTotalLen > MAX_TOTAL_LEN \<or> inTotalLen < inHeaderLen then (E_INVALID_ARGS, b)
      else
        let b1 = b\<lparr>totalLen := inTotalLen, headerLen := inHeaderLen,
                   payloadLen := inTotalLen - inHeaderLen, paddingLen := 0\<rparr>
        in if \<not> mem (NewBytes inTotalLen) then (E_OUT_OF_MEMORY, b1)
           else (E_OK, b1\<lparr>oringinalBytes := Some (replicate (unat inTotalLen) 0), bytesOff := Some 0\<rparr>))"

definition SetExternalBuff ::
    "byte list option \<Rightarrow> u32 \<Rightarrow> u32 \<Rightarrow> serial_buffer \<Rightarrow> errcode \<times> serial_buffer" where
  "SetExternalBuff buff inTotalLen inHeaderLen b =
     (if bytesOff b \<noteq> None \<or> externalBytes b \<noteq> None then (E_NOT_PERMIT, b)
      else if buff = None \<or> inTotalLen = 0 \<or> inTotalLen > MAX_TOTAL_LEN \<or> inTotalLen < inHeaderLen
      then (E_INVALID_ARGS, b)
      else (E_OK, b\<lparr>totalLen := inTotalLen, headerLen := inHeaderLen,
                    payloadLen := inTotalLen - inHeaderLen, paddingLen := 0,
                    isExternalStackMemory := True, externalBytes := buff\<rparr>))"

text \<open>The memory from \<^verbatim>\<open>bytes_\<close> on.\<close>

definition bytes_mem :: "serial_buffer \<Rightarrow> byte list option" where
  "bytes_mem b =
     (case (oringinalBytes b, bytesOff b) of (Some bs, Some off) \<Rightarrow> Some (drop off bs) | _ \<Rightarrow> None)"

definition Clone :: "allocator \<Rightarrow> serial_buffer \<Rightarrow> serial_buffer res" where
  "Clone mem b =
     guard_err (totalLen b = 0) E_INVALID_ARGS
    (guard_err (\<not> mem NewSerialBuffer) E_OUT_OF_MEMORY
    (case bytesOff b of
       None \<Rightarrow> Ok (b\<lparr>oringinalBytes := None, bytesOff := None\<rparr>)
     | Some _ \<Rightarrow>
         guard_err (\<not> mem (NewBytes (totalLen b))) E_OUT_OF_MEMORY
        (case bytes_mem b of
           None \<Rightarrow> Fault
         | Some src \<Rightarrow>
             res_bind (read_at src 0 (unat (totalLen b)))
               (\<lambda>copy. Ok (b\<lparr>oringinalBytes := Some copy, bytesOff := Some 0\<rparr>)))))"

definition ConvertForCrossThread :: "allocator \<Rightarrow> serial_buffer \<Rightarrow> serial_buffer res" where
  "ConvertForCrossThread mem b =
     guard_err (totalLen b = 0) E_INVALID_ARGS
    (case externalBytes b of
       None \<Rightarrow> Ok b
     | Some ext \<Rightarrow>
         guard_err (\<not> mem (NewBytes (totalLen b))) E_OUT_OF_MEMORY
        (res_bind (read_at ext 0 (unat (totalLen b)))
           (\<lambda>copy. Ok (b\<lparr>bytesOff := Some 0, externalBytes := None, isExternalStackMemory := False,
                         oringinalBytes := Some copy, extendHeadLen := 0\<rparr>))))"

definition GetSize :: "serial_buffer \<Rightarrow> u32" where
  "GetSize b = (if bytesOff b = None \<and> externalBytes b = None then 0 else totalLen b)"

text \<open>
  The accessors return a pointer and a length.  A writable pointer is an offset into the owned
  allocation; a read-only pointer is given by the bytes from there on.
\<close>

definition writable :: "u32 \<Rightarrow> u32 \<Rightarrow> serial_buffer \<Rightarrow> nat option \<times> u32" where
  "writable skip len b =
     (case bytesOff b of None \<Rightarrow> (None, 0) | Some off \<Rightarrow> (Some (off + unat skip), len))"

definition GetWritableBytesForEntireBuffer :: "serial_buffer \<Rightarrow> nat option \<times> u32" where
  "GetWritableBytesForEntireBuffer b = writable 0 (totalLen b) b"

definition GetWritableBytesForEntireFrame :: "serial_buffer \<Rightarrow> nat option \<times> u32" where
  "GetWritableBytesForEntireFrame b = writable 0 (totalLen b - paddingLen b) b"

definition GetWritableBytesForHeader :: "serial_buffer \<Rightarrow> nat option \<times> u32" where
  "GetWritableBytesForHeader b = writable 0 (headerLen b) b"

definition GetWritableBytesForPayload :: "serial_buffer \<Rightarrow> nat option \<times> u32" where
  "GetWritableBytesForPayload b = writable (headerLen b) (payloadLen b) b"

definition readonly :: "u32 \<Rightarrow> u32 \<Rightarrow> serial_buffer \<Rightarrow> byte list option \<times> u32" where
  "readonly skip len b =
     (if isExternalStackMemory b then (map_option (drop (unat skip)) (externalBytes b), len)
      else if bytesOff b \<noteq> None then (map_option (drop (unat skip)) (bytes_mem b), len)
      else (None, 0))"

definition GetReadOnlyBytesForEntireBuffer :: "serial_buffer \<Rightarrow> byte list option \<times> u32" where
  "GetReadOnlyBytesForEntireBuffer b = readonly 0 (totalLen b) b"

definition GetReadOnlyBytesForEntireFrame :: "serial_buffer \<Rightarrow> byte list option \<times> u32" where
  "GetReadOnlyBytesForEntireFrame b = readonly 0 (totalLen b - paddingLen b) b"

definition GetReadOnlyBytesForHeader :: "serial_buffer \<Rightarrow> byte list option \<times> u32" where
  "GetReadOnlyBytesForHeader b = readonly 0 (headerLen b) b"

definition GetReadOnlyBytesForPayload :: "serial_buffer \<Rightarrow> byte list option \<times> u32" where
  "GetReadOnlyBytesForPayload b = readonly (headerLen b) (payloadLen b) b"

text \<open>Writing through a pointer into the owned allocation, with \<^verbatim>\<open>memcpy_s\<close>.\<close>

definition sb_memcpy :: "serial_buffer \<Rightarrow> nat \<Rightarrow> nat \<Rightarrow> byte list \<Rightarrow> serial_buffer res" where
  "sb_memcpy b off destMax src =
     (case oringinalBytes b of
        None \<Rightarrow> Fault
      | Some bs \<Rightarrow> res_bind (memcpy_s bs off destMax src) (\<lambda>bs'. Ok (b\<lparr>oringinalBytes := Some bs'\<rparr>)))"

section \<open>The invariant\<close>

text \<open>The three parts of the buffer add up to its length, without wrap-around.\<close>

definition sb_lens_ok :: "serial_buffer \<Rightarrow> bool" where
  "sb_lens_ok b \<longleftrightarrow>
     unat (totalLen b) = unat (headerLen b) + unat (payloadLen b) + unat (paddingLen b) \<and>
     paddingLen b < 8 \<and> 0 < totalLen b \<and> totalLen b \<le> MAX_TOTAL_LEN"

definition sb_owned :: "serial_buffer \<Rightarrow> bool" where
  "sb_owned b \<longleftrightarrow>
     externalBytes b = None \<and> \<not> isExternalStackMemory b \<and>
     (\<exists>bs. oringinalBytes b = Some bs \<and> bytesOff b = Some (unat (extendHeadLen b)) \<and>
           length bs = unat (extendHeadLen b) + unat (totalLen b))"

definition sb_borrowed :: "serial_buffer \<Rightarrow> bool" where
  "sb_borrowed b \<longleftrightarrow>
     oringinalBytes b = None \<and> bytesOff b = None \<and> isExternalStackMemory b \<and>
     (\<exists>ext. externalBytes b = Some ext \<and> unat (totalLen b) \<le> length ext)"

definition sb_ok :: "serial_buffer \<Rightarrow> bool" where
  "sb_ok b \<longleftrightarrow> sb_lens_ok b \<and> (sb_owned b \<or> sb_borrowed b)"

text \<open>The bytes of the buffer: \<open>totalLen\<close> bytes from \<^verbatim>\<open>bytes_\<close> or \<^verbatim>\<open>externalBytes_\<close>.\<close>

definition content :: "serial_buffer \<Rightarrow> byte list" where
  "content b =
     (case (if isExternalStackMemory b then externalBytes b else bytes_mem b) of
        None \<Rightarrow> [] | Some m \<Rightarrow> take (unat (totalLen b)) m)"

lemmas sb_defs = sb_ok_def sb_lens_ok_def sb_owned_def sb_borrowed_def

lemma length_content: "sb_ok b \<Longrightarrow> length (content b) = unat (totalLen b)"
  by (auto simp: sb_defs content_def bytes_mem_def)

lemma sb_lens_sub:
  assumes "sb_lens_ok b"
  shows "unat (totalLen b - paddingLen b) = unat (headerLen b) + unat (payloadLen b)"
  using assms by (subst unat_sub) (auto simp: sb_lens_ok_def word_le_nat_alt)

text \<open>Every read-only view of a well-formed buffer lies inside it, at the offset it stands for.\<close>

lemma readonly_view:
  assumes ok: "sb_ok b" and v: "unat skip + unat len \<le> unat (totalLen b)"
  shows "\<exists>m. readonly skip len b = (Some m, len) \<and> unat len \<le> length m \<and>
             take (unat len) m = take (unat len) (drop (unat skip) (content b))"
proof -
  from ok consider "sb_owned b" | "sb_borrowed b" by (auto simp: sb_ok_def)
  then show ?thesis
  proof cases
    case 1
    then obtain bs where "oringinalBytes b = Some bs" "bytesOff b = Some (unat (extendHeadLen b))"
      "length bs = unat (extendHeadLen b) + unat (totalLen b)" "\<not> isExternalStackMemory b"
      by (auto simp: sb_owned_def)
    with v show ?thesis
      by (auto simp: readonly_def bytes_mem_def content_def drop_take min_def)
  next
    case 2
    then obtain ext where "externalBytes b = Some ext" "isExternalStackMemory b"
      "unat (totalLen b) \<le> length ext" by (auto simp: sb_borrowed_def)
    with v show ?thesis
      by (auto simp: readonly_def content_def drop_take min_def)
  qed
qed

lemma writable_view:
  assumes "sb_ok b" "sb_owned b" "unat skip + unat len \<le> unat (totalLen b)"
  shows "\<exists>bs off. writable skip len b = (Some off, len) \<and> oringinalBytes b = Some bs \<and>
           off = unat (extendHeadLen b) + unat skip \<and> off + unat len \<le> length bs"
  using assms by (auto simp: sb_owned_def writable_def)

lemma content_owned:
  "sb_owned b \<Longrightarrow> oringinalBytes b = Some bs \<Longrightarrow> content b = drop (unat (extendHeadLen b)) bs"
  by (auto simp: sb_owned_def content_def bytes_mem_def)

text \<open>The extend head before the frame, and what a write into the frame keeps.\<close>

definition sb_head :: "serial_buffer \<Rightarrow> byte list" where
  "sb_head b = (case oringinalBytes b of None \<Rightarrow> [] | Some bs \<Rightarrow> take (unat (extendHeadLen b)) bs)"

definition same_shape :: "serial_buffer \<Rightarrow> serial_buffer \<Rightarrow> bool" where
  "same_shape b b' \<longleftrightarrow>
     totalLen b' = totalLen b \<and> headerLen b' = headerLen b \<and> payloadLen b' = payloadLen b \<and>
     paddingLen b' = paddingLen b \<and> extendHeadLen b' = extendHeadLen b \<and> sb_head b' = sb_head b"

lemma same_shape_refl [simp]: "same_shape b b"
  by (simp add: same_shape_def)

lemma same_shape_trans: "same_shape a b \<Longrightarrow> same_shape b c \<Longrightarrow> same_shape a c"
  by (simp add: same_shape_def)

text \<open>Copying into an owned buffer at an offset from \<^verbatim>\<open>bytes_\<close> overwrites its content there.\<close>

lemma sb_memcpy_content:
  assumes ok: "sb_ok b" and own: "sb_owned b" and fit: "k + length src \<le> unat (totalLen b)"
    and mx: "length src \<le> m"
  shows "\<exists>b'. sb_memcpy b (unat (extendHeadLen b) + k) m src = Ok b' \<and>
           content b' = overwrite (content b) k src \<and> sb_ok b' \<and> sb_owned b' \<and> same_shape b b'"
proof -
  let ?e = "unat (extendHeadLen b)"
  obtain bs where bs: "oringinalBytes b = Some bs" "length bs = ?e + unat (totalLen b)"
    using own by (auto simp: sb_owned_def)
  let ?b = "b\<lparr>oringinalBytes := Some (overwrite bs (?e + k) src)\<rparr>"
  have w: "sb_memcpy b (?e + k) m src = Ok ?b"
    using bs fit mx by (simp add: sb_memcpy_def memcpy_s_def write_at_def)
  have own': "sb_owned ?b" using own bs fit by (auto simp: sb_owned_def)
  have "content ?b = drop ?e (overwrite bs (?e + k) src)"
    using content_owned[OF own'] by simp
  also have "\<dots> = overwrite (drop ?e bs) k src"
    using bs fit by (simp add: overwrite_def drop_take ac_simps)
  also have "drop ?e bs = content b"
    using content_owned[OF own bs(1)] by simp
  finally have "content ?b = overwrite (content b) k src" .
  moreover have "sb_ok ?b" using own' ok by (simp add: sb_ok_def sb_lens_ok_def)
  moreover have "same_shape b ?b" using bs fit by (simp add: same_shape_def sb_head_def)
  ultimately show ?thesis using w own' by auto
qed

section \<open>Building buffers\<close>

lemma MAX_TOTAL_LEN_unat [simp]: "unat MAX_TOTAL_LEN = 104857600"
  by (simp add: MAX_TOTAL_LEN_def)

lemma align_pad:
  fixes p h :: u32
  assumes "unat p + unat h + 7 < 2 ^ 32"
  shows "unat (BYTE_8_ALIGN (p + h)) = unat p + unat h + unat (BYTE_8_ALIGN (p + h) - p - h)"
    and "BYTE_8_ALIGN (p + h) - p - h < 8"
    and "unat (BYTE_8_ALIGN (p + h)) mod 8 = 0"
proof -
  let ?t = "BYTE_8_ALIGN (p + h)"
  have s: "unat (p + h) = unat p + unat h" by (rule unat_add32) (use assms in simp)
  have t: "unat ?t = 8 * ((unat p + unat h + 7) div 8)"
    using assms s by (subst unat_BYTE_8_ALIGN32) auto
  have le: "unat p + unat h \<le> unat ?t" and lt: "unat ?t < unat p + unat h + 8"
    unfolding t by presburger+
  have "?t - p - h = ?t - (p + h)" by simp
  then have d: "unat (?t - p - h) = unat ?t - (unat p + unat h)"
    using le s by (simp add: unat_sub word_le_nat_alt)
  show "unat ?t = unat p + unat h + unat (?t - p - h)" using d le by simp
  show "?t - p - h < 8" using d le lt by (simp add: word_less_nat_alt)
  show "unat ?t mod 8 = 0" by (simp add: t)
qed

text \<open>
  A buffer allocated by payload length, when the two lengths do not overflow a
  \<^verbatim>\<open>uint32_t\<close> and the extend head is within its limit, is well formed: header, payload and at
  most seven bytes of padding add up to its length, which is a multiple of eight, all bytes are
  zero and the extend head lies before \<^verbatim>\<open>bytes_\<close>.
\<close>

lemma AllocBufferByPayloadLength_ok:
  assumes "AllocBufferByPayloadLength mem p h (SetExtendHeadLength ext new_SerialBuffer) = (E_OK, b)"
    and "unat p + unat h + 7 < 2 ^ 32" and "ext \<le> MAX_EXTEND_HEAD_LENGTH"
  shows "sb_ok b \<and> sb_owned b \<and> headerLen b = h \<and> payloadLen b = p \<and> extendHeadLen b = ext \<and>
    unat (totalLen b) = 8 * ((unat p + unat h + 7) div 8) \<and>
    content b = replicate (unat (totalLen b)) 0"
proof -
  let ?t = "BYTE_8_ALIGN (p + h)"
  from assms(1) have t: "?t \<noteq> 0" "?t \<le> MAX_TOTAL_LEN"
    and b: "b = \<lparr>oringinalBytes = Some (replicate (unat (?t + ext)) 0), bytesOff = Some (unat ext),
      externalBytes = None, totalLen = ?t, headerLen = h, payloadLen = p, paddingLen = ?t - p - h,
      extendHeadLen = ext, isExternalStackMemory = False\<rparr>"
    by (auto simp: AllocBufferByPayloadLength_def SetExtendHeadLength_def new_SerialBuffer_def Let_def
        split: if_splits)
  have e: "unat (?t + ext) = unat ext + unat ?t"
    using t(2) assms(3) by (subst unat_add32) (auto simp: u32_le MAX_EXTEND_HEAD_LENGTH_def)
  have s: "unat (p + h) = unat p + unat h" by (rule unat_add32) (use assms(2) in simp)
  show ?thesis
    using align_pad[OF assms(2)] t e s assms(2)
    by (auto simp: b sb_defs content_def bytes_mem_def word_neq_0_conv unat_BYTE_8_ALIGN32)
qed

text \<open>
  The overflow guard of \<^verbatim>\<open>AllocBufferByPayloadLength\<close> tests the lengths the object had before
  the call, which are zero for a new buffer, and not the requested ones: a request whose
  aligned sum wraps around is accepted with a buffer far smaller than the payload it records.
\<close>

theorem AllocBufferByPayloadLength_accepts_overflow:
  "\<exists>b. AllocBufferByPayloadLength never_oom 0xFFFFFFF0 0x20 new_SerialBuffer = (E_OK, b) \<and>
     unat (totalLen b) = 16 \<and> unat (payloadLen b) = 4294967280 \<and> \<not> sb_ok b"
  by (simp add: AllocBufferByPayloadLength_def new_SerialBuffer_def BYTE_8_ALIGN_def INT32_MAX64_def
      MAX_TOTAL_LEN_def Let_def sb_ok_def sb_lens_ok_def)

lemma AllocBufferByTotalLength_ok:
  assumes "AllocBufferByTotalLength mem t h new_SerialBuffer = (E_OK, b)"
  shows "sb_ok b \<and> sb_owned b \<and> headerLen b = h \<and> totalLen b = t \<and> paddingLen b = 0 \<and>
    extendHeadLen b = 0 \<and> unat (payloadLen b) = unat t - unat h \<and> content b = replicate (unat t) 0"
proof -
  from assms have t: "t \<noteq> 0" "t \<le> MAX_TOTAL_LEN" "h \<le> t"
    and b: "b = \<lparr>oringinalBytes = Some (replicate (unat t) 0), bytesOff = Some 0,
      externalBytes = None, totalLen = t, headerLen = h, payloadLen = t - h, paddingLen = 0,
      extendHeadLen = 0, isExternalStackMemory = False\<rparr>"
    by (auto simp: AllocBufferByTotalLength_def new_SerialBuffer_def Let_def split: if_splits)
  then show ?thesis
    using unat_sub[OF t(3)] by (auto simp: b sb_defs content_def bytes_mem_def word_neq_0_conv u32_le)
qed

lemma AllocBufferByTotalLength_E_OK:
  "mem (NewBytes t) \<Longrightarrow> 0 < t \<Longrightarrow> t \<le> MAX_TOTAL_LEN \<Longrightarrow> h \<le> t \<Longrightarrow>
     fst (AllocBufferByTotalLength mem t h new_SerialBuffer) = E_OK"
  by (auto simp: AllocBufferByTotalLength_def new_SerialBuffer_def Let_def)

lemma SetExternalBuff_ok:
  assumes "SetExternalBuff (Some bs) t h new_SerialBuffer = (E_OK, b)" and "unat t \<le> length bs"
  shows "sb_ok b \<and> sb_borrowed b \<and> headerLen b = h \<and> totalLen b = t \<and> paddingLen b = 0 \<and>
    extendHeadLen b = 0 \<and> unat (payloadLen b) = unat t - unat h \<and> content b = take (unat t) bs"
proof -
  from assms have t: "t \<noteq> 0" "t \<le> MAX_TOTAL_LEN" "h \<le> t"
    and b: "b = \<lparr>oringinalBytes = None, bytesOff = None, externalBytes = Some bs, totalLen = t,
      headerLen = h, payloadLen = t - h, paddingLen = 0, extendHeadLen = 0, isExternalStackMemory = True\<rparr>"
    by (auto simp: SetExternalBuff_def new_SerialBuffer_def Let_def split: if_splits)
  then show ?thesis
    using unat_sub[OF t(3)] assms(2) by (auto simp: b sb_defs content_def word_neq_0_conv u32_le)
qed

section \<open>Taking a received frame out of its packet\<close>

text \<open>
  \<^verbatim>\<open>ConvertForCrossThread\<close> turns any well-formed buffer into one that owns its bytes and no
  longer refers to the packet it was received in, with the same length fields and the same
  content; it fails only for lack of memory and never reads outside the packet.
\<close>

lemma ConvertForCrossThread_ok:
  assumes "sb_ok b"
  shows "(\<exists>b'. ConvertForCrossThread mem b = Ok b' \<and> sb_ok b' \<and> sb_owned b' \<and> content b' = content b \<and>
            totalLen b' = totalLen b \<and> headerLen b' = headerLen b \<and> payloadLen b' = payloadLen b) \<or>
         (ConvertForCrossThread mem b = Err E_OUT_OF_MEMORY \<and> \<not> mem (NewBytes (totalLen b)))"
proof -
  from assms have t: "totalLen b \<noteq> 0" by (auto simp: sb_ok_def sb_lens_ok_def)
  show ?thesis
  proof (cases "sb_owned b")
    case True
    then show ?thesis using assms t by (auto simp: ConvertForCrossThread_def sb_owned_def)
  next
    case False
    then have br: "sb_borrowed b" using assms by (simp add: sb_ok_def)
    then obtain ext where "externalBytes b = Some ext" "unat (totalLen b) \<le> length ext"
      "isExternalStackMemory b" by (auto simp: sb_borrowed_def)
    then show ?thesis using t assms
      by (auto simp: ConvertForCrossThread_def read_at_def content_def bytes_mem_def sb_ok_def
          sb_lens_ok_def sb_owned_def)
  qed
qed

section \<open>Cloning\<close>

text \<open>A clone carries the same bytes and the same length fields.\<close>

lemma Clone_shape:
  assumes "sb_ok b" "Clone mem b = Ok c"
  shows "(sb_owned b \<and> c = b\<lparr>oringinalBytes := Some (content b), bytesOff := Some 0\<rparr>) \<or> (sb_borrowed b \<and> c = b)"
proof (cases "sb_owned b")
  case True
  then obtain bs where bs: "oringinalBytes b = Some bs" "bytesOff b = Some (unat (extendHeadLen b))"
    "length bs = unat (extendHeadLen b) + unat (totalLen b)" by (auto simp: sb_owned_def)
  then have m: "bytes_mem b = Some (content b)" using content_owned[OF True bs(1)] by (simp add: bytes_mem_def)
  show ?thesis using True assms length_content[OF assms(1)]
    by (simp add: Clone_def bs(2) m read_at_def)
next
  case False
  then have "sb_borrowed b" using assms(1) by (simp add: sb_ok_def)
  then show ?thesis using assms(2) by (auto simp: Clone_def sb_borrowed_def)
qed

lemma Clone_content:
  assumes "sb_ok b" "Clone mem b = Ok c"
  shows "content c = content b \<and> sb_lens_ok c \<and> totalLen c = totalLen b \<and> headerLen c = headerLen b \<and>
    payloadLen c = payloadLen b \<and> paddingLen c = paddingLen b \<and> extendHeadLen c = extendHeadLen b"
proof -
  consider "c = b" | "sb_owned b" "c = b\<lparr>oringinalBytes := Some (content b), bytesOff := Some 0\<rparr>"
    using Clone_shape[OF assms] by blast
  then show ?thesis
  proof cases
    case 2
    then have "content c = content b"
      using length_content[OF assms(1)] unfolding content_def[of c] by (simp add: bytes_mem_def sb_owned_def)
    then show ?thesis using 2 assms(1) by (simp add: sb_ok_def sb_lens_ok_def)
  qed (use assms(1) in \<open>simp add: sb_ok_def\<close>)
qed

text \<open>
  \<^verbatim>\<open>Clone\<close> of a well-formed owned buffer is well formed exactly when the buffer has no
  extend head: the clone allocates only the frame bytes, but keeps the extend head length, so
  the address \<^verbatim>\<open>bytes_ - extendHeadLen_\<close> that the send path computes lies before the allocation.
\<close>

theorem Clone_ok_iff_no_extend_head:
  assumes "sb_ok b" and "sb_owned b" and "Clone mem b = Ok c"
  shows "sb_ok c \<longleftrightarrow> extendHeadLen b = 0"
proof -
  have "\<not> sb_borrowed b" using assms(2) by (auto simp: sb_owned_def sb_borrowed_def)
  then have "c = b\<lparr>oringinalBytes := Some (content b), bytesOff := Some 0\<rparr>"
    using Clone_shape[OF assms(1,3)] by simp
  then show ?thesis using assms(1,2) length_content[OF assms(1)]
    by (auto simp: sb_ok_def sb_lens_ok_def sb_owned_def sb_borrowed_def unat_eq_zero)
qed

theorem Clone_ok_iff_no_extend_head_witness:
  "\<exists>b c. AllocBufferByPayloadLength never_oom 8 32 (SetExtendHeadLength 8 new_SerialBuffer) = (E_OK, b) \<and>
     Clone never_oom b = Ok c \<and> sb_ok b \<and> \<not> sb_ok c"
proof -
  obtain b where b: "AllocBufferByPayloadLength never_oom 8 32 (SetExtendHeadLength 8 new_SerialBuffer) = (E_OK, b)"
    by (simp add: AllocBufferByPayloadLength_def SetExtendHeadLength_def new_SerialBuffer_def
        BYTE_8_ALIGN_def INT32_MAX64_def MAX_TOTAL_LEN_def Let_def)
  have ok: "sb_ok b" "sb_owned b" "extendHeadLen b \<noteq> 0"
    using b by (auto simp: AllocBufferByPayloadLength_def SetExtendHeadLength_def new_SerialBuffer_def
        BYTE_8_ALIGN_def INT32_MAX64_def MAX_TOTAL_LEN_def Let_def sb_defs)
  then obtain c where c: "Clone never_oom b = Ok c"
    by (auto simp: Clone_def sb_defs bytes_mem_def read_at_def)
  show ?thesis using b c ok Clone_ok_iff_no_extend_head[OF ok(1,2) c] by blast
qed

end
