(* ===== verification/Ordered_Map.thy ===== *)
theory Ordered_Map
  imports DB_Prelude
begin

text \<open>
  \<^verbatim>\<open>std::map\<close> as the sequence of its entries in key order.  Iterating over the container is
  recursion over the list, so the order in which the source visits entries (and hence which of
  several candidates it picks first) is part of the model.  \<open>om_find\<close> is \<^verbatim>\<open>find\<close>/\<^verbatim>\<open>count\<close>,
  \<open>om_insert\<close> the assignment \<^verbatim>\<open>m[k] = v\<close>, \<open>om_erase\<close> \<^verbatim>\<open>erase\<close>, and \<open>om_get d\<close> the value that
  \<^verbatim>\<open>operator[]\<close> yields when absent keys are default-constructed as \<open>d\<close>.
  \<^verbatim>\<open>std::set\<close> is a strictly sorted list with \<open>insort_insert\<close> and \<open>removeAll\<close>.
\<close>

type_synonym ('k, 'v) omap = "('k \<times> 'v) list"

definition om_ok :: "('k::linorder, 'v) omap \<Rightarrow> bool" where
  "om_ok m \<longleftrightarrow> sorted_wrt (<) (map fst m)"

definition om_find :: "('k, 'v) omap \<Rightarrow> 'k \<Rightarrow> 'v option" where
  "om_find m k = map_of m k"

definition om_count :: "('k, 'v) omap \<Rightarrow> 'k \<Rightarrow> bool" where
  "om_count m k \<longleftrightarrow> om_find m k \<noteq> None"

definition om_get :: "'v \<Rightarrow> ('k, 'v) omap \<Rightarrow> 'k \<Rightarrow> 'v" where
  "om_get d m k = (case om_find m k of None \<Rightarrow> d | Some v \<Rightarrow> v)"

fun om_insert :: "'k::linorder \<Rightarrow> 'v \<Rightarrow> ('k, 'v) omap \<Rightarrow> ('k, 'v) omap" where
  "om_insert k v [] = [(k, v)]"
| "om_insert k v ((a, b) # m) =
     (if k < a then (k, v) # (a, b) # m
      else if k = a then (k, v) # m
      else (a, b) # om_insert k v m)"

definition om_erase :: "'k \<Rightarrow> ('k, 'v) omap \<Rightarrow> ('k, 'v) omap" where
  "om_erase k m = filter (\<lambda>e. fst e \<noteq> k) m"

section \<open>The container invariant\<close>

lemma om_ok_Nil [simp]: "om_ok []"
  by (simp add: om_ok_def)

lemma om_ok_Cons: "om_ok ((k, v) # m) \<longleftrightarrow> (\<forall>e \<in> set m. k < fst e) \<and> om_ok m"
  by (auto simp: om_ok_def)

lemma om_ok_filter [simp]: "om_ok m \<Longrightarrow> om_ok (filter P m)"
  by (induction m) (auto simp: om_ok_Cons)

lemma om_ok_erase [simp]: "om_ok m \<Longrightarrow> om_ok (om_erase k m)"
  by (simp add: om_erase_def)

lemma om_ok_map_vals [simp]: "om_ok m \<Longrightarrow> om_ok (map (\<lambda>(k, v). (k, f k v)) m)"
  by (induction m) (fastforce simp: om_ok_Cons)+

lemma fst_set_om_insert: "fst ` set (om_insert k v m) = insert k (fst ` set m)"
  by (induction m) (force split: if_splits)+

lemma set_om_insert_sub: "set (om_insert k v m) \<subseteq> insert (k, v) (set m)"
  by (induction m) (auto split: if_splits)

lemma om_ok_insert [simp]: "om_ok m \<Longrightarrow> om_ok (om_insert k v m)"
proof (induction m)
  case (Cons e m)
  obtain a b where e: "e = (a, b)" by (cases e)
  show ?case
  proof (cases "a < k")
    case True
    have "\<forall>x \<in> set (om_insert k v m). a < fst x"
      using Cons.prems True set_om_insert_sub[of k v m] by (auto simp: e om_ok_Cons)
    then show ?thesis using Cons True by (auto simp: e om_ok_Cons)
  next
    case False
    then show ?thesis using Cons.prems by (auto simp: e om_ok_Cons)
  qed
qed (simp add: om_ok_Cons)

lemma om_ok_distinct: "om_ok m \<Longrightarrow> distinct (map fst m)"
  by (auto simp: om_ok_def strict_sorted_iff)

section \<open>Lookup laws\<close>

lemma om_find_Nil [simp]: "om_find [] k = None"
  by (simp add: om_find_def)

lemma om_find_Cons: "om_find ((a, b) # m) k = (if k = a then Some b else om_find m k)"
  by (simp add: om_find_def)

lemma om_find_insert: "om_find (om_insert k v m) k' = (if k' = k then Some v else om_find m k')"
  by (induction m) (auto simp: om_find_Cons)

lemma om_find_insert_same [simp]: "om_find (om_insert k v m) k = Some v"
  by (simp add: om_find_insert)

lemma om_insert_twice: "om_insert k v (om_insert k w m) = om_insert k v m"
  by (induction m) auto

lemma om_find_erase: "om_find (om_erase k m) k' = (if k' = k then None else om_find m k')"
  by (induction m) (auto simp: om_find_Cons om_erase_def)

lemma om_find_None_iff: "om_find m k = None \<longleftrightarrow> k \<notin> fst ` set m"
  by (simp add: om_find_def map_of_eq_None_iff)

lemma om_find_Some_mem: "om_find m k = Some v \<Longrightarrow> (k, v) \<in> set m"
  by (simp add: om_find_def map_of_SomeD)

lemma om_find_mem: "om_ok m \<Longrightarrow> (k, v) \<in> set m \<Longrightarrow> om_find m k = Some v"
  by (simp add: om_find_def om_ok_distinct)

lemma om_find_iff_mem: "om_ok m \<Longrightarrow> om_find m k = Some v \<longleftrightarrow> (k, v) \<in> set m"
  using om_find_Some_mem om_find_mem by metis

lemma om_count_insert [simp]: "om_count (om_insert k v m) k' \<longleftrightarrow> k' = k \<or> om_count m k'"
  by (simp add: om_count_def om_find_insert)

lemma om_count_erase [simp]: "om_count (om_erase k m) k' \<longleftrightarrow> k' \<noteq> k \<and> om_count m k'"
  by (simp add: om_count_def om_find_erase)

lemma om_get_insert: "om_get d (om_insert k v m) k' = (if k' = k then v else om_get d m k')"
  by (simp add: om_get_def om_find_insert)

lemma om_get_erase: "om_get d (om_erase k m) k' = (if k' = k then d else om_get d m k')"
  by (simp add: om_get_def om_find_erase)

lemma om_get_Nil [simp]: "om_get d [] k = d"
  by (simp add: om_get_def)

lemma om_find_filter:
  "om_ok m \<Longrightarrow> om_find (filter P m) k =
     (case om_find m k of None \<Rightarrow> None | Some v \<Rightarrow> if P (k, v) then Some v else None)"
proof (induction m)
  case (Cons e m)
  obtain a b where e: "e = (a, b)" by (cases e)
  have "om_find (filter P m) a = None"
    using Cons.prems by (auto simp: e om_ok_Cons om_find_None_iff)
  then show ?case using Cons by (auto simp: e om_ok_Cons om_find_Cons split: option.splits)
qed simp

lemma om_find_map_vals:
  "om_find (map (\<lambda>(k, v). (k, f k v)) m) k = map_option (f k) (om_find m k)"
  by (induction m) (auto simp: om_find_Cons)

text \<open>Two maps with the same bindings are the same container.\<close>

lemma om_ext:
  assumes "om_ok m" "om_ok m'" "\<And>k. om_find m k = om_find m' k"
  shows "m = m'"
proof -
  have "set m = set m'"
    using assms by (auto simp: om_find_iff_mem[symmetric])
  moreover have "sorted (map fst m)" "sorted (map fst m')" "distinct (map fst m)" "distinct (map fst m')"
    using assms by (auto simp: om_ok_def strict_sorted_iff)
  ultimately show ?thesis
    by (intro map_sorted_distinct_set_unique[where f = fst])
       (auto simp: distinct_map inj_on_def)
qed

section \<open>Sums over the entries\<close>

text \<open>Statistics kept beside a map change with it by the entry that is added or removed.\<close>

lemma sum_om_insert_new:
  "om_find m k = None \<Longrightarrow>
     sum_list (map f (om_insert k v m)) = f (k, v) + (sum_list (map f m) :: nat)"
  by (induction m) (auto simp: om_find_Cons split: if_splits)

lemma sum_om_erase:
  "om_ok m \<Longrightarrow> om_find m k = Some v \<Longrightarrow>
     sum_list (map f m) = f (k, v) + (sum_list (map f (om_erase k m)) :: nat)"
proof (induction m)
  case (Cons e m)
  obtain a b where e: "e = (a, b)" by (cases e)
  show ?case
  proof (cases "a = k")
    case True
    then have "\<forall>x \<in> set m. fst x \<noteq> k" using Cons.prems(1) by (auto simp: e om_ok_Cons)
    then have "filter (\<lambda>x. fst x \<noteq> k) m = m" by (simp add: filter_id_conv)
    then show ?thesis using True Cons.prems by (simp add: e om_find_Cons om_erase_def)
  next
    case False
    then show ?thesis using Cons by (auto simp: e om_ok_Cons om_find_Cons om_erase_def)
  qed
qed simp

lemma om_insert_erase:
  assumes "om_ok m" shows "om_insert k v (om_erase k m) = om_insert k v m"
  by (rule om_ext) (auto simp: assms om_find_insert om_find_erase)

lemma sum_om_update:
  assumes "om_ok m" "om_find m k = Some v"
  shows "sum_list (map f (om_insert k w m)) + f (k, v) = f (k, w) + (sum_list (map f m) :: nat)"
proof -
  have "sum_list (map f (om_insert k w (om_erase k m))) = f (k, w) + sum_list (map f (om_erase k m))"
    by (rule sum_om_insert_new) (simp add: om_find_erase)
  then show ?thesis using assms sum_om_erase[OF assms, of f] by (simp add: om_insert_erase)
qed

lemma length_om_insert_new: "om_find m k = None \<Longrightarrow> length (om_insert k v m) = Suc (length m)"
  by (induction m) (auto simp: om_find_Cons split: if_splits)

lemma length_om_insert_old: "om_find m k = Some w \<Longrightarrow> om_ok m \<Longrightarrow> length (om_insert k v m) = length m"
proof (induction m)
  case (Cons e m)
  obtain a b where e: "e = (a, b)" by (cases e)
  show ?case
  proof (cases "k < a")
    case True
    then have "om_find m k = None" using Cons.prems(2) by (auto simp: e om_ok_Cons om_find_None_iff)
    then show ?thesis using True Cons.prems by (simp add: e om_find_Cons split: if_splits)
  next
    case False
    then show ?thesis using Cons by (auto simp: e om_ok_Cons om_find_Cons)
  qed
qed simp

lemma length_om_erase: "om_ok m \<Longrightarrow> om_find m k = Some v \<Longrightarrow> length m = Suc (length (om_erase k m))"
  using sum_om_erase[of m k v "\<lambda>_. 1"] by (simp add: sum_list_triv)

text \<open>A key larger than all others is appended at the end.\<close>

lemma om_insert_last: "\<forall>e \<in> set m. fst e < k \<Longrightarrow> om_insert k v m = m @ [(k, v)]"
  by (induction m) auto

section \<open>The interface of the container\<close>

text \<open>
  What the clients use of a map: an update is seen by later lookups of that key and no other.
  The client lemmas are proved from these laws alone.
\<close>

locale dictionary =
  fixes empty :: 'm
    and find :: "'m \<Rightarrow> 'k \<Rightarrow> 'v option"
    and put :: "'k \<Rightarrow> 'v \<Rightarrow> 'm \<Rightarrow> 'm"
    and del :: "'k \<Rightarrow> 'm \<Rightarrow> 'm"
  assumes find_empty: "find empty k = None"
    and find_put: "find (put k v m) k' = (if k' = k then Some v else find m k')"
    and find_del: "find (del k m) k' = (if k' = k then None else find m k')"
begin

lemma find_put_put: "find (put k v (put k w m)) k' = find (put k v m) k'"
  by (simp add: find_put)

lemma find_put_commute: "k \<noteq> l \<Longrightarrow> find (put k v (put l w m)) k' = find (put l w (put k v m)) k'"
  by (simp add: find_put)

lemma find_del_put: "find (del k (put k v m)) k' = find (del k m) k'"
  by (simp add: find_put find_del)

lemma find_puts:
  "find (fold (\<lambda>(k, v). put k v) kvs m) k =
     (case map_of (rev kvs) k of None \<Rightarrow> find m k | Some v \<Rightarrow> Some v)"
  by (induction kvs arbitrary: m) (auto simp: find_put map_add_def split: option.splits)

lemma find_dels: "find (fold del ks m) k = (if k \<in> set ks then None else find m k)"
  by (induction ks arbitrary: m) (auto simp: find_del)

end

interpretation om: dictionary "[]" om_find om_insert om_erase
  by unfold_locales (simp_all add: om_find_insert om_find_erase)

lemma om_ok_erases: "om_ok m \<Longrightarrow> om_ok (fold om_erase ks m)"
  by (induction ks arbitrary: m) auto

text \<open>Erasing a set of recorded keys one by one is filtering them out.\<close>

lemma fold_om_erase: "fold om_erase ks m = filter (\<lambda>e. fst e \<notin> set ks) m"
  by (induction ks arbitrary: m) (auto simp: om_erase_def intro!: filter_cong)

end
