(* ===== verification/Message_Model.thy ===== *)
theory Message_Model
  imports Ordered_Map Wire_Headers
begin

text \<open>
  The data the communicator passes around: priorities and frame types
  (\<^verbatim>\<open>communicator_type_define.h\<close>), the application \<^verbatim>\<open>Message\<close> (\<^verbatim>\<open>message.h\<close>), the
  \<^verbatim>\<open>ParseResult\<close> of a received packet (\<^verbatim>\<open>parse_result.h\<close>), and the table of transform functions
  that the upper modules register per message id (\<^verbatim>\<open>message_transform.h\<close>).
  The object a message carries is of a type \<open>'o\<close> that this layer never looks into.
\<close>

section \<open>Priorities and frame types\<close>

datatype Priority = LOW | NORMAL | HIGH

instantiation Priority :: linorder
begin

fun prio_val :: "Priority \<Rightarrow> nat" where
  "prio_val LOW = 0"
| "prio_val NORMAL = 1"
| "prio_val HIGH = 2"

definition less_eq_Priority :: "Priority \<Rightarrow> Priority \<Rightarrow> bool" where
  "less_eq_Priority p q \<longleftrightarrow> prio_val p \<le> prio_val q"

definition less_Priority :: "Priority \<Rightarrow> Priority \<Rightarrow> bool" where
  "less_Priority p q \<longleftrightarrow> prio_val p < prio_val q"

instance
proof
  fix p q :: Priority
  show "p \<le> q \<Longrightarrow> q \<le> p \<Longrightarrow> p = q"
    by (cases p; cases q) (auto simp: less_eq_Priority_def)
qed (auto simp: less_eq_Priority_def less_Priority_def)

end

lemmas Priority_ord [simp] = less_eq_Priority_def less_Priority_def

datatype FrameType =
    EMPTY | APPLICATION_MESSAGE | COMMUNICATION_LABEL_EXCHANGE
  | COMMUNICATION_LABEL_EXCHANGE_ACK | INVALID_MAX_FRAME_TYPE

fun frameType_val :: "FrameType \<Rightarrow> u8" where
  "frameType_val EMPTY = 0"
| "frameType_val APPLICATION_MESSAGE = 1"
| "frameType_val COMMUNICATION_LABEL_EXCHANGE = 2"
| "frameType_val COMMUNICATION_LABEL_EXCHANGE_ACK = 3"
| "frameType_val INVALID_MAX_FRAME_TYPE = 4"

section \<open>Messages\<close>

definition TYPE_INVALID :: u16 where "TYPE_INVALID = 0"
definition TYPE_REQUEST :: u16 where "TYPE_REQUEST = 1"
definition TYPE_RESPONSE :: u16 where "TYPE_RESPONSE = 2"
definition TYPE_NOTIFY :: u16 where "TYPE_NOTIFY = 3"
definition MSG_VERSION_BASE :: u16 where "MSG_VERSION_BASE = 0"
definition MSG_VERSION_EXT :: u16 where "MSG_VERSION_EXT = 1"
definition SOFTWARE_VERSION_EARLIEST :: u32 where "SOFTWARE_VERSION_EARLIEST = 101"
definition SOFTWARE_VERSION_CURRENT :: u32 where "SOFTWARE_VERSION_CURRENT = 112"
definition SOFTWARE_VERSION_RELEASE_12_0 :: u32 where "SOFTWARE_VERSION_RELEASE_12_0 = 112"

text \<open>The numbers that the error constants of feedback messages have on the wire.\<close>

definition FEEDBACK_UNKNOWN_MESSAGE_NO :: u32 where "FEEDBACK_UNKNOWN_MESSAGE_NO = 1200"
definition FEEDBACK_COMMUNICATOR_NOT_FOUND_NO :: u32 where "FEEDBACK_COMMUNICATOR_NOT_FOUND_NO = 1201"
definition FEEDBACK_DB_CLOSING_NO :: u32 where "FEEDBACK_DB_CLOSING_NO = 1208"
definition NEED_CORRECT_TARGET_USER_NO :: u32 where "NEED_CORRECT_TARGET_USER_NO = 1209"

record 'o message =
  version :: u16
  messageType :: u16
  messageId :: u32
  sessionId :: u32
  sequenceId :: u32
  errorNo :: u32
  remoteSoftwareVersion :: u32
  holder :: "'o option"
  msg_target :: string
  senderUserId :: string
  msg_prio :: Priority

definition new_Message :: "'o message" where
  "new_Message =
     \<lparr>version = MSG_VERSION_BASE, messageType = TYPE_INVALID, messageId = 0, sessionId = 0,
      sequenceId = 0, errorNo = 0, remoteSoftwareVersion = SOFTWARE_VERSION_EARLIEST, holder = None,
      msg_target = [], senderUserId = [], msg_prio = LOW\<rparr>"

definition SetMessageType :: "u16 \<Rightarrow> 'o message \<Rightarrow> 'o message" where
  "SetMessageType inMsgType m =
     (if inMsgType \<noteq> TYPE_REQUEST \<and> inMsgType \<noteq> TYPE_RESPONSE \<and> inMsgType \<noteq> TYPE_NOTIFY then m
      else m\<lparr>messageType := inMsgType\<rparr>)"

definition SetVersion :: "u16 \<Rightarrow> 'o message \<Rightarrow> 'o message" where
  "SetVersion inVersion m =
     (if inVersion \<noteq> MSG_VERSION_BASE \<and> inVersion \<noteq> MSG_VERSION_EXT then m else m\<lparr>version := inVersion\<rparr>)"

definition IsFeedbackError :: "'o message \<Rightarrow> bool" where
  "IsFeedbackError m \<longleftrightarrow>
     errorNo m = FEEDBACK_UNKNOWN_MESSAGE_NO \<or> errorNo m = FEEDBACK_COMMUNICATOR_NOT_FOUND_NO \<or>
     errorNo m = FEEDBACK_DB_CLOSING_NO \<or> errorNo m = NEED_CORRECT_TARGET_USER_NO"

definition IsSupportFeedDbClosing :: "'o message \<Rightarrow> bool" where
  "IsSupportFeedDbClosing m \<longleftrightarrow>
     messageType m = TYPE_REQUEST \<and> remoteSoftwareVersion m \<ge> SOFTWARE_VERSION_RELEASE_12_0"

text \<open>Messages as the class keeps them: the setters admit only these types and versions.\<close>

definition wf_message :: "'o message \<Rightarrow> bool" where
  "wf_message m \<longleftrightarrow>
     messageType m \<in> {TYPE_INVALID, TYPE_REQUEST, TYPE_RESPONSE, TYPE_NOTIFY} \<and>
     version m \<in> {MSG_VERSION_BASE, MSG_VERSION_EXT}"

lemma wf_message_setters [simp]:
  "wf_message new_Message"
  "wf_message m \<Longrightarrow> wf_message (SetMessageType t m)"
  "wf_message m \<Longrightarrow> wf_message (SetVersion v m)"
  by (auto simp: wf_message_def new_Message_def SetMessageType_def SetVersion_def)

section \<open>Transform functions\<close>

text \<open>
  \<^verbatim>\<open>computeFunc\<close> gives the length of the serialized object, \<^verbatim>\<open>serializeFunc\<close> writes it into a
  buffer of the given length (\<open>None\<close>: it reports an error), \<^verbatim>\<open>deserializeFunc\<close> rebuilds the
  object from the received bytes into the message, whose header fields are already set.
\<close>

record 'o transform =
  computeFunc :: "'o message \<Rightarrow> u32"
  serializeFunc :: "u32 \<Rightarrow> 'o message \<Rightarrow> byte list option"
  deserializeFunc :: "byte list \<Rightarrow> 'o message \<Rightarrow> 'o message option"

type_synonym 'o transforms = "(u32, 'o transform) omap"

text \<open>A registration request, whose members may be empty functions.\<close>

record 'o transform_req =
  rq_compute :: "('o message \<Rightarrow> u32) option"
  rq_serialize :: "(u32 \<Rightarrow> 'o message \<Rightarrow> byte list option) option"
  rq_deserialize :: "(byte list \<Rightarrow> 'o message \<Rightarrow> 'o message option) option"

definition RegTransformFunction ::
    "u32 \<Rightarrow> 'o transform_req \<Rightarrow> 'o transforms \<Rightarrow> errcode \<times> 'o transforms" where
  "RegTransformFunction msgId inFunc fs =
     (if om_count fs msgId then (E_ALREADY_REGISTER, fs)
      else case (rq_compute inFunc, rq_serialize inFunc, rq_deserialize inFunc) of
             (Some c, Some s, Some d) \<Rightarrow>
               (E_OK, om_insert msgId \<lparr>computeFunc = c, serializeFunc = s, deserializeFunc = d\<rparr> fs)
           | _ \<Rightarrow> (E_INVALID_ARGS, fs))"

definition UnRegTransformFunction :: "u32 \<Rightarrow> 'o transforms \<Rightarrow> 'o transforms" where
  "UnRegTransformFunction msgId fs = (if om_count fs msgId then om_erase msgId fs else fs)"

definition GetTransformFunc :: "'o transforms \<Rightarrow> u32 \<Rightarrow> 'o transform res" where
  "GetTransformFunc fs msgId = (case om_find fs msgId of None \<Rightarrow> Err E_NOT_REGISTER | Some f \<Rightarrow> Ok f)"

lemma Reg_then_Get:
  assumes "RegTransformFunction k r fs = (E_OK, fs')"
  shows "\<exists>f. GetTransformFunc fs' k = Ok f \<and> GetTransformFunc fs k = Err E_NOT_REGISTER"
  using assms
  by (auto simp: RegTransformFunction_def GetTransformFunc_def om_count_def split: if_splits option.splits)

lemma UnReg_then_Get: "GetTransformFunc (UnRegTransformFunction k fs) k = Err E_NOT_REGISTER"
  by (auto simp: UnRegTransformFunction_def GetTransformFunc_def om_count_def om_find_erase split: option.splits)

section \<open>Parse results\<close>

record parse_result =
  pr_frameId :: u32
  pr_sourceId :: u64
  pr_packetLen :: u32
  pr_paddingLen :: u8
  pr_isFragment :: bool
  pr_frameType :: FrameType
  pr_sendLabelExchange :: bool
  pr_frameLen :: u32
  pr_fragCount :: u16
  pr_fragNo :: u16
  pr_payloadLen :: u32
  pr_commLabel :: label
  pr_distinctValue :: u64
  pr_sequenceId :: u64
  pr_latestCommLabels :: "label list"
  pr_dbVersion :: u16

definition new_ParseResult :: parse_result where
  "new_ParseResult =
     \<lparr>pr_frameId = 0, pr_sourceId = 0, pr_packetLen = 0, pr_paddingLen = 0, pr_isFragment = False,
      pr_frameType = INVALID_MAX_FRAME_TYPE, pr_sendLabelExchange = True, pr_frameLen = 0,
      pr_fragCount = 0, pr_fragNo = 0, pr_payloadLen = 0, pr_commLabel = [], pr_distinctValue = 0,
      pr_sequenceId = 0, pr_latestCommLabels = [], pr_dbVersion = 0\<rparr>"

end
