(* ===== verification/Send_Task_Scheduler.thy ===== *)
theory Send_Task_Scheduler
  imports Serial_Buffer Message_Model
begin

text \<open>
  \<^verbatim>\<open>SendTaskScheduler\<close> (\<^verbatim>\<open>communicator/src/send_task_scheduler.cpp\<close>): the queue of frames to send.
  Tasks are grouped by priority and target; per priority the order of arrival is kept as a list of
  targets.  A target can be put on delay, and the counters decide without a search whether there
  is a task that is not delayed.  The abstract view \<open>pending\<close> is one list of tasks per priority;
  the operations are shown to append to it, to pick from it and to remove from it.
  Every operation runs under \<^verbatim>\<open>overallMutex_\<close>.  A read through \<^verbatim>\<open>operator[]\<close> of an absent key is the
  default value; the entry it would create holds that default.  The completion callback
  \<^verbatim>\<open>onEnd\<close> is an identifier, and the operations that invoke callbacks return the invocations.
\<close>

section \<open>State\<close>

datatype TargetPolicy = NO_DELAY | DELAY

record AccessInfos =
  ai_appId :: string
  ai_storeId :: string
  ai_userId :: string
  ai_subUserId :: string

record SendTask =
  st_buffer :: serial_buffer
  st_dstTarget :: target
  st_onEnd :: "nat option"
  st_frameId :: u32
  st_isValid :: bool
  st_isRetryTask :: bool
  st_infos :: AccessInfos

record SendTaskInfo =
  si_delayFlag :: bool
  si_taskPrio :: Priority

type_synonym TaskListByTarget = "(target, SendTask list) omap"

text \<open>An invocation of a callback: who, with which error code, and the second argument.\<close>

type_synonym send_end = "nat \<times> errcode \<times> bool"

record scheduler =
  curTotalSizeByByte :: u32
  curTotalSizeByTask :: u32
  delayTaskCount :: u32
  priorityOrder :: "Priority list"
  extraCapacityInByteByPrio :: "(Priority, u32) omap"
  policyMap :: "(target, TargetPolicy) omap"
  totalBytesByTarget :: "(target, u32) omap"
  taskCountByPrio :: "(Priority, u32) omap"
  taskDelayCountByPrio :: "(Priority, u32) omap"
  taskOrderByPrio :: "(Priority, target list) omap"
  taskGroupByPrio :: "(Priority, TaskListByTarget) omap"
  scheduledFlag :: bool
  lastScheduleTarget :: target
  lastSchedulePriority :: Priority
  deviceCommErrCodeMap :: "(target, errcode) omap"
  retryCount :: "(target, (bool, int) omap) omap"

definition new_SendTaskScheduler :: scheduler where
  "new_SendTaskScheduler =
     \<lparr>curTotalSizeByByte = 0, curTotalSizeByTask = 0, delayTaskCount = 0, priorityOrder = [],
      extraCapacityInByteByPrio = [], policyMap = [], totalBytesByTarget = [], taskCountByPrio = [],
      taskDelayCountByPrio = [], taskOrderByPrio = [], taskGroupByPrio = [], scheduledFlag = False,
      lastScheduleTarget = [], lastSchedulePriority = LOW, deviceCommErrCodeMap = [], retryCount = []\<rparr>"

definition MAX_CAPACITY :: u32 where "MAX_CAPACITY = 67108864"
definition EXTRA_CAPACITY_FOR_NORMAL_PRIORITY :: u32 where "EXTRA_CAPACITY_FOR_NORMAL_PRIORITY = 33554432"
definition EXTRA_CAPACITY_FOR_HIGH_PRIORITY :: u32 where "EXTRA_CAPACITY_FOR_HIGH_PRIORITY = 67108864"
definition MAX_SEND_RETRY :: int where "MAX_SEND_RETRY = 2"

text \<open>The entries the operations read and assign.\<close>

definition task_order :: "scheduler \<Rightarrow> Priority \<Rightarrow> target list" where
  "task_order s p = om_get [] (taskOrderByPrio s) p"

definition task_group :: "scheduler \<Rightarrow> Priority \<Rightarrow> target \<Rightarrow> SendTask list" where
  "task_group s p t = om_get [] (om_get [] (taskGroupByPrio s) p) t"

definition policy_of :: "scheduler \<Rightarrow> target \<Rightarrow> TargetPolicy" where
  "policy_of s t = om_get NO_DELAY (policyMap s) t"

definition set_group :: "Priority \<Rightarrow> target \<Rightarrow> SendTask list \<Rightarrow> scheduler \<Rightarrow> scheduler" where
  "set_group p t ts s =
     s\<lparr>taskGroupByPrio := om_insert p (om_insert t ts (om_get [] (taskGroupByPrio s) p)) (taskGroupByPrio s)\<rparr>"

definition om_add :: "'k::linorder \<Rightarrow> u32 \<Rightarrow> ('k, u32) omap \<Rightarrow> ('k, u32) omap" where
  "om_add k d m = om_insert k (om_get 0 m k + d) m"

section \<open>Operations\<close>

fun init_prios :: "Priority list \<Rightarrow> scheduler \<Rightarrow> scheduler" where
  "init_prios [] s = s"
| "init_prios (p # ps) s =
     init_prios ps
       (s\<lparr>extraCapacityInByteByPrio := om_insert p 0 (extraCapacityInByteByPrio s),
          taskCountByPrio := om_insert p 0 (taskCountByPrio s),
          taskDelayCountByPrio := om_insert p 0 (taskDelayCountByPrio s),
          taskGroupByPrio := om_insert p [] (taskGroupByPrio s)\<rparr>)"

definition Scheduler_Initialize :: "scheduler \<Rightarrow> scheduler" where
  "Scheduler_Initialize s =
     (let s1 = init_prios [HIGH, NORMAL, LOW] (s\<lparr>priorityOrder := [HIGH, NORMAL, LOW]\<rparr>)
      in s1\<lparr>extraCapacityInByteByPrio :=
             om_insert HIGH EXTRA_CAPACITY_FOR_HIGH_PRIORITY
               (om_insert NORMAL EXTRA_CAPACITY_FOR_NORMAL_PRIORITY (extraCapacityInByteByPrio s1))\<rparr>)"

definition AddSendTaskIntoSchedule :: "SendTask \<Rightarrow> Priority \<Rightarrow> scheduler \<Rightarrow> errcode \<times> scheduler" where
  "AddSendTaskIntoSchedule inTask inPrio s =
     (if curTotalSizeByByte s \<ge> MAX_CAPACITY + om_get 0 (extraCapacityInByteByPrio s) inPrio
      then (E_CONTAINER_FULL, s)
      else
        let t = st_dstTarget inTask;
            taskSizeByByte = GetSize (st_buffer inTask);
            s1 = s\<lparr>curTotalSizeByByte := curTotalSizeByByte s + taskSizeByByte,
                   curTotalSizeByTask := curTotalSizeByTask s + 1,
                   totalBytesByTarget := om_add t taskSizeByByte (totalBytesByTarget s)\<rparr>;
            s2 = (if om_count (policyMap s1) t then s1 else s1\<lparr>policyMap := om_insert t NO_DELAY (policyMap s1)\<rparr>);
            s3 = (if policy_of s2 t = DELAY
                  then s2\<lparr>delayTaskCount := delayTaskCount s2 + 1,
                          taskDelayCountByPrio := om_add inPrio 1 (taskDelayCountByPrio s2)\<rparr>
                  else s2);
            s4 = s3\<lparr>taskCountByPrio := om_add inPrio 1 (taskCountByPrio s3),
                    taskOrderByPrio := om_insert inPrio (task_order s3 inPrio @ [t]) (taskOrderByPrio s3)\<rparr>
        in (E_OK, set_group inPrio t (task_group s4 inPrio t @ [inTask]) s4))"

definition front :: "'a list \<Rightarrow> 'a res" where
  "front xs = (case xs of [] \<Rightarrow> Fault | x # _ \<Rightarrow> Ok x)"

fun schedule_delay :: "Priority list \<Rightarrow> scheduler \<Rightarrow> (SendTask \<times> SendTaskInfo) res" where
  "schedule_delay [] s = Err E_INTERNAL_ERROR"
| "schedule_delay (prio # ps) s =
     (if om_get 0 (taskCountByPrio s) prio = 0 then schedule_delay ps s
      else res_bind (front (task_order s prio)) (\<lambda>dstTarget.
           res_bind (front (task_group s prio dstTarget)) (\<lambda>task.
             Ok (task, \<lparr>si_delayFlag = True, si_taskPrio = prio\<rparr>))))"

definition ScheduleDelayTask :: "scheduler \<Rightarrow> (SendTask \<times> SendTaskInfo) res" where
  "ScheduleDelayTask s = schedule_delay (priorityOrder s) s"

fun schedule_no_delay :: "Priority list \<Rightarrow> scheduler \<Rightarrow> (SendTask \<times> SendTaskInfo) res" where
  "schedule_no_delay [] s = Err E_INTERNAL_ERROR"
| "schedule_no_delay (prio # ps) s =
     (if om_get 0 (taskCountByPrio s) prio = 0 \<or>
         om_get 0 (taskCountByPrio s) prio = om_get 0 (taskDelayCountByPrio s) prio
      then schedule_no_delay ps s
      else case find (\<lambda>t. policy_of s t = NO_DELAY) (task_order s prio) of
             None \<Rightarrow> Err E_INTERNAL_ERROR
           | Some dstTarget \<Rightarrow>
               res_bind (front (task_group s prio dstTarget)) (\<lambda>task.
                 Ok (task, \<lparr>si_delayFlag = False, si_taskPrio = prio\<rparr>)))"

definition ScheduleNoDelayTask :: "scheduler \<Rightarrow> (SendTask \<times> SendTaskInfo) res" where
  "ScheduleNoDelayTask s = schedule_no_delay (priorityOrder s) s"

definition ScheduleOutSendTask :: "scheduler \<Rightarrow> (SendTask \<times> SendTaskInfo \<times> u32 \<times> scheduler) res" where
  "ScheduleOutSendTask s =
     guard_err (curTotalSizeByTask s = 0) E_CONTAINER_EMPTY
    (res_bind (if delayTaskCount s = curTotalSizeByTask s then ScheduleDelayTask s else ScheduleNoDelayTask s)
      (\<lambda>(task, info).
         Ok (task, info, om_get 0 (totalBytesByTarget s) (st_dstTarget task),
             s\<lparr>lastScheduleTarget := st_dstTarget task, lastSchedulePriority := si_taskPrio info,
               scheduledFlag := True\<rparr>)))"

definition FinalizeLastScheduleTask :: "scheduler \<Rightarrow> (errcode \<times> scheduler) res" where
  "FinalizeLastScheduleTask s =
     (if curTotalSizeByTask s = 0 then Ok (E_CONTAINER_EMPTY, s)
      else if \<not> scheduledFlag s then Ok (E_NOT_PERMIT, s)
      else
        let p = lastSchedulePriority s; t = lastScheduleTarget s in
        res_bind (front (task_group s p t)) (\<lambda>task.
          let isFullBefore = (curTotalSizeByByte s \<ge> MAX_CAPACITY);
              taskSize = GetSize (st_buffer task);
              s1 = s\<lparr>curTotalSizeByByte := curTotalSizeByByte s - taskSize,
                     totalBytesByTarget := om_add t (- taskSize) (totalBytesByTarget s),
                     curTotalSizeByTask := curTotalSizeByTask s - 1,
                     taskCountByPrio := om_add p (- 1) (taskCountByPrio s)\<rparr>;
              isFullAfter = (curTotalSizeByByte s1 \<ge> MAX_CAPACITY);
              s2 = (if policy_of s1 t = DELAY
                    then s1\<lparr>delayTaskCount := delayTaskCount s1 - 1,
                            taskDelayCountByPrio := om_add p (- 1) (taskDelayCountByPrio s1)\<rparr>
                    else s1);
              s3 = s2\<lparr>taskOrderByPrio := om_insert p (remove1 t (task_order s2 p)) (taskOrderByPrio s2)\<rparr>;
              s4 = (set_group p t (tl (task_group s3 p t)) s3)\<lparr>scheduledFlag := False\<rparr>
          in Ok (if isFullBefore \<and> \<not> isFullAfter then E_CONTAINER_FULL_TO_NOTFULL
                 else if curTotalSizeByTask s4 = 0 then E_CONTAINER_NOTEMPTY_TO_EMPTY
                 else if curTotalSizeByTask s4 = delayTaskCount s4 then E_CONTAINER_ONLY_DELAY_TASK
                 else E_OK, s4)))"

fun add_delay :: "Priority list \<Rightarrow> target \<Rightarrow> scheduler \<Rightarrow> scheduler" where
  "add_delay [] t s = s"
| "add_delay (p # ps) t s =
     (let count = of_nat (length (task_group s p t))
      in add_delay ps t (s\<lparr>taskDelayCountByPrio := om_add p count (taskDelayCountByPrio s),
                           delayTaskCount := delayTaskCount s + count\<rparr>))"

definition DelayTaskByTarget :: "target \<Rightarrow> scheduler \<Rightarrow> errcode \<times> scheduler" where
  "DelayTaskByTarget inTarget s =
     (if \<not> om_count (policyMap s) inTarget then (E_NOT_FOUND, s)
      else if policy_of s inTarget = DELAY then (E_OK, s)
      else (E_OK, add_delay (priorityOrder s) inTarget (s\<lparr>policyMap := om_insert inTarget DELAY (policyMap s)\<rparr>)))"

fun sub_delay :: "Priority list \<Rightarrow> target \<Rightarrow> scheduler \<Rightarrow> scheduler" where
  "sub_delay [] t s = s"
| "sub_delay (p # ps) t s =
     (let count = of_nat (length (task_group s p t))
      in sub_delay ps t (s\<lparr>taskDelayCountByPrio := om_add p (- count) (taskDelayCountByPrio s),
                           delayTaskCount := delayTaskCount s - count\<rparr>))"

definition NoDelayTaskByTarget :: "target \<Rightarrow> scheduler \<Rightarrow> errcode \<times> scheduler" where
  "NoDelayTaskByTarget inTarget s =
     (if \<not> om_count (policyMap s) inTarget then (E_NOT_FOUND, s)
      else if policy_of s inTarget = NO_DELAY then (E_OK, s)
      else (E_OK, sub_delay (priorityOrder s) inTarget (s\<lparr>policyMap := om_insert inTarget NO_DELAY (policyMap s)\<rparr>)))"

definition GetTotalTaskCount :: "scheduler \<Rightarrow> u32" where
  "GetTotalTaskCount s = curTotalSizeByTask s"

definition GetNoDelayTaskCount :: "scheduler \<Rightarrow> u32" where
  "GetNoDelayTaskCount s = curTotalSizeByTask s - delayTaskCount s"

lemma set_group_fields [simp]:
  "curTotalSizeByTask (set_group p t ts s) = curTotalSizeByTask s"
  "curTotalSizeByByte (set_group p t ts s) = curTotalSizeByByte s"
  "delayTaskCount (set_group p t ts s) = delayTaskCount s"
  "priorityOrder (set_group p t ts s) = priorityOrder s"
  "extraCapacityInByteByPrio (set_group p t ts s) = extraCapacityInByteByPrio s"
  "policyMap (set_group p t ts s) = policyMap s"
  "totalBytesByTarget (set_group p t ts s) = totalBytesByTarget s"
  "taskCountByPrio (set_group p t ts s) = taskCountByPrio s"
  "taskDelayCountByPrio (set_group p t ts s) = taskDelayCountByPrio s"
  "taskOrderByPrio (set_group p t ts s) = taskOrderByPrio s"
  "scheduledFlag (set_group p t ts s) = scheduledFlag s"
  "lastScheduleTarget (set_group p t ts s) = lastScheduleTarget s"
  "lastSchedulePriority (set_group p t ts s) = lastSchedulePriority s"
  "deviceCommErrCodeMap (set_group p t ts s) = deviceCommErrCodeMap s"
  "retryCount (set_group p t ts s) = retryCount s"
  by (simp_all add: set_group_def)

lemma ScheduleOut_frame:
  assumes "ScheduleOutSendTask s = Ok (task, info, len, s')"
  shows "s' = s\<lparr>lastScheduleTarget := st_dstTarget task, lastSchedulePriority := si_taskPrio info, scheduledFlag := True\<rparr>"
    and "curTotalSizeByTask s \<noteq> 0"
  using assms by (auto simp: ScheduleOutSendTask_def guard_err_def res_bind_eq_Ok split: if_splits)

lemma Finalize_task_count:
  assumes "FinalizeLastScheduleTask s = Ok (code, s')" "curTotalSizeByTask s \<noteq> 0" "scheduledFlag s"
  shows "curTotalSizeByTask s' = curTotalSizeByTask s - 1"
  using assms by (auto simp: FinalizeLastScheduleTask_def Let_def front_def split: list.splits)

lemma drain_decreases:
  assumes "ScheduleOutSendTask s = Ok (task, info, len, s1)" "FinalizeLastScheduleTask s1 = Ok (code, s2)"
  shows "unat (curTotalSizeByTask s2) < unat (curTotalSizeByTask s)"
proof -
  note o = ScheduleOut_frame[OF assms(1)]
  then have "curTotalSizeByTask s2 = curTotalSizeByTask s - 1"
    using Finalize_task_count[OF assms(2)] by simp
  then show ?thesis using o(2) measure_unat[of "curTotalSizeByTask s"] by simp
qed

text \<open>The draining loop.  A task scheduled out is finalized, which takes it off the queue.\<close>

function Scheduler_Finalize :: "scheduler \<Rightarrow> scheduler res" where
  "Scheduler_Finalize s =
     (if GetTotalTaskCount s = 0 then Ok s
      else case ScheduleOutSendTask s of
             Fault \<Rightarrow> Fault
           | Err e \<Rightarrow> Ok s
           | Ok (task, info, len, s1) \<Rightarrow>
               (case FinalizeLastScheduleTask s1 of
                  Fault \<Rightarrow> Fault
                | Err e \<Rightarrow> Ok s1
                | Ok (code, s2) \<Rightarrow> Scheduler_Finalize s2))"
  by pat_completeness auto

termination
  by (relation "measure (\<lambda>s. unat (curTotalSizeByTask s))") (auto intro: drain_decreases)

declare Scheduler_Finalize.simps [simp del]

text \<open>Invalidating tasks of a target, and the callbacks that are invoked.\<close>

fun invalidate :: "target \<Rightarrow> SendTask list \<Rightarrow> scheduler \<Rightarrow> SendTask list \<times> send_end list \<times> scheduler" where
  "invalidate target [] s = ([], [], s)"
| "invalidate target (x # xs) s =
     (let x1 = x\<lparr>st_isValid := False\<rparr>;
          s1 = s\<lparr>retryCount := om_insert target (om_insert (st_isRetryTask x) 0 (om_get [] (retryCount s) target))
                               (retryCount s)\<rparr>;
          err = om_get E_OK (deviceCommErrCodeMap s1) target;
          (x2, calls) = (if err = E_OK then (x1, [])
                         else case st_onEnd x1 of
                                None \<Rightarrow> (x1, [])
                              | Some c \<Rightarrow> (x1\<lparr>st_onEnd := None\<rparr>, [(c, err, False)]));
          (xs', calls', s2) = invalidate target xs s1
      in (x2 # xs', calls @ calls', s2))"

fun invalid_prios :: "Priority list \<Rightarrow> target \<Rightarrow> scheduler \<Rightarrow> send_end list \<times> scheduler" where
  "invalid_prios [] target s = ([], s)"
| "invalid_prios (p # ps) target s =
     (if om_get 0 (taskCountByPrio s) p = 0 then invalid_prios ps target s
      else let (xs, calls, s1) = invalidate target (task_group s p target) s;
               (calls', s2) = invalid_prios ps target (set_group p target xs s1)
           in (calls @ calls', s2))"

definition InvalidSendTask :: "target \<Rightarrow> scheduler \<Rightarrow> send_end list \<times> scheduler" where
  "InvalidSendTask target s =
     (let (calls, s1) = invalid_prios (priorityOrder s) target s
      in (calls, s1\<lparr>deviceCommErrCodeMap := om_erase target (deviceCommErrCodeMap s1)\<rparr>))"

fun drop_no_retry :: "target \<Rightarrow> errcode \<Rightarrow> SendTask list \<Rightarrow> scheduler \<Rightarrow> SendTask list \<times> send_end list \<times> scheduler" where
  "drop_no_retry target err [] s = ([], [], s)"
| "drop_no_retry target err (x # xs) s =
     (if st_isRetryTask x
      then let (xs', calls, s') = drop_no_retry target err xs s in (x # xs', calls, s')
      else
        let x1 = x\<lparr>st_isValid := False\<rparr>;
            s1 = s\<lparr>retryCount := om_insert target (om_insert (st_isRetryTask x) 0 (om_get [] (retryCount s) target))
                                 (retryCount s)\<rparr>;
            (x2, calls) = (case st_onEnd x1 of
                             None \<Rightarrow> (x1, [])
                           | Some c \<Rightarrow> (x1\<lparr>st_onEnd := None\<rparr>, [(c, err, True)]));
            (xs', calls', s2) = drop_no_retry target err xs s1
        in (x2 # xs', calls @ calls', s2))"

fun err_prios :: "Priority list \<Rightarrow> target \<Rightarrow> errcode \<Rightarrow> scheduler \<Rightarrow> send_end list \<times> scheduler" where
  "err_prios [] target err s = ([], s)"
| "err_prios (p # ps) target err s =
     (if om_get 0 (taskCountByPrio s) p = 0 \<or> \<not> om_count (om_get [] (taskGroupByPrio s) p) target
      then err_prios ps target err s
      else let (xs, calls, s1) = drop_no_retry target err (task_group s p target) s;
               (calls', s2) = err_prios ps target err (set_group p target xs s1)
           in (calls @ calls', s2))"

definition SetDeviceCommErrCode :: "target \<Rightarrow> errcode \<Rightarrow> scheduler \<Rightarrow> send_end list \<times> scheduler" where
  "SetDeviceCommErrCode target err s =
     (let s1 = s\<lparr>deviceCommErrCodeMap := om_insert target err (deviceCommErrCodeMap s)\<rparr>
      in if err = E_OK then ([], s1) else err_prios (priorityOrder s1) target err s1)"

definition GetRetryCount :: "target \<Rightarrow> bool \<Rightarrow> scheduler \<Rightarrow> int" where
  "GetRetryCount dev isRetryTask s =
     (case om_find (retryCount s) dev of
        None \<Rightarrow> 0
      | Some m \<Rightarrow> (case om_find m isRetryTask of None \<Rightarrow> 0 | Some n \<Rightarrow> n))"

definition IsRetryOutOfLimit :: "target \<Rightarrow> bool \<Rightarrow> scheduler \<Rightarrow> bool" where
  "IsRetryOutOfLimit target isRetryTask s \<longleftrightarrow>
     om_get 0 (om_get [] (retryCount s) target) isRetryTask \<ge> MAX_SEND_RETRY"

definition set_retry :: "target \<Rightarrow> bool \<Rightarrow> int \<Rightarrow> scheduler \<Rightarrow> scheduler" where
  "set_retry dev b n s =
     s\<lparr>retryCount := om_insert dev (om_insert b n (om_get [] (retryCount s) dev)) (retryCount s)\<rparr>"

definition ResetRetryCount :: "target \<Rightarrow> bool \<Rightarrow> scheduler \<Rightarrow> scheduler" where
  "ResetRetryCount dev isRetryTask s = set_retry dev isRetryTask 0 s"

definition ResetRetryCount_dev :: "target \<Rightarrow> scheduler \<Rightarrow> scheduler" where
  "ResetRetryCount_dev dev s = s\<lparr>retryCount := om_insert dev [] (retryCount s)\<rparr>"

definition ResetRetryCount_all :: "scheduler \<Rightarrow> scheduler" where
  "ResetRetryCount_all s = s\<lparr>retryCount := []\<rparr>"

definition IncreaseRetryCountIfNeed :: "target \<Rightarrow> bool \<Rightarrow> scheduler \<Rightarrow> scheduler res" where
  "IncreaseRetryCountIfNeed dev isRetryTask s =
     (case ScheduleOutSendTask s of
        Fault \<Rightarrow> Fault
      | Err e \<Rightarrow> Ok s
      | Ok (task, info, len, s1) \<Rightarrow>
          Ok (if dev \<noteq> st_dstTarget task \<or> \<not> st_isValid task then s1
              else set_retry dev isRetryTask (om_get 0 (om_get [] (retryCount s1) dev) isRetryTask + 1) s1))"

section \<open>The tasks of a priority in the order of arrival\<close>

text \<open>The order list names the target of every task; the tasks of a target come off its own list.\<close>

fun zip_tasks :: "'k list \<Rightarrow> ('k \<Rightarrow> 'a list) \<Rightarrow> 'a list" where
  "zip_tasks [] g = []"
| "zip_tasks (t # ts) g = hd (g t) # zip_tasks ts (g(t := tl (g t)))"

definition counts :: "'k list \<Rightarrow> ('k \<Rightarrow> 'a list) \<Rightarrow> bool" where
  "counts ts g \<longleftrightarrow> (\<forall>t. count_list ts t = length (g t))"

definition keyed :: "('a \<Rightarrow> 'k) \<Rightarrow> ('k \<Rightarrow> 'a list) \<Rightarrow> bool" where
  "keyed key g \<longleftrightarrow> (\<forall>t. \<forall>x \<in> set (g t). key x = t)"

lemma counts_Cons: "counts (t # ts) g \<longleftrightarrow> g t \<noteq> [] \<and> counts ts (g(t := tl (g t)))"
proof -
  have "(\<forall>k. count_list (t # ts) k = length (g k)) \<longleftrightarrow>
        Suc (count_list ts t) = length (g t) \<and> (\<forall>k. k \<noteq> t \<longrightarrow> count_list ts k = length (g k))"
    by (auto split: if_splits)
  also have "\<dots> \<longleftrightarrow> g t \<noteq> [] \<and> (\<forall>k. count_list ts k = length ((g(t := tl (g t))) k))"
    by (cases "g t") auto
  finally show ?thesis by (simp add: counts_def)
qed

lemma counts_Nil: "counts [] g \<longleftrightarrow> (\<forall>t. g t = [])"
  by (auto simp: counts_def)

lemma keyed_tl: "keyed key g \<Longrightarrow> keyed key (g(t := tl (g t)))"
  by (cases "g t") (auto simp: keyed_def)

lemma keyed_hd: "keyed key g \<Longrightarrow> g t \<noteq> [] \<Longrightarrow> key (hd (g t)) = t"
  by (simp add: keyed_def)

lemma length_zip_tasks [simp]: "length (zip_tasks ts g) = length ts"
  by (induction ts arbitrary: g) auto

lemma zip_tasks_append:
  "counts ts g \<Longrightarrow> zip_tasks (ts @ [t]) (g(t := g t @ [x])) = zip_tasks ts g @ [x]"
proof (induction ts arbitrary: g)
  case Nil
  then show ?case by (simp add: counts_Nil)
next
  case (Cons a ts)
  have ne: "g a \<noteq> []" and c: "counts ts (g(a := tl (g a)))" using Cons.prems by (simp_all add: counts_Cons)
  have "(g(t := g t @ [x]))(a := tl ((g(t := g t @ [x])) a)) =
        (g(a := tl (g a)))(t := (g(a := tl (g a))) t @ [x])"
    using ne by (auto simp: fun_eq_iff)
  then show ?case using Cons.IH[of "g(a := tl (g a))", OF c] ne by (auto simp: hd_append simp del: fun_upd_apply) auto
qed

lemma counts_append: "counts ts g \<Longrightarrow> counts (ts @ [t]) (g(t := g t @ [x]))"
  by (auto simp: counts_def)

lemma zip_tasks_filter:
  "counts ts g \<Longrightarrow> keyed key g \<Longrightarrow> filter (\<lambda>x. key x = t) (zip_tasks ts g) = g t"
proof (induction ts arbitrary: g)
  case (Cons a ts)
  have ne: "g a \<noteq> []" and c: "counts ts (g(a := tl (g a)))" using Cons.prems by (simp_all add: counts_Cons)
  have "filter (\<lambda>x. key x = t) (zip_tasks ts (g(a := tl (g a)))) = (g(a := tl (g a))) t"
    by (rule Cons.IH[OF c keyed_tl[OF Cons.prems(2)]])
  then show ?case using keyed_hd[OF Cons.prems(2) ne] ne by auto
qed (simp add: counts_Nil)

lemma zip_tasks_keys: "counts ts g \<Longrightarrow> keyed key g \<Longrightarrow> map key (zip_tasks ts g) = ts"
proof (induction ts arbitrary: g)
  case (Cons a ts)
  have ne: "g a \<noteq> []" and c: "counts ts (g(a := tl (g a)))" using Cons.prems by (simp_all add: counts_Cons)
  have "map key (zip_tasks ts (g(a := tl (g a)))) = ts" by (rule Cons.IH[OF c keyed_tl[OF Cons.prems(2)]])
  then show ?case using keyed_hd[OF Cons.prems(2) ne] by simp
qed simp

lemma zip_tasks_map: "counts ts g \<Longrightarrow> map f (zip_tasks ts g) = zip_tasks ts (\<lambda>t. map f (g t))"
proof (induction ts arbitrary: g)
  case (Cons a ts)
  have ne: "g a \<noteq> []" and c: "counts ts (g(a := tl (g a)))" using Cons.prems by (simp_all add: counts_Cons)
  have "(\<lambda>t. map f ((g(a := tl (g a))) t)) = (\<lambda>t. map f (g t))(a := tl (map f (g a)))"
    by (auto simp: fun_eq_iff map_tl)
  then show ?case using Cons.IH[of "g(a := tl (g a))", OF c] ne by (simp add: list.map_sel(1) del: fun_upd_apply)
qed simp

text \<open>Taking the first task of a target off the queue.\<close>

fun remove_first :: "('a \<Rightarrow> bool) \<Rightarrow> 'a list \<Rightarrow> 'a list" where
  "remove_first P [] = []"
| "remove_first P (x # xs) = (if P x then xs else x # remove_first P xs)"

lemma counts_remove:
  assumes "counts ts g" "g t \<noteq> []"
  shows "counts (remove1 t ts) (g(t := tl (g t)))"
proof -
  have "count_list (remove1 t ts) k = (if k = t then count_list ts k - 1 else count_list ts k)" for k
    by (induction ts) (auto simp: gr0_conv_Suc Suc_diff_le neq0_conv[symmetric] count_list_0_iff)
  then show ?thesis using assms by (auto simp: counts_def)
qed

lemma zip_tasks_remove:
  "counts ts g \<Longrightarrow> keyed key g \<Longrightarrow>
     zip_tasks (remove1 t ts) (g(t := tl (g t))) = remove_first (\<lambda>x. key x = t) (zip_tasks ts g)"
proof (induction ts arbitrary: g)
  case (Cons a ts)
  have ne: "g a \<noteq> []" and c: "counts ts (g(a := tl (g a)))" using Cons.prems by (simp_all add: counts_Cons)
  have IH: "zip_tasks (remove1 t ts) ((g(a := tl (g a)))(t := tl ((g(a := tl (g a))) t))) =
      remove_first (\<lambda>x. key x = t) (zip_tasks ts (g(a := tl (g a))))"
    by (rule Cons.IH[OF c keyed_tl[OF Cons.prems(2)]])
  show ?case
  proof (cases "a = t")
    case False
    then have "(g(a := tl (g a)))(t := tl ((g(a := tl (g a))) t)) = (g(t := tl (g t)))(a := tl ((g(t := tl (g t))) a))"
      by (auto simp: fun_eq_iff)
    then show ?thesis using IH False keyed_hd[OF Cons.prems(2) ne] by (simp del: fun_upd_apply add: fun_upd_same fun_upd_other)
  qed (use keyed_hd[OF Cons.prems(2) ne] in \<open>simp del: fun_upd_apply\<close>)
qed simp

text \<open>The first task whose target satisfies a condition is the first task of the first such target.\<close>

lemma find_zip_tasks:
  "counts ts g \<Longrightarrow> keyed key g \<Longrightarrow>
     find (\<lambda>x. P (key x)) (zip_tasks ts g) = map_option (\<lambda>t. hd (g t)) (find P ts)"
proof (induction ts arbitrary: g)
  case (Cons a ts)
  have ne: "g a \<noteq> []" and c: "counts ts (g(a := tl (g a)))" using Cons.prems by (simp_all add: counts_Cons)
  have IH: "find (\<lambda>x. P (key x)) (zip_tasks ts (g(a := tl (g a)))) =
      map_option (\<lambda>t. hd ((g(a := tl (g a))) t)) (find P ts)"
    by (rule Cons.IH[OF c keyed_tl[OF Cons.prems(2)]])
  show ?case
  proof (cases "P a")
    case False
    then have "find P ts = Some t \<Longrightarrow> t \<noteq> a" for t by (auto simp: find_Some_iff)
    then show ?thesis using IH keyed_hd[OF Cons.prems(2) ne] False by (cases "find P ts") auto
  qed (simp add: keyed_hd[OF Cons.prems(2) ne])
qed simp

section \<open>The invariant\<close>

definition pending :: "scheduler \<Rightarrow> Priority \<Rightarrow> SendTask list" where
  "pending s p = zip_tasks (task_order s p) (task_group s p)"

definition tot :: "(Priority \<Rightarrow> nat) \<Rightarrow> nat" where
  "tot f = f HIGH + f NORMAL + f LOW"

definition task_size :: "SendTask \<Rightarrow> nat" where
  "task_size x = unat (GetSize (st_buffer x))"

definition sizes :: "SendTask list \<Rightarrow> nat" where
  "sizes xs = sum_list (map task_size xs)"

definition delayed :: "scheduler \<Rightarrow> SendTask \<Rightarrow> bool" where
  "delayed s x \<longleftrightarrow> policy_of s (st_dstTarget x) = DELAY"

definition n_delayed :: "scheduler \<Rightarrow> Priority \<Rightarrow> nat" where
  "n_delayed s p = length (filter (\<lambda>t. policy_of s t = DELAY) (task_order s p))"

text \<open>What a task is allowed to be: its buffer is not empty and within the frame limit.\<close>

definition task_ok :: "SendTask \<Rightarrow> bool" where
  "task_ok x \<longleftrightarrow> 0 < GetSize (st_buffer x) \<and> GetSize (st_buffer x) \<le> MAX_TOTAL_LEN"

definition queues_ok :: "scheduler \<Rightarrow> bool" where
  "queues_ok s \<longleftrightarrow> (\<forall>p. counts (task_order s p) (task_group s p) \<and> keyed st_dstTarget (task_group s p) \<and>
     (\<forall>t. \<forall>x \<in> set (task_group s p t). task_ok x) \<and> (\<forall>t \<in> set (task_order s p). om_count (policyMap s) t))"

definition stats_ok :: "scheduler \<Rightarrow> bool" where
  "stats_ok s \<longleftrightarrow>
     (\<forall>p. unat (om_get 0 (taskCountByPrio s) p) = length (task_order s p) \<and>
          unat (om_get 0 (taskDelayCountByPrio s) p) = n_delayed s p) \<and>
     unat (curTotalSizeByTask s) = tot (\<lambda>p. length (task_order s p)) \<and>
     unat (delayTaskCount s) = tot (n_delayed s) \<and>
     unat (curTotalSizeByByte s) = tot (\<lambda>p. sizes (pending s p)) \<and>
     (\<forall>t. unat (om_get 0 (totalBytesByTarget s) t) = tot (\<lambda>p. sizes (task_group s p t)))"

definition scheduler_ok :: "scheduler \<Rightarrow> bool" where
  "scheduler_ok s \<longleftrightarrow> priorityOrder s = [HIGH, NORMAL, LOW] \<and> queues_ok s \<and> stats_ok s \<and>
     om_get 0 (extraCapacityInByteByPrio s) HIGH = EXTRA_CAPACITY_FOR_HIGH_PRIORITY \<and>
     om_get 0 (extraCapacityInByteByPrio s) NORMAL = EXTRA_CAPACITY_FOR_NORMAL_PRIORITY \<and>
     om_get 0 (extraCapacityInByteByPrio s) LOW = 0 \<and>
     unat (curTotalSizeByByte s) < 134217728 + unat MAX_TOTAL_LEN \<and>
     (scheduledFlag s \<longrightarrow> task_group s (lastSchedulePriority s) (lastScheduleTarget s) \<noteq> [])"

lemma tot_upd: "(\<And>q. g q = (if q = p then f q + d else f q)) \<Longrightarrow> tot g = tot f + d"
  by (cases p) (simp_all add: tot_def)

lemma tot_mono: "(\<And>p. f p \<le> g p) \<Longrightarrow> tot f \<le> tot g"
  by (simp add: tot_def add_mono)

lemma tot_ge: "f p \<le> tot f"
  by (cases p) (simp_all add: tot_def)

lemma tot_cong: "(\<And>p. f p = g p) \<Longrightarrow> tot f = tot g"
  by (simp add: tot_def)

lemma sizes_simps [simp]: "sizes [] = 0" "sizes (x # xs) = task_size x + sizes xs" "sizes (xs @ ys) = sizes xs + sizes ys"
  by (simp_all add: sizes_def)

text \<open>How the views follow the assignments of the operations.\<close>

lemma views_set_group [simp]:
  "task_order (set_group p t ts s) q = task_order s q"
  "task_group (set_group p t ts s) q = (if q = p then (task_group s q)(t := ts) else task_group s q)"
  "policy_of (set_group p t ts s) = policy_of s"
  by (auto simp: task_order_def task_group_def policy_of_def set_group_def om_get_insert fun_eq_iff)

lemma views_fields [simp]:
  "task_order (curTotalSizeByByte_update f1 s) = task_order s"
  "task_order (curTotalSizeByTask_update f2 s) = task_order s"
  "task_order (delayTaskCount_update f3 s) = task_order s"
  "task_order (policyMap_update f4 s) = task_order s"
  "task_order (totalBytesByTarget_update f5 s) = task_order s"
  "task_order (taskCountByPrio_update f6 s) = task_order s"
  "task_order (taskDelayCountByPrio_update f7 s) = task_order s"
  "task_order (scheduledFlag_update f8 s) = task_order s"
  "task_order (lastScheduleTarget_update f9 s) = task_order s"
  "task_order (lastSchedulePriority_update f10 s) = task_order s"
  "task_order (deviceCommErrCodeMap_update f11 s) = task_order s"
  "task_order (retryCount_update f12 s) = task_order s"
  "task_group (curTotalSizeByByte_update f1 s) = task_group s"
  "task_group (curTotalSizeByTask_update f2 s) = task_group s"
  "task_group (delayTaskCount_update f3 s) = task_group s"
  "task_group (policyMap_update f4 s) = task_group s"
  "task_group (totalBytesByTarget_update f5 s) = task_group s"
  "task_group (taskCountByPrio_update f6 s) = task_group s"
  "task_group (taskDelayCountByPrio_update f7 s) = task_group s"
  "task_group (taskOrderByPrio_update f13 s) = task_group s"
  "task_group (scheduledFlag_update f8 s) = task_group s"
  "task_group (lastScheduleTarget_update f9 s) = task_group s"
  "task_group (lastSchedulePriority_update f10 s) = task_group s"
  "task_group (deviceCommErrCodeMap_update f11 s) = task_group s"
  "task_group (retryCount_update f12 s) = task_group s"
  "policy_of (curTotalSizeByByte_update f1 s) = policy_of s"
  "policy_of (curTotalSizeByTask_update f2 s) = policy_of s"
  "policy_of (delayTaskCount_update f3 s) = policy_of s"
  "policy_of (totalBytesByTarget_update f5 s) = policy_of s"
  "policy_of (taskCountByPrio_update f6 s) = policy_of s"
  "policy_of (taskDelayCountByPrio_update f7 s) = policy_of s"
  "policy_of (taskOrderByPrio_update f13 s) = policy_of s"
  "policy_of (scheduledFlag_update f8 s) = policy_of s"
  "policy_of (lastScheduleTarget_update f9 s) = policy_of s"
  "policy_of (lastSchedulePriority_update f10 s) = policy_of s"
  "policy_of (deviceCommErrCodeMap_update f11 s) = policy_of s"
  "policy_of (retryCount_update f12 s) = policy_of s"
  by (simp_all add: task_order_def task_group_def policy_of_def fun_eq_iff)

lemma task_order_insert [simp]:
  "task_order (s\<lparr>taskOrderByPrio := om_insert p ts (taskOrderByPrio s)\<rparr>) = (task_order s)(p := ts)"
  by (simp add: task_order_def fun_eq_iff om_get_insert)

lemma policy_of_insert [simp]:
  "policy_of (s\<lparr>policyMap := om_insert t x (policyMap s)\<rparr>) = (policy_of s)(t := x)"
  by (simp add: policy_of_def fun_eq_iff om_get_insert)

lemma om_get_add: "om_get 0 (om_add k d m) k' = (if k' = k then om_get 0 m k' + d else om_get 0 m k')"
  by (simp add: om_add_def om_get_insert)

lemma length_le_sizes: "\<forall>x \<in> set ys. 0 < task_size x \<Longrightarrow> length ys \<le> sizes ys"
  by (induction ys) auto

lemma set_pending:
  assumes "queues_ok s"
  shows "x \<in> set (pending s p) \<longleftrightarrow> x \<in> set (task_group s p (st_dstTarget x))"
    and "x \<in> set (task_group s p t) \<Longrightarrow> x \<in> set (pending s p) \<and> st_dstTarget x = t"
proof -
  have c: "counts (task_order s p) (task_group s p)" "keyed st_dstTarget (task_group s p)"
    using assms by (simp_all add: queues_ok_def)
  have f: "set (task_group s p t) = {x \<in> set (pending s p). st_dstTarget x = t}" for t
    using arg_cong[OF zip_tasks_filter[OF c, of t], of set] by (simp add: pending_def)
  then show "x \<in> set (pending s p) \<longleftrightarrow> x \<in> set (task_group s p (st_dstTarget x))" by blast
  show "x \<in> set (task_group s p t) \<Longrightarrow> x \<in> set (pending s p) \<and> st_dstTarget x = t" using f by blast
qed

lemma pending_laws:
  assumes "queues_ok s"
  shows "length (pending s p) = length (task_order s p)"
    "map st_dstTarget (pending s p) = task_order s p"
    "filter (\<lambda>x. st_dstTarget x = t) (pending s p) = task_group s p t"
    "length (filter (delayed s) (pending s p)) = n_delayed s p"
    "length (pending s p) \<le> sizes (pending s p)"
proof -
  have c: "counts (task_order s p) (task_group s p)" "keyed st_dstTarget (task_group s p)"
    using assms by (simp_all add: queues_ok_def)
  show "length (pending s p) = length (task_order s p)" by (simp add: pending_def)
  show k: "map st_dstTarget (pending s p) = task_order s p" using zip_tasks_keys[OF c] by (simp add: pending_def)
  show "filter (\<lambda>x. st_dstTarget x = t) (pending s p) = task_group s p t"
    using zip_tasks_filter[OF c] by (simp add: pending_def)
  show "length (filter (delayed s) (pending s p)) = n_delayed s p"
    by (simp add: n_delayed_def k[symmetric] filter_map comp_def delayed_def[abs_def])
  show "length (pending s p) \<le> sizes (pending s p)"
    using assms set_pending(1)[OF assms]
    by (intro length_le_sizes) (auto simp: queues_ok_def task_ok_def task_size_def word_less_nat_alt)
qed

text \<open>No counter is near its limit: every task has at least one byte, and the bytes are bounded.\<close>

lemma counters_small:
  assumes "scheduler_ok s"
  shows "tot (\<lambda>p. length (task_order s p)) < 300000000" "tot (n_delayed s) < 300000000"
    "tot (\<lambda>p. sizes (pending s p)) < 300000000" "tot (\<lambda>p. sizes (task_group s p t)) < 300000000"
    "length (task_order s p) < 300000000" "n_delayed s p < 300000000"
proof -
  have q: "queues_ok s" and b: "tot (\<lambda>p. sizes (pending s p)) < 134217728 + unat MAX_TOTAL_LEN"
    using assms by (simp_all add: scheduler_ok_def stats_ok_def)
  show bytes: "tot (\<lambda>p. sizes (pending s p)) < 300000000" using b by (simp add: MAX_TOTAL_LEN_def)
  have "tot (\<lambda>p. length (task_order s p)) \<le> tot (\<lambda>p. sizes (pending s p))"
    using pending_laws[OF q] by (intro tot_mono) metis
  then show n: "tot (\<lambda>p. length (task_order s p)) < 300000000" using bytes by simp
  have "tot (n_delayed s) \<le> tot (\<lambda>p. length (task_order s p))"
    by (intro tot_mono) (simp add: n_delayed_def)
  then show d: "tot (n_delayed s) < 300000000" using n by simp
  have "sizes (filter P xs) \<le> sizes xs" for P xs by (induction xs) auto
  then have "sizes (task_group s p t) \<le> sizes (pending s p)" for p
    using pending_laws(3)[OF q, of t p] by metis
  then have "tot (\<lambda>p. sizes (task_group s p t)) \<le> tot (\<lambda>p. sizes (pending s p))" by (intro tot_mono)
  then show "tot (\<lambda>p. sizes (task_group s p t)) < 300000000" using bytes by simp
  show "length (task_order s p) < 300000000" using n tot_ge[of "\<lambda>p. length (task_order s p)" p] by simp
  show "n_delayed s p < 300000000" using d tot_ge[of "n_delayed s" p] by simp
qed

lemma unat_inc32: "unat (x :: u32) = n \<Longrightarrow> n + unat d < 2 ^ 32 \<Longrightarrow> unat (x + d) = n + unat d"
  using unat_add_lem[of x d] by simp

lemma unat_dec32: "unat (x :: u32) = n + unat d \<Longrightarrow> unat (x - d) = n"
  by (metis add_diff_cancel_right' le_add2 unat_sub word_le_nat_alt)

lemma unat_dec32': "unat (x :: u32) = n + unat d \<Longrightarrow> unat (x + (- d)) = n"
  using unat_dec32[of x n d] by simp

section \<open>Adding a task\<close>

definition accepts :: "Priority \<Rightarrow> scheduler \<Rightarrow> bool" where
  "accepts p s \<longleftrightarrow> curTotalSizeByByte s < MAX_CAPACITY + om_get 0 (extraCapacityInByteByPrio s) p"

lemma Add_full: "\<not> accepts p s \<Longrightarrow> AddSendTaskIntoSchedule x p s = (E_CONTAINER_FULL, s)"
  by (simp add: AddSendTaskIntoSchedule_def accepts_def not_less)

lemma policy_NO_DELAY_default: "\<not> om_count (policyMap s) t \<Longrightarrow> policy_of s t = NO_DELAY"
  by (simp add: policy_of_def om_get_def om_count_def)

lemma Add_fields:
  fixes x :: SendTask
  assumes a: "accepts p s"
  defines "s' \<equiv> snd (AddSendTaskIntoSchedule x p s)" and "t \<equiv> st_dstTarget x"
  shows "fst (AddSendTaskIntoSchedule x p s) = E_OK"
    "task_order s' = (task_order s)(p := task_order s p @ [t])"
    "task_group s' = (task_group s)(p := (task_group s p)(t := task_group s p t @ [x]))"
    "policy_of s' = policy_of s"
    "om_count (policyMap s') k \<longleftrightarrow> k = t \<or> om_count (policyMap s) k"
    "priorityOrder s' = priorityOrder s"
    "extraCapacityInByteByPrio s' = extraCapacityInByteByPrio s"
    "curTotalSizeByByte s' = curTotalSizeByByte s + GetSize (st_buffer x)"
    "curTotalSizeByTask s' = curTotalSizeByTask s + 1"
    "totalBytesByTarget s' = om_add t (GetSize (st_buffer x)) (totalBytesByTarget s)"
    "taskCountByPrio s' = om_add p 1 (taskCountByPrio s)"
    "delayTaskCount s' = delayTaskCount s + (if policy_of s t = DELAY then 1 else 0)"
    "taskDelayCountByPrio s' =
       (if policy_of s t = DELAY then om_add p 1 (taskDelayCountByPrio s) else taskDelayCountByPrio s)"
    "scheduledFlag s' = scheduledFlag s" "lastScheduleTarget s' = lastScheduleTarget s"
    "lastSchedulePriority s' = lastSchedulePriority s"
proof -
  have n: "\<not> MAX_CAPACITY + om_get 0 (extraCapacityInByteByPrio s) p \<le> curTotalSizeByByte s"
    using a by (simp add: accepts_def not_le)
  have d: "\<not> om_count (policyMap s) t \<Longrightarrow> policy_of s t = NO_DELAY" by (rule policy_NO_DELAY_default)
  note D = s'_def AddSendTaskIntoSchedule_def n Let_def t_def[symmetric]
  show "fst (AddSendTaskIntoSchedule x p s) = E_OK" by (simp add: AddSendTaskIntoSchedule_def n Let_def)
  show "task_order s' = (task_order s)(p := task_order s p @ [t])"
    by (simp add: D task_order_def fun_eq_iff om_get_insert)
  show "task_group s' = (task_group s)(p := (task_group s p)(t := task_group s p t @ [x]))" by (auto simp: D fun_eq_iff)
  show "policy_of s' = policy_of s" using d by (auto simp: D policy_of_def om_get_insert fun_eq_iff)
  show "om_count (policyMap s') k \<longleftrightarrow> k = t \<or> om_count (policyMap s) k" by (auto simp: D)
  show "priorityOrder s' = priorityOrder s" "extraCapacityInByteByPrio s' = extraCapacityInByteByPrio s"
    "curTotalSizeByByte s' = curTotalSizeByByte s + GetSize (st_buffer x)"
    "curTotalSizeByTask s' = curTotalSizeByTask s + 1"
    "totalBytesByTarget s' = om_add t (GetSize (st_buffer x)) (totalBytesByTarget s)"
    "taskCountByPrio s' = om_add p 1 (taskCountByPrio s)"
    "scheduledFlag s' = scheduledFlag s" "lastScheduleTarget s' = lastScheduleTarget s"
    "lastSchedulePriority s' = lastSchedulePriority s"
    by (simp_all add: D)
  show "delayTaskCount s' = delayTaskCount s + (if policy_of s t = DELAY then 1 else 0)"
    using d by (auto simp: D policy_of_def om_get_insert)
  show "taskDelayCountByPrio s' =
       (if policy_of s t = DELAY then om_add p 1 (taskDelayCountByPrio s) else taskDelayCountByPrio s)"
    using d by (auto simp: D policy_of_def om_get_insert)
qed

lemma Add_pending:
  assumes "queues_ok s" "accepts p s"
  shows "pending (snd (AddSendTaskIntoSchedule x p s)) = (pending s)(p := pending s p @ [x])"
  using assms zip_tasks_append[of "task_order s p" "task_group s p" "st_dstTarget x" x]
  by (auto simp: fun_eq_iff pending_def Add_fields[OF assms(2)] queues_ok_def)

lemma Add_ok:
  assumes s: "scheduler_ok s" and a: "accepts p s" and x: "task_ok x"
  shows "scheduler_ok (snd (AddSendTaskIntoSchedule x p s))" (is "scheduler_ok ?s")
proof -
  let ?t = "st_dstTarget x"
  note F = Add_fields[OF a, of x]
  have q: "queues_ok s" and st: "stats_ok s" using s by (simp_all add: scheduler_ok_def)
  note small = counters_small[OF s]
  have xs: "unat (GetSize (st_buffer x)) = task_size x" "task_size x \<le> 104857600"
    using x by (simp_all add: task_ok_def task_size_def word_le_nat_alt MAX_TOTAL_LEN_def)
  have q': "queues_ok ?s"
    using q x unfolding queues_ok_def F
    by (auto simp: counts_append keyed_def)
  have nd: "n_delayed ?s r = (if r = p then n_delayed s r + (if policy_of s ?t = DELAY then 1 else 0) else n_delayed s r)" for r
    by (simp add: n_delayed_def F)
  have st': "stats_ok ?s"
    unfolding stats_ok_def
  proof (intro conjI allI)
    fix r
    show "unat (om_get 0 (taskCountByPrio ?s) r) = length (task_order ?s r)"
      using st small(5)[of p] unat_inc32[of "om_get 0 (taskCountByPrio s) p" _ 1]
      by (simp add: F om_get_add stats_ok_def)
    show "unat (om_get 0 (taskDelayCountByPrio ?s) r) = n_delayed ?s r"
      using st small(6)[of p] unat_inc32[of "om_get 0 (taskDelayCountByPrio s) p" _ 1]
      by (simp add: F om_get_add stats_ok_def nd)
    have "tot (\<lambda>p. length (task_order ?s p)) = tot (\<lambda>p. length (task_order s p)) + 1"
      by (rule tot_upd[of _ p]) (simp add: F)
    then show "unat (curTotalSizeByTask ?s) = tot (\<lambda>p. length (task_order ?s p))"
      using st small(1) unat_inc32[of "curTotalSizeByTask s" _ 1] by (simp add: F stats_ok_def)
    show "unat (delayTaskCount ?s) = tot (n_delayed ?s)"
      using st small(2) unat_inc32[of "delayTaskCount s" _ 1] tot_upd[OF nd]
      by (simp add: F stats_ok_def)
    have "tot (\<lambda>p. sizes (pending ?s p)) = tot (\<lambda>p. sizes (pending s p)) + task_size x"
      by (rule tot_upd[of _ p]) (simp add: Add_pending[OF q a])
    then show "unat (curTotalSizeByByte ?s) = tot (\<lambda>p. sizes (pending ?s p))"
      using st small(3) xs unat_inc32[of "curTotalSizeByByte s" _ "GetSize (st_buffer x)"]
      by (simp add: F stats_ok_def)
    fix t
    have "tot (\<lambda>p. sizes (task_group ?s p t)) = tot (\<lambda>p. sizes (task_group s p t)) + (if t = ?t then task_size x else 0)"
      by (rule tot_upd[of _ p]) (simp add: F)
    then show "unat (om_get 0 (totalBytesByTarget ?s) t) = tot (\<lambda>p. sizes (task_group ?s p t))"
      using st small(4)[of ?t] xs unat_inc32[of "om_get 0 (totalBytesByTarget s) ?t" _ "GetSize (st_buffer x)"]
      by (auto simp: F stats_ok_def om_get_add)
  qed
  have "unat (MAX_CAPACITY + om_get 0 (extraCapacityInByteByPrio s) p) \<le> 134217728"
    using s by (cases p) (simp_all add: scheduler_ok_def MAX_CAPACITY_def EXTRA_CAPACITY_FOR_NORMAL_PRIORITY_def
        EXTRA_CAPACITY_FOR_HIGH_PRIORITY_def)
  then have "unat (curTotalSizeByByte s) < 134217728" using a by (simp add: accepts_def word_less_nat_alt)
  then have "unat (curTotalSizeByByte ?s) < 134217728 + unat MAX_TOTAL_LEN"
    using xs unat_inc32[of "curTotalSizeByByte s" _ "GetSize (st_buffer x)"] by (simp add: F MAX_TOTAL_LEN_def)
  then show ?thesis using s q' st' by (auto simp: scheduler_ok_def F)
qed

section \<open>Scheduling a task out\<close>

text \<open>All tasks, highest priority first, each priority in the order of arrival.\<close>

definition all_pending :: "scheduler \<Rightarrow> SendTask list" where
  "all_pending s = pending s HIGH @ pending s NORMAL @ pending s LOW"

definition pick :: "scheduler \<Rightarrow> SendTask" where
  "pick s = (case find (\<lambda>x. \<not> delayed s x) (all_pending s) of Some x \<Rightarrow> x | None \<Rightarrow> hd (all_pending s))"

lemma front_Ok: "xs \<noteq> [] \<Longrightarrow> front xs = Ok (hd xs)"
  by (cases xs) (simp_all add: front_def)

lemma find_append: "find P (xs @ ys) = (case find P xs of None \<Rightarrow> find P ys | Some x \<Rightarrow> Some x)"
  by (induction xs) auto

lemma find_None_length: "find P xs = None \<longleftrightarrow> length (filter (\<lambda>x. \<not> P x) xs) = length xs"
proof (induction xs)
  case (Cons x xs)
  then show ?case by auto (metis length_filter_le Suc_n_not_le_n)
qed simp

lemma queues_counts:
  assumes "queues_ok s"
  shows "counts (task_order s p) (task_group s p)" "keyed st_dstTarget (task_group s p)"
  using assms by (simp_all add: queues_ok_def)

lemma group_of_order:
  assumes "queues_ok s" "t \<in> set (task_order s p)"
  shows "task_group s p t \<noteq> []"
  using queues_counts(1)[OF assms(1), of p] assms(2)
  by (metis counts_def count_list_0_iff length_0_conv)

lemma schedule_delay_prio:
  assumes s: "scheduler_ok s"
  shows "schedule_delay (p # ps) s =
    (if pending s p = [] then schedule_delay ps s
     else Ok (hd (pending s p), \<lparr>si_delayFlag = True, si_taskPrio = p\<rparr>))"
proof (cases "task_order s p")
  case Nil
  then show ?thesis using s by (simp add: scheduler_ok_def stats_ok_def pending_def unat_eq_0[symmetric])
next
  case (Cons t ts)
  have q: "queues_ok s" using s by (simp add: scheduler_ok_def)
  have c: "om_get 0 (taskCountByPrio s) p \<noteq> 0"
    using s Cons by (auto simp: scheduler_ok_def stats_ok_def dest!: spec[of _ p])
  have "task_group s p t \<noteq> []" using group_of_order[OF q, of t p] Cons by simp
  then show ?thesis using c Cons by (simp add: pending_def front_Ok)
qed

lemma policy_cases: "policy_of s t = NO_DELAY \<longleftrightarrow> policy_of s t \<noteq> DELAY"
  by (cases "policy_of s t") auto

lemma schedule_no_delay_prio:
  assumes s: "scheduler_ok s"
  shows "schedule_no_delay (p # ps) s =
    (case find (\<lambda>x. \<not> delayed s x) (pending s p) of
       None \<Rightarrow> schedule_no_delay ps s
     | Some x \<Rightarrow> Ok (x, \<lparr>si_delayFlag = False, si_taskPrio = p\<rparr>))"
proof -
  have q: "queues_ok s" using s by (simp add: scheduler_ok_def)
  have cnt: "unat (om_get 0 (taskCountByPrio s) p) = length (task_order s p)"
      "unat (om_get 0 (taskDelayCountByPrio s) p) = n_delayed s p"
    using s by (simp_all add: scheduler_ok_def stats_ok_def)
  have f: "find (\<lambda>x. \<not> delayed s x) (pending s p) =
      map_option (\<lambda>t. hd (task_group s p t)) (find (\<lambda>t. policy_of s t = NO_DELAY) (task_order s p))"
    using find_zip_tasks[OF queues_counts[OF q, of p], of "\<lambda>t. policy_of s t = NO_DELAY"]
    by (simp add: pending_def delayed_def policy_cases)
  have skip: "om_get 0 (taskCountByPrio s) p = 0 \<or> om_get 0 (taskCountByPrio s) p = om_get 0 (taskDelayCountByPrio s) p
      \<longleftrightarrow> find (\<lambda>t. policy_of s t = NO_DELAY) (task_order s p) = None"
    unfolding find_None_length policy_cases
    using cnt by (auto simp: n_delayed_def word_unat_eq_iff)
  show ?thesis
  proof (cases "find (\<lambda>t. policy_of s t = NO_DELAY) (task_order s p)")
    case None
    then show ?thesis using skip f by simp
  next
    case (Some t)
    then have "t \<in> set (task_order s p)" by (auto simp: find_Some_iff)
    then show ?thesis using skip f Some group_of_order[OF q] by (simp add: front_Ok)
  qed
qed

lemma all_delayed_iff:
  assumes s: "scheduler_ok s"
  shows "delayTaskCount s = curTotalSizeByTask s \<longleftrightarrow> find (\<lambda>x. \<not> delayed s x) (all_pending s) = None"
    and "curTotalSizeByTask s = 0 \<longleftrightarrow> all_pending s = []"
proof -
  have q: "queues_ok s" and st: "stats_ok s" using s by (simp_all add: scheduler_ok_def)
  have n: "length (all_pending s) = unat (curTotalSizeByTask s)"
    using st by (simp add: all_pending_def pending_laws(1)[OF q] stats_ok_def tot_def)
  have "length (filter (delayed s) (all_pending s)) = unat (delayTaskCount s)"
    using st by (simp add: all_pending_def pending_laws(4)[OF q] stats_ok_def tot_def)
  then show "delayTaskCount s = curTotalSizeByTask s \<longleftrightarrow> find (\<lambda>x. \<not> delayed s x) (all_pending s) = None"
    using n by (simp add: find_None_length word_unat_eq_iff)
  show "curTotalSizeByTask s = 0 \<longleftrightarrow> all_pending s = []" using n by (auto simp: unat_eq_0[symmetric])
qed

lemma ScheduleOut_picks:
  assumes s: "scheduler_ok s" and ne: "all_pending s \<noteq> []"
  shows "\<exists>info s'. ScheduleOutSendTask s =
       Ok (pick s, info, om_get 0 (totalBytesByTarget s) (st_dstTarget (pick s)), s') \<and>
     pick s \<in> set (pending s (si_taskPrio info)) \<and> (si_delayFlag info \<longleftrightarrow> delayed s (pick s)) \<and>
     s' = s\<lparr>lastScheduleTarget := st_dstTarget (pick s), lastSchedulePriority := si_taskPrio info,
            scheduledFlag := True\<rparr> \<and>
     pick s = hd (task_group s (si_taskPrio info) (st_dstTarget (pick s)))"
proof -
  have q: "queues_ok s" and po: "priorityOrder s = [HIGH, NORMAL, LOW]" using s by (simp_all add: scheduler_ok_def)
  note all = all_delayed_iff[OF s]
  have nz: "curTotalSizeByTask s \<noteq> 0" using all ne by simp
  have hd_of: "x = hd (task_group s p (st_dstTarget x))" if "find P (pending s p) = Some x" "\<And>y. P y \<longleftrightarrow> Q (st_dstTarget y)"
    for P Q x p
  proof -
    have P: "P = (\<lambda>y. Q (st_dstTarget y))" using that(2) by auto
    have "find (\<lambda>y. Q (st_dstTarget y)) (zip_tasks (task_order s p) (task_group s p)) = Some x"
      using that(1) unfolding P pending_def .
    then obtain t where t: "find Q (task_order s p) = Some t" "x = hd (task_group s p t)"
      using find_zip_tasks[OF queues_counts[OF q, of p], of Q] by auto
    then have "t \<in> set (task_order s p)" by (auto simp: find_Some_iff)
    then have "st_dstTarget x = t"
      using keyed_hd[OF queues_counts(2)[OF q] group_of_order[OF q]] t by metis
    then show ?thesis using t by simp
  qed
  show ?thesis
  proof (cases "find (\<lambda>x. \<not> delayed s x) (all_pending s)")
    case None
    have d: "delayTaskCount s = curTotalSizeByTask s" using all None by simp
    define p where "p = (if pending s HIGH \<noteq> [] then HIGH else if pending s NORMAL \<noteq> [] then NORMAL else LOW)"
    have p: "pending s p \<noteq> []" "pick s = hd (pending s p)"
      using ne None by (auto simp: p_def pick_def all_pending_def)
    have "schedule_delay [HIGH, NORMAL, LOW] s = Ok (pick s, \<lparr>si_delayFlag = True, si_taskPrio = p\<rparr>)"
      using p ne by (auto simp: schedule_delay_prio[OF s] p_def all_pending_def simp del: schedule_delay.simps)
    moreover have "delayed s (pick s)"
    proof -
      have "pick s \<in> set (all_pending s)" using None ne by (simp add: pick_def)
      then show ?thesis using None unfolding find_None_iff by blast
    qed
    moreover have "find (\<lambda>x. True) (pending s p) = Some (pick s)" using p by (cases "pending s p") auto
    ultimately show ?thesis
      using d nz p hd_of[of "\<lambda>x. True" p "pick s" "\<lambda>t. True"]
      by (simp add: ScheduleOutSendTask_def guard_err_def ScheduleDelayTask_def po)
  next
    case (Some x)
    have x: "pick s = x" using Some by (simp add: pick_def)
    have d: "delayTaskCount s \<noteq> curTotalSizeByTask s" using all Some by simp
    define p where "p = (if find (\<lambda>x. \<not> delayed s x) (pending s HIGH) \<noteq> None then HIGH
                         else if find (\<lambda>x. \<not> delayed s x) (pending s NORMAL) \<noteq> None then NORMAL else LOW)"
    have f: "find (\<lambda>x. \<not> delayed s x) (pending s p) = Some x"
      using Some by (auto simp: p_def all_pending_def find_append split: option.splits)
    have "schedule_no_delay [HIGH, NORMAL, LOW] s = Ok (x, \<lparr>si_delayFlag = False, si_taskPrio = p\<rparr>)"
      using f 
      by (auto simp: schedule_no_delay_prio[OF s] p_def simp del: schedule_no_delay.simps split: option.splits if_splits)
    moreover have "x \<in> set (pending s p)" "\<not> delayed s x" using f by (auto simp: find_Some_iff)
    ultimately show ?thesis
      using d nz x hd_of[OF f, of "\<lambda>t. policy_of s t \<noteq> DELAY"]
      by (simp add: ScheduleOutSendTask_def guard_err_def ScheduleNoDelayTask_def po delayed_def)
  qed
qed

section \<open>Finalizing the scheduled task\<close>

lemma Finalize_fields:
  fixes s :: scheduler
  assumes "curTotalSizeByTask s \<noteq> 0" "scheduledFlag s"
    and g: "task_group s (lastSchedulePriority s) (lastScheduleTarget s) \<noteq> []"
  defines "p \<equiv> lastSchedulePriority s" and "t \<equiv> lastScheduleTarget s"
  defines "x \<equiv> hd (task_group s p t)"
  shows "\<exists>code s'. FinalizeLastScheduleTask s = Ok (code, s') \<and>
    task_order s' = (task_order s)(p := remove1 t (task_order s p)) \<and>
    task_group s' = (task_group s)(p := (task_group s p)(t := tl (task_group s p t))) \<and>
    policyMap s' = policyMap s \<and> priorityOrder s' = priorityOrder s \<and>
    extraCapacityInByteByPrio s' = extraCapacityInByteByPrio s \<and>
    curTotalSizeByByte s' = curTotalSizeByByte s - GetSize (st_buffer x) \<and>
    curTotalSizeByTask s' = curTotalSizeByTask s - 1 \<and>
    totalBytesByTarget s' = om_add t (- GetSize (st_buffer x)) (totalBytesByTarget s) \<and>
    taskCountByPrio s' = om_add p (- 1) (taskCountByPrio s) \<and>
    delayTaskCount s' = delayTaskCount s - (if policy_of s t = DELAY then 1 else 0) \<and>
    taskDelayCountByPrio s' =
      (if policy_of s t = DELAY then om_add p (- 1) (taskDelayCountByPrio s) else taskDelayCountByPrio s) \<and>
    \<not> scheduledFlag s' \<and> retryCount s' = retryCount s \<and> deviceCommErrCodeMap s' = deviceCommErrCodeMap s \<and>
    code = (if curTotalSizeByByte s \<ge> MAX_CAPACITY \<and> \<not> curTotalSizeByByte s' \<ge> MAX_CAPACITY
            then E_CONTAINER_FULL_TO_NOTFULL
            else if curTotalSizeByTask s' = 0 then E_CONTAINER_NOTEMPTY_TO_EMPTY
            else if curTotalSizeByTask s' = delayTaskCount s' then E_CONTAINER_ONLY_DELAY_TASK else E_OK)"
proof -
  have f: "front (task_group s p t) = Ok x" using g by (simp add: front_Ok x_def p_def t_def)
  have n: "curTotalSizeByTask s \<noteq> 0" "scheduledFlag s" using assms by simp_all
  note D = FinalizeLastScheduleTask_def Let_def p_def[symmetric] t_def[symmetric] f n
  show ?thesis
    by (cases "policy_of s t = DELAY")
       (auto simp: D fun_eq_iff task_order_def om_get_insert)
qed

lemma remove1_filter_length:
  "t \<in> set ts \<Longrightarrow> length (filter P ts) = length (filter P (remove1 t ts)) + (if P t then 1 else 0)"
  by (induction ts) auto

lemma sizes_remove_first:
  "\<exists>x \<in> set xs. P x \<Longrightarrow> sizes xs = sizes (remove_first P xs) + task_size (hd (filter P xs))"
  by (induction xs) auto

lemma Finalize_removes:
  assumes s: "scheduler_ok s" and fl: "scheduledFlag s"
  shows "\<exists>code s'. FinalizeLastScheduleTask s = Ok (code, s') \<and> scheduler_ok s' \<and> \<not> scheduledFlag s' \<and>
    policyMap s' = policyMap s \<and> curTotalSizeByTask s' = curTotalSizeByTask s - 1 \<and> curTotalSizeByTask s \<noteq> 0 \<and>
    pending s' = (pending s)(lastSchedulePriority s :=
       remove_first (\<lambda>x. st_dstTarget x = lastScheduleTarget s) (pending s (lastSchedulePriority s))) \<and>
    code = (if curTotalSizeByByte s \<ge> MAX_CAPACITY \<and> \<not> curTotalSizeByByte s' \<ge> MAX_CAPACITY
            then E_CONTAINER_FULL_TO_NOTFULL
            else if curTotalSizeByTask s' = 0 then E_CONTAINER_NOTEMPTY_TO_EMPTY
            else if curTotalSizeByTask s' = delayTaskCount s' then E_CONTAINER_ONLY_DELAY_TASK else E_OK)"
proof -
  let ?p = "lastSchedulePriority s" and ?t = "lastScheduleTarget s"
  let ?x = "hd (task_group s ?p ?t)"
  have q: "queues_ok s" and st: "stats_ok s" and g: "task_group s ?p ?t \<noteq> []"
    using s fl by (simp_all add: scheduler_ok_def)
  have tin: "?t \<in> set (task_order s ?p)"
    using queues_counts(1)[OF q, of ?p] g by (metis counts_def count_list_0_iff length_0_conv)
  have nz: "curTotalSizeByTask s \<noteq> 0"
  proof
    assume "curTotalSizeByTask s = 0"
    then have "tot (\<lambda>p. length (task_order s p)) = 0" using st by (simp add: stats_ok_def)
    then have "length (task_order s ?p) = 0" using tot_ge[of "\<lambda>p. length (task_order s p)" ?p] by simp
    then show False using tin by simp
  qed
  obtain code s' where F: "FinalizeLastScheduleTask s = Ok (code, s')"
    "task_order s' = (task_order s)(?p := remove1 ?t (task_order s ?p))"
    "task_group s' = (task_group s)(?p := (task_group s ?p)(?t := tl (task_group s ?p ?t)))"
    "policyMap s' = policyMap s" "priorityOrder s' = priorityOrder s"
    "extraCapacityInByteByPrio s' = extraCapacityInByteByPrio s"
    "curTotalSizeByByte s' = curTotalSizeByByte s - GetSize (st_buffer ?x)"
    "curTotalSizeByTask s' = curTotalSizeByTask s - 1"
    "totalBytesByTarget s' = om_add ?t (- GetSize (st_buffer ?x)) (totalBytesByTarget s)"
    "taskCountByPrio s' = om_add ?p (- 1) (taskCountByPrio s)"
    "delayTaskCount s' = delayTaskCount s - (if policy_of s ?t = DELAY then 1 else 0)"
    "taskDelayCountByPrio s' =
      (if policy_of s ?t = DELAY then om_add ?p (- 1) (taskDelayCountByPrio s) else taskDelayCountByPrio s)"
    "\<not> scheduledFlag s'"
    and code: "code = (if curTotalSizeByByte s \<ge> MAX_CAPACITY \<and> \<not> curTotalSizeByByte s' \<ge> MAX_CAPACITY
            then E_CONTAINER_FULL_TO_NOTFULL
            else if curTotalSizeByTask s' = 0 then E_CONTAINER_NOTEMPTY_TO_EMPTY
            else if curTotalSizeByTask s' = delayTaskCount s' then E_CONTAINER_ONLY_DELAY_TASK else E_OK)"
    using Finalize_fields[OF nz fl g] by blast
  have pol: "policy_of s' = policy_of s" by (simp add: policy_of_def F fun_eq_iff)
  have sub: "set (tl (task_group s ?p ?t)) \<subseteq> set (task_group s ?p ?t)" by (cases "task_group s ?p ?t") auto
  have q': "queues_ok s'"
    using q counts_remove[OF queues_counts(1)[OF q] g] keyed_tl[OF queues_counts(2)[OF q]] sub
      set_remove1_subset[of ?t "task_order s ?p"]
    unfolding queues_ok_def F by (auto simp: F)
  have pend: "pending s' = (pending s)(?p := remove_first (\<lambda>x. st_dstTarget x = ?t) (pending s ?p))"
    using zip_tasks_remove[OF queues_counts[OF q, of ?p], of ?t] by (auto simp: fun_eq_iff pending_def F)
  have len: "length (task_order s r) = length (task_order s' r) + (if r = ?p then 1 else 0)" for r
    using tin length_pos_if_in_set[OF tin] by (simp add: F length_remove1)
  have nd: "n_delayed s r = n_delayed s' r + (if r = ?p \<and> policy_of s ?t = DELAY then 1 else 0)" for r
    using remove1_filter_length[OF tin, of "\<lambda>t. policy_of s t = DELAY"] by (simp add: n_delayed_def F pol)
  have "\<exists>x \<in> set (pending s ?p). st_dstTarget x = ?t"
    using set_pending(2)[OF q, of ?x ?p ?t] g by auto
  from sizes_remove_first[OF this]
  have bt: "sizes (pending s r) = sizes (pending s' r) + (if r = ?p then task_size ?x else 0)" for r
    by (simp add: pend pending_laws(3)[OF q])
  have gr: "sizes (task_group s r t) = sizes (task_group s' r t) + (if r = ?p \<and> t = ?t then task_size ?x else 0)" for r t
    using g by (cases "task_group s ?p ?t") (auto simp: F)
  have tots1: "tot (\<lambda>p. length (task_order s p)) = tot (\<lambda>p. length (task_order s' p)) + 1"
    by (rule tot_upd[of _ ?p]) (use len in simp)
  have tots2: "tot (n_delayed s) = tot (n_delayed s') + (if policy_of s ?t = DELAY then 1 else 0)"
    by (rule tot_upd[of _ ?p]) (use nd in simp)
  have tots3: "tot (\<lambda>p. sizes (pending s p)) = tot (\<lambda>p. sizes (pending s' p)) + task_size ?x"
    by (rule tot_upd[of _ ?p]) (use bt in simp)
  have tots4: "tot (\<lambda>p. sizes (task_group s p t)) =
      tot (\<lambda>p. sizes (task_group s' p t)) + (if t = ?t then task_size ?x else 0)" for t
    by (rule tot_upd[of _ ?p]) (use gr in simp)
  have st': "stats_ok s'"
    unfolding stats_ok_def
  proof (intro conjI allI)
    fix r t
    show "unat (om_get 0 (taskCountByPrio s') r) = length (task_order s' r)"
      using st len[of r] unat_dec32'[of "om_get 0 (taskCountByPrio s) r" "length (task_order s' r)" 1]
      by (auto simp: F(10) om_get_add stats_ok_def)
    show "unat (om_get 0 (taskDelayCountByPrio s') r) = n_delayed s' r"
      using st nd[of r] unat_dec32'[of "om_get 0 (taskDelayCountByPrio s) r" "n_delayed s' r" 1]
      by (auto simp: F(12) om_get_add stats_ok_def)
    show "unat (curTotalSizeByTask s') = tot (\<lambda>p. length (task_order s' p))"
      using st tots1 unat_dec32[of "curTotalSizeByTask s" _ 1] by (simp add: F(8) stats_ok_def)
    show "unat (delayTaskCount s') = tot (n_delayed s')"
      using st tots2 unat_dec32[of "delayTaskCount s" _ 1] by (simp add: F(11) stats_ok_def)
    show "unat (curTotalSizeByByte s') = tot (\<lambda>p. sizes (pending s' p))"
      using st tots3 unat_dec32[of "curTotalSizeByByte s" _ "GetSize (st_buffer ?x)"]
      by (simp add: F(7) stats_ok_def task_size_def)
    show "unat (om_get 0 (totalBytesByTarget s') t) = tot (\<lambda>p. sizes (task_group s' p t))"
      using st tots4[of t] unat_dec32'[of "om_get 0 (totalBytesByTarget s) t" _ "GetSize (st_buffer ?x)"]
      by (auto simp: F(9) stats_ok_def om_get_add task_size_def)
  qed
  have "unat (curTotalSizeByByte s') \<le> unat (curTotalSizeByByte s)"
    using st st' tots3 by (simp add: stats_ok_def)
  then have "scheduler_ok s'" using s q' st' F by (simp add: scheduler_ok_def)
  then show ?thesis using F nz pend code by blast
qed

section \<open>Delaying a target\<close>

lemma filter_upd_length:
  "policy t \<noteq> DELAY \<Longrightarrow> length (filter (\<lambda>k. (policy(t := DELAY)) k = DELAY) ts) =
     length (filter (\<lambda>k. policy k = DELAY) ts) + count_list ts t"
  by (induction ts) auto

lemma filter_upd_length':
  "policy t = DELAY \<Longrightarrow> length (filter (\<lambda>k. policy k = DELAY) ts) =
     length (filter (\<lambda>k. (policy(t := NO_DELAY)) k = DELAY) ts) + count_list ts t"
  by (induction ts) auto

text \<open>Both operations change the policy of one target and the delay counters, and nothing else.\<close>

lemma policy_change_ok:
  assumes s: "scheduler_ok s" and c: "om_count (policyMap s) t"
    and s': "task_order s' = task_order s" "task_group s' = task_group s"
      "policyMap s' = om_insert t x (policyMap s)" "priorityOrder s' = priorityOrder s"
      "extraCapacityInByteByPrio s' = extraCapacityInByteByPrio s" "curTotalSizeByByte s' = curTotalSizeByByte s"
      "curTotalSizeByTask s' = curTotalSizeByTask s" "totalBytesByTarget s' = totalBytesByTarget s"
      "taskCountByPrio s' = taskCountByPrio s" "scheduledFlag s' = scheduledFlag s"
      "lastScheduleTarget s' = lastScheduleTarget s" "lastSchedulePriority s' = lastSchedulePriority s"
    and d: "\<And>p. unat (om_get 0 (taskDelayCountByPrio s') p) = n_delayed s' p"
      "unat (delayTaskCount s') = tot (n_delayed s')"
  shows "scheduler_ok s'" "pending s' = pending s"
proof -
  show p: "pending s' = pending s" by (simp add: pending_def s' fun_eq_iff)
  show "scheduler_ok s'" using s d by (simp add: scheduler_ok_def queues_ok_def stats_ok_def s' p)
qed

lemma Delay_ok:
  assumes s: "scheduler_ok s"
  shows "scheduler_ok (snd (DelayTaskByTarget t s)) \<and> pending (snd (DelayTaskByTarget t s)) = pending s"
proof (cases "om_count (policyMap s) t \<and> policy_of s t \<noteq> DELAY")
  case True
  let ?s = "snd (DelayTaskByTarget t s)"
  have po: "priorityOrder s = [HIGH, NORMAL, LOW]" and q: "queues_ok s" and st: "stats_ok s"
    using s by (simp_all add: scheduler_ok_def)
  note small = counters_small[OF s]
  have eq: "?s = add_delay [HIGH, NORMAL, LOW] t (s\<lparr>policyMap := om_insert t DELAY (policyMap s)\<rparr>)"
    using True by (simp add: DelayTaskByTarget_def po)
  have c: "count_list (task_order s p) t = length (task_group s p t)" for p
    using queues_counts(1)[OF q, of p] by (simp add: counts_def)
  have pol: "policy_of ?s = (policy_of s)(t := DELAY)" by (simp add: eq Let_def)
  have nd: "n_delayed ?s p = n_delayed s p + length (task_group s p t)" for p
    using filter_upd_length[of "policy_of s" t "task_order s p"] True
    by (simp only: n_delayed_def pol c[symmetric]) (simp add: eq Let_def)
  have le: "n_delayed ?s p \<le> length (task_order s p)" for p
    by (simp add: n_delayed_def eq Let_def)
  have le': "n_delayed s p + length (task_group s p t) < 300000000" for p
    using le[of p] nd[of p] small(5)[of p] by simp
  have "tot (n_delayed ?s) \<le> tot (\<lambda>p. length (task_order s p))" using le by (rule tot_mono)
  then have tl: "tot (n_delayed s) + tot (\<lambda>p. length (task_group s p t)) < 300000000"
    using small(1) nd by (simp add: tot_def)
  have u: "unat (of_nat (length (task_group s p t)) :: u32) = length (task_group s p t)" for p
    using le'[of p] by (simp add: unat_of_nat32)
  have 1: "unat (om_get 0 (taskDelayCountByPrio ?s) p) = n_delayed ?s p" for p
  proof -
    have "om_get 0 (taskDelayCountByPrio ?s) p =
        om_get 0 (taskDelayCountByPrio s) p + of_nat (length (task_group s p t))"
      by (cases p) (simp_all add: eq Let_def om_get_add)
    then show ?thesis
      using unat_inc32[of "om_get 0 (taskDelayCountByPrio s) p" "n_delayed s p"] st le'[of p]
      by (simp add: nd u stats_ok_def)
  qed
  have 2: "unat (delayTaskCount ?s) = tot (n_delayed ?s)"
  proof -
    have "delayTaskCount ?s = delayTaskCount s + of_nat (tot (\<lambda>p. length (task_group s p t)))"
      by (simp add: eq Let_def tot_def add.assoc)
    moreover have "unat (of_nat (tot (\<lambda>p. length (task_group s p t))) :: u32) = tot (\<lambda>p. length (task_group s p t))"
      using tl by (simp add: unat_of_nat32)
    ultimately show ?thesis
      using unat_inc32[of "delayTaskCount s" "tot (n_delayed s)" "of_nat (tot (\<lambda>p. length (task_group s p t)))"] st tl nd
      by (simp add: stats_ok_def tot_def)
  qed
  show ?thesis
    using policy_change_ok[OF s, of t ?s DELAY] True 1 2 by (simp add: eq Let_def)
next
  case False
  then have "snd (DelayTaskByTarget t s) = s" by (auto simp: DelayTaskByTarget_def)
  then show ?thesis using s by simp
qed

lemma NoDelay_ok:
  assumes s: "scheduler_ok s"
  shows "scheduler_ok (snd (NoDelayTaskByTarget t s)) \<and> pending (snd (NoDelayTaskByTarget t s)) = pending s"
proof (cases "om_count (policyMap s) t \<and> policy_of s t \<noteq> NO_DELAY")
  case True
  let ?s = "snd (NoDelayTaskByTarget t s)"
  have po: "priorityOrder s = [HIGH, NORMAL, LOW]" and q: "queues_ok s" and st: "stats_ok s"
    using s by (simp_all add: scheduler_ok_def)
  note small = counters_small[OF s]
  have eq: "?s = sub_delay [HIGH, NORMAL, LOW] t (s\<lparr>policyMap := om_insert t NO_DELAY (policyMap s)\<rparr>)"
    using True by (simp add: NoDelayTaskByTarget_def po)
  have c: "count_list (task_order s p) t = length (task_group s p t)" for p
    using queues_counts(1)[OF q, of p] by (simp add: counts_def)
  have pol: "policy_of ?s = (policy_of s)(t := NO_DELAY)" by (simp add: eq Let_def)
  have D: "policy_of s t = DELAY" using True by (cases "policy_of s t") auto
  have nd: "n_delayed s p = n_delayed ?s p + length (task_group s p t)" for p
    using filter_upd_length'[of "policy_of s" t "task_order s p"] D
    by (simp only: n_delayed_def pol c[symmetric]) (simp add: eq Let_def)
  have u: "unat (of_nat (length (task_group s p t)) :: u32) = length (task_group s p t)" for p
    using nd[of p] small(6)[of p] by (simp add: unat_of_nat32)
  have 1: "unat (om_get 0 (taskDelayCountByPrio ?s) p) = n_delayed ?s p" for p
  proof -
    have "om_get 0 (taskDelayCountByPrio ?s) p =
        om_get 0 (taskDelayCountByPrio s) p + (- of_nat (length (task_group s p t)))"
      by (cases p) (simp_all add: eq Let_def om_get_add)
    then show ?thesis
      using unat_dec32'[of "om_get 0 (taskDelayCountByPrio s) p" "n_delayed ?s p" "of_nat (length (task_group s p t))"] st
      by (simp add: nd[symmetric] u stats_ok_def)
  qed
  have 2: "unat (delayTaskCount ?s) = tot (n_delayed ?s)"
  proof -
    have t: "tot (n_delayed s) = tot (n_delayed ?s) + tot (\<lambda>p. length (task_group s p t))"
      using nd by (simp add: tot_def)
    have "delayTaskCount ?s = delayTaskCount s - of_nat (tot (\<lambda>p. length (task_group s p t)))"
      by (simp add: eq Let_def tot_def diff_diff_eq add.assoc)
    moreover have "unat (of_nat (tot (\<lambda>p. length (task_group s p t))) :: u32) = tot (\<lambda>p. length (task_group s p t))"
      using t small(2) by (simp add: unat_of_nat32)
    ultimately show ?thesis
      using unat_dec32[of "delayTaskCount s" "tot (n_delayed ?s)" "of_nat (tot (\<lambda>p. length (task_group s p t)))"] st t
      by (simp add: stats_ok_def)
  qed
  show ?thesis
    using policy_change_ok[OF s, of t ?s NO_DELAY] True 1 2 by (simp add: eq Let_def)
next
  case False
  then have "snd (NoDelayTaskByTarget t s) = s" by (auto simp: NoDelayTaskByTarget_def)
  then show ?thesis using s by simp
qed

section \<open>Marking tasks invalid\<close>

definition tkey :: "SendTask \<Rightarrow> target \<times> serial_buffer" where
  "tkey x = (st_dstTarget x, st_buffer x)"

text \<open>The same queues, up to the validity and the callbacks of the tasks.\<close>

definition same_tasks :: "scheduler \<Rightarrow> scheduler \<Rightarrow> bool" where
  "same_tasks s s' \<longleftrightarrow> task_order s' = task_order s \<and>
     (\<forall>p t. map tkey (task_group s' p t) = map tkey (task_group s p t)) \<and>
     policyMap s' = policyMap s \<and> priorityOrder s' = priorityOrder s \<and>
     extraCapacityInByteByPrio s' = extraCapacityInByteByPrio s \<and> curTotalSizeByByte s' = curTotalSizeByByte s \<and>
     curTotalSizeByTask s' = curTotalSizeByTask s \<and> totalBytesByTarget s' = totalBytesByTarget s \<and>
     taskCountByPrio s' = taskCountByPrio s \<and> taskDelayCountByPrio s' = taskDelayCountByPrio s \<and>
     delayTaskCount s' = delayTaskCount s \<and> scheduledFlag s' = scheduledFlag s \<and>
     lastScheduleTarget s' = lastScheduleTarget s \<and> lastSchedulePriority s' = lastSchedulePriority s"

lemma same_tasks_refl [simp]: "same_tasks s s"
  by (simp add: same_tasks_def)

lemma same_tasks_trans: "same_tasks s s1 \<Longrightarrow> same_tasks s1 s2 \<Longrightarrow> same_tasks s s2"
  by (simp add: same_tasks_def)

lemma same_tasks_retry [simp]:
  "same_tasks s (retryCount_update f s1) = same_tasks s s1"
  "same_tasks s (deviceCommErrCodeMap_update g s1) = same_tasks s s1"
  "same_tasks (retryCount_update f s) s1 = same_tasks s s1"
  "same_tasks (deviceCommErrCodeMap_update g s) s1 = same_tasks s s1"
  by (simp_all add: same_tasks_def)

lemma same_tasks_group:
  "map tkey xs = map tkey (task_group s p t) \<Longrightarrow> same_tasks s (set_group p t xs s)"
  by (simp add: same_tasks_def fun_eq_iff)

lemma same_tasks_ok:
  assumes s: "scheduler_ok s" and e: "same_tasks s s'"
  shows "scheduler_ok s'" "map tkey (pending s' p) = map tkey (pending s p)"
proof -
  have q: "queues_ok s" and st: "stats_ok s" using s by (simp_all add: scheduler_ok_def)
  have m: "map tkey (task_group s' p t) = map tkey (task_group s p t)" for p t using e by (simp add: same_tasks_def)
  have o: "task_order s' = task_order s" using e by (simp add: same_tasks_def)
  have len: "length (task_group s' p t) = length (task_group s p t)" for p t
    using arg_cong[OF m, of length] by simp
  have c': "counts (task_order s' p) (task_group s' p)" for p
    using queues_counts(1)[OF q, of p] by (simp add: counts_def o len)
  have "map st_dstTarget (task_group s' p t) = map fst (map tkey (task_group s' p t))" for p t
    by (simp add: tkey_def)
  then have dst: "map st_dstTarget (task_group s' p t) = map st_dstTarget (task_group s p t)" for p t
    unfolding m by (simp add: tkey_def)
  have buf: "map st_buffer (task_group s' p t) = map st_buffer (task_group s p t)" for p t
    using arg_cong[OF m, of "map snd"] by (simp add: tkey_def comp_def)
  have k': "keyed st_dstTarget (task_group s' p)" for p
    using queues_counts(2)[OF q, of p] arg_cong[OF dst, of set, of p]
    by (fastforce simp: keyed_def)
  have b: "\<forall>x \<in> set (task_group s' p t). task_ok x" for p t
  proof
    fix x
    assume "x \<in> set (task_group s' p t)"
    then have "st_buffer x \<in> set (map st_buffer (task_group s' p t))" by simp
    then obtain y where "y \<in> set (task_group s p t)" "st_buffer y = st_buffer x" unfolding buf by auto
    moreover from this have "task_ok y" using q by (simp add: queues_ok_def)
    ultimately show "task_ok x" by (simp add: task_ok_def)
  qed
  show pend: "map tkey (pending s' p) = map tkey (pending s p)" for p
    using zip_tasks_map[OF c', of tkey p] zip_tasks_map[OF queues_counts(1)[OF q], of tkey p]
    by (simp add: pending_def o m)
  have sz: "sizes xs = sum_list (map (\<lambda>(d, b). unat (GetSize b)) (map tkey xs))" for xs
    by (simp add: sizes_def tkey_def task_size_def[abs_def] comp_def)
  have "sizes (pending s' p) = sizes (pending s p)" "sizes (task_group s' p t) = sizes (task_group s p t)" for p t
    unfolding sz pend m by simp_all
  moreover have "policy_of s' = policy_of s" using e by (simp add: same_tasks_def policy_of_def fun_eq_iff)
  moreover from this have "n_delayed s' = n_delayed s" by (simp add: n_delayed_def o fun_eq_iff)
  ultimately have "stats_ok s'" using st e by (simp add: stats_ok_def same_tasks_def)
  moreover have "queues_ok s'" using q c' k' b e by (simp add: queues_ok_def same_tasks_def)
  moreover have "task_group s' p t = [] \<longleftrightarrow> task_group s p t = []" for p t using len[of p t] by (metis length_0_conv)
  ultimately show "scheduler_ok s'" using s e by (simp add: scheduler_ok_def same_tasks_def)
qed

lemma invalidate_same:
  "invalidate t xs s = (xs', calls, s') \<Longrightarrow> map tkey xs' = map tkey xs \<and> same_tasks s s' \<and>
     task_group s' = task_group s \<and> deviceCommErrCodeMap s' = deviceCommErrCodeMap s"
proof (induction xs arbitrary: s xs' calls s')
  case (Cons x xs)
  from Cons.prems show ?case
    by (auto simp: Let_def tkey_def dest!: Cons.IH split: prod.splits if_splits option.splits)
qed simp

lemma drop_no_retry_same:
  "drop_no_retry t err xs s = (xs', calls, s') \<Longrightarrow> map tkey xs' = map tkey xs \<and> same_tasks s s' \<and>
     task_group s' = task_group s"
proof (induction xs arbitrary: s xs' calls s')
  case (Cons x xs)
  from Cons.prems show ?case
    by (auto simp: Let_def tkey_def dest!: Cons.IH split: prod.splits if_splits option.splits)
qed simp

lemma same_tasks_set:
  assumes "same_tasks s s1" "task_group s1 = task_group s" "map tkey xs = map tkey (task_group s p t)"
  shows "same_tasks s (set_group p t xs s1)"
  by (rule same_tasks_trans[OF assms(1)], rule same_tasks_group) (simp add: assms)

lemma invalid_prios_same: "same_tasks s (snd (invalid_prios ps t s))"
proof (induction ps arbitrary: s)
  case (Cons p ps)
  obtain xs calls s1 where i: "invalidate t (task_group s p t) s = (xs, calls, s1)" by (metis prod_cases3)
  have "same_tasks s (set_group p t xs s1)"
    using invalidate_same[OF i] by (intro same_tasks_set) auto
  then show ?case
    using Cons.IH[of s] same_tasks_trans[OF _ Cons.IH[of "set_group p t xs s1"]]
    by (simp add: i split: prod.splits) (metis snd_conv)
qed simp

lemma err_prios_same: "same_tasks s (snd (err_prios ps t err s))"
proof (induction ps arbitrary: s)
  case (Cons p ps)
  obtain xs calls s1 where i: "drop_no_retry t err (task_group s p t) s = (xs, calls, s1)" by (metis prod_cases3)
  have "same_tasks s (set_group p t xs s1)"
    using drop_no_retry_same[OF i] by (intro same_tasks_set) auto
  then show ?case
    using Cons.IH[of s] same_tasks_trans[OF _ Cons.IH[of "set_group p t xs s1"]]
    by (simp add: i split: prod.splits) (metis snd_conv)
qed simp

lemma marking_same:
  "same_tasks s (snd (InvalidSendTask t s))" "same_tasks s (snd (SetDeviceCommErrCode t err s))"
  using invalid_prios_same[of s "priorityOrder s" t]
    err_prios_same[of "s\<lparr>deviceCommErrCodeMap := om_insert t err (deviceCommErrCodeMap s)\<rparr>" "priorityOrder s" t err]
    same_tasks_trans[of s "s\<lparr>deviceCommErrCodeMap := om_insert t err (deviceCommErrCodeMap s)\<rparr>"]
  by (auto simp: InvalidSendTask_def SetDeviceCommErrCode_def Let_def split: prod.splits)

section \<open>Reachable states\<close>

inductive scheduler_reach :: "scheduler \<Rightarrow> bool" where
  initialized: "scheduler_reach (Scheduler_Initialize new_SendTaskScheduler)"
| added: "scheduler_reach s \<Longrightarrow> task_ok x \<Longrightarrow> scheduler_reach (snd (AddSendTaskIntoSchedule x p s))"
| scheduled: "scheduler_reach s \<Longrightarrow> ScheduleOutSendTask s = Ok (x, info, len, s') \<Longrightarrow> scheduler_reach s'"
| finalized: "scheduler_reach s \<Longrightarrow> FinalizeLastScheduleTask s = Ok (code, s') \<Longrightarrow> scheduler_reach s'"
| delay: "scheduler_reach s \<Longrightarrow> scheduler_reach (snd (DelayTaskByTarget t s))"
| no_delay: "scheduler_reach s \<Longrightarrow> scheduler_reach (snd (NoDelayTaskByTarget t s))"
| invalid: "scheduler_reach s \<Longrightarrow> scheduler_reach (snd (InvalidSendTask t s))"
| comm_err: "scheduler_reach s \<Longrightarrow> scheduler_reach (snd (SetDeviceCommErrCode t err s))"
| reset_retry: "scheduler_reach s \<Longrightarrow> scheduler_reach (ResetRetryCount t b s)"
| reset_dev: "scheduler_reach s \<Longrightarrow> scheduler_reach (ResetRetryCount_dev t s)"
| reset_all: "scheduler_reach s \<Longrightarrow> scheduler_reach (ResetRetryCount_all s)"
| increase: "scheduler_reach s \<Longrightarrow> IncreaseRetryCountIfNeed t b s = Ok s' \<Longrightarrow> scheduler_reach s'"

lemma scheduler_ok_retry [simp]: "scheduler_ok (retryCount_update f s) = scheduler_ok s"
  by (simp add: scheduler_ok_def queues_ok_def stats_ok_def n_delayed_def pending_def tot_def)

lemma initial_ok: "scheduler_ok (Scheduler_Initialize new_SendTaskScheduler)"
proof -
  let ?s = "Scheduler_Initialize new_SendTaskScheduler"
  have S: "taskOrderByPrio ?s = []" "taskGroupByPrio ?s = [(LOW, []), (NORMAL, []), (HIGH, [])]"
    "taskCountByPrio ?s = [(LOW, 0), (NORMAL, 0), (HIGH, 0)]"
    "taskDelayCountByPrio ?s = [(LOW, 0), (NORMAL, 0), (HIGH, 0)]"
    "extraCapacityInByteByPrio ?s = [(LOW, 0), (NORMAL, EXTRA_CAPACITY_FOR_NORMAL_PRIORITY),
                                     (HIGH, EXTRA_CAPACITY_FOR_HIGH_PRIORITY)]"
    "curTotalSizeByByte ?s = 0" "curTotalSizeByTask ?s = 0" "delayTaskCount ?s = 0"
    "priorityOrder ?s = [HIGH, NORMAL, LOW]" "totalBytesByTarget ?s = []" "\<not> scheduledFlag ?s"
    by (simp_all add: Scheduler_Initialize_def new_SendTaskScheduler_def Let_def less_Priority_def)
  have o: "task_order ?s p = []" "task_group ?s p = (\<lambda>t. [])" for p
    by (simp_all add: task_order_def task_group_def S om_get_def om_find_Cons fun_eq_iff)
  have "queues_ok ?s" by (simp add: queues_ok_def o counts_Nil keyed_def)
  moreover have "stats_ok ?s"
    by (simp add: stats_ok_def o n_delayed_def pending_def tot_def S om_get_def om_find_Cons)
  ultimately show ?thesis
    by (simp add: scheduler_ok_def S om_get_def om_find_Cons MAX_TOTAL_LEN_def)
qed

lemma all_pending_empty_iff:
  assumes "scheduler_ok s"
  shows "curTotalSizeByTask s = 0 \<longleftrightarrow> all_pending s = []"
  using all_delayed_iff(2)[OF assms] .

lemma ScheduleOut_ok:
  assumes "scheduler_ok s" "ScheduleOutSendTask s = Ok (x, info, len, s')"
  shows "scheduler_ok s' \<and> pending s' = pending s \<and> scheduledFlag s'"
proof -
  have "all_pending s \<noteq> []"
    using ScheduleOut_frame(2)[OF assms(2)] all_pending_empty_iff[OF assms(1)] by simp
  from ScheduleOut_picks[OF assms(1) this] assms(2)
  have s': "s' = s\<lparr>lastScheduleTarget := st_dstTarget (pick s), lastSchedulePriority := si_taskPrio info,
            scheduledFlag := True\<rparr>" and p: "pick s \<in> set (pending s (si_taskPrio info))"
    by auto
  have q: "queues_ok s" using assms by (simp add: scheduler_ok_def)
  have "task_group s (si_taskPrio info) (st_dstTarget (pick s)) \<noteq> []"
    using set_pending(1)[OF q] p by fastforce
  moreover have "pending s' = pending s" by (simp add: s' pending_def fun_eq_iff)
  ultimately show ?thesis
    using assms(1)
    by (simp add: s' scheduler_ok_def queues_ok_def stats_ok_def n_delayed_def tot_def)
qed

lemma Finalize_ok:
  assumes "scheduler_ok s" "FinalizeLastScheduleTask s = Ok (code, s')"
  shows "scheduler_ok s'"
proof (cases "scheduledFlag s")
  case True
  then show ?thesis using Finalize_removes[OF assms(1) True] assms(2) by auto
next
  case False
  then have "s' = s" using assms(2) by (auto simp: FinalizeLastScheduleTask_def split: if_splits)
  then show ?thesis using assms by simp
qed

lemma Increase_ok:
  assumes "scheduler_ok s" "IncreaseRetryCountIfNeed t b s = Ok s'"
  shows "scheduler_ok s'"
  using assms ScheduleOut_ok[OF assms(1)]
  by (auto simp: IncreaseRetryCountIfNeed_def set_retry_def split: res.splits prod.splits if_splits)

lemma scheduler_reach_ok: "scheduler_reach s \<Longrightarrow> scheduler_ok s"
proof (induction rule: scheduler_reach.induct)
  case initialized
  show ?case by (rule initial_ok)
next
  case (added s x p)
  then show ?case by (cases "accepts p s") (simp_all add: Add_ok Add_full)
next
  case (scheduled s x info len s')
  then show ?case using ScheduleOut_ok by blast
next
  case (finalized s code s')
  then show ?case using Finalize_ok by blast
next
  case (invalid s t)
  then show ?case using same_tasks_ok(1) marking_same(1) by blast
next
  case (comm_err s t err)
  then show ?case using same_tasks_ok(1) marking_same(2) by blast
next
  case (increase s t b s')
  then show ?case using Increase_ok by blast
qed (simp_all add: Delay_ok NoDelay_ok ResetRetryCount_def ResetRetryCount_dev_def ResetRetryCount_all_def set_retry_def)

section \<open>Properties\<close>

lemma ScheduleOut_empty: "curTotalSizeByTask s = 0 \<Longrightarrow> ScheduleOutSendTask s = Err E_CONTAINER_EMPTY"
  by (simp add: ScheduleOutSendTask_def guard_err_def)

lemma pending_buckets:
  assumes "queues_ok s"
  shows "(\<Sum>x \<leftarrow> all_pending s. unat (GetSize (st_buffer x))) = tot (\<lambda>p. sizes (pending s p))"
    "length (all_pending s) = tot (\<lambda>p. length (task_order s p))"
    "length (filter (delayed s) (all_pending s)) = tot (n_delayed s)"
    "(\<Sum>x \<leftarrow> filter (\<lambda>x. st_dstTarget x = t) (all_pending s). unat (GetSize (st_buffer x))) =
       tot (\<lambda>p. sizes (task_group s p t))"
  using pending_laws[OF assms]
  by (simp_all add: all_pending_def tot_def sizes_def task_size_def[abs_def])

lemma scheduler_reachable_ok_laws:
  assumes "scheduler_reach s"
  shows "unat (curTotalSizeByByte s) = (\<Sum>x \<leftarrow> all_pending s. unat (GetSize (st_buffer x)))"
    and "unat (curTotalSizeByTask s) = length (all_pending s)"
    and "unat (delayTaskCount s) = length (filter (delayed s) (all_pending s))"
    and "unat (om_get 0 (totalBytesByTarget s) t) =
           (\<Sum>x \<leftarrow> filter (\<lambda>x. st_dstTarget x = t) (all_pending s). unat (GetSize (st_buffer x)))"
    and "unat (curTotalSizeByByte s) < 134217728 + unat MAX_TOTAL_LEN"
    and "ScheduleOutSendTask s \<noteq> Fault" "ScheduleOutSendTask s \<noteq> Err E_INTERNAL_ERROR"
    and "FinalizeLastScheduleTask s \<noteq> Fault"
proof -
  have ok: "scheduler_ok s" using assms by (rule scheduler_reach_ok)
  then have q: "queues_ok s" and st: "stats_ok s" by (simp_all add: scheduler_ok_def)
  show "unat (curTotalSizeByByte s) = (\<Sum>x \<leftarrow> all_pending s. unat (GetSize (st_buffer x)))"
    "unat (curTotalSizeByTask s) = length (all_pending s)"
    "unat (delayTaskCount s) = length (filter (delayed s) (all_pending s))"
    "unat (om_get 0 (totalBytesByTarget s) t) =
       (\<Sum>x \<leftarrow> filter (\<lambda>x. st_dstTarget x = t) (all_pending s). unat (GetSize (st_buffer x)))"
    using st unfolding pending_buckets[OF q] stats_ok_def by simp_all
  show "unat (curTotalSizeByByte s) < 134217728 + unat MAX_TOTAL_LEN" using ok by (simp add: scheduler_ok_def)
  show "ScheduleOutSendTask s \<noteq> Fault" "ScheduleOutSendTask s \<noteq> Err E_INTERNAL_ERROR"
    using ScheduleOut_picks[OF ok] ScheduleOut_empty[of s] all_pending_empty_iff[OF ok]
    by (cases "all_pending s = []"; auto)+
  show "FinalizeLastScheduleTask s \<noteq> Fault"
  proof (cases "scheduledFlag s")
    case True
    then show ?thesis using Finalize_removes[OF ok True] by auto
  qed (simp add: FinalizeLastScheduleTask_def)
qed

text \<open>
  C20: In every reachable state of the scheduler the counters are exact and have not wrapped: the byte
  total and the task total are those of the pending tasks, the delay counter counts the tasks of
  delayed targets, and the bytes per target are those of its tasks.  Scheduling never reports an
  internal error and no operation takes the front of an empty list, and finalizing a task that
  was scheduled out always finds it.
\<close>

theorem scheduler_reachable_ok:
  assumes "scheduler_reach s"
  shows "unat (curTotalSizeByByte s) = (\<Sum>x \<leftarrow> all_pending s. unat (GetSize (st_buffer x))) \<and>
    unat (curTotalSizeByTask s) = length (all_pending s) \<and>
    unat (delayTaskCount s) = length (filter (delayed s) (all_pending s)) \<and>
    unat (om_get 0 (totalBytesByTarget s) t) =
      (\<Sum>x \<leftarrow> filter (\<lambda>x. st_dstTarget x = t) (all_pending s). unat (GetSize (st_buffer x))) \<and>
    unat (curTotalSizeByByte s) < 134217728 + unat MAX_TOTAL_LEN \<and>
    ScheduleOutSendTask s \<noteq> Fault \<and>
    ScheduleOutSendTask s \<noteq> Err E_INTERNAL_ERROR \<and>
    FinalizeLastScheduleTask s \<noteq> Fault"
  using scheduler_reachable_ok_laws[OF assms] by blast

text \<open>
  C19: The scheduler hands out, of all pending tasks in the order high, normal, low priority and
  within a priority in the order of arrival, the first one whose target is not delayed; only when all
  tasks are delayed does it hand out the first task of all.  The length it reports is the number
  of bytes pending for that target.
\<close>

theorem schedule_picks_first_ready:
  assumes "scheduler_reach s" "all_pending s \<noteq> []"
  shows "\<exists>task info len s'. ScheduleOutSendTask s = Ok (task, info, len, s') \<and>
     task = (case find (\<lambda>x. \<not> delayed s x) (all_pending s) of Some x \<Rightarrow> x | None \<Rightarrow> hd (all_pending s)) \<and>
     (si_delayFlag info \<longleftrightarrow> delayed s task) \<and> task \<in> set (pending s (si_taskPrio info)) \<and>
     unat len = (\<Sum>x \<leftarrow> filter (\<lambda>x. st_dstTarget x = st_dstTarget task) (all_pending s). unat (GetSize (st_buffer x))) \<and>
     (\<forall>p. pending s' p = pending s p)"
proof -
  have ok: "scheduler_ok s" using assms(1) by (rule scheduler_reach_ok)
  then have q: "queues_ok s" and st: "stats_ok s" by (simp_all add: scheduler_ok_def)
  obtain info s' where o: "ScheduleOutSendTask s =
       Ok (pick s, info, om_get 0 (totalBytesByTarget s) (st_dstTarget (pick s)), s')"
     "pick s \<in> set (pending s (si_taskPrio info))" "si_delayFlag info \<longleftrightarrow> delayed s (pick s)"
    using ScheduleOut_picks[OF ok assms(2)] by blast
  have "unat (om_get 0 (totalBytesByTarget s) (st_dstTarget (pick s))) =
      (\<Sum>x \<leftarrow> filter (\<lambda>x. st_dstTarget x = st_dstTarget (pick s)) (all_pending s). unat (GetSize (st_buffer x)))"
    using st unfolding pending_buckets(4)[OF q] stats_ok_def by simp
  then show ?thesis using o ScheduleOut_ok[OF ok o(1)] unfolding pick_def by auto
qed

section \<open>Histories\<close>

text \<open>Every operation of the scheduler, as the producers and the consumer interleave them.\<close>

datatype sched_op =
    Op_Add SendTask Priority | Op_Out | Op_Finalize | Op_Delay target | Op_NoDelay target
  | Op_Invalid target | Op_CommErr target errcode | Op_ResetRetry target bool | Op_IncRetry target bool

fun do_op :: "sched_op \<Rightarrow> scheduler \<Rightarrow> scheduler" where
  "do_op (Op_Add x p) s = snd (AddSendTaskIntoSchedule x p s)"
| "do_op Op_Out s = (case ScheduleOutSendTask s of Ok (x, info, len, s') \<Rightarrow> s' | _ \<Rightarrow> s)"
| "do_op Op_Finalize s = (case FinalizeLastScheduleTask s of Ok (code, s') \<Rightarrow> s' | _ \<Rightarrow> s)"
| "do_op (Op_Delay t) s = snd (DelayTaskByTarget t s)"
| "do_op (Op_NoDelay t) s = snd (NoDelayTaskByTarget t s)"
| "do_op (Op_Invalid t) s = snd (InvalidSendTask t s)"
| "do_op (Op_CommErr t e) s = snd (SetDeviceCommErrCode t e s)"
| "do_op (Op_ResetRetry t b) s = ResetRetryCount t b s"
| "do_op (Op_IncRetry t b) s = (case IncreaseRetryCountIfNeed t b s of Ok s' \<Rightarrow> s' | _ \<Rightarrow> s)"

text \<open>The buffers that an operation adds to, or finishes from, the tasks of a target at a priority.\<close>

fun op_added :: "Priority \<Rightarrow> target \<Rightarrow> sched_op \<Rightarrow> scheduler \<Rightarrow> serial_buffer list" where
  "op_added p t (Op_Add x q) s =
     (if q = p \<and> st_dstTarget x = t \<and> fst (AddSendTaskIntoSchedule x q s) = E_OK then [st_buffer x] else [])"
| "op_added p t _ s = []"

fun op_finished :: "Priority \<Rightarrow> target \<Rightarrow> sched_op \<Rightarrow> scheduler \<Rightarrow> serial_buffer list" where
  "op_finished p t Op_Finalize s =
     (if scheduledFlag s \<and> lastSchedulePriority s = p \<and> lastScheduleTarget s = t
      then [st_buffer (hd (task_group s p t))] else [])"
| "op_finished p t _ s = []"

fun run_ops :: "sched_op list \<Rightarrow> scheduler \<Rightarrow> scheduler" where
  "run_ops [] s = s"
| "run_ops (x # xs) s = run_ops xs (do_op x s)"

fun added_by :: "Priority \<Rightarrow> target \<Rightarrow> sched_op list \<Rightarrow> scheduler \<Rightarrow> serial_buffer list" where
  "added_by p t [] s = []"
| "added_by p t (x # xs) s = op_added p t x s @ added_by p t xs (do_op x s)"

fun finished_by :: "Priority \<Rightarrow> target \<Rightarrow> sched_op list \<Rightarrow> scheduler \<Rightarrow> serial_buffer list" where
  "finished_by p t [] s = []"
| "finished_by p t (x # xs) s = op_finished p t x s @ finished_by p t xs (do_op x s)"

fun op_ok :: "sched_op \<Rightarrow> bool" where
  "op_ok (Op_Add x p) = task_ok x"
| "op_ok _ = True"

definition buffers :: "scheduler \<Rightarrow> Priority \<Rightarrow> target \<Rightarrow> serial_buffer list" where
  "buffers s p t = map st_buffer (task_group s p t)"

lemma buffers_same: "same_tasks s s' \<Longrightarrow> buffers s' p t = buffers s p t"
proof -
  assume "same_tasks s s'"
  then have "map snd (map tkey (task_group s' p t)) = map snd (map tkey (task_group s p t))"
    by (simp add: same_tasks_def)
  then show ?thesis by (simp add: buffers_def tkey_def comp_def)
qed

lemma buffers_pending: "scheduler_ok s \<Longrightarrow> scheduler_ok s' \<Longrightarrow> pending s' = pending s \<Longrightarrow> buffers s' p t = buffers s p t"
  by (metis buffers_def pending_laws(3) scheduler_ok_def)

lemma Increase_buffers:
  assumes ok: "scheduler_ok s" and i: "IncreaseRetryCountIfNeed d b s = Ok s'"
  shows "buffers s' p t = buffers s p t"
proof (cases "ScheduleOutSendTask s")
  case (Ok r)
  obtain x info len s1 where r: "r = (x, info, len, s1)" by (cases r)
  have "buffers s1 p t = buffers s p t"
    using ScheduleOut_ok[OF ok, of x info len s1] Ok r by (intro buffers_pending[OF ok]) auto
  moreover have "task_group s' = task_group s1"
    using i Ok r by (auto simp: IncreaseRetryCountIfNeed_def set_retry_def split: if_splits)
  ultimately show ?thesis by (simp add: buffers_def)
qed (use i in \<open>auto simp: IncreaseRetryCountIfNeed_def\<close>)

lemma do_op_reach:
  assumes "scheduler_reach s" "op_ok x"
  shows "scheduler_reach (do_op x s)"
  using assms
  by (cases x) (auto intro: scheduler_reach.intros split: res.splits)

lemma do_op_fifo:
  assumes s: "scheduler_reach s" and x: "op_ok x"
  shows "op_finished p t x s @ buffers (do_op x s) p t = buffers s p t @ op_added p t x s"
proof -
  have ok: "scheduler_ok s" and ok': "scheduler_ok (do_op x s)"
    using s do_op_reach[OF s x] by (simp_all add: scheduler_reach_ok)
  show ?thesis
  proof (cases x)
    case (Op_Add y q)
    then show ?thesis
      by (cases "accepts q s") (auto simp: Add_full buffers_def Add_fields)
  next
    case Op_Out
    then show ?thesis using ScheduleOut_ok[OF ok] by (auto simp: buffers_pending ok split: res.splits)
  next
    case Op_Finalize
    show ?thesis
    proof (cases "scheduledFlag s")
      case True
      let ?p = "lastSchedulePriority s" and ?t = "lastScheduleTarget s"
      have g: "task_group s ?p ?t \<noteq> []" using ok True by (simp add: scheduler_ok_def)
      have nz: "curTotalSizeByTask s \<noteq> 0" using Finalize_removes[OF ok True] by blast
      obtain code s' where f: "FinalizeLastScheduleTask s = Ok (code, s')"
          "task_group s' = (task_group s)(?p := (task_group s ?p)(?t := tl (task_group s ?p ?t)))"
        using Finalize_fields[OF nz True g] by blast
      show ?thesis using True f g by (cases "task_group s ?p ?t") (auto simp: Op_Finalize buffers_def)
    next
      case False
      then show ?thesis
        by (auto simp: Op_Finalize FinalizeLastScheduleTask_def)
    qed
  next
    case (Op_IncRetry d b)
    then show ?thesis
      using Increase_buffers[OF ok, of d b] by (cases "IncreaseRetryCountIfNeed d b s") auto
  next
    case (Op_ResetRetry d b)
    then show ?thesis by (simp add: ResetRetryCount_def set_retry_def buffers_def)
  next
    case (Op_Delay d)
    then show ?thesis using buffers_pending[OF ok, of "snd (DelayTaskByTarget d s)" p t] Delay_ok[OF ok, of d] by simp
  next
    case (Op_NoDelay d)
    then show ?thesis using buffers_pending[OF ok, of "snd (NoDelayTaskByTarget d s)" p t] NoDelay_ok[OF ok, of d] by simp
  next
    case (Op_Invalid d)
    then show ?thesis using buffers_same[OF marking_same(1)[of s d], of p t] by simp
  next
    case (Op_CommErr d e)
    then show ?thesis using buffers_same[OF marking_same(2)[of s d e], of p t] by simp
  qed
qed

lemma run_ops_fifo:
  assumes "scheduler_reach s" "\<forall>x \<in> set xs. op_ok x"
  shows "finished_by p t xs s @ buffers (run_ops xs s) p t = buffers s p t @ added_by p t xs s"
  using assms
proof (induction xs arbitrary: s)
  case (Cons x xs)
  then have IH: "finished_by p t xs (do_op x s) @ buffers (run_ops xs (do_op x s)) p t =
      buffers (do_op x s) p t @ added_by p t xs (do_op x s)" by (simp add: do_op_reach)
  then show ?case using do_op_fifo[of s x p t] Cons.prems by (simp add: IH)
qed simp

text \<open>
  C18: First in, first out per target and priority.  However adding, scheduling out, finalizing, delaying
  and invalidating interleave, the buffers finished for a target at a priority, followed by those
  still pending, are the buffers that were pending at the start followed by those added, in order:
  none is lost, duplicated or overtaken.
\<close>

theorem scheduler_fifo_per_target:
  assumes "scheduler_reach s" "\<forall>x \<in> set xs. op_ok x"
  shows "finished_by p t xs s @ map st_buffer (task_group (run_ops xs s) p t) =
         map st_buffer (task_group s p t) @ added_by p t xs s"
  using run_ops_fifo[OF assms, of p t] by (simp add: buffers_def)

section \<open>Draining\<close>

lemma pending_step_down:
  assumes ok: "scheduler_ok s" and ne: "curTotalSizeByTask s \<noteq> 0"
  shows "\<exists>x info len s1 code s2. ScheduleOutSendTask s = Ok (x, info, len, s1) \<and>
     FinalizeLastScheduleTask s1 = Ok (code, s2) \<and> scheduler_ok s2"
proof -
  obtain x info len s1 where o: "ScheduleOutSendTask s = Ok (x, info, len, s1)"
    using ScheduleOut_picks[OF ok] all_pending_empty_iff[OF ok] ne by blast
  then have "scheduler_ok s1" "scheduledFlag s1" using ScheduleOut_ok[OF ok] by simp_all
  then show ?thesis using Finalize_removes[of s1] o by blast
qed

lemma Finalize_drains: "scheduler_ok s \<Longrightarrow> \<exists>s'. Scheduler_Finalize s = Ok s' \<and> scheduler_ok s' \<and> curTotalSizeByTask s' = 0"
proof (induction "unat (curTotalSizeByTask s)" arbitrary: s rule: less_induct)
  case less
  show ?case
  proof (cases "curTotalSizeByTask s = 0")
    case True
    then show ?thesis using less.prems by (subst Scheduler_Finalize.simps) (simp add: GetTotalTaskCount_def)
  next
    case False
    then obtain x info len s1 code s2 where st: "ScheduleOutSendTask s = Ok (x, info, len, s1)"
        "FinalizeLastScheduleTask s1 = Ok (code, s2)" "scheduler_ok s2"
      using pending_step_down[OF less.prems] by blast
    obtain s' where "Scheduler_Finalize s2 = Ok s' \<and> scheduler_ok s' \<and> curTotalSizeByTask s' = 0"
      using less.hyps[OF drain_decreases[OF st(1,2)] st(3)] by blast
    then show ?thesis using False st by (subst Scheduler_Finalize.simps) (simp add: GetTotalTaskCount_def)
  qed
qed

text \<open>
  The loop in \<^verbatim>\<open>Finalize\<close> ends, without the internal error its body provides for, with no task
  left at any priority and every counter at zero.
\<close>

theorem scheduler_finalize_drains:
  assumes "scheduler_reach s"
  shows "\<exists>s'. Scheduler_Finalize s = Ok s' \<and> (\<forall>p. pending s' p = []) \<and> curTotalSizeByByte s' = 0 \<and>
     curTotalSizeByTask s' = 0 \<and> delayTaskCount s' = 0"
proof -
  obtain s' where s': "Scheduler_Finalize s = Ok s'" "scheduler_ok s'" "curTotalSizeByTask s' = 0"
    using Finalize_drains[OF scheduler_reach_ok[OF assms]] by blast
  then have e: "all_pending s' = []" using all_pending_empty_iff by blast
  have p: "pending s' p = []" for p using e by (cases p) (simp_all add: all_pending_def)
  have q: "queues_ok s'" and st: "stats_ok s'" using s'(2) by (simp_all add: scheduler_ok_def)
  have "n_delayed s' p = 0" for p using pending_laws(4)[OF q, of p] p by simp
  then have "unat (curTotalSizeByByte s') = 0" "unat (delayTaskCount s') = 0"
    using st p by (simp_all add: stats_ok_def tot_def)
  then show ?thesis using s' p by (auto simp: unat_eq_0)
qed

section \<open>Failing the tasks of a target\<close>

lemma invalidate_out:
  assumes "om_get E_OK (deviceCommErrCodeMap s) t = err" "err \<noteq> E_OK"
  shows "\<exists>s'. invalidate t xs s =
    (map (\<lambda>x. x\<lparr>st_isValid := False, st_onEnd := None\<rparr>) xs,
     concat (map (\<lambda>x. case st_onEnd x of None \<Rightarrow> [] | Some c \<Rightarrow> [(c, err, False)]) xs), s') \<and>
     deviceCommErrCodeMap s' = deviceCommErrCodeMap s \<and> taskCountByPrio s' = taskCountByPrio s \<and>
     task_group s' = task_group s"
  using assms
proof (induction xs arbitrary: s)
  case (Cons x xs)
  let ?s = "s\<lparr>retryCount := om_insert t (om_insert (st_isRetryTask x) 0 (om_get [] (retryCount s) t)) (retryCount s)\<rparr>"
  obtain s' where s': "invalidate t xs ?s =
    (map (\<lambda>x. x\<lparr>st_isValid := False, st_onEnd := None\<rparr>) xs,
     concat (map (\<lambda>x. case st_onEnd x of None \<Rightarrow> [] | Some c \<Rightarrow> [(c, err, False)]) xs), s')"
     "deviceCommErrCodeMap s' = deviceCommErrCodeMap s" "taskCountByPrio s' = taskCountByPrio s"
     "task_group s' = task_group s"
    using Cons.IH[of ?s] Cons.prems by auto
  have "st_onEnd x = None \<Longrightarrow> x\<lparr>st_isValid := False, st_onEnd := None\<rparr> = x\<lparr>st_isValid := False\<rparr>"
    by (cases x) simp
  then show ?case using s' Cons.prems by (auto simp: Let_def split: option.splits)
qed simp

definition failed :: "SendTask list \<Rightarrow> SendTask list" where
  "failed xs = map (\<lambda>x. x\<lparr>st_isValid := False, st_onEnd := None\<rparr>) xs"

definition end_calls :: "errcode \<Rightarrow> SendTask list \<Rightarrow> send_end list" where
  "end_calls err xs = concat (map (\<lambda>x. case st_onEnd x of None \<Rightarrow> [] | Some c \<Rightarrow> [(c, err, False)]) xs)"

lemma invalid_prios_out:
  assumes "om_get E_OK (deviceCommErrCodeMap s) t = err" "err \<noteq> E_OK" "distinct ps"
    and "\<And>p. om_get 0 (taskCountByPrio s) p = 0 \<Longrightarrow> task_group s p t = []"
  shows "fst (invalid_prios ps t s) = concat (map (\<lambda>p. end_calls err (task_group s p t)) ps) \<and>
     (\<forall>p \<in> set ps. task_group (snd (invalid_prios ps t s)) p t = failed (task_group s p t)) \<and>
     (\<forall>p. p \<notin> set ps \<longrightarrow> task_group (snd (invalid_prios ps t s)) p t = task_group s p t)"
  using assms
proof (induction ps arbitrary: s)
  case (Cons p ps)
  show ?case
  proof (cases "om_get 0 (taskCountByPrio s) p = 0")
    case True
    then show ?thesis using Cons by (auto simp: end_calls_def failed_def)
  next
    case False
    obtain s1 where s1: "invalidate t (task_group s p t) s = (failed (task_group s p t), end_calls err (task_group s p t), s1)"
        "deviceCommErrCodeMap s1 = deviceCommErrCodeMap s" "taskCountByPrio s1 = taskCountByPrio s"
        "task_group s1 = task_group s"
      using invalidate_out[OF Cons.prems(1,2), of "task_group s p t"] unfolding failed_def end_calls_def by blast
    let ?s = "set_group p t (failed (task_group s p t)) s1"
    have g: "task_group ?s q t = (if q = p then failed (task_group s q t) else task_group s q t)" for q
      by (simp add: s1)
    have IH: "fst (invalid_prios ps t ?s) = concat (map (\<lambda>p. end_calls err (task_group ?s p t)) ps) \<and>
     (\<forall>p \<in> set ps. task_group (snd (invalid_prios ps t ?s)) p t = failed (task_group ?s p t)) \<and>
     (\<forall>p. p \<notin> set ps \<longrightarrow> task_group (snd (invalid_prios ps t ?s)) p t = task_group ?s p t)"
      using Cons.prems s1 by (intro Cons.IH) (auto simp: failed_def)
    have "map (\<lambda>p. end_calls err (task_group ?s p t)) ps = map (\<lambda>p. end_calls err (task_group s p t)) ps"
      using Cons.prems(3) by (intro map_cong[OF refl]) (auto simp: s1)
    note IH' = IH[unfolded this, unfolded g]
    obtain calls s2 where o: "invalid_prios ps t ?s = (calls, s2)" by (cases "invalid_prios ps t ?s")
    have r: "invalid_prios (p # ps) t s = (end_calls err (task_group s p t) @ calls, s2)"
      using False by (simp add: s1(1) o)
    show ?thesis using IH' Cons.prems(3) unfolding o r by auto
  qed
qed simp

lemma invalid_tasks_reported_once_laws:
  assumes s: "scheduler_reach s" and e: "om_find (deviceCommErrCodeMap s) t = Some err" "err \<noteq> E_OK"
  shows "fst (InvalidSendTask t s) =
       concat (map (\<lambda>x. case st_onEnd x of None \<Rightarrow> [] | Some c \<Rightarrow> [(c, err, False)])
         (task_group s HIGH t @ task_group s NORMAL t @ task_group s LOW t))"
    and "\<forall>p. \<forall>x \<in> set (task_group (snd (InvalidSendTask t s)) p t). \<not> st_isValid x \<and> st_onEnd x = None"
    and "om_find (deviceCommErrCodeMap (snd (InvalidSendTask t s))) t = None"
proof -
  have ok: "scheduler_ok s" using s by (rule scheduler_reach_ok)
  have po: "priorityOrder s = [HIGH, NORMAL, LOW]" and q: "queues_ok s" and st: "stats_ok s"
    using ok by (simp_all add: scheduler_ok_def)
  have z: "task_group s p t = []" if "om_get 0 (taskCountByPrio s) p = 0" for p
  proof -
    have "unat (om_get 0 (taskCountByPrio s) p) = length (task_order s p)" using st by (simp add: stats_ok_def)
    then have "task_order s p = []" using that by simp
    then show ?thesis using queues_counts(1)[OF q, of p] by (simp add: counts_Nil)
  qed
  have d: "om_get E_OK (deviceCommErrCodeMap s) t = err" using e by (simp add: om_get_def)
  have "distinct [HIGH, NORMAL, LOW]" by simp
  note I = invalid_prios_out[OF d e(2) this z]
  have all: "p \<in> set [HIGH, NORMAL, LOW]" for p by (cases p) auto
  let ?r = "invalid_prios [HIGH, NORMAL, LOW] t s"
  have R: "fst ?r = end_calls err (task_group s HIGH t) @ end_calls err (task_group s NORMAL t) @
      end_calls err (task_group s LOW t)" "\<And>p. task_group (snd ?r) p t = failed (task_group s p t)"
    using I all by (simp del: invalid_prios.simps, blast)
  have inv: "InvalidSendTask t s =
      (fst ?r, (snd ?r)\<lparr>deviceCommErrCodeMap := om_erase t (deviceCommErrCodeMap (snd ?r))\<rparr>)"
    by (simp add: InvalidSendTask_def po Let_def case_prod_unfold del: invalid_prios.simps)
  show "fst (InvalidSendTask t s) =
       concat (map (\<lambda>x. case st_onEnd x of None \<Rightarrow> [] | Some c \<Rightarrow> [(c, err, False)])
         (task_group s HIGH t @ task_group s NORMAL t @ task_group s LOW t))"
    unfolding inv using R(1) by (simp add: end_calls_def del: invalid_prios.simps)
  show "\<forall>p. \<forall>x \<in> set (task_group (snd (InvalidSendTask t s)) p t). \<not> st_isValid x \<and> st_onEnd x = None"
    unfolding inv using R(2) by (auto simp: failed_def simp del: invalid_prios.simps)
  show "om_find (deviceCommErrCodeMap (snd (InvalidSendTask t s))) t = None"
    unfolding inv by (simp add: om_find_erase del: invalid_prios.simps)
qed

text \<open>
  C21: When a target has failed with an error, invalidating its tasks marks every one of them invalid and
  invokes each completion callback exactly once, highest priority first and in the order of arrival,
  with that error; no callback is left for the send loop to invoke again.
\<close>

theorem invalid_tasks_reported_once:
  assumes "scheduler_reach s" and "om_find (deviceCommErrCodeMap s) t = Some err" "err \<noteq> E_OK"
  shows "fst (InvalidSendTask t s) =
      concat (map (\<lambda>x. case st_onEnd x of None \<Rightarrow> [] | Some c \<Rightarrow> [(c, err, False)])
        (task_group s HIGH t @ task_group s NORMAL t @ task_group s LOW t)) \<and>
    (\<forall>p. \<forall>x \<in> set (task_group (snd (InvalidSendTask t s)) p t). \<not> st_isValid x \<and> st_onEnd x = None) \<and>
    om_find (deviceCommErrCodeMap (snd (InvalidSendTask t s))) t = None"
  using invalid_tasks_reported_once_laws[OF assms] by blast

section \<open>Concrete instances\<close>

definition no_access :: AccessInfos where
  "no_access = \<lparr>ai_appId = [], ai_storeId = [], ai_userId = [], ai_subUserId = []\<rparr>"

definition big_buffer :: "u32 \<Rightarrow> serial_buffer" where
  "big_buffer n = new_SerialBuffer\<lparr>oringinalBytes := Some (replicate (unat n) 0), bytesOff := Some 0,
                                  totalLen := n, headerLen := n\<rparr>"

definition task_of :: "u32 \<Rightarrow> target \<Rightarrow> SendTask" where
  "task_of n t = \<lparr>st_buffer = big_buffer n, st_dstTarget = t, st_onEnd = Some 7, st_frameId = 1,
                  st_isValid = True, st_isRetryTask = True, st_infos = no_access\<rparr>"

definition after_add :: "(u32 \<times> target \<times> Priority) list \<Rightarrow> scheduler" where
  "after_add ts = fold (\<lambda>(n, t, p) s. snd (AddSendTaskIntoSchedule (task_of n t) p s)) ts
                    (Scheduler_Initialize new_SendTaskScheduler)"

lemma big_buffer_ok: "0 < n \<Longrightarrow> n \<le> MAX_TOTAL_LEN \<Longrightarrow> sb_ok (big_buffer n)"
  by (simp add: big_buffer_def new_SerialBuffer_def sb_ok_def sb_lens_ok_def sb_owned_def)

lemma task_of_size: "GetSize (st_buffer (task_of n t)) = n"
  by (simp add: task_of_def big_buffer_def GetSize_def)

lemma after_add_reach: "\<forall>(n, t, p) \<in> set ts. 0 < n \<and> n \<le> MAX_TOTAL_LEN \<Longrightarrow> scheduler_reach (after_add ts)"
proof (induction ts rule: rev_induct)
  case Nil
  then show ?case by (simp add: after_add_def initialized)
next
  case (snoc x ts)
  obtain n t p where x: "x = (n, t, p)" by (cases x)
  have "task_ok (task_of n t)" using snoc.prems by (simp add: x task_ok_def task_of_size)
  then show ?case using snoc added by (simp add: x after_add_def)
qed

text \<open>
  The scheduler can hold more than the 160 MB that the comment on its parameters gives as the extreme
  situation: two frames of 100 MB each, the largest the frame limit admits, are both accepted.
\<close>

theorem scheduler_exceeds_documented_capacity:
  "\<exists>s. scheduler_reach s \<and> unat (curTotalSizeByByte s) > 160 * 1024 * 1024 \<and>
     list_all (\<lambda>x. sb_ok (st_buffer x)) (all_pending s)"
proof -
  let ?ts = "[(104857600, ''dev'', HIGH), (104857600, ''dev'', HIGH)]"
  let ?x = "task_of 104857600 ''dev''"
  let ?s0 = "Scheduler_Initialize new_SendTaskScheduler"
  let ?s1 = "snd (AddSendTaskIntoSchedule ?x HIGH ?s0)"
  let ?s2 = "snd (AddSendTaskIntoSchedule ?x HIGH ?s1)"
  have r: "scheduler_reach (after_add ?ts)"
    by (rule after_add_reach) (simp add: MAX_TOTAL_LEN_def)
  have eq: "after_add ?ts = ?s2" by (simp add: after_add_def)
  have i: "curTotalSizeByByte ?s0 = 0" "om_get 0 (extraCapacityInByteByPrio ?s0) HIGH = 67108864"
      "curTotalSizeByTask ?s0 = 0"
    by (simp_all add: Scheduler_Initialize_def new_SendTaskScheduler_def Let_def om_get_insert om_get_def om_find_Cons
        EXTRA_CAPACITY_FOR_HIGH_PRIORITY_def)
  have a0: "accepts HIGH ?s0" using i by (simp add: accepts_def MAX_CAPACITY_def)
  note F0 = Add_fields[OF a0, of ?x]
  have a1: "accepts HIGH ?s1" using i by (simp add: accepts_def F0 task_of_size MAX_CAPACITY_def)
  note F1 = Add_fields[OF a1, of ?x]
  have b: "curTotalSizeByByte ?s2 = 209715200" using i by (simp add: F0 F1 task_of_size)
  have o0: "queues_ok ?s0" using initial_ok by (simp add: scheduler_ok_def)
  have t: "task_ok ?x" by (simp add: task_ok_def task_of_size MAX_TOTAL_LEN_def)
  have o1: "queues_ok ?s1" using Add_ok[OF initial_ok a0 t] by (simp add: scheduler_ok_def)
  have e: "all_pending ?s0 = []" using i(3) all_pending_empty_iff[OF initial_ok] by blast
  then have p0: "pending ?s0 p = []" for p by (cases p) (simp_all add: all_pending_def)
  have "all_pending ?s2 = [?x, ?x]"
    by (simp add: all_pending_def Add_pending[OF o1 a1] Add_pending[OF o0 a0] p0)
  moreover have "sb_ok (st_buffer ?x)"
    using big_buffer_ok[of 104857600] by (simp add: task_of_def MAX_TOTAL_LEN_def)
  ultimately show ?thesis using r b unfolding eq by (intro exI[of _ ?s2]) simp
qed

definition sample_scheduler :: scheduler where
  "sample_scheduler = after_add [(8, ''a'', LOW), (16, ''b'', HIGH)]"

lemma sample_sched_reach: "scheduler_reach sample_scheduler"
  unfolding sample_scheduler_def by (rule after_add_reach) (simp add: MAX_TOTAL_LEN_def)

lemma sample_pending: "map st_dstTarget (all_pending sample_scheduler) = [''b'', ''a'']"
  by code_simp

theorem scheduler_reachable_ok_witness:
  "scheduler_reach sample_scheduler \<and> unat (curTotalSizeByTask sample_scheduler) = 2 \<and>
   FinalizeLastScheduleTask sample_scheduler \<noteq> Fault"
  using scheduler_reachable_ok[OF sample_sched_reach] sample_sched_reach arg_cong[OF sample_pending, of length] by simp

theorem schedule_picks_first_ready_witness:
  "scheduler_reach sample_scheduler \<and> all_pending sample_scheduler \<noteq> [] \<and>
   (\<exists>task info len s'. ScheduleOutSendTask sample_scheduler = Ok (task, info, len, s') \<and>
      task \<in> set (pending sample_scheduler (si_taskPrio info)))"
  using schedule_picks_first_ready[OF sample_sched_reach] sample_sched_reach sample_pending by fastforce

theorem scheduler_fifo_per_target_witness:
  "scheduler_reach sample_scheduler \<and>
   finished_by HIGH ''b'' [Op_Add (task_of 24 ''b'') HIGH, Op_Out, Op_Finalize] sample_scheduler @
     map st_buffer (task_group (run_ops [Op_Add (task_of 24 ''b'') HIGH, Op_Out, Op_Finalize] sample_scheduler) HIGH ''b'') =
   map st_buffer (task_group sample_scheduler HIGH ''b'') @
     added_by HIGH ''b'' [Op_Add (task_of 24 ''b'') HIGH, Op_Out, Op_Finalize] sample_scheduler"
  using scheduler_fifo_per_target[OF sample_sched_reach, of "[Op_Add (task_of 24 ''b'') HIGH, Op_Out, Op_Finalize]" HIGH "''b''"]
    sample_sched_reach by (simp add: task_ok_def task_of_size MAX_TOTAL_LEN_def)

theorem scheduler_finalize_drains_witness:
  "scheduler_reach sample_scheduler \<and> (\<exists>s'. Scheduler_Finalize sample_scheduler = Ok s' \<and> curTotalSizeByTask s' = 0)"
  using scheduler_finalize_drains[OF sample_sched_reach] sample_sched_reach by blast

definition broken_scheduler :: scheduler where
  "broken_scheduler = snd (SetDeviceCommErrCode ''b'' E_SEND_FAIL sample_scheduler)"

theorem invalid_tasks_reported_once_witness:
  "scheduler_reach broken_scheduler \<and> fst (InvalidSendTask ''b'' broken_scheduler) = [(7, E_SEND_FAIL, False)]"
proof -
  have r: "scheduler_reach broken_scheduler" unfolding broken_scheduler_def by (rule comm_err[OF sample_sched_reach])
  have e: "om_find (deviceCommErrCodeMap broken_scheduler) ''b'' = Some E_SEND_FAIL" by code_simp
  have g: "map st_onEnd (task_group broken_scheduler HIGH ''b'' @ task_group broken_scheduler NORMAL ''b'' @
      task_group broken_scheduler LOW ''b'') = [Some 7]" by code_simp
  have c: "concat (map (\<lambda>x. case st_onEnd x of None \<Rightarrow> [] | Some c \<Rightarrow> [(c, E_SEND_FAIL, False)]) xs) =
      concat (map (\<lambda>k. case k of None \<Rightarrow> [] | Some c \<Rightarrow> [(c, E_SEND_FAIL, False)]) (map st_onEnd xs))" for xs
    by (simp add: comp_def)
  show ?thesis using invalid_tasks_reported_once[OF r e] r unfolding c g by simp
qed

end
