(* ===== verification/Protocol_Proto.thy ===== *)
theory Protocol_Proto
  imports Serial_Buffer Message_Model
begin

text \<open>
  The operations of \<^verbatim>\<open>ProtocolProto\<close> (\<^verbatim>\<open>communicator/src/protocol_proto.cpp\<close>): building frames
  from messages and label sets, sealing them with the physical header and its checksum, splitting
  a frame into packets, and parsing received packets and frames.  \<open>be\<close> is the endianness of the
  host that runs the operation (\<^verbatim>\<open>IsBigEndian\<close>).  Bytes received from the network are the memory
  behind a pointer together with the length the caller passes; every access is bounds-checked,
  so reading past the memory is \<open>Fault\<close>.  This theory holds the definitions; the theories
  \<^verbatim>\<open>Protocol_Parse\<close>, \<^verbatim>\<open>Protocol_Fragment\<close> and \<^verbatim>\<open>Protocol_Message\<close> hold what is proved about them.
\<close>

section \<open>Constants\<close>

definition MAGIC_CODE :: u16 where "MAGIC_CODE = 0xAAAA"
definition PROTOCOL_VERSION :: u16 where "PROTOCOL_VERSION = 0"
definition DB_GLOBAL_VERSION :: u16 where
  "DB_GLOBAL_VERSION = ucast (SOFTWARE_VERSION_CURRENT - SOFTWARE_VERSION_EARLIEST)"
definition PACKET_TYPE_FRAGMENTED :: u8 where "PACKET_TYPE_FRAGMENTED = push_bit 0 1"
definition PACKET_TYPE_NOT_FRAGMENTED :: u8 where "PACKET_TYPE_NOT_FRAGMENTED = 0"
definition MAX_PADDING_LEN :: u8 where "MAX_PADDING_LEN = 7"
definition LENGTH_BEFORE_SUM_RANGE :: u32 where "LENGTH_BEFORE_SUM_RANGE = 8 + 8"
definition MAX_FRAME_LEN :: u32 where "MAX_FRAME_LEN = 128 * 1024 * 1024"
definition MIN_FRAGMENT_COUNT :: u16 where "MIN_FRAGMENT_COUNT = 2"
definition INT32_MAX :: u32 where "INT32_MAX = 2147483647"
definition LABEL_VER_LEN :: nat where "LABEL_VER_LEN = 8"
definition DISTINCT_VALUE_LEN :: nat where "DISTINCT_VALUE_LEN = 8"
definition SEQUENCE_ID_LEN :: nat where "SEQUENCE_ID_LEN = 8"
definition COMM_LABEL_COUNT_LEN :: nat where "COMM_LABEL_COUNT_LEN = 8"

lemmas label_lens = LABEL_VER_LEN_def DISTINCT_VALUE_LEN_def SEQUENCE_ID_LEN_def COMM_LABEL_COUNT_LEN_def

section \<open>The packet type field\<close>

definition SetFrameType :: "FrameType \<Rightarrow> u8 \<Rightarrow> u8" where
  "SetFrameType inFrameType inPacketType =
     (inPacketType AND 0x0F) OR push_bit 4 (frameType_val inFrameType)"

definition GetFrameType :: "u8 \<Rightarrow> FrameType" where
  "GetFrameType inPacketType =
     (let frameType = drop_bit 4 (inPacketType AND 0xF0)
      in if frameType \<ge> frameType_val INVALID_MAX_FRAME_TYPE then INVALID_MAX_FRAME_TYPE
         else if frameType = frameType_val EMPTY then EMPTY
         else if frameType = frameType_val APPLICATION_MESSAGE then APPLICATION_MESSAGE
         else if frameType = frameType_val COMMUNICATION_LABEL_EXCHANGE then COMMUNICATION_LABEL_EXCHANGE
         else COMMUNICATION_LABEL_EXCHANGE_ACK)"

definition IsSendLabelExchange :: "u8 \<Rightarrow> bool" where
  "IsSendLabelExchange inPacketType \<longleftrightarrow> drop_bit 3 (inPacketType AND 0x08) = 0"

definition SetSendLabelExchange :: "u8 \<Rightarrow> bool \<Rightarrow> u8" where
  "SetSendLabelExchange inPacketType sendLabelExchange =
     (if \<not> sendLabelExchange then inPacketType OR 0x08 else inPacketType)"

section \<open>Header lengths\<close>

definition GetAppLayerFrameHeaderLength :: u32 where
  "GetAppLayerFrameHeaderLength = of_nat (SIZEOF_PHY + SIZEOF_DIVERGE)"

definition GetLengthBeforeSerializedData :: u32 where
  "GetLengthBeforeSerializedData = of_nat (SIZEOF_PHY + SIZEOF_DIVERGE + SIZEOF_MSG)"

definition GetCommLayerFrameHeaderLength :: u32 where
  "GetCommLayerFrameHeaderLength = of_nat SIZEOF_PHY"

section \<open>Checksum\<close>

text \<open>The loop of \<^verbatim>\<open>CalculateXorSum\<close>: \<open>n\<close> words from index \<open>i\<close> on, read in host order.\<close>

fun xor_loop :: "bool \<Rightarrow> byte list \<Rightarrow> nat \<Rightarrow> nat \<Rightarrow> u64 \<Rightarrow> u64 res" where
  "xor_loop be bytes i 0 outSum = Ok outSum"
| "xor_loop be bytes i (Suc n) outSum =
     res_bind (read_at bytes (8 * i) 8)
       (\<lambda>w. xor_loop be bytes (Suc i) n (outSum XOR load_word be w))"

definition CalculateXorSum :: "bool \<Rightarrow> byte list \<Rightarrow> u32 \<Rightarrow> u64 res" where
  "CalculateXorSum be bytes len =
     guard_err (len > INT32_MAX \<or> len mod 8 \<noteq> 0) E_LENGTH_ERROR
       (xor_loop be bytes 0 (unat (len div 8)) 0)"

section \<open>The extend head\<close>

text \<open>
  \<^verbatim>\<open>ExtendHeaderHandle\<close> is implemented by the application: \<open>GetHeadDataSize\<close> is \<open>None\<close> when it
  reports a status other than \<^verbatim>\<open>OK\<close>, \<open>FillHeadData headSize totalLen\<close> gives the bytes it
  writes at the start of the allocation.
\<close>

record extend_handle =
  GetHeadDataSize :: "u32 option"
  FillHeadData :: "u32 \<Rightarrow> u32 \<Rightarrow> byte list option"

definition GetExtendHeadDataSize :: "extend_handle option \<Rightarrow> u32 res" where
  "GetExtendHeadDataSize extendHandle =
     (case extendHandle of
        None \<Rightarrow> Ok 0
      | Some h \<Rightarrow>
          (case GetHeadDataSize h of
             None \<Rightarrow> Err E_FEEDBACK_COMMUNICATOR_NOT_FOUND
           | Some headSize \<Rightarrow>
               guard_err (headSize > MAX_EXTEND_HEAD_LENGTH \<or> headSize \<noteq> BYTE_8_ALIGN headSize)
                 E_FEEDBACK_COMMUNICATOR_NOT_FOUND (Ok headSize)))"

text \<open>A store through a raw pointer into the owned allocation, without any check of the source.\<close>

definition sb_put :: "serial_buffer \<Rightarrow> nat option \<Rightarrow> byte list \<Rightarrow> serial_buffer res" where
  "sb_put b ptr src =
     (case (ptr, oringinalBytes b) of
        (Some off, Some bs) \<Rightarrow>
          res_bind (write_at bs off src) (\<lambda>bs'. Ok (b\<lparr>oringinalBytes := Some bs'\<rparr>))
      | _ \<Rightarrow> Fault)"

definition FillExtendHeadDataIfNeed ::
    "extend_handle option \<Rightarrow> serial_buffer \<Rightarrow> u32 \<Rightarrow> serial_buffer res" where
  "FillExtendHeadDataIfNeed extendHandle buffer headSize =
     (case extendHandle of
        None \<Rightarrow> Ok buffer
      | Some h \<Rightarrow>
          if headSize > 0 then
            (case FillHeadData h headSize (GetSize buffer + headSize) of
               None \<Rightarrow> Err E_FEEDBACK_COMMUNICATOR_NOT_FOUND
             | Some headBytes \<Rightarrow> sb_put buffer (Some 0) headBytes)
          else Ok buffer)"

section \<open>Messages\<close>

definition CalculateDataSerializeLength :: "'o transforms \<Rightarrow> 'o message \<Rightarrow> u32 res" where
  "CalculateDataSerializeLength tfs inMsg =
     (case GetTransformFunc tfs (messageId inMsg) of
        Ok function \<Rightarrow>
          let serializeLen = computeFunc function inMsg;
              alignedLen = BYTE_8_ALIGN serializeLen
          in guard_err (serializeLen = 0 \<or> alignedLen > MAX_FRAME_LEN - GetLengthBeforeSerializedData)
               E_LENGTH_ERROR (Ok serializeLen)
      | _ \<Rightarrow> Err E_NOT_REGISTER)"

definition message_header :: "'o message \<Rightarrow> u32 \<Rightarrow> MessageHeader" where
  "message_header inMsg dataLen =
     \<lparr>mh_version = version inMsg, mh_messageType = messageType inMsg, mh_messageId = messageId inMsg,
      mh_sessionId = sessionId inMsg, mh_sequenceId = sequenceId inMsg, mh_errorNo = errorNo inMsg,
      mh_dataLen = dataLen\<rparr>"

definition SerializeMessage ::
    "bool \<Rightarrow> 'o transforms \<Rightarrow> serial_buffer \<Rightarrow> 'o message \<Rightarrow> serial_buffer res" where
  "SerializeMessage be tfs inBuff inMsg =
     (let (ptr, payLen) = GetWritableBytesForPayload inBuff;
          dataLen = payLen - of_nat SIZEOF_MSG
      in guard_err (unat payLen < SIZEOF_MSG) E_LENGTH_ERROR
        (res_bind (sb_put inBuff ptr (msg_image be (ConvertHostToNet_msg be (message_header inMsg dataLen))))
          (\<lambda>b1. if dataLen = 0 then Ok b1
                else case GetTransformFunc tfs (messageId inMsg) of
                       Ok function \<Rightarrow>
                         (case serializeFunc function dataLen inMsg of
                            None \<Rightarrow> Err E_SERIALIZE_ERROR
                          | Some data \<Rightarrow> sb_put b1 (map_option (\<lambda>p. p + SIZEOF_MSG) ptr) data)
                     | _ \<Rightarrow> Err E_NOT_REGISTER)))"

definition ToSerialBuffer ::
    "allocator \<Rightarrow> bool \<Rightarrow> 'o transforms \<Rightarrow> 'o message option \<Rightarrow> extend_handle option \<Rightarrow> bool \<Rightarrow>
     serial_buffer res" where
  "ToSerialBuffer mem be tfs msg extendHandle onlyMsgHeader =
     (case msg of
        None \<Rightarrow> Err E_INVALID_ARGS
      | Some inMsg \<Rightarrow>
          res_bind (if onlyMsgHeader then Ok 0 else CalculateDataSerializeLength tfs inMsg)
         (\<lambda>serializeLen. res_bind (GetExtendHeadDataSize extendHandle)
         (\<lambda>headSize. guard_err (\<not> mem NewSerialBuffer) E_OUT_OF_MEMORY
           (let b0 = (if headSize > 0 then SetExtendHeadLength headSize new_SerialBuffer
                      else new_SerialBuffer);
                payLoadLength = serializeLen + of_nat SIZEOF_MSG
            in case AllocBufferByPayloadLength mem payLoadLength GetAppLayerFrameHeaderLength b0 of
                 (errCode, b1) \<Rightarrow>
                   guard_err (errCode \<noteq> E_OK) errCode
                  (res_bind (FillExtendHeadDataIfNeed extendHandle b1 headSize)
                     (\<lambda>b2. SerializeMessage be tfs b2 inMsg))))))"

definition IsSupportMessageVersion :: "u16 \<Rightarrow> bool" where
  "IsSupportMessageVersion v \<longleftrightarrow> v = MSG_VERSION_BASE \<or> v = MSG_VERSION_EXT"

definition IsFeedbackErrorMessage :: "u32 \<Rightarrow> bool" where
  "IsFeedbackErrorMessage no \<longleftrightarrow>
     no = FEEDBACK_UNKNOWN_MESSAGE_NO \<or> no = FEEDBACK_COMMUNICATOR_NOT_FOUND_NO \<or> no = FEEDBACK_DB_CLOSING_NO"

text \<open>The header fields that \<^verbatim>\<open>DeSerializeMessage\<close> copies into the message.\<close>

definition set_header_fields :: "u16 \<Rightarrow> MessageHeader \<Rightarrow> 'o message \<Rightarrow> 'o message" where
  "set_header_fields v h m =
     (SetMessageType (mh_messageType h) (SetVersion v m))
       \<lparr>messageId := mh_messageId h, sessionId := mh_sessionId h, sequenceId := mh_sequenceId h,
        errorNo := mh_errorNo h\<rparr>"

text \<open>A null pointer with a positive length is never handed out; reading through it is \<open>Fault\<close>.\<close>

definition deref :: "byte list option \<Rightarrow> byte list" where
  "deref p = (case p of None \<Rightarrow> [] | Some bs \<Rightarrow> bs)"

definition DeSerializeMessage ::
    "bool \<Rightarrow> 'o transforms \<Rightarrow> serial_buffer \<Rightarrow> 'o message \<Rightarrow> bool \<Rightarrow> (errcode \<times> 'o message) res" where
  "DeSerializeMessage be tfs inBuff inMsg onlyMsgHeader =
     (let (ptr, payLen) = GetReadOnlyBytesForPayload inBuff; bytes = deref ptr
      in if unat payLen < 2 then Ok (E_LENGTH_ERROR, inMsg)
         else res_bind (read_at bytes 0 2) (\<lambda>vb.
           let v = NetToHost be (load_word be vb)
           in if \<not> IsSupportMessageVersion v then Ok (E_VERSION_NOT_SUPPORT, inMsg)
              else if unat payLen < SIZEOF_MSG then Ok (E_LENGTH_ERROR, inMsg)
              else res_bind (read_at bytes 0 SIZEOF_MSG) (\<lambda>hb.
                let messageHdr = ConvertNetToHost_msg be (msg_load be hb);
                    m1 = set_header_fields v messageHdr inMsg;
                    dataLen = payLen - of_nat SIZEOF_MSG
                in if dataLen \<noteq> mh_dataLen messageHdr then Ok (E_LENGTH_ERROR, m1)
                   else if IsFeedbackErrorMessage (mh_errorNo messageHdr) then Ok (E_OK, m1)
                   else if onlyMsgHeader \<or> dataLen = 0 then Ok (E_OK, m1)
                   else case GetTransformFunc tfs (messageId m1) of
                          Ok function \<Rightarrow>
                            res_bind (read_at bytes SIZEOF_MSG (unat dataLen)) (\<lambda>data.
                              case deserializeFunc function data m1 of
                                None \<Rightarrow> Ok (E_DESERIALIZE_ERROR, m1)
                              | Some m2 \<Rightarrow> Ok (E_OK, m2))
                        | _ \<Rightarrow> Ok (E_NOT_REGISTER, m1))))"

text \<open>
  \<^verbatim>\<open>ToMessage\<close>: the error code and the message when one is returned; a message whose id is not
  registered is returned together with the error.
\<close>

definition ToMessage ::
    "allocator \<Rightarrow> bool \<Rightarrow> 'o transforms \<Rightarrow> serial_buffer option \<Rightarrow> bool \<Rightarrow>
     (errcode \<times> 'o message option) res" where
  "ToMessage mem be tfs inBuff onlyMsgHeader =
     (case inBuff of
        None \<Rightarrow> Ok (E_INVALID_ARGS, None)
      | Some b \<Rightarrow>
          if \<not> mem NewMessage then Ok (E_OUT_OF_MEMORY, None)
          else res_bind (DeSerializeMessage be tfs b new_Message onlyMsgHeader)
            (\<lambda>(errCode, outMsg).
               if errCode \<noteq> E_OK \<and> errCode \<noteq> E_NOT_REGISTER then Ok (errCode, None)
               else Ok (errCode, Some outMsg)))"

section \<open>Building frames\<close>

definition BuildEmptyFrameForVersionNegotiate :: "allocator \<Rightarrow> serial_buffer res" where
  "BuildEmptyFrameForVersionNegotiate mem =
     guard_err (\<not> mem NewSerialBuffer) E_OUT_OF_MEMORY
    (case AllocBufferByPayloadLength mem 0 GetCommLayerFrameHeaderLength new_SerialBuffer of
       (errCode, b) \<Rightarrow> guard_err (errCode \<noteq> E_OK) errCode (Ok b))"

definition SetDivergeHeader :: "bool \<Rightarrow> serial_buffer \<Rightarrow> label \<Rightarrow> serial_buffer res" where
  "SetDivergeHeader be inBuff inCommLabel =
     (let (ptr, hdrLen) = GetWritableBytesForHeader inBuff;
          (_, payLen) = GetReadOnlyBytesForPayload inBuff
      in guard_err (hdrLen \<noteq> GetAppLayerFrameHeaderLength) E_INVALID_ARGS
        (res_bind (read_at inCommLabel 0 COMM_LABEL_LENGTH) (\<lambda>lab.
           let divergeHeader = \<lparr>dv_version = PROTOCOL_VERSION, dv_reserved = 0, dv_payLoadLen = payLen,
                                dv_commLabel = lab\<rparr>
           in case ptr of
                None \<Rightarrow> Fault
              | Some off \<Rightarrow>
                  sb_memcpy inBuff (off + SIZEOF_PHY) (unat hdrLen - SIZEOF_PHY)
                    (diverge_image be (ConvertHostToNet_diverge be divergeHeader)))))"

definition BuildFeedbackMessageFrame ::
    "allocator \<Rightarrow> bool \<Rightarrow> 'o transforms \<Rightarrow> 'o message option \<Rightarrow> label \<Rightarrow> serial_buffer res" where
  "BuildFeedbackMessageFrame mem be tfs inMsg inLabel =
     res_bind (ToSerialBuffer mem be tfs inMsg None True) (\<lambda>b. SetDivergeHeader be b inLabel)"

definition put_word :: "bool \<Rightarrow> serial_buffer \<Rightarrow> nat option \<Rightarrow> u64 \<Rightarrow> serial_buffer res" where
  "put_word be b ptr w = sb_put b ptr (store_word be (HostToNet be w))"

fun put_labels :: "serial_buffer \<Rightarrow> nat option \<Rightarrow> label list \<Rightarrow> serial_buffer res" where
  "put_labels b ptr [] = Ok b"
| "put_labels b ptr (l # ls) =
     res_bind (sb_put b ptr l) (\<lambda>b'. put_labels b' (map_option (\<lambda>p. p + length l) ptr) ls)"

definition BuildLabelExchange ::
    "allocator \<Rightarrow> bool \<Rightarrow> u64 \<Rightarrow> u64 \<Rightarrow> label list \<Rightarrow> serial_buffer res" where
  "BuildLabelExchange mem be inDistinctValue inSequenceId inLabels =
     (let payLen = LABEL_VER_LEN + DISTINCT_VALUE_LEN + SEQUENCE_ID_LEN + COMM_LABEL_COUNT_LEN +
                   length inLabels * COMM_LABEL_LENGTH
      in guard_err (payLen > unat INT32_MAX) E_INVALID_ARGS
        (guard_err (\<not> mem NewSerialBuffer) E_OUT_OF_MEMORY
          (case AllocBufferByPayloadLength mem (of_nat payLen) GetCommLayerFrameHeaderLength new_SerialBuffer of
             (errCode, b0) \<Rightarrow>
               guard_err (errCode \<noteq> E_OK) errCode
              (let ptr = fst (GetWritableBytesForPayload b0);
                   at = (\<lambda>k. map_option (\<lambda>p. p + k) ptr)
               in res_bind (put_word be b0 (at 0) (ucast PROTOCOL_VERSION))
                 (\<lambda>b1. res_bind (put_word be b1 (at 8) inDistinctValue)
                 (\<lambda>b2. res_bind (put_word be b2 (at 16) inSequenceId)
                 (\<lambda>b3. res_bind (put_word be b3 (at 24) (of_nat (length inLabels)))
                 (\<lambda>b4. put_labels b4 (at 32) inLabels))))))))"

definition BuildLabelExchangeAck :: "allocator \<Rightarrow> bool \<Rightarrow> u64 \<Rightarrow> u64 \<Rightarrow> serial_buffer res" where
  "BuildLabelExchangeAck mem be inDistinctValue inSequenceId =
     (let payLen = LABEL_VER_LEN + DISTINCT_VALUE_LEN + SEQUENCE_ID_LEN
      in guard_err (\<not> mem NewSerialBuffer) E_OUT_OF_MEMORY
          (case AllocBufferByPayloadLength mem (of_nat payLen) GetCommLayerFrameHeaderLength new_SerialBuffer of
             (errCode, b0) \<Rightarrow>
               guard_err (errCode \<noteq> E_OK) errCode
              (let ptr = fst (GetWritableBytesForPayload b0);
                   at = (\<lambda>k. map_option (\<lambda>p. p + k) ptr)
               in res_bind (put_word be b0 (at 0) (ucast PROTOCOL_VERSION))
                 (\<lambda>b1. res_bind (put_word be b1 (at 8) inDistinctValue)
                 (\<lambda>b2. put_word be b2 (at 16) inSequenceId)))))"

section \<open>Sealing a frame\<close>

record PhyHeaderInfo =
  hi_sourceId :: u64
  hi_frameId :: u32
  hi_frameType :: FrameType
  hi_sendLabelExchange :: bool

definition FillPhyHeaderLenInfo :: "u32 \<Rightarrow> u64 \<Rightarrow> u8 \<Rightarrow> u8 \<Rightarrow> CommPhyHeader \<Rightarrow> CommPhyHeader" where
  "FillPhyHeaderLenInfo packetLen sumVal type padLen header =
     header\<lparr>ph_packetLen := packetLen, ph_checkSum := sumVal, ph_packetType := ph_packetType header OR type,
            ph_paddingLen := padLen\<rparr>"

definition SetPhyHeader :: "bool \<Rightarrow> serial_buffer option \<Rightarrow> PhyHeaderInfo \<Rightarrow> serial_buffer res" where
  "SetPhyHeader be buff inInfo =
     (case buff of
        None \<Rightarrow> Err E_INVALID_ARGS
      | Some inBuff \<Rightarrow>
          let (ptr, hdrLen) = GetWritableBytesForHeader inBuff;
              packetLen = snd (GetReadOnlyBytesForEntireBuffer inBuff);
              frameLen = snd (GetReadOnlyBytesForEntireFrame inBuff);
              padLen = ucast (packetLen - frameLen);
              packetType = SetSendLabelExchange
                (SetFrameType (hi_frameType inInfo) PACKET_TYPE_NOT_FRAGMENTED) (hi_sendLabelExchange inInfo);
              phyHeader = FillPhyHeaderLenInfo packetLen 0 packetType padLen
                \<lparr>ph_magic = MAGIC_CODE, ph_version = PROTOCOL_VERSION, ph_packetLen = 0, ph_checkSum = 0,
                 ph_sourceId = hi_sourceId inInfo, ph_frameId = hi_frameId inInfo, ph_packetType = 0,
                 ph_paddingLen = 0, ph_dbIntVer = DB_GLOBAL_VERSION\<rparr>
          in guard_err (unat hdrLen < SIZEOF_PHY) E_INVALID_ARGS
            (guard_err (hi_frameType inInfo = INVALID_MAX_FRAME_TYPE) E_INVALID_ARGS
              (case ptr of
                 None \<Rightarrow> Fault
               | Some off \<Rightarrow>
                   res_bind (sb_memcpy inBuff off (unat hdrLen) (phy_image be (ConvertHostToNet_phy be phyHeader)))
                  (\<lambda>b1. case CalculateXorSum be
                                (drop (unat LENGTH_BEFORE_SUM_RANGE) (deref (fst (GetReadOnlyBytesForEntireBuffer b1))))
                                (packetLen - LENGTH_BEFORE_SUM_RANGE) of
                          Ok sumResult \<Rightarrow> put_word be b1 (Some (off + 8)) sumResult
                        | Err _ \<Rightarrow> Err E_SUM_CALCULATE_FAIL
                        | Fault \<Rightarrow> Fault))))"

section \<open>Splitting a frame into packets\<close>

record FrameFragmentInfo =
  fi_oringinalBytes :: "byte list option"
  fi_extendHeadSize :: u32
  fi_splitLength :: u32
  fi_fragCount :: u16

text \<open>\<^verbatim>\<open>FragmentPacket\<close> points into the vector of one piece: the vector, the offset, the length left.\<close>

definition FillFragmentPacketExtendHead :: "byte list option \<Rightarrow> u32 \<Rightarrow> byte list \<Rightarrow> u32 \<Rightarrow> byte list res" where
  "FillFragmentPacketExtendHead headBytes headLen piece leftLength =
     guard_err (headLen > leftLength) E_INVALID_ARGS
    (res_bind (read_at (deref headBytes) 0 (unat headLen)) (memcpy_s piece 0 (unat leftLength)))"

definition FillFragmentPacket ::
    "bool \<Rightarrow> CommPhyHeader \<Rightarrow> CommPhyOptHeader \<Rightarrow> byte list \<Rightarrow> u32 \<Rightarrow> byte list \<Rightarrow> nat \<Rightarrow> u32 \<Rightarrow> byte list res" where
  "FillFragmentPacket be phyHeader phyOptHeader fragBytes fragLen piece off leftLength =
     guard_err (leftLength = 0) E_INVALID_ARGS
    (res_bind (memcpy_s piece off (unat leftLength) (phy_image be phyHeader))
    (\<lambda>p1. res_bind (memcpy_s p1 (off + SIZEOF_PHY) (unat (leftLength - of_nat SIZEOF_PHY)) (opt_image be phyOptHeader))
    (\<lambda>p2. res_bind (read_at fragBytes 0 (unat fragLen))
    (\<lambda>frag. res_bind (memcpy_s p2 (off + SIZEOF_PHY + SIZEOF_OPT)
                       (unat (leftLength - of_nat SIZEOF_PHY - of_nat SIZEOF_OPT)) frag)
    (\<lambda>p3. case CalculateXorSum be (drop (off + unat LENGTH_BEFORE_SUM_RANGE) p3)
                 (leftLength - LENGTH_BEFORE_SUM_RANGE) of
            Ok sumResult \<Rightarrow> write_at p3 (off + 8) (store_word be (HostToNet be sumResult))
          | Err _ \<Rightarrow> Err E_SUM_CALCULATE_FAIL
          | Fault \<Rightarrow> Fault)))))"

text \<open>One iteration of the loop of \<^verbatim>\<open>FrameFragmentation\<close>: the piece with index \<open>fragNo\<close>.\<close>

definition piece_len :: "FrameFragmentInfo \<Rightarrow> u16 \<Rightarrow> u32" where
  "piece_len info fragNo =
     (let quotient = fi_splitLength info div ucast (fi_fragCount info);
          remainder = (ucast (fi_splitLength info mod ucast (fi_fragCount info)) :: u16)
      in if fragNo \<noteq> fi_fragCount info - 1 then quotient else quotient + ucast remainder)"

definition frag_piece ::
    "allocator \<Rightarrow> bool \<Rightarrow> byte list \<Rightarrow> FrameFragmentInfo \<Rightarrow> CommPhyHeader \<Rightarrow> u16 \<Rightarrow> u32 \<Rightarrow>
     (byte list \<times> u32) res" where
  "frag_piece mem be splitStartBytes info framePhyHeader fragNo byteOffset =
     (let pieceFragLen = piece_len info fragNo;
          alignedFragLen = BYTE_8_ALIGN pieceFragLen;
          pieceTotalLen = alignedFragLen + of_nat SIZEOF_PHY + of_nat SIZEOF_OPT;
          ext = fi_extendHeadSize info;
          piece = replicate (unat (pieceTotalLen + ext)) 0;
          pktPhyHeader = FillPhyHeaderLenInfo pieceTotalLen 0 PACKET_TYPE_FRAGMENTED
            (ucast (alignedFragLen - pieceFragLen)) (ConvertNetToHost_phy be framePhyHeader);
          pktPhyOptHeader = \<lparr>po_frameLen = fi_splitLength info + of_nat SIZEOF_PHY,
                             po_fragCount = fi_fragCount info, po_fragNo = fragNo\<rparr>
      in guard_err (\<not> mem (NewBytes (pieceTotalLen + ext))) E_OUT_OF_MEMORY
        (res_bind (if ext > 0 then FillFragmentPacketExtendHead (fi_oringinalBytes info) ext piece ext else Ok piece)
        (\<lambda>p1. res_bind (FillFragmentPacket be (ConvertHostToNet_phy be pktPhyHeader)
                 (ConvertHostToNet_opt be pktPhyOptHeader) (drop (unat byteOffset) splitStartBytes) pieceFragLen
                 p1 (unat ext) (of_nat (length p1) - ext))
        (\<lambda>p2. Ok (p2, ext)))))"

fun frag_loop ::
    "allocator \<Rightarrow> bool \<Rightarrow> byte list \<Rightarrow> FrameFragmentInfo \<Rightarrow> CommPhyHeader \<Rightarrow> nat \<Rightarrow> u16 \<Rightarrow> u32 \<Rightarrow>
     (byte list \<times> u32) list res" where
  "frag_loop mem be splitStartBytes info hdr 0 fragNo byteOffset = Ok []"
| "frag_loop mem be splitStartBytes info hdr (Suc n) fragNo byteOffset =
     res_bind (frag_piece mem be splitStartBytes info hdr fragNo byteOffset)
    (\<lambda>p. res_bind (frag_loop mem be splitStartBytes info hdr n (fragNo + 1) (byteOffset + piece_len info fragNo))
    (\<lambda>ps. Ok (p # ps)))"

definition FrameFragmentation ::
    "allocator \<Rightarrow> bool \<Rightarrow> byte list \<Rightarrow> FrameFragmentInfo \<Rightarrow> CommPhyHeader \<Rightarrow> (byte list \<times> u32) list res" where
  "FrameFragmentation mem be splitStartBytes fragmentInfo framePhyHeader =
     guard_err (fi_fragCount fragmentInfo < MIN_FRAGMENT_COUNT) E_INVALID_ARGS
       (frag_loop mem be splitStartBytes fragmentInfo framePhyHeader (unat (fi_fragCount fragmentInfo)) 0 0)"

text \<open>
  The number of fragments: note that the quotient is stored in a \<^verbatim>\<open>uint16_t\<close>.
  A division by zero is undefined behaviour.
\<close>

definition frag_count :: "u32 \<Rightarrow> u32 \<Rightarrow> u16" where
  "frag_count lengthToSplit maxFragmentLen =
     (let quotient = (ucast (lengthToSplit div maxFragmentLen) :: u16);
          remainder = lengthToSplit mod maxFragmentLen
      in if remainder = 0 then quotient else quotient + 1)"

definition SplitFrameIntoPacketsIfNeed ::
    "allocator \<Rightarrow> bool \<Rightarrow> serial_buffer \<Rightarrow> u32 \<Rightarrow> (byte list \<times> u32) list res" where
  "SplitFrameIntoPacketsIfNeed mem be inBuff inMtuSize =
     (let (_, bufferLen) = GetReadOnlyBytesForEntireBuffer inBuff;
          modifyMtuSize = inMtuSize - extendHeadLen inBuff;
          (ptr, frameLen) = GetReadOnlyBytesForEntireFrame inBuff;
          lengthToSplit = frameLen - of_nat SIZEOF_PHY;
          maxFragmentLen = modifyMtuSize - of_nat SIZEOF_PHY - of_nat SIZEOF_OPT;
          bytes = deref ptr;
          fragInfo = \<lparr>fi_oringinalBytes = oringinalBytes inBuff, fi_extendHeadSize = extendHeadLen inBuff,
                      fi_splitLength = lengthToSplit, fi_fragCount = frag_count lengthToSplit maxFragmentLen\<rparr>
      in if bufferLen + extendHeadLen inBuff \<le> inMtuSize then Ok []
         else if maxFragmentLen = 0 then Fault
         else res_bind (read_at bytes 0 SIZEOF_PHY) (\<lambda>hb.
                FrameFragmentation mem be (drop SIZEOF_PHY bytes) fragInfo (phy_load be hb)))"

section \<open>Parsing packets\<close>

definition ParseCommPhyHeaderCheckMagicAndVersion :: "bool \<Rightarrow> byte list \<Rightarrow> u32 \<Rightarrow> unit res" where
  "ParseCommPhyHeaderCheckMagicAndVersion be bytes len =
     guard_err (unat len < 2 + 2) E_LENGTH_ERROR
    (res_bind (read_at bytes 0 2) (\<lambda>mb. res_bind (read_at bytes 2 2) (\<lambda>vb.
       let magic = NetToHost be (load_word be mb :: u16); version = NetToHost be (load_word be vb :: u16)
       in guard_err (magic \<noteq> MAGIC_CODE) E_PARSE_FAIL
         (guard_err (version \<noteq> PROTOCOL_VERSION) E_VERSION_NOT_SUPPORT (Ok ())))))"

definition ParseCommPhyHeaderCheckField :: "bool \<Rightarrow> CommPhyHeader \<Rightarrow> byte list \<Rightarrow> u32 \<Rightarrow> unit res" where
  "ParseCommPhyHeaderCheckField be phyHeader bytes len =
     guard_err (ph_packetLen phyHeader \<noteq> len) E_PARSE_FAIL
    (guard_err (ph_paddingLen phyHeader > MAX_PADDING_LEN) E_PARSE_FAIL
    (guard_err (SIZEOF_PHY + unat (ph_paddingLen phyHeader) > unat (ph_packetLen phyHeader)) E_PARSE_FAIL
    (case CalculateXorSum be (drop (unat LENGTH_BEFORE_SUM_RANGE) bytes) (len - LENGTH_BEFORE_SUM_RANGE) of
       Ok sumResult \<Rightarrow> guard_err (ph_checkSum phyHeader \<noteq> sumResult) E_SUM_MISMATCH (Ok ())
     | Err _ \<Rightarrow> Err E_SUM_CALCULATE_FAIL
     | Fault \<Rightarrow> Fault)))"

definition ParseCommPhyHeader :: "bool \<Rightarrow> byte list \<Rightarrow> u32 \<Rightarrow> parse_result \<Rightarrow> parse_result res" where
  "ParseCommPhyHeader be bytes len inResult =
     res_bind (ParseCommPhyHeaderCheckMagicAndVersion be bytes len) (\<lambda>_.
       guard_err (unat len < SIZEOF_PHY) E_PARSE_FAIL
      (res_bind (read_at bytes 0 SIZEOF_PHY) (\<lambda>hb.
         let phyHeader = ConvertNetToHost_phy be (phy_load be hb)
         in res_bind (ParseCommPhyHeaderCheckField be phyHeader bytes len) (\<lambda>_.
              let r1 = inResult\<lparr>pr_frameId := ph_frameId phyHeader, pr_sourceId := ph_sourceId phyHeader,
                         pr_packetLen := ph_packetLen phyHeader, pr_paddingLen := ph_paddingLen phyHeader,
                         pr_dbVersion := ph_dbIntVer phyHeader\<rparr>;
                  r2 = (if ph_packetType phyHeader AND PACKET_TYPE_FRAGMENTED \<noteq> 0
                        then r1\<lparr>pr_isFragment := True\<rparr> else r1);
                  frameType = GetFrameType (ph_packetType phyHeader)
              in guard_err (frameType = INVALID_MAX_FRAME_TYPE) E_FRAME_TYPE_NOT_SUPPORT
                   (Ok (r2\<lparr>pr_frameType := frameType,
                           pr_sendLabelExchange := IsSendLabelExchange (ph_packetType phyHeader)\<rparr>))))))"

definition ParseCommPhyOptHeader :: "bool \<Rightarrow> byte list \<Rightarrow> u32 \<Rightarrow> parse_result \<Rightarrow> parse_result res" where
  "ParseCommPhyOptHeader be bytes len inResult =
     guard_err (unat len < SIZEOF_PHY + SIZEOF_OPT) E_LENGTH_ERROR
    (res_bind (read_at bytes SIZEOF_PHY SIZEOF_OPT) (\<lambda>hb.
       let h = ConvertNetToHost_opt be (opt_load be hb)
       in Ok (inResult\<lparr>pr_frameLen := po_frameLen h, pr_fragCount := po_fragCount h, pr_fragNo := po_fragNo h\<rparr>)))"

definition ParseCommDivergeHeader :: "bool \<Rightarrow> byte list \<Rightarrow> u32 \<Rightarrow> parse_result \<Rightarrow> parse_result res" where
  "ParseCommDivergeHeader be bytes len inResult =
     guard_err (unat len < SIZEOF_PHY + 2) E_LENGTH_ERROR
    (res_bind (read_at bytes SIZEOF_PHY 2) (\<lambda>vb.
       guard_err (NetToHost be (load_word be vb) \<noteq> PROTOCOL_VERSION) E_VERSION_NOT_SUPPORT
      (guard_err (unat len < SIZEOF_PHY + SIZEOF_DIVERGE) E_PARSE_FAIL
      (res_bind (read_at bytes SIZEOF_PHY SIZEOF_DIVERGE) (\<lambda>hb.
         let h = ConvertNetToHost_diverge be (diverge_load be hb)
         in guard_err (SIZEOF_PHY + SIZEOF_DIVERGE + unat (dv_payLoadLen h) + unat (pr_paddingLen inResult)
                         \<noteq> unat (pr_packetLen inResult)) E_PARSE_FAIL
              (Ok (inResult\<lparr>pr_payloadLen := dv_payLoadLen h, pr_commLabel := dv_commLabel h\<rparr>)))))))"

text \<open>Reading one 64-bit field in network order through the moving field pointer.\<close>

definition get_word :: "bool \<Rightarrow> byte list \<Rightarrow> nat \<Rightarrow> u64 res" where
  "get_word be bytes off = res_bind (read_at bytes off 8) (\<lambda>w. Ok (NetToHost be (load_word be w)))"

fun get_labels :: "byte list \<Rightarrow> nat \<Rightarrow> nat \<Rightarrow> label list \<Rightarrow> label list res" where
  "get_labels bytes off 0 commLabels = Ok commLabels"
| "get_labels bytes off (Suc n) commLabels =
     res_bind (read_at bytes off COMM_LABEL_LENGTH) (\<lambda>commLabel.
       get_labels bytes (off + COMM_LABEL_LENGTH) n
         (if commLabel \<in> set commLabels then commLabels else insort_insert commLabel commLabels))"

definition ParseLabelExchange :: "bool \<Rightarrow> byte list \<Rightarrow> u32 \<Rightarrow> parse_result \<Rightarrow> parse_result res" where
  "ParseLabelExchange be bytes len inResult =
     guard_err (unat len < SIZEOF_PHY + LABEL_VER_LEN) E_LENGTH_ERROR
    (res_bind (get_word be bytes SIZEOF_PHY) (\<lambda>version.
       guard_err (version \<noteq> ucast PROTOCOL_VERSION) E_VERSION_NOT_SUPPORT
      (guard_err (unat len < SIZEOF_PHY + LABEL_VER_LEN + DISTINCT_VALUE_LEN + SEQUENCE_ID_LEN + COMM_LABEL_COUNT_LEN)
         E_LENGTH_ERROR
      (res_bind (get_word be bytes (SIZEOF_PHY + 8)) (\<lambda>distinctValue.
       res_bind (get_word be bytes (SIZEOF_PHY + 16)) (\<lambda>sequenceId.
       res_bind (get_word be bytes (SIZEOF_PHY + 24)) (\<lambda>commLabelCount.
         guard_err (unat len < unat commLabelCount \<or> 0xFFFFFFFF div COMM_LABEL_LENGTH < unat commLabelCount)
           E_PARSE_FAIL
        (guard_err (unat len < SIZEOF_PHY + LABEL_VER_LEN + DISTINCT_VALUE_LEN + SEQUENCE_ID_LEN +
                      COMM_LABEL_COUNT_LEN + unat commLabelCount * COMM_LABEL_LENGTH) E_LENGTH_ERROR
        (res_bind (get_labels bytes (SIZEOF_PHY + 32) (unat commLabelCount) []) (\<lambda>commLabels.
           Ok (inResult\<lparr>pr_distinctValue := distinctValue, pr_sequenceId := sequenceId,
                 pr_latestCommLabels := commLabels\<rparr>)))))))))))"

definition ParseLabelExchangeAck :: "bool \<Rightarrow> byte list \<Rightarrow> u32 \<Rightarrow> parse_result \<Rightarrow> parse_result res" where
  "ParseLabelExchangeAck be bytes len inResult =
     guard_err (unat len < SIZEOF_PHY + LABEL_VER_LEN) E_LENGTH_ERROR
    (res_bind (get_word be bytes SIZEOF_PHY) (\<lambda>version.
       guard_err (version \<noteq> ucast PROTOCOL_VERSION) E_VERSION_NOT_SUPPORT
      (guard_err (unat len < SIZEOF_PHY + LABEL_VER_LEN + DISTINCT_VALUE_LEN + SEQUENCE_ID_LEN) E_LENGTH_ERROR
      (res_bind (get_word be bytes (SIZEOF_PHY + 8)) (\<lambda>distinctValue.
       res_bind (get_word be bytes (SIZEOF_PHY + 16)) (\<lambda>sequenceId.
         Ok (inResult\<lparr>pr_distinctValue := distinctValue, pr_sequenceId := sequenceId\<rparr>)))))))"

definition ParseCommLayerPayload :: "bool \<Rightarrow> byte list \<Rightarrow> u32 \<Rightarrow> parse_result \<Rightarrow> parse_result res" where
  "ParseCommLayerPayload be bytes len inResult =
     (if pr_frameType inResult = COMMUNICATION_LABEL_EXCHANGE_ACK
      then ParseLabelExchangeAck be bytes len inResult
      else ParseLabelExchange be bytes len inResult)"

definition CheckAndParsePacket :: "bool \<Rightarrow> byte list option \<Rightarrow> u32 \<Rightarrow> parse_result \<Rightarrow> parse_result res" where
  "CheckAndParsePacket be ptr len outResult =
     (case ptr of
        None \<Rightarrow> Err E_INVALID_ARGS
      | Some bytes \<Rightarrow>
          guard_err (len > MAX_TOTAL_LEN) E_INVALID_ARGS
         (res_bind (ParseCommPhyHeader be bytes len outResult) (\<lambda>r.
            if pr_frameType r = EMPTY then Ok r
            else if pr_isFragment r then ParseCommPhyOptHeader be bytes len r
            else if pr_frameType r \<noteq> APPLICATION_MESSAGE then ParseCommLayerPayload be bytes len r
            else ParseCommDivergeHeader be bytes len r)))"

definition CheckAndParseFrame :: "bool \<Rightarrow> serial_buffer option \<Rightarrow> parse_result \<Rightarrow> parse_result res" where
  "CheckAndParseFrame be buff outResult =
     (case buff of
        None \<Rightarrow> Err E_INTERNAL_ERROR
      | Some inBuff \<Rightarrow>
          guard_err (pr_isFragment outResult) E_INTERNAL_ERROR
         (let (ptr, len) = GetReadOnlyBytesForEntireFrame inBuff
          in if pr_frameType outResult \<noteq> APPLICATION_MESSAGE
             then ParseCommLayerPayload be (deref ptr) len outResult
             else ParseCommDivergeHeader be (deref ptr) len outResult))"

section \<open>Reassembly of packets\<close>

definition AnalyzeSplitStructure :: "parse_result \<Rightarrow> (u32 \<times> u32) res" where
  "AnalyzeSplitStructure inResult =
     (let frameLen = pr_frameLen inResult; fragCount = pr_fragCount inResult; fragNo = pr_fragNo inResult;
          lengthBeSplit = frameLen - of_nat SIZEOF_PHY;
          quotient = lengthBeSplit div ucast fragCount;
          remainder = (ucast (lengthBeSplit mod ucast fragCount) :: u16);
          outFragLen = quotient;
          outLastFragLen = quotient + ucast remainder;
          thisFragLen = (if fragNo \<noteq> fragCount - 1 then outFragLen else outLastFragLen)
      in guard_err (unat frameLen \<le> SIZEOF_PHY \<or> frameLen > MAX_FRAME_LEN) E_PARSE_FAIL
        (guard_err (fragCount = 0 \<or> fragCount < MIN_FRAGMENT_COUNT \<or> ucast fragCount > lengthBeSplit \<or>
                    fragNo \<ge> fragCount) E_PARSE_FAIL
        (guard_err (SIZEOF_PHY + SIZEOF_OPT + unat thisFragLen + unat (pr_paddingLen inResult)
                      \<noteq> unat (pr_packetLen inResult)) E_PARSE_FAIL
        (Ok (outFragLen, outLastFragLen)))))"

definition CombinePacketIntoFrame ::
    "serial_buffer \<Rightarrow> byte list \<Rightarrow> u32 \<Rightarrow> u32 \<Rightarrow> u32 \<Rightarrow> serial_buffer res" where
  "CombinePacketIntoFrame inFrame pktBytes pktLength fragOffset fragLength =
     guard_err (SIZEOF_PHY + SIZEOF_OPT + unat fragLength > unat pktLength \<or>
                SIZEOF_PHY + unat fragOffset + unat fragLength > 0xFFFFFFFF) E_LENGTH_ERROR
    (case GetWritableBytesForEntireFrame inFrame of
       (None, _) \<Rightarrow> Err E_LENGTH_ERROR
     | (Some dst, dstLen) \<Rightarrow>
         guard_err (SIZEOF_PHY + unat fragOffset + unat fragLength > unat dstLen \<or>
                    SIZEOF_PHY + unat fragOffset > unat dstLen) E_LENGTH_ERROR
        (res_bind (read_at pktBytes (SIZEOF_PHY + SIZEOF_OPT) (unat fragLength)) (\<lambda>src.
           sb_memcpy inFrame (dst + SIZEOF_PHY + unat fragOffset)
             (unat dstLen - SIZEOF_PHY - unat fragOffset) src)))"

end
