(* ===== verification/Protocol_Parse.thy ===== *)
theory Protocol_Parse
  imports Protocol_Proto
begin

text \<open>
  The checksum and the parsers of \<^verbatim>\<open>protocol_proto.cpp\<close>: parsing arbitrary received bytes never
  leaves the received memory, a sealed frame is accepted by its receiver with the fields it was
  sealed with, damage to a packet is detected, and label exchanges survive the round trip.
\<close>

section \<open>The checksum as a function of the bytes\<close>

primrec xor_chunks :: "bool \<Rightarrow> nat \<Rightarrow> byte list \<Rightarrow> u64" where
  "xor_chunks be 0 bs = 0"
| "xor_chunks be (Suc n) bs = load_word be (take 8 bs) XOR xor_chunks be n (drop 8 bs)"

lemma xor_loop_Ok:
  "8 * (i + n) \<le> length bs \<Longrightarrow> xor_loop be bs i n acc = Ok (acc XOR xor_chunks be n (drop (8 * i) bs))"
proof (induction n arbitrary: i acc)
  case (Suc n)
  have "drop 8 (drop (8 * i) bs) = drop (8 * Suc i) bs" by (simp add: ac_simps)
  then show ?case using Suc by (simp add: read_at_def xor.assoc)
qed simp

lemma CalculateXorSum_Ok:
  assumes "unat len \<le> length bs" "len \<le> INT32_MAX" "len mod 8 = 0"
  shows "CalculateXorSum be bs len = Ok (xor_chunks be (unat len div 8) bs)"
proof -
  have "unat (len div 8) = unat len div 8" by (simp add: unat_div)
  then show ?thesis
    using assms by (simp add: CalculateXorSum_def xor_loop_Ok)
qed

lemma CalculateXorSum_cases:
  assumes "unat len \<le> length bs"
  shows "CalculateXorSum be bs len =
    (if len \<le> INT32_MAX \<and> len mod 8 = 0 then Ok (xor_chunks be (unat len div 8) bs) else Err E_LENGTH_ERROR)"
  using assms CalculateXorSum_Ok[OF assms] by (auto simp: CalculateXorSum_def guard_err_def not_le)

lemma load_word64_inj:
  assumes "length v = 8" "length w = 8" "(load_word be v :: u64) = load_word be w"
  shows "v = w"
proof -
  have "store_word be (load_word be v :: u64) = v" "store_word be (load_word be w :: u64) = w"
    using assms(1,2) by (auto intro!: store_load_word)
  then show ?thesis using assms(3) by metis
qed

lemma xor_cancel_right: "a XOR c = b XOR c \<longleftrightarrow> a = (b :: 'a::len word)"
  by (metis xor.assoc xor.right_neutral xor_self_eq)

text \<open>Two byte sequences that differ in exactly one of the summed words have different sums.\<close>

lemma xor_chunks_overwrite_inj:
  assumes "j < n" "8 * n \<le> length bs" "length w = 8"
    and "xor_chunks be n (overwrite bs (8 * j) w) = xor_chunks be n bs"
  shows "w = take 8 (drop (8 * j) bs)"
  using assms
proof (induction n arbitrary: j bs)
  case (Suc n)
  show ?case
  proof (cases j)
    case 0
    then have "drop 8 (overwrite bs (8 * j) w) = drop 8 bs" "take 8 (overwrite bs (8 * j) w) = w"
      using Suc.prems by (auto simp: overwrite_def)
    then have "load_word be w = (load_word be (take 8 bs) :: u64)"
      using Suc.prems by (simp add: xor_cancel_right)
    then show ?thesis using 0 Suc.prems by (intro load_word64_inj) auto
  next
    case (Suc k)
    have "take 8 (overwrite bs (8 * j) w) = take 8 bs"
      using Suc Suc.prems by (intro take_overwrite_before) auto
    moreover have "drop 8 (overwrite bs (8 * j) w) = overwrite (drop 8 bs) (8 * k) w"
      using Suc Suc.prems by (simp add: overwrite_def drop_take ac_simps)
    ultimately have "xor_chunks be n (overwrite (drop 8 bs) (8 * k) w) = xor_chunks be n (drop 8 bs)"
      using Suc.prems by (simp add: xor.commute[of "load_word be (take 8 bs)"] xor_cancel_right)
    then show ?thesis using Suc Suc.prems Suc.IH[of k "drop 8 bs"] by (simp add: ac_simps)
  qed
qed simp

lemma xor_chunks_take: "8 * n \<le> k \<Longrightarrow> xor_chunks be n (take k bs) = xor_chunks be n bs"
proof (induction n arbitrary: k bs)
  case (Suc n)
  then show ?case by (simp add: drop_take min_def)
qed simp

lemma xor_chunks_append: "8 * n \<le> length bs \<Longrightarrow> xor_chunks be n (bs @ cs) = xor_chunks be n bs"
  using xor_chunks_take[of n "length bs" be "bs @ cs"] by simp

section \<open>Parsing the physical header\<close>

text \<open>What the header check accepts, over the header read in network order.\<close>

definition phy_accept :: "bool \<Rightarrow> byte list \<Rightarrow> u32 \<Rightarrow> bool" where
  "phy_accept be bytes len \<longleftrightarrow>
     (let h = phy_of_net bytes
      in SIZEOF_PHY \<le> unat len \<and> ph_magic h = MAGIC_CODE \<and> ph_version h = PROTOCOL_VERSION \<and>
         ph_packetLen h = len \<and> ph_paddingLen h \<le> MAX_PADDING_LEN \<and>
         SIZEOF_PHY + unat (ph_paddingLen h) \<le> unat len \<and>
         len - LENGTH_BEFORE_SUM_RANGE \<le> INT32_MAX \<and> (len - LENGTH_BEFORE_SUM_RANGE) mod 8 = 0 \<and>
         ph_checkSum h = xor_chunks be (unat (len - LENGTH_BEFORE_SUM_RANGE) div 8) (drop 16 bytes))"

definition phy_result :: "CommPhyHeader \<Rightarrow> parse_result \<Rightarrow> parse_result" where
  "phy_result h r =
     r\<lparr>pr_frameId := ph_frameId h, pr_sourceId := ph_sourceId h, pr_packetLen := ph_packetLen h,
       pr_paddingLen := ph_paddingLen h, pr_dbVersion := ph_dbIntVer h,
       pr_isFragment := (ph_packetType h AND PACKET_TYPE_FRAGMENTED \<noteq> 0 \<or> pr_isFragment r),
       pr_frameType := GetFrameType (ph_packetType h),
       pr_sendLabelExchange := IsSendLabelExchange (ph_packetType h)\<rparr>"

lemma LENGTH_BEFORE_SUM_RANGE_unat [simp]: "unat LENGTH_BEFORE_SUM_RANGE = 16"
  by (simp add: LENGTH_BEFORE_SUM_RANGE_def)

lemma unat_len_sub16: "16 \<le> unat (len::u32) \<Longrightarrow> unat (len - LENGTH_BEFORE_SUM_RANGE) = unat len - 16"
  by (subst unat_sub) (auto simp: LENGTH_BEFORE_SUM_RANGE_def u32_le)

lemma check_magic:
  assumes "unat len \<le> length bytes"
  shows "ParseCommPhyHeaderCheckMagicAndVersion be bytes len =
    guard_err (unat len < 4) E_LENGTH_ERROR
   (guard_err (ph_magic (phy_of_net bytes) \<noteq> MAGIC_CODE) E_PARSE_FAIL
   (guard_err (ph_version (phy_of_net bytes) \<noteq> PROTOCOL_VERSION) E_VERSION_NOT_SUPPORT (Ok ())))"
  using assms
  by (auto simp: ParseCommPhyHeaderCheckMagicAndVersion_def guard_err_def read_at_def Let_def
      NetToHost_load phy_of_net_def)

lemma check_field:
  assumes "unat len \<le> length bytes" "SIZEOF_PHY \<le> unat len"
  shows "ParseCommPhyHeaderCheckField be h bytes len =
    guard_err (ph_packetLen h \<noteq> len \<or> ph_paddingLen h > MAX_PADDING_LEN \<or>
               SIZEOF_PHY + unat (ph_paddingLen h) > unat len) E_PARSE_FAIL
   (guard_err (\<not> (len - LENGTH_BEFORE_SUM_RANGE \<le> INT32_MAX \<and> (len - LENGTH_BEFORE_SUM_RANGE) mod 8 = 0))
      E_SUM_CALCULATE_FAIL
   (guard_err (ph_checkSum h \<noteq> xor_chunks be (unat (len - LENGTH_BEFORE_SUM_RANGE) div 8) (drop 16 bytes))
      E_SUM_MISMATCH (Ok ())))"
proof -
  have "unat (len - LENGTH_BEFORE_SUM_RANGE) \<le> length (drop 16 bytes)"
    using assms by (simp add: unat_len_sub16 sizeofs)
  from CalculateXorSum_cases[OF this] show ?thesis
    by (auto simp: ParseCommPhyHeaderCheckField_def guard_err_def)
qed

lemma ParseCommPhyHeader_Ok_iff:
  assumes "unat len \<le> length bytes"
  shows "ParseCommPhyHeader be bytes len r = Ok r' \<longleftrightarrow>
    phy_accept be bytes len \<and> GetFrameType (ph_packetType (phy_of_net bytes)) \<noteq> INVALID_MAX_FRAME_TYPE \<and>
    r' = phy_result (phy_of_net bytes) r"
proof (cases "SIZEOF_PHY \<le> unat len")
  case True
  have rd: "read_at bytes 0 SIZEOF_PHY = Ok (take SIZEOF_PHY bytes)"
    using True assms by (simp add: read_at_def)
  have h: "ConvertNetToHost_phy be (phy_load be (take SIZEOF_PHY bytes)) = phy_of_net bytes"
    using True assms by (simp add: phy.load_to_host phy.of_net_take)
  have l4: "\<not> unat len < 4" using True by (simp add: sizeofs)
  show ?thesis
    unfolding ParseCommPhyHeader_def check_magic[OF assms] rd res_bind.simps h Let_def
      check_field[OF assms True] phy_accept_def
    using True l4
    by (auto simp: guard_err_def phy_result_def not_less res_bind_eq_Ok split: if_splits)
next
  case False
  then show ?thesis
    by (auto simp: ParseCommPhyHeader_def res_bind_eq_Ok phy_accept_def)
qed

section \<open>Memory safety of the parsers\<close>

lemma get_word_safe [safe_rd]: "off + 8 \<le> length bytes \<Longrightarrow> get_word be bytes off \<noteq> Fault"
  by (simp add: get_word_def read_at_def)

lemma get_labels_safe [safe_rd]:
  "off + n * COMM_LABEL_LENGTH \<le> length bytes \<Longrightarrow> get_labels bytes off n acc \<noteq> Fault"
  by (induction n arbitrary: off acc) (auto simp: read_at_def sizeofs)

lemma ParseCommPhyHeader_safe [safe_rd]:
  assumes "unat len \<le> length bytes"
  shows "ParseCommPhyHeader be bytes len r \<noteq> Fault"
proof (cases "SIZEOF_PHY \<le> unat len")
  case True
  then show ?thesis using assms
    unfolding ParseCommPhyHeader_def check_magic[OF assms] check_field[OF assms True] Let_def
    by (intro safe_rd) (auto simp: guard_err_def)
next
  case False
  then show ?thesis using assms
    unfolding ParseCommPhyHeader_def check_magic[OF assms] by (intro safe_rd) (auto simp: guard_err_def)
qed

lemma ParseCommPhyOptHeader_safe [safe_rd]:
  "unat len \<le> length bytes \<Longrightarrow> ParseCommPhyOptHeader be bytes len r \<noteq> Fault"
  unfolding ParseCommPhyOptHeader_def Let_def by (intro safe_rd) auto

lemma ParseCommDivergeHeader_safe [safe_rd]:
  "unat len \<le> length bytes \<Longrightarrow> ParseCommDivergeHeader be bytes len r \<noteq> Fault"
  unfolding ParseCommDivergeHeader_def Let_def by (intro safe_rd) auto

lemma ParseLabelExchange_safe [safe_rd]:
  "unat len \<le> length bytes \<Longrightarrow> ParseLabelExchange be bytes len r \<noteq> Fault"
  unfolding ParseLabelExchange_def by (intro safe_rd) (auto simp: sizeofs label_lens)

lemma ParseLabelExchangeAck_safe [safe_rd]:
  "unat len \<le> length bytes \<Longrightarrow> ParseLabelExchangeAck be bytes len r \<noteq> Fault"
  unfolding ParseLabelExchangeAck_def by (intro safe_rd) (auto simp: sizeofs label_lens)

lemma ParseCommLayerPayload_safe [safe_rd]:
  "unat len \<le> length bytes \<Longrightarrow> ParseCommLayerPayload be bytes len r \<noteq> Fault"
  unfolding ParseCommLayerPayload_def by (simp add: safe_rd)

lemma CheckAndParsePacket_safe:
  "unat len \<le> length bytes \<Longrightarrow> CheckAndParsePacket be (Some bytes) len r \<noteq> Fault"
  unfolding CheckAndParsePacket_def option.case by (intro safe_rd) (auto intro!: safe_rd)

lemma CheckAndParseFrame_safe:
  assumes "sb_ok b" shows "CheckAndParseFrame be (Some b) r \<noteq> Fault"
proof -
  have "unat (0::u32) + unat (totalLen b - paddingLen b) \<le> unat (totalLen b)"
    using assms by (simp add: sb_lens_sub sb_ok_def) (simp add: sb_lens_ok_def)
  from readonly_view[OF assms this] obtain m where
    "GetReadOnlyBytesForEntireFrame b = (Some m, totalLen b - paddingLen b)"
    "unat (totalLen b - paddingLen b) \<le> length m"
    by (auto simp: GetReadOnlyBytesForEntireFrame_def)
  then show ?thesis
    by (auto simp: CheckAndParseFrame_def guard_err_def deref_def safe_rd)
qed

text \<open>
  Whatever bytes arrive from the network, parsing a packet never reads outside the memory it was
  received in, and parsing the frame of any well-formed buffer never reads outside that buffer:
  both parsers return a result or an error code for every input.
\<close>

theorem parsers_never_fault:
  assumes "unat len \<le> length bytes" and "sb_ok b"
  shows "CheckAndParsePacket be (Some bytes) len r \<noteq> Fault \<and> CheckAndParseFrame be (Some b) r \<noteq> Fault"
  using assms by (simp add: CheckAndParsePacket_safe CheckAndParseFrame_safe)

theorem parsers_never_fault_witness:
  "\<exists>b. SetExternalBuff (Some [0xAA, 0xAA, 0, 0, 0]) 5 1 new_SerialBuffer = (E_OK, b) \<and>
     CheckAndParsePacket True (Some [0xAA, 0xAA, 0, 0, 0]) 5 new_ParseResult \<noteq> Fault \<and>
     CheckAndParseFrame True (Some b) new_ParseResult \<noteq> Fault"
proof -
  obtain b where b: "SetExternalBuff (Some [0xAA, 0xAA, 0, 0, 0]) 5 1 new_SerialBuffer = (E_OK, b)"
    by (simp add: SetExternalBuff_def new_SerialBuffer_def MAX_TOTAL_LEN_def)
  from SetExternalBuff_ok[OF b] have "sb_ok b" by simp
  then show ?thesis
    using b parsers_never_fault[of 5 "[0xAA, 0xAA, 0, 0, 0]" b True new_ParseResult] by simp
qed

section \<open>Detection of damaged packets\<close>

lemma phy_accept_word0:
  assumes "phy_accept be bs len" "32 \<le> length bs"
  shows "take 8 bs = net_bytes MAGIC_CODE @ net_bytes PROTOCOL_VERSION @ net_bytes len"
proof -
  have "take 8 bs = take 8 (phy_net (phy_of_net bs))"
    using assms(2) by (simp add: phy.net_of_net sizeofs)
  then show ?thesis using assms(1) by (simp add: phy_net_def phy_accept_def Let_def)
qed

lemma phy_accept_word1:
  assumes "phy_accept be bs len" "32 \<le> length bs"
  shows "take 8 (drop 8 bs) = net_bytes (xor_chunks be (unat (len - LENGTH_BEFORE_SUM_RANGE) div 8) (drop 16 bs))"
proof -
  have "take 8 (drop 8 bs) = take 8 (drop 8 (phy_net (phy_of_net bs)))"
    using assms(2) by (simp add: phy.net_of_net sizeofs drop_take)
  then show ?thesis using assms(1) by (simp add: phy_net_def phy_accept_def Let_def)
qed

lemma net_bytes_inj: "8 dvd LENGTH('a) \<Longrightarrow> net_bytes v = net_bytes w \<longleftrightarrow> v = (w :: 'a::len word)"
  using net_word_net_bytes[of v] net_word_net_bytes[of w] by metis

text \<open>Two accepted packets that differ in at most one summed word are equal there.\<close>

lemma phy_accept_sum_word:
  assumes a: "phy_accept be bs len" "phy_accept be (overwrite bs (8 * (j + 2)) w) len"
    and len: "unat len = length bs" and k: "8 * (j + 2) + 8 \<le> length bs" and w: "length w = 8"
  shows "w = take 8 (drop (8 * (j + 2)) bs)"
proof -
  let ?bs = "overwrite bs (8 * (j + 2)) w" and ?n = "unat (len - LENGTH_BEFORE_SUM_RANGE) div 8"
  have s: "32 \<le> length bs" using a(1) len by (simp add: phy_accept_def Let_def sizeofs)
  have n: "?n = (length bs - 16) div 8" using s len by (simp add: unat_len_sub16)
  have m: "drop 16 ?bs = overwrite (drop 16 bs) (8 * j) w"
    using k w by (simp add: overwrite_def drop_take ac_simps)
  have "take 16 ?bs = take 16 bs" using k by simp
  then have "drop 8 (take 16 ?bs) = drop 8 (take 16 bs)" by simp
  then have "take 8 (drop 8 ?bs) = take 8 (drop 8 bs)" by (simp add: drop_take)
  then have "xor_chunks be ?n (overwrite (drop 16 bs) (8 * j) w) = xor_chunks be ?n (drop 16 bs)"
    using phy_accept_word1[OF a(1) s] phy_accept_word1[OF a(2)] s k w m by (simp add: net_bytes_inj)
  moreover have "j < ?n" "8 * ?n \<le> length (drop 16 bs)" using n k by auto
  ultimately have "w = take 8 (drop (8 * j) (drop 16 bs))"
    using w by (intro xor_chunks_overwrite_inj) auto
  then show ?thesis by (simp add: ac_simps)
qed

lemma phy_accept_word_unique:
  assumes a: "phy_accept be bs len" "phy_accept be (overwrite bs (8 * k) w) len"
    and len: "unat len = length bs" and k: "8 * k + 8 \<le> length bs" and w: "length w = 8"
  shows "w = take 8 (drop (8 * k) bs)"
proof -
  let ?bs = "overwrite bs (8 * k) w"
  have s: "32 \<le> length bs" "32 \<le> length ?bs"
    using a(1) len k w by (simp_all add: phy_accept_def Let_def sizeofs)
  consider "k = 0" | "k = 1" | j where "k = j + 2"
    by (metis One_nat_def add_2_eq_Suc' not0_implies_Suc)
  then show ?thesis
  proof cases
    case 1
    have "take 8 ?bs = take 8 bs" using phy_accept_word0[OF a(1) s(1)] phy_accept_word0[OF a(2) s(2)] by simp
    then show ?thesis using 1 w by (simp add: overwrite_def)
  next
    case 2
    have "drop 16 ?bs = drop 16 bs" using 2 w k by (simp add: drop_overwrite_after)
    then have "take 8 (drop 8 ?bs) = take 8 (drop 8 bs)"
      using phy_accept_word1[OF a(1) s(1)] phy_accept_word1[OF a(2) s(2)] by simp
    then show ?thesis using 2 w k by (simp add: overwrite_def)
  next
    case 3
    show ?thesis using phy_accept_sum_word[of be bs len j w] a len k w unfolding 3 by blast
  qed
qed

lemma CheckAndParsePacket_accept:
  "CheckAndParsePacket be (Some bs) len r = Ok r1 \<Longrightarrow> unat len \<le> length bs \<Longrightarrow> phy_accept be bs len"
  by (auto simp: CheckAndParsePacket_def res_bind_eq_Ok ParseCommPhyHeader_Ok_iff)

text \<open>
  C37: Every change to a received packet that is confined to one aligned eight-byte word, at any
  position (a flipped bit, a damaged byte, a garbled field), makes the receiver reject the packet:
  the fixed fields catch the first word, the sum field the second, and the exclusive-or
  sum every later word.
\<close>

theorem corrupted_word_rejected:
  assumes acc: "CheckAndParsePacket be (Some bs) len r = Ok r1" and len: "unat len = length bs"
    and k: "8 * k + 8 \<le> length bs" and w: "length w = 8" "w \<noteq> take 8 (drop (8 * k) bs)"
  shows "\<exists>e. CheckAndParsePacket be (Some (overwrite bs (8 * k) w)) len r = Err e"
proof -
  let ?r = "CheckAndParsePacket be (Some (overwrite bs (8 * k) w)) len r"
  have l: "unat len \<le> length (overwrite bs (8 * k) w)" using k w len by simp
  have "?r \<noteq> Fault"
    using l by (rule CheckAndParsePacket_safe)
  moreover have "?r \<noteq> Ok r'" for r'
    using CheckAndParsePacket_accept[OF acc] CheckAndParsePacket_accept[OF _ l, of be r]
      phy_accept_word_unique[of be bs len k w] len k w by auto
  ultimately show ?thesis by (cases ?r) auto
qed

section \<open>Sealed packets\<close>

text \<open>A packet whose header carries the sum of all that follows its sum field.\<close>

definition seal_sum :: "bool \<Rightarrow> CommPhyHeader \<Rightarrow> byte list \<Rightarrow> u64" where
  "seal_sum be h body =
     xor_chunks be ((SIZEOF_PHY + length body - 16) div 8) (drop 16 (phy_net h @ body))"

definition sealed :: "bool \<Rightarrow> CommPhyHeader \<Rightarrow> byte list \<Rightarrow> byte list" where
  "sealed be h body = phy_net (h\<lparr>ph_checkSum := seal_sum be h body\<rparr>) @ body"

lemma length_phy_net [simp]: "length (phy_net h) = 32"
  by (simp add: phy_net_def)

lemma length_opt_net [simp]: "length (opt_net h) = 8"
  by (simp add: opt_net_def)

lemma length_sealed [simp]: "length (sealed be h body) = 32 + length body"
  by (simp add: sealed_def)

lemma drop32_sealed [simp]: "drop 32 (sealed be h body) = body"
  by (simp add: sealed_def)

lemma phy_of_net_sealed: "phy_of_net (sealed be h body) = h\<lparr>ph_checkSum := seal_sum be h body\<rparr>"
  by (simp add: sealed_def phy.of_net_net)

lemma drop16_sealed: "drop 16 (sealed be h body) = drop 16 (phy_net h @ body)"
  by (simp add: sealed_def phy_net_def)

text \<open>Storing the sum at offset 8 of an unsealed packet seals it.\<close>

lemma overwrite_sum: "overwrite (phy_net h @ body) 8 (net_bytes (c::u64)) = phy_net (h\<lparr>ph_checkSum := c\<rparr>) @ body"
  by (simp add: overwrite_def phy_net_def)

lemma phy_accept_sealed:
  assumes "ph_magic h = MAGIC_CODE" "ph_version h = PROTOCOL_VERSION"
    and "ph_paddingLen h \<le> MAX_PADDING_LEN" "unat (ph_paddingLen h) \<le> length body"
    and "unat (ph_packetLen h) = 32 + length body" "8 dvd length body" "length body \<le> 2000000000"
  shows "phy_accept be (sealed be h body) (ph_packetLen h)"
proof -
  let ?len = "ph_packetLen h"
  have u: "unat (?len - LENGTH_BEFORE_SUM_RANGE) = 16 + length body"
    using assms(5) by (subst unat_len_sub16) auto
  have "(?len - LENGTH_BEFORE_SUM_RANGE) mod 8 = 0"
  proof (rule word_unat_eq_iff[THEN iffD2])
    show "unat ((?len - LENGTH_BEFORE_SUM_RANGE) mod 8) = unat (0::u32)"
      using assms(6) by (simp add: unat_mod u)
  qed
  moreover have "?len - LENGTH_BEFORE_SUM_RANGE \<le> INT32_MAX"
    using assms(7) by (simp add: u32_le u INT32_MAX_def)
  ultimately show ?thesis
    using assms u by (simp add: phy_accept_def Let_def phy_of_net_sealed drop16_sealed sizeofs seal_sum_def)
qed

lemma sb_put_memcpy: "sb_put b (Some off) src = sb_memcpy b off (length src) src"
  by (simp add: sb_put_def sb_memcpy_def memcpy_s_def split: option.splits)

text \<open>A raw store into the frame of an owned buffer.\<close>

lemma sb_put_content:
  assumes "sb_ok b" "sb_owned b" "k + length src \<le> unat (totalLen b)"
  shows "\<exists>b'. sb_put b (Some (unat (extendHeadLen b) + k)) src = Ok b' \<and>
           content b' = overwrite (content b) k src \<and> sb_ok b' \<and> sb_owned b' \<and> same_shape b b'"
  using sb_memcpy_content[OF assms order_refl] by (simp add: sb_put_memcpy)

definition frame_header :: "serial_buffer \<Rightarrow> PhyHeaderInfo \<Rightarrow> CommPhyHeader" where
  "frame_header b info =
     \<lparr>ph_magic = MAGIC_CODE, ph_version = PROTOCOL_VERSION, ph_packetLen = totalLen b, ph_checkSum = 0,
      ph_sourceId = hi_sourceId info, ph_frameId = hi_frameId info,
      ph_packetType = SetSendLabelExchange (SetFrameType (hi_frameType info) PACKET_TYPE_NOT_FRAGMENTED)
        (hi_sendLabelExchange info),
      ph_paddingLen = ucast (paddingLen b), ph_dbIntVer = DB_GLOBAL_VERSION\<rparr>"

lemma sb_views:
  assumes "sb_ok b"
  shows "snd (GetReadOnlyBytesForEntireBuffer b) = totalLen b"
    and "snd (GetReadOnlyBytesForEntireFrame b) = totalLen b - paddingLen b"
    and "take (unat (totalLen b)) (deref (fst (GetReadOnlyBytesForEntireBuffer b))) = content b"
    and "unat (totalLen b) \<le> length (deref (fst (GetReadOnlyBytesForEntireBuffer b)))"
  using assms readonly_view[OF assms, of 0 "totalLen b"]
    readonly_view[OF assms, of 0 "totalLen b - paddingLen b"] length_content[OF assms]
  by (auto simp: GetReadOnlyBytesForEntireBuffer_def GetReadOnlyBytesForEntireFrame_def deref_def
      sb_lens_sub sb_ok_def sb_lens_ok_def)

lemma sb_header_ptr:
  assumes "sb_owned b"
  shows "GetWritableBytesForHeader b = (Some (unat (extendHeadLen b)), headerLen b)"
    and "GetWritableBytesForPayload b = (Some (unat (extendHeadLen b) + unat (headerLen b)), payloadLen b)"
    and "GetWritableBytesForEntireFrame b = (Some (unat (extendHeadLen b)), totalLen b - paddingLen b)"
  using assms by (auto simp: sb_owned_def writable_def GetWritableBytesForHeader_def
      GetWritableBytesForPayload_def GetWritableBytesForEntireFrame_def)

lemma content_sum:
  assumes "sb_ok b" "8 dvd unat (totalLen b)" "32 \<le> unat (totalLen b)"
  shows "CalculateXorSum be (drop 16 (deref (fst (GetReadOnlyBytesForEntireBuffer b))))
           (totalLen b - LENGTH_BEFORE_SUM_RANGE)
         = Ok (xor_chunks be ((unat (totalLen b) - 16) div 8) (drop 16 (content b)))"
proof -
  let ?m = "deref (fst (GetReadOnlyBytesForEntireBuffer b))" and ?l = "totalLen b - LENGTH_BEFORE_SUM_RANGE"
  have u: "unat ?l = unat (totalLen b) - 16" using assms(3) by (subst unat_len_sub16) auto
  have "?l mod 8 = 0"
  proof (rule word_unat_eq_iff[THEN iffD2])
    show "unat (?l mod 8) = unat (0::u32)" using assms(2,3) by (simp add: unat_mod u)
  qed
  moreover have "?l \<le> INT32_MAX"
    using assms(1) by (auto simp: u32_le u INT32_MAX_def sb_ok_def sb_lens_ok_def)
  moreover have "xor_chunks be ((unat (totalLen b) - 16) div 8) (drop 16 (content b))
      = xor_chunks be ((unat (totalLen b) - 16) div 8) (drop 16 ?m)"
    unfolding sb_views(3)[OF assms(1), symmetric] drop_take by (rule xor_chunks_take) auto
  ultimately show ?thesis
    using sb_views(4)[OF assms(1)] by (simp add: CalculateXorSum_Ok u)
qed

text \<open>Sealing an owned frame writes the header and the sum, and keeps all else.\<close>

lemma SetPhyHeader_seals:
  assumes ok: "sb_ok b" "sb_owned b" and h: "32 \<le> unat (headerLen b)" and al: "8 dvd unat (totalLen b)"
    and ft: "hi_frameType info \<noteq> INVALID_MAX_FRAME_TYPE"
  shows "\<exists>b'. SetPhyHeader be (Some b) info = Ok b' \<and> same_shape b b' \<and> sb_ok b' \<and> sb_owned b' \<and>
           content b' = sealed be (frame_header b info) (drop 32 (content b))"
proof -
  let ?h = "frame_header b info" and ?e = "unat (extendHeadLen b)" and ?body = "drop 32 (content b)"
  have l: "32 \<le> unat (totalLen b)" "length (content b) = unat (totalLen b)"
    using ok h length_content by (auto simp: sb_ok_def sb_lens_ok_def)
  have img: "phy_image be (ConvertHostToNet_phy be ?h) = phy_net ?h" by (rule phy.image_to_net)
  obtain b1 where b1: "sb_memcpy b ?e (unat (headerLen b)) (phy_net ?h) = Ok b1"
    "content b1 = phy_net ?h @ ?body" "sb_ok b1" "sb_owned b1" "same_shape b b1"
    using sb_memcpy_content[OF ok, of 0 "phy_net ?h" "unat (headerLen b)"] h l by (auto simp: overwrite_def)
  have t1: "totalLen b1 = totalLen b" "extendHeadLen b1 = extendHeadLen b"
    using b1(5) by (auto simp: same_shape_def)
  define c where "c = seal_sum be ?h ?body"
  have sum: "CalculateXorSum be (drop 16 (deref (fst (GetReadOnlyBytesForEntireBuffer b1))))
      (totalLen b - LENGTH_BEFORE_SUM_RANGE) = Ok c"
    using content_sum[OF b1(3), of be] al l by (simp add: t1 b1(2) c_def seal_sum_def sizeofs)
  obtain b2 where b2: "put_word be b1 (Some (?e + 8)) c = Ok b2"
    "content b2 = overwrite (content b1) 8 (net_bytes c)" "sb_ok b2" "sb_owned b2" "same_shape b1 b2"
    using sb_put_content[OF b1(3,4), of 8 "net_bytes c"] l by (auto simp: t1 put_word_def store_HostToNet)
  have "content b2 = sealed be ?h ?body"
    using b2(2) by (simp add: b1(2) overwrite_sum sealed_def c_def)
  moreover have "SetPhyHeader be (Some b) info = Ok b2"
    using h ft b1(1) sum b2(1) img
    by (simp add: SetPhyHeader_def sb_header_ptr[OF ok(2)] sb_views[OF ok(1)] FillPhyHeaderLenInfo_def
        frame_header_def sizeofs Let_def)
  ultimately show ?thesis using b2 same_shape_trans[OF b1(5) b2(5)] by blast
qed

lemma packet_type_bits:
  "SetSendLabelExchange (SetFrameType ft PACKET_TYPE_NOT_FRAGMENTED) s =
     (case ft of EMPTY \<Rightarrow> 0 | APPLICATION_MESSAGE \<Rightarrow> 0x10 | COMMUNICATION_LABEL_EXCHANGE \<Rightarrow> 0x20
      | COMMUNICATION_LABEL_EXCHANGE_ACK \<Rightarrow> 0x30 | INVALID_MAX_FRAME_TYPE \<Rightarrow> 0x40) + (if s then 0 else 8)"
  by (simp add: SetSendLabelExchange_def SetFrameType_def PACKET_TYPE_NOT_FRAGMENTED_def split: FrameType.split)

lemma packet_type_frame [simp]:
  assumes "ft \<noteq> INVALID_MAX_FRAME_TYPE"
  shows "GetFrameType (SetSendLabelExchange (SetFrameType ft PACKET_TYPE_NOT_FRAGMENTED) s) = ft"
  using assms unfolding packet_type_bits
  by (cases ft) (simp_all add: GetFrameType_def word_le_nat_alt)

lemma packet_type_frag [simp]:
  assumes "ft \<noteq> INVALID_MAX_FRAME_TYPE"
  shows "GetFrameType (SetSendLabelExchange (SetFrameType ft PACKET_TYPE_NOT_FRAGMENTED) s OR PACKET_TYPE_FRAGMENTED) = ft"
  using assms unfolding packet_type_bits PACKET_TYPE_FRAGMENTED_def
  by (cases ft) (simp_all add: GetFrameType_def word_le_nat_alt)

lemma packet_type_send [simp]:
  "IsSendLabelExchange (SetSendLabelExchange (SetFrameType ft PACKET_TYPE_NOT_FRAGMENTED) s) = s"
   "IsSendLabelExchange (SetSendLabelExchange (SetFrameType ft PACKET_TYPE_NOT_FRAGMENTED) s OR PACKET_TYPE_FRAGMENTED) = s"
  unfolding packet_type_bits PACKET_TYPE_FRAGMENTED_def
  by (cases ft; simp add: IsSendLabelExchange_def)+

lemma packet_type_flag [simp]:
  "SetSendLabelExchange (SetFrameType ft PACKET_TYPE_NOT_FRAGMENTED) s AND PACKET_TYPE_FRAGMENTED = 0"
  "(SetSendLabelExchange (SetFrameType ft PACKET_TYPE_NOT_FRAGMENTED) s OR PACKET_TYPE_FRAGMENTED)
           AND PACKET_TYPE_FRAGMENTED = PACKET_TYPE_FRAGMENTED"
  unfolding packet_type_bits PACKET_TYPE_FRAGMENTED_def
  by (cases ft; simp)+

lemma unat_ucast_small: "unat (w::u32) < 256 \<Longrightarrow> unat (ucast w :: u8) = unat w"
  by (simp add: unsigned_ucast_eq take_bit_eq_mod)

text \<open>The receiver of a sealed frame reads back what its sender put into the header.\<close>

lemma parse_sealed_frame:
  assumes ok: "sb_ok b" and h: "32 \<le> unat (headerLen b)" and al: "8 dvd unat (totalLen b)"
    and ft: "hi_frameType info \<noteq> INVALID_MAX_FRAME_TYPE" and r: "\<not> pr_isFragment r"
  shows "ParseCommPhyHeader be (sealed be (frame_header b info) (drop 32 (content b))) (totalLen b) r =
    Ok (r\<lparr>pr_frameId := hi_frameId info, pr_sourceId := hi_sourceId info, pr_packetLen := totalLen b,
          pr_paddingLen := ucast (paddingLen b), pr_dbVersion := DB_GLOBAL_VERSION, pr_isFragment := False,
          pr_frameType := hi_frameType info, pr_sendLabelExchange := hi_sendLabelExchange info\<rparr>)"
proof -
  let ?h = "frame_header b info" and ?body = "drop 32 (content b)"
  have lens: "unat (totalLen b) = unat (headerLen b) + unat (payloadLen b) + unat (paddingLen b)"
    "unat (paddingLen b) < 8" "unat (totalLen b) \<le> 104857600"
    using ok by (auto simp: sb_ok_def sb_lens_ok_def u32_le u32_less)
  have lb: "length ?body = unat (totalLen b) - 32" using ok by (simp add: length_content)
  have dv: "8 dvd length ?body" using al h lens lb by (simp add: dvd_diff_nat)
  have pad: "unat (ucast (paddingLen b) :: u8) = unat (paddingLen b)"
    using lens by (intro unat_ucast_small) simp
  have "phy_accept be (sealed be ?h ?body) (ph_packetLen ?h)"
    by (rule phy_accept_sealed)
       (use lens lb dv h pad in \<open>auto simp: frame_header_def MAX_PADDING_LEN_def word_le_nat_alt\<close>)
  then have acc: "phy_accept be (sealed be ?h ?body) (totalLen b)" by (simp add: frame_header_def)
  have "unat (totalLen b) \<le> length (sealed be ?h ?body)" using lb h lens by simp
  from ParseCommPhyHeader_Ok_iff[OF this] show ?thesis
    using acc ft r by (simp add: phy_of_net_sealed phy_result_def) (simp add: frame_header_def)
qed

section \<open>Label exchange\<close>

text \<open>Consecutive raw stores are one store of the concatenation.\<close>

lemma put_step:
  assumes "sb_ok b" "sb_owned b" "content b = overwrite c k src" "length c = unat (totalLen b)"
    and "k + length src + length w \<le> unat (totalLen b)"
  shows "\<exists>b'. sb_put b (Some (unat (extendHeadLen b) + (k + length src))) w = Ok b' \<and>
    content b' = overwrite c k (src @ w) \<and> sb_ok b' \<and> sb_owned b' \<and> same_shape b b'"
proof -
  obtain b' where "sb_put b (Some (unat (extendHeadLen b) + (k + length src))) w = Ok b'"
    "content b' = overwrite (content b) (k + length src) w" "sb_ok b'" "sb_owned b'" "same_shape b b'"
    using sb_put_content[OF assms(1,2), of "k + length src" w] assms(5) by auto
  then show ?thesis using assms by (auto simp: overwrite_append)
qed

lemma put_labels_content:
  assumes "sb_ok b" "sb_owned b" "content b = overwrite c k src" "length c = unat (totalLen b)"
    and "k + length src + length (concat ls) \<le> unat (totalLen b)"
  shows "\<exists>b'. put_labels b (Some (unat (extendHeadLen b) + (k + length src))) ls = Ok b' \<and>
    content b' = overwrite c k (src @ concat ls) \<and> sb_ok b' \<and> sb_owned b' \<and> same_shape b b'"
  using assms
proof (induction ls arbitrary: b src)
  case Nil
  then show ?case by simp
next
  case (Cons l ls)
  obtain b1 where b1: "sb_put b (Some (unat (extendHeadLen b) + (k + length src))) l = Ok b1"
    "content b1 = overwrite c k (src @ l)" "sb_ok b1" "sb_owned b1" "same_shape b b1"
    using put_step[OF Cons.prems(1-4), of l] Cons.prems(5) by auto
  have e: "extendHeadLen b1 = extendHeadLen b" "totalLen b1 = totalLen b"
    using b1(5) by (auto simp: same_shape_def)
  obtain b2 where "put_labels b1 (Some (unat (extendHeadLen b1) + (k + length (src @ l)))) ls = Ok b2"
    "content b2 = overwrite c k ((src @ l) @ concat ls)" "sb_ok b2" "sb_owned b2" "same_shape b1 b2"
    using Cons.IH[OF b1(3,4,2)] Cons.prems(4,5) e by auto
  moreover have "unat (extendHeadLen b1) + (k + length (src @ l)) = unat (extendHeadLen b) + (k + length src) + length l"
    using e by simp
  ultimately show ?case using b1(1) same_shape_trans[OF b1(5)] by (auto simp del: length_append)
qed

text \<open>The wire image of a label exchange, and of its acknowledgement.\<close>

definition exchange_body :: "u64 \<Rightarrow> u64 \<Rightarrow> label list \<Rightarrow> byte list" where
  "exchange_body d s ls =
     net_bytes (0::u64) @ net_bytes d @ net_bytes s @ net_bytes (of_nat (length ls) :: u64) @ concat ls"

definition ack_body :: "u64 \<Rightarrow> u64 \<Rightarrow> byte list" where
  "ack_body d s = net_bytes (0::u64) @ net_bytes d @ net_bytes s"

lemma length_concat_labels:
  "\<forall>l \<in> set ls. length l = COMM_LABEL_LENGTH \<Longrightarrow> length (concat ls) = COMM_LABEL_LENGTH * length ls"
  by (induction ls) auto

lemma length_exchange_body:
  "\<forall>l \<in> set ls. length l = COMM_LABEL_LENGTH \<Longrightarrow> length (exchange_body d s ls) = 32 + 32 * length ls"
  by (simp add: exchange_body_def length_concat_labels sizeofs)

lemma INT32_MAX_unat [simp]: "unat INT32_MAX = 2147483647"
  by (simp add: INT32_MAX_def)

lemma put_word_step:
  assumes "sb_ok b" "sb_owned b" "content b = overwrite c k src" "length c = unat (totalLen b)"
    and "k + length src + 8 \<le> unat (totalLen b)" and "ptr = unat (extendHeadLen b) + (k + length src)"
  shows "\<exists>b'. put_word be b (Some ptr) w = Ok b' \<and>
    content b' = overwrite c k (src @ net_bytes w) \<and> sb_ok b' \<and> sb_owned b' \<and> same_shape b b'"
  using put_step[OF assms(1-4), of "net_bytes w"] assms(5,6) by (simp add: put_word_def store_HostToNet)

lemma put_three_words:
  assumes b: "sb_ok b" "sb_owned b" "content b = c" "length c = unat (totalLen b)"
    and k: "k + 24 \<le> unat (totalLen b)" "p = unat (extendHeadLen b) + k"
  shows "\<exists>b3. res_bind (put_word be b (Some p) u) (\<lambda>b1. res_bind (put_word be b1 (Some (p + 8)) v)
      (\<lambda>b2. put_word be b2 (Some (p + 16)) w)) = Ok b3 \<and>
      content b3 = overwrite c k (net_bytes u @ net_bytes v @ net_bytes w) \<and>
      sb_ok b3 \<and> sb_owned b3 \<and> same_shape b b3"
proof -
  obtain b1 where b1: "put_word be b (Some p) u = Ok b1" "content b1 = overwrite c k (net_bytes u)"
    "sb_ok b1" "sb_owned b1" "same_shape b b1"
    using put_word_step[of b c k "[]" p be u] b k by auto
  obtain b2 where b2: "put_word be b1 (Some (p + 8)) v = Ok b2"
    "content b2 = overwrite c k (net_bytes u @ net_bytes v)" "sb_ok b2" "sb_owned b2" "same_shape b1 b2"
    using put_word_step[of b1 c k "net_bytes u" "p + 8" be v] b1 b(4) k by (auto simp: same_shape_def)
  have s2: "same_shape b b2" using same_shape_trans[OF b1(5) b2(5)] .
  obtain b3 where b3: "put_word be b2 (Some (p + 16)) w = Ok b3"
    "content b3 = overwrite c k (net_bytes u @ net_bytes v @ net_bytes w)"
    "sb_ok b3" "sb_owned b3" "same_shape b2 b3"
    using put_word_step[of b2 c k "net_bytes u @ net_bytes v" "p + 16" be w] b2 s2 b(4) k
    by (auto simp: same_shape_def)
  then show ?thesis using b1(1) b2(1) same_shape_trans[OF s2 b3(5)] by auto
qed

lemma alloc_comm_frame:
  assumes "mem (NewBytes (of_nat (32 + n)))" "n mod 8 = 0" "n \<le> 104857568"
  shows "\<exists>b. AllocBufferByPayloadLength mem (of_nat n) GetCommLayerFrameHeaderLength new_SerialBuffer = (E_OK, b) \<and>
    sb_ok b \<and> sb_owned b \<and> headerLen b = 32 \<and> unat (payloadLen b) = n \<and> extendHeadLen b = 0 \<and>
    unat (totalLen b) = 32 + n \<and> paddingLen b = 0 \<and> content b = replicate (32 + n) 0"
proof -
  let ?t = "BYTE_8_ALIGN (of_nat n + 32 :: u32)"
  have n: "unat (of_nat n :: u32) = n" using assms(3) by (intro unat_of_nat32) simp
  have s: "unat (of_nat n + 32 :: u32) = n + 32" using assms(3) by (subst unat_add32) (auto simp: n)
  have t: "unat ?t = 32 + n"
  proof -
    have "unat ?t = 8 * ((n + 32 + 7) div 8)"
      using unat_BYTE_8_ALIGN32[of "of_nat n + 32"] assms(3) unfolding s by simp
    then show ?thesis using assms(2) by presburger
  qed
  have "unat (of_nat (32 + n) :: u32) = 32 + n" using assms(3) by (intro unat_of_nat32) simp
  with t have eq: "?t = of_nat (32 + n)" by (intro word_unat_eq_iff[THEN iffD2]) (simp only:)
  obtain b where b: "AllocBufferByPayloadLength mem (of_nat n) GetCommLayerFrameHeaderLength new_SerialBuffer = (E_OK, b)"
    "paddingLen b = ?t - of_nat n - 32"
    using assms(1,3) t eq
    by (simp add: AllocBufferByPayloadLength_def GetCommLayerFrameHeaderLength_def new_SerialBuffer_def
        BYTE_8_ALIGN_def[of 0] INT32_MAX64_def sizeofs Let_def word_less_nat_alt word_unat_eq_iff)
  have "SetExtendHeadLength 0 new_SerialBuffer = new_SerialBuffer"
    by (simp add: SetExtendHeadLength_def new_SerialBuffer_def)
  then have a: "sb_ok b \<and> sb_owned b \<and> headerLen b = 32 \<and> payloadLen b = of_nat n \<and> extendHeadLen b = 0 \<and>
      unat (totalLen b) = 8 * ((n + 32 + 7) div 8) \<and> content b = replicate (unat (totalLen b)) 0"
    using AllocBufferByPayloadLength_ok[of mem "of_nat n" 32 0 b] b(1) n assms(3)
    by (simp add: GetCommLayerFrameHeaderLength_def sizeofs)
  moreover have "8 * ((n + 32 + 7) div 8) = 32 + n" using assms(2) by presburger
  moreover have "paddingLen b = 0" using b(2) eq by simp
  ultimately show ?thesis using b(1) n by auto
qed


lemma BuildLabelExchangeAck_content:
  assumes "mem NewSerialBuffer" "mem (NewBytes 56)"
  shows "\<exists>b. BuildLabelExchangeAck mem be d s = Ok b \<and> sb_ok b \<and> sb_owned b \<and> headerLen b = 32 \<and>
    unat (totalLen b) = 56 \<and> paddingLen b = 0 \<and> extendHeadLen b = 0 \<and> content b = replicate 32 0 @ ack_body d s"
proof -
  obtain b0 where b0: "AllocBufferByPayloadLength mem (of_nat 24) GetCommLayerFrameHeaderLength new_SerialBuffer = (E_OK, b0)"
    "sb_ok b0" "sb_owned b0" "headerLen b0 = 32" "extendHeadLen b0 = 0" "unat (totalLen b0) = 56"
    "paddingLen b0 = 0" "content b0 = replicate 56 0"
    using alloc_comm_frame[of mem 24] assms by auto
  obtain b where b: "res_bind (put_word be b0 (Some 32) 0) (\<lambda>b1. res_bind (put_word be b1 (Some (32 + 8)) d)
      (\<lambda>b2. put_word be b2 (Some (32 + 16)) s)) = Ok b"
    "content b = overwrite (replicate 56 0) 32 (net_bytes (0::u64) @ net_bytes d @ net_bytes s)"
    "sb_ok b" "sb_owned b" "same_shape b0 b"
    using put_three_words[OF b0(2,3,8), of 32 32 be 0 d s] b0 by auto
  have "overwrite (replicate 56 0) 32 (net_bytes (0::u64) @ net_bytes d @ net_bytes s) = replicate 32 0 @ ack_body d s"
    by (simp add: overwrite_def ack_body_def)
  moreover have "BuildLabelExchangeAck mem be d s = Ok b"
    using b(1) b0(1) assms(1)
    by (simp add: BuildLabelExchangeAck_def label_lens sb_header_ptr[OF b0(3)] b0 PROTOCOL_VERSION_def Let_def)
  ultimately show ?thesis using b b0 by (auto simp: same_shape_def)
qed

lemma BuildLabelExchange_content:
  assumes "mem NewSerialBuffer" "mem (NewBytes (of_nat (64 + 32 * length ls)))"
    and ls: "\<forall>l \<in> set ls. length l = COMM_LABEL_LENGTH" "64 + 32 * length ls \<le> 104857600"
  shows "\<exists>b. BuildLabelExchange mem be d s ls = Ok b \<and> sb_ok b \<and> sb_owned b \<and> headerLen b = 32 \<and>
    unat (totalLen b) = 64 + 32 * length ls \<and> paddingLen b = 0 \<and> extendHeadLen b = 0 \<and>
    content b = replicate 32 0 @ exchange_body d s ls"
proof -
  let ?n = "32 + 32 * length ls" and ?c = "of_nat (length ls) :: u64"
  let ?z = "replicate (32 + ?n) (0::byte)"
  obtain b0 where b0: "AllocBufferByPayloadLength mem (of_nat ?n) GetCommLayerFrameHeaderLength new_SerialBuffer = (E_OK, b0)"
    "sb_ok b0" "sb_owned b0" "headerLen b0 = 32" "extendHeadLen b0 = 0" "unat (totalLen b0) = 32 + ?n"
    "paddingLen b0 = 0" "content b0 = ?z"
    using alloc_comm_frame[of mem ?n] assms by (auto simp: ac_simps)
  obtain b3 where b3: "res_bind (put_word be b0 (Some 32) 0) (\<lambda>b1. res_bind (put_word be b1 (Some (32 + 8)) d)
      (\<lambda>b2. put_word be b2 (Some (32 + 16)) s)) = Ok b3"
    "content b3 = overwrite ?z 32 (net_bytes (0::u64) @ net_bytes d @ net_bytes s)"
    "sb_ok b3" "sb_owned b3" "same_shape b0 b3"
    using put_three_words[OF b0(2,3,8), of 32 32 be 0 d s] b0 by auto
  let ?w3 = "net_bytes (0::u64) @ net_bytes d @ net_bytes s"
  have t3: "unat (totalLen b3) = 32 + ?n" "extendHeadLen b3 = 0" "length ?z = unat (totalLen b3)"
    using b3(5) b0 by (auto simp: same_shape_def)
  have k3: "32 + length ?w3 + 8 \<le> unat (totalLen b3)" "56 = unat (extendHeadLen b3) + (32 + length ?w3)"
    using t3 by simp_all
  from put_word_step[OF b3(3,4,2) t3(3) k3, of be ?c] obtain b4 where b4: "put_word be b3 (Some 56) ?c = Ok b4"
    "content b4 = overwrite ?z 32 (?w3 @ net_bytes ?c)" "sb_ok b4" "sb_owned b4" "same_shape b3 b4" by simp blast
  have t4: "unat (totalLen b4) = 32 + ?n" "extendHeadLen b4 = 0" "length ?z = unat (totalLen b4)"
    using b4(5) t3 by (auto simp: same_shape_def)
  have k4: "32 + length (?w3 @ net_bytes ?c) + length (concat ls) \<le> unat (totalLen b4)"
    and p4: "unat (extendHeadLen b4) + (32 + length (?w3 @ net_bytes ?c)) = 64"
    using t4 length_concat_labels[OF ls(1)] by (simp_all add: sizeofs)
  from put_labels_content[OF b4(3,4,2) t4(3) k4] obtain b where b: "put_labels b4 (Some 64) ls = Ok b"
    "content b = overwrite ?z 32 ((?w3 @ net_bytes ?c) @ concat ls)" "sb_ok b" "sb_owned b" "same_shape b4 b"
    unfolding p4 by blast
  have "BuildLabelExchange mem be d s ls = Ok b"
  proof -
    obtain b1 b2 where "put_word be b0 (Some 32) 0 = Ok b1" "put_word be b1 (Some 40) d = Ok b2"
      "put_word be b2 (Some 48) s = Ok b3" using b3(1) by (auto simp: res_bind_eq_Ok)
    moreover have "8 + 8 + 8 + 8 + length ls * COMM_LABEL_LENGTH = ?n" by (simp add: sizeofs)
    moreover have "\<not> ?n > unat INT32_MAX" using ls(2) by simp
    ultimately show ?thesis using b4(1) b(1) assms(1)
      unfolding BuildLabelExchange_def label_lens Let_def
      by (simp only: b0(1) case_prod_conv guard_err_simps simp_thms)
         (simp add: sb_header_ptr[OF b0(3)] b0(4,5) PROTOCOL_VERSION_def)
  qed
  moreover have "content b = replicate 32 0 @ exchange_body d s ls"
    using b(2) length_concat_labels[OF ls(1)] by (simp add: overwrite_def exchange_body_def sizeofs)
  ultimately show ?thesis
    using b(3,4) same_shape_trans[OF b3(5) same_shape_trans[OF b4(5) b(5)]] b0 by (auto simp: same_shape_def)
qed

subsection \<open>Reading it back\<close>

lemma get_word_at:
  assumes "length pre = off" shows "get_word be (pre @ net_bytes w @ post) off = Ok w"
proof -
  have "take 8 (drop off (pre @ net_bytes w @ post)) = net_bytes w" using assms by simp
  then show ?thesis using assms by (simp add: get_word_def read_at_def NetToHost_load)
qed

lemma get_labels_concat:
  assumes "\<forall>l \<in> set ls. length l = COMM_LABEL_LENGTH" "length pre = off"
  shows "get_labels (pre @ concat ls @ post) off (length ls) acc = Ok (fold insort_insert ls acc)"
  using assms
proof (induction ls arbitrary: pre off acc)
  case (Cons l ls)
  have "get_labels ((pre @ l) @ concat ls @ post) (off + COMM_LABEL_LENGTH) (length ls) (insort_insert l acc)
      = Ok (fold insort_insert ls (insort_insert l acc))"
    using Cons.prems by (intro Cons.IH) auto
  moreover have "(if l \<in> set acc then acc else insort_insert l acc) = insort_insert l acc"
    by (simp add: insort_insert_triv)
  ultimately show ?case using Cons.prems by (simp add: read_at_def)
qed simp

lemma fold_insort_insert:
  "sorted xs \<Longrightarrow> distinct xs \<Longrightarrow>
   sorted (fold insort_insert ls xs) \<and> distinct (fold insort_insert ls xs) \<and> set (fold insort_insert ls xs) = set ls \<union> set xs"
  by (induction ls arbitrary: xs) (auto simp: sorted_insort_insert distinct_insort_insert set_insort_insert)

lemma fold_insort_insert_id: "sorted ls \<Longrightarrow> distinct ls \<Longrightarrow> fold insort_insert ls [] = (ls :: 'a::linorder list)"
  using fold_insort_insert[of "[]" ls] by (auto intro: sorted_distinct_set_unique)

lemma ParseLabelExchangeAck_body:
  assumes "length pre = 32" "unat len = 56"
  shows "ParseLabelExchangeAck be (pre @ ack_body d s) len r = Ok (r\<lparr>pr_distinctValue := d, pr_sequenceId := s\<rparr>)"
  using assms get_word_at[of pre 32 be 0] get_word_at[of "pre @ net_bytes (0::u64)" 40 be d "net_bytes s"]
    get_word_at[of "pre @ net_bytes (0::u64) @ net_bytes d" 48 be s "[]"]
  by (simp add: ParseLabelExchangeAck_def ack_body_def sizeofs label_lens PROTOCOL_VERSION_def)

lemma ParseLabelExchange_body:
  assumes "length pre = 32" "unat len = 64 + 32 * length ls"
    and ls: "\<forall>l \<in> set ls. length l = COMM_LABEL_LENGTH" "sorted ls" "distinct ls"
  shows "ParseLabelExchange be (pre @ exchange_body d s ls) len r =
    Ok (r\<lparr>pr_distinctValue := d, pr_sequenceId := s, pr_latestCommLabels := ls\<rparr>)"
proof -
  let ?c = "of_nat (length ls) :: u64"
  let ?b = "pre @ exchange_body d s ls"
  have lt: "length ls < 134217728" using assms(2) unat_u32_lt[of len] by simp
  then have c: "unat ?c = length ls" by (simp add: unat_of_nat take_bit_eq_mod)
  have w: "get_word be ?b 32 = Ok 0" "get_word be ?b 40 = Ok d" "get_word be ?b 48 = Ok s" "get_word be ?b 56 = Ok ?c"
    using assms(1) get_word_at[of pre 32 be 0] get_word_at[of "pre @ net_bytes (0::u64)" 40 be d]
      get_word_at[of "pre @ net_bytes (0::u64) @ net_bytes d" 48 be s]
      get_word_at[of "pre @ net_bytes (0::u64) @ net_bytes d @ net_bytes s" 56 be ?c]
    by (simp_all add: exchange_body_def)
  have "get_labels ?b 64 (length ls) [] = Ok ls"
    using get_labels_concat[OF ls(1), of "pre @ net_bytes (0::u64) @ net_bytes d @ net_bytes s @ net_bytes ?c" 64 "[]" "[]"]
      assms(1) ls by (simp add: exchange_body_def fold_insort_insert_id)
  then show ?thesis
    using assms(2) lt c w by (simp add: ParseLabelExchange_def sizeofs label_lens PROTOCOL_VERSION_def)
qed

text \<open>Sealing and parsing a frame of the communication layer with an arbitrary body.\<close>

lemma seal_then_parse:
  assumes b: "sb_ok b" "sb_owned b" "32 \<le> unat (headerLen b)" "8 dvd unat (totalLen b)"
    and ft: "hi_frameType info \<noteq> INVALID_MAX_FRAME_TYPE"
  shows "\<exists>b'. SetPhyHeader be (Some b) info = Ok b' \<and> same_shape b b' \<and> sb_ok b' \<and> sb_owned b' \<and>
    content b' = sealed be (frame_header b info) (drop 32 (content b)) \<and>
    ParseCommPhyHeader be (content b') (totalLen b') new_ParseResult =
      Ok (new_ParseResult\<lparr>pr_frameId := hi_frameId info, pr_sourceId := hi_sourceId info,
            pr_packetLen := totalLen b, pr_paddingLen := ucast (paddingLen b), pr_dbVersion := DB_GLOBAL_VERSION,
            pr_isFragment := False, pr_frameType := hi_frameType info,
            pr_sendLabelExchange := hi_sendLabelExchange info\<rparr>)"
proof -
  obtain b' where b': "SetPhyHeader be (Some b) info = Ok b'" "same_shape b b'" "sb_ok b'" "sb_owned b'"
    "content b' = sealed be (frame_header b info) (drop 32 (content b))"
    using SetPhyHeader_seals[OF b ft, of be] by blast
  have "totalLen b' = totalLen b" using b'(2) by (simp add: same_shape_def)
  then show ?thesis
    using b' parse_sealed_frame[OF b(1,3,4) ft, of new_ParseResult be] by (auto simp: new_ParseResult_def)
qed

lemma CheckAndParsePacket_comm:
  assumes "ParseCommPhyHeader be bytes len new_ParseResult = Ok r" "len \<le> MAX_TOTAL_LEN"
    and "pr_frameType r = COMMUNICATION_LABEL_EXCHANGE \<or> pr_frameType r = COMMUNICATION_LABEL_EXCHANGE_ACK"
    and "\<not> pr_isFragment r"
  shows "CheckAndParsePacket be (Some bytes) len new_ParseResult = ParseCommLayerPayload be bytes len r"
  using assms by (auto simp: CheckAndParsePacket_def guard_err_def)

lemma comm_frame_parse:
  assumes b: "sb_ok b" "sb_owned b" "headerLen b = 32" "8 dvd unat (totalLen b)" "content b = replicate 32 0 @ body"
    and t: "t = COMMUNICATION_LABEL_EXCHANGE \<or> t = COMMUNICATION_LABEL_EXCHANGE_ACK"
  shows "\<exists>b' pre r. SetPhyHeader be (Some b) \<lparr>hi_sourceId = src, hi_frameId = fid, hi_frameType = t,
        hi_sendLabelExchange = True\<rparr> = Ok b' \<and>
      length pre = 32 \<and> pr_frameType r = t \<and> pr_sourceId r = src \<and> pr_frameId r = fid \<and> \<not> pr_isFragment r \<and>
      unat (totalLen b') = length (content b') \<and> CheckAndParsePacket be (Some (content b')) (totalLen b') new_ParseResult =
        ParseCommLayerPayload be (pre @ body) (totalLen b) r"
proof -
  let ?i = "\<lparr>hi_sourceId = src, hi_frameId = fid, hi_frameType = t, hi_sendLabelExchange = True\<rparr>"
  have h: "32 \<le> unat (headerLen b)" using b(3) by simp
  obtain b' where b': "SetPhyHeader be (Some b) ?i = Ok b'" "same_shape b b'"
      "content b' = sealed be (frame_header b ?i) body" "sb_ok b'"
    and p: "ParseCommPhyHeader be (content b') (totalLen b') new_ParseResult =
        Ok (new_ParseResult\<lparr>pr_frameId := fid, pr_sourceId := src,
            pr_packetLen := totalLen b, pr_paddingLen := ucast (paddingLen b), pr_dbVersion := DB_GLOBAL_VERSION,
            pr_isFragment := False, pr_frameType := t, pr_sendLabelExchange := True\<rparr>)"
    using seal_then_parse[OF b(1,2) h b(4), of ?i be] b(5) t by auto
  have l: "totalLen b' = totalLen b" "totalLen b' \<le> MAX_TOTAL_LEN"
    using b'(2) b(1) by (simp_all add: same_shape_def sb_ok_def sb_lens_ok_def)
  obtain pre where pre: "content b' = pre @ body" "length pre = 32" using b'(3) by (simp add: sealed_def)
  show ?thesis
    using b'(1) CheckAndParsePacket_comm[OF p l(2)] t pre l(1) length_content[OF b'(4)]
    by (intro exI[of _ b'] exI[of _ pre] exI[of _ "new_ParseResult\<lparr>pr_frameId := fid, pr_sourceId := src,
            pr_packetLen := totalLen b, pr_paddingLen := ucast (paddingLen b), pr_dbVersion := DB_GLOBAL_VERSION,
            pr_isFragment := False, pr_frameType := t, pr_sendLabelExchange := True\<rparr>"]) simp
qed

lemma label_exchange_parses:
  assumes mem: "mem NewSerialBuffer" "mem (NewBytes (of_nat (64 + 32 * length ls)))"
    and ls: "\<forall>l \<in> set ls. length l = COMM_LABEL_LENGTH" "sorted ls" "distinct ls"
      "64 + 32 * length ls \<le> 104857600"
  shows "\<exists>b b' r. BuildLabelExchange mem be d s ls = Ok b \<and>
      SetPhyHeader be (Some b) \<lparr>hi_sourceId = src, hi_frameId = fid,
         hi_frameType = COMMUNICATION_LABEL_EXCHANGE, hi_sendLabelExchange = True\<rparr> = Ok b' \<and>
      CheckAndParsePacket be (Some (content b')) (totalLen b') new_ParseResult = Ok r \<and>
      pr_frameType r = COMMUNICATION_LABEL_EXCHANGE \<and> pr_sourceId r = src \<and> pr_frameId r = fid \<and>
      pr_distinctValue r = d \<and> pr_sequenceId r = s \<and> pr_latestCommLabels r = ls \<and> \<not> pr_isFragment r \<and>
      unat (totalLen b') = length (content b')"
proof -
  obtain b where b: "BuildLabelExchange mem be d s ls = Ok b" "sb_ok b" "sb_owned b" "headerLen b = 32"
    "unat (totalLen b) = 64 + 32 * length ls" "content b = replicate 32 0 @ exchange_body d s ls"
    using BuildLabelExchange_content[OF mem ls(1,4)] by blast
  have "8 dvd unat (totalLen b)" unfolding b(5) by presburger
  from comm_frame_parse[OF b(2-4) this b(6), of COMMUNICATION_LABEL_EXCHANGE be src fid] show ?thesis
    using b(1,5) ParseLabelExchange_body[OF _ b(5) ls(1-3)]
    by (fastforce simp: ParseCommLayerPayload_def)
qed

text \<open>
  A label exchange announces exactly the labels, sequence id and distinct value its sender put
  into it.  For every set of well-formed labels that fits a frame, building the exchange,
  sealing it and parsing the resulting packet returns these values, and the same holds for the
  acknowledgement.
\<close>

theorem label_exchange_roundtrip:
  assumes mem: "mem NewSerialBuffer" "mem (NewBytes (of_nat (64 + 32 * length ls)))" "mem (NewBytes 56)"
    and ls: "\<forall>l \<in> set ls. length l = COMM_LABEL_LENGTH" "sorted ls" "distinct ls"
      "64 + 32 * length ls \<le> 104857600"
  shows "(\<exists>b b' r. BuildLabelExchange mem be d s ls = Ok b \<and>
      SetPhyHeader be (Some b) \<lparr>hi_sourceId = src, hi_frameId = fid,
         hi_frameType = COMMUNICATION_LABEL_EXCHANGE, hi_sendLabelExchange = True\<rparr> = Ok b' \<and>
      CheckAndParsePacket be (Some (content b')) (totalLen b') new_ParseResult = Ok r \<and>
      pr_frameType r = COMMUNICATION_LABEL_EXCHANGE \<and> pr_sourceId r = src \<and> pr_frameId r = fid \<and>
      pr_distinctValue r = d \<and> pr_sequenceId r = s \<and> pr_latestCommLabels r = ls)
    \<and> (\<exists>b b' r. BuildLabelExchangeAck mem be d s = Ok b \<and>
      SetPhyHeader be (Some b) \<lparr>hi_sourceId = src, hi_frameId = fid,
         hi_frameType = COMMUNICATION_LABEL_EXCHANGE_ACK, hi_sendLabelExchange = True\<rparr> = Ok b' \<and>
      CheckAndParsePacket be (Some (content b')) (totalLen b') new_ParseResult = Ok r \<and>
      pr_frameType r = COMMUNICATION_LABEL_EXCHANGE_ACK \<and> pr_sourceId r = src \<and> pr_frameId r = fid \<and>
      pr_distinctValue r = d \<and> pr_sequenceId r = s)" (is "?X \<and> ?A")
proof
  show ?X using label_exchange_parses[OF mem(1,2) ls, of be d s src fid] by blast
  show ?A
  proof -
    obtain b where b: "BuildLabelExchangeAck mem be d s = Ok b" "sb_ok b" "sb_owned b" "headerLen b = 32"
      "unat (totalLen b) = 56" "content b = replicate 32 0 @ ack_body d s"
      using BuildLabelExchangeAck_content[OF mem(1,3)] by blast
    have "8 dvd unat (totalLen b)" unfolding b(5) by presburger
    from comm_frame_parse[OF b(2-4) this b(6), of COMMUNICATION_LABEL_EXCHANGE_ACK be src fid] show ?thesis
      using b(1,5) ParseLabelExchangeAck_body[OF _ b(5)]
      by (fastforce simp: ParseCommLayerPayload_def)
  qed
qed

theorem label_exchange_roundtrip_witness:
  "\<exists>b b' r. BuildLabelExchange never_oom False 7 3 [replicate 32 1, replicate 32 2] = Ok b \<and>
     SetPhyHeader False (Some b) \<lparr>hi_sourceId = 5, hi_frameId = 9,
       hi_frameType = COMMUNICATION_LABEL_EXCHANGE, hi_sendLabelExchange = True\<rparr> = Ok b' \<and>
     CheckAndParsePacket False (Some (content b')) (totalLen b') new_ParseResult = Ok r \<and>
     pr_latestCommLabels r = [replicate 32 1, replicate 32 2] \<and> pr_sequenceId r = 3"
proof -
  let ?ls = "[replicate 32 1, replicate 32 2] :: label list"
  have "replicate 32 1 \<le> (replicate 32 2 :: label)" "replicate 32 1 \<noteq> (replicate 32 2 :: label)"
    by (simp_all add: numeral_eq_Suc)
  then have "sorted ?ls" "distinct ?ls" by simp_all
  then show ?thesis
    using label_exchange_roundtrip[of never_oom ?ls False 7 3 5 9] by (force simp: sizeofs)
qed

text \<open>A packet that the receiver accepts, and one damaged word of it.\<close>

theorem corrupted_word_rejected_witness:
  "\<exists>bs len r1 w e. CheckAndParsePacket False (Some bs) len new_ParseResult = Ok r1 \<and> length bs = 56 \<and>
     length w = 8 \<and> CheckAndParsePacket False (Some (overwrite bs 40 w)) len new_ParseResult = Err e"
proof -
  obtain b where b: "sb_ok b" "sb_owned b" "headerLen b = 32" "unat (totalLen b) = 56"
    "content b = replicate 32 0 @ ack_body 1 2"
    using BuildLabelExchangeAck_content[of never_oom False 1 2] by blast
  have d: "8 dvd unat (totalLen b)" unfolding b(4) by presburger
  obtain b' pre r where p: "SetPhyHeader False (Some b) \<lparr>hi_sourceId = 5, hi_frameId = 9,
      hi_frameType = COMMUNICATION_LABEL_EXCHANGE_ACK, hi_sendLabelExchange = True\<rparr> = Ok b'"
    "length pre = 32" "pr_frameType r = COMMUNICATION_LABEL_EXCHANGE_ACK"
    "CheckAndParsePacket False (Some (content b')) (totalLen b') new_ParseResult =
       ParseCommLayerPayload False (pre @ ack_body 1 2) (totalLen b) r"
    using comm_frame_parse[OF b(1-3) d b(5), of COMMUNICATION_LABEL_EXCHANGE_ACK False 5 9] by blast
  have ok: "\<exists>r1. CheckAndParsePacket False (Some (content b')) (totalLen b') new_ParseResult = Ok r1"
    using p ParseLabelExchangeAck_body[OF p(2) b(4)] by (simp add: ParseCommLayerPayload_def)
  have h: "32 \<le> unat (headerLen b)" using b(3) by simp
  have l: "unat (totalLen b') = length (content b')" "length (content b') = 56"
    using seal_then_parse[OF b(1,2) h d, of "\<lparr>hi_sourceId = 5, hi_frameId = 9,
      hi_frameType = COMMUNICATION_LABEL_EXCHANGE_ACK, hi_sendLabelExchange = True\<rparr>" False] p(1) b(4)
      length_content[of b'] by (auto simp: same_shape_def)
  define w :: "byte list" where
    "w = (if take 8 (drop 40 (content b')) = replicate 8 0 then replicate 8 1 else replicate 8 0)"
  have w: "length w = 8" "w \<noteq> take 8 (drop (8 * 5) (content b'))" by (auto simp: w_def)
  from ok obtain r1 where r1: "CheckAndParsePacket False (Some (content b')) (totalLen b') new_ParseResult = Ok r1" ..
  have k: "8 * 5 + 8 \<le> length (content b')" using l by simp
  from corrupted_word_rejected[OF r1 l(1) k w] show ?thesis using r1 l w(1) by fastforce
qed

section \<open>The checksum across byte orders\<close>

lemma bit_HostToNet_u64:
  "bit (HostToNet False (w::u64)) i \<longleftrightarrow> i < 64 \<and> bit w (8 * (7 - i div 8) + i mod 8)"
proof (cases "i < 64")
  case True
  then have "i div 8 < 8" by simp
  then have n: "rev (le_bytes 8 w) ! (i div 8) = ucast (drop_bit (8 * (7 - i div 8)) w)"
    by (subst rev_nth) (simp_all only: length_le_bytes nth_le_bytes, simp_all add: nth_le_bytes del: le_bytes_numeral)
  show ?thesis using True
    by (simp add: HostToNet_def load_word_def store_word_def bit_le_word n bit_simps del: le_bytes_numeral)
next
  case False
  then show ?thesis using bit_imp_le_length[of "HostToNet False w" i] by auto
qed

lemma HostToNet_xor: "HostToNet False (v XOR w) = HostToNet False v XOR HostToNet False (w::u64)"
  by (rule bit_word_eqI) (simp add: bit_HostToNet_u64 bit_simps)

lemma HostToNet_zero: "HostToNet False (0::u64) = 0"
  by (rule bit_word_eqI) (simp add: bit_HostToNet_u64)

lemma load_word_swap: "length v = 8 \<Longrightarrow> (load_word (\<not> be) v :: u64) = HostToNet False (load_word be v)"
  using store_load_word[where 'a = 64, of v False] store_load_word[where 'a = 64, of "rev v" False]
  by (cases be) (simp_all add: HostToNet_def load_word_def)

lemma xor_chunks_swap:
  "8 * n \<le> length bs \<Longrightarrow> xor_chunks (\<not> be) n bs = HostToNet False (xor_chunks be n bs)"
proof (induction n arbitrary: bs)
  case (Suc n)
  then show ?case using load_word_swap[of "take 8 bs" be] by (simp add: HostToNet_xor)
qed (simp add: HostToNet_zero)

lemma ParseCommPhyHeader_sum_mismatch:
  assumes "phy_accept be bytes len" "unat len \<le> length bytes"
    and "ph_checkSum (phy_of_net bytes) \<noteq>
           xor_chunks be' (unat (len - LENGTH_BEFORE_SUM_RANGE) div 8) (drop 16 bytes)"
  shows "ParseCommPhyHeader be' bytes len r = Err E_SUM_MISMATCH"
proof -
  have s: "SIZEOF_PHY \<le> unat len" using assms(1) by (simp add: phy_accept_def Let_def)
  have h: "ConvertNetToHost_phy be' (phy_load be' (take SIZEOF_PHY bytes)) = phy_of_net bytes"
    using s assms(2) by (simp add: phy.load_to_host phy.of_net_take)
  have rd: "read_at bytes 0 SIZEOF_PHY = Ok (take SIZEOF_PHY bytes)"
    using s assms(2) by (simp add: read_at_def)
  have c: "ParseCommPhyHeaderCheckField be' (phy_of_net bytes) bytes len = Err E_SUM_MISMATCH"
    unfolding check_field[OF assms(2) s] using assms(1,3)
    by (simp add: phy_accept_def Let_def guard_err_def not_less)
  have "\<not> unat len < 4" using s by (simp add: sizeofs)
  then show ?thesis
    unfolding ParseCommPhyHeader_def check_magic[OF assms(2)] rd res_bind.simps h Let_def c
    using assms(1) s by (simp add: phy_accept_def Let_def guard_err_def not_less)
qed

text \<open>
  The sum is computed over words in the byte order of the host, but travels in network order.
  A frame sealed by a host of one endianness is rejected with \<^verbatim>\<open>E_SUM_MISMATCH\<close> by every host of
  the other one, unless its sum happens to read the same in both byte orders.
\<close>

theorem checksum_depends_on_endianness:
  assumes "sb_ok b" "sb_owned b" "32 \<le> unat (headerLen b)" "8 dvd unat (totalLen b)"
    and "hi_frameType info \<noteq> INVALID_MAX_FRAME_TYPE"
    and "SetPhyHeader be (Some b) info = Ok b'" and "c = ph_checkSum (phy_of_net (content b'))"
    and "HostToNet False c \<noteq> c"
  shows "CheckAndParsePacket (\<not> be) (Some (content b')) (totalLen b') r = Err E_SUM_MISMATCH"
proof -
  let ?n = "unat (totalLen b' - LENGTH_BEFORE_SUM_RANGE) div 8"
  obtain r' where b': "same_shape b b'" "sb_ok b'"
    and p: "ParseCommPhyHeader be (content b') (totalLen b') new_ParseResult = Ok r'"
    using seal_then_parse[OF assms(1-5), of be] assms(6) by auto
  have l: "unat (totalLen b') \<le> length (content b')" using b'(2) by (simp add: length_content)
  have a: "phy_accept be (content b') (totalLen b')" using p ParseCommPhyHeader_Ok_iff[OF l] by blast
  have t: "totalLen b' = totalLen b" using b'(1) by (simp add: same_shape_def)
  have "32 \<le> unat (totalLen b)" "totalLen b' \<le> MAX_TOTAL_LEN"
    using assms(1,3) t by (auto simp: sb_ok_def sb_lens_ok_def)
  then have "8 * ?n \<le> length (drop 16 (content b'))" using l t by (simp add: unat_len_sub16)
  moreover have "c = xor_chunks be ?n (drop 16 (content b'))" using a assms(7) by (simp add: phy_accept_def Let_def)
  ultimately have "c \<noteq> xor_chunks (\<not> be) ?n (drop 16 (content b'))" using assms(8) by (simp add: xor_chunks_swap)
  then have "ParseCommPhyHeader (\<not> be) (content b') (totalLen b') r = Err E_SUM_MISMATCH"
    using ParseCommPhyHeader_sum_mismatch[OF a l] assms(7) by simp
  then show ?thesis using \<open>totalLen b' \<le> MAX_TOTAL_LEN\<close> by (simp add: CheckAndParsePacket_def guard_err_def)
qed

theorem checksum_depends_on_endianness_witness:
  "\<exists>b b'. BuildEmptyFrameForVersionNegotiate never_oom = Ok b \<and>
     SetPhyHeader False (Some b) \<lparr>hi_sourceId = 0, hi_frameId = 1, hi_frameType = EMPTY,
       hi_sendLabelExchange = True\<rparr> = Ok b' \<and>
     CheckAndParsePacket True (Some (content b')) (totalLen b') new_ParseResult = Err E_SUM_MISMATCH"
proof -
  let ?i = "\<lparr>hi_sourceId = 0, hi_frameId = 1, hi_frameType = EMPTY, hi_sendLabelExchange = True\<rparr>"
  obtain b where b: "AllocBufferByPayloadLength never_oom (of_nat 0) GetCommLayerFrameHeaderLength new_SerialBuffer = (E_OK, b)"
    "sb_ok b" "sb_owned b" "headerLen b = 32" "unat (totalLen b) = 32" "paddingLen b = 0" "content b = replicate 32 0"
    using alloc_comm_frame[of never_oom 0] by auto
  have e: "BuildEmptyFrameForVersionNegotiate never_oom = Ok b"
    using b(1) by (simp add: BuildEmptyFrameForVersionNegotiate_def)
  have h: "32 \<le> unat (headerLen b)" "8 dvd unat (totalLen b)" using b(4,5) by simp_all
  obtain b' where b': "SetPhyHeader False (Some b) ?i = Ok b'" "content b' = sealed False (frame_header b ?i) []"
    using seal_then_parse[OF b(2,3) h, of ?i False] b(7) by auto
  have "phy_of_net (content b') = (frame_header b ?i)\<lparr>ph_checkSum := seal_sum False (frame_header b ?i) []\<rparr>"
    by (simp add: b'(2) phy_of_net_sealed)
  moreover have "seal_sum False (frame_header b ?i) [] = 0x0B00000001000000"
  proof -
    have "drop 16 (phy_net (frame_header b ?i)) = net_bytes (0::u64) @ net_bytes (1::u32) @ net_bytes (0::u8) @
        net_bytes (0::u8) @ net_bytes (11::u16)"
      by (simp add: frame_header_def phy_net_def b(6) SetSendLabelExchange_def SetFrameType_def
          PACKET_TYPE_NOT_FRAGMENTED_def DB_GLOBAL_VERSION_def SOFTWARE_VERSION_CURRENT_def SOFTWARE_VERSION_EARLIEST_def)
    also have "\<dots> = [0, 0, 0, 0, 0, 0, 0, 0, 0, 0, 0, 1, 0, 0, 0, 11]" by (simp add: net_bytes_def)
    finally have n: "drop 16 (phy_net (frame_header b ?i)) = [0, 0, 0, 0, 0, 0, 0, 0, 0, 0, 0, 1, 0, 0, 0, 11]" .
    have k: "(SIZEOF_PHY + length ([] :: byte list) - 16) div 8 = Suc (Suc 0)" by (simp add: sizeofs)
    show ?thesis unfolding seal_sum_def append_Nil2 n k by (simp add: load_word_def)
  qed
  ultimately have c: "0x0B00000001000000 = ph_checkSum (phy_of_net (content b'))" by simp
  have "HostToNet False (0x0B00000001000000::u64) \<noteq> 0x0B00000001000000"
    by (simp add: HostToNet_def load_word_def store_word_def)
  from checksum_depends_on_endianness[OF b(2,3) h _ b'(1) c this] show ?thesis using e b'(1) by auto
qed

end
