(* ===== verification/DB_Status_Adapter.thy ===== *)
theory DB_Status_Adapter
  imports Ordered_Map "HOL-Library.Sublist"
begin

text \<open>
  The database status adapter (\<^verbatim>\<open>communicator/src/db_status_adapter.cpp\<close>): what the service has told
  about the databases of the local and of the remote devices, and which devices take part in the
  optimised mode in which the service, not the label exchange, announces databases.

  The handle that the service registers (\<^verbatim>\<open>DBInfoHandle\<close>) is code of the service.  The state records
  whether one is set, and \<open>hs\<close> is what its \<^verbatim>\<open>IsSupport()\<close> answers when the adapter asks.  Each
  mutex section is one step; callbacks and asynchronous tasks are the \<open>adapter_action\<close>s and
  \<open>adapter_task\<close>s an operation returns, and a task runs later by \<open>run_adapter_task\<close>.
\<close>

section \<open>Store parameters\<close>

record DBInfo =
  di_userId :: string
  di_appId :: string
  di_storeId :: string
  di_syncDualTupleMode :: bool
  di_isNeedSync :: bool

record StoreInfo =
  si_userId :: string
  si_appId :: string
  si_storeId :: string

definition MAX_ID_LENGTH :: nat where
  "MAX_ID_LENGTH = 128"

definition ID_CONNECTOR :: char where
  "ID_CONNECTOR = CHR ''-''"

text \<open>\<^verbatim>\<open>std::isalnum\<close> in the C locale.\<close>

definition isalnum :: "char \<Rightarrow> bool" where
  "isalnum c \<longleftrightarrow> (let n = of_char c :: nat in 48 \<le> n \<and> n \<le> 57 \<or> 65 \<le> n \<and> n \<le> 90 \<or> 97 \<le> n \<and> n \<le> 122)"

definition IsStoreIdSafe :: "string \<Rightarrow> bool \<Rightarrow> bool" where
  "IsStoreIdSafe storeId allowStoreIdWithDot \<longleftrightarrow>
     storeId \<noteq> [] \<and> length storeId \<le> MAX_ID_LENGTH \<and>
     (\<forall>c \<in> set storeId. (isalnum c \<or> c = CHR ''_'') \<or> (allowStoreIdWithDot \<and> c = CHR ''.''))"

definition CheckStoreParameter :: "StoreInfo \<Rightarrow> bool \<Rightarrow> string \<Rightarrow> bool \<Rightarrow> bool" where
  "CheckStoreParameter info isIgnoreUserIdCheck subUser allowStoreIdWithDot =
     (let storeId = si_storeId info; userId = si_userId info; appId = si_appId info
      in if \<not> IsStoreIdSafe storeId allowStoreIdWithDot then False
         else if \<not> isIgnoreUserIdCheck \<and> (userId = [] \<or> length userId > MAX_ID_LENGTH) then False
         else if \<not> isIgnoreUserIdCheck \<and> ID_CONNECTOR \<in> set userId then False
         else if appId = [] \<or> length appId > MAX_ID_LENGTH then False
         else if length subUser > MAX_ID_LENGTH then False
         else if ID_CONNECTOR \<in> set appId \<or> ID_CONNECTOR \<in> set storeId \<or> ID_CONNECTOR \<in> set subUser then False
         else True)"

text \<open>The label of a database; the hash function is a parameter.\<close>

definition GenerateHashLabel :: "(string \<Rightarrow> label) \<Rightarrow> DBInfo \<Rightarrow> label" where
  "GenerateHashLabel TransferHashString dbInfo =
     (if di_syncDualTupleMode dbInfo
      then TransferHashString (di_appId dbInfo @ ''-'' @ di_storeId dbInfo)
      else TransferHashString (di_userId dbInfo @ ''-'' @ di_appId dbInfo @ ''-'' @ di_storeId dbInfo))"

section \<open>State\<close>

record status_adapter =
  sa_hasHandle :: bool
  sa_remoteCallback :: bool
  sa_localCallback :: bool
  sa_supportCallback :: bool
  localDBInfos :: "DBInfo list"
  remoteDBInfos :: "(target, DBInfo list) omap"
  localSendLabelExchange :: bool
  cacheLocalSendLabelExchange :: bool
  remoteOptimizeInfo :: "(target, bool) omap"

definition new_DBStatusAdapter :: status_adapter where
  "new_DBStatusAdapter = \<lparr>sa_hasHandle = False, sa_remoteCallback = False, sa_localCallback = False,
     sa_supportCallback = False, localDBInfos = [], remoteDBInfos = [], localSendLabelExchange = False,
     cacheLocalSendLabelExchange = False, remoteOptimizeInfo = []\<rparr>"

datatype adapter_action =
    RemoteDBChange target "DBInfo list"
  | LocalDBChange
  | RemoteSupportChange target
  | RemoveRemoteSubscribe target

datatype adapter_task =
    NotifyTask target "DBInfo list"
  | TriggerTask bool "(target, DBInfo list) omap"
  | SupportTask target

section \<open>Operations\<close>

definition Adapter_IsSendLabelExchange :: "bool \<Rightarrow> status_adapter \<Rightarrow> bool \<times> status_adapter" where
  "Adapter_IsSendLabelExchange hs s =
     (if \<not> sa_hasHandle s then (True, s)
      else if cacheLocalSendLabelExchange s then (localSendLabelExchange s, s)
      else (\<not> hs, s\<lparr>localSendLabelExchange := \<not> hs, cacheLocalSendLabelExchange := True\<rparr>))"

definition Adapter_IsSupport :: "bool \<Rightarrow> target \<Rightarrow> status_adapter \<Rightarrow> bool \<times> status_adapter" where
  "Adapter_IsSupport hs devInfo s =
     (if \<not> sa_hasHandle s then (False, s)
      else let (b, s1) = Adapter_IsSendLabelExchange hs s
           in if b then (False, s1)
              else case om_find (remoteOptimizeInfo s1) devInfo of
                     Some v \<Rightarrow> (v, s1)
                   | None \<Rightarrow> (True, s1\<lparr>remoteOptimizeInfo := om_insert devInfo True (remoteOptimizeInfo s1)\<rparr>))"

text \<open>The out parameter is the vector of the caller, which the infos are appended to.\<close>

definition GetLocalDBInfos :: "bool \<Rightarrow> DBInfo list \<Rightarrow> status_adapter \<Rightarrow> errcode \<times> DBInfo list \<times> status_adapter" where
  "GetLocalDBInfos hs dbInfos s =
     (if \<not> sa_hasHandle s then (E_NOT_SUPPORT, dbInfos, s)
      else let (b, s1) = Adapter_IsSendLabelExchange hs s
           in if b then (E_NOT_SUPPORT, dbInfos, s1)
              else (E_OK, dbInfos @ filter di_isNeedSync (localDBInfos s1), s1))"

definition same_db :: "DBInfo \<Rightarrow> DBInfo \<Rightarrow> bool" where
  "same_db srcInfo dstInfo \<longleftrightarrow> di_appId srcInfo = di_appId dstInfo \<and> di_userId srcInfo = di_userId dstInfo \<and>
     di_storeId srcInfo = di_storeId dstInfo \<and> di_syncDualTupleMode srcInfo = di_syncDualTupleMode dstInfo"

text \<open>The first entry for the same database, which \<^verbatim>\<open>std::find_if\<close> returns, is updated in place.\<close>

fun merge_one :: "DBInfo \<Rightarrow> DBInfo list \<Rightarrow> bool \<times> DBInfo list" where
  "merge_one src [] = (True, [src])"
| "merge_one src (d # ds) =
     (if same_db src d
      then (if di_isNeedSync d \<noteq> di_isNeedSync src then (True, d\<lparr>di_isNeedSync := di_isNeedSync src\<rparr> # ds)
            else (False, d # ds))
      else let (c, ds') = merge_one src ds in (c, d # ds'))"

text \<open>
  The store parameters are passed in the order store, app, user into a \<^verbatim>\<open>StoreInfo\<close>, whose fields are
  user, app, store.
\<close>

definition mergeable :: "DBInfo \<Rightarrow> bool" where
  "mergeable src = CheckStoreParameter
     \<lparr>si_userId = di_storeId src, si_appId = di_appId src, si_storeId = di_userId src\<rparr> False '''' True"

fun MergeDBInfos :: "DBInfo list \<Rightarrow> DBInfo list \<Rightarrow> bool \<times> DBInfo list" where
  "MergeDBInfos [] dst = (False, dst)"
| "MergeDBInfos (src # srcs) dst =
     (if \<not> mergeable src then MergeDBInfos srcs dst
      else let (c, dst1) = merge_one src dst; (c', dst2) = MergeDBInfos srcs dst1
           in (c \<or> c', dst2))"

definition LoadIntoCache :: "bool \<Rightarrow> target \<Rightarrow> DBInfo list \<Rightarrow> status_adapter \<Rightarrow> bool \<times> status_adapter" where
  "LoadIntoCache isLocal dev dbInfos s =
     (if isLocal
      then let (c, ds) = MergeDBInfos dbInfos (localDBInfos s) in (c, s\<lparr>localDBInfos := ds\<rparr>)
      else let (c, ds) = MergeDBInfos dbInfos (om_get [] (remoteDBInfos s) dev)
           in (c, s\<lparr>remoteDBInfos := om_insert dev ds (remoteDBInfos s)\<rparr>))"

definition ClearAllCache :: "status_adapter \<Rightarrow> status_adapter" where
  "ClearAllCache s = s\<lparr>localDBInfos := [], remoteDBInfos := [], remoteOptimizeInfo := [],
     cacheLocalSendLabelExchange := False, localSendLabelExchange := False\<rparr>"

text \<open>Only devices with a database to be taken offline get an entry, hence a call.\<close>

definition NotifyRemoteOffline :: "status_adapter \<Rightarrow> adapter_action list" where
  "NotifyRemoteOffline s =
     (let offline = map (\<lambda>(dev, infos). (dev, map (\<lambda>i. i\<lparr>di_isNeedSync := False\<rparr>) (filter di_isNeedSync infos)))
                      (filter (\<lambda>(dev, infos). filter di_isNeedSync infos \<noteq> []) (remoteDBInfos s))
      in if \<not> sa_remoteCallback s \<or> offline = [] then []
         else map (\<lambda>(dev, infos). RemoteDBChange dev infos) offline)"

definition SetDBInfoHandle :: "bool \<Rightarrow> status_adapter \<Rightarrow> adapter_action list \<times> status_adapter" where
  "SetDBInfoHandle nonNull s =
     (let s1 = s\<lparr>sa_hasHandle := nonNull\<rparr> in (NotifyRemoteOffline s1, ClearAllCache s1))"

text \<open>\<open>sched\<close> tells whether the thread pool takes the task.\<close>

definition SetDBStatusChangeCallback ::
  "bool \<Rightarrow> bool \<Rightarrow> bool \<Rightarrow> bool \<Rightarrow> status_adapter \<Rightarrow> adapter_task list \<times> status_adapter" where
  "SetDBStatusChangeCallback sched remote local supportCallback s =
     (let s1 = s\<lparr>sa_remoteCallback := remote, sa_localCallback := local, sa_supportCallback := supportCallback\<rparr>
      in if \<not> remote \<or> \<not> local then ([], s1)
         else let triggerLocal = localDBInfos s1 \<noteq> []; triggerNow = (remoteDBInfos s1 \<noteq> [] \<or> triggerLocal)
              in if \<not> triggerNow then ([], s1)
                 else (if sched then [TriggerTask triggerLocal (remoteDBInfos s1)] else [], s1))"

definition NotifyDBInfos :: "bool \<Rightarrow> target \<Rightarrow> DBInfo list \<Rightarrow> adapter_task list" where
  "NotifyDBInfos sched dev dbInfos = (if sched then [NotifyTask dev dbInfos] else [])"

definition Adapter_TargetOffline :: "target \<Rightarrow> status_adapter \<Rightarrow> adapter_action list \<times> status_adapter" where
  "Adapter_TargetOffline device s =
     (if \<not> sa_hasHandle s then ([], s)
      else ([RemoveRemoteSubscribe device], s\<lparr>remoteOptimizeInfo := om_erase device (remoteOptimizeInfo s)\<rparr>))"

text \<open>\<open>answer\<close> is what \<^verbatim>\<open>IsNeedAutoSync\<close> of the handle answers for the database and the device.\<close>

definition IsNeedAutoSync :: "bool \<Rightarrow> bool \<Rightarrow> status_adapter \<Rightarrow> bool \<times> status_adapter" where
  "IsNeedAutoSync hs answer s =
     (if \<not> sa_hasHandle s then (True, s)
      else let (b, s1) = Adapter_IsSendLabelExchange hs s in if b then (True, s1) else (answer, s1))"

definition SetRemoteOptimizeCommunication ::
  "bool \<Rightarrow> target \<Rightarrow> bool \<Rightarrow> status_adapter \<Rightarrow> adapter_task list \<times> status_adapter" where
  "SetRemoteOptimizeCommunication sched dev optimize s =
     (if \<not> sa_hasHandle s then ([], s)
      else let s1 = s\<lparr>remoteOptimizeInfo := om_insert dev optimize (remoteOptimizeInfo s)\<rparr>
           in case om_find (remoteOptimizeInfo s) dev of
                None \<Rightarrow> ([], s1)
              | Some v \<Rightarrow>
                  if v = optimize then ([], s)
                  else if \<not> v then ([], s1)
                  else (if sched then [SupportTask dev] else [], s1))"

text \<open>\<open>localId\<close> is the identity the aggregator reports, if it reports one.\<close>

definition IsLocalDeviceId :: "target option \<Rightarrow> target \<Rightarrow> bool" where
  "IsLocalDeviceId localId deviceId \<longleftrightarrow> localId = Some deviceId"

text \<open>The body of the task that \<^verbatim>\<open>NotifyDBInfos\<close> schedules.\<close>

definition notify_body ::
  "bool \<Rightarrow> target option \<Rightarrow> target \<Rightarrow> DBInfo list \<Rightarrow> status_adapter \<Rightarrow> adapter_action list \<times> status_adapter" where
  "notify_body hs localId dev dbInfos s =
     (let (b, s1) = Adapter_IsSendLabelExchange hs s
      in if b then ([], s1)
         else let isLocal = IsLocalDeviceId localId dev;
                  (sup, s2) = (if isLocal then (True, s1) else Adapter_IsSupport hs dev s1)
              in if \<not> isLocal \<and> \<not> sup then ([], s2)
                 else let (isChange, s3) = LoadIntoCache isLocal dev dbInfos s2
                      in (if \<not> isLocal \<and> sa_remoteCallback s3 then [RemoteDBChange dev dbInfos]
                          else if isLocal \<and> sa_localCallback s3 \<and> isChange then [LocalDBChange] else [], s3))"

fun run_adapter_task :: "bool \<Rightarrow> target option \<Rightarrow> adapter_task \<Rightarrow> status_adapter \<Rightarrow> adapter_action list \<times> status_adapter" where
  "run_adapter_task hs localId (NotifyTask dev infos) s = notify_body hs localId dev infos s"
| "run_adapter_task hs localId (TriggerTask triggerLocal remotes) s =
     (map (\<lambda>(dev, infos). RemoteDBChange dev infos) remotes @ (if triggerLocal then [LocalDBChange] else []), s)"
| "run_adapter_task hs localId (SupportTask dev) s = (if sa_supportCallback s then [RemoteSupportChange dev] else [], s)"

section \<open>Merging refines the update of a map\<close>

text \<open>
  A vector of infos stands for a finite map from databases to whether they need synchronisation.
\<close>

definition db_key :: "DBInfo \<Rightarrow> string \<times> string \<times> string \<times> bool" where
  "db_key d = (di_userId d, di_appId d, di_storeId d, di_syncDualTupleMode d)"

definition need_entry :: "DBInfo \<Rightarrow> (string \<times> string \<times> string \<times> bool) \<times> bool" where
  "need_entry d = (db_key d, di_isNeedSync d)"

definition need_map :: "DBInfo list \<Rightarrow> (string \<times> string \<times> string \<times> bool) \<Rightarrow> bool option" where
  "need_map ds = map_of (map need_entry ds)"

lemma same_db_key: "same_db a b \<longleftrightarrow> db_key a = db_key b"
  by (auto simp: same_db_def db_key_def)

lemma db_key_update [simp]: "db_key (d\<lparr>di_isNeedSync := b\<rparr>) = db_key d"
  by (simp add: db_key_def)

lemma need_map_Cons [simp]: "need_map (d # ds) = (need_map ds)(db_key d \<mapsto> di_isNeedSync d)"
  by (simp add: need_map_def need_entry_def)

lemma need_map_Nil [simp]: "need_map [] = Map.empty"
  by (simp add: need_map_def)

lemma merge_one_keys:
  "map db_key (snd (merge_one src ds)) = map db_key ds @ (if db_key src \<in> db_key ` set ds then [] else [db_key src])"
  by (induction ds) (auto simp: same_db_key case_prod_unfold Let_def)

lemma merge_one_map: "need_map (snd (merge_one src ds)) = (need_map ds)(db_key src \<mapsto> di_isNeedSync src)"
  by (induction ds) (auto simp: same_db_key case_prod_unfold Let_def fun_upd_twist)

lemma merge_one_same: "\<not> fst (merge_one src ds) \<Longrightarrow> snd (merge_one src ds) = ds"
  by (induction ds) (auto simp: case_prod_unfold Let_def split: if_splits)

lemma merge_one_mem: "x \<in> set (snd (merge_one src ds)) \<Longrightarrow> x = src \<or> (\<exists>d \<in> set ds. db_key x = db_key d)"
  by (induction ds) (auto simp: case_prod_unfold Let_def split: if_splits)

lemma Merge_Cons:
  "snd (MergeDBInfos (src # srcs) dst) = snd (MergeDBInfos srcs (if mergeable src then snd (merge_one src dst) else dst))"
  "fst (MergeDBInfos (src # srcs) dst) \<longleftrightarrow> mergeable src \<and> fst (merge_one src dst) \<or>
     fst (MergeDBInfos srcs (if mergeable src then snd (merge_one src dst) else dst))"
  by (simp_all add: case_prod_unfold Let_def)

declare MergeDBInfos.simps(2) [simp del]

lemma Merge_prefix: "prefix (map db_key dst) (map db_key (snd (MergeDBInfos srcs dst)))"
proof (induction srcs arbitrary: dst)
  case (Cons src srcs)
  have "prefix (map db_key dst) (map db_key (if mergeable src then snd (merge_one src dst) else dst))"
    by (simp add: merge_one_keys prefix_def)
  then show ?case unfolding Merge_Cons using Cons.IH prefix_order.trans by blast
qed simp

lemma Merge_distinct: "distinct (map db_key dst) \<Longrightarrow> distinct (map db_key (snd (MergeDBInfos srcs dst)))"
proof (induction srcs arbitrary: dst)
  case (Cons src srcs)
  have "distinct (map db_key (if mergeable src then snd (merge_one src dst) else dst))"
    using Cons.prems by (simp add: merge_one_keys del: distinct_map)
  then show ?case unfolding Merge_Cons by (rule Cons.IH)
qed simp

lemma Merge_map:
  "need_map (snd (MergeDBInfos srcs dst)) = need_map dst ++ map_of (rev (map need_entry (filter mergeable srcs)))"
proof (induction srcs arbitrary: dst)
  case (Cons src srcs)
  show ?case unfolding Merge_Cons Cons.IH by (simp add: merge_one_map need_entry_def[of src])
qed simp

lemma Merge_same: "\<not> fst (MergeDBInfos srcs dst) \<Longrightarrow> snd (MergeDBInfos srcs dst) = dst"
proof (induction srcs arbitrary: dst)
  case (Cons src srcs)
  then show ?case unfolding Merge_Cons using merge_one_same[of src dst] by (auto split: if_splits)
qed simp

text \<open>Whether an info is accepted depends only on the database it names.\<close>

lemma mergeable_key: "db_key a = db_key b \<Longrightarrow> mergeable a = mergeable b"
  by (simp add: mergeable_def db_key_def)

lemma Merge_mergeable:
  "\<forall>d \<in> set dst. mergeable d \<Longrightarrow> \<forall>d \<in> set (snd (MergeDBInfos srcs dst)). mergeable d"
proof (induction srcs arbitrary: dst)
  case (Cons src srcs)
  have "\<forall>d \<in> set (if mergeable src then snd (merge_one src dst) else dst). mergeable d"
    using Cons.prems merge_one_mem[of _ src dst] by (auto dest: mergeable_key)
  then show ?case unfolding Merge_Cons by (rule Cons.IH)
qed simp

text \<open>
  Merging announced infos into the cache is the update of a map from databases to their status:
  for every database named by an accepted info the last one announced counts, all other databases keep
  their status, known databases keep their position and no database is listed twice.  When no change is
  reported the cache is as before.
\<close>

theorem merge_refines_map:
  assumes "distinct (map db_key dst)" "MergeDBInfos srcs dst = (changed, dst')"
  shows "need_map dst' = need_map dst ++ map_of (rev (map need_entry (filter mergeable srcs))) \<and>
    distinct (map db_key dst') \<and> prefix (map db_key dst) (map db_key dst') \<and> (\<not> changed \<longrightarrow> dst' = dst)"
proof -
  have "dst' = snd (MergeDBInfos srcs dst)" "changed = fst (MergeDBInfos srcs dst)" using assms(2) by simp_all
  then show ?thesis using Merge_map[of srcs dst] Merge_prefix[of dst srcs] Merge_distinct[of dst srcs] assms(1) Merge_same[of srcs dst] by blast
qed

section \<open>Reachable states\<close>

text \<open>The operations that leave the handle alone, and the states reached with any operation.\<close>

inductive adapter_step :: "status_adapter \<Rightarrow> status_adapter \<Rightarrow> bool" where
  callbacks: "adapter_step s (snd (SetDBStatusChangeCallback sched r l c s))"
| send_label: "adapter_step s (snd (Adapter_IsSendLabelExchange hs s))"
| support: "adapter_step s (snd (Adapter_IsSupport hs dev s))"
| local_infos: "adapter_step s (snd (snd (GetLocalDBInfos hs ds s)))"
| auto_sync: "adapter_step s (snd (IsNeedAutoSync hs a s))"
| offline: "adapter_step s (snd (Adapter_TargetOffline dev s))"
| optimize: "adapter_step s (snd (SetRemoteOptimizeCommunication sched dev b s))"
| task: "adapter_step s (snd (run_adapter_task hs localId t s))"

inductive adapter_reach :: "status_adapter \<Rightarrow> bool" where
  adapter_init: "adapter_reach new_DBStatusAdapter"
| adapter_handle: "adapter_reach s \<Longrightarrow> adapter_reach (snd (SetDBInfoHandle b s))"
| adapter_steps: "adapter_reach s \<Longrightarrow> adapter_step s s' \<Longrightarrow> adapter_reach s'"

definition cache_ok :: "DBInfo list \<Rightarrow> bool" where
  "cache_ok ds \<longleftrightarrow> distinct (map db_key ds) \<and> (\<forall>d \<in> set ds. mergeable d)"

text \<open>
  Without a handle nothing is cached; with the local device exchanging labels, nothing is learnt about
  the databases of any device.
\<close>

definition adapter_ok :: "status_adapter \<Rightarrow> bool" where
  "adapter_ok s \<longleftrightarrow>
     om_ok (remoteDBInfos s) \<and> om_ok (remoteOptimizeInfo s) \<and>
     cache_ok (localDBInfos s) \<and> (\<forall>e \<in> set (remoteDBInfos s). cache_ok (snd e)) \<and>
     (\<not> sa_hasHandle s \<longrightarrow> \<not> cacheLocalSendLabelExchange s \<and> remoteOptimizeInfo s = []) \<and>
     (\<not> (cacheLocalSendLabelExchange s \<and> \<not> localSendLabelExchange s) \<longrightarrow> localDBInfos s = [] \<and> remoteDBInfos s = [])"

lemma cache_ok_Merge: "cache_ok dst \<Longrightarrow> cache_ok (snd (MergeDBInfos srcs dst))"
  using Merge_distinct[of dst srcs] Merge_mergeable[of dst srcs] by (simp add: cache_ok_def)

lemma cache_ok_Nil [simp]: "cache_ok []"
  by (simp add: cache_ok_def)

lemma SendLabel_fields:
  "remoteDBInfos (snd (Adapter_IsSendLabelExchange hs s)) = remoteDBInfos s"
  "localDBInfos (snd (Adapter_IsSendLabelExchange hs s)) = localDBInfos s"
  "remoteOptimizeInfo (snd (Adapter_IsSendLabelExchange hs s)) = remoteOptimizeInfo s"
  "sa_hasHandle (snd (Adapter_IsSendLabelExchange hs s)) = sa_hasHandle s"
  by (simp_all add: Adapter_IsSendLabelExchange_def)

lemma SendLabel_ok [simp]: "adapter_ok s \<Longrightarrow> adapter_ok (snd (Adapter_IsSendLabelExchange hs s))"
  by (auto simp: adapter_ok_def Adapter_IsSendLabelExchange_def)

lemma SendLabel_off:
  "\<not> fst (Adapter_IsSendLabelExchange hs s) \<Longrightarrow>
   sa_hasHandle s \<and> cacheLocalSendLabelExchange (snd (Adapter_IsSendLabelExchange hs s)) \<and>
   \<not> localSendLabelExchange (snd (Adapter_IsSendLabelExchange hs s))"
  by (auto simp: Adapter_IsSendLabelExchange_def split: if_splits)

lemma adapter_ok_optimize:
  "adapter_ok s \<Longrightarrow> sa_hasHandle s \<Longrightarrow> om_ok m \<Longrightarrow> adapter_ok (s\<lparr>remoteOptimizeInfo := m\<rparr>)"
  by (simp add: adapter_ok_def)

lemma IsSupport_ok [simp]: "adapter_ok s \<Longrightarrow> adapter_ok (snd (Adapter_IsSupport hs dev s))"
proof -
  assume "adapter_ok s"
  then have ok: "adapter_ok (snd (Adapter_IsSendLabelExchange hs s))" by simp
  then have m: "om_ok (om_insert dev True (remoteOptimizeInfo (snd (Adapter_IsSendLabelExchange hs s))))"
    by (simp add: adapter_ok_def)
  show ?thesis using \<open>adapter_ok s\<close> ok adapter_ok_optimize[OF ok _ m]
    by (simp add: Adapter_IsSupport_def case_prod_unfold Let_def SendLabel_fields split: option.split)
qed

lemma IsSupport_keeps:
  "cacheLocalSendLabelExchange s \<Longrightarrow> cacheLocalSendLabelExchange (snd (Adapter_IsSupport hs dev s)) \<and>
     localSendLabelExchange (snd (Adapter_IsSupport hs dev s)) = localSendLabelExchange s"
  by (auto simp: Adapter_IsSupport_def Adapter_IsSendLabelExchange_def split: option.splits)

lemma LoadIntoCache_ok:
  assumes "adapter_ok s" "cacheLocalSendLabelExchange s" "\<not> localSendLabelExchange s"
  shows "adapter_ok (snd (LoadIntoCache isLocal dev infos s))"
proof -
  have g: "cache_ok (om_get [] (remoteDBInfos s) dev)"
    using assms(1) by (auto simp: om_get_def adapter_ok_def split: option.splits dest!: om_find_Some_mem)
  have "\<forall>e \<in> set (om_insert dev (snd (MergeDBInfos infos (om_get [] (remoteDBInfos s) dev))) (remoteDBInfos s)).
      cache_ok (snd e)"
    using cache_ok_Merge[OF g] assms(1) set_om_insert_sub by (fastforce simp: adapter_ok_def)
  then show ?thesis using assms cache_ok_Merge[of "localDBInfos s"]
    by (auto simp: LoadIntoCache_def adapter_ok_def case_prod_unfold Let_def)
qed

lemma notify_body_ok: "adapter_ok s \<Longrightarrow> adapter_ok (snd (notify_body hs localId dev infos s))"
proof -
  assume ok: "adapter_ok s"
  let ?s1 = "snd (Adapter_IsSendLabelExchange hs s)"
  have ok1: "adapter_ok ?s1" using ok by simp
  note off = SendLabel_off[of hs s]
  have "adapter_ok (snd (LoadIntoCache l dev infos ?s1))" if "\<not> fst (Adapter_IsSendLabelExchange hs s)" for l
    using LoadIntoCache_ok[OF ok1] off that by blast
  moreover have "adapter_ok (snd (LoadIntoCache l dev infos (snd (Adapter_IsSupport hs dev ?s1))))"
    if "\<not> fst (Adapter_IsSendLabelExchange hs s)" for l
    using LoadIntoCache_ok[OF IsSupport_ok[OF ok1]] IsSupport_keeps[of ?s1 hs dev] off that by blast
  moreover have "adapter_ok (snd (Adapter_IsSupport hs dev ?s1))" using ok1 by simp
  ultimately show ?thesis using ok1
    by (simp add: notify_body_def case_prod_unfold Let_def del: IsSupport_ok SendLabel_ok)
qed

lemma adapter_step_ok: "adapter_step s s' \<Longrightarrow> adapter_ok s \<Longrightarrow> adapter_ok s'"
proof (induction rule: adapter_step.induct)
  case (optimize s sched dev b)
  then have m: "om_ok (om_insert dev b (remoteOptimizeInfo s))" by (simp add: adapter_ok_def)
  then show ?case using adapter_ok_optimize[OF optimize _ m] optimize
    by (cases b) (simp_all add: SetRemoteOptimizeCommunication_def Let_def split: option.split)
next
  case (task s hs localId t)
  then show ?case by (cases t) (simp_all add: notify_body_ok)
next
  case (callbacks s sched r l c)
  then show ?case by (simp add: SetDBStatusChangeCallback_def Let_def adapter_ok_def)
next
  case (local_infos s hs ds)
  then show ?case by (simp add: GetLocalDBInfos_def case_prod_unfold Let_def)
next
  case (auto_sync s hs a)
  then show ?case by (simp add: IsNeedAutoSync_def case_prod_unfold Let_def)
next
  case (offline s dev)
  then have "om_ok (om_erase dev (remoteOptimizeInfo s))" by (simp add: adapter_ok_def)
  then show ?case using adapter_ok_optimize[OF offline] offline by (simp add: Adapter_TargetOffline_def)
qed simp_all

lemma adapter_reach_ok: "adapter_reach s \<Longrightarrow> adapter_ok s"
proof (induction rule: adapter_reach.induct)
  case adapter_init
  show ?case by (simp add: new_DBStatusAdapter_def adapter_ok_def)
next
  case (adapter_handle s b)
  show ?case by (simp add: SetDBInfoHandle_def ClearAllCache_def Let_def adapter_ok_def)
qed (rule adapter_step_ok)

text \<open>
  In every reachable state of the adapter no database is cached twice for a device; without a
  handle of the service nothing is cached at all; and as long as the local device announces its
  databases by label exchange, no database of any device is cached.
\<close>

theorem adapter_reachable_ok:
  assumes "adapter_reach s"
  shows "distinct (map db_key (localDBInfos s)) \<and> distinct (map db_key (om_get [] (remoteDBInfos s) dev)) \<and>
    (\<not> sa_hasHandle s \<longrightarrow> localDBInfos s = [] \<and> remoteDBInfos s = [] \<and> remoteOptimizeInfo s = []) \<and>
    (fst (Adapter_IsSendLabelExchange hs s) \<longrightarrow> localDBInfos s = [] \<and> remoteDBInfos s = [])"
proof -
  have ok: "adapter_ok s" using assms by (rule adapter_reach_ok)
  then have "distinct (map db_key (om_get [] (remoteDBInfos s) dev))"
    by (auto simp: om_get_def adapter_ok_def cache_ok_def split: option.split dest!: om_find_Some_mem)
  then show ?thesis using ok by (auto simp: adapter_ok_def cache_ok_def Adapter_IsSendLabelExchange_def)
qed

section \<open>The mode is decided once per handle\<close>

definition mode_fixed :: "bool \<Rightarrow> status_adapter \<Rightarrow> bool" where
  "mode_fixed b s \<longleftrightarrow> sa_hasHandle s \<and> cacheLocalSendLabelExchange s \<and> localSendLabelExchange s = b"

lemma mode_fixed_query [simp]: "mode_fixed b s \<Longrightarrow> Adapter_IsSendLabelExchange hs s = (b, s)"
  by (simp add: mode_fixed_def Adapter_IsSendLabelExchange_def)

lemma mode_fixed_optimize [simp]: "mode_fixed b (s\<lparr>remoteOptimizeInfo := m\<rparr>) = mode_fixed b s"
  by (simp add: mode_fixed_def)

lemma mode_fixed_support: "mode_fixed b s \<Longrightarrow> mode_fixed b (snd (Adapter_IsSupport hs dev s))"
  by (cases b) (simp_all add: Adapter_IsSupport_def split: option.split)

lemma mode_fixed_load: "mode_fixed b s \<Longrightarrow> mode_fixed b (snd (LoadIntoCache l dev infos s))"
  by (simp add: LoadIntoCache_def mode_fixed_def case_prod_unfold Let_def)

lemma mode_fixed_step: "adapter_step s s' \<Longrightarrow> mode_fixed b s \<Longrightarrow> mode_fixed b s'"
proof (induction rule: adapter_step.induct)
  case (task s hs localId t)
  then show ?case
    by (cases t; cases b) (simp_all add: notify_body_def case_prod_unfold Let_def mode_fixed_support mode_fixed_load)
next
  case (callbacks s sched r l c)
  then show ?case by (simp add: SetDBStatusChangeCallback_def Let_def mode_fixed_def)
qed (auto simp: mode_fixed_support GetLocalDBInfos_def IsNeedAutoSync_def Adapter_TargetOffline_def
    SetRemoteOptimizeCommunication_def Let_def split: option.split)

lemma mode_fixed_steps: "adapter_step\<^sup>*\<^sup>* s s' \<Longrightarrow> mode_fixed b s \<Longrightarrow> mode_fixed b s'"
  by (induction rule: rtranclp_induct) (auto intro: mode_fixed_step)

text \<open>
  Whether the local device exchanges labels is decided by the first answer of the handle: until the
  handle is replaced, whatever the adapter does and whatever the handle would answer later, the
  decision stays the same.
\<close>

theorem label_exchange_mode_sticky:
  assumes "sa_hasHandle s" "Adapter_IsSendLabelExchange hs s = (b, s1)" "adapter_step\<^sup>*\<^sup>* s1 s2"
  shows "Adapter_IsSendLabelExchange hs' s2 = (b, s2)"
proof -
  have "mode_fixed b s1" using assms(1,2) by (auto simp: Adapter_IsSendLabelExchange_def mode_fixed_def split: if_splits)
  then show ?thesis using mode_fixed_steps[OF assms(3)] by simp
qed

text \<open>
  The user and store identifiers are checked under each other's rules when infos are merged: an
  announced database whose user identifier is legal as such is dropped when it would not be a legal
  store identifier, and one whose store identifier is illegal is cached.
\<close>

theorem merge_checks_swapped_ids:
  "\<exists>d e. CheckStoreParameter \<lparr>si_userId = di_userId d, si_appId = di_appId d, si_storeId = di_storeId d\<rparr> False [] True \<and>
     MergeDBInfos [d] [] = (False, []) \<and>
     \<not> CheckStoreParameter \<lparr>si_userId = di_userId e, si_appId = di_appId e, si_storeId = di_storeId e\<rparr> False [] True \<and>
     MergeDBInfos [e] [] = (True, [e])"
proof (intro exI conjI)
  let ?d = "\<lparr>di_userId = ''u@1'', di_appId = ''a'', di_storeId = ''s'', di_syncDualTupleMode = False, di_isNeedSync = True\<rparr>"
  let ?e = "\<lparr>di_userId = ''u'', di_appId = ''a'', di_storeId = ''s/s'', di_syncDualTupleMode = False, di_isNeedSync = True\<rparr>"
  show "CheckStoreParameter \<lparr>si_userId = di_userId ?d, si_appId = di_appId ?d, si_storeId = di_storeId ?d\<rparr> False [] True"
    by code_simp
  show "MergeDBInfos [?d] [] = (False, [])" by code_simp
  show "\<not> CheckStoreParameter \<lparr>si_userId = di_userId ?e, si_appId = di_appId ?e, si_storeId = di_storeId ?e\<rparr> False [] True"
    by code_simp
  show "MergeDBInfos [?e] [] = (True, [?e])" by code_simp
qed

section \<open>Witnesses\<close>

definition sample_info :: "bool \<Rightarrow> DBInfo" where
  "sample_info b = \<lparr>di_userId = ''u'', di_appId = ''a'', di_storeId = ''s'', di_syncDualTupleMode = False, di_isNeedSync = b\<rparr>"

theorem merge_refines_map_witness:
  "need_map [sample_info False] = need_map [sample_info True] ++ map_of (rev (map need_entry (filter mergeable [sample_info False])))"
proof -
  have d: "distinct (map db_key [sample_info True])" by simp
  have m: "MergeDBInfos [sample_info False] [sample_info True] = (True, [sample_info False])" by code_simp
  show ?thesis using merge_refines_map[OF d m] by blast
qed

definition sample_adapter :: status_adapter where
  "sample_adapter = snd (run_adapter_task True (Some ''me'') (NotifyTask ''dev'' [sample_info True])
     (snd (SetDBInfoHandle True new_DBStatusAdapter)))"

lemma sample_adapter_reach: "adapter_reach sample_adapter"
  unfolding sample_adapter_def
  by (rule adapter_steps[OF adapter_handle[OF adapter_init] adapter_step.task])

theorem adapter_reachable_ok_witness:
  "adapter_reach sample_adapter \<and> om_get [] (remoteDBInfos sample_adapter) ''dev'' = [sample_info True] \<and>
   distinct (map db_key (om_get [] (remoteDBInfos sample_adapter) ''dev''))"
proof -
  have "om_get [] (remoteDBInfos sample_adapter) ''dev'' = [sample_info True]" by code_simp
  then show ?thesis using adapter_reachable_ok[OF sample_adapter_reach, of "''dev''" True] sample_adapter_reach by blast
qed

theorem label_exchange_mode_sticky_witness:
  "Adapter_IsSendLabelExchange False (snd (Adapter_TargetOffline ''dev'' sample_adapter)) =
     (False, snd (Adapter_TargetOffline ''dev'' sample_adapter))"
proof -
  have h: "sa_hasHandle sample_adapter" by code_simp
  have q: "Adapter_IsSendLabelExchange True sample_adapter = (False, sample_adapter)" by code_simp
  show ?thesis by (rule label_exchange_mode_sticky[OF h q]) (blast intro: adapter_step.offline)
qed

end
