(* ===== verification/Communicator_Linker.thy ===== *)
theory Communicator_Linker
  imports Send_Task_Scheduler Protocol_Parse DB_Status_Adapter
begin

text \<open>
  The communicator linker (\<^verbatim>\<open>communicator/src/communicator_linker.cpp\<close>): it tells every online device
  which labels (databases) are open here, repeats the announcement until it is acknowledged, and
  keeps which labels are open on every other device.

  The linker calls \<^verbatim>\<open>ScheduleSendTask\<close> of the aggregator that owns it; here this is the parameter
  \<open>send\<close>, which acts on the status adapter (shared with the aggregator) and on the rest \<open>'a\<close> of the
  aggregator's state.  Timers and tasks the linker has started are part of its state and run by
  \<open>fire_timer\<close> and \<open>run_link_task\<close>, in any order; \<open>lk_refs\<close> is the reference count of the object.
\<close>

section \<open>Types\<close>

record TaskConfig =
  tc_nonBlock :: bool
  tc_isRetryTask :: bool
  tc_timeout :: u32
  tc_prio :: Priority
  tc_infos :: AccessInfos

text \<open>
  The sender takes the target, the buffer, the frame type and the configuration.  It returns the error code
  and the buffer object as it left it, which the caller owns again if the code is not \<open>E_OK\<close>.
\<close>

type_synonym 'a sender =
  "target \<Rightarrow> serial_buffer \<Rightarrow> FrameType \<Rightarrow> TaskConfig \<Rightarrow> status_adapter option \<times> 'a \<Rightarrow>
   (errcode \<times> serial_buffer \<times> status_adapter option \<times> 'a) res"

text \<open>
  What the linker takes from its surroundings: memory, byte order, the answer of the service's handle,
  the label hash, and whether the thread pool takes a task.
\<close>

record link_env =
  le_mem :: allocator
  le_be :: bool
  le_hs :: bool
  le_hash :: "string \<Rightarrow> label"
  le_pool :: bool

datatype link_timer =
    ExchangeTimer target serial_buffer u64 u32 u32
  | AckTimer target serial_buffer u64 u64 u32

record linker =
  localDistinctValue :: u64
  incSequenceId :: u64
  incAckTriggerId :: u64
  targetDistinctValue :: "(target, u64) omap"
  topRecvLabelSeq :: "(target, u64) omap"
  waitAckSeq :: "(target, u64) omap"
  recvAckSeq :: "(target, u64) omap"
  ackTriggerId :: "(target, u64) omap"
  localOnlineLabels :: "label list"
  remoteOnlineTarget :: "target list"
  targetMapOnlineLabels :: "(target, label list) omap"
  lk_timers :: "link_timer list"
  lk_tasks :: "target list"
  lk_refs :: nat

type_synonym 'a link_state = "linker \<times> status_adapter option \<times> 'a"

definition TIME_LAPSE_FOR_WAITING_ACK :: u32 where
  "TIME_LAPSE_FOR_WAITING_ACK = 5000"

definition TIME_LAPSE_FOR_RETRY_SEND :: u32 where
  "TIME_LAPSE_FOR_RETRY_SEND = 1000"

definition RETRANSMIT_LIMIT :: u32 where
  "RETRANSMIT_LIMIT = 20"

definition RETRANSMIT_LIMIT_EQUAL_INTERVAL :: u32 where
  "RETRANSMIT_LIMIT_EQUAL_INTERVAL = 5"

text \<open>The hash of \<^verbatim>\<open>common/src/hash.cpp\<close>; \<^verbatim>\<open>char\<close> is signed where the sources are built.\<close>

definition char_u64 :: "char \<Rightarrow> u64" where
  "char_u64 c = scast (of_char c :: 8 word)"

definition HashFunc :: "string \<Rightarrow> u64" where
  "HashFunc input = fold (\<lambda>c hash. hash * 33 + char_u64 c) input 0"

definition new_CommunicatorLinker :: linker where
  "new_CommunicatorLinker = \<lparr>localDistinctValue = 0, incSequenceId = 0, incAckTriggerId = 0,
     targetDistinctValue = [], topRecvLabelSeq = [], waitAckSeq = [], recvAckSeq = [], ackTriggerId = [],
     localOnlineLabels = [], remoteOnlineTarget = [], targetMapOnlineLabels = [],
     lk_timers = [], lk_tasks = [], lk_refs = 1\<rparr>"

text \<open>\<open>curTimeStr\<close> is the decimal form of the system time in microseconds.\<close>

definition Linker_Initialize :: "string \<Rightarrow> linker \<Rightarrow> linker" where
  "Linker_Initialize curTimeStr lk = lk\<lparr>localDistinctValue := HashFunc curTimeStr\<rparr>"

section \<open>Helpers\<close>

text \<open>Reading through \<^verbatim>\<open>operator[]\<close> leaves an entry behind.\<close>

definition om_touch :: "'v \<Rightarrow> 'k::linorder \<Rightarrow> ('k, 'v) omap \<Rightarrow> ('k, 'v) omap" where
  "om_touch d k m = (if om_count m k then m else om_insert k d m)"

definition link_config :: TaskConfig where
  "link_config = \<lparr>tc_nonBlock = True, tc_isRetryTask = True, tc_timeout = 0, tc_prio = HIGH,
     tc_infos = \<lparr>ai_appId = [], ai_storeId = [], ai_userId = [], ai_subUserId = []\<rparr>\<rparr>"

definition adapter_IsSupport :: "bool \<Rightarrow> target \<Rightarrow> status_adapter option \<Rightarrow> bool \<times> status_adapter option" where
  "adapter_IsSupport hs t sa =
     (case sa of None \<Rightarrow> (False, None) | Some s \<Rightarrow> let (b, s') = Adapter_IsSupport hs t s in (b, Some s'))"

definition SuspendByOnceTimer :: "link_timer \<Rightarrow> linker \<Rightarrow> linker" where
  "SuspendByOnceTimer tm lk = lk\<lparr>lk_timers := lk_timers lk @ [tm]\<rparr>"

definition IncObjRef :: "linker \<Rightarrow> linker" where
  "IncObjRef lk = lk\<lparr>lk_refs := Suc (lk_refs lk)\<rparr>"

definition DecObjRef :: "linker \<Rightarrow> linker" where
  "DecObjRef lk = lk\<lparr>lk_refs := lk_refs lk - 1\<rparr>"

section \<open>Sending label exchanges\<close>

definition GetDynamicTimeLapseForWaitingAck :: "u32 \<Rightarrow> u32" where
  "GetDynamicTimeLapseForWaitingAck inRetransmitCount =
     (if inRetransmitCount \<le> RETRANSMIT_LIMIT_EQUAL_INTERVAL then TIME_LAPSE_FOR_WAITING_ACK
      else let subsequentRetransmit = inRetransmitCount - RETRANSMIT_LIMIT_EQUAL_INTERVAL
           in subsequentRetransmit * subsequentRetransmit * TIME_LAPSE_FOR_WAITING_ACK)"

definition exchange_needless :: "target \<Rightarrow> u64 \<Rightarrow> u32 \<Rightarrow> linker \<Rightarrow> bool" where
  "exchange_needless toTarget inSequenceId inRetransmitCount lk \<longleftrightarrow>
     inRetransmitCount > RETRANSMIT_LIMIT \<or> toTarget \<notin> set (remoteOnlineTarget lk) \<or>
     om_get 0 (waitAckSeq lk) toTarget > inSequenceId \<or>
     (case om_find (recvAckSeq lk) toTarget of None \<Rightarrow> False | Some r \<Rightarrow> r \<ge> inSequenceId)"

definition SendLabelExchange ::
  "link_env \<Rightarrow> 'a sender \<Rightarrow> target \<Rightarrow> serial_buffer \<Rightarrow> u64 \<Rightarrow> u32 \<Rightarrow> 'a link_state \<Rightarrow> 'a link_state res" where
  "SendLabelExchange env send toTarget inBuff inSequenceId inRetransmitCount = (\<lambda>(lk0, sa, a).
     let lk = lk0\<lparr>waitAckSeq := om_touch 0 toTarget (waitAckSeq lk0)\<rparr>;
         cloneBuffer = Clone (le_mem env) inBuff
     in if exchange_needless toTarget inSequenceId inRetransmitCount lk then Ok (DecObjRef lk, sa, a)
        else if cloneBuffer = Fault then Fault
        else res_bind (send toTarget inBuff COMMUNICATION_LABEL_EXCHANGE link_config (sa, a))
               (\<lambda>(errCode, buff, sa', a').
                  if errCode = E_OK
                  then (case cloneBuffer of
                          Ok clone \<Rightarrow>
                            Ok (SuspendByOnceTimer (ExchangeTimer toTarget clone inSequenceId (inRetransmitCount + 1)
                                  (GetDynamicTimeLapseForWaitingAck inRetransmitCount)) lk, sa', a')
                        | _ \<Rightarrow> Ok (lk, sa', a'))
                  else Ok (SuspendByOnceTimer (ExchangeTimer toTarget buff inSequenceId inRetransmitCount
                             TIME_LAPSE_FOR_RETRY_SEND) lk, sa', a')))"

text \<open>
  \<^verbatim>\<open>TriggerLabelExchangeEvent\<close> in the three sections between which other threads may run: it applies for a
  sequence number, takes a snapshot of the labels and builds the frame, and registers the exchange and
  sends it.
\<close>

definition trigger_number :: "link_env \<Rightarrow> target \<Rightarrow> linker \<times> status_adapter option \<Rightarrow> u64 option \<times> linker \<times> status_adapter option" where
  "trigger_number env toTarget = (\<lambda>(lk, sa).
     let (sup, sa1) = adapter_IsSupport (le_hs env) toTarget sa
     in if sup then (None, lk, sa1)
        else (Some (incSequenceId lk), lk\<lparr>incSequenceId := incSequenceId lk + 1\<rparr>, sa1))"

definition snapshot_labels :: "link_env \<Rightarrow> linker \<times> status_adapter option \<Rightarrow> label list \<times> status_adapter option" where
  "snapshot_labels env = (\<lambda>(lk, sa).
     case sa of
       None \<Rightarrow> (localOnlineLabels lk, None)
     | Some s \<Rightarrow>
         let (errCode, dbInfos, s') = GetLocalDBInfos (le_hs env) [] s
         in if errCode = E_OK
            then (fold (\<lambda>i. insort_insert (GenerateHashLabel (le_hash env) i)) dbInfos [], Some s')
            else (localOnlineLabels lk, Some s'))"

definition trigger_build ::
  "link_env \<Rightarrow> u64 \<Rightarrow> linker \<times> status_adapter option \<Rightarrow> serial_buffer res \<times> status_adapter option" where
  "trigger_build env seqId = (\<lambda>(lk, sa).
     let (labels, sa1) = snapshot_labels env (lk, sa)
     in (BuildLabelExchange (le_mem env) (le_be env) (localDistinctValue lk) seqId labels, sa1))"

definition trigger_commit ::
  "link_env \<Rightarrow> 'a sender \<Rightarrow> target \<Rightarrow> u64 \<Rightarrow> serial_buffer \<Rightarrow> 'a link_state \<Rightarrow> 'a link_state res" where
  "trigger_commit env send toTarget seqId buffer = (\<lambda>(lk, sa, a).
     if (case om_find (waitAckSeq lk) toTarget of None \<Rightarrow> False | Some w \<Rightarrow> w > seqId) then Ok (lk, sa, a)
     else SendLabelExchange env send toTarget buffer seqId 0
            (IncObjRef (lk\<lparr>waitAckSeq := om_insert toTarget seqId (waitAckSeq lk)\<rparr>), sa, a))"

definition TriggerLabelExchangeEvent_to ::
  "link_env \<Rightarrow> 'a sender \<Rightarrow> target \<Rightarrow> 'a link_state \<Rightarrow> (errcode \<times> 'a link_state) res" where
  "TriggerLabelExchangeEvent_to env send toTarget = (\<lambda>(lk, sa, a).
     case trigger_number env toTarget (lk, sa) of
       (None, lk1, sa1) \<Rightarrow> Ok (E_OK, lk1, sa1, a)
     | (Some seqId, lk1, sa1) \<Rightarrow>
         (case trigger_build env seqId (lk1, sa1) of
            (Fault, sa2) \<Rightarrow> Fault
          | (Err e, sa2) \<Rightarrow> Ok (e, lk1, sa2, a)
          | (Ok buffer, sa2) \<Rightarrow>
              res_bind (trigger_commit env send toTarget seqId buffer (lk1, sa2, a)) (\<lambda>st. Ok (E_OK, st))))"

fun trigger_targets ::
  "link_env \<Rightarrow> 'a sender \<Rightarrow> target list \<Rightarrow> bool \<Rightarrow> 'a link_state \<Rightarrow> (bool \<times> 'a link_state) res" where
  "trigger_targets env send [] everFail st = Ok (everFail, st)"
| "trigger_targets env send (t # ts) everFail st =
     res_bind (TriggerLabelExchangeEvent_to env send t st)
       (\<lambda>(errCode, st1). trigger_targets env send ts (everFail \<or> errCode \<noteq> E_OK) st1)"

definition TriggerLabelExchangeEvent ::
  "link_env \<Rightarrow> 'a sender \<Rightarrow> bool \<Rightarrow> 'a link_state \<Rightarrow> (bool \<times> 'a link_state) res" where
  "TriggerLabelExchangeEvent env send checkAdapter = (\<lambda>(lk, sa, a).
     let (exchanges, sa1) =
           (if checkAdapter
            then case sa of None \<Rightarrow> (True, None)
                 | Some s \<Rightarrow> let (b, s') = Adapter_IsSendLabelExchange (le_hs env) s in (b, Some s')
            else (True, sa))
     in if \<not> exchanges then Ok (False, lk, sa1, a)
        else trigger_targets env send (remoteOnlineTarget lk) False (lk, sa1, a))"

section \<open>Acknowledging\<close>

definition ack_needless :: "target \<Rightarrow> u64 \<Rightarrow> u64 \<Rightarrow> linker \<Rightarrow> bool" where
  "ack_needless toTarget inSequenceId inAckTriggerId lk \<longleftrightarrow>
     (case om_find (topRecvLabelSeq lk) toTarget of None \<Rightarrow> False | Some s \<Rightarrow> s > inSequenceId) \<or>
     om_get 0 (ackTriggerId lk) toTarget > inAckTriggerId"

definition SendLabelExchangeAck ::
  "'a sender \<Rightarrow> target \<Rightarrow> serial_buffer \<Rightarrow> u64 \<Rightarrow> u64 \<Rightarrow> 'a link_state \<Rightarrow> 'a link_state res" where
  "SendLabelExchangeAck send toTarget inBuff inSequenceId inAckTriggerId = (\<lambda>(lk0, sa, a).
      let lk = lk0\<lparr>ackTriggerId := om_touch 0 toTarget (ackTriggerId lk0)\<rparr>
      in if ack_needless toTarget inSequenceId inAckTriggerId lk then Ok (DecObjRef lk, sa, a)
         else res_bind (send toTarget inBuff COMMUNICATION_LABEL_EXCHANGE_ACK link_config (sa, a))
                (\<lambda>(errCode, buff, sa', a').
                   if errCode = E_OK then Ok (DecObjRef lk, sa', a')
                   else Ok (SuspendByOnceTimer (AckTimer toTarget buff inSequenceId inAckTriggerId
                              TIME_LAPSE_FOR_RETRY_SEND) lk, sa', a')))"

definition TriggerLabelExchangeAckEvent ::
  "link_env \<Rightarrow> 'a sender \<Rightarrow> target \<Rightarrow> u64 \<Rightarrow> 'a link_state \<Rightarrow> (errcode \<times> 'a link_state) res" where
  "TriggerLabelExchangeAckEvent env send toTarget inSequenceId = (\<lambda>(lk, sa, a).
     case BuildLabelExchangeAck (le_mem env) (le_be env) (localDistinctValue lk) inSequenceId of
       Fault \<Rightarrow> Fault
     | Err e \<Rightarrow> Ok (e, lk, sa, a)
     | Ok buffer \<Rightarrow>
         let ackId = incAckTriggerId lk;
             lk1 = lk\<lparr>incAckTriggerId := ackId + 1, ackTriggerId := om_insert toTarget ackId (ackTriggerId lk)\<rparr>
         in res_bind (SendLabelExchangeAck send toTarget buffer inSequenceId ackId (IncObjRef lk1, sa, a))
              (\<lambda>st. Ok (E_OK, st)))"

section \<open>Handlers\<close>

definition TargetOnline ::
  "link_env \<Rightarrow> 'a sender \<Rightarrow> target \<Rightarrow> 'a link_state \<Rightarrow> (errcode \<times> label list \<times> 'a link_state) res" where
  "TargetOnline env send inTarget = (\<lambda>(lk, sa, a).
     let (outRelatedLabels, lk1) =
           (if inTarget \<notin> set (remoteOnlineTarget lk)
            then (om_get [] (targetMapOnlineLabels lk) inTarget,
                  lk\<lparr>targetMapOnlineLabels := om_touch [] inTarget (targetMapOnlineLabels lk),
                     remoteOnlineTarget := insort_insert inTarget (remoteOnlineTarget lk)\<rparr>)
            else ([], lk))
     in res_bind (TriggerLabelExchangeEvent_to env send inTarget (lk1, sa, a))
          (\<lambda>(errCode, st). Ok (errCode, outRelatedLabels, st)))"

definition Linker_TargetOffline ::
  "link_env \<Rightarrow> target \<Rightarrow> linker \<times> status_adapter option \<Rightarrow>
   label list \<times> adapter_action list \<times> linker \<times> status_adapter option" where
  "Linker_TargetOffline env inTarget = (\<lambda>(lk, sa).
     let (acts, sa1) =
           (case sa of None \<Rightarrow> ([], None) | Some s \<Rightarrow> let (as, s') = Adapter_TargetOffline inTarget s in (as, Some s'));
         outRelatedLabels = om_get [] (targetMapOnlineLabels lk) inTarget;
         lk1 = lk\<lparr>targetMapOnlineLabels := om_touch [] inTarget (targetMapOnlineLabels lk),
                  remoteOnlineTarget := removeAll inTarget (remoteOnlineTarget lk),
                  targetDistinctValue := om_erase inTarget (targetDistinctValue lk),
                  topRecvLabelSeq := om_erase inTarget (topRecvLabelSeq lk)\<rparr>;
         (sup, sa2) = adapter_IsSupport (le_hs env) inTarget sa1;
         lk2 = (if sup then lk1\<lparr>targetMapOnlineLabels := om_erase inTarget (targetMapOnlineLabels lk1)\<rparr> else lk1)
     in (outRelatedLabels, acts, lk2, sa2))"

text \<open>The targets to report are inserted into the caller's set \<open>out\<close>.\<close>

definition IncreaseLocalLabel ::
  "link_env \<Rightarrow> 'a sender \<Rightarrow> label \<Rightarrow> 'a link_state \<Rightarrow> (errcode \<times> target list \<times> 'a link_state) res" where
  "IncreaseLocalLabel env send inLabel = (\<lambda>(lk, sa, a).
     let lk1 = lk\<lparr>localOnlineLabels := insort_insert inLabel (localOnlineLabels lk)\<rparr>;
         outOnlineTarget = fold (\<lambda>(t, ls) out.
             if t \<notin> set (remoteOnlineTarget lk1) then out
             else if inLabel \<in> set ls then insort_insert t out else out) (targetMapOnlineLabels lk1) []
     in res_bind (TriggerLabelExchangeEvent env send True (lk1, sa, a))
          (\<lambda>(everFail, st). Ok (if everFail then E_INTERNAL_ERROR else E_OK, outOnlineTarget, st)))"

definition DecreaseLocalLabel ::
  "link_env \<Rightarrow> 'a sender \<Rightarrow> label \<Rightarrow> 'a link_state \<Rightarrow> (errcode \<times> 'a link_state) res" where
  "DecreaseLocalLabel env send inLabel = (\<lambda>(lk, sa, a).
     res_bind (TriggerLabelExchangeEvent env send True
                 (lk\<lparr>localOnlineLabels := removeAll inLabel (localOnlineLabels lk)\<rparr>, sa, a))
       (\<lambda>(everFail, st). Ok (if everFail then E_INTERNAL_ERROR else E_OK, st)))"

definition DetectDistinctValueChange :: "link_env \<Rightarrow> target \<Rightarrow> u64 \<Rightarrow> linker \<Rightarrow> linker" where
  "DetectDistinctValueChange env inTarget inDistinctValue lk =
     (case om_find (targetDistinctValue lk) inTarget of
        None \<Rightarrow> lk\<lparr>targetDistinctValue := om_insert inTarget inDistinctValue (targetDistinctValue lk)\<rparr>
      | Some v \<Rightarrow>
          if v = inDistinctValue then lk
          else let lk1 = lk\<lparr>targetDistinctValue := om_insert inTarget inDistinctValue (targetDistinctValue lk),
                            topRecvLabelSeq := om_erase inTarget (topRecvLabelSeq lk)\<rparr>
               in if le_pool env then (IncObjRef lk1)\<lparr>lk_tasks := lk_tasks lk1 @ [inTarget]\<rparr> else lk1)"

text \<open>The changes are entered into the caller's map \<open>outChangeLabels\<close>.\<close>

definition change_labels :: "label list \<Rightarrow> label list \<Rightarrow> (label, bool) omap \<Rightarrow> (label, bool) omap" where
  "change_labels latest known out =
     fold (\<lambda>l. om_insert l False) (filter (\<lambda>l. l \<notin> set latest) known)
       (fold (\<lambda>l. om_insert l True) (filter (\<lambda>l. l \<notin> set known) latest) out)"

definition ReceiveLabelExchange ::
  "link_env \<Rightarrow> 'a sender \<Rightarrow> target \<Rightarrow> label list \<Rightarrow> u64 \<Rightarrow> u64 \<Rightarrow> (label, bool) omap \<Rightarrow> 'a link_state \<Rightarrow>
   (errcode \<times> (label, bool) omap \<times> 'a link_state) res" where
  "ReceiveLabelExchange env send inTarget inLatestLabels inDistinctValue inSequenceId outChangeLabels = (\<lambda>(lk0, sa, a).
     let lk = DetectDistinctValueChange env inTarget inDistinctValue lk0
     in if (case om_find (topRecvLabelSeq lk) inTarget of None \<Rightarrow> False | Some newest \<Rightarrow> inSequenceId < newest)
        then Ok (E_OUT_OF_DATE, outChangeLabels, lk, sa, a)
        else let known = om_get [] (targetMapOnlineLabels lk) inTarget;
                 out = change_labels inLatestLabels known outChangeLabels;
                 lk1 = lk\<lparr>topRecvLabelSeq := om_insert inTarget inSequenceId (topRecvLabelSeq lk),
                          targetMapOnlineLabels := om_insert inTarget inLatestLabels (targetMapOnlineLabels lk)\<rparr>
             in res_bind (TriggerLabelExchangeAckEvent env send inTarget inSequenceId (lk1, sa, a))
                  (\<lambda>(errCode, st). Ok (E_OK, out, st)))"

definition ReceiveLabelExchangeAck :: "link_env \<Rightarrow> target \<Rightarrow> u64 \<Rightarrow> u64 \<Rightarrow> linker \<Rightarrow> errcode \<times> linker" where
  "ReceiveLabelExchangeAck env inTarget inDistinctValue inSequenceId lk0 =
     (let lk = DetectDistinctValueChange env inTarget inDistinctValue lk0
      in case om_find (waitAckSeq lk) inTarget of
           None \<Rightarrow> (E_NOT_FOUND, lk)
         | Some w \<Rightarrow>
             if w < inSequenceId then (E_NOT_FOUND, lk)
             else case om_find (recvAckSeq lk) inTarget of
                    None \<Rightarrow> (E_OK, lk\<lparr>recvAckSeq := om_insert inTarget inSequenceId (recvAckSeq lk)\<rparr>)
                  | Some r \<Rightarrow>
                      if inSequenceId \<le> r then (E_OUT_OF_DATE, lk)
                      else (E_OK, lk\<lparr>recvAckSeq := om_insert inTarget inSequenceId (recvAckSeq lk)\<rparr>))"

definition GetOnlineRemoteTarget :: "linker \<Rightarrow> target list" where
  "GetOnlineRemoteTarget lk = remoteOnlineTarget lk"

definition IsRemoteTargetOnline :: "linker \<Rightarrow> target \<Rightarrow> bool" where
  "IsRemoteTargetOnline lk inTarget \<longleftrightarrow> inTarget \<in> set (remoteOnlineTarget lk)"

definition UpdateOnlineLabels :: "target \<Rightarrow> (label, bool) omap \<Rightarrow> linker \<Rightarrow> linker" where
  "UpdateOnlineLabels device labels lk =
     lk\<lparr>targetMapOnlineLabels := fold (\<lambda>(label, isOnline) m.
          om_insert device ((if isOnline then insort_insert label else removeAll label) (om_get [] m device)) m)
        labels (targetMapOnlineLabels lk)\<rparr>"

definition Linker_ClearOnlineLabel :: "linker \<Rightarrow> linker" where
  "Linker_ClearOnlineLabel lk = lk\<lparr>targetMapOnlineLabels := []\<rparr>"

section \<open>Timers and tasks\<close>

definition drop_nth :: "nat \<Rightarrow> 'b list \<Rightarrow> 'b list" where
  "drop_nth i xs = take i xs @ drop (Suc i) xs"

definition fire_timer :: "link_env \<Rightarrow> 'a sender \<Rightarrow> nat \<Rightarrow> 'a link_state \<Rightarrow> 'a link_state res" where
  "fire_timer env send i = (\<lambda>(lk, sa, a).
     let lk1 = lk\<lparr>lk_timers := drop_nth i (lk_timers lk)\<rparr>
     in case lk_timers lk ! i of
          ExchangeTimer t b s n d \<Rightarrow> SendLabelExchange env send t b s n (lk1, sa, a)
        | AckTimer t b s k d \<Rightarrow> SendLabelExchangeAck send t b s k (lk1, sa, a))"

definition run_link_task :: "link_env \<Rightarrow> 'a sender \<Rightarrow> nat \<Rightarrow> 'a link_state \<Rightarrow> 'a link_state res" where
  "run_link_task env send i = (\<lambda>(lk, sa, a).
     res_bind (TriggerLabelExchangeEvent_to env send (lk_tasks lk ! i) (lk\<lparr>lk_tasks := drop_nth i (lk_tasks lk)\<rparr>, sa, a))
       (\<lambda>(errCode, lk1, sa1, a1). Ok (DecObjRef lk1, sa1, a1)))"

section \<open>Buffers of the linker\<close>

text \<open>A computation that returns, with a result that satisfies \<open>P\<close>.\<close>

definition returns :: "('a \<Rightarrow> bool) \<Rightarrow> 'a res \<Rightarrow> bool" where
  "returns P m \<longleftrightarrow> (\<exists>x. m = Ok x \<and> P x)"

lemma returns_Ok [simp]: "returns P (Ok x) \<longleftrightarrow> P x"
  by (simp add: returns_def)

lemma returns_bind: "returns Q m \<Longrightarrow> (\<And>x. Q x \<Longrightarrow> returns P (f x)) \<Longrightarrow> returns P (res_bind m f)"
  by (auto simp: returns_def)

lemma returns_mono: "returns Q m \<Longrightarrow> (\<And>x. Q x \<Longrightarrow> P x) \<Longrightarrow> returns P m"
  by (auto simp: returns_def)

text \<open>Frames of the communication layer: owned, with the 32 byte header and no extension.\<close>

definition comm_buf :: "serial_buffer \<Rightarrow> bool" where
  "comm_buf b \<longleftrightarrow> sb_ok b \<and> sb_owned b \<and> headerLen b = 32 \<and> extendHeadLen b = 0 \<and> 8 dvd unat (totalLen b) \<and>
     32 \<le> unat (totalLen b)"

lemma comm_buf_Clone: "comm_buf b \<Longrightarrow> Clone mem b = Ok c \<Longrightarrow> comm_buf c"
  using Clone_shape[of b mem c] length_content[of b]
  by (auto simp: comm_buf_def sb_defs)

lemma comm_buf_Clone_safe: "comm_buf b \<Longrightarrow> Clone mem b \<noteq> Fault"
  by (auto simp: comm_buf_def sb_defs Clone_def bytes_mem_def res_bind_eq_Fault read_at_def split: option.splits)

lemma comm_total:
  assumes "n \<le> 2147483647" "n mod 8 = 0"
  shows "unat (BYTE_8_ALIGN (of_nat n + 32 :: u32)) = 32 + n"
proof -
  have n: "unat (of_nat n :: u32) = n" using assms(1) by (intro unat_of_nat32) simp
  have s: "unat (of_nat n + 32 :: u32) = n + 32" using assms(1) by (subst unat_add32) (auto simp: n)
  have "unat (BYTE_8_ALIGN (of_nat n + 32 :: u32)) = 8 * ((n + 32 + 7) div 8)"
    using unat_BYTE_8_ALIGN32[of "of_nat n + 32"] assms(1) unfolding s by simp
  then show ?thesis using assms(2) by presburger
qed

lemma alloc_comm_ok:
  assumes "AllocBufferByPayloadLength mem (of_nat n) GetCommLayerFrameHeaderLength new_SerialBuffer = (E_OK, b)"
    and "n \<le> 2147483647" "n mod 8 = 0"
  shows "mem (NewBytes (of_nat (32 + n)))" "32 + n \<le> 104857600"
proof -
  let ?t = "BYTE_8_ALIGN (of_nat n + 32 :: u32)"
  have t: "unat ?t = 32 + n" by (rule comm_total[OF assms(2,3)])
  then have "?t = of_nat (32 + n)" using unat_of_nat32[of "32 + n"] assms(2) by (simp add: word_unat_eq_iff)
  moreover have "mem (NewBytes ?t)" "?t \<le> MAX_TOTAL_LEN"
    using assms(1) by (auto simp: AllocBufferByPayloadLength_def new_SerialBuffer_def Let_def
        GetCommLayerFrameHeaderLength_def sizeofs split: if_splits)
  ultimately show "mem (NewBytes (of_nat (32 + n)))" "32 + n \<le> 104857600"
    using t by (simp_all add: word_le_nat_alt MAX_TOTAL_LEN_unat)
qed

definition wf_labels :: "label list \<Rightarrow> bool" where
  "wf_labels ls \<longleftrightarrow> (\<forall>l \<in> set ls. length l = COMM_LABEL_LENGTH) \<and> sorted ls \<and> distinct ls"

lemma BuildLabelExchange_cases:
  assumes "wf_labels ls"
  shows "(\<exists>b. BuildLabelExchange mem be d s ls = Ok b \<and> comm_buf b \<and> content b = replicate 32 0 @ exchange_body d s ls) \<or>
    (\<exists>e. BuildLabelExchange mem be d s ls = Err e \<and> e \<noteq> E_OK)"
proof -
  let ?n = "32 + 32 * length ls"
  obtain code b0 where al: "AllocBufferByPayloadLength mem (of_nat ?n) GetCommLayerFrameHeaderLength new_SerialBuffer = (code, b0)"
    by fastforce
  have pl: "LABEL_VER_LEN + DISTINCT_VALUE_LEN + SEQUENCE_ID_LEN + COMM_LABEL_COUNT_LEN + length ls * COMM_LABEL_LENGTH = ?n"
    by (simp add: LABEL_VER_LEN_def DISTINCT_VALUE_LEN_def SEQUENCE_ID_LEN_def COMM_LABEL_COUNT_LEN_def COMM_LABEL_LENGTH_def)
  show ?thesis
  proof (cases "?n > unat INT32_MAX \<or> \<not> mem NewSerialBuffer \<or> code \<noteq> E_OK")
    case True
    then show ?thesis using al unfolding BuildLabelExchange_def pl Let_def by (auto simp: guard_err_def)
  next
    case False
    then have n: "?n \<le> 2147483647" by (simp add: INT32_MAX_unat)
    have "mem (NewBytes (of_nat (32 + ?n)))" "32 + ?n \<le> 104857600"
      using alloc_comm_ok[of mem ?n b0] al False n by auto
    then obtain b where "BuildLabelExchange mem be d s ls = Ok b \<and> sb_ok b \<and> sb_owned b \<and> headerLen b = 32 \<and>
        unat (totalLen b) = 64 + 32 * length ls \<and> paddingLen b = 0 \<and> extendHeadLen b = 0 \<and>
        content b = replicate 32 0 @ exchange_body d s ls"
      using BuildLabelExchange_content[of mem ls be d s] False assms by (auto simp: wf_labels_def)
    moreover have "8 dvd 64 + 32 * length ls" by presburger
    ultimately show ?thesis by (auto simp: comm_buf_def)
  qed
qed

lemma BuildLabelExchangeAck_cases:
  "(\<exists>b. BuildLabelExchangeAck mem be d s = Ok b \<and> comm_buf b) \<or> (\<exists>e. BuildLabelExchangeAck mem be d s = Err e \<and> e \<noteq> E_OK)"
proof -
  obtain code b0 where al: "AllocBufferByPayloadLength mem (of_nat 24) GetCommLayerFrameHeaderLength new_SerialBuffer = (code, b0)"
    by fastforce
  have pl: "LABEL_VER_LEN + DISTINCT_VALUE_LEN + SEQUENCE_ID_LEN = 24"
    by (simp add: LABEL_VER_LEN_def DISTINCT_VALUE_LEN_def SEQUENCE_ID_LEN_def)
  show ?thesis
  proof (cases "\<not> mem NewSerialBuffer \<or> code \<noteq> E_OK")
    case True
    then show ?thesis using al unfolding BuildLabelExchangeAck_def pl Let_def by (auto simp: guard_err_def)
  next
    case False
    then have "mem (NewBytes 56)" using alloc_comm_ok(1)[of mem 24 b0] al by simp
    then show ?thesis using BuildLabelExchangeAck_content[of mem be d s] False by (fastforce simp: comm_buf_def)
  qed
qed

section \<open>The invariant\<close>

fun timer_ok :: "linker \<Rightarrow> link_timer \<Rightarrow> bool" where
  "timer_ok lk (ExchangeTimer t b s n d) \<longleftrightarrow>
     comm_buf b \<and> n \<le> RETRANSMIT_LIMIT + 1 \<and> (\<exists>w. om_find (waitAckSeq lk) t = Some w \<and> s \<le> w)"
| "timer_ok lk (AckTimer t b s k d) \<longleftrightarrow>
     comm_buf b \<and> k < incAckTriggerId lk \<and> om_find (ackTriggerId lk) t \<noteq> None"

definition pending_refs :: "linker \<Rightarrow> nat" where
  "pending_refs lk = length (lk_timers lk) + length (lk_tasks lk)"

text \<open>\<open>k\<close> is the number of references held by operations in progress, on top of the owner's.\<close>

definition link_ok :: "nat \<Rightarrow> linker \<Rightarrow> bool" where
  "link_ok k lk \<longleftrightarrow>
     (\<forall>t w. om_find (waitAckSeq lk) t = Some w \<longrightarrow> w < incSequenceId lk) \<and>
     (\<forall>t r. om_find (recvAckSeq lk) t = Some r \<longrightarrow> (\<exists>w. om_find (waitAckSeq lk) t = Some w \<and> r \<le> w)) \<and>
     (\<forall>tm \<in> set (lk_timers lk). timer_ok lk tm) \<and>
     pending_refs lk + k < lk_refs lk \<and>
     wf_labels (localOnlineLabels lk) \<and> om_ok (targetMapOnlineLabels lk)"

lemma om_find_touch: "om_find (om_touch d k m) k' = (if k' = k \<and> om_find m k = None then Some d else om_find m k')"
  by (auto simp: om_touch_def om_count_def om_find_insert)

lemma om_touch_id [simp]: "om_find m k = Some v \<Longrightarrow> om_touch d k m = m"
  by (simp add: om_touch_def om_count_def)

lemma om_ok_touch [simp]: "om_ok m \<Longrightarrow> om_ok (om_touch d k m)"
  by (simp add: om_touch_def)

lemma om_get_find: "om_find m k = Some v \<Longrightarrow> om_get d m k = v"
  by (simp add: om_get_def)

text \<open>Changes that cannot hurt a timer.\<close>

lemma timer_ok_mono:
  assumes "timer_ok lk tm" "incAckTriggerId lk \<le> incAckTriggerId lk'"
    "\<And>t w. om_find (waitAckSeq lk) t = Some w \<Longrightarrow> \<exists>w'. om_find (waitAckSeq lk') t = Some w' \<and> w \<le> w'"
    "\<And>t. om_find (ackTriggerId lk) t \<noteq> None \<Longrightarrow> om_find (ackTriggerId lk') t \<noteq> None"
  shows "timer_ok lk' tm"
  using assms by (cases tm) (auto, meson order_trans)

lemma timer_ok_cong [simp]:
  "timer_ok (lk\<lparr>lk_timers := x\<rparr>) tm = timer_ok lk tm" "timer_ok (lk\<lparr>lk_tasks := y\<rparr>) tm = timer_ok lk tm"
  "timer_ok (lk\<lparr>lk_refs := k\<rparr>) tm = timer_ok lk tm" "timer_ok (lk\<lparr>recvAckSeq := m\<rparr>) tm = timer_ok lk tm"
  "timer_ok (lk\<lparr>topRecvLabelSeq := m\<rparr>) tm = timer_ok lk tm" "timer_ok (lk\<lparr>targetDistinctValue := m\<rparr>) tm = timer_ok lk tm"
  "timer_ok (lk\<lparr>targetMapOnlineLabels := q\<rparr>) tm = timer_ok lk tm" "timer_ok (lk\<lparr>remoteOnlineTarget := ts\<rparr>) tm = timer_ok lk tm"
  "timer_ok (lk\<lparr>localOnlineLabels := ls\<rparr>) tm = timer_ok lk tm" "timer_ok (lk\<lparr>incSequenceId := i\<rparr>) tm = timer_ok lk tm"
  by (cases tm; simp)+

lemma link_ok_Suspend:
  "link_ok (Suc k) lk \<Longrightarrow> timer_ok lk tm \<Longrightarrow> link_ok k (SuspendByOnceTimer tm lk)"
  by (auto simp: link_ok_def SuspendByOnceTimer_def pending_refs_def)

lemma link_ok_Dec: "link_ok (Suc k) lk \<Longrightarrow> link_ok k (DecObjRef lk)"
  by (auto simp: link_ok_def DecObjRef_def pending_refs_def)

lemma link_ok_Inc: "link_ok k lk \<Longrightarrow> link_ok (Suc k) (IncObjRef lk)"
  by (auto simp: link_ok_def IncObjRef_def pending_refs_def)

lemma link_ok_weaken: "link_ok (Suc k) lk \<Longrightarrow> link_ok k lk"
  by (auto simp: link_ok_def)

lemma IncObjRef_simps [simp]:
  "waitAckSeq (IncObjRef lk) = waitAckSeq lk" "recvAckSeq (IncObjRef lk) = recvAckSeq lk"
  "incSequenceId (IncObjRef lk) = incSequenceId lk" "incAckTriggerId (IncObjRef lk) = incAckTriggerId lk"
  "ackTriggerId (IncObjRef lk) = ackTriggerId lk" "remoteOnlineTarget (IncObjRef lk) = remoteOnlineTarget lk"
  "topRecvLabelSeq (IncObjRef lk) = topRecvLabelSeq lk" "targetMapOnlineLabels (IncObjRef lk) = targetMapOnlineLabels lk"
  "targetDistinctValue (IncObjRef lk) = targetDistinctValue lk" "localOnlineLabels (IncObjRef lk) = localOnlineLabels lk"
  "localDistinctValue (IncObjRef lk) = localDistinctValue lk" "lk_timers (IncObjRef lk) = lk_timers lk"
  by (simp_all add: IncObjRef_def)

text \<open>What sending leaves alone: everything but the timers and the reference count.\<close>

definition core :: "linker \<Rightarrow> linker" where
  "core lk = lk\<lparr>lk_timers := [], lk_refs := 0\<rparr>"

lemma core_simps [simp]:
  "core (SuspendByOnceTimer tm lk) = core lk" "core (DecObjRef lk) = core lk" "core (IncObjRef lk) = core lk"
  "core (lk\<lparr>lk_timers := x\<rparr>) = core lk"
  by (simp_all add: core_def SuspendByOnceTimer_def DecObjRef_def IncObjRef_def)

lemma core_fields:
  assumes "core lk = core lk'"
  shows "waitAckSeq lk = waitAckSeq lk'" "recvAckSeq lk = recvAckSeq lk'" "incSequenceId lk = incSequenceId lk'"
    "incAckTriggerId lk = incAckTriggerId lk'" "ackTriggerId lk = ackTriggerId lk'"
    "remoteOnlineTarget lk = remoteOnlineTarget lk'" "topRecvLabelSeq lk = topRecvLabelSeq lk'"
    "targetMapOnlineLabels lk = targetMapOnlineLabels lk'" "targetDistinctValue lk = targetDistinctValue lk'"
    "localOnlineLabels lk = localOnlineLabels lk'" "localDistinctValue lk = localDistinctValue lk'" "lk_tasks lk = lk_tasks lk'"
  using assms by (cases lk; cases lk'; simp add: core_def)+

section \<open>The linker over any transport\<close>

text \<open>
  The contract of the aggregator's \<^verbatim>\<open>ScheduleSendTask\<close> as the linker relies on it: for a frame of the
  communication layer it returns, keeps its own invariant, and leaves a buffer that it did not take
  fit for another attempt.
\<close>

locale label_transport =
  fixes send :: "'a sender"
    and I :: "status_adapter option \<times> 'a \<Rightarrow> bool"
  assumes send_returns:
    "comm_buf b \<Longrightarrow> I (sa, a) \<Longrightarrow> ft = COMMUNICATION_LABEL_EXCHANGE \<or> ft = COMMUNICATION_LABEL_EXCHANGE_ACK \<Longrightarrow>
       returns (\<lambda>(code, b', sa', a'). comm_buf b' \<and> I (sa', a')) (send t b ft link_config (sa, a))"
    and adapter_moves: "I (Some s, a) \<Longrightarrow> adapter_step s s' \<Longrightarrow> I (Some s', a)"
begin

text \<open>An exchange that is due is sent once and leaves one timer; an obsolete one only gives up its reference.\<close>

lemma SendLabelExchange_ok:
  assumes ok: "link_ok (Suc k) lk" and b: "comm_buf b" and I: "I (sa, a)" and n: "n \<le> RETRANSMIT_LIMIT + 1"
    and w: "om_find (waitAckSeq lk) t = Some w" "s \<le> w"
  shows "returns (\<lambda>(lk', sa', a'). link_ok k lk' \<and> I (sa', a') \<and> core lk' = core lk)
    (SendLabelExchange env send t b s n (lk, sa, a))"
proof (cases "exchange_needless t s n lk")
  case True
  then show ?thesis using link_ok_Dec[OF ok] I w by (simp add: SendLabelExchange_def)
next
  case False
  then have n1: "n + 1 \<le> RETRANSMIT_LIMIT + 1"
    using unat_add32[of n 1] by (auto simp: exchange_needless_def RETRANSMIT_LIMIT_def word_le_nat_alt not_less)
  note c = comm_buf_Clone_safe[OF b, of "le_mem env"]
  have k: "link_ok k (SuspendByOnceTimer (ExchangeTimer t b' s m d) lk)"
    if "comm_buf b'" "m \<le> RETRANSMIT_LIMIT + 1" for b' m d
    using link_ok_Suspend[OF ok, of "ExchangeTimer t b' s m d"] that w by auto
  let ?P = "\<lambda>(lk', sa', a'). link_ok k lk' \<and> I (sa', a') \<and> core lk' = core lk"
  have "returns ?P
      (if code = E_OK
       then case Clone (le_mem env) b of
              Ok clone \<Rightarrow> Ok (SuspendByOnceTimer (ExchangeTimer t clone s (n + 1) (GetDynamicTimeLapseForWaitingAck n)) lk, sa', a')
            | _ \<Rightarrow> Ok (lk, sa', a')
       else Ok (SuspendByOnceTimer (ExchangeTimer t b' s n TIME_LAPSE_FOR_RETRY_SEND) lk, sa', a'))"
    if "comm_buf b'" "I (sa', a')" for code b' sa' a'
    using that n n1 k comm_buf_Clone[OF b] link_ok_weaken[OF ok] c by (auto split: res.split)
  then have "returns ?P (res_bind (send t b COMMUNICATION_LABEL_EXCHANGE link_config (sa, a)) (\<lambda>(code, b', sa', a').
      if code = E_OK
      then case Clone (le_mem env) b of
             Ok clone \<Rightarrow> Ok (SuspendByOnceTimer (ExchangeTimer t clone s (n + 1) (GetDynamicTimeLapseForWaitingAck n)) lk, sa', a')
           | _ \<Rightarrow> Ok (lk, sa', a')
      else Ok (SuspendByOnceTimer (ExchangeTimer t b' s n TIME_LAPSE_FOR_RETRY_SEND) lk, sa', a')))"
    by (intro returns_bind[OF send_returns[OF b I]]) auto
  moreover have "lk\<lparr>waitAckSeq := om_touch 0 t (waitAckSeq lk)\<rparr> = lk" using w by simp
  ultimately show ?thesis unfolding SendLabelExchange_def Let_def prod.case using False c by (simp only: if_False)
qed

lemma SendLabelExchangeAck_ok:
  assumes ok: "link_ok (Suc k) lk" and b: "comm_buf b" and I: "I (sa, a)"
    and a: "om_find (ackTriggerId lk) t = Some j" "ackId < incAckTriggerId lk"
  shows "returns (\<lambda>(lk', sa', a'). link_ok k lk' \<and> I (sa', a') \<and> core lk' = core lk)
    (SendLabelExchangeAck send t b s ackId (lk, sa, a))"
proof (cases "ack_needless t s ackId lk")
  case True
  then show ?thesis using link_ok_Dec[OF ok] I a by (simp add: SendLabelExchangeAck_def)
next
  case False
  have "link_ok k (SuspendByOnceTimer (AckTimer t b' s ackId d) lk)" if "comm_buf b'" for b' d
    using link_ok_Suspend[OF ok, of "AckTimer t b' s ackId d"] that a by auto
  then show ?thesis using False a send_returns[OF b I, of COMMUNICATION_LABEL_EXCHANGE_ACK t] link_ok_Dec[OF ok]
    by (auto simp: SendLabelExchangeAck_def Let_def elim!: returns_bind)
qed

end

section \<open>Every operation returns and keeps the invariant\<close>

definition wf_env :: "link_env \<Rightarrow> bool" where
  "wf_env env \<longleftrightarrow> (\<forall>x. length (le_hash env x) = COMM_LABEL_LENGTH)"

lemma insort_insert_wf:
  "wf_labels ls \<Longrightarrow> length l = COMM_LABEL_LENGTH \<Longrightarrow> wf_labels (insort_insert l ls)"
  by (auto simp: wf_labels_def set_insort_insert sorted_insort_insert distinct_insort_insert)

lemma removeAll_wf: "wf_labels ls \<Longrightarrow> wf_labels (removeAll l ls)"
  by (auto simp: wf_labels_def removeAll_filter_not_eq sorted_filter[where f = "\<lambda>x. x", simplified])

lemma snapshot_wf:
  assumes "wf_env env" "wf_labels (localOnlineLabels lk)"
  shows "wf_labels (fst (snapshot_labels env (lk, sa)))"
proof -
  have "wf_labels (fold (\<lambda>i. insort_insert (GenerateHashLabel (le_hash env) i)) is ls)" if "wf_labels ls" for "is" ls
    using that by (induction "is" arbitrary: ls)
      (simp_all add: insort_insert_wf GenerateHashLabel_def assms(1)[unfolded wf_env_def])
  moreover have "wf_labels []" by (simp add: wf_labels_def)
  ultimately show ?thesis using assms(2) by (auto simp: snapshot_labels_def case_prod_unfold Let_def split: option.split)
qed

text \<open>What a triggered exchange leaves alone.\<close>

definition seq_core :: "linker \<Rightarrow> linker" where
  "seq_core lk = core (lk\<lparr>waitAckSeq := [], incSequenceId := 0\<rparr>)"

lemma core_seq_core: "core lk = core lk' \<Longrightarrow> seq_core lk = seq_core lk'"
  by (cases lk; cases lk'; simp add: core_def seq_core_def)

lemma seq_core_simps [simp]:
  "seq_core (lk\<lparr>incSequenceId := i\<rparr>) = seq_core lk" "seq_core (lk\<lparr>waitAckSeq := m\<rparr>) = seq_core lk"
  "seq_core (IncObjRef lk) = seq_core lk"
  by (simp_all add: seq_core_def core_def IncObjRef_def)

lemma seq_core_fields:
  assumes "seq_core lk = seq_core lk'"
  shows "recvAckSeq lk = recvAckSeq lk'" "incAckTriggerId lk = incAckTriggerId lk'" "ackTriggerId lk = ackTriggerId lk'"
    "remoteOnlineTarget lk = remoteOnlineTarget lk'" "topRecvLabelSeq lk = topRecvLabelSeq lk'"
    "targetMapOnlineLabels lk = targetMapOnlineLabels lk'" "targetDistinctValue lk = targetDistinctValue lk'"
    "localOnlineLabels lk = localOnlineLabels lk'" "localDistinctValue lk = localDistinctValue lk'" "lk_tasks lk = lk_tasks lk'"
  using assms by (cases lk; cases lk'; simp add: core_def seq_core_def)+

lemma unat_inc64: "x \<noteq> - 1 \<Longrightarrow> unat (x + 1 :: u64) = unat x + 1"
  using unatSuc[of x] by (simp add: add.commute eq_neg_iff_add_eq_0)

lemma unat_neg1: "unat (- 1 :: u64) = 18446744073709551615"
  by (simp add: unsigned_minus_1_eq_mask mask_eq_exp_minus_1)

lemma inc64_less: "x \<noteq> - 1 \<Longrightarrow> x < (x + 1 :: u64)"
  by (simp add: word_less_nat_alt unat_inc64)

lemma link_ok_number: "link_ok k lk \<Longrightarrow> incSequenceId lk \<noteq> - 1 \<Longrightarrow> link_ok k (lk\<lparr>incSequenceId := incSequenceId lk + 1\<rparr>)"
proof -
  assume ok: "link_ok k lk" and "incSequenceId lk \<noteq> - 1"
  then have "incSequenceId lk < incSequenceId lk + 1" by (intro inc64_less)
  then show ?thesis using ok by (auto simp: link_ok_def pending_refs_def intro: less_trans)
qed

lemma link_ok_wait:
  assumes "link_ok k lk" "s < incSequenceId lk" "\<not> (case om_find (waitAckSeq lk) t of None \<Rightarrow> False | Some w \<Rightarrow> w > s)"
  shows "link_ok k (lk\<lparr>waitAckSeq := om_insert t s (waitAckSeq lk)\<rparr>)"
proof -
  let ?lk = "lk\<lparr>waitAckSeq := om_insert t s (waitAckSeq lk)\<rparr>"
  have up: "\<exists>w'. om_find (waitAckSeq ?lk) t' = Some w' \<and> w \<le> w'" if "om_find (waitAckSeq lk) t' = Some w" for t' w
    using that assms(3) by (cases "t' = t") (auto simp: om_find_insert)
  have "timer_ok ?lk tm" if "tm \<in> set (lk_timers lk)" for tm
    using assms(1) that timer_ok_mono[of lk tm ?lk] up by (simp add: link_ok_def)
  moreover have "\<exists>w. om_find (waitAckSeq ?lk) t' = Some w \<and> r \<le> w" if "om_find (recvAckSeq lk) t' = Some r" for t' r
    using assms(1) that up unfolding link_ok_def by (meson order_trans)
  ultimately show ?thesis using assms(1,2) by (auto simp: link_ok_def om_find_insert pending_refs_def)
qed

context label_transport
begin

lemma IsSupport_I: "I (sa, a) \<Longrightarrow> I (snd (adapter_IsSupport hs t sa), a)"
  using adapter_moves[OF _ adapter_step.support] by (auto simp: adapter_IsSupport_def case_prod_unfold Let_def split: option.split)

lemma snapshot_I: "I (sa, a) \<Longrightarrow> I (snd (snapshot_labels env (lk, sa)), a)"
  using adapter_moves[OF _ adapter_step.local_infos]
  by (auto simp: snapshot_labels_def case_prod_unfold Let_def split: option.split)

lemma trigger_commit_ok:
  assumes ok: "link_ok k lk" and b: "comm_buf b" and I: "I (sa, a)" and s: "s < incSequenceId lk"
  shows "returns (\<lambda>(lk', sa', a'). link_ok k lk' \<and> I (sa', a') \<and> seq_core lk' = seq_core lk \<and>
      incSequenceId lk' = incSequenceId lk)
    (trigger_commit env send t s b (lk, sa, a))"
proof (cases "case om_find (waitAckSeq lk) t of None \<Rightarrow> False | Some w \<Rightarrow> w > s")
  case True
  then show ?thesis using ok I by (simp add: trigger_commit_def)
next
  case False
  let ?lk = "lk\<lparr>waitAckSeq := om_insert t s (waitAckSeq lk)\<rparr>"
  have "link_ok (Suc k) (IncObjRef ?lk)" by (rule link_ok_Inc[OF link_ok_wait[OF ok s False]])
  then have "returns (\<lambda>(lk', sa', a'). link_ok k lk' \<and> I (sa', a') \<and> core lk' = core (IncObjRef ?lk))
      (SendLabelExchange env send t b s 0 (IncObjRef ?lk, sa, a))"
    using b I by (intro SendLabelExchange_ok[where w = s]) (simp_all add: RETRANSMIT_LIMIT_def)
  moreover have "seq_core x = seq_core lk \<and> incSequenceId x = incSequenceId lk" if "core x = core (IncObjRef ?lk)" for x
    using core_seq_core[OF that] core_fields(3)[OF that] by simp
  ultimately show ?thesis unfolding trigger_commit_def prod.case using False by (auto elim!: returns_mono)
qed

lemma Trigger_to_ok:
  assumes ok: "link_ok k lk" and I: "I (sa, a)" and e: "wf_env env" and inc: "incSequenceId lk \<noteq> - 1"
  shows "returns (\<lambda>(code, lk', sa', a'). link_ok k lk' \<and> I (sa', a') \<and> seq_core lk' = seq_core lk \<and>
      unat (incSequenceId lk') \<le> unat (incSequenceId lk) + 1 \<and> incSequenceId lk \<le> incSequenceId lk')
    (TriggerLabelExchangeEvent_to env send t (lk, sa, a))"
proof -
  let ?sup = "adapter_IsSupport (le_hs env) t sa" and ?lk = "lk\<lparr>incSequenceId := incSequenceId lk + 1\<rparr>"
  have I1: "I (snd ?sup, a)" using I by (rule IsSupport_I)
  show ?thesis
  proof (cases "fst ?sup")
    case True
    then show ?thesis using ok I1 by (simp add: TriggerLabelExchangeEvent_to_def trigger_number_def case_prod_unfold Let_def)
  next
    case False
    have n: "trigger_number env t (lk, sa) = (Some (incSequenceId lk), ?lk, snd ?sup)"
      using False by (simp add: trigger_number_def case_prod_unfold Let_def)
    have ok1: "link_ok k ?lk" by (rule link_ok_number[OF ok inc])
    have lt: "unat (incSequenceId ?lk) = unat (incSequenceId lk) + 1" using inc by (simp add: unat_inc64)
    let ?ls = "snapshot_labels env (?lk, snd ?sup)"
    have I2: "I (snd ?ls, a)" by (rule snapshot_I[OF I1])
    have wl: "wf_labels (fst ?ls)" using snapshot_wf[OF e] ok1 by (simp add: link_ok_def)
    have bd: "trigger_build env (incSequenceId lk) (?lk, snd ?sup) =
        (BuildLabelExchange (le_mem env) (le_be env) (localDistinctValue lk) (incSequenceId lk) (fst ?ls), snd ?ls)"
      by (simp add: trigger_build_def case_prod_unfold Let_def)
    consider b where "BuildLabelExchange (le_mem env) (le_be env) (localDistinctValue lk) (incSequenceId lk) (fst ?ls) = Ok b"
        "comm_buf b"
      | err where "BuildLabelExchange (le_mem env) (le_be env) (localDistinctValue lk) (incSequenceId lk) (fst ?ls) = Err err"
      using BuildLabelExchange_cases[OF wl] by blast
    then show ?thesis
    proof cases
      case 1
      have "incSequenceId lk < incSequenceId ?lk" using lt by (simp add: word_less_nat_alt)
      from trigger_commit_ok[OF ok1 1(2) I2 this, of env t] show ?thesis
        unfolding TriggerLabelExchangeEvent_to_def prod.case n bd 1(1) res.case option.case
        using lt by (auto elim!: returns_bind simp: word_le_nat_alt)
    next
      case 2
      then show ?thesis using ok1 I2 lt by (simp add: TriggerLabelExchangeEvent_to_def n bd word_le_nat_alt)
    qed
  qed
qed

lemma trigger_targets_ok:
  "link_ok k lk \<Longrightarrow> I (sa, a) \<Longrightarrow> wf_env env \<Longrightarrow> unat (incSequenceId lk) + length ts < 2 ^ 64 \<Longrightarrow>
   returns (\<lambda>(fail, lk', sa', a'). link_ok k lk' \<and> I (sa', a') \<and> seq_core lk' = seq_core lk \<and> incSequenceId lk \<le> incSequenceId lk')
     (trigger_targets env send ts f (lk, sa, a))"
proof (induction ts arbitrary: f lk sa a)
  case (Cons t ts)
  then have inc: "incSequenceId lk \<noteq> - 1" using unat_neg1 by auto
  have "returns (\<lambda>(fail, lk', sa', a'). link_ok k lk' \<and> I (sa', a') \<and> seq_core lk' = seq_core lk \<and> incSequenceId lk \<le> incSequenceId lk')
      (trigger_targets env send ts g (lk1, sa1, a1))"
    if "link_ok k lk1" "I (sa1, a1)" "seq_core lk1 = seq_core lk" "unat (incSequenceId lk1) \<le> unat (incSequenceId lk) + 1"
      "incSequenceId lk \<le> incSequenceId lk1" for g lk1 sa1 a1
    using Cons.IH[OF that(1,2) Cons.prems(3), of g] that(3-5) Cons.prems(4) by (auto elim!: returns_mono)
  with Trigger_to_ok[OF Cons.prems(1-3) inc, of t] show ?case by (auto elim!: returns_bind)
qed simp

lemma Trigger_ok:
  assumes ok: "link_ok k lk" and I: "I (sa, a)" and e: "wf_env env"
    and inc: "unat (incSequenceId lk) + length (remoteOnlineTarget lk) < 2 ^ 64"
  shows "returns (\<lambda>(fail, lk', sa', a'). link_ok k lk' \<and> I (sa', a') \<and> seq_core lk' = seq_core lk \<and> incSequenceId lk \<le> incSequenceId lk')
    (TriggerLabelExchangeEvent env send chk (lk, sa, a))"
proof -
  have "I (Some (snd (Adapter_IsSendLabelExchange (le_hs env) s)), a)" if "sa = Some s" for s
    using adapter_moves[OF _ adapter_step.send_label] I that by simp
  then show ?thesis using trigger_targets_ok[OF ok _ e inc] ok I
    by (auto simp: TriggerLabelExchangeEvent_def case_prod_unfold Let_def split: option.split)
qed

lemma TriggerAck_ok:
  assumes ok: "link_ok k lk" and I: "I (sa, a)" and inc: "incAckTriggerId lk \<noteq> - 1"
  shows "returns (\<lambda>(code, lk', sa', a'). link_ok k lk' \<and> I (sa', a') \<and> waitAckSeq lk' = waitAckSeq lk \<and>
      recvAckSeq lk' = recvAckSeq lk \<and> targetMapOnlineLabels lk' = targetMapOnlineLabels lk \<and>
      topRecvLabelSeq lk' = topRecvLabelSeq lk \<and> remoteOnlineTarget lk' = remoteOnlineTarget lk \<and>
      localOnlineLabels lk' = localOnlineLabels lk \<and> incSequenceId lk' = incSequenceId lk)
    (TriggerLabelExchangeAckEvent env send t s (lk, sa, a))"
proof -
  let ?lk = "lk\<lparr>incAckTriggerId := incAckTriggerId lk + 1, ackTriggerId := om_insert t (incAckTriggerId lk) (ackTriggerId lk)\<rparr>"
  consider b where "BuildLabelExchangeAck (le_mem env) (le_be env) (localDistinctValue lk) s = Ok b" "comm_buf b"
    | err where "BuildLabelExchangeAck (le_mem env) (le_be env) (localDistinctValue lk) s = Err err"
    using BuildLabelExchangeAck_cases by blast
  then show ?thesis
  proof cases
    case 1
    have lt: "incAckTriggerId lk < incAckTriggerId ?lk" using inc by (simp add: inc64_less)
    have "timer_ok ?lk tm" if "tm \<in> set (lk_timers lk)" for tm
      using ok that lt timer_ok_mono[of lk tm ?lk] by (auto simp: link_ok_def om_find_insert)
    then have "link_ok (Suc k) (IncObjRef ?lk)" using ok by (intro link_ok_Inc) (simp add: link_ok_def pending_refs_def)
    then have "returns (\<lambda>(lk', sa', a'). link_ok k lk' \<and> I (sa', a') \<and> core lk' = core (IncObjRef ?lk))
        (SendLabelExchangeAck send t b s (incAckTriggerId lk) (IncObjRef ?lk, sa, a))"
      using lt 1 I by (intro SendLabelExchangeAck_ok[where j = "incAckTriggerId lk"]) simp_all
    then show ?thesis unfolding TriggerLabelExchangeAckEvent_def prod.case 1(1) res.case Let_def
      by (elim returns_bind) (auto dest: core_fields)
  next
    case 2
    then show ?thesis using ok I by (simp add: TriggerLabelExchangeAckEvent_def)
  qed
qed

end

section \<open>Steps\<close>

text \<open>A trigger that another thread has begun: it has its number, or its frame as well.\<close>

datatype inflight = Numbered target u64 | Built target u64 serial_buffer

fun inflight_ok :: "linker \<Rightarrow> inflight \<Rightarrow> bool" where
  "inflight_ok lk (Numbered t s) \<longleftrightarrow> s < incSequenceId lk"
| "inflight_ok lk (Built t s b) \<longleftrightarrow> s < incSequenceId lk \<and> comm_buf b"

type_synonym 'a link_conf = "linker \<times> status_adapter option \<times> 'a \<times> inflight list"

text \<open>
  The counters are 64 bits wide; a step that would advance one past the last value is not taken.  The
  rest of the system (\<open>other\<close>) may change the adapter and the aggregator's state within their invariant.
\<close>

inductive link_step :: "'a sender \<Rightarrow> (status_adapter option \<times> 'a \<Rightarrow> bool) \<Rightarrow> 'a link_conf \<Rightarrow> 'a link_conf \<Rightarrow> bool"
  for send :: "'a sender" and I :: "status_adapter option \<times> 'a \<Rightarrow> bool" where
  l_online: "wf_env env \<Longrightarrow> incSequenceId lk \<noteq> - 1 \<Longrightarrow> TargetOnline env send t (lk, sa, a) = Ok (code, ls, lk', sa', a') \<Longrightarrow>
    link_step send I (lk, sa, a, fl) (lk', sa', a', fl)"
| l_offline: "Linker_TargetOffline env t (lk, sa) = (ls, acts, lk', sa') \<Longrightarrow>
    link_step send I (lk, sa, a, fl) (lk', sa', a, fl)"
| l_open: "wf_env env \<Longrightarrow> length l = COMM_LABEL_LENGTH \<Longrightarrow>
    unat (incSequenceId lk) + length (remoteOnlineTarget lk) < 2 ^ 64 \<Longrightarrow>
    IncreaseLocalLabel env send l (lk, sa, a) = Ok (code, ts, lk', sa', a') \<Longrightarrow>
    link_step send I (lk, sa, a, fl) (lk', sa', a', fl)"
| l_close: "wf_env env \<Longrightarrow> unat (incSequenceId lk) + length (remoteOnlineTarget lk) < 2 ^ 64 \<Longrightarrow>
    DecreaseLocalLabel env send l (lk, sa, a) = Ok (code, lk', sa', a') \<Longrightarrow>
    link_step send I (lk, sa, a, fl) (lk', sa', a', fl)"
| l_trigger: "wf_env env \<Longrightarrow> unat (incSequenceId lk) + length (remoteOnlineTarget lk) < 2 ^ 64 \<Longrightarrow>
    TriggerLabelExchangeEvent env send chk (lk, sa, a) = Ok (fail, lk', sa', a') \<Longrightarrow>
    link_step send I (lk, sa, a, fl) (lk', sa', a', fl)"
| l_receive: "incAckTriggerId lk \<noteq> - 1 \<Longrightarrow>
    ReceiveLabelExchange env send t ls d s out (lk, sa, a) = Ok (code, out', lk', sa', a') \<Longrightarrow>
    link_step send I (lk, sa, a, fl) (lk', sa', a', fl)"
| l_ack: "ReceiveLabelExchangeAck env t d s lk = (code, lk') \<Longrightarrow> link_step send I (lk, sa, a, fl) (lk', sa, a, fl)"
| l_update: "link_step send I (lk, sa, a, fl) (UpdateOnlineLabels t cs lk, sa, a, fl)"
| l_clear: "link_step send I (lk, sa, a, fl) (Linker_ClearOnlineLabel lk, sa, a, fl)"
| l_timer: "i < length (lk_timers lk) \<Longrightarrow> fire_timer env send i (lk, sa, a) = Ok (lk', sa', a') \<Longrightarrow>
    link_step send I (lk, sa, a, fl) (lk', sa', a', fl)"
| l_task: "wf_env env \<Longrightarrow> incSequenceId lk \<noteq> - 1 \<Longrightarrow> i < length (lk_tasks lk) \<Longrightarrow>
    run_link_task env send i (lk, sa, a) = Ok (lk', sa', a') \<Longrightarrow>
    link_step send I (lk, sa, a, fl) (lk', sa', a', fl)"
| l_number: "incSequenceId lk \<noteq> - 1 \<Longrightarrow> trigger_number env t (lk, sa) = (Some s, lk', sa') \<Longrightarrow>
    link_step send I (lk, sa, a, fl) (lk', sa', a, fl @ [Numbered t s])"
| l_build: "wf_env env \<Longrightarrow> i < length fl \<Longrightarrow> fl ! i = Numbered t s \<Longrightarrow> trigger_build env s (lk, sa) = (Ok b, sa') \<Longrightarrow>
    link_step send I (lk, sa, a, fl) (lk, sa', a, fl[i := Built t s b])"
| l_commit: "i < length fl \<Longrightarrow> fl ! i = Built t s b \<Longrightarrow> trigger_commit env send t s b (lk, sa, a) = Ok (lk', sa', a') \<Longrightarrow>
    link_step send I (lk, sa, a, fl) (lk', sa', a', drop_nth i fl)"
| l_other: "I (sa', a') \<Longrightarrow> link_step send I (lk, sa, a, fl) (lk, sa', a', fl)"

inductive link_reach :: "'a sender \<Rightarrow> (status_adapter option \<times> 'a \<Rightarrow> bool) \<Rightarrow> 'a link_conf \<Rightarrow> bool"
  for send :: "'a sender" and I :: "status_adapter option \<times> 'a \<Rightarrow> bool" where
  l_init: "I (sa, a) \<Longrightarrow> link_reach send I (Linker_Initialize now new_CommunicatorLinker, sa, a, [])"
| l_step: "link_reach send I c \<Longrightarrow> link_step send I c c' \<Longrightarrow> link_reach send I c'"

fun conf_ok :: "(status_adapter option \<times> 'a \<Rightarrow> bool) \<Rightarrow> 'a link_conf \<Rightarrow> bool" where
  "conf_ok I (lk, sa, a, fl) \<longleftrightarrow> link_ok 0 lk \<and> I (sa, a) \<and> (\<forall>x \<in> set fl. inflight_ok lk x)"

lemma inflight_mono: "inflight_ok lk x \<Longrightarrow> incSequenceId lk \<le> incSequenceId lk' \<Longrightarrow> inflight_ok lk' x"
  by (cases x) auto

lemma set_drop_nth: "set (drop_nth i xs) \<subseteq> set xs"
  by (auto simp: drop_nth_def dest: in_set_takeD in_set_dropD)

lemma length_drop_nth: "i < length xs \<Longrightarrow> Suc (length (drop_nth i xs)) = length xs"
  by (simp add: drop_nth_def)

lemma Detect_ok: "link_ok k lk \<Longrightarrow> link_ok k (DetectDistinctValueChange env t d lk)"
  by (auto simp: DetectDistinctValueChange_def link_ok_def pending_refs_def Let_def IncObjRef_def split: option.split)

lemma Detect_fields [simp]:
  "waitAckSeq (DetectDistinctValueChange env t d lk) = waitAckSeq lk"
  "recvAckSeq (DetectDistinctValueChange env t d lk) = recvAckSeq lk"
  "incSequenceId (DetectDistinctValueChange env t d lk) = incSequenceId lk"
  "incAckTriggerId (DetectDistinctValueChange env t d lk) = incAckTriggerId lk"
  "targetMapOnlineLabels (DetectDistinctValueChange env t d lk) = targetMapOnlineLabels lk"
  "remoteOnlineTarget (DetectDistinctValueChange env t d lk) = remoteOnlineTarget lk"
  "localOnlineLabels (DetectDistinctValueChange env t d lk) = localOnlineLabels lk"
  by (auto simp: DetectDistinctValueChange_def Let_def split: option.split)

lemma link_ok_labels:
  "link_ok k lk \<Longrightarrow> om_ok m \<Longrightarrow> link_ok k (lk\<lparr>topRecvLabelSeq := x, targetMapOnlineLabels := m\<rparr>)"
  by (simp add: link_ok_def pending_refs_def)

lemma inflight_core: "core lk' = core lk \<Longrightarrow> inflight_ok lk' x = inflight_ok lk x"
  using core_fields(3)[of lk' lk] by (cases x) auto

lemma Ack_ok: "link_ok k lk \<Longrightarrow> link_ok k (snd (ReceiveLabelExchangeAck env t d s lk))"
  using Detect_ok[of k lk env t d]
  by (auto simp: ReceiveLabelExchangeAck_def Let_def link_ok_def om_find_insert pending_refs_def not_less split: option.split)

lemma om_ok_fold: "(\<And>e m. om_ok m \<Longrightarrow> om_ok (f e m)) \<Longrightarrow> om_ok m \<Longrightarrow> om_ok (fold f es m)"
  by (induction es arbitrary: m) auto

lemma link_ok_received:
  "link_ok k lk \<Longrightarrow> link_ok k ((DetectDistinctValueChange env t d lk)
     \<lparr>topRecvLabelSeq := om_insert t s (topRecvLabelSeq (DetectDistinctValueChange env t d lk)),
      targetMapOnlineLabels := om_insert t ls (targetMapOnlineLabels (DetectDistinctValueChange env t d lk))\<rparr>)"
  by (rule link_ok_labels[OF Detect_ok]) (simp_all add: link_ok_def)

context label_transport
begin

lemma TargetOnline_ok:
  assumes ok: "link_ok k lk" and I: "I (sa, a)" and e: "wf_env env" and inc: "incSequenceId lk \<noteq> - 1"
  shows "returns (\<lambda>(code, ls, lk', sa', a'). link_ok k lk' \<and> I (sa', a') \<and> incSequenceId lk \<le> incSequenceId lk')
    (TargetOnline env send t (lk, sa, a))"
proof -
  let ?lk = "lk\<lparr>targetMapOnlineLabels := om_touch [] t (targetMapOnlineLabels lk),
      remoteOnlineTarget := insort_insert t (remoteOnlineTarget lk)\<rparr>"
  have "link_ok k ?lk" using ok by (simp add: link_ok_def pending_refs_def)
  then show ?thesis using Trigger_to_ok[of k ?lk sa a env t] Trigger_to_ok[OF ok I e inc, of t] I e inc
    by (auto simp: TargetOnline_def Let_def elim!: returns_bind)
qed

lemma TargetOffline_ok:
  assumes "link_ok k lk" "I (sa, a)" "Linker_TargetOffline env t (lk, sa) = (ls, acts, lk', sa')"
  shows "link_ok k lk'" "I (sa', a)" "incSequenceId lk' = incSequenceId lk"
proof -
  define sa1 where "sa1 = map_option (\<lambda>s. snd (Adapter_TargetOffline t s)) sa"
  have "I (sa1, a)" using adapter_moves[OF _ adapter_step.offline] assms(2) by (cases sa) (simp_all add: sa1_def)
  then have "I (snd (adapter_IsSupport (le_hs env) t sa1), a)" by (rule IsSupport_I)
  moreover have "sa' = snd (adapter_IsSupport (le_hs env) t sa1)"
    using assms(3) by (cases sa) (simp_all add: Linker_TargetOffline_def case_prod_unfold Let_def sa1_def)
  ultimately show "I (sa', a)" by simp
  have "om_ok (targetMapOnlineLabels lk') \<and>
      lk' = lk\<lparr>targetMapOnlineLabels := targetMapOnlineLabels lk', remoteOnlineTarget := removeAll t (remoteOnlineTarget lk),
        targetDistinctValue := om_erase t (targetDistinctValue lk), topRecvLabelSeq := om_erase t (topRecvLabelSeq lk)\<rparr>"
    using assms(1,3) by (auto simp: Linker_TargetOffline_def case_prod_unfold Let_def link_ok_def)
  then obtain m where "om_ok m" "lk' = lk\<lparr>targetMapOnlineLabels := m, remoteOnlineTarget := removeAll t (remoteOnlineTarget lk),
        targetDistinctValue := om_erase t (targetDistinctValue lk), topRecvLabelSeq := om_erase t (topRecvLabelSeq lk)\<rparr>"
    by blast
  then show "link_ok k lk'" "incSequenceId lk' = incSequenceId lk" using assms(1)
    by (auto simp: link_ok_def pending_refs_def)
qed

lemma IncreaseLocalLabel_ok:
  assumes "link_ok k lk" "I (sa, a)" "wf_env env" "length l = COMM_LABEL_LENGTH"
    "unat (incSequenceId lk) + length (remoteOnlineTarget lk) < 2 ^ 64"
  shows "returns (\<lambda>(code, ts, lk', sa', a'). link_ok k lk' \<and> I (sa', a') \<and> incSequenceId lk \<le> incSequenceId lk')
    (IncreaseLocalLabel env send l (lk, sa, a))"
proof -
  let ?lk = "lk\<lparr>localOnlineLabels := insort_insert l (localOnlineLabels lk)\<rparr>"
  have "link_ok k ?lk" using assms(1,4) by (simp add: link_ok_def pending_refs_def insort_insert_wf)
  then show ?thesis using Trigger_ok[of k ?lk sa a env True] assms(2,3,5)
    by (auto simp: IncreaseLocalLabel_def Let_def elim!: returns_bind)
qed

lemma DecreaseLocalLabel_ok:
  assumes "link_ok k lk" "I (sa, a)" "wf_env env" "unat (incSequenceId lk) + length (remoteOnlineTarget lk) < 2 ^ 64"
  shows "returns (\<lambda>(code, lk', sa', a'). link_ok k lk' \<and> I (sa', a') \<and> incSequenceId lk \<le> incSequenceId lk')
    (DecreaseLocalLabel env send l (lk, sa, a))"
proof -
  let ?lk = "lk\<lparr>localOnlineLabels := removeAll l (localOnlineLabels lk)\<rparr>"
  have "link_ok k ?lk" using assms(1) by (simp add: link_ok_def pending_refs_def removeAll_wf)
  then show ?thesis using Trigger_ok[of k ?lk sa a env True] assms(2-4)
    by (auto simp: DecreaseLocalLabel_def Let_def elim!: returns_bind)
qed

lemma Receive_ok:
  assumes ok: "link_ok k lk" and I: "I (sa, a)" and inc: "incAckTriggerId lk \<noteq> - 1"
  shows "returns (\<lambda>(code, out', lk', sa', a'). link_ok k lk' \<and> I (sa', a') \<and> incSequenceId lk \<le> incSequenceId lk')
    (ReceiveLabelExchange env send t ls d s out (lk, sa, a))"
proof -
  let ?dd = "DetectDistinctValueChange env t d lk"
  let ?lk = "?dd\<lparr>topRecvLabelSeq := om_insert t s (topRecvLabelSeq ?dd),
      targetMapOnlineLabels := om_insert t ls (targetMapOnlineLabels ?dd)\<rparr>"
  have ok0: "link_ok k ?dd" by (rule Detect_ok[OF ok])
  have ok1: "link_ok k ?lk" using link_ok_received[OF ok] .
  have "incAckTriggerId ?lk \<noteq> - 1" using inc by simp
  note T = TriggerAck_ok[OF ok1 I this, of env t s]
  have "returns (\<lambda>(code, out', lk', sa', a'). link_ok k lk' \<and> I (sa', a') \<and> incSequenceId lk \<le> incSequenceId lk')
     (res_bind (TriggerLabelExchangeAckEvent env send t s (?lk, sa, a)) (\<lambda>(errCode, st). Ok (E_OK, out'', st)))" for out''
    by (rule returns_bind[OF T]) auto
  then show ?thesis using ok0 I unfolding ReceiveLabelExchange_def Let_def prod.case by (auto simp del: Detect_fields(5))
qed

lemma fire_timer_ok:
  assumes ok: "link_ok 0 lk" and I: "I (sa, a)" and i: "i < length (lk_timers lk)"
  shows "returns (\<lambda>(lk', sa', a'). link_ok 0 lk' \<and> I (sa', a') \<and> core lk' = core lk)
    (fire_timer env send i (lk, sa, a))"
proof -
  let ?lk = "lk\<lparr>lk_timers := drop_nth i (lk_timers lk)\<rparr>"
  have ok1: "link_ok (Suc 0) ?lk" using ok set_drop_nth[of i "lk_timers lk"] length_drop_nth[OF i]
    by (auto simp: link_ok_def pending_refs_def)
  have t: "timer_ok ?lk (lk_timers lk ! i)" using ok i by (simp add: link_ok_def)
  show ?thesis
  proof (cases "lk_timers lk ! i")
    case (ExchangeTimer t b s n d)
    then obtain w where "om_find (waitAckSeq ?lk) t = Some w" "s \<le> w" "comm_buf b" "n \<le> RETRANSMIT_LIMIT + 1" using t by auto
    from SendLabelExchange_ok[OF ok1 this(3) I this(4,1,2)] show ?thesis
      by (simp add: fire_timer_def ExchangeTimer Let_def)
  next
    case (AckTimer t b s k d)
    then obtain j where "om_find (ackTriggerId ?lk) t = Some j" "k < incAckTriggerId ?lk" "comm_buf b" using t by auto
    from SendLabelExchangeAck_ok[OF ok1 this(3) I this(1,2), of s] show ?thesis
      by (simp add: fire_timer_def AckTimer Let_def)
  qed
qed

lemma run_link_task_ok:
  assumes ok: "link_ok 0 lk" and I: "I (sa, a)" and i: "i < length (lk_tasks lk)" and e: "wf_env env" and inc: "incSequenceId lk \<noteq> - 1"
  shows "returns (\<lambda>(lk', sa', a'). link_ok 0 lk' \<and> I (sa', a') \<and> incSequenceId lk \<le> incSequenceId lk')
    (run_link_task env send i (lk, sa, a))"
proof -
  let ?lk = "lk\<lparr>lk_tasks := drop_nth i (lk_tasks lk)\<rparr>"
  have ok1: "link_ok (Suc 0) ?lk" using ok length_drop_nth[OF i] by (auto simp: link_ok_def pending_refs_def)
  have "incSequenceId (DecObjRef x) = incSequenceId x" for x by (simp add: DecObjRef_def)
  then show ?thesis using Trigger_to_ok[OF ok1 I e, of "lk_tasks lk ! i"] inc link_ok_Dec[of 0]
    by (auto simp: run_link_task_def elim!: returns_bind)
qed

lemma link_step_ok: "link_step send I c c' \<Longrightarrow> conf_ok I c \<Longrightarrow> conf_ok I c'"
proof (induction rule: link_step.induct)
  case (l_online env lk t sa a code ls lk' sa' a' fl)
  then show ?case using TargetOnline_ok[of 0 lk sa a env t] by (auto intro: inflight_mono simp: returns_def)
next
  case (l_offline env t lk sa ls acts lk' sa' a fl)
  then show ?case using TargetOffline_ok[of 0 lk sa a env t ls acts lk' sa'] by (auto intro: inflight_mono)
next
  case (l_open env l lk sa a code ts lk' sa' a' fl)
  then show ?case using IncreaseLocalLabel_ok[of 0 lk sa a env l] by (auto intro: inflight_mono simp: returns_def)
next
  case (l_close env lk l sa a code lk' sa' a' fl)
  then show ?case using DecreaseLocalLabel_ok[of 0 lk sa a env l] by (auto intro: inflight_mono simp: returns_def)
next
  case (l_trigger env lk chk sa a fail lk' sa' a' fl)
  then show ?case using Trigger_ok[of 0 lk sa a env chk] by (auto intro: inflight_mono simp: returns_def)
next
  case (l_receive lk env t ls d s out sa a code out' lk' sa' a' fl)
  then show ?case using Receive_ok[of 0 lk sa a env t ls d s out] by (auto intro: inflight_mono simp: returns_def)
next
  case (l_ack env t d s lk code lk' sa a fl)
  moreover have "incSequenceId (snd (ReceiveLabelExchangeAck env t d s lk)) = incSequenceId lk"
    by (auto simp: ReceiveLabelExchangeAck_def Let_def split: option.split)
  ultimately show ?case using Ack_ok[of 0 lk env t d s] by (auto intro: inflight_mono)
next
  case (l_update lk sa a fl t cs)
  then show ?case by (auto simp: UpdateOnlineLabels_def link_ok_def pending_refs_def case_prod_unfold intro!: om_ok_fold intro: inflight_mono)
next
  case (l_clear lk sa a fl)
  then show ?case by (auto simp: Linker_ClearOnlineLabel_def link_ok_def pending_refs_def intro: inflight_mono)
next
  case (l_timer i lk env sa a lk' sa' a' fl)
  then show ?case using fire_timer_ok[of lk sa a i env] by (auto simp: returns_def dest: inflight_core)
next
  case (l_task env lk i sa a lk' sa' a' fl)
  then show ?case using run_link_task_ok[of lk sa a i env] by (auto intro: inflight_mono simp: returns_def)
next
  case (l_number lk env t sa s lk' sa' a fl)
  moreover from this have "lk' = lk\<lparr>incSequenceId := incSequenceId lk + 1\<rparr>" "s = incSequenceId lk"
      "sa' = snd (adapter_IsSupport (le_hs env) t sa)"
    by (auto simp: trigger_number_def case_prod_unfold Let_def split: if_splits)
  ultimately show ?case using link_ok_number[of 0 lk] IsSupport_I[of sa a "le_hs env" t] inc64_less[of "incSequenceId lk"]
    by (auto intro: inflight_mono)
next
  case (l_build env i fl t s lk sa b sa' a)
  then have "inflight_ok lk (fl ! i)" using nth_mem[of i fl] by (metis conf_ok.simps)
  moreover have "comm_buf b" "I (sa', a)"
    using l_build snapshot_I[of sa a env lk]
      BuildLabelExchange_cases[OF snapshot_wf[of env lk sa], of "le_mem env" "le_be env" "localDistinctValue lk" s]
    by (auto simp: trigger_build_def case_prod_unfold Let_def link_ok_def)
  ultimately show ?case using l_build set_update_subset_insert[of fl i "Built t s b"] by auto
next
  case (l_commit i fl t s b env lk sa a lk' sa' a')
  then have "inflight_ok lk (fl ! i)" using nth_mem[of i fl] by (metis conf_ok.simps)
  moreover from this have "link_ok 0 lk' \<and> I (sa', a') \<and> incSequenceId lk' = incSequenceId lk"
    using l_commit trigger_commit_ok[of 0 lk b sa a s env t] by (auto simp: returns_def)
  ultimately show ?case using l_commit set_drop_nth[of i fl] inflight_mono[of lk _ lk'] by auto
next
  case (l_other sa' a' lk sa a fl)
  then show ?case by simp
qed

lemma link_reach_ok: "link_reach send I c \<Longrightarrow> conf_ok I c"
proof (induction rule: link_reach.induct)
  case (l_init sa a now)
  then show ?case
    by (simp add: Linker_Initialize_def new_CommunicatorLinker_def link_ok_def pending_refs_def wf_labels_def)
qed (rule link_step_ok)

end

section \<open>What the handlers report\<close>

lemma om_find_fold_insert:
  "om_find (fold (\<lambda>l. om_insert l v) ls m) x = (if x \<in> set ls then Some v else om_find m x)"
  by (induction ls arbitrary: m) (auto simp: om_find_insert)

lemma change_labels_find:
  "om_find (change_labels latest known out) l =
     (if l \<in> set latest \<and> l \<notin> set known then Some True
      else if l \<in> set known \<and> l \<notin> set latest then Some False else om_find out l)"
  by (auto simp: change_labels_def om_find_fold_insert)

lemma set_fold_collect:
  "set (fold (\<lambda>(t, ls) out. if t \<notin> T then out else if l \<in> set ls then insort_insert t out else out) es out) =
     set out \<union> {t. t \<in> T \<and> (\<exists>ls. (t, ls) \<in> set es \<and> l \<in> set ls)}"
  by (induction es arbitrary: out) (auto simp: set_insort_insert split: if_splits)

context label_transport
begin

lemma Receive_applies:
  assumes ok: "link_ok k lk" and I: "I (sa, a)" and inc: "incAckTriggerId lk \<noteq> - 1"
    and fresh: "\<not> (case om_find (topRecvLabelSeq (DetectDistinctValueChange env t d lk)) t of None \<Rightarrow> False | Some q \<Rightarrow> s < q)"
  shows "returns (\<lambda>(code, out', lk', sa', a'). code = E_OK \<and>
      out' = change_labels ls (om_get [] (targetMapOnlineLabels lk) t) out \<and>
      targetMapOnlineLabels lk' = om_insert t ls (targetMapOnlineLabels lk) \<and> om_find (topRecvLabelSeq lk') t = Some s)
    (ReceiveLabelExchange env send t ls d s out (lk, sa, a))"
proof -
  let ?dd = "DetectDistinctValueChange env t d lk"
  let ?lk = "?dd\<lparr>topRecvLabelSeq := om_insert t s (topRecvLabelSeq ?dd),
      targetMapOnlineLabels := om_insert t ls (targetMapOnlineLabels ?dd)\<rparr>"
  have ok1: "link_ok k ?lk" using link_ok_received[OF ok] .
  have "incAckTriggerId ?lk \<noteq> - 1" using inc by simp
  note T = TriggerAck_ok[OF ok1 I this, of env t s]
  have "returns (\<lambda>(code, out', lk', sa', a'). code = E_OK \<and> out' = out'' \<and>
        targetMapOnlineLabels lk' = om_insert t ls (targetMapOnlineLabels lk) \<and> om_find (topRecvLabelSeq lk') t = Some s)
     (res_bind (TriggerLabelExchangeAckEvent env send t s (?lk, sa, a)) (\<lambda>(errCode, st). Ok (E_OK, out'', st)))" for out''
    by (rule returns_bind[OF T]) auto
  then show ?thesis using fresh unfolding ReceiveLabelExchange_def Let_def prod.case by simp
qed

lemma Increase_reports:
  assumes "link_ok k lk" "I (sa, a)" "wf_env env" "length l = COMM_LABEL_LENGTH"
    "unat (incSequenceId lk) + length (remoteOnlineTarget lk) < 2 ^ 64"
  shows "returns (\<lambda>(code, ts, lk', sa', a').
      set ts = {t. t \<in> set (remoteOnlineTarget lk) \<and> l \<in> set (om_get [] (targetMapOnlineLabels lk) t)} \<and>
      localOnlineLabels lk' = insort_insert l (localOnlineLabels lk))
    (IncreaseLocalLabel env send l (lk, sa, a))"
proof -
  let ?lk = "lk\<lparr>localOnlineLabels := insort_insert l (localOnlineLabels lk)\<rparr>"
  have ok: "link_ok k ?lk" using assms(1,4) by (simp add: link_ok_def pending_refs_def insort_insert_wf)
  have "om_ok (targetMapOnlineLabels lk)" using assms(1) by (simp add: link_ok_def)
  then have "(\<exists>ls. (t, ls) \<in> set (targetMapOnlineLabels lk) \<and> l \<in> set ls) \<longleftrightarrow> l \<in> set (om_get [] (targetMapOnlineLabels lk) t)" for t
    by (cases "om_find (targetMapOnlineLabels lk) t") (auto simp: om_get_def om_find_iff_mem[symmetric])
  then show ?thesis using Trigger_ok[OF ok assms(2,3), of True] assms(5)
    by (auto simp: IncreaseLocalLabel_def Let_def set_fold_collect dest: seq_core_fields(8) elim!: returns_bind)
qed

end

section \<open>Retransmission\<close>

text \<open>
  A transport that gives scripted answers and counts the frames it takes, and the timers of the linker
  fired one after the other as long as there are any.
\<close>

fun scripted :: "(errcode list \<times> nat) sender" where
  "scripted t b ft cfg (sa, [], n) = Ok (E_CONTAINER_FULL, b, sa, [], n)"
| "scripted t b ft cfg (sa, c # cs, n) = Ok (c, b, sa, cs, if c = E_OK then Suc n else n)"

fun fire_all :: "nat \<Rightarrow> link_env \<Rightarrow> 'a sender \<Rightarrow> 'a link_state \<Rightarrow> 'a link_state res" where
  "fire_all 0 env send st = Ok st"
| "fire_all (Suc k) env send st =
     (if lk_timers (fst st) = [] then Ok st else res_bind (fire_timer env send 0 st) (fire_all k env send))"

definition due :: "target \<Rightarrow> u64 \<Rightarrow> linker \<Rightarrow> bool" where
  "due t s lk \<longleftrightarrow> t \<in> set (remoteOnlineTarget lk) \<and> om_find (waitAckSeq lk) t = Some s \<and>
     (case om_find (recvAckSeq lk) t of None \<Rightarrow> True | Some r \<Rightarrow> r < s)"

lemma due_needless: "due t s lk \<Longrightarrow> exchange_needless t s n lk \<longleftrightarrow> n > RETRANSMIT_LIMIT"
  by (auto simp: due_def exchange_needless_def om_get_find not_le split: option.splits)

lemma due_core: "core lk = core lk' \<Longrightarrow> due t s lk = due t s lk'"
  using core_fields[of lk lk'] by (simp add: due_def)

lemma due_touch: "due t s lk \<Longrightarrow> lk\<lparr>waitAckSeq := om_touch 0 t (waitAckSeq lk)\<rparr> = lk"
  by (simp add: due_def)

lemma Send_due:
  assumes "due t s lk"
  shows "SendLabelExchange env send t b s n (lk, sa, a) =
    (if n > RETRANSMIT_LIMIT then Ok (DecObjRef lk, sa, a)
     else if Clone (le_mem env) b = Fault then Fault
     else res_bind (send t b COMMUNICATION_LABEL_EXCHANGE link_config (sa, a)) (\<lambda>(errCode, buff, sa', a').
       if errCode = E_OK
       then (case Clone (le_mem env) b of
               Ok clone \<Rightarrow> Ok (SuspendByOnceTimer (ExchangeTimer t clone s (n + 1) (GetDynamicTimeLapseForWaitingAck n)) lk, sa', a')
             | _ \<Rightarrow> Ok (lk, sa', a'))
       else Ok (SuspendByOnceTimer (ExchangeTimer t buff s n TIME_LAPSE_FOR_RETRY_SEND) lk, sa', a')))"
  unfolding SendLabelExchange_def prod.case Let_def due_touch[OF assms] due_needless[OF assms] by (rule refl)

lemma Clone_never_oom:
  assumes "comm_buf b"
  shows "\<exists>c. Clone never_oom b = Ok c \<and> comm_buf c"
proof -
  have "Clone never_oom b \<noteq> Fault" by (rule comm_buf_Clone_safe[OF assms])
  moreover have "Clone never_oom b \<noteq> Err e" for e using assms
    by (auto simp: Clone_def comm_buf_def guard_err_def sb_defs bytes_mem_def read_at_def split: option.splits)
  ultimately show ?thesis using comm_buf_Clone[OF assms] by (cases "Clone never_oom b") blast+
qed

text \<open>One firing of the only timer.\<close>

lemma fire_due:
  assumes "lk_timers lk = [ExchangeTimer t b s n d]" "due t s lk" "comm_buf b" "le_mem env = never_oom" "n \<le> RETRANSMIT_LIMIT"
  shows "\<exists>lk' b' d'. fire_timer env scripted 0 (lk, sa, c # cs, m) = Ok (lk', sa, cs, if c = E_OK then Suc m else m) \<and>
    lk_timers lk' = [ExchangeTimer t b' s (if c = E_OK then n + 1 else n) d'] \<and> comm_buf b' \<and> due t s lk' \<and>
    lk_refs lk' = lk_refs lk"
proof -
  let ?lk = "lk\<lparr>lk_timers := []\<rparr>"
  have due: "due t s ?lk" using assms(2) by (simp add: due_def)
  obtain cl where cl: "Clone never_oom b = Ok cl" "comm_buf cl" using Clone_never_oom[OF assms(3)] by blast
  have "fire_timer env scripted 0 (lk, sa, c # cs, m) = SendLabelExchange env scripted t b s n (?lk, sa, c # cs, m)"
    using assms(1) by (simp add: fire_timer_def drop_nth_def)
  also have "\<dots> = Ok (if c = E_OK
      then (SuspendByOnceTimer (ExchangeTimer t cl s (n + 1) (GetDynamicTimeLapseForWaitingAck n)) ?lk, sa, cs, Suc m)
      else (SuspendByOnceTimer (ExchangeTimer t b s n TIME_LAPSE_FOR_RETRY_SEND) ?lk, sa, cs, m))"
    using assms(5) cl by (simp add: Send_due[OF due] assms(4))
  finally have f: "fire_timer env scripted 0 (lk, sa, c # cs, m) = \<dots>" .
  show ?thesis
  proof (cases "c = E_OK")
    case True
    show ?thesis unfolding f
      by (rule exI[of _ "SuspendByOnceTimer (ExchangeTimer t cl s (n + 1) (GetDynamicTimeLapseForWaitingAck n)) ?lk"])
         (use True cl due in \<open>simp add: SuspendByOnceTimer_def due_def\<close>)
  next
    case False
    show ?thesis unfolding f
      by (rule exI[of _ "SuspendByOnceTimer (ExchangeTimer t b s n TIME_LAPSE_FOR_RETRY_SEND) ?lk"])
         (use False assms(3) due in \<open>simp add: SuspendByOnceTimer_def due_def\<close>)
  qed
qed

lemma fire_exhausted:
  assumes "lk_timers lk = [ExchangeTimer t b s n d]" "due t s lk" "n > RETRANSMIT_LIMIT"
  shows "\<exists>lk'. fire_timer env send 0 (lk, sa, a) = Ok (lk', sa, a) \<and> lk_timers lk' = [] \<and> lk_refs lk' = lk_refs lk - 1"
proof -
  let ?lk = "lk\<lparr>lk_timers := []\<rparr>"
  have due: "due t s ?lk" using assms(2) by (simp add: due_def)
  have "fire_timer env send 0 (lk, sa, a) = Ok (DecObjRef ?lk, sa, a)"
    using assms(1,3) by (simp add: fire_timer_def drop_nth_def Send_due[OF due])
  then show ?thesis by (simp add: DecObjRef_def)
qed

lemma retransmission_run:
  assumes "lk_timers lk = [ExchangeTimer t b s n d]" "due t s lk" "comm_buf b" "le_mem env = never_oom"
    "unat n + j = 21" "j \<le> count_list cs E_OK"
  shows "\<exists>k lk' cs'. fire_all k env scripted (lk, sa, cs, m) = Ok (lk', sa, cs', m + j) \<and> lk_timers lk' = [] \<and>
    lk_refs lk' = lk_refs lk - 1"
  using assms
proof (induction cs arbitrary: lk b n d j m)
  case Nil
  then have "n > RETRANSMIT_LIMIT" by (simp add: RETRANSMIT_LIMIT_def word_less_nat_alt)
  from fire_exhausted[OF Nil(1,2) this, of env scripted sa "([], m)"] obtain lk' where
    "fire_timer env scripted 0 (lk, sa, [], m) = Ok (lk', sa, [], m)" "lk_timers lk' = []" "lk_refs lk' = lk_refs lk - 1" by blast
  then show ?case using Nil by (intro exI[of _ 1]) simp
next
  case (Cons c cs)
  show ?case
  proof (cases "j = 0")
    case True
    then have "n > RETRANSMIT_LIMIT" using Cons.prems(5) by (simp add: RETRANSMIT_LIMIT_def word_less_nat_alt)
    from fire_exhausted[OF Cons.prems(1,2) this, of env scripted sa "(c # cs, m)"] obtain lk' where
      "fire_timer env scripted 0 (lk, sa, c # cs, m) = Ok (lk', sa, c # cs, m)" "lk_timers lk' = []"
      "lk_refs lk' = lk_refs lk - 1" by blast
    then show ?thesis using Cons.prems(1) True by (intro exI[of _ 1]) simp
  next
    case False
    then have n: "n \<le> RETRANSMIT_LIMIT" using Cons.prems(5) by (simp add: RETRANSMIT_LIMIT_def word_le_nat_alt)
    obtain lk1 b1 d1 where f: "fire_timer env scripted 0 (lk, sa, c # cs, m) = Ok (lk1, sa, cs, if c = E_OK then Suc m else m)"
      "lk_timers lk1 = [ExchangeTimer t b1 s (if c = E_OK then n + 1 else n) d1]" "comm_buf b1" "due t s lk1"
      "lk_refs lk1 = lk_refs lk"
      using fire_due[OF Cons.prems(1-4) n, of sa c cs m] by blast
    have n1: "unat (n + 1) = unat n + 1" using n unat_add32[of n 1] by (simp add: RETRANSMIT_LIMIT_def word_le_nat_alt)
    let ?j = "if c = E_OK then j - 1 else j"
    have "?j \<le> count_list cs E_OK" "unat (if c = E_OK then n + 1 else n) + ?j = 21"
      using Cons.prems(5,6) False n1 by (auto split: if_splits)
    then obtain k lk' cs' where "fire_all k env scripted (lk1, sa, cs, if c = E_OK then Suc m else m) =
        Ok (lk', sa, cs', (if c = E_OK then Suc m else m) + ?j)" "lk_timers lk' = []" "lk_refs lk' = lk_refs lk1 - 1"
      using Cons.IH[OF f(2,4,3) Cons.prems(4), of ?j "if c = E_OK then Suc m else m"] by blast
    then show ?thesis using f Cons.prems(1) False by (intro exI[of _ "Suc k"]) (auto split: if_splits)
  qed
qed

text \<open>
  C40: Termination of the announcement.  An exchange that stays due (the target online, no newer exchange,
  no acknowledgement) is handed to the transport successfully exactly 21 times, the first time and
  20 retransmissions, however many attempts the transport refuses in between; then the timer chain
  ends and the linker's reference is given back.  The waiting times add up to at most 6230 seconds
  without wrapping around.
\<close>

theorem exchange_retransmitted_21_times:
  assumes "lk_timers lk = [ExchangeTimer t b s 0 d]" "due t s lk" "comm_buf b" "le_mem env = never_oom"
    "21 \<le> count_list answers E_OK"
  shows "(\<exists>k lk' rest. fire_all k env scripted (lk, sa, answers, 0) = Ok (lk', sa, rest, 21) \<and>
      lk_timers lk' = [] \<and> lk_refs lk' = lk_refs lk - 1) \<and>
    (\<Sum>n \<leftarrow> [0..<21]. unat (GetDynamicTimeLapseForWaitingAck (of_nat n))) = 6230000"
proof
  show "\<exists>k lk' rest. fire_all k env scripted (lk, sa, answers, 0) = Ok (lk', sa, rest, 21) \<and>
      lk_timers lk' = [] \<and> lk_refs lk' = lk_refs lk - 1"
    using retransmission_run[OF assms(1-4), of 21 answers sa 0] assms(5) by simp
  show "(\<Sum>n \<leftarrow> [0..<21]. unat (GetDynamicTimeLapseForWaitingAck (of_nat n))) = 6230000"
    by (simp add: upt_rec GetDynamicTimeLapseForWaitingAck_def RETRANSMIT_LIMIT_EQUAL_INTERVAL_def
        TIME_LAPSE_FOR_WAITING_ACK_def)
qed

text \<open>
  The labels of a device that is known to exchange labels are forgotten when it goes offline, although
  they are meant to be remembered for its return: the adapter drops its record of the device first, so the
  question whether the device needs no label exchange is answered with the default, yes.
\<close>

theorem offline_forgets_labels:
  assumes "mode_fixed False s" "om_find (remoteOptimizeInfo s) t = Some False"
    "Linker_TargetOffline env t (lk, Some s) = (labels, acts, lk', sa')"
  shows "\<not> fst (Adapter_IsSupport (le_hs env) t s) \<and> om_find (targetMapOnlineLabels lk') t = None \<and>
    (\<exists>s'. sa' = Some s' \<and> fst (Adapter_IsSupport hs t s'))"
proof -
  have h: "sa_hasHandle s" using assms(1) by (simp add: mode_fixed_def)
  let ?s = "s\<lparr>remoteOptimizeInfo := om_erase t (remoteOptimizeInfo s)\<rparr>"
  let ?s' = "?s\<lparr>remoteOptimizeInfo := om_insert t True (remoteOptimizeInfo ?s)\<rparr>"
  have o: "Adapter_TargetOffline t s = ([RemoveRemoteSubscribe t], ?s)" using h by (simp add: Adapter_TargetOffline_def)
  have m: "mode_fixed False ?s" "mode_fixed False ?s'" using assms(1) by simp_all
  have i: "Adapter_IsSupport (le_hs env) t ?s = (True, ?s')"
    using h mode_fixed_query[OF m(1)] by (simp add: Adapter_IsSupport_def om_find_erase)
  have "sa' = Some ?s'" "targetMapOnlineLabels lk' = om_erase t (om_touch [] t (targetMapOnlineLabels lk))"
    using assms(3) by (auto simp: Linker_TargetOffline_def o adapter_IsSupport_def i)
  moreover have "fst (Adapter_IsSupport hs t ?s')"
    using h mode_fixed_query[OF m(2)] by (simp add: Adapter_IsSupport_def)
  moreover have "\<not> fst (Adapter_IsSupport (le_hs env) t s)"
    using h assms(2) mode_fixed_query[OF assms(1)] by (simp add: Adapter_IsSupport_def)
  ultimately show ?thesis by (simp add: om_find_erase)
qed

section \<open>Witnesses\<close>

definition sample_env :: link_env where
  "sample_env = \<lparr>le_mem = never_oom, le_be = False, le_hs = True, le_hash = (\<lambda>_. replicate 32 1), le_pool = True\<rparr>"

definition sample_exchange :: serial_buffer where
  "sample_exchange = \<lparr>oringinalBytes = Some (replicate 64 0), bytesOff = Some 0, externalBytes = None, totalLen = 64,
     headerLen = 32, payloadLen = 32, paddingLen = 0, extendHeadLen = 0, isExternalStackMemory = False\<rparr>"

lemma sample_exchange_ok: "comm_buf sample_exchange"
  by (simp add: comm_buf_def sample_exchange_def sb_defs MAX_TOTAL_LEN_def)

definition sample_linker :: linker where
  "sample_linker = new_CommunicatorLinker\<lparr>incSequenceId := 8, waitAckSeq := [(''dev'', 7)], remoteOnlineTarget := [''dev''],
     targetMapOnlineLabels := [(''dev'', [replicate 32 1])],
     lk_timers := [ExchangeTimer ''dev'' sample_exchange 7 0 5000], lk_refs := 2\<rparr>"

theorem exchange_retransmitted_21_times_witness:
  "\<exists>k lk' rest. fire_all k sample_env scripted
      (sample_linker, None, replicate 3 E_CONTAINER_FULL @ replicate 30 E_OK, 0) = Ok (lk', None, rest, 21) \<and>
      lk_timers lk' = [] \<and> lk_refs lk' = 1"
proof -
  have t: "lk_timers sample_linker = [ExchangeTimer ''dev'' sample_exchange 7 0 5000]" "due ''dev'' 7 sample_linker"
    "lk_refs sample_linker = 2" "le_mem sample_env = never_oom"
    by (simp_all add: sample_linker_def due_def new_CommunicatorLinker_def om_find_Cons sample_env_def)
  have "21 \<le> count_list (replicate 3 E_CONTAINER_FULL @ replicate 30 E_OK) E_OK"
    by (simp add: numeral_eq_Suc)
  from exchange_retransmitted_21_times[OF t(1,2) sample_exchange_ok t(4) this, of None] t(3) show ?thesis by auto
qed

definition labelling_adapter :: status_adapter where
  "labelling_adapter = snd (SetRemoteOptimizeCommunication True ''dev'' False sample_adapter)"

theorem offline_forgets_labels_witness:
  "\<exists>labels acts lk' sa'. Linker_TargetOffline sample_env ''dev'' (sample_linker, Some labelling_adapter) = (labels, acts, lk', sa') \<and>
     labels = [replicate 32 1] \<and> \<not> fst (Adapter_IsSupport True ''dev'' labelling_adapter) \<and>
     om_find (targetMapOnlineLabels lk') ''dev'' = None"
proof -
  obtain labels acts lk' sa' where r:
    "Linker_TargetOffline sample_env ''dev'' (sample_linker, Some labelling_adapter) = (labels, acts, lk', sa')"
    by (metis prod_cases4)
  have m: "mode_fixed False labelling_adapter" unfolding mode_fixed_def by code_simp
  have f: "om_find (remoteOptimizeInfo labelling_adapter) ''dev'' = Some False" by code_simp
  have "labels = om_get [] (targetMapOnlineLabels sample_linker) ''dev''"
    using r by (simp add: Linker_TargetOffline_def case_prod_unfold Let_def)
  then have "labels = [replicate 32 1]" by (simp add: sample_linker_def om_get_def om_find_Cons)
  moreover have "le_hs sample_env" by (simp add: sample_env_def)
  ultimately show ?thesis using offline_forgets_labels[OF m f r, of True] r by simp
qed

end
