(* ===== verification/Protocol_Fragment.thy ===== *)
theory Protocol_Fragment
  imports Protocol_Parse
begin

text \<open>
  Splitting a frame into packets (\<^verbatim>\<open>SplitFrameIntoPacketsIfNeed\<close>, \<^verbatim>\<open>FrameFragmentation\<close>,
  \<^verbatim>\<open>FillFragmentPacket\<close>): the exact bytes of every packet, that the fragments put together are
  the frame, how large packets get, and that the receiver's analysis of a packet
  (\<^verbatim>\<open>AnalyzeSplitStructure\<close>) recovers the structure of the split.
\<close>

section \<open>One packet\<close>

lemma overwrite_at_end:
  "length pre = off \<Longrightarrow> length src \<le> length t \<Longrightarrow> overwrite (pre @ t) off src = pre @ src @ drop (length src) t"
  by (simp add: overwrite_def)

lemma overwrite_prefix: "length pre = off \<Longrightarrow> overwrite (pre @ t) (off + k) src = pre @ overwrite t k src"
  by (simp add: overwrite_def)

text \<open>The three copies of \<^verbatim>\<open>FillFragmentPacket\<close> lay headers and fragment out one after the other.\<close>

lemma FillFragmentPacket_seals:
  assumes pre: "length pre = off" and L: "40 + unat fragLen \<le> unat L" "8 dvd unat L" "unat L \<le> 2000000000"
    and src: "unat fragLen \<le> length fragBytes"
  shows "FillFragmentPacket be (ConvertHostToNet_phy be h) (ConvertHostToNet_opt be opt) fragBytes fragLen
           (pre @ replicate (unat L) 0) off L =
         Ok (pre @ sealed be h (opt_net opt @ take (unat fragLen) fragBytes @
                                replicate (unat L - 40 - unat fragLen) 0))"
proof -
  let ?body = "opt_net opt @ take (unat fragLen) fragBytes @ replicate (unat L - 40 - unat fragLen) 0"
  have l0: "L \<noteq> 0" using L(1) by auto
  have l1: "unat (L - of_nat SIZEOF_PHY) = unat L - 32"
    using L(1) by (subst unat_sub) (auto simp: sizeofs u32_le)
  have l2: "unat (L - of_nat SIZEOF_PHY - of_nat SIZEOF_OPT) = unat L - 40"
    using L(1) l1 by (subst unat_sub) (auto simp: sizeofs u32_le)
  have p1: "memcpy_s (pre @ replicate (unat L) 0) off (unat L) (phy_net h) = Ok (pre @ phy_net h @ replicate (unat L - 32) 0)"
    using pre L(1) by (simp add: memcpy_s_def write_at_def overwrite_at_end)
  have p2: "memcpy_s (pre @ phy_net h @ replicate (unat L - 32) 0) (off + 32) (unat L - 32) (opt_net opt) =
      Ok ((pre @ phy_net h @ opt_net opt) @ replicate (unat L - 40) 0)"
    using pre L(1) overwrite_at_end[of "pre @ phy_net h" "off + 32" "opt_net opt"]
    by (simp add: memcpy_s_def write_at_def)
  have p3: "memcpy_s ((pre @ phy_net h @ opt_net opt) @ replicate (unat L - 40) 0) (off + 32 + 8) (unat L - 40)
      (take (unat fragLen) fragBytes) = Ok (pre @ phy_net h @ ?body)"
    using pre L(1) src overwrite_at_end[of "pre @ phy_net h @ opt_net opt" "40 + off" "take (unat fragLen) fragBytes"]
    by (simp add: memcpy_s_def write_at_def)
  have lb: "length ?body = unat L - 32" using L(1) src by simp
  have u: "unat (L - LENGTH_BEFORE_SUM_RANGE) = unat L - 16" using L(1) by (subst unat_len_sub16) auto
  have m: "(L - LENGTH_BEFORE_SUM_RANGE) mod 8 = 0"
    by (rule word_unat_eq_iff[THEN iffD2]) (use L(1,2) in \<open>simp add: unat_mod u\<close>)
  have sum: "CalculateXorSum be (drop (off + unat LENGTH_BEFORE_SUM_RANGE) (pre @ phy_net h @ ?body))
      (L - LENGTH_BEFORE_SUM_RANGE) = Ok (seal_sum be h ?body)"
    using pre L m u lb CalculateXorSum_Ok[of "L - LENGTH_BEFORE_SUM_RANGE" "drop 16 (phy_net h @ ?body)" be]
    by (simp add: seal_sum_def sizeofs u32_le)
  have w: "write_at (pre @ phy_net h @ ?body) (off + 8) (net_bytes (seal_sum be h ?body)) = Ok (pre @ sealed be h ?body)"
    using pre by (simp add: write_at_def overwrite_prefix overwrite_sum sealed_def)
  have rd: "read_at fragBytes 0 (unat fragLen) = Ok (take (unat fragLen) fragBytes)"
    using src by (simp add: read_at_def)
  have st: "store_word be (HostToNet be s) = net_bytes s" for s :: u64 by (simp add: store_HostToNet)
  show ?thesis
    unfolding FillFragmentPacket_def phy.image_to_net opt.image_to_net l1 l2 rd
    unfolding sizeofs
    by (simp only: l0 p1 p2 p3 sum w st res_bind.simps guard_err_simps res.case)
qed

section \<open>The fragments of a frame\<close>

text \<open>A split description that the code can work with: see the bounds on its parts.\<close>

definition split_ok :: "FrameFragmentInfo \<Rightarrow> bool" where
  "split_ok info \<longleftrightarrow>
     2 \<le> unat (fi_fragCount info) \<and> unat (fi_splitLength info) \<le> 104857600 \<and>
     fi_extendHeadSize info \<le> MAX_EXTEND_HEAD_LENGTH \<and>
     unat (fi_extendHeadSize info) \<le> length (deref (fi_oringinalBytes info))"

definition frag_len :: "nat \<Rightarrow> nat \<Rightarrow> nat \<Rightarrow> nat" where
  "frag_len S n i = (if i \<noteq> n - 1 then S div n else S div n + S mod n)"

definition fragment :: "byte list \<Rightarrow> nat \<Rightarrow> nat \<Rightarrow> nat \<Rightarrow> byte list" where
  "fragment bs S n i = take (frag_len S n i) (drop (i * (S div n)) bs)"

lemma div_plus_mod_le: "0 < n \<Longrightarrow> m div n + m mod n \<le> (m::nat)"
proof -
  assume "0 < n"
  then have "m div n * 1 \<le> m div n * n" by (intro mult_le_mono2) simp
  then show ?thesis using div_mult_mod_eq[of m n] by linarith
qed

lemma unat_ucast_16_32: "unat (ucast (w::u16) :: u32) = unat w"
  unfolding unsigned_ucast_eq take_bit_eq_mod by (rule mod_less, rule less_trans[OF unat_u16_lt]) simp

lemma unat_piece_len:
  assumes "split_ok info" "unat i < unat (fi_fragCount info)"
  shows "unat (piece_len info i) = frag_len (unat (fi_splitLength info)) (unat (fi_fragCount info)) (unat i)"
proof -
  let ?S = "unat (fi_splitLength info)" and ?n = "unat (fi_fragCount info)"
  have n: "unat (ucast (fi_fragCount info) :: u32) = ?n"
    by (rule unat_ucast_16_32)
  have q: "unat (fi_splitLength info div ucast (fi_fragCount info)) = ?S div ?n" by (simp add: unat_div n)
  have lt: "?S mod ?n < ?n" using assms(1) by (simp add: split_ok_def)
  have "unat (fi_splitLength info mod ucast (fi_fragCount info)) = ?S mod ?n" by (simp only: unat_mod n)
  moreover have "?S mod ?n < 65536" by (rule less_trans[OF lt]) simp
  ultimately have "unat (ucast (fi_splitLength info mod ucast (fi_fragCount info)) :: u16) = ?S mod ?n"
    by (simp add: unsigned_ucast_eq take_bit_eq_mod)
  then have r: "unat (ucast (ucast (fi_splitLength info mod ucast (fi_fragCount info)) :: u16) :: u32) = ?S mod ?n"
    by (simp add: unat_ucast_16_32)
  have s: "unat (fi_splitLength info div ucast (fi_fragCount info) +
      ucast (ucast (fi_splitLength info mod ucast (fi_fragCount info)) :: u16)) = ?S div ?n + ?S mod ?n"
  proof (subst unat_add32)
    have "?S div ?n + ?S mod ?n \<le> ?S" using assms(1) by (intro div_plus_mod_le) (simp add: split_ok_def)
    then show "unat (fi_splitLength info div ucast (fi_fragCount info)) +
      unat (ucast (ucast (fi_splitLength info mod ucast (fi_fragCount info)) :: u16) :: u32) < 2 ^ 32"
      unfolding q r by (rule le_less_trans) simp
  qed (simp add: q r)
  have "i \<noteq> fi_fragCount info - 1 \<longleftrightarrow> unat i \<noteq> ?n - 1"
    using assms(1) by (subst word_unat_eq_iff) (simp add: split_ok_def unat_sub word_le_nat_alt)
  then show ?thesis by (simp add: piece_len_def Let_def frag_len_def q s)
qed

text \<open>The header of packet \<open>i\<close> and the packet itself, over the frame's own header.\<close>

definition pkt_header :: "CommPhyHeader \<Rightarrow> nat \<Rightarrow> CommPhyHeader" where
  "pkt_header h len =
     h\<lparr>ph_packetLen := of_nat (40 + 8 * ((len + 7) div 8)), ph_checkSum := 0,
       ph_packetType := ph_packetType h OR PACKET_TYPE_FRAGMENTED,
       ph_paddingLen := of_nat (8 * ((len + 7) div 8) - len)\<rparr>"

definition pkt :: "bool \<Rightarrow> CommPhyHeader \<Rightarrow> byte list \<Rightarrow> nat \<Rightarrow> nat \<Rightarrow> nat \<Rightarrow> byte list" where
  "pkt be h body S n i =
     (let f = fragment body S n i; pad = 8 * ((frag_len S n i + 7) div 8) - frag_len S n i
      in sealed be (pkt_header h (frag_len S n i))
           (opt_net \<lparr>po_frameLen = of_nat (S + 32), po_fragCount = of_nat n, po_fragNo = of_nat i\<rparr> @
            f @ replicate pad 0))"

lemma frag_len_le: "0 < n \<Longrightarrow> frag_len S n i \<le> S"
  using div_plus_mod_le[of n S] by (auto simp: frag_len_def)

lemma frag_offset: "i < n \<Longrightarrow> i * (S div n) + frag_len S n i \<le> S"
proof -
  assume i: "i < n"
  show ?thesis
  proof (cases "i = n - 1")
    case True
    have "(n - 1) * (S div n) + S div n = n * (S div n)" using i by (cases n) auto
    then show ?thesis using True by (simp add: frag_len_def) (metis add.assoc div_mult_mod_eq le_refl mult.commute)
  next
    case False
    have "Suc i * (S div n) \<le> n * (S div n)" using i by (intro mult_le_mono1) simp
    then show ?thesis using False by (simp add: frag_len_def) (metis add.commute mult.commute order_trans times_div_less_eq_dividend)
  qed
qed

lemma extend_head_copied:
  assumes "unat ext \<le> length (deref orig)" "N = unat ext + T"
  shows "(if ext > 0 then FillFragmentPacketExtendHead orig ext (replicate N 0) ext else Ok (replicate N 0)) =
    Ok (take (unat ext) (deref orig) @ replicate T 0)"
proof (cases "ext > 0")
  case True
  have "overwrite (replicate N 0) 0 (take (unat ext) (deref orig)) = take (unat ext) (deref orig) @ replicate T (0::byte)"
    using assms by (simp add: overwrite_def)
  then show ?thesis using True assms
    by (simp add: FillFragmentPacketExtendHead_def read_at_def memcpy_s_def write_at_def)
next
  case False
  then have "ext = 0" by (simp add: u32_less unat_eq_zero)
  then show ?thesis using assms by simp
qed

lemma pkt_header_eq:
  assumes "unat pl = f" "f \<le> 104857600"
  shows "FillPhyHeaderLenInfo (BYTE_8_ALIGN pl + of_nat SIZEOF_PHY + of_nat SIZEOF_OPT) 0 PACKET_TYPE_FRAGMENTED
      (ucast (BYTE_8_ALIGN pl - pl)) h = pkt_header h f"
    and "unat (BYTE_8_ALIGN pl + of_nat SIZEOF_PHY + of_nat SIZEOF_OPT) = 40 + 8 * ((f + 7) div 8)"
proof -
  let ?T = "BYTE_8_ALIGN pl + of_nat SIZEOF_PHY + of_nat SIZEOF_OPT"
  have al: "unat (BYTE_8_ALIGN pl) = 8 * ((f + 7) div 8)"
    using assms by (subst unat_BYTE_8_ALIGN32) auto
  have a8: "8 * ((f + 7) div 8) \<le> f + 7" by simp
  show T: "unat ?T = 40 + 8 * ((f + 7) div 8)"
    using assms a8 al unfolding sizeofs by (simp add: unat_word_ariths)
  have Tn: "?T = of_nat (40 + 8 * ((f + 7) div 8))" unfolding T[symmetric] by simp
  have pad: "unat (BYTE_8_ALIGN pl - pl) = 8 * ((f + 7) div 8) - f"
    by (subst unat_sub) (auto simp: u32_le al assms)
  have padc: "ucast (BYTE_8_ALIGN pl - pl) = (of_nat (8 * ((f + 7) div 8) - f) :: u8)"
    unfolding pad[symmetric] by simp
  show "FillPhyHeaderLenInfo ?T 0 PACKET_TYPE_FRAGMENTED (ucast (BYTE_8_ALIGN pl - pl)) h = pkt_header h f"
    unfolding FillPhyHeaderLenInfo_def pkt_header_def Tn padc by simp
qed

lemma frag_piece_eq:
  assumes ok: "split_ok info" and i: "i < unat (fi_fragCount info)" and mem: "\<forall>k. mem (NewBytes k)"
    and off: "unat off = i * (unat (fi_splitLength info) div unat (fi_fragCount info))"
    and bytes: "unat (fi_splitLength info) \<le> length bytes"
    and hdr: "ConvertNetToHost_phy be hdr = h"
  shows "frag_piece mem be bytes info hdr (of_nat i) off =
    Ok (take (unat (fi_extendHeadSize info)) (deref (fi_oringinalBytes info)) @
        pkt be h bytes (unat (fi_splitLength info)) (unat (fi_fragCount info)) i, fi_extendHeadSize info)"
proof -
  let ?S = "unat (fi_splitLength info)" and ?n = "unat (fi_fragCount info)" and ?ext = "fi_extendHeadSize info"
  let ?pl = "piece_len info (of_nat i)" and ?f = "frag_len ?S ?n i"
  let ?head = "take (unat ?ext) (deref (fi_oringinalBytes info))"
  have iu: "unat (of_nat i :: u16) = i" by (rule unat_of_nat16) (use i in \<open>rule less_trans, simp\<close>)
  have pl: "unat ?pl = ?f" using unat_piece_len[OF ok, of "of_nat i"] i by (simp add: iu)
  have bnd: "?f \<le> ?S" "?S \<le> 104857600" "unat ?ext \<le> 512" "length ?head = unat ?ext"
    using ok i frag_len_le[of ?n ?S i] by (auto simp: split_ok_def MAX_EXTEND_HEAD_LENGTH_def u32_le)
  define T where "T = BYTE_8_ALIGN ?pl + of_nat SIZEOF_PHY + of_nat SIZEOF_OPT"
  have T: "unat T = 40 + 8 * ((?f + 7) div 8)"
    unfolding T_def by (rule pkt_header_eq(2)[OF pl]) (use bnd in simp)
  have hd: "FillPhyHeaderLenInfo T 0 PACKET_TYPE_FRAGMENTED (ucast (BYTE_8_ALIGN ?pl - ?pl)) h = pkt_header h ?f"
    unfolding T_def by (rule pkt_header_eq(1)[OF pl]) (use bnd in simp)
  have a8: "8 * ((?f + 7) div 8) \<le> ?f + 7" by simp
  have TE: "unat (T + ?ext) = unat ?ext + unat T" using bnd a8 T by (subst unat_add32) auto
  have eh: "(if ?ext > 0 then FillFragmentPacketExtendHead (fi_oringinalBytes info) ?ext (replicate (unat (T + ?ext)) 0) ?ext
      else Ok (replicate (unat (T + ?ext)) 0)) = Ok (?head @ replicate (unat T) 0)"
    by (rule extend_head_copied) (use ok TE in \<open>auto simp: split_ok_def\<close>)
  have op: "\<lparr>po_frameLen = fi_splitLength info + of_nat SIZEOF_PHY, po_fragCount = fi_fragCount info, po_fragNo = of_nat i\<rparr>
      = \<lparr>po_frameLen = of_nat (?S + 32), po_fragCount = of_nat ?n, po_fragNo = of_nat i\<rparr>"
    by (simp add: sizeofs)
  have L: "of_nat (length (?head @ replicate (unat T) 0)) - ?ext = T" using bnd(4) by simp
  have "i * (?S div ?n) + ?f \<le> length bytes" using frag_offset[OF i, of ?S] bytes by simp
  then have src: "unat ?pl \<le> length (drop (unat off) bytes)" using pl off by simp
  have Lb: "40 + unat ?pl \<le> unat T" "8 dvd unat T" "unat T \<le> 2000000000"
    using T pl bnd a8 by (simp_all add: dvd_add)
  have fill: "FillFragmentPacket be (ConvertHostToNet_phy be (pkt_header h ?f)) (ConvertHostToNet_opt be
      \<lparr>po_frameLen = of_nat (?S + 32), po_fragCount = of_nat ?n, po_fragNo = of_nat i\<rparr>)
      (drop (unat off) bytes) ?pl (?head @ replicate (unat T) 0) (unat ?ext) T = Ok (?head @ pkt be h bytes ?S ?n i)"
    using FillFragmentPacket_seals[OF bnd(4) Lb src] T pl off
    by (simp add: pkt_def Let_def fragment_def)
  show ?thesis
    unfolding frag_piece_def Let_def hdr T_def[symmetric] eh hd op
    using mem fill L by simp
qed


lemma frag_loop_eq:
  assumes ok: "split_ok info" and mem: "\<forall>k. mem (NewBytes k)"
    and bytes: "unat (fi_splitLength info) \<le> length bytes" and hdr: "ConvertNetToHost_phy be hdr = h"
    and i: "i + m = unat (fi_fragCount info)"
    and off: "i < unat (fi_fragCount info) \<Longrightarrow>
                unat off = i * (unat (fi_splitLength info) div unat (fi_fragCount info))"
  shows "frag_loop mem be bytes info hdr m (of_nat i) off =
    Ok (map (\<lambda>j. (take (unat (fi_extendHeadSize info)) (deref (fi_oringinalBytes info)) @
                   pkt be h bytes (unat (fi_splitLength info)) (unat (fi_fragCount info)) j,
                   fi_extendHeadSize info)) [i..<unat (fi_fragCount info)])"
  using i off
proof (induction m arbitrary: i off)
  case (Suc m)
  let ?S = "unat (fi_splitLength info)" and ?n = "unat (fi_fragCount info)"
  have i: "i < ?n" using Suc.prems by simp
  have iu: "unat (of_nat i :: u16) = i" by (rule unat_of_nat16) (use i in \<open>rule less_trans, simp\<close>)
  have "unat (off + piece_len info (of_nat i)) = Suc i * (?S div ?n)" if "Suc i < ?n"
  proof -
    have pl: "unat (piece_len info (of_nat i)) = ?S div ?n"
      using unat_piece_len[OF ok, of "of_nat i"] that by (simp add: iu frag_len_def)
    have "i * (?S div ?n) + ?S div ?n \<le> ?S" using frag_offset[OF i, of ?S] that by (auto simp: frag_len_def split: if_splits)
    then show ?thesis
      using Suc.prems(2)[OF i] pl ok by (subst unat_add32) (auto simp: split_ok_def)
  qed
  then have "frag_loop mem be bytes info hdr m (of_nat (Suc i)) (off + piece_len info (of_nat i)) =
    Ok (map (\<lambda>j. (take (unat (fi_extendHeadSize info)) (deref (fi_oringinalBytes info)) @
                   pkt be h bytes ?S ?n j, fi_extendHeadSize info)) [Suc i..<?n])"
    using Suc.prems(1) by (intro Suc.IH) auto
  moreover have "of_nat i + 1 = (of_nat (Suc i) :: u16)" by simp
  ultimately show ?case
    using frag_piece_eq[OF ok i mem Suc.prems(2)[OF i] bytes hdr] i
    by (simp add: upt_conv_Cons del: of_nat_Suc)
qed simp

text \<open>The fragments, in order, are the bytes that were split.\<close>

lemma concat_fragments_upto:
  assumes "k \<le> n - 1" "0 < n" "length body = S"
  shows "concat (map (fragment body S n) [0..<k]) = take (k * (S div n)) body"
  using assms(1)
proof (induction k)
  case (Suc k)
  have "concat (map (fragment body S n) [0..<Suc k]) = take (k * (S div n)) body @ take (S div n) (drop (k * (S div n)) body)"
    using Suc by (simp add: fragment_def[of _ _ _ k] frag_len_def[of _ _ k])
  then show ?case by (simp add: take_add[symmetric] add.commute)
qed simp

lemma concat_fragments:
  assumes "0 < n" "length body = S"
  shows "concat (map (fragment body S n) [0..<n]) = body"
proof -
  have n: "[0..<n] = [0..<n - 1] @ [n - 1]" using assms(1) by (metis Suc_diff_1 upt_Suc_append zero_le)
  have "(n - 1) * (S div n) + frag_len S n (n - 1) = S"
  proof -
    have "(n - 1) * (S div n) + S div n = n * (S div n)" using assms(1) by (cases n) auto
    moreover have "n * (S div n) + S mod n = S" "frag_len S n (n - 1) = S div n + S mod n"
      by (simp_all add: frag_len_def)
    ultimately show ?thesis by linarith
  qed
  then have "frag_len S n (n - 1) = S - (n - 1) * (S div n)" by simp
  then show ?thesis
    using concat_fragments_upto[OF order_refl assms] assms(2)
    by (simp add: n fragment_def)
qed

lemma fragment_take: "i < n \<Longrightarrow> fragment (take S bs) S n i = fragment bs S n i"
  using frag_offset[of i n S] by (simp add: fragment_def drop_take min_def)

lemma pkt_take: "i < n \<Longrightarrow> pkt be h (take S bs) S n i = pkt be h bs S n i"
  by (simp add: pkt_def fragment_take)

section \<open>How many fragments\<close>

definition ceil_div :: "nat \<Rightarrow> nat \<Rightarrow> nat" where
  "ceil_div a b = (a + b - 1) div b"

lemma ceil_div_alt: "0 < b \<Longrightarrow> ceil_div a b = (if a mod b = 0 then a div b else a div b + 1)"
proof -
  assume b: "0 < b"
  show ?thesis
  proof (cases "a mod b = 0")
    case True
    then have "a + b - 1 = (b - 1) + b * (a div b)" using b div_mult_mod_eq[of a b] by (simp add: mult.commute)
    then have "ceil_div a b = a div b + (b - 1) div b" unfolding ceil_div_def using b by (metis div_mult_self2 add.commute neq0_conv)
    then show ?thesis using True b by simp
  next
    case False
    have e: "b * (a div b) + a mod b = a" by simp
    have "b * (a div b + 1) = b * (a div b) + b" by simp
    then have "a + b - 1 = (a mod b - 1) + b * (a div b + 1)" using b e False by linarith
    then have "ceil_div a b = a div b + 1 + (a mod b - 1) div b" unfolding ceil_div_def using b by (metis div_mult_self2 add.commute neq0_conv)
    moreover have "(a mod b - 1) div b = 0" using b mod_less_divisor[OF b, of a] by simp
    ultimately show ?thesis using False by simp
  qed
qed

lemma ceil_div_le_iff: "0 < b \<Longrightarrow> ceil_div a b \<le> k \<longleftrightarrow> a \<le> k * b"
proof -
  assume b: "0 < b"
  have "ceil_div a b \<le> k \<longleftrightarrow> (a + b - 1) div b < Suc k" by (auto simp: ceil_div_def)
  also have "\<dots> \<longleftrightarrow> a + b - 1 < Suc k * b" using b by (simp add: div_less_iff_less_mult)
  also have "\<dots> \<longleftrightarrow> a \<le> k * b" using b by auto
  finally show ?thesis .
qed

lemma ceil_div_mult: "0 < b \<Longrightarrow> a \<le> ceil_div a b * b"
  using ceil_div_le_iff[of b a "ceil_div a b"] by simp

lemma unat_frag_count:
  assumes "0 < unat m" "unat s \<le> 65535 * unat m"
  shows "unat (frag_count s m) = ceil_div (unat s) (unat m)"
proof -
  have c: "ceil_div (unat s) (unat m) \<le> 65535" using ceil_div_le_iff[OF assms(1)] assms(2) by simp
  have d: "unat s div unat m \<le> 65535" using assms by (metis div_le_mono nonzero_mult_div_cancel_right neq0_conv)
  then have q: "unat (ucast (s div m) :: u16) = unat s div unat m"
    by (simp add: unsigned_ucast_eq take_bit_eq_mod unat_div)
  have z: "s mod m = 0 \<longleftrightarrow> unat s mod unat m = 0" by (simp add: word_unat_eq_iff unat_mod)
  show ?thesis
  proof (cases "unat s mod unat m = 0")
    case True
    then show ?thesis using q z assms(1) by (simp add: frag_count_def ceil_div_alt Let_def)
  next
    case False
    then have "unat s div unat m + 1 < 65536" using c assms(1) by (simp add: ceil_div_alt)
    then show ?thesis using False q z assms(1)
      by (simp add: frag_count_def ceil_div_alt Let_def unat_word_ariths)
  qed
qed

section \<open>Splitting a frame\<close>

text \<open>The frame without its padding, and the part of it that is split.\<close>

definition frame_bytes :: "serial_buffer \<Rightarrow> byte list" where
  "frame_bytes b = take (unat (headerLen b) + unat (payloadLen b)) (content b)"

definition split_body :: "serial_buffer \<Rightarrow> byte list" where
  "split_body b = drop 32 (frame_bytes b)"

text \<open>The fragment size for an MTU, and the frames that a 16-bit fragment count can describe.\<close>

definition max_frag :: "serial_buffer \<Rightarrow> u32 \<Rightarrow> nat" where
  "max_frag b mtu = unat mtu - unat (extendHeadLen b) - 40"

definition splittable :: "serial_buffer \<Rightarrow> u32 \<Rightarrow> bool" where
  "splittable b mtu \<longleftrightarrow>
     sb_ok b \<and> sb_owned b \<and> 32 \<le> unat (headerLen b) \<and> extendHeadLen b \<le> MAX_EXTEND_HEAD_LENGTH \<and>
     unat (extendHeadLen b) + 40 < unat mtu \<and> length (split_body b) \<le> 65535 * max_frag b mtu"

lemma length_split_body:
  "sb_ok b \<Longrightarrow> length (split_body b) = unat (headerLen b) + unat (payloadLen b) - 32"
  by (auto simp: split_body_def frame_bytes_def length_content sb_ok_def sb_lens_ok_def)

lemma split_numbers:
  assumes "splittable b mtu" and big: "unat mtu < unat (totalLen b) + unat (extendHeadLen b)"
  shows "\<not> totalLen b + extendHeadLen b \<le> mtu"
    and "unat (totalLen b - paddingLen b - of_nat SIZEOF_PHY) = length (split_body b)"
    and "unat (mtu - extendHeadLen b - of_nat SIZEOF_PHY - of_nat SIZEOF_OPT) = max_frag b mtu"
    and "0 < max_frag b mtu" "2 \<le> ceil_div (length (split_body b)) (max_frag b mtu)"
proof -
  have ok: "sb_ok b" "32 \<le> unat (headerLen b)" "unat (extendHeadLen b) \<le> 512" "unat (extendHeadLen b) + 40 < unat mtu"
    using assms(1) by (auto simp: splittable_def u32_le MAX_EXTEND_HEAD_LENGTH_def)
  have lens: "unat (totalLen b) = unat (headerLen b) + unat (payloadLen b) + unat (paddingLen b)"
    "unat (paddingLen b) < 8" "unat (totalLen b) \<le> 104857600"
    using ok(1) by (auto simp: sb_ok_def sb_lens_ok_def u32_le u32_less)
  have "unat (totalLen b + extendHeadLen b) = unat (totalLen b) + unat (extendHeadLen b)"
    using lens(3) ok(3) by (intro unat_add32) simp
  then show "\<not> totalLen b + extendHeadLen b \<le> mtu" using big by (simp add: u32_le)
  have "unat (totalLen b - paddingLen b) = unat (headerLen b) + unat (payloadLen b)"
    using ok(1) by (simp add: sb_lens_sub sb_ok_def)
  then show "unat (totalLen b - paddingLen b - of_nat SIZEOF_PHY) = length (split_body b)"
    using ok by (subst unat_sub) (auto simp: u32_le sizeofs length_split_body)
  have m1: "unat (mtu - extendHeadLen b) = unat mtu - unat (extendHeadLen b)"
    using ok(4) by (intro unat_sub) (simp add: u32_le)
  have m2: "unat (mtu - extendHeadLen b - 32) = unat mtu - unat (extendHeadLen b) - 32"
    using ok(4) m1 by (subst unat_sub) (simp_all add: u32_le)
  have "unat (mtu - extendHeadLen b - 32 - 8) = unat mtu - unat (extendHeadLen b) - 32 - 8"
    using ok(4) m2 by (subst unat_sub) (simp_all add: u32_le)
  then show "unat (mtu - extendHeadLen b - of_nat SIZEOF_PHY - of_nat SIZEOF_OPT) = max_frag b mtu"
    by (simp add: sizeofs max_frag_def)
  show p: "0 < max_frag b mtu" using ok(4) by (simp add: max_frag_def)
  have "max_frag b mtu < length (split_body b)"
    using big lens ok by (simp add: length_split_body max_frag_def)
  then have "\<not> ceil_div (length (split_body b)) (max_frag b mtu) \<le> 1" using ceil_div_le_iff[OF p] by simp
  then show "2 \<le> ceil_div (length (split_body b)) (max_frag b mtu)" by simp
qed

lemma frame_view:
  assumes "sb_ok b"
  shows "\<exists>m. GetReadOnlyBytesForEntireFrame b = (Some m, totalLen b - paddingLen b) \<and>
    take (unat (headerLen b) + unat (payloadLen b)) m = frame_bytes b"
proof -
  have f: "unat (totalLen b - paddingLen b) = unat (headerLen b) + unat (payloadLen b)"
    using assms by (simp add: sb_lens_sub sb_ok_def)
  have "unat (0::u32) + unat (totalLen b - paddingLen b) \<le> unat (totalLen b)"
    using assms f by (auto simp: sb_ok_def sb_lens_ok_def)
  from readonly_view[OF assms this] show ?thesis
    by (auto simp: GetReadOnlyBytesForEntireFrame_def frame_bytes_def f)
qed

lemma SplitFrame_packets:
  assumes sp: "splittable b mtu" and big: "unat mtu < unat (totalLen b) + unat (extendHeadLen b)"
    and mem: "\<forall>k. mem (NewBytes k)"
    and n: "n = ceil_div (length (split_body b)) (max_frag b mtu)"
  shows "SplitFrameIntoPacketsIfNeed mem be b mtu =
    Ok (map (\<lambda>i. (sb_head b @ pkt be (phy_of_net (content b)) (split_body b) (length (split_body b)) n i,
                   extendHeadLen b)) [0..<n])"
proof -
  note num = split_numbers[OF sp big]
  let ?s = "totalLen b - paddingLen b - of_nat SIZEOF_PHY"
    and ?m = "mtu - extendHeadLen b - of_nat SIZEOF_PHY - of_nat SIZEOF_OPT"
  have ok: "sb_ok b" "sb_owned b" "32 \<le> unat (headerLen b)" "extendHeadLen b \<le> MAX_EXTEND_HEAD_LENGTH"
    "length (split_body b) \<le> 65535 * max_frag b mtu" using sp by (auto simp: splittable_def)
  obtain m where m: "GetReadOnlyBytesForEntireFrame b = (Some m, totalLen b - paddingLen b)"
    "take (unat (headerLen b) + unat (payloadLen b)) m = frame_bytes b" using frame_view[OF ok(1)] by blast
  have fl: "length (frame_bytes b) = unat (headerLen b) + unat (payloadLen b)"
    using ok(1) by (auto simp: frame_bytes_def length_content sb_ok_def sb_lens_ok_def)
  have ml: "unat (headerLen b) + unat (payloadLen b) \<le> length m" using m(2) fl by (metis length_take min.cobounded1)
  have m0: "?m \<noteq> 0" using num(3,4) by (simp add: word_unat_eq_iff)
  have fc: "unat (frag_count ?s ?m) = n"
    using unat_frag_count[of ?m ?s] num ok(5) n by simp
  let ?info = "\<lparr>fi_oringinalBytes = oringinalBytes b, fi_extendHeadSize = extendHeadLen b,
      fi_splitLength = ?s, fi_fragCount = frag_count ?s ?m\<rparr>"
  have head: "take (unat (extendHeadLen b)) (deref (oringinalBytes b)) = sb_head b"
    "unat (extendHeadLen b) \<le> length (deref (oringinalBytes b))"
    using ok(2) by (auto simp: sb_owned_def sb_head_def deref_def)
  have so: "split_ok ?info"
    using num fc n ok head(2) by (auto simp: split_ok_def length_split_body sb_ok_def sb_lens_ok_def u32_le)
  have sbl: "length (split_body b) \<le> length (drop 32 m)" using ml ok(1) by (simp add: length_split_body)
  have hdr: "ConvertNetToHost_phy be (phy_load be (take SIZEOF_PHY m)) = phy_of_net (content b)"
  proof -
    have l: "SIZEOF_PHY \<le> length m" using ml ok(3) by (simp add: sizeofs)
    have "take 32 m = take 32 (take (unat (headerLen b) + unat (payloadLen b)) m)" using ok(3) by simp
    also have "\<dots> = take 32 (content b)" unfolding m(2) frame_bytes_def using ok(3) by simp
    finally have "phy_of_net (take 32 m) = phy_of_net (take 32 (content b))" by simp
    moreover have "32 \<le> length (content b)" using ok(1,3) by (auto simp: length_content sb_ok_def sb_lens_ok_def)
    ultimately show ?thesis
      using l phy.of_net_take[of m] phy.of_net_take[of "content b"] by (simp add: phy.load_to_host sizeofs)
  qed
  have tk: "take (length (split_body b)) (drop 32 m) = split_body b"
    unfolding split_body_def using m(2)[symmetric] ml by (simp add: drop_take)
  have "frag_loop mem be (drop 32 m) ?info (phy_load be (take SIZEOF_PHY m)) n (of_nat 0) 0 =
    Ok (map (\<lambda>i. (sb_head b @ pkt be (phy_of_net (content b)) (drop 32 m) (length (split_body b)) n i,
                   extendHeadLen b)) [0..<n])"
    using frag_loop_eq[OF so mem _ hdr, of "drop 32 m" 0 n 0] sbl num(2) fc head(1) by simp
  also have "\<dots> = Ok (map (\<lambda>i. (sb_head b @ pkt be (phy_of_net (content b)) (split_body b) (length (split_body b)) n i,
                   extendHeadLen b)) [0..<n])"
    using pkt_take[of _ n be _ "length (split_body b)" "drop 32 m"] by (auto simp: tk)
  finally have loop: "frag_loop mem be (drop 32 m) ?info (phy_load be (take SIZEOF_PHY m)) n 0 0 = \<dots>" by simp
  have "\<not> frag_count ?s ?m < MIN_FRAGMENT_COUNT"
    using fc num(5) n by (simp add: word_less_nat_alt MIN_FRAGMENT_COUNT_def)
  moreover have "read_at m 0 SIZEOF_PHY = Ok (take SIZEOF_PHY m)" using ml ok(3) by (simp add: read_at_def sizeofs)
  ultimately show ?thesis
    unfolding SplitFrameIntoPacketsIfNeed_def Let_def m(1) case_prod_beta snd_conv fst_conv sb_views[OF ok(1)]
      FrameFragmentation_def
    using num(1) m0 loop fc by (simp add: deref_def sizeofs)
qed

lemma length_fragment: "i < n \<Longrightarrow> S \<le> length bs \<Longrightarrow> length (fragment bs S n i) = frag_len S n i"
  using frag_offset[of i n S] by (simp add: fragment_def)

lemma length_pkt:
  "i < n \<Longrightarrow> S \<le> length bs \<Longrightarrow> length (pkt be h bs S n i) = 40 + 8 * ((frag_len S n i + 7) div 8)"
  by (simp add: pkt_def Let_def length_fragment)

lemma pkt_fragment:
  assumes "i < n" "S \<le> length bs"
  shows "take (frag_len S n i) (drop 40 (pkt be h bs S n i)) = fragment bs S n i"
proof -
  have "drop 40 (pkt be h bs S n i) = fragment bs S n i @ replicate (8 * ((frag_len S n i + 7) div 8) - frag_len S n i) 0"
    by (simp add: pkt_def Let_def sealed_def)
  then show ?thesis using assms by (simp add: length_fragment)
qed

lemma length_sb_head: "sb_owned b \<Longrightarrow> length (sb_head b) = unat (extendHeadLen b)"
  by (auto simp: sb_owned_def sb_head_def)

text \<open>
  C38: A frame that fits the MTU is sent whole.  Any other frame that a 16-bit fragment count can
  describe is split into at least two packets; each carries the extend head unchanged, and the
  fragments, taken from the packets in order, are exactly the bytes of the frame after its
  physical header.
\<close>

theorem split_covers_frame:
  assumes sp: "splittable b mtu" and mem: "\<forall>k. mem (NewBytes k)"
  shows "(unat (totalLen b) + unat (extendHeadLen b) \<le> unat mtu \<longrightarrow>
            SplitFrameIntoPacketsIfNeed mem be b mtu = Ok []) \<and>
    (unat mtu < unat (totalLen b) + unat (extendHeadLen b) \<longrightarrow>
      (\<exists>ps. SplitFrameIntoPacketsIfNeed mem be b mtu = Ok ps \<and> 2 \<le> length ps \<and>
        (\<forall>p \<in> set ps. snd p = extendHeadLen b \<and> take (unat (extendHeadLen b)) (fst p) = sb_head b) \<and>
        concat (map (\<lambda>i. take (frag_len (length (split_body b)) (length ps) i)
                           (drop (unat (extendHeadLen b) + 40) (fst (ps ! i)))) [0..<length ps]) = split_body b))"
    (is "?small \<and> ?big")
proof
  have own: "sb_ok b" "sb_owned b" "unat (extendHeadLen b) \<le> 512"
    using sp by (auto simp: splittable_def u32_le MAX_EXTEND_HEAD_LENGTH_def)
  have "unat (totalLen b) \<le> 104857600" using own(1) by (auto simp: sb_ok_def sb_lens_ok_def u32_le)
  then have "unat (totalLen b + extendHeadLen b) = unat (totalLen b) + unat (extendHeadLen b)"
    using own(3) by (intro unat_add32) simp
  then show ?small
    by (auto simp: SplitFrameIntoPacketsIfNeed_def Let_def case_prod_beta sb_views[OF own(1)] u32_le)
  show ?big
  proof
    assume big: "unat mtu < unat (totalLen b) + unat (extendHeadLen b)"
    define n where "n = ceil_div (length (split_body b)) (max_frag b mtu)"
    let ?p = "\<lambda>i. sb_head b @ pkt be (phy_of_net (content b)) (split_body b) (length (split_body b)) n i"
    let ?ps = "map (\<lambda>i. (?p i, extendHeadLen b)) [0..<n]"
    have n: "2 \<le> n" using split_numbers(5)[OF sp big] by (simp add: n_def)
    have "concat (map (\<lambda>i. take (frag_len (length (split_body b)) n i)
        (drop (unat (extendHeadLen b) + 40) (fst (?ps ! i)))) [0..<n])
      = concat (map (fragment (split_body b) (length (split_body b)) n) [0..<n])"
      by (intro arg_cong[where f = concat] map_cong) (auto simp: pkt_fragment length_sb_head[OF own(2)])
    then have "concat (map (\<lambda>i. take (frag_len (length (split_body b)) n i)
        (drop (unat (extendHeadLen b) + 40) (fst (?ps ! i)))) [0..<n]) = split_body b"
      using concat_fragments[of n "split_body b"] n by simp
    then show "\<exists>ps. SplitFrameIntoPacketsIfNeed mem be b mtu = Ok ps \<and> 2 \<le> length ps \<and>
        (\<forall>p \<in> set ps. snd p = extendHeadLen b \<and> take (unat (extendHeadLen b)) (fst p) = sb_head b) \<and>
        concat (map (\<lambda>i. take (frag_len (length (split_body b)) (length ps) i)
                           (drop (unat (extendHeadLen b) + 40) (fst (ps ! i)))) [0..<length ps]) = split_body b"
      using n SplitFrame_packets[OF sp big mem n_def, of be] length_sb_head[OF own(2)]
      by (intro exI[of _ ?ps]) auto
  qed
qed

text \<open>
  With an MTU and an extend head that are multiples of eight, every packet but the last is at
  most as long as the MTU; the last packet carries the whole remainder and exceeds the MTU
  by at most the number of fragments and the padding.
\<close>

theorem packet_sizes:
  assumes sp: "splittable b mtu" and big: "unat mtu < unat (totalLen b) + unat (extendHeadLen b)"
    and mem: "\<forall>k. mem (NewBytes k)" and al: "8 dvd unat mtu" "8 dvd unat (extendHeadLen b)"
  shows "\<exists>ps. SplitFrameIntoPacketsIfNeed mem be b mtu = Ok ps \<and>
    (\<forall>p \<in> set (butlast ps). length (fst p) \<le> unat mtu) \<and>
    length (fst (last ps)) < unat mtu + length ps + 7"
proof -
  define n S where "n = ceil_div (length (split_body b)) (max_frag b mtu)" and "S = length (split_body b)"
  let ?f = "\<lambda>i. (sb_head b @ pkt be (phy_of_net (content b)) (split_body b) S n i, extendHeadLen b)"
  note num = split_numbers[OF sp big]
  have own: "sb_owned b" "unat (extendHeadLen b) + 40 < unat mtu" using sp by (auto simp: splittable_def)
  have n: "2 \<le> n" using num(5) by (simp add: n_def)
  have "S \<le> n * max_frag b mtu" using ceil_div_mult[OF num(4)] by (simp add: n_def S_def)
  then have q: "S div n \<le> max_frag b mtu" using n by (metis div_le_mono nonzero_mult_div_cancel_left not_numeral_le_zero)
  have m8: "8 dvd max_frag b mtu" using al by (auto simp: max_frag_def intro!: dvd_diff_nat)
  have len: "length (fst (?f i)) = unat (extendHeadLen b) + 40 + 8 * ((frag_len S n i + 7) div 8)" if "i < n" for i
    using that by (simp add: length_sb_head[OF own(1)] length_pkt S_def)
  have bl: "butlast (map ?f [0..<n]) = map ?f [0..<n - 1]"
    using n by (cases n) simp_all
  have "length (fst (?f i)) \<le> unat mtu" if "i < n - 1" for i
  proof -
    have "8 * ((S div n + 7) div 8) \<le> max_frag b mtu" using q m8 by (auto elim!: dvdE)
    then show ?thesis using len[of i] that own(2) by (simp add: frag_len_def max_frag_def)
  qed
  moreover have "length (fst (?f (n - 1))) < unat mtu + n + 7"
  proof -
    have "S mod n < n" using n by simp
    then have "8 * ((S div n + S mod n + 7) div 8) < max_frag b mtu + n + 7" using q by linarith
    then show ?thesis using len[of "n - 1"] n own(2) by (simp add: frag_len_def max_frag_def)
  qed
  moreover have "last (map ?f [0..<n]) = ?f (n - 1)" using n by (simp add: last_map)
  ultimately show ?thesis
    using SplitFrame_packets[OF sp big mem n_def, of be] bl by (intro exI[of _ "map ?f [0..<n]"]) (auto simp: S_def)
qed

section \<open>The receiver's view of a packet\<close>

text \<open>A frame header as \<^verbatim>\<open>SetPhyHeader\<close> writes it, for a frame that carries data.\<close>

definition data_header :: "CommPhyHeader \<Rightarrow> bool" where
  "data_header h \<longleftrightarrow>
     ph_magic h = MAGIC_CODE \<and> ph_version h = PROTOCOL_VERSION \<and>
     (\<exists>ft s. ft \<noteq> EMPTY \<and> ft \<noteq> INVALID_MAX_FRAME_TYPE \<and>
        ph_packetType h = SetSendLabelExchange (SetFrameType ft PACKET_TYPE_NOT_FRAGMENTED) s)"

definition pkt_result :: "CommPhyHeader \<Rightarrow> nat \<Rightarrow> nat \<Rightarrow> nat \<Rightarrow> parse_result" where
  "pkt_result h S n i =
     new_ParseResult\<lparr>pr_frameId := ph_frameId h, pr_sourceId := ph_sourceId h,
       pr_packetLen := of_nat (40 + 8 * ((frag_len S n i + 7) div 8)),
       pr_paddingLen := of_nat (8 * ((frag_len S n i + 7) div 8) - frag_len S n i),
       pr_dbVersion := ph_dbIntVer h, pr_isFragment := True,
       pr_frameType := GetFrameType (ph_packetType h),
       pr_sendLabelExchange := IsSendLabelExchange (ph_packetType h),
       pr_frameLen := of_nat (S + 32), pr_fragCount := of_nat n, pr_fragNo := of_nat i\<rparr>"

lemma PACKET_TYPE_FRAGMENTED_nonzero [simp]: "PACKET_TYPE_FRAGMENTED \<noteq> 0"
  by (simp add: PACKET_TYPE_FRAGMENTED_def)

lemma pkt_phy_accept:
  assumes h: "ph_magic h = MAGIC_CODE" "ph_version h = PROTOCOL_VERSION"
    and i: "i < n" and S: "S \<le> length bs" "S \<le> 104857600"
  shows "phy_accept be (pkt be h bs S n i) (of_nat (40 + 8 * ((frag_len S n i + 7) div 8)))"
proof -
  let ?f = "frag_len S n i"
  let ?pad = "8 * ((?f + 7) div 8) - ?f"
  let ?body = "opt_net \<lparr>po_frameLen = of_nat (S + 32), po_fragCount = of_nat n, po_fragNo = of_nat i\<rparr> @
            fragment bs S n i @ replicate ?pad 0"
  have f: "?f \<le> S" using frag_len_le[of n S i] i by simp
  have lb: "length ?body = 8 + 8 * ((?f + 7) div 8)" using i S by (simp add: length_fragment)
  have le: "8 * ((?f + 7) div 8) \<le> 104857607" using f S(2) by linarith
  have pl: "unat (ph_packetLen (pkt_header h ?f)) = 32 + length ?body"
    unfolding lb pkt_header_def using le by (simp add: unat_of_nat32 del: of_nat_add of_nat_mult)
  have "?pad < 8" by linarith
  then have "unat (of_nat ?pad :: u8) = ?pad" by (simp only: unat_of_nat) (simp add: take_bit_eq_mod)
  moreover have "ph_paddingLen (pkt_header h ?f) = of_nat ?pad" by (simp add: pkt_header_def)
  ultimately have pd: "unat (ph_paddingLen (pkt_header h ?f)) = ?pad" by (simp only:)
  have "phy_accept be (sealed be (pkt_header h ?f) ?body) (ph_packetLen (pkt_header h ?f))"
  proof (rule phy_accept_sealed)
    show "ph_paddingLen (pkt_header h ?f) \<le> MAX_PADDING_LEN"
      using pd \<open>?pad < 8\<close> by (simp add: word_le_nat_alt MAX_PADDING_LEN_def)
    show "unat (ph_paddingLen (pkt_header h ?f)) \<le> length ?body" unfolding pd lb by simp
    show "8 dvd length ?body" unfolding lb by presburger
    show "length ?body \<le> 2000000000" unfolding lb using le by simp
  qed (use h pl in \<open>auto simp: pkt_header_def\<close>)
  then show ?thesis by (simp add: pkt_def Let_def pkt_header_def)
qed

lemma parse_pkt:
  assumes h: "data_header h" and i: "i < n" and S: "S \<le> length bs" "S \<le> 104857600"
    and f: "frag_len S n i \<le> 104857500"
  shows "CheckAndParsePacket be (Some (pkt be h bs S n i)) (of_nat (40 + 8 * ((frag_len S n i + 7) div 8)))
    new_ParseResult = Ok (pkt_result h S n i)"
proof -
  let ?f = "frag_len S n i" and ?p = "pkt be h bs S n i"
  let ?len = "of_nat (40 + 8 * ((?f + 7) div 8)) :: u32"
  let ?o = "\<lparr>po_frameLen = of_nat (S + 32), po_fragCount = of_nat n, po_fragNo = of_nat i\<rparr>"
  from f have lt: "40 + 8 * ((?f + 7) div 8) \<le> 104857600" by linarith
  then have ul: "unat ?len = 40 + 8 * ((?f + 7) div 8)" by (intro unat_of_nat32) simp
  have le: "unat ?len \<le> length ?p" using ul i S(1) by (simp add: length_pkt)
  have acc: "phy_accept be ?p ?len" using pkt_phy_accept[of h i n S bs be] h i S by (simp add: data_header_def)
  obtain ft s where t: "ft \<noteq> EMPTY" "ft \<noteq> INVALID_MAX_FRAME_TYPE"
    "ph_packetType h = SetSendLabelExchange (SetFrameType ft PACKET_TYPE_NOT_FRAGMENTED) s"
    using h by (auto simp: data_header_def)
  have hp: "phy_of_net ?p = (pkt_header h ?f)\<lparr>ph_checkSum := ph_checkSum (phy_of_net ?p)\<rparr>"
    by (simp add: pkt_def Let_def phy_of_net_sealed)
  let ?r = "phy_result (phy_of_net ?p) new_ParseResult"
  have ty: "ph_packetType (phy_of_net ?p) = ph_packetType h OR PACKET_TYPE_FRAGMENTED"
    by (subst hp) (simp add: pkt_header_def)
  have ph: "ParseCommPhyHeader be ?p ?len new_ParseResult = Ok ?r"
    unfolding ParseCommPhyHeader_Ok_iff[OF le] using acc t by (simp add: ty)
  have fr: "pr_isFragment ?r" "pr_frameType ?r \<noteq> EMPTY"
    using t by (simp_all add: phy_result_def ty)
  have rd: "read_at ?p SIZEOF_PHY SIZEOF_OPT = Ok (opt_net ?o)"
    using i S by (simp add: read_at_def sizeofs length_pkt) (simp add: pkt_def Let_def sealed_def)
  have op: "ConvertNetToHost_opt be (opt_load be (opt_net ?o)) = ?o"
    using opt.load_to_host[of "opt_net ?o" be] opt.of_net_net[of ?o "[]"] by (simp add: sizeofs)
  have "ParseCommPhyOptHeader be ?p ?len ?r =
    Ok (?r\<lparr>pr_frameLen := of_nat (S + 32), pr_fragCount := of_nat n, pr_fragNo := of_nat i\<rparr>)"
    unfolding ParseCommPhyOptHeader_def rd using ul by (simp add: sizeofs op Let_def del: of_nat_add)
  moreover have "?r\<lparr>pr_frameLen := of_nat (S + 32), pr_fragCount := of_nat n, pr_fragNo := of_nat i\<rparr> = pkt_result h S n i"
    unfolding phy_result_def pkt_result_def ty using t
    by (subst (1 2 3 4 5) hp) (simp add: pkt_header_def new_ParseResult_def)
  moreover have "\<not> ?len > MAX_TOTAL_LEN" using ul lt by (simp add: u32_less)
  ultimately show ?thesis
    using ph fr by (simp add: CheckAndParsePacket_def)
qed

text \<open>The analysis of a received packet recovers the lengths of the split.\<close>

lemma analyze_pkt:
  assumes i: "i < n" "2 \<le> n" "n \<le> 65535" "n \<le> S" "S \<le> 104857600"
  shows "AnalyzeSplitStructure (pkt_result h S n i) = Ok (of_nat (S div n), of_nat (S div n + S mod n))"
proof -
  let ?f = "frag_len S n i"
  let ?fl = "of_nat (S + 32) :: u32" and ?n = "of_nat n :: u16" and ?i = "of_nat i :: u16"
  let ?ls = "?fl - of_nat SIZEOF_PHY"
  have fl: "unat ?fl = S + 32" and S': "unat (of_nat S :: u32) = S" by (rule unat_of_nat32, use i in simp)+
  have lse: "?ls = of_nat S" by (simp add: sizeofs)
  have ls: "unat ?ls = S" unfolding lse by (rule S')
  have un: "unat ?n = n" "unat ?i = i" by (rule unat_of_nat16, use i in simp)+
  have u32n: "unat (ucast ?n :: u32) = n" using un by (simp add: unat_ucast_16_32)
  have q: "?ls div ucast ?n = of_nat (S div n)"
    by (rule word_unat_eq_iff[THEN iffD2]) (use i in \<open>simp only: unat_div ls u32n, subst unat_of_nat32, auto intro: le_less_trans[OF div_le_dividend]\<close>)
  have "unat (?ls mod ucast ?n) = S mod n" by (simp only: unat_mod ls u32n)
  moreover have "S mod n < 65536" using i mod_less_divisor[of n S] by linarith
  ultimately have r: "unat (ucast (?ls mod ucast ?n) :: u16) = S mod n"
    by (simp add: unsigned_ucast_eq take_bit_eq_mod)
  have r32: "(ucast (ucast (?ls mod ucast ?n) :: u16) :: u32) = of_nat (S mod n)"
    by (metis r of_nat_unat ucast_id unat_ucast_16_32)
  have last: "i \<noteq> n - 1 \<longleftrightarrow> ?i \<noteq> ?n - 1"
    using un i by (simp add: word_unat_eq_iff unat_sub word_le_nat_alt)
  have this_len: "unat (if ?i \<noteq> ?n - 1 then of_nat (S div n) else of_nat (S div n) + of_nat (S mod n) :: u32) = ?f"
  proof -
    have "?f \<le> S" using frag_len_le[of n S i] i by simp
    then have "unat (of_nat ?f :: u32) = ?f" using i by (intro unat_of_nat32) simp
    then show ?thesis unfolding frag_len_def using last by (auto simp: word_unat_eq_iff split: if_splits)
  qed
  have "?f \<le> S" using frag_len_le[of n S i] i by simp
  then have "40 + 8 * ((?f + 7) div 8) < 2 ^ 32" using i by simp
  then have pk: "unat (of_nat (40 + 8 * ((?f + 7) div 8)) :: u32) = 40 + 8 * ((?f + 7) div 8)" by (rule unat_of_nat32)
  have "8 * ((?f + 7) div 8) - ?f < 8" by linarith
  then have pd: "unat (of_nat (8 * ((?f + 7) div 8) - ?f) :: u8) = 8 * ((?f + 7) div 8) - ?f"
    by (simp only: unat_of_nat) (simp add: take_bit_eq_mod)
  have "?f \<le> 8 * ((?f + 7) div 8)" by simp
  then have g3: "SIZEOF_PHY + SIZEOF_OPT + ?f + unat (of_nat (8 * ((?f + 7) div 8) - ?f) :: u8)
      = unat (of_nat (40 + 8 * ((?f + 7) div 8)) :: u32)" unfolding pk pd sizeofs by simp
  have g1: "\<not> (unat ?fl \<le> SIZEOF_PHY \<or> ?fl > MAX_FRAME_LEN)"
    unfolding u32_less fl using i by (simp add: sizeofs MAX_FRAME_LEN_def)
  have g2: "\<not> (?n = 0 \<or> ?n < MIN_FRAGMENT_COUNT \<or> ucast ?n > ?ls \<or> ?i \<ge> ?n)"
    unfolding u32_less u32n ls word_less_nat_alt word_le_nat_alt un
    using i un by (auto simp: MIN_FRAGMENT_COUNT_def)
  have f: "pr_frameLen (pkt_result h S n i) = ?fl" "pr_fragCount (pkt_result h S n i) = ?n"
    "pr_fragNo (pkt_result h S n i) = ?i" "pr_packetLen (pkt_result h S n i) = of_nat (40 + 8 * ((?f + 7) div 8))"
    "pr_paddingLen (pkt_result h S n i) = of_nat (8 * ((?f + 7) div 8) - ?f)"
    by (simp_all add: pkt_result_def)
  show ?thesis
    unfolding AnalyzeSplitStructure_def Let_def f q r32 this_len g3
    using g1 g2 by (simp add: guard_err_def)
qed

lemma frag_len_half: "2 \<le> n \<Longrightarrow> frag_len S n i \<le> S div 2 + n"
proof -
  assume n: "2 \<le> n"
  have "S div n \<le> S div 2" using n by (intro div_le_mono2) auto
  moreover have "S mod n < n" using n by simp
  ultimately show ?thesis by (auto simp: frag_len_def)
qed

text \<open>
  C39: Every packet of a split frame is accepted by the receiver of the same byte order, and
  carries what the receiver needs to put the frame together: the frame's id and source, the
  frame length, the number of fragments and its own index, from which the receiver's analysis
  computes the same fragment lengths that the sender used.
\<close>

theorem packets_describe_frame:
  assumes sp: "splittable b mtu" and big: "unat mtu < unat (totalLen b) + unat (extendHeadLen b)"
    and mem: "\<forall>k. mem (NewBytes k)" and hdr: "data_header (phy_of_net (content b))"
    and S: "S = length (split_body b)"
  shows "\<exists>ps. SplitFrameIntoPacketsIfNeed mem be b mtu = Ok ps \<and>
    (\<forall>i < length ps. let p = drop (unat (extendHeadLen b)) (fst (ps ! i)) in
       \<exists>r. CheckAndParsePacket be (Some p) (of_nat (length p)) new_ParseResult = Ok r \<and>
         pr_isFragment r \<and> pr_frameId r = ph_frameId (phy_of_net (content b)) \<and>
         pr_sourceId r = ph_sourceId (phy_of_net (content b)) \<and>
         pr_frameLen r = of_nat (S + 32) \<and> pr_fragCount r = of_nat (length ps) \<and> pr_fragNo r = of_nat i \<and>
         AnalyzeSplitStructure r = Ok (of_nat (S div length ps), of_nat (S div length ps + S mod length ps)))"
proof -
  let ?h = "phy_of_net (content b)"
  define n where "n = ceil_div (length (split_body b)) (max_frag b mtu)"
  let ?p = "\<lambda>i. pkt be ?h (split_body b) S n i"
  let ?ps = "map (\<lambda>i. (sb_head b @ ?p i, extendHeadLen b)) [0..<n]"
  note num = split_numbers[OF sp big]
  have own: "sb_ok b" "sb_owned b" "S \<le> 65535 * max_frag b mtu" using sp S by (auto simp: splittable_def)
  have n: "2 \<le> n" "n \<le> 65535" "n \<le> S"
    using num(4,5) own(3) by (simp_all add: n_def ceil_div_le_iff S)
  have Sb: "S \<le> 104857600" using own(1) by (auto simp: S length_split_body sb_ok_def sb_lens_ok_def u32_le)
  have pi: "drop (unat (extendHeadLen b)) (fst (?ps ! i)) = ?p i" if "i < n" for i
    using that by (simp add: length_sb_head[OF own(2)])
  have r: "CheckAndParsePacket be (Some (?p i)) (of_nat (length (?p i))) new_ParseResult = Ok (pkt_result ?h S n i)"
    if "i < n" for i
  proof -
    have "frag_len S n i \<le> 104857500" using frag_len_half[OF n(1), of S i] n(2) Sb by linarith
    from parse_pkt[OF hdr that _ Sb this, of "split_body b" be] show ?thesis
      unfolding length_pkt[OF that eq_imp_le[OF S]] by (simp add: S)
  qed
  have an: "AnalyzeSplitStructure (pkt_result ?h S n i) = Ok (of_nat (S div n), of_nat (S div n + S mod n))"
    if "i < n" for i by (rule analyze_pkt[OF that n Sb])
  have "SplitFrameIntoPacketsIfNeed mem be b mtu = Ok ?ps"
    using SplitFrame_packets[OF sp big mem n_def, of be] by (simp add: S)
  then show ?thesis
    using r an pi by (intro exI[of _ ?ps]) (auto simp: Let_def pkt_result_def simp del: of_nat_add)
qed

section \<open>Concrete frames\<close>

lemma alloc_app_frame:
  assumes "unat p + 79 \<le> 104857600"
  shows "\<exists>b. AllocBufferByPayloadLength never_oom p 72 new_SerialBuffer = (E_OK, b) \<and> sb_ok b \<and> sb_owned b \<and>
    headerLen b = 72 \<and> payloadLen b = p \<and> extendHeadLen b = 0 \<and> unat (totalLen b) = 8 * ((unat p + 79) div 8)"
proof -
  have s: "unat (p + 72) = unat p + 72" using assms by (subst unat_add32) auto
  have t: "unat (BYTE_8_ALIGN (p + 72)) = 8 * ((unat p + 79) div 8)"
    using unat_BYTE_8_ALIGN32[of "p + 72"] assms unfolding s by simp
  have nz: "BYTE_8_ALIGN (p + 72) \<noteq> 0" "\<not> BYTE_8_ALIGN (p + 72) > MAX_TOTAL_LEN"
    using t assms by (auto simp: word_unat_eq_iff u32_less)
  obtain b where b: "AllocBufferByPayloadLength never_oom p 72 new_SerialBuffer = (E_OK, b)"
    using nz by (simp add: AllocBufferByPayloadLength_def new_SerialBuffer_def BYTE_8_ALIGN_def[of 0]
        INT32_MAX64_def Let_def)
  have b0: "AllocBufferByPayloadLength never_oom p 72 (SetExtendHeadLength 0 new_SerialBuffer) = (E_OK, b)"
    using b by (simp add: SetExtendHeadLength_def new_SerialBuffer_def)
  have c: "unat p + unat (72::u32) + 7 < 2 ^ 32" "(0::u32) \<le> MAX_EXTEND_HEAD_LENGTH" using assms by simp_all
  have "unat p + unat (72::u32) + 7 = unat p + 79" by simp
  then show ?thesis using AllocBufferByPayloadLength_ok[OF b0 c] b by metis
qed

lemma alloc_app_splittable:
  assumes "sb_ok b" "sb_owned b" "headerLen b = 72" "extendHeadLen b = 0" "unat (payloadLen b) + 40 \<le> 65535 * 984"
  shows "splittable b 1024" "length (split_body b) = unat (payloadLen b) + 40" "max_frag b 1024 = 984"
  using assms by (auto simp: splittable_def length_split_body max_frag_def MAX_EXTEND_HEAD_LENGTH_def)

lemma SetPhyHeader_keeps_split:
  assumes "same_shape b b'" "sb_owned b'" "sb_ok b'" "splittable b mtu"
  shows "splittable b' mtu" "length (split_body b') = length (split_body b)"
  using assms by (auto simp: splittable_def same_shape_def length_split_body max_frag_def)

lemma data_header_sealed:
  assumes "hi_frameType info \<noteq> EMPTY" "hi_frameType info \<noteq> INVALID_MAX_FRAME_TYPE"
  shows "data_header (phy_of_net (sealed be (frame_header b info) body))"
  using assms by (auto simp: data_header_def phy_of_net_sealed frame_header_def)

theorem split_covers_frame_witness:
  "\<exists>b ps. AllocBufferByPayloadLength never_oom 2000 72 new_SerialBuffer = (E_OK, b) \<and>
     SplitFrameIntoPacketsIfNeed never_oom False b 1024 = Ok ps \<and> 2 \<le> length ps"
proof -
  obtain b where b: "AllocBufferByPayloadLength never_oom 2000 72 new_SerialBuffer = (E_OK, b)" "sb_ok b" "sb_owned b"
    "headerLen b = 72" "payloadLen b = 2000" "extendHeadLen b = 0" "unat (totalLen b) = 2072"
    using alloc_app_frame[of 2000] by auto
  have sp: "splittable b 1024" using alloc_app_splittable(1)[OF b(2-4,6)] b(5) by simp
  show ?thesis using split_covers_frame[OF sp, of never_oom False] b by auto
qed

theorem packet_sizes_witness:
  "\<exists>b ps. AllocBufferByPayloadLength never_oom 2000 72 new_SerialBuffer = (E_OK, b) \<and>
     SplitFrameIntoPacketsIfNeed never_oom False b 1024 = Ok ps \<and> (\<forall>p \<in> set (butlast ps). length (fst p) \<le> 1024)"
proof -
  obtain b where b: "AllocBufferByPayloadLength never_oom 2000 72 new_SerialBuffer = (E_OK, b)" "sb_ok b" "sb_owned b"
    "headerLen b = 72" "payloadLen b = 2000" "extendHeadLen b = 0" "unat (totalLen b) = 2072"
    using alloc_app_frame[of 2000] by auto
  have sp: "splittable b 1024" using alloc_app_splittable(1)[OF b(2-4,6)] b(5) by simp
  show ?thesis using packet_sizes[OF sp, of never_oom False] b by auto
qed

theorem packets_describe_frame_witness:
  "\<exists>b b' ps r. AllocBufferByPayloadLength never_oom 2000 72 new_SerialBuffer = (E_OK, b) \<and>
     SetPhyHeader False (Some b) \<lparr>hi_sourceId = 5, hi_frameId = 9, hi_frameType = APPLICATION_MESSAGE,
       hi_sendLabelExchange = True\<rparr> = Ok b' \<and>
     SplitFrameIntoPacketsIfNeed never_oom False b' 1024 = Ok ps \<and>
     (0 < length ps \<longrightarrow> CheckAndParsePacket False (Some (fst (ps ! 0))) (of_nat (length (fst (ps ! 0)))) new_ParseResult = Ok r)"
proof -
  let ?i = "\<lparr>hi_sourceId = 5, hi_frameId = 9, hi_frameType = APPLICATION_MESSAGE, hi_sendLabelExchange = True\<rparr>"
  obtain b where b: "AllocBufferByPayloadLength never_oom 2000 72 new_SerialBuffer = (E_OK, b)" "sb_ok b" "sb_owned b"
    "headerLen b = 72" "payloadLen b = 2000" "extendHeadLen b = 0" "unat (totalLen b) = 2072"
    using alloc_app_frame[of 2000] by auto
  have sp: "splittable b 1024" using alloc_app_splittable(1)[OF b(2-4,6)] b(5) by simp
  have h: "32 \<le> unat (headerLen b)" "8 dvd unat (totalLen b)" unfolding b(4,7) by simp_all
  obtain b' where b': "SetPhyHeader False (Some b) ?i = Ok b'" "same_shape b b'" "sb_ok b'" "sb_owned b'"
    "content b' = sealed False (frame_header b ?i) (drop 32 (content b))"
    using SetPhyHeader_seals[OF b(2,3) h, of ?i False] by auto
  have sp': "splittable b' 1024" by (rule SetPhyHeader_keeps_split(1)[OF b'(2,4,3) sp])
  have hd: "data_header (phy_of_net (content b'))" unfolding b'(5) by (rule data_header_sealed) simp_all
  have big: "unat (1024::u32) < unat (totalLen b') + unat (extendHeadLen b')" "extendHeadLen b' = 0"
    using b'(2) b(6,7) by (auto simp: same_shape_def)
  from packets_describe_frame[OF sp' big(1) _ hd refl, of never_oom False] show ?thesis
    using b(1) b'(1) big(2) by (fastforce simp: Let_def)
qed

text \<open>
  The last packet of a split carries the quotient and the whole remainder, so it can be
  longer than the MTU it was split for: a frame of 984033 bytes split for an MTU of 1024 gives
  1001 packets, the last of them 1048 bytes long.
\<close>

theorem last_packet_exceeds_mtu:
  "\<exists>b ps. AllocBufferByPayloadLength never_oom 983961 72 new_SerialBuffer = (E_OK, b) \<and> splittable b 1024 \<and>
     SplitFrameIntoPacketsIfNeed never_oom be b 1024 = Ok ps \<and> length ps = 1001 \<and> length (fst (last ps)) = 1048"
proof -
  obtain b where b: "AllocBufferByPayloadLength never_oom 983961 72 new_SerialBuffer = (E_OK, b)" "sb_ok b" "sb_owned b"
    "headerLen b = 72" "payloadLen b = 983961" "extendHeadLen b = 0" "unat (totalLen b) = 984040"
    using alloc_app_frame[of 983961] by auto
  note sp = alloc_app_splittable[OF b(2-4,6), unfolded b(5), simplified]
  have big: "unat (1024::u32) < unat (totalLen b) + unat (extendHeadLen b)" using b(7) by simp
  have n: "ceil_div (length (split_body b)) (max_frag b 1024) = 1001" unfolding sp(2,3) by (simp add: ceil_div_def)
  have l: "frag_len 984001 1001 1000 = 1001" by (simp add: frag_len_def)
  show ?thesis
    using b(1) sp SplitFrame_packets[OF sp(1) big _ n[symmetric], of never_oom be] length_sb_head[OF b(3)] b(6)
    by (simp add: last_map length_pkt l)
qed

text \<open>
  The number of fragments is computed in a \<^verbatim>\<open>uint16_t\<close>.  For a frame within the size limit that
  needs 65537 fragments the count wraps around to one, and the frame cannot be sent: splitting it
  fails with \<^verbatim>\<open>E_INVALID_ARGS\<close>.
\<close>

theorem fragment_count_truncated:
  "\<exists>b. AllocBufferByPayloadLength never_oom 64488368 72 new_SerialBuffer = (E_OK, b) \<and> sb_ok b \<and>
     totalLen b \<le> MAX_TOTAL_LEN \<and> SplitFrameIntoPacketsIfNeed never_oom be b 1024 = Err E_INVALID_ARGS"
proof -
  obtain b where b: "AllocBufferByPayloadLength never_oom 64488368 72 new_SerialBuffer = (E_OK, b)" "sb_ok b" "sb_owned b"
    "headerLen b = 72" "payloadLen b = 64488368" "extendHeadLen b = 0" "unat (totalLen b) = 64488440"
    using alloc_app_frame[of 64488368] by auto
  have f: "unat (totalLen b - paddingLen b) = 64488440"
    using b(2,4,5) by (simp add: sb_lens_sub sb_ok_def)
  then have "totalLen b - paddingLen b = 64488440" by (simp add: word_unat_eq_iff)
  then have s: "totalLen b - paddingLen b - of_nat SIZEOF_PHY = 64488408" by (simp add: sizeofs)
  have m: "(1024::u32) - extendHeadLen b - of_nat SIZEOF_PHY - of_nat SIZEOF_OPT = 984" using b(6) by (simp add: sizeofs)
  have c: "frag_count 64488408 984 = 1" by (simp add: frag_count_def)
  obtain mm where mm: "GetReadOnlyBytesForEntireFrame b = (Some mm, totalLen b - paddingLen b)"
    "take (unat (headerLen b) + unat (payloadLen b)) mm = frame_bytes b" using frame_view[OF b(2)] by blast
  have "32 \<le> length mm"
    using arg_cong[OF mm(2), of length] b by (simp add: frame_bytes_def length_content)
  then have rd: "read_at mm 0 SIZEOF_PHY = Ok (take SIZEOF_PHY mm)" by (simp add: read_at_def sizeofs)
  have "\<not> totalLen b + extendHeadLen b \<le> 1024" using b(6,7) by (simp add: u32_le)
  then have "SplitFrameIntoPacketsIfNeed never_oom be b 1024 = Err E_INVALID_ARGS"
    unfolding SplitFrameIntoPacketsIfNeed_def Let_def mm(1) case_prod_beta snd_conv fst_conv sb_views[OF b(2)]
      s m c FrameFragmentation_def
    using rd by (simp add: deref_def MIN_FRAGMENT_COUNT_def)
  then show ?thesis using b by (auto simp: sb_ok_def sb_lens_ok_def)
qed

end
