(* ===== verification/Aggregator_Send.thy ===== *)
theory Aggregator_Send
  imports Communicator_Linker Protocol_Fragment
begin

text \<open>
  The sending half of the communicator aggregator (\<^verbatim>\<open>communicator/src/communicator_aggregator.cpp\<close>): frames
  are sealed and queued by \<^verbatim>\<open>ScheduleSendTask\<close>, and a send loop, which runs as a task of the thread pool or in
  a thread of its own, takes them from the scheduler, splits them into packets and hands these to the
  network adapter, again after a temporary failure.

  The state \<open>send_core\<close> holds the aggregator's fields that take part, the retry timers that were set, the
  program points of the send loops, and a log of what the outside observes: packets given to the
  adapter with its answer, completion callbacks, and the notification that the queue has run empty.
\<close>

section \<open>State\<close>

record FrameSendRecord =
  fr_splitMtu :: u32
  fr_sendIndex :: u32

datatype send_event =
    SendBytes target "byte list" u32 errcode
  | OnSendEnd nat errcode bool
  | SendableToAll

text \<open>
  The send loop of the thread pool is in its loop (\<open>sc_loops\<close>), has left it but not yet reset
  \<^verbatim>\<open>sendTaskStart_\<close> (\<open>sc_leaving\<close>), or is about to look once more (\<open>sc_ending\<close>).  The exclusive thread is
  running or waiting for the waking signal.
\<close>

record send_core =
  sc_shutdown :: bool
  sc_incFrameId :: u32
  sc_localSourceId :: u64
  sc_scheduler :: scheduler
  sc_sendRecord :: "(u32, FrameSendRecord) omap"
  sc_sendSequence :: "(target, u64) omap"
  sc_useExclusiveThread :: bool
  sc_wakingSignal :: bool
  sc_waiting :: bool
  sc_sendTaskStart :: bool
  sc_loops :: nat
  sc_leaving :: nat
  sc_ending :: nat
  sc_timers :: "(target \<times> u64 \<times> int) list"
  sc_log :: "send_event list"

text \<open>
  What sending takes from its surroundings: memory, byte order, the answer of the service's handle, whether
  the thread pool takes a task, the identity of the local device (empty when it cannot be read), the
  maximum transfer unit and timeout of a target, the adapter's answer for each packet of a frame, what
  other threads do while a retry is prepared, and the states found at each awakening of a blocked caller.
\<close>

record send_env =
  se_mem :: allocator
  se_be :: bool
  se_hs :: bool
  se_pool :: bool
  se_identity :: string
  se_mtu :: "target \<Rightarrow> u32"
  se_timeout :: "target \<Rightarrow> u32"
  se_answer :: "nat \<Rightarrow> errcode"
  se_meanwhile :: "send_core \<Rightarrow> send_core"
  se_wakes :: "(bool \<times> scheduler) list"

definition new_send_core :: "bool \<Rightarrow> send_core" where
  "new_send_core exclusive =
     \<lparr>sc_shutdown = False, sc_incFrameId = 0, sc_localSourceId = 0,
      sc_scheduler = Scheduler_Initialize new_SendTaskScheduler, sc_sendRecord = [], sc_sendSequence = [],
      sc_useExclusiveThread = exclusive, sc_wakingSignal = False, sc_waiting = False, sc_sendTaskStart = False,
      sc_loops = 0, sc_leaving = 0, sc_ending = 0, sc_timers = [], sc_log = []\<rparr>"

definition RETRY_TIME_SPLIT :: int where
  "RETRY_TIME_SPLIT = 4"

definition log_event :: "send_event \<Rightarrow> send_core \<Rightarrow> send_core" where
  "log_event e c = c\<lparr>sc_log := sc_log c @ [e]\<rparr>"

definition log_ends :: "send_end list \<Rightarrow> send_core \<Rightarrow> send_core" where
  "log_ends es c = c\<lparr>sc_log := sc_log c @ map (\<lambda>(k, e, b). OnSendEnd k e b) es\<rparr>"

section \<open>Limits of the network adapter\<close>

definition MIN_MTU_SIZE :: u32 where "MIN_MTU_SIZE = 1024"
definition MAX_MTU_SIZE :: u32 where "MAX_MTU_SIZE = 5242880"
definition MIN_TIMEOUT :: u32 where "MIN_TIMEOUT = 5000"
definition MAX_TIMEOUT :: u32 where "MAX_TIMEOUT = 60000"

definition CheckAndAdjustMtuSize :: "u32 \<Rightarrow> u32" where
  "CheckAndAdjustMtuSize inMtuSize =
     (if inMtuSize < MIN_MTU_SIZE then MIN_MTU_SIZE
      else if inMtuSize > MAX_MTU_SIZE then MAX_MTU_SIZE
      else inMtuSize - inMtuSize mod 8)"

definition CheckAndAdjustTimeout :: "u32 \<Rightarrow> u32" where
  "CheckAndAdjustTimeout inTimeout =
     (if inTimeout < MIN_TIMEOUT then MIN_TIMEOUT
      else if inTimeout > MAX_TIMEOUT then MAX_TIMEOUT
      else inTimeout)"

section \<open>Triggering the send loop\<close>

definition TriggerSendData :: "send_env \<Rightarrow> send_core \<Rightarrow> send_core" where
  "TriggerSendData env c =
     (if sc_useExclusiveThread c then c\<lparr>sc_wakingSignal := True\<rparr>
      else if sc_sendTaskStart c then c
      else let c1 = c\<lparr>sc_sendTaskStart := True\<rparr>
           in if se_pool env then c1\<lparr>sc_loops := Suc (sc_loops c1)\<rparr> else c1)"

definition OnSendable :: "send_env \<Rightarrow> target \<Rightarrow> send_core \<Rightarrow> send_core" where
  "OnSendable env target c =
     (case NoDelayTaskByTarget target (sc_scheduler c) of
        (errCode, s) \<Rightarrow>
          if errCode \<noteq> E_OK then c\<lparr>sc_scheduler := s\<rparr>
          else TriggerSendData env (c\<lparr>sc_scheduler := s\<rparr>))"

definition GetSendSequenceId :: "target \<Rightarrow> send_core \<Rightarrow> u64" where
  "GetSendSequenceId target c = om_get 0 (sc_sendSequence c) target"

definition IncreaseSendSequenceId :: "target \<Rightarrow> send_core \<Rightarrow> u64 \<times> send_core" where
  "IncreaseSendSequenceId target c =
     (let n = om_get 0 (sc_sendSequence c) target + 1
      in (n, c\<lparr>sc_sendSequence := om_insert target n (sc_sendSequence c)\<rparr>))"

text \<open>The callback registered with the adapter for targets that can be sent to again.\<close>

definition SendableCallback :: "send_env \<Rightarrow> target \<Rightarrow> errcode \<Rightarrow> send_core \<Rightarrow> send_core" where
  "SendableCallback env target deviceCommErrCode c =
     (let (_, c1) = IncreaseSendSequenceId target c;
          (calls, s) = SetDeviceCommErrCode target deviceCommErrCode (sc_scheduler c1)
      in OnSendable env target (log_ends calls (c1\<lparr>sc_scheduler := s\<rparr>)))"

section \<open>Queueing a frame\<close>

definition GenerateLocalSourceId :: "send_env \<Rightarrow> send_core \<Rightarrow> send_core" where
  "GenerateLocalSourceId env c = c\<lparr>sc_localSourceId := HashFunc (se_identity env)\<rparr>"

definition ReGenerateLocalSourceIdIfNeed :: "send_env \<Rightarrow> send_core \<Rightarrow> bool \<times> send_core" where
  "ReGenerateLocalSourceIdIfNeed env c =
     (let c1 = GenerateLocalSourceId env c in (sc_localSourceId c1 \<noteq> 0, c1))"

definition DoOnSendEndByTaskIfNeed :: "send_env \<Rightarrow> nat option \<Rightarrow> errcode \<Rightarrow> send_core \<Rightarrow> send_core" where
  "DoOnSendEndByTaskIfNeed env onEnd result c =
     (case onEnd of
        None \<Rightarrow> c
      | Some k \<Rightarrow> if se_pool env then log_event (OnSendEnd k result True) c else c)"

text \<open>
  A caller that must wait tries again at each awakening, in the state the other threads have left; it
  gives up when its time is over.  A wait without limit ends only by success or by shutdown, which is
  what the end of the list stands for then.
\<close>

fun retry_wakes :: "SendTask \<Rightarrow> u32 \<Rightarrow> Priority \<Rightarrow> (bool \<times> scheduler) list \<Rightarrow> send_core \<Rightarrow> errcode \<times> send_core" where
  "retry_wakes inTask timeout inPrio [] c =
     (if timeout = 0 then (E_OK, c\<lparr>sc_shutdown := True\<rparr>) else (E_TIMEOUT, c))"
| "retry_wakes inTask timeout inPrio ((shut, s) # ws) c =
     (let c1 = c\<lparr>sc_shutdown := shut, sc_scheduler := s\<rparr>
      in if shut then (E_OK, c1)
         else case AddSendTaskIntoSchedule inTask inPrio s of
                (retCode, s') \<Rightarrow>
                  if retCode = E_OK then (E_OK, c1\<lparr>sc_scheduler := s'\<rparr>)
                  else retry_wakes inTask timeout inPrio ws (c1\<lparr>sc_scheduler := s'\<rparr>))"

definition RetryUntilTimeout :: "send_env \<Rightarrow> SendTask \<Rightarrow> u32 \<Rightarrow> Priority \<Rightarrow> send_core \<Rightarrow> errcode \<times> send_core" where
  "RetryUntilTimeout env inTask timeout inPrio c =
     (case AddSendTaskIntoSchedule inTask inPrio (sc_scheduler c) of
        (errCode, s) \<Rightarrow>
          if errCode = E_OK then (E_OK, c\<lparr>sc_scheduler := s\<rparr>)
          else retry_wakes inTask timeout inPrio (se_wakes env) (c\<lparr>sc_scheduler := s\<rparr>))"

definition ScheduleSendTask ::
  "send_env \<Rightarrow> nat option \<Rightarrow> target \<Rightarrow> serial_buffer \<Rightarrow> FrameType \<Rightarrow> TaskConfig \<Rightarrow>
   status_adapter option \<times> send_core \<Rightarrow> (errcode \<times> serial_buffer \<times> status_adapter option \<times> send_core) res" where
  "ScheduleSendTask env onEnd dstTarget inBuff inType inConfig = (\<lambda>(sa, c0).
     let (known, c) = ReGenerateLocalSourceIdIfNeed env c0
     in if \<not> known
        then Ok (E_OK, inBuff, sa, DoOnSendEndByTaskIfNeed env onEnd E_PERIPHERAL_INTERFACE_FAIL c)
        else
          let (sendLabelExchange, sa1) =
                (case sa of None \<Rightarrow> (True, None)
                 | Some s \<Rightarrow> let (b, s') = Adapter_IsSendLabelExchange (se_hs env) s in (b, Some s'));
              frameId = sc_incFrameId c;
              c1 = c\<lparr>sc_incFrameId := frameId + 1\<rparr>;
              info = \<lparr>hi_sourceId = sc_localSourceId c, hi_frameId = frameId, hi_frameType = inType,
                      hi_sendLabelExchange = sendLabelExchange\<rparr>
          in case SetPhyHeader (se_be env) (Some inBuff) info of
               Fault \<Rightarrow> Fault
             | Err e \<Rightarrow> Ok (e, inBuff, sa1, c1)
             | Ok buff \<Rightarrow>
                 let c2 = c1\<lparr>sc_sendRecord := om_insert frameId \<lparr>fr_splitMtu = 0, fr_sendIndex = 0\<rparr> (sc_sendRecord c1)\<rparr>;
                     task = \<lparr>st_buffer = buff, st_dstTarget = dstTarget, st_onEnd = onEnd, st_frameId = frameId,
                             st_isValid = True, st_isRetryTask = tc_isRetryTask inConfig, st_infos = tc_infos inConfig\<rparr>;
                     (errCode, c3) =
                       (if tc_nonBlock inConfig
                        then let (e, s) = AddSendTaskIntoSchedule task (tc_prio inConfig) (sc_scheduler c2)
                             in (e, c2\<lparr>sc_scheduler := s\<rparr>)
                        else RetryUntilTimeout env task (tc_timeout inConfig) (tc_prio inConfig) c2)
                 in if errCode \<noteq> E_OK then Ok (errCode, buff, sa1, c3)
                    else Ok (E_OK, buff, sa1, TriggerSendData env c3))"

section \<open>Sending\<close>

definition ResetFrameRecordIfNeed :: "u32 \<Rightarrow> u32 \<Rightarrow> send_core \<Rightarrow> send_core" where
  "ResetFrameRecordIfNeed frameId mtu c =
     (let r = om_get \<lparr>fr_splitMtu = 0, fr_sendIndex = 0\<rparr> (sc_sendRecord c) frameId
      in c\<lparr>sc_sendRecord := om_insert frameId
             (if fr_splitMtu r = 0 \<or> fr_splitMtu r \<noteq> mtu then \<lparr>fr_splitMtu = mtu, fr_sendIndex = 0\<rparr> else r)
             (sc_sendRecord c)\<rparr>)"

definition set_send_index :: "u32 \<Rightarrow> u32 \<Rightarrow> send_core \<Rightarrow> send_core" where
  "set_send_index frameId index c =
     c\<lparr>sc_sendRecord := om_insert frameId
         ((om_get \<lparr>fr_splitMtu = 0, fr_sendIndex = 0\<rparr> (sc_sendRecord c) frameId)\<lparr>fr_sendIndex := index\<rparr>) (sc_sendRecord c)\<rparr>"

definition reset_retry :: "target \<Rightarrow> send_core \<Rightarrow> send_core" where
  "reset_retry dev c = c\<lparr>sc_scheduler := ResetRetryCount_dev dev (sc_scheduler c)\<rparr>"

text \<open>The packets from \<open>index\<close> on, as long as the task is valid and the adapter takes them.\<close>

fun send_packets :: "send_env \<Rightarrow> SendTask \<Rightarrow> u32 \<Rightarrow> byte list list \<Rightarrow> nat \<Rightarrow> send_core \<Rightarrow> errcode \<times> send_core" where
  "send_packets env inTask totalLength [] index c = (E_OK, c)"
| "send_packets env inTask totalLength (p # ps) index c =
     (if \<not> st_isValid inTask then (E_OK, c)
      else let t = st_dstTarget inTask;
               errCode = se_answer env index;
               c1 = set_send_index (st_frameId inTask) (of_nat index) (log_event (SendBytes t p totalLength errCode) c)
           in if errCode = E_WAIT_RETRY then (errCode, c1)
              else if errCode \<noteq> E_OK then (errCode, reset_retry t c1)
              else send_packets env inTask totalLength ps (Suc index) (reset_retry t c1))"

definition TaskFinalizer :: "SendTask \<Rightarrow> errcode \<Rightarrow> send_core \<Rightarrow> send_core res" where
  "TaskFinalizer inTask result c =
     (let c1 = (case st_onEnd inTask of None \<Rightarrow> c | Some k \<Rightarrow> log_event (OnSendEnd k result True) c)
      in res_bind (FinalizeLastScheduleTask (sc_scheduler c1))
           (\<lambda>(errCode, s). let c2 = c1\<lparr>sc_scheduler := s\<rparr>
              in Ok (if errCode = E_CONTAINER_NOTEMPTY_TO_EMPTY then log_event SendableToAll c2 else c2)))"

definition GetNextRetryInterval :: "send_env \<Rightarrow> target \<Rightarrow> int \<Rightarrow> int" where
  "GetNextRetryInterval env target currentRetryCount =
     sint (se_timeout env target) * currentRetryCount div RETRY_TIME_SPLIT"

definition RetrySendTask :: "send_env \<Rightarrow> target \<Rightarrow> u64 \<Rightarrow> bool \<Rightarrow> send_core \<Rightarrow> send_core res" where
  "RetrySendTask env target sendSequenceId isRetryTask c =
     res_bind (IncreaseRetryCountIfNeed target isRetryTask (sc_scheduler c))
       (\<lambda>s. let currentRetryCount = GetRetryCount target isRetryTask s
            in Ok (c\<lparr>sc_scheduler := s,
                     sc_timers := sc_timers c @ [(target, sendSequenceId, GetNextRetryInterval env target currentRetryCount)]\<rparr>))"

definition RetrySendTaskIfNeed :: "send_env \<Rightarrow> target \<Rightarrow> u64 \<Rightarrow> bool \<Rightarrow> send_core \<Rightarrow> send_core res" where
  "RetrySendTaskIfNeed env target sendSequenceId isRetryTask c =
     (if IsRetryOutOfLimit target isRetryTask (sc_scheduler c)
      then let (calls, s) = InvalidSendTask target (sc_scheduler c) in Ok (log_ends calls (c\<lparr>sc_scheduler := s\<rparr>))
      else res_bind (RetrySendTask env target sendSequenceId isRetryTask c)
             (\<lambda>c0. let c1 = se_meanwhile env c0
                   in if sendSequenceId \<noteq> GetSendSequenceId target c1 then Ok c1
                      else Ok (c1\<lparr>sc_scheduler := snd (DelayTaskByTarget target (sc_scheduler c1))\<rparr>)))"

definition SendPacketsAndDisposeTask ::
  "send_env \<Rightarrow> SendTask \<Rightarrow> u32 \<Rightarrow> byte list list \<Rightarrow> u32 \<Rightarrow> send_core \<Rightarrow> send_core res" where
  "SendPacketsAndDisposeTask env inTask mtu eachPacket totalLength c0 =
     (let c = ResetFrameRecordIfNeed (st_frameId inTask) mtu c0;
          startIndex = unat (fr_sendIndex (om_get \<lparr>fr_splitMtu = 0, fr_sendIndex = 0\<rparr> (sc_sendRecord c) (st_frameId inTask)));
          (currentSendSequenceId, c1) = IncreaseSendSequenceId (st_dstTarget inTask) c;
          (errCode, c2) = send_packets env inTask totalLength (drop startIndex eachPacket) startIndex c1
      in if errCode = E_WAIT_RETRY
         then RetrySendTaskIfNeed env (st_dstTarget inTask) currentSendSequenceId (st_isRetryTask inTask) c2
         else res_bind (TaskFinalizer inTask errCode c2)
                (\<lambda>c3. Ok (c3\<lparr>sc_sendRecord := om_erase (st_frameId inTask) (sc_sendRecord c3)\<rparr>)))"

text \<open>A frame that needs no splitting goes out as it is, its extended head in front.\<close>

definition entire_packet :: "serial_buffer \<Rightarrow> byte list res" where
  "entire_packet b =
     (let ext = unat (extendHeadLen b); n = ext + unat (totalLen b)
      in if isExternalStackMemory b
         then (case externalBytes b of None \<Rightarrow> Fault | Some m \<Rightarrow> if ext = 0 then read_at m 0 n else Fault)
         else (case oringinalBytes b of
                 None \<Rightarrow> Fault
               | Some m \<Rightarrow> (case bytesOff b of
                             None \<Rightarrow> Fault
                           | Some off \<Rightarrow> if ext \<le> off then read_at m (off - ext) n else Fault)))"

definition SendOnceData :: "send_env \<Rightarrow> send_core \<Rightarrow> send_core res" where
  "SendOnceData env c =
     (case ScheduleOutSendTask (sc_scheduler c) of
        Fault \<Rightarrow> Fault
      | Err e \<Rightarrow> Ok c
      | Ok (taskToSend, info, totalLength, s) \<Rightarrow>
          let c1 = c\<lparr>sc_scheduler := s\<rparr>;
              mtu = se_mtu env (st_dstTarget taskToSend)
          in (case SplitFrameIntoPacketsIfNeed (se_mem env) (se_be env) (st_buffer taskToSend) mtu of
                Fault \<Rightarrow> Fault
              | Err e \<Rightarrow> TaskFinalizer taskToSend e c1
              | Ok [] \<Rightarrow>
                  res_bind (entire_packet (st_buffer taskToSend))
                    (\<lambda>p. SendPacketsAndDisposeTask env taskToSend mtu [p] totalLength c1)
              | Ok piecePackets \<Rightarrow>
                  SendPacketsAndDisposeTask env taskToSend mtu (map fst piecePackets) totalLength c1))"

section \<open>The send loops\<close>

definition keeps_sending :: "send_core \<Rightarrow> bool" where
  "keeps_sending c \<longleftrightarrow> \<not> sc_shutdown c \<and> GetNoDelayTaskCount (sc_scheduler c) \<noteq> 0"

text \<open>The task that \<^verbatim>\<open>TriggerSendData\<close> gives to the thread pool, section by section.\<close>

definition loop_turn :: "send_env \<Rightarrow> send_core \<Rightarrow> send_core res" where
  "loop_turn env c =
     (if keeps_sending c then SendOnceData env c
      else Ok (c\<lparr>sc_loops := sc_loops c - 1, sc_leaving := Suc (sc_leaving c)\<rparr>))"

definition loop_mark :: "send_core \<Rightarrow> send_core" where
  "loop_mark c = c\<lparr>sc_sendTaskStart := False, sc_leaving := sc_leaving c - 1, sc_ending := Suc (sc_ending c)\<rparr>"

definition loop_end :: "send_env \<Rightarrow> send_core \<Rightarrow> send_core" where
  "loop_end env c =
     (let c1 = c\<lparr>sc_ending := sc_ending c - 1\<rparr> in if keeps_sending c1 then TriggerSendData env c1 else c1)"

text \<open>A turn of \<^verbatim>\<open>SendDataRoutine\<close>, and its awakening.\<close>

definition routine_turn :: "send_env \<Rightarrow> send_core \<Rightarrow> send_core res" where
  "routine_turn env c =
     (if sc_shutdown c then Ok c
      else if GetNoDelayTaskCount (sc_scheduler c) = 0 then Ok (c\<lparr>sc_waiting := True\<rparr>)
      else SendOnceData env c)"

definition routine_wake :: "send_core \<Rightarrow> send_core" where
  "routine_wake c = (if sc_wakingSignal c then c\<lparr>sc_waiting := False, sc_wakingSignal := False\<rparr> else c)"

text \<open>The retry timer with index \<open>i\<close> expires.\<close>

definition retry_timer :: "send_env \<Rightarrow> nat \<Rightarrow> send_core \<Rightarrow> send_core" where
  "retry_timer env i c =
     (case sc_timers c ! i of
        (target, sendSequenceId, _) \<Rightarrow>
          let c1 = c\<lparr>sc_timers := drop_nth i (sc_timers c)\<rparr>
          in if sendSequenceId = GetSendSequenceId target c1 then OnSendable env target c1 else c1)"

section \<open>The transport of the linker\<close>

text \<open>The surroundings may change from call to call, so they travel with the state.\<close>

definition agg_send :: "(send_env \<times> send_core) sender" where
  "agg_send t b ft cfg = (\<lambda>(sa, env, c).
     res_bind (ScheduleSendTask env None t b ft cfg (sa, c)) (\<lambda>(code, b', sa', c'). Ok (code, b', sa', env, c')))"

definition agg_inv :: "status_adapter option \<times> send_env \<times> send_core \<Rightarrow> bool" where
  "agg_inv = (\<lambda>(sa, env, c). scheduler_reach (sc_scheduler c))"

lemma Trigger_fields [simp]:
  "sc_scheduler (TriggerSendData env c) = sc_scheduler c" "sc_shutdown (TriggerSendData env c) = sc_shutdown c"
  "sc_useExclusiveThread (TriggerSendData env c) = sc_useExclusiveThread c" "sc_waiting (TriggerSendData env c) = sc_waiting c"
  "sc_sendRecord (TriggerSendData env c) = sc_sendRecord c" "sc_leaving (TriggerSendData env c) = sc_leaving c"
  "sc_ending (TriggerSendData env c) = sc_ending c" "sc_log (TriggerSendData env c) = sc_log c"
  by (simp_all add: TriggerSendData_def Let_def)

lemma Do_end_fields [simp]: "sc_scheduler (DoOnSendEndByTaskIfNeed env k r c) = sc_scheduler c"
  by (simp add: DoOnSendEndByTaskIfNeed_def log_event_def split: option.split)

lemma regen [simp]:
  "ReGenerateLocalSourceIdIfNeed env c = (HashFunc (se_identity env) \<noteq> 0, c\<lparr>sc_localSourceId := HashFunc (se_identity env)\<rparr>)"
  by (simp add: ReGenerateLocalSourceIdIfNeed_def GenerateLocalSourceId_def)

lemma comm_buf_sealed:
  assumes "comm_buf b" "hi_frameType info \<noteq> INVALID_MAX_FRAME_TYPE"
  shows "\<exists>b'. SetPhyHeader be (Some b) info = Ok b' \<and> comm_buf b' \<and> GetSize b' = totalLen b"
proof -
  have b: "sb_ok b" "sb_owned b" "32 \<le> unat (headerLen b)" "8 dvd unat (totalLen b)" using assms(1) by (simp_all add: comm_buf_def)
  from SetPhyHeader_seals[OF this assms(2), of be] obtain b' where
    "SetPhyHeader be (Some b) info = Ok b'" "same_shape b b'" "sb_ok b'" "sb_owned b'" by blast
  then show ?thesis using assms(1) by (auto simp: comm_buf_def same_shape_def GetSize_def sb_owned_def)
qed

lemma comm_buf_size: "comm_buf b \<Longrightarrow> 0 < totalLen b \<and> totalLen b \<le> MAX_TOTAL_LEN"
  by (auto simp: comm_buf_def sb_defs word_less_nat_alt)

lemma Schedule_comm:
  assumes "comm_buf b" "ft = COMMUNICATION_LABEL_EXCHANGE \<or> ft = COMMUNICATION_LABEL_EXCHANGE_ACK"
    "scheduler_reach (sc_scheduler c)"
  shows "returns (\<lambda>(code, b', sa', c'). comm_buf b' \<and> scheduler_reach (sc_scheduler c'))
    (ScheduleSendTask env onEnd t b ft link_config (sa, c))"
proof -
  define sl where "sl = (case sa of None \<Rightarrow> (True, None)
      | Some s \<Rightarrow> let (q, s') = Adapter_IsSendLabelExchange (se_hs env) s in (q, Some s'))"
  define info where "info = \<lparr>hi_sourceId = HashFunc (se_identity env), hi_frameId = sc_incFrameId c,
      hi_frameType = ft, hi_sendLabelExchange = fst sl\<rparr>"
  have "hi_frameType info \<noteq> INVALID_MAX_FRAME_TYPE" using assms(2) by (auto simp: info_def)
  then obtain b' where b': "SetPhyHeader (se_be env) (Some b) info = Ok b'" "comm_buf b'" "GetSize b' = totalLen b"
    using comm_buf_sealed[OF assms(1)] by blast
  have ok: "task_ok x" if "st_buffer x = b'" for x using that comm_buf_size[OF assms(1)] b'(3) by (simp add: task_ok_def)
  have "scheduler_reach (snd (AddSendTaskIntoSchedule x p (sc_scheduler c)))" if "st_buffer x = b'" for x p
    by (rule scheduler_reach.added[OF assms(3) ok[OF that]])
  then show ?thesis using assms b' unfolding ScheduleSendTask_def
    by (auto simp: case_prod_unfold Let_def sl_def[symmetric] info_def[symmetric] link_config_def)
qed

interpretation agg: label_transport agg_send agg_inv
proof
  fix b sa ft t and a :: "send_env \<times> send_core"
  assume b: "comm_buf b" and i: "agg_inv (sa, a)" and ft: "ft = COMMUNICATION_LABEL_EXCHANGE \<or> ft = COMMUNICATION_LABEL_EXCHANGE_ACK"
  obtain env c where a: "a = (env, c)" by (cases a)
  have "scheduler_reach (sc_scheduler c)" using i by (simp add: agg_inv_def a)
  from Schedule_comm[OF b ft this, of env None t sa]
  show "returns (\<lambda>(code, b', sa', a'). comm_buf b' \<and> agg_inv (sa', a')) (agg_send t b ft link_config (sa, a))"
    by (auto simp: agg_send_def agg_inv_def a elim!: returns_bind)
next
  fix s a s'
  assume "agg_inv (Some s, a)" "adapter_step s s'"
  then show "agg_inv (Some s', a)" by (simp add: agg_inv_def case_prod_unfold)
qed

section \<open>The linker on the aggregator\<close>

lemma link_reach_inv:
  assumes "link_reach agg_send agg_inv (lk, sa, a, fl)"
  shows "link_ok 0 lk" "agg_inv (sa, a)"
  using agg.link_reach_ok[OF assms] by simp_all


definition stale_exchange :: "linker \<Rightarrow> target \<Rightarrow> u64 \<Rightarrow> u64 \<Rightarrow> bool" where
  "stale_exchange lk t d s \<longleftrightarrow>
     (\<exists>q. om_find (topRecvLabelSeq lk) t = Some q \<and> s < q) \<and>
     (om_find (targetDistinctValue lk) t = None \<or> om_find (targetDistinctValue lk) t = Some d)"

lemma Detect_stale:
  "(case om_find (topRecvLabelSeq (DetectDistinctValueChange le t d lk)) t of None \<Rightarrow> False | Some q \<Rightarrow> s < q) \<longleftrightarrow>
   stale_exchange lk t d s"
  by (auto simp: DetectDistinctValueChange_def stale_exchange_def Let_def om_find_erase split: option.split)

text \<open>
  C17: A label exchange that is older than the newest one from the same process of the sender changes no
  label and is not acknowledged.  Any other exchange, in particular the first one after the sender has
  restarted, whatever its sequence number, is taken over: the labels of the target become the announced
  ones, those of all other targets stay, and the changes reported for notification are exactly the labels
  that were added and the labels that were removed.
\<close>

theorem label_exchange_applied:
  assumes "link_reach agg_send agg_inv (lk, sa, a, fl)" "incAckTriggerId lk \<noteq> - 1"
  shows "\<exists>code out lk' sa' a'. ReceiveLabelExchange le agg_send t ls d s [] (lk, sa, a) = Ok (code, out, lk', sa', a') \<and>
    (if stale_exchange lk t d s
     then code = E_OUT_OF_DATE \<and> out = [] \<and> targetMapOnlineLabels lk' = targetMapOnlineLabels lk \<and> (sa', a') = (sa, a)
     else code = E_OK \<and>
       (\<forall>t'. om_get [] (targetMapOnlineLabels lk') t' = (if t' = t then ls else om_get [] (targetMapOnlineLabels lk) t')) \<and>
       (\<forall>l. om_find out l =
          (if l \<in> set ls \<and> l \<notin> set (om_get [] (targetMapOnlineLabels lk) t) then Some True
           else if l \<notin> set ls \<and> l \<in> set (om_get [] (targetMapOnlineLabels lk) t) then Some False else None)))"
proof (cases "stale_exchange lk t d s")
  case True
  then have "ReceiveLabelExchange le agg_send t ls d s [] (lk, sa, a) =
      Ok (E_OUT_OF_DATE, [], DetectDistinctValueChange le t d lk, sa, a)"
    unfolding Detect_stale[where le = le, symmetric] ReceiveLabelExchange_def Let_def prod.case by simp
  then show ?thesis using True by simp
next
  case False
  note ok = link_reach_inv[OF assms(1)]
  obtain code out lk' sa' a' where r: "ReceiveLabelExchange le agg_send t ls d s [] (lk, sa, a) = Ok (code, out, lk', sa', a')"
      "code = E_OK" "out = change_labels ls (om_get [] (targetMapOnlineLabels lk) t) []"
      "targetMapOnlineLabels lk' = om_insert t ls (targetMapOnlineLabels lk)"
    using agg.Receive_applies[OF ok assms(2), where env = le and t = t and d = d and s = s and ls = ls and out = "[]"] False unfolding Detect_stale by (auto simp: returns_def)
  have m: "om_get [] (targetMapOnlineLabels lk') t' = (if t' = t then ls else om_get [] (targetMapOnlineLabels lk) t')" for t'
    unfolding r(4) by (simp add: om_get_insert)
  have c: "om_find out l =
      (if l \<in> set ls \<and> l \<notin> set (om_get [] (targetMapOnlineLabels lk) t) then Some True
       else if l \<notin> set ls \<and> l \<in> set (om_get [] (targetMapOnlineLabels lk) t) then Some False else None)" for l
    unfolding r(3) change_labels_find by auto
  show ?thesis by (intro exI conjI, rule r(1)) (simp add: False r(2) m c)
qed

text \<open>
  When a communicator is activated, the targets reported to it as already online are exactly the online
  targets that have announced its label, and the label is added to the local ones.
\<close>

theorem activation_reports_online_targets:
  assumes "link_reach agg_send agg_inv (lk, sa, a, fl)" "wf_env le" "length l = COMM_LABEL_LENGTH"
    "unat (incSequenceId lk) + length (remoteOnlineTarget lk) < 2 ^ 64"
  shows "\<exists>code ts lk' sa' a'. IncreaseLocalLabel le agg_send l (lk, sa, a) = Ok (code, ts, lk', sa', a') \<and>
    set ts = {t. t \<in> set (remoteOnlineTarget lk) \<and> l \<in> set (om_get [] (targetMapOnlineLabels lk) t)} \<and>
    set (localOnlineLabels lk') = insert l (set (localOnlineLabels lk))"
  using agg.Increase_reports[OF link_reach_inv[OF assms(1)] assms(2-4)]
  by (fastforce simp: returns_def set_insort_insert)

section \<open>Witnesses for the linker\<close>

definition sample_senv :: send_env where
  "sample_senv = \<lparr>se_mem = never_oom, se_be = False, se_hs = True, se_pool = True, se_identity = ''me'',
     se_mtu = (\<lambda>_. 1024), se_timeout = (\<lambda>_. 5000), se_answer = (\<lambda>_. E_OK), se_meanwhile = (\<lambda>c. c), se_wakes = []\<rparr>"

definition known_linker :: linker where
  "known_linker = UpdateOnlineLabels ''dev'' [(replicate 32 1, True)] (Linker_Initialize ''7'' new_CommunicatorLinker)"

lemma known_reach: "link_reach agg_send agg_inv (known_linker, None, (sample_senv, new_send_core False), [])"
proof -
  have "agg_inv (None, sample_senv, new_send_core False)"
    by (simp add: agg_inv_def new_send_core_def scheduler_reach.initialized)
  then show ?thesis unfolding known_linker_def by (intro l_step[OF l_init l_update])
qed

lemma known_fields:
  "lk_timers known_linker = []" "incAckTriggerId known_linker = 0" "incSequenceId known_linker = 0"
  "remoteOnlineTarget known_linker = []" "om_get [] (targetMapOnlineLabels known_linker) ''dev'' = [replicate 32 1]"
  "topRecvLabelSeq known_linker = []"
  by (simp_all add: known_linker_def UpdateOnlineLabels_def Linker_Initialize_def new_CommunicatorLinker_def om_get_def
      om_find_Cons insort_insert_key_def)

definition online_linker :: "(send_env \<times> send_core) link_conf \<Rightarrow> bool" where
  "online_linker cf \<longleftrightarrow> link_reach agg_send agg_inv cf \<and> remoteOnlineTarget (fst cf) = [''dev''] \<and>
     unat (incSequenceId (fst cf)) \<le> 1 \<and> om_get [] (targetMapOnlineLabels (fst cf)) ''dev'' = [replicate 32 1]"

lemma sample_wf: "wf_env sample_env"
  by (simp add: wf_env_def sample_env_def COMM_LABEL_LENGTH_def)

lemma online_exists: "\<exists>cf. online_linker cf"
proof -
  let ?lk = "known_linker\<lparr>targetMapOnlineLabels := om_touch [] ''dev'' (targetMapOnlineLabels known_linker),
      remoteOnlineTarget := insort_insert ''dev'' []\<rparr>"
  note ok = link_reach_inv[OF known_reach]
  have "link_ok 0 ?lk" using ok(1) by (simp add: link_ok_def pending_refs_def)
  from agg.Trigger_to_ok[OF this ok(2) sample_wf, of "''dev''"] obtain code lk' sa' a' where
    t: "TriggerLabelExchangeEvent_to sample_env agg_send ''dev'' (?lk, None, sample_senv, new_send_core False) = Ok (code, lk', sa', a')"
    "seq_core lk' = seq_core ?lk" "unat (incSequenceId lk') \<le> 1"
    by (auto simp: returns_def known_fields)
  have o: "TargetOnline sample_env agg_send ''dev'' (known_linker, None, sample_senv, new_send_core False) =
      Ok (code, [replicate 32 1], lk', sa', a')"
    using t(1) by (simp add: TargetOnline_def known_fields Let_def)
  have "link_reach agg_send agg_inv (lk', sa', a', [])"
    by (rule l_step[OF known_reach l_online[OF sample_wf _ o]]) (simp add: known_fields)
  moreover have "om_get [] (om_touch [] ''dev'' (targetMapOnlineLabels known_linker)) ''dev'' = [replicate 32 1]"
    using known_fields(5) by (auto simp: om_get_def om_find_touch split: option.splits)
  ultimately show ?thesis using t(3) seq_core_fields(4,6)[OF t(2)]
    by (intro exI[of _ "(lk', sa', a', [])"]) (simp add: online_linker_def insort_insert_key_def)
qed


theorem label_exchange_applied_witness:
  "\<exists>code out lk' sa' a'. ReceiveLabelExchange sample_env agg_send ''dev'' [replicate 32 2] 5 3 []
      (known_linker, None, sample_senv, new_send_core False) = Ok (code, out, lk', sa', a') \<and>
    code = E_OK \<and> om_get [] (targetMapOnlineLabels lk') ''dev'' = [replicate 32 2] \<and> om_find out (replicate 32 1) = Some False"
proof -
  have "\<not> stale_exchange known_linker ''dev'' 5 3" by (simp add: stale_exchange_def known_fields)
  moreover have "replicate 32 1 \<noteq> (replicate 32 2 :: label)" by (simp add: numeral_eq_Suc)
  ultimately show ?thesis
    using label_exchange_applied[OF known_reach, of sample_env "''dev''" "[replicate 32 2]" 5 3]
    by (force simp: known_fields)
qed

theorem activation_reports_online_targets_witness:
  "\<exists>lk sa a fl code ts lk' sa' a'. link_reach agg_send agg_inv (lk, sa, a, fl) \<and>
     IncreaseLocalLabel sample_env agg_send (replicate 32 1) (lk, sa, a) = Ok (code, ts, lk', sa', a') \<and> set ts = {''dev''}"
proof -
  obtain lk sa a fl where o: "online_linker (lk, sa, a, fl)" using online_exists by (metis prod_cases4)
  then have r: "link_reach agg_send agg_inv (lk, sa, a, fl)" "unat (incSequenceId lk) + length (remoteOnlineTarget lk) < 2 ^ 64"
    by (auto simp: online_linker_def)
  have "length (replicate 32 1 :: label) = COMM_LABEL_LENGTH" by (simp add: COMM_LABEL_LENGTH_def)
  from activation_reports_online_targets[OF r(1) sample_wf this r(2)] obtain code ts lk' sa' a' where
    "IncreaseLocalLabel sample_env agg_send (replicate 32 1) (lk, sa, a) = Ok (code, ts, lk', sa', a')"
    "set ts = {t. t \<in> set (remoteOnlineTarget lk) \<and> replicate 32 1 \<in> set (om_get [] (targetMapOnlineLabels lk) t)}" by blast
  moreover have "{t. t \<in> set (remoteOnlineTarget lk) \<and> replicate 32 1 \<in> set (om_get [] (targetMapOnlineLabels lk) t)} = {''dev''}"
    using o by (auto simp: online_linker_def)
  ultimately show ?thesis using r(1) by blast
qed

section \<open>No frame is left behind\<close>

text \<open>
  The other threads, while a retry is prepared, leave things as they are or report a target as sendable.
\<close>

definition benign :: "send_env \<Rightarrow> bool" where
  "benign env \<longleftrightarrow> se_pool env \<and> (se_meanwhile env = (\<lambda>c. c) \<or>
     (\<exists>env' t code. se_pool env' \<and> se_meanwhile env = SendableCallback env' t code))"

definition send_buf :: "serial_buffer \<Rightarrow> bool" where
  "send_buf b \<longleftrightarrow> sb_ok b \<and> sb_owned b \<and> 32 \<le> unat (headerLen b) \<and> 8 dvd unat (totalLen b)"

inductive send_step :: "send_core \<Rightarrow> send_core \<Rightarrow> bool" where
  s_schedule: "send_buf b \<Longrightarrow> tc_nonBlock cfg \<Longrightarrow> se_pool env \<Longrightarrow>
    ScheduleSendTask env onEnd t b ft cfg (sa, c) = Ok (code, b', sa', c') \<Longrightarrow> send_step c c'"
| s_sendable: "se_pool env \<Longrightarrow> send_step c (SendableCallback env t code c)"
| s_timer: "se_pool env \<Longrightarrow> i < length (sc_timers c) \<Longrightarrow> send_step c (retry_timer env i c)"
| s_turn: "benign env \<Longrightarrow> 0 < sc_loops c \<Longrightarrow> loop_turn env c = Ok c' \<Longrightarrow> send_step c c'"
| s_mark: "0 < sc_leaving c \<Longrightarrow> send_step c (loop_mark c)"
| s_end: "se_pool env \<Longrightarrow> 0 < sc_ending c \<Longrightarrow> send_step c (loop_end env c)"
| s_routine: "benign env \<Longrightarrow> sc_useExclusiveThread c \<Longrightarrow> \<not> sc_waiting c \<Longrightarrow> routine_turn env c = Ok c' \<Longrightarrow> send_step c c'"
| s_wake: "sc_useExclusiveThread c \<Longrightarrow> sc_waiting c \<Longrightarrow> send_step c (routine_wake c)"
| s_shutdown: "send_step c (c\<lparr>sc_shutdown := True, sc_wakingSignal := True\<rparr>)"

inductive send_reach :: "send_core \<Rightarrow> bool" where
  s_init: "send_reach (new_send_core exclusive)"
| s_step: "send_reach c \<Longrightarrow> send_step c c' \<Longrightarrow> send_reach c'"

definition base_ok :: "send_core \<Rightarrow> bool" where
  "base_ok c \<longleftrightarrow> scheduler_reach (sc_scheduler c) \<and>
     (sc_useExclusiveThread c \<longrightarrow> sc_loops c + sc_leaving c + sc_ending c = 0) \<and>
     (\<not> sc_useExclusiveThread c \<longrightarrow> sc_loops c + sc_leaving c \<le> 1 \<and> (sc_sendTaskStart c \<longleftrightarrow> sc_loops c + sc_leaving c = 1))"

definition armed :: "send_core \<Rightarrow> bool" where
  "armed c \<longleftrightarrow>
     (sc_useExclusiveThread c \<longrightarrow> sc_waiting c \<longrightarrow> GetNoDelayTaskCount (sc_scheduler c) \<noteq> 0 \<longrightarrow> sc_wakingSignal c) \<and>
     (\<not> sc_useExclusiveThread c \<longrightarrow> keeps_sending c \<longrightarrow> 0 < sc_loops c + sc_leaving c + sc_ending c)"

text \<open>The flags, and that they have not changed but for a waking signal.\<close>

definition same_flags :: "send_core \<Rightarrow> send_core \<Rightarrow> bool" where
  "same_flags c c' \<longleftrightarrow> sc_shutdown c' = sc_shutdown c \<and> sc_useExclusiveThread c' = sc_useExclusiveThread c \<and>
     sc_waiting c' = sc_waiting c \<and> sc_sendTaskStart c' = sc_sendTaskStart c \<and> sc_loops c' = sc_loops c \<and>
     sc_leaving c' = sc_leaving c \<and> sc_ending c' = sc_ending c \<and> (sc_wakingSignal c \<longrightarrow> sc_wakingSignal c')"

lemma same_flags_refl [simp]: "same_flags c c"
  by (simp add: same_flags_def)

lemma same_flags_trans: "same_flags a b \<Longrightarrow> same_flags b c \<Longrightarrow> same_flags a c"
  by (simp add: same_flags_def)

lemma base_same: "base_ok c \<Longrightarrow> same_flags c c' \<Longrightarrow> scheduler_reach (sc_scheduler c') \<Longrightarrow> base_ok c'"
  by (simp add: base_ok_def same_flags_def)

lemma armed_same:
  "armed c \<Longrightarrow> same_flags c c' \<Longrightarrow> GetNoDelayTaskCount (sc_scheduler c') = GetNoDelayTaskCount (sc_scheduler c) \<Longrightarrow> armed c'"
  by (auto simp: armed_def same_flags_def keeps_sending_def)

lemma Trigger_armed:
  assumes "base_ok c" "se_pool env"
  shows "base_ok (TriggerSendData env c) \<and> armed (TriggerSendData env c)"
  using assms by (auto simp: base_ok_def armed_def TriggerSendData_def Let_def)

lemma Trigger_flags:
  "sc_useExclusiveThread c \<or> sc_sendTaskStart c \<Longrightarrow> same_flags c (TriggerSendData env c)"
  by (auto simp: TriggerSendData_def same_flags_def)

lemma log_flags [simp]: "same_flags c (log_event e c)" "same_flags c (log_ends es c)"
  "sc_scheduler (log_event e c) = sc_scheduler c" "sc_scheduler (log_ends es c) = sc_scheduler c"
  "sc_sendRecord (log_event e c) = sc_sendRecord c"
  by (simp_all add: log_event_def log_ends_def same_flags_def)

section \<open>Targets that can be sent to again\<close>

lemma NoDelay_count:
  "fst (NoDelayTaskByTarget t s) \<noteq> E_OK \<Longrightarrow> snd (NoDelayTaskByTarget t s) = s"
  by (auto simp: NoDelayTaskByTarget_def split: if_splits)

lemma OnSendable_armed:
  assumes "base_ok c" "armed c" "se_pool env"
  shows "base_ok (OnSendable env t c) \<and> armed (OnSendable env t c)"
proof -
  have "base_ok (c\<lparr>sc_scheduler := snd (NoDelayTaskByTarget t (sc_scheduler c))\<rparr>)"
    using assms(1) by (simp add: base_ok_def scheduler_reach.no_delay)
  from Trigger_armed[OF this assms(3)] show ?thesis
    using assms(1,2) NoDelay_count[of t "sc_scheduler c"] by (auto simp: OnSendable_def case_prod_unfold)
qed

lemma OnSendable_flags:
  assumes "sc_useExclusiveThread c \<or> sc_sendTaskStart c" "scheduler_reach (sc_scheduler c)"
  shows "same_flags c (OnSendable env t c)" "scheduler_reach (sc_scheduler (OnSendable env t c))"
proof -
  let ?c = "c\<lparr>sc_scheduler := snd (NoDelayTaskByTarget t (sc_scheduler c))\<rparr>"
  have "same_flags c ?c" by (simp add: same_flags_def)
  moreover have "same_flags ?c (TriggerSendData env ?c)" using assms(1) by (intro Trigger_flags) simp
  ultimately show "same_flags c (OnSendable env t c)" using same_flags_trans[of c ?c]
    by (auto simp: OnSendable_def case_prod_unfold)
  show "scheduler_reach (sc_scheduler (OnSendable env t c))"
    using scheduler_reach.no_delay[OF assms(2)] by (simp add: OnSendable_def case_prod_unfold)
qed

definition before_sendable :: "target \<Rightarrow> errcode \<Rightarrow> send_core \<Rightarrow> send_core" where
  "before_sendable t code c =
     (let c1 = snd (IncreaseSendSequenceId t c); r = SetDeviceCommErrCode t code (sc_scheduler c1)
      in log_ends (fst r) (c1\<lparr>sc_scheduler := snd r\<rparr>))"

lemma SendableCallback_eq: "SendableCallback env t code c = OnSendable env t (before_sendable t code c)"
  by (simp add: SendableCallback_def before_sendable_def case_prod_unfold Let_def)

lemma before_sendable:
  "same_flags c (before_sendable t code c)"
  "scheduler_reach (sc_scheduler c) \<Longrightarrow> scheduler_reach (sc_scheduler (before_sendable t code c))"
  "GetNoDelayTaskCount (sc_scheduler (before_sendable t code c)) = GetNoDelayTaskCount (sc_scheduler c)"
  using scheduler_reach.comm_err[of "sc_scheduler c" t code] marking_same(2)[of "sc_scheduler c" t code]
  by (simp_all add: before_sendable_def IncreaseSendSequenceId_def Let_def same_flags_def log_ends_def
      GetNoDelayTaskCount_def same_tasks_def)

lemma SendableCallback_armed:
  assumes "base_ok c" "armed c" "se_pool env"
  shows "base_ok (SendableCallback env t code c) \<and> armed (SendableCallback env t code c)"
  unfolding SendableCallback_eq
  using base_same[OF assms(1) before_sendable(1)] before_sendable(2,3) assms armed_same[OF assms(2) before_sendable(1)]
  by (intro OnSendable_armed) (auto simp: base_ok_def)

lemma SendableCallback_flags:
  assumes "sc_useExclusiveThread c \<or> sc_sendTaskStart c" "scheduler_reach (sc_scheduler c)"
  shows "same_flags c (SendableCallback env t code c)" "scheduler_reach (sc_scheduler (SendableCallback env t code c))"
proof -
  have "sc_useExclusiveThread (before_sendable t code c) \<or> sc_sendTaskStart (before_sendable t code c)"
    using assms(1) before_sendable(1)[of c t code] by (simp add: same_flags_def)
  from OnSendable_flags[OF this before_sendable(2)[OF assms(2)]]
  show "same_flags c (SendableCallback env t code c)" "scheduler_reach (sc_scheduler (SendableCallback env t code c))"
    unfolding SendableCallback_eq using same_flags_trans[OF before_sendable(1)] by blast+
qed

lemma meanwhile_flags:
  assumes "benign env" "sc_useExclusiveThread c \<or> sc_sendTaskStart c" "scheduler_reach (sc_scheduler c)"
  shows "same_flags c (se_meanwhile env c)" "scheduler_reach (sc_scheduler (se_meanwhile env c))"
  using assms SendableCallback_flags[OF assms(2,3)] by (auto simp: benign_def)

section \<open>A turn of the loop\<close>

lemma send_packets_flags:
  "same_flags c (snd (send_packets env x n ps i c))"
  "scheduler_reach (sc_scheduler c) \<Longrightarrow> scheduler_reach (sc_scheduler (snd (send_packets env x n ps i c)))"
proof (induction ps arbitrary: i c)
  case (Cons p ps)
  let ?c = "\<lambda>c i e. set_send_index (st_frameId x) (of_nat i) (log_event (SendBytes (st_dstTarget x) p n e) c)"
  have f: "same_flags c (?c c i e)" "same_flags c (reset_retry t (?c c i e))" for c i e t
    by (simp_all add: same_flags_def set_send_index_def log_event_def reset_retry_def)
  have r: "sc_scheduler (?c c i e) = sc_scheduler c" for c i e by (simp add: set_send_index_def log_event_def)
  have r2: "scheduler_reach (sc_scheduler (reset_retry t (?c c i e)))" if "scheduler_reach (sc_scheduler c)" for c i e t
    using that scheduler_reach.reset_dev[of "sc_scheduler c"] by (simp add: reset_retry_def r)
  have q: "same_flags c (snd (send_packets env x n ps (Suc i) (reset_retry t (?c c i e))))" for c i e t
    by (rule same_flags_trans[OF f(2) Cons.IH(1)])
  { case 1 show ?case using f q by (simp add: Let_def) }
  { case 2 then show ?case using r r2 Cons.IH(2) by (simp add: Let_def) }
qed simp_all

lemma TaskFinalizer_flags:
  assumes "TaskFinalizer x e c = Ok c'"
  shows "same_flags c c'" "scheduler_reach (sc_scheduler c) \<Longrightarrow> scheduler_reach (sc_scheduler c')"
    "sc_sendRecord c' = sc_sendRecord c"
proof -
  let ?c = "case st_onEnd x of None \<Rightarrow> c | Some k \<Rightarrow> log_event (OnSendEnd k e True) c"
  have c: "same_flags c ?c" "sc_scheduler ?c = sc_scheduler c" "sc_sendRecord ?c = sc_sendRecord c"
    by (auto split: option.split)
  obtain code s where f: "FinalizeLastScheduleTask (sc_scheduler c) = Ok (code, s)"
    "c' = (if code = E_CONTAINER_NOTEMPTY_TO_EMPTY then log_event SendableToAll (?c\<lparr>sc_scheduler := s\<rparr>) else ?c\<lparr>sc_scheduler := s\<rparr>)"
    using assms unfolding TaskFinalizer_def Let_def by (auto simp: res_bind_eq_Ok c(2) split: option.splits)
  show "same_flags c c'" "sc_sendRecord c' = sc_sendRecord c" using c unfolding f(2)
    by (simp_all add: same_flags_def log_event_def)
  show "scheduler_reach (sc_scheduler c) \<Longrightarrow> scheduler_reach (sc_scheduler c')"
    using scheduler_reach.finalized[OF _ f(1)] by (simp add: f(2))
qed

lemma Retry_flags:
  assumes "RetrySendTaskIfNeed env t q b c = Ok c'" "benign env" "sc_useExclusiveThread c \<or> sc_sendTaskStart c"
    "scheduler_reach (sc_scheduler c)"
  shows "same_flags c c' \<and> scheduler_reach (sc_scheduler c')"
proof (cases "IsRetryOutOfLimit t b (sc_scheduler c)")
  case True
  then show ?thesis using assms(1) scheduler_reach.invalid[OF assms(4), of t]
    by (auto simp: RetrySendTaskIfNeed_def case_prod_unfold Let_def same_flags_def log_ends_def)
next
  case False
  then obtain c1 where c1: "RetrySendTask env t q b c = Ok c1"
    "c' = se_meanwhile env c1 \<or>
     c' = (se_meanwhile env c1)\<lparr>sc_scheduler := snd (DelayTaskByTarget t (sc_scheduler (se_meanwhile env c1)))\<rparr>"
    using assms(1) by (auto simp: RetrySendTaskIfNeed_def res_bind_eq_Ok Let_def split: if_splits)
  obtain s where s: "IncreaseRetryCountIfNeed t b (sc_scheduler c) = Ok s" "sc_scheduler c1 = s" "same_flags c c1"
    using c1(1) by (auto simp: RetrySendTask_def res_bind_eq_Ok same_flags_def)
  have r1: "scheduler_reach (sc_scheduler c1)" using scheduler_reach.increase[OF assms(4) s(1)] s(2) by simp
  have "sc_useExclusiveThread c1 \<or> sc_sendTaskStart c1" using assms(3) s(3) by (simp add: same_flags_def)
  note m = meanwhile_flags[OF assms(2) this r1]
  have "same_flags c (se_meanwhile env c1)" by (rule same_flags_trans[OF s(3) m(1)])
  then show ?thesis using c1(2) m(2) scheduler_reach.delay[OF m(2), of t] by (auto simp: same_flags_def)
qed

lemma SendPackets_flags:
  assumes "SendPacketsAndDisposeTask env x mtu ps n c = Ok c'" "benign env" "sc_useExclusiveThread c \<or> sc_sendTaskStart c"
    "scheduler_reach (sc_scheduler c)"
  shows "same_flags c c' \<and> scheduler_reach (sc_scheduler c')"
proof -
  define c0 where "c0 = ResetFrameRecordIfNeed (st_frameId x) mtu c"
  define i where "i = unat (fr_sendIndex (om_get \<lparr>fr_splitMtu = 0, fr_sendIndex = 0\<rparr> (sc_sendRecord c0) (st_frameId x)))"
  define c1 where "c1 = snd (IncreaseSendSequenceId (st_dstTarget x) c0)"
  define r where "r = send_packets env x n (drop i ps) i c1"
  have f1: "same_flags c c1" "sc_scheduler c1 = sc_scheduler c"
    by (simp_all add: c1_def c0_def IncreaseSendSequenceId_def ResetFrameRecordIfNeed_def Let_def same_flags_def)
  have f2: "same_flags c (snd r)" "scheduler_reach (sc_scheduler (snd r))"
    using send_packets_flags[of c1 env x n "drop i ps" i] f1 assms(4) same_flags_trans by (auto simp: r_def)
  have u: "sc_useExclusiveThread (snd r) \<or> sc_sendTaskStart (snd r)" using assms(3) f2(1) by (simp add: same_flags_def)
  have eq: "SendPacketsAndDisposeTask env x mtu ps n c =
      (if fst r = E_WAIT_RETRY
       then RetrySendTaskIfNeed env (st_dstTarget x) (fst (IncreaseSendSequenceId (st_dstTarget x) c0)) (st_isRetryTask x) (snd r)
       else res_bind (TaskFinalizer x (fst r) (snd r))
              (\<lambda>c3. Ok (c3\<lparr>sc_sendRecord := om_erase (st_frameId x) (sc_sendRecord c3)\<rparr>)))"
    by (simp add: SendPacketsAndDisposeTask_def case_prod_unfold Let_def r_def c1_def i_def c0_def)
  show ?thesis
  proof (cases "fst r = E_WAIT_RETRY")
    case True
    then show ?thesis using assms(1) Retry_flags[OF _ assms(2) u f2(2)] f2(1) same_flags_trans unfolding eq by auto
  next
    case False
    then obtain c3 where t: "TaskFinalizer x (fst r) (snd r) = Ok c3"
      "c' = c3\<lparr>sc_sendRecord := om_erase (st_frameId x) (sc_sendRecord c3)\<rparr>"
      using assms(1) unfolding eq by (auto simp: res_bind_eq_Ok)
    then show ?thesis using TaskFinalizer_flags(1,2)[OF t(1)] f2 by (auto simp: same_flags_def)
  qed
qed

lemma SendOnce_flags:
  assumes "SendOnceData env c = Ok c'" "benign env" "sc_useExclusiveThread c \<or> sc_sendTaskStart c" "scheduler_reach (sc_scheduler c)"
  shows "same_flags c c' \<and> scheduler_reach (sc_scheduler c')"
proof (cases "ScheduleOutSendTask (sc_scheduler c)")
  case (Ok r)
  obtain x info n s where r: "r = (x, info, n, s)" by (cases r)
  let ?c = "c\<lparr>sc_scheduler := s\<rparr>"
  have reach: "scheduler_reach (sc_scheduler ?c)" using scheduler_reach.scheduled[OF assms(4)] Ok r by simp
  have c: "same_flags c ?c" "sc_useExclusiveThread ?c \<or> sc_sendTaskStart ?c" using assms(3) by (simp_all add: same_flags_def)
  have "(\<exists>e. TaskFinalizer x e ?c = Ok c') \<or> (\<exists>m ps. SendPacketsAndDisposeTask env x m ps n ?c = Ok c')"
    using assms(1) by (auto simp: SendOnceData_def Ok r Let_def res_bind_eq_Ok split: res.splits list.splits)
  then have "same_flags ?c c' \<and> scheduler_reach (sc_scheduler c')"
    using TaskFinalizer_flags(1,2) SendPackets_flags[OF _ assms(2) c(2) reach] reach by blast
  then show ?thesis using same_flags_trans[OF c(1)] by blast
qed (use assms in \<open>simp_all add: SendOnceData_def\<close>)

lemma Schedule_armed:
  assumes r: "ScheduleSendTask env k t b ft cfg (sa, c) = Ok (code, b', sa', c')" and b: "send_buf b"
    and n: "tc_nonBlock cfg" "se_pool env" and c: "base_ok c" "armed c"
  shows "base_ok c' \<and> armed c'"
proof -
  define sl where "sl = (case sa of None \<Rightarrow> (True, None)
      | Some s \<Rightarrow> let (q, s') = Adapter_IsSendLabelExchange (se_hs env) s in (q, Some s'))"
  define info where "info = \<lparr>hi_sourceId = HashFunc (se_identity env), hi_frameId = sc_incFrameId c,
      hi_frameType = ft, hi_sendLabelExchange = fst sl\<rparr>"
  note D = ScheduleSendTask_def case_prod_unfold Let_def sl_def[symmetric] info_def[symmetric]
  have same: ?thesis if "same_flags c c'" "sc_scheduler c' = sc_scheduler c"
    using base_same[OF c(1) that(1)] armed_same[OF c(2) that(1)] that(2) c(1) by (simp add: base_ok_def)
  show ?thesis
  proof (cases "HashFunc (se_identity env) = 0 \<or> (\<forall>b1. SetPhyHeader (se_be env) (Some b) info \<noteq> Ok b1)")
    case True
    then have "same_flags c c' \<and> sc_scheduler c' = sc_scheduler c" using r
      by (cases "SetPhyHeader (se_be env) (Some b) info"; cases k)
         (auto simp: D DoOnSendEndByTaskIfNeed_def same_flags_def log_event_def split: if_splits)
    then show ?thesis using same by blast
  next
    case False
    then obtain b1 where s: "SetPhyHeader (se_be env) (Some b) info = Ok b1" by blast
    define x where "x = \<lparr>st_buffer = b1, st_dstTarget = t, st_onEnd = k, st_frameId = sc_incFrameId c,
        st_isValid = True, st_isRetryTask = tc_isRetryTask cfg, st_infos = tc_infos cfg\<rparr>"
    define a where "a = AddSendTaskIntoSchedule x (tc_prio cfg) (sc_scheduler c)"
    have "hi_frameType info \<noteq> INVALID_MAX_FRAME_TYPE"
      using s by (auto simp: SetPhyHeader_def guard_err_def Let_def split: option.splits if_splits prod.splits)
    then have "GetSize b1 = totalLen b" using SetPhyHeader_seals[of b info "se_be env"] b s
      by (auto simp: send_buf_def same_shape_def GetSize_def sb_owned_def)
    then have "task_ok x" using b by (auto simp: x_def task_ok_def send_buf_def sb_defs word_less_nat_alt)
    then have reach: "scheduler_reach (snd a)" using scheduler_reach.added c(1) by (simp add: base_ok_def a_def)
    obtain c2 where c2: "same_flags c c2" "sc_scheduler c2 = snd a" "c' = (if fst a = E_OK then TriggerSendData env c2 else c2)"
      using r n False s
      by (intro that[of "c\<lparr>sc_localSourceId := HashFunc (se_identity env), sc_incFrameId := sc_incFrameId c + 1,
          sc_sendRecord := om_insert (sc_incFrameId c) \<lparr>fr_splitMtu = 0, fr_sendIndex = 0\<rparr> (sc_sendRecord c),
          sc_scheduler := snd a\<rparr>"])
         (auto simp: D a_def x_def same_flags_def split: if_splits)
    have ok: "base_ok c2" using base_same[OF c(1) c2(1)] reach c2(2) by simp
    show ?thesis
    proof (cases "fst a = E_OK")
      case True
      then show ?thesis using Trigger_armed[OF ok n(2)] c2(3) by simp
    next
      case False
      then have "snd a = sc_scheduler c" by (auto simp: a_def AddSendTaskIntoSchedule_def Let_def split: if_splits)
      then show ?thesis using same c2 False by simp
    qed
  qed
qed

lemma Turn_armed:
  assumes "SendOnceData env c = Ok c'" "benign env" "base_ok c"
    "sc_useExclusiveThread c \<and> \<not> sc_waiting c \<or> \<not> sc_useExclusiveThread c \<and> 0 < sc_loops c"
  shows "base_ok c' \<and> armed c'"
proof -
  have "sc_useExclusiveThread c \<or> sc_sendTaskStart c" using assms(3,4) by (auto simp: base_ok_def)
  with SendOnce_flags[OF assms(1,2)] assms(3) have f: "same_flags c c'" "scheduler_reach (sc_scheduler c')"
    by (simp_all add: base_ok_def)
  show ?thesis using base_same[OF assms(3) f] assms(4) f(1) by (auto simp: armed_def same_flags_def)
qed

lemma send_step_armed: "send_step c c' \<Longrightarrow> base_ok c \<Longrightarrow> armed c \<Longrightarrow> base_ok c' \<and> armed c'"
proof (induction rule: send_step.induct)
  case (s_schedule b cfg env onEnd t ft sa c code b' sa' c')
  then show ?case using Schedule_armed by blast
next
  case (s_sendable env c t code)
  then show ?case using SendableCallback_armed by blast
next
  case (s_timer env i c)
  let ?c = "c\<lparr>sc_timers := drop_nth i (sc_timers c)\<rparr>"
  have c: "base_ok ?c" "armed ?c" using s_timer by (simp_all add: base_ok_def armed_def keeps_sending_def)
  show ?case using OnSendable_armed[OF c s_timer(1)] c by (auto simp: retry_timer_def Let_def split: prod.split)
next
  case (s_turn env c c')
  show ?case
  proof (cases "keeps_sending c")
    case True
    then have "SendOnceData env c = Ok c'" using s_turn(3) by (simp add: loop_turn_def)
    then show ?thesis using Turn_armed s_turn by (auto simp: base_ok_def)
  next
    case False
    then show ?thesis using s_turn by (auto simp: loop_turn_def base_ok_def armed_def)
  qed
next
  case (s_mark c)
  then show ?case by (auto simp: loop_mark_def base_ok_def armed_def)
next
  case (s_end env c)
  let ?c = "c\<lparr>sc_ending := sc_ending c - 1\<rparr>"
  have c: "base_ok ?c" using s_end by (auto simp: base_ok_def)
  have "\<not> sc_useExclusiveThread c" using s_end(2,3) by (auto simp: base_ok_def)
  then have "\<not> keeps_sending ?c \<Longrightarrow> armed ?c" by (simp add: armed_def)
  then show ?case using Trigger_armed[OF c s_end(1)] c by (simp add: loop_end_def Let_def)
next
  case (s_routine env c c')
  then consider "sc_shutdown c" "c' = c" | "GetNoDelayTaskCount (sc_scheduler c) = 0" "c' = c\<lparr>sc_waiting := True\<rparr>"
    | "SendOnceData env c = Ok c'" unfolding routine_turn_def by (metis res.inject(1))
  then show ?case
  proof cases
    case 3
    then show ?thesis using Turn_armed s_routine by blast
  qed (use s_routine in \<open>auto simp: base_ok_def armed_def\<close>)
next
  case (s_wake c)
  then show ?case by (auto simp: routine_wake_def base_ok_def armed_def keeps_sending_def)
next
  case (s_shutdown c)
  then show ?case by (auto simp: base_ok_def armed_def keeps_sending_def)
qed

lemma send_reach_armed: "send_reach c \<Longrightarrow> base_ok c \<and> armed c"
proof (induction rule: send_reach.induct)
  case (s_init exclusive)
  have "GetNoDelayTaskCount (Scheduler_Initialize new_SendTaskScheduler) = 0"
    by (simp add: GetNoDelayTaskCount_def Scheduler_Initialize_def new_SendTaskScheduler_def)
  then show ?case by (simp add: new_send_core_def base_ok_def armed_def keeps_sending_def scheduler_reach.initialized)
next
  case (s_step c c')
  then show ?case using send_step_armed by blast
qed

section \<open>Delayed targets come back\<close>

text \<open>Every delayed target has a retry timer pending that carries its current sequence number.\<close>

definition retry_armed :: "send_core \<Rightarrow> bool" where
  "retry_armed c \<longleftrightarrow> (\<forall>t. policy_of (sc_scheduler c) t = DELAY \<longrightarrow>
     (\<exists>n. (t, GetSendSequenceId t c, n) \<in> set (sc_timers c)))"

definition retry_view :: "send_core \<Rightarrow> (target \<Rightarrow> TargetPolicy) \<times> (target, u64) omap \<times> (target \<times> u64 \<times> int) list" where
  "retry_view c = (policy_of (sc_scheduler c), sc_sendSequence c, sc_timers c)"

lemma retry_armed_view: "retry_view c' = retry_view c \<Longrightarrow> retry_armed c' = retry_armed c"
  by (simp add: retry_view_def retry_armed_def GetSendSequenceId_def)

lemma same_tasks_policy: "same_tasks s s' \<Longrightarrow> policy_of s' = policy_of s"
  by (simp add: same_tasks_def policy_of_def fun_eq_iff)

lemma view_simps [simp]:
  "retry_view (TriggerSendData env c) = retry_view c" "retry_view (log_event e c) = retry_view c"
  "retry_view (log_ends es c) = retry_view c" "retry_view (set_send_index f i c) = retry_view c"
  "retry_view (reset_retry t c) = retry_view c" "retry_view (ResetFrameRecordIfNeed f m c) = retry_view c"
  "retry_view (DoOnSendEndByTaskIfNeed env k r c) = retry_view c"
  by (simp_all add: retry_view_def TriggerSendData_def log_event_def log_ends_def set_send_index_def reset_retry_def
      ResetFrameRecordIfNeed_def DoOnSendEndByTaskIfNeed_def ResetRetryCount_dev_def Let_def split: option.split)

lemma send_packets_view [simp]: "retry_view (snd (send_packets env x n ps i c)) = retry_view c"
  by (induction ps arbitrary: i c) (simp_all add: Let_def)

lemma sub_delay_policy: "policy_of (sub_delay ps t s) = policy_of s"
  by (induction ps arbitrary: s) (simp_all add: Let_def)

lemma add_delay_policy: "policy_of (add_delay ps t s) = policy_of s"
  by (induction ps arbitrary: s) (simp_all add: Let_def)

lemma NoDelay_policy: "policy_of (snd (NoDelayTaskByTarget t s)) = (policy_of s)(t := NO_DELAY)"
  using policy_NO_DELAY_default[of s t] by (auto simp: NoDelayTaskByTarget_def sub_delay_policy fun_eq_iff)

lemma Delay_policy: "policy_of (snd (DelayTaskByTarget t s)) u = DELAY \<Longrightarrow> u = t \<or> policy_of s u = DELAY"
  by (auto simp: DelayTaskByTarget_def add_delay_policy split: if_splits)

lemma Finalize_policy: "FinalizeLastScheduleTask s = Ok (code, s') \<Longrightarrow> policy_of s' = policy_of s"
  by (auto simp: FinalizeLastScheduleTask_def Let_def res_bind_eq_Ok split: if_splits)

lemma Increase_policy:
  assumes "IncreaseRetryCountIfNeed t b s = Ok s'"
  shows "policy_of s' = policy_of s"
proof (cases "ScheduleOutSendTask s")
  case (Ok r)
  obtain x info n s1 where r: "r = (x, info, n, s1)" by (cases r)
  show ?thesis using assms ScheduleOut_frame(1)[OF Ok[unfolded r]]
    by (auto simp: IncreaseRetryCountIfNeed_def Ok r set_retry_def split: if_splits)
qed (use assms in \<open>simp_all add: IncreaseRetryCountIfNeed_def\<close>)

lemma OnSendable_view:
  "policy_of (sc_scheduler (OnSendable env t c)) = (policy_of (sc_scheduler c))(t := NO_DELAY)"
  "sc_sendSequence (OnSendable env t c) = sc_sendSequence c" "sc_timers (OnSendable env t c) = sc_timers c"
  using view_simps(1)[of env "c\<lparr>sc_scheduler := snd (NoDelayTaskByTarget t (sc_scheduler c))\<rparr>"]
  by (simp_all add: OnSendable_def case_prod_unfold NoDelay_policy retry_view_def)

lemma before_sendable_view:
  "policy_of (sc_scheduler (before_sendable t code c)) = policy_of (sc_scheduler c)"
  "sc_sendSequence (before_sendable t code c) = om_insert t (GetSendSequenceId t c + 1) (sc_sendSequence c)"
  "sc_timers (before_sendable t code c) = sc_timers c"
  using same_tasks_policy[OF marking_same(2)]
  by (simp_all add: before_sendable_def IncreaseSendSequenceId_def Let_def log_ends_def GetSendSequenceId_def)

lemma Sendable_view:
  "policy_of (sc_scheduler (SendableCallback env t code c)) = (policy_of (sc_scheduler c))(t := NO_DELAY)"
  "GetSendSequenceId u (SendableCallback env t code c) = (if u = t then GetSendSequenceId t c + 1 else GetSendSequenceId u c)"
  "sc_timers (SendableCallback env t code c) = sc_timers c"
  by (simp_all add: SendableCallback_eq OnSendable_view before_sendable_view GetSendSequenceId_def om_get_insert)

lemma Sendable_retry_armed: "retry_armed c \<Longrightarrow> retry_armed (SendableCallback env t code c)"
  by (auto simp: retry_armed_def Sendable_view)

lemma meanwhile_retry_armed:
  assumes "benign env" "retry_armed c"
  shows "retry_armed (se_meanwhile env c)" "sc_timers (se_meanwhile env c) = sc_timers c"
  using assms Sendable_retry_armed by (auto simp: benign_def Sendable_view)

lemma Retry_retry_armed:
  assumes r: "RetrySendTaskIfNeed env t (GetSendSequenceId t c) b c = Ok c'" and "benign env"
    and t: "policy_of (sc_scheduler c) t \<noteq> DELAY" and c: "retry_armed c"
  shows "retry_armed c'"
proof (cases "IsRetryOutOfLimit t b (sc_scheduler c)")
  case True
  let ?r = "InvalidSendTask t (sc_scheduler c)"
  have eq: "c' = log_ends (fst ?r) (c\<lparr>sc_scheduler := snd ?r\<rparr>)"
    using r True by (simp add: RetrySendTaskIfNeed_def case_prod_unfold Let_def)
  have "retry_view c' = retry_view c" unfolding eq view_simps by (simp add: retry_view_def same_tasks_policy[OF marking_same(1)])
  then show ?thesis using c retry_armed_view by blast
next
  case False
  obtain s where s: "IncreaseRetryCountIfNeed t b (sc_scheduler c) = Ok s"
    using r False by (auto simp: RetrySendTaskIfNeed_def RetrySendTask_def res_bind_eq_Ok)
  obtain c1 n where c1: "RetrySendTask env t (GetSendSequenceId t c) b c = Ok c1" "policy_of (sc_scheduler c1) = policy_of (sc_scheduler c)"
      "sc_sendSequence c1 = sc_sendSequence c" "sc_timers c1 = sc_timers c @ [(t, GetSendSequenceId t c, n)]"
    by (rule that[of "c\<lparr>sc_scheduler := s, sc_timers := sc_timers c @
          [(t, GetSendSequenceId t c, GetNextRetryInterval env t (GetRetryCount t b s))]\<rparr>"])
       (simp_all add: RetrySendTask_def s Increase_policy[OF s] Let_def)
  have "retry_armed c1" using c t c1 by (auto simp: retry_armed_def GetSendSequenceId_def)
  note m = meanwhile_retry_armed[OF assms(2) this]
  have "retry_armed (c2\<lparr>sc_scheduler := snd (DelayTaskByTarget t (sc_scheduler c2))\<rparr>)"
    if "c2 = se_meanwhile env c1" "GetSendSequenceId t c = GetSendSequenceId t c2" for c2
    using m that c1(4) Delay_policy by (fastforce simp: retry_armed_def GetSendSequenceId_def)
  then show ?thesis using r False c1(1) m(1) by (auto simp: RetrySendTaskIfNeed_def Let_def split: if_splits)
qed

lemma TaskFinalizer_view:
  assumes "TaskFinalizer x e c = Ok c'"
  shows "retry_view c' = retry_view c"
  using assms by (auto simp: TaskFinalizer_def Let_def res_bind_eq_Ok split: option.splits)
    (auto simp: retry_view_def log_event_def dest: Finalize_policy)

lemma SendPackets_retry_armed:
  assumes "SendPacketsAndDisposeTask env x mtu ps n c = Ok c'" "benign env"
    and t: "policy_of (sc_scheduler c) (st_dstTarget x) \<noteq> DELAY" and c: "retry_armed c"
  shows "retry_armed c'"
proof -
  let ?t = "st_dstTarget x"
  define c0 where "c0 = ResetFrameRecordIfNeed (st_frameId x) mtu c"
  define i where "i = unat (fr_sendIndex (om_get \<lparr>fr_splitMtu = 0, fr_sendIndex = 0\<rparr> (sc_sendRecord c0) (st_frameId x)))"
  define c1 where "c1 = snd (IncreaseSendSequenceId ?t c0)"
  define r where "r = send_packets env x n (drop i ps) i c1"
  have v0: "retry_view c0 = retry_view c" by (simp add: c0_def)
  have "retry_view c1 = (policy_of (sc_scheduler c), om_insert ?t (GetSendSequenceId ?t c + 1) (sc_sendSequence c), sc_timers c)"
    using v0 by (simp add: c1_def IncreaseSendSequenceId_def retry_view_def Let_def GetSendSequenceId_def)
  then have v: "retry_view (snd r) = (policy_of (sc_scheduler c), om_insert ?t (GetSendSequenceId ?t c + 1) (sc_sendSequence c), sc_timers c)"
    by (simp add: r_def)
  have a: "retry_armed (snd r)" "policy_of (sc_scheduler (snd r)) ?t \<noteq> DELAY"
    using v c t by (auto simp: retry_view_def retry_armed_def GetSendSequenceId_def om_get_insert)
  have q: "fst (IncreaseSendSequenceId ?t c0) = GetSendSequenceId ?t (snd r)"
    using v v0 by (simp add: retry_view_def IncreaseSendSequenceId_def GetSendSequenceId_def Let_def om_get_insert)
  have eq: "SendPacketsAndDisposeTask env x mtu ps n c =
      (if fst r = E_WAIT_RETRY
       then RetrySendTaskIfNeed env ?t (GetSendSequenceId ?t (snd r)) (st_isRetryTask x) (snd r)
       else res_bind (TaskFinalizer x (fst r) (snd r))
              (\<lambda>c3. Ok (c3\<lparr>sc_sendRecord := om_erase (st_frameId x) (sc_sendRecord c3)\<rparr>)))"
    unfolding q[symmetric] by (simp add: SendPacketsAndDisposeTask_def case_prod_unfold Let_def r_def c1_def i_def c0_def)
  show ?thesis
  proof (cases "fst r = E_WAIT_RETRY")
    case True
    then show ?thesis using Retry_retry_armed[OF _ assms(2) a(2,1)] assms(1) unfolding eq by simp
  next
    case False
    then obtain c3 where t: "TaskFinalizer x (fst r) (snd r) = Ok c3"
      "c' = c3\<lparr>sc_sendRecord := om_erase (st_frameId x) (sc_sendRecord c3)\<rparr>"
      using assms(1) unfolding eq by (auto simp: res_bind_eq_Ok)
    have "retry_view c' = retry_view c3" unfolding t(2) by (simp add: retry_view_def)
    then have "retry_view c' = retry_view (snd r)" using TaskFinalizer_view[OF t(1)] by (rule trans)
    then show ?thesis using a(1) retry_armed_view by blast
  qed
qed

lemma ScheduleOut_not_delayed:
  assumes "scheduler_reach s" "GetNoDelayTaskCount s \<noteq> 0" "ScheduleOutSendTask s = Ok (x, info, n, s')"
  shows "policy_of s (st_dstTarget x) \<noteq> DELAY"
proof -
  have ok: "scheduler_ok s" by (rule scheduler_reach_ok[OF assms(1)])
  have d: "delayTaskCount s \<noteq> curTotalSizeByTask s" using assms(2) by (auto simp: GetNoDelayTaskCount_def)
  then obtain y where y: "find (\<lambda>x. \<not> delayed s x) (all_pending s) = Some y" using all_delayed_iff(1)[OF ok] by auto
  then have "all_pending s \<noteq> []" "\<not> delayed s y" by (auto simp: find_Some_iff)
  then show ?thesis using ScheduleOut_picks[OF ok] assms(3) y by (auto simp: pick_def delayed_def)
qed

lemma SendOnce_retry_armed:
  assumes "SendOnceData env c = Ok c'" "benign env" "scheduler_reach (sc_scheduler c)"
    "GetNoDelayTaskCount (sc_scheduler c) \<noteq> 0" "retry_armed c"
  shows "retry_armed c'"
proof (cases "ScheduleOutSendTask (sc_scheduler c)")
  case (Ok r)
  obtain x info n s where r: "r = (x, info, n, s)" by (cases r)
  let ?c = "c\<lparr>sc_scheduler := s\<rparr>"
  note o = Ok[unfolded r]
  have v: "retry_view ?c = retry_view c" using ScheduleOut_frame(1)[OF o] by (simp add: retry_view_def)
  have a: "policy_of (sc_scheduler ?c) (st_dstTarget x) \<noteq> DELAY" "retry_armed ?c"
    using ScheduleOut_not_delayed[OF assms(3,4) o] v assms(5) retry_armed_view[OF v] by (simp_all add: retry_view_def)
  have "(\<exists>e. TaskFinalizer x e ?c = Ok c') \<or> (\<exists>m ps. SendPacketsAndDisposeTask env x m ps n ?c = Ok c')"
    using assms(1) by (auto simp: SendOnceData_def Ok r Let_def res_bind_eq_Ok split: res.splits list.splits)
  then show ?thesis using SendPackets_retry_armed[OF _ assms(2) a] TaskFinalizer_view a(2) retry_armed_view by blast
qed (use assms in \<open>simp_all add: SendOnceData_def\<close>)

lemma Schedule_view:
  assumes "ScheduleSendTask env k t b ft cfg (sa, c) = Ok (code, b', sa', c')" "tc_nonBlock cfg"
  shows "retry_view c' = retry_view c"
proof -
  have a: "policy_of (snd (AddSendTaskIntoSchedule x p s)) = policy_of s" for x p s
    using Add_fields(4)[of p s x] Add_full[of p s x] by (cases "accepts p s") simp_all
  show ?thesis using assms unfolding ScheduleSendTask_def
    by (auto simp: case_prod_unfold Let_def split: if_splits res.splits) (simp_all add: retry_view_def a)
qed

lemma in_set_drop_nth:
  assumes "x \<in> set xs" "i < length xs" "x \<noteq> xs ! i"
  shows "x \<in> set (drop_nth i xs)"
proof -
  have "xs = take i xs @ xs ! i # drop (Suc i) xs" using assms(2) by (rule id_take_nth_drop)
  then have "set xs = insert (xs ! i) (set (drop_nth i xs))"
    by (metis drop_nth_def list.set(2) set_append sup_commute insert_is_Un Un_insert_right)
  then show ?thesis using assms by simp
qed

lemma send_step_retry_armed: "send_step c c' \<Longrightarrow> base_ok c \<Longrightarrow> retry_armed c \<Longrightarrow> retry_armed c'"
proof (induction rule: send_step.induct)
  case (s_schedule b cfg env onEnd t ft sa c code b' sa' c')
  then show ?case using Schedule_view retry_armed_view by blast
next
  case (s_sendable env c t code)
  then show ?case using Sendable_retry_armed by blast
next
  case (s_timer env i c)
  obtain t q n where i: "sc_timers c ! i = (t, q, n)" by (metis prod_cases3)
  let ?c = "c\<lparr>sc_timers := drop_nth i (sc_timers c)\<rparr>"
  have k: "policy_of (sc_scheduler c) u = DELAY \<Longrightarrow> u \<noteq> t \<or> GetSendSequenceId u c \<noteq> q \<Longrightarrow>
      \<exists>m. (u, GetSendSequenceId u c, m) \<in> set (drop_nth i (sc_timers c))" for u
    using s_timer(2,4) i in_set_drop_nth[of _ "sc_timers c" i] unfolding retry_armed_def by (metis prod.inject)
  show ?case using k by (auto simp: retry_timer_def i Let_def retry_armed_def OnSendable_view GetSendSequenceId_def)
next
  case (s_turn env c c')
  then show ?case using SendOnce_retry_armed[of env c c']
    by (auto simp: loop_turn_def keeps_sending_def base_ok_def split: if_splits) (simp add: retry_armed_def GetSendSequenceId_def)+
next
  case (s_mark c)
  have "retry_view (loop_mark c) = retry_view c" by (simp add: loop_mark_def retry_view_def)
  then show ?case using s_mark retry_armed_view by blast
next
  case (s_end env c)
  have "retry_view (c\<lparr>sc_ending := sc_ending c - 1\<rparr>) = retry_view c" by (simp add: retry_view_def)
  then have "retry_view (loop_end env c) = retry_view c" by (simp add: loop_end_def Let_def)
  then show ?case using s_end retry_armed_view by blast
next
  case (s_routine env c c')
  then consider "c' = c" | "retry_view c' = retry_view c"
    | "SendOnceData env c = Ok c'" "GetNoDelayTaskCount (sc_scheduler c) \<noteq> 0"
    by (auto simp: routine_turn_def retry_view_def split: if_splits)
  then show ?case
    using SendOnce_retry_armed[of env c c'] s_routine retry_armed_view[of c' c] by cases (auto simp: base_ok_def)
next
  case (s_wake c)
  have "retry_view (routine_wake c) = retry_view c" by (simp add: routine_wake_def retry_view_def)
  then show ?case using s_wake retry_armed_view by blast
next
  case (s_shutdown c)
  then show ?case by (simp add: retry_armed_def GetSendSequenceId_def)
qed

lemma send_reach_retry_armed: "send_reach c \<Longrightarrow> retry_armed c"
proof (induction rule: send_reach.induct)
  case (s_init exclusive)
  show ?case by (simp add: new_send_core_def retry_armed_def policy_of_def Scheduler_Initialize_def new_SendTaskScheduler_def
        om_get_def)
next
  case (s_step c c')
  then show ?case using send_step_retry_armed send_reach_armed by blast
qed


section \<open>Packets over several attempts\<close>

text \<open>The packets the adapter has taken for a target.\<close>

fun taken :: "target \<Rightarrow> send_event list \<Rightarrow> byte list list" where
  "taken t [] = []"
| "taken t (SendBytes u p n e # es) = (if u = t \<and> e = E_OK then p # taken t es else taken t es)"
| "taken t (OnSendEnd k e b # es) = taken t es"
| "taken t (SendableToAll # es) = taken t es"

lemma taken_append [simp]: "taken t (xs @ ys) = taken t xs @ taken t ys"
  by (induction t xs rule: taken.induct) auto

lemma taken_log_ends [simp]: "taken t (sc_log (log_ends es c)) = taken t (sc_log c)"
proof -
  have "taken t (map (\<lambda>(k, e, b). OnSendEnd k e b) es) = []" by (induction es) auto
  then show ?thesis by (simp add: log_ends_def)
qed

lemma log_ends_record [simp]: "sc_sendRecord (log_ends es c) = sc_sendRecord c"
  by (simp add: log_ends_def)

text \<open>A task whose frame is not finished is handed out again and sent anew.\<close>

fun attempts :: "send_env list \<Rightarrow> SendTask \<Rightarrow> u32 \<Rightarrow> byte list list \<Rightarrow> u32 \<Rightarrow> send_core \<Rightarrow> send_core res" where
  "attempts [] x mtu ps n c = Ok c"
| "attempts (e # es) x mtu ps n c =
     (if om_count (sc_sendRecord c) (st_frameId x)
      then res_bind (SendPacketsAndDisposeTask e x mtu ps n c) (attempts es x mtu ps n)
      else Ok c)"

definition sound_env :: "send_env \<Rightarrow> bool" where
  "sound_env e \<longleftrightarrow> benign e \<and> (\<forall>i. se_answer e i \<in> {E_OK, E_WAIT_RETRY})"

lemma send_packets_taken:
  assumes "st_isValid x" "\<And>i. se_answer env i \<in> {E_OK, E_WAIT_RETRY}" "i + length ps < 2 ^ 32"
    "om_find (sc_sendRecord c) (st_frameId x) = Some r" "r = \<lparr>fr_splitMtu = m, fr_sendIndex = j\<rparr>"
  shows "\<exists>k code c'. send_packets env x n ps i c = (code, c') \<and> k \<le> length ps \<and>
     taken (st_dstTarget x) (sc_log c') = taken (st_dstTarget x) (sc_log c) @ take k ps \<and>
     (if k = length ps then code = E_OK
      else code = E_WAIT_RETRY \<and> se_answer env (i + k) = E_WAIT_RETRY \<and>
        om_find (sc_sendRecord c') (st_frameId x) = Some \<lparr>fr_splitMtu = m, fr_sendIndex = of_nat (i + k)\<rparr>)"
  using assms(3-5)
proof (induction ps arbitrary: i c r j)
  case (Cons p ps)
  let ?c = "\<lambda>e. set_send_index (st_frameId x) (of_nat i) (log_event (SendBytes (st_dstTarget x) p n e) c)"
  have rec: "om_find (sc_sendRecord (?c e)) (st_frameId x) = Some \<lparr>fr_splitMtu = m, fr_sendIndex = of_nat i\<rparr>" for e
    using Cons.prems(2,3) by (simp add: set_send_index_def log_event_def om_get_def)
  have log: "sc_log (?c e) = sc_log c @ [SendBytes (st_dstTarget x) p n e]" for e
    by (simp add: set_send_index_def log_event_def)
  consider "se_answer env i = E_OK" | "se_answer env i = E_WAIT_RETRY" using assms(2)[of i] by blast
  then show ?case
  proof cases
    case 1
    let ?d = "reset_retry (st_dstTarget x) (?c E_OK)"
    have d: "om_find (sc_sendRecord ?d) (st_frameId x) = Some \<lparr>fr_splitMtu = m, fr_sendIndex = of_nat i\<rparr>"
      "sc_log ?d = sc_log c @ [SendBytes (st_dstTarget x) p n E_OK]" using rec log by (simp_all add: reset_retry_def)
    have "Suc i + length ps < 2 ^ 32" using Cons.prems(1) by simp
    from Cons.IH[OF this d(1) refl] obtain k code c' where k: "send_packets env x n ps (Suc i) ?d = (code, c')" "k \<le> length ps"
      "taken (st_dstTarget x) (sc_log c') = taken (st_dstTarget x) (sc_log ?d) @ take k ps"
      "if k = length ps then code = E_OK
       else code = E_WAIT_RETRY \<and> se_answer env (Suc i + k) = E_WAIT_RETRY \<and>
         om_find (sc_sendRecord c') (st_frameId x) = Some \<lparr>fr_splitMtu = m, fr_sendIndex = of_nat (Suc i + k)\<rparr>" by blast
    show ?thesis
      by (intro exI[of _ "Suc k"] exI[of _ code] exI[of _ c'])
         (use k assms(1) 1 d(2) in \<open>simp add: Let_def split: if_splits\<close>)
  next
    case 2
    show ?thesis
      by (intro exI[of _ 0] exI[of _ E_WAIT_RETRY] exI[of _ "?c E_WAIT_RETRY"])
         (use assms(1) 2 rec[of E_WAIT_RETRY] log[of E_WAIT_RETRY] in \<open>simp add: Let_def\<close>)
  qed
qed simp

text \<open>What a retry leaves alone.\<close>

definition quiet :: "target \<Rightarrow> send_core \<Rightarrow> send_core \<Rightarrow> bool" where
  "quiet t c c' \<longleftrightarrow> sc_sendRecord c' = sc_sendRecord c \<and> taken t (sc_log c') = taken t (sc_log c) \<and>
     (scheduler_reach (sc_scheduler c) \<longrightarrow> scheduler_reach (sc_scheduler c'))"

lemma Sendable_quiet: "quiet t c (SendableCallback env u code c)"
proof -
  let ?b = "before_sendable u code c"
  have b: "quiet t c ?b" using before_sendable(2)[of c u code]
    by (simp add: quiet_def before_sendable_def IncreaseSendSequenceId_def Let_def)
  have "quiet t ?b (OnSendable env u ?b)" using scheduler_reach.no_delay[of "sc_scheduler ?b" u]
    by (simp add: quiet_def OnSendable_def case_prod_unfold)
  then show ?thesis using b unfolding SendableCallback_eq quiet_def by simp
qed

lemma meanwhile_quiet: "benign env \<Longrightarrow> quiet t c (se_meanwhile env c)"
  using Sendable_quiet by (auto simp: benign_def) (simp add: quiet_def)

lemma Retry_quiet:
  assumes "benign env" "scheduler_reach (sc_scheduler c)"
  shows "\<exists>c'. RetrySendTaskIfNeed env t q b c = Ok c' \<and> quiet u c c'"
proof (cases "IsRetryOutOfLimit t b (sc_scheduler c)")
  case True
  then show ?thesis using scheduler_reach.invalid[of "sc_scheduler c" t]
    by (simp add: RetrySendTaskIfNeed_def case_prod_unfold Let_def quiet_def)
next
  case False
  have "ScheduleOutSendTask (sc_scheduler c) \<noteq> Fault" by (rule scheduler_reachable_ok_laws(6)[OF assms(2)])
  then obtain s where s: "IncreaseRetryCountIfNeed t b (sc_scheduler c) = Ok s"
    by (cases "ScheduleOutSendTask (sc_scheduler c)") (auto simp: IncreaseRetryCountIfNeed_def case_prod_unfold)
  obtain c1 where c1: "RetrySendTask env t q b c = Ok c1" "quiet u c c1"
    using scheduler_reach.increase[OF assms(2) s] by (auto simp: RetrySendTask_def s Let_def quiet_def)
  note m = meanwhile_quiet[OF assms(1), of u c1]
  show ?thesis using False c1 m scheduler_reach.delay[of "sc_scheduler (se_meanwhile env c1)" t]
    by (simp add: RetrySendTaskIfNeed_def Let_def quiet_def)
qed

lemma TaskFinalizer_quiet:
  assumes "scheduler_reach (sc_scheduler c)"
  shows "\<exists>c'. TaskFinalizer x e c = Ok c' \<and> quiet t c c'"
proof -
  obtain code s where f: "FinalizeLastScheduleTask (sc_scheduler c) = Ok (code, s)"
    using scheduler_reachable_ok_laws(8)[OF assms]
    by (auto simp: FinalizeLastScheduleTask_def Let_def front_def split: list.splits if_splits)
  have "scheduler_reach s" by (rule scheduler_reach.finalized[OF assms f])
  then show ?thesis by (cases "st_onEnd x") (auto simp: TaskFinalizer_def Let_def log_event_def f quiet_def)
qed

text \<open>How far a frame has got: all its packets are gone, or those before the recorded index.\<close>

definition progress :: "target \<Rightarrow> u32 \<Rightarrow> u32 \<Rightarrow> byte list list \<Rightarrow> byte list list \<Rightarrow> send_core \<Rightarrow> bool" where
  "progress t f mtu ps before c \<longleftrightarrow>
     (case om_find (sc_sendRecord c) f of
        None \<Rightarrow> taken t (sc_log c) = before @ ps
      | Some r \<Rightarrow> (fr_splitMtu r = mtu \<or> r = \<lparr>fr_splitMtu = 0, fr_sendIndex = 0\<rparr>) \<and> unat (fr_sendIndex r) < length ps \<and>
                  taken t (sc_log c) = before @ take (unat (fr_sendIndex r)) ps)"

lemma attempt_progress:
  assumes x: "st_isValid x" "sound_env env" "length ps < 2 ^ 32" "mtu \<noteq> 0" "scheduler_reach (sc_scheduler c)"
    and c: "progress (st_dstTarget x) (st_frameId x) mtu ps before c" "om_find (sc_sendRecord c) (st_frameId x) = Some r"
  shows "\<exists>c'. SendPacketsAndDisposeTask env x mtu ps n c = Ok c' \<and> scheduler_reach (sc_scheduler c') \<and>
    progress (st_dstTarget x) (st_frameId x) mtu ps before c' \<and>
    ((\<forall>i. se_answer env i = E_OK) \<longrightarrow> om_find (sc_sendRecord c') (st_frameId x) = None)"
proof -
  let ?t = "st_dstTarget x" and ?f = "st_frameId x"
  define c0 where "c0 = ResetFrameRecordIfNeed ?f mtu c"
  define i where "i = unat (fr_sendIndex r)"
  define c1 where "c1 = snd (IncreaseSendSequenceId ?t c0)"
  define q where "q = fst (IncreaseSendSequenceId ?t c0)"
  have r: "fr_splitMtu r = mtu \<or> r = \<lparr>fr_splitMtu = 0, fr_sendIndex = 0\<rparr>" "i < length ps"
    "taken ?t (sc_log c) = before @ take i ps" using c by (simp_all add: progress_def i_def)
  have rec: "om_find (sc_sendRecord c0) ?f = Some \<lparr>fr_splitMtu = mtu, fr_sendIndex = fr_sendIndex r\<rparr>"
    using c(2) r(1) x(4) by (cases r) (auto simp: c0_def ResetFrameRecordIfNeed_def Let_def om_get_def)
  have c1: "om_find (sc_sendRecord c1) ?f = Some \<lparr>fr_splitMtu = mtu, fr_sendIndex = fr_sendIndex r\<rparr>"
    "sc_log c1 = sc_log c" "sc_scheduler c1 = sc_scheduler c"
    using rec by (simp_all add: c1_def c0_def IncreaseSendSequenceId_def ResetFrameRecordIfNeed_def Let_def)
  have a: "\<And>i. se_answer env i \<in> {E_OK, E_WAIT_RETRY}" "benign env" using x(2) by (simp_all add: sound_env_def)
  have "i + length (drop i ps) < 2 ^ 32" using r(2) x(3) by simp
  from send_packets_taken[OF x(1) a(1) this c1(1) refl, of n] obtain k code c2 where
    k: "send_packets env x n (drop i ps) i c1 = (code, c2)" "k \<le> length (drop i ps)"
      "taken ?t (sc_log c2) = taken ?t (sc_log c1) @ take k (drop i ps)"
      "if k = length (drop i ps) then code = E_OK
       else code = E_WAIT_RETRY \<and> se_answer env (i + k) = E_WAIT_RETRY \<and>
         om_find (sc_sendRecord c2) ?f = Some \<lparr>fr_splitMtu = mtu, fr_sendIndex = of_nat (i + k)\<rparr>" by blast
  have reach: "scheduler_reach (sc_scheduler c2)"
    using send_packets_flags(2)[of c1 env x n "drop i ps" i] x(5) c1(3) k(1) by simp
  have start: "unat (fr_sendIndex (om_get \<lparr>fr_splitMtu = 0, fr_sendIndex = 0\<rparr> (sc_sendRecord c0) ?f)) = i"
    using rec by (simp add: om_get_def i_def)
  have eq: "SendPacketsAndDisposeTask env x mtu ps n c =
      (if code = E_WAIT_RETRY then RetrySendTaskIfNeed env ?t q (st_isRetryTask x) c2
       else res_bind (TaskFinalizer x code c2) (\<lambda>c3. Ok (c3\<lparr>sc_sendRecord := om_erase ?f (sc_sendRecord c3)\<rparr>)))"
    using k(1) start by (simp add: SendPacketsAndDisposeTask_def case_prod_unfold Let_def c1_def c0_def q_def)
  have t: "take i ps @ take k (drop i ps) = take (i + k) ps" by (simp add: take_add)
  show ?thesis
  proof (cases "k = length (drop i ps)")
    case True
    then have "i + k = length ps" using r(2) by simp
    moreover obtain c3 where "TaskFinalizer x code c2 = Ok c3" "quiet ?t c2 c3" using TaskFinalizer_quiet[OF reach] by blast
    ultimately show ?thesis using True k(3,4) r(3) c1(2) t reach by (simp add: eq progress_def quiet_def om_find_erase)
  next
    case False
    then have l: "i + k < length ps" using k(2) by simp
    then have u: "unat (of_nat (i + k) :: u32) = i + k" using x(3) by (intro unat_of_nat32) simp
    obtain c' where "RetrySendTaskIfNeed env ?t q (st_isRetryTask x) c2 = Ok c'" "quiet ?t c2 c'"
      using Retry_quiet[OF a(2) reach] by blast
    moreover have "\<not> (\<forall>i. se_answer env i = E_OK)" using k(4) False by force
    ultimately show ?thesis using False k(3,4) r(3) c1(2) t reach l u by (simp add: eq progress_def quiet_def)
  qed
qed


section \<open>Where sending falls short\<close>

text \<open>
  A task that was invalidated after too many refusals keeps its completion callback when no device error
  was recorded; the next turn then hands over no packet and reports success.
\<close>

lemma invalid_frame_reported_sent:
  assumes "\<not> st_isValid x" "st_onEnd x = Some k" "scheduler_reach (sc_scheduler c)"
  shows "\<exists>c'. SendPacketsAndDisposeTask env x mtu ps n c = Ok c' \<and> OnSendEnd k E_OK True \<in> set (sc_log c') \<and>
    taken t (sc_log c') = taken t (sc_log c)"
proof -
  have none: "send_packets env x n qs i d = (E_OK, d)" for qs i d using assms(1) by (cases qs) simp_all
  let ?d = "snd (IncreaseSendSequenceId (st_dstTarget x) (ResetFrameRecordIfNeed (st_frameId x) mtu c))"
  have d: "sc_scheduler ?d = sc_scheduler c" "sc_log ?d = sc_log c"
    by (simp_all add: IncreaseSendSequenceId_def ResetFrameRecordIfNeed_def Let_def)
  obtain code s where f: "FinalizeLastScheduleTask (sc_scheduler c) = Ok (code, s)"
    using scheduler_reachable_ok_laws(8)[OF assms(3)]
    by (auto simp: FinalizeLastScheduleTask_def Let_def front_def split: list.splits if_splits)
  show ?thesis using d
    by (auto simp: SendPacketsAndDisposeTask_def case_prod_unfold Let_def none TaskFinalizer_def assms(2) f log_event_def)
qed

text \<open>When the thread pool refuses the send loop once, later triggers find it marked as started and do nothing.\<close>

lemma pool_refusal_stalls:
  assumes "\<not> sc_useExclusiveThread c" "\<not> sc_sendTaskStart c" "\<not> se_pool env"
  shows "sc_loops (TriggerSendData env c) = sc_loops c \<and>
    TriggerSendData env' (TriggerSendData env c) = TriggerSendData env c"
  using assms by (simp add: TriggerSendData_def)

section \<open>Witnesses for sending\<close>

definition sample_config :: TaskConfig where
  "sample_config = link_config\<lparr>tc_nonBlock := True\<rparr>"

lemma sample_hash: "HashFunc ''me'' \<noteq> 0"
  by code_simp

lemma sample_send_buf: "send_buf sample_exchange"
  using sample_exchange_ok by (simp add: comm_buf_def send_buf_def)

lemma empty_accepts: "accepts HIGH (Scheduler_Initialize new_SendTaskScheduler)"
  by (simp add: accepts_def Scheduler_Initialize_def new_SendTaskScheduler_def om_get_def om_find_Cons MAX_CAPACITY_def
      EXTRA_CAPACITY_FOR_HIGH_PRIORITY_def)

lemma sample_queued:
  "\<exists>c x. send_reach c \<and> \<not> sc_shutdown c \<and> x \<in> set (all_pending (sc_scheduler c)) \<and> st_dstTarget x = ''dev'' \<and> st_isValid x \<and>
     om_find (sc_sendRecord c) (st_frameId x) = Some \<lparr>fr_splitMtu = 0, fr_sendIndex = 0\<rparr> \<and> \<not> sc_useExclusiveThread c \<and>
     policy_of (sc_scheduler c) ''dev'' = NO_DELAY \<and> sc_log c = []"
proof -
  let ?c = "new_send_core False" and ?s = "Scheduler_Initialize new_SendTaskScheduler"
  let ?info = "\<lparr>hi_sourceId = HashFunc ''me'', hi_frameId = 0, hi_frameType = APPLICATION_MESSAGE, hi_sendLabelExchange = True\<rparr>"
  have "hi_frameType ?info \<noteq> INVALID_MAX_FRAME_TYPE" by simp
  then obtain b where b: "SetPhyHeader False (Some sample_exchange) ?info = Ok b"
    using comm_buf_sealed[OF sample_exchange_ok] by blast
  let ?x = "\<lparr>st_buffer = b, st_dstTarget = ''dev'', st_onEnd = None, st_frameId = 0, st_isValid = True,
      st_isRetryTask = tc_isRetryTask sample_config, st_infos = tc_infos sample_config\<rparr>"
  let ?s' = "snd (AddSendTaskIntoSchedule ?x HIGH ?s)"
  let ?d = "?c\<lparr>sc_localSourceId := HashFunc ''me'', sc_incFrameId := 1,
      sc_sendRecord := om_insert 0 \<lparr>fr_splitMtu = 0, fr_sendIndex = 0\<rparr> [], sc_scheduler := ?s'\<rparr>"
  have p: "tc_prio sample_config = HIGH" "tc_nonBlock sample_config" by (simp_all add: sample_config_def link_config_def)
  have "ScheduleSendTask sample_senv None ''dev'' sample_exchange APPLICATION_MESSAGE sample_config (None, ?c) =
      Ok (E_OK, b, None, TriggerSendData sample_senv ?d)"
    using b sample_hash Add_fields(1)[OF empty_accepts, of ?x] p
    by (simp add: ScheduleSendTask_def sample_senv_def new_send_core_def case_prod_unfold Let_def)
  then have r: "send_reach (TriggerSendData sample_senv ?d)"
    by (intro s_step[OF s_init[of False] s_schedule[OF sample_send_buf p(2)]]) (auto simp: sample_senv_def)
  have q: "queues_ok ?s" using initial_ok by (simp add: scheduler_ok_def)
  have "?x \<in> set (all_pending ?s')" unfolding all_pending_def Add_pending[OF q empty_accepts] by simp
  moreover have "policy_of ?s' ''dev'' = NO_DELAY"
    unfolding Add_fields(4)[OF empty_accepts] by (simp add: policy_of_def Scheduler_Initialize_def new_SendTaskScheduler_def om_get_def)
  ultimately show ?thesis using r
    by (intro exI[of _ "TriggerSendData sample_senv ?d"] exI[of _ ?x]) (simp add: new_send_core_def om_find_Cons)
qed



end
