(* ===== verification/Communicator.thy ===== *)
theory Communicator
  imports Aggregator_Send
begin

text \<open>
  Communicators (\<^verbatim>\<open>communicator/src/communicator.cpp\<close>): the endpoint of one label, to which the aggregator
  hands received frames and changes of connection, and through which the syncer sends messages.
  Registered callbacks are identifiers; the calls the communicator makes to its user are appended to
  a log, together with every frame buffer it deletes.
\<close>

section \<open>Callbacks\<close>

text \<open>\<^verbatim>\<open>RegCallBack\<close>: the error code, the new callback and finalizer, and the finalizer that is called.\<close>

definition RegCallBack :: "nat option \<Rightarrow> nat option \<Rightarrow> nat option \<Rightarrow> nat option \<Rightarrow>
    errcode \<times> nat option \<times> nat option \<times> nat option" where
  "RegCallBack newCallback oldCallback newFinalizer oldFinalizer =
     (if newCallback \<noteq> None \<and> oldCallback \<noteq> None then (E_ALREADY_REGISTER, oldCallback, oldFinalizer, None)
      else if newCallback \<noteq> None \<and> oldCallback = None then (E_OK, newCallback, newFinalizer, None)
      else if newCallback = None \<and> oldCallback \<noteq> None then (E_OK, None, None, oldFinalizer)
      else (E_NOT_PERMIT, oldCallback, oldFinalizer, None))"

datatype 'o up_event =
    MessageCall nat target "'o message" errcode
  | ConnectCall nat target bool
  | SendableCall nat
  | FinalizerCall nat
  | CommLackCall nat label string errcode
  | FreeFrame

definition fin_event :: "nat option \<Rightarrow> 'o up_event list" where
  "fin_event f = (case f of None \<Rightarrow> [] | Some k \<Rightarrow> [FinalizerCall k])"

record communicator =
  commLabel :: label
  onlineTargets :: "target list"
  dbClosePending :: bool
  onMessageHandle :: "nat option"
  onMessageFinalizer :: "nat option"
  onConnectHandle :: "nat option"
  onConnectFinalizer :: "nat option"
  onSendableHandle :: "nat option"
  onSendableFinalizer :: "nat option"

definition new_Communicator :: "label \<Rightarrow> communicator" where
  "new_Communicator inLabel =
     \<lparr>commLabel = inLabel, onlineTargets = [], dbClosePending = False, onMessageHandle = None,
      onMessageFinalizer = None, onConnectHandle = None, onConnectFinalizer = None, onSendableHandle = None,
      onSendableFinalizer = None\<rparr>"

definition RegOnMessageCallback ::
  "nat option \<Rightarrow> nat option \<Rightarrow> communicator \<Rightarrow> errcode \<times> 'o up_event list \<times> communicator" where
  "RegOnMessageCallback onMessage inOper cm =
     (let (errCode, h, f, fin) = RegCallBack onMessage (onMessageHandle cm) inOper (onMessageFinalizer cm)
      in (errCode, fin_event fin, cm\<lparr>onMessageHandle := h, onMessageFinalizer := f\<rparr>))"

definition RegOnConnectCallback ::
  "nat option \<Rightarrow> nat option \<Rightarrow> communicator \<Rightarrow> errcode \<times> 'o up_event list \<times> communicator" where
  "RegOnConnectCallback onConnect inOper cm =
     (let (errCode, h, f, fin) = RegCallBack onConnect (onConnectHandle cm) inOper (onConnectFinalizer cm);
          calls = (case onConnect of
                     Some k \<Rightarrow> if errCode = E_OK then map (\<lambda>t. ConnectCall k t True) (onlineTargets cm) else []
                   | None \<Rightarrow> [])
      in (errCode, fin_event fin @ calls, cm\<lparr>onConnectHandle := h, onConnectFinalizer := f\<rparr>))"

definition RegOnSendableCallback ::
  "nat option \<Rightarrow> nat option \<Rightarrow> communicator \<Rightarrow> errcode \<times> 'o up_event list \<times> communicator" where
  "RegOnSendableCallback onSendable inOper cm =
     (let (errCode, h, f, fin) = RegCallBack onSendable (onSendableHandle cm) inOper (onSendableFinalizer cm)
      in (errCode, fin_event fin, cm\<lparr>onSendableHandle := h, onSendableFinalizer := f\<rparr>))"

definition OnConnectChange :: "target \<Rightarrow> bool \<Rightarrow> communicator \<Rightarrow> 'o up_event list \<times> communicator" where
  "OnConnectChange target isConnect cm =
     (if target = [] then ([], cm)
      else (case onConnectHandle cm of None \<Rightarrow> [] | Some k \<Rightarrow> [ConnectCall k target isConnect],
            cm\<lparr>onlineTargets := (if isConnect then insort_insert else removeAll) target (onlineTargets cm)\<rparr>))"

definition OnSendAvailable :: "communicator \<Rightarrow> 'o up_event list" where
  "OnSendAvailable cm = (case onSendableHandle cm of None \<Rightarrow> [] | Some k \<Rightarrow> [SendableCall k])"

definition ExchangeClosePending :: "bool \<Rightarrow> communicator \<Rightarrow> bool \<times> communicator" where
  "ExchangeClosePending expected cm =
     (if dbClosePending cm = (\<not> expected) then (True, cm\<lparr>dbClosePending := expected\<rparr>) else (False, cm))"

section \<open>Sending\<close>

text \<open>What communicators and the aggregator take from their surroundings.\<close>

record ExtendInfo =
  ei_appId :: string
  ei_storeId :: string
  ei_userId :: string
  ei_dstTarget :: string
  ei_subUserId :: string

record SendConfig =
  sd_nonBlock :: bool
  sd_isNeedExtendHead :: bool
  sd_timeout :: u32
  sd_isRetryTask :: bool
  sd_paramInfo :: ExtendInfo

text \<open>
  The sending environment, the registered transform functions, the extend head handles of the process
  communicator, and the answers of the registered message callbacks.
\<close>

record 'o comm_env =
  ce_send :: send_env
  ce_tfs :: "'o transforms"
  ce_extend :: "ExtendInfo \<Rightarrow> extend_handle option"
  ce_onMessage :: "nat \<Rightarrow> target \<Rightarrow> 'o message \<Rightarrow> errcode"

type_synonym net = "status_adapter option \<times> send_core"

definition SendMessage ::
  "'o comm_env \<Rightarrow> target \<Rightarrow> 'o message option \<Rightarrow> SendConfig \<Rightarrow> nat option \<Rightarrow> communicator \<Rightarrow> net \<Rightarrow> (errcode \<times> net) res" where
  "SendMessage env dstTarget msg config onEnd cm st =
     (case msg of
        None \<Rightarrow> Ok (E_INVALID_ARGS, st)
      | Some inMsg \<Rightarrow>
          if dstTarget = [] then Ok (E_INVALID_ARGS, st)
          else
            let mem = se_mem (ce_send env); be = se_be (ce_send env); info = sd_paramInfo config;
                extendHandle = (if sd_isNeedExtendHead config then ce_extend env info else None)
            in if sd_isNeedExtendHead config \<and> extendHandle = None then Ok (E_FEEDBACK_COMMUNICATOR_NOT_FOUND, st)
               else case ToSerialBuffer mem be (ce_tfs env) (Some inMsg) extendHandle False of
                      Fault \<Rightarrow> Fault
                    | Err e \<Rightarrow> Ok (e, st)
                    | Ok buffer \<Rightarrow>
                        (case SetDivergeHeader be buffer (commLabel cm) of
                           Fault \<Rightarrow> Fault
                         | Err e \<Rightarrow> Ok (e, st)
                         | Ok b \<Rightarrow>
                             let taskConfig = \<lparr>tc_nonBlock = sd_nonBlock config, tc_isRetryTask = sd_isRetryTask config,
                                   tc_timeout = sd_timeout config, tc_prio = msg_prio inMsg,
                                   tc_infos = \<lparr>ai_appId = ei_appId info, ai_storeId = ei_storeId info,
                                     ai_userId = ei_userId info, ai_subUserId = ei_subUserId info\<rparr>\<rparr>
                             in res_bind (ScheduleSendTask (ce_send env) onEnd dstTarget b APPLICATION_MESSAGE taskConfig st)
                                  (\<lambda>(errCode, _, st'). Ok (errCode, st'))))"

definition Comm_TriggerVersionNegotiation :: "'o comm_env \<Rightarrow> target \<Rightarrow> net \<Rightarrow> net res" where
  "Comm_TriggerVersionNegotiation env dstTarget st =
     (case BuildEmptyFrameForVersionNegotiate (se_mem (ce_send env)) of
        Fault \<Rightarrow> Fault
      | Err e \<Rightarrow> Ok st
      | Ok buffer \<Rightarrow>
          res_bind (ScheduleSendTask (ce_send env) None dstTarget buffer EMPTY link_config st) (\<lambda>(_, _, st'). Ok st'))"

definition TriggerUnknownMessageFeedback :: "'o comm_env \<Rightarrow> target \<Rightarrow> 'o message option \<Rightarrow> communicator \<Rightarrow> net \<Rightarrow> net res" where
  "TriggerUnknownMessageFeedback env dstTarget oriMsg cm st =
     (case oriMsg of
        None \<Rightarrow> Ok st
      | Some m \<Rightarrow>
          if messageType m \<noteq> TYPE_REQUEST then Ok st
          else let m1 = (SetMessageType TYPE_RESPONSE m)\<lparr>errorNo := FEEDBACK_UNKNOWN_MESSAGE_NO\<rparr>
               in case BuildFeedbackMessageFrame (se_mem (ce_send env)) (se_be (ce_send env)) (ce_tfs env) (Some m1) (commLabel cm) of
                    Fault \<Rightarrow> Fault
                  | Err e \<Rightarrow> Ok st
                  | Ok buffer \<Rightarrow>
                      res_bind (ScheduleSendTask (ce_send env) None dstTarget buffer APPLICATION_MESSAGE link_config st)
                        (\<lambda>(_, _, st'). Ok st'))"

section \<open>Receiving\<close>

definition TransfDbVersionToSoftwareVersion :: "u16 \<Rightarrow> u32" where
  "TransfDbVersionToSoftwareVersion dbVersion = SOFTWARE_VERSION_EARLIEST + ucast dbVersion"

definition OnBufferReceive ::
  "'o comm_env \<Rightarrow> target \<Rightarrow> serial_buffer option \<Rightarrow> string \<Rightarrow> u16 \<Rightarrow> communicator \<Rightarrow> net \<Rightarrow>
   (errcode \<times> 'o up_event list \<times> communicator \<times> net) res" where
  "OnBufferReceive env srcTarget inBuf sendUser remoteDbVersion cm st =
     (case (inBuf, onMessageHandle cm) of
        (Some b, Some k) \<Rightarrow>
          if srcTarget = [] then Ok (E_OK, [FreeFrame], cm, st)
          else res_bind (ToMessage (se_mem (ce_send env)) (se_be (ce_send env)) (ce_tfs env) (Some b) False)
            (\<lambda>(error, message).
               if error \<noteq> E_OK
               then (if error = E_VERSION_NOT_SUPPORT
                     then res_bind (Comm_TriggerVersionNegotiation env srcTarget st) (\<lambda>st'. Ok (E_OK, [FreeFrame], cm, st'))
                     else if error = E_NOT_REGISTER
                     then res_bind (TriggerUnknownMessageFeedback env srcTarget message cm st)
                            (\<lambda>st'. Ok (E_OK, [FreeFrame], cm, st'))
                     else Ok (E_OK, [FreeFrame], cm, st))
               else case message of
                 None \<Rightarrow> Fault
               | Some m \<Rightarrow>
                   let m1 = m\<lparr>remoteSoftwareVersion := TransfDbVersionToSoftwareVersion remoteDbVersion\<rparr>;
                       (closing, cm1) = (if IsSupportFeedDbClosing m1 then ExchangeClosePending False cm else (False, cm))
                   in if closing then Ok (E_FEEDBACK_DB_CLOSING, [], cm1, st)
                      else let m2 = m1\<lparr>senderUserId := sendUser\<rparr>; answer = ce_onMessage env k srcTarget m2
                           in if answer = E_FEEDBACK_DB_CLOSING
                              then Ok (E_FEEDBACK_DB_CLOSING, [MessageCall k srcTarget m2 answer], cm1, st)
                              else Ok (E_OK, [MessageCall k srcTarget m2 answer, FreeFrame], cm1, st))
      | _ \<Rightarrow> Ok (E_OK, if inBuf = None then [] else [FreeFrame], cm, st))"

end
