(* ===== verification/Protocol_Message.thy ===== *)
theory Protocol_Message
  imports Protocol_Fragment
begin

text \<open>
  From a message to its frame and back: what \<^verbatim>\<open>ToSerialBuffer\<close> and \<^verbatim>\<open>SetDivergeHeader\<close> put into a buffer, that
  the receiver's parser and \<^verbatim>\<open>ToMessage\<close> read the same values from the sealed frame, and that none of
  them leaves its buffers.
\<close>

section \<open>Building the frame of a message\<close>

text \<open>What the code relies on of a transform function and of an extend header handle.\<close>

definition transform_fits :: "'o transforms \<Rightarrow> 'o message \<Rightarrow> bool" where
  "transform_fits tfs m \<longleftrightarrow> (\<forall>f. om_find tfs (messageId m) = Some f \<longrightarrow> unat (computeFunc f m) \<le> 2147483647 \<and>
     (\<forall>n data. serializeFunc f n m = Some data \<longrightarrow> length data \<le> unat n))"

definition handle_fits :: "extend_handle option \<Rightarrow> bool" where
  "handle_fits eh \<longleftrightarrow> (\<forall>h n t bs. eh = Some h \<longrightarrow> FillHeadData h n t = Some bs \<longrightarrow> length bs \<le> unat n)"

definition app_buf :: "serial_buffer \<Rightarrow> bool" where
  "app_buf b \<longleftrightarrow> sb_ok b \<and> sb_owned b \<and> headerLen b = 72 \<and> 8 dvd unat (totalLen b)"

lemma header_lengths: "GetAppLayerFrameHeaderLength = 72" "GetCommLayerFrameHeaderLength = 32"
  "GetLengthBeforeSerializedData = 96"
  by (simp_all add: GetAppLayerFrameHeaderLength_def GetCommLayerFrameHeaderLength_def GetLengthBeforeSerializedData_def sizeofs)

lemma set_ext_head: "(if h > 0 then SetExtendHeadLength h new_SerialBuffer else new_SerialBuffer) = SetExtendHeadLength h new_SerialBuffer"
  using word_neq_0_conv[of h] by (auto simp: SetExtendHeadLength_def new_SerialBuffer_def)

lemma app_alloc:
  assumes "AllocBufferByPayloadLength mem (of_nat (n + 24)) 72 (SetExtendHeadLength h new_SerialBuffer) = (E_OK, b)"
    "n \<le> 2147483647" "h \<le> MAX_EXTEND_HEAD_LENGTH"
  shows "app_buf b \<and> unat (payloadLen b) = n + 24 \<and> extendHeadLen b = h \<and> content b = replicate (unat (totalLen b)) 0"
proof -
  have u: "unat (of_nat (n + 24) :: u32) = n + 24" using assms(2) by (intro unat_of_nat32) simp
  have "unat (of_nat (n + 24) :: u32) + unat (72::u32) + 7 < 2 ^ 32" using assms(2) by (simp only: u) simp
  from AllocBufferByPayloadLength_ok[OF assms(1) this assms(3)] u show ?thesis by (auto simp: app_buf_def)
qed

lemma write_head:
  assumes "sb_ok b" "sb_owned b" "length bs \<le> unat (extendHeadLen b)"
  shows "\<exists>b'. sb_put b (Some 0) bs = Ok b' \<and> sb_ok b' \<and> sb_owned b' \<and> content b' = content b \<and> totalLen b' = totalLen b \<and>
    headerLen b' = headerLen b \<and> payloadLen b' = payloadLen b \<and> paddingLen b' = paddingLen b \<and> extendHeadLen b' = extendHeadLen b"
proof -
  obtain m where m: "oringinalBytes b = Some m" "length m = unat (extendHeadLen b) + unat (totalLen b)"
    using assms(2) by (auto simp: sb_owned_def)
  let ?b = "b\<lparr>oringinalBytes := Some (overwrite m 0 bs)\<rparr>"
  have "sb_put b (Some 0) bs = Ok ?b" using m assms(3) by (simp add: sb_put_def write_at_def)
  moreover have own: "sb_owned ?b" using assms(2,3) m by (auto simp: sb_owned_def)
  moreover have "content ?b = content b"
    using content_owned[OF own] content_owned[OF assms(2) m(1)] assms(3) m(2) by (simp add: overwrite_def)
  ultimately show ?thesis using assms(1) by (auto simp: sb_ok_def sb_lens_ok_def)
qed

lemma FillExtendHead:
  assumes "app_buf b" "GetExtendHeadDataSize eh = Ok h" "extendHeadLen b = h" "handle_fits eh"
  shows "FillExtendHeadDataIfNeed eh b h \<noteq> Fault"
    "FillExtendHeadDataIfNeed eh b h = Ok b' \<Longrightarrow> app_buf b' \<and> payloadLen b' = payloadLen b \<and> totalLen b' = totalLen b \<and>
       paddingLen b' = paddingLen b \<and> content b' = content b \<and> extendHeadLen b' = extendHeadLen b"
proof -
  have b: "sb_ok b" "sb_owned b" using assms(1) by (simp_all add: app_buf_def)
  have w: "\<exists>b'. sb_put b (Some 0) bs = Ok b' \<and> sb_ok b' \<and> sb_owned b' \<and> content b' = content b \<and> totalLen b' = totalLen b \<and>
      headerLen b' = headerLen b \<and> payloadLen b' = payloadLen b \<and> paddingLen b' = paddingLen b \<and> extendHeadLen b' = extendHeadLen b"
    if "eh = Some k" "FillHeadData k h t = Some bs" for k t bs
    using write_head[OF b, of bs] assms(3,4) that by (auto simp: handle_fits_def)
  show "FillExtendHeadDataIfNeed eh b h \<noteq> Fault"
  proof (cases eh)
    case (Some k)
    then show ?thesis using w[OF Some, of "GetSize b + h"]
      by (cases "FillHeadData k h (GetSize b + h)") (auto simp: FillExtendHeadDataIfNeed_def)
  qed (simp add: FillExtendHeadDataIfNeed_def)
  show "app_buf b' \<and> payloadLen b' = payloadLen b \<and> totalLen b' = totalLen b \<and>
       paddingLen b' = paddingLen b \<and> content b' = content b \<and> extendHeadLen b' = extendHeadLen b"
    if "FillExtendHeadDataIfNeed eh b h = Ok b'"
  proof (cases eh)
    case (Some k)
    show ?thesis
    proof (cases "FillHeadData k h (GetSize b + h)")
      case None
      then show ?thesis using that Some assms(1) by (auto simp: FillExtendHeadDataIfNeed_def split: if_splits)
    next
      case (Some bs)
      then show ?thesis using that w[OF \<open>eh = Some k\<close> Some] assms(1) \<open>eh = Some k\<close>
        by (auto simp: FillExtendHeadDataIfNeed_def app_buf_def split: if_splits)
    qed
  qed (use that assms(1) in \<open>simp add: FillExtendHeadDataIfNeed_def\<close>)
qed

text \<open>The message header and the data are written behind the frame header.\<close>

lemma Serialize:
  assumes b: "app_buf b" "unat (payloadLen b) = n + 24" "content b = replicate (unat (totalLen b)) 0"
    and d: "n = 0 \<and> data = [] \<or> n \<noteq> 0 \<and> om_find tfs (messageId m) = Some f \<and> serializeFunc f (of_nat n) m = Some data \<and> length data \<le> n"
    and n: "n \<le> 2147483647"
  shows "\<exists>b'. SerializeMessage be tfs b m = Ok b' \<and> app_buf b' \<and> same_shape b b' \<and>
    content b' = overwrite (replicate (unat (totalLen b)) 0) 72 (msg_net (message_header m (of_nat n)) @ data)"
proof -
  have ok: "sb_ok b" "sb_owned b" "headerLen b = 72" "8 dvd unat (totalLen b)" using b(1) by (simp_all add: app_buf_def)
  have tl: "72 + (n + 24) \<le> unat (totalLen b)" using ok(1,3) b(2) by (auto simp: sb_ok_def sb_lens_ok_def)
  have p: "payloadLen b = of_nat (n + 24)" using b(2) by (metis of_nat_unat ucast_id)
  have dl: "payloadLen b - of_nat SIZEOF_MSG = of_nat n" by (simp add: p sizeofs)
  let ?h = "message_header m (of_nat n)"
  have h: "msg_image be (ConvertHostToNet_msg be ?h) = msg_net ?h" "length (msg_net ?h) = 24"
    by (rule msg.image_to_net, simp add: msg.length_net sizeofs)
  have "content b = overwrite (replicate (unat (totalLen b)) 0) 72 []" using b(3) by simp
  from put_step[OF ok(1,2) this, of "msg_net ?h"] tl h(2) obtain b1 where b1: "sb_put b (Some (unat (extendHeadLen b) + 72)) (msg_net ?h) = Ok b1"
    "content b1 = overwrite (replicate (unat (totalLen b)) 0) 72 (msg_net ?h)" "sb_ok b1" "sb_owned b1" "same_shape b b1" by auto
  have s1: "totalLen b1 = totalLen b" "extendHeadLen b1 = extendHeadLen b" using b1(5) by (simp_all add: same_shape_def)
  have a1: "app_buf b1" using b1(3-5) ok by (simp add: app_buf_def same_shape_def)
  have S: "SerializeMessage be tfs b m =
      (if of_nat n = (0 :: u32) then Ok b1
       else case GetTransformFunc tfs (messageId m) of
              Ok function \<Rightarrow> (case serializeFunc function (of_nat n) m of
                  None \<Rightarrow> Err E_SERIALIZE_ERROR
                | Some data \<Rightarrow> sb_put b1 (Some (unat (extendHeadLen b) + 72 + SIZEOF_MSG)) data)
            | _ \<Rightarrow> Err E_NOT_REGISTER)"
    unfolding SerializeMessage_def sb_header_ptr[OF ok(2)] prod.case Let_def dl h(1) ok(3)
    using b(2) b1(1) by (simp add: guard_err_def SIZEOF_MSG_def split: res.split option.split)
  have un: "unat (of_nat n :: u32) = n" using n by (intro unat_of_nat32) simp
  show ?thesis
  proof (cases "n = 0")
    case True
    then show ?thesis using S b1 a1 d by auto
  next
    case False
    then have nz: "of_nat n \<noteq> (0 :: u32)" using un by auto
    have d': "om_find tfs (messageId m) = Some f" "serializeFunc f (of_nat n) m = Some data" "length data \<le> n" using d False by auto
    have "length (replicate (unat (totalLen b)) (0::byte)) = unat (totalLen b1)" by (simp add: s1)
    from put_step[OF b1(3,4,2) this, of data] tl h(2) d'(3) s1 obtain b2 where
      b2: "sb_put b1 (Some (unat (extendHeadLen b) + 96)) data = Ok b2"
        "content b2 = overwrite (replicate (unat (totalLen b)) 0) 72 (msg_net ?h @ data)" "sb_ok b2" "sb_owned b2" "same_shape b1 b2"
      by (auto simp: ac_simps)
    have "app_buf b2" using b2(3-5) a1 by (simp add: app_buf_def same_shape_def)
    moreover have "SerializeMessage be tfs b m = Ok b2"
      unfolding S using nz d'(1,2) b2(1) by (simp add: GetTransformFunc_def SIZEOF_MSG_def add.commute)
    ultimately show ?thesis using b2(2) same_shape_trans[OF b1(5) b2(5)] by blast
  qed
qed

lemma Serialize_refused:
  assumes b: "app_buf b" "unat (payloadLen b) = n + 24" and n: "n \<le> 2147483647" "n \<noteq> 0"
    and f: "om_find tfs (messageId m) = Some f" "serializeFunc f (of_nat n) m = None"
  shows "SerializeMessage be tfs b m = Err E_SERIALIZE_ERROR"
proof -
  have p: "payloadLen b = of_nat (n + 24)" using b(2) by (metis of_nat_unat ucast_id)
  have ok: "sb_ok b" "sb_owned b" "headerLen b = 72" using b(1) by (simp_all add: app_buf_def)
  have "72 + (n + 24) \<le> unat (totalLen b)" using ok b(2) by (auto simp: sb_ok_def sb_lens_ok_def)
  then obtain b3 where b3: "sb_put b (Some (unat (extendHeadLen b) + 72)) (msg_net (message_header m (of_nat n))) = Ok b3"
    using sb_put_content[OF ok(1,2), of 72 "msg_net (message_header m (of_nat n))"] by (auto simp: msg.length_net sizeofs)
  have dl: "payloadLen b - of_nat SIZEOF_MSG = of_nat n" by (simp add: p sizeofs)
  have "unat (of_nat n :: u32) = n" using n(1) by (intro unat_of_nat32) simp
  then have nz: "of_nat n \<noteq> (0::u32)" using n(2) by auto
  show ?thesis
    unfolding SerializeMessage_def sb_header_ptr[OF ok(2)] prod.case Let_def dl msg.image_to_net ok(3)
    using b(2) b3 f nz by (simp add: guard_err_def SIZEOF_MSG_def GetTransformFunc_def)
qed

lemma ToSerialBuffer_safe:
  assumes "only \<or> transform_fits tfs m" "handle_fits eh"
  shows "ToSerialBuffer mem be tfs (Some m) eh only \<noteq> Fault"
    "ToSerialBuffer mem be tfs (Some m) eh only = Ok b \<Longrightarrow> app_buf b"
proof -
  let ?P = "\<lambda>r. r \<noteq> Fault \<and> (\<forall>b. r = Ok b \<longrightarrow> app_buf b)"
  have build: "?P (case AllocBufferByPayloadLength mem (of_nat n + of_nat SIZEOF_MSG) GetAppLayerFrameHeaderLength
        (SetExtendHeadLength h new_SerialBuffer) of
      (errCode, b1) \<Rightarrow> guard_err (errCode \<noteq> E_OK) errCode
        (res_bind (FillExtendHeadDataIfNeed eh b1 h) (\<lambda>b2. SerializeMessage be tfs b2 m)))"
    if n: "n \<le> 2147483647" and h: "GetExtendHeadDataSize eh = Ok h"
      and d: "n = 0 \<or> transform_fits tfs m \<and> (\<exists>f. om_find tfs (messageId m) = Some f)" for n h
  proof -
    obtain e b1 where a: "AllocBufferByPayloadLength mem (of_nat n + of_nat SIZEOF_MSG) GetAppLayerFrameHeaderLength
        (SetExtendHeadLength h new_SerialBuffer) = (e, b1)" by fastforce
    show ?thesis
    proof (cases "e = E_OK")
      case True
      have hm: "h \<le> MAX_EXTEND_HEAD_LENGTH"
        using h by (auto simp: GetExtendHeadDataSize_def guard_err_def not_less split: option.splits if_splits)
      have "AllocBufferByPayloadLength mem (of_nat (n + 24)) 72 (SetExtendHeadLength h new_SerialBuffer) = (E_OK, b1)"
        using a True by (simp add: header_lengths sizeofs)
      note b1 = app_alloc[OF this n hm]
      have "extendHeadLen b1 = h" using b1 by simp
      note f = FillExtendHead[OF conjunct1[OF b1] h this assms(2)]
      show ?thesis
      proof (cases "FillExtendHeadDataIfNeed eh b1 h")
        case (Ok b2)
        note f2 = f(2)[OF Ok]
        have b2: "app_buf b2" "unat (payloadLen b2) = n + 24" "content b2 = replicate (unat (totalLen b2)) 0" using f2 b1 by simp_all
        have "?P (SerializeMessage be tfs b2 m)"
        proof (cases "n = 0 \<or> (\<exists>f data. om_find tfs (messageId m) = Some f \<and> serializeFunc f (of_nat n) m = Some data)")
          case True
          have un: "unat (of_nat n :: u32) = n" using n by (intro unat_of_nat32) simp
          have "\<exists>data f. n = 0 \<and> data = [] \<or> n \<noteq> 0 \<and> om_find tfs (messageId m) = Some f \<and>
              serializeFunc f (of_nat n) m = Some data \<and> length data \<le> n"
            using True d un unfolding transform_fits_def by (cases "n = 0") fastforce+
          then obtain data f where "n = 0 \<and> data = [] \<or> n \<noteq> 0 \<and> om_find tfs (messageId m) = Some f \<and>
              serializeFunc f (of_nat n) m = Some data \<and> length data \<le> n" by blast
          from Serialize[OF b2 this n, of be] show ?thesis by auto
        next
          case False
          then obtain f where f: "om_find tfs (messageId m) = Some f" "serializeFunc f (of_nat n) m = None" "n \<noteq> 0" using d by auto
          then have "SerializeMessage be tfs b2 m = Err E_SERIALIZE_ERROR" using Serialize_refused[OF b2(1,2) n] by blast
          then show ?thesis by simp
        qed
        then show ?thesis using a True Ok by (simp add: guard_err_def)
      qed (use a True f(1) in \<open>simp_all add: guard_err_def\<close>)
    qed (simp add: a guard_err_def)
  qed
  have "?P (ToSerialBuffer mem be tfs (Some m) eh only)"
  proof (cases "GetExtendHeadDataSize eh")
    case (Ok h)
    show ?thesis
    proof (cases only)
      case True
      then show ?thesis using build[of 0 h] Ok
        by (auto simp: ToSerialBuffer_def guard_err_def set_ext_head Let_def)
    next
      case False
      show ?thesis
      proof (cases "CalculateDataSerializeLength tfs m")
        case l: (Ok len)
        have fit: "transform_fits tfs m" using assms(1) False by simp
        obtain f where f: "om_find tfs (messageId m) = Some f" "len = computeFunc f m"
          using l by (auto simp: CalculateDataSerializeLength_def GetTransformFunc_def Let_def guard_err_def
              split: option.splits if_splits)
        have "unat len \<le> 2147483647" using fit f by (simp add: transform_fits_def)
        from build[OF this Ok] f fit show ?thesis using Ok l False
          by (auto simp: ToSerialBuffer_def guard_err_def set_ext_head Let_def)
      qed (use False in \<open>auto simp: ToSerialBuffer_def CalculateDataSerializeLength_def GetTransformFunc_def Let_def
            guard_err_def split: option.splits if_splits\<close>)
    qed
  qed (auto simp: ToSerialBuffer_def CalculateDataSerializeLength_def GetTransformFunc_def Let_def
        GetExtendHeadDataSize_def guard_err_def split: option.splits if_splits)
  then show "ToSerialBuffer mem be tfs (Some m) eh only \<noteq> Fault"
    "ToSerialBuffer mem be tfs (Some m) eh only = Ok b \<Longrightarrow> app_buf b" by auto
qed

text \<open>The diverge header names the communicator and the length of the payload.\<close>

definition diverge_for :: "serial_buffer \<Rightarrow> label \<Rightarrow> CommDivergeHeader" where
  "diverge_for b l = \<lparr>dv_version = PROTOCOL_VERSION, dv_reserved = 0, dv_payLoadLen = payloadLen b, dv_commLabel = l\<rparr>"

lemma SetDiverge:
  assumes "app_buf b" "length l = COMM_LABEL_LENGTH"
  shows "\<exists>b'. SetDivergeHeader be b l = Ok b' \<and> app_buf b' \<and> same_shape b b' \<and>
    content b' = overwrite (content b) 32 (diverge_net (diverge_for b l))"
proof -
  have ok: "sb_ok b" "sb_owned b" "headerLen b = 72" using assms(1) by (simp_all add: app_buf_def)
  have wf: "wf_diverge (diverge_for b l)" using assms(2) by (simp add: wf_diverge_def diverge_for_def)
  have tl: "72 \<le> unat (totalLen b)" using ok by (auto simp: sb_ok_def sb_lens_ok_def)
  have pl: "snd (GetReadOnlyBytesForPayload b) = payloadLen b"
    using ok by (auto simp: GetReadOnlyBytesForPayload_def readonly_def sb_owned_def bytes_mem_def)
  have rd: "read_at l 0 COMM_LABEL_LENGTH = Ok l" using assms(2) by (simp add: read_at_def)
  have len: "length (diverge_net (diverge_for b l)) = 40" using diverge.length_net[OF wf] by (simp add: sizeofs)
  obtain b' where b': "sb_memcpy b (unat (extendHeadLen b) + 32) 40 (diverge_net (diverge_for b l)) = Ok b'"
    "content b' = overwrite (content b) 32 (diverge_net (diverge_for b l))" "sb_ok b'" "sb_owned b'" "same_shape b b'"
    using sb_memcpy_content[OF ok(1,2), of 32 "diverge_net (diverge_for b l)" 40] tl len by auto
  have "SetDivergeHeader be b l = Ok b'"
    using b'(1) pl unfolding SetDivergeHeader_def sb_header_ptr[OF ok(2)] diverge_for_def
    by (simp add: case_prod_unfold Let_def guard_err_def rd[unfolded sizeofs] ok(3) header_lengths sizeofs diverge.image_to_net)
  then show ?thesis using b'(2-5) assms(1) by (auto simp: app_buf_def same_shape_def)
qed

lemma BuildFeedback_safe:
  assumes "length l = COMM_LABEL_LENGTH"
  shows "BuildFeedbackMessageFrame mem be tfs (Some m) l \<noteq> Fault"
    "BuildFeedbackMessageFrame mem be tfs (Some m) l = Ok b \<Longrightarrow> app_buf b"
proof -
  have h: "handle_fits None" by (simp add: handle_fits_def)
  have o: "True \<or> transform_fits tfs m" by simp
  note s = ToSerialBuffer_safe[OF o h]
  show "BuildFeedbackMessageFrame mem be tfs (Some m) l \<noteq> Fault"
    "BuildFeedbackMessageFrame mem be tfs (Some m) l = Ok b \<Longrightarrow> app_buf b"
    using s SetDiverge[OF _ assms, of _ be]
    by (fastforce simp: BuildFeedbackMessageFrame_def res_bind_eq_Ok res_bind_eq_Fault)+
qed

section \<open>Reading a message\<close>

lemma payload_view:
  assumes "sb_ok b"
  shows "snd (GetReadOnlyBytesForPayload b) = payloadLen b"
    "unat (payloadLen b) \<le> length (deref (fst (GetReadOnlyBytesForPayload b)))"
    "take (unat (payloadLen b)) (deref (fst (GetReadOnlyBytesForPayload b))) =
       take (unat (payloadLen b)) (drop (unat (headerLen b)) (content b))"
  using assms readonly_view[OF assms, of "headerLen b" "payloadLen b"] length_content[OF assms]
  by (auto simp: GetReadOnlyBytesForPayload_def deref_def sb_ok_def sb_lens_ok_def)

lemma ToMessage_safe: "sb_ok b \<Longrightarrow> ToMessage mem be tfs (Some b) only \<noteq> Fault"
proof -
  assume ok: "sb_ok b"
  have d: "24 + unat x = unat p" if "p - 24 = x" "\<not> unat p < 24" for p x :: u32
    using that unat_sub[of 24 p] by (auto simp: word_le_nat_alt)
  have "DeSerializeMessage be tfs b new_Message only \<noteq> Fault"
    using payload_view[OF ok]
    by (auto dest!: d simp: DeSerializeMessage_def Let_def case_prod_unfold res_bind_eq_Fault read_at_def sizeofs
        split: res.splits option.splits if_splits)
  then show ?thesis by (auto simp: ToMessage_def res_bind_eq_Fault)
qed

lemma ToMessage_some:
  assumes "ToMessage mem be tfs b only = Ok (e, mo)"
  shows "mo = None \<longleftrightarrow> e \<noteq> E_OK \<and> e \<noteq> E_NOT_REGISTER"
  using assms by (auto simp: ToMessage_def res_bind_eq_Ok split: option.splits if_splits)

lemma parsed_label:
  assumes "ParseCommDivergeHeader be bytes len r0 = Ok r"
  shows "length (pr_commLabel r) = COMM_LABEL_LENGTH" "pr_frameType r = pr_frameType r0" "pr_isFragment r = pr_isFragment r0"
    "pr_dbVersion r = pr_dbVersion r0" "pr_paddingLen r = pr_paddingLen r0"
proof -
  obtain hb where hb: "read_at bytes SIZEOF_PHY SIZEOF_DIVERGE = Ok hb"
    "r = r0\<lparr>pr_payloadLen := dv_payLoadLen (ConvertNetToHost_diverge be (diverge_load be hb)),
       pr_commLabel := dv_commLabel (ConvertNetToHost_diverge be (diverge_load be hb))\<rparr>"
    using assms by (auto simp: ParseCommDivergeHeader_def guard_err_def Let_def res_bind_eq_Ok split: if_splits)
  have "SIZEOF_DIVERGE \<le> length hb" using hb(1) by (auto simp: read_at_def split: if_splits)
  from diverge.load_to_host[OF this, of be] diverge.wf_of_net[OF this]
  show "length (pr_commLabel r) = COMM_LABEL_LENGTH" by (simp add: hb(2) wf_diverge_def)
  show "pr_frameType r = pr_frameType r0" "pr_isFragment r = pr_isFragment r0" "pr_dbVersion r = pr_dbVersion r0"
    "pr_paddingLen r = pr_paddingLen r0" by (simp_all add: hb(2))
qed

lemma packet_label:
  assumes "CheckAndParsePacket be (Some bytes) len r0 = Ok r" "pr_frameType r = APPLICATION_MESSAGE" "\<not> pr_isFragment r"
  shows "length (pr_commLabel r) = COMM_LABEL_LENGTH"
proof -
  obtain r1 where r1: "ParseCommPhyHeader be bytes len r0 = Ok r1"
      "(if pr_frameType r1 = EMPTY then Ok r1
        else if pr_isFragment r1 then ParseCommPhyOptHeader be bytes len r1
        else if pr_frameType r1 \<noteq> APPLICATION_MESSAGE then ParseCommLayerPayload be bytes len r1
        else ParseCommDivergeHeader be bytes len r1) = Ok r"
    using assms(1) by (auto simp: CheckAndParsePacket_def guard_err_def res_bind_eq_Ok split: if_splits)
  have o: "ParseCommPhyOptHeader be bytes len r1 = Ok r \<Longrightarrow> pr_isFragment r = pr_isFragment r1"
    by (auto simp: ParseCommPhyOptHeader_def guard_err_def res_bind_eq_Ok Let_def split: if_splits)
  have c: "ParseCommLayerPayload be bytes len r1 = Ok r \<Longrightarrow> pr_frameType r = pr_frameType r1"
    by (auto simp: ParseCommLayerPayload_def ParseLabelExchange_def ParseLabelExchangeAck_def guard_err_def res_bind_eq_Ok Let_def
        split: if_splits)
  show ?thesis using r1(2) assms(2,3) o c parsed_label(1) by (auto split: if_splits)
qed

lemma frame_label:
  assumes "CheckAndParseFrame be (Some b) r0 = Ok r" "pr_frameType r = APPLICATION_MESSAGE"
  shows "length (pr_commLabel r) = COMM_LABEL_LENGTH"
proof -
  have c: "ParseCommLayerPayload be bytes len r1 = Ok r \<Longrightarrow> pr_frameType r = pr_frameType r1" for bytes len r1
    by (auto simp: ParseCommLayerPayload_def ParseLabelExchange_def ParseLabelExchangeAck_def guard_err_def res_bind_eq_Ok Let_def
        split: if_splits)
  show ?thesis using assms c parsed_label(1)
    by (auto simp: CheckAndParseFrame_def guard_err_def case_prod_unfold Let_def split: if_splits)
qed

section \<open>Round trip\<close>

text \<open>The part of a message that travels in its header, as the receiver's message starts out.\<close>

definition header_of :: "'o message \<Rightarrow> 'o message" where
  "header_of m = new_Message\<lparr>version := version m, messageType := messageType m, messageId := messageId m,
     sessionId := sessionId m, sequenceId := sequenceId m, errorNo := errorNo m\<rparr>"

lemma set_header_of:
  assumes "wf_message m"
  shows "set_header_fields (version m) (message_header m n) new_Message = header_of m"
  using assms by (auto simp: set_header_fields_def header_of_def message_header_def wf_message_def SetMessageType_def SetVersion_def
      new_Message_def)

text \<open>What a receiver with transform functions \<open>tfs\<close> makes of the data of a message.\<close>

definition read_data :: "'o transforms \<Rightarrow> byte list \<Rightarrow> 'o message \<Rightarrow> errcode \<times> 'o message option" where
  "read_data tfs data m =
     (if IsFeedbackErrorMessage (errorNo m) \<or> data = [] then (E_OK, Some m)
      else case om_find tfs (messageId m) of
             None \<Rightarrow> (E_NOT_REGISTER, Some m)
           | Some f \<Rightarrow> (case deserializeFunc f data m of None \<Rightarrow> (E_DESERIALIZE_ERROR, None) | Some m' \<Rightarrow> (E_OK, Some m')))"

lemma ToMessage_reads:
  assumes ok: "sb_ok b" "headerLen b = 72" "unat (payloadLen b) = 24 + length data"
    and c: "take (24 + length data) (drop 72 (content b)) = msg_net (message_header m (of_nat (length data))) @ data"
    and m: "wf_message m" and mem: "mem NewMessage"
  shows "ToMessage mem be tfs (Some b) False = Ok (read_data tfs data (header_of m))"
proof -
  let ?h = "message_header m (of_nat (length data))"
  define bytes where "bytes = deref (fst (GetReadOnlyBytesForPayload b))"
  have v: "snd (GetReadOnlyBytesForPayload b) = payloadLen b" "24 + length data \<le> length bytes"
    "take (24 + length data) bytes = msg_net ?h @ data"
    using payload_view[OF ok(1)] ok(2,3) c by (simp_all add: bytes_def)
  have len: "length (msg_net ?h) = 24" by (simp add: msg.length_net sizeofs)
  obtain tail where b: "bytes = msg_net ?h @ data @ tail" using v(3) by (metis append_take_drop_id append_assoc)
  have p: "payloadLen b - of_nat SIZEOF_MSG = of_nat (length data)"
  proof -
    have "payloadLen b = of_nat (24 + length data)" using ok(3) by (metis of_nat_unat ucast_id)
    then show ?thesis by (simp add: sizeofs)
  qed
  have r1: "read_at bytes 0 2 = Ok (take 2 bytes)" using len by (simp add: b read_at_def)
  have r2: "read_at bytes 0 SIZEOF_MSG = Ok (msg_net ?h)" using len by (simp add: b read_at_def sizeofs)
  have r3: "read_at bytes SIZEOF_MSG (length data) = Ok data" using len by (simp add: b read_at_def sizeofs)
  have ver: "NetToHost be (load_word be (take 2 bytes)) = version m"
  proof -
    have "take 2 bytes = net_bytes (version m)" by (simp add: b msg_net_def message_header_def)
    then show ?thesis by (simp add: word_codec)
  qed
  have hd: "ConvertNetToHost_msg be (msg_load be (msg_net ?h)) = ?h"
    using msg.load_to_host[of "msg_net ?h" be] msg.of_net_net[of ?h "[]"] len by (simp add: sizeofs)
  have sup: "IsSupportMessageVersion (version m)" using m by (auto simp: IsSupportMessageVersion_def wf_message_def)
  have unat_lt: "unat w < 2 ^ 32" for w :: u32 using unsigned_less[of w] by simp
  have ul: "unat (of_nat (length data) :: u32) = length data"
    using ok(3) unat_lt[of "payloadLen b"] by (intro unat_of_nat32) simp
  have z: "of_nat (length data) = (0::u32) \<longleftrightarrow> data = []" using ul by (auto simp: unat_eq_0[symmetric])
  have "DeSerializeMessage be tfs b new_Message False =
      (if IsFeedbackErrorMessage (errorNo m) \<or> data = [] then Ok (E_OK, header_of m)
       else case om_find tfs (messageId m) of
              None \<Rightarrow> Ok (E_NOT_REGISTER, header_of m)
            | Some f \<Rightarrow> (case deserializeFunc f data (header_of m) of
                          None \<Rightarrow> Ok (E_DESERIALIZE_ERROR, header_of m) | Some m' \<Rightarrow> Ok (E_OK, m')))"
    unfolding DeSerializeMessage_def case_prod_unfold Let_def bytes_def[symmetric] v(1) p r1 res_bind.simps ver r2 hd set_header_of[OF m]
    using ok(3) sup z
    by (simp add: sizeofs r3[unfolded sizeofs] ul message_header_def GetTransformFunc_def header_of_def split: option.split)
  then show ?thesis using mem
    by (auto simp: ToMessage_def read_data_def header_of_def split: option.split)
qed

lemma ToSerialBuffer_content:
  assumes r: "ToSerialBuffer mem be tfs (Some m) eh False = Ok b"
    and f: "om_find tfs (messageId m) = Some f" "serializeFunc f (computeFunc f m) m = Some data"
      "length data = unat (computeFunc f m)"
    and fit: "transform_fits tfs m" "handle_fits eh"
  shows "app_buf b" "unat (payloadLen b) = 24 + length data" "data \<noteq> []"
    "take (24 + length data) (drop 72 (content b)) = msg_net (message_header m (of_nat (length data))) @ data"
    "GetExtendHeadDataSize eh = Ok (extendHeadLen b)"
proof -
  let ?n = "computeFunc f m"
  have n: "unat ?n \<le> 2147483647" using fit(1) f(1) by (simp add: transform_fits_def)
  have w: "of_nat (unat ?n) = ?n" by simp
  have len: "CalculateDataSerializeLength tfs m = Ok ?n \<and> ?n \<noteq> 0"
    using r f(1) by (auto simp: ToSerialBuffer_def CalculateDataSerializeLength_def GetTransformFunc_def Let_def guard_err_def
        split: if_splits)
  then have z: "unat ?n \<noteq> 0" by (simp add: unat_eq_0)
  obtain h where h: "GetExtendHeadDataSize eh = Ok h" using r len by (auto simp: ToSerialBuffer_def res_bind_eq_Ok)
  obtain e b1 where a: "AllocBufferByPayloadLength mem (?n + of_nat SIZEOF_MSG) GetAppLayerFrameHeaderLength
      (SetExtendHeadLength h new_SerialBuffer) = (e, b1)" by fastforce
  obtain b2 where e: "e = E_OK" and b2: "FillExtendHeadDataIfNeed eh b1 h = Ok b2" and s: "SerializeMessage be tfs b2 m = Ok b"
    using r len h a by (auto simp: ToSerialBuffer_def guard_err_def set_ext_head Let_def res_bind_eq_Ok split: if_splits)
  have hm: "h \<le> MAX_EXTEND_HEAD_LENGTH"
    using h by (auto simp: GetExtendHeadDataSize_def guard_err_def not_less split: option.splits if_splits)
  have "AllocBufferByPayloadLength mem (of_nat (unat ?n + 24)) 72 (SetExtendHeadLength h new_SerialBuffer) = (E_OK, b1)"
    using a e by (simp add: header_lengths sizeofs)
  note b1 = app_alloc[OF this n hm]
  have "extendHeadLen b1 = h" using b1 by simp
  note f2 = FillExtendHead(2)[OF conjunct1[OF b1] h this fit(2) b2]
  have b2': "app_buf b2" "unat (payloadLen b2) = unat ?n + 24" "content b2 = replicate (unat (totalLen b2)) 0" using f2 b1 by simp_all
  obtain b' where b': "SerializeMessage be tfs b2 m = Ok b'" "app_buf b'" "same_shape b2 b'"
    "content b' = overwrite (replicate (unat (totalLen b2)) 0) 72 (msg_net (message_header m (of_nat (unat ?n))) @ data)"
    using Serialize[OF b2', of data tfs m f be] z f n w by auto
  have bb: "b' = b" using s b'(1) by simp
  have "72 + (unat ?n + 24) \<le> unat (totalLen b2)" using b2' by (auto simp: app_buf_def sb_ok_def sb_lens_ok_def)
  moreover have "length (msg_net (message_header m (of_nat (length data)))) = 24" by (simp add: msg.length_net sizeofs)
  ultimately show "take (24 + length data) (drop 72 (content b)) = msg_net (message_header m (of_nat (length data))) @ data"
    using b'(4) f(3) bb by (simp add: overwrite_def)
  show "GetExtendHeadDataSize eh = Ok (extendHeadLen b)" using h b'(3) f2 b1 bb by (simp add: same_shape_def)
  show "app_buf b" "unat (payloadLen b) = 24 + length data" "data \<noteq> []" using b'(2,3) b2'(2) bb f(3) z by (auto simp: same_shape_def)
qed

lemma ParseDiverge:
  assumes "take 40 (drop 32 bytes) = diverge_net h" "wf_diverge h" "dv_version h = PROTOCOL_VERSION" "72 \<le> unat len" "unat len \<le> length bytes"
    "72 + unat (dv_payLoadLen h) + unat (pr_paddingLen r) = unat (pr_packetLen r)"
  shows "ParseCommDivergeHeader be bytes len r = Ok (r\<lparr>pr_payloadLen := dv_payLoadLen h, pr_commLabel := dv_commLabel h\<rparr>)"
proof -
  have rd: "read_at bytes SIZEOF_PHY SIZEOF_DIVERGE = Ok (diverge_net h)" using assms(1,4,5) by (simp add: read_at_def sizeofs)
  have len: "length (diverge_net h) = 40" using diverge.length_net[OF assms(2)] by (simp add: sizeofs)
  have "take 2 (drop 32 bytes) = take 2 (diverge_net h)" using assms(1) by (metis min.absorb1 numeral_le_iff semiring_norm(68,71) take_take)
  then have t2: "take 2 (drop 32 bytes) = net_bytes (dv_version h)" by (simp add: diverge_net_def)
  have rv: "read_at bytes SIZEOF_PHY 2 = Ok (net_bytes (dv_version h))" using t2 assms(4,5) by (simp add: read_at_def sizeofs)
  have hd: "ConvertNetToHost_diverge be (diverge_load be (diverge_net h)) = h"
    using diverge.load_to_host[of "diverge_net h" be] diverge.of_net_net[OF assms(2), of "[]"] len by (simp add: sizeofs)
  show ?thesis
    unfolding ParseCommDivergeHeader_def rv rd res_bind.simps hd Let_def
    using assms(3,4,6) by (simp add: guard_err_def sizeofs word_codec)
qed

text \<open>An application frame that is addressed, sealed, received and wrapped again keeps its label and its payload.\<close>

lemma app_frame_received:
  fixes b l be src fid s
  defines "i \<equiv> \<lparr>hi_sourceId = src, hi_frameId = fid, hi_frameType = APPLICATION_MESSAGE, hi_sendLabelExchange = s\<rparr>"
  assumes b: "app_buf b" and l: "length l = COMM_LABEL_LENGTH"
  shows "\<exists>b1 b2 res rb. SetDivergeHeader be b l = Ok b1 \<and> SetPhyHeader be (Some b1) i = Ok b2 \<and>
    CheckAndParsePacket be (Some (content b2)) (totalLen b2) new_ParseResult = Ok res \<and>
    pr_frameType res = APPLICATION_MESSAGE \<and> \<not> pr_isFragment res \<and> pr_commLabel res = l \<and>
    pr_sourceId res = src \<and> pr_frameId res = fid \<and> pr_sendLabelExchange res = s \<and> pr_dbVersion res = DB_GLOBAL_VERSION \<and>
    SetExternalBuff (Some (content b2)) (totalLen b2 - ucast (pr_paddingLen res)) GetAppLayerFrameHeaderLength new_SerialBuffer
      = (E_OK, rb) \<and>
    sb_ok b2 \<and> sb_owned b2 \<and> extendHeadLen b2 = extendHeadLen b \<and> sb_ok rb \<and> headerLen rb = 72 \<and> payloadLen rb = payloadLen b \<and>
    drop 72 (content rb) = take (unat (payloadLen b)) (drop 72 (content b))"
proof -
  obtain b1 where b1: "SetDivergeHeader be b l = Ok b1" "app_buf b1" "same_shape b b1"
    "content b1 = overwrite (content b) 32 (diverge_net (diverge_for b l))"
    using SetDiverge[OF b l] by blast
  have ok: "sb_ok b1" "sb_owned b1" "32 \<le> unat (headerLen b1)" "8 dvd unat (totalLen b1)" "headerLen b1 = 72"
    using b1(2) by (simp_all add: app_buf_def)
  let ?r = "new_ParseResult\<lparr>pr_frameId := fid, pr_sourceId := src, pr_packetLen := totalLen b1,
            pr_paddingLen := ucast (paddingLen b1), pr_dbVersion := DB_GLOBAL_VERSION,
            pr_isFragment := False, pr_frameType := APPLICATION_MESSAGE, pr_sendLabelExchange := s\<rparr>"
  obtain b2 where b2: "SetPhyHeader be (Some b1) i = Ok b2" "same_shape b1 b2" "sb_ok b2"
    "content b2 = sealed be (frame_header b1 i) (drop 32 (content b1))" "sb_owned b2"
    and p: "ParseCommPhyHeader be (content b2) (totalLen b2) new_ParseResult = Ok ?r"
    using seal_then_parse[OF ok(1-4), of i be] by (auto simp: i_def)
  let ?n = "unat (payloadLen b)" and ?T = "unat (totalLen b2)"
  have sh: "totalLen b2 = totalLen b1" "totalLen b1 = totalLen b" "payloadLen b1 = payloadLen b"
    using b1(3) b2(2) by (simp_all add: same_shape_def)
  have lens: "?T = 72 + ?n + unat (paddingLen b1)" "unat (paddingLen b1) < 8" "?T \<le> 104857600"
    using ok sh by (auto simp: sb_ok_def sb_lens_ok_def u32_le u32_less)
  have lc: "length (content b2) = ?T" "length (content b) = ?T"
    using length_content[OF b2(3)] b sh length_content[of b] by (simp_all add: app_buf_def)
  have wf: "wf_diverge (diverge_for b l)" using l by (simp add: wf_diverge_def diverge_for_def)
  have dl: "length (diverge_net (diverge_for b l)) = 40" using diverge.length_net[OF wf] by (simp add: sizeofs)
  have d32: "drop 32 (content b2) = diverge_net (diverge_for b l) @ drop 72 (content b)"
    using b2(4) b1(4) lc lens dl by (simp add: overwrite_def)
  have d72: "drop 72 (content b2) = drop 72 (content b)" using arg_cong[OF d32, of "drop 40"] dl by simp
  have pad: "unat (ucast (paddingLen b1) :: u8) = unat (paddingLen b1)" using lens by (intro unat_ucast_small) simp
  let ?res = "?r\<lparr>pr_payloadLen := payloadLen b, pr_commLabel := l\<rparr>"
  have "ParseCommDivergeHeader be (content b2) (totalLen b2) ?r = Ok ?res"
    using ParseDiverge[OF _ wf, of "content b2" "totalLen b2" ?r be] d32 dl lens(1) lc(1) pad sh by (simp add: diverge_for_def)
  then have parse: "CheckAndParsePacket be (Some (content b2)) (totalLen b2) new_ParseResult = Ok ?res"
    using p lens(3) by (simp add: CheckAndParsePacket_def guard_err_def MAX_TOTAL_LEN_def word_less_nat_alt not_less)
  have pw: "ucast (ucast (paddingLen b1) :: u8) = paddingLen b1"
    using lens(2) by (intro word_unat_eq_iff[THEN iffD2]) (simp add: unsigned_ucast_eq take_bit_eq_mod unat_mod)
  have ul: "unat (totalLen b2 - paddingLen b1) = 72 + ?n" using lens by (subst unat_sub) (auto simp: word_le_nat_alt)
  let ?sub = "SetExternalBuff (Some (content b2)) (totalLen b2 - paddingLen b1) GetAppLayerFrameHeaderLength new_SerialBuffer"
  have "fst ?sub = E_OK"
    using lens ul by (auto simp: SetExternalBuff_def new_SerialBuffer_def header_lengths MAX_TOTAL_LEN_def u32_le u32_less not_less
        unat_eq_0[symmetric])
  then obtain rb where rb: "?sub = (E_OK, rb)" by (cases ?sub) auto
  have "sb_ok rb" "headerLen rb = 72" "payloadLen rb = payloadLen b" "content rb = take (72 + ?n) (content b2)"
    using SetExternalBuff_ok[OF rb] ul lens lc by (simp_all add: header_lengths word_unat_eq_iff)
  moreover have "extendHeadLen b2 = extendHeadLen b" using b1(3) b2(2) by (simp add: same_shape_def)
  ultimately show ?thesis using b1(1) b2(1,3,5) parse rb pw d72 by (auto simp: drop_take)
qed

text \<open>
  C5: A message arrives as it was sent.  For a message whose transform function fills the length it has announced,
  building its frame, naming the communicator in the diverge header, sealing the frame and
  receiving the sealed bytes gives the label of that communicator and a message with the
  same version, type, identifiers and error number, whose payload is what the receiver's transform function
  reads from exactly the bytes the sender's function wrote.
\<close>

theorem message_roundtrip:
  assumes m: "wf_message m" and l: "length l = COMM_LABEL_LENGTH"
    and f: "om_find tfs (messageId m) = Some f" "serializeFunc f (computeFunc f m) m = Some data"
      "length data = unat (computeFunc f m)"
    and fit: "transform_fits tfs m" "handle_fits eh"
    and r: "ToSerialBuffer mem be tfs (Some m) eh False = Ok b" and mem: "memr NewMessage"
  shows "\<exists>b1 b2 res rb. SetDivergeHeader be b l = Ok b1 \<and>
    SetPhyHeader be (Some b1) \<lparr>hi_sourceId = src, hi_frameId = fid, hi_frameType = APPLICATION_MESSAGE,
      hi_sendLabelExchange = s\<rparr> = Ok b2 \<and>
    CheckAndParsePacket be (Some (content b2)) (totalLen b2) new_ParseResult = Ok res \<and>
    pr_frameType res = APPLICATION_MESSAGE \<and> \<not> pr_isFragment res \<and> pr_commLabel res = l \<and>
    pr_sourceId res = src \<and> pr_frameId res = fid \<and> pr_sendLabelExchange res = s \<and>
    SetExternalBuff (Some (content b2)) (totalLen b2 - ucast (pr_paddingLen res)) GetAppLayerFrameHeaderLength new_SerialBuffer
      = (E_OK, rb) \<and>
    ToMessage memr be tfsr (Some rb) False = Ok (read_data tfsr data (header_of m))"
proof -
  note b = ToSerialBuffer_content[OF r f fit]
  have "ToMessage memr be tfsr (Some rb) False = Ok (read_data tfsr data (header_of m))"
    if rb: "sb_ok rb" "headerLen rb = 72" "payloadLen rb = payloadLen b"
      "drop 72 (content rb) = take (unat (payloadLen b)) (drop 72 (content b))" for rb
    using ToMessage_reads[of rb data m memr be tfsr] rb b m mem by (simp add: msg.length_net sizeofs)
  with app_frame_received[OF b(1) l, of be src fid s] show ?thesis by (elim exE conjE) (intro exI conjI; assumption?; simp)
qed

text \<open>A transform function whose payload is a list of bytes.\<close>

definition list_transform :: "byte list transform" where
  "list_transform = \<lparr>computeFunc = (\<lambda>m. case holder m of None \<Rightarrow> 0 | Some xs \<Rightarrow> of_nat (length xs)),
     serializeFunc = (\<lambda>n m. case holder m of None \<Rightarrow> None | Some xs \<Rightarrow> if length xs \<le> unat n then Some xs else None),
     deserializeFunc = (\<lambda>data m. Some (m\<lparr>holder := Some data\<rparr>))\<rparr>"

definition sample_message :: "byte list message" where
  "sample_message = (SetMessageType TYPE_REQUEST new_Message)\<lparr>messageId := 7, sessionId := 3, holder := Some [1, 2, 3]\<rparr>"

lemma sample_facts:
  shows "om_find [(7, list_transform)] (messageId sample_message) = Some list_transform"
    "transform_fits [(7, list_transform)] sample_message" "wf_message sample_message"
    "computeFunc list_transform sample_message = 3" "serializeFunc list_transform 3 sample_message = Some [1, 2, 3]"
    "read_data [(7, list_transform)] [1, 2, 3] (header_of sample_message) = (E_OK, Some sample_message)"
proof -
  show f: "om_find [(7, list_transform)] (messageId sample_message) = Some list_transform" by (simp add: sample_message_def om_find_Cons)
  show "transform_fits [(7, list_transform)] sample_message"
    by (auto simp: transform_fits_def f) (auto simp: list_transform_def sample_message_def split: if_splits)
  show "wf_message sample_message"
    by (auto simp: sample_message_def wf_message_def SetMessageType_def new_Message_def)
  show "computeFunc list_transform sample_message = 3" "serializeFunc list_transform 3 sample_message = Some [1, 2, 3]"
    by (simp_all add: list_transform_def sample_message_def)
  show "read_data [(7, list_transform)] [1, 2, 3] (header_of sample_message) = (E_OK, Some sample_message)"
    by (simp add: read_data_def header_of_def sample_message_def list_transform_def om_find_Cons IsFeedbackErrorMessage_def
        SetMessageType_def new_Message_def FEEDBACK_UNKNOWN_MESSAGE_NO_def FEEDBACK_COMMUNICATOR_NOT_FOUND_NO_def FEEDBACK_DB_CLOSING_NO_def)
qed

lemma sample_built: "\<exists>b. ToSerialBuffer never_oom be [(7, list_transform)] (Some sample_message) None False = Ok b"
proof -
  obtain b where b: "AllocBufferByPayloadLength never_oom 27 72 new_SerialBuffer = (E_OK, b)" using alloc_app_frame[of 27] by auto
  then have "AllocBufferByPayloadLength never_oom (of_nat (3 + 24)) 72 (SetExtendHeadLength 0 new_SerialBuffer) = (E_OK, b)"
    by (simp add: SetExtendHeadLength_def new_SerialBuffer_def)
  from app_alloc[OF this] have a: "app_buf b" "unat (payloadLen b) = 3 + 24" "content b = replicate (unat (totalLen b)) 0" by simp_all
  from Serialize[OF a, of "[1, 2, 3]" "[(7, list_transform)]" sample_message list_transform be] obtain b'
    where "SerializeMessage be [(7, list_transform)] b sample_message = Ok b'" using sample_facts by auto
  then show ?thesis using b sample_facts(1,4,5)
    by (simp add: ToSerialBuffer_def CalculateDataSerializeLength_def GetTransformFunc_def Let_def guard_err_def BYTE_8_ALIGN_def
        MAX_FRAME_LEN_def header_lengths GetExtendHeadDataSize_def FillExtendHeadDataIfNeed_def sizeofs)
qed

theorem message_roundtrip_witness:
  "\<exists>b b1 b2 res rb. ToSerialBuffer never_oom False [(7, list_transform)] (Some sample_message) None False = Ok b \<and>
    SetDivergeHeader False b (replicate 32 4) = Ok b1 \<and>
    SetPhyHeader False (Some b1) \<lparr>hi_sourceId = 5, hi_frameId = 9, hi_frameType = APPLICATION_MESSAGE,
      hi_sendLabelExchange = True\<rparr> = Ok b2 \<and>
    CheckAndParsePacket False (Some (content b2)) (totalLen b2) new_ParseResult = Ok res \<and> pr_commLabel res = replicate 32 4 \<and>
    ToMessage never_oom False [(7, list_transform)] (Some rb) False = Ok (E_OK, Some sample_message)"
proof -
  let ?tfs = "[(7, list_transform)] :: byte list transforms"
  obtain b where b: "ToSerialBuffer never_oom False ?tfs (Some sample_message) None False = Ok b" using sample_built by blast
  have h: "handle_fits None" by (simp add: handle_fits_def)
  have l: "length (replicate 32 (4::byte)) = COMM_LABEL_LENGTH" by (simp add: sizeofs)
  have "serializeFunc list_transform (computeFunc list_transform sample_message) sample_message = Some [1, 2, 3]"
    "length [1, 2, 3::byte] = unat (computeFunc list_transform sample_message)" by (simp_all add: sample_facts)
  from message_roundtrip[OF sample_facts(3) l sample_facts(1) this sample_facts(2) h b, of never_oom 5 9 True ?tfs] show ?thesis
    using b sample_facts(6) by auto
qed

end
