(* ===== verification/Frame_Retainer.thy ===== *)
theory Frame_Retainer
  imports Serial_Buffer Ordered_Map
begin

text \<open>
  \<^verbatim>\<open>FrameRetainer\<close> (\<^verbatim>\<open>communicator/src/frame_retainer.cpp\<close>): frames that arrive for a label no
  communicator is registered for are kept for a while, and handed to the communicator when it
  is activated.  The pool is a map from label to target to retain order.  The abstract view
  \<open>frame_log\<close> is the one sequence of all retained frames in the order of retention;
  every operation is shown to act on it by a short description, and the statistics the code
  keeps beside the pool are the sums over it.  Every operation runs under \<^verbatim>\<open>overallMutex_\<close>.
\<close>

section \<open>State\<close>

record RetainWork =
  rw_buffer :: serial_buffer
  rw_sendUser :: string
  rw_frameId :: u32
  rw_checkTime :: u32
  rw_remoteDbVersion :: u16

record FrameInfo =
  fm_buffer :: "serial_buffer option"
  fm_srcTarget :: target
  fm_sendUser :: string
  fm_commLabel :: label
  fm_frameId :: u32
  fm_remoteDbVersion :: u16

type_synonym retain_frames = "(u64, RetainWork) omap"
type_synonym retain_pool = "(label, (target, retain_frames) omap) omap"

record frame_retainer =
  rt_isTimerWork :: bool
  rt_totalSizeByByte :: u32
  rt_totalRetainFrames :: u32
  rt_incRetainOrder :: u64
  rt_pool :: retain_pool

definition new_FrameRetainer :: frame_retainer where
  "new_FrameRetainer =
     \<lparr>rt_isTimerWork = False, rt_totalSizeByByte = 0, rt_totalRetainFrames = 0, rt_incRetainOrder = 0,
      rt_pool = []\<rparr>"

definition MAX_RETAIN_CAPACITY :: u32 where "MAX_RETAIN_CAPACITY = 67108864"
definition MAX_RETAIN_PERIOD_COUNT :: u32 where "MAX_RETAIN_PERIOD_COUNT = 2"
definition MAX_RETAIN_FRAME_SIZE :: u32 where "MAX_RETAIN_FRAME_SIZE = 33554432"
definition MAX_RETAIN_FRAME_PER_LABEL_PER_TARGET :: nat where
  "MAX_RETAIN_FRAME_PER_LABEL_PER_TARGET = 5"

section \<open>Operations\<close>

text \<open>\<^verbatim>\<open>retainWorkPool_[label][target]\<close>, read and assigned through the reference.\<close>

definition pool_frames :: "retain_pool \<Rightarrow> label \<Rightarrow> target \<Rightarrow> retain_frames" where
  "pool_frames pool l t = om_get [] (om_get [] pool l) t"

definition set_frames :: "label \<Rightarrow> target \<Rightarrow> retain_frames \<Rightarrow> retain_pool \<Rightarrow> retain_pool" where
  "set_frames l t ws pool = om_insert l (om_insert t ws (om_get [] pool l)) pool"

definition Retainer_Initialize :: "bool \<Rightarrow> frame_retainer \<Rightarrow> frame_retainer" where
  "Retainer_Initialize timerOk r = (if timerOk then r\<lparr>rt_isTimerWork := True\<rparr> else r)"

definition Retainer_Finalize :: "frame_retainer \<Rightarrow> frame_retainer" where
  "Retainer_Finalize r =
     r\<lparr>rt_isTimerWork := False, rt_pool := [], rt_totalSizeByByte := 0, rt_totalRetainFrames := 0\<rparr>"

text \<open>The bookkeeping of one frame that leaves the pool.\<close>

definition release :: "serial_buffer \<Rightarrow> frame_retainer \<Rightarrow> frame_retainer" where
  "release b r =
     r\<lparr>rt_totalSizeByByte := rt_totalSizeByByte r - GetSize b,
       rt_totalRetainFrames := rt_totalRetainFrames r - 1\<rparr>"

definition ShrinkRetainWorkPool :: "frame_retainer \<Rightarrow> frame_retainer" where
  "ShrinkRetainWorkPool r =
     (let emptyTargets = (\<lambda>ts. map fst (filter (\<lambda>(t, ws). ws = []) ts));
          pool = map (\<lambda>(l, ts). (l, fold om_erase (emptyTargets ts) ts)) (rt_pool r);
          emptyLabel = map fst (filter (\<lambda>(l, ts). ts = []) pool)
      in r\<lparr>rt_pool := fold om_erase emptyLabel pool\<rparr>)"

text \<open>All frames of the pool, visited in the order of the nested loops.\<close>

definition entries :: "retain_pool \<Rightarrow> (u64 \<times> label \<times> target \<times> RetainWork) list" where
  "entries pool =
     concat (map (\<lambda>(l, ts). concat (map (\<lambda>(t, ws). map (\<lambda>(k, w). (k, l, t, w)) ws) ts)) pool)"

definition discard_order :: "retain_pool \<Rightarrow> (u64, label \<times> target) omap" where
  "discard_order pool = fold (\<lambda>(k, l, t, w). om_insert k (l, t)) (entries pool) []"

text \<open>
  \<^verbatim>\<open>retainWorkPool_[l][t][k]\<close> of an absent frame would be a default work whose buffer is null,
  and its \<^verbatim>\<open>GetSize\<close> a fault.
\<close>

fun discard_loop :: "(u64, label \<times> target) omap \<Rightarrow> frame_retainer \<Rightarrow> frame_retainer res" where
  "discard_loop discardOrder r =
     (if rt_totalSizeByByte r \<le> MAX_RETAIN_CAPACITY then Ok (ShrinkRetainWorkPool r)
      else case discardOrder of
             [] \<Rightarrow> Ok r
           | (k, l, t) # rest \<Rightarrow>
               (case om_find (pool_frames (rt_pool r) l t) k of
                  None \<Rightarrow> Fault
                | Some work \<Rightarrow>
                    discard_loop rest
                      ((release (rw_buffer work) r)
                       \<lparr>rt_pool := set_frames l t (om_erase k (pool_frames (rt_pool r) l t)) (rt_pool r)\<rparr>)))"

declare discard_loop.simps [simp del]

definition DiscardObsoleteFramesIfNeed :: "frame_retainer \<Rightarrow> frame_retainer res" where
  "DiscardObsoleteFramesIfNeed r =
     (if rt_totalSizeByByte r \<le> MAX_RETAIN_CAPACITY then Ok r
      else discard_loop (discard_order (rt_pool r)) r)"

definition discard_oldest :: "label \<Rightarrow> target \<Rightarrow> frame_retainer \<Rightarrow> frame_retainer" where
  "discard_oldest l t r =
     (let ws = pool_frames (rt_pool r) l t
      in if length ws \<ge> MAX_RETAIN_FRAME_PER_LABEL_PER_TARGET
         then (case ws of
                 [] \<Rightarrow> r
               | (k, w) # _ \<Rightarrow> (release (rw_buffer w) r)\<lparr>rt_pool := set_frames l t (om_erase k ws) (rt_pool r)\<rparr>)
         else r)"

definition retain_work :: "serial_buffer \<Rightarrow> FrameInfo \<Rightarrow> RetainWork" where
  "retain_work b f =
     \<lparr>rw_buffer = b, rw_sendUser = fm_sendUser f, rw_frameId = fm_frameId f,
      rw_checkTime = MAX_RETAIN_PERIOD_COUNT, rw_remoteDbVersion = fm_remoteDbVersion f\<rparr>"

definition insert_frame :: "label \<Rightarrow> target \<Rightarrow> RetainWork \<Rightarrow> frame_retainer \<Rightarrow> frame_retainer" where
  "insert_frame l t w r =
     r\<lparr>rt_pool := set_frames l t (om_insert (rt_incRetainOrder r) w (pool_frames (rt_pool r) l t)) (rt_pool r),
       rt_incRetainOrder := rt_incRetainOrder r + 1,
       rt_totalSizeByByte := rt_totalSizeByByte r + GetSize (rw_buffer w),
       rt_totalRetainFrames := rt_totalRetainFrames r + 1\<rparr>"

definition RetainFrame :: "allocator \<Rightarrow> FrameInfo \<Rightarrow> frame_retainer \<Rightarrow> frame_retainer res" where
  "RetainFrame mem inFrame r =
     (case fm_buffer inFrame of
        None \<Rightarrow> Ok r
      | Some buf \<Rightarrow>
          if GetSize buf > MAX_RETAIN_FRAME_SIZE then Ok r
          else case ConvertForCrossThread mem buf of
                 Fault \<Rightarrow> Fault
               | Err e \<Rightarrow> Ok r
               | Ok b \<Rightarrow>
                   (let l = fm_commLabel inFrame; t = fm_srcTarget inFrame
                    in DiscardObsoleteFramesIfNeed
                         (insert_frame l t (retain_work b inFrame) (discard_oldest l t r))))"

definition fetch_order :: "(target, retain_frames) omap \<Rightarrow> (u64, target) omap" where
  "fetch_order perLabel = fold (\<lambda>(t, ws). fold (\<lambda>(k, w). om_insert k t) ws) perLabel []"

definition frame_of :: "label \<Rightarrow> target \<Rightarrow> RetainWork \<Rightarrow> FrameInfo" where
  "frame_of l t w =
     \<lparr>fm_buffer = Some (rw_buffer w), fm_srcTarget = t, fm_sendUser = rw_sendUser w, fm_commLabel = l,
      fm_frameId = rw_frameId w, fm_remoteDbVersion = rw_remoteDbVersion w\<rparr>"

fun fetch_loop :: "label \<Rightarrow> (target, retain_frames) omap \<Rightarrow> (u64, target) omap \<Rightarrow> frame_retainer \<Rightarrow>
    (FrameInfo list \<times> frame_retainer) res" where
  "fetch_loop l perLabel [] r = Ok ([], r)"
| "fetch_loop l perLabel ((k, t) # rest) r =
     (case om_find (om_get [] perLabel t) k of
        None \<Rightarrow> Fault
      | Some work \<Rightarrow>
          res_bind (fetch_loop l perLabel rest (release (rw_buffer work) r))
            (\<lambda>(out, r'). Ok (frame_of l t work # out, r')))"

definition FetchFramesForSpecificCommunicator ::
    "label \<Rightarrow> frame_retainer \<Rightarrow> (FrameInfo list \<times> frame_retainer) res" where
  "FetchFramesForSpecificCommunicator l r =
     (case om_find (rt_pool r) l of
        None \<Rightarrow> Ok ([], r)
      | Some perLabel \<Rightarrow>
          res_bind (fetch_loop l perLabel (fetch_order perLabel) r)
            (\<lambda>(out, r'). Ok (out, r'\<lparr>rt_pool := om_erase l (rt_pool r')\<rparr>)))"

definition dec_time :: "RetainWork \<Rightarrow> RetainWork" where
  "dec_time w = w\<lparr>rw_checkTime := rw_checkTime w - 1\<rparr>"

definition expired :: "RetainWork \<Rightarrow> bool" where
  "expired w \<longleftrightarrow> rw_checkTime (dec_time w) = 0"

definition DecreaseRemainTimeAndDiscard ::
    "retain_frames \<Rightarrow> frame_retainer \<Rightarrow> retain_frames \<times> u64 list \<times> frame_retainer" where
  "DecreaseRemainTimeAndDiscard ws r =
     (map (\<lambda>(k, w). (k, dec_time w)) ws,
      fold insort_insert (map fst (filter (\<lambda>(k, w). expired w) ws)) [],
      fold (\<lambda>(k, w). release (rw_buffer w)) (filter (\<lambda>(k, w). expired w) ws) r)"

fun tick_targets :: "(target, retain_frames) omap \<Rightarrow> frame_retainer \<Rightarrow>
    (target, retain_frames) omap \<times> frame_retainer" where
  "tick_targets [] r = ([], r)"
| "tick_targets ((t, ws) # ts) r =
     (let (ws', frameToDiscard, r1) = DecreaseRemainTimeAndDiscard ws r;
          (ts', r2) = tick_targets ts r1
      in ((t, fold om_erase frameToDiscard ws') # ts', r2))"

fun tick_labels :: "retain_pool \<Rightarrow> frame_retainer \<Rightarrow> retain_pool \<times> frame_retainer" where
  "tick_labels [] r = ([], r)"
| "tick_labels ((l, ts) # ls) r =
     (let (ts', r1) = tick_targets ts r; (ls', r2) = tick_labels ls r1 in ((l, ts') # ls', r2))"

definition Retainer_PeriodicalSurveillance :: "frame_retainer \<Rightarrow> frame_retainer" where
  "Retainer_PeriodicalSurveillance r =
     (let (pool, r') = tick_labels (rt_pool r) r in ShrinkRetainWorkPool (r'\<lparr>rt_pool := pool\<rparr>))"

section \<open>The pool as one log of frames\<close>

definition entry :: "retain_pool \<Rightarrow> label \<Rightarrow> target \<Rightarrow> u64 \<Rightarrow> RetainWork option" where
  "entry pool l t k = om_find (pool_frames pool l t) k"

definition pool_ok :: "retain_pool \<Rightarrow> bool" where
  "pool_ok pool \<longleftrightarrow> om_ok pool \<and> (\<forall>(l, ts) \<in> set pool. om_ok ts \<and> (\<forall>(t, ws) \<in> set ts. om_ok ws))"

definition unique_orders :: "retain_pool \<Rightarrow> bool" where
  "unique_orders pool \<longleftrightarrow>
     (\<forall>l t k w l' t' w'. entry pool l t k = Some w \<longrightarrow> entry pool l' t' k = Some w' \<longrightarrow> l = l' \<and> t = t')"

definition frame_log :: "retain_pool \<Rightarrow> (u64, label \<times> target \<times> RetainWork) omap" where
  "frame_log pool = fold (\<lambda>(k, x). om_insert k x) (entries pool) []"

lemma pool_frames_ok: "pool_ok pool \<Longrightarrow> om_ok (pool_frames pool l t)"
  by (auto simp: pool_ok_def pool_frames_def om_get_def dest!: om_find_Some_mem split: option.splits)

lemma pool_targets_ok: "pool_ok pool \<Longrightarrow> om_ok (om_get [] pool l)"
  by (auto simp: pool_ok_def om_get_def dest!: om_find_Some_mem split: option.splits)

lemma pool_ok_get: "pool_ok pool \<Longrightarrow> (t, ws) \<in> set (om_get [] pool l) \<Longrightarrow> om_ok ws"
  by (cases "om_find pool l") (auto simp: pool_ok_def om_get_def dest!: om_find_Some_mem)

lemma pool_frames_set:
  "pool_frames (set_frames l t ws pool) l' t' = (if l' = l \<and> t' = t then ws else pool_frames pool l' t')"
  by (simp add: pool_frames_def set_frames_def om_get_insert)

lemma entry_set:
  "entry (set_frames l t ws pool) l' t' k = (if l' = l \<and> t' = t then om_find ws k else entry pool l' t' k)"
  by (simp add: entry_def pool_frames_set)

lemma pool_ok_set: "pool_ok pool \<Longrightarrow> om_ok ws \<Longrightarrow> pool_ok (set_frames l t ws pool)"
  using pool_targets_ok[of pool l] pool_ok_get[of pool]
  by (auto simp: pool_ok_def set_frames_def dest!: set_om_insert_sub[THEN subsetD])

lemma set_entries:
  assumes "pool_ok pool"
  shows "(k, l, t, w) \<in> set (entries pool) \<longleftrightarrow> entry pool l t k = Some w"
proof -
  have "(k, l, t, w) \<in> set (entries pool) \<longleftrightarrow>
        (\<exists>ts ws. (l, ts) \<in> set pool \<and> (t, ws) \<in> set ts \<and> (k, w) \<in> set ws)"
    by (force simp: entries_def)
  also have "\<dots> \<longleftrightarrow> (\<exists>ts ws. om_find pool l = Some ts \<and> om_find ts t = Some ws \<and> om_find ws k = Some w)"
  proof -
    have "(l, ts) \<in> set pool \<longleftrightarrow> om_find pool l = Some ts" for ts
      using assms by (simp add: pool_ok_def om_find_iff_mem)
    moreover have "om_find pool l = Some ts \<Longrightarrow> om_ok ts" for ts
      using assms by (auto simp: pool_ok_def dest!: om_find_Some_mem)
    moreover have "om_find pool l = Some ts \<Longrightarrow> om_find ts t = Some ws \<Longrightarrow> om_ok ws" for ts ws
      using assms by (auto simp: pool_ok_def dest!: om_find_Some_mem)
    ultimately show ?thesis using om_find_iff_mem by metis
  qed
  also have "\<dots> \<longleftrightarrow> entry pool l t k = Some w"
    by (auto simp: entry_def pool_frames_def om_get_def split: option.splits)
  finally show ?thesis .
qed

lemma om_ok_puts: "om_ok m \<Longrightarrow> om_ok (fold (\<lambda>(k, x). om_insert k x) kvs m)"
  by (induction kvs arbitrary: m) auto

lemma frame_log_ok [simp]: "om_ok (frame_log pool)"
  by (simp add: frame_log_def om_ok_puts)

lemma frame_log_find:
  assumes "pool_ok pool" "unique_orders pool"
  shows "om_find (frame_log pool) k = Some (l, t, w) \<longleftrightarrow> entry pool l t k = Some w"
proof -
  let ?m = "map_of (rev (entries pool))"
  have f: "om_find (frame_log pool) k = ?m k"
    by (simp add: frame_log_def om.find_puts split: option.splits)
  show ?thesis
  proof
    assume "om_find (frame_log pool) k = Some (l, t, w)"
    then have "(k, l, t, w) \<in> set (entries pool)" using map_of_SomeD f by fastforce
    then show "entry pool l t k = Some w" using assms by (simp add: set_entries)
  next
    assume e: "entry pool l t k = Some w"
    then have m: "(k, l, t, w) \<in> set (rev (entries pool))" using assms by (simp add: set_entries)
    then obtain x where x: "?m k = Some x" using weak_map_of_SomeI by fastforce
    obtain l' t' w' where x': "x = (l', t', w')" by (cases x)
    then have e': "entry pool l' t' k = Some w'" using x assms set_entries map_of_SomeD by fastforce
    then have "l' = l" "t' = t" using e assms(2) unfolding unique_orders_def by blast+
    then show "om_find (frame_log pool) k = Some (l, t, w)" using e e' f x x' by simp
  qed
qed

text \<open>A log is determined by what the pool holds.\<close>

lemma frame_logI:
  assumes "pool_ok pool" "unique_orders pool" "om_ok L"
    and "\<And>k l t w. om_find L k = Some (l, t, w) \<longleftrightarrow> entry pool l t k = Some w"
  shows "frame_log pool = L"
proof (rule om_ext)
  fix k
  have "om_find (frame_log pool) k = Some x \<longleftrightarrow> om_find L k = Some x" for x
    using assms frame_log_find[OF assms(1,2)] by (cases x) simp
  then show "om_find (frame_log pool) k = om_find L k" by (metis not_Some_eq)
qed (use assms in auto)

lemma om_insert_vals:
  "om_insert k (f v) (map (\<lambda>(k, v). (k, f v)) m) = map (\<lambda>(k, v). (k, f v)) (om_insert k v m)"
  by (induction m) auto

lemma puts_vals:
  "fold (\<lambda>(k, v). om_insert k (f v)) kvs (map (\<lambda>(k, v). (k, f v)) m) =
     map (\<lambda>(k, v). (k, f v)) (fold (\<lambda>(k, v). om_insert k v) kvs m)"
proof (induction kvs arbitrary: m)
  case (Cons e kvs)
  then show ?case by (cases e) (simp add: om_insert_vals)
qed simp

lemma discard_order_log: "discard_order pool = map (\<lambda>(k, l, t, w). (k, l, t)) (frame_log pool)"
  using puts_vals[of "\<lambda>(l, t, w). (l, t)" "entries pool" "[]"]
  by (simp add: discard_order_def frame_log_def case_prod_unfold)

section \<open>What changes of the pool do to the log\<close>

lemma log_insert:
  fixes l :: label and t :: target and w :: RetainWork
  assumes "pool_ok pool" "unique_orders pool" "om_find (frame_log pool) k = None"
  defines "pool' \<equiv> set_frames l t (om_insert k w (pool_frames pool l t)) pool"
  shows "pool_ok pool'" "unique_orders pool'" "frame_log pool' = om_insert k (l, t, w) (frame_log pool)"
proof -
  have fresh: "entry pool l' t' k = None" for l' t'
    using frame_log_find[OF assms(1,2), of k l' t'] assms(3) by (cases "entry pool l' t' k") auto
  show ok: "pool_ok pool'"
    by (simp add: pool'_def pool_ok_set assms(1) pool_frames_ok)
  have e: "entry pool' l' t' k' = (if k' = k then (if l' = l \<and> t' = t then Some w else None) else entry pool l' t' k')"
    for l' t' k'
    using fresh by (auto simp: pool'_def entry_set om_find_insert entry_def[symmetric])
  show u: "unique_orders pool'"
    using assms(2) unfolding unique_orders_def e by (auto split: if_splits)
  show "frame_log pool' = om_insert k (l, t, w) (frame_log pool)"
    by (rule frame_logI[OF ok u]) (auto simp: e om_find_insert frame_log_find[OF assms(1,2)])
qed

lemma log_erase:
  assumes "pool_ok pool" "unique_orders pool" "om_find (frame_log pool) k = Some (l, t, w)"
  defines "pool' \<equiv> set_frames l t (om_erase k (pool_frames pool l t)) pool"
  shows "pool_ok pool'" "unique_orders pool'" "frame_log pool' = om_erase k (frame_log pool)"
proof -
  have here: "entry pool l' t' k = Some w' \<Longrightarrow> l' = l \<and> t' = t" for l' t' w'
    using assms(2,3) frame_log_find[OF assms(1,2)] unfolding unique_orders_def by blast
  show ok: "pool_ok pool'"
    by (simp add: pool'_def pool_ok_set assms(1) pool_frames_ok)
  have e: "entry pool' l' t' k' = (if k' = k then None else entry pool l' t' k')" for l' t' k'
  proof (cases "l' = l \<and> t' = t")
    case True
    then show ?thesis by (simp add: pool'_def pool_frames_set om_find_erase entry_def)
  next
    case False
    then have "entry pool l' t' k = None" using here[of l' t'] by (cases "entry pool l' t' k") auto
    then show ?thesis using False by (auto simp: pool'_def entry_set)
  qed
  show u: "unique_orders pool'"
    using assms(2) unfolding unique_orders_def e by (auto split: if_splits)
  show "frame_log pool' = om_erase k (frame_log pool)"
    by (rule frame_logI[OF ok u]) (auto simp: e om_find_erase frame_log_find[OF assms(1,2)])
qed

text \<open>The frames of one target are the part of the log that belongs to it.\<close>

definition of_target :: "label \<Rightarrow> target \<Rightarrow> u64 \<times> label \<times> target \<times> RetainWork \<Rightarrow> bool" where
  "of_target l t = (\<lambda>(k, l', t', w). l' = l \<and> t' = t)"

lemma target_log:
  assumes "pool_ok pool" "unique_orders pool"
  shows "filter (of_target l t) (frame_log pool) = map (\<lambda>(k, w). (k, l, t, w)) (pool_frames pool l t)"
proof (rule om_ext)
  show "om_ok (map (\<lambda>(k, w). (k, l, t, w)) (pool_frames pool l t))"
    using om_ok_map_vals[OF pool_frames_ok[OF assms(1)], of "\<lambda>k w. (l, t, w)" l t] by simp
  fix k
  have "om_find (map (\<lambda>(k, w). (k, l, t, w)) (pool_frames pool l t)) k = map_option (\<lambda>w. (l, t, w)) (entry pool l t k)"
    using om_find_map_vals[of "\<lambda>k w. (l, t, w)"] by (simp add: entry_def)
  moreover have "om_find (filter (of_target l t) (frame_log pool)) k = Some x \<longleftrightarrow>
      map_option (\<lambda>w. (l, t, w)) (entry pool l t k) = Some x" for x
  proof -
    obtain l' t' w' where x: "x = (l', t', w')" by (cases x)
    have "om_find (filter (of_target l t) (frame_log pool)) k = Some x \<longleftrightarrow>
          om_find (frame_log pool) k = Some x \<and> of_target l t (k, x)"
      by (auto simp: om_find_filter split: option.splits)
    also have "\<dots> \<longleftrightarrow> entry pool l' t' k = Some w' \<and> l' = l \<and> t' = t"
      by (simp add: x frame_log_find[OF assms] of_target_def)
    finally show ?thesis by (auto simp: x)
  qed
  ultimately show "om_find (filter (of_target l t) (frame_log pool)) k =
      om_find (map (\<lambda>(k, w). (k, l, t, w)) (pool_frames pool l t)) k"
    by (metis option.exhaust)
qed simp

section \<open>Shrinking\<close>

lemma unique_orders_cong:
  "(\<And>l t k. entry pool' l t k = entry pool l t k) \<Longrightarrow> unique_orders pool \<Longrightarrow> unique_orders pool'"
  by (simp add: unique_orders_def)

lemma frame_log_cong:
  assumes "pool_ok pool" "unique_orders pool" "pool_ok pool'" "\<And>l t k. entry pool' l t k = entry pool l t k"
  shows "frame_log pool' = frame_log pool"
  using assms by (intro frame_logI unique_orders_cong[OF _ assms(2)]) (auto simp: frame_log_find)

definition no_empty_nodes :: "retain_pool \<Rightarrow> bool" where
  "no_empty_nodes pool \<longleftrightarrow> (\<forall>(l, ts) \<in> set pool. ts \<noteq> [] \<and> (\<forall>(t, ws) \<in> set ts. ws \<noteq> []))"

definition shrunk :: "retain_pool \<Rightarrow> retain_pool" where
  "shrunk pool = filter (\<lambda>(l, ts). ts \<noteq> []) (map (\<lambda>(l, ts). (l, filter (\<lambda>(t, ws). ws \<noteq> []) ts)) pool)"

lemma erase_keys_filter:
  assumes "om_ok m"
  shows "fold om_erase (map fst (filter P m)) m = filter (\<lambda>e. \<not> P e) m"
proof -
  have "fst e \<in> fst ` set (filter P m) \<longleftrightarrow> P e" if "e \<in> set m" for e
  proof -
    have "e' = e" if "e' \<in> set m" "fst e' = fst e" for e'
      using om_ok_distinct[OF assms] \<open>e \<in> set m\<close> that by (auto simp: distinct_map dest: inj_onD)
    then show ?thesis using that by (metis (no_types, lifting) image_iff filter_set CollectD CollectI set_filter)
  qed
  then show ?thesis by (auto simp: fold_om_erase intro!: filter_cong)
qed

lemma Shrink_shrunk:
  assumes "pool_ok (rt_pool r)"
  shows "ShrinkRetainWorkPool r = r\<lparr>rt_pool := shrunk (rt_pool r)\<rparr>"
proof -
  let ?keep = "\<lambda>ts. filter (\<lambda>(t, ws). ws \<noteq> []) ts"
  have ts: "fold om_erase (map fst (filter (\<lambda>(t, ws). ws = []) ts)) ts = ?keep ts" if "(l, ts) \<in> set (rt_pool r)" for l ts
    using assms that erase_keys_filter[of ts "\<lambda>(t, ws). ws = []"]
    by (auto simp: pool_ok_def case_prod_unfold)
  have inner: "map (\<lambda>(l, ts). (l, fold om_erase (map fst (filter (\<lambda>(t, ws). ws = []) ts)) ts)) (rt_pool r) =
        map (\<lambda>(l, ts). (l, ?keep ts)) (rt_pool r)"
    by (rule map_cong) (auto simp: ts)
  have "om_ok (map (\<lambda>(l, ts). (l, ?keep ts)) (rt_pool r))"
    using assms om_ok_map_vals[of "rt_pool r" "\<lambda>l ts. ?keep ts"] by (simp add: pool_ok_def)
  from erase_keys_filter[OF this, of "\<lambda>(l, ts). ts = []"]
  have outer: "fold om_erase (map fst (filter (\<lambda>(l, ts). ts = []) (map (\<lambda>(l, ts). (l, ?keep ts)) (rt_pool r))))
      (map (\<lambda>(l, ts). (l, ?keep ts)) (rt_pool r)) = shrunk (rt_pool r)"
    by (simp add: shrunk_def case_prod_unfold)
  show ?thesis by (simp only: ShrinkRetainWorkPool_def Let_def inner outer)
qed

lemma shrunk_laws:
  assumes "pool_ok pool"
  shows "pool_ok (shrunk pool)" "no_empty_nodes (shrunk pool)"
        "pool_frames (shrunk pool) l t = pool_frames pool l t"
proof -
  let ?keep = "\<lambda>ts. filter (\<lambda>(t, ws). ws \<noteq> []) ts"
  let ?m = "map (\<lambda>(l, ts). (l, ?keep ts)) pool"
  have m: "om_ok ?m" using assms om_ok_map_vals[of pool "\<lambda>l ts. ?keep ts"] by (simp add: pool_ok_def)
  show "pool_ok (shrunk pool)" using assms m by (force simp: pool_ok_def shrunk_def)
  show "no_empty_nodes (shrunk pool)" by (auto simp: no_empty_nodes_def shrunk_def)
  have f: "om_find (shrunk pool) l =
      (case om_find pool l of None \<Rightarrow> None | Some ts \<Rightarrow> if ?keep ts = [] then None else Some (?keep ts))"
    using om_find_filter[OF m, of "\<lambda>(l, ts). ts \<noteq> []" l] om_find_map_vals[of "\<lambda>l ts. ?keep ts" pool l]
    by (auto simp: shrunk_def split: option.splits)
  show "pool_frames (shrunk pool) l t = pool_frames pool l t"
  proof (cases "om_find pool l")
    case (Some ts)
    then have ts: "om_ok ts" using assms by (auto simp: pool_ok_def dest!: om_find_Some_mem)
    have "om_get [] (?keep ts) t = om_get [] ts t"
      using om_find_filter[OF ts, of "\<lambda>(t, ws). ws \<noteq> []" t] by (auto simp: om_get_def split: option.splits)
    then show ?thesis using Some f by (auto simp: pool_frames_def om_get_def[of _ _ l])
  qed (use f in \<open>simp add: pool_frames_def om_get_def\<close>)
qed

lemma log_shrunk:
  assumes "pool_ok pool" "unique_orders pool"
  shows "unique_orders (shrunk pool)" "frame_log (shrunk pool) = frame_log pool"
  using assms shrunk_laws[OF assms(1)]
  by (auto intro!: frame_log_cong unique_orders_cong[OF _ assms(2)] simp: entry_def)

lemma no_empty_nodes_log:
  assumes "pool_ok pool" "unique_orders pool" "no_empty_nodes pool"
  shows "frame_log pool = [] \<longleftrightarrow> pool = []"
proof
  assume l: "frame_log pool = []"
  show "pool = []"
  proof (rule ccontr)
    assume "pool \<noteq> []"
    then obtain l ts ls where p: "pool = (l, ts) # ls" by (cases pool) auto
    then obtain t ws ts' where ts: "ts = (t, ws) # ts'" using assms(3) by (cases ts) (auto simp: no_empty_nodes_def)
    then obtain k w ws' where "ws = (k, w) # ws'" using assms(3) p by (cases ws) (auto simp: no_empty_nodes_def)
    then have "entry pool l t k = Some w" by (simp add: p ts entry_def pool_frames_def om_get_def om_find_Cons)
    then show False using frame_log_find[OF assms(1,2)] l by fastforce
  qed
qed (simp add: frame_log_def entries_def)

section \<open>The statistics and the capacity\<close>

definition bytes_of :: "(u64, label \<times> target \<times> RetainWork) omap \<Rightarrow> nat" where
  "bytes_of L = (\<Sum>(k, l, t, w) \<leftarrow> L. unat (GetSize (rw_buffer w)))"

text \<open>The state of a retainer whose statistics are those of its log.\<close>

definition counted :: "frame_retainer \<Rightarrow> bool" where
  "counted r \<longleftrightarrow> pool_ok (rt_pool r) \<and> unique_orders (rt_pool r) \<and>
     unat (rt_totalSizeByByte r) = bytes_of (frame_log (rt_pool r)) \<and>
     unat (rt_totalRetainFrames r) = length (frame_log (rt_pool r))"

lemma bytes_of_erase:
  assumes "om_ok L" "om_find L k = Some (l, t, w)"
  shows "bytes_of L = unat (GetSize (rw_buffer w)) + bytes_of (om_erase k L)"
  using sum_om_erase[OF assms, of "\<lambda>(k, l, t, w). unat (GetSize (rw_buffer w))"] by (simp add: bytes_of_def)

lemma unat_sub1: "unat (x::u32) = Suc n \<Longrightarrow> unat (x - 1) = n"
  by (metis diff_Suc_1 unat_minus_one nat.distinct(1) unat_eq_zero)

lemma release_counted:
  assumes r: "counted r" and L: "om_find (frame_log (rt_pool r)) k = Some (l, t, w)"
    and p: "pool_ok pool" "unique_orders pool" "frame_log pool = om_erase k (frame_log (rt_pool r))"
  shows "counted ((release (rw_buffer w) r)\<lparr>rt_pool := pool\<rparr>)"
proof -
  let ?s = "GetSize (rw_buffer w)"
  have b: "bytes_of (frame_log (rt_pool r)) = unat ?s + bytes_of (frame_log pool)"
    using bytes_of_erase[OF frame_log_ok L] p by simp
  then have "?s \<le> rt_totalSizeByByte r" using r by (simp add: counted_def word_le_nat_alt)
  then have "unat (rt_totalSizeByByte r - ?s) = bytes_of (frame_log pool)"
    using r b by (simp add: counted_def unat_sub)
  moreover have "unat (rt_totalRetainFrames r - 1) = length (frame_log pool)"
    using length_om_erase[OF frame_log_ok L] r p by (intro unat_sub1) (simp add: counted_def)
  ultimately show ?thesis using p by (simp add: counted_def release_def)
qed

text \<open>The log without its oldest frames, as many as it takes to get within the capacity.\<close>

primrec trim :: "nat \<Rightarrow> (u64, label \<times> target \<times> RetainWork) omap \<Rightarrow> (u64, label \<times> target \<times> RetainWork) omap" where
  "trim cap [] = []"
| "trim cap (e # L) = (if bytes_of (e # L) \<le> cap then e # L else trim cap L)"

lemma trim_id: "bytes_of L \<le> cap \<Longrightarrow> trim cap L = L"
  by (cases L) auto

lemma bytes_of_trim: "bytes_of (trim cap L) \<le> cap"
  by (induction L) (auto simp: bytes_of_def)

lemma trim_suffix: "\<exists>n. trim cap L = drop n L"
proof (induction L)
  case (Cons e L)
  then obtain n where "trim cap L = drop n L" by blast
  then show ?case by (auto intro: exI[of _ 0] exI[of _ "Suc n"])
qed simp

lemma om_erase_first: "om_ok ((k, x) # L) \<Longrightarrow> om_erase k ((k, x) # L) = L"
  by (auto simp: om_erase_def om_ok_Cons filter_id_conv)

lemma discard_loop_trims:
  assumes "counted r" "L = frame_log (rt_pool r)"
  shows "\<exists>r'. discard_loop (map (\<lambda>(k, l, t, w). (k, l, t)) L) r = Ok r' \<and> counted r' \<and>
           rt_incRetainOrder r' = rt_incRetainOrder r \<and> no_empty_nodes (rt_pool r') \<and>
           frame_log (rt_pool r') = trim (unat MAX_RETAIN_CAPACITY) L"
  using assms
proof (induction L arbitrary: r)
  case Nil
  then have s: "rt_totalSizeByByte r \<le> MAX_RETAIN_CAPACITY" by (simp add: counted_def bytes_of_def word_le_nat_alt)
  show ?case using Nil s shrunk_laws log_shrunk
    by (simp add: discard_loop.simps Shrink_shrunk counted_def)
next
  case (Cons e L)
  obtain k l t w where e: "e = (k, l, t, w)" by (cases e)
  have L: "frame_log (rt_pool r) = (k, l, t, w) # L" using Cons.prems e by simp
  have p: "pool_ok (rt_pool r)" "unique_orders (rt_pool r)" using Cons.prems by (simp_all add: counted_def)
  show ?case
  proof (cases "rt_totalSizeByByte r \<le> MAX_RETAIN_CAPACITY")
    case True
    then have "bytes_of (e # L) \<le> unat MAX_RETAIN_CAPACITY"
      using Cons.prems by (simp add: counted_def word_le_nat_alt)
    then show ?thesis using Cons.prems p True shrunk_laws log_shrunk
      by (simp add: discard_loop.simps Shrink_shrunk counted_def trim_id)
  next
    case False
    have f: "om_find (frame_log (rt_pool r)) k = Some (l, t, w)" by (simp add: L om_find_Cons)
    then have en: "om_find (pool_frames (rt_pool r) l t) k = Some w"
      using frame_log_find[OF p] by (simp add: entry_def)
    let ?pool = "set_frames l t (om_erase k (pool_frames (rt_pool r) l t)) (rt_pool r)"
    let ?r = "(release (rw_buffer w) r)\<lparr>rt_pool := ?pool\<rparr>"
    have log: "frame_log ?pool = L"
      using log_erase(3)[OF p f] om_erase_first[of k "(l, t, w)" L] frame_log_ok[of "rt_pool r"] by (simp add: L)
    have "counted ?r" using release_counted[OF Cons.prems(1) f] log_erase[OF p f] by simp
    from Cons.IH[OF this] log obtain r' where r': "discard_loop (map (\<lambda>(k, l, t, w). (k, l, t)) L) ?r = Ok r'"
        "counted r'" "rt_incRetainOrder r' = rt_incRetainOrder r" "no_empty_nodes (rt_pool r')"
        "frame_log (rt_pool r') = trim (unat MAX_RETAIN_CAPACITY) L"
      by (auto simp: release_def)
    have "\<not> bytes_of (e # L) \<le> unat MAX_RETAIN_CAPACITY"
      using False Cons.prems by (simp add: counted_def word_le_nat_alt)
    then show ?thesis using r' False by (simp add: discard_loop.simps[of _ r] e en)
  qed
qed

lemma Discard_trims:
  assumes "counted r" "no_empty_nodes (rt_pool r)"
  shows "\<exists>r'. DiscardObsoleteFramesIfNeed r = Ok r' \<and> counted r' \<and> rt_incRetainOrder r' = rt_incRetainOrder r \<and>
           no_empty_nodes (rt_pool r') \<and>
           frame_log (rt_pool r') = trim (unat MAX_RETAIN_CAPACITY) (frame_log (rt_pool r))"
proof (cases "rt_totalSizeByByte r \<le> MAX_RETAIN_CAPACITY")
  case True
  then have "bytes_of (frame_log (rt_pool r)) \<le> unat MAX_RETAIN_CAPACITY"
    using assms by (simp add: counted_def word_le_nat_alt)
  then have "trim (unat MAX_RETAIN_CAPACITY) (frame_log (rt_pool r)) = frame_log (rt_pool r)"
    by (rule trim_id)
  then show ?thesis using True assms by (simp add: DiscardObsoleteFramesIfNeed_def)
next
  case False
  then show ?thesis using discard_loop_trims[OF assms(1) refl]
    by (simp add: DiscardObsoleteFramesIfNeed_def discard_order_log)
qed

section \<open>The invariant\<close>

definition work_fits :: "RetainWork \<Rightarrow> bool" where
  "work_fits w \<longleftrightarrow> sb_ok (rw_buffer w) \<and> 0 < GetSize (rw_buffer w) \<and> GetSize (rw_buffer w) \<le> MAX_RETAIN_FRAME_SIZE \<and>
     rw_checkTime w \<in> {1..MAX_RETAIN_PERIOD_COUNT}"

definition retainer_ok :: "frame_retainer \<Rightarrow> bool" where
  "retainer_ok r \<longleftrightarrow> counted r \<and> no_empty_nodes (rt_pool r) \<and>
     (\<forall>(k, l, t, w) \<in> set (frame_log (rt_pool r)). k < rt_incRetainOrder r \<and> work_fits w) \<and>
     (\<forall>l t. length (filter (of_target l t) (frame_log (rt_pool r))) \<le> MAX_RETAIN_FRAME_PER_LABEL_PER_TARGET) \<and>
     rt_totalSizeByByte r \<le> MAX_RETAIN_CAPACITY"

section \<open>Retaining a frame\<close>

text \<open>The log without the oldest frame of a target that has as many as it may have.\<close>

definition evict :: "label \<Rightarrow> target \<Rightarrow> (u64, label \<times> target \<times> RetainWork) omap \<Rightarrow>
    (u64, label \<times> target \<times> RetainWork) omap" where
  "evict l t L =
     (case filter (of_target l t) L of
        [] \<Rightarrow> L
      | e # es \<Rightarrow> if MAX_RETAIN_FRAME_PER_LABEL_PER_TARGET \<le> Suc (length es) then om_erase (fst e) L else L)"

lemma om_erase_sub: "set (om_erase k L) \<subseteq> set L"
  by (auto simp: om_erase_def)

lemma evict_sub: "set (evict l t L) \<subseteq> set L"
  by (auto simp: evict_def om_erase_def split: list.splits if_splits)

lemma om_find_hd_filter:
  assumes "om_ok L" "filter P L = e # es"
  shows "om_find L (fst e) = Some (snd e)" "P e"
proof -
  have "e \<in> set (filter P L)" by (simp add: assms)
  then show "om_find L (fst e) = Some (snd e)" "P e" using om_find_mem[OF assms(1), of "fst e" "snd e"] by auto
qed

lemma length_erase_filter: "length (filter P (om_erase k L)) \<le> length (filter P L)"
  by (induction L) (auto simp: om_erase_def)

lemma evict_room:
  assumes "om_ok L" "length (filter (of_target l t) L) \<le> MAX_RETAIN_FRAME_PER_LABEL_PER_TARGET"
  shows "length (filter (of_target l t) (evict l t L)) < MAX_RETAIN_FRAME_PER_LABEL_PER_TARGET"
proof (cases "filter (of_target l t) L")
  case Nil
  then show ?thesis by (simp add: evict_def MAX_RETAIN_FRAME_PER_LABEL_PER_TARGET_def)
next
  case (Cons e es)
  have "filter (of_target l t) (om_erase (fst e) L) = om_erase (fst e) (e # es)"
    by (simp add: om_erase_def Cons[symmetric] conj_commute)
  moreover have "om_ok (e # es)" using om_ok_filter[OF assms(1), of "of_target l t"] Cons by simp
  ultimately have "filter (of_target l t) (om_erase (fst e) L) = es"
    using om_erase_first[of "fst e" "snd e" es] by simp
  then show ?thesis using Cons assms(2) by (auto simp: evict_def)
qed

lemma discard_oldest_evicts:
  assumes "counted r"
  shows "counted (discard_oldest l t r)"
    "frame_log (rt_pool (discard_oldest l t r)) = evict l t (frame_log (rt_pool r))"
    "rt_incRetainOrder (discard_oldest l t r) = rt_incRetainOrder r"
proof -
  have p: "pool_ok (rt_pool r)" "unique_orders (rt_pool r)" using assms by (simp_all add: counted_def)
  note L = target_log[OF p, of l t]
  have "counted (discard_oldest l t r) \<and>
        frame_log (rt_pool (discard_oldest l t r)) = evict l t (frame_log (rt_pool r))"
  proof (cases "pool_frames (rt_pool r) l t")
    case Nil
    then show ?thesis using assms L by (simp add: discard_oldest_def evict_def)
  next
    case (Cons e es)
    obtain k w where e: "e = (k, w)" by (cases e)
    have "om_find (pool_frames (rt_pool r) l t) k = Some w" by (simp add: Cons e om_find_Cons)
    then have f: "om_find (frame_log (rt_pool r)) k = Some (l, t, w)"
      using frame_log_find[OF p] by (simp add: entry_def)
    show ?thesis
      using assms L release_counted[OF assms f log_erase[OF p f]] log_erase(3)[OF p f]
      by (auto simp: discard_oldest_def evict_def Cons e Let_def)
  qed
  then show "counted (discard_oldest l t r)"
    "frame_log (rt_pool (discard_oldest l t r)) = evict l t (frame_log (rt_pool r))" by auto
  show "rt_incRetainOrder (discard_oldest l t r) = rt_incRetainOrder r"
    by (simp add: discard_oldest_def Let_def release_def split: list.splits)
qed

lemma bytes_of_append [simp]: "bytes_of (L @ M) = bytes_of L + bytes_of M"
  by (simp add: bytes_of_def)

lemma bytes_of_ge_length:
  "\<forall>(k, l, t, w) \<in> set L. work_fits w \<Longrightarrow> length L \<le> bytes_of L"
proof (induction L)
  case (Cons e L)
  obtain k l t w where e: "e = (k, l, t, w)" by (cases e)
  have "1 \<le> unat (GetSize (rw_buffer w))"
    using Cons.prems by (simp add: e work_fits_def word_less_nat_alt Suc_le_eq)
  then show ?case using Cons by (simp add: bytes_of_def e)
qed (simp add: bytes_of_def)

lemma bytes_of_evict: "om_ok L \<Longrightarrow> bytes_of (evict l t L) \<le> bytes_of L"
proof (cases "filter (of_target l t) L")
  case (Cons e es)
  assume ok: "om_ok L"
  obtain k x where e: "e = (k, x)" by (cases e)
  obtain l' t' w where "x = (l', t', w)" by (cases x)
  then have "bytes_of (om_erase k L) \<le> bytes_of L"
    using bytes_of_erase[OF ok, of k l' t' w] om_find_hd_filter[OF ok Cons] by (simp add: e)
  then show ?thesis by (simp add: evict_def Cons e)
qed (simp add: evict_def)

lemma insert_frame_appends:
  assumes r: "counted r" and new: "\<forall>(k, x) \<in> set (frame_log (rt_pool r)). k < rt_incRetainOrder r"
    and bytes: "bytes_of (frame_log (rt_pool r)) + unat (GetSize (rw_buffer w)) < 2 ^ 32"
    and len: "Suc (length (frame_log (rt_pool r))) < 2 ^ 32"
  shows "counted (insert_frame l t w r)"
    "frame_log (rt_pool (insert_frame l t w r)) = frame_log (rt_pool r) @ [(rt_incRetainOrder r, l, t, w)]"
proof -
  let ?k = "rt_incRetainOrder r"
  let ?pool = "set_frames l t (om_insert ?k w (pool_frames (rt_pool r) l t)) (rt_pool r)"
  have p: "pool_ok (rt_pool r)" "unique_orders (rt_pool r)" using r by (simp_all add: counted_def)
  have f: "om_find (frame_log (rt_pool r)) ?k = None" using new by (force simp: om_find_None_iff)
  note L = log_insert[OF p f, of l t w]
  have app: "om_insert ?k (l, t, w) (frame_log (rt_pool r)) = frame_log (rt_pool r) @ [(?k, l, t, w)]"
    using new by (intro om_insert_last) auto
  then show "frame_log (rt_pool (insert_frame l t w r)) = frame_log (rt_pool r) @ [(?k, l, t, w)]"
    using L by (simp add: insert_frame_def)
  have "unat (rt_totalSizeByByte r + GetSize (rw_buffer w)) = unat (rt_totalSizeByByte r) + unat (GetSize (rw_buffer w))"
    using r bytes by (intro unat_add_lem[THEN iffD1]) (simp add: counted_def)
  moreover have "unat (rt_totalRetainFrames r + 1) = unat (rt_totalRetainFrames r) + 1"
    using r len unat_add_lem[of "rt_totalRetainFrames r" 1] by (simp add: counted_def)
  ultimately show "counted (insert_frame l t w r)"
    using r L app by (simp add: counted_def insert_frame_def bytes_of_def)
qed

lemma om_insert_nonempty [simp]: "om_insert k v m \<noteq> []"
  by (cases m) (auto split: if_splits)

lemma no_empty_insert:
  assumes "no_empty_nodes pool" "ws \<noteq> []"
  shows "no_empty_nodes (set_frames l t ws pool)"
proof -
  have "\<forall>(t, ws) \<in> set (om_get [] pool l). ws \<noteq> []"
    using assms(1) by (cases "om_find pool l") (auto simp: no_empty_nodes_def om_get_def dest!: om_find_Some_mem)
  then show ?thesis using assms
    by (auto simp: no_empty_nodes_def set_frames_def dest!: set_om_insert_sub[THEN subsetD])
qed

lemma set_frames_twice: "set_frames l t ws (set_frames l t ws' pool) = set_frames l t ws pool"
  by (simp add: set_frames_def om_get_insert om_insert_twice)

lemma insert_after_discard_pool:
  "\<exists>ws. ws \<noteq> [] \<and> rt_pool (insert_frame l t w (discard_oldest l t r)) = set_frames l t ws (rt_pool r)"
proof -
  have "rt_pool (discard_oldest l t r) = rt_pool r \<or> (\<exists>ws. rt_pool (discard_oldest l t r) = set_frames l t ws (rt_pool r))"
    by (auto simp: discard_oldest_def Let_def split: list.splits)
  then show ?thesis by (auto simp: insert_frame_def set_frames_twice intro: exI[of _ "om_insert _ _ _"])
qed

definition retain :: "label \<Rightarrow> target \<Rightarrow> RetainWork \<Rightarrow> u64 \<Rightarrow> (u64, label \<times> target \<times> RetainWork) omap \<Rightarrow>
    (u64, label \<times> target \<times> RetainWork) omap" where
  "retain l t w k L = trim (unat MAX_RETAIN_CAPACITY) (evict l t L @ [(k, l, t, w)])"

lemma length_drop_filter: "length (filter P (drop n L)) \<le> length (filter P L)"
  by (metis append_take_drop_id filter_append length_append le_add2)

lemma store_frame:
  assumes r: "retainer_ok r" and w: "work_fits w" and k: "rt_incRetainOrder r \<noteq> - 1"
  shows "\<exists>r'. DiscardObsoleteFramesIfNeed (insert_frame l t w (discard_oldest l t r)) = Ok r' \<and> retainer_ok r' \<and>
           rt_incRetainOrder r' = rt_incRetainOrder r + 1 \<and>
           frame_log (rt_pool r') = retain l t w (rt_incRetainOrder r) (frame_log (rt_pool r))"
proof -
  let ?L = "frame_log (rt_pool r)" and ?k = "rt_incRetainOrder r"
  let ?r1 = "discard_oldest l t r"
  let ?E = "evict l t ?L"
  let ?r2 = "insert_frame l t w ?r1"
  have c: "counted r" and n: "no_empty_nodes (rt_pool r)" and cap: "bytes_of ?L \<le> unat MAX_RETAIN_CAPACITY"
    using r by (simp_all add: retainer_ok_def counted_def word_le_nat_alt)
  have old: "\<forall>(k', l', t', w') \<in> set ?E. k' < ?k \<and> work_fits w'"
    using r evict_sub[of l t ?L] by (auto simp: retainer_ok_def)
  note r1 = discard_oldest_evicts[OF c, of l t]
  have b1: "bytes_of ?E \<le> 67108864" using bytes_of_evict[OF frame_log_ok, of l t "rt_pool r"] cap
    by (simp add: MAX_RETAIN_CAPACITY_def)
  have l1: "length ?E \<le> bytes_of ?E" using old by (intro bytes_of_ge_length) auto
  have bw: "unat (GetSize (rw_buffer w)) \<le> 33554432"
    using w by (simp add: work_fits_def word_le_nat_alt MAX_RETAIN_FRAME_SIZE_def)
  have r2: "counted ?r2" "frame_log (rt_pool ?r2) = ?E @ [(?k, l, t, w)]"
    using insert_frame_appends[OF r1(1), of w l t] r1 old b1 l1 bw by (auto simp: case_prod_unfold)
  have n2: "no_empty_nodes (rt_pool ?r2)"
    using insert_after_discard_pool[of l t w r] no_empty_insert[OF n] by metis
  obtain r' where r': "DiscardObsoleteFramesIfNeed ?r2 = Ok r'" "counted r'" "no_empty_nodes (rt_pool r')"
      "rt_incRetainOrder r' = ?k + 1" "frame_log (rt_pool r') = retain l t w ?k ?L"
    using Discard_trims[OF r2(1) n2] r1 r2 by (auto simp: retain_def insert_frame_def)
  have k1: "?k < ?k + 1" using k unatSuc[of ?k] by (auto simp: word_less_nat_alt add.commute eq_neg_iff_add_eq_0)
  obtain d where d: "retain l t w ?k ?L = drop d (?E @ [(?k, l, t, w)])"
    using trim_suffix unfolding retain_def by blast
  have sub: "set (retain l t w ?k ?L) \<subseteq> insert (?k, l, t, w) (set ?E)"
    using set_drop_subset[of d "?E @ [(?k, l, t, w)]"] by (auto simp: d)
  have 1: "\<forall>(k', l', t', w') \<in> set (retain l t w ?k ?L). k' < ?k + 1 \<and> work_fits w'"
    using sub old w k1 by fastforce
  have 2: "length (filter (of_target l' t') (retain l t w ?k ?L)) \<le> MAX_RETAIN_FRAME_PER_LABEL_PER_TARGET" for l' t'
  proof -
    have L: "length (filter (of_target l' t') ?L) \<le> MAX_RETAIN_FRAME_PER_LABEL_PER_TARGET"
      using r by (simp add: retainer_ok_def)
    have "length (filter (of_target l' t') ?E) \<le> length (filter (of_target l' t') ?L)"
      by (auto simp: evict_def length_erase_filter split: list.splits)
    moreover have "length (filter (of_target l t) ?E) < MAX_RETAIN_FRAME_PER_LABEL_PER_TARGET"
      using r by (intro evict_room) (auto simp: retainer_ok_def)
    ultimately have "length (filter (of_target l' t') (?E @ [(?k, l, t, w)])) \<le> MAX_RETAIN_FRAME_PER_LABEL_PER_TARGET"
      using L by (auto simp: of_target_def)
    then show ?thesis using length_drop_filter[of "of_target l' t'" d] unfolding d by (rule le_trans[rotated])
  qed
  have 3: "rt_totalSizeByByte r' \<le> MAX_RETAIN_CAPACITY"
    using r' bytes_of_trim[of "unat MAX_RETAIN_CAPACITY"] by (simp add: counted_def retain_def word_le_nat_alt)
  show ?thesis using r' 1 2 3 by (auto simp: retainer_ok_def)
qed

lemma GetSize_ok: "sb_ok b \<Longrightarrow> GetSize b = totalLen b \<and> 0 < totalLen b"
  by (auto simp: GetSize_def sb_ok_def sb_owned_def sb_borrowed_def sb_lens_ok_def)

text \<open>A frame that is not kept, because it is too large or memory is short, changes nothing.\<close>

lemma RetainFrame_cases:
  assumes r: "retainer_ok r" and k: "rt_incRetainOrder r \<noteq> - 1"
    and buf: "fm_buffer f = Some b" "sb_ok b"
  shows "MAX_RETAIN_FRAME_SIZE < GetSize b \<Longrightarrow> RetainFrame mem f r = Ok r"
    and "\<not> mem (NewBytes (totalLen b)) \<Longrightarrow> RetainFrame mem f r = Ok r \<or> sb_owned b"
    and "GetSize b \<le> MAX_RETAIN_FRAME_SIZE \<Longrightarrow> mem (NewBytes (totalLen b)) \<or> sb_owned b \<Longrightarrow>
      \<exists>r' b'. RetainFrame mem f r = Ok r' \<and> retainer_ok r' \<and> GetSize b' = GetSize b \<and> content b' = content b \<and>
        rt_incRetainOrder r' = rt_incRetainOrder r + 1 \<and> frame_log (rt_pool r') =
          retain (fm_commLabel f) (fm_srcTarget f) (retain_work b' f) (rt_incRetainOrder r) (frame_log (rt_pool r))"
proof -
  show "MAX_RETAIN_FRAME_SIZE < GetSize b \<Longrightarrow> RetainFrame mem f r = Ok r"
    using buf by (simp add: RetainFrame_def)
  show "RetainFrame mem f r = Ok r \<or> sb_owned b" if "\<not> mem (NewBytes (totalLen b))"
    using that buf by (auto simp: RetainFrame_def ConvertForCrossThread_def guard_err_def sb_ok_def sb_borrowed_def)
  assume s: "GetSize b \<le> MAX_RETAIN_FRAME_SIZE" and m: "mem (NewBytes (totalLen b)) \<or> sb_owned b"
  have "ConvertForCrossThread mem b \<noteq> Err E_OUT_OF_MEMORY \<or> mem (NewBytes (totalLen b))"
    using m GetSize_ok[OF buf(2)] by (auto simp: ConvertForCrossThread_def sb_owned_def guard_err_def)
  then obtain b' where b': "ConvertForCrossThread mem b = Ok b'" "sb_ok b'" "content b' = content b"
      "totalLen b' = totalLen b"
    using ConvertForCrossThread_ok[OF buf(2), of mem] by auto
  have "work_fits (retain_work b' f)"
    using b' s GetSize_ok[OF buf(2)] GetSize_ok[OF b'(2)]
    by (simp add: work_fits_def retain_work_def MAX_RETAIN_PERIOD_COUNT_def)
  from store_frame[OF r this k] show "\<exists>r' b'. RetainFrame mem f r = Ok r' \<and> retainer_ok r' \<and> GetSize b' = GetSize b \<and>
      content b' = content b \<and> rt_incRetainOrder r' = rt_incRetainOrder r + 1 \<and> frame_log (rt_pool r') =
      retain (fm_commLabel f) (fm_srcTarget f) (retain_work b' f) (rt_incRetainOrder r) (frame_log (rt_pool r))"
    using b' s buf GetSize_ok[OF buf(2)] GetSize_ok[OF b'(2)] by (simp add: RetainFrame_def Let_def) metis
qed

lemma RetainFrame_ok:
  assumes "retainer_ok r" "rt_incRetainOrder r \<noteq> - 1" "\<And>b. fm_buffer f = Some b \<Longrightarrow> sb_ok b"
  shows "\<exists>r'. RetainFrame mem f r = Ok r' \<and> retainer_ok r'"
proof (cases "fm_buffer f")
  case None
  then show ?thesis using assms by (simp add: RetainFrame_def)
next
  case (Some b)
  then show ?thesis using RetainFrame_cases[OF assms(1,2) Some, of mem] assms by (meson not_less)
qed

lemma om_find_filter_Some:
  "om_ok m \<Longrightarrow> om_find (filter P m) k = Some v \<longleftrightarrow> om_find m k = Some v \<and> P (k, v)"
  by (auto simp: om_find_filter split: option.splits)

section \<open>Fetching the frames of a communicator\<close>

definition of_label :: "label \<Rightarrow> u64 \<times> label \<times> target \<times> RetainWork \<Rightarrow> bool" where
  "of_label l = (\<lambda>(k, l', t', w). l' = l)"

definition label_entries :: "(target, retain_frames) omap \<Rightarrow> (u64 \<times> target \<times> RetainWork) list" where
  "label_entries ts = concat (map (\<lambda>(t, ws). map (\<lambda>(k, w). (k, t, w)) ws) ts)"

lemma fetch_order_fold:
  "fold (\<lambda>(t, ws). fold (\<lambda>(k, w). om_insert k t) ws) ts m = fold (\<lambda>(k, t, w). om_insert k t) (label_entries ts) m"
proof (induction ts arbitrary: m)
  case (Cons e ts)
  obtain t ws where e: "e = (t, ws)" by (cases e)
  have "fold (\<lambda>(k, w). om_insert k t) ws m = fold (\<lambda>(k, t, w). om_insert k t) (map (\<lambda>(k, w). (k, t, w)) ws) m" for m
    by (induction ws arbitrary: m) auto
  then show ?case using Cons by (simp add: e label_entries_def)
qed (simp add: label_entries_def)

lemma log_of_label:
  assumes p: "pool_ok pool" "unique_orders pool" and l: "om_find pool l = Some ts"
  shows "fold (\<lambda>(k, x). om_insert k x) (label_entries ts) [] =
         map (\<lambda>(k, l, x). (k, x)) (filter (of_label l) (frame_log pool))" (is "?A = ?B")
proof (rule om_ext)
  have "om_ok (map (\<lambda>(k, x). (k, snd x)) (filter (of_label l) (frame_log pool)))"
    using om_ok_map_vals[of "filter (of_label l) (frame_log pool)" "\<lambda>k x. snd x"] by simp
  then show "om_ok ?B" by (simp add: case_prod_unfold)
  show "om_ok ?A" by (rule om_ok_puts) simp
  fix k
  have ent: "entry pool l t k = Some w \<longleftrightarrow> (k, t, w) \<in> set (label_entries ts)" for t w
  proof -
    have "om_ok ts" "\<And>t ws. (t, ws) \<in> set ts \<Longrightarrow> om_ok ws"
      using p l by (auto simp: pool_ok_def dest!: om_find_Some_mem)
    then have "(k, t, w) \<in> set (label_entries ts) \<longleftrightarrow> (\<exists>ws. om_find ts t = Some ws \<and> om_find ws k = Some w)"
      by (force simp: label_entries_def om_find_iff_mem)
    then show ?thesis by (auto simp: entry_def pool_frames_def om_get_def l split: option.splits)
  qed
  have B: "om_find ?B k = Some (t, w) \<longleftrightarrow> entry pool l t k = Some w" for t w
  proof -
    have "om_find ?B k = map_option snd (om_find (filter (of_label l) (frame_log pool)) k)"
      using om_find_map_vals[of "\<lambda>k x. snd x"] by (simp add: case_prod_unfold)
    also have "\<dots> = Some (t, w) \<longleftrightarrow> om_find (frame_log pool) k = Some (l, t, w)"
      by (auto simp: om_find_filter of_label_def split: option.splits)
    finally show ?thesis by (simp add: frame_log_find[OF p])
  qed
  have A: "om_find ?A k = Some (t, w) \<longleftrightarrow> entry pool l t k = Some w" for t w
  proof -
    have f: "om_find ?A k = map_of (rev (label_entries ts)) k" by (simp add: om.find_puts split: option.splits)
    have u: "(k, x) \<in> set (label_entries ts) \<Longrightarrow> (k, y) \<in> set (label_entries ts) \<Longrightarrow> x = y" for x y
      using p(2) ent unfolding unique_orders_def by (metis option.inject prod.exhaust_sel)
    show ?thesis
    proof
      assume "om_find ?A k = Some (t, w)"
      then show "entry pool l t k = Some w" using f ent map_of_SomeD by fastforce
    next
      assume "entry pool l t k = Some w"
      then have m: "(k, t, w) \<in> set (rev (label_entries ts))" using ent by simp
      then obtain x where x: "map_of (rev (label_entries ts)) k = Some x" using weak_map_of_SomeI by fastforce
      then have "x = (t, w)" using u map_of_SomeD[OF x] m by simp
      then show "om_find ?A k = Some (t, w)" using f x by simp
    qed
  qed
  show "om_find ?A k = om_find ?B k" using A B by (metis option.exhaust prod.exhaust)
qed

lemma fetch_order_log:
  assumes "pool_ok pool" "unique_orders pool" "om_find pool l = Some ts"
  shows "fetch_order ts = map (\<lambda>(k, l, t, w). (k, t)) (filter (of_label l) (frame_log pool))"
proof -
  have "fetch_order ts = fold (\<lambda>(k, v). om_insert k (fst v)) (label_entries ts) 
      (map (\<lambda>(k, v). (k, fst v)) ([] :: (u64, target \<times> RetainWork) omap))"
    unfolding fetch_order_def fetch_order_fold by (simp add: case_prod_unfold)
  also have "\<dots> = map (\<lambda>(k, v). (k, fst v)) (map (\<lambda>(k, l, x). (k, x)) (filter (of_label l) (frame_log pool)))"
    unfolding puts_vals log_of_label[OF assms] ..
  finally show ?thesis by (simp add: case_prod_unfold comp_def)
qed

definition releases :: "(u64, label \<times> target \<times> RetainWork) omap \<Rightarrow> frame_retainer \<Rightarrow> frame_retainer" where
  "releases L r = fold (\<lambda>(k, l, t, w). release (rw_buffer w)) L r"

lemma releases_Cons: "releases ((k, l, t, w) # L) r = releases L (release (rw_buffer w) r)"
  by (simp add: releases_def)

lemma fetch_loop_out:
  assumes "\<forall>(k, l', t, w) \<in> set L. l' = l \<and> om_find (om_get [] ts t) k = Some w"
  shows "fetch_loop l ts (map (\<lambda>(k, l, t, w). (k, t)) L) r =
           Ok (map (\<lambda>(k, l, t, w). frame_of l t w) L, releases L r)"
  using assms
proof (induction L arbitrary: r)
  case (Cons e L)
  then show ?case by (cases e) (auto simp: releases_Cons)
qed (simp add: releases_def)

lemma release_fields [simp]:
  "rt_pool (release b r) = rt_pool r" "rt_incRetainOrder (release b r) = rt_incRetainOrder r"
  "rt_isTimerWork (release b r) = rt_isTimerWork r"
  by (simp_all add: release_def)

lemma releases_fields [simp]:
  "rt_pool (releases L r) = rt_pool r" "rt_incRetainOrder (releases L r) = rt_incRetainOrder r"
  by (induction L arbitrary: r) (auto simp: releases_def)

lemma releases_stats:
  assumes "unat (rt_totalSizeByByte r) = bytes_of L + n" "unat (rt_totalRetainFrames r) = length L + m"
  shows "unat (rt_totalSizeByByte (releases L r)) = n \<and> unat (rt_totalRetainFrames (releases L r)) = m"
  using assms
proof (induction L arbitrary: r)
  case (Cons e L)
  obtain k l t w where e: "e = (k, l, t, w)" by (cases e)
  let ?s = "GetSize (rw_buffer w)"
  have "?s \<le> rt_totalSizeByByte r" using Cons.prems by (simp add: e bytes_of_def word_le_nat_alt)
  then have "unat (rt_totalSizeByByte r - ?s) = bytes_of L + n"
    using Cons.prems by (simp add: e bytes_of_def unat_sub)
  moreover have "unat (rt_totalRetainFrames r - 1) = length L + m"
    using Cons.prems by (intro unat_sub1) simp
  ultimately show ?case using Cons.IH[of "release (rw_buffer w) r"] by (simp add: e releases_Cons release_def)
qed (simp add: releases_def bytes_of_def)

lemma bytes_of_filter: "bytes_of L = bytes_of (filter P L) + bytes_of (filter (\<lambda>e. \<not> P e) L)"
  by (induction L) (auto simp: bytes_of_def)

lemma retainer_ok_sub:
  assumes r: "retainer_ok r" and p: "pool_ok pool" "unique_orders pool" "no_empty_nodes pool"
    and log: "frame_log pool = map g (filter P (frame_log (rt_pool r)))"
    and g: "\<And>k l t w. (k, l, t, w) \<in> set (frame_log (rt_pool r)) \<Longrightarrow> P (k, l, t, w) \<Longrightarrow>
              \<exists>w'. g (k, l, t, w) = (k, l, t, w') \<and> work_fits w' \<and> rw_buffer w' = rw_buffer w"
  shows "retainer_ok ((releases (filter (\<lambda>e. \<not> P e) (frame_log (rt_pool r))) r)\<lparr>rt_pool := pool\<rparr>)"
proof -
  let ?L = "frame_log (rt_pool r)"
  have bytes: "bytes_of (frame_log pool) = bytes_of (filter P ?L)"
    unfolding log bytes_of_def map_map comp_def
    by (rule arg_cong[where f = sum_list], rule map_cong[OF refl]) (use g in fastforce)
  have len: "length ?L = length (filter (\<lambda>e. \<not> P e) ?L) + length (filter P ?L)"
    using sum_length_filter_compl[of P ?L] by simp
  let ?r = "releases (filter (\<lambda>e. \<not> P e) ?L) r"
  have st: "unat (rt_totalSizeByByte ?r) = bytes_of (frame_log pool)"
           "unat (rt_totalRetainFrames ?r) = length (frame_log pool)"
    using releases_stats[of r "filter (\<lambda>e. \<not> P e) ?L" "bytes_of (filter P ?L)" "length (filter P ?L)"]
      r len bytes_of_filter[of ?L P]
    unfolding bytes by (simp_all add: retainer_ok_def counted_def log)
  have "rt_totalSizeByByte ?r \<le> MAX_RETAIN_CAPACITY"
    using st r bytes_of_filter[of ?L P] by (simp add: bytes word_le_nat_alt retainer_ok_def counted_def)
  moreover have "\<forall>(k, l, t, w) \<in> set (frame_log pool). k < rt_incRetainOrder r \<and> work_fits w"
    using r g unfolding log retainer_ok_def by fastforce
  moreover have "length (filter (of_target l t) (frame_log pool)) \<le> MAX_RETAIN_FRAME_PER_LABEL_PER_TARGET" for l t
  proof -
    have "filter (of_target l t) (frame_log pool) = map g (filter (\<lambda>e. of_target l t (g e)) (filter P ?L))"
      by (simp add: log filter_map comp_def)
    also have "filter (\<lambda>e. of_target l t (g e)) (filter P ?L) = filter (of_target l t) (filter P ?L)"
      by (rule filter_cong) (use g in \<open>fastforce simp: of_target_def\<close>)+
    also have "filter (of_target l t) (filter P ?L) = filter P (filter (of_target l t) ?L)"
      by (simp add: conj_commute)
    finally have "length (filter (of_target l t) (frame_log pool)) \<le> length (filter (of_target l t) ?L)"
      by (simp del: filter_filter)
    then show ?thesis using r le_trans unfolding retainer_ok_def by blast
  qed
  ultimately show ?thesis using p st by (simp add: retainer_ok_def counted_def)
qed

lemma pool_erase_laws:
  assumes "pool_ok pool" "unique_orders pool" "no_empty_nodes pool"
  shows "pool_ok (om_erase l pool)" "unique_orders (om_erase l pool)" "no_empty_nodes (om_erase l pool)"
    "frame_log (om_erase l pool) = filter (\<lambda>e. \<not> of_label l e) (frame_log pool)"
proof -
  show ok: "pool_ok (om_erase l pool)" "no_empty_nodes (om_erase l pool)"
    using assms by (fastforce simp: pool_ok_def no_empty_nodes_def om_erase_def)+
  have e: "entry (om_erase l pool) l' t k = (if l' = l then None else entry pool l' t k)" for l' t k
    by (simp add: entry_def pool_frames_def om_get_erase)
  show u: "unique_orders (om_erase l pool)"
    using assms(2) unfolding unique_orders_def e by (auto split: if_splits)
  show "frame_log (om_erase l pool) = filter (\<lambda>e. \<not> of_label l e) (frame_log pool)"
    using frame_log_find[OF assms(1,2)]
    by (intro frame_logI[OF ok(1) u]) (auto simp: e om_find_filter_Some of_label_def)
qed

lemma Fetch_fetches:
  assumes r: "retainer_ok r"
  shows "\<exists>r'. FetchFramesForSpecificCommunicator l r =
           Ok (map (\<lambda>(k, l, t, w). frame_of l t w) (filter (of_label l) (frame_log (rt_pool r))), r') \<and>
         retainer_ok r' \<and> rt_incRetainOrder r' = rt_incRetainOrder r \<and>
         frame_log (rt_pool r') = filter (\<lambda>e. \<not> of_label l e) (frame_log (rt_pool r))"
proof -
  let ?L = "frame_log (rt_pool r)"
  have p: "pool_ok (rt_pool r)" "unique_orders (rt_pool r)" "no_empty_nodes (rt_pool r)"
    using r by (simp_all add: retainer_ok_def counted_def)
  show ?thesis
  proof (cases "om_find (rt_pool r) l")
    case None
    have "\<not> of_label l e" if "e \<in> set ?L" for e
    proof
      obtain k l' t w where e: "e = (k, l', t, w)" by (cases e)
      assume "of_label l e"
      then have "entry (rt_pool r) l t k = Some w"
        using that frame_log_find[OF p(1,2)] om_find_mem[OF frame_log_ok] by (fastforce simp: e of_label_def)
      then show False using None by (simp add: entry_def pool_frames_def om_get_def)
    qed
    then have "filter (of_label l) ?L = []" "filter (\<lambda>e. \<not> of_label l e) ?L = ?L"
      by (simp_all add: filter_empty_conv filter_id_conv)
    then show ?thesis using None r by (simp add: FetchFramesForSpecificCommunicator_def)
  next
    case (Some ts)
    have "\<forall>(k, l', t, w) \<in> set (filter (of_label l) ?L). l' = l \<and> om_find (om_get [] ts t) k = Some w"
    proof (clarify, intro conjI)
      fix k l' t w
      assume m: "(k, l', t, w) \<in> set (filter (of_label l) ?L)"
      then show "l' = l" by (simp add: of_label_def)
      then have "entry (rt_pool r) l t k = Some w"
        using m frame_log_find[OF p(1,2)] om_find_mem[OF frame_log_ok] by fastforce
      then show "om_find (om_get [] ts t) k = Some w" by (simp add: entry_def pool_frames_def om_get_def Some)
    qed
    from fetch_loop_out[OF this, of r]
    have out: "FetchFramesForSpecificCommunicator l r =
        Ok (map (\<lambda>(k, l, t, w). frame_of l t w) (filter (of_label l) ?L),
            (releases (filter (of_label l) ?L) r)\<lparr>rt_pool := om_erase l (rt_pool r)\<rparr>)"
      using fetch_order_log[OF p(1,2) Some] by (simp add: FetchFramesForSpecificCommunicator_def Some)
    have "retainer_ok ((releases (filter (of_label l) ?L) r)\<lparr>rt_pool := om_erase l (rt_pool r)\<rparr>)"
      using retainer_ok_sub[OF r pool_erase_laws(1-3)[OF p, of l], of "\<lambda>x. x" "\<lambda>e. \<not> of_label l e"]
        pool_erase_laws(4)[OF p, of l] r by (fastforce simp: retainer_ok_def)
    then show ?thesis using out pool_erase_laws(4)[OF p, of l] by simp
  qed
qed

section \<open>The surveillance timer\<close>

lemma set_fold_insort [simp]: "set (fold insort_insert ks (m :: 'a::linorder list)) = set ks \<union> set m"
  by (induction ks arbitrary: m) (auto simp: set_insort_insert)

lemma distinct_entries:
  assumes "pool_ok pool"
  shows "distinct (entries pool)"
proof -
  have lab: "distinct (concat (map (\<lambda>(t, ws). map (\<lambda>(k, w). (k, l, t, w)) ws) ts))"
    if "om_ok ts" "\<forall>(t, ws) \<in> set ts. om_ok ws" for l :: label and ts :: "(target, retain_frames) omap"
    using that
  proof (induction ts)
    case (Cons e ts)
    obtain t ws where e: "e = (t, ws)" by (cases e)
    have "distinct ws" using Cons.prems by (auto simp: e distinct_map dest!: om_ok_distinct)
    then show ?case using Cons by (force simp: e om_ok_Cons distinct_map inj_on_def)
  qed simp
  show ?thesis using assms
  proof (induction pool)
    case (Cons e pool)
    obtain l ts where e: "e = (l, ts)" by (cases e)
    have "pool_ok pool" using Cons.prems by (auto simp: pool_ok_def e om_ok_Cons)
    moreover have "\<forall>x \<in> set (entries pool). fst (snd x) \<noteq> l"
      using Cons.prems by (force simp: pool_ok_def e om_ok_Cons entries_def)
    moreover have "distinct (concat (map (\<lambda>(t, ws). map (\<lambda>(k, w). (k, l, t, w)) ws) ts))"
      using Cons.prems by (intro lab) (auto simp: pool_ok_def e)
    ultimately show ?case using Cons.IH by (fastforce simp: e entries_def)
  qed (simp add: entries_def)
qed

lemma om_ok_distinct_entries: "om_ok m \<Longrightarrow> distinct m"
  using om_ok_distinct distinct_map by blast

lemma mset_entries:
  assumes "pool_ok pool" "unique_orders pool"
  shows "set (entries pool) = set (frame_log pool)"
proof -
  have "(k, l, t, w) \<in> set (entries pool) \<longleftrightarrow> (k, l, t, w) \<in> set (frame_log pool)" for k l t w
    using set_entries[OF assms(1)] frame_log_find[OF assms] om_find_iff_mem[OF frame_log_ok] by metis
  then show ?thesis by auto
qed

lemma releases_eq:
  "releases L r = r\<lparr>rt_totalSizeByByte := rt_totalSizeByByte r - of_nat (bytes_of L),
                   rt_totalRetainFrames := rt_totalRetainFrames r - of_nat (length L)\<rparr>"
proof (induction L arbitrary: r)
  case (Cons e L)
  then show ?case by (cases e) (simp add: releases_Cons release_def bytes_of_def diff_diff_eq)
qed (simp add: releases_def bytes_of_def)

lemma releases_same_set:
  assumes "distinct L" "distinct M" "set L = set M"
  shows "releases L r = releases M r"
proof -
  have "bytes_of L = bytes_of M"
    unfolding bytes_of_def sum_list_distinct_conv_sum_set[OF assms(1)] sum_list_distinct_conv_sum_set[OF assms(2)]
    using assms(3) by simp
  moreover have "length L = length M" using assms by (metis distinct_card)
  ultimately show ?thesis by (simp add: releases_eq)
qed

definition expired_entry :: "u64 \<times> label \<times> target \<times> RetainWork \<Rightarrow> bool" where
  "expired_entry = (\<lambda>(k, l, t, w). expired w)"

definition aged :: "u64 \<times> label \<times> target \<times> RetainWork \<Rightarrow> u64 \<times> label \<times> target \<times> RetainWork" where
  "aged = (\<lambda>(k, l, t, w). (k, l, t, dec_time w))"

definition aged_frames :: "retain_frames \<Rightarrow> retain_frames" where
  "aged_frames ws = map (\<lambda>(k, w). (k, dec_time w)) (filter (\<lambda>(k, w). \<not> expired w) ws)"

lemma Decrease_erases:
  assumes "om_ok ws"
  shows "fold om_erase (fold insort_insert (map fst (filter (\<lambda>(k, w). expired w) ws)) [])
           (map (\<lambda>(k, w). (k, dec_time w)) ws) = aged_frames ws"
proof -
  have k: "k \<in> fst ` {e \<in> set ws. expired (snd e)} \<longleftrightarrow> expired w" if "(k, w) \<in> set ws" for k w
  proof
    assume "k \<in> fst ` {e \<in> set ws. expired (snd e)}"
    then obtain w' where "(k, w') \<in> set ws" "expired w'" by auto
    then show "expired w" using om_find_mem[OF assms that] om_find_mem[OF assms] by fastforce
  qed (use that in force)
  have "filter (\<lambda>e. fst e \<notin> fst ` {e \<in> set ws. expired (snd e)}) (map (\<lambda>(k, w). (k, dec_time w)) ws) =
        map (\<lambda>(k, w). (k, dec_time w)) (filter (\<lambda>(k, w). \<not> expired w) ws)"
    unfolding filter_map
    by (rule arg_cong[where f = "map _"], rule filter_cong[OF refl])
       (clarsimp simp only: comp_def split fst_conv k not_False_eq_True)
  then show ?thesis by (simp add: fold_om_erase aged_frames_def case_prod_unfold)
qed

lemma release_expired:
  "fold (\<lambda>(k, w). release (rw_buffer w)) (filter (\<lambda>(k, w). expired w) ws) r =
     releases (filter expired_entry (map (\<lambda>(k, w). (k, l, t, w)) ws)) r"
  by (induction ws arbitrary: r) (auto simp: releases_def expired_entry_def)

lemma releases_append: "releases (L @ M) r = releases M (releases L r)"
  by (simp add: releases_def)

definition aged_pool :: "retain_pool \<Rightarrow> retain_pool" where
  "aged_pool pool = map (\<lambda>(l, ts). (l, map (\<lambda>(t, ws). (t, aged_frames ws)) ts)) pool"

lemma tick_targets_eq:
  assumes "\<forall>(t, ws) \<in> set ts. om_ok ws"
  shows "tick_targets ts r =
     (map (\<lambda>(t, ws). (t, aged_frames ws)) ts,
      releases (filter expired_entry (concat (map (\<lambda>(t, ws). map (\<lambda>(k, w). (k, l, t, w)) ws) ts))) r)"
  using assms
proof (induction ts arbitrary: r)
  case (Cons e ts)
  obtain t ws where e: "e = (t, ws)" by (cases e)
  show ?case using Cons
    by (simp add: e DecreaseRemainTimeAndDiscard_def Decrease_erases release_expired[of ws _ l t] releases_append)
qed (simp add: releases_def)

lemma tick_labels_eq:
  assumes "\<forall>(l, ts) \<in> set pool. \<forall>(t, ws) \<in> set ts. om_ok ws"
  shows "tick_labels pool r = (aged_pool pool, releases (filter expired_entry (entries pool)) r)"
  using assms
proof (induction pool arbitrary: r)
  case (Cons e pool)
  obtain l ts where e: "e = (l, ts)" by (cases e)
  have "tick_targets ts r = (map (\<lambda>(t, ws). (t, aged_frames ws)) ts,
      releases (filter expired_entry (concat (map (\<lambda>(t, ws). map (\<lambda>(k, w). (k, l, t, w)) ws) ts))) r)" for r
    using Cons.prems by (intro tick_targets_eq) (auto simp: e)
  then show ?case using Cons by (simp add: e entries_def aged_pool_def releases_append)
qed (simp add: releases_def aged_pool_def entries_def)

lemma aged_pool_laws:
  assumes p: "pool_ok pool" "unique_orders pool"
  shows "pool_ok (aged_pool pool)" "unique_orders (aged_pool pool)"
    "frame_log (aged_pool pool) = map aged (filter (\<lambda>e. \<not> expired_entry e) (frame_log pool))"
proof -
  have ws: "om_ok ws \<Longrightarrow> om_ok (aged_frames ws)" for ws
    using om_ok_map_vals[of "filter (\<lambda>(k, w). \<not> expired w) ws" "\<lambda>k. dec_time"] by (simp add: aged_frames_def)
  have ts: "om_ok ts \<Longrightarrow> om_ok (map (\<lambda>(t, ws). (t, aged_frames ws)) ts)" for ts :: "(target, retain_frames) omap"
    using om_ok_map_vals[of ts "\<lambda>t. aged_frames"] by simp
  show ok: "pool_ok (aged_pool pool)"
    using p ws ts om_ok_map_vals[of pool "\<lambda>l ts. map (\<lambda>(t, ws). (t, aged_frames ws)) ts"]
    by (fastforce simp: pool_ok_def aged_pool_def)
  have fr: "pool_frames (aged_pool pool) l t = aged_frames (pool_frames pool l t)" for l t
  proof -
    have "om_find (aged_pool pool) l = map_option (map (\<lambda>(t, ws). (t, aged_frames ws))) (om_find pool l)"
      using om_find_map_vals[of "\<lambda>l ts. map (\<lambda>(t, ws). (t, aged_frames ws)) ts"] by (simp add: aged_pool_def)
    moreover have "om_find (map (\<lambda>(t, ws). (t, aged_frames ws)) ts) t = map_option aged_frames (om_find ts t)" for ts :: "(target, retain_frames) omap"
      using om_find_map_vals[of "\<lambda>t :: target. aged_frames"] by simp
    ultimately show ?thesis
      by (auto simp: pool_frames_def om_get_def aged_frames_def split: option.splits)
  qed
  have e: "entry (aged_pool pool) l t k = Some w' \<longleftrightarrow> (\<exists>w. entry pool l t k = Some w \<and> \<not> expired w \<and> w' = dec_time w)"
    for l t k w'
    using om_find_map_vals[of "\<lambda>k. dec_time" "filter (\<lambda>(k, w). \<not> expired w) (pool_frames pool l t)" k]
      om_find_filter_Some[OF pool_frames_ok[OF p(1)], of "\<lambda>(k, w). \<not> expired w" l t k]
    by (auto simp: entry_def fr aged_frames_def)
  show u: "unique_orders (aged_pool pool)"
    unfolding unique_orders_def e using p(2) unfolding unique_orders_def by blast
  have g: "map aged L = map (\<lambda>(k, x). (k, (\<lambda>(l, t, w). (l, t, dec_time w)) x)) L" for L
    by (auto simp: aged_def)
  have "om_ok (map aged (filter (\<lambda>e. \<not> expired_entry e) (frame_log pool)))"
    unfolding g using om_ok_map_vals[of "filter (\<lambda>e. \<not> expired_entry e) (frame_log pool)"
        "\<lambda>k (l, t, w). (l, t, dec_time w)"] by simp
  moreover have "om_find (map aged (filter (\<lambda>e. \<not> expired_entry e) (frame_log pool))) k = Some (l, t, w') \<longleftrightarrow>
      (\<exists>w. entry pool l t k = Some w \<and> \<not> expired w \<and> w' = dec_time w)" for k l t w'
    unfolding g om_find_map_vals[of "\<lambda>k (l, t, w). (l, t, dec_time w)"]
    by (auto simp: om_find_filter_Some expired_entry_def frame_log_find[OF p] split: prod.splits)
  ultimately show "frame_log (aged_pool pool) = map aged (filter (\<lambda>e. \<not> expired_entry e) (frame_log pool))"
    using e by (intro frame_logI[OF ok u]) auto
qed

lemma dec_time_fits:
  assumes "work_fits w" "\<not> expired w"
  shows "work_fits (dec_time w)" "rw_checkTime w = 2"
proof -
  have "unat (rw_checkTime w) \<in> {1..2}"
    using assms by (auto simp: work_fits_def MAX_RETAIN_PERIOD_COUNT_def word_le_nat_alt)
  moreover have "unat (rw_checkTime w) \<noteq> 1"
  proof
    assume "unat (rw_checkTime w) = 1"
    then have "rw_checkTime w = 1" by (simp add: word_unat_eq_iff)
    then show False using assms(2) by (simp add: expired_def dec_time_def)
  qed
  ultimately have "unat (rw_checkTime w) = 2" by auto
  then show "rw_checkTime w = 2" by (simp add: word_unat_eq_iff)
  then show "work_fits (dec_time w)" using assms by (simp add: work_fits_def dec_time_def MAX_RETAIN_PERIOD_COUNT_def)
qed

lemma Surveillance_ages:
  assumes r: "retainer_ok r"
  shows "retainer_ok (Retainer_PeriodicalSurveillance r)"
    "frame_log (rt_pool (Retainer_PeriodicalSurveillance r)) =
       map aged (filter (\<lambda>e. \<not> expired_entry e) (frame_log (rt_pool r)))"
    "rt_incRetainOrder (Retainer_PeriodicalSurveillance r) = rt_incRetainOrder r"
proof -
  let ?L = "frame_log (rt_pool r)"
  have p: "pool_ok (rt_pool r)" "unique_orders (rt_pool r)" using r by (simp_all add: retainer_ok_def counted_def)
  note a = aged_pool_laws[OF p]
  have rel: "releases (filter expired_entry (entries (rt_pool r))) r = releases (filter expired_entry ?L) r"
    using mset_entries[OF p] distinct_entries[OF p(1)] om_ok_distinct_entries[OF frame_log_ok]
    by (intro releases_same_set) auto
  have eq: "Retainer_PeriodicalSurveillance r =
      (releases (filter (\<lambda>e. \<not> \<not> expired_entry e) ?L) r)\<lparr>rt_pool := shrunk (aged_pool (rt_pool r))\<rparr>"
  proof -
    have "tick_labels (rt_pool r) r = (aged_pool (rt_pool r), releases (filter expired_entry (entries (rt_pool r))) r)"
      using p by (intro tick_labels_eq) (auto simp: pool_ok_def)
    then show ?thesis
      using rel a(1)
      by (simp add: Retainer_PeriodicalSurveillance_def Shrink_shrunk)
  qed
  show log: "frame_log (rt_pool (Retainer_PeriodicalSurveillance r)) = map aged (filter (\<lambda>e. \<not> expired_entry e) ?L)"
    using eq a log_shrunk[OF a(1,2)] by simp
  show "rt_incRetainOrder (Retainer_PeriodicalSurveillance r) = rt_incRetainOrder r" using eq by simp
  show "retainer_ok (Retainer_PeriodicalSurveillance r)"
    unfolding eq
    using shrunk_laws[OF a(1)] log_shrunk[OF a(1,2)] a r dec_time_fits
    by (intro retainer_ok_sub[OF r, where g = aged])
       (auto simp: aged_def expired_entry_def retainer_ok_def dec_time_def)
qed

section \<open>Reachable states\<close>

inductive retainer_reach :: "frame_retainer \<Rightarrow> bool" where
  created: "retainer_reach new_FrameRetainer"
| initialized: "retainer_reach r \<Longrightarrow> retainer_reach (Retainer_Initialize timerOk r)"
| retained: "retainer_reach r \<Longrightarrow> rt_incRetainOrder r \<noteq> - 1 \<Longrightarrow> \<forall>b. fm_buffer f = Some b \<longrightarrow> sb_ok b \<Longrightarrow>
    RetainFrame mem f r = Ok r' \<Longrightarrow> retainer_reach r'"
| fetched: "retainer_reach r \<Longrightarrow> FetchFramesForSpecificCommunicator l r = Ok (out, r') \<Longrightarrow> retainer_reach r'"
| surveyed: "retainer_reach r \<Longrightarrow> retainer_reach (Retainer_PeriodicalSurveillance r)"
| finalized: "retainer_reach r \<Longrightarrow> retainer_reach (Retainer_Finalize r)"

lemma empty_pool_laws [simp]:
  "pool_ok []" "unique_orders []" "no_empty_nodes []" "frame_log [] = []"
  by (simp_all add: pool_ok_def unique_orders_def entry_def pool_frames_def no_empty_nodes_def frame_log_def entries_def)

lemma reach_ok: "retainer_reach r \<Longrightarrow> retainer_ok r"
proof (induction rule: retainer_reach.induct)
  case created
  then show ?case by (simp add: retainer_ok_def counted_def new_FrameRetainer_def bytes_of_def)
next
  case (initialized r timerOk)
  then show ?case by (simp add: Retainer_Initialize_def retainer_ok_def counted_def)
next
  case (retained r f mem r')
  then show ?case using RetainFrame_ok[of r f mem] by auto
next
  case (fetched r l out r')
  then show ?case using Fetch_fetches[of r l] by auto
next
  case (surveyed r)
  then show ?case by (simp add: Surveillance_ages)
next
  case (finalized r)
  then show ?case by (simp add: Retainer_Finalize_def retainer_ok_def counted_def bytes_of_def)
qed

lemma bytes_of_entries:
  assumes "pool_ok pool" "unique_orders pool"
  shows "bytes_of (entries pool) = bytes_of (frame_log pool)" "length (entries pool) = length (frame_log pool)"
proof -
  have d: "distinct (entries pool)" "distinct (frame_log pool)" "set (entries pool) = set (frame_log pool)"
    using assms by (simp_all add: distinct_entries om_ok_distinct_entries mset_entries)
  show "bytes_of (entries pool) = bytes_of (frame_log pool)"
    unfolding bytes_of_def sum_list_distinct_conv_sum_set[OF d(1)] sum_list_distinct_conv_sum_set[OF d(2)]
    using d(3) by simp
  show "length (entries pool) = length (frame_log pool)" using d by (metis distinct_card)
qed

lemma retainer_reachable_ok_laws:
  assumes "retainer_reach r"
  shows "unat (rt_totalSizeByByte r) = (\<Sum>(k, l, t, w) \<leftarrow> entries (rt_pool r). unat (GetSize (rw_buffer w)))"
    and "unat (rt_totalRetainFrames r) = length (entries (rt_pool r))"
    and "rt_totalSizeByByte r \<le> 67108864"
    and "length (pool_frames (rt_pool r) l t) \<le> 5"
    and "FetchFramesForSpecificCommunicator l r \<noteq> Fault"
    and "rt_incRetainOrder r \<noteq> - 1 \<Longrightarrow> (\<And>b. fm_buffer f = Some b \<Longrightarrow> sb_ok b) \<Longrightarrow> RetainFrame mem f r \<noteq> Fault"
proof -
  have ok: "retainer_ok r" using assms by (rule reach_ok)
  then have p: "pool_ok (rt_pool r)" "unique_orders (rt_pool r)" by (simp_all add: retainer_ok_def counted_def)
  show "unat (rt_totalSizeByByte r) = (\<Sum>(k, l, t, w) \<leftarrow> entries (rt_pool r). unat (GetSize (rw_buffer w)))"
    and "unat (rt_totalRetainFrames r) = length (entries (rt_pool r))" and "rt_totalSizeByByte r \<le> 67108864"
    using ok bytes_of_entries[OF p]
    by (simp_all add: retainer_ok_def counted_def bytes_of_def MAX_RETAIN_CAPACITY_def)
  have "length (pool_frames (rt_pool r) l t) = length (filter (of_target l t) (frame_log (rt_pool r)))"
    by (simp add: target_log[OF p])
  then show "length (pool_frames (rt_pool r) l t) \<le> 5"
    using ok by (simp add: retainer_ok_def MAX_RETAIN_FRAME_PER_LABEL_PER_TARGET_def)
  show "FetchFramesForSpecificCommunicator l r \<noteq> Fault" using Fetch_fetches[OF ok, of l] by auto
  show "RetainFrame mem f r \<noteq> Fault"
    if "rt_incRetainOrder r \<noteq> - 1" "\<And>b. fm_buffer f = Some b \<Longrightarrow> sb_ok b"
    using RetainFrame_ok[OF ok that(1), of f mem] that(2) by force
qed

text \<open>
  C12: Whatever frames arrive, are fetched and time out, the statistics of the retainer are exact
  (the byte total is the sum of the sizes of the frames in the pool, without wrap-around, and the
  frame total their number), the pool never exceeds 64 MB nor five frames per label and target,
  and no operation dereferences a frame that is not there.
\<close>

theorem retainer_reachable_ok:
  assumes "retainer_reach r"
  shows "unat (rt_totalSizeByByte r) = (\<Sum>(k, l, t, w) \<leftarrow> entries (rt_pool r). unat (GetSize (rw_buffer w))) \<and>
    unat (rt_totalRetainFrames r) = length (entries (rt_pool r)) \<and>
    rt_totalSizeByByte r \<le> 67108864 \<and>
    length (pool_frames (rt_pool r) l t) \<le> 5 \<and>
    FetchFramesForSpecificCommunicator l r \<noteq> Fault \<and>
    (rt_incRetainOrder r \<noteq> - 1 \<longrightarrow> (\<forall>b. fm_buffer f = Some b \<longrightarrow> sb_ok b) \<longrightarrow> RetainFrame mem f r \<noteq> Fault)"
  using retainer_reachable_ok_laws[OF assms] by blast

lemma retainer_refines_log_laws:
  assumes r: "retainer_reach r"
  shows "rt_incRetainOrder r \<noteq> - 1 \<Longrightarrow> fm_buffer f = Some b \<Longrightarrow> sb_ok b \<Longrightarrow>
         GetSize b \<le> MAX_RETAIN_FRAME_SIZE \<Longrightarrow> mem (NewBytes (totalLen b)) \<Longrightarrow>
         \<exists>r' b'. RetainFrame mem f r = Ok r' \<and> GetSize b' = GetSize b \<and> content b' = content b \<and>
           frame_log (rt_pool r') =
             trim (unat MAX_RETAIN_CAPACITY)
               (evict (fm_commLabel f) (fm_srcTarget f) (frame_log (rt_pool r)) @
                [(rt_incRetainOrder r, fm_commLabel f, fm_srcTarget f, retain_work b' f)])"
    and "frame_log (rt_pool (Retainer_PeriodicalSurveillance r)) =
           map (\<lambda>(k, l, t, w). (k, l, t, w\<lparr>rw_checkTime := 1\<rparr>))
             (filter (\<lambda>(k, l, t, w). rw_checkTime w = 2) (frame_log (rt_pool r)))"
proof -
  have ok: "retainer_ok r" using r by (rule reach_ok)
  show "\<exists>r' b'. RetainFrame mem f r = Ok r' \<and> GetSize b' = GetSize b \<and> content b' = content b \<and>
           frame_log (rt_pool r') =
             trim (unat MAX_RETAIN_CAPACITY)
               (evict (fm_commLabel f) (fm_srcTarget f) (frame_log (rt_pool r)) @
                [(rt_incRetainOrder r, fm_commLabel f, fm_srcTarget f, retain_work b' f)])"
    if "rt_incRetainOrder r \<noteq> - 1" "fm_buffer f = Some b" "sb_ok b"
       "GetSize b \<le> MAX_RETAIN_FRAME_SIZE" "mem (NewBytes (totalLen b))"
    using RetainFrame_cases(3)[OF ok that(1-3), of mem] that unfolding retain_def by blast
  let ?L = "frame_log (rt_pool r)"
  have e: "expired_entry (k, l, t, w) \<longleftrightarrow> rw_checkTime w \<noteq> 2" "rw_checkTime w = 2 \<Longrightarrow> dec_time w = w\<lparr>rw_checkTime := 1\<rparr>"
    if "(k, l, t, w) \<in> set ?L" for k l t w
  proof -
    have "work_fits w" using ok that by (auto simp: retainer_ok_def)
    then show "expired_entry (k, l, t, w) \<longleftrightarrow> rw_checkTime w \<noteq> 2"
      using dec_time_fits(2)[of w] by (auto simp: expired_entry_def expired_def dec_time_def)
  qed (simp add: dec_time_def)
  have "filter (\<lambda>e. \<not> expired_entry e) ?L = filter (\<lambda>(k, l, t, w). rw_checkTime w = 2) ?L"
    by (rule filter_cong) (auto simp: e)
  then show "frame_log (rt_pool (Retainer_PeriodicalSurveillance r)) =
           map (\<lambda>(k, l, t, w). (k, l, t, w\<lparr>rw_checkTime := 1\<rparr>)) (filter (\<lambda>(k, l, t, w). rw_checkTime w = 2) ?L)"
    unfolding Surveillance_ages(2)[OF ok] by (auto simp: aged_def e)
qed

text \<open>
  C11: Refinement.  The pool of nested maps behaves as one log of frames in the order of retention.
  Retaining a frame of at most 32 MB drops the oldest frame of the same label and target if there
  are five, appends the new frame, and drops the oldest frames of all until the log is within the
  capacity; a timer tick drops the frames in their second period and ages the others.
\<close>

theorem retainer_refines_log:
  assumes "retainer_reach r"
  shows "(rt_incRetainOrder r \<noteq> - 1 \<longrightarrow> fm_buffer f = Some b \<longrightarrow> sb_ok b \<longrightarrow>
       GetSize b \<le> MAX_RETAIN_FRAME_SIZE \<longrightarrow> mem (NewBytes (totalLen b)) \<longrightarrow>
       (\<exists>r' b'. RetainFrame mem f r = Ok r' \<and> GetSize b' = GetSize b \<and> content b' = content b \<and>
          frame_log (rt_pool r') =
            trim (unat MAX_RETAIN_CAPACITY)
              (evict (fm_commLabel f) (fm_srcTarget f) (frame_log (rt_pool r)) @
               [(rt_incRetainOrder r, fm_commLabel f, fm_srcTarget f, retain_work b' f)]))) \<and>
    frame_log (rt_pool (Retainer_PeriodicalSurveillance r)) =
      map (\<lambda>(k, l, t, w). (k, l, t, w\<lparr>rw_checkTime := 1\<rparr>))
        (filter (\<lambda>(k, l, t, w). rw_checkTime w = 2) (frame_log (rt_pool r)))"
  using retainer_refines_log_laws[OF assms] by blast

section \<open>The contract with the aggregator\<close>

text \<open>
  What the aggregator relies on when it activates a communicator: taking the frames of a label
  yields exactly the recorded ones, in order, and leaves those of the other labels.
\<close>

locale retention =
  fixes ok :: "'s \<Rightarrow> bool"
    and log :: "'s \<Rightarrow> 'e list"
    and of_key :: "'l \<Rightarrow> 'e \<Rightarrow> bool"
    and out :: "'e \<Rightarrow> 'o"
    and take_key :: "'l \<Rightarrow> 's \<Rightarrow> ('o list \<times> 's) res"
  assumes take_law: "ok s \<Longrightarrow> \<exists>s'. take_key l s = Ok (map out (filter (of_key l) (log s)), s') \<and> ok s' \<and>
      log s' = filter (\<lambda>e. \<not> of_key l e) (log s)"
    and key_unique: "of_key l e \<Longrightarrow> of_key l' e \<Longrightarrow> l = l'"
begin

lemma taken_once:
  assumes "ok s" "take_key l s = Ok (xs, s')"
  shows "\<exists>s''. take_key l s' = Ok ([], s'')"
  using take_law[OF assms(1), of l] take_law[of s' l] assms(2) by auto

lemma others_kept:
  assumes "ok s" "take_key l s = Ok (xs, s')" "l' \<noteq> l"
  shows "\<exists>ys s1 s2. take_key l' s = Ok (ys, s1) \<and> take_key l' s' = Ok (ys, s2)"
proof -
  have "filter (of_key l') (filter (\<lambda>e. \<not> of_key l e) (log s)) = filter (of_key l') (log s)"
    using key_unique assms(3) by (auto simp: filter_filter intro!: filter_cong)
  then show ?thesis using take_law[OF assms(1), of l] take_law[OF assms(1), of l'] take_law[of s' l'] assms(2) by auto
qed

end

interpretation retainer: retention retainer_ok "\<lambda>r. frame_log (rt_pool r)" of_label
    "\<lambda>(k, l, t, w). frame_of l t w" FetchFramesForSpecificCommunicator
  using Fetch_fetches by unfold_locales (auto simp: of_label_def)

text \<open>
  A communicator that is activated receives the frames retained for its label, of all targets,
  in the order in which they were retained; it receives them once, and what is retained for other
  labels is not affected.
\<close>

theorem fetched_in_order_once:
  assumes "retainer_reach r"
  shows "\<exists>frames r'. FetchFramesForSpecificCommunicator l r = Ok (map (\<lambda>(k, t, w). frame_of l t w) frames, r') \<and>
           sorted_wrt (<) (map fst frames) \<and>
           (\<forall>k t w. (k, t, w) \<in> set frames \<longleftrightarrow> om_find (pool_frames (rt_pool r) l t) k = Some w) \<and>
           (\<exists>r''. FetchFramesForSpecificCommunicator l r' = Ok ([], r'')) \<and>
           (\<forall>l' t. l' \<noteq> l \<longrightarrow> pool_frames (rt_pool r') l' t = pool_frames (rt_pool r) l' t)"
proof -
  have ok: "retainer_ok r" using assms by (rule reach_ok)
  then have p: "pool_ok (rt_pool r)" "unique_orders (rt_pool r)" by (simp_all add: retainer_ok_def counted_def)
  let ?L = "filter (of_label l) (frame_log (rt_pool r))"
  let ?F = "map (\<lambda>(k, l, t, w). (k, t, w)) ?L"
  obtain r' where r': "FetchFramesForSpecificCommunicator l r = Ok (map (\<lambda>(k, l, t, w). frame_of l t w) ?L, r')"
      "retainer_ok r'" "frame_log (rt_pool r') = filter (\<lambda>e. \<not> of_label l e) (frame_log (rt_pool r))"
    using Fetch_fetches[OF ok, of l] by blast
  have p': "pool_ok (rt_pool r')" "unique_orders (rt_pool r')"
    using r' by (simp_all add: retainer_ok_def counted_def)
  have out: "map (\<lambda>(k, l, t, w). frame_of l t w) ?L = map (\<lambda>(k, t, w). frame_of l t w) ?F"
    by (auto simp: of_label_def)
  have sorted: "sorted_wrt (<) (map fst ?F)"
    using om_ok_filter[OF frame_log_ok, of "of_label l" "rt_pool r"]
    by (simp add: om_ok_def case_prod_unfold comp_def)
  have mem: "(k, t, w) \<in> set ?F \<longleftrightarrow> om_find (pool_frames (rt_pool r) l t) k = Some w" for k t w
  proof -
    have "(k, t, w) \<in> set ?F \<longleftrightarrow> (k, l, t, w) \<in> set (frame_log (rt_pool r))"
      by (force simp: of_label_def)
    then show ?thesis
      using frame_log_find[OF p, of k l t w] om_find_iff_mem[OF frame_log_ok, of "rt_pool r" k "(l, t, w)"]
      by (simp add: entry_def)
  qed
  have keep: "pool_frames (rt_pool r') l' t = pool_frames (rt_pool r) l' t" if "l' \<noteq> l" for l' t
  proof (rule om_ext)
    fix k
    have "om_find (pool_frames (rt_pool r') l' t) k = Some w \<longleftrightarrow> om_find (pool_frames (rt_pool r) l' t) k = Some w" for w
      using frame_log_find[OF p, of k l' t w] frame_log_find[OF p', of k l' t w] that
      by (simp add: r' om_find_filter_Some of_label_def entry_def)
    then show "om_find (pool_frames (rt_pool r') l' t) k = om_find (pool_frames (rt_pool r) l' t) k"
      by (metis option.exhaust)
  qed (simp_all add: pool_frames_ok p p')
  show ?thesis
    using r'(1) out sorted mem keep retainer.taken_once[OF ok r'(1)]
    by - (rule exI[of _ ?F], rule exI[of _ r'], simp)
qed

text \<open>
  C13: Frames nobody fetches do not stay: two ticks of the timer after the last arrival the pool is
  empty and its statistics are zero.
\<close>

theorem retained_frames_expire:
  assumes "retainer_reach r"
  defines "r' \<equiv> Retainer_PeriodicalSurveillance (Retainer_PeriodicalSurveillance r)"
  shows "rt_pool r' = [] \<and> rt_totalSizeByByte r' = 0 \<and> rt_totalRetainFrames r' = 0"
proof -
  have ok: "retainer_ok r" using assms(1) by (rule reach_ok)
  note ok1 = Surveillance_ages(1)[OF ok]
  have ok': "retainer_ok r'" using Surveillance_ages(1)[OF ok1] by (simp add: r'_def)
  have "expired_entry (aged e)" if "e \<in> set (frame_log (rt_pool r))" "\<not> expired_entry e" for e
  proof -
    obtain k l t w where e: "e = (k, l, t, w)" by (cases e)
    have "rw_checkTime w = 2" using dec_time_fits(2)[of w] ok that by (auto simp: e retainer_ok_def expired_entry_def)
    then show ?thesis by (simp add: e aged_def expired_entry_def expired_def dec_time_def)
  qed
  then have "frame_log (rt_pool r') = []"
    unfolding r'_def Surveillance_ages(2)[OF ok1] Surveillance_ages(2)[OF ok]
    by (auto simp: filter_empty_conv)
  then show ?thesis using ok' no_empty_nodes_log[of "rt_pool r'"]
    by (simp add: retainer_ok_def counted_def bytes_of_def unat_eq_0)
qed

section \<open>Concrete instances\<close>

definition sample_buffer :: serial_buffer where
  "sample_buffer = new_SerialBuffer\<lparr>oringinalBytes := Some [1, 2, 3, 4, 5, 6, 7, 8], bytesOff := Some 0,
                                   totalLen := 8, headerLen := 8\<rparr>"

definition sample_frame :: FrameInfo where
  "sample_frame = \<lparr>fm_buffer = Some sample_buffer, fm_srcTarget = ''dev'', fm_sendUser = [], fm_commLabel = [7],
                  fm_frameId = 3, fm_remoteDbVersion = 0\<rparr>"

definition sample_retainer :: frame_retainer where
  "sample_retainer =
     \<lparr>rt_isTimerWork = False, rt_totalSizeByByte = 8, rt_totalRetainFrames = 1, rt_incRetainOrder = 1,
      rt_pool = [([7], [(''dev'', [(0, retain_work sample_buffer sample_frame)])])]\<rparr>"

lemma sample_buffer_ok: "sb_ok sample_buffer" "GetSize sample_buffer = 8" "totalLen sample_buffer = 8"
  by (simp_all add: sample_buffer_def new_SerialBuffer_def sb_ok_def sb_lens_ok_def sb_owned_def GetSize_def
      MAX_TOTAL_LEN_def)

lemma sample_retain: "RetainFrame never_oom sample_frame new_FrameRetainer = Ok sample_retainer"
  by code_simp

lemma sample_retainer_reach: "retainer_reach sample_retainer"
  by (rule retained[OF created _ _ sample_retain])
     (simp_all add: new_FrameRetainer_def sample_frame_def sample_buffer_ok)

theorem retainer_reachable_ok_witness:
  "retainer_reach sample_retainer \<and> unat (rt_totalSizeByByte sample_retainer) = 8 \<and>
   RetainFrame never_oom sample_frame sample_retainer \<noteq> Fault"
  using retainer_reachable_ok[OF sample_retainer_reach, of "[]" "[]" sample_frame never_oom] sample_retainer_reach
  by (simp add: sample_retainer_def sample_frame_def sample_buffer_ok entries_def retain_work_def)

lemma sample_fields:
  "fm_buffer sample_frame = Some sample_buffer" "fm_commLabel sample_frame = [7]" "fm_srcTarget sample_frame = ''dev''"
  "rt_incRetainOrder sample_retainer = 1"
  by (simp_all add: sample_frame_def sample_retainer_def)

theorem retainer_refines_log_witness:
  "retainer_reach sample_retainer \<and>
   (\<exists>r' b'. RetainFrame never_oom sample_frame sample_retainer = Ok r' \<and> content b' = content sample_buffer \<and>
      map fst (frame_log (rt_pool r')) = [0, 1])"
proof -
  let ?w = "retain_work sample_buffer sample_frame"
  have "frame_log (rt_pool sample_retainer) = [(0, [7], ''dev'', ?w)]"
    by (simp add: sample_retainer_def frame_log_def entries_def)
  then have l: "evict [7] ''dev'' (frame_log (rt_pool sample_retainer)) = [(0, [7], ''dev'', ?w)]"
    by (simp add: evict_def of_target_def MAX_RETAIN_FRAME_PER_LABEL_PER_TARGET_def)
  have "\<exists>r' b'. RetainFrame never_oom sample_frame sample_retainer = Ok r' \<and> GetSize b' = GetSize sample_buffer \<and>
      content b' = content sample_buffer \<and> frame_log (rt_pool r') = trim (unat MAX_RETAIN_CAPACITY)
        (evict [7] ''dev'' (frame_log (rt_pool sample_retainer)) @ [(1, [7], ''dev'', retain_work b' sample_frame)])"
    using retainer_refines_log[OF sample_retainer_reach, of sample_frame sample_buffer never_oom]
    by (simp add: sample_fields sample_buffer_ok MAX_RETAIN_FRAME_SIZE_def)
  then show ?thesis using sample_retainer_reach
    by (auto simp: l bytes_of_def retain_work_def sample_buffer_ok MAX_RETAIN_CAPACITY_def)
qed

theorem fetched_in_order_once_witness:
  "retainer_reach sample_retainer \<and>
   (\<exists>frames r'. FetchFramesForSpecificCommunicator [7] sample_retainer =
        Ok (map (\<lambda>(k, t, w). frame_of [7] t w) frames, r') \<and>
      (0 :: u64, ''dev'', retain_work sample_buffer sample_frame) \<in> set frames)"
proof -
  have "om_find (pool_frames (rt_pool sample_retainer) [7] ''dev'') 0 = Some (retain_work sample_buffer sample_frame)"
    by (simp add: sample_retainer_def pool_frames_def om_get_def om_find_Cons)
  moreover obtain frames r' where
    "FetchFramesForSpecificCommunicator [7] sample_retainer = Ok (map (\<lambda>(k, t, w). frame_of [7] t w) frames, r')"
    "\<forall>k t w. (k, t, w) \<in> set frames \<longleftrightarrow> om_find (pool_frames (rt_pool sample_retainer) [7] t) k = Some w"
    using fetched_in_order_once[OF sample_retainer_reach, of "[7]"] by blast
  ultimately show ?thesis using sample_retainer_reach by blast
qed

theorem retained_frames_expire_witness:
  "retainer_reach sample_retainer \<and> rt_pool sample_retainer \<noteq> [] \<and>
   rt_pool (Retainer_PeriodicalSurveillance (Retainer_PeriodicalSurveillance sample_retainer)) = []"
  using retained_frames_expire[OF sample_retainer_reach] sample_retainer_reach by (simp add: sample_retainer_def)

end
