(* ===== verification/Frame_Combiner.thy ===== *)
theory Frame_Combiner
  imports Protocol_Fragment
begin

text \<open>
  \<^verbatim>\<open>CombineStatus\<close> (\<^verbatim>\<open>communicator/src/combine_status.cpp\<close>) and \<^verbatim>\<open>FrameCombiner\<close>
  (\<^verbatim>\<open>communicator/src/frame_combiner.cpp\<close>): the receiver collects the packets of a split frame in a
  combine work per source and frame id, in whatever order they arrive, and hands the frame out
  when the last one is in.  Every method runs under \<^verbatim>\<open>overallMutex_\<close>, so the operations are
  atomic steps on the state \<open>frame_combiner\<close>.
\<close>

section \<open>CombineStatus\<close>

record combine_status =
  progressId :: u64
  hasProgressFlag :: bool
  fragmentLen :: u32
  lastFragmentLen :: u32
  fragmentCount :: u16
  combinedFragmentNo :: "u16 list"

definition new_CombineStatus :: combine_status where
  "new_CombineStatus =
     \<lparr>progressId = 0, hasProgressFlag = True, fragmentLen = 0, lastFragmentLen = 0, fragmentCount = 0,
      combinedFragmentNo = []\<rparr>"

definition UpdateProgressId :: "u64 \<Rightarrow> combine_status \<Rightarrow> combine_status" where
  "UpdateProgressId inProgressId st = st\<lparr>progressId := inProgressId, hasProgressFlag := True\<rparr>"

definition CheckProgress :: "combine_status \<Rightarrow> bool \<times> combine_status" where
  "CheckProgress st = (hasProgressFlag st, st\<lparr>hasProgressFlag := False\<rparr>)"

definition GetThisFragmentLength :: "combine_status \<Rightarrow> u16 \<Rightarrow> u32" where
  "GetThisFragmentLength st inFragNo =
     (if inFragNo \<noteq> fragmentCount st - 1 then fragmentLen st else lastFragmentLen st)"

definition GetThisFragmentOffset :: "combine_status \<Rightarrow> u16 \<Rightarrow> u32" where
  "GetThisFragmentOffset st inFragNo = fragmentLen st * ucast inFragNo"

definition IsFragNoAlreadyExist :: "combine_status \<Rightarrow> u16 \<Rightarrow> bool" where
  "IsFragNoAlreadyExist st inFragNo \<longleftrightarrow> inFragNo \<in> set (combinedFragmentNo st)"

definition CheckInFragmentNo :: "u16 \<Rightarrow> combine_status \<Rightarrow> combine_status" where
  "CheckInFragmentNo inFragNo st =
     (if inFragNo \<ge> fragmentCount st then st
      else st\<lparr>combinedFragmentNo := insort_insert inFragNo (combinedFragmentNo st)\<rparr>)"

definition IsCombineDone :: "combine_status \<Rightarrow> bool" where
  "IsCombineDone st \<longleftrightarrow> length (combinedFragmentNo st) \<ge> unat (fragmentCount st)"

section \<open>FrameCombiner\<close>

record combine_work =
  cw_buffer :: "serial_buffer option"
  cw_status :: combine_status
  cw_frameInfo :: parse_result

type_synonym works = "(u32, combine_work) omap"

record frame_combiner =
  isTimerWork :: bool
  incProgressId :: u64
  totalSizeByByte :: u64
  combineWorkPool :: "(u64, works) omap"

definition new_FrameCombiner :: frame_combiner where
  "new_FrameCombiner = \<lparr>isTimerWork = False, incProgressId = 0, totalSizeByByte = 0, combineWorkPool = []\<rparr>"

definition MAX_WORK_PER_SRC_TARGET :: nat where "MAX_WORK_PER_SRC_TARGET = 1"

text \<open>The works of a source; a source that is not in the pool has none.\<close>

definition works_of :: "u64 \<Rightarrow> frame_combiner \<Rightarrow> works" where
  "works_of src s = om_get [] (combineWorkPool s) src"

definition set_works :: "u64 \<Rightarrow> works \<Rightarrow> frame_combiner \<Rightarrow> frame_combiner" where
  "set_works src ws s = s\<lparr>combineWorkPool := om_insert src ws (combineWorkPool s)\<rparr>"

text \<open>\<^verbatim>\<open>Initialize\<close>: \<open>timerSet\<close> tells whether the runtime accepted the timer.\<close>

definition Combiner_Initialize :: "bool \<Rightarrow> frame_combiner \<Rightarrow> frame_combiner" where
  "Combiner_Initialize timerSet s = (if \<not> timerSet then s else s\<lparr>isTimerWork := True\<rparr>)"

text \<open>\<^verbatim>\<open>Finalize\<close> releases every buffer and leaves the entries of the pool behind.\<close>

definition Combiner_Finalize :: "frame_combiner \<Rightarrow> frame_combiner" where
  "Combiner_Finalize s =
     s\<lparr>combineWorkPool :=
        map (\<lambda>(src, ws). (src, map (\<lambda>(fid, w). (fid, w\<lparr>cw_buffer := None\<rparr>)) ws)) (combineWorkPool s)\<rparr>"

definition CheckPacketWithOriWork :: "parse_result \<Rightarrow> combine_work \<Rightarrow> bool" where
  "CheckPacketWithOriWork info w \<longleftrightarrow>
     pr_frameLen info = pr_frameLen (cw_frameInfo w) \<and> pr_fragCount info = pr_fragCount (cw_frameInfo w) \<and>
     \<not> pr_fragNo info \<ge> pr_fragCount info \<and> \<not> IsFragNoAlreadyExist (cw_status w) (pr_fragNo info)"

definition CreateNewFrameBuffer :: "allocator \<Rightarrow> parse_result \<Rightarrow> serial_buffer option" where
  "CreateNewFrameBuffer mem info =
     (if \<not> mem NewSerialBuffer then None
      else let frameHeaderLength = (if pr_frameType info \<noteq> APPLICATION_MESSAGE
                                    then GetCommLayerFrameHeaderLength else GetAppLayerFrameHeaderLength)
           in case AllocBufferByTotalLength mem (pr_frameLen info) frameHeaderLength new_SerialBuffer of
                (errCode, b) \<Rightarrow> if errCode \<noteq> E_OK then None else Some b)"

definition combine_into :: "combine_work \<Rightarrow> byte list \<Rightarrow> u32 \<Rightarrow> u16 \<Rightarrow> serial_buffer res" where
  "combine_into w bytes len fragNo =
     (case cw_buffer w of
        None \<Rightarrow> Fault
      | Some b \<Rightarrow> CombinePacketIntoFrame b bytes len (GetThisFragmentOffset (cw_status w) fragNo)
                    (GetThisFragmentLength (cw_status w) fragNo))"

text \<open>The progress made when a fragment is in: a new progress id and the fragment's number.\<close>

definition check_in :: "u64 \<Rightarrow> u16 \<Rightarrow> serial_buffer \<Rightarrow> combine_work \<Rightarrow> combine_work" where
  "check_in pid fragNo b w =
     w\<lparr>cw_buffer := Some b, cw_status := CheckInFragmentNo fragNo (UpdateProgressId pid (cw_status w))\<rparr>"

definition ContinueExistCombineWork ::
    "byte list \<Rightarrow> u32 \<Rightarrow> parse_result \<Rightarrow> combine_work \<Rightarrow> frame_combiner \<Rightarrow> (errcode \<times> frame_combiner) res" where
  "ContinueExistCombineWork bytes len info oriWork s =
     (if \<not> CheckPacketWithOriWork info oriWork then Ok (E_COMBINE_FAIL, s)
      else case combine_into oriWork bytes len (pr_fragNo info) of
             Fault \<Rightarrow> Fault
           | Err _ \<Rightarrow> Ok (E_COMBINE_FAIL, s)
           | Ok b \<Rightarrow>
               let w = check_in (incProgressId s) (pr_fragNo info) b oriWork;
                   src = pr_sourceId info
               in Ok (E_OK, set_works src (om_insert (pr_frameId info) w (works_of src s))
                        (s\<lparr>incProgressId := incProgressId s + 1\<rparr>)))"

definition CreateNewCombineWork ::
    "allocator \<Rightarrow> byte list \<Rightarrow> u32 \<Rightarrow> parse_result \<Rightarrow> frame_combiner \<Rightarrow> (errcode \<times> frame_combiner) res" where
  "CreateNewCombineWork mem bytes len info s =
     (case AnalyzeSplitStructure info of
        Fault \<Rightarrow> Fault
      | Err e \<Rightarrow> Ok (e, s)
      | Ok (fragLen, lastFragLen) \<Rightarrow>
          (case CreateNewFrameBuffer mem info of
             None \<Rightarrow> Ok (E_OUT_OF_MEMORY, s)
           | Some buffer \<Rightarrow>
               let work = \<lparr>cw_buffer = Some buffer,
                           cw_status = new_CombineStatus\<lparr>fragmentLen := fragLen, lastFragmentLen := lastFragLen,
                                         fragmentCount := pr_fragCount info\<rparr>,
                           cw_frameInfo = new_ParseResult\<lparr>pr_packetLen := pr_frameLen info,
                                            pr_sourceId := pr_sourceId info, pr_frameId := pr_frameId info,
                                            pr_frameType := pr_frameType info, pr_frameLen := pr_frameLen info,
                                            pr_fragCount := pr_fragCount info\<rparr>\<rparr>
               in case combine_into work bytes len (pr_fragNo info) of
                    Fault \<Rightarrow> Fault
                  | Err e \<Rightarrow> Ok (e, s)
                  | Ok b \<Rightarrow>
                      let w = check_in (incProgressId s) (pr_fragNo info) b work;
                          src = pr_sourceId info
                      in Ok (E_OK, set_works src (om_insert (pr_frameId info) w (works_of src s))
                               (s\<lparr>totalSizeByByte := totalSizeByByte s + ucast (GetSize b),
                                  incProgressId := incProgressId s + 1\<rparr>))))"

text \<open>The scan for the work with the lowest progress id.\<close>

fun lowest_work :: "works \<Rightarrow> u32 \<Rightarrow> u64 \<Rightarrow> u32" where
  "lowest_work [] toBeAbortFrameId toBeAbortProgressId = toBeAbortFrameId"
| "lowest_work ((fid, w) # ws) toBeAbortFrameId toBeAbortProgressId =
     (if progressId (cw_status w) < toBeAbortProgressId
      then lowest_work ws fid (progressId (cw_status w))
      else lowest_work ws toBeAbortFrameId toBeAbortProgressId)"

definition AbortCombineWorkBySource :: "u64 \<Rightarrow> frame_combiner \<Rightarrow> frame_combiner" where
  "AbortCombineWorkBySource src s =
     (if works_of src s = [] then s
      else set_works src (om_erase (lowest_work (works_of src s) 0 (- 1)) (works_of src s)) s)"

text \<open>
  \<^verbatim>\<open>AssembleFrameFragment\<close>: the error code, the frame with its information when it is complete, and
  the new state.  Looking the source up creates its entry in the pool.
\<close>

definition AssembleFrameFragment ::
    "allocator \<Rightarrow> byte list \<Rightarrow> u32 \<Rightarrow> parse_result \<Rightarrow> frame_combiner \<Rightarrow>
     (errcode \<times> (serial_buffer option \<times> parse_result) option \<times> frame_combiner) res" where
  "AssembleFrameFragment mem bytes len info s0 =
     (let src = pr_sourceId info; fid = pr_frameId info;
          s = set_works src (works_of src s0) s0
      in case om_find (works_of src s) fid of
           Some oriWork \<Rightarrow>
             res_bind (ContinueExistCombineWork bytes len info oriWork s) (\<lambda>(errCode, s1).
               if errCode \<noteq> E_OK then Ok (errCode, None, s1)
               else case om_find (works_of src s1) fid of
                      None \<Rightarrow> Fault
                    | Some w \<Rightarrow>
                        if IsCombineDone (cw_status w)
                        then Ok (E_OK, Some (cw_buffer w, cw_frameInfo w),
                                 set_works src (om_erase fid (works_of src s1)) s1)
                        else Ok (E_OK, None, s1))
         | None \<Rightarrow>
             res_bind (CreateNewCombineWork mem bytes len info s) (\<lambda>(errCode, s1).
               if errCode \<noteq> E_OK then Ok (errCode, None, s1)
               else if length (works_of src s1) > MAX_WORK_PER_SRC_TARGET
               then Ok (E_OK, None, AbortCombineWorkBySource src s1)
               else Ok (E_OK, None, s1)))"

text \<open>\<^verbatim>\<open>PeriodicalSurveillance\<close>: abort the works that made no progress since the last time.\<close>

definition surveil :: "works \<Rightarrow> works" where
  "surveil ws =
     fold om_erase (map fst (filter (\<lambda>(fid, w). \<not> fst (CheckProgress (cw_status w))) ws))
       (map (\<lambda>(fid, w). (fid, w\<lparr>cw_status := snd (CheckProgress (cw_status w))\<rparr>)) ws)"

definition PeriodicalSurveillance :: "frame_combiner \<Rightarrow> frame_combiner" where
  "PeriodicalSurveillance s =
     s\<lparr>combineWorkPool := map (\<lambda>(src, ws). (src, surveil ws)) (combineWorkPool s)\<rparr>"

section \<open>Writing a fragment into the frame\<close>

lemma CombinePacketIntoFrame_cases:
  assumes b: "sb_ok b" "sb_owned b" "paddingLen b = 0" and len: "unat len \<le> length bytes"
  shows "(if 40 + unat fl \<le> unat len \<and> 32 + unat off + unat fl \<le> unat (totalLen b)
     then \<exists>b'. CombinePacketIntoFrame b bytes len off fl = Ok b' \<and>
            content b' = overwrite (content b) (32 + unat off) (take (unat fl) (drop 40 bytes)) \<and>
            sb_ok b' \<and> sb_owned b' \<and> same_shape b b'
     else CombinePacketIntoFrame b bytes len off fl = Err E_LENGTH_ERROR)"
proof (cases "40 + unat fl \<le> unat len \<and> 32 + unat off + unat fl \<le> unat (totalLen b)")
  case True
  have lt: "unat (totalLen b) \<le> 104857600" using b(1) by (auto simp: sb_ok_def sb_lens_ok_def u32_le)
  have rd: "read_at bytes 40 (unat fl) = Ok (take (unat fl) (drop 40 bytes))"
    using True len by (simp add: read_at_def)
  have tl: "length (take (unat fl) (drop 40 bytes)) = unat fl" using True len by (auto simp: min_def)
  have "\<exists>b'. sb_memcpy b (unat (extendHeadLen b) + (32 + unat off)) (unat (totalLen b) - 32 - unat off)
      (take (unat fl) (drop 40 bytes)) = Ok b' \<and>
      content b' = overwrite (content b) (32 + unat off) (take (unat fl) (drop 40 bytes)) \<and>
      sb_ok b' \<and> sb_owned b' \<and> same_shape b b'"
    by (rule sb_memcpy_content[OF b(1,2)]) (use True tl in auto)
  then obtain b' where "sb_memcpy b (unat (extendHeadLen b) + 32 + unat off) (unat (totalLen b) - 32 - unat off)
      (take (unat fl) (drop 40 bytes)) = Ok b'"
      "content b' = overwrite (content b) (32 + unat off) (take (unat fl) (drop 40 bytes))"
      "sb_ok b'" "sb_owned b'" "same_shape b b'" by (auto simp: add.assoc)
  moreover from this have "CombinePacketIntoFrame b bytes len off fl = Ok b'"
    using True lt rd by (simp add: CombinePacketIntoFrame_def sizeofs sb_header_ptr[OF b(2)] b(3))
  ultimately show ?thesis using True by simp
next
  case False
  then show ?thesis
    by (auto simp: CombinePacketIntoFrame_def sizeofs sb_header_ptr[OF b(2)] b(3) guard_err_def)
qed

section \<open>The invariant of a combine work\<close>

text \<open>The length that is split and the number of fragments, as the work records them.\<close>

definition cw_S :: "combine_work \<Rightarrow> nat" where
  "cw_S w = unat (pr_frameLen (cw_frameInfo w)) - 32"

definition cw_n :: "combine_work \<Rightarrow> nat" where
  "cw_n w = unat (pr_fragCount (cw_frameInfo w))"

definition buffer_ok :: "combine_work \<Rightarrow> bool" where
  "buffer_ok w \<longleftrightarrow>
     (case cw_buffer w of
        None \<Rightarrow> False
      | Some b \<Rightarrow> sb_ok b \<and> sb_owned b \<and> extendHeadLen b = 0 \<and> paddingLen b = 0 \<and>
          totalLen b = pr_frameLen (cw_frameInfo w) \<and>
          headerLen b = (if pr_frameType (cw_frameInfo w) \<noteq> APPLICATION_MESSAGE then 32 else 72) \<and>
          take 32 (content b) = replicate 32 0)"

definition status_ok :: "combine_work \<Rightarrow> bool" where
  "status_ok w \<longleftrightarrow>
     32 < unat (pr_frameLen (cw_frameInfo w)) \<and> cw_S w \<le> 104857600 \<and> 2 \<le> cw_n w \<and> cw_n w \<le> cw_S w \<and>
     fragmentCount (cw_status w) = pr_fragCount (cw_frameInfo w) \<and>
     unat (fragmentLen (cw_status w)) = cw_S w div cw_n w \<and>
     unat (lastFragmentLen (cw_status w)) = cw_S w div cw_n w + cw_S w mod cw_n w \<and>
     sorted (combinedFragmentNo (cw_status w)) \<and> distinct (combinedFragmentNo (cw_status w)) \<and>
     (\<forall>i \<in> set (combinedFragmentNo (cw_status w)). unat i < cw_n w)"

definition work_ok :: "u64 \<Rightarrow> u32 \<Rightarrow> combine_work \<Rightarrow> bool" where
  "work_ok src fid w \<longleftrightarrow>
     buffer_ok w \<and> status_ok w \<and> pr_sourceId (cw_frameInfo w) = src \<and> pr_frameId (cw_frameInfo w) = fid \<and>
     \<not> pr_isFragment (cw_frameInfo w)"

text \<open>In the pool: the work is not complete, or it would have been handed out.\<close>

definition pending :: "combine_work \<Rightarrow> bool" where
  "pending w \<longleftrightarrow> combinedFragmentNo (cw_status w) \<noteq> [] \<and> length (combinedFragmentNo (cw_status w)) < cw_n w"

lemma frag_numbers:
  assumes "status_ok w" "unat i < cw_n w"
  shows "unat (GetThisFragmentLength (cw_status w) i) = frag_len (cw_S w) (cw_n w) (unat i)"
    and "unat (GetThisFragmentOffset (cw_status w) i) = unat i * (cw_S w div cw_n w)"
proof -
  have n: "unat (fragmentCount (cw_status w)) = cw_n w" "2 \<le> cw_n w"
    using assms(1) by (auto simp: status_ok_def cw_n_def)
  have "i \<noteq> fragmentCount (cw_status w) - 1 \<longleftrightarrow> unat i \<noteq> cw_n w - 1"
    using n by (subst word_unat_eq_iff) (simp add: unat_sub word_le_nat_alt)
  then show "unat (GetThisFragmentLength (cw_status w) i) = frag_len (cw_S w) (cw_n w) (unat i)"
    using assms(1) by (simp add: GetThisFragmentLength_def frag_len_def status_ok_def)
  have "unat i * (cw_S w div cw_n w) + frag_len (cw_S w) (cw_n w) (unat i) \<le> cw_S w"
    by (rule frag_offset[OF assms(2)])
  then have "cw_S w div cw_n w * unat i < 2 ^ 32"
    using assms(1) by (simp add: status_ok_def mult.commute)
  then show "unat (GetThisFragmentOffset (cw_status w) i) = unat i * (cw_S w div cw_n w)"
    using assms(1) by (simp add: GetThisFragmentOffset_def unat_word_ariths unat_ucast_16_32 status_ok_def mult.commute)
qed

lemma combine_into_ok:
  assumes w: "buffer_ok w" "status_ok w" and i: "unat i < cw_n w" and len: "unat len \<le> length bytes"
  shows "(if 40 + frag_len (cw_S w) (cw_n w) (unat i) \<le> unat len
     then \<exists>b b'. cw_buffer w = Some b \<and> combine_into w bytes len i = Ok b' \<and>
       content b' = overwrite (content b) (32 + unat i * (cw_S w div cw_n w))
                      (take (frag_len (cw_S w) (cw_n w) (unat i)) (drop 40 bytes)) \<and>
       sb_ok b' \<and> sb_owned b' \<and> same_shape b b'
     else combine_into w bytes len i = Err E_LENGTH_ERROR)"
proof -
  obtain b where b: "cw_buffer w = Some b" "sb_ok b" "sb_owned b" "paddingLen b = 0"
    "totalLen b = pr_frameLen (cw_frameInfo w)"
    using w(1) by (auto simp: buffer_ok_def split: option.splits)
  have "unat (totalLen b) = 32 + cw_S w" using w(2) b(5) by (simp add: status_ok_def cw_S_def)
  moreover have "unat i * (cw_S w div cw_n w) + frag_len (cw_S w) (cw_n w) (unat i) \<le> cw_S w"
    by (rule frag_offset[OF i])
  ultimately show ?thesis
    using CombinePacketIntoFrame_cases[OF b(2-4) len, of "GetThisFragmentLength (cw_status w) i" "GetThisFragmentOffset (cw_status w) i"]
    unfolding frag_numbers[OF w(2) i] by (auto simp: combine_into_def b(1))
qed

lemma check_in_fields [simp]:
  "cw_S (check_in p i b w) = cw_S w" "cw_n (check_in p i b w) = cw_n w"
  "cw_frameInfo (check_in p i b w) = cw_frameInfo w" "cw_buffer (check_in p i b w) = Some b"
  "progressId (cw_status (check_in p i b w)) = p"
  by (auto simp: check_in_def cw_S_def cw_n_def CheckInFragmentNo_def UpdateProgressId_def)

lemma check_in_combined:
  assumes "status_ok w" "unat i < cw_n w"
  shows "combinedFragmentNo (cw_status (check_in p i b w)) = insort_insert i (combinedFragmentNo (cw_status w))"
  using assms by (simp add: check_in_def CheckInFragmentNo_def UpdateProgressId_def status_ok_def cw_n_def word_le_nat_alt)

lemma check_in_status_ok:
  assumes "status_ok w" "unat i < cw_n w"
  shows "status_ok (check_in p i b w)"
proof -
  have "cw_status (check_in p i b w) =
      (cw_status w)\<lparr>progressId := p, hasProgressFlag := True,
         combinedFragmentNo := insort_insert i (combinedFragmentNo (cw_status w))\<rparr>"
    using assms by (simp add: check_in_def CheckInFragmentNo_def UpdateProgressId_def status_ok_def cw_n_def word_le_nat_alt)
  then show ?thesis
    using assms unfolding status_ok_def
    by (auto simp: sorted_insort_insert distinct_insort_insert set_insort_insert)
qed

lemma check_in_work_ok:
  assumes w: "work_ok src fid w" and i: "unat i < cw_n w"
    and b: "cw_buffer w = Some b" "sb_ok b'" "sb_owned b'" "same_shape b b'"
      "content b' = overwrite (content b) (32 + k) x"
  shows "work_ok src fid (check_in p i b' w)"
proof -
  have t: "take 32 (content b) = replicate 32 0" using w b(1) by (simp add: work_ok_def buffer_ok_def)
  then have "32 \<le> length (content b)" by (metis length_replicate length_take min.absorb_iff2 min.commute order_refl)
  then have "take 32 (content b') = replicate 32 0" using b(5) t by (simp add: overwrite_def)
  then show ?thesis
    using assms check_in_status_ok[of w i p b'] by (simp add: work_ok_def buffer_ok_def same_shape_def)
qed

section \<open>The invariant of the pool\<close>

definition works_ok :: "u64 \<Rightarrow> u64 \<Rightarrow> works \<Rightarrow> bool" where
  "works_ok pid src ws \<longleftrightarrow>
     om_ok ws \<and> length ws \<le> MAX_WORK_PER_SRC_TARGET \<and>
     (\<forall>(fid, w) \<in> set ws. work_ok src fid w \<and> pending w \<and> progressId (cw_status w) < pid)"

definition combiner_ok :: "frame_combiner \<Rightarrow> bool" where
  "combiner_ok s \<longleftrightarrow>
     om_ok (combineWorkPool s) \<and> (\<forall>(src, ws) \<in> set (combineWorkPool s). works_ok (incProgressId s) src ws)"

lemma combiner_ok_new: "combiner_ok new_FrameCombiner"
  by (simp add: combiner_ok_def new_FrameCombiner_def)

lemma works_ok_Nil [simp]: "works_ok pid src []"
  by (simp add: works_ok_def)

lemma works_ok_of: "combiner_ok s \<Longrightarrow> works_ok (incProgressId s) src (works_of src s)"
  by (auto simp: combiner_ok_def works_of_def om_get_def dest: om_find_Some_mem split: option.splits)

lemma works_ok_mono: "works_ok p src ws \<Longrightarrow> p \<le> q \<Longrightarrow> works_ok q src ws"
  unfolding works_ok_def by force

lemma combiner_ok_set_works:
  assumes "combiner_ok s" "incProgressId s \<le> p" "works_ok p src ws"
  shows "combiner_ok (set_works src ws (s\<lparr>totalSizeByByte := t, incProgressId := p\<rparr>))"
  using assms set_om_insert_sub[of src ws "combineWorkPool s"] works_ok_mono
  by (fastforce simp: combiner_ok_def set_works_def)

lemma set_works_same: "combiner_ok s \<Longrightarrow> combiner_ok (set_works src (works_of src s) s)"
  using combiner_ok_set_works[of s "incProgressId s" src "works_of src s" "totalSizeByByte s"]
    works_ok_of[of s src] by simp

lemma works_of_set [simp]: "works_of src' (set_works src ws s) = (if src' = src then ws else works_of src' s)"
  by (simp add: works_of_def set_works_def om_get_insert)

lemma works_of_upd [simp]:
  "works_of src (s\<lparr>incProgressId := p\<rparr>) = works_of src s"
  "works_of src (s\<lparr>totalSizeByByte := t\<rparr>) = works_of src s"
  "incProgressId (set_works src ws s) = incProgressId s"
  "totalSizeByByte (set_works src ws s) = totalSizeByByte s"
  by (simp_all add: works_of_def set_works_def)

section \<open>One step of the combiner\<close>

lemma set_works_twice [simp]: "set_works src a (set_works src b s) = set_works src a s"
  by (simp add: set_works_def om_insert_twice)

lemma set_works_upd:
  "(set_works src a s)\<lparr>incProgressId := p\<rparr> = set_works src a (s\<lparr>incProgressId := p\<rparr>)"
  "(set_works src a s)\<lparr>totalSizeByByte := t\<rparr> = set_works src a (s\<lparr>totalSizeByByte := t\<rparr>)"
  by (simp_all add: set_works_def)

lemma analyze_ok:
  assumes "AnalyzeSplitStructure info = Ok (fl, ll)"
  defines "S \<equiv> unat (pr_frameLen info) - 32" and "n \<equiv> unat (pr_fragCount info)"
  shows "32 < unat (pr_frameLen info)" "2 \<le> n" "n \<le> S" "unat (pr_fragNo info) < n"
    "unat fl = S div n" "unat ll = S div n + S mod n"
    "40 + frag_len S n (unat (pr_fragNo info)) + unat (pr_paddingLen info) = unat (pr_packetLen info)"
proof -
  let ?ls = "pr_frameLen info - of_nat SIZEOF_PHY" and ?n = "ucast (pr_fragCount info) :: u32"
  from assms(1) have g: "32 < unat (pr_frameLen info)" "pr_fragCount info \<ge> MIN_FRAGMENT_COUNT" "?n \<le> ?ls"
    "pr_fragNo info < pr_fragCount info"
    and e: "fl = ?ls div ?n" "ll = ?ls div ?n + ucast (ucast (?ls mod ?n) :: u16)"
    and l: "40 + unat (if pr_fragNo info \<noteq> pr_fragCount info - 1 then fl else ll) + unat (pr_paddingLen info)
             = unat (pr_packetLen info)"
    by (auto simp: AnalyzeSplitStructure_def Let_def sizeofs not_less)
  have S: "unat ?ls = S" using g(1) by (subst unat_sub) (auto simp: u32_le sizeofs S_def)
  have n: "unat ?n = n" by (simp add: unat_ucast_16_32 n_def)
  show n2: "2 \<le> n" using g(2) by (simp add: word_le_nat_alt MIN_FRAGMENT_COUNT_def n_def)
  show "n \<le> S" using g(3) by (simp add: u32_le S n)
  show fn: "unat (pr_fragNo info) < n" using g(4) by (simp add: word_less_nat_alt n_def)
  show q: "unat fl = S div n" by (simp add: e(1) unat_div S n)
  have "unat (?ls mod ?n) = S mod n" by (simp only: unat_mod S n)
  moreover have "S mod n < 65536"
  proof -
    have "n < 65536" unfolding n_def by (rule unat_u16_lt)
    moreover have "S mod n < n" using n2 by simp
    ultimately show ?thesis by linarith
  qed
  ultimately have "unat (ucast (?ls mod ?n) :: u16) = S mod n" by (simp add: unsigned_ucast_eq take_bit_eq_mod)
  then have r: "unat (ucast (ucast (?ls mod ?n) :: u16) :: u32) = S mod n" by (simp add: unat_ucast_16_32)
  have "S div n + S mod n \<le> S" using n2 by (intro div_plus_mod_le) simp
  then have "S div n + S mod n < 2 ^ 32" unfolding S[symmetric] by (rule le_less_trans) simp
  then show ll: "unat ll = S div n + S mod n" unfolding e(2) using q[unfolded e(1)] r by (subst unat_add32) auto
  have "pr_fragNo info \<noteq> pr_fragCount info - 1 \<longleftrightarrow> unat (pr_fragNo info) \<noteq> n - 1"
    using n2 by (subst word_unat_eq_iff) (simp add: unat_sub word_le_nat_alt n_def)
  then show "40 + frag_len S n (unat (pr_fragNo info)) + unat (pr_paddingLen info) = unat (pr_packetLen info)"
    using l q ll by (auto simp: frag_len_def split: if_splits)
  show "32 < unat (pr_frameLen info)" by (rule g(1))
qed

text \<open>The work that \<^verbatim>\<open>CreateNewCombineWork\<close> sets up before the first fragment is copied.\<close>

definition fresh_work :: "parse_result \<Rightarrow> serial_buffer \<Rightarrow> u32 \<Rightarrow> u32 \<Rightarrow> combine_work" where
  "fresh_work info b fl ll =
     \<lparr>cw_buffer = Some b,
      cw_status = new_CombineStatus\<lparr>fragmentLen := fl, lastFragmentLen := ll, fragmentCount := pr_fragCount info\<rparr>,
      cw_frameInfo = new_ParseResult\<lparr>pr_packetLen := pr_frameLen info, pr_sourceId := pr_sourceId info,
        pr_frameId := pr_frameId info, pr_frameType := pr_frameType info, pr_frameLen := pr_frameLen info,
        pr_fragCount := pr_fragCount info\<rparr>\<rparr>"

lemma fresh_work_fields [simp]:
  "cw_S (fresh_work info b fl ll) = unat (pr_frameLen info) - 32"
  "cw_n (fresh_work info b fl ll) = unat (pr_fragCount info)"
  "cw_buffer (fresh_work info b fl ll) = Some b"
  "combinedFragmentNo (cw_status (fresh_work info b fl ll)) = []"
  by (simp_all add: fresh_work_def cw_S_def cw_n_def new_CombineStatus_def)

lemma CreateNewFrameBuffer_ok:
  assumes "CreateNewFrameBuffer mem info = Some b" "32 < unat (pr_frameLen info)"
  shows "sb_ok b \<and> sb_owned b \<and> extendHeadLen b = 0 \<and> paddingLen b = 0 \<and> totalLen b = pr_frameLen info \<and>
    headerLen b = (if pr_frameType info \<noteq> APPLICATION_MESSAGE then 32 else 72) \<and>
    content b = replicate (unat (pr_frameLen info)) 0"
proof -
  have "AllocBufferByTotalLength mem (pr_frameLen info) (if pr_frameType info \<noteq> APPLICATION_MESSAGE then 32 else 72)
      new_SerialBuffer = (E_OK, b)"
    using assms(1) by (auto simp: CreateNewFrameBuffer_def Let_def GetCommLayerFrameHeaderLength_def
        GetAppLayerFrameHeaderLength_def sizeofs split: if_splits prod.splits)
  from AllocBufferByTotalLength_ok[OF this] show ?thesis by simp
qed

lemma fresh_work_ok:
  assumes a: "AnalyzeSplitStructure info = Ok (fl, ll)" and b: "CreateNewFrameBuffer mem info = Some b"
  shows "work_ok (pr_sourceId info) (pr_frameId info) (fresh_work info b fl ll)"
proof -
  note an = analyze_ok[OF a] and bo = CreateNewFrameBuffer_ok[OF b analyze_ok(1)[OF a]]
  have "unat (pr_frameLen info) \<le> 104857600"
    using bo by (auto simp: sb_ok_def sb_lens_ok_def u32_le)
  then have "status_ok (fresh_work info b fl ll)"
    unfolding status_ok_def fresh_work_fields using an
    by (simp add: fresh_work_def new_CombineStatus_def)
  moreover have "buffer_ok (fresh_work info b fl ll)"
    using bo an(1) by (auto simp: buffer_ok_def fresh_work_def)
  ultimately show ?thesis by (simp add: work_ok_def fresh_work_def new_ParseResult_def)
qed

text \<open>The outcome when the frame's work is already in the pool.\<close>

lemma assemble_exist:
  assumes w: "om_find (works_of (pr_sourceId info) s) (pr_frameId info) = Some w"
      "work_ok (pr_sourceId info) (pr_frameId info) w"
    and len: "unat len \<le> length bytes"
  defines "src \<equiv> pr_sourceId info" and "fid \<equiv> pr_frameId info" and "i \<equiv> pr_fragNo info"
  shows "(if CheckPacketWithOriWork info w \<and> 40 + frag_len (cw_S w) (cw_n w) (unat i) \<le> unat len
     then \<exists>b b' w'. cw_buffer w = Some b \<and> w' = check_in (incProgressId s) i b' w \<and>
       content b' = overwrite (content b) (32 + unat i * (cw_S w div cw_n w))
                      (take (frag_len (cw_S w) (cw_n w) (unat i)) (drop 40 bytes)) \<and>
       sb_ok b' \<and> sb_owned b' \<and> same_shape b b' \<and> work_ok src fid w' \<and>
       AssembleFrameFragment mem bytes len info s =
         (if IsCombineDone (cw_status w')
          then Ok (E_OK, Some (Some b', cw_frameInfo w),
                 set_works src (om_erase fid (om_insert fid w' (works_of src s))) (s\<lparr>incProgressId := incProgressId s + 1\<rparr>))
          else Ok (E_OK, None,
                 set_works src (om_insert fid w' (works_of src s)) (s\<lparr>incProgressId := incProgressId s + 1\<rparr>)))
     else AssembleFrameFragment mem bytes len info s =
            Ok (E_COMBINE_FAIL, None, set_works src (works_of src s) s))"
proof (cases "CheckPacketWithOriWork info w")
  case False
  then show ?thesis using w(1)
    by (simp add: AssembleFrameFragment_def Let_def src_def fid_def ContinueExistCombineWork_def)
next
  case True
  have ok: "buffer_ok w" "status_ok w" using w(2) by (auto simp: work_ok_def)
  have i: "unat i < cw_n w"
    using True by (auto simp: CheckPacketWithOriWork_def cw_n_def i_def word_le_nat_alt)
  note ci = combine_into_ok[OF ok i len]
  show ?thesis
  proof (cases "40 + frag_len (cw_S w) (cw_n w) (unat i) \<le> unat len")
    case False
    then have "combine_into w bytes len i = Err E_LENGTH_ERROR" using ci by simp
    then show ?thesis using w(1) True False
      by (simp add: AssembleFrameFragment_def Let_def src_def fid_def i_def ContinueExistCombineWork_def)
  next
    case fits: True
    then obtain b b' where b: "cw_buffer w = Some b" "combine_into w bytes len i = Ok b'"
      "content b' = overwrite (content b) (32 + unat i * (cw_S w div cw_n w))
                      (take (frag_len (cw_S w) (cw_n w) (unat i)) (drop 40 bytes))"
      "sb_ok b'" "sb_owned b'" "same_shape b b'" using ci by auto
    let ?w = "check_in (incProgressId s) i b' w"
    have "work_ok src fid ?w"
      using check_in_work_ok[OF w(2) i b(1,4,5,6,3)] by (simp add: src_def fid_def)
    moreover have "AssembleFrameFragment mem bytes len info s =
         (if IsCombineDone (cw_status ?w)
          then Ok (E_OK, Some (Some b', cw_frameInfo w),
                 set_works src (om_erase fid (om_insert fid ?w (works_of src s))) (s\<lparr>incProgressId := incProgressId s + 1\<rparr>))
          else Ok (E_OK, None,
                 set_works src (om_insert fid ?w (works_of src s)) (s\<lparr>incProgressId := incProgressId s + 1\<rparr>)))"
      using w(1) True b(2)
      by (simp add: AssembleFrameFragment_def Let_def src_def fid_def i_def ContinueExistCombineWork_def set_works_upd)
    ultimately show ?thesis using True fits b by (intro if_P[THEN iffD2]) auto
  qed
qed

text \<open>The outcome when it is not: after a success it is the only work of its source.\<close>

lemma abort_keeps_newest:
  assumes "works_ok pid src ws" "om_find ws fid = None" "progressId (cw_status w) = pid"
    and "works_of src s = om_insert fid w ws"
  shows "works_of src (if length (works_of src s) > MAX_WORK_PER_SRC_TARGET then AbortCombineWorkBySource src s else s)
    = [(fid, w)]"
proof (cases ws)
  case Nil
  then show ?thesis using assms(4) by (simp add: MAX_WORK_PER_SRC_TARGET_def)
next
  case (Cons e ws')
  then have ws: "ws = [e]" using assms(1) by (simp add: works_ok_def MAX_WORK_PER_SRC_TARGET_def)
  obtain f v where e: "e = (f, v)" by (cases e)
  have v: "progressId (cw_status v) < pid" "f \<noteq> fid"
    using assms(1,2) by (auto simp: ws e works_ok_def om_find_Cons split: if_splits)
  have lt: "progressId (cw_status v) < - 1"
    using v(1) by (metis less_le_trans word_order.extremum)
  have "lowest_work (om_insert fid w ws) 0 (- 1) = f"
    using v lt assms(3) by (auto simp: ws e)
  moreover have "length (om_insert fid w ws) = 2" using v by (simp add: ws e)
  moreover have "om_insert fid w ws \<noteq> []" by (simp add: ws e)
  ultimately show ?thesis
    using assms(4) v(2) by (simp add: MAX_WORK_PER_SRC_TARGET_def AbortCombineWorkBySource_def)
       (auto simp: ws e om_erase_def)
qed

lemma assemble_new:
  assumes nf: "om_find (works_of (pr_sourceId info) s) (pr_frameId info) = None"
    and ok: "combiner_ok s" and len: "unat len \<le> length bytes"
  defines "src \<equiv> pr_sourceId info" and "fid \<equiv> pr_frameId info" and "i \<equiv> pr_fragNo info"
  shows "(\<exists>fl ll b b' w' s'. AnalyzeSplitStructure info = Ok (fl, ll) \<and> CreateNewFrameBuffer mem info = Some b \<and>
       40 + frag_len (unat (pr_frameLen info) - 32) (unat (pr_fragCount info)) (unat i) \<le> unat len \<and>
       w' = check_in (incProgressId s) i b' (fresh_work info b fl ll) \<and> work_ok src fid w' \<and>
       content b' = overwrite (content b) (32 + unat i * ((unat (pr_frameLen info) - 32) div unat (pr_fragCount info)))
          (take (frag_len (unat (pr_frameLen info) - 32) (unat (pr_fragCount info)) (unat i)) (drop 40 bytes)) \<and>
       same_shape b b' \<and>
       AssembleFrameFragment mem bytes len info s = Ok (E_OK, None, s') \<and> works_of src s' = [(fid, w')] \<and>
       s' = set_works src [(fid, w')] (s\<lparr>totalSizeByByte := totalSizeByByte s + ucast (GetSize b'),
              incProgressId := incProgressId s + 1\<rparr>)) \<or>
    (\<exists>e. e \<noteq> E_OK \<and> AssembleFrameFragment mem bytes len info s = Ok (e, None, set_works src (works_of src s) s) \<and>
       (AnalyzeSplitStructure info = Err e \<or> e = E_OUT_OF_MEMORY \<and> CreateNewFrameBuffer mem info = None \<or>
        unat len < 40 + frag_len (unat (pr_frameLen info) - 32) (unat (pr_fragCount info)) (unat i)))"
proof (cases "AnalyzeSplitStructure info")
  case Fault
  then show ?thesis by (simp add: AnalyzeSplitStructure_def Let_def)
next
  case (Err e)
  then have "e = E_PARSE_FAIL" by (auto simp: AnalyzeSplitStructure_def Let_def guard_err_def split: if_splits)
  then show ?thesis using Err nf
    by (auto simp: AssembleFrameFragment_def Let_def src_def fid_def CreateNewCombineWork_def)
next
  case (Ok p)
  obtain fl ll where a: "AnalyzeSplitStructure info = Ok (fl, ll)" using Ok by (cases p) auto
  show ?thesis
  proof (cases "CreateNewFrameBuffer mem info")
    case None
    then show ?thesis using a nf
      by (auto simp: AssembleFrameFragment_def Let_def src_def fid_def CreateNewCombineWork_def)
  next
    case (Some b)
    let ?w = "fresh_work info b fl ll"
    have wk: "work_ok (pr_sourceId info) (pr_frameId info) ?w" by (rule fresh_work_ok[OF a Some])
    then have wok: "buffer_ok ?w" "status_ok ?w" by (auto simp: work_ok_def)
    have i: "unat i < cw_n ?w" using analyze_ok(4)[OF a] by (simp add: i_def)
    note ci = combine_into_ok[OF wok i len, unfolded fresh_work_fields]
    have cr: "CreateNewCombineWork mem bytes len info t =
        (case combine_into ?w bytes len i of Fault \<Rightarrow> Fault | Err e \<Rightarrow> Ok (e, t)
         | Ok b \<Rightarrow> Ok (E_OK, set_works src (om_insert fid (check_in (incProgressId t) i b ?w) (works_of src t))
                               (t\<lparr>totalSizeByByte := totalSizeByByte t + ucast (GetSize b),
                                  incProgressId := incProgressId t + 1\<rparr>)))" for t
      unfolding CreateNewCombineWork_def a Some fresh_work_def Let_def src_def fid_def i_def by simp
    show ?thesis
    proof (cases "40 + frag_len (unat (pr_frameLen info) - 32) (unat (pr_fragCount info)) (unat i) \<le> unat len")
      case False
      then have "combine_into ?w bytes len i = Err E_LENGTH_ERROR" using ci by simp
      then show ?thesis using nf cr False
        by (auto simp: AssembleFrameFragment_def Let_def src_def fid_def)
    next
      case True
      then obtain b' where b': "combine_into ?w bytes len i = Ok b'"
        "content b' = overwrite (content b) (32 + unat i * ((unat (pr_frameLen info) - 32) div unat (pr_fragCount info)))
          (take (frag_len (unat (pr_frameLen info) - 32) (unat (pr_fragCount info)) (unat i)) (drop 40 bytes))"
        "sb_ok b'" "sb_owned b'" "same_shape b b'" using ci by auto
      let ?w' = "check_in (incProgressId s) i b' ?w"
      let ?s1 = "set_works src (om_insert fid ?w' (works_of src s)) (s\<lparr>totalSizeByByte := totalSizeByByte s + ucast (GetSize b'),
                   incProgressId := incProgressId s + 1\<rparr>)"
      have wk': "work_ok src fid ?w'"
        using check_in_work_ok[OF wk i _ b'(3,4,5,2)] by (simp add: src_def fid_def)
      let ?s2 = "if length (works_of src ?s1) > MAX_WORK_PER_SRC_TARGET then AbortCombineWorkBySource src ?s1 else ?s1"
      have w2: "works_of src ?s2 = [(fid, ?w')]"
        using abort_keeps_newest[OF works_ok_of[OF ok, of src], of fid ?w' ?s1] nf by (simp add: src_def fid_def)
      then have s2: "?s2 = set_works src [(fid, ?w')] (s\<lparr>totalSizeByByte := totalSizeByByte s + ucast (GetSize b'),
              incProgressId := incProgressId s + 1\<rparr>)"
        by (auto simp: AbortCombineWorkBySource_def split: if_splits)
      have "AssembleFrameFragment mem bytes len info s = Ok (E_OK, None, ?s2)"
        using nf cr[of "set_works src (works_of src s) s"] b'(1)
        by (simp add: AssembleFrameFragment_def Let_def src_def fid_def set_works_upd)
      then show ?thesis using a Some True wk' b' w2 s2 by blast
    qed
  qed
qed

lemma works_singleton:
  assumes "works_ok pid src ws" "om_find ws fid = Some w"
  shows "ws = [(fid, w)]" "work_ok src fid w" "pending w" "progressId (cw_status w) < pid"
proof -
  have "length ws \<le> 1" "ws \<noteq> []" using assms by (auto simp: works_ok_def MAX_WORK_PER_SRC_TARGET_def)
  then obtain e where e: "ws = [e]" by (cases ws) auto
  then show ws: "ws = [(fid, w)]" using assms(2) by (cases e) (auto simp: om_find_Cons split: if_splits)
  show "work_ok src fid w" "pending w" "progressId (cw_status w) < pid"
    using assms(1) by (auto simp: ws works_ok_def)
qed

lemma works_ok_single:
  "work_ok src fid w \<Longrightarrow> pending w \<Longrightarrow> progressId (cw_status w) < p \<Longrightarrow> works_ok p src [(fid, w)]"
  by (simp add: works_ok_def MAX_WORK_PER_SRC_TARGET_def om_ok_Cons)

lemma pending_check_in:
  assumes "status_ok w" "unat i < cw_n w"
  shows "pending (check_in p i b w) \<longleftrightarrow> \<not> IsCombineDone (cw_status (check_in p i b w))"
proof -
  have "i \<in> set (combinedFragmentNo (cw_status (check_in p i b w)))"
    unfolding check_in_combined[OF assms] by (simp add: set_insort_insert)
  then have ne: "combinedFragmentNo (cw_status (check_in p i b w)) \<noteq> []" by auto
  have "fragmentCount (cw_status (check_in p i b w)) = pr_fragCount (cw_frameInfo w)"
    using assms(1) by (simp add: check_in_def CheckInFragmentNo_def UpdateProgressId_def status_ok_def)
  then show ?thesis using ne by (auto simp: pending_def IsCombineDone_def cw_n_def)
qed

lemma succ_progress:
  assumes "(p::u64) \<noteq> - 1" shows "p < p + 1"
proof -
  have "1 + p \<noteq> 0" using assms by (metis add.commute eq_neg_iff_add_eq_0)
  then have "unat (p + 1) = Suc (unat p)" by (simp add: unatSuc add.commute)
  then show ?thesis by (simp add: word_less_nat_alt)
qed

lemma check_in_count [simp]:
  "fragmentCount (cw_status (check_in p i b w)) = fragmentCount (cw_status w)"
  "fragmentCount (cw_status (fresh_work info b fl ll)) = pr_fragCount info"
  by (simp_all add: check_in_def CheckInFragmentNo_def UpdateProgressId_def fresh_work_def)

text \<open>
  One received packet: the combiner never faults, keeps its invariant, touches only the works of
  the packet's source, and a frame it hands out is a well-formed buffer of the announced length.
\<close>

lemma assemble_step:
  assumes ok: "combiner_ok s" and len: "unat len \<le> length bytes" and pid: "incProgressId s \<noteq> - 1"
  shows "\<exists>e out s'. AssembleFrameFragment mem bytes len info s = Ok (e, out, s') \<and> combiner_ok s' \<and>
    (\<forall>src. src \<noteq> pr_sourceId info \<longrightarrow> works_of src s' = works_of src s) \<and>
    unat (incProgressId s') \<le> unat (incProgressId s) + 1 \<and>
    (case out of None \<Rightarrow> True
     | Some (buf, fi) \<Rightarrow> e = E_OK \<and> pr_sourceId fi = pr_sourceId info \<and> pr_frameId fi = pr_frameId info \<and>
         (\<exists>b. buf = Some b \<and> sb_ok b \<and> sb_owned b \<and> totalLen b = pr_frameLen info))"
proof (cases "om_find (works_of (pr_sourceId info) s) (pr_frameId info)")
  have inc: "unat (incProgressId s + 1) \<le> unat (incProgressId s) + 1"
    by (simp add: unat_word_ariths)
  case None
  let ?src = "pr_sourceId info"
  from assemble_new[OF None ok len, of mem] consider
    (new) fl ll b b' w' s' where "AnalyzeSplitStructure info = Ok (fl, ll)"
      "w' = check_in (incProgressId s) (pr_fragNo info) b' (fresh_work info b fl ll)" "work_ok ?src (pr_frameId info) w'"
      "CreateNewFrameBuffer mem info = Some b"
      "AssembleFrameFragment mem bytes len info s = Ok (E_OK, None, s')"
      "s' = set_works ?src [(pr_frameId info, w')] (s\<lparr>totalSizeByByte := totalSizeByByte s + ucast (GetSize b'),
              incProgressId := incProgressId s + 1\<rparr>)"
  | (err) e where "AssembleFrameFragment mem bytes len info s = Ok (e, None, set_works ?src (works_of ?src s) s)"
    by blast
  then show ?thesis
  proof cases
    case err
    then show ?thesis using set_works_same[OF ok] by auto
  next
    case new
    have st: "status_ok (fresh_work info b fl ll)" using fresh_work_ok[OF new(1,4)] by (simp add: work_ok_def)
    have i: "unat (pr_fragNo info) < cw_n (fresh_work info b fl ll)" using analyze_ok(4)[OF new(1)] by simp
    have "\<not> IsCombineDone (cw_status w')"
      unfolding new(2) IsCombineDone_def check_in_combined[OF st i]
      using analyze_ok(2)[OF new(1)] by (simp add: insort_insert_key_def)
    then have "pending w'" unfolding new(2) pending_check_in[OF st i] .
    then have "works_ok (incProgressId s + 1) ?src [(pr_frameId info, w')]"
      using new(2,3) succ_progress[OF pid] by (intro works_ok_single) auto
    then have "combiner_ok s'" unfolding new(6)
      using ok succ_progress[OF pid] by (intro combiner_ok_set_works) auto
    then show ?thesis using new(5,6) inc by auto
  qed
next
  have inc: "unat (incProgressId s + 1) \<le> unat (incProgressId s) + 1"
    by (simp add: unat_word_ariths)
  case (Some w)
  let ?src = "pr_sourceId info" and ?fid = "pr_frameId info" and ?i = "pr_fragNo info"
  note sw = works_singleton[OF works_ok_of[OF ok] Some]
  have ok': "combiner_ok (set_works ?src (works_of ?src s) s)" by (rule set_works_same[OF ok])
  note ae = assemble_exist[OF Some sw(2) len, of mem]
  show ?thesis
  proof (cases "CheckPacketWithOriWork info w \<and> 40 + frag_len (cw_S w) (cw_n w) (unat ?i) \<le> unat len")
    case False
    then have "AssembleFrameFragment mem bytes len info s = Ok (E_COMBINE_FAIL, None, set_works ?src (works_of ?src s) s)"
      using ae by auto
    then show ?thesis using ok' by auto
  next
    case True
    then obtain b b' where b: "cw_buffer w = Some b" "sb_ok b'" "sb_owned b'" "same_shape b b'"
      and wk: "work_ok ?src ?fid (check_in (incProgressId s) ?i b' w)"
      and as: "AssembleFrameFragment mem bytes len info s =
         (if IsCombineDone (cw_status (check_in (incProgressId s) ?i b' w))
          then Ok (E_OK, Some (Some b', cw_frameInfo w),
                 set_works ?src (om_erase ?fid (om_insert ?fid (check_in (incProgressId s) ?i b' w) (works_of ?src s)))
                   (s\<lparr>incProgressId := incProgressId s + 1\<rparr>))
          else Ok (E_OK, None, set_works ?src (om_insert ?fid (check_in (incProgressId s) ?i b' w) (works_of ?src s))
                   (s\<lparr>incProgressId := incProgressId s + 1\<rparr>)))"
      using ae by auto
    let ?w = "check_in (incProgressId s) ?i b' w"
    have i: "unat ?i < cw_n w" using True by (auto simp: CheckPacketWithOriWork_def cw_n_def word_le_nat_alt)
    have st: "status_ok w" using sw(2) by (simp add: work_ok_def)
    have t: "totalLen b' = pr_frameLen info" "pr_sourceId (cw_frameInfo w) = ?src" "pr_frameId (cw_frameInfo w) = ?fid"
      using True b sw(2) by (auto simp: CheckPacketWithOriWork_def same_shape_def work_ok_def buffer_ok_def)
    have up: "works_ok (incProgressId s + 1) ?src ws \<Longrightarrow>
        combiner_ok (set_works ?src ws (s\<lparr>incProgressId := incProgressId s + 1\<rparr>))" for ws
      using combiner_ok_set_works[OF ok, of "incProgressId s + 1" ?src ws "totalSizeByByte s"] succ_progress[OF pid] by simp
    show ?thesis
    proof (cases "IsCombineDone (cw_status ?w)")
      case True
      then show ?thesis using as b(2,3) t up[of "[]"] inc by (simp add: sw(1) om_erase_def)
    next
      case False
      then have "works_ok (incProgressId s + 1) ?src [(?fid, ?w)]"
        using wk pending_check_in[OF st i] succ_progress[OF pid] by (intro works_ok_single) auto
      then show ?thesis using as False up inc by (simp add: sw(1))
    qed
  qed
qed

section \<open>Surveillance\<close>

lemma surveil_filter:
  assumes "om_ok ws"
  shows "surveil ws = map (\<lambda>(fid, w). (fid, w\<lparr>cw_status := (cw_status w)\<lparr>hasProgressFlag := False\<rparr>\<rparr>))
           (filter (\<lambda>(fid, w). hasProgressFlag (cw_status w)) ws)"
proof -
  let ?f = "\<lambda>(fid, w). (fid, w\<lparr>cw_status := (cw_status w)\<lparr>hasProgressFlag := False\<rparr>\<rparr>)"
  let ?dead = "map fst (filter (\<lambda>(fid, w). \<not> hasProgressFlag (cw_status w)) ws)"
  have "fst e \<in> set ?dead \<longleftrightarrow> \<not> hasProgressFlag (cw_status (snd e))" if "e \<in> set ws" for e
  proof -
    obtain k v where e: "e = (k, v)" by (cases e)
    have u: "(k, v') \<in> set ws \<longleftrightarrow> v' = v" for v'
      using that om_find_iff_mem[OF assms, of k] e by (metis option.inject)
    have "k \<in> set ?dead \<longleftrightarrow> (\<exists>v'. (k, v') \<in> set ws \<and> \<not> hasProgressFlag (cw_status v'))" by force
    then show ?thesis by (simp add: e u)
  qed
  then have "filter (\<lambda>e. fst e \<notin> set ?dead) ws = filter (\<lambda>(fid, w). hasProgressFlag (cw_status w)) ws"
    by (intro filter_cong) auto
  moreover have "surveil ws = filter (\<lambda>e. fst e \<notin> set ?dead) (map ?f ws)"
    unfolding surveil_def fold_om_erase by (simp add: CheckProgress_def case_prod_beta)
  moreover have "filter (\<lambda>e. fst e \<notin> set ?dead) (map ?f ws) = map ?f (filter (\<lambda>e. fst e \<notin> set ?dead) ws)"
    by (simp add: filter_map comp_def case_prod_beta)
  ultimately show ?thesis by simp
qed

lemma works_of_surveillance: "works_of src (PeriodicalSurveillance s) = surveil (works_of src s)"
proof -
  have "om_find (map (\<lambda>(src, ws). (src, surveil ws)) (combineWorkPool s)) src = map_option surveil (om_find (combineWorkPool s) src)"
    by (rule om_find_map_vals)
  moreover have "surveil [] = []" by (simp add: surveil_def)
  ultimately show ?thesis by (simp add: works_of_def PeriodicalSurveillance_def om_get_def split: option.splits)
qed

lemma work_ok_flag:
  "work_ok src fid (w\<lparr>cw_status := (cw_status w)\<lparr>hasProgressFlag := f\<rparr>\<rparr>) = work_ok src fid w"
  "pending (w\<lparr>cw_status := (cw_status w)\<lparr>hasProgressFlag := f\<rparr>\<rparr>) = pending w"
  by (auto simp: work_ok_def buffer_ok_def status_ok_def pending_def cw_S_def cw_n_def split: option.splits)

lemma surveil_works_ok: "works_ok p src ws \<Longrightarrow> works_ok p src (surveil ws)"
proof -
  assume w: "works_ok p src ws"
  then have o: "om_ok ws" by (simp add: works_ok_def)
  have "om_ok (map (\<lambda>(fid, w). (fid, w\<lparr>cw_status := (cw_status w)\<lparr>hasProgressFlag := False\<rparr>\<rparr>))
           (filter (\<lambda>(fid, w). hasProgressFlag (cw_status w)) ws))"
    using om_ok_map_vals[of "filter (\<lambda>(fid, w). hasProgressFlag (cw_status w)) ws"
        "\<lambda>_ w. w\<lparr>cw_status := (cw_status w)\<lparr>hasProgressFlag := False\<rparr>\<rparr>"] o by simp
  moreover have "length (filter (\<lambda>(fid, w). hasProgressFlag (cw_status w)) ws) \<le> MAX_WORK_PER_SRC_TARGET"
    using w by (auto simp: works_ok_def intro: le_trans[OF length_filter_le])
  ultimately show ?thesis
    using w unfolding surveil_filter[OF o] works_ok_def by (auto simp: work_ok_flag)
qed

lemma surveillance_ok: "combiner_ok s \<Longrightarrow> combiner_ok (PeriodicalSurveillance s)"
  using om_ok_map_vals[of "combineWorkPool s" "\<lambda>_. surveil"] surveil_works_ok
  by (fastforce simp: combiner_ok_def PeriodicalSurveillance_def)

section \<open>Reachable states\<close>

text \<open>
  The combiner under an arbitrary sequence of received packets and timer ticks.  A packet is any
  parse result with any bytes, as long as the memory behind the pointer is as long as the length
  says; the progress counter has not wrapped around (\<open>2^64\<close> packets).
\<close>

inductive combiner_reach :: "allocator \<Rightarrow> frame_combiner \<Rightarrow> bool" for mem where
  init: "combiner_reach mem new_FrameCombiner"
| packet: "combiner_reach mem s \<Longrightarrow> unat len \<le> length bytes \<Longrightarrow> incProgressId s \<noteq> - 1 \<Longrightarrow>
    AssembleFrameFragment mem bytes len info s = Ok (e, out, s') \<Longrightarrow> combiner_reach mem s'"
| tick: "combiner_reach mem s \<Longrightarrow> combiner_reach mem (PeriodicalSurveillance s)"

lemma combiner_reach_ok: "combiner_reach mem s \<Longrightarrow> combiner_ok s"
proof (induction rule: combiner_reach.induct)
  case init
  then show ?case by (rule combiner_ok_new)
next
  case (packet s len bytes info e out s')
  then show ?case using assemble_step[OF packet.IH packet.hyps(2,3), of mem info] by auto
next
  case (tick s)
  then show ?case by (intro surveillance_ok)
qed

text \<open>
  C10: In every reachable state of the combiner, whatever packets arrived before and in whatever
  order with the timer ticks, the next packet is processed without leaving a buffer, each source
  has at most one frame in the making, and a frame that is handed out is well formed, owns its
  bytes and has exactly the length that its packets announced.
\<close>

theorem combiner_reachable_safe:
  assumes "combiner_reach mem s" and "unat len \<le> length bytes" and "incProgressId s \<noteq> - 1"
  shows "\<exists>e out s'. AssembleFrameFragment mem bytes len info s = Ok (e, out, s') \<and>
    (\<forall>src. length (works_of src s') \<le> MAX_WORK_PER_SRC_TARGET) \<and>
    (\<forall>buf fi. out = Some (buf, fi) \<longrightarrow> e = E_OK \<and> pr_frameId fi = pr_frameId info \<and>
       (\<exists>b. buf = Some b \<and> sb_ok b \<and> sb_owned b \<and> totalLen b = pr_frameLen info))"
proof -
  obtain e out s' where a: "AssembleFrameFragment mem bytes len info s = Ok (e, out, s')" "combiner_ok s'"
    "case out of None \<Rightarrow> True
     | Some (buf, fi) \<Rightarrow> e = E_OK \<and> pr_sourceId fi = pr_sourceId info \<and> pr_frameId fi = pr_frameId info \<and>
         (\<exists>b. buf = Some b \<and> sb_ok b \<and> sb_owned b \<and> totalLen b = pr_frameLen info)"
    using assemble_step[OF combiner_reach_ok[OF assms(1)] assms(2,3), of mem info] by blast
  have "\<forall>src. length (works_of src s') \<le> MAX_WORK_PER_SRC_TARGET"
    using works_ok_of[OF a(2)] by (simp add: works_ok_def)
  then show ?thesis using a(1,3) by (intro exI conjI) (auto split: option.splits)
qed

theorem combiner_reachable_safe_witness:
  "\<exists>e out s'. AssembleFrameFragment never_oom [1, 2, 3] 3 new_ParseResult (PeriodicalSurveillance new_FrameCombiner)
     = Ok (e, out, s') \<and> (\<forall>src. length (works_of src s') \<le> MAX_WORK_PER_SRC_TARGET)"
proof -
  have r: "combiner_reach never_oom (PeriodicalSurveillance new_FrameCombiner)"
    by (rule combiner_reach.tick, rule combiner_reach.init)
  have "incProgressId (PeriodicalSurveillance new_FrameCombiner) \<noteq> - 1"
    by (simp add: PeriodicalSurveillance_def new_FrameCombiner_def)
  from combiner_reachable_safe[OF r _ this, of 3 "[1, 2, 3]" new_ParseResult] show ?thesis by auto
qed

text \<open>
  A timer tick aborts exactly the works that made no progress since the previous tick.  A work
  that received a fragment in between survives with all it has collected; after two ticks
  without any packet no work is left.
\<close>

theorem surveillance_aborts_stalled:
  assumes "combiner_reach mem s"
  shows "om_find (works_of src (PeriodicalSurveillance s)) fid =
      (case om_find (works_of src s) fid of
         None \<Rightarrow> None
       | Some w \<Rightarrow> if hasProgressFlag (cw_status w)
                   then Some (w\<lparr>cw_status := (cw_status w)\<lparr>hasProgressFlag := False\<rparr>\<rparr>) else None) \<and>
    works_of src (PeriodicalSurveillance (PeriodicalSurveillance s)) = []"
proof -
  have w: "works_ok (incProgressId s) src (works_of src s)"
    using works_ok_of[OF combiner_reach_ok[OF assms]] .
  then have o: "om_ok (works_of src s)" by (simp add: works_ok_def)
  have s: "om_find (surveil (works_of src s)) fid =
      (case om_find (works_of src s) fid of
         None \<Rightarrow> None
       | Some w \<Rightarrow> if hasProgressFlag (cw_status w)
                   then Some (w\<lparr>cw_status := (cw_status w)\<lparr>hasProgressFlag := False\<rparr>\<rparr>) else None)"
    unfolding surveil_filter[OF o]
    by (simp add: om_find_map_vals[where f = "\<lambda>_ w. w\<lparr>cw_status := (cw_status w)\<lparr>hasProgressFlag := False\<rparr>\<rparr>"]
        om_find_filter[OF o] split: option.splits)
  have o2: "om_ok (surveil (works_of src s))" using surveil_works_ok[OF w] by (simp add: works_ok_def)
  have "surveil (surveil (works_of src s)) = []"
    by (subst surveil_filter[OF o2], subst surveil_filter[OF o]) (simp add: filter_map comp_def case_prod_beta)
  then show ?thesis using s by (simp add: works_of_surveillance)
qed

theorem surveillance_aborts_stalled_witness:
  "works_of 7 (PeriodicalSurveillance (PeriodicalSurveillance new_FrameCombiner)) = []"
  using surveillance_aborts_stalled[OF combiner_reach.init, of 7] by blast

section \<open>Reassembly\<close>

text \<open>What a work has collected of the bytes \<open>body\<close> that were split.\<close>

definition holds :: "combine_work \<Rightarrow> byte list \<Rightarrow> bool" where
  "holds w body \<longleftrightarrow>
     (case cw_buffer w of
        None \<Rightarrow> False
      | Some b \<Rightarrow> \<forall>i \<in> set (combinedFragmentNo (cw_status w)).
          fragment (drop 32 (content b)) (cw_S w) (cw_n w) (unat i) = fragment body (cw_S w) (cw_n w) (unat i))"

lemma slice_overwrite_same_len:
  "off + length x \<le> length bs \<Longrightarrow> k = length x \<Longrightarrow> take k (drop off (overwrite bs off x)) = x"
  by (simp add: slice_overwrite_same)

lemma slice_overwrite_disjoint:
  assumes "off + length x \<le> length bs" "i + k \<le> off \<or> off + length x \<le> i"
  shows "take k (drop i (overwrite bs off x)) = take k (drop i bs)"
  using assms(2)
proof
  assume i: "i + k \<le> off"
  then have "take (i + k) (overwrite bs off x) = take (i + k) bs"
    using assms(1) by (intro take_overwrite_before) auto
  then have "drop i (take (i + k) (overwrite bs off x)) = drop i (take (i + k) bs)" by simp
  then show ?thesis by (simp add: drop_take)
next
  assume "off + length x \<le> i"
  then show ?thesis using assms(1) by (simp add: drop_overwrite_after)
qed

lemma fragment_overwrite_same:
  "i < n \<Longrightarrow> length bs = S \<Longrightarrow> length x = frag_len S n i \<Longrightarrow> fragment (overwrite bs (i * (S div n)) x) S n i = x"
  using frag_offset[of i n S] by (simp add: fragment_def slice_overwrite_same_len)

lemma fragment_overwrite_other:
  assumes "i < n" "j < n" "i \<noteq> j" "length bs = S" "length x = frag_len S n i"
  shows "fragment (overwrite bs (i * (S div n)) x) S n j = fragment bs S n j"
proof -
  have sep: "a * (S div n) + frag_len S n a \<le> c * (S div n)" if "a < c" "c < n" for a c
  proof -
    have "frag_len S n a = S div n" using that by (simp add: frag_len_def)
    moreover have "Suc a * (S div n) \<le> c * (S div n)" using that by (intro mult_le_mono1) simp
    ultimately show ?thesis by simp
  qed
  have "j * (S div n) + frag_len S n j \<le> i * (S div n) \<or> i * (S div n) + length x \<le> j * (S div n)"
    using sep[of j i] sep[of i j] assms by (cases "j < i") auto
  then show ?thesis
    using frag_offset[OF assms(1), of S] assms(4,5) unfolding fragment_def by (intro slice_overwrite_disjoint) auto
qed

lemma drop_overwrite_shift: "k \<le> length bs \<Longrightarrow> drop k (overwrite bs (k + off) x) = overwrite (drop k bs) off x"
  by (simp add: overwrite_def drop_take ac_simps)

lemma work_body_length:
  assumes "work_ok src fid w" "cw_buffer w = Some b"
  shows "length (drop 32 (content b)) = cw_S w" "32 \<le> length (content b)"
  using assms length_content[of b]
  by (auto simp: work_ok_def buffer_ok_def status_ok_def cw_S_def)

text \<open>Copying one more fragment in keeps what was collected and adds the fragment.\<close>

lemma holds_check_in:
  assumes w: "work_ok src fid w" and i: "unat i < cw_n w" "i \<notin> set (combinedFragmentNo (cw_status w))"
    and h: "holds w body \<or> combinedFragmentNo (cw_status w) = []"
    and b: "cw_buffer w = Some b" "content b' = overwrite (content b) (32 + unat i * (cw_S w div cw_n w)) x"
    and x: "x = fragment body (cw_S w) (cw_n w) (unat i)" "cw_S w \<le> length body"
  shows "holds (check_in p i b' w) body"
proof -
  note l = work_body_length[OF w b(1)]
  have st: "status_ok w" using w by (simp add: work_ok_def)
  have lx: "length x = frag_len (cw_S w) (cw_n w) (unat i)" using x i(1) by (simp add: length_fragment)
  have c: "drop 32 (content b') = overwrite (drop 32 (content b)) (unat i * (cw_S w div cw_n w)) x"
    unfolding b(2) using l(2) by (rule drop_overwrite_shift)
  have "fragment (drop 32 (content b')) (cw_S w) (cw_n w) (unat j) = fragment body (cw_S w) (cw_n w) (unat j)"
    if j: "j = i \<or> j \<in> set (combinedFragmentNo (cw_status w))" for j
  proof (cases "j = i")
    case True
    then show ?thesis using fragment_overwrite_same[OF i(1) l(1) lx] x(1) by (simp add: c)
  next
    case False
    then have j': "j \<in> set (combinedFragmentNo (cw_status w))" "unat j \<noteq> unat i"
      using j by (auto simp: word_unat_eq_iff)
    then have "unat j < cw_n w" using st by (simp add: status_ok_def)
    then have "fragment (drop 32 (content b')) (cw_S w) (cw_n w) (unat j) =
        fragment (drop 32 (content b)) (cw_S w) (cw_n w) (unat j)"
      unfolding c using j'(2) by (intro fragment_overwrite_other[OF i(1) _ _ l(1) lx]) auto
    also have "\<dots> = fragment body (cw_S w) (cw_n w) (unat j)"
      using h j'(1) b(1) by (auto simp: holds_def)
    finally show ?thesis .
  qed
  then show ?thesis
    by (auto simp: holds_def check_in_combined[OF st i(1)] set_insort_insert)
qed

text \<open>When all fragments are in, the buffer holds the whole frame.\<close>

lemma holds_complete:
  assumes w: "work_ok src fid w" and h: "holds w body" "length body = cw_S w"
    and b: "cw_buffer w = Some b" and all: "unat ` set (combinedFragmentNo (cw_status w)) = {0..<cw_n w}"
  shows "content b = replicate 32 0 @ body"
proof -
  note l = work_body_length[OF w b]
  have n: "0 < cw_n w" using w by (auto simp: work_ok_def status_ok_def)
  have "fragment (drop 32 (content b)) (cw_S w) (cw_n w) i = fragment body (cw_S w) (cw_n w) i" if "i < cw_n w" for i
  proof -
    have "i \<in> unat ` set (combinedFragmentNo (cw_status w))" using that all by simp
    then obtain j where "j \<in> set (combinedFragmentNo (cw_status w))" "i = unat j" by blast
    then show ?thesis using h(1) b by (simp add: holds_def)
  qed
  then have "concat (map (fragment (drop 32 (content b)) (cw_S w) (cw_n w)) [0..<cw_n w]) =
      concat (map (fragment body (cw_S w) (cw_n w)) [0..<cw_n w])"
    by (intro arg_cong[where f = concat] map_cong) auto
  then have "drop 32 (content b) = body"
    using concat_fragments[OF n l(1)] concat_fragments[OF n h(2)] by simp
  moreover have "take 32 (content b) = replicate 32 0" using w b by (simp add: work_ok_def buffer_ok_def)
  ultimately show ?thesis by (metis append_take_drop_id)
qed

lemma done_iff_all:
  assumes "status_ok w"
  shows "IsCombineDone (cw_status w) \<longleftrightarrow> unat ` set (combinedFragmentNo (cw_status w)) = {0..<cw_n w}"
proof -
  let ?c = "combinedFragmentNo (cw_status w)"
  have inj: "inj_on unat (set ?c)" by (auto simp: inj_on_def word_unat_eq_iff)
  have card: "card (unat ` set ?c) = length ?c"
    using assms by (simp add: card_image[OF inj] distinct_card status_ok_def)
  have sub: "unat ` set ?c \<subseteq> {0..<cw_n w}" using assms by (auto simp: status_ok_def)
  have n: "unat (fragmentCount (cw_status w)) = cw_n w" using assms by (simp add: status_ok_def cw_n_def)
  show ?thesis
  proof
    assume "IsCombineDone (cw_status w)"
    then have "card {0..<cw_n w} \<le> card (unat ` set ?c)" using card n by (simp add: IsCombineDone_def)
    then show "unat ` set ?c = {0..<cw_n w}" using sub by (intro card_seteq) auto
  next
    assume "unat ` set ?c = {0..<cw_n w}"
    then show "IsCombineDone (cw_status w)" using card n by (simp add: IsCombineDone_def)
  qed
qed

text \<open>The packets of a split frame as the combiner receives them: bytes, length, parse result.\<close>

definition packet_of :: "bool \<Rightarrow> CommPhyHeader \<Rightarrow> byte list \<Rightarrow> nat \<Rightarrow> nat \<Rightarrow> byte list \<times> u32 \<times> parse_result" where
  "packet_of be h body n i =
     (pkt be h body (length body) n i, of_nat (40 + 8 * ((frag_len (length body) n i + 7) div 8)),
      pkt_result h (length body) n i)"

definition frame_info :: "CommPhyHeader \<Rightarrow> nat \<Rightarrow> nat \<Rightarrow> parse_result" where
  "frame_info h S n =
     new_ParseResult\<lparr>pr_packetLen := of_nat (S + 32), pr_sourceId := ph_sourceId h, pr_frameId := ph_frameId h,
       pr_frameType := GetFrameType (ph_packetType h), pr_frameLen := of_nat (S + 32), pr_fragCount := of_nat n\<rparr>"

text \<open>A split that the sender can produce and the receiver can take.\<close>

definition split_params :: "CommPhyHeader \<Rightarrow> byte list \<Rightarrow> nat \<Rightarrow> bool" where
  "split_params h body n \<longleftrightarrow>
     2 \<le> n \<and> n \<le> 65535 \<and> n \<le> length body \<and> length body + 32 \<le> 104857600 \<and>
     (GetFrameType (ph_packetType h) = APPLICATION_MESSAGE \<longrightarrow> 40 \<le> length body)"

definition collecting :: "CommPhyHeader \<Rightarrow> byte list \<Rightarrow> nat \<Rightarrow> nat set \<Rightarrow> frame_combiner \<Rightarrow> bool" where
  "collecting h body n K s \<longleftrightarrow>
     combiner_ok s \<and>
     (\<exists>w. works_of (ph_sourceId h) s = [(ph_frameId h, w)] \<and> cw_frameInfo w = frame_info h (length body) n \<and>
          unat ` set (combinedFragmentNo (cw_status w)) = K \<and> holds w body)"

lemma frame_info_numbers:
  assumes "split_params h body n" "cw_frameInfo w = frame_info h (length body) n"
  shows "cw_S w = length body" "cw_n w = n"
    "unat (of_nat (length body + 32) :: u32) = length body + 32" "unat (of_nat n :: u16) = n"
proof -
  show S: "unat (of_nat (length body + 32) :: u32) = length body + 32"
    using assms(1) by (intro unat_of_nat32) (simp add: split_params_def)
  show n: "unat (of_nat n :: u16) = n" using assms(1) by (intro unat_of_nat16) (simp add: split_params_def)
  have "pr_frameLen (cw_frameInfo w) = of_nat (length body + 32)" "pr_fragCount (cw_frameInfo w) = of_nat n"
    unfolding assms(2) frame_info_def by simp_all
  then show "cw_S w = length body" "cw_n w = n" unfolding cw_S_def cw_n_def using S n by simp_all
qed

lemma pkt_result_fields [simp]:
  "pr_sourceId (pkt_result h S n i) = ph_sourceId h" "pr_frameId (pkt_result h S n i) = ph_frameId h"
  "pr_frameType (pkt_result h S n i) = GetFrameType (ph_packetType h)"
  by (simp_all add: pkt_result_def)

lemma pkt_result_lens:
  "pr_frameLen (pkt_result h S n i) = of_nat (S + 32)" "pr_fragCount (pkt_result h S n i) = of_nat n"
  "pr_fragNo (pkt_result h S n i) = of_nat i"
  by (simp_all add: pkt_result_def)

lemma pkt_len_ok:
  assumes "split_params h body n" "i < n"
  shows "unat (of_nat (40 + 8 * ((frag_len (length body) n i + 7) div 8)) :: u32) = length (pkt be h body (length body) n i)"
    and "40 + frag_len (length body) n i \<le> length (pkt be h body (length body) n i)"
    and "take (frag_len (length body) n i) (drop 40 (pkt be h body (length body) n i)) = fragment body (length body) n i"
    and "unat (of_nat i :: u16) = i"
proof -
  have "frag_len (length body) n i \<le> length body" using assms by (intro frag_len_le) simp
  then have "frag_len (length body) n i \<le> 104857568" using assms(1) by (simp add: split_params_def)
  then have "40 + 8 * ((frag_len (length body) n i + 7) div 8) < 2 ^ 32" by simp
  then have "unat (of_nat (40 + 8 * ((frag_len (length body) n i + 7) div 8)) :: u32) =
      40 + 8 * ((frag_len (length body) n i + 7) div 8)" by (rule unat_of_nat32)
  then show "unat (of_nat (40 + 8 * ((frag_len (length body) n i + 7) div 8)) :: u32) = length (pkt be h body (length body) n i)"
    using assms(2) by (simp only: length_pkt order_refl)
  show "40 + frag_len (length body) n i \<le> length (pkt be h body (length body) n i)"
    using assms(2) by (simp add: length_pkt)
  show "take (frag_len (length body) n i) (drop 40 (pkt be h body (length body) n i)) = fragment body (length body) n i"
    using assms(2) by (intro pkt_fragment) auto
  show "unat (of_nat i :: u16) = i" using assms by (intro unat_of_nat16) (simp add: split_params_def)
qed

lemma combined_image:
  assumes "status_ok w" "unat i < cw_n w"
  shows "unat ` set (combinedFragmentNo (cw_status (check_in p i b w))) =
    insert (unat i) (unat ` set (combinedFragmentNo (cw_status w)))"
  by (simp add: check_in_combined[OF assms] set_insort_insert)

lemma frame_buffer_available:
  assumes sp: "split_params h body n" and mem: "\<forall>k. mem (NewBytes k)" "mem NewSerialBuffer"
  shows "CreateNewFrameBuffer mem (pkt_result h (length body) n i) \<noteq> None"
proof -
  let ?S = "length body" and ?hl = "(if GetFrameType (ph_packetType h) \<noteq> APPLICATION_MESSAGE then 32 else 72) :: u32"
  have u: "unat (of_nat (?S + 32) :: u32) = ?S + 32"
    using sp by (intro unat_of_nat32) (simp add: split_params_def)
  have "?hl \<le> of_nat (?S + 32)" unfolding u32_le u using sp by (auto simp: split_params_def)
  moreover have "(of_nat (?S + 32) :: u32) \<le> MAX_TOTAL_LEN" unfolding u32_le u using sp by (simp add: split_params_def)
  moreover have "0 < (of_nat (?S + 32) :: u32)" unfolding u32_less u by simp
  ultimately have "fst (AllocBufferByTotalLength mem (of_nat (?S + 32)) ?hl new_SerialBuffer) = E_OK"
    using mem(1) by (intro AllocBufferByTotalLength_E_OK) auto
  then show ?thesis using mem(2) unfolding CreateNewFrameBuffer_def pkt_result_lens pkt_result_fields
    by (cases "GetFrameType (ph_packetType h) = APPLICATION_MESSAGE")
       (auto simp: Let_def GetCommLayerFrameHeaderLength_def GetAppLayerFrameHeaderLength_def sizeofs split: prod.splits)
qed

text \<open>The first packet of the frame opens its work.\<close>

lemma first_packet:
  assumes sp: "split_params h body n" and ok: "combiner_ok s" and pid: "incProgressId s \<noteq> - 1"
    and mem: "\<forall>k. mem (NewBytes k)" "mem NewSerialBuffer"
    and nf: "om_find (works_of (ph_sourceId h) s) (ph_frameId h) = None" and i: "i < n"
    and p: "packet_of be h body n i = (bytes, len, info)"
  shows "\<exists>s'. AssembleFrameFragment mem bytes len info s = Ok (E_OK, None, s') \<and> collecting h body n {i} s'"
proof -
  let ?S = "length body"
  have p': "bytes = pkt be h body ?S n i" "len = of_nat (40 + 8 * ((frag_len ?S n i + 7) div 8))" "info = pkt_result h ?S n i"
    using p by (auto simp: packet_of_def)
  note pl = pkt_len_ok[OF sp i]
  have n2: "2 \<le> n" "n \<le> 65535" "n \<le> ?S" "?S \<le> 104857600" using sp by (auto simp: split_params_def)
  have an: "AnalyzeSplitStructure info = Ok (of_nat (?S div n), of_nat (?S div n + ?S mod n))"
    unfolding p'(3) by (rule analyze_pkt[OF i n2])
  have u: "unat (of_nat (?S + 32) :: u32) = ?S + 32" "unat (of_nat n :: u16) = n"
    using n2 sp by (intro unat_of_nat32 unat_of_nat16; simp add: split_params_def)+
  have len: "unat len \<le> length bytes" using pl(1)[of be] by (simp only: p' order_refl)
  have cf: "CreateNewFrameBuffer mem info \<noteq> None" unfolding p'(3) by (rule frame_buffer_available[OF sp mem])
  have nf': "om_find (works_of (pr_sourceId info) s) (pr_frameId info) = None" using nf by (simp add: p'(3))
  have ge: "\<not> unat len < 40 + frag_len (unat (pr_frameLen info) - 32) (unat (pr_fragCount info)) (unat (pr_fragNo info))"
    unfolding p'(2,3) pkt_result_lens u pl(4) using pl(1)[of be] pl(2)[of be] by simp
  obtain fl ll b b' w' s' where st: "AnalyzeSplitStructure info = Ok (fl, ll)" "CreateNewFrameBuffer mem info = Some b"
    "w' = check_in (incProgressId s) (pr_fragNo info) b' (fresh_work info b fl ll)"
    "content b' = overwrite (content b) (32 + unat (pr_fragNo info) * ((unat (pr_frameLen info) - 32) div unat (pr_fragCount info)))
       (take (frag_len (unat (pr_frameLen info) - 32) (unat (pr_fragCount info)) (unat (pr_fragNo info))) (drop 40 bytes))"
    "AssembleFrameFragment mem bytes len info s = Ok (E_OK, None, s')" "works_of (pr_sourceId info) s' = [(pr_frameId info, w')]"
    using assemble_new[OF nf' ok len, of mem] an cf ge by auto
  have cok: "combiner_ok s'" using assemble_step[OF ok len pid, of mem info] st(5) by auto
  let ?w = "fresh_work info b fl ll"
  have wk: "work_ok (pr_sourceId info) (pr_frameId info) ?w" by (rule fresh_work_ok[OF st(1,2)])
  have SN: "cw_S ?w = ?S" "cw_n ?w = n" "unat (pr_fragNo info) = i"
    unfolding fresh_work_fields p'(3) pkt_result_lens u pl(4) by simp_all
  have "holds w' body" unfolding st(3)
    by (rule holds_check_in[OF wk _ _ _ fresh_work_fields(3)])
       (use st(4) SN i pl(3)[of be] p' u in \<open>simp_all add: pkt_result_lens\<close>)
  moreover have "unat ` set (combinedFragmentNo (cw_status w')) = {i}"
    unfolding st(3) using wk SN i by (subst combined_image) (auto simp: work_ok_def)
  moreover have "cw_frameInfo w' = frame_info h ?S n"
    unfolding st(3) by (simp add: fresh_work_def frame_info_def p'(3) pkt_result_lens)
  ultimately show ?thesis using st(5,6) cok by (auto simp: collecting_def p'(3))
qed

text \<open>Each further packet is added; the last one completes the frame.\<close>

lemma next_packet:
  assumes sp: "split_params h body n" and c: "collecting h body n K s" and pid: "incProgressId s \<noteq> - 1"
    and i: "i < n" "i \<notin> K" and p: "packet_of be h body n i = (bytes, len, info)"
  shows "if insert i K = {0..<n}
    then \<exists>s' b. AssembleFrameFragment mem bytes len info s = Ok (E_OK, Some (Some b, frame_info h (length body) n), s') \<and>
      combiner_ok s' \<and> works_of (ph_sourceId h) s' = [] \<and> sb_ok b \<and> sb_owned b \<and> content b = replicate 32 0 @ body \<and>
      headerLen b = (if GetFrameType (ph_packetType h) \<noteq> APPLICATION_MESSAGE then 32 else 72) \<and>
      paddingLen b = 0 \<and> extendHeadLen b = 0
    else \<exists>s'. AssembleFrameFragment mem bytes len info s = Ok (E_OK, None, s') \<and> collecting h body n (insert i K) s'"
proof -
  let ?S = "length body"
  have p': "bytes = pkt be h body ?S n i" "len = of_nat (40 + 8 * ((frag_len ?S n i + 7) div 8))" "info = pkt_result h ?S n i"
    using p by (auto simp: packet_of_def)
  note pl = pkt_len_ok[OF sp i(1)]
  obtain w where w: "works_of (ph_sourceId h) s = [(ph_frameId h, w)]" "cw_frameInfo w = frame_info h ?S n"
    "unat ` set (combinedFragmentNo (cw_status w)) = K" "holds w body" and ok: "combiner_ok s"
    using c by (auto simp: collecting_def)
  note num = frame_info_numbers[OF sp w(2)]
  have fnd: "om_find (works_of (pr_sourceId info) s) (pr_frameId info) = Some w" by (simp add: p'(3) w(1) om_find_Cons)
  have wk: "work_ok (pr_sourceId info) (pr_frameId info) w" by (rule works_singleton(2)[OF works_ok_of[OF ok] fnd])
  have len: "unat len \<le> length bytes" using pl(1)[of be] by (simp only: p' order_refl)
  have fi: "unat (pr_fragNo info) = i" unfolding p'(3) pkt_result_lens by (rule pl(4))
  have ni: "pr_fragNo info \<notin> set (combinedFragmentNo (cw_status w))" using w(3) i(2) fi by blast
  have chk: "CheckPacketWithOriWork info w"
    using ni i(1) unfolding CheckPacketWithOriWork_def w(2) IsFragNoAlreadyExist_def
    by (simp add: p'(3) pkt_result_lens frame_info_def word_le_nat_alt pl(4) num(4))
  have fit: "40 + frag_len (cw_S w) (cw_n w) (unat (pr_fragNo info)) \<le> unat len"
    using pl(1)[of be] pl(2)[of be] unfolding num(1,2) fi p'(2) by simp
  obtain b b' w' where b: "cw_buffer w = Some b" "w' = check_in (incProgressId s) (pr_fragNo info) b' w"
    "content b' = overwrite (content b) (32 + unat (pr_fragNo info) * (cw_S w div cw_n w))
                      (take (frag_len (cw_S w) (cw_n w) (unat (pr_fragNo info))) (drop 40 bytes))"
    "sb_ok b'" "sb_owned b'" "same_shape b b'" "work_ok (pr_sourceId info) (pr_frameId info) w'"
    and as: "AssembleFrameFragment mem bytes len info s =
         (if IsCombineDone (cw_status w')
          then Ok (E_OK, Some (Some b', cw_frameInfo w),
                 set_works (pr_sourceId info) (om_erase (pr_frameId info) (om_insert (pr_frameId info) w' (works_of (pr_sourceId info) s)))
                   (s\<lparr>incProgressId := incProgressId s + 1\<rparr>))
          else Ok (E_OK, None, set_works (pr_sourceId info) (om_insert (pr_frameId info) w' (works_of (pr_sourceId info) s))
                   (s\<lparr>incProgressId := incProgressId s + 1\<rparr>)))"
    using assemble_exist[OF fnd wk len, of mem] chk fit by auto
  have st: "status_ok w" "unat (pr_fragNo info) < cw_n w" using wk i(1) fi num(2) by (auto simp: work_ok_def)
  have hw: "holds w' body" unfolding b(2)
    by (rule holds_check_in[OF wk st(2) ni _ b(1,3)]) (use w(4) pl(3)[of be] num fi p'(1) in simp_all)
  have im: "unat ` set (combinedFragmentNo (cw_status w')) = insert i K"
    unfolding b(2) combined_image[OF st] fi w(3) ..
  have w'n: "cw_n w' = n" "cw_S w' = ?S" "cw_frameInfo w' = frame_info h ?S n" "cw_buffer w' = Some b'"
    using num w(2) by (simp_all add: b(2))
  have dn: "IsCombineDone (cw_status w') \<longleftrightarrow> insert i K = {0..<n}"
    using done_iff_all[of w'] b(7) im w'n by (simp add: work_ok_def)
  have src: "works_of (pr_sourceId info) s = [(pr_frameId info, w)]" by (simp add: p'(3) w(1))
  have cok: "\<exists>e out s'. AssembleFrameFragment mem bytes len info s = Ok (e, out, s') \<and> combiner_ok s'"
    using assemble_step[OF ok len pid, of mem info] by blast
  show ?thesis
  proof (cases "insert i K = {0..<n}")
    case True
    then have "content b' = replicate 32 0 @ body"
      using holds_complete[OF b(7) hw _ w'n(4)] im w'n by simp
    then show ?thesis
      using True as dn cok b(4,5,7) w(2) w'n unfolding src by (auto simp: p'(3) om_erase_def work_ok_def buffer_ok_def frame_info_def)
  next
    case False
    then show ?thesis using as dn cok hw im w'n unfolding src by (auto simp: p'(3) collecting_def)
  qed
qed

section \<open>Sequences of packets\<close>

primrec feed :: "allocator \<Rightarrow> (byte list \<times> u32 \<times> parse_result) list \<Rightarrow> frame_combiner \<Rightarrow>
    ((errcode \<times> (serial_buffer option \<times> parse_result) option) list \<times> frame_combiner) res" where
  "feed mem [] s = Ok ([], s)"
| "feed mem (p # ps) s =
     res_bind (AssembleFrameFragment mem (fst p) (fst (snd p)) (snd (snd p)) s) (\<lambda>(e, out, s1).
       res_bind (feed mem ps s1) (\<lambda>(outs, s2). Ok ((e, out) # outs, s2)))"

text \<open>The answers that the packets of one source got.\<close>

definition answers :: "u64 \<Rightarrow> (byte list \<times> u32 \<times> parse_result) list \<Rightarrow> 'r list \<Rightarrow> 'r list" where
  "answers src ps outs = map snd (filter (\<lambda>(p, r). pr_sourceId (snd (snd p)) = src) (zip ps outs))"

definition from_source :: "u64 \<Rightarrow> (byte list \<times> u32 \<times> parse_result) list \<Rightarrow> (byte list \<times> u32 \<times> parse_result) list" where
  "from_source src ps = filter (\<lambda>p. pr_sourceId (snd (snd p)) = src) ps"

definition in_memory :: "byte list \<times> u32 \<times> parse_result \<Rightarrow> bool" where
  "in_memory p \<longleftrightarrow> unat (fst (snd p)) \<le> length (fst p)"

lemma answers_Cons:
  "answers src (p # ps) (r # rs) = (if pr_sourceId (snd (snd p)) = src then r # answers src ps rs else answers src ps rs)"
  by (simp add: answers_def)

lemma progress_ne: "unat (p::u64) + Suc k < 2 ^ 64 \<Longrightarrow> p \<noteq> - 1"
proof
  assume "unat p + Suc k < 2 ^ 64" "p = - 1"
  then have "unat (- 1 :: u64) < 18446744073709551615" by simp
  then have "(- 1 :: u64) < 18446744073709551615" by (simp add: word_less_nat_alt)
  then show False by simp
qed

lemma feed_others:
  assumes "combiner_ok s" "\<forall>p \<in> set ps. in_memory p" "from_source src ps = []" "unat (incProgressId s) + length ps < 2 ^ 64"
  shows "\<exists>outs s'. feed mem ps s = Ok (outs, s') \<and> answers src ps outs = [] \<and> works_of src s' = works_of src s"
  using assms
proof (induction ps arbitrary: s)
  case (Cons p ps)
  have ns: "pr_sourceId (snd (snd p)) \<noteq> src" "from_source src ps = []"
    using Cons.prems(3) by (auto simp: from_source_def split: if_splits)
  have pid: "incProgressId s \<noteq> - 1" using Cons.prems(4) progress_ne[of "incProgressId s" "length ps"] by simp
  have len: "unat (fst (snd p)) \<le> length (fst p)" using Cons.prems(2) by (simp add: in_memory_def)
  obtain e out s1 where s1: "AssembleFrameFragment mem (fst p) (fst (snd p)) (snd (snd p)) s = Ok (e, out, s1)"
    "combiner_ok s1" "works_of src s1 = works_of src s" "unat (incProgressId s1) \<le> unat (incProgressId s) + 1"
    using assemble_step[OF Cons.prems(1) len pid, of mem "snd (snd p)"] ns(1) by auto
  have "unat (incProgressId s1) + length ps < 2 ^ 64" using s1(4) Cons.prems(4) by simp
  from Cons.IH[OF s1(2) _ ns(2) this] obtain outs s' where "feed mem ps s1 = Ok (outs, s')" "answers src ps outs = []"
    "works_of src s' = works_of src s1" using Cons.prems(2) by auto
  then show ?case using s1 ns by (auto simp: answers_Cons)
qed (simp add: answers_def)

text \<open>The frame that comes out, and the answers before it.\<close>

definition reassembled :: "CommPhyHeader \<Rightarrow> byte list \<Rightarrow> nat \<Rightarrow> nat \<Rightarrow>
    (errcode \<times> (serial_buffer option \<times> parse_result) option) list \<Rightarrow> bool" where
  "reassembled h body n k rs \<longleftrightarrow>
     (\<exists>b. rs = replicate (k - 1) (E_OK, None) @ [(E_OK, Some (Some b, frame_info h (length body) n))] \<and>
          sb_ok b \<and> sb_owned b \<and> content b = replicate 32 0 @ body \<and>
          headerLen b = (if GetFrameType (ph_packetType h) \<noteq> APPLICATION_MESSAGE then 32 else 72) \<and>
          paddingLen b = 0 \<and> extendHeadLen b = 0)"

lemma from_source_own:
  assumes "from_source src (p # ps) = map f js" "pr_sourceId (snd (snd p)) = src"
  shows "\<exists>j js'. js = j # js' \<and> p = f j \<and> from_source src ps = map f js'"
  using assms by (cases js) (auto simp: from_source_def)

lemma feed_rest:
  assumes sp: "split_params h body n" and c: "collecting h body n K s" "\<forall>p \<in> set ps. in_memory p"
    and js: "from_source (ph_sourceId h) ps = map (packet_of be h body n) js"
      "distinct js" "set js = {0..<n} - K" "js \<noteq> []" "K \<subseteq> {0..<n}"
    and pid: "unat (incProgressId s) + length ps < 2 ^ 64"
  shows "\<exists>outs s'. feed mem ps s = Ok (outs, s') \<and> works_of (ph_sourceId h) s' = [] \<and>
    reassembled h body n (length js) (answers (ph_sourceId h) ps outs)"
  using c js pid
proof (induction ps arbitrary: s K js)
  case Nil
  then show ?case by (simp add: from_source_def)
next
  case (Cons p ps)
  let ?src = "ph_sourceId h"
  have ok: "combiner_ok s" using Cons.prems(1) by (simp add: collecting_def)
  have pid: "incProgressId s \<noteq> - 1" using Cons.prems(8) progress_ne[of "incProgressId s" "length ps"] by simp
  have len: "unat (fst (snd p)) \<le> length (fst p)" using Cons.prems(2) by (simp add: in_memory_def)
  obtain e out s1 where s1: "AssembleFrameFragment mem (fst p) (fst (snd p)) (snd (snd p)) s = Ok (e, out, s1)"
    "combiner_ok s1" "\<forall>src. src \<noteq> pr_sourceId (snd (snd p)) \<longrightarrow> works_of src s1 = works_of src s"
    "unat (incProgressId s1) \<le> unat (incProgressId s) + 1"
    using assemble_step[OF ok len pid, of mem "snd (snd p)"] by auto
  have pid1: "unat (incProgressId s1) + length ps < 2 ^ 64" using s1(4) Cons.prems(8) by simp
  show ?case
  proof (cases "pr_sourceId (snd (snd p)) = ?src")
    case False
    then have "collecting h body n K s1" using Cons.prems(1) s1(2,3) by (auto simp: collecting_def)
    moreover have "from_source ?src ps = map (packet_of be h body n) js"
      using Cons.prems(3) False by (simp add: from_source_def)
    ultimately obtain outs s' where "feed mem ps s1 = Ok (outs, s')" "works_of ?src s' = []"
      "reassembled h body n (length js) (answers ?src ps outs)"
      using Cons.IH[of K s1 js] Cons.prems pid1 by auto
    then show ?thesis using s1(1) False by (auto simp: answers_Cons)
  next
    case own: True
    obtain j js' where j: "js = j # js'" "p = packet_of be h body n j" "from_source ?src ps = map (packet_of be h body n) js'"
      using from_source_own[OF Cons.prems(3) own] by blast
    have jn: "j < n" "j \<notin> K" "set js' = {0..<n} - insert j K" "distinct js'" "insert j K \<subseteq> {0..<n}"
      using Cons.prems(4,5,7) j(1) by auto
    have pk: "packet_of be h body n j = (fst p, fst (snd p), snd (snd p))" using j(2) by simp
    note np = next_packet[OF sp Cons.prems(1) pid jn(1,2) pk, of mem]
    show ?thesis
    proof (cases "js' = []")
      case True
      then have "insert j K = {0..<n}" using jn(3,5) by auto
      then obtain b where b: "out = Some (Some b, frame_info h (length body) n)" "e = E_OK" "works_of ?src s1 = []"
        "sb_ok b" "sb_owned b" "content b = replicate 32 0 @ body"
        "headerLen b = (if GetFrameType (ph_packetType h) \<noteq> APPLICATION_MESSAGE then 32 else 72)"
        "paddingLen b = 0" "extendHeadLen b = 0" using np s1(1) by auto
      have "from_source ?src ps = []" using j(3) True by simp
      from feed_others[OF s1(2) _ this pid1, of mem] obtain outs s' where f: "feed mem ps s1 = Ok (outs, s')" "answers ?src ps outs = []"
        "works_of ?src s' = works_of ?src s1" using Cons.prems(2) by auto
      then have "feed mem (p # ps) s = Ok ((e, out) # outs, s')" using s1(1) by simp
      moreover have "answers ?src (p # ps) ((e, out) # outs) = [(e, out)]" using own f(2) by (simp add: answers_Cons)
      ultimately show ?thesis using b f(3) j(1) True unfolding reassembled_def by auto
    next
      case False
      then have "insert j K \<noteq> {0..<n}" using jn(3) by (metis Diff_cancel set_empty)
      then have c1: "e = E_OK" "out = None" "collecting h body n (insert j K) s1" using np s1(1) by auto
      obtain outs s' where f: "feed mem ps s1 = Ok (outs, s')" "works_of ?src s' = []"
        "reassembled h body n (length js') (answers ?src ps outs)"
        using Cons.IH[OF c1(3) _ j(3) jn(4,3) False jn(5) pid1] Cons.prems(2) by auto
      have "replicate (length js' - 1 + 1) (E_OK, None) = (E_OK, None) # replicate (length js' - 1) (E_OK, None)" by simp
      moreover have "length js - 1 = length js' - 1 + 1" using j(1) False by (cases js') auto
      ultimately have "reassembled h body n (length js) ((E_OK, None) # answers ?src ps outs)"
        using f(3) unfolding reassembled_def by auto
      then show ?thesis using f(1,2) s1(1) own c1 by (auto simp: answers_Cons)
    qed
  qed
qed


lemma packet_in_memory: "split_params h body n \<Longrightarrow> i < n \<Longrightarrow> in_memory (packet_of be h body n i)"
  using pkt_len_ok(1)[of h body n i be] by (simp only: in_memory_def packet_of_def fst_conv snd_conv order_refl)

lemma packet_source [simp]: "pr_sourceId (snd (snd (packet_of be h body n i))) = ph_sourceId h"
  by (simp add: packet_of_def)


section \<open>Rejected packets\<close>

text \<open>
  A packet that the combiner refuses (a duplicate of a fragment already collected, a packet that
  disagrees with its frame about the length or the number of fragments, one that is too short,
  one whose structure makes no sense) changes nothing: no frame comes out and every frame in
  the making is as it was.
\<close>

theorem rejected_packet_no_effect:
  assumes "combiner_reach mem s" and "unat len \<le> length bytes"
    and "AssembleFrameFragment mem bytes len info s = Ok (e, out, s')"
  shows "(e \<noteq> E_OK \<longrightarrow> out = None \<and> (\<forall>src. works_of src s' = works_of src s)) \<and>
    (\<forall>w. om_find (works_of (pr_sourceId info) s) (pr_frameId info) = Some w \<longrightarrow>
       pr_fragNo info \<in> set (combinedFragmentNo (cw_status w)) \<or> pr_frameLen info \<noteq> pr_frameLen (cw_frameInfo w) \<or>
       pr_fragCount info \<noteq> pr_fragCount (cw_frameInfo w) \<longrightarrow> e = E_COMBINE_FAIL)"
proof (cases "om_find (works_of (pr_sourceId info) s) (pr_frameId info)")
  case None
  then show ?thesis
    using assemble_new[OF None combiner_reach_ok[OF assms(1)] assms(2), of mem] assms(3) by auto
next
  case (Some w)
  have wk: "work_ok (pr_sourceId info) (pr_frameId info) w"
    by (rule works_singleton(2)[OF works_ok_of[OF combiner_reach_ok[OF assms(1)]] Some])
  show ?thesis
    using assemble_exist[OF Some wk assms(2), of mem] assms(3) Some
    by (auto simp: CheckPacketWithOriWork_def IsFragNoAlreadyExist_def split: if_splits)
qed

theorem rejected_packet_no_effect_witness:
  "\<exists>s'. AssembleFrameFragment never_oom [1, 2, 3] 3 new_ParseResult new_FrameCombiner = Ok (E_PARSE_FAIL, None, s') \<and>
     (\<forall>src. works_of src s' = works_of src new_FrameCombiner)"
proof -
  have "AnalyzeSplitStructure new_ParseResult = Err E_PARSE_FAIL"
    by (simp add: AnalyzeSplitStructure_def new_ParseResult_def guard_err_def)
  then obtain s' where a: "AssembleFrameFragment never_oom [1, 2, 3] 3 new_ParseResult new_FrameCombiner = Ok (E_PARSE_FAIL, None, s')"
    by (simp add: AssembleFrameFragment_def CreateNewCombineWork_def new_ParseResult_def works_of_def new_FrameCombiner_def
        set_works_def om_get_def om_find_Cons)
  show ?thesis
    using rejected_packet_no_effect[OF combiner_reach.init _ a] a by simp
qed

section \<open>What the reassembled frame does not carry\<close>

definition no_version :: "frame_combiner \<Rightarrow> bool" where
  "no_version s \<longleftrightarrow> (\<forall>src. \<forall>(fid, w) \<in> set (works_of src s). pr_dbVersion (cw_frameInfo w) = 0)"

lemma no_version_set:
  assumes "no_version s" "\<forall>(fid, w) \<in> set ws. pr_dbVersion (cw_frameInfo w) = 0"
  shows "no_version (set_works src ws s)"
  using assms by (simp add: no_version_def)

lemma no_version_step:
  assumes ok: "combiner_ok s" "no_version s" and len: "unat len \<le> length bytes"
    and a: "AssembleFrameFragment mem bytes len info s = Ok (e, out, s')"
  shows "no_version s' \<and> (\<forall>buf fi. out = Some (buf, fi) \<longrightarrow> pr_dbVersion fi = 0)"
proof (cases "om_find (works_of (pr_sourceId info) s) (pr_frameId info)")
  case None
  have "no_version (set_works (pr_sourceId info) [(pr_frameId info, check_in p i b (fresh_work info b0 fl ll))] (s\<lparr>totalSizeByByte := t, incProgressId := q\<rparr>))"
    for p i b b0 fl ll t q
    using ok(2) by (intro no_version_set) (simp_all add: no_version_def fresh_work_def new_ParseResult_def)
  moreover have "no_version (set_works (pr_sourceId info) (works_of (pr_sourceId info) s) s)"
    using ok(2) by (intro no_version_set) (auto simp: no_version_def)
  ultimately show ?thesis using assemble_new[OF None ok(1) len, of mem] a by auto
next
  case (Some w)
  note sw = works_singleton[OF works_ok_of[OF ok(1)] Some]
  have v: "pr_dbVersion (cw_frameInfo w) = 0"
    using ok(2) om_find_Some_mem[OF Some] by (auto simp: no_version_def)
  have "no_version (set_works (pr_sourceId info) [(pr_frameId info, check_in p i b w)] (s\<lparr>incProgressId := q\<rparr>))"
    "no_version (set_works (pr_sourceId info) [] (s\<lparr>incProgressId := q\<rparr>))"
    "no_version (set_works (pr_sourceId info) [(pr_frameId info, w)] s)" for p i b q
    using ok(2) v by (auto intro!: no_version_set simp: no_version_def)
  then show ?thesis
    using assemble_exist[OF Some sw(2) len, of mem] a v unfolding sw(1)
    by (auto simp: om_erase_def split: if_splits)
qed

lemma no_version_surveillance: "combiner_ok s \<Longrightarrow> no_version s \<Longrightarrow> no_version (PeriodicalSurveillance s)"
  using surveil_filter works_ok_of unfolding no_version_def works_of_surveillance
  by (fastforce simp: works_ok_def)

text \<open>
  A frame that was split and put together again never carries the database version of its
  sender: whatever version its packets announced, the frame's information says zero.
\<close>

theorem reassembled_frame_loses_db_version:
  assumes "combiner_reach mem s" and "unat len \<le> length bytes"
    and "AssembleFrameFragment mem bytes len info s = Ok (e, Some (buf, fi), s')"
  shows "pr_dbVersion fi = 0"
proof -
  have "no_version s" using assms(1)
  proof (induction rule: combiner_reach.induct)
    case init
    then show ?case by (simp add: no_version_def new_FrameCombiner_def works_of_def)
  next
    case (packet s len bytes info e out s')
    then show ?case using no_version_step[OF combiner_reach_ok packet.IH] by blast
  next
    case (tick s)
    then show ?case by (intro no_version_surveillance combiner_reach_ok)
  qed
  then show ?thesis using no_version_step[OF combiner_reach_ok[OF assms(1)] _ assms(2,3)] by blast
qed

theorem reassembled_frame_loses_db_version_witness:
  "\<exists>bytes len info s buf fi s'. combiner_reach never_oom s \<and> pr_dbVersion info = DB_GLOBAL_VERSION \<and>
     AssembleFrameFragment never_oom bytes len info s = Ok (E_OK, Some (buf, fi), s') \<and> pr_dbVersion fi = 0"
proof -
  let ?h = "\<lparr>ph_magic = MAGIC_CODE, ph_version = PROTOCOL_VERSION, ph_packetLen = 136, ph_checkSum = 0, ph_sourceId = 5,
    ph_frameId = 9, ph_packetType = 0x10, ph_paddingLen = 0, ph_dbIntVer = DB_GLOBAL_VERSION\<rparr>"
  let ?p = "\<lambda>i. packet_of False ?h (replicate 100 7) 2 i"
  have sp: "split_params ?h (replicate 100 7) 2" by (simp add: split_params_def)
  have pk: "?p i = (fst (?p i), fst (snd (?p i)), snd (snd (?p i)))" for i by simp
  have m: "unat (fst (snd (?p i))) \<le> length (fst (?p i))" if "i < 2" for i
    using packet_in_memory[OF sp that, of False] by (simp add: in_memory_def)
  have pid: "incProgressId new_FrameCombiner \<noteq> - 1" by (simp add: new_FrameCombiner_def)
  obtain s1 where s1: "AssembleFrameFragment never_oom (fst (?p 0)) (fst (snd (?p 0))) (snd (snd (?p 0))) new_FrameCombiner
      = Ok (E_OK, None, s1)" "collecting ?h (replicate 100 7) 2 {0} s1"
    using first_packet[OF sp combiner_ok_new pid _ _ _ _ pk[of 0], of never_oom]
    by (auto simp: works_of_def new_FrameCombiner_def)
  have r: "combiner_reach never_oom s1" by (rule combiner_reach.packet[OF combiner_reach.init m[of 0] pid s1(1)]) simp
  have "unat (incProgressId s1) \<le> 1"
    using assemble_step[OF combiner_ok_new m[of 0] pid, of never_oom "snd (snd (?p 0))"] s1(1)
    by (simp add: new_FrameCombiner_def)
  then have pid1: "incProgressId s1 \<noteq> - 1" using progress_ne[of "incProgressId s1" 0] by simp
  have "insert 1 {0} = {0..<2::nat}" by auto
  then obtain b s' where o: "AssembleFrameFragment never_oom (fst (?p 1)) (fst (snd (?p 1))) (snd (snd (?p 1))) s1
      = Ok (E_OK, Some (Some b, frame_info ?h 100 2), s')"
    using next_packet[OF sp s1(2) pid1 _ _ pk[of 1], of never_oom] by auto
  have "pr_dbVersion (snd (snd (?p 1))) = DB_GLOBAL_VERSION" by (simp add: packet_of_def pkt_result_def)
  moreover have "pr_dbVersion (frame_info ?h 100 2) = 0"
    by (rule reassembled_frame_loses_db_version[OF r m[of 1] o]) simp
  ultimately show ?thesis using o r by blast
qed

end
