(* ===== verification/Aggregator_Receive.thy ===== *)
theory Aggregator_Receive
  imports Communicator Protocol_Message Frame_Retainer Frame_Combiner
begin

text \<open>
  The receiving half of the communicator aggregator (\<^verbatim>\<open>communicator/src/communicator_aggregator.cpp\<close>): the
  table of communicators, the handlers of bytes and connection changes that come from the adapter, the
  routing of frames to communicators, and what becomes of a frame whose communicator is missing.
\<close>

section \<open>State\<close>

type_synonym user_comms = "(label, communicator \<times> bool) omap"

text \<open>
  The table maps users and labels to a communicator and whether it is activated.  The tasks the status adapter
  has queued and the calls made to users are kept in the order in which they arise.
\<close>

record 'o aggregator =
  commMap :: "(string, user_comms) omap"
  ag_combiner :: frame_combiner
  ag_retainer :: frame_retainer
  ag_linker :: linker
  ag_adapter :: "status_adapter option"
  ag_adapterTasks :: "adapter_task list"
  ag_send :: send_core
  versionMap :: "(target, u16) omap"
  ag_onCommLack :: "nat option"
  ag_onCommLackFinalizer :: "nat option"
  ag_onConnect :: "nat option"
  ag_onConnectFinalizer :: "nat option"
  notFoundFeedback :: bool
  ag_log :: "'o up_event list"

record UserInfo =
  receiveUser :: string
  sendUser :: string

datatype DBStatus = DB_OK | NO_PERMISSION | NEED_CORRECT_TARGET_USER | OTHER_STATUS

text \<open>
  Besides the surroundings of communicators and linker: whether a process communicator is set and its
  answer about the users of a frame, the answer of the callback for missing communicators, and what
  other threads do while that callback runs.
\<close>

record 'o recv_env = "'o comm_env" +
  re_link :: link_env
  re_processCommunicator :: bool
  re_userInfo :: "label \<Rightarrow> target \<Rightarrow> DBStatus \<times> UserInfo list"
  re_commLack :: "label \<Rightarrow> string \<Rightarrow> errcode"
  re_meanwhile :: "'o aggregator \<Rightarrow> 'o aggregator"

definition DEFAULT_USER :: string where
  "DEFAULT_USER = ''default_user''"

abbreviation cenv :: "'o recv_env \<Rightarrow> 'o comm_env" where
  "cenv env \<equiv> comm_env.truncate env"

definition ag_net :: "'o aggregator \<Rightarrow> net" where
  "ag_net ag = (ag_adapter ag, ag_send ag)"

definition set_net :: "net \<Rightarrow> 'o aggregator \<Rightarrow> 'o aggregator" where
  "set_net st ag = ag\<lparr>ag_adapter := fst st, ag_send := snd st\<rparr>"

definition link_state :: "'o recv_env \<Rightarrow> 'o aggregator \<Rightarrow> (send_env \<times> send_core) link_state" where
  "link_state env ag = (ag_linker ag, ag_adapter ag, ce_send env, ag_send ag)"

definition set_link :: "(send_env \<times> send_core) link_state \<Rightarrow> 'o aggregator \<Rightarrow> 'o aggregator" where
  "set_link st ag = (case st of (lk, sa, _, c) \<Rightarrow> ag\<lparr>ag_linker := lk, ag_adapter := sa, ag_send := c\<rparr>)"

definition emit :: "'o up_event list \<Rightarrow> 'o aggregator \<Rightarrow> 'o aggregator" where
  "emit es ag = ag\<lparr>ag_log := ag_log ag @ es\<rparr>"

definition comms_of :: "string \<Rightarrow> 'o aggregator \<Rightarrow> user_comms" where
  "comms_of user ag = om_get [] (commMap ag) user"

text \<open>\<^verbatim>\<open>commMap_[userId]\<close> creates an entry for the user when there is none.\<close>

definition touch_user :: "string \<Rightarrow> 'o aggregator \<Rightarrow> 'o aggregator" where
  "touch_user user ag = ag\<lparr>commMap := om_touch [] user (commMap ag)\<rparr>"

definition set_comm :: "string \<Rightarrow> label \<Rightarrow> communicator \<times> bool \<Rightarrow> 'o aggregator \<Rightarrow> 'o aggregator" where
  "set_comm user l e ag = ag\<lparr>commMap := om_insert user (om_insert l e (comms_of user ag)) (commMap ag)\<rparr>"

section \<open>Allocation and release\<close>

definition AllocCommunicator :: "allocator \<Rightarrow> label \<Rightarrow> string \<Rightarrow> 'o aggregator \<Rightarrow> errcode \<times> 'o aggregator" where
  "AllocCommunicator mem l userId ag =
     (if length l \<noteq> COMM_LABEL_LENGTH then (E_INVALID_ARGS, ag)
      else if om_count (commMap ag) userId \<and> om_count (comms_of userId ag) l then (E_ALREADY_ALLOC, ag)
      else if \<not> mem NewCommunicator then (E_OUT_OF_MEMORY, ag)
      else (E_OK, set_comm userId l (new_Communicator l, False) ag))"

definition AllocCommunicator_num :: "allocator \<Rightarrow> bool \<Rightarrow> u64 \<Rightarrow> string \<Rightarrow> 'o aggregator \<Rightarrow> errcode \<times> 'o aggregator" where
  "AllocCommunicator_num mem be n userId ag =
     (let netOrderLabel = HostToNet be n; eachByte = store_word be netOrderLabel
      in AllocCommunicator mem (eachByte @ replicate (COMM_LABEL_LENGTH - length eachByte) 0) userId ag)"

definition ReleaseCommunicator :: "'o recv_env \<Rightarrow> label \<Rightarrow> string \<Rightarrow> 'o aggregator \<Rightarrow> 'o aggregator res" where
  "ReleaseCommunicator env l userId ag =
     (if \<not> om_count (commMap ag) userId \<or> \<not> om_count (comms_of userId ag) l then Ok ag
      else let rest = om_erase l (comms_of userId ag);
               ag1 = ag\<lparr>commMap := (if rest = [] then om_erase userId (commMap ag) else om_insert userId rest (commMap ag))\<rparr>
           in res_bind (DecreaseLocalLabel (re_link env) agg_send l (link_state env ag1))
                (\<lambda>(errCode, st). Ok (set_link st ag1)))"

section \<open>Callbacks of the aggregator\<close>

definition RegCommunicatorLackCallback :: "nat option \<Rightarrow> nat option \<Rightarrow> 'o aggregator \<Rightarrow> errcode \<times> 'o aggregator" where
  "RegCommunicatorLackCallback onCommLack inOper ag =
     (let (errCode, h, f, fin) = RegCallBack onCommLack (ag_onCommLack ag) inOper (ag_onCommLackFinalizer ag)
      in (errCode, emit (fin_event fin) (ag\<lparr>ag_onCommLack := h, ag_onCommLackFinalizer := f\<rparr>)))"

definition Aggr_RegOnConnectCallback :: "nat option \<Rightarrow> nat option \<Rightarrow> 'o aggregator \<Rightarrow> errcode \<times> 'o aggregator" where
  "Aggr_RegOnConnectCallback onConnect inOper ag =
     (let (errCode, h, f, fin) = RegCallBack onConnect (ag_onConnect ag) inOper (ag_onConnectFinalizer ag);
          calls = (case onConnect of
                     Some k \<Rightarrow> if errCode = E_OK
                               then map (\<lambda>t. ConnectCall k t True) (GetOnlineRemoteTarget (ag_linker ag)) else []
                   | None \<Rightarrow> [])
      in (errCode, emit (fin_event fin @ calls) (ag\<lparr>ag_onConnect := h, ag_onConnectFinalizer := f\<rparr>)))"

definition EnableCommunicatorNotFoundFeedback :: "bool \<Rightarrow> 'o aggregator \<Rightarrow> 'o aggregator" where
  "EnableCommunicatorNotFoundFeedback isEnable ag = ag\<lparr>notFoundFeedback := isEnable\<rparr>"

definition SetRemoteCommunicatorVersion :: "target \<Rightarrow> u16 \<Rightarrow> 'o aggregator \<Rightarrow> 'o aggregator" where
  "SetRemoteCommunicatorVersion target v ag = ag\<lparr>versionMap := om_insert target v (versionMap ag)\<rparr>"

definition GetRemoteCommunicatorVersion :: "target \<Rightarrow> 'o aggregator \<Rightarrow> u16 res" where
  "GetRemoteCommunicatorVersion target ag =
     (case om_find (versionMap ag) target of None \<Rightarrow> Err E_NOT_FOUND | Some v \<Rightarrow> Ok v)"

section \<open>Notifying communicators\<close>

text \<open>An update of the communicators of a user that satisfy a condition, in the order of the labels.\<close>

fun notify_user :: "(label \<Rightarrow> bool) \<Rightarrow> (communicator \<Rightarrow> 'o up_event list \<times> communicator) \<Rightarrow> user_comms \<Rightarrow>
    'o up_event list \<times> user_comms" where
  "notify_user P f [] = ([], [])"
| "notify_user P f ((l, cm, act) # es) =
     (let (calls, cm') = (if act \<and> P l then f cm else ([], cm)); (calls', es') = notify_user P f es
      in (calls @ calls', (l, cm', act) # es'))"

fun notify_users :: "(label \<Rightarrow> bool) \<Rightarrow> (communicator \<Rightarrow> 'o up_event list \<times> communicator) \<Rightarrow>
    (string, user_comms) omap \<Rightarrow> 'o up_event list \<times> (string, user_comms) omap" where
  "notify_users P f [] = ([], [])"
| "notify_users P f ((u, es) # m) =
     (let (calls, es') = notify_user P f es; (calls', m') = notify_users P f m
      in (calls @ calls', (u, es') # m'))"

definition notify_all :: "(label \<Rightarrow> bool) \<Rightarrow> (communicator \<Rightarrow> 'o up_event list \<times> communicator) \<Rightarrow> 'o aggregator \<Rightarrow> 'o aggregator" where
  "notify_all P f ag = (let (calls, m) = notify_users P f (commMap ag) in emit calls (ag\<lparr>commMap := m\<rparr>))"

definition NotifySendableToAllCommunicator :: "'o aggregator \<Rightarrow> 'o aggregator" where
  "NotifySendableToAllCommunicator ag = notify_all (\<lambda>_. True) (\<lambda>cm. (OnSendAvailable cm, cm)) ag"

definition NotifyConnectChange :: "target \<Rightarrow> (label, bool) omap \<Rightarrow> 'o aggregator \<Rightarrow> 'o aggregator" where
  "NotifyConnectChange srcTarget changedLabels ag =
     (if \<not> IsRemoteTargetOnline (ag_linker ag) srcTarget then ag
      else fold (\<lambda>(l, isOnline). notify_all (\<lambda>l'. l' = l) (OnConnectChange srcTarget isOnline)) changedLabels ag)"

definition OnRemoteDBStatusChange :: "'o recv_env \<Rightarrow> target \<Rightarrow> DBInfo list \<Rightarrow> 'o aggregator \<Rightarrow> 'o aggregator" where
  "OnRemoteDBStatusChange env devInfo dbInfos ag =
     (let changedLabels = fold (\<lambda>i. om_insert (GenerateHashLabel (le_hash (re_link env)) i) (di_isNeedSync i)) dbInfos []
      in NotifyConnectChange devInfo changedLabels
           (ag\<lparr>ag_linker := UpdateOnlineLabels devInfo changedLabels (ag_linker ag)\<rparr>))"

definition OnTargetChange :: "'o recv_env \<Rightarrow> target \<Rightarrow> bool \<Rightarrow> 'o aggregator \<Rightarrow> 'o aggregator res" where
  "OnTargetChange env target isConnect ag0 =
     (if target = [] then Ok ag0
      else
        let ag = emit (case ag_onConnect ag0 of None \<Rightarrow> [] | Some k \<Rightarrow> [ConnectCall k target isConnect]) ag0
        in if isConnect
           then res_bind (TargetOnline (re_link env) agg_send target (link_state env ag))
                  (\<lambda>(errCode, relatedLabels, st).
                     Ok (notify_all (\<lambda>l. l \<in> set relatedLabels) (OnConnectChange target True) (set_link st ag)))
           else case Linker_TargetOffline (re_link env) target (ag_linker ag, ag_adapter ag) of
                  (relatedLabels, _, lk, sa) \<Rightarrow>
                    Ok (notify_all (\<lambda>_. True) (OnConnectChange target False) (ag\<lparr>ag_linker := lk, ag_adapter := sa\<rparr>)))"

definition ClearOnlineLabel :: "'o aggregator \<Rightarrow> 'o aggregator" where
  "ClearOnlineLabel ag = ag\<lparr>ag_linker := Linker_ClearOnlineLabel (ag_linker ag)\<rparr>"

section \<open>Feedback to the sender\<close>

definition TriggerVersionNegotiation :: "'o recv_env \<Rightarrow> target \<Rightarrow> 'o aggregator \<Rightarrow> 'o aggregator res" where
  "TriggerVersionNegotiation env dstTarget ag =
     (case BuildEmptyFrameForVersionNegotiate (se_mem (ce_send env)) of
        Fault \<Rightarrow> Fault
      | Err e \<Rightarrow> Ok ag
      | Ok buffer \<Rightarrow>
          res_bind (ScheduleSendTask (ce_send env) None dstTarget buffer EMPTY link_config (ag_net ag))
            (\<lambda>(_, _, st). Ok (set_net st ag)))"

definition TriggerCommunicatorFeedback ::
  "'o recv_env \<Rightarrow> target \<Rightarrow> label \<Rightarrow> 'o message option \<Rightarrow> u32 \<Rightarrow> 'o aggregator \<Rightarrow> 'o aggregator res" where
  "TriggerCommunicatorFeedback env dstTarget dstLabel oriMsg sendErrNo ag =
     (case oriMsg of
        None \<Rightarrow> Ok ag
      | Some m \<Rightarrow>
          if messageType m \<noteq> TYPE_REQUEST then Ok ag
          else let m1 = (SetMessageType TYPE_RESPONSE m)\<lparr>errorNo := sendErrNo\<rparr>
               in case BuildFeedbackMessageFrame (se_mem (ce_send env)) (se_be (ce_send env)) (ce_tfs env) (Some m1) dstLabel of
                    Fault \<Rightarrow> Fault
                  | Err e \<Rightarrow> Ok ag
                  | Ok buffer \<Rightarrow>
                      res_bind (ScheduleSendTask (ce_send env) None dstTarget buffer APPLICATION_MESSAGE link_config (ag_net ag))
                        (\<lambda>(_, _, st). Ok (set_net st ag)))"

definition TryToFeedBackWithErr ::
  "'o recv_env \<Rightarrow> target \<Rightarrow> label \<Rightarrow> serial_buffer option \<Rightarrow> u32 \<Rightarrow> 'o aggregator \<Rightarrow> 'o aggregator res" where
  "TryToFeedBackWithErr env dstTarget dstLabel inOriFrame inErrCode ag =
     (if dstTarget = [] \<or> inOriFrame = None then Ok ag
      else res_bind (ToMessage (se_mem (ce_send env)) (se_be (ce_send env)) (ce_tfs env) inOriFrame True)
        (\<lambda>(errCode, message).
           case message of
             None \<Rightarrow> if errCode = E_VERSION_NOT_SUPPORT then TriggerVersionNegotiation env dstTarget ag else Ok ag
           | Some m \<Rightarrow> TriggerCommunicatorFeedback env dstTarget dstLabel (Some m) inErrCode ag))"

definition TryToFeedbackWhenCommunicatorNotFound ::
  "'o recv_env \<Rightarrow> target \<Rightarrow> label \<Rightarrow> serial_buffer option \<Rightarrow> u32 \<Rightarrow> 'o aggregator \<Rightarrow> 'o aggregator res" where
  "TryToFeedbackWhenCommunicatorNotFound env dstTarget dstLabel inOriFrame inErrCode ag =
     (if \<not> notFoundFeedback ag then Ok ag
      else TryToFeedBackWithErr env dstTarget dstLabel inOriFrame inErrCode ag)"

section \<open>Routing\<close>

text \<open>Hand a frame to the communicator of a user; \<^verbatim>\<open>map::at\<close> must find it.\<close>

definition deliver_to ::
  "'o recv_env \<Rightarrow> string \<Rightarrow> label \<Rightarrow> target \<Rightarrow> serial_buffer option \<Rightarrow> string \<Rightarrow> u16 \<Rightarrow> 'o aggregator \<Rightarrow>
   (errcode \<times> 'o aggregator) res" where
  "deliver_to env user l srcTarget buf sender dbVersion ag =
     (case om_find (comms_of user ag) l of
        None \<Rightarrow> Fault
      | Some (cm, act) \<Rightarrow>
          res_bind (OnBufferReceive (cenv env) srcTarget buf sender dbVersion cm (ag_net ag))
            (\<lambda>(ret, calls, cm', st). Ok (ret, emit calls (set_net st (set_comm user l (cm', act) ag)))))"

definition find_active :: "label \<Rightarrow> (string, user_comms) omap \<Rightarrow> string option" where
  "find_active l m = map_option fst (find (\<lambda>(u, es). list_ex (\<lambda>(l', cm, act). l' = l \<and> act) es) m)"

definition TryDeliverAppLayerFrameToCommunicatorNoMutex ::
  "'o recv_env \<Rightarrow> u16 \<Rightarrow> target \<Rightarrow> serial_buffer option \<Rightarrow> label \<Rightarrow> UserInfo \<Rightarrow> 'o aggregator \<Rightarrow>
   (errcode \<times> 'o aggregator) res" where
  "TryDeliverAppLayerFrameToCommunicatorNoMutex env remoteDbVersion srcTarget buf toLabel userInfo ag0 =
     (let ag = touch_user (receiveUser userInfo) ag0;
          direct = (case om_find (comms_of (receiveUser userInfo) ag) toLabel of None \<Rightarrow> False | Some (cm, act) \<Rightarrow> act)
      in if direct
         then deliver_to env (receiveUser userInfo) toLabel srcTarget buf (sendUser userInfo) remoteDbVersion ag
         else case find_active toLabel (commMap ag) of
                Some u \<Rightarrow>
                  if receiveUser userInfo = [] \<or> u = []
                  then deliver_to env u toLabel srcTarget buf (sendUser userInfo) remoteDbVersion ag
                  else Ok (E_NOT_FOUND, ag)
              | None \<Rightarrow> Ok (E_NOT_FOUND, ag))"

section \<open>Activation\<close>

definition comm_upd :: "string \<Rightarrow> label \<Rightarrow> (communicator \<Rightarrow> 'o up_event list \<times> communicator) \<Rightarrow> 'o aggregator \<Rightarrow> 'o aggregator" where
  "comm_upd user l f ag =
     (case om_find (comms_of user ag) l of
        None \<Rightarrow> ag
      | Some (cm, act) \<Rightarrow> let (calls, cm') = f cm in emit calls (set_comm user l (cm', act) ag))"

fun redeliver :: "'o recv_env \<Rightarrow> string \<Rightarrow> label \<Rightarrow> FrameInfo list \<Rightarrow> 'o aggregator \<Rightarrow> 'o aggregator res" where
  "redeliver env user l [] ag = Ok ag"
| "redeliver env user l (f # fs) ag =
     res_bind (deliver_to env user l (fm_srcTarget f) (fm_buffer f) (fm_sendUser f) (fm_remoteDbVersion f) ag)
       (\<lambda>(_, ag'). redeliver env user l fs ag')"

definition ActivateCommunicator :: "'o recv_env \<Rightarrow> label \<Rightarrow> string \<Rightarrow> 'o aggregator \<Rightarrow> 'o aggregator res" where
  "ActivateCommunicator env l userId ag0 =
     (let ag = touch_user userId ag0
      in case om_find (comms_of userId ag) l of
           None \<Rightarrow> Ok ag
         | Some (cm, act) \<Rightarrow>
             if act then Ok ag
             else let ag1 = set_comm userId l (cm, True) ag
                  in res_bind (IncreaseLocalLabel (re_link env) agg_send l (link_state env ag1))
                      (\<lambda>(errCode, online, st).
                         let ag2 = fold (\<lambda>t. comm_upd userId l (OnConnectChange t True)) online (set_link st ag1)
                         in res_bind (FetchFramesForSpecificCommunicator l (ag_retainer ag2))
                              (\<lambda>(framesToRedeliver, r). redeliver env userId l framesToRedeliver (ag2\<lparr>ag_retainer := r\<rparr>))))"

section \<open>Frames of the application layer\<close>

record ReceiveBytesInfo =
  rb_bytes :: "byte list"
  rb_srcTarget :: target
  rb_length :: u32
  rb_isNeedGetUserInfo :: bool

text \<open>The handlers return codes of the database or the status the process communicator has reported.\<close>

datatype app_ret = Code errcode | Status DBStatus

definition GetDataUserId :: "'o recv_env \<Rightarrow> label \<Rightarrow> target \<Rightarrow> UserInfo \<Rightarrow> app_ret \<times> UserInfo" where
  "GetDataUserId env toLabel device userInfo =
     (if \<not> re_processCommunicator env then (Code E_INVALID_ARGS, userInfo)
      else let (ret, userInfos) = re_userInfo env toLabel device
           in if ret = NO_PERMISSION \<or> ret = NEED_CORRECT_TARGET_USER then (Status ret, userInfo)
              else (Code E_OK, case userInfos of [] \<Rightarrow> userInfo | u # _ \<Rightarrow> u))"

definition ReTryDeliverAppLayerFrameOnCommunicatorNotFound ::
  "'o recv_env \<Rightarrow> ReceiveBytesInfo \<Rightarrow> serial_buffer option \<Rightarrow> parse_result \<Rightarrow> UserInfo \<Rightarrow> 'o aggregator \<Rightarrow>
   (app_ret \<times> 'o aggregator) res" where
  "ReTryDeliverAppLayerFrameOnCommunicatorNotFound env info buf inResult userInfo ag =
     (let toLabel = pr_commLabel inResult; dbVersion = pr_dbVersion inResult;
          (errCode, calls) =
            (case ag_onCommLack ag of
               None \<Rightarrow> (E_NOT_FOUND, [])
             | Some k \<Rightarrow> let e = re_commLack env toLabel (receiveUser userInfo)
                         in (e, [CommLackCall k toLabel (receiveUser userInfo) e]));
          ag1 = re_meanwhile env (emit calls ag)
      in res_bind (TryDeliverAppLayerFrameToCommunicatorNoMutex env dbVersion (rb_srcTarget info) buf toLabel userInfo ag1)
           (\<lambda>(errCodeAgain, ag2).
              if errCodeAgain = E_OK then Ok (Code E_OK, ag2)
              else if errCode \<noteq> E_OK \<or> errCodeAgain = E_FEEDBACK_DB_CLOSING
              then res_bind (TryToFeedbackWhenCommunicatorNotFound env (rb_srcTarget info) toLabel buf
                               (if errCodeAgain = E_FEEDBACK_DB_CLOSING then FEEDBACK_DB_CLOSING_NO
                                else FEEDBACK_COMMUNICATOR_NOT_FOUND_NO) ag2)
                     (\<lambda>ag3. Ok (Code (if errCode = E_OK then errCodeAgain else errCode),
                               emit (if buf = None then [] else [FreeFrame]) ag3))
              else res_bind (RetainFrame (se_mem (ce_send env))
                               \<lparr>fm_buffer = buf, fm_srcTarget = rb_srcTarget info, fm_sendUser = sendUser userInfo,
                                fm_commLabel = toLabel, fm_frameId = pr_frameId inResult,
                                fm_remoteDbVersion = dbVersion\<rparr> (ag_retainer ag2))
                     (\<lambda>r. Ok (Code E_OK, ag2\<lparr>ag_retainer := r\<rparr>))))"

definition OnAppLayerFrameReceive ::
  "'o recv_env \<Rightarrow> ReceiveBytesInfo \<Rightarrow> serial_buffer \<Rightarrow> parse_result \<Rightarrow> 'o aggregator \<Rightarrow> (app_ret \<times> 'o aggregator) res" where
  "OnAppLayerFrameReceive env info b inResult ag =
     (let toLabel = pr_commLabel inResult; dbVersion = pr_dbVersion inResult;
          start = \<lparr>receiveUser = [], sendUser = DEFAULT_USER\<rparr>;
          (ret, userInfo) = (if rb_isNeedGetUserInfo info then GetDataUserId env toLabel (rb_srcTarget info) start
                             else (Code E_OK, start))
      in if rb_isNeedGetUserInfo info \<and> ret = Status NEED_CORRECT_TARGET_USER
         then res_bind (TryToFeedBackWithErr env (rb_srcTarget info) toLabel (Some b) NEED_CORRECT_TARGET_USER_NO ag)
                (\<lambda>ag1. Ok (Code E_NEED_CORRECT_TARGET_USER, emit [FreeFrame] ag1))
         else if rb_isNeedGetUserInfo info \<and> (ret \<noteq> Code E_OK \<or> sendUser userInfo = [])
         then Ok (if ret \<noteq> Code E_OK then ret else Code E_NO_TRUSTED_USER, emit [FreeFrame] ag)
         else res_bind (TryDeliverAppLayerFrameToCommunicatorNoMutex env dbVersion (rb_srcTarget info) (Some b) toLabel userInfo ag)
                (\<lambda>(errCode, ag1).
                   if errCode = E_OK then Ok (Code E_OK, ag1)
                   else if errCode = E_FEEDBACK_DB_CLOSING
                   then res_bind (TryToFeedbackWhenCommunicatorNotFound env (rb_srcTarget info) toLabel (Some b)
                                    FEEDBACK_DB_CLOSING_NO ag1)
                          (\<lambda>ag2. Ok (Code errCode, emit [FreeFrame] ag2))
                   else ReTryDeliverAppLayerFrameOnCommunicatorNotFound env info (Some b) inResult userInfo ag1))"

definition OnAppLayerFrameReceive_bytes ::
  "'o recv_env \<Rightarrow> ReceiveBytesInfo \<Rightarrow> parse_result \<Rightarrow> 'o aggregator \<Rightarrow> (app_ret \<times> 'o aggregator) res" where
  "OnAppLayerFrameReceive_bytes env info inResult ag =
     (if \<not> se_mem (ce_send env) NewSerialBuffer then Ok (Code E_OUT_OF_MEMORY, ag)
      else case SetExternalBuff (Some (rb_bytes info)) (rb_length info - ucast (pr_paddingLen inResult))
                  GetAppLayerFrameHeaderLength new_SerialBuffer of
             (errCode, b) \<Rightarrow>
               if errCode \<noteq> E_OK then Ok (Code E_INTERNAL_ERROR, emit [FreeFrame] ag)
               else OnAppLayerFrameReceive env info b inResult ag)"

section \<open>Frames of the communication layer\<close>

definition OnCommLayerFrameReceive :: "'o recv_env \<Rightarrow> target \<Rightarrow> parse_result \<Rightarrow> 'o aggregator \<Rightarrow> (errcode \<times> 'o aggregator) res" where
  "OnCommLayerFrameReceive env srcTarget inResult ag =
     (if pr_frameType inResult = COMMUNICATION_LABEL_EXCHANGE_ACK
      then let (errCode, lk) = ReceiveLabelExchangeAck (re_link env) srcTarget (pr_distinctValue inResult)
                                 (pr_sequenceId inResult) (ag_linker ag)
           in Ok (errCode, ag\<lparr>ag_linker := lk\<rparr>)
      else res_bind (ReceiveLabelExchange (re_link env) agg_send srcTarget (pr_latestCommLabels inResult)
                       (pr_distinctValue inResult) (pr_sequenceId inResult) [] (link_state env ag))
             (\<lambda>(errCode, changedLabels, st).
                if errCode \<noteq> E_OK then Ok (errCode, set_link st ag)
                else Ok (E_OK, NotifyConnectChange srcTarget changedLabels (set_link st ag))))"

section \<open>Bytes from the adapter\<close>

definition OnFragmentReceive :: "'o recv_env \<Rightarrow> ReceiveBytesInfo \<Rightarrow> parse_result \<Rightarrow> 'o aggregator \<Rightarrow> 'o aggregator res" where
  "OnFragmentReceive env info inResult ag =
     res_bind (AssembleFrameFragment (se_mem (ce_send env)) (rb_bytes info) (rb_length info) inResult (ag_combiner ag))
       (\<lambda>(errorNo, out, cmb).
          let ag1 = ag\<lparr>ag_combiner := cmb\<rparr>
          in if errorNo \<noteq> E_OK then Ok ag1
             else case out of
                    Some (Some frameBuffer, frameResult) \<Rightarrow>
                      (case CheckAndParseFrame (se_be (ce_send env)) (Some frameBuffer) frameResult of
                         Fault \<Rightarrow> Fault
                       | Err e \<Rightarrow>
                           let ag2 = emit [FreeFrame] ag1
                           in if e = E_VERSION_NOT_SUPPORT then TriggerVersionNegotiation env (rb_srcTarget info) ag2
                              else Ok ag2
                       | Ok res \<Rightarrow>
                           if pr_frameType res \<noteq> APPLICATION_MESSAGE
                           then res_bind (OnCommLayerFrameReceive env (rb_srcTarget info) res ag1)
                                  (\<lambda>(_, ag2). Ok (emit [FreeFrame] ag2))
                           else res_bind (OnAppLayerFrameReceive env info frameBuffer res ag1) (\<lambda>(_, ag2). Ok ag2))
                  | _ \<Rightarrow> Ok ag1)"

definition OnBytesReceive :: "'o recv_env \<Rightarrow> ReceiveBytesInfo \<Rightarrow> 'o aggregator \<Rightarrow> 'o aggregator res" where
  "OnBytesReceive env info ag =
     (case CheckAndParsePacket (se_be (ce_send env)) (Some (rb_bytes info)) (rb_length info) new_ParseResult of
        Fault \<Rightarrow> Fault
      | Err e \<Rightarrow> if e = E_VERSION_NOT_SUPPORT then TriggerVersionNegotiation env (rb_srcTarget info) ag else Ok ag
      | Ok packetResult \<Rightarrow>
          let ag1 = SetRemoteCommunicatorVersion (rb_srcTarget info) (pr_dbVersion packetResult) ag;
              ag2 = (case ag_adapter ag1 of
                       None \<Rightarrow> ag1
                     | Some s \<Rightarrow>
                         let (tasks, s') = SetRemoteOptimizeCommunication (se_pool (ce_send env)) (rb_srcTarget info)
                                             (\<not> pr_sendLabelExchange packetResult) s
                         in ag1\<lparr>ag_adapter := Some s', ag_adapterTasks := ag_adapterTasks ag1 @ tasks\<rparr>)
          in if pr_frameType packetResult = EMPTY then Ok ag2
             else if pr_isFragment packetResult then OnFragmentReceive env info packetResult ag2
             else if pr_frameType packetResult \<noteq> APPLICATION_MESSAGE
             then res_bind (OnCommLayerFrameReceive env (rb_srcTarget info) packetResult ag2) (\<lambda>(_, ag3). Ok ag3)
             else res_bind (OnAppLayerFrameReceive_bytes env info packetResult ag2) (\<lambda>(_, ag3). Ok ag3))"

section \<open>The table of communicators\<close>

definition comm_at :: "string \<Rightarrow> label \<Rightarrow> 'o aggregator \<Rightarrow> (communicator \<times> bool) option" where
  "comm_at u l ag = om_find (comms_of u ag) l"

definition active :: "string \<Rightarrow> label \<Rightarrow> 'o aggregator \<Rightarrow> bool" where
  "active u l ag \<longleftrightarrow> (\<exists>cm. comm_at u l ag = Some (cm, True))"

text \<open>Users and labels are unique, and a communicator carries the label it is entered under.\<close>

definition comms_ok :: "'o aggregator \<Rightarrow> bool" where
  "comms_ok ag \<longleftrightarrow> om_ok (commMap ag) \<and> (\<forall>u. om_ok (comms_of u ag)) \<and>
     (\<forall>u l cm act. comm_at u l ag = Some (cm, act) \<longrightarrow> commLabel cm = l \<and> length l = COMM_LABEL_LENGTH)"

lemma om_get_touch [simp]: "om_get d (om_touch d k m) k' = om_get d m k'"
  by (auto simp: om_get_def om_find_touch split: option.split)

lemma comms_of_simps [simp]:
  "comms_of u (emit es ag) = comms_of u ag" "comms_of u (set_link st ag) = comms_of u ag" "comms_of u (set_net st' ag) = comms_of u ag"
  "comms_of u (touch_user v ag) = comms_of u ag" "comms_of u (ag\<lparr>ag_retainer := r\<rparr>) = comms_of u ag"
  "comms_of u (ag\<lparr>ag_combiner := k\<rparr>) = comms_of u ag" "comms_of u (ag\<lparr>ag_linker := lk\<rparr>) = comms_of u ag"
  "comms_of u (ag\<lparr>ag_adapter := sa\<rparr>) = comms_of u ag"
  "comms_of u (set_comm v l e ag) = (if u = v then om_insert l e (comms_of u ag) else comms_of u ag)"
  by (auto simp: comms_of_def emit_def set_link_def set_net_def touch_user_def set_comm_def om_get_insert split: prod.split)

lemma comm_at_simps [simp]:
  "comm_at u l (emit es ag) = comm_at u l ag" "comm_at u l (set_link st ag) = comm_at u l ag"
  "comm_at u l (set_net st' ag) = comm_at u l ag" "comm_at u l (touch_user v ag) = comm_at u l ag"
  "comm_at u l (ag\<lparr>ag_retainer := r\<rparr>) = comm_at u l ag" "comm_at u l (ag\<lparr>ag_combiner := k\<rparr>) = comm_at u l ag"
  "comm_at u l (ag\<lparr>ag_linker := lk\<rparr>) = comm_at u l ag" "comm_at u l (ag\<lparr>ag_adapter := sa\<rparr>) = comm_at u l ag"
  "comm_at u l (set_comm v l' e ag) = (if u = v \<and> l = l' then Some e else comm_at u l ag)"
  by (auto simp: comm_at_def om_find_insert)

text \<open>Fields that an operation on communicators leaves alone.\<close>

definition rest :: "'o aggregator \<Rightarrow> 'o aggregator" where
  "rest ag = ag\<lparr>commMap := [], ag_log := []\<rparr>"

lemma rest_fields:
  assumes "rest ag' = rest ag"
  shows "ag_linker ag' = ag_linker ag" "ag_send ag' = ag_send ag" "ag_adapter ag' = ag_adapter ag"
    "ag_retainer ag' = ag_retainer ag" "ag_combiner ag' = ag_combiner ag" "ag_onCommLack ag' = ag_onCommLack ag"
    "ag_onConnect ag' = ag_onConnect ag" "notFoundFeedback ag' = notFoundFeedback ag" "versionMap ag' = versionMap ag"
  using assms unfolding rest_def by (metis aggregator.select_convs(2-13) aggregator.surjective aggregator.update_convs(1,14))+

lemma notify_user_find:
  "om_find (snd (notify_user P f es)) l = map_option (\<lambda>(cm, act). (if act \<and> P l then snd (f cm) else cm, act)) (om_find es l)"
  by (induction es) (auto simp: om_find_Cons Let_def case_prod_unfold)

lemma notify_user_keys: "map fst (snd (notify_user P f es)) = map fst es"
  by (induction es) (auto simp: Let_def case_prod_unfold)

lemma notify_users_find:
  "om_find (snd (notify_users P f m)) u = map_option (\<lambda>es. snd (notify_user P f es)) (om_find m u)"
  by (induction m) (auto simp: om_find_Cons Let_def case_prod_unfold)

lemma notify_users_keys: "map fst (snd (notify_users P f m)) = map fst m"
  by (induction m) (auto simp: Let_def case_prod_unfold)

lemma notify_all_comms: "comms_of u (notify_all P f ag) = snd (notify_user P f (comms_of u ag))"
  by (auto simp: notify_all_def comms_of_def om_get_def notify_users_find emit_def case_prod_unfold Let_def split: option.split)

lemma notify_all_at:
  "comm_at u l (notify_all P f ag) = map_option (\<lambda>(cm, act). (if act \<and> P l then snd (f cm) else cm, act)) (comm_at u l ag)"
  by (simp add: comm_at_def notify_all_comms notify_user_find)

lemma notify_all_rest: "rest (notify_all P f ag) = rest ag"
  by (simp add: notify_all_def rest_def emit_def case_prod_unfold Let_def)

lemma om_ok_keys: "map fst m' = map fst m \<Longrightarrow> om_ok m' = om_ok m"
  by (simp add: om_ok_def)

lemma notify_all_ok:
  assumes "comms_ok ag" "\<And>cm. commLabel (snd (f cm)) = commLabel cm"
  shows "comms_ok (notify_all P f ag)"
proof -
  have "om_ok (commMap (notify_all P f ag)) = om_ok (commMap ag)"
    using om_ok_keys[OF notify_users_keys[of P f "commMap ag"]] by (simp add: notify_all_def emit_def case_prod_unfold Let_def)
  moreover have "om_ok (comms_of u (notify_all P f ag)) = om_ok (comms_of u ag)" for u
    unfolding notify_all_comms by (rule om_ok_keys[OF notify_user_keys])
  ultimately show ?thesis using assms by (auto simp: comms_ok_def notify_all_at split: if_splits) blast+
qed

lemma OnConnect_label [simp]: "commLabel (snd (OnConnectChange t b cm)) = commLabel cm"
  by (simp add: OnConnectChange_def)

section \<open>Routing\<close>

lemma find_active_Some:
  assumes "find_active l (commMap ag) = Some u" "comms_ok ag"
  shows "active u l ag" "\<forall>v < u. \<not> active v l ag"
proof -
  obtain es where f: "find (\<lambda>(u, es). list_ex (\<lambda>(l', cm, act). l' = l \<and> act) es) (commMap ag) = Some (u, es)"
    using assms(1) by (auto simp: find_active_def)
  have ok: "om_ok (commMap ag)" "om_ok (comms_of v ag)" for v using assms(2) by (simp_all add: comms_ok_def)
  have iff: "list_ex (\<lambda>(l', cm, act). l' = l \<and> act) es' \<longleftrightarrow> active v l ag" if "(v, es') \<in> set (commMap ag)" for v es'
  proof -
    have e: "comms_of v ag = es'" using om_find_mem[OF ok(1) that] by (simp add: comms_of_def om_get_def)
    show ?thesis using om_find_iff_mem[OF ok(2)[of v]] by (auto simp: list_ex_iff active_def comm_at_def e)
  qed
  obtain i where i: "i < length (commMap ag)" "commMap ag ! i = (u, es)" "list_ex (\<lambda>(l', cm, act). l' = l \<and> act) es"
    "\<forall>j < i. \<not> (case commMap ag ! j of (u, es) \<Rightarrow> list_ex (\<lambda>(l', cm, act). l' = l \<and> act) es)"
    using f by (auto simp: find_Some_iff)
  then have m: "(u, es) \<in> set (commMap ag)" by (metis nth_mem)
  show "active u l ag" using iff[OF m] i(3) by simp
  show "\<forall>v < u. \<not> active v l ag"
  proof (intro allI impI notI)
    fix v assume v: "v < u" "active v l ag"
    then obtain es' where "om_find (commMap ag) v = Some es'"
      by (auto simp: active_def comm_at_def comms_of_def om_get_def split: option.splits)
    then have m': "(v, es') \<in> set (commMap ag)" by (rule om_find_Some_mem)
    then obtain j where j: "j < length (commMap ag)" "commMap ag ! j = (v, es')" by (metis in_set_conv_nth)
    have "j < i"
    proof (rule ccontr)
      assume "\<not> j < i"
      then have "i < j \<or> i = j" by auto
      then have "u \<le> v" using sorted_wrt_nth_less[of "(<)" "map fst (commMap ag)" i j] ok(1) i(1,2) j
        by (auto simp: om_ok_def)
      then show False using v(1) by simp
    qed
    then show False using i(4) j(2) iff[OF m'] v(2) by auto
  qed
qed

lemma find_active_None:
  assumes "find_active l (commMap ag) = None" "comms_ok ag"
  shows "\<not> active v l ag"
proof
  assume v: "active v l ag"
  then obtain es where "om_find (commMap ag) v = Some es"
    by (auto simp: active_def comm_at_def comms_of_def om_get_def split: option.splits)
  moreover from this have "comms_of v ag = es" by (simp add: comms_of_def om_get_def)
  ultimately show False using assms(1) v om_find_Some_mem[of "commMap ag" v es] om_find_Some_mem[of es l]
    by (fastforce simp: find_active_def find_None_iff active_def comm_at_def list_ex_iff)
qed

lemma active_simps [simp]:
  "active u l (touch_user v ag) = active u l ag" "active u l (emit es ag) = active u l ag"
  by (simp_all add: active_def)

lemma comms_ok_touch: "comms_ok ag \<Longrightarrow> comms_ok (touch_user u ag)"
proof -
  assume "comms_ok ag"
  moreover have "om_ok (commMap ag) \<Longrightarrow> om_ok (commMap (touch_user u ag))" by (simp add: touch_user_def om_touch_def)
  ultimately show ?thesis unfolding comms_ok_def by simp
qed

section \<open>Who deletes a frame\<close>

text \<open>Whatever a computation returns satisfies \<open>P\<close>.\<close>

definition yields :: "('a \<Rightarrow> bool) \<Rightarrow> 'a res \<Rightarrow> bool" where
  "yields P m \<longleftrightarrow> (\<forall>x. m = Ok x \<longrightarrow> P x)"

lemma yields_simps [simp]: "yields P (Ok x) = P x" "yields P (Err e)" "yields P Fault" "yields (\<lambda>_. True) m"
  by (simp_all add: yields_def)

lemma yields_bind: "yields Q m \<Longrightarrow> (\<And>x. Q x \<Longrightarrow> yields P (f x)) \<Longrightarrow> yields P (res_bind m f)"
  by (cases m) (auto simp: yields_def)

lemma yields_after: "(\<And>x. yields P (f x)) \<Longrightarrow> yields P (res_bind m f)"
  by (rule yields_bind[where Q = "\<lambda>_. True"]) simp_all

lemma yieldsD: "yields P m \<Longrightarrow> m = Ok x \<Longrightarrow> P x"
  by (simp add: yields_def)

lemma yields_mono: "yields Q m \<Longrightarrow> (\<And>x. Q x \<Longrightarrow> P x) \<Longrightarrow> yields P m"
  by (simp add: yields_def)

lemma returns_yields: "returns P m \<Longrightarrow> yields P m"
  by (auto simp: returns_def)

fun frees :: "'o up_event list \<Rightarrow> nat" where
  "frees [] = 0"
| "frees (e # es) = (case e of FreeFrame \<Rightarrow> Suc (frees es) | _ \<Rightarrow> frees es)"

lemma frees_append [simp]: "frees (xs @ ys) = frees xs + frees ys"
  by (induction xs) (auto split: up_event.split)

definition freed :: "'o aggregator \<Rightarrow> nat" where
  "freed ag = frees (ag_log ag)"

lemma freed_simps [simp]:
  "freed (emit es ag) = freed ag + frees es" "freed (set_net st ag) = freed ag" "freed (set_link st' ag) = freed ag"
  "freed (touch_user u ag) = freed ag" "freed (set_comm u l e ag) = freed ag" "freed (ag\<lparr>ag_retainer := r\<rparr>) = freed ag"
  by (simp_all add: freed_def emit_def set_net_def set_link_def touch_user_def set_comm_def split: prod.split)

definition same_comm :: "communicator \<Rightarrow> communicator \<Rightarrow> bool" where
  "same_comm cm cm' \<longleftrightarrow> cm'\<lparr>dbClosePending := False\<rparr> = cm\<lparr>dbClosePending := False\<rparr>"

lemma same_comm_refl [simp]: "same_comm cm cm" "same_comm cm (snd (ExchangeClosePending b cm))"
  by (simp_all add: same_comm_def ExchangeClosePending_def)

lemma OnBufferReceive_yields:
  "yields (\<lambda>(ret, calls, cm', st'). frees calls = (if ret = E_OK then 1 else 0) \<and> (ret = E_OK \<or> ret = E_FEEDBACK_DB_CLOSING) \<and>
      same_comm cm cm') (OnBufferReceive env src (Some b) user ver cm st)"
  unfolding OnBufferReceive_def Let_def
  by (auto intro!: yields_after simp: case_prod_unfold split: option.split)

lemma deliver_yields:
  "yields (\<lambda>(ret, ag'). freed ag' = freed ag + (if ret = E_OK then 1 else 0)) (deliver_to env u l src (Some b) user ver ag)"
  unfolding deliver_to_def
  by (auto intro!: yields_bind[OF OnBufferReceive_yields] split: option.split)

lemma TryDeliver_yields:
  "yields (\<lambda>(ret, ag'). freed ag' = freed ag + (if ret = E_OK then 1 else 0))
     (TryDeliverAppLayerFrameToCommunicatorNoMutex env ver src (Some b) l ui ag)"
  using deliver_yields[where ag = "touch_user (receiveUser ui) ag"]
  unfolding TryDeliverAppLayerFrameToCommunicatorNoMutex_def Let_def by (simp split: option.split)

lemma Feedback_yields: "yields (\<lambda>ag'. freed ag' = freed ag) (TryToFeedBackWithErr env t l buf n ag)"
  unfolding TryToFeedBackWithErr_def TriggerVersionNegotiation_def TriggerCommunicatorFeedback_def Let_def
  by (auto intro!: yields_after split: option.split res.split)

lemma NotFound_yields: "yields (\<lambda>ag'. freed ag' = freed ag) (TryToFeedbackWhenCommunicatorNotFound env t l buf n ag)"
  unfolding TryToFeedbackWhenCommunicatorNotFound_def by (simp add: Feedback_yields)

text \<open>The frame was handed to the retainer.\<close>

definition kept :: "'o recv_env \<Rightarrow> serial_buffer \<Rightarrow> app_ret \<Rightarrow> 'o aggregator \<Rightarrow> bool" where
  "kept env b ret ag' \<longleftrightarrow> ret = Code E_OK \<and>
     (\<exists>f r. fm_buffer f = Some b \<and> RetainFrame (se_mem (ce_send env)) f r = Ok (ag_retainer ag'))"

lemma keptI: "fm_buffer f = Some b \<Longrightarrow> RetainFrame (se_mem (ce_send env)) f r = Ok (ag_retainer ag') \<Longrightarrow> kept env b (Code E_OK) ag'"
  by (auto simp: kept_def)

lemma ReTry_yields:
  assumes m: "\<And>a. freed (re_meanwhile env a) = freed a"
    and ag0: "freed ag = freed ag0"
  shows "yields (\<lambda>(ret, ag'). freed ag' = freed ag0 + 1 \<or> freed ag' = freed ag0 \<and> kept env b ret ag')
    (ReTryDeliverAppLayerFrameOnCommunicatorNotFound env info (Some b) res ui ag)"
proof -
  let ?l = "pr_commLabel res"
  have c: "frees (case ag_onCommLack ag of None \<Rightarrow> [] | Some k \<Rightarrow> [CommLackCall k ?l (receiveUser ui) (re_commLack env ?l (receiveUser ui))]) = 0"
    by (simp split: option.split)
  have retain: "yields (\<lambda>r. \<exists>f r0. fm_buffer f = Some b \<and> RetainFrame (se_mem (ce_send env)) f r0 = Ok r)
      (RetainFrame (se_mem (ce_send env)) \<lparr>fm_buffer = Some b, fm_srcTarget = t, fm_sendUser = v, fm_commLabel = l,
         fm_frameId = fid, fm_remoteDbVersion = ver\<rparr> r1)" for t v l fid ver r1
    unfolding yields_def by (metis FrameInfo.select_convs(1))
  show ?thesis unfolding ReTryDeliverAppLayerFrameOnCommunicatorNotFound_def Let_def
    using c
    by (cases "ag_onCommLack ag")
       (auto simp: m ag0 intro!: keptI yields_bind[OF TryDeliver_yields] yields_bind[OF NotFound_yields] yields_bind[OF retain])
qed

end
