(* ===== verification/Aggregator_Invariant.thy ===== *)
theory Aggregator_Invariant
  imports Aggregator_Receive
begin

text \<open>
  The invariant of the whole aggregator: its combiner, retainer, linker, status adapter and send queue stay well
  formed under every event that reaches it (\<open>agg_step\<close>), no received bytes make it leave a buffer, and the
  targets every activated communicator has been told of are the online targets that announced its label.
  With it, what becomes of a received frame: which communicator gets it, and that its buffer is given up once.
\<close>

section \<open>What the linker's handlers do to the table of labels\<close>

lemma seq_core_tables:
  "seq_core lk' = seq_core lk \<Longrightarrow>
   remoteOnlineTarget lk' = remoteOnlineTarget lk \<and> targetMapOnlineLabels lk' = targetMapOnlineLabels lk \<and>
   topRecvLabelSeq lk' = topRecvLabelSeq lk \<and> incAckTriggerId lk' = incAckTriggerId lk"
  using seq_core_fields(2,4,5,6) by blast

context label_transport
begin

lemma Receive_effect:
  assumes ok: "link_ok k lk" and I: "I (sa, a)" and inc: "incAckTriggerId lk \<noteq> - 1"
  shows "returns (\<lambda>(code, out, lk', sa', a'). link_ok k lk' \<and> I (sa', a') \<and> remoteOnlineTarget lk' = remoteOnlineTarget lk \<and>
      (if code = E_OK then out = change_labels ls (om_get [] (targetMapOnlineLabels lk) t) [] \<and>
         targetMapOnlineLabels lk' = om_insert t ls (targetMapOnlineLabels lk)
       else targetMapOnlineLabels lk' = targetMapOnlineLabels lk))
    (ReceiveLabelExchange env send t ls d s [] (lk, sa, a))"
proof -
  let ?dd = "DetectDistinctValueChange env t d lk"
  let ?lk = "?dd\<lparr>topRecvLabelSeq := om_insert t s (topRecvLabelSeq ?dd),
      targetMapOnlineLabels := om_insert t ls (targetMapOnlineLabels ?dd)\<rparr>"
  have ok1: "link_ok k ?lk" using link_ok_received[OF ok] .
  have "incAckTriggerId ?lk \<noteq> - 1" using inc by simp
  note T = TriggerAck_ok[OF ok1 I this, of env t s]
  have "returns (\<lambda>(code, out, lk', sa', a'). link_ok k lk' \<and> I (sa', a') \<and> remoteOnlineTarget lk' = remoteOnlineTarget lk \<and>
      (if code = E_OK then out = out'' \<and> targetMapOnlineLabels lk' = om_insert t ls (targetMapOnlineLabels lk)
       else targetMapOnlineLabels lk' = targetMapOnlineLabels lk))
     (res_bind (TriggerLabelExchangeAckEvent env send t s (?lk, sa, a)) (\<lambda>(errCode, st). Ok (E_OK, out'', st)))" for out''
    by (rule returns_bind[OF T]) auto
  from this[of "change_labels ls (om_get [] (targetMapOnlineLabels lk) t) []"] show ?thesis
    using Detect_ok[OF ok] I unfolding ReceiveLabelExchange_def Let_def prod.case by simp
qed

lemma Online_effect:
  assumes ok: "link_ok k lk" and I: "I (sa, a)" and e: "wf_env env" and inc: "incSequenceId lk \<noteq> - 1"
  shows "returns (\<lambda>(code, ls, lk', sa', a'). link_ok k lk' \<and> I (sa', a') \<and>
      set (remoteOnlineTarget lk') = insert t (set (remoteOnlineTarget lk)) \<and>
      (\<forall>t'. om_get [] (targetMapOnlineLabels lk') t' = om_get [] (targetMapOnlineLabels lk) t') \<and>
      ls = (if t \<in> set (remoteOnlineTarget lk) then [] else om_get [] (targetMapOnlineLabels lk) t) \<and>
      topRecvLabelSeq lk' = topRecvLabelSeq lk \<and> incAckTriggerId lk' = incAckTriggerId lk)
    (TargetOnline env send t (lk, sa, a))"
proof -
  let ?lk = "lk\<lparr>targetMapOnlineLabels := om_touch [] t (targetMapOnlineLabels lk),
      remoteOnlineTarget := insort_insert t (remoteOnlineTarget lk)\<rparr>"
  have g: "om_get [] (om_touch [] t m) t' = om_get [] m t'" for m :: "(target, label list) omap" and t'
    by (auto simp: om_get_def om_find_touch split: option.split)
  have "link_ok k ?lk" using ok by (simp add: link_ok_def pending_refs_def)
  then show ?thesis using Trigger_to_ok[of k ?lk sa a env t] Trigger_to_ok[OF ok I e inc, of t] I e inc
    by (auto simp: TargetOnline_def Let_def set_insort_insert g dest!: seq_core_tables elim!: returns_bind)
qed

lemma Increase_effect:
  assumes "link_ok k lk" "I (sa, a)" "wf_env env" "length l = COMM_LABEL_LENGTH"
    "unat (incSequenceId lk) + length (remoteOnlineTarget lk) < 2 ^ 64"
  shows "returns (\<lambda>(code, ts, lk', sa', a'). link_ok k lk' \<and> I (sa', a') \<and> remoteOnlineTarget lk' = remoteOnlineTarget lk \<and>
      targetMapOnlineLabels lk' = targetMapOnlineLabels lk \<and>
      set ts = {t. t \<in> set (remoteOnlineTarget lk) \<and> l \<in> set (om_get [] (targetMapOnlineLabels lk) t)})
    (IncreaseLocalLabel env send l (lk, sa, a))"
proof -
  let ?lk = "lk\<lparr>localOnlineLabels := insort_insert l (localOnlineLabels lk)\<rparr>"
  have ok: "link_ok k ?lk" using assms(1,4) by (simp add: link_ok_def pending_refs_def insort_insert_wf)
  have "om_ok (targetMapOnlineLabels lk)" using assms(1) by (simp add: link_ok_def)
  then have "(\<exists>ls. (t, ls) \<in> set (targetMapOnlineLabels lk) \<and> l \<in> set ls) \<longleftrightarrow> l \<in> set (om_get [] (targetMapOnlineLabels lk) t)" for t
    by (cases "om_find (targetMapOnlineLabels lk) t") (auto simp: om_get_def om_find_iff_mem[symmetric])
  then show ?thesis using Trigger_ok[OF ok assms(2,3), of True] assms(5)
    by (auto simp: IncreaseLocalLabel_def Let_def set_fold_collect dest!: seq_core_tables elim!: returns_bind)
qed

lemma Decrease_effect:
  assumes "link_ok k lk" "I (sa, a)" "wf_env env" "unat (incSequenceId lk) + length (remoteOnlineTarget lk) < 2 ^ 64"
  shows "returns (\<lambda>(code, lk', sa', a'). link_ok k lk' \<and> I (sa', a') \<and> remoteOnlineTarget lk' = remoteOnlineTarget lk \<and>
      targetMapOnlineLabels lk' = targetMapOnlineLabels lk)
    (DecreaseLocalLabel env send l (lk, sa, a))"
proof -
  let ?lk = "lk\<lparr>localOnlineLabels := removeAll l (localOnlineLabels lk)\<rparr>"
  have "link_ok k ?lk" using assms(1) by (simp add: link_ok_def pending_refs_def removeAll_wf)
  then show ?thesis using Trigger_ok[of k ?lk sa a env True] assms(2-4)
    by (auto simp: DecreaseLocalLabel_def Let_def dest!: seq_core_tables elim!: returns_bind)
qed

lemma Offline_effect:
  assumes "link_ok k lk" "I (sa, a)" "Linker_TargetOffline env t (lk, sa) = (ls, acts, lk', sa')"
  shows "link_ok k lk'" "I (sa', a)" "remoteOnlineTarget lk' = removeAll t (remoteOnlineTarget lk)"
    "t' \<noteq> t \<Longrightarrow> om_get [] (targetMapOnlineLabels lk') t' = om_get [] (targetMapOnlineLabels lk) t'"
  using TargetOffline_ok[OF assms] assms(3)
  by (auto simp: Linker_TargetOffline_def case_prod_unfold Let_def om_get_def om_find_erase om_find_touch)

end

section \<open>Invariant of the aggregator\<close>

text \<open>The online targets that have announced a label.\<close>

definition announced :: "linker \<Rightarrow> label \<Rightarrow> target set" where
  "announced lk l = {t \<in> set (remoteOnlineTarget lk). l \<in> set (om_get [] (targetMapOnlineLabels lk) t)}"

definition view_ok :: "'o aggregator \<Rightarrow> bool" where
  "view_ok ag \<longleftrightarrow> [] \<notin> set (remoteOnlineTarget (ag_linker ag)) \<and>
     (\<forall>u l cm act. comm_at u l ag = Some (cm, act) \<longrightarrow>
        set (onlineTargets cm) = (if act then announced (ag_linker ag) l else {}))"

definition parts_ok :: "'o aggregator \<Rightarrow> bool" where
  "parts_ok ag \<longleftrightarrow> link_ok 0 (ag_linker ag) \<and> scheduler_reach (sc_scheduler (ag_send ag)) \<and>
     combiner_ok (ag_combiner ag) \<and> retainer_ok (ag_retainer ag)"

definition agg_ok :: "'o aggregator \<Rightarrow> bool" where
  "agg_ok ag \<longleftrightarrow> comms_ok ag \<and> view_ok ag \<and> parts_ok ag"

lemma agg_okD:
  assumes "agg_ok ag"
  shows "comms_ok ag" "view_ok ag" "link_ok 0 (ag_linker ag)" "scheduler_reach (sc_scheduler (ag_send ag))"
    "combiner_ok (ag_combiner ag)" "retainer_ok (ag_retainer ag)"
  using assms by (simp_all add: agg_ok_def parts_ok_def)

text \<open>Steps that leave the table of communicators and the labels of the linker alone.\<close>

lemma comms_ok_same: "commMap ag' = commMap ag \<Longrightarrow> comms_ok ag' = comms_ok ag"
  by (simp add: comms_ok_def comm_at_def comms_of_def)

lemma view_ok_same:
  "commMap ag' = commMap ag \<Longrightarrow> remoteOnlineTarget (ag_linker ag') = remoteOnlineTarget (ag_linker ag) \<Longrightarrow>
   targetMapOnlineLabels (ag_linker ag') = targetMapOnlineLabels (ag_linker ag) \<Longrightarrow> view_ok ag' = view_ok ag"
  by (simp add: view_ok_def announced_def comm_at_def comms_of_def)

lemma agg_ok_set_net: "agg_ok ag \<Longrightarrow> scheduler_reach (sc_scheduler (snd st)) \<Longrightarrow> agg_ok (set_net st ag)"
  using comms_ok_same[of "set_net st ag" ag] view_ok_same[of "set_net st ag" ag]
  by (simp add: agg_ok_def parts_ok_def set_net_def)

lemma agg_ok_emit [simp]: "agg_ok (emit es ag) = agg_ok ag"
  using comms_ok_same[of "emit es ag" ag] view_ok_same[of "emit es ag" ag] by (simp add: agg_ok_def parts_ok_def emit_def)

lemma agg_ok_touch: "agg_ok ag \<Longrightarrow> agg_ok (touch_user u ag)"
  using comms_ok_touch[of ag u] by (simp add: agg_ok_def parts_ok_def view_ok_def) (simp add: touch_user_def)

lemma agg_ok_retainer: "agg_ok ag \<Longrightarrow> retainer_ok r \<Longrightarrow> agg_ok (ag\<lparr>ag_retainer := r\<rparr>)"
  using comms_ok_same[of "ag\<lparr>ag_retainer := r\<rparr>" ag] view_ok_same[of "ag\<lparr>ag_retainer := r\<rparr>" ag]
  by (simp add: agg_ok_def parts_ok_def)

lemma agg_ok_combiner: "agg_ok ag \<Longrightarrow> combiner_ok k \<Longrightarrow> agg_ok (ag\<lparr>ag_combiner := k\<rparr>)"
  using comms_ok_same[of "ag\<lparr>ag_combiner := k\<rparr>" ag] view_ok_same[of "ag\<lparr>ag_combiner := k\<rparr>" ag]
  by (simp add: agg_ok_def parts_ok_def)

lemma om_ok_set_comm: "comms_ok ag \<Longrightarrow> om_ok (commMap (set_comm u l e ag)) \<and> (\<forall>v. om_ok (comms_of v (set_comm u l e ag)))"
  by (simp add: comms_ok_def) (simp add: set_comm_def)

lemma agg_ok_set_comm:
  assumes "agg_ok ag" "comm_at u l ag = Some (cm, act)" "same_comm cm cm'"
  shows "agg_ok (set_comm u l (cm', act) ag)"
proof -
  have s: "commLabel cm' = commLabel cm" "onlineTargets cm' = onlineTargets cm"
    using assms(3) by (cases cm; cases cm'; simp add: same_comm_def)+
  have "comms_ok (set_comm u l (cm', act) ag)"
    using om_ok_set_comm[OF agg_okD(1)[OF assms(1)], of u l "(cm', act)"] agg_okD(1)[OF assms(1)] assms(2) s(1)
    by (auto simp: comms_ok_def simp del: split_paired_All) blast+
  moreover have "ag_linker (set_comm u l (cm', act) ag) = ag_linker ag" by (simp add: set_comm_def)
  moreover have "parts_ok (set_comm u l (cm', act) ag) = parts_ok ag" by (simp add: parts_ok_def set_comm_def)
  ultimately show ?thesis using assms(1,2) s(2) by (auto simp: agg_ok_def view_ok_def)
qed

section \<open>Sending from the receive path\<close>

lemma app_buf_send: "app_buf b \<Longrightarrow> send_buf b"
  by (simp add: app_buf_def send_buf_def)

lemma comm_buf_send: "comm_buf b \<Longrightarrow> send_buf b"
  by (simp add: comm_buf_def send_buf_def)

lemma Schedule_returns:
  assumes b: "send_buf b" and n: "tc_nonBlock cfg" and ft: "ft \<noteq> INVALID_MAX_FRAME_TYPE"
    and s: "scheduler_reach (sc_scheduler (snd st))"
  shows "returns (\<lambda>(code, b', st'). scheduler_reach (sc_scheduler (snd st'))) (ScheduleSendTask env k t b ft cfg st)"
proof -
  obtain sa c where st: "st = (sa, c)" by (cases st)
  define sl where "sl = (case sa of None \<Rightarrow> (True, None)
      | Some s \<Rightarrow> let (q, s') = Adapter_IsSendLabelExchange (se_hs env) s in (q, Some s'))"
  define info where "info = \<lparr>hi_sourceId = HashFunc (se_identity env), hi_frameId = sc_incFrameId c,
      hi_frameType = ft, hi_sendLabelExchange = fst sl\<rparr>"
  have "hi_frameType info \<noteq> INVALID_MAX_FRAME_TYPE" using ft by (simp add: info_def)
  then obtain b' where b': "SetPhyHeader (se_be env) (Some b) info = Ok b'" "same_shape b b'" "sb_ok b'" "sb_owned b'"
    using SetPhyHeader_seals[of b info "se_be env"] b by (auto simp: send_buf_def)
  have "GetSize b' = totalLen b" using b' by (auto simp: same_shape_def GetSize_def sb_owned_def)
  then have "task_ok x" if "st_buffer x = b'" for x
    using that b by (auto simp: task_ok_def send_buf_def sb_defs word_less_nat_alt)
  then have "scheduler_reach (snd (AddSendTaskIntoSchedule x p (sc_scheduler c)))" if "st_buffer x = b'" for x p
    using scheduler_reach.added[of "sc_scheduler c"] s st that by simp
  then show ?thesis using n s b'(1) unfolding ScheduleSendTask_def st
    by (auto simp: case_prod_unfold Let_def sl_def[symmetric] info_def[symmetric])
qed

lemma link_config_nonBlock [simp]: "tc_nonBlock link_config"
  by (simp add: link_config_def)

lemma Schedule_frame_returns:
  "send_buf b \<Longrightarrow> ft \<noteq> INVALID_MAX_FRAME_TYPE \<Longrightarrow> scheduler_reach (sc_scheduler (snd st)) \<Longrightarrow>
   (\<And>code b' st'. scheduler_reach (sc_scheduler (snd st')) \<Longrightarrow> P (f st')) \<Longrightarrow>
   returns P (res_bind (ScheduleSendTask env k t b ft link_config st) (\<lambda>(code, b', st'). Ok (f st')))"
  by (rule returns_bind[OF Schedule_returns]) auto

lemma BuildEmpty_send:
  "BuildEmptyFrameForVersionNegotiate mem \<noteq> Fault \<and> (\<forall>b. BuildEmptyFrameForVersionNegotiate mem = Ok b \<longrightarrow> send_buf b)"
proof -
  have "send_buf b" if "AllocBufferByPayloadLength mem 0 GetCommLayerFrameHeaderLength new_SerialBuffer = (E_OK, b)" for b
  proof -
    have a: "AllocBufferByPayloadLength mem 0 32 (SetExtendHeadLength 0 new_SerialBuffer) = (E_OK, b)"
      using that by (simp add: SetExtendHeadLength_def new_SerialBuffer_def header_lengths)
    have "unat (0::u32) + unat (32::u32) + 7 < 2 ^ 32" "(0::u32) \<le> MAX_EXTEND_HEAD_LENGTH" by simp_all
    from AllocBufferByPayloadLength_ok[OF a this] show ?thesis by (auto simp: send_buf_def)
  qed
  then show ?thesis
    by (auto simp: BuildEmptyFrameForVersionNegotiate_def guard_err_def Let_def split: prod.splits)
qed

lemma VersionNegotiation_ok: "agg_ok ag \<Longrightarrow> returns agg_ok (TriggerVersionNegotiation env t ag)"
  using BuildEmpty_send[of "se_mem (ce_send env)"]
  by (auto simp: TriggerVersionNegotiation_def ag_net_def dest: agg_okD intro!: Schedule_frame_returns agg_ok_set_net split: res.split)

lemma CommunicatorFeedback_ok:
  assumes "agg_ok ag" "length l = COMM_LABEL_LENGTH"
  shows "returns agg_ok (TriggerCommunicatorFeedback env t l m n ag)"
  using assms(1) agg_okD(4)[OF assms(1)] BuildFeedback_safe[OF assms(2)]
  by (auto simp: TriggerCommunicatorFeedback_def Let_def ag_net_def
      intro!: Schedule_frame_returns agg_ok_set_net app_buf_send split: res.split option.split)

lemma ToMessage_returns:
  assumes "sb_ok b"
  shows "returns (\<lambda>(e, mo). mo = None \<longleftrightarrow> e \<noteq> E_OK \<and> e \<noteq> E_NOT_REGISTER) (ToMessage mem be tfs (Some b) only)"
proof -
  have "DeSerializeMessage be tfs b new_Message only \<noteq> Err e" for e
    by (auto simp: DeSerializeMessage_def Let_def case_prod_unfold read_at_def split: res.splits option.splits if_splits)
  then have "ToMessage mem be tfs (Some b) only \<noteq> Err e" for e
    by (cases "DeSerializeMessage be tfs b new_Message only") (auto simp: ToMessage_def split: if_splits)
  then show ?thesis using ToMessage_safe[OF assms, of mem be tfs only] ToMessage_some[of mem be tfs "Some b" only]
    by (cases "ToMessage mem be tfs (Some b) only") (auto simp: returns_def)
qed

lemma FeedBackWithErr_ok:
  assumes "agg_ok ag" "length l = COMM_LABEL_LENGTH" "\<forall>b. buf = Some b \<longrightarrow> sb_ok b"
  shows "returns agg_ok (TryToFeedBackWithErr env t l buf n ag)"
proof (cases buf)
  case (Some b)
  then have "sb_ok b" using assms(3) by blast
  then show ?thesis using Some assms(1) VersionNegotiation_ok[OF assms(1)] CommunicatorFeedback_ok[OF assms(1,2)]
    by (auto simp: TryToFeedBackWithErr_def intro!: returns_bind[OF ToMessage_returns] split: option.split)
qed (use assms in \<open>simp add: TryToFeedBackWithErr_def\<close>)

lemma NotFoundFeedback_ok:
  "agg_ok ag \<Longrightarrow> length l = COMM_LABEL_LENGTH \<Longrightarrow> \<forall>b. buf = Some b \<longrightarrow> sb_ok b \<Longrightarrow>
   returns agg_ok (TryToFeedbackWhenCommunicatorNotFound env t l buf n ag)"
  by (simp add: TryToFeedbackWhenCommunicatorNotFound_def FeedBackWithErr_ok)

section \<open>Receiving keeps the invariant\<close>

lemma comms_okD: "comms_ok ag \<Longrightarrow> comm_at u l ag = Some (cm, act) \<Longrightarrow> commLabel cm = l \<and> length l = COMM_LABEL_LENGTH"
  unfolding comms_ok_def by blast

lemma returns_if [simp]: "returns P (if c then x else y) \<longleftrightarrow> (c \<longrightarrow> returns P x) \<and> (\<not> c \<longrightarrow> returns P y)"
  by simp

lemma same_comm_closing [simp]: "same_comm cm (snd (if c then ExchangeClosePending b cm else (d, cm)))"
  by simp

lemma OnBufferReceive_ok:
  assumes b: "sb_ok b" and l: "length (commLabel cm) = COMM_LABEL_LENGTH" and s: "scheduler_reach (sc_scheduler (snd st))"
  shows "returns (\<lambda>(ret, calls, cm', st'). same_comm cm cm' \<and> scheduler_reach (sc_scheduler (snd st')))
    (OnBufferReceive env src (Some b) user ver cm st)"
proof -
  have v: "returns (\<lambda>st'. scheduler_reach (sc_scheduler (snd st'))) (Comm_TriggerVersionNegotiation env src st)"
    using BuildEmpty_send[of "se_mem (ce_send env)"] s
    by (auto simp: Comm_TriggerVersionNegotiation_def intro!: Schedule_frame_returns split: res.split)
  have u: "returns (\<lambda>st'. scheduler_reach (sc_scheduler (snd st'))) (TriggerUnknownMessageFeedback env src m cm st)" for m
    using BuildFeedback_safe[OF l] s
    by (auto simp: TriggerUnknownMessageFeedback_def Let_def intro!: Schedule_frame_returns app_buf_send split: res.split option.split)
  show ?thesis
    using s unfolding OnBufferReceive_def Let_def
    by (auto intro!: returns_bind[OF ToMessage_returns[OF b]] returns_bind[OF v] returns_bind[OF u]
        simp: case_prod_unfold split: option.split)
qed

lemma deliver_ok:
  assumes ok: "agg_ok ag" and c: "comm_at u l ag = Some (cm, act)" and b: "sb_ok b"
  shows "returns (\<lambda>(ret, ag'). agg_ok ag') (deliver_to env u l src (Some b) user ver ag)"
proof -
  have l: "length (commLabel cm) = COMM_LABEL_LENGTH" using comms_okD[OF agg_okD(1)[OF ok] c] by simp
  have s: "scheduler_reach (sc_scheduler (snd (ag_net ag)))" using agg_okD(4)[OF ok] by (simp add: ag_net_def)
  have "agg_ok (set_net st (set_comm u l (cm', act) ag))" if "same_comm cm cm'" "scheduler_reach (sc_scheduler (snd st))" for st cm'
    using agg_ok_set_comm[OF ok c that(1)] that(2) by (rule agg_ok_set_net)
  then show ?thesis using c unfolding deliver_to_def comm_at_def
    by (auto intro!: returns_bind[OF OnBufferReceive_ok[OF b l s]])
qed

lemma TryDeliver_ok:
  assumes ok: "agg_ok ag" and b: "sb_ok b"
  shows "returns (\<lambda>(ret, ag'). agg_ok ag') (TryDeliverAppLayerFrameToCommunicatorNoMutex env ver src (Some b) l ui ag)"
proof -
  let ?ag = "touch_user (receiveUser ui) ag"
  have ok': "agg_ok ?ag" by (rule agg_ok_touch[OF ok])
  have d: "returns (\<lambda>(ret, ag'). agg_ok ag') (deliver_to env u l src (Some b) (sendUser ui) ver ?ag)" if "active u l ag" for u
    using deliver_ok[OF ok' _ b] that by (auto simp: active_def)
  have "active u l ag" if "find_active l (commMap ?ag) = Some u" for u
    using find_active_Some(1)[OF that agg_okD(1)[OF ok']] by simp
  moreover have "active (receiveUser ui) l ag" if "om_find (comms_of (receiveUser ui) ag) l = Some (cm, True)" for cm
    using that by (simp add: active_def comm_at_def)
  ultimately show ?thesis using d ok' unfolding TryDeliverAppLayerFrameToCommunicatorNoMutex_def Let_def
    by (auto split: option.split)
qed

text \<open>
  What the receive path relies on of the other threads that run during the callback for a missing communicator:
  they use the aggregator's own operations, so they keep its invariant, and they do not exhaust the
  64-bit counter of retained frames.
\<close>

definition fresh_counters :: "'o aggregator \<Rightarrow> bool" where
  "fresh_counters ag \<longleftrightarrow> incAckTriggerId (ag_linker ag) \<noteq> - 1 \<and> incProgressId (ag_combiner ag) \<noteq> - 1 \<and>
     rt_incRetainOrder (ag_retainer ag) \<noteq> - 1"

definition others_keep :: "'o recv_env \<Rightarrow> bool" where
  "others_keep env \<longleftrightarrow> (\<forall>ag. agg_ok ag \<longrightarrow> agg_ok (re_meanwhile env ag) \<and>
     (rt_incRetainOrder (ag_retainer ag) \<noteq> - 1 \<longrightarrow> rt_incRetainOrder (ag_retainer (re_meanwhile env ag)) \<noteq> - 1))"

lemma deliver_order: "yields (\<lambda>(ret, ag'). ag_retainer ag' = ag_retainer ag) (deliver_to env u l src buf user ver ag)"
  unfolding deliver_to_def by (auto intro!: yields_after simp: emit_def set_net_def set_comm_def split: option.split)

lemma TryDeliver_order:
  "yields (\<lambda>(ret, ag'). ag_retainer ag' = ag_retainer ag) (TryDeliverAppLayerFrameToCommunicatorNoMutex env ver src buf l ui ag)"
proof -
  have "ag_retainer (touch_user u ag) = ag_retainer ag" for u by (simp add: touch_user_def)
  then show ?thesis using deliver_order[where ag = "touch_user (receiveUser ui) ag"]
    unfolding TryDeliverAppLayerFrameToCommunicatorNoMutex_def Let_def by (simp split: option.split)
qed

lemma TryDeliver_full:
  assumes "agg_ok ag" "sb_ok b"
  shows "returns (\<lambda>(ret, ag'). agg_ok ag' \<and> ag_retainer ag' = ag_retainer ag)
    (TryDeliverAppLayerFrameToCommunicatorNoMutex env ver src (Some b) l ui ag)"
  using TryDeliver_ok[OF assms, of env ver src l ui] TryDeliver_order[of ag env ver src "Some b" l ui]
  by (auto simp: returns_def yields_def)

lemma ReTry_ok:
  assumes ok: "agg_ok ag" and b: "sb_ok b" and l: "length (pr_commLabel res) = COMM_LABEL_LENGTH"
    and o: "rt_incRetainOrder (ag_retainer ag) \<noteq> - 1" and m: "others_keep env"
  shows "returns (\<lambda>(ret, ag'). agg_ok ag') (ReTryDeliverAppLayerFrameOnCommunicatorNotFound env info (Some b) res ui ag)"
proof -
  have mw: "agg_ok (re_meanwhile env (emit es ag))" "rt_incRetainOrder (ag_retainer (re_meanwhile env (emit es ag))) \<noteq> - 1" for es
    using m ok o by (auto simp: others_keep_def emit_def[of es ag] agg_ok_emit[of es ag, symmetric] simp del: agg_ok_emit)
  have nf: "returns agg_ok (TryToFeedbackWhenCommunicatorNotFound env (rb_srcTarget info) (pr_commLabel res) (Some b) n ag2)"
    if "agg_ok ag2" for n ag2 using NotFoundFeedback_ok[OF that l] b by simp
  have rt: "returns (\<lambda>r. retainer_ok r) (RetainFrame mem f r)"
    if "retainer_ok r" "rt_incRetainOrder r \<noteq> - 1" "fm_buffer f = Some b" for mem f r
    using RetainFrame_ok[OF that(1,2), of f mem] that(3) b by (auto simp: returns_def)
  show ?thesis unfolding ReTryDeliverAppLayerFrameOnCommunicatorNotFound_def Let_def case_prod_unfold
    using b mw(2) agg_okD(6)[OF mw(1)]
    by (auto intro!: returns_bind[OF TryDeliver_full[OF mw(1)]] returns_bind[OF nf] returns_bind[OF rt] agg_ok_retainer)
qed

lemma AppLayer_ok:
  assumes ok: "agg_ok ag" and b: "sb_ok b" and l: "length (pr_commLabel res) = COMM_LABEL_LENGTH"
    and o: "rt_incRetainOrder (ag_retainer ag) \<noteq> - 1" and m: "others_keep env"
  shows "returns (\<lambda>(ret, ag'). agg_ok ag') (OnAppLayerFrameReceive env info b res ag)"
proof -
  have fb: "returns agg_ok (TryToFeedBackWithErr env (rb_srcTarget info) (pr_commLabel res) (Some b) n ag)" for n
    using FeedBackWithErr_ok[OF ok l] b by simp
  have nf: "returns agg_ok (TryToFeedbackWhenCommunicatorNotFound env (rb_srcTarget info) (pr_commLabel res) (Some b) n ag2)"
    if "agg_ok ag2" for n ag2 using NotFoundFeedback_ok[OF that l] b by simp
  show ?thesis unfolding OnAppLayerFrameReceive_def Let_def case_prod_unfold
    using ok b o
    by (auto intro!: returns_bind[OF fb] returns_bind[OF TryDeliver_full[OF ok b]] returns_bind[OF nf]
        ReTry_ok[OF _ b l _ m, unfolded case_prod_unfold] simp: case_prod_unfold)
qed

lemma padding_off:
  assumes "SetExternalBuff (Some bytes) (len - ucast (p :: u8)) h new_SerialBuffer = (E_OK, b)"
  shows "unat (len - ucast p) \<le> unat len"
proof -
  have "unat (len - ucast p) \<le> 104857600"
    using assms by (auto simp: SetExternalBuff_def u32_less not_less split: if_splits)
  moreover have "unat p < 256" using unsigned_less[of p] by simp
  then have "unat (ucast p :: u32) < 256" using order.strict_trans1[OF mod_less_eq_dividend[of "unat p"]] by (simp add: unsigned_ucast_eq take_bit_eq_mod mod_less)
  ultimately show ?thesis by (simp add: unat_sub_if_size word_size split: if_splits)
qed

lemma AppLayer_bytes_ok:
  assumes "agg_ok ag" "length (pr_commLabel res) = COMM_LABEL_LENGTH" "rt_incRetainOrder (ag_retainer ag) \<noteq> - 1" "others_keep env"
    and "unat (rb_length info) \<le> length (rb_bytes info)"
  shows "returns (\<lambda>(ret, ag'). agg_ok ag') (OnAppLayerFrameReceive_bytes env info res ag)"
proof -
  have "sb_ok b" if "SetExternalBuff (Some (rb_bytes info)) (rb_length info - ucast (pr_paddingLen res))
      GetAppLayerFrameHeaderLength new_SerialBuffer = (E_OK, b)" for b
    using SetExternalBuff_ok[OF that] padding_off[OF that] assms(5) by simp
  then show ?thesis using assms(1) AppLayer_ok[OF assms(1) _ assms(2-4)]
    by (auto simp: OnAppLayerFrameReceive_bytes_def split: prod.split)
qed

section \<open>Connection changes and the view of communicators\<close>

definition seen :: "target \<Rightarrow> bool \<Rightarrow> communicator \<Rightarrow> communicator" where
  "seen t b cm = (if t = [] then cm
     else cm\<lparr>onlineTargets := (if b then insort_insert else removeAll) t (onlineTargets cm)\<rparr>)"

lemma snd_OnConnect [simp]: "snd (OnConnectChange t b cm) = seen t b cm"
  by (simp add: OnConnectChange_def seen_def)

lemma seen_label [simp]: "commLabel (seen t b cm) = commLabel cm"
  by (simp add: seen_def)

lemma seen_targets:
  "t \<noteq> [] \<Longrightarrow> set (onlineTargets (seen t True cm)) = insert t (set (onlineTargets cm))"
  "t \<noteq> [] \<Longrightarrow> set (onlineTargets (seen t False cm)) = set (onlineTargets cm) - {t}"
  by (simp_all add: seen_def set_insort_insert)

lemma set_link_fields [simp]:
  "ag_linker (set_link (lk, sa, env, c) ag) = lk" "ag_send (set_link (lk, sa, env, c) ag) = c"
  "ag_combiner (set_link (lk, sa, env, c) ag) = ag_combiner ag" "ag_retainer (set_link (lk, sa, env, c) ag) = ag_retainer ag"
  "commMap (set_link (lk, sa, env, c) ag) = commMap ag"
  by (simp_all add: set_link_def)

lemma agg_inv_send: "agg_inv (sa, env, c) = scheduler_reach (sc_scheduler c)"
  by (simp add: agg_inv_def)

text \<open>
  A step that changes the linker and then notifies communicators keeps the invariant when the notifications bring the
  view of every activated communicator up to the new table.
\<close>

lemma agg_ok_notified:
  assumes ok: "agg_ok ag" and r: "rest ag' = rest (set_link (lk, sa, env, c) ag)" and cm': "comms_ok ag'"
    and lk: "link_ok 0 lk" "scheduler_reach (sc_scheduler c)" "[] \<notin> set (remoteOnlineTarget lk)"
    and at: "\<And>u l cm act. comm_at u l ag' = Some (cm, act) \<Longrightarrow>
       \<exists>cm0. comm_at u l ag = Some (cm0, act) \<and>
         (set (onlineTargets cm0) = (if act then announced (ag_linker ag) l else {}) \<longrightarrow>
          set (onlineTargets cm) = (if act then announced lk l else {}))"
  shows "agg_ok ag'"
proof -
  have f: "ag_linker ag' = lk" "ag_send ag' = c" "ag_combiner ag' = ag_combiner ag" "ag_retainer ag' = ag_retainer ag"
    using rest_fields[OF r] by simp_all
  have "view_ok ag'"
    unfolding view_ok_def f
  proof (intro conjI allI impI)
    show "[] \<notin> set (remoteOnlineTarget lk)" by (rule lk)
    fix u l cm act assume "comm_at u l ag' = Some (cm, act)"
    from at[OF this] show "set (onlineTargets cm) = (if act then announced lk l else {})"
      using agg_okD(2)[OF ok] unfolding view_ok_def by blast
  qed
  then show ?thesis using ok cm' lk(1,2) by (simp add: agg_ok_def parts_ok_def f)
qed

lemma notify_fold_at:
  "comm_at u l (fold (\<lambda>(l, b). notify_all (\<lambda>l'. l' = l) (OnConnectChange t b)) es ag) =
     map_option (\<lambda>(cm, act). (if act then fold (\<lambda>(l', b) cm. if l' = l then seen t b cm else cm) es cm else cm, act))
       (comm_at u l ag)"
proof (induction es arbitrary: ag)
  case Nil
  show ?case by (cases "comm_at u l ag") auto
next
  case (Cons e es)
  then show ?case by (cases e; cases "comm_at u l ag") (auto simp: notify_all_at)
qed

lemma notify_fold_rest: "rest (fold (\<lambda>(l, b). notify_all (\<lambda>l'. l' = l) (OnConnectChange t b)) es ag) = rest ag"
  by (induction es arbitrary: ag) (auto simp: notify_all_rest)

lemma notify_fold_ok:
  "comms_ok ag \<Longrightarrow> comms_ok (fold (\<lambda>(l, b). notify_all (\<lambda>l'. l' = l) (OnConnectChange t b)) es ag)"
  by (induction es arbitrary: ag) (simp_all add: case_prod_unfold notify_all_ok)

lemma fold_connect_targets:
  assumes "t \<noteq> []" "om_ok es"
  shows "set (onlineTargets (fold (\<lambda>(l', b) cm. if l' = l then seen t b cm else cm) es cm)) =
    (case om_find es l of None \<Rightarrow> set (onlineTargets cm) | Some True \<Rightarrow> insert t (set (onlineTargets cm))
     | Some False \<Rightarrow> set (onlineTargets cm) - {t})"
proof -
  have no: "fold (\<lambda>(l', b) cm. if l' = l then seen t b cm else cm) es cm = cm" if "om_find es l = None" for es cm
    using that by (induction es) (auto simp: om_find_Cons split: if_splits)
  show ?thesis using assms(2)
  proof (induction es arbitrary: cm)
    case (Cons e es)
    obtain l' b where e: "e = (l', b)" by (cases e)
    have ok: "om_ok es" "om_find es l' = None" using Cons.prems e by (auto simp: om_ok_Cons om_find_None_iff)
    show ?case
    proof (cases "l' = l")
      case True
      then show ?thesis using no[of es] ok assms(1) e by (cases b) (auto simp: om_find_Cons seen_targets)
    next
      case False
      then show ?thesis using Cons.IH[OF ok(1), of cm] e by (simp add: om_find_Cons)
    qed
  qed simp
qed

lemma agg_okI: "agg_ok ag \<Longrightarrow> agg_inv (ag_adapter ag, env, ag_send ag)"
  using agg_okD by (simp add: agg_inv_def)

lemma NotifyConnectChange_ok:
  assumes ok: "agg_ok ag" and t: "om_ok out"
    and lk: "link_ok 0 lk" "scheduler_reach (sc_scheduler c)" "remoteOnlineTarget lk = remoteOnlineTarget (ag_linker ag)"
    and other: "\<And>t'. t' \<noteq> t \<Longrightarrow> om_get [] (targetMapOnlineLabels lk) t' = om_get [] (targetMapOnlineLabels (ag_linker ag)) t'"
    and out: "\<And>l. case om_find out l of
        None \<Rightarrow> l \<in> set (om_get [] (targetMapOnlineLabels lk) t) \<longleftrightarrow> l \<in> set (om_get [] (targetMapOnlineLabels (ag_linker ag)) t)
      | Some b \<Rightarrow> l \<in> set (om_get [] (targetMapOnlineLabels lk) t) \<longleftrightarrow> b"
  shows "agg_ok (NotifyConnectChange t out (set_link (lk, sa, env, c) ag))"
proof -
  let ?ag = "set_link (lk, sa, env, c) ag"
  have e: "[] \<notin> set (remoteOnlineTarget lk)" using agg_okD(2)[OF ok] lk(3) by (simp add: view_ok_def)
  have co: "comms_ok ?ag" using comms_ok_same[of ?ag ag] agg_okD(1)[OF ok] by simp
  show ?thesis
  proof (cases "t \<in> set (remoteOnlineTarget lk)")
    case False
    have "announced lk l = announced (ag_linker ag) l" for l
      using False lk(3) other by (auto simp: announced_def) metis+
    then have "agg_ok ?ag" using agg_ok_notified[OF ok refl co lk(1,2) e] by auto
    then show ?thesis using False by (simp add: NotifyConnectChange_def IsRemoteTargetOnline_def)
  next
    case True
    then have t0: "t \<noteq> []" using e by auto
    have ann: "announced lk l = (case om_find out l of None \<Rightarrow> announced (ag_linker ag) l
        | Some True \<Rightarrow> insert t (announced (ag_linker ag) l) | Some False \<Rightarrow> announced (ag_linker ag) l - {t})" for l
    proof -
      have o: "t' \<in> announced lk l \<longleftrightarrow> t' \<in> announced (ag_linker ag) l" if "t' \<noteq> t" for t'
        using other[OF that] lk(3) by (simp add: announced_def)
      have "t \<in> announced lk l \<longleftrightarrow> (case om_find out l of None \<Rightarrow> t \<in> announced (ag_linker ag) l | Some b \<Rightarrow> b)"
        using out[of l] True lk(3) by (auto simp: announced_def split: option.splits)
      then have "t' \<in> announced lk l \<longleftrightarrow> t' \<in> (case om_find out l of None \<Rightarrow> announced (ag_linker ag) l
        | Some True \<Rightarrow> insert t (announced (ag_linker ag) l) | Some False \<Rightarrow> announced (ag_linker ag) l - {t})" for t'
        using o[of t'] by (cases "t' = t") (auto split: option.split bool.split)
      then show ?thesis by blast
    qed
    let ?ag' = "fold (\<lambda>(l, b). notify_all (\<lambda>l'. l' = l) (OnConnectChange t b)) out ?ag"
    have "agg_ok ?ag'"
    proof (rule agg_ok_notified[OF ok _ notify_fold_ok[OF co] lk(1,2) e])
      show "rest ?ag' = rest ?ag" by (rule notify_fold_rest)
      fix u l cm act assume "comm_at u l ?ag' = Some (cm, act)"
      then show "\<exists>cm0. comm_at u l ag = Some (cm0, act) \<and>
         (set (onlineTargets cm0) = (if act then announced (ag_linker ag) l else {}) \<longrightarrow>
          set (onlineTargets cm) = (if act then announced lk l else {}))"
        using fold_connect_targets[OF t0 t, of l] ann[of l] by (auto simp: notify_fold_at split: option.splits bool.splits)
    qed
    then show ?thesis using True by (simp add: NotifyConnectChange_def IsRemoteTargetOnline_def)
  qed
qed

lemma om_ok_change: "om_ok (change_labels a b [])"
  unfolding change_labels_def by (intro om_ok_fold) simp_all

lemma CommLayer_ok:
  assumes ok: "agg_ok ag" and inc: "incAckTriggerId (ag_linker ag) \<noteq> - 1"
  shows "returns (\<lambda>(e, ag'). agg_ok ag') (OnCommLayerFrameReceive env src res ag)"
proof (cases "pr_frameType res = COMMUNICATION_LABEL_EXCHANGE_ACK")
  case True
  let ?r = "ReceiveLabelExchangeAck (re_link env) src (pr_distinctValue res) (pr_sequenceId res) (ag_linker ag)"
  have f: "remoteOnlineTarget (snd ?r) = remoteOnlineTarget (ag_linker ag)"
    "targetMapOnlineLabels (snd ?r) = targetMapOnlineLabels (ag_linker ag)"
    by (auto simp: ReceiveLabelExchangeAck_def Let_def split: option.split)
  have "agg_ok (ag\<lparr>ag_linker := snd ?r\<rparr>)"
    using ok comms_ok_same[of "ag\<lparr>ag_linker := snd ?r\<rparr>" ag] view_ok_same[of "ag\<lparr>ag_linker := snd ?r\<rparr>" ag] f
      Ack_ok[OF agg_okD(3)[OF ok]] by (simp add: agg_ok_def parts_ok_def)
  then show ?thesis using True by (simp add: OnCommLayerFrameReceive_def case_prod_unfold Let_def)
next
  case False
  note R = agg.Receive_effect[OF agg_okD(3)[OF ok] agg_okI[OF ok, of "ce_send env"] inc, of "pr_latestCommLabels res" src "re_link env"
      "pr_distinctValue res" "pr_sequenceId res"]
  let ?known = "om_get [] (targetMapOnlineLabels (ag_linker ag)) src"
  have e: "[] \<notin> set (remoteOnlineTarget (ag_linker ag))" using agg_okD(2)[OF ok] by (simp add: view_ok_def)
  have "agg_ok (NotifyConnectChange src (change_labels (pr_latestCommLabels res) ?known []) (set_link (lk, sa, e', c) ag))"
    if "link_ok 0 lk" "agg_inv (sa, e', c)" "remoteOnlineTarget lk = remoteOnlineTarget (ag_linker ag)"
      "targetMapOnlineLabels lk = om_insert src (pr_latestCommLabels res) (targetMapOnlineLabels (ag_linker ag))" for lk sa e' c
    using that(2,4)
    by (intro NotifyConnectChange_ok[OF ok om_ok_change that(1) _ that(3)])
       (auto simp: agg_inv_send om_get_insert change_labels_find split: option.split)
  moreover have "agg_ok (set_link (lk, sa, e', c) ag)"
    if "link_ok 0 lk" "agg_inv (sa, e', c)" "remoteOnlineTarget lk = remoteOnlineTarget (ag_linker ag)"
      "targetMapOnlineLabels lk = targetMapOnlineLabels (ag_linker ag)" for lk sa e' c
    using that ok comms_ok_same[of "set_link (lk, sa, e', c) ag" ag] view_ok_same[of "set_link (lk, sa, e', c) ag" ag]
    by (simp add: agg_ok_def parts_ok_def agg_inv_send)
  ultimately show ?thesis using False unfolding OnCommLayerFrameReceive_def link_state_def
    by (auto intro!: returns_bind[OF R] split: if_splits)
qed

lemma Fragment_ok:
  assumes ok: "agg_ok ag" and c: "fresh_counters ag" and m: "others_keep env" and len: "unat (rb_length info) \<le> length (rb_bytes info)"
  shows "returns agg_ok (OnFragmentReceive env info res ag)"
proof -
  obtain e out k where a: "AssembleFrameFragment (se_mem (ce_send env)) (rb_bytes info) (rb_length info) res (ag_combiner ag) = Ok (e, out, k)"
    "combiner_ok k" "case out of None \<Rightarrow> True | Some (buf, fi) \<Rightarrow> e = E_OK \<and> (\<exists>b. buf = Some b \<and> sb_ok b)"
    using assemble_step[OF agg_okD(5)[OF ok] len, of "se_mem (ce_send env)" res] c
    by (fastforce simp: fresh_counters_def split: option.splits)
  let ?ag = "ag\<lparr>ag_combiner := k\<rparr>"
  have ok1: "agg_ok ?ag" by (rule agg_ok_combiner[OF ok a(2)])
  have cnt: "incAckTriggerId (ag_linker ?ag) \<noteq> - 1" "rt_incRetainOrder (ag_retainer ?ag) \<noteq> - 1"
    using c by (simp_all add: fresh_counters_def)
  show ?thesis
  proof (cases out)
    case (Some x)
    then obtain b fi where out: "out = Some (Some b, fi)" "sb_ok b" "e = E_OK" using a(3) by (cases x) auto
    have ok2: "agg_ok (emit [FreeFrame] ?ag)" using ok1 by simp
    have app: "returns agg_ok (res_bind (OnAppLayerFrameReceive env info b r ?ag) (\<lambda>(_, ag2). Ok ag2))"
      if "length (pr_commLabel r) = COMM_LABEL_LENGTH" for r
      by (rule returns_bind[OF AppLayer_ok[OF ok1 out(2) that cnt(2) m]]) auto
    have comm: "returns agg_ok (res_bind (OnCommLayerFrameReceive env t r ?ag) (\<lambda>(_, ag2). Ok (emit [FreeFrame] ag2)))" for t r
      by (rule returns_bind[OF CommLayer_ok[OF ok1 cnt(1)]]) auto
    show ?thesis
      using CheckAndParseFrame_safe[OF out(2), of "se_be (ce_send env)" fi] frame_label[of "se_be (ce_send env)" b fi]
        VersionNegotiation_ok[OF ok2] ok2 app comm out(3)
      by (cases "CheckAndParseFrame (se_be (ce_send env)) (Some b) fi")
         (simp_all add: OnFragmentReceive_def a(1) out(1) Let_def)
  qed (use ok1 in \<open>simp add: OnFragmentReceive_def a(1) Let_def\<close>)
qed

lemma agg_ok_frame:
  assumes "commMap ag' = commMap ag" "ag_linker ag' = ag_linker ag" "ag_send ag' = ag_send ag"
    "ag_combiner ag' = ag_combiner ag" "ag_retainer ag' = ag_retainer ag"
  shows "agg_ok ag' = agg_ok ag" "fresh_counters ag' = fresh_counters ag"
  using assms comms_ok_same[of ag' ag] view_ok_same[of ag' ag] by (simp_all add: agg_ok_def parts_ok_def fresh_counters_def)

lemma OnBytesReceive_ok:
  assumes ok: "agg_ok ag" and c: "fresh_counters ag" and m: "others_keep env" and len: "unat (rb_length info) \<le> length (rb_bytes info)"
  shows "returns agg_ok (OnBytesReceive env info ag)"
proof (cases "CheckAndParsePacket (se_be (ce_send env)) (Some (rb_bytes info)) (rb_length info) new_ParseResult")
  case (Ok r)
  define ag1 where "ag1 = SetRemoteCommunicatorVersion (rb_srcTarget info) (pr_dbVersion r) ag"
  define ag2 where "ag2 = (case ag_adapter ag1 of None \<Rightarrow> ag1
     | Some s \<Rightarrow> let (tasks, s') = SetRemoteOptimizeCommunication (se_pool (ce_send env)) (rb_srcTarget info)
                       (\<not> pr_sendLabelExchange r) s
                 in ag1\<lparr>ag_adapter := Some s', ag_adapterTasks := ag_adapterTasks ag1 @ tasks\<rparr>)"
  have f: "commMap ag2 = commMap ag" "ag_linker ag2 = ag_linker ag" "ag_send ag2 = ag_send ag"
    "ag_combiner ag2 = ag_combiner ag" "ag_retainer ag2 = ag_retainer ag"
    by (simp_all add: ag2_def ag1_def SetRemoteCommunicatorVersion_def case_prod_unfold Let_def split: option.split)
  have ok2: "agg_ok ag2" "fresh_counters ag2" using agg_ok_frame[OF f] ok c by simp_all
  then have cnt: "incAckTriggerId (ag_linker ag2) \<noteq> - 1" "rt_incRetainOrder (ag_retainer ag2) \<noteq> - 1"
    by (simp_all add: fresh_counters_def)
  have app: "returns agg_ok (res_bind (OnAppLayerFrameReceive_bytes env info r ag2) (\<lambda>(_, ag3). Ok ag3))"
    if "pr_frameType r = APPLICATION_MESSAGE" "\<not> pr_isFragment r"
    by (rule returns_bind[OF AppLayer_bytes_ok[OF ok2(1) packet_label[OF Ok that] cnt(2) m len]]) auto
  have comm: "returns agg_ok (res_bind (OnCommLayerFrameReceive env (rb_srcTarget info) r ag2) (\<lambda>(_, ag3). Ok ag3))"
    by (rule returns_bind[OF CommLayer_ok[OF ok2(1) cnt(1)]]) auto
  have "OnBytesReceive env info ag =
      (if pr_frameType r = EMPTY then Ok ag2
       else if pr_isFragment r then OnFragmentReceive env info r ag2
       else if pr_frameType r \<noteq> APPLICATION_MESSAGE
       then res_bind (OnCommLayerFrameReceive env (rb_srcTarget info) r ag2) (\<lambda>(_, ag3). Ok ag3)
       else res_bind (OnAppLayerFrameReceive_bytes env info r ag2) (\<lambda>(_, ag3). Ok ag3))"
    by (simp only: OnBytesReceive_def Ok ag2_def ag1_def Let_def res.case)
  then show ?thesis using ok2(1) app comm Fragment_ok[OF ok2 m len] by simp
next
  case (Err e)
  then show ?thesis using ok VersionNegotiation_ok[OF ok] by (simp add: OnBytesReceive_def)
qed (use CheckAndParsePacket_safe[OF len] in simp)

section \<open>Connections and communicators\<close>

lemma TargetChange_ok:
  assumes ok: "agg_ok ag" and e: "wf_env (re_link env)" and inc: "incSequenceId (ag_linker ag) \<noteq> - 1"
  shows "returns agg_ok (OnTargetChange env t b ag)"
proof (cases "t = []")
  case False
  let ?ag = "emit (case ag_onConnect ag of None \<Rightarrow> [] | Some k \<Rightarrow> [ConnectCall k t b]) ag"
  have ok1: "agg_ok ?ag" using ok by simp
  have same: "ag_linker ?ag = ag_linker ag" "ag_adapter ?ag = ag_adapter ag" "ag_send ?ag = ag_send ag" by (simp_all add: emit_def)
  have e0: "[] \<notin> set (remoteOnlineTarget (ag_linker ag))" using agg_okD(2)[OF ok] by (simp add: view_ok_def)
  have co: "comms_ok (set_link st ?ag)" for st using comms_ok_same[of "set_link st ?ag" ?ag] agg_okD(1)[OF ok1]
    by (simp add: set_link_def split: prod.split)
  show ?thesis
  proof (cases b)
    case True
    note T = agg.Online_effect[OF agg_okD(3)[OF ok] agg_okI[OF ok, of "ce_send env"] e inc, of t]
    have "agg_ok (notify_all (\<lambda>l. l \<in> set ls) (OnConnectChange t True) (set_link (lk, sa, e', c) ?ag))"
      if lk: "link_ok 0 lk" "agg_inv (sa, e', c)" "set (remoteOnlineTarget lk) = insert t (set (remoteOnlineTarget (ag_linker ag)))"
        "\<forall>t'. om_get [] (targetMapOnlineLabels lk) t' = om_get [] (targetMapOnlineLabels (ag_linker ag)) t'"
        "ls = (if t \<in> set (remoteOnlineTarget (ag_linker ag)) then [] else om_get [] (targetMapOnlineLabels (ag_linker ag)) t)"
      for lk sa e' c ls
    proof (rule agg_ok_notified[OF ok1 notify_all_rest notify_all_ok[OF co] lk(1)])
      show "scheduler_reach (sc_scheduler c)" using lk(2) by (simp add: agg_inv_send)
      show "[] \<notin> set (remoteOnlineTarget lk)" using lk(3) e0 False by simp
      have ann: "announced lk l = (if l \<in> set ls then insert t (announced (ag_linker ag) l) else announced (ag_linker ag) l)" for l
        using lk(3-5) by (auto simp: announced_def)
      show "\<exists>cm0. comm_at u l ?ag = Some (cm0, act) \<and>
         (set (onlineTargets cm0) = (if act then announced (ag_linker ?ag) l else {}) \<longrightarrow>
          set (onlineTargets cm) = (if act then announced lk l else {}))"
        if at: "comm_at u l (notify_all (\<lambda>l. l \<in> set ls) (OnConnectChange t True) (set_link (lk, sa, e', c) ?ag)) = Some (cm, act)"
        for u l cm act
      proof -
        obtain cm0 where "comm_at u l ag = Some (cm0, act)" "cm = (if act \<and> l \<in> set ls then seen t True cm0 else cm0)"
          using at by (auto simp: notify_all_at)
        then show ?thesis using ann[of l] seen_targets(1)[OF False, of cm0] by (auto simp: same)
      qed
    qed simp
    then show ?thesis using False True unfolding OnTargetChange_def link_state_def
      by (auto intro!: returns_bind[OF T] simp: Let_def same)
  next
    case off: False
    obtain ls acts lk sa where o: "Linker_TargetOffline (re_link env) t (ag_linker ag, ag_adapter ag) = (ls, acts, lk, sa)"
      by (cases "Linker_TargetOffline (re_link env) t (ag_linker ag, ag_adapter ag)") auto
    note E = agg.Offline_effect[OF agg_okD(3)[OF ok] agg_okI[OF ok, of "ce_send env"] o]
    let ?st = "(lk, sa, ce_send env, ag_send ag)"
    have sl: "?ag\<lparr>ag_linker := lk, ag_adapter := sa\<rparr> = set_link ?st ?ag" by (simp add: set_link_def emit_def)
    have "agg_ok (notify_all (\<lambda>_. True) (OnConnectChange t False) (set_link ?st ?ag))"
    proof (rule agg_ok_notified[OF ok1 notify_all_rest notify_all_ok[OF co] E(1)])
      show "scheduler_reach (sc_scheduler (ag_send ag))" by (rule agg_okD(4)[OF ok])
      show "[] \<notin> set (remoteOnlineTarget lk)" using E(3) e0 by simp
      have ann: "announced lk l = announced (ag_linker ag) l - {t}" for l using E(3,4) by (auto simp: announced_def)
      show "\<exists>cm0. comm_at u l ?ag = Some (cm0, act) \<and>
         (set (onlineTargets cm0) = (if act then announced (ag_linker ?ag) l else {}) \<longrightarrow>
          set (onlineTargets cm) = (if act then announced lk l else {}))"
        if at: "comm_at u l (notify_all (\<lambda>_. True) (OnConnectChange t False) (set_link ?st ?ag)) = Some (cm, act)" for u l cm act
      proof -
        obtain cm0 where "comm_at u l ag = Some (cm0, act)" "cm = (if act then seen t False cm0 else cm0)"
          using at by (auto simp: notify_all_at)
        then show ?thesis using ann[of l] seen_targets(2)[OF False, of cm0] by (auto simp: same)
      qed
    qed simp
    then show ?thesis using False off o sl unfolding OnTargetChange_def by (simp add: Let_def same)
  qed
qed (simp add: OnTargetChange_def ok)

lemma Update_get:
  "om_ok labels \<Longrightarrow> om_get [] (targetMapOnlineLabels (UpdateOnlineLabels t labels lk)) t' =
     (if t' = t then fold (\<lambda>(l, b). (if b then insort_insert else removeAll) l) labels (om_get [] (targetMapOnlineLabels lk) t)
      else om_get [] (targetMapOnlineLabels lk) t')"
proof -
  have "om_get [] (fold (\<lambda>(l, b) m. om_insert t ((if b then insort_insert l else removeAll l) (om_get [] m t)) m) es m) t' =
     (if t' = t then fold (\<lambda>(l, b). (if b then insort_insert else removeAll) l) es (om_get [] m t) else om_get [] m t')"
    for es and m :: "(target, label list) omap"
    by (induction es arbitrary: m) (auto simp: om_get_insert)
  then show ?thesis by (simp add: UpdateOnlineLabels_def)
qed

lemma fold_labels:
  fixes es :: "(label, bool) omap"
  assumes "om_ok es"
  shows "l \<in> set (fold (\<lambda>(l, b). (if b then insort_insert else removeAll) l) es ls) \<longleftrightarrow>
    (case om_find es l of None \<Rightarrow> l \<in> set ls | Some b \<Rightarrow> b)"
proof -
  have no: "l \<in> set (fold (\<lambda>(l, b). (if b then insort_insert else removeAll) l) es ls) \<longleftrightarrow> l \<in> set ls"
    if "om_find es l = None" for es ls
    using that by (induction es arbitrary: ls) (auto simp: om_find_Cons set_insort_insert split: if_splits)
  show ?thesis using assms
  proof (induction es arbitrary: ls)
    case (Cons e es)
    obtain l' b where e: "e = (l', b)" by (cases e)
    have ok: "om_ok es" "om_find es l' = None" using Cons.prems e by (auto simp: om_ok_Cons om_find_None_iff)
    show ?case
    proof (cases "l' = l")
      case True
      then show ?thesis using no[of es] ok e by (auto simp: om_find_Cons set_insort_insert)
    next
      case False
      then show ?thesis using Cons.IH[OF ok(1)] e by (auto simp: om_find_Cons set_insort_insert split: option.split)
    qed
  qed simp
qed

lemma RemoteDBStatus_ok:
  assumes ok: "agg_ok ag"
  shows "agg_ok (OnRemoteDBStatusChange env t infos ag)"
proof -
  define labels where "labels = fold (\<lambda>i. om_insert (GenerateHashLabel (le_hash (re_link env)) i) (di_isNeedSync i)) infos []"
  have lo: "om_ok labels" unfolding labels_def by (intro om_ok_fold) simp_all
  let ?lk = "UpdateOnlineLabels t labels (ag_linker ag)"
  have m: "om_ok (targetMapOnlineLabels ?lk)"
    using agg_okD(3)[OF ok] by (auto simp: UpdateOnlineLabels_def link_ok_def intro!: om_ok_fold)
  have lk: "link_ok 0 ?lk" using link_ok_labels[OF agg_okD(3)[OF ok] m, of "topRecvLabelSeq ?lk"]
    by (simp add: UpdateOnlineLabels_def)
  have "ag\<lparr>ag_linker := ?lk\<rparr> = set_link (?lk, ag_adapter ag, ce_send env, ag_send ag) ag" by (simp add: set_link_def)
  moreover have "agg_ok (NotifyConnectChange t labels (set_link (?lk, ag_adapter ag, ce_send env, ag_send ag) ag))"
  proof (rule NotifyConnectChange_ok[OF ok lo lk agg_okD(4)[OF ok]])
    show "remoteOnlineTarget ?lk = remoteOnlineTarget (ag_linker ag)" by (simp add: UpdateOnlineLabels_def)
  qed (auto simp: Update_get[OF lo] fold_labels[OF lo] split: option.split)
  ultimately show ?thesis by (simp add: OnRemoteDBStatusChange_def labels_def[symmetric] Let_def)
qed

lemma new_Communicator_fields [simp]: "commLabel (new_Communicator l) = l" "onlineTargets (new_Communicator l) = []"
  by (simp_all add: new_Communicator_def)

lemma Alloc_ok:
  assumes ok: "agg_ok ag"
  shows "agg_ok (snd (AllocCommunicator mem l u ag))"
proof -
  have "agg_ok (set_comm u l (new_Communicator l, False) ag)" if l: "length l = COMM_LABEL_LENGTH"
  proof -
    have "comms_ok (set_comm u l (new_Communicator l, False) ag)"
      using om_ok_set_comm[OF agg_okD(1)[OF ok], of u l "(new_Communicator l, False)"] comms_okD[OF agg_okD(1)[OF ok]] l
      by (auto simp: comms_ok_def[of "set_comm u l (new_Communicator l, False) ag"])
    moreover have "ag_linker (set_comm u l (new_Communicator l, False) ag) = ag_linker ag" by (simp add: set_comm_def)
    moreover have "parts_ok (set_comm u l (new_Communicator l, False) ag) = parts_ok ag" by (simp add: parts_ok_def set_comm_def)
    ultimately show ?thesis using ok by (auto simp: agg_ok_def view_ok_def)
  qed
  then show ?thesis using ok by (auto simp: AllocCommunicator_def)
qed

lemma Release_ok:
  assumes ok: "agg_ok ag" and e: "wf_env (re_link env)"
    and inc: "unat (incSequenceId (ag_linker ag)) + length (remoteOnlineTarget (ag_linker ag)) < 2 ^ 64"
  shows "returns agg_ok (ReleaseCommunicator env l u ag)"
proof -
  let ?rest = "om_erase l (comms_of u ag)"
  let ?ag = "ag\<lparr>commMap := (if ?rest = [] then om_erase u (commMap ag) else om_insert u ?rest (commMap ag))\<rparr>"
  have co: "comms_of v ?ag = (if v = u then ?rest else comms_of v ag)" for v
    by (auto simp: comms_of_def om_get_insert om_get_erase)
  have at: "comm_at v k ?ag = (if v = u \<and> k = l then None else comm_at v k ag)" for v k
    by (simp add: comm_at_def co om_find_erase)
  have "comms_ok ?ag"
    unfolding comms_ok_def co at using comms_okD[OF agg_okD(1)[OF ok]] agg_okD(1)[OF ok] by (auto simp: comms_ok_def)
  moreover have "view_ok ?ag" using agg_okD(2)[OF ok] unfolding view_ok_def at by auto
  ultimately have ok1: "agg_ok ?ag" using ok by (simp add: agg_ok_def parts_ok_def)
  have s: "agg_ok (set_link (lk, sa, e', c) ?ag)"
    if "link_ok 0 lk" "agg_inv (sa, e', c)" "remoteOnlineTarget lk = remoteOnlineTarget (ag_linker ag)"
      "targetMapOnlineLabels lk = targetMapOnlineLabels (ag_linker ag)" for lk sa e' c
    using that ok1 comms_ok_same[of "set_link (lk, sa, e', c) ?ag" ?ag] view_ok_same[of "set_link (lk, sa, e', c) ?ag" ?ag]
    by (simp add: agg_ok_def parts_ok_def agg_inv_send)
  note D = agg.Decrease_effect[OF agg_okD(3)[OF ok] agg_okI[OF ok, of "ce_send env"] e inc, of l]
  show ?thesis using ok s unfolding ReleaseCommunicator_def link_state_def Let_def
    by (auto intro!: returns_bind[OF D])
qed

section \<open>Activation\<close>

lemma comm_upd_at:
  "comm_at v k (comm_upd u l f ag) = (if v = u \<and> k = l then map_option (\<lambda>(cm, act). (snd (f cm), act)) (comm_at u l ag) else comm_at v k ag)"
  by (auto simp: comm_upd_def comm_at_def[of u l ag] case_prod_unfold Let_def split: option.split)

lemma comm_upd_rest: "rest (comm_upd u l f ag) = rest ag"
  by (simp add: comm_upd_def rest_def emit_def set_comm_def case_prod_unfold Let_def split: option.split)

lemma comm_upd_ok:
  assumes ok: "comms_ok ag" and f: "\<And>cm. commLabel (snd (f cm)) = commLabel cm"
  shows "comms_ok (comm_upd u l f ag)"
proof (cases "comm_at u l ag")
  case None
  then show ?thesis using ok by (simp add: comm_upd_def comm_at_def)
next
  case (Some e)
  obtain cm act where e: "e = (cm, act)" by (cases e)
  let ?ag = "set_comm u l (snd (f cm), act) ag"
  have "comms_ok ?ag"
    using om_ok_set_comm[OF ok, of u l "(snd (f cm), act)"] comms_okD[OF ok] Some e f
    by (auto simp: comms_ok_def[of ?ag])
  moreover have "commMap (comm_upd u l f ag) = commMap ?ag"
    using Some e by (simp add: comm_upd_def comm_at_def case_prod_unfold Let_def emit_def)
  ultimately show ?thesis using comms_ok_same[of "comm_upd u l f ag" ?ag] by simp
qed

lemma catch_up_all:
  assumes "comms_ok ag" "comm_at u l ag = Some (cm, act)" "[] \<notin> set ts"
  shows "comms_ok (fold (\<lambda>t. comm_upd u l (OnConnectChange t True)) ts ag) \<and>
    rest (fold (\<lambda>t. comm_upd u l (OnConnectChange t True)) ts ag) = rest ag \<and>
    (\<forall>v k. comm_at v k (fold (\<lambda>t. comm_upd u l (OnConnectChange t True)) ts ag) =
       (if v = u \<and> k = l then Some (fold (\<lambda>t. seen t True) ts cm, act) else comm_at v k ag)) \<and>
    set (onlineTargets (fold (\<lambda>t. seen t True) ts cm)) = set (onlineTargets cm) \<union> set ts"
  using assms
proof (induction ts arbitrary: ag cm)
  case (Cons t ts)
  let ?ag = "comm_upd u l (OnConnectChange t True) ag"
  have p: "comms_ok ?ag" "comm_at u l ?ag = Some (seen t True cm, act)" "[] \<notin> set ts"
    using Cons.prems comm_upd_ok[of ag "OnConnectChange t True"] by (simp_all add: comm_upd_at)
  show ?case using Cons.IH[OF p] Cons.prems seen_targets(1)[of t cm] by (auto simp: comm_upd_at comm_upd_rest)
qed simp

lemma catch_up:
  assumes "comms_ok ag" "comm_at u l ag = Some (cm, act)" "[] \<notin> set ts"
  shows "comms_ok (fold (\<lambda>t. comm_upd u l (OnConnectChange t True)) ts ag)"
    "rest (fold (\<lambda>t. comm_upd u l (OnConnectChange t True)) ts ag) = rest ag"
    "comm_at v k (fold (\<lambda>t. comm_upd u l (OnConnectChange t True)) ts ag) =
       (if v = u \<and> k = l then Some (fold (\<lambda>t. seen t True) ts cm, act) else comm_at v k ag)"
    "set (onlineTargets (fold (\<lambda>t. seen t True) ts cm)) = set (onlineTargets cm) \<union> set ts"
  using catch_up_all[OF assms] by blast+

lemma deliver_keeps:
  assumes ok: "agg_ok ag" and c: "comm_at u l ag = Some (cm, act)" and b: "sb_ok b"
  shows "returns (\<lambda>(ret, ag'). agg_ok ag' \<and> ag_retainer ag' = ag_retainer ag \<and> ag_linker ag' = ag_linker ag \<and>
      (\<exists>cm'. comm_at u l ag' = Some (cm', act)))
    (deliver_to env u l src (Some b) user ver ag)"
proof -
  have "yields (\<lambda>(ret, ag'). ag_retainer ag' = ag_retainer ag \<and> ag_linker ag' = ag_linker ag \<and>
      (\<exists>cm'. comm_at u l ag' = Some (cm', act))) (deliver_to env u l src (Some b) user ver ag)"
    using c unfolding deliver_to_def comm_at_def[of u l ag]
    by (auto intro!: yields_after) (auto simp: emit_def set_net_def set_comm_def)
  then show ?thesis using deliver_ok[OF assms, of env src user ver] by (auto simp: returns_def yields_def)
qed

lemma redeliver_ok:
  assumes "agg_ok ag" "comm_at u l ag = Some (cm, act)" "\<forall>f \<in> set fs. \<exists>b. fm_buffer f = Some b \<and> sb_ok b"
  shows "returns (\<lambda>ag'. agg_ok ag' \<and> ag_retainer ag' = ag_retainer ag \<and> ag_linker ag' = ag_linker ag \<and>
      (\<exists>cm'. comm_at u l ag' = Some (cm', act))) (redeliver env u l fs ag)"
  using assms
proof (induction fs arbitrary: ag cm)
  case (Cons f fs)
  obtain b where b: "fm_buffer f = Some b" "sb_ok b" using Cons.prems(3) by auto
  have "returns (\<lambda>ag'. agg_ok ag' \<and> ag_retainer ag' = ag_retainer ag \<and> ag_linker ag' = ag_linker ag \<and>
      (\<exists>cm'. comm_at u l ag' = Some (cm', act))) (redeliver env u l fs ag1)"
    if "agg_ok ag1" "ag_retainer ag1 = ag_retainer ag" "ag_linker ag1 = ag_linker ag" "comm_at u l ag1 = Some (cm1, act)" for ag1 cm1
    using Cons.IH[OF that(1,4)] Cons.prems(3) that(2,3) by simp
  then show ?case
    by (auto simp: b intro!: returns_bind[OF deliver_keeps[OF Cons.prems(1,2) b(2)]])
qed simp

lemma fetched_buffers:
  assumes "retainer_ok r" "f \<in> set (map (\<lambda>(k, l, t, w). frame_of l t w) (filter P (frame_log (rt_pool r))))"
  shows "\<exists>b. fm_buffer f = Some b \<and> sb_ok b"
  using assms by (force simp: retainer_ok_def work_fits_def frame_of_def)

text \<open>The frames retained for a label, in the order of retention.\<close>

definition retained :: "label \<Rightarrow> 'o aggregator \<Rightarrow> FrameInfo list" where
  "retained l ag = map (\<lambda>(k, l, t, w). frame_of l t w) (filter (of_label l) (frame_log (rt_pool (ag_retainer ag))))"

lemma Activate_effect:
  assumes ok: "agg_ok ag" and e: "wf_env (re_link env)" and c: "comm_at u l ag = Some (cm, False)"
    and inc: "unat (incSequenceId (ag_linker ag)) + length (remoteOnlineTarget (ag_linker ag)) < 2 ^ 64"
  shows "\<exists>ag2 ag' cm2. ActivateCommunicator env l u ag = Ok ag' \<and> redeliver env u l (retained l ag) ag2 = Ok ag' \<and>
    agg_ok ag2 \<and> comm_at u l ag2 = Some (cm2, True) \<and> set (onlineTargets cm2) = announced (ag_linker ag) l \<and>
    agg_ok ag' \<and> active u l ag' \<and>
    frame_log (rt_pool (ag_retainer ag')) = filter (\<lambda>e. \<not> of_label l e) (frame_log (rt_pool (ag_retainer ag)))"
proof -
  let ?ag = "touch_user u ag" and ?ag1 = "set_comm u l (cm, True) (touch_user u ag)"
  have ok0: "agg_ok ?ag" by (rule agg_ok_touch[OF ok])
  have same: "ag_linker ?ag1 = ag_linker ag" "ag_adapter ?ag1 = ag_adapter ag" "ag_send ?ag1 = ag_send ag"
    "ag_retainer ?ag1 = ag_retainer ag" "ag_combiner ?ag1 = ag_combiner ag"
    by (simp_all add: set_comm_def touch_user_def)
  have l: "length l = COMM_LABEL_LENGTH" using comms_okD[OF agg_okD(1)[OF ok] c] by simp
  have cl: "commLabel cm = l" using comms_okD[OF agg_okD(1)[OF ok] c] by simp
  have e0: "[] \<notin> set (remoteOnlineTarget (ag_linker ag))" using agg_okD(2)[OF ok] by (simp add: view_ok_def)
  have cm0: "set (onlineTargets cm) = {}" using agg_okD(2)[OF ok] c unfolding view_ok_def by fastforce
  obtain code ts lk sa e' c' where i: "IncreaseLocalLabel (re_link env) agg_send l (link_state env ?ag1) = Ok (code, ts, lk, sa, e', c')"
    and lk: "link_ok 0 lk" "scheduler_reach (sc_scheduler c')" "remoteOnlineTarget lk = remoteOnlineTarget (ag_linker ag)"
      "targetMapOnlineLabels lk = targetMapOnlineLabels (ag_linker ag)" "set ts = announced (ag_linker ag) l"
    using agg.Increase_effect[OF agg_okD(3)[OF ok] agg_okI[OF ok, of "ce_send env"] e l inc]
    by (auto simp: returns_def link_state_def same agg_inv_send announced_def)
  let ?ag1' = "set_link (lk, sa, e', c') ?ag1"
  let ?ag2 = "fold (\<lambda>t. comm_upd u l (OnConnectChange t True)) ts ?ag1'"
  let ?cm2 = "fold (\<lambda>t. seen t True) ts cm"
  have co: "comms_ok ?ag1'"
    using om_ok_set_comm[OF agg_okD(1)[OF ok0], of u l "(cm, True)"] comms_okD[OF agg_okD(1)[OF ok]] l cl
      comms_ok_same[of ?ag1' ?ag1] by (auto simp: comms_ok_def[of ?ag1])
  have ts: "[] \<notin> set ts" using e0 lk(5) by (simp add: announced_def)
  have at: "comm_at u l ?ag1' = Some (cm, True)" by simp
  note C = catch_up[OF co at ts]
  have ann: "announced lk = announced (ag_linker ag)" by (rule ext) (simp add: announced_def lk(3,4))
  note F = rest_fields[OF C(2)]
  have "comms_ok ?ag2" by (rule C(1))
  moreover have "view_ok ?ag2"
    using agg_okD(2)[OF ok] C(4) cm0 lk(5) e0 by (auto simp: view_ok_def F C(3) ann lk(3))
  moreover have "parts_ok ?ag2" using lk(1,2) ok by (simp add: parts_ok_def F same agg_ok_def)
  ultimately have ok2: "agg_ok ?ag2" by (simp add: agg_ok_def)
  have ret2: "ag_retainer ?ag2 = ag_retainer ag" by (simp add: F same)
  obtain r where r: "FetchFramesForSpecificCommunicator l (ag_retainer ?ag2) = Ok (retained l ag, r)" "retainer_ok r"
    "frame_log (rt_pool r) = filter (\<lambda>e. \<not> of_label l e) (frame_log (rt_pool (ag_retainer ag)))"
    using Fetch_fetches[OF agg_okD(6)[OF ok], of l] by (auto simp: ret2 retained_def)
  let ?ag3 = "?ag2\<lparr>ag_retainer := r\<rparr>"
  have ok3: "agg_ok ?ag3" by (rule agg_ok_retainer[OF ok2 r(2)])
  have at3: "comm_at u l ?ag3 = Some (?cm2, True)" by (simp add: C(3))
  have "\<forall>f \<in> set (retained l ag). \<exists>b. fm_buffer f = Some b \<and> sb_ok b"
    using fetched_buffers[OF agg_okD(6)[OF ok]] by (simp add: retained_def)
  from redeliver_ok[OF ok3 at3 this, of env] obtain ag' where
    ag': "redeliver env u l (retained l ag) ?ag3 = Ok ag'" "agg_ok ag'" "ag_retainer ag' = r" "active u l ag'"
    by (auto simp: returns_def active_def)
  have "ActivateCommunicator env l u ag = redeliver env u l (retained l ag) ?ag3"
    using c i r(1) by (simp add: ActivateCommunicator_def comm_at_def Let_def)
  then show ?thesis using ag' ok3 at3 C(4) cm0 lk(5) r(3) by auto
qed

section \<open>Reachable states of the aggregator\<close>

text \<open>The aggregator after a successful \<^verbatim>\<open>Initialize\<close>.\<close>

definition started_aggregator :: "string \<Rightarrow> status_adapter option \<Rightarrow> bool \<Rightarrow> bool \<Rightarrow> 'o aggregator" where
  "started_aggregator now statusAdapter exclusive timerOk =
     \<lparr>commMap = [], ag_combiner = Combiner_Initialize timerOk new_FrameCombiner,
      ag_retainer = Retainer_Initialize timerOk new_FrameRetainer,
      ag_linker = Linker_Initialize now new_CommunicatorLinker, ag_adapter = statusAdapter, ag_adapterTasks = [],
      ag_send = new_send_core exclusive, versionMap = [], ag_onCommLack = None, ag_onCommLackFinalizer = None,
      ag_onConnect = None, ag_onConnectFinalizer = None, notFoundFeedback = True, ag_log = []\<rparr>"

definition no_code :: "(communicator \<Rightarrow> errcode \<times> 'o up_event list \<times> communicator) \<Rightarrow> communicator \<Rightarrow> 'o up_event list \<times> communicator" where
  "no_code f cm = snd (f cm)"

text \<open>
  The operations of the aggregator in any order, with any surroundings.  The 64-bit counters are assumed not to be
  exhausted; the sending half moves on its own between reachable states of the scheduler.
\<close>

inductive agg_step :: "'o aggregator \<Rightarrow> 'o aggregator \<Rightarrow> bool" where
  a_bytes: "others_keep env \<Longrightarrow> fresh_counters ag \<Longrightarrow> unat (rb_length info) \<le> length (rb_bytes info) \<Longrightarrow>
    OnBytesReceive env info ag = Ok ag' \<Longrightarrow> agg_step ag ag'"
| a_target: "wf_env (re_link env) \<Longrightarrow> incSequenceId (ag_linker ag) \<noteq> - 1 \<Longrightarrow> OnTargetChange env t b ag = Ok ag' \<Longrightarrow> agg_step ag ag'"
| a_status: "agg_step ag (OnRemoteDBStatusChange env t infos ag)"
| a_alloc: "agg_step ag (snd (AllocCommunicator mem l u ag))"
| a_activate: "wf_env (re_link env) \<Longrightarrow>
    unat (incSequenceId (ag_linker ag)) + length (remoteOnlineTarget (ag_linker ag)) < 2 ^ 64 \<Longrightarrow>
    ActivateCommunicator env l u ag = Ok ag' \<Longrightarrow> agg_step ag ag'"
| a_release: "wf_env (re_link env) \<Longrightarrow>
    unat (incSequenceId (ag_linker ag)) + length (remoteOnlineTarget (ag_linker ag)) < 2 ^ 64 \<Longrightarrow>
    ReleaseCommunicator env l u ag = Ok ag' \<Longrightarrow> agg_step ag ag'"
| a_lack: "agg_step ag (snd (RegCommunicatorLackCallback k f ag))"
| a_connect: "agg_step ag (snd (Aggr_RegOnConnectCallback k f ag))"
| a_feedback: "agg_step ag (EnableCommunicatorNotFoundFeedback b ag)"
| a_onMessage: "agg_step ag (comm_upd u l (no_code (RegOnMessageCallback k f)) ag)"
| a_onConnect: "agg_step ag (comm_upd u l (no_code (RegOnConnectCallback k f)) ag)"
| a_onSendable: "agg_step ag (comm_upd u l (no_code (RegOnSendableCallback k f)) ag)"
| a_closing: "agg_step ag (comm_upd u l (\<lambda>cm. ([], snd (ExchangeClosePending b cm))) ag)"
| a_sendable: "agg_step ag (NotifySendableToAllCommunicator ag)"
| a_retainTick: "agg_step ag (ag\<lparr>ag_retainer := Retainer_PeriodicalSurveillance (ag_retainer ag)\<rparr>)"
| a_combineTick: "agg_step ag (ag\<lparr>ag_combiner := PeriodicalSurveillance (ag_combiner ag)\<rparr>)"
| a_linkTimer: "i < length (lk_timers (ag_linker ag)) \<Longrightarrow>
    fire_timer (re_link env) agg_send i (link_state env ag) = Ok st \<Longrightarrow> agg_step ag (set_link st ag)"
| a_sending: "scheduler_reach (sc_scheduler (snd st)) \<Longrightarrow> agg_step ag (set_net st ag)"

inductive agg_reach :: "'o aggregator \<Rightarrow> bool" where
  a_start: "agg_reach (started_aggregator now sa exclusive timerOk)"
| a_step: "agg_reach ag \<Longrightarrow> agg_step ag ag' \<Longrightarrow> agg_reach ag'"

lemma agg_ok_upd:
  assumes ok: "agg_ok ag" and f: "\<And>cm. commLabel (snd (f cm)) = commLabel cm" "\<And>cm. onlineTargets (snd (f cm)) = onlineTargets cm"
  shows "agg_ok (comm_upd u l f ag)"
proof -
  note F = rest_fields[OF comm_upd_rest[of u l f ag]]
  have "comms_ok (comm_upd u l f ag)" by (rule comm_upd_ok[OF agg_okD(1)[OF ok] f(1)])
  moreover have "view_ok (comm_upd u l f ag)" using agg_okD(2)[OF ok] f(2)
    unfolding view_ok_def F comm_upd_at by (auto simp del: split_paired_All split: if_splits) blast+
  ultimately show ?thesis using ok by (simp add: agg_ok_def parts_ok_def F)
qed

lemma agg_ok_start: "agg_ok (started_aggregator now sa exclusive timerOk)"
proof -
  have "retainer_ok (Retainer_Initialize timerOk new_FrameRetainer)"
    by (intro reach_ok retainer_reach.intros)
  moreover have "combiner_ok (Combiner_Initialize timerOk new_FrameCombiner)"
    using combiner_ok_new by (simp add: combiner_ok_def Combiner_Initialize_def)
  moreover have "link_ok 0 (Linker_Initialize now new_CommunicatorLinker)"
    by (simp add: link_ok_def Linker_Initialize_def new_CommunicatorLinker_def pending_refs_def wf_labels_def)
  moreover have "scheduler_reach (sc_scheduler (new_send_core exclusive))"
    by (simp add: new_send_core_def scheduler_reach.intros)
  ultimately show ?thesis
    by (simp add: agg_ok_def parts_ok_def started_aggregator_def comms_ok_def view_ok_def comm_at_def comms_of_def)
       (simp add: Linker_Initialize_def new_CommunicatorLinker_def)
qed

lemma linkTimer_ok:
  assumes "agg_ok ag" "i < length (lk_timers (ag_linker ag))" "fire_timer (re_link env) agg_send i (link_state env ag) = Ok st"
  shows "agg_ok (set_link st ag)"
proof -
  obtain lk sa e c where st: "st = (lk, sa, e, c)" by (cases st)
  have "link_ok 0 lk" "scheduler_reach (sc_scheduler c)" "core lk = core (ag_linker ag)"
    using agg.fire_timer_ok[OF agg_okD(3)[OF assms(1)] agg_okI[OF assms(1), of "ce_send env"] assms(2), of "re_link env"] assms(3)
    by (auto simp: returns_def link_state_def st agg_inv_send)
  then show ?thesis
    using assms(1) comms_ok_same[of "set_link st ag" ag] view_ok_same[of "set_link st ag" ag] core_fields(6,8)[of lk "ag_linker ag"]
    by (simp add: agg_ok_def parts_ok_def st)
qed

lemma Activate_ok:
  assumes "agg_ok ag" "wf_env (re_link env)"
    "unat (incSequenceId (ag_linker ag)) + length (remoteOnlineTarget (ag_linker ag)) < 2 ^ 64"
  shows "returns agg_ok (ActivateCommunicator env l u ag)"
proof (cases "\<exists>cm. comm_at u l ag = Some (cm, False)")
  case True
  then show ?thesis using Activate_effect[OF assms(1,2) _ assms(3)] by (fastforce simp: returns_def)
next
  case False
  then have "ActivateCommunicator env l u ag = Ok (touch_user u ag)"
    by (auto simp: ActivateCommunicator_def comm_at_def Let_def split: option.split)
  then show ?thesis using agg_ok_touch[OF assms(1)] by simp
qed

lemma returnsD: "returns P m \<Longrightarrow> m = Ok x \<Longrightarrow> P x"
  by (auto simp: returns_def)

lemma agg_step_ok: "agg_step ag ag' \<Longrightarrow> agg_ok ag \<Longrightarrow> agg_ok ag'"
proof (induction rule: agg_step.induct)
  case a_bytes then show ?case using OnBytesReceive_ok by (blast dest: returnsD)
next
  case a_target then show ?case using TargetChange_ok by (blast dest: returnsD)
next
  case a_activate then show ?case using Activate_ok by (blast dest: returnsD)
next
  case a_release then show ?case using Release_ok by (blast dest: returnsD)
next
  case (a_retainTick ag) then show ?case by (simp add: agg_ok_retainer Surveillance_ages agg_okD)
next
  case (a_combineTick ag) then show ?case by (simp add: agg_ok_combiner surveillance_ok agg_okD)
next
  case a_linkTimer then show ?case by (blast intro: linkTimer_ok)
next
  case (a_sendable ag)
  have f: "rest (NotifySendableToAllCommunicator ag) = rest ag" unfolding NotifySendableToAllCommunicator_def by (rule notify_all_rest)
  have "comms_ok (NotifySendableToAllCommunicator ag)"
    unfolding NotifySendableToAllCommunicator_def by (rule notify_all_ok[OF agg_okD(1)[OF a_sendable]]) simp
  moreover have "view_ok (NotifySendableToAllCommunicator ag)"
    using agg_okD(2)[OF a_sendable] rest_fields[OF f] by (auto simp: view_ok_def NotifySendableToAllCommunicator_def notify_all_at)
  ultimately show ?case using a_sendable rest_fields[OF f] by (simp add: agg_ok_def parts_ok_def)
next
  case (a_lack ag k f)
  have "agg_ok (ag\<lparr>ag_onCommLack := h, ag_onCommLackFinalizer := g\<rparr>)" for h g
    using agg_ok_frame(1)[of "ag\<lparr>ag_onCommLack := h, ag_onCommLackFinalizer := g\<rparr>" ag] a_lack by simp
  then show ?case by (simp add: RegCommunicatorLackCallback_def case_prod_unfold Let_def)
next
  case (a_connect ag k f)
  have "agg_ok (ag\<lparr>ag_onConnect := h, ag_onConnectFinalizer := g\<rparr>)" for h g
    using agg_ok_frame(1)[of "ag\<lparr>ag_onConnect := h, ag_onConnectFinalizer := g\<rparr>" ag] a_connect by simp
  then show ?case by (simp add: Aggr_RegOnConnectCallback_def case_prod_unfold Let_def)
next
  case (a_feedback ag b)
  then show ?case using agg_ok_frame(1)[of "ag\<lparr>notFoundFeedback := b\<rparr>" ag] by (simp add: EnableCommunicatorNotFoundFeedback_def)
qed (simp_all add: RemoteDBStatus_ok Alloc_ok agg_ok_set_net agg_ok_upd no_code_def RegOnMessageCallback_def
      RegOnConnectCallback_def RegOnSendableCallback_def ExchangeClosePending_def case_prod_unfold Let_def)

lemma agg_reach_ok: "agg_reach ag \<Longrightarrow> agg_ok ag"
  by (induction rule: agg_reach.induct) (auto intro: agg_ok_start agg_step_ok)

text \<open>
  C2: Whatever bytes arrive from the network, in whatever state the operations of the aggregator have brought
  it, the whole receive path (parsing, reassembly, label exchange, routing, delivery, retention and
  feedback) returns without an access outside a buffer or to a missing entry.  It leaves the aggregator in a state from
  which this holds again, in which no source occupies more than one frame in the making and the
  frames kept for missing communicators take at most 64 MB.
\<close>

theorem received_bytes_safe:
  assumes "agg_reach ag" "others_keep env" "fresh_counters ag" "unat (rb_length info) \<le> length (rb_bytes info)"
  shows "\<exists>ag'. OnBytesReceive env info ag = Ok ag' \<and> agg_reach ag' \<and>
    (\<forall>src. length (works_of src (ag_combiner ag')) \<le> MAX_WORK_PER_SRC_TARGET) \<and>
    rt_totalSizeByByte (ag_retainer ag') \<le> 67108864"
proof -
  obtain ag' where r: "OnBytesReceive env info ag = Ok ag'"
    using OnBytesReceive_ok[OF agg_reach_ok[OF assms(1)] assms(3,2,4)] by (auto simp: returns_def)
  then have a: "agg_reach ag'" using agg_reach.a_step[OF assms(1) agg_step.a_bytes[OF assms(2-4)]] by blast
  note ok = agg_okD[OF agg_reach_ok[OF a]]
  have "length (works_of src (ag_combiner ag')) \<le> MAX_WORK_PER_SRC_TARGET" for src
    using works_ok_of[OF ok(5)] by (simp add: works_ok_def)
  then show ?thesis using r a ok(6) by (simp add: retainer_ok_def MAX_RETAIN_CAPACITY_def)
qed


text \<open>
  C7: Activating a communicator brings it up to date: it first learns of every connected target that has announced its
  label, and is then handed the frames that were retained for its label, of all targets, in the order
  in which they arrived; the retainer keeps none of them and all the others.
\<close>

theorem activation_catches_up:
  assumes "agg_reach ag" "wf_env (re_link env)" "comm_at u l ag = Some (cm, False)"
    "unat (incSequenceId (ag_linker ag)) + length (remoteOnlineTarget (ag_linker ag)) < 2 ^ 64"
  shows "\<exists>ag2 ag' cm2. ActivateCommunicator env l u ag = Ok ag' \<and> redeliver env u l (retained l ag) ag2 = Ok ag' \<and>
    comm_at u l ag2 = Some (cm2, True) \<and> set (onlineTargets cm2) = announced (ag_linker ag) l \<and> active u l ag' \<and>
    frame_log (rt_pool (ag_retainer ag')) = filter (\<lambda>e. \<not> of_label l e) (frame_log (rt_pool (ag_retainer ag)))"
  using Activate_effect[OF agg_reach_ok[OF assms(1)] assms(2-4)] by blast

text \<open>
  C6: A received frame goes to the activated communicator of its label that belongs to the receiving user; when
  there is none, to the one without user; when the frame names no user, to that of the first user who
  has one.  A frame that names a user is never delivered to the communicator of another user, and
  when no communicator takes it the handler reports that none was found and nothing is delivered.
\<close>

theorem frame_routed:
  assumes "comms_ok ag"
  shows "let try = TryDeliverAppLayerFrameToCommunicatorNoMutex env ver src buf l ui ag;
             to = (\<lambda>u. deliver_to env u l src buf (sendUser ui) ver (touch_user (receiveUser ui) ag))
         in if active (receiveUser ui) l ag then try = to (receiveUser ui)
            else if active [] l ag then try = to []
            else if receiveUser ui = [] \<and> (\<exists>v. active v l ag)
            then \<exists>u. active u l ag \<and> (\<forall>v < u. \<not> active v l ag) \<and> try = to u
            else try = Ok (E_NOT_FOUND, touch_user (receiveUser ui) ag)"
proof -
  let ?ag = "touch_user (receiveUser ui) ag"
  have d: "(case om_find (comms_of (receiveUser ui) ag) l of None \<Rightarrow> False | Some (cm, act) \<Rightarrow> act) = active (receiveUser ui) l ag"
    by (auto simp: active_def comm_at_def split: option.split)
  note T = TryDeliverAppLayerFrameToCommunicatorNoMutex_def Let_def comms_of_simps d
  note ok = comms_ok_touch[OF assms, of "receiveUser ui"]
  show ?thesis
  proof (cases "find_active l (commMap ?ag)")
    case None
    then show ?thesis using find_active_None[OF None ok] by (simp add: T)
  next
    case (Some u)
    have u: "active u l ag" "\<forall>v < u. \<not> active v l ag" using find_active_Some[OF Some ok] by simp_all
    have "u = []" if "active [] l ag"
      using u(2) that by (cases u) auto
    then show ?thesis using Some u by (auto simp: T)
  qed
qed

text \<open>
  C8: Whatever happens to a frame that the aggregator has taken from the adapter (delivered to a communicator,
  refused because of its users, answered because the database is closing, discarded because no
  communicator is found), its buffer is deleted exactly once; only a frame that is handed to the retainer is
  not deleted here.
\<close>

theorem frame_released_once:
  assumes r: "OnAppLayerFrameReceive env info b res ag = Ok (ret, ag')"
    and m: "\<forall>a. freed (re_meanwhile env a) = freed a"
  shows "freed ag' = freed ag + 1 \<or>
    freed ag' = freed ag \<and> ret = Code E_OK \<and>
      (\<exists>f r. fm_buffer f = Some b \<and> RetainFrame (se_mem (ce_send env)) f r = Ok (ag_retainer ag'))"
proof -
  have "yields (\<lambda>(ret, ag'). freed ag' = freed ag + 1 \<or> freed ag' = freed ag \<and> kept env b ret ag')
      (OnAppLayerFrameReceive env info b res ag)"
    unfolding OnAppLayerFrameReceive_def Let_def case_prod_unfold
    using m
    by (auto intro!: yields_bind[OF Feedback_yields] yields_bind[OF TryDeliver_yields] yields_bind[OF NotFound_yields]
        ReTry_yields[unfolded case_prod_unfold, simplified] simp: case_prod_unfold)
  from yieldsD[OF this r] show ?thesis by (simp add: kept_def)
qed

section \<open>Witnesses\<close>

definition sample_label :: label where
  "sample_label = replicate 32 4"

definition sample_renv :: "byte list recv_env" where
  "sample_renv = \<lparr>ce_send = sample_senv, ce_tfs = [(7, list_transform)], ce_extend = (\<lambda>_. None), ce_onMessage = (\<lambda>_ _ _. E_OK),
     re_link = sample_env, re_processCommunicator = False, re_userInfo = (\<lambda>_ _. (DB_OK, [])), re_commLack = (\<lambda>_ _. E_OK),
     re_meanwhile = (\<lambda>ag. ag)\<rparr>"

definition fresh_agg :: "byte list aggregator" where
  "fresh_agg = snd (AllocCommunicator never_oom sample_label [] (started_aggregator ''t'' None False True))"

definition ready_agg :: "byte list aggregator" where
  "ready_agg = comm_upd [] sample_label (no_code (RegOnMessageCallback (Some 1) None)) fresh_agg"

lemma started_at [simp]: "comm_at u l (started_aggregator now sa ex tm) = None"
  by (simp add: started_aggregator_def comm_at_def comms_of_def)

lemma fresh_eq: "fresh_agg = set_comm [] sample_label (new_Communicator sample_label, False) (started_aggregator ''t'' None False True)"
proof -
  have "\<not> om_count (commMap (started_aggregator ''t'' None False True :: byte list aggregator)) []" by (simp add: started_aggregator_def om_count_def)
  then show ?thesis by (simp add: fresh_agg_def AllocCommunicator_def sample_label_def sizeofs)
qed

lemma sample_others: "others_keep sample_renv"
  by (simp add: others_keep_def sample_renv_def)

lemma fresh_reach: "agg_reach fresh_agg" "agg_reach ready_agg"
proof -
  show "agg_reach fresh_agg" unfolding fresh_agg_def by (rule agg_reach.a_step[OF agg_reach.a_start agg_step.a_alloc])
  then show "agg_reach ready_agg" unfolding ready_agg_def by (rule agg_reach.a_step[OF _ agg_step.a_onMessage])
qed

lemma fresh_at: "comm_at [] sample_label fresh_agg = Some (new_Communicator sample_label, False)"
  by (simp add: fresh_eq)

lemma ready_at: "comm_at [] sample_label ready_agg = Some ((new_Communicator sample_label)\<lparr>onMessageHandle := Some 1\<rparr>, False)"
  by (simp add: ready_agg_def comm_upd_at fresh_at no_code_def RegOnMessageCallback_def RegCallBack_def new_Communicator_def)

lemma fresh_fields: "ag_linker fresh_agg = Linker_Initialize ''t'' new_CommunicatorLinker"
  "ag_combiner fresh_agg = Combiner_Initialize True new_FrameCombiner" "ag_retainer fresh_agg = Retainer_Initialize True new_FrameRetainer"
  by (simp_all add: fresh_eq set_comm_def) (simp_all add: started_aggregator_def)

lemma ready_fields: "ag_linker ready_agg = ag_linker fresh_agg" "ag_combiner ready_agg = ag_combiner fresh_agg"
  "ag_retainer ready_agg = ag_retainer fresh_agg"
  using rest_fields[OF comm_upd_rest] by (simp_all add: ready_agg_def)

lemma fresh_counting: "fresh_counters ready_agg"
  by (simp add: fresh_counters_def ready_fields fresh_fields Linker_Initialize_def new_CommunicatorLinker_def
      Combiner_Initialize_def new_FrameCombiner_def Retainer_Initialize_def new_FrameRetainer_def)

theorem received_bytes_safe_witness:
  "\<exists>ag'. OnBytesReceive sample_renv \<lparr>rb_bytes = [1, 2, 3], rb_srcTarget = ''peer'', rb_length = 3, rb_isNeedGetUserInfo = False\<rparr> ready_agg
     = Ok ag' \<and> agg_reach ag'"
  using received_bytes_safe[OF fresh_reach(2) sample_others fresh_counting,
      of "\<lparr>rb_bytes = [1, 2, 3], rb_srcTarget = ''peer'', rb_length = 3, rb_isNeedGetUserInfo = False\<rparr>"] by auto

lemma activated: "\<exists>ag. ActivateCommunicator sample_renv sample_label [] ready_agg = Ok ag \<and> agg_reach ag \<and> active [] sample_label ag"
proof -
  have w: "wf_env (re_link sample_renv)" by (simp add: sample_renv_def sample_wf)
  have i: "unat (incSequenceId (ag_linker ready_agg)) + length (remoteOnlineTarget (ag_linker ready_agg)) < 2 ^ 64"
    by (simp add: ready_fields fresh_fields Linker_Initialize_def new_CommunicatorLinker_def)
  from Activate_effect[OF agg_reach_ok[OF fresh_reach(2)] w ready_at i] obtain ag where
    "ActivateCommunicator sample_renv sample_label [] ready_agg = Ok ag" "active [] sample_label ag" by blast
  moreover from agg_reach.a_step[OF fresh_reach(2) agg_step.a_activate[OF w i this(1)]] have "agg_reach ag" .
  ultimately show ?thesis by blast
qed


theorem activation_catches_up_witness:
  "\<exists>ag'. ActivateCommunicator sample_renv sample_label [] ready_agg = Ok ag' \<and> active [] sample_label ag'"
proof -
  have w: "wf_env (re_link sample_renv)" by (simp add: sample_renv_def sample_wf)
  have i: "unat (incSequenceId (ag_linker ready_agg)) + length (remoteOnlineTarget (ag_linker ready_agg)) < 2 ^ 64"
    by (simp add: ready_fields fresh_fields Linker_Initialize_def new_CommunicatorLinker_def)
  show ?thesis using activation_catches_up[OF fresh_reach(2) w ready_at i] by blast
qed

theorem frame_released_once_witness:
  "\<exists>b ret ag'. SetExternalBuff (Some [1, 2, 3, 4]) 4 2 new_SerialBuffer = (E_OK, b) \<and>
     OnAppLayerFrameReceive sample_renv \<lparr>rb_bytes = [1, 2, 3, 4], rb_srcTarget = ''peer'', rb_length = 4, rb_isNeedGetUserInfo = False\<rparr>
       b (new_ParseResult\<lparr>pr_commLabel := sample_label\<rparr>) ready_agg = Ok (ret, ag') \<and>
     (freed ag' = freed ready_agg + 1 \<or> freed ag' = freed ready_agg)"
proof -
  let ?info = "\<lparr>rb_bytes = [1, 2, 3, 4], rb_srcTarget = ''peer'', rb_length = 4, rb_isNeedGetUserInfo = False\<rparr>"
  let ?res = "new_ParseResult\<lparr>pr_commLabel := sample_label\<rparr>"
  obtain b where b: "SetExternalBuff (Some [1, 2, 3, 4]) 4 2 new_SerialBuffer = (E_OK, b)"
    by (simp add: SetExternalBuff_def new_SerialBuffer_def MAX_TOTAL_LEN_def)
  have ok: "sb_ok b" using SetExternalBuff_ok[OF b] by simp
  have o: "rt_incRetainOrder (ag_retainer ready_agg) \<noteq> - 1" using fresh_counting by (simp add: fresh_counters_def)
  have l: "length (pr_commLabel ?res) = COMM_LABEL_LENGTH" by (simp add: sample_label_def sizeofs)
  obtain ret ag' where r: "OnAppLayerFrameReceive sample_renv ?info b ?res ready_agg = Ok (ret, ag')"
    using AppLayer_ok[OF agg_reach_ok[OF fresh_reach(2)] ok l o sample_others, of ?info] by (auto simp: returns_def)
  have "\<forall>a. freed (re_meanwhile sample_renv a) = freed a" by (simp add: sample_renv_def)
  from frame_released_once[OF r this] show ?thesis using b r by blast
qed

theorem frame_routed_witness:
  "TryDeliverAppLayerFrameToCommunicatorNoMutex sample_renv 0 ''peer'' None sample_label \<lparr>receiveUser = ''bob'', sendUser = ''eve''\<rparr> ready_agg
     = Ok (E_NOT_FOUND, touch_user ''bob'' ready_agg)"
proof -
  have "\<not> active u sample_label ready_agg" for u
    by (auto simp: active_def ready_agg_def comm_upd_at fresh_eq split: if_splits)
  then show ?thesis
    using frame_routed[OF agg_okD(1)[OF agg_reach_ok[OF fresh_reach(2)]], of sample_renv 0 "''peer''" None sample_label
        "\<lparr>receiveUser = ''bob'', sendUser = ''eve''\<rparr>"] by (simp add: Let_def)
qed

end
