(* ===== verification/Parcel.thy ===== *)
theory Parcel
  imports DB_Prelude
begin

text \<open>
  \<^verbatim>\<open>Parcel\<close> (\<^verbatim>\<open>common/include/parcel.h\<close>, \<^verbatim>\<open>common/src/parcel.cpp\<close>): the cursor with which the packets of the syncer
  are written into and read from the payload of a frame.  \<open>pc_buf\<close> is the memory behind the
  pointer the parcel was made from (\<open>None\<close>: a null pointer), \<open>pc_ptr\<close> the offset of \<^verbatim>\<open>bufPtr_\<close> in it.  A read
  returns the length it reports and the value it stores, \<open>None\<close> when the variable of the caller is left as it was.
  The operations for multi-version commits are compiled out of the library (\<^verbatim>\<open>OMIT_MULTI_VER\<close>).

  The contract \<open>parcel_field\<close> is what a kind of field promises: a write that has room succeeds and leaves an image
  of the value, a read of such an image gives the value, and neither leaves the buffer.  It is
  interpreted for every kind, and sequences of fields inherit it.
\<close>

section \<open>State\<close>

record parcel =
  pc_isError :: bool
  pc_buf :: "byte list option"
  pc_ptr :: nat
  pc_parcelLen :: u64
  pc_totalLen :: u64

definition new_Parcel :: "byte list option \<Rightarrow> u32 \<Rightarrow> parcel" where
  "new_Parcel inBuf len =
     \<lparr>pc_isError = (inBuf = None \<or> len = 0), pc_buf = inBuf, pc_ptr = 0, pc_parcelLen = 0, pc_totalLen = ucast len\<rparr>"

definition pc_fail :: "parcel \<Rightarrow> parcel" where
  "pc_fail p = p\<lparr>pc_isError := True\<rparr>"

definition pc_advance :: "u64 \<Rightarrow> parcel \<Rightarrow> parcel" where
  "pc_advance n p = p\<lparr>pc_ptr := pc_ptr p + unat n, pc_parcelLen := pc_parcelLen p + n\<rparr>"

text \<open>A copy to the cursor and a read through it; the null pointer is not memory.\<close>

definition pc_put :: "nat \<Rightarrow> u64 \<Rightarrow> byte list \<Rightarrow> parcel \<Rightarrow> parcel res" where
  "pc_put off destMax src p =
     (case pc_buf p of
        None \<Rightarrow> Fault
      | Some bs \<Rightarrow> res_bind (memcpy_s bs (pc_ptr p + off) (unat destMax) src) (\<lambda>bs'. Ok (p\<lparr>pc_buf := Some bs'\<rparr>)))"

definition pc_get :: "nat \<Rightarrow> nat \<Rightarrow> parcel \<Rightarrow> byte list res" where
  "pc_get off n p = (case pc_buf p of None \<Rightarrow> Fault | Some bs \<Rightarrow> read_at bs (pc_ptr p + off) n)"

type_synonym pc_write = "parcel \<Rightarrow> (errcode \<times> parcel) res"
type_synonym 'v pc_read = "parcel \<Rightarrow> (u32 \<times> 'v option \<times> parcel) res"

section \<open>Integers\<close>

definition WriteInteger :: "bool \<Rightarrow> 'a::len word \<Rightarrow> pc_write" where
  "WriteInteger be integer p =
     (let n = of_nat (LENGTH('a) div 8)
      in if pc_isError p then Ok (E_PARSE_FAIL, p)
         else if pc_parcelLen p + n > pc_totalLen p then Ok (E_PARSE_FAIL, pc_fail p)
         else case pc_put 0 (pc_totalLen p - pc_parcelLen p) (store_word be (HostToNet be integer)) p of
                Fault \<Rightarrow> Fault
              | Err _ \<Rightarrow> Ok (E_SECUREC_ERROR, pc_fail p)
              | Ok p' \<Rightarrow> Ok (E_OK, pc_advance n p'))"

definition ReadInteger :: "bool \<Rightarrow> 'a::len word pc_read" where
  "ReadInteger be p =
     (let n = LENGTH('a) div 8
      in if pc_isError p then Ok (0, None, p)
         else if pc_buf p = None \<or> pc_parcelLen p + of_nat n > pc_totalLen p then Ok (0, None, pc_fail p)
         else res_bind (pc_get 0 n p)
                (\<lambda>bs. Ok (of_nat n, Some (NetToHost be (load_word be bs)), pc_advance (of_nat n) p)))"

definition WriteUInt8 :: "bool \<Rightarrow> u8 \<Rightarrow> pc_write" where "WriteUInt8 be data = WriteInteger be data"
definition ReadUInt8 :: "bool \<Rightarrow> u8 pc_read" where "ReadUInt8 be = ReadInteger be"
definition WriteUInt32 :: "bool \<Rightarrow> u32 \<Rightarrow> pc_write" where "WriteUInt32 be data = WriteInteger be data"
definition ReadUInt32 :: "bool \<Rightarrow> u32 pc_read" where "ReadUInt32 be = ReadInteger be"
definition WriteUInt64 :: "bool \<Rightarrow> u64 \<Rightarrow> pc_write" where "WriteUInt64 be data = WriteInteger be data"
definition ReadUInt64 :: "bool \<Rightarrow> u64 pc_read" where "ReadUInt64 be = ReadInteger be"

text \<open>Signed integers are their two's complement images.\<close>

definition map_value :: "('a \<Rightarrow> 'b) \<Rightarrow> (u32 \<times> 'a option \<times> parcel) res \<Rightarrow> (u32 \<times> 'b option \<times> parcel) res" where
  "map_value f m = res_bind m (\<lambda>(len, v, p). Ok (len, map_option f v, p))"

definition WriteInt :: "bool \<Rightarrow> int \<Rightarrow> pc_write" where "WriteInt be data = WriteInteger be (word_of_int data :: u32)"
definition ReadInt :: "bool \<Rightarrow> int pc_read" where "ReadInt be p = map_value sint (ReadInteger be p :: (u32 \<times> u32 option \<times> parcel) res)"
definition WriteInt64 :: "bool \<Rightarrow> int \<Rightarrow> pc_write" where "WriteInt64 be data = WriteInteger be (word_of_int data :: u64)"
definition ReadInt64 :: "bool \<Rightarrow> int pc_read" where "ReadInt64 be p = map_value sint (ReadInteger be p :: (u32 \<times> u64 option \<times> parcel) res)"

definition WriteBool :: "bool \<Rightarrow> bool \<Rightarrow> pc_write" where
  "WriteBool be data = WriteUInt8 be (if data then 1 else 0)"

definition ReadBool :: "bool \<Rightarrow> bool pc_read" where
  "ReadBool be p = res_bind (ReadUInt8 be p)
     (\<lambda>(len, intVal, p'). Ok (len, Some (case intVal of None \<Rightarrow> False | Some v \<Rightarrow> v = 1), p'))"

text \<open>A \<^verbatim>\<open>double\<close> is its memory image, read as an integer of the same width.\<close>

definition WriteDouble :: "bool \<Rightarrow> u64 \<Rightarrow> pc_write" where
  "WriteDouble be data p =
     (if pc_isError p \<or> pc_parcelLen p + 8 > pc_totalLen p then Ok (E_PARSE_FAIL, pc_fail p)
      else case pc_put 0 (pc_totalLen p - pc_parcelLen p) (store_word be (HostToNet be data)) p of
             Fault \<Rightarrow> Fault
           | Err _ \<Rightarrow> Ok (E_SECUREC_ERROR, pc_fail p)
           | Ok p' \<Rightarrow> Ok (E_OK, pc_advance 8 p'))"

definition ReadDouble :: "bool \<Rightarrow> u64 pc_read" where
  "ReadDouble be p =
     (if pc_isError p \<or> pc_buf p = None \<or> pc_parcelLen p + 8 > pc_totalLen p then Ok (0, None, pc_fail p)
      else res_bind (pc_get 0 8 p) (\<lambda>bs. Ok (8, Some (NetToHost be (load_word be bs)), pc_advance 8 p)))"

section \<open>Vectors and strings\<close>

text \<open>The stores of the loop of \<^verbatim>\<open>WriteVector\<close> are plain assignments, without a limit of their own.\<close>

fun put_elements :: "bool \<Rightarrow> nat \<Rightarrow> 'a::len word list \<Rightarrow> parcel \<Rightarrow> parcel res" where
  "put_elements be off [] p = Ok p"
| "put_elements be off (x # xs) p =
     (case pc_buf p of
        None \<Rightarrow> Fault
      | Some bs \<Rightarrow> res_bind (write_at bs (pc_ptr p + off) (store_word be (HostToNet be x)))
          (\<lambda>bs'. put_elements be (off + LENGTH('a) div 8) xs (p\<lparr>pc_buf := Some bs'\<rparr>)))"

fun get_elements :: "bool \<Rightarrow> nat \<Rightarrow> nat \<Rightarrow> parcel \<Rightarrow> 'a::len word list res" where
  "get_elements be off 0 p = Ok []"
| "get_elements be off (Suc n) p =
     res_bind (pc_get off (LENGTH('a) div 8) p)
       (\<lambda>bs. res_bind (get_elements be (off + LENGTH('a) div 8) n p) (\<lambda>xs. Ok (NetToHost be (load_word be bs) # xs)))"

definition WriteVector :: "bool \<Rightarrow> 'a::len word list \<Rightarrow> pc_write" where
  "WriteVector be data p =
     (if length data > 2147483647 then Ok (E_PARSE_FAIL, pc_fail p)
      else if pc_isError p then Ok (E_PARSE_FAIL, p)
      else let len = HostToNet be (of_nat (length data) :: u32);
               stepLen = of_nat (length data) * of_nat (LENGTH('a) div 8) + 4
           in if pc_buf p = None \<or> stepLen > 2147483647 \<or> pc_parcelLen p + BYTE_8_ALIGN stepLen > pc_totalLen p \<or>
                 pc_parcelLen p + 4 > pc_totalLen p
              then Ok (E_PARSE_FAIL, pc_fail p)
              else case pc_put 0 (pc_totalLen p - pc_parcelLen p) (store_word be len) p of
                     Fault \<Rightarrow> Fault
                   | Err _ \<Rightarrow> Ok (E_SECUREC_ERROR, pc_fail p)
                   | Ok p1 \<Rightarrow> res_bind (put_elements be 4 data p1) (\<lambda>p2. Ok (E_OK, pc_advance (BYTE_8_ALIGN stepLen) p2)))"

definition ReadVector :: "bool \<Rightarrow> 'a::len word list pc_read" where
  "ReadVector be p =
     (if pc_isError p then Ok (0, None, p)
      else if pc_buf p = None \<or> pc_parcelLen p + 4 > pc_totalLen p then Ok (0, None, pc_fail p)
      else res_bind (pc_get 0 4 p) (\<lambda>lb.
        let len = NetToHost be (load_word be lb :: u32);
            stepLen = ucast len * of_nat (LENGTH('a) div 8) + (4 :: u64)
        in if len > 2147483647 then Ok (0, None, pc_fail p)
           else if stepLen > 2147483647 \<or> pc_parcelLen p + BYTE_8_ALIGN stepLen > pc_totalLen p then Ok (0, None, pc_fail p)
           else res_bind (get_elements be 4 (unat len) p)
                  (\<lambda>val. Ok (ucast (BYTE_8_ALIGN stepLen), Some val, pc_advance (BYTE_8_ALIGN stepLen) p))))"

definition WriteVectorChar :: "bool \<Rightarrow> byte list \<Rightarrow> pc_write" where "WriteVectorChar be data = WriteVector be data"
definition ReadVectorChar :: "bool \<Rightarrow> byte list pc_read" where "ReadVectorChar be = ReadVector be"

definition WriteString :: "bool \<Rightarrow> string \<Rightarrow> pc_write" where
  "WriteString be inVal p =
     (if length inVal > 2147483647 then Ok (E_PARSE_FAIL, pc_fail p)
      else if pc_isError p then Ok (E_PARSE_FAIL, p)
      else let len = HostToNet be (of_nat (length inVal) :: u32); stepLen = 4 + of_nat (length inVal) :: u64
           in if stepLen > 2147483647 \<or> pc_parcelLen p + BYTE_8_ALIGN stepLen > pc_totalLen p then Ok (E_PARSE_FAIL, pc_fail p)
              else if pc_buf p = None then Ok (E_PARSE_FAIL, p)
              else case pc_put 0 (pc_totalLen p - pc_parcelLen p) (store_word be len) p of
                     Fault \<Rightarrow> Fault
                   | Err _ \<Rightarrow> Ok (E_SECUREC_ERROR, pc_fail p)
                   | Ok p1 \<Rightarrow>
                       if inVal = [] then Ok (E_OK, pc_advance (BYTE_8_ALIGN stepLen) p1)
                       else case pc_put 4 (pc_totalLen p - pc_parcelLen p - 4) (map of_char inVal) p1 of
                              Fault \<Rightarrow> Fault
                            | Err _ \<Rightarrow> Ok (E_SECUREC_ERROR, pc_fail (p1\<lparr>pc_ptr := pc_ptr p1 + 4\<rparr>))
                            | Ok p2 \<Rightarrow> Ok (E_OK, pc_advance (BYTE_8_ALIGN stepLen) p2))"

definition ReadString :: "bool \<Rightarrow> string pc_read" where
  "ReadString be p =
     (if pc_isError p then Ok (0, None, p)
      else if pc_buf p = None \<or> pc_parcelLen p + 4 > pc_totalLen p then Ok (0, None, pc_fail p)
      else res_bind (pc_get 0 4 p) (\<lambda>lb.
        let len = NetToHost be (load_word be lb :: u32); stepLen = ucast len + (4 :: u64)
        in if stepLen > 2147483647 \<or> pc_parcelLen p + BYTE_8_ALIGN stepLen > pc_totalLen p then Ok (0, None, pc_fail p)
           else res_bind (pc_get 4 (unat len) p)
                  (\<lambda>bs. Ok (ucast (BYTE_8_ALIGN stepLen), Some (map (\<lambda>b. char_of (unat b)) bs), pc_advance (BYTE_8_ALIGN stepLen) p))))"

section \<open>Blobs and alignment\<close>

definition blob_step :: "u32 \<Rightarrow> u32 \<Rightarrow> u32" where
  "blob_step bufLen leftLen = (if BYTE_8_ALIGN bufLen < leftLen then BYTE_8_ALIGN bufLen else leftLen)"

definition WriteBlob :: "byte list option \<Rightarrow> u32 \<Rightarrow> pc_write" where
  "WriteBlob buffer bufLen p =
     (case buffer of
        None \<Rightarrow> Ok (E_INVALID_ARGS, pc_fail p)
      | Some src \<Rightarrow>
          if pc_isError p then Ok (E_PARSE_FAIL, p)
          else if pc_parcelLen p + ucast bufLen > pc_totalLen p then Ok (E_PARSE_FAIL, pc_fail p)
          else let leftLen = ucast (pc_totalLen p - pc_parcelLen p) :: u32
               in res_bind (read_at src 0 (unat bufLen)) (\<lambda>data.
                    case pc_put 0 (ucast leftLen) data p of
                      Fault \<Rightarrow> Fault
                    | Err _ \<Rightarrow> Ok (E_SECUREC_ERROR, pc_fail p)
                    | Ok p' \<Rightarrow> Ok (E_OK, pc_advance (ucast (blob_step bufLen leftLen)) p')))"

text \<open>\<^verbatim>\<open>ReadBlob\<close> copies into a buffer of the caller; the value is what that buffer then holds.\<close>

definition ReadBlob :: "byte list option \<Rightarrow> u32 \<Rightarrow> byte list pc_read" where
  "ReadBlob buffer bufLen p =
     (case buffer of
        None \<Rightarrow> Ok (0, None, pc_fail p)
      | Some dst \<Rightarrow>
          if pc_isError p then Ok (0, None, p)
          else if pc_parcelLen p + ucast bufLen > pc_totalLen p then Ok (0, None, pc_fail p)
          else let leftLen = ucast (pc_totalLen p - pc_parcelLen p) :: u32
               in res_bind (pc_get 0 (unat bufLen) p) (\<lambda>data.
                    case memcpy_s dst 0 (unat bufLen) data of
                      Fault \<Rightarrow> Fault
                    | Err _ \<Rightarrow> Ok (0, None, pc_fail p)
                    | Ok dst' \<Rightarrow> Ok (blob_step bufLen leftLen, Some dst', pc_advance (ucast (blob_step bufLen leftLen)) p)))"

definition EightByteAlign :: "parcel \<Rightarrow> parcel" where
  "EightByteAlign p =
     (if pc_isError p then p
      else if BYTE_8_ALIGN (pc_parcelLen p) > pc_totalLen p then pc_fail p
      else pc_advance (BYTE_8_ALIGN (pc_parcelLen p) - pc_parcelLen p) p)"

definition IsContinueRead :: "parcel \<Rightarrow> bool" where
  "IsContinueRead p \<longleftrightarrow> pc_parcelLen p < pc_totalLen p"

section \<open>Lengths\<close>

definition GetUInt8Len :: u32 where "GetUInt8Len = 1"
definition GetBoolLen :: u32 where "GetBoolLen = GetUInt8Len"
definition GetIntLen :: u32 where "GetIntLen = 4"
definition GetUInt32Len :: u32 where "GetUInt32Len = 4"
definition GetUInt64Len :: u32 where "GetUInt64Len = 8"
definition GetInt64Len :: u32 where "GetInt64Len = 8"
definition GetDoubleLen :: u32 where "GetDoubleLen = 8"
definition GetEightByteAlign :: "u32 \<Rightarrow> u32" where "GetEightByteAlign len = BYTE_8_ALIGN len"
definition GetAppendedLen :: u32 where "GetAppendedLen = 4 + 4 + 8 * 2"

definition GetVectorLen :: "'a::len word list \<Rightarrow> u32" where
  "GetVectorLen data =
     (if length data > 2147483647 then 0
      else let len = BYTE_8_ALIGN (4 + of_nat (length data) * of_nat (LENGTH('a) div 8) :: u64)
           in if len > 2147483647 then 0 else ucast len)"

definition GetVectorCharLen :: "byte list \<Rightarrow> u32" where "GetVectorCharLen data = GetVectorLen data"

definition GetStringLen :: "string \<Rightarrow> u32" where
  "GetStringLen data =
     (if length data > 2147483647 then 0
      else let len = BYTE_8_ALIGN (4 + of_nat (length data) :: u64)
           in if len > 2147483647 then 0 else ucast len)"

section \<open>Live parcels\<close>

text \<open>A parcel without error whose cursor is at offset \<open>n\<close> of the \<open>t\<close> bytes it may use of the memory \<open>bs\<close>.\<close>

definition pc_at :: "byte list \<Rightarrow> nat \<Rightarrow> nat \<Rightarrow> parcel" where
  "pc_at bs n t = \<lparr>pc_isError = False, pc_buf = Some bs, pc_ptr = n, pc_parcelLen = of_nat n, pc_totalLen = of_nat t\<rparr>"

definition pc_live :: "byte list \<Rightarrow> nat \<Rightarrow> nat \<Rightarrow> bool" where
  "pc_live bs n t \<longleftrightarrow> n \<le> t \<and> t \<le> length bs \<and> t < 2 ^ 32"

definition align8 :: "nat \<Rightarrow> nat" where
  "align8 n = 8 * ((n + 7) div 8)"

lemma align8_ge: "n \<le> align8 n" by (simp add: align8_def)
lemma align8_lt: "align8 n < n + 8" by (simp add: align8_def)

lemma pc_at_simps [simp]:
  "pc_isError (pc_at bs n t) = False" "pc_buf (pc_at bs n t) = Some bs" "pc_ptr (pc_at bs n t) = n"
  "pc_parcelLen (pc_at bs n t) = of_nat n" "pc_totalLen (pc_at bs n t) = of_nat t"
  "(pc_at bs n t)\<lparr>pc_buf := Some bs'\<rparr> = pc_at bs' n t"
  by (simp_all add: pc_at_def)

lemma pc_advance_at [simp]: "k < 18446744073709551616 \<Longrightarrow> pc_advance (of_nat k) (pc_at bs n t) = pc_at bs (n + k) t"
  by (simp add: pc_advance_def pc_at_def unat_of_nat64)

lemma new_Parcel_at: "len \<noteq> 0 \<Longrightarrow> new_Parcel (Some bs) len = pc_at bs 0 (unat len)"
  by (simp add: new_Parcel_def pc_at_def unsigned_ucast_eq word_eq_iff_unsigned unat_of_nat64)

lemma new_Parcel_live: "unat (len::u32) \<le> length bs \<Longrightarrow> pc_live bs 0 (unat len)"
  by (simp add: pc_live_def)

lemma u64_cmp:
  assumes "pc_live bs n t" "k < 2 ^ 33"
  shows "(of_nat t < of_nat n + (of_nat k :: u64)) \<longleftrightarrow> t < n + k"
proof -
  have "n < 2 ^ 32" "t < 2 ^ 32" using assms(1) by (auto simp: pc_live_def)
  then have "unat (of_nat t :: u64) = t" "unat (of_nat n + of_nat k :: u64) = n + k"
    using assms(2) by (simp_all flip: of_nat_add add: unat_of_nat64)
  then show ?thesis by (simp add: word_less_nat_alt)
qed

lemma u64_left: "pc_live bs n t \<Longrightarrow> unat (of_nat t - of_nat n :: u64) = t - n"
proof -
  assume l: "pc_live bs n t"
  have "(of_nat t - of_nat n :: u64) = of_nat (t - n)" using l by (simp add: pc_live_def of_nat_diff)
  moreover have "t - n < 18446744073709551616" using l by (auto simp: pc_live_def)
  ultimately show ?thesis using unat_of_nat64 by metis
qed

lemma u64_align: "k < 2 ^ 33 \<Longrightarrow> BYTE_8_ALIGN (of_nat k :: u64) = of_nat (align8 k)"
proof -
  assume k: "k < 2 ^ 33"
  then have u: "unat (of_nat k :: u64) = k" by (simp add: unat_of_nat64)
  have "unat (BYTE_8_ALIGN (of_nat k :: u64)) = align8 k"
    using unat_BYTE_8_ALIGN[where x="of_nat k :: u64"] k by (simp add: u align8_def)
  moreover have "align8 k < 18446744073709551616" using align8_lt[of k] k by simp
  ultimately show ?thesis by (metis unat_of_nat64 word_unat_eq_iff)
qed

lemma pc_put_at:
  assumes "pc_live bs n t" "n + off + length src \<le> t" "length src \<le> m" "m < 2 ^ 64"
  shows "pc_put off (of_nat m) src (pc_at bs n t) = Ok (pc_at (overwrite bs (n + off) src) n t)"
  using assms by (simp add: pc_put_def memcpy_s_def write_at_def pc_live_def unat_of_nat64)

lemma pc_put_left:
  assumes "pc_live bs n t" "n + length src \<le> t"
  shows "pc_put 0 (of_nat t - of_nat n) src (pc_at bs n t) = Ok (pc_at (overwrite bs n src) n t)"
  using assms u64_left[OF assms(1)] by (simp add: pc_put_def memcpy_s_def write_at_def pc_live_def guard_err_def)

lemma pc_get_at:
  assumes "pc_live bs n t" "n + off + k \<le> t"
  shows "pc_get off k (pc_at bs n t) = Ok (take k (drop (n + off) bs))"
  using assms by (simp add: pc_get_def read_at_def pc_live_def)

lemma pc_live_overwrite: "pc_live bs n t \<Longrightarrow> n + length src \<le> t \<Longrightarrow> pc_live (overwrite bs n src) n t"
  by (simp add: pc_live_def)

lemma pc_fail_id: "pc_isError p \<Longrightarrow> pc_fail p = p"
  by (simp add: pc_fail_def)

definition pc_inside :: "parcel \<Rightarrow> bool" where
  "pc_inside p \<longleftrightarrow> pc_isError p \<or> (\<exists>bs n t. p = pc_at bs n t \<and> pc_live bs n t)"

lemma pc_insideI: "pc_isError p \<Longrightarrow> pc_inside p" "pc_live bs n t \<Longrightarrow> pc_inside (pc_at bs n t)"
  by (auto simp: pc_inside_def)

text \<open>A parcel, in error or not, whose buffer of \<open>m\<close> bytes and limit \<open>t\<close> are those it was made with.\<close>

definition pc_within :: "nat \<Rightarrow> nat \<Rightarrow> parcel \<Rightarrow> bool" where
  "pc_within m t p \<longleftrightarrow> (\<exists>bs n e. p = (pc_at bs n t)\<lparr>pc_isError := e\<rparr> \<and> pc_live bs n t \<and> length bs = m)"

lemma pc_withinI:
  "pc_live bs n t \<Longrightarrow> length bs = m \<Longrightarrow> pc_within m t (pc_at bs n t)"
  "pc_live bs n t \<Longrightarrow> length bs = m \<Longrightarrow> pc_within m t (pc_fail (pc_at bs n t))"
  unfolding pc_within_def pc_fail_def by (metis (full_types) parcel.surjective parcel.update_convs(1) pc_at_simps(1)) blast

lemma pc_withinE:
  assumes "pc_within m t p"
  obtains bs n where "p = pc_at bs n t" "pc_live bs n t" "length bs = m" | "pc_isError p" "pc_within m t p"
proof -
  obtain bs n e where p: "p = (pc_at bs n t)\<lparr>pc_isError := e\<rparr>" "pc_live bs n t" "length bs = m" using assms by (auto simp: pc_within_def)
  then show ?thesis using that assms by (cases e) (auto simp: pc_at_def)
qed

section \<open>The contract of a field\<close>

locale parcel_field =
  fixes W :: "'v \<Rightarrow> pc_write" and R :: "'v pc_read"
    and fsize :: "nat \<Rightarrow> 'v \<Rightarrow> nat" and img :: "'v \<Rightarrow> byte list" and valid :: "'v \<Rightarrow> bool"
  assumes img_size: "valid v \<Longrightarrow> length (img v) \<le> fsize n v"
    and write_room: "pc_live bs n t \<Longrightarrow> valid v \<Longrightarrow> n + fsize n v \<le> t \<Longrightarrow>
      W v (pc_at bs n t) = Ok (E_OK, pc_at (overwrite bs n (img v)) (n + fsize n v) t)"
    and write_full: "pc_live bs n t \<Longrightarrow> valid v \<Longrightarrow> t < n + fsize n v \<Longrightarrow>
      W v (pc_at bs n t) = Ok (E_PARSE_FAIL, pc_fail (pc_at bs n t))"
    and write_error: "pc_isError p \<Longrightarrow> valid v \<Longrightarrow> W v p = Ok (E_PARSE_FAIL, p)"
    and read_back: "pc_live bs n t \<Longrightarrow> valid v \<Longrightarrow> n + fsize n v \<le> t \<Longrightarrow> take (length (img v)) (drop n bs) = img v \<Longrightarrow>
      R (pc_at bs n t) = Ok (of_nat (fsize n v), Some v, pc_at bs (n + fsize n v) t)"
    and read_any: "pc_live bs n t \<Longrightarrow>
      (\<exists>v. valid v \<and> n + fsize n v \<le> t \<and> R (pc_at bs n t) = Ok (of_nat (fsize n v), Some v, pc_at bs (n + fsize n v) t)) \<or>
      (\<exists>d. R (pc_at bs n t) = Ok (0, d, pc_fail (pc_at bs n t)))"
    and read_error: "pc_isError p \<Longrightarrow> \<exists>d. R p = Ok (0, d, p)"
begin

text \<open>What was written is what is read, and the bytes before the field stay as they were.\<close>

lemma write_then_read:
  assumes "pc_live bs n t" "valid v" "n + fsize n v \<le> t"
  shows "\<exists>bs'. W v (pc_at bs n t) = Ok (E_OK, pc_at bs' (n + fsize n v) t) \<and> pc_live bs' (n + fsize n v) t \<and>
    take n bs' = take n bs \<and> length bs' = length bs \<and>
    (\<forall>bs2. pc_live bs2 n t \<longrightarrow> take (n + fsize n v) bs2 = take (n + fsize n v) bs' \<longrightarrow>
      map_value K (R (pc_at bs2 n t)) = Ok (of_nat (fsize n v), Some (K v), pc_at bs2 (n + fsize n v) t))"
proof (intro exI conjI allI impI)
  let ?bs = "overwrite bs n (img v)"
  have l: "n + length (img v) \<le> n + fsize n v" using img_size[OF assms(2)] by simp
  have len: "n + length (img v) \<le> length bs" "n \<le> length bs" using assms(1,3) l by (auto simp: pc_live_def)
  show "W v (pc_at bs n t) = Ok (E_OK, pc_at ?bs (n + fsize n v) t)" by (rule write_room[OF assms])
  show "pc_live ?bs (n + fsize n v) t" using assms(1,3) len by (simp add: pc_live_def)
  show "take n ?bs = take n bs" "length ?bs = length bs" using len by simp_all
  fix bs2 assume b: "pc_live bs2 n t" "take (n + fsize n v) bs2 = take (n + fsize n v) ?bs"
  have "take (length (img v)) (drop n bs2) = take (length (img v)) (drop n ?bs)"
    using arg_cong[OF b(2), of "\<lambda>x. take (length (img v)) (drop n x)"] l by (simp add: drop_take)
  also have "\<dots> = img v" using slice_overwrite_same len(1) by blast
  finally have "R (pc_at bs2 n t) = Ok (of_nat (fsize n v), Some v, pc_at bs2 (n + fsize n v) t)"
    by (rule read_back[OF b(1) assms(2,3)])
  then show "map_value K (R (pc_at bs2 n t)) = Ok (of_nat (fsize n v), Some (K v), pc_at bs2 (n + fsize n v) t)"
    by (simp add: map_value_def)
qed

text \<open>Neither operation leaves the memory, whatever it holds.\<close>

lemma read_within: "pc_within m t p \<Longrightarrow> \<exists>r d p'. R p = Ok (r, d, p') \<and> pc_within m t p'"
proof (erule pc_withinE)
  fix bs n assume p: "p = pc_at bs n t" "pc_live bs n t" "length bs = m"
  from read_any[OF p(2)] show ?thesis
  proof (elim disjE exE conjE)
    fix v assume "n + fsize n v \<le> t" "R (pc_at bs n t) = Ok (of_nat (fsize n v), Some v, pc_at bs (n + fsize n v) t)"
    then show ?thesis using p by (auto intro!: pc_withinI(1) simp: pc_live_def)
  qed (use p in \<open>auto intro!: pc_withinI(2)\<close>)
next
  assume "pc_isError p" "pc_within m t p"
  then show ?thesis using read_error[of p] by auto
qed

lemma write_within: "pc_within m t p \<Longrightarrow> valid v \<Longrightarrow> \<exists>e p'. W v p = Ok (e, p') \<and> pc_within m t p'"
proof (erule pc_withinE)
  fix bs n assume v: "valid v" and p: "p = pc_at bs n t" "pc_live bs n t" "length bs = m"
  show ?thesis
  proof (cases "n + fsize n v \<le> t")
    case True
    have "n + length (img v) \<le> t" using True img_size[OF v, of n] by simp
    then have "length (overwrite bs n (img v)) = m" "pc_live (overwrite bs n (img v)) (n + fsize n v) t"
      using p(2,3) True by (auto simp: pc_live_def)
    then show ?thesis using write_room[OF p(2) v True] p(1) by (auto intro: pc_withinI(1))
  next
    case False
    then show ?thesis using write_full[OF p(2) v] p by (auto intro!: pc_withinI(2))
  qed
next
  assume "valid v" "pc_isError p" "pc_within m t p"
  then show ?thesis using write_error[of p v] by auto
qed

end

section \<open>Integers are fields\<close>

lemma integer_field:
  assumes "8 dvd LENGTH('a::len)" "LENGTH('a) \<le> 64"
  shows "parcel_field (WriteInteger be :: 'a word \<Rightarrow> pc_write) (ReadInteger be') (\<lambda>n v. LENGTH('a) div 8) net_bytes (\<lambda>v. True)"
proof
  have k: "LENGTH('a) div 8 < 2 ^ 33" "LENGTH('a) div 8 \<le> 8" using assms(2) by auto
  fix bs n t and v :: "'a word"
  show "length (net_bytes v) \<le> LENGTH('a) div 8" by simp
  { assume l: "pc_live bs n t" and r: "n + LENGTH('a) div 8 \<le> t"
    have "\<not> of_nat t < of_nat n + (of_nat (LENGTH('a) div 8) :: u64)" using u64_cmp[OF l k(1)] r by simp
    then show "WriteInteger be v (pc_at bs n t) = Ok (E_OK, pc_at (overwrite bs n (net_bytes v)) (n + LENGTH('a) div 8) t)"
      using pc_put_left[OF l, of "net_bytes v"] r k(2) by (simp add: WriteInteger_def Let_def store_HostToNet[OF assms(1)]) }
  { assume "pc_live bs n t" "t < n + LENGTH('a) div 8"
    then show "WriteInteger be v (pc_at bs n t) = Ok (E_PARSE_FAIL, pc_fail (pc_at bs n t))"
      using u64_cmp[OF _ k(1)] by (simp add: WriteInteger_def Let_def) }
  have R: "ReadInteger be' (pc_at bs n t) = Ok (of_nat (LENGTH('a) div 8), Some (net_word (take (LENGTH('a) div 8) (drop n bs)) :: 'a word),
      pc_at bs (n + LENGTH('a) div 8) t)" if l: "pc_live bs n t" and r: "n + LENGTH('a) div 8 \<le> t" for bs n t
  proof -
    have "\<not> of_nat t < of_nat n + (of_nat (LENGTH('a) div 8) :: u64)" using u64_cmp[OF l k(1)] r by simp
    moreover have "length (take m (drop n bs)) = m" if "n + m \<le> t" for m using l that by (auto simp: pc_live_def)
    note this[OF r]
    ultimately show ?thesis using pc_get_at[OF l, of 0 "LENGTH('a) div 8"] r k(2)
      by (simp add: ReadInteger_def Let_def NetToHost_load[OF assms(1)])
  qed
  { assume "pc_live bs n t" "n + LENGTH('a) div 8 \<le> t" "take (length (net_bytes v)) (drop n bs) = net_bytes v"
    then show "ReadInteger be' (pc_at bs n t) = Ok (of_nat (LENGTH('a) div 8), Some v, pc_at bs (n + LENGTH('a) div 8) t)"
      using R assms(1) by simp }
  { assume l: "pc_live bs n t"
    show "(\<exists>v :: 'a word. True \<and> n + LENGTH('a) div 8 \<le> t \<and>
        ReadInteger be' (pc_at bs n t) = Ok (of_nat (LENGTH('a) div 8), Some v, pc_at bs (n + LENGTH('a) div 8) t)) \<or>
      (\<exists>d :: 'a word option. ReadInteger be' (pc_at bs n t) = Ok (0, d, pc_fail (pc_at bs n t)))"
    proof (cases "n + LENGTH('a) div 8 \<le> t")
      case True
      then show ?thesis using R[OF l] by blast
    next
      case False
      then show ?thesis using u64_cmp[OF l k(1)] by (simp add: ReadInteger_def Let_def)
    qed }
qed (auto simp: WriteInteger_def ReadInteger_def Let_def)

text \<open>A field whose value is converted on the way in and out.\<close>

lemma converted_field:
  assumes F: "parcel_field W R fsize img valid"
    and W': "\<And>v p. valid' v \<Longrightarrow> pc_inside p \<Longrightarrow> W' v p = W (g v) p"
    and R': "\<And>p. pc_inside p \<Longrightarrow> R' p = res_bind (R p) (\<lambda>(len, v, p'). Ok (len, h v, p'))"
    and g: "\<And>v. valid' v \<Longrightarrow> valid (g v) \<and> f (g v) = v"
    and f: "\<And>u. valid u \<Longrightarrow> valid' (f u)" "\<And>u n. valid u \<Longrightarrow> fsize n (g (f u)) = fsize n u" and h: "\<And>u. h (Some u) = Some (f u)"
  shows "parcel_field W' R' (\<lambda>n v. fsize n (g v)) (\<lambda>v. img (g v)) valid'"
proof
  fix bs n t v
  assume l: "pc_live bs n t"
  then show "(\<exists>v. valid' v \<and> n + fsize n (g v) \<le> t \<and> R' (pc_at bs n t) = Ok (of_nat (fsize n (g v)), Some v, pc_at bs (n + fsize n (g v)) t)) \<or>
    (\<exists>d. R' (pc_at bs n t) = Ok (0, d, pc_fail (pc_at bs n t)))"
    using parcel_field.read_any[OF F, of bs n t] f h R'[OF pc_insideI(2)[OF l]] by fastforce
next
  fix bs n t v
  assume l: "pc_live bs n t" and "valid' v" "n + fsize n (g v) \<le> t" "take (length (img (g v))) (drop n bs) = img (g v)"
  then have "R (pc_at bs n t) = Ok (of_nat (fsize n (g v)), Some (g v), pc_at bs (n + fsize n (g v)) t)"
    using parcel_field.read_back[OF F] g by blast
  then show "R' (pc_at bs n t) = Ok (of_nat (fsize n (g v)), Some v, pc_at bs (n + fsize n (g v)) t)"
    using g[OF \<open>valid' v\<close>] by (simp add: R'[OF pc_insideI(2)[OF l]] h)
next
  fix p :: parcel assume "pc_isError p"
  then show "\<exists>d. R' p = Ok (0, d, p)" using parcel_field.read_error[OF F, of p] R'[OF pc_insideI(1)] by auto
qed (use parcel_field.img_size[OF F] parcel_field.write_room[OF F] parcel_field.write_full[OF F] parcel_field.write_error[OF F]
      W' g pc_insideI in auto)

interpretation u8: parcel_field "WriteUInt8 be" "ReadUInt8 be'" "\<lambda>n v. 1" net_bytes "\<lambda>v. True" for be be'
  using integer_field[where 'a=8, of be be'] by (simp add: WriteUInt8_def[abs_def] ReadUInt8_def[abs_def])

interpretation u32: parcel_field "WriteUInt32 be" "ReadUInt32 be'" "\<lambda>n v. 4" net_bytes "\<lambda>v. True" for be be'
  using integer_field[where 'a=32, of be be'] by (simp add: WriteUInt32_def[abs_def] ReadUInt32_def[abs_def])

interpretation u64: parcel_field "WriteUInt64 be" "ReadUInt64 be'" "\<lambda>n v. 8" net_bytes "\<lambda>v. True" for be be'
  using integer_field[where 'a=64, of be be'] by (simp add: WriteUInt64_def[abs_def] ReadUInt64_def[abs_def])

definition in_range :: "nat \<Rightarrow> int \<Rightarrow> bool" where
  "in_range w i \<longleftrightarrow> - (2 ^ (w - 1)) \<le> i \<and> i < 2 ^ (w - 1)"

lemma sint_in_range: "in_range LENGTH('a) (sint (w :: 'a::len word))"
  using sint_ge[of w] sint_lt[of w] by (simp add: in_range_def)

lemma sint_of_range: "in_range LENGTH('a) i \<Longrightarrow> sint (word_of_int i :: 'a::len word) = i"
  by (simp add: in_range_def signed_of_int signed_take_bit_int_eq_self)

interpretation i32: parcel_field "WriteInt be" "ReadInt be'" "\<lambda>n v. 4" "\<lambda>v. net_bytes (word_of_int v :: u32)" "in_range 32" for be be'
  using converted_field[OF integer_field[where 'a=32, of be be'], of "in_range 32" "WriteInt be" word_of_int "ReadInt be'" "map_option sint" sint]
    sint_in_range[where 'a=32] sint_of_range[where 'a=32] by (simp add: WriteInt_def ReadInt_def map_value_def)

interpretation i64: parcel_field "WriteInt64 be" "ReadInt64 be'" "\<lambda>n v. 8" "\<lambda>v. net_bytes (word_of_int v :: u64)" "in_range 64" for be be'
  using converted_field[OF integer_field[where 'a=64, of be be'], of "in_range 64" "WriteInt64 be" word_of_int "ReadInt64 be'" "map_option sint" sint]
    sint_in_range[where 'a=64] sint_of_range[where 'a=64] by (simp add: WriteInt64_def ReadInt64_def map_value_def)

interpretation bool: parcel_field "WriteBool be" "ReadBool be'" "\<lambda>n v. 1" "\<lambda>v. net_bytes (if v then 1 else 0 :: u8)" "\<lambda>v. True" for be be'
  using converted_field[OF integer_field[where 'a=8, of be be'], of "\<lambda>v. True" "WriteBool be" "\<lambda>v. if v then 1 else 0" "ReadBool be'"
      "\<lambda>d. Some (case d of None \<Rightarrow> False | Some v \<Rightarrow> v = 1)" "\<lambda>u. u = 1"]
  by (simp add: WriteBool_def ReadBool_def WriteUInt8_def ReadUInt8_def)

lemma WriteDouble_eq: "WriteDouble be data p = WriteInteger be data p"
  by (auto simp: WriteDouble_def WriteInteger_def Let_def pc_fail_id)

lemma ReadDouble_eq: "ReadDouble be p = ReadInteger be p"
  by (auto simp: ReadDouble_def ReadInteger_def Let_def pc_fail_id)

interpretation double: parcel_field "WriteDouble be" "ReadDouble be'" "\<lambda>n v. 8" net_bytes "\<lambda>v. True" for be be'
  using integer_field[where 'a=64, of be be'] by (simp add: WriteDouble_eq[abs_def] ReadDouble_eq[abs_def])

section \<open>Vectors\<close>

definition vector_step :: "'a::len word list \<Rightarrow> nat" where
  "vector_step xs = length xs * (LENGTH('a) div 8) + 4"

definition vector_image :: "'a::len word list \<Rightarrow> byte list" where
  "vector_image xs = net_bytes (of_nat (length xs) :: u32) @ concat (map net_bytes xs)"

lemma length_elements: "length (concat (map (net_bytes :: 'a::len word \<Rightarrow> _) xs)) = length xs * (LENGTH('a) div 8)"
  by (induction xs) auto

lemma length_vector_image: "length (vector_image xs) = vector_step xs"
  by (simp add: vector_image_def vector_step_def length_elements)

lemma put_elements_at:
  assumes "8 dvd LENGTH('a)"
  shows "n + off + length xs * (LENGTH('a) div 8) \<le> length bs \<Longrightarrow>
    put_elements be off (xs :: 'a::len word list) (pc_at bs n t) = Ok (pc_at (overwrite bs (n + off) (concat (map net_bytes xs))) n t)"
proof (induction xs arbitrary: off bs)
  case (Cons x xs)
  let ?k = "LENGTH('a) div 8"
  have r: "n + off + ?k + length xs * ?k \<le> length bs" using Cons.prems by (simp add: algebra_simps)
  then have "n + off + ?k \<le> length bs" by linarith
  then have l: "length (overwrite bs (n + off) (net_bytes x)) = length bs" by simp
  have o: "overwrite (overwrite bs (n + off) (net_bytes x)) (n + (off + ?k)) (concat (map net_bytes xs)) =
    overwrite bs (n + off) (net_bytes x @ concat (map net_bytes xs))"
    using overwrite_append[of "n + off" "net_bytes x" "concat (map net_bytes xs)" bs] r by (simp add: length_elements add.assoc)
  show ?case using Cons.IH[of "off + ?k" "overwrite bs (n + off) (net_bytes x)"] r l o \<open>n + off + ?k \<le> length bs\<close>
    by (simp add: write_at_def store_HostToNet[OF assms] add.assoc)
qed simp

lemma get_elements_at:
  assumes "8 dvd LENGTH('a)" "pc_live bs n t"
  shows "n + off + k * (LENGTH('a) div 8) \<le> t \<Longrightarrow>
    \<exists>xs :: 'a::len word list. get_elements be off k (pc_at bs n t) = Ok xs \<and> length xs = k \<and>
      concat (map net_bytes xs) = take (k * (LENGTH('a) div 8)) (drop (n + off) bs)"
proof (induction k arbitrary: off)
  case (Suc k)
  let ?k = "LENGTH('a) div 8"
  let ?b = "take ?k (drop (n + off) bs)"
  have r: "n + (off + ?k) + k * ?k \<le> t" using Suc.prems by (simp add: algebra_simps)
  then have g: "n + off + ?k \<le> t" by linarith
  then have "n + off + ?k \<le> length bs" using assms(2) by (simp add: pc_live_def)
  then have lb: "length ?b = ?k" by (metis add_le_imp_le_diff add.commute length_drop length_take min.absorb2)
  from Suc.IH[OF r] obtain xs :: "'a word list" where xs: "get_elements be (off + ?k) k (pc_at bs n t) = Ok xs" "length xs = k"
    "concat (map net_bytes xs) = take (k * ?k) (drop (n + (off + ?k)) bs)" by blast
  let ?x = "NetToHost be (load_word be ?b) :: 'a word"
  have "net_bytes ?x = ?b" using NetToHost_load[OF assms(1) lb, of be] net_bytes_net_word[OF assms(1) lb] by simp
  moreover have "take (Suc k * ?k) (drop (n + off) bs) = ?b @ take (k * ?k) (drop (n + (off + ?k)) bs)"
    by (simp add: take_add ac_simps)
  ultimately have "concat (map net_bytes (?x # xs)) = take (Suc k * ?k) (drop (n + off) bs)" using xs(3) by simp
  moreover have "get_elements be off (Suc k) (pc_at bs n t) = Ok (?x # xs)"
    using xs(1) pc_get_at[OF assms(2) g] by simp
  ultimately show ?case using xs(2) by (metis length_Cons)
qed simp

lemma net_bytes_list_inj:
  assumes "8 dvd LENGTH('a)" "length xs = length ys" "concat (map net_bytes xs) = concat (map net_bytes (ys :: 'a::len word list))"
  shows "xs = ys"
  using assms(2,3)
proof (induction xs ys rule: list_induct2)
  case (Cons x xs y ys)
  then have "net_bytes x = net_bytes y" "concat (map net_bytes xs) = concat (map net_bytes ys)" by (simp_all add: append_eq_append_conv)
  then show ?case using Cons.IH assms(1) by (metis net_word_net_bytes)
qed simp

lemma of_nat_step: "(of_nat (length (xs :: 'a::len word list)) * of_nat (LENGTH('a) div 8) + 4 :: u64) = of_nat (vector_step xs)"
  by (simp add: vector_step_def)

lemma u64_gt_max: "k < 18446744073709551616 \<Longrightarrow> ((2147483647 :: u64) < of_nat k) \<longleftrightarrow> 2147483647 < k"
  by (simp add: word_less_nat_alt unat_of_nat64)

lemma ucast_of_nat64: "k < 18446744073709551616 \<Longrightarrow> (ucast (of_nat k :: u64) :: u32) = of_nat k"
  by (metis of_nat_unat unat_of_nat64)

lemma ucast_u64_nat: "(ucast (x :: u32) :: u64) = of_nat (unat x)"
  by simp

lemma step_bounds: "s \<le> 2147483647 \<Longrightarrow> s < 18446744073709551616 \<and> s < 2 ^ 33 \<and> align8 s < 2 ^ 33 \<and> align8 s < 18446744073709551616 \<and> s \<le> align8 s"
  using align8_lt[of s] align8_ge[of s] by auto

lemma vector_step_ge: "4 \<le> vector_step xs" by (simp add: vector_step_def)

lemma vector_length:
  assumes "8 dvd LENGTH('a)" "vector_step (xs :: 'a::len word list) \<le> 2147483647"
  shows "length xs \<le> 2147483647"
proof -
  have "1 \<le> LENGTH('a) div 8" using assms(1) by (metis One_nat_def Suc_leI dvd_div_eq_0_iff gr0I len_not_eq_0)
  then have "length xs * 1 \<le> length xs * (LENGTH('a) div 8)" by (rule mult_le_mono2)
  then show ?thesis using assms(2) unfolding vector_step_def by linarith
qed

lemma WriteVector_at:
  assumes "8 dvd LENGTH('a::len)" "pc_live bs n t" "vector_step (xs :: 'a word list) \<le> 2147483647"
  shows "WriteVector be xs (pc_at bs n t) =
    (if n + align8 (vector_step xs) \<le> t then Ok (E_OK, pc_at (overwrite bs n (vector_image xs)) (n + align8 (vector_step xs)) t)
     else Ok (E_PARSE_FAIL, pc_fail (pc_at bs n t)))"
proof -
  note s = step_bounds[OF assms(3)]
  note c = u64_cmp[OF assms(2)]
  have len: "\<not> 2147483647 < length xs" using vector_length[OF assms(1,3)] by simp
  show ?thesis
  proof (cases "n + align8 (vector_step xs) \<le> t")
    case False
    then show ?thesis using s c[of "align8 (vector_step xs)"] len
      by (simp add: WriteVector_def Let_def of_nat_step u64_align u64_gt_max)
  next
    case True
    let ?nb = "net_bytes (of_nat (length xs) :: u32)"
    have r: "n + 4 + length xs * (LENGTH('a) div 8) \<le> t" using True s by (simp add: vector_step_def)
    then have r4: "n + 4 \<le> t" by linarith
    have lb: "t \<le> length bs" using assms(2) by (simp add: pc_live_def)
    have "overwrite (overwrite bs n ?nb) (n + 4) (concat (map net_bytes xs)) = overwrite bs n (vector_image xs)"
      using overwrite_append[of n ?nb "concat (map net_bytes xs)" bs] r lb by (simp add: vector_image_def length_elements)
    moreover have "put_elements be 4 xs (pc_at (overwrite bs n ?nb) n t) = Ok (pc_at (overwrite (overwrite bs n ?nb) (n + 4) (concat (map net_bytes xs))) n t)"
      by (rule put_elements_at[OF assms(1)]) (use r r4 lb in simp)
    ultimately have e: "put_elements be 4 xs (pc_at (overwrite bs n ?nb) n t) = Ok (pc_at (overwrite bs n (vector_image xs)) n t)" by simp
    have st: "store_word be (HostToNet be (of_nat (length xs) :: u32)) = ?nb" by (rule store_HostToNet) simp
    have "pc_put 0 (of_nat t - of_nat n) ?nb (pc_at bs n t) = Ok (pc_at (overwrite bs n ?nb) n t)"
      by (rule pc_put_left[OF assms(2)]) (use r4 in simp)
    moreover have "\<not> of_nat t < of_nat n + (of_nat 4 :: u64)" using c[of 4] r4 by simp
    moreover have "\<not> of_nat t < of_nat n + (of_nat (align8 (vector_step xs)) :: u64)" using c[of "align8 (vector_step xs)"] True s by simp
    ultimately show ?thesis using True s len e assms(3)
      by (simp add: WriteVector_def Let_def of_nat_step u64_align u64_gt_max st)
  qed
qed

lemma ReadVector_at:
  assumes "8 dvd LENGTH('a::len)" "LENGTH('a) \<le> 64" "pc_live bs n t"
  shows "(\<exists>xs :: 'a word list. vector_step xs \<le> 2147483647 \<and> n + align8 (vector_step xs) \<le> t \<and>
      take (vector_step xs) (drop n bs) = vector_image xs \<and>
      ReadVector be (pc_at bs n t) = Ok (of_nat (align8 (vector_step xs)), Some xs, pc_at bs (n + align8 (vector_step xs)) t)) \<or>
    (ReadVector be (pc_at bs n t) = Ok (0, None :: 'a word list option, pc_fail (pc_at bs n t)) \<and>
     (n + 4 \<le> t \<longrightarrow> (let len = unat (net_word (take 4 (drop n bs)) :: u32); s = len * (LENGTH('a) div 8) + 4
        in s > 2147483647 \<or> t < n + align8 s)))"
proof (cases "n + 4 \<le> t")
  case False
  then show ?thesis using u64_cmp[OF assms(3), of 4] by (simp add: ReadVector_def)
next
  case True
  let ?k = "LENGTH('a) div 8"
  define len where "len = unat (net_word (take 4 (drop n bs)) :: u32)"
  define s where "s = len * ?k + 4"
  have lb: "length (take 4 (drop n bs)) = 4" using True assms(3) by (auto simp: pc_live_def)
  have nt: "NetToHost be (load_word be (take 4 (drop n bs))) = (net_word (take 4 (drop n bs)) :: u32)"
    by (rule NetToHost_load) (use lb in simp_all)
  have k: "?k \<le> 8" "1 \<le> ?k" using assms by (auto simp: Suc_le_eq div_greater_zero_iff dvd_imp_le)
  have "len < 4294967296" by (simp add: len_def)
  then have "len * ?k \<le> 4294967296 * 8" by (intro mult_le_mono) (use k in auto)
  then have s64: "s < 18446744073709551616" by (simp add: s_def)
  have st: "(ucast (net_word (take 4 (drop n bs)) :: u32) * of_nat ?k + 4 :: u64) = of_nat s"
    unfolding ucast_u64_nat by (simp add: s_def len_def)
  have g: "\<not> of_nat t < of_nat n + (4 :: u64)" using u64_cmp[OF assms(3), of 4] True by simp
  note get = pc_get_at[OF assms(3), of 0 4]
  show ?thesis
  proof (cases "s \<le> 2147483647 \<and> n + align8 s \<le> t")
    case ok: True
    note b = step_bounds[OF ok[THEN conjunct1]]
    have "n + 4 + len * ?k \<le> t" using ok b by (simp add: s_def)
    from get_elements_at[OF assms(1,3) this, of be] obtain xs :: "'a word list" where xs: "get_elements be 4 len (pc_at bs n t) = Ok xs"
      "length xs = len" "concat (map net_bytes xs) = take (len * ?k) (drop (n + 4) bs)" by blast
    have vs: "vector_step xs = s" using xs(2) by (simp add: vector_step_def s_def)
    have "take s (drop n bs) = take 4 (drop n bs) @ take (len * ?k) (drop (n + 4) bs)" by (simp add: s_def take_add add.commute)
    also have "\<dots> = vector_image xs"
      using xs(2,3) net_bytes_net_word[where 'a=32, of "take 4 (drop n bs)"] lb by (simp add: vector_image_def len_def)
    finally have im: "take s (drop n bs) = vector_image xs" .
    have "len * 1 \<le> len * ?k" using k(2) by (rule mult_le_mono2)
    then have "len \<le> 2147483647" using ok unfolding s_def by linarith
    then have "\<not> (net_word (take 4 (drop n bs)) :: u32) > 2147483647" by (simp add: word_less_nat_alt len_def)
    moreover have "\<not> of_nat t < of_nat n + (of_nat (align8 s) :: u64)" using u64_cmp[OF assms(3)] ok b by simp
    ultimately have "ReadVector be (pc_at bs n t) = Ok (of_nat (align8 s), Some xs, pc_at bs (n + align8 s) t)"
      using True g get xs(1) b ok unfolding len_def
      by (simp add: ReadVector_def Let_def nt st u64_gt_max u64_align ucast_of_nat64)
    then show ?thesis using vs im ok by blast
  next
    case False
    then have f: "2147483647 < s \<or> s \<le> 2147483647 \<and> t < n + align8 s" by auto
    then have "ReadVector be (pc_at bs n t) = Ok (0, None :: 'a word list option, pc_fail (pc_at bs n t))"
    proof
      assume "2147483647 < s"
      then show ?thesis using True g get s64 by (simp add: ReadVector_def Let_def nt st u64_gt_max)
    next
      assume a: "s \<le> 2147483647 \<and> t < n + align8 s"
      note b = step_bounds[OF a[THEN conjunct1]]
      have "of_nat t < of_nat n + (of_nat (align8 s) :: u64)" using u64_cmp[OF assms(3)] a b by simp
      then show ?thesis using True g get b by (simp add: ReadVector_def Let_def nt st u64_gt_max u64_align)
    qed
    then show ?thesis using f by (auto simp: Let_def s_def len_def)
  qed
qed

lemma vector_image_inj:
  assumes "8 dvd LENGTH('a)" "vector_image xs = vector_image (ys :: 'a::len word list)" "length xs < 4294967296" "length ys < 4294967296"
  shows "xs = ys"
proof -
  have "net_bytes (of_nat (length xs) :: u32) = net_bytes (of_nat (length ys) :: u32)"
    "concat (map net_bytes xs) = concat (map net_bytes ys)"
    using assms(2) by (simp_all add: vector_image_def append_eq_append_conv)
  note e = this
  have "net_word (net_bytes (of_nat (length xs) :: u32)) = (net_word (net_bytes (of_nat (length ys) :: u32)) :: u32)" using e(1) by simp
  then have "(of_nat (length xs) :: u32) = of_nat (length ys)" by simp
  then have "unat (of_nat (length xs) :: u32) = unat (of_nat (length ys) :: u32)" by simp
  then have "length xs = length ys" using assms(3,4) by (simp add: unat_of_nat32)
  then show ?thesis using net_bytes_list_inj[OF assms(1) _ e(2)] by simp
qed

lemma vector_field:
  assumes "8 dvd LENGTH('a::len)" "LENGTH('a) \<le> 64"
  shows "parcel_field (WriteVector be :: 'a word list \<Rightarrow> pc_write) (ReadVector be') (\<lambda>n xs. align8 (vector_step xs)) vector_image
    (\<lambda>xs. vector_step xs \<le> 2147483647)"
proof
  fix bs n t and v :: "'a word list"
  assume v: "vector_step v \<le> 2147483647"
  show "length (vector_image v) \<le> align8 (vector_step v)" by (simp add: length_vector_image align8_ge)
  { assume "pc_live bs n t" "n + align8 (vector_step v) \<le> t"
    then show "WriteVector be v (pc_at bs n t) = Ok (E_OK, pc_at (overwrite bs n (vector_image v)) (n + align8 (vector_step v)) t)"
      using WriteVector_at[OF assms(1) _ v] by simp }
  { assume "pc_live bs n t" "t < n + align8 (vector_step v)"
    then show "WriteVector be v (pc_at bs n t) = Ok (E_PARSE_FAIL, pc_fail (pc_at bs n t))"
      using WriteVector_at[OF assms(1) _ v] by simp }
  { fix p :: parcel assume "pc_isError p"
    then show "WriteVector be v p = Ok (E_PARSE_FAIL, p)" using vector_length[OF assms(1) v] by (simp add: WriteVector_def) }
  assume l: "pc_live bs n t" and r: "n + align8 (vector_step v) \<le> t"
    and i: "take (length (vector_image v)) (drop n bs) = vector_image v"
  have len: "length v < 4294967296" using vector_length[OF assms(1) v] by simp
  have "take 4 (take (length (vector_image v)) (drop n bs)) = take 4 (vector_image v)" using i by simp
  then have nb: "take 4 (drop n bs) = net_bytes (of_nat (length v) :: u32)"
    using vector_step_ge[of v] by (simp add: length_vector_image min_def) (simp add: vector_image_def)
  then have ln: "unat (net_word (take 4 (drop n bs)) :: u32) = length v" using len by (simp add: unat_of_nat32)
  from ReadVector_at[OF assms l, of be'] show "ReadVector be' (pc_at bs n t) =
      Ok (of_nat (align8 (vector_step v)), Some v, pc_at bs (n + align8 (vector_step v)) t)"
  proof (elim disjE exE conjE)
    fix xs :: "'a word list"
    assume x: "take (vector_step xs) (drop n bs) = vector_image xs" "vector_step xs \<le> 2147483647"
      "ReadVector be' (pc_at bs n t) = Ok (of_nat (align8 (vector_step xs)), Some xs, pc_at bs (n + align8 (vector_step xs)) t)"
    have lx: "length xs < 4294967296" using vector_length[OF assms(1) x(2)] by simp
    have "take 4 (take (vector_step xs) (drop n bs)) = take 4 (vector_image xs)" using x(1) by simp
    then have "take 4 (drop n bs) = net_bytes (of_nat (length xs) :: u32)"
      using vector_step_ge[of xs] by (simp add: min_def) (simp add: vector_image_def)
    then have "length xs = length v" using ln lx by (simp add: unat_of_nat32)
    then have "vector_step xs = vector_step v" by (simp add: vector_step_def)
    then have "xs = v" using vector_image_inj[OF assms(1) _ lx len] x(1) i by (simp add: length_vector_image)
    then show ?thesis using x(3) by simp
  next
    assume "n + 4 \<le> t \<longrightarrow> (let len = unat (net_word (take 4 (drop n bs)) :: u32); s = len * (LENGTH('a) div 8) + 4
        in s > 2147483647 \<or> t < n + align8 s)"
    then show ?thesis using r v align8_ge[of "vector_step v"] vector_step_ge[of v] unfolding ln Let_def vector_step_def by auto
  qed
next
  fix bs n t assume "pc_live bs n t"
  from ReadVector_at[OF assms this, of be'] show "(\<exists>v :: 'a word list. vector_step v \<le> 2147483647 \<and> n + align8 (vector_step v) \<le> t \<and>
      ReadVector be' (pc_at bs n t) = Ok (of_nat (align8 (vector_step v)), Some v, pc_at bs (n + align8 (vector_step v)) t)) \<or>
    (\<exists>d :: 'a word list option. ReadVector be' (pc_at bs n t) = Ok (0, d, pc_fail (pc_at bs n t)))" by blast
qed (simp add: ReadVector_def)

interpretation bytes: parcel_field "WriteVectorChar be" "ReadVectorChar be'" "\<lambda>n xs. align8 (vector_step xs)" vector_image
  "\<lambda>xs. vector_step xs \<le> 2147483647" for be be'
  using vector_field[where 'a=8, of be be'] by (simp add: WriteVectorChar_def[abs_def] ReadVectorChar_def[abs_def])

section \<open>Strings\<close>

definition str_bytes :: "string \<Rightarrow> byte list" where
  "str_bytes s = map of_char s"

definition bytes_str :: "byte list \<Rightarrow> string" where
  "bytes_str bs = map (\<lambda>b. char_of (unat b)) bs"

lemma char_byte: "char_of (unat (of_char c :: byte)) = c"
proof -
  have "(of_char c :: byte) = of_nat (of_char c)" by (simp add: of_char_def)
  moreover have "(of_char c :: nat) < 256" by (rule nat_of_char_less_256)
  ultimately have "unat (of_char c :: byte) = of_char c" by (simp add: unat_of_nat)
  then show ?thesis by simp
qed

lemma byte_char: "(of_char (char_of (unat b) :: char) :: byte) = b"
proof -
  have "unat b < 2 ^ LENGTH(8)" by (rule unsigned_less)
  then have "(of_char (char_of (unat b) :: char) :: nat) = unat b" by simp
  moreover have "(of_char c :: byte) = of_nat (of_char c)" for c by (simp add: of_char_def)
  ultimately show ?thesis by simp
qed

lemma str_bytes_inverse [simp]: "bytes_str (str_bytes s) = s" "str_bytes (bytes_str bs) = bs"
  by (simp_all add: str_bytes_def bytes_str_def char_byte byte_char map_idI)

lemma length_str_bytes [simp]: "length (str_bytes s) = length s" "length (bytes_str bs) = length bs"
  by (simp_all add: str_bytes_def bytes_str_def)

lemma string_step: "vector_step (str_bytes s) = 4 + length s"
  by (simp add: vector_step_def)

lemma concat_bytes: "concat (map net_bytes xs) = (xs :: byte list)"
  by (induction xs) (simp_all add: net_bytes_def)

lemma get_bytes:
  assumes "pc_live bs n t" "n + 4 + k \<le> t"
  shows "get_elements be 4 k (pc_at bs n t) = Ok (take k (drop (n + 4) bs))"
  using get_elements_at[where 'a=8, OF _ assms(1), of 4 k be] assms(2) by (auto simp: concat_bytes)

lemma WriteString_at:
  assumes "pc_live bs n t" "4 + length s \<le> 2147483647"
  shows "WriteString be s (pc_at bs n t) = WriteVectorChar be (str_bytes s) (pc_at bs n t)"
proof -
  define S where "S = 4 + length s"
  have v: "vector_step (str_bytes s) \<le> 2147483647" using assms(2) by (simp add: string_step)
  note b = step_bounds[OF assms(2)[folded S_def]]
  have st: "(4 + of_nat (length s) :: u64) = of_nat S" by (simp add: S_def)
  show ?thesis
  proof (cases "n + align8 S \<le> t")
    case False
    then show ?thesis using b u64_cmp[OF assms(1), of "align8 S"] assms(2) assms(2)[folded S_def] WriteVector_at[OF _ assms(1) v, of be]
      unfolding WriteString_def st by (simp add: Let_def u64_align u64_gt_max WriteVectorChar_def string_step S_def[symmetric])
  next
    case True
    let ?nb = "net_bytes (of_nat (length s) :: u32)"
    have r: "n + 4 + length s \<le> t" using True b by (simp add: S_def)
    have lb: "t \<le> length bs" using assms(1) by (simp add: pc_live_def)
    have sw: "store_word be (HostToNet be (of_nat (length s) :: u32)) = ?nb" by (rule store_HostToNet) simp
    have p1: "pc_put 0 (of_nat t - of_nat n) ?nb (pc_at bs n t) = Ok (pc_at (overwrite bs n ?nb) n t)"
      by (rule pc_put_left[OF assms(1)]) (use r in simp)
    have l1: "pc_live (overwrite bs n ?nb) n t" by (rule pc_live_overwrite[OF assms(1)]) (use r in simp)
    have e: "(of_nat t - of_nat n - 4 :: u64) = of_nat (t - n - 4)" using r by (simp add: of_nat_diff)
    have p2: "pc_put 4 (of_nat t - of_nat n - 4) (str_bytes s) (pc_at (overwrite bs n ?nb) n t) =
        Ok (pc_at (overwrite (overwrite bs n ?nb) (n + 4) (str_bytes s)) n t)"
      unfolding e by (rule pc_put_at[OF l1]) (use r assms(1) in \<open>auto simp: pc_live_def\<close>)
    have o: "overwrite (overwrite bs n ?nb) (n + 4) (str_bytes s) = overwrite bs n (vector_image (str_bytes s))"
      using overwrite_append[of n ?nb "str_bytes s" bs] r lb by (simp add: vector_image_def concat_bytes)
    have "\<not> of_nat t < of_nat n + (of_nat (align8 S) :: u64)" using u64_cmp[OF assms(1)] True b by simp
    moreover have "\<not> 2147483647 < length s" using assms(2) by simp
    moreover have "overwrite bs n (net_bytes (0 :: u32)) = overwrite bs n (vector_image (str_bytes s))" if "s = []"
      using that by (simp add: vector_image_def str_bytes_def)
    ultimately show ?thesis using True b assms(2)[folded S_def] WriteVector_at[OF _ assms(1) v, of be] p1 p2[unfolded o]
      unfolding WriteString_def st str_bytes_def[symmetric]
      by (auto simp: Let_def u64_align u64_gt_max WriteVectorChar_def string_step S_def[symmetric] sw)
  qed
qed

lemma ReadString_inside:
  assumes "pc_inside p"
  shows "ReadString be p = res_bind (ReadVectorChar be p) (\<lambda>(len, v, p'). Ok (len, map_option bytes_str v, p'))"
proof (cases "pc_isError p")
  case True
  then show ?thesis by (simp add: ReadString_def ReadVectorChar_def ReadVector_def)
next
  case False
  then obtain bs n t where p: "p = pc_at bs n t" and l: "pc_live bs n t" using assms by (auto simp: pc_inside_def)
  show ?thesis
  proof (cases "n + 4 \<le> t")
    case False
    then show ?thesis using u64_cmp[OF l, of 4] by (simp add: ReadString_def ReadVectorChar_def ReadVector_def p)
  next
    case True
    define w where "w = NetToHost be (load_word be (take 4 (drop n bs)) :: u32)"
    define s where "s = unat w + 4"
    have s64: "s < 18446744073709551616" unfolding s_def using unat_u32_lt[of w] by linarith
    have st: "(ucast w + 4 :: u64) = of_nat s" unfolding ucast_u64_nat by (simp add: s_def)
    have g: "\<not> of_nat t < of_nat n + (4 :: u64)" using u64_cmp[OF l, of 4] True by simp
    have big: "\<not> (w :: u32) > 2147483647" if "s \<le> 2147483647" using that by (simp add: word_less_nat_alt s_def)
    have get: "pc_get 0 4 (pc_at bs n t) = Ok (take 4 (drop n bs))" using pc_get_at[OF l, of 0 4] True by simp
    show ?thesis
    proof (cases "s \<le> 2147483647 \<and> n + align8 s \<le> t")
      case ok: True
      have "n + 4 + unat w \<le> t" using ok align8_ge[of s] by (simp add: s_def)
      then have e: "get_elements be 4 (unat w) (pc_at bs n t) = Ok (take (unat w) (drop (n + 4) bs))"
        "pc_get 4 (unat w) (pc_at bs n t) = Ok (take (unat w) (drop (n + 4) bs))" using get_bytes[OF l] pc_get_at[OF l] by auto
      have "\<not> of_nat t < of_nat n + (of_nat (align8 s) :: u64)" using u64_cmp[OF l] ok step_bounds[of s] by simp
      then show ?thesis using ok e big g get step_bounds[of s]
        by (simp add: ReadString_def ReadVectorChar_def ReadVector_def p Let_def w_def[symmetric] st u64_gt_max u64_align bytes_str_def)
    next
      case no: False
      show ?thesis
      proof (cases "s \<le> 2147483647")
        case True
        then have "of_nat t < of_nat n + (of_nat (align8 s) :: u64)" using u64_cmp[OF l] no step_bounds[of s] by simp
        then show ?thesis using True g get big step_bounds[of s]
          by (simp add: ReadString_def ReadVectorChar_def ReadVector_def p Let_def w_def[symmetric] st u64_gt_max u64_align)
      next
        case False
        then show ?thesis using s64 g get
          by (simp add: ReadString_def ReadVectorChar_def ReadVector_def p Let_def w_def[symmetric] st u64_gt_max)
      qed
    qed
  qed
qed

interpretation str: parcel_field "WriteString be" "ReadString be'" "\<lambda>n s. align8 (4 + length s)" "\<lambda>s. vector_image (str_bytes s)"
  "\<lambda>s. 4 + length s \<le> 2147483647" for be be'
proof -
  have "parcel_field (WriteString be) (ReadString be') (\<lambda>n s. align8 (vector_step (str_bytes s))) (\<lambda>s. vector_image (str_bytes s))
    (\<lambda>s. 4 + length s \<le> 2147483647)"
  proof (rule converted_field[OF bytes.parcel_field_axioms[of be be'], where f=bytes_str and h="map_option bytes_str"])
    fix s p assume s: "4 + length (s::string) \<le> 2147483647" and "pc_inside p"
    then consider "pc_isError p" | bs n t where "p = pc_at bs n t" "pc_live bs n t" by (auto simp: pc_inside_def)
    then show "WriteString be s p = WriteVectorChar be (str_bytes s) p"
    proof cases
      case 1
      then show ?thesis using s by (simp add: WriteString_def WriteVectorChar_def WriteVector_def)
    next
      case 2
      then show ?thesis using WriteString_at[OF _ s] by simp
    qed
  qed (use ReadString_inside in \<open>auto simp: vector_step_def bytes_str_def[symmetric]\<close>)
  then show "parcel_field (WriteString be) (ReadString be') (\<lambda>n s. align8 (4 + length s)) (\<lambda>s. vector_image (str_bytes s))
    (\<lambda>s. 4 + length s \<le> 2147483647)" by (simp add: string_step)
qed

section \<open>Sequences of fields\<close>

datatype parcel_item =
    PBool bool | PInt int | PUInt8 u8 | PUInt32 u32 | PInt64 int | PUInt64 u64 | PDouble u64
  | PBytes "byte list" | PString string | PAlign

fun write_item :: "bool \<Rightarrow> parcel_item \<Rightarrow> pc_write" where
  "write_item be (PBool v) p = WriteBool be v p"
| "write_item be (PInt v) p = WriteInt be v p"
| "write_item be (PUInt8 v) p = WriteUInt8 be v p"
| "write_item be (PUInt32 v) p = WriteUInt32 be v p"
| "write_item be (PInt64 v) p = WriteInt64 be v p"
| "write_item be (PUInt64 v) p = WriteUInt64 be v p"
| "write_item be (PDouble v) p = WriteDouble be v p"
| "write_item be (PBytes v) p = WriteVectorChar be v p"
| "write_item be (PString v) p = WriteString be v p"
| "write_item be PAlign p = (let p' = EightByteAlign p in Ok (if pc_isError p' then E_PARSE_FAIL else E_OK, p'))"

text \<open>Reading a field of the kind of the given one.\<close>

fun read_item :: "bool \<Rightarrow> parcel_item \<Rightarrow> parcel_item pc_read" where
  "read_item be (PBool _) p = map_value PBool (ReadBool be p)"
| "read_item be (PInt _) p = map_value PInt (ReadInt be p)"
| "read_item be (PUInt8 _) p = map_value PUInt8 (ReadUInt8 be p)"
| "read_item be (PUInt32 _) p = map_value PUInt32 (ReadUInt32 be p)"
| "read_item be (PInt64 _) p = map_value PInt64 (ReadInt64 be p)"
| "read_item be (PUInt64 _) p = map_value PUInt64 (ReadUInt64 be p)"
| "read_item be (PDouble _) p = map_value PDouble (ReadDouble be p)"
| "read_item be (PBytes _) p = map_value PBytes (ReadVectorChar be p)"
| "read_item be (PString _) p = map_value PString (ReadString be p)"
| "read_item be PAlign p = (let p' = EightByteAlign p in Ok (0, Some PAlign, p'))"

text \<open>The lengths that callers add up with the \<^verbatim>\<open>Get...Len\<close> functions.\<close>

fun item_len :: "nat \<Rightarrow> parcel_item \<Rightarrow> nat" where
  "item_len n (PBool _) = unat GetBoolLen"
| "item_len n (PInt _) = unat GetIntLen"
| "item_len n (PUInt8 _) = unat GetUInt8Len"
| "item_len n (PUInt32 _) = unat GetUInt32Len"
| "item_len n (PInt64 _) = unat GetInt64Len"
| "item_len n (PUInt64 _) = unat GetUInt64Len"
| "item_len n (PDouble _) = unat GetDoubleLen"
| "item_len n (PBytes v) = unat (GetVectorCharLen v)"
| "item_len n (PString v) = unat (GetStringLen v)"
| "item_len n PAlign = align8 n - n"

fun item_valid :: "parcel_item \<Rightarrow> bool" where
  "item_valid (PInt v) = in_range 32 v"
| "item_valid (PInt64 v) = in_range 64 v"
| "item_valid (PBytes v) = (GetVectorCharLen v \<noteq> 0)"
| "item_valid (PString v) = (GetStringLen v \<noteq> 0)"
| "item_valid _ = True"

fun items_end :: "nat \<Rightarrow> parcel_item list \<Rightarrow> nat" where
  "items_end n [] = n"
| "items_end n (it # its) = items_end (n + item_len n it) its"

fun write_items :: "bool \<Rightarrow> parcel_item list \<Rightarrow> pc_write" where
  "write_items be [] p = Ok (E_OK, p)"
| "write_items be (it # its) p =
     res_bind (write_item be it p) (\<lambda>(e, p'). if e \<noteq> E_OK then Ok (e, p') else write_items be its p')"

fun read_items :: "bool \<Rightarrow> parcel_item list \<Rightarrow> parcel \<Rightarrow> (parcel_item option list \<times> parcel) res" where
  "read_items be [] p = Ok ([], p)"
| "read_items be (it # its) p =
     res_bind (read_item be it p) (\<lambda>(_, v, p'). res_bind (read_items be its p') (\<lambda>(vs, p''). Ok (v # vs, p'')))"

lemmas item_lens = GetBoolLen_def GetIntLen_def GetUInt8Len_def GetUInt32Len_def GetInt64Len_def GetUInt64Len_def GetDoubleLen_def

lemma align_len:
  assumes "k < 2 ^ 33" "BYTE_8_ALIGN (of_nat k :: u64) \<le> 2147483647"
  shows "align8 k \<le> 2147483647" "unat (ucast (BYTE_8_ALIGN (of_nat k :: u64)) :: u32) = align8 k"
proof -
  have a: "BYTE_8_ALIGN (of_nat k :: u64) = of_nat (align8 k)" by (rule u64_align[OF assms(1)])
  have b: "align8 k < 18446744073709551616" using align8_lt[of k] assms(1) by simp
  show c: "align8 k \<le> 2147483647" using assms(2) b by (simp add: a word_le_nat_alt unat_of_nat64)
  show "unat (ucast (BYTE_8_ALIGN (of_nat k :: u64)) :: u32) = align8 k"
    using b c by (simp add: a ucast_of_nat64 unat_of_nat32)
qed

lemma GetVectorCharLen_align:
  assumes "GetVectorCharLen xs \<noteq> 0"
  shows "unat (GetVectorCharLen xs) = align8 (vector_step xs)" "vector_step xs \<le> 2147483647"
proof -
  have l: "length xs \<le> 2147483647" using assms by (metis GetVectorCharLen_def GetVectorLen_def not_le)
  have e: "(4 + of_nat (length xs) * of_nat (LENGTH(8) div 8) :: u64) = of_nat (vector_step xs)" by (simp add: vector_step_def)
  have s: "vector_step xs < 2 ^ 33" using l by (simp add: vector_step_def)
  have c: "BYTE_8_ALIGN (of_nat (vector_step xs) :: u64) \<le> 2147483647"
    using assms l unfolding GetVectorCharLen_def GetVectorLen_def e by (auto simp: Let_def split: if_splits)
  note a = align_len[OF s c]
  show "vector_step xs \<le> 2147483647" using a(1) align8_ge[of "vector_step xs"] by simp
  show "unat (GetVectorCharLen xs) = align8 (vector_step xs)"
    using a(2) c l unfolding GetVectorCharLen_def GetVectorLen_def e by (simp add: Let_def leD[OF c])
qed

lemma GetStringLen_align:
  assumes "GetStringLen s \<noteq> 0"
  shows "unat (GetStringLen s) = align8 (4 + length s)" "4 + length s \<le> 2147483647"
proof -
  have "GetStringLen s = GetVectorCharLen (str_bytes s)"
    by (simp add: GetStringLen_def GetVectorCharLen_def GetVectorLen_def)
  then show "unat (GetStringLen s) = align8 (4 + length s)" "4 + length s \<le> 2147483647"
    using GetVectorCharLen_align[of "str_bytes s"] assms by (simp_all add: string_step)
qed

lemma Align_at:
  assumes "pc_live bs n t"
  shows "EightByteAlign (pc_at bs n t) = (if align8 n \<le> t then pc_at bs (align8 n) t else pc_fail (pc_at bs n t))"
proof -
  have n: "n < 2 ^ 32" "t < 2 ^ 32" using assms by (auto simp: pc_live_def)
  have a: "BYTE_8_ALIGN (of_nat n :: u64) = of_nat (align8 n)" by (rule u64_align) (use n in simp)
  have b: "align8 n < 2 ^ 33" "n \<le> align8 n" using align8_lt[of n] align8_ge[of n] n by simp_all
  have "(of_nat (align8 n) - of_nat n :: u64) = of_nat (align8 n - n)" using b(2) by (simp add: of_nat_diff)
  moreover have "(of_nat t < (of_nat (align8 n) :: u64)) \<longleftrightarrow> t < align8 n"
    using n b by (simp add: word_less_nat_alt unat_of_nat64)
  ultimately show ?thesis using b pc_advance_at[of "align8 n - n" bs n t] by (simp add: EightByteAlign_def a not_less)
qed

text \<open>Every kind of field keeps the contract, at every position.\<close>

lemma write_item_ok:
  assumes "pc_live bs n t" "item_valid it" "n + item_len n it \<le> t"
  shows "\<exists>bs'. write_item be it (pc_at bs n t) = Ok (E_OK, pc_at bs' (n + item_len n it) t) \<and> pc_live bs' (n + item_len n it) t \<and>
    take n bs' = take n bs \<and> length bs' = length bs \<and>
    (\<forall>bs2. pc_live bs2 n t \<longrightarrow> take (n + item_len n it) bs2 = take (n + item_len n it) bs' \<longrightarrow>
      (\<exists>len. read_item be' it (pc_at bs2 n t) = Ok (len, Some it, pc_at bs2 (n + item_len n it) t)))"
proof (cases it)
  case (PBool v)
  then show ?thesis using bool.write_then_read[OF assms(1), where v=v and be=be and K=PBool and be'=be'] assms(3) by (auto simp: item_lens)
next
  case (PInt v)
  then show ?thesis using i32.write_then_read[OF assms(1), where v=v and be=be and K=PInt and be'=be'] assms(2,3) by (auto simp: item_lens)
next
  case (PUInt8 v)
  then show ?thesis using u8.write_then_read[OF assms(1), where v=v and be=be and K=PUInt8 and be'=be'] assms(3) by (auto simp: item_lens)
next
  case (PUInt32 v)
  then show ?thesis using u32.write_then_read[OF assms(1), where v=v and be=be and K=PUInt32 and be'=be'] assms(3) by (auto simp: item_lens)
next
  case (PInt64 v)
  then show ?thesis using i64.write_then_read[OF assms(1), where v=v and be=be and K=PInt64 and be'=be'] assms(2,3) by (auto simp: item_lens)
next
  case (PUInt64 v)
  then show ?thesis using u64.write_then_read[OF assms(1), where v=v and be=be and K=PUInt64 and be'=be'] assms(3) by (auto simp: item_lens)
next
  case (PDouble v)
  then show ?thesis using double.write_then_read[OF assms(1), where v=v and be=be and K=PDouble and be'=be'] assms(3) by (auto simp: item_lens)
next
  case (PBytes v)
  then have "GetVectorCharLen v \<noteq> 0" using assms(2) by simp
  note l = GetVectorCharLen_align[OF this]
  show ?thesis using bytes.write_then_read[OF assms(1) l(2), where be=be and K=PBytes and be'=be'] assms(3) PBytes by (auto simp: l(1))
next
  case (PString v)
  then have "GetStringLen v \<noteq> 0" using assms(2) by simp
  note l = GetStringLen_align[OF this]
  show ?thesis using str.write_then_read[OF assms(1) l(2), where be=be and K=PString and be'=be'] assms(3) PString by (auto simp: l(1))
next
  case PAlign
  have a: "align8 n \<le> t" using assms(3) PAlign align8_ge[of n] by simp
  then show ?thesis using PAlign assms(1) Align_at align8_ge[of n] by (intro exI[of _ bs]) (auto simp: Let_def pc_live_def)
qed

lemma write_item_full:
  assumes "pc_live bs n t" "item_valid it" "t < n + item_len n it"
  shows "write_item be it (pc_at bs n t) = Ok (E_PARSE_FAIL, pc_fail (pc_at bs n t))"
proof (cases it)
  case (PBytes v)
  then have "GetVectorCharLen v \<noteq> 0" using assms(2) by simp
  note l = GetVectorCharLen_align[OF this]
  show ?thesis using bytes.write_full[OF assms(1) l(2)] assms(3) PBytes by (simp add: l(1))
next
  case (PString v)
  then have "GetStringLen v \<noteq> 0" using assms(2) by simp
  note l = GetStringLen_align[OF this]
  show ?thesis using str.write_full[OF assms(1) l(2)] assms(3) PString by (simp add: l(1))
next
  case PAlign
  then show ?thesis using assms(1,3) Align_at align8_ge[of n] by (simp add: Let_def pc_fail_def)
qed (use assms bool.write_full[OF assms(1)] i32.write_full[OF assms(1)] u8.write_full[OF assms(1)] u32.write_full[OF assms(1)]
      i64.write_full[OF assms(1)] u64.write_full[OF assms(1)] double.write_full[OF assms(1)] in \<open>auto simp: item_lens\<close>)

lemma items_end_ge: "n \<le> items_end n its"
  by (induction n its rule: items_end.induct) (auto intro: order_trans[OF le_add1])

lemma write_items_ok:
  "pc_live bs n t \<Longrightarrow> \<forall>it \<in> set its. item_valid it \<Longrightarrow> items_end n its \<le> t \<Longrightarrow>
   \<exists>bs'. write_items be its (pc_at bs n t) = Ok (E_OK, pc_at bs' (items_end n its) t) \<and> take n bs' = take n bs \<and> length bs' = length bs \<and>
     (\<forall>bs2. pc_live bs2 n t \<longrightarrow> take (items_end n its) bs2 = take (items_end n its) bs' \<longrightarrow>
       read_items be' its (pc_at bs2 n t) = Ok (map Some its, pc_at bs2 (items_end n its) t))"
proof (induction its arbitrary: bs n)
  case (Cons it its)
  let ?m = "n + item_len n it"
  have m: "?m \<le> items_end ?m its" by (rule items_end_ge)
  then have mt: "?m \<le> t" using Cons.prems(3) by simp
  from write_item_ok[OF Cons.prems(1) _ mt, of be be'] Cons.prems(2) obtain b1 where b1:
    "write_item be it (pc_at bs n t) = Ok (E_OK, pc_at b1 ?m t)" "pc_live b1 ?m t" "take n b1 = take n bs" "length b1 = length bs"
    "\<And>bs2. pc_live bs2 n t \<Longrightarrow> take ?m bs2 = take ?m b1 \<Longrightarrow> \<exists>len. read_item be' it (pc_at bs2 n t) = Ok (len, Some it, pc_at bs2 ?m t)"
    by auto
  from Cons.IH[OF b1(2)] Cons.prems obtain b2 where b2:
    "write_items be its (pc_at b1 ?m t) = Ok (E_OK, pc_at b2 (items_end ?m its) t)" "take ?m b2 = take ?m b1" "length b2 = length b1"
    "\<And>bs2. pc_live bs2 ?m t \<Longrightarrow> take (items_end ?m its) bs2 = take (items_end ?m its) b2 \<Longrightarrow>
      read_items be' its (pc_at bs2 ?m t) = Ok (map Some its, pc_at bs2 (items_end ?m its) t)" by auto
  have "take n b2 = take n bs" using b2(2) b1(3) by (metis le_add1 min.absorb1 take_take)
  moreover have "read_items be' (it # its) (pc_at bs2 n t) = Ok (map Some (it # its), pc_at bs2 (items_end ?m its) t)"
    if l: "pc_live bs2 n t" and e: "take (items_end ?m its) bs2 = take (items_end ?m its) b2" for bs2
  proof -
    have "take ?m bs2 = take ?m b1" using e m b2(2) by (metis min.absorb1 take_take)
    moreover have "pc_live bs2 ?m t" using l mt by (simp add: pc_live_def)
    ultimately show ?thesis using b1(5)[OF l] b2(4) e by force
  qed
  ultimately show ?case using b1(1,4) b2(1,3) by auto
qed auto

lemma write_items_full:
  "pc_live bs n t \<Longrightarrow> \<forall>it \<in> set its. item_valid it \<Longrightarrow> t < items_end n its \<Longrightarrow>
   \<exists>p. write_items be its (pc_at bs n t) = Ok (E_PARSE_FAIL, p) \<and> pc_isError p"
proof (induction its arbitrary: bs n)
  case Nil
  then show ?case by (simp add: pc_live_def)
next
  case (Cons it its)
  show ?case
  proof (cases "n + item_len n it \<le> t")
    case True
    then obtain b1 where "write_item be it (pc_at bs n t) = Ok (E_OK, pc_at b1 (n + item_len n it) t)" "pc_live b1 (n + item_len n it) t"
      using write_item_ok[OF Cons.prems(1)] Cons.prems(2) by (meson list.set_intros(1))
    then show ?thesis using Cons.IH[of b1 "n + item_len n it"] Cons.prems by simp
  next
    case False
    then show ?thesis using write_item_full[OF Cons.prems(1), of it be] Cons.prems(2) by (simp add: pc_fail_def)
  qed
qed

text \<open>
  C26: A sequence of fields of any kinds (booleans, signed and unsigned integers, doubles, byte vectors, strings,
  alignments) written into a parcel is read back unchanged, on a host of either byte order; the
  writer moves over exactly the bytes that the length functions announce, and it succeeds
  exactly when the announced length fits into the buffer, otherwise the parcel reports an error.
\<close>

theorem parcel_roundtrip:
  assumes "\<forall>it \<in> set its. item_valid it" "len \<noteq> 0" "unat len \<le> length bs"
  shows "if items_end 0 its \<le> unat len
    then \<exists>p bs'. write_items be its (new_Parcel (Some bs) len) = Ok (E_OK, p) \<and> \<not> pc_isError p \<and> pc_buf p = Some bs' \<and>
      length bs' = length bs \<and> unat (pc_parcelLen p) = items_end 0 its \<and>
      read_items be' its (new_Parcel (Some bs') len) = Ok (map Some its, p)
    else \<exists>p. write_items be its (new_Parcel (Some bs) len) = Ok (E_PARSE_FAIL, p) \<and> pc_isError p"
proof (cases "items_end 0 its \<le> unat len")
  case True
  note l = new_Parcel_live[OF assms(3)] and a = new_Parcel_at[OF assms(2)]
  from write_items_ok[OF l assms(1) True, of be be'] obtain b where b:
    "write_items be its (pc_at bs 0 (unat len)) = Ok (E_OK, pc_at b (items_end 0 its) (unat len))" "length b = length bs"
    "pc_live b 0 (unat len) \<Longrightarrow> read_items be' its (pc_at b 0 (unat len)) = Ok (map Some its, pc_at b (items_end 0 its) (unat len))" by blast
  have "items_end 0 its < 18446744073709551616" using True unat_u32_lt[of len] by linarith
  moreover have "pc_live b 0 (unat len)" using l b(2) by (simp add: pc_live_def)
  ultimately show ?thesis using True b by (simp add: a unat_of_nat64)
next
  case False
  then show ?thesis using write_items_full[OF new_Parcel_live[OF assms(3)] assms(1)] by (simp add: new_Parcel_at[OF assms(2)])
qed

section \<open>Arbitrary use of a parcel\<close>

datatype parcel_op = OWrite parcel_item | ORead parcel_item | OWriteBlob "byte list option" u32 | OReadBlob "byte list option" u32

fun pc_op :: "bool \<Rightarrow> parcel_op \<Rightarrow> parcel \<Rightarrow> parcel res" where
  "pc_op be (OWrite it) p = res_bind (write_item be it p) (\<lambda>(_, p'). Ok p')"
| "pc_op be (ORead it) p = res_bind (read_item be it p) (\<lambda>(_, _, p'). Ok p')"
| "pc_op be (OWriteBlob src n) p = res_bind (WriteBlob src n p) (\<lambda>(_, p'). Ok p')"
| "pc_op be (OReadBlob dst n) p = res_bind (ReadBlob dst n p) (\<lambda>(_, _, p'). Ok p')"

fun pc_ops :: "bool \<Rightarrow> parcel_op list \<Rightarrow> parcel \<Rightarrow> parcel res" where
  "pc_ops be [] p = Ok p"
| "pc_ops be (o1 # ops) p = res_bind (pc_op be o1 p) (pc_ops be ops)"

text \<open>The buffers a caller passes to the blob operations have the length it says.\<close>

fun op_fits :: "parcel_op \<Rightarrow> bool" where
  "op_fits (OWriteBlob (Some src) n) = (unat n \<le> length src)"
| "op_fits (OReadBlob (Some dst) n) = (unat n \<le> length dst)"
| "op_fits _ = True"

lemma error_items: "pc_isError p \<Longrightarrow> \<exists>e d l. write_item be it p = Ok (e, p) \<and> read_item be it p = Ok (l, d, p)"
  by (cases it) (auto simp: WriteBool_def WriteUInt8_def WriteUInt32_def WriteUInt64_def WriteInt_def WriteInt64_def WriteInteger_def WriteDouble_def
    WriteVectorChar_def WriteVector_def WriteString_def ReadBool_def ReadUInt8_def ReadUInt32_def ReadUInt64_def ReadInt_def ReadInt64_def ReadInteger_def
    ReadDouble_def ReadVectorChar_def ReadVector_def ReadString_def EightByteAlign_def pc_fail_id map_value_def Let_def)

lemma large_fields:
  assumes "pc_live bs n t"
  shows "\<not> vector_step (xs :: byte list) \<le> 2147483647 \<Longrightarrow> WriteVectorChar be xs (pc_at bs n t) = Ok (E_PARSE_FAIL, pc_fail (pc_at bs n t))"
    "\<not> 4 + length s \<le> 2147483647 \<Longrightarrow> WriteString be s (pc_at bs n t) = Ok (E_PARSE_FAIL, pc_fail (pc_at bs n t))"
proof -
  assume v: "\<not> vector_step xs \<le> 2147483647"
  show "WriteVectorChar be xs (pc_at bs n t) = Ok (E_PARSE_FAIL, pc_fail (pc_at bs n t))"
  proof (cases "length xs > 2147483647")
    case False
    then have "vector_step xs < 18446744073709551616" by (simp add: vector_step_def)
    then have "(2147483647 :: u64) < of_nat (vector_step xs)" using v by (simp add: u64_gt_max)
    then show ?thesis using False unfolding WriteVectorChar_def WriteVector_def of_nat_step by (simp add: Let_def)
  qed (simp add: WriteVectorChar_def WriteVector_def)
next
  assume v: "\<not> 4 + length s \<le> 2147483647"
  show "WriteString be s (pc_at bs n t) = Ok (E_PARSE_FAIL, pc_fail (pc_at bs n t))"
  proof (cases "length s > 2147483647")
    case False
    have "(4 + of_nat (length s) :: u64) = of_nat (4 + length s)" by simp
    moreover have "(2147483647 :: u64) < of_nat (4 + length s)" using v False u64_gt_max[of "4 + length s"] by linarith
    ultimately have "(2147483647 :: u64) < 4 + of_nat (length s)" by simp
    then show ?thesis using False by (simp add: WriteString_def Let_def)
  qed (simp add: WriteString_def)
qed

lemma write_item_within:
  assumes w: "pc_within m t p"
  shows "\<exists>e p'. write_item be it p = Ok (e, p') \<and> pc_within m t p'"
proof (cases rule: pc_withinE[OF w])
  case (1 bs n)
  note f = pc_withinI(2)[OF 1(2,3)]
  show ?thesis
  proof (cases it)
    case (PInt v)
    then show ?thesis using parcel_field.write_within[OF integer_field[where 'a=32] w] by (simp add: WriteInt_def)
  next
    case (PInt64 v)
    then show ?thesis using parcel_field.write_within[OF integer_field[where 'a=64] w] by (simp add: WriteInt64_def)
  next
    case (PBytes v)
    then show ?thesis using bytes.write_within[OF w, of v] large_fields(1)[OF 1(2), of v be] f 1(1)
      by (cases "vector_step v \<le> 2147483647") auto
  next
    case (PString v)
    then show ?thesis using str.write_within[OF w, of v] large_fields(2)[OF 1(2), of v be] f 1(1)
      by (cases "4 + length v \<le> 2147483647") auto
  next
    case PAlign
    have "pc_live bs (align8 n) t" if "align8 n \<le> t" using that 1(2) by (simp add: pc_live_def)
    then show ?thesis using PAlign Align_at[OF 1(2)] 1 f pc_withinI(1)[of bs "align8 n" t m] by (auto simp: Let_def)
  qed (use bool.write_within[OF w] u8.write_within[OF w] u32.write_within[OF w] u64.write_within[OF w] double.write_within[OF w] in auto)
next
  case 2
  then show ?thesis using error_items[of p be it] by blast
qed

lemma map_value_within:
  "\<exists>r d p'. m = Ok (r, d, p') \<and> pc_within k t p' \<Longrightarrow> \<exists>r d p'. map_value K m = Ok (r, d, p') \<and> pc_within k t p'"
  by (auto simp: map_value_def)

lemma read_item_within:
  assumes w: "pc_within m t p"
  shows "\<exists>l d p'. read_item be it p = Ok (l, d, p') \<and> pc_within m t p'"
proof (cases it)
  case PAlign
  then show ?thesis using write_item_within[OF w, of be PAlign] by (auto simp: Let_def)
qed (use bool.read_within[OF w] i32.read_within[OF w] u8.read_within[OF w] u32.read_within[OF w] i64.read_within[OF w] u64.read_within[OF w]
       double.read_within[OF w] bytes.read_within[OF w] str.read_within[OF w] in \<open>auto intro!: map_value_within\<close>)

lemma blob_step_le: "unat (blob_step n l) \<le> unat l"
  by (simp add: blob_step_def word_less_nat_alt)

lemma blob_room:
  assumes "pc_live bs n t"
  shows "(of_nat t < of_nat n + (ucast (k :: u32) :: u64)) \<longleftrightarrow> t < n + unat k"
    "unat (ucast (of_nat t - of_nat n :: u64) :: u32) = t - n"
proof -
  show "(of_nat t < of_nat n + (ucast k :: u64)) \<longleftrightarrow> t < n + unat k"
    unfolding ucast_u64_nat by (rule u64_cmp[OF assms]) (rule less_trans[OF unat_u32_lt], simp)
  have "t - n < 2 ^ 32" using assms by (simp add: pc_live_def) linarith
  have "(of_nat t - of_nat n :: u64) = of_nat (t - n)" using assms by (simp add: pc_live_def of_nat_diff)
  then show "unat (ucast (of_nat t - of_nat n :: u64) :: u32) = t - n"
    using \<open>t - n < 2 ^ 32\<close> ucast_of_nat64[of "t - n"] unat_of_nat32[of "t - n"] by simp
qed

lemma blob_within:
  assumes w: "pc_within m t p"
  shows "op_fits (OWriteBlob b k) \<Longrightarrow> \<exists>e p'. WriteBlob b k p = Ok (e, p') \<and> pc_within m t p'"
    "op_fits (OReadBlob b k) \<Longrightarrow> \<exists>l d p'. ReadBlob b k p = Ok (l, d, p') \<and> pc_within m t p'"
proof -
  have fail: "pc_within m t (pc_fail p)"
    by (cases rule: pc_withinE[OF w]) (use pc_withinI(2) in \<open>auto simp: pc_fail_id\<close>)
  show "\<exists>e p'. WriteBlob b k p = Ok (e, p') \<and> pc_within m t p'" if f: "op_fits (OWriteBlob b k)"
  proof (cases b)
    case (Some src)
    show ?thesis
    proof (cases rule: pc_withinE[OF w])
      case (1 bs n)
      let ?l = "ucast (of_nat t - of_nat n :: u64) :: u32"
      let ?d = "take (unat k) src"
      have "n + unat (blob_step k ?l) \<le> t" using blob_step_le[of k ?l] blob_room(2)[OF 1(2)] 1(2) unfolding pc_live_def by linarith
      then have "pc_live (overwrite bs n ?d) (n + unat (blob_step k ?l)) t \<and> length (overwrite bs n ?d) = m" if "n + unat k \<le> t"
        using 1 that f Some by (simp add: pc_live_def)
      moreover have "pc_put 0 (ucast ?l) ?d (pc_at bs n t) = Ok (pc_at (overwrite bs n ?d) n t)" if "n + unat k \<le> t"
        unfolding ucast_u64_nat blob_room(2)[OF 1(2)]
        using pc_put_at[OF 1(2), of 0 ?d "t - n"] that f Some 1(2) by (auto simp: pc_live_def simp del: of_nat_diff)
      moreover have "pc_advance (ucast (blob_step k ?l)) (pc_at (overwrite bs n ?d) n t) = pc_at (overwrite bs n ?d) (n + unat (blob_step k ?l)) t"
        unfolding ucast_u64_nat by (rule pc_advance_at) (rule less_trans[OF unat_u32_lt], simp)
      ultimately show ?thesis using Some 1 f fail blob_room(1)[OF 1(2), of k]
        by (cases "n + unat k \<le> t") (auto simp: WriteBlob_def Let_def read_at_def intro: pc_withinI(1))
    qed (use Some w in \<open>auto simp: WriteBlob_def\<close>)
  qed (use fail in \<open>simp add: WriteBlob_def\<close>)
  show "\<exists>l d p'. ReadBlob b k p = Ok (l, d, p') \<and> pc_within m t p'" if f: "op_fits (OReadBlob b k)"
  proof (cases b)
    case (Some dst)
    show ?thesis
    proof (cases rule: pc_withinE[OF w])
      case (1 bs n)
      let ?l = "ucast (of_nat t - of_nat n :: u64) :: u32"
      have "n + unat (blob_step k ?l) \<le> t" using blob_step_le[of k ?l] blob_room(2)[OF 1(2)] 1(2) unfolding pc_live_def by linarith
      then have "pc_live bs (n + unat (blob_step k ?l)) t" using 1(2) by (simp add: pc_live_def)
      moreover have "pc_advance (ucast (blob_step k ?l)) (pc_at bs n t) = pc_at bs (n + unat (blob_step k ?l)) t"
        unfolding ucast_u64_nat by (rule pc_advance_at) (rule less_trans[OF unat_u32_lt], simp)
      moreover have "pc_get 0 (unat k) (pc_at bs n t) = Ok (take (unat k) (drop n bs))" if "n + unat k \<le> t"
        using pc_get_at[OF 1(2), of 0 "unat k"] that by simp
      moreover have "length (take (unat k) (drop n bs)) \<le> unat k" by simp
      ultimately show ?thesis using Some 1 f fail blob_room(1)[OF 1(2), of k]
        by (cases "n + unat k \<le> t") (auto simp: ReadBlob_def Let_def memcpy_s_def write_at_def intro!: pc_withinI(1))
    qed (use Some w in \<open>auto simp: ReadBlob_def\<close>)
  qed (use fail in \<open>simp add: ReadBlob_def\<close>)
qed

lemma pc_op_within:
  assumes "pc_within m t p" "op_fits o1"
  shows "\<exists>p'. pc_op be o1 p = Ok p' \<and> pc_within m t p'"
proof (cases o1)
  case (OWrite it)
  then show ?thesis using write_item_within[OF assms(1), of be it] by auto
next
  case (ORead it)
  then show ?thesis using read_item_within[OF assms(1), of be it] by auto
next
  case (OWriteBlob b k)
  then show ?thesis using blob_within(1)[OF assms(1), of b k] assms(2) by auto
next
  case (OReadBlob b k)
  then show ?thesis using blob_within(2)[OF assms(1), of b k] assms(2) by auto
qed

lemma pc_ops_within: "pc_within m t p \<Longrightarrow> \<forall>o1 \<in> set ops. op_fits o1 \<Longrightarrow> \<exists>p'. pc_ops be ops p = Ok p' \<and> pc_within m t p'"
proof (induction ops arbitrary: p)
  case (Cons o1 ops)
  then obtain p' where "pc_op be o1 p = Ok p'" "pc_within m t p'" using pc_op_within[of m t p o1 be] by auto
  then show ?case using Cons.IH[of p'] Cons.prems(2) by simp
qed simp


section \<open>Witnesses\<close>

definition sample_items :: "parcel_item list" where
  "sample_items = [PUInt32 101, PString ''ab'', PAlign, PInt64 (- 3), PBool True, PBytes [1, 2]]"

lemma sample_items_facts: "\<forall>it \<in> set sample_items. item_valid it" "items_end 0 sample_items = 33"
  by (simp_all add: sample_items_def GetStringLen_def GetVectorCharLen_def GetVectorLen_def BYTE_8_ALIGN_def item_lens in_range_def align8_def)

theorem parcel_roundtrip_witness:
  "\<exists>p bs'. write_items False sample_items (new_Parcel (Some (replicate 40 0)) 40) = Ok (E_OK, p) \<and> pc_buf p = Some bs' \<and>
    unat (pc_parcelLen p) = 33 \<and> read_items True sample_items (new_Parcel (Some bs') 40) = Ok (map Some sample_items, p)"
  using parcel_roundtrip[OF sample_items_facts(1), of 40 "replicate 40 0" False True] sample_items_facts(2) by auto


end
