(* ===== verification/Meta_Data.thy ===== *)
theory Meta_Data
  imports Parcel Ordered_Map "HOL-Library.Product_Lexorder"
begin

text \<open>
  \<^verbatim>\<open>Metadata\<close> (\<^verbatim>\<open>syncer/src/device/meta_data.cpp\<close>): what the syncer remembers about each remote device and
  user (time offsets, water marks, marks of finished negotiations) and about the local store.
  The values are stored as key-value pairs by the storage, through the interface \<^verbatim>\<open>ISyncInterface\<close>: here a map from keys
  to values, where every access may fail with an error that the environment chooses.  The hash of device
  names, the clock and the monitor of time changes are parameters of the environment as well.
  Every operation runs under \<^verbatim>\<open>metadataLock_\<close>.  The water marks of queries are kept by \<^verbatim>\<open>QuerySyncWaterMarkHelper\<close> and not part of this theory.
\<close>

section \<open>State\<close>

record MetaDataValue =
  mv_timeOffset :: int
  mv_lastUpdateTime :: u64
  mv_localWaterMark :: u64
  mv_peerWaterMark :: u64
  mv_dbCreateTime :: u64
  mv_clearDeviceDataMark :: u64
  mv_syncMark :: u64
  mv_remoteSchemaVersion :: u64
  mv_systemTimeOffset :: int
  mv_remoteSoftwareVersion :: u64

definition new_MetaDataValue :: MetaDataValue where
  "new_MetaDataValue =
     \<lparr>mv_timeOffset = 0, mv_lastUpdateTime = 0, mv_localWaterMark = 0, mv_peerWaterMark = 0, mv_dbCreateTime = 0,
      mv_clearDeviceDataMark = 0, mv_syncMark = 0, mv_remoteSchemaVersion = 0, mv_systemTimeOffset = 0,
      mv_remoteSoftwareVersion = 0\<rparr>"

definition wf_meta :: "MetaDataValue \<Rightarrow> bool" where
  "wf_meta v \<longleftrightarrow> in_range 64 (mv_timeOffset v) \<and> in_range 64 (mv_systemTimeOffset v)"

record LocalMetaData =
  lm_version :: u32
  lm_localSchemaVersion :: u64

definition LOCAL_META_DATA_VERSION_V2 :: u32 where "LOCAL_META_DATA_VERSION_V2 = 109"

definition new_LocalMetaData :: LocalMetaData where
  "new_LocalMetaData = \<lparr>lm_version = LOCAL_META_DATA_VERSION_V2, lm_localSchemaVersion = 0\<rparr>"

datatype SyncMark = SYNC_MARK_ABILITY_SYNC | SYNC_MARK_TIME_SYNC | SYNC_MARK_TIME_CHANGE

fun mark_val :: "SyncMark \<Rightarrow> u64" where
  "mark_val SYNC_MARK_ABILITY_SYNC = 0x01"
| "mark_val SYNC_MARK_TIME_SYNC = 0x02"
| "mark_val SYNC_MARK_TIME_CHANGE = 0x04"

type_synonym meta_key = "byte list"

record metadata =
  md_hasStorage :: bool
  md_store :: "(meta_key, byte list) omap"
  md_localTimeOffset :: int
  md_hashIds :: "(string \<times> string, string) omap"
  md_lastLocalTime :: u64
  md_queryIds :: "(string, string list) omap"
  md_clientIds :: "(string, string) omap"

definition new_Metadata :: metadata where
  "new_Metadata = \<lparr>md_hasStorage = False, md_store = [], md_localTimeOffset = 0, md_hashIds = [], md_lastLocalTime = 0,
     md_queryIds = [], md_clientIds = []\<rparr>"

record meta_env =
  me_be :: bool
  me_hash :: "string \<Rightarrow> string"
  me_getErr :: "meta_key \<Rightarrow> errcode"
  me_putErr :: "meta_key \<Rightarrow> errcode"
  me_keysErr :: errcode
  me_timeChanged :: bool
  me_sysTime :: u64
  me_rawTime :: "u64 option"

section \<open>The storage\<close>

definition GetMetadataFromDb :: "meta_env \<Rightarrow> meta_key \<Rightarrow> metadata \<Rightarrow> errcode \<times> byte list" where
  "GetMetadataFromDb env key md =
     (if \<not> md_hasStorage md then (E_INVALID_DB, [])
      else if me_getErr env key \<noteq> E_OK then (me_getErr env key, [])
      else case om_find (md_store md) key of None \<Rightarrow> (E_NOT_FOUND, []) | Some v \<Rightarrow> (E_OK, v))"

definition SetMetadataToDb :: "meta_env \<Rightarrow> meta_key \<Rightarrow> byte list \<Rightarrow> metadata \<Rightarrow> errcode \<times> metadata" where
  "SetMetadataToDb env key value md =
     (if \<not> md_hasStorage md then (E_INVALID_DB, md)
      else if me_putErr env key \<noteq> E_OK then (me_putErr env key, md)
      else (E_OK, md\<lparr>md_store := om_insert key value (md_store md)\<rparr>))"

definition GetAllMetadataKey :: "meta_env \<Rightarrow> metadata \<Rightarrow> errcode \<times> meta_key list" where
  "GetAllMetadataKey env md =
     (if \<not> md_hasStorage md then (E_INVALID_DB, [])
      else if me_keysErr env \<noteq> E_OK then (me_keysErr env, []) else (E_OK, map fst (md_store md)))"

definition is_prefix_key :: "meta_key \<Rightarrow> meta_key \<Rightarrow> bool" where
  "is_prefix_key pre key \<longleftrightarrow> take (length pre) key = pre"

definition GetMetadataFromDbByPrefixKey :: "meta_env \<Rightarrow> meta_key \<Rightarrow> metadata \<Rightarrow> errcode \<times> (meta_key, byte list) omap" where
  "GetMetadataFromDbByPrefixKey env keyPrefix md =
     (if \<not> md_hasStorage md then (E_INVALID_DB, [])
      else if me_getErr env keyPrefix \<noteq> E_OK then (me_getErr env keyPrefix, [])
      else let data = filter (\<lambda>(k, v). is_prefix_key keyPrefix k) (md_store md)
           in if data = [] then (E_NOT_FOUND, []) else (E_OK, data))"

section \<open>Images of values\<close>

text \<open>\<^verbatim>\<open>sizeof(MetaDataValue)\<close> and the memory image that \<^verbatim>\<open>memcpy_s\<close> copies; ten members of eight bytes without padding.\<close>

definition SIZEOF_META :: nat where "SIZEOF_META = 80"

definition meta_words :: "MetaDataValue \<Rightarrow> u64 list" where
  "meta_words v = [word_of_int (mv_timeOffset v), mv_lastUpdateTime v, mv_localWaterMark v, mv_peerWaterMark v, mv_dbCreateTime v,
     mv_clearDeviceDataMark v, mv_syncMark v, mv_remoteSchemaVersion v, word_of_int (mv_systemTimeOffset v), mv_remoteSoftwareVersion v]"

definition meta_image :: "bool \<Rightarrow> MetaDataValue \<Rightarrow> byte list" where
  "meta_image be v = concat (map (store_word be) (meta_words v))"

definition word_at :: "bool \<Rightarrow> byte list \<Rightarrow> nat \<Rightarrow> u64" where
  "word_at be bs i = load_word be (take 8 (drop (8 * i) bs))"

definition meta_load :: "bool \<Rightarrow> byte list \<Rightarrow> MetaDataValue" where
  "meta_load be bs =
     \<lparr>mv_timeOffset = sint (word_at be bs 0), mv_lastUpdateTime = word_at be bs 1, mv_localWaterMark = word_at be bs 2,
      mv_peerWaterMark = word_at be bs 3, mv_dbCreateTime = word_at be bs 4, mv_clearDeviceDataMark = word_at be bs 5,
      mv_syncMark = word_at be bs 6, mv_remoteSchemaVersion = word_at be bs 7, mv_systemTimeOffset = sint (word_at be bs 8),
      mv_remoteSoftwareVersion = word_at be bs 9\<rparr>"

definition SerializeMetaData :: "bool \<Rightarrow> MetaDataValue \<Rightarrow> byte list" where
  "SerializeMetaData be inValue = meta_image be inValue"

definition DeSerializeMetaData :: "bool \<Rightarrow> byte list \<Rightarrow> MetaDataValue \<Rightarrow> errcode \<times> MetaDataValue" where
  "DeSerializeMetaData be inValue outValue =
     (if inValue = [] then (E_INVALID_ARGS, outValue)
      else case memcpy_s (meta_image be outValue) 0 SIZEOF_META inValue of
             Ok bs \<Rightarrow> (E_OK, meta_load be bs)
           | _ \<Rightarrow> (E_SECUREC_ERROR, outValue))"

section \<open>One device\<close>

definition DEVICEID_PREFIX_KEY :: string where "DEVICEID_PREFIX_KEY = ''deviceId''"
definition USERID_PREFIX_KEY :: string where "USERID_PREFIX_KEY = ''userId''"

definition device_key :: "string \<Rightarrow> string \<Rightarrow> string" where
  "device_key dev user = DEVICEID_PREFIX_KEY @ dev @ USERID_PREFIX_KEY @ user"

definition GetHashDeviceId :: "meta_env \<Rightarrow> string \<Rightarrow> string \<Rightarrow> bool \<Rightarrow> metadata \<Rightarrow> string \<times> metadata" where
  "GetHashDeviceId env deviceId userId isNeedHash md =
     (if \<not> isNeedHash then (device_key deviceId userId, md)
      else case om_find (md_hashIds md) (deviceId, userId) of
             None \<Rightarrow> let h = device_key (me_hash env deviceId) userId
                     in (h, md\<lparr>md_hashIds := om_insert (deviceId, userId) h (md_hashIds md)\<rparr>)
           | Some h \<Rightarrow> (h, md))"

definition GetMetaDataValueFromDB_key :: "meta_env \<Rightarrow> meta_key \<Rightarrow> MetaDataValue \<Rightarrow> metadata \<Rightarrow> errcode \<times> MetaDataValue" where
  "GetMetaDataValueFromDB_key env key out md =
     (let (errCode, value) = GetMetadataFromDb env key md
      in if errCode \<noteq> E_OK then (errCode, out) else DeSerializeMetaData (me_be env) value out)"

definition GetMetaDataValueFromDB :: "meta_env \<Rightarrow> string \<Rightarrow> string \<Rightarrow> bool \<Rightarrow> MetaDataValue \<Rightarrow> metadata \<Rightarrow> errcode \<times> MetaDataValue \<times> metadata" where
  "GetMetaDataValueFromDB env deviceId userId isNeedHash out md =
     (let (h, md1) = GetHashDeviceId env deviceId userId isNeedHash md;
          (errCode, v) = GetMetaDataValueFromDB_key env (str_bytes h) out md1
      in (errCode, v, md1))"

definition GetMetaDataValue :: "meta_env \<Rightarrow> string \<Rightarrow> string \<Rightarrow> bool \<Rightarrow> metadata \<Rightarrow> errcode \<times> MetaDataValue \<times> metadata" where
  "GetMetaDataValue env deviceId userId isNeedHash md =
     (let (errCode, v, md1) = GetMetaDataValueFromDB env deviceId userId isNeedHash new_MetaDataValue md
      in (errCode,
          if errCode = E_NOT_FOUND \<and> me_timeChanged env
          then new_MetaDataValue\<lparr>mv_syncMark := mark_val SYNC_MARK_TIME_CHANGE\<rparr> else v, md1))"

definition SaveMetaDataValue :: "meta_env \<Rightarrow> string \<Rightarrow> string \<Rightarrow> MetaDataValue \<Rightarrow> bool \<Rightarrow> metadata \<Rightarrow> errcode \<times> metadata" where
  "SaveMetaDataValue env deviceId userId inValue isNeedHash md =
     (let (h, md1) = GetHashDeviceId env deviceId userId isNeedHash md
      in SetMetadataToDb env (str_bytes h) (SerializeMetaData (me_be env) inValue) md1)"

text \<open>Reading, changing and writing back, whatever the read has returned.\<close>

definition modify_meta :: "meta_env \<Rightarrow> string \<Rightarrow> string \<Rightarrow> (MetaDataValue \<Rightarrow> MetaDataValue) \<Rightarrow> metadata \<Rightarrow> errcode \<times> metadata" where
  "modify_meta env deviceId userId f md =
     (let (_, v, md1) = GetMetaDataValue env deviceId userId True md in SaveMetaDataValue env deviceId userId (f v) True md1)"

section \<open>The operations\<close>

definition SaveTimeOffset :: "meta_env \<Rightarrow> string \<Rightarrow> string \<Rightarrow> int \<Rightarrow> metadata \<Rightarrow> errcode \<times> metadata" where
  "SaveTimeOffset env deviceId userId inValue =
     modify_meta env deviceId userId (\<lambda>v. v\<lparr>mv_timeOffset := inValue, mv_lastUpdateTime := me_sysTime env\<rparr>)"

definition read_meta :: "meta_env \<Rightarrow> string \<Rightarrow> string \<Rightarrow> bool \<Rightarrow> (MetaDataValue \<Rightarrow> 'a) \<Rightarrow> metadata \<Rightarrow> 'a \<times> metadata" where
  "read_meta env deviceId userId isNeedHash g md =
     (let (_, v, md1) = GetMetaDataValue env deviceId userId isNeedHash md in (g v, md1))"

definition GetTimeOffset :: "meta_env \<Rightarrow> string \<Rightarrow> string \<Rightarrow> metadata \<Rightarrow> int \<times> metadata" where
  "GetTimeOffset env deviceId userId = read_meta env deviceId userId True mv_timeOffset"

definition GetLocalWaterMark :: "meta_env \<Rightarrow> string \<Rightarrow> string \<Rightarrow> metadata \<Rightarrow> u64 \<times> metadata" where
  "GetLocalWaterMark env deviceId userId = read_meta env deviceId userId True mv_localWaterMark"

definition SaveLocalWaterMark :: "meta_env \<Rightarrow> string \<Rightarrow> string \<Rightarrow> u64 \<Rightarrow> metadata \<Rightarrow> errcode \<times> metadata" where
  "SaveLocalWaterMark env deviceId userId inValue = modify_meta env deviceId userId (mv_localWaterMark_update (\<lambda>_. inValue))"

definition GetPeerWaterMark :: "meta_env \<Rightarrow> string \<Rightarrow> string \<Rightarrow> bool \<Rightarrow> metadata \<Rightarrow> u64 \<times> metadata" where
  "GetPeerWaterMark env deviceId userId isNeedHash = read_meta env deviceId userId isNeedHash mv_peerWaterMark"

fun load_all :: "bool \<Rightarrow> (meta_key, byte list) omap \<Rightarrow> (errcode, (meta_key, MetaDataValue) omap) sum" where
  "load_all be [] = Inr []"
| "load_all be ((k, bs) # kvs) =
     (case DeSerializeMetaData be bs new_MetaDataValue of
        (errCode, v) \<Rightarrow> if errCode \<noteq> E_OK then Inl errCode
                        else case load_all be kvs of Inl e \<Rightarrow> Inl e | Inr r \<Rightarrow> Inr ((k, v) # r))"

definition GetMetaDataFromDBByPrefixKey ::
    "meta_env \<Rightarrow> string \<Rightarrow> bool \<Rightarrow> metadata \<Rightarrow> (errcode, (meta_key, MetaDataValue) omap) sum \<times> metadata" where
  "GetMetaDataFromDBByPrefixKey env deviceId isNeedHash md =
     (let (h, md1) = GetHashDeviceId env deviceId [] isNeedHash md; keyPrefix = str_bytes h;
          (errCode, data) = GetMetadataFromDbByPrefixKey env keyPrefix md1
      in (if errCode = E_NOT_FOUND then Inr [(keyPrefix, new_MetaDataValue)]
          else if errCode \<noteq> E_OK then Inl errCode else load_all (me_be env) data, md1))"

fun save_peer :: "meta_env \<Rightarrow> u64 \<Rightarrow> (meta_key, MetaDataValue) omap \<Rightarrow> metadata \<Rightarrow> errcode \<times> metadata" where
  "save_peer env inValue [] md = (E_OK, md)"
| "save_peer env inValue ((k, v) # kvs) md =
     (let (errCode, md1) = SetMetadataToDb env k (SerializeMetaData (me_be env) (v\<lparr>mv_peerWaterMark := inValue\<rparr>)) md
      in if errCode \<noteq> E_OK then (errCode, md1) else save_peer env inValue kvs md1)"

definition SavePeerWaterMark :: "meta_env \<Rightarrow> string \<Rightarrow> string \<Rightarrow> u64 \<Rightarrow> bool \<Rightarrow> metadata \<Rightarrow> errcode \<times> metadata" where
  "SavePeerWaterMark env deviceId userId inValue isNeedHash md =
     (if userId \<noteq> []
      then let (_, v, md1) = GetMetaDataValue env deviceId userId isNeedHash md;
               (h, md2) = GetHashDeviceId env deviceId userId isNeedHash md1
           in save_peer env inValue [(str_bytes h, v)] md2
      else case GetMetaDataFromDBByPrefixKey env deviceId isNeedHash md of
             (Inl errCode, md1) \<Rightarrow> (errCode, md1)
           | (Inr metadata, md1) \<Rightarrow> save_peer env inValue metadata md1)"

definition REMOVE_DEVICE_DATA_MARK :: u64 where "REMOVE_DEVICE_DATA_MARK = 1"

definition GetDbCreateTime :: "meta_env \<Rightarrow> string \<Rightarrow> string \<Rightarrow> metadata \<Rightarrow> u64 \<times> metadata" where
  "GetDbCreateTime env deviceId userId md =
     (let (errCode, v, md1) = GetMetaDataValue env deviceId userId True md
      in (if errCode = E_OK then mv_dbCreateTime v else 0, md1))"

definition SetDbCreateTime :: "meta_env \<Rightarrow> string \<Rightarrow> string \<Rightarrow> u64 \<Rightarrow> bool \<Rightarrow> metadata \<Rightarrow> errcode \<times> metadata" where
  "SetDbCreateTime env deviceId userId inValue isNeedHash md =
     (let (errCode, v, md1) = GetMetaDataValue env deviceId userId isNeedHash md
      in if errCode \<noteq> E_OK \<and> errCode \<noteq> E_NOT_FOUND then (errCode, md1)
         else let v1 = (if errCode = E_OK \<and> mv_dbCreateTime v \<noteq> 0 \<and> mv_dbCreateTime v \<noteq> inValue
                        then v\<lparr>mv_clearDeviceDataMark := REMOVE_DEVICE_DATA_MARK\<rparr> else v)
              in SaveMetaDataValue env deviceId userId (v1\<lparr>mv_dbCreateTime := inValue\<rparr>) isNeedHash md1)"

definition ResetMetaDataAfterRemoveData :: "meta_env \<Rightarrow> string \<Rightarrow> string \<Rightarrow> metadata \<Rightarrow> errcode \<times> metadata" where
  "ResetMetaDataAfterRemoveData env deviceId userId md =
     (let (errCode, v, md1) = GetMetaDataValue env deviceId userId True md
      in if errCode = E_OK then SaveMetaDataValue env deviceId userId (v\<lparr>mv_clearDeviceDataMark := 0\<rparr>) True md1
         else (errCode, md1))"

definition GetRemoveDataMark :: "meta_env \<Rightarrow> string \<Rightarrow> string \<Rightarrow> metadata \<Rightarrow> u64 \<times> metadata" where
  "GetRemoveDataMark env deviceId userId md =
     (let (errCode, v, md1) = GetMetaDataValue env deviceId userId True md
      in (if errCode = E_OK then mv_clearDeviceDataMark v else 0, md1))"

definition EraseBit :: "u64 \<Rightarrow> u64 \<Rightarrow> u64" where
  "EraseBit origin eraseBit = origin AND NOT eraseBit"

definition SetSyncMark :: "meta_env \<Rightarrow> string \<Rightarrow> string \<Rightarrow> SyncMark \<Rightarrow> bool \<Rightarrow> metadata \<Rightarrow> errcode \<times> metadata" where
  "SetSyncMark env deviceId userId syncMark finish =
     modify_meta env deviceId userId
       (mv_syncMark_update (\<lambda>m. if finish then m OR mark_val syncMark else EraseBit m (mark_val syncMark)))"

definition IsContainSyncMark :: "meta_env \<Rightarrow> string \<Rightarrow> string \<Rightarrow> SyncMark \<Rightarrow> metadata \<Rightarrow> bool \<times> metadata" where
  "IsContainSyncMark env deviceId userId syncMark =
     read_meta env deviceId userId True (\<lambda>v. mv_syncMark v AND mark_val syncMark = mark_val syncMark)"

definition SetAbilitySyncFinishMark :: "meta_env \<Rightarrow> string \<Rightarrow> string \<Rightarrow> bool \<Rightarrow> metadata \<Rightarrow> errcode \<times> metadata" where
  "SetAbilitySyncFinishMark env d u finish = SetSyncMark env d u SYNC_MARK_ABILITY_SYNC finish"
definition IsAbilitySyncFinish :: "meta_env \<Rightarrow> string \<Rightarrow> string \<Rightarrow> metadata \<Rightarrow> bool \<times> metadata" where
  "IsAbilitySyncFinish env d u = IsContainSyncMark env d u SYNC_MARK_ABILITY_SYNC"
definition SetTimeSyncFinishMark :: "meta_env \<Rightarrow> string \<Rightarrow> string \<Rightarrow> bool \<Rightarrow> metadata \<Rightarrow> errcode \<times> metadata" where
  "SetTimeSyncFinishMark env d u finish = SetSyncMark env d u SYNC_MARK_TIME_SYNC finish"
definition IsTimeSyncFinish :: "meta_env \<Rightarrow> string \<Rightarrow> string \<Rightarrow> metadata \<Rightarrow> bool \<times> metadata" where
  "IsTimeSyncFinish env d u = IsContainSyncMark env d u SYNC_MARK_TIME_SYNC"
definition SetTimeChangeMark :: "meta_env \<Rightarrow> string \<Rightarrow> string \<Rightarrow> bool \<Rightarrow> metadata \<Rightarrow> errcode \<times> metadata" where
  "SetTimeChangeMark env d u change = SetSyncMark env d u SYNC_MARK_TIME_CHANGE change"
definition IsTimeChange :: "meta_env \<Rightarrow> string \<Rightarrow> string \<Rightarrow> metadata \<Rightarrow> bool \<times> metadata" where
  "IsTimeChange env d u = IsContainSyncMark env d u SYNC_MARK_TIME_CHANGE"

definition SetRemoteSchemaVersion :: "meta_env \<Rightarrow> string \<Rightarrow> string \<Rightarrow> u64 \<Rightarrow> metadata \<Rightarrow> errcode \<times> metadata" where
  "SetRemoteSchemaVersion env d u schemaVersion = modify_meta env d u (mv_remoteSchemaVersion_update (\<lambda>_. schemaVersion))"
definition GetRemoteSchemaVersion :: "meta_env \<Rightarrow> string \<Rightarrow> string \<Rightarrow> metadata \<Rightarrow> u64 \<times> metadata" where
  "GetRemoteSchemaVersion env d u = read_meta env d u True mv_remoteSchemaVersion"
definition SetSystemTimeOffset :: "meta_env \<Rightarrow> string \<Rightarrow> string \<Rightarrow> int \<Rightarrow> metadata \<Rightarrow> errcode \<times> metadata" where
  "SetSystemTimeOffset env d u systemTimeOffset = modify_meta env d u (mv_systemTimeOffset_update (\<lambda>_. systemTimeOffset))"
definition GetSystemTimeOffset :: "meta_env \<Rightarrow> string \<Rightarrow> string \<Rightarrow> metadata \<Rightarrow> int \<times> metadata" where
  "GetSystemTimeOffset env d u = read_meta env d u True mv_systemTimeOffset"
definition SetRemoteSoftwareVersion :: "meta_env \<Rightarrow> string \<Rightarrow> string \<Rightarrow> u64 \<Rightarrow> metadata \<Rightarrow> errcode \<times> metadata" where
  "SetRemoteSoftwareVersion env d u version = modify_meta env d u (mv_remoteSoftwareVersion_update (\<lambda>_. version))"
definition GetRemoteSoftwareVersion :: "meta_env \<Rightarrow> string \<Rightarrow> string \<Rightarrow> metadata \<Rightarrow> u64 \<times> metadata" where
  "GetRemoteSoftwareVersion env d u = read_meta env d u True mv_remoteSoftwareVersion"

definition GetWaterMarkInfoFromDB :: "meta_env \<Rightarrow> string \<Rightarrow> string \<Rightarrow> bool \<Rightarrow> u64 \<times> u64 \<Rightarrow> metadata \<Rightarrow> (errcode \<times> u64 \<times> u64) \<times> metadata" where
  "GetWaterMarkInfoFromDB env dev userId isNeedHash info md =
     (let (errCode, v, md1) = GetMetaDataValue env dev userId isNeedHash md
      in (if errCode = E_NOT_FOUND then (E_OK, info) else if errCode \<noteq> E_OK then (errCode, info)
          else (E_OK, mv_localWaterMark v, mv_peerWaterMark v), md1))"

section \<open>All devices\<close>

definition CLEAR_ABILITY_SYNC_MARK :: u32 where "CLEAR_ABILITY_SYNC_MARK = 0x01"
definition CLEAR_TIME_SYNC_MARK :: u32 where "CLEAR_TIME_SYNC_MARK = 0x02"
definition CLEAR_REMOTE_SCHEMA_VERSION :: u32 where "CLEAR_REMOTE_SCHEMA_VERSION = 0x04"
definition CLEAR_SYSTEM_TIME_OFFSET :: u32 where "CLEAR_SYSTEM_TIME_OFFSET = 0x08"
definition SET_TIME_CHANGE_MARK :: u32 where "SET_TIME_CHANGE_MARK = 0x20"

definition ClearMetaDataValue :: "u32 \<Rightarrow> MetaDataValue \<Rightarrow> MetaDataValue" where
  "ClearMetaDataValue act v =
     (let has = (\<lambda>mark. act AND mark = mark);
          v1 = (if has CLEAR_ABILITY_SYNC_MARK then v\<lparr>mv_syncMark := EraseBit (mv_syncMark v) (mark_val SYNC_MARK_ABILITY_SYNC)\<rparr> else v);
          v2 = (if has CLEAR_TIME_SYNC_MARK then v1\<lparr>mv_syncMark := EraseBit (mv_syncMark v1) (mark_val SYNC_MARK_TIME_SYNC)\<rparr> else v1);
          v3 = (if has CLEAR_REMOTE_SCHEMA_VERSION then v2\<lparr>mv_remoteSchemaVersion := 0\<rparr> else v2);
          v4 = (if has CLEAR_SYSTEM_TIME_OFFSET then v3\<lparr>mv_systemTimeOffset := 0\<rparr> else v3)
      in if has SET_TIME_CHANGE_MARK then v4\<lparr>mv_syncMark := mv_syncMark v4 OR mark_val SYNC_MARK_TIME_CHANGE\<rparr> else v4)"

definition IsMetaDataKey :: "meta_key \<Rightarrow> string \<Rightarrow> bool" where
  "IsMetaDataKey inKey expectPrefix \<longleftrightarrow> length expectPrefix \<le> length inKey \<and> take (length expectPrefix) inKey = str_bytes expectPrefix"

fun clear_keys :: "meta_env \<Rightarrow> u32 \<Rightarrow> meta_key list \<Rightarrow> errcode \<Rightarrow> metadata \<Rightarrow> errcode \<times> metadata" where
  "clear_keys env act [] errCode md = (errCode, md)"
| "clear_keys env act (k # ks) errCode md =
     (if \<not> IsMetaDataKey k DEVICEID_PREFIX_KEY then clear_keys env act ks errCode md
      else let (inner, v) = GetMetaDataValueFromDB_key env k new_MetaDataValue md
           in if inner \<noteq> E_OK then clear_keys env act ks (if errCode = E_OK then inner else errCode) md
              else let (inner', md1) = SetMetadataToDb env k (SerializeMetaData (me_be env) (ClearMetaDataValue act v)) md
                   in clear_keys env act ks (if inner' \<noteq> E_OK \<and> errCode = E_OK then inner' else errCode) md1)"

definition ClearAllMetaDataValue :: "meta_env \<Rightarrow> u32 \<Rightarrow> metadata \<Rightarrow> errcode \<times> metadata" where
  "ClearAllMetaDataValue env innerClearAction md =
     (let (errCode, keys) = GetAllMetadataKey env md
      in if errCode \<noteq> E_OK then (errCode, md) else clear_keys env innerClearAction keys E_OK md)"

definition ClearAllAbilitySyncFinishMark :: "meta_env \<Rightarrow> metadata \<Rightarrow> errcode \<times> metadata" where
  "ClearAllAbilitySyncFinishMark env = ClearAllMetaDataValue env (CLEAR_ABILITY_SYNC_MARK OR CLEAR_REMOTE_SCHEMA_VERSION)"

definition ClearAllTimeSyncFinishMark :: "meta_env \<Rightarrow> metadata \<Rightarrow> errcode \<times> metadata" where
  "ClearAllTimeSyncFinishMark env =
     ClearAllMetaDataValue env (CLEAR_TIME_SYNC_MARK OR CLEAR_SYSTEM_TIME_OFFSET OR SET_TIME_CHANGE_MARK)"

section \<open>Local metadata\<close>

definition LOCAL_META_DATA_KEY :: string where "LOCAL_META_DATA_KEY = ''localMetaData''"

definition CalculateLocalMetaDataLength :: u32 where
  "CalculateLocalMetaDataLength = GetEightByteAlign GetUInt32Len + GetUInt64Len"

definition SerializeLocalMetaData :: "bool \<Rightarrow> LocalMetaData \<Rightarrow> (errcode \<times> byte list) res" where
  "SerializeLocalMetaData be lm =
     (let n = CalculateLocalMetaDataLength
      in res_bind (WriteUInt32 be (lm_version lm) (new_Parcel (Some (replicate (unat n) 0)) n)) (\<lambda>(_, p1).
         res_bind (WriteUInt64 be (lm_localSchemaVersion lm) (EightByteAlign p1)) (\<lambda>(_, p2).
           Ok (if pc_isError p2 then (E_SERIALIZE_ERROR, []) else (E_OK, case pc_buf p2 of None \<Rightarrow> [] | Some bs \<Rightarrow> bs)))))"

definition DeSerializeLocalMetaData :: "bool \<Rightarrow> byte list \<Rightarrow> (errcode \<times> LocalMetaData) res" where
  "DeSerializeLocalMetaData be value =
     (if value = [] then Ok (E_OK, new_LocalMetaData)
      else res_bind (ReadUInt32 be (new_Parcel (Some value) (of_nat (length value)))) (\<lambda>(_, ver, p1).
        let meta = (case ver of None \<Rightarrow> new_LocalMetaData | Some x \<Rightarrow> new_LocalMetaData\<lparr>lm_version := x\<rparr>);
            p2 = (if lm_version meta \<ge> LOCAL_META_DATA_VERSION_V2 then EightByteAlign p1 else p1)
        in res_bind (ReadUInt64 be p2) (\<lambda>(_, sv, p3).
          let meta' = (case sv of None \<Rightarrow> meta | Some x \<Rightarrow> meta\<lparr>lm_localSchemaVersion := x\<rparr>)
          in Ok (if pc_isError p3 then E_SERIALIZE_ERROR else E_OK, meta'))))"

definition SaveLocalMetaData :: "meta_env \<Rightarrow> LocalMetaData \<Rightarrow> metadata \<Rightarrow> (errcode \<times> metadata) res" where
  "SaveLocalMetaData env lm md =
     res_bind (SerializeLocalMetaData (me_be env) lm) (\<lambda>(errCode, value).
       Ok (if errCode \<noteq> E_OK then (errCode, md) else SetMetadataToDb env (str_bytes LOCAL_META_DATA_KEY) value md))"

definition GetLocalMetaData :: "meta_env \<Rightarrow> metadata \<Rightarrow> (errcode \<times> LocalMetaData) res" where
  "GetLocalMetaData env md =
     (let (errCode, value) = GetMetadataFromDb env (str_bytes LOCAL_META_DATA_KEY) md
      in if errCode \<noteq> E_OK \<and> errCode \<noteq> E_NOT_FOUND then Ok (errCode, new_LocalMetaData)
         else DeSerializeLocalMetaData (me_be env) value)"

definition GetLocalSchemaVersion :: "meta_env \<Rightarrow> metadata \<Rightarrow> (errcode \<times> u64) res" where
  "GetLocalSchemaVersion env md =
     res_bind (GetLocalMetaData env md) (\<lambda>(errCode, lm). Ok (errCode, if errCode \<noteq> E_OK then 0 else lm_localSchemaVersion lm))"

definition SetLocalSchemaVersion :: "meta_env \<Rightarrow> u64 \<Rightarrow> metadata \<Rightarrow> (errcode \<times> metadata) res" where
  "SetLocalSchemaVersion env schemaVersion md =
     res_bind (GetLocalMetaData env md) (\<lambda>(errCode, lm).
       if errCode \<noteq> E_OK then Ok (errCode, md) else SaveLocalMetaData env (lm\<lparr>lm_localSchemaVersion := schemaVersion\<rparr>) md)"

definition InitLocalMetaData :: "meta_env \<Rightarrow> metadata \<Rightarrow> (errcode \<times> metadata) res" where
  "InitLocalMetaData env md =
     res_bind (GetLocalMetaData env md) (\<lambda>(errCode, lm).
       if errCode \<noteq> E_OK then Ok (errCode, md)
       else if lm_localSchemaVersion lm \<noteq> 0 then Ok (E_OK, md)
       else SaveLocalMetaData env
              (lm\<lparr>lm_localSchemaVersion := (case me_rawTime env of None \<Rightarrow> lm_localSchemaVersion lm + 1 | Some t \<Rightarrow> t)\<rparr>) md)"

section \<open>The local time offset\<close>

text \<open>\<^verbatim>\<open>std::to_string\<close> and \<^verbatim>\<open>std::strtoll\<close> in base ten.\<close>

fun dec_digits :: "nat \<Rightarrow> string" where
  "dec_digits n = (if n < 10 then [char_of (48 + n)] else dec_digits (n div 10) @ [char_of (48 + n mod 10)])"

declare dec_digits.simps [simp del]

definition to_string :: "int \<Rightarrow> string" where
  "to_string i = (if i < 0 then CHR ''-'' # dec_digits (nat (- i)) else dec_digits (nat i))"

definition c_isspace :: "char \<Rightarrow> bool" where
  "c_isspace c \<longleftrightarrow> (let n = of_char c :: nat in n = 32 \<or> 9 \<le> n \<and> n \<le> 13)"

definition c_isdigit :: "char \<Rightarrow> bool" where
  "c_isdigit c \<longleftrightarrow> (let n = of_char c :: nat in 48 \<le> n \<and> n \<le> 57)"

definition dec_value :: "string \<Rightarrow> int" where
  "dec_value s = foldl (\<lambda>v c. 10 * v + (int (of_char c) - 48)) 0 s"

definition clamp64 :: "int \<Rightarrow> int" where
  "clamp64 i = max (- (2 ^ 63)) (min (2 ^ 63 - 1) i)"

definition strtoll :: "string \<Rightarrow> int" where
  "strtoll s =
     (let s1 = dropWhile c_isspace s;
          (neg, s2) = (case s1 of [] \<Rightarrow> (False, []) | c # r \<Rightarrow> if c = CHR ''-'' then (True, r) else if c = CHR ''+'' then (False, r) else (False, s1));
          v = dec_value (takeWhile c_isdigit s2)
      in clamp64 (if neg then - v else v))"

definition StringToLong :: "byte list \<Rightarrow> int" where
  "StringToLong value = strtoll (bytes_str value)"

definition LOCALTIME_OFFSET_KEY :: string where "LOCALTIME_OFFSET_KEY = ''localTimeOffset''"

definition SaveLocalTimeOffset :: "meta_env \<Rightarrow> int \<Rightarrow> bool \<Rightarrow> metadata \<Rightarrow> errcode \<times> metadata" where
  "SaveLocalTimeOffset env timeOffset saveIntoDb md =
     (let md1 = md\<lparr>md_localTimeOffset := timeOffset\<rparr>
      in if \<not> saveIntoDb then (E_OK, md1)
         else SetMetadataToDb env (str_bytes LOCALTIME_OFFSET_KEY) (str_bytes (to_string timeOffset)) md1)"

definition GetLocalTimeOffset :: "metadata \<Rightarrow> int" where
  "GetLocalTimeOffset md = md_localTimeOffset md"

definition BASE_OFFSET :: int where "BASE_OFFSET = 10000 * 365 * 24 * 3600 * 1000 * 1000 * 10"

text \<open>The part of \<^verbatim>\<open>Initialize\<close> that restores the local time offset.\<close>

definition init_offset :: "meta_env \<Rightarrow> metadata \<Rightarrow> errcode \<times> metadata" where
  "init_offset env md0 =
     (let md = md0\<lparr>md_hasStorage := True\<rparr>; (errCode, timeOffset) = GetMetadataFromDb env (str_bytes LOCALTIME_OFFSET_KEY) md
      in if errCode = E_NOT_FOUND then SaveLocalTimeOffset env BASE_OFFSET True md
         else if errCode = E_OK then (E_OK, md\<lparr>md_localTimeOffset := StringToLong timeOffset\<rparr>)
         else (errCode, md))"

definition SetLastLocalTime :: "u64 \<Rightarrow> metadata \<Rightarrow> metadata" where
  "SetLastLocalTime t md = (if t > md_lastLocalTime md then md\<lparr>md_lastLocalTime := t\<rparr> else md)"

definition GetLastLocalTime :: "metadata \<Rightarrow> u64" where "GetLastLocalTime md = md_lastLocalTime md"

section \<open>Queries and clients\<close>

definition SUBSCRIBE_QUERY_PREFIX :: string where "SUBSCRIBE_QUERY_PREFIX = ''subscribe_query_''"

definition GetQueryLastTimestamp :: "meta_env \<Rightarrow> string \<Rightarrow> string \<Rightarrow> metadata \<Rightarrow> u64 \<times> metadata" where
  "GetQueryLastTimestamp env deviceId queryId md =
     (let h = SUBSCRIBE_QUERY_PREFIX @ me_hash env queryId; (errCode, value) = GetMetadataFromDb env (str_bytes h) md
      in if errCode = E_NOT_FOUND
         then case om_find (md_queryIds md) deviceId of
                Some qs \<Rightarrow> if h \<notin> set qs then (0x7FFFFFFFFFFFFFFF, md\<lparr>md_queryIds := om_insert deviceId (insort_insert h qs) (md_queryIds md)\<rparr>)
                           else (0, md)
              | None \<Rightarrow> (0x7FFFFFFFFFFFFFFF, md\<lparr>md_queryIds := om_insert deviceId [h] (md_queryIds md)\<rparr>)
         else (word_of_int (StringToLong value),
               case om_find (md_queryIds md) deviceId of
                 Some qs \<Rightarrow> if errCode = E_OK then md\<lparr>md_queryIds := om_insert deviceId (removeAll h qs) (md_queryIds md)\<rparr> else md
               | None \<Rightarrow> md))"

definition RemoveQueryFromRecordSet :: "meta_env \<Rightarrow> string \<Rightarrow> string \<Rightarrow> metadata \<Rightarrow> metadata" where
  "RemoveQueryFromRecordSet env deviceId queryId md =
     (let h = SUBSCRIBE_QUERY_PREFIX @ me_hash env queryId
      in case om_find (md_queryIds md) deviceId of
           None \<Rightarrow> md
         | Some qs \<Rightarrow> if h \<in> set qs then md\<lparr>md_queryIds := om_insert deviceId (removeAll h qs) (md_queryIds md)\<rparr> else md)"

definition CLIENT_ID_PREFIX_KEY :: string where "CLIENT_ID_PREFIX_KEY = ''clientId''"

definition SaveClientId :: "meta_env \<Rightarrow> string \<Rightarrow> string \<Rightarrow> metadata \<Rightarrow> errcode \<times> metadata" where
  "SaveClientId env deviceId clientId md0 =
     (let md = md0\<lparr>md_clientIds := om_insert deviceId (om_get [] (md_clientIds md0) deviceId) (md_clientIds md0)\<rparr>
      in if om_get [] (md_clientIds md) deviceId = clientId then (E_OK, md)
         else let (errCode, md1) = SetMetadataToDb env (str_bytes (CLIENT_ID_PREFIX_KEY @ clientId)) (str_bytes (me_hash env deviceId)) md
              in if errCode \<noteq> E_OK then (errCode, md1)
                 else (E_OK, md1\<lparr>md_clientIds := om_insert deviceId clientId (md_clientIds md1)\<rparr>))"

definition GetHashDeviceId_client :: "meta_env \<Rightarrow> string \<Rightarrow> metadata \<Rightarrow> errcode \<times> string" where
  "GetHashDeviceId_client env clientId md =
     (let (errCode, value) = GetMetadataFromDb env (str_bytes (CLIENT_ID_PREFIX_KEY @ clientId)) md
      in if errCode = E_NOT_FOUND then (E_NOT_SUPPORT, []) else if errCode \<noteq> E_OK then (errCode, []) else (E_OK, bytes_str value))"

section \<open>Images of values are read back\<close>

lemma length_meta_image [simp]: "length (meta_image be v) = SIZEOF_META"
  by (simp add: meta_image_def meta_words_def SIZEOF_META_def)

lemma word_at_concat:
  "i < length ws \<Longrightarrow> word_at be (concat (map (store_word be) ws) @ rest) i = (ws ! i :: u64)"
proof (induction ws arbitrary: i)
  case (Cons w ws)
  show ?case
  proof (cases i)
    case 0
    then show ?thesis by (simp add: word_at_def load_store_word)
  next
    case (Suc j)
    have "word_at be (store_word be w @ xs) (Suc j) = word_at be xs j" for xs by (simp add: word_at_def)
    then show ?thesis using Cons Suc by simp
  qed
qed simp

lemma meta_load_image: "wf_meta v \<Longrightarrow> meta_load be (meta_image be v) = v"
  using word_at_concat[of _ "meta_words v" be "[]"] sint_of_range[where 'a=64]
  by (simp add: meta_load_def meta_image_def wf_meta_def meta_words_def nth_Cons')

lemma Serialize_roundtrip: "wf_meta v \<Longrightarrow> DeSerializeMetaData be (SerializeMetaData be v) out = (E_OK, v)"
proof -
  assume v: "wf_meta v"
  have n: "meta_image be v \<noteq> []" using length_meta_image[of be v] by (auto simp: SIZEOF_META_def simp del: length_meta_image)
  have o: "overwrite (meta_image be out) 0 (meta_image be v) = meta_image be v" by (simp add: overwrite_def)
  show ?thesis using n meta_load_image[OF v]
    by (simp add: DeSerializeMetaData_def SerializeMetaData_def memcpy_s_def write_at_def o)
qed

lemma wf_load: "wf_meta (meta_load be bs)"
  using sint_in_range[where 'a=64] by (simp add: wf_meta_def meta_load_def)

lemma wf_new: "wf_meta new_MetaDataValue"
  by (simp add: wf_meta_def new_MetaDataValue_def in_range_def)

lemma DeSerialize_wf: "wf_meta out \<Longrightarrow> wf_meta (snd (DeSerializeMetaData be bs out))"
  by (simp add: DeSerializeMetaData_def wf_load split: res.split)

section \<open>Decimal numbers\<close>

lemma digit_char: "d < 10 \<Longrightarrow> (of_char (char_of (48 + d) :: char) :: nat) = 48 + d"
  by simp

lemma dec_value_append: "dec_value (s @ [c]) = 10 * dec_value s + (int (of_char c) - 48)"
  by (simp add: dec_value_def)

lemma dec_digits_value: "dec_value (dec_digits n) = int n \<and> list_all c_isdigit (dec_digits n) \<and> dec_digits n \<noteq> []"
proof (induction n rule: dec_digits.induct)
  case (1 n)
  show ?case
  proof (cases "n < 10")
    case True
    then show ?thesis by (subst (1 2 3) dec_digits.simps) (simp add: dec_value_def c_isdigit_def digit_char)
  next
    case False
    have "10 * int (n div 10) + int (n mod 10) = int n" by (metis mult_div_mod_eq of_nat_add of_nat_mult of_nat_numeral)
    moreover have "n mod 10 < 10" by simp
    moreover from this have "c_isdigit (char_of (48 + n mod 10))" by (simp add: c_isdigit_def digit_char)
    ultimately show ?thesis using 1[OF False] False digit_char[of "n mod 10"]
      by (subst (1 2 3) dec_digits.simps) (simp add: dec_value_append)
  qed
qed

lemma strtoll_to_string: "in_range 64 i \<Longrightarrow> strtoll (to_string i) = i"
proof -
  assume r: "in_range 64 i"
  note d = dec_digits_value
  have t: "takeWhile c_isdigit (dec_digits n) = dec_digits n" for n using d[of n] by (simp add: takeWhile_eq_all_conv list_all_iff)
  have ns: "\<not> c_isspace c \<and> c \<noteq> CHR ''-'' \<and> c \<noteq> CHR ''+''" if "c_isdigit c" for c
    using that by (auto simp: c_isdigit_def c_isspace_def Let_def)
  have dw: "dropWhile c_isspace (dec_digits n) = dec_digits n" for n
    using d[of n] ns by (cases "dec_digits n") auto
  have c: "clamp64 i = i" using r by (simp add: clamp64_def in_range_def)
  show ?thesis
  proof (cases "i < 0")
    case True
    have "\<not> c_isspace CHR ''-''" by (simp add: c_isspace_def)
    then show ?thesis using True d[of "nat (- i)"] c by (simp add: to_string_def strtoll_def t)
  next
    case False
    obtain x xs where x: "dec_digits (nat i) = x # xs" using d[of "nat i"] by (cases "dec_digits (nat i)") auto
    then have "c_isdigit x" using d[of "nat i"] by simp
    moreover have tx: "takeWhile c_isdigit xs = xs" using t[of "nat i"] \<open>c_isdigit x\<close> by (simp add: x)
    ultimately show ?thesis using False d[of "nat i"] c ns[of x] x by (simp add: to_string_def strtoll_def tx)
  qed
qed

lemma local_offset_restored:
  assumes "in_range 64 off" "me_putErr env (str_bytes LOCALTIME_OFFSET_KEY) = E_OK" "me_getErr env' (str_bytes LOCALTIME_OFFSET_KEY) = E_OK"
    "md_hasStorage md" "om_ok (md_store md)" "SaveLocalTimeOffset env off True md = (e, md')"
  shows "e = E_OK \<and> init_offset env' (new_Metadata\<lparr>md_store := md_store md'\<rparr>) =
    (E_OK, new_Metadata\<lparr>md_store := md_store md', md_hasStorage := True, md_localTimeOffset := off\<rparr>)"
  using assms by (auto simp: SaveLocalTimeOffset_def SetMetadataToDb_def init_offset_def GetMetadataFromDb_def om_find_insert StringToLong_def
      strtoll_to_string)

section \<open>The metadata as a map\<close>

text \<open>The table of devices and users as the database holds it, and what a reader sees of an entry.\<close>

definition hash_key :: "meta_env \<Rightarrow> string \<times> string \<Rightarrow> meta_key" where
  "hash_key env du = str_bytes (device_key (me_hash env (fst du)) (snd du))"

definition meta_at :: "meta_env \<Rightarrow> metadata \<Rightarrow> string \<times> string \<Rightarrow> MetaDataValue option" where
  "meta_at env md du = map_option (\<lambda>bs. snd (DeSerializeMetaData (me_be env) bs new_MetaDataValue)) (om_find (md_store md) (hash_key env du))"

definition meta_cur :: "meta_env \<Rightarrow> MetaDataValue option \<Rightarrow> MetaDataValue" where
  "meta_cur env m = (case m of Some v \<Rightarrow> v
     | None \<Rightarrow> if me_timeChanged env then new_MetaDataValue\<lparr>mv_syncMark := mark_val SYNC_MARK_TIME_CHANGE\<rparr> else new_MetaDataValue)"

definition storable :: "byte list \<Rightarrow> bool" where
  "storable bs \<longleftrightarrow> bs \<noteq> [] \<and> length bs \<le> SIZEOF_META"

text \<open>
  The cache of hashed names agrees with the hash, and the values under device keys are images of the current or of
  an older, shorter version of the structure.  On the devices \<open>D\<close> the hash is injective; hashes have a fixed length.
\<close>

definition md_ok :: "meta_env \<Rightarrow> metadata \<Rightarrow> bool" where
  "md_ok env md \<longleftrightarrow> md_hasStorage md \<and> om_ok (md_store md) \<and> om_ok (md_hashIds md) \<and>
     (\<forall>d u h. om_find (md_hashIds md) (d, u) = Some h \<longrightarrow> h = device_key (me_hash env d) u) \<and>
     (\<forall>k bs. om_find (md_store md) k = Some bs \<longrightarrow> IsMetaDataKey k DEVICEID_PREFIX_KEY \<longrightarrow> storable bs)"

definition hash_ok :: "meta_env \<Rightarrow> string set \<Rightarrow> bool" where
  "hash_ok env D \<longleftrightarrow> inj_on (me_hash env) D \<and> (\<forall>d. length (me_hash env d) = 32)"

definition storage_works :: "meta_env \<Rightarrow> bool" where
  "storage_works env \<longleftrightarrow> (\<forall>k. me_getErr env k = E_OK) \<and> (\<forall>k. me_putErr env k = E_OK) \<and> me_keysErr env = E_OK"

lemma str_bytes_append: "str_bytes (a @ b) = str_bytes a @ str_bytes b" by (simp add: str_bytes_def)

lemma str_bytes_inj: "str_bytes a = str_bytes b \<longleftrightarrow> a = b" using str_bytes_inverse(1) by metis

lemma hash_key_inj:
  assumes "hash_ok env D" "d \<in> D" "d' \<in> D"
  shows "hash_key env (d, u) = hash_key env (d', u') \<longleftrightarrow> d = d' \<and> u = u'"
  using assms by (auto simp: hash_key_def str_bytes_inj device_key_def hash_ok_def append_eq_append_conv dest: inj_onD)

lemma hash_key_device: "IsMetaDataKey (hash_key env du) DEVICEID_PREFIX_KEY"
  by (simp add: IsMetaDataKey_def hash_key_def device_key_def str_bytes_append)

lemma GetHash_ok:
  assumes "md_ok env md"
  shows "\<exists>md1. GetHashDeviceId env d u True md = (device_key (me_hash env d) u, md1) \<and> md_ok env md1 \<and> md_store md1 = md_store md"
proof (cases "om_find (md_hashIds md) (d, u)")
  case None
  then show ?thesis using assms by (auto simp: GetHashDeviceId_def md_ok_def Let_def om_find_insert om_ok_insert split: if_splits)
next
  case (Some h)
  then show ?thesis using assms by (auto simp: GetHashDeviceId_def md_ok_def)
qed

lemma DeSerialize_storable: "storable bs \<Longrightarrow> fst (DeSerializeMetaData be bs out) = E_OK"
  by (auto simp: DeSerializeMetaData_def storable_def memcpy_s_def write_at_def guard_err_def)

lemma Get_ok:
  assumes "md_ok env md" "storage_works env"
  shows "\<exists>md1. GetMetaDataValue env d u True md =
      (if meta_at env md (d, u) = None then E_NOT_FOUND else E_OK, meta_cur env (meta_at env md (d, u)), md1) \<and>
    md_ok env md1 \<and> md_store md1 = md_store md"
proof -
  obtain md1 where h: "GetHashDeviceId env d u True md = (device_key (me_hash env d) u, md1)" "md_ok env md1" "md_store md1 = md_store md"
    using GetHash_ok[OF assms(1)] by blast
  have s: "md_hasStorage md1" using h(2) by (simp add: md_ok_def)
  have k: "str_bytes (device_key (me_hash env d) u) = hash_key env (d, u)" by (simp add: hash_key_def)
  show ?thesis
  proof (cases "om_find (md_store md) (hash_key env (d, u))")
    case None
    then show ?thesis using h s assms(2)
      by (auto simp: GetMetaDataValue_def GetMetaDataValueFromDB_def GetMetaDataValueFromDB_key_def GetMetadataFromDb_def meta_at_def
          meta_cur_def storage_works_def k Let_def)
  next
    case (Some bs)
    then have "storable bs" using assms(1) hash_key_device by (auto simp: md_ok_def)
    then have "fst (DeSerializeMetaData (me_be env) bs new_MetaDataValue) = E_OK" by (rule DeSerialize_storable)
    then show ?thesis using h s assms(2) Some
      by (auto simp: GetMetaDataValue_def GetMetaDataValueFromDB_def GetMetaDataValueFromDB_key_def GetMetadataFromDb_def meta_at_def
          meta_cur_def storage_works_def k Let_def split: prod.split)
  qed
qed

lemma md_ok_put:
  assumes "md_ok env md" "storable bs"
  shows "md_ok env (md\<lparr>md_store := om_insert k bs (md_store md)\<rparr>)"
  using assms by (auto simp: md_ok_def om_ok_insert om_find_insert split: if_splits)

lemma storable_image: "storable (SerializeMetaData be v)"
proof -
  have "length (SerializeMetaData be v) = SIZEOF_META" by (simp add: SerializeMetaData_def)
  then show ?thesis by (auto simp: storable_def SIZEOF_META_def)
qed

lemma meta_at_put:
  assumes "md_ok env md" "hash_ok env D" "d \<in> D" "d' \<in> D" "wf_meta v"
  shows "meta_at env (md\<lparr>md_store := om_insert (hash_key env (d, u)) (SerializeMetaData (me_be env) v) (md_store md)\<rparr>) (d', u') =
    (if d' = d \<and> u' = u then Some v else meta_at env md (d', u'))"
  using assms(1) hash_key_inj[OF assms(2,4,3), of u' u] Serialize_roundtrip[OF assms(5)]
  by (auto simp: meta_at_def om_find_insert md_ok_def)

lemma Save_ok:
  assumes "md_ok env md" "storage_works env"
  shows "\<exists>md1. SaveMetaDataValue env d u v True md = (E_OK, md1) \<and> md_ok env md1 \<and>
    md_store md1 = om_insert (hash_key env (d, u)) (SerializeMetaData (me_be env) v) (md_store md)"
proof -
  obtain md1 where h: "GetHashDeviceId env d u True md = (device_key (me_hash env d) u, md1)" "md_ok env md1" "md_store md1 = md_store md"
    using GetHash_ok[OF assms(1)] by blast
  have s: "md_hasStorage md1" using h(2) by (simp add: md_ok_def)
  show ?thesis using h s assms(2) md_ok_put[OF h(2) storable_image[of "me_be env" v], of "hash_key env (d, u)"]
    by (auto simp: SaveMetaDataValue_def SetMetadataToDb_def storage_works_def hash_key_def)
qed

lemma meta_at_store: "md_store md1 = md_store md \<Longrightarrow> meta_at env md1 = meta_at env md"
  by (simp add: meta_at_def fun_eq_iff)

lemma wf_cur: "wf_meta (meta_cur env (meta_at env md du))"
  using DeSerialize_wf[OF wf_new] wf_new by (auto simp: meta_cur_def meta_at_def wf_meta_def split: option.split)

datatype meta_write =
    WTimeOffset int | WLocalWaterMark u64 | WPeerWaterMark u64 | WDbCreateTime u64 | WResetRemoved | WMark SyncMark bool
  | WSchemaVersion u64 | WSystemTimeOffset int | WSoftwareVersion u64

fun write_meta :: "meta_env \<Rightarrow> meta_write \<Rightarrow> string \<Rightarrow> string \<Rightarrow> metadata \<Rightarrow> errcode \<times> metadata" where
  "write_meta env (WTimeOffset i) d u md = SaveTimeOffset env d u i md"
| "write_meta env (WLocalWaterMark w) d u md = SaveLocalWaterMark env d u w md"
| "write_meta env (WPeerWaterMark w) d u md = SavePeerWaterMark env d u w True md"
| "write_meta env (WDbCreateTime t) d u md = SetDbCreateTime env d u t True md"
| "write_meta env WResetRemoved d u md = ResetMetaDataAfterRemoveData env d u md"
| "write_meta env (WMark m b) d u md = SetSyncMark env d u m b md"
| "write_meta env (WSchemaVersion w) d u md = SetRemoteSchemaVersion env d u w md"
| "write_meta env (WSystemTimeOffset i) d u md = SetSystemTimeOffset env d u i md"
| "write_meta env (WSoftwareVersion w) d u md = SetRemoteSoftwareVersion env d u w md"

text \<open>The operations on the abstract map.\<close>

fun meta_change :: "meta_env \<Rightarrow> meta_write \<Rightarrow> MetaDataValue \<Rightarrow> MetaDataValue" where
  "meta_change env (WTimeOffset i) v = v\<lparr>mv_timeOffset := i, mv_lastUpdateTime := me_sysTime env\<rparr>"
| "meta_change env (WLocalWaterMark w) v = v\<lparr>mv_localWaterMark := w\<rparr>"
| "meta_change env (WPeerWaterMark w) v = v\<lparr>mv_peerWaterMark := w\<rparr>"
| "meta_change env (WDbCreateTime t) v =
     (if mv_dbCreateTime v \<noteq> 0 \<and> mv_dbCreateTime v \<noteq> t then v\<lparr>mv_clearDeviceDataMark := 1, mv_dbCreateTime := t\<rparr>
      else v\<lparr>mv_dbCreateTime := t\<rparr>)"
| "meta_change env WResetRemoved v = v\<lparr>mv_clearDeviceDataMark := 0\<rparr>"
| "meta_change env (WMark m b) v =
     v\<lparr>mv_syncMark := (if b then mv_syncMark v OR mark_val m else mv_syncMark v AND NOT (mark_val m))\<rparr>"
| "meta_change env (WSchemaVersion w) v = v\<lparr>mv_remoteSchemaVersion := w\<rparr>"
| "meta_change env (WSystemTimeOffset i) v = v\<lparr>mv_systemTimeOffset := i\<rparr>"
| "meta_change env (WSoftwareVersion w) v = v\<lparr>mv_remoteSoftwareVersion := w\<rparr>"

definition meta_effect :: "meta_env \<Rightarrow> meta_write \<Rightarrow> string \<times> string \<Rightarrow> (string \<times> string \<Rightarrow> MetaDataValue option) \<Rightarrow>
    string \<times> string \<Rightarrow> MetaDataValue option" where
  "meta_effect env w du M =
     (if w = WResetRemoved \<and> M du = None then M
      else if \<exists>x. w = WPeerWaterMark x \<and> snd du = []
      then (if \<forall>u. M (fst du, u) = None then M(du \<mapsto> meta_change env w new_MetaDataValue)
            else (\<lambda>du'. if fst du' = fst du then map_option (meta_change env w) (M du') else M du'))
      else M(du \<mapsto> meta_change env w (meta_cur env (M du))))"

fun write_valid :: "meta_write \<Rightarrow> bool" where
  "write_valid (WTimeOffset i) = in_range 64 i"
| "write_valid (WSystemTimeOffset i) = in_range 64 i"
| "write_valid _ = True"

lemma wf_change: "write_valid w \<Longrightarrow> wf_meta v \<Longrightarrow> wf_meta (meta_change env w v)"
  by (cases w) (auto simp: wf_meta_def)

text \<open>Every operation that reads an entry, changes it and writes it back.\<close>

lemma modify_ok:
  assumes "md_ok env md" "storage_works env" "hash_ok env D" "d \<in> D" "wf_meta (f (meta_cur env (meta_at env md (d, u))))"
  shows "\<exists>md'. modify_meta env d u f md = (E_OK, md') \<and> md_ok env md' \<and>
    (\<forall>d' \<in> D. \<forall>u'. meta_at env md' (d', u') = ((meta_at env md)((d, u) \<mapsto> f (meta_cur env (meta_at env md (d, u))))) (d', u'))"
proof -
  let ?v = "f (meta_cur env (meta_at env md (d, u)))"
  obtain md1 where g: "snd (GetMetaDataValue env d u True md) = (meta_cur env (meta_at env md (d, u)), md1)" "md_ok env md1" "md_store md1 = md_store md"
    using Get_ok[OF assms(1,2), of d u] by force
  obtain md2 where s: "SaveMetaDataValue env d u ?v True md1 = (E_OK, md2)" "md_ok env md2"
    "md_store md2 = om_insert (hash_key env (d, u)) (SerializeMetaData (me_be env) ?v) (md_store md1)"
    using Save_ok[OF g(2) assms(2), of d u ?v] by blast
  have "meta_at env md2 (d', u') = (if d' = d \<and> u' = u then Some ?v else meta_at env md (d', u'))" if "d' \<in> D" for d' u'
    using meta_at_put[OF g(2) assms(3,4) that assms(5), of u u'] meta_at_store[of md2 "md1\<lparr>md_store := md_store md2\<rparr>" env]
      meta_at_store[OF g(3), of env] s(3) by simp
  then show ?thesis using g(1) s(1,2) by (auto simp: modify_meta_def case_prod_unfold)
qed

section \<open>Water marks of all users of a device\<close>

lemma save_peer_fold:
  "md_ok env md \<Longrightarrow> storage_works env \<Longrightarrow>
   \<exists>md'. save_peer env w kvs md = (E_OK, md') \<and> md_ok env md' \<and>
     md_store md' = fold (\<lambda>(k, v). om_insert k (SerializeMetaData (me_be env) (v\<lparr>mv_peerWaterMark := w\<rparr>))) kvs (md_store md)"
proof (induction kvs arbitrary: md)
  case (Cons kv kvs)
  obtain k v where kv: "kv = (k, v)" by (cases kv)
  let ?b = "SerializeMetaData (me_be env) (v\<lparr>mv_peerWaterMark := w\<rparr>)"
  have "SetMetadataToDb env k ?b md = (E_OK, md\<lparr>md_store := om_insert k ?b (md_store md)\<rparr>)"
    using Cons.prems by (simp add: SetMetadataToDb_def storage_works_def md_ok_def)
  moreover note Cons.IH[OF md_ok_put[OF Cons.prems(1) storable_image, of k] Cons.prems(2), of "me_be env" "v\<lparr>mv_peerWaterMark := w\<rparr>"]
  ultimately show ?case by (simp add: kv)
qed simp

lemma find_fold:
  "om_ok m \<Longrightarrow> distinct (map fst kvs) \<Longrightarrow>
   om_find (fold (\<lambda>(k, v). om_insert k (g v)) kvs m) key = (case map_of kvs key of Some v \<Rightarrow> Some (g v) | None \<Rightarrow> om_find m key)"
proof (induction kvs arbitrary: m)
  case (Cons kv kvs)
  obtain k v where kv: "kv = (k, v)" by (cases kv)
  have "map_of kvs k = None" using Cons.prems(2) kv by (simp add: map_of_eq_None_iff)
  then show ?case using Cons.IH[of "om_insert k (g v) m"] Cons.prems by (auto simp: kv om_ok_insert om_find_insert split: option.split)
qed simp

lemma load_all_ok:
  "\<forall>(k, bs) \<in> set kvs. storable bs \<Longrightarrow> load_all be kvs = Inr (map (\<lambda>(k, bs). (k, snd (DeSerializeMetaData be bs new_MetaDataValue))) kvs)"
proof (induction kvs)
  case (Cons kv kvs)
  obtain k bs where kv: "kv = (k, bs)" by (cases kv)
  have "fst (DeSerializeMetaData be bs new_MetaDataValue) = E_OK" using DeSerialize_storable Cons.prems kv by auto
  then show ?case using Cons by (auto simp: kv case_prod_unfold)
qed simp

lemma prefix_key:
  assumes "hash_ok env D" "d \<in> D" "d' \<in> D"
  shows "is_prefix_key (hash_key env (d, [])) (hash_key env (d', u)) \<longleftrightarrow> d' = d"
proof -
  have l: "length (hash_key env (d, [])) = 46" for d using assms(1)
    by (simp add: hash_key_def device_key_def hash_ok_def DEVICEID_PREFIX_KEY_def USERID_PREFIX_KEY_def)
  have h: "hash_key env (x, y) = hash_key env (x, []) @ str_bytes y" for x y
    by (simp add: hash_key_def device_key_def str_bytes_append str_bytes_def)
  have "take 46 (hash_key env (d', u)) = hash_key env (d', [])" using l[of d'] by (simp add: h[of d' u])
  then show ?thesis using hash_key_inj[OF assms(1,3,2), of "[]" "[]"] l[of d] by (auto simp: is_prefix_key_def)
qed

lemma prefix_key_form: "is_prefix_key (hash_key env (d, [])) k \<Longrightarrow> \<exists>u. k = hash_key env (d, u)"
proof -
  assume p: "is_prefix_key (hash_key env (d, [])) k"
  then have "k = hash_key env (d, []) @ drop (length (hash_key env (d, []))) k" by (metis append_take_drop_id is_prefix_key_def)
  then have "k = hash_key env (d, bytes_str (drop (length (hash_key env (d, []))) k))"
    by (simp add: hash_key_def device_key_def str_bytes_append str_bytes_def[of "[]"])
  then show ?thesis by blast
qed

lemma Peer_all:
  assumes ok: "md_ok env md" and st: "storage_works env" and h: "hash_ok env D" and d: "d \<in> D"
  shows "\<exists>md'. SavePeerWaterMark env d [] w True md = (E_OK, md') \<and> md_ok env md' \<and>
    (\<forall>d' \<in> D. \<forall>u'. meta_at env md' (d', u') = meta_effect env (WPeerWaterMark w) (d, []) (meta_at env md) (d', u'))"
proof -
  let ?pre = "hash_key env (d, [])"
  let ?data = "filter (\<lambda>(k, v). is_prefix_key ?pre k) (md_store md)"
  let ?de = "\<lambda>bs. snd (DeSerializeMetaData (me_be env) bs new_MetaDataValue)"
  let ?kvs = "if ?data = [] then [(?pre, new_MetaDataValue)] else map (\<lambda>(k, bs). (k, ?de bs)) ?data"
  let ?g = "\<lambda>v. SerializeMetaData (me_be env) (v\<lparr>mv_peerWaterMark := w\<rparr>)"
  obtain md1 where m1: "GetHashDeviceId env d [] True md = (device_key (me_hash env d) [], md1)" "md_ok env md1" "md_store md1 = md_store md"
    using GetHash_ok[OF ok] by blast
  have so: "om_ok (md_store md)" "md_hasStorage md1" using ok m1(2) by (simp_all add: md_ok_def)
  have "storable bs" if "(k, bs) \<in> set ?data" for k bs
    using that prefix_key_form[of env d k] hash_key_device[of env] ok om_find_mem[OF so(1), of k bs] by (auto simp: md_ok_def)
  then have "load_all (me_be env) ?data = Inr (map (\<lambda>(k, bs). (k, ?de bs)) ?data)" by (intro load_all_ok) blast
  then have "GetMetaDataFromDBByPrefixKey env d True md = (Inr ?kvs, md1)"
    using m1 st so by (simp add: GetMetaDataFromDBByPrefixKey_def GetMetadataFromDbByPrefixKey_def storage_works_def hash_key_def Let_def)
  then obtain md' where md': "SavePeerWaterMark env d [] w True md = (E_OK, md')" "md_ok env md'"
    "md_store md' = fold (\<lambda>(k, v). om_insert k (?g v)) ?kvs (md_store md)"
    using save_peer_fold[OF m1(2) st, of w ?kvs] m1(3) by (auto simp: SavePeerWaterMark_def)
  have dist: "distinct (map fst ?kvs)"
  proof -
    have "distinct (map fst ?data)" using om_ok_distinct[OF om_ok_filter[OF so(1)]] by simp
    moreover have "map fst (map (\<lambda>(k, bs). (k, ?de bs)) ?data) = map fst ?data" by (auto simp: case_prod_unfold)
    ultimately show ?thesis by (auto simp del: map_map)
  qed
  have none: "?data = [] \<longleftrightarrow> (\<forall>u. meta_at env md (d, u) = None)"
  proof
    assume a: "?data = []"
    have "om_find (md_store md) (hash_key env (d, u)) = None" for u
      using a om_find_Some_mem[of "md_store md" "hash_key env (d, u)"] prefix_key[OF h d d, of u]
      by (cases "om_find (md_store md) (hash_key env (d, u))") (auto simp: filter_empty_conv)
    then show "\<forall>u. meta_at env md (d, u) = None" by (simp add: meta_at_def)
  next
    assume a: "\<forall>u. meta_at env md (d, u) = None"
    have "\<not> is_prefix_key ?pre k" if "(k, bs) \<in> set (md_store md)" for k bs
      using that a prefix_key_form[of env d k] om_find_mem[OF so(1) that] by (auto simp: meta_at_def)
    then show "?data = []" by (auto simp: filter_empty_conv)
  qed
  have "meta_at env md' (d', u') = meta_effect env (WPeerWaterMark w) (d, []) (meta_at env md) (d', u')" if d': "d' \<in> D" for d' u'
  proof -
    let ?k = "hash_key env (d', u')"
    have f: "om_find (md_store md') ?k = (case map_of ?kvs ?k of Some v \<Rightarrow> Some (?g v) | None \<Rightarrow> om_find (md_store md) ?k)"
      using find_fold[OF so(1) dist, of ?g ?k] md'(3) by simp
    show ?thesis
    proof (cases "?data = []")
      case True
      then have e: "?kvs = [(?pre, new_MetaDataValue)]" by simp
      have "wf_meta (new_MetaDataValue\<lparr>mv_peerWaterMark := w\<rparr>)" using wf_new by (simp add: wf_meta_def)
      note r = Serialize_roundtrip[OF this, of "me_be env"]
      show ?thesis using f True none hash_key_inj[OF h d' d, of u' "[]"] r
        unfolding e by (auto simp: meta_at_def meta_effect_def)
    next
      case False
      then have e: "?kvs = map (\<lambda>(k, bs). (k, ?de bs)) ?data" by simp
      have m: "map_of ?kvs ?k = (if d' = d then map_option ?de (om_find (md_store md) ?k) else None)"
      proof -
        have "map_of (map (\<lambda>(k, bs). (k, ?de bs)) ?data) ?k = map_option ?de (map_of ?data ?k)" by (simp add: map_of_map)
        also have "map_of ?data ?k = (if is_prefix_key ?pre ?k then om_find (md_store md) ?k else None)"
          using om_find_filter[OF so(1), of "\<lambda>(k, v). is_prefix_key ?pre k" ?k] by (auto simp: om_find_def split: option.split)
        finally show ?thesis unfolding e using prefix_key[OF h d d', of u'] by auto
      qed
      have wf: "wf_meta ((?de bs)\<lparr>mv_peerWaterMark := w\<rparr>)" for bs
        using DeSerialize_wf[OF wf_new, of "me_be env" bs] by (simp add: wf_meta_def)
      show ?thesis using f m False none Serialize_roundtrip[OF wf, of "me_be env"]
        by (auto simp: meta_at_def meta_effect_def split: option.split)
    qed
  qed
  then show ?thesis using md'(1,2) by blast
qed

lemma put_entry:
  assumes "md_ok env md1" "md_store md1 = md_store md" "hash_ok env D" "d \<in> D" "wf_meta v"
    "md_store md2 = om_insert (hash_key env (d, u)) (SerializeMetaData (me_be env) v) (md_store md1)"
  shows "\<forall>d' \<in> D. \<forall>u'. meta_at env md2 (d', u') = ((meta_at env md)((d, u) \<mapsto> v)) (d', u')"
proof (intro ballI allI)
  fix d' u' assume "d' \<in> D"
  then show "meta_at env md2 (d', u') = ((meta_at env md)((d, u) \<mapsto> v)) (d', u')"
    using meta_at_put[OF assms(1,3,4) _ assms(5), of d' u u'] meta_at_store[of md2 "md1\<lparr>md_store := md_store md2\<rparr>" env]
      meta_at_store[OF assms(2), of env] assms(6) by simp
qed

lemma peer_one:
  assumes "md_ok env md" "storage_works env" "hash_ok env D" "d \<in> D" "u \<noteq> []"
  shows "\<exists>md'. SavePeerWaterMark env d u w True md = (E_OK, md') \<and> md_ok env md' \<and>
    (\<forall>d' \<in> D. \<forall>u'. meta_at env md' (d', u') = meta_effect env (WPeerWaterMark w) (d, u) (meta_at env md) (d', u'))"
proof -
  let ?v = "meta_cur env (meta_at env md (d, u))"
  obtain e md1 where g: "GetMetaDataValue env d u True md = (e, ?v, md1)" "md_ok env md1" "md_store md1 = md_store md"
    using Get_ok[OF assms(1,2), of d u] by blast
  obtain md2 where h: "GetHashDeviceId env d u True md1 = (device_key (me_hash env d) u, md2)" "md_ok env md2" "md_store md2 = md_store md1"
    using GetHash_ok[OF g(2)] by blast
  obtain md3 where s: "save_peer env w [(hash_key env (d, u), ?v)] md2 = (E_OK, md3)" "md_ok env md3"
    "md_store md3 = om_insert (hash_key env (d, u)) (SerializeMetaData (me_be env) (?v\<lparr>mv_peerWaterMark := w\<rparr>)) (md_store md2)"
    using save_peer_fold[OF h(2) assms(2), of w "[(hash_key env (d, u), ?v)]"] by auto
  have "wf_meta (?v\<lparr>mv_peerWaterMark := w\<rparr>)" using wf_cur[of env md "(d, u)"] by (simp add: wf_meta_def)
  moreover have "md_store md2 = md_store md" using g(3) h(3) by simp
  ultimately have "\<forall>d' \<in> D. \<forall>u'. meta_at env md3 (d', u') = ((meta_at env md)((d, u) \<mapsto> ?v\<lparr>mv_peerWaterMark := w\<rparr>)) (d', u')"
    using put_entry[OF h(2) _ assms(3,4) _ s(3)] by blast
  moreover have "meta_effect env (WPeerWaterMark w) (d, u) (meta_at env md) = (meta_at env md)((d, u) \<mapsto> ?v\<lparr>mv_peerWaterMark := w\<rparr>)"
    using assms(5) by (simp add: meta_effect_def)
  moreover have "SavePeerWaterMark env d u w True md = (E_OK, md3)"
    using g(1) h(1) s(1) assms(5) by (simp add: SavePeerWaterMark_def hash_key_def)
  ultimately show ?thesis using s(2) by simp
qed

lemma create_time:
  assumes "md_ok env md" "storage_works env" "hash_ok env D" "d \<in> D"
  shows "\<exists>md'. SetDbCreateTime env d u t True md = (E_OK, md') \<and> md_ok env md' \<and>
    (\<forall>d' \<in> D. \<forall>u'. meta_at env md' (d', u') = meta_effect env (WDbCreateTime t) (d, u) (meta_at env md) (d', u'))"
proof -
  let ?c = "meta_cur env (meta_at env md (d, u))"
  let ?v = "meta_change env (WDbCreateTime t) ?c"
  obtain md1 where g: "GetMetaDataValue env d u True md = (if meta_at env md (d, u) = None then E_NOT_FOUND else E_OK, ?c, md1)"
    "md_ok env md1" "md_store md1 = md_store md" using Get_ok[OF assms(1,2), of d u] by blast
  obtain md2 where s: "SaveMetaDataValue env d u ?v True md1 = (E_OK, md2)" "md_ok env md2"
    "md_store md2 = om_insert (hash_key env (d, u)) (SerializeMetaData (me_be env) ?v) (md_store md1)"
    using Save_ok[OF g(2) assms(2), of d u ?v] by blast
  have w: "wf_meta ?v" using wf_cur[of env md "(d, u)"] by (auto simp: wf_meta_def)
  have "mv_dbCreateTime ?c = 0" if "meta_at env md (d, u) = None" using that by (simp add: meta_cur_def new_MetaDataValue_def)
  then have "SetDbCreateTime env d u t True md = SaveMetaDataValue env d u ?v True md1"
    using g(1) by (auto simp: SetDbCreateTime_def REMOVE_DEVICE_DATA_MARK_def)
  then show ?thesis using s(1,2) put_entry[OF g(2,3) assms(3,4) w s(3)] by (auto simp: meta_effect_def)
qed

lemma reset_removed:
  assumes "md_ok env md" "storage_works env" "hash_ok env D" "d \<in> D"
  shows "\<exists>md'. ResetMetaDataAfterRemoveData env d u md = (if meta_at env md (d, u) = None then E_NOT_FOUND else E_OK, md') \<and> md_ok env md' \<and>
    (\<forall>d' \<in> D. \<forall>u'. meta_at env md' (d', u') = meta_effect env WResetRemoved (d, u) (meta_at env md) (d', u'))"
proof -
  let ?v = "(meta_cur env (meta_at env md (d, u)))\<lparr>mv_clearDeviceDataMark := 0\<rparr>"
  obtain md1 where g: "GetMetaDataValue env d u True md = (if meta_at env md (d, u) = None then E_NOT_FOUND else E_OK,
      meta_cur env (meta_at env md (d, u)), md1)" "md_ok env md1" "md_store md1 = md_store md" using Get_ok[OF assms(1,2), of d u] by blast
  obtain md2 where s: "SaveMetaDataValue env d u ?v True md1 = (E_OK, md2)" "md_ok env md2"
    "md_store md2 = om_insert (hash_key env (d, u)) (SerializeMetaData (me_be env) ?v) (md_store md1)"
    using Save_ok[OF g(2) assms(2), of d u ?v] by blast
  have w: "wf_meta ?v" using wf_cur[of env md "(d, u)"] by (auto simp: wf_meta_def)
  show ?thesis using g(1,2) s(1,2) put_entry[OF g(2,3) assms(3,4) w s(3)] meta_at_store[OF g(3), of env]
    by (cases "meta_at env md (d, u) = None") (auto simp: ResetMetaDataAfterRemoveData_def meta_effect_def)
qed

lemma write_is_modify:
  assumes "w \<noteq> WResetRemoved" "\<forall>x. w \<noteq> WPeerWaterMark x" "\<forall>x. w \<noteq> WDbCreateTime x"
  shows "write_meta env w d u md = modify_meta env d u (meta_change env w) md"
    "meta_effect env w (d, u) M = M((d, u) \<mapsto> meta_change env w (meta_cur env (M (d, u))))"
proof -
  show "write_meta env w d u md = modify_meta env d u (meta_change env w) md" using assms
    by (cases w) (auto simp: SaveTimeOffset_def SaveLocalWaterMark_def SetSyncMark_def SetRemoteSchemaVersion_def SetSystemTimeOffset_def
      SetRemoteSoftwareVersion_def EraseBit_def intro!: arg_cong[where f="\<lambda>f. modify_meta env d u f md"])
  show "meta_effect env w (d, u) M = M((d, u) \<mapsto> meta_change env w (meta_cur env (M (d, u))))" using assms by (simp add: meta_effect_def)
qed

lemma write_meta_ok:
  assumes "md_ok env md" "storage_works env" "hash_ok env D" "d \<in> D" "write_valid w"
  shows "\<exists>md'. write_meta env w d u md = (if w = WResetRemoved \<and> meta_at env md (d, u) = None then E_NOT_FOUND else E_OK, md') \<and>
    md_ok env md' \<and> (\<forall>d' \<in> D. \<forall>u'. meta_at env md' (d', u') = meta_effect env w (d, u) (meta_at env md) (d', u'))"
proof -
  consider x where "w = WPeerWaterMark x" | x where "w = WDbCreateTime x" | "w = WResetRemoved"
    | "w \<noteq> WResetRemoved" "\<forall>x. w \<noteq> WPeerWaterMark x" "\<forall>x. w \<noteq> WDbCreateTime x" by blast
  then show ?thesis
  proof cases
    case 1
    then show ?thesis using Peer_all[OF assms(1-4)] peer_one[OF assms(1-4)] by (cases "u = []") simp_all
  next
    case 2
    then show ?thesis using create_time[OF assms(1-4)] by simp
  next
    case 3
    then show ?thesis using reset_removed[OF assms(1-4), of u] by simp
  next
    case 4
    then show ?thesis using modify_ok[OF assms(1-4), of "meta_change env w" u, OF wf_change[OF assms(5) wf_cur]] write_is_modify[OF 4]
      by simp
  qed
qed


section \<open>A read that fails\<close>

text \<open>
  The result of the read is not looked at: when the storage fails to read an entry for another reason than that it does not
  exist, the write that follows replaces all of its other fields by their initial values.
\<close>

lemma failed_read_erases:
  assumes "md_ok env md" "me_getErr env (hash_key env (d, u)) = E_BUSY" "me_putErr env (hash_key env (d, u)) = E_OK"
    "meta_at env md (d, u) = Some v"
  shows "\<exists>md'. SaveLocalWaterMark env d u w md = (E_OK, md') \<and> meta_at env md' (d, u) = Some (new_MetaDataValue\<lparr>mv_localWaterMark := w\<rparr>)"
proof -
  obtain md1 where h1: "GetHashDeviceId env d u True md = (device_key (me_hash env d) u, md1)" "md_ok env md1" "md_store md1 = md_store md"
    using GetHash_ok[OF assms(1)] by blast
  obtain md2 where h2: "GetHashDeviceId env d u True md1 = (device_key (me_hash env d) u, md2)" "md_ok env md2" "md_store md2 = md_store md1"
    using GetHash_ok[OF h1(2)] by blast
  have s: "md_hasStorage md1" "md_hasStorage md2" "om_ok (md_store md2)" using h1(2) h2(2) by (simp_all add: md_ok_def)
  have k: "str_bytes (device_key (me_hash env d) u) = hash_key env (d, u)" by (simp add: hash_key_def)
  have w: "wf_meta (new_MetaDataValue\<lparr>mv_localWaterMark := w\<rparr>)" using wf_new by (simp add: wf_meta_def)
  show ?thesis using h1 h2 s assms(2,3) Serialize_roundtrip[OF w, of "me_be env"]
    by (simp add: SaveLocalWaterMark_def modify_meta_def GetMetaDataValue_def GetMetaDataValueFromDB_def GetMetaDataValueFromDB_key_def
        GetMetadataFromDb_def SaveMetaDataValue_def SetMetadataToDb_def meta_at_def k om_find_insert)
qed

section \<open>Witnesses\<close>

definition sample_meta_env :: meta_env where
  "sample_meta_env = \<lparr>me_be = False, me_hash = (\<lambda>s. take 32 (s @ replicate 32 CHR ''0'')), me_getErr = (\<lambda>k. E_OK), me_putErr = (\<lambda>k. E_OK),
     me_keysErr = E_OK, me_timeChanged = False, me_sysTime = 7, me_rawTime = Some 5\<rparr>"

definition sample_md :: metadata where "sample_md = new_Metadata\<lparr>md_hasStorage := True\<rparr>"

lemma sample_md_ok: "md_ok sample_meta_env sample_md" "storage_works sample_meta_env" "hash_ok sample_meta_env {''a'', ''b''}"
proof -
  have "length (take 32 (s @ replicate 32 CHR ''0'')) = 32" for s by simp
  then show "hash_ok sample_meta_env {''a'', ''b''}" unfolding hash_ok_def sample_meta_env_def by (simp add: take_Cons')
qed (simp_all add: md_ok_def sample_md_def new_Metadata_def om_find_def om_ok_def storage_works_def sample_meta_env_def)


end
