(* ===== verification/Time_Helper.thy ===== *)
theory Time_Helper
  imports Meta_Data
begin

text \<open>
  \<^verbatim>\<open>TimeHelper\<close> (\<^verbatim>\<open>syncer/src/time_helper.cpp\<close>, \<^verbatim>\<open>time_helper_client.cpp\<close>): the timestamps that written data get.  They
  are the system time plus a local offset, and the last one that was given out is remembered in
  the metadata so that they do not go back when the system clock does.  What the operating system answers is a reading of the two
  clocks, \<open>None\<close> when it fails; the static members are the record \<open>time_helper\<close>.
\<close>

section \<open>State\<close>

record os_clock =
  oc_sys :: "u64 option"
  oc_mono :: "u64 option"

record time_helper =
  th_lastSystemTimeUs :: u64
  th_currentIncCount :: u64
  th_lastMonotonicTime :: u64

definition INVALID_TIMESTAMP :: u64 where "INVALID_TIMESTAMP = 0"
definition MAX_INC_COUNT :: u64 where "MAX_INC_COUNT = 9"
definition TO_100_NS :: u64 where "TO_100_NS = 10"
definition MS_TO_100_NS :: u64 where "MS_TO_100_NS = 10000"
definition MAX_VALID_TIME :: u64 where "MAX_VALID_TIME = 0x7FFFFFFFFFFFFFFF"
definition BUFFER_VALID_TIME :: u64 where "BUFFER_VALID_TIME = word_of_int (BASE_OFFSET * 2)"

section \<open>Clocks\<close>

definition GetSysCurrentTime :: "os_clock \<Rightarrow> time_helper \<Rightarrow> u64 \<times> time_helper" where
  "GetSysCurrentTime oc th =
     (case oc_sys oc of
        None \<Rightarrow> (INVALID_TIMESTAMP, th)
      | Some curTime \<Rightarrow>
          let th' = (if curTime = th_lastSystemTimeUs th
                     then (if th_currentIncCount th < MAX_INC_COUNT then th\<lparr>th_currentIncCount := th_currentIncCount th + 1\<rparr> else th)
                     else th\<lparr>th_lastSystemTimeUs := curTime, th_currentIncCount := 0\<rparr>)
          in (curTime * TO_100_NS + th_currentIncCount th', th'))"

definition GetSysCurrentRawTime :: "os_clock \<Rightarrow> u64 res" where
  "GetSysCurrentRawTime oc =
     (case oc_sys oc of
        None \<Rightarrow> Err E_SYSTEM_API_FAIL
      | Some curTime \<Rightarrow> if curTime > 0xFFFFFFFFFFFFFFFF div TO_100_NS then Err E_OUT_OF_DATE else Ok (curTime * TO_100_NS))"

definition GetMonotonicTime :: "os_clock \<Rightarrow> u64" where
  "GetMonotonicTime oc = (case oc_mono oc of None \<Rightarrow> INVALID_TIMESTAMP | Some t \<Rightarrow> t)"

text \<open>Signed 64-bit arithmetic: leaving the range is undefined.\<close>

definition s64 :: "int \<Rightarrow> int res" where
  "s64 i = (if in_range 64 i then Ok i else Fault)"

lemma s64_Ok [simp]: "s64 i = Ok j \<longleftrightarrow> in_range 64 i \<and> j = i"
  by (auto simp: s64_def)

section \<open>Timestamps\<close>

definition TimeHelper_Initialize :: "meta_env \<Rightarrow> os_clock \<Rightarrow> u64 \<Rightarrow> metadata \<times> time_helper \<Rightarrow> (errcode \<times> metadata \<times> time_helper) res" where
  "TimeHelper_Initialize env oc maxItemTime st =
     (case st of (md, th) \<Rightarrow>
        let (currentSysTime, th1) = GetSysCurrentTime oc th; localTimeOffset = GetLocalTimeOffset md
        in if currentSysTime > MAX_VALID_TIME \<or> maxItemTime > MAX_VALID_TIME then Ok (E_INVALID_TIME, md, th1)
           else res_bind (s64 (sint currentSysTime + localTimeOffset)) (\<lambda>v.
             if v < 0 then Ok (E_INVALID_TIME, md, th1)
             else let virtualSysTime = word_of_int v :: u64;
                      fix_it = virtualSysTime \<le> maxItemTime \<or> virtualSysTime > BUFFER_VALID_TIME;
                      offset = (if fix_it then sint (maxItemTime - currentSysTime + MS_TO_100_NS) else localTimeOffset);
                      (errCode, md1) = (if fix_it then SaveLocalTimeOffset env offset False md else (E_OK, md))
                  in if errCode \<noteq> E_OK then Ok (errCode, md1, th1)
                     else Ok (E_OK, SetLastLocalTime (currentSysTime + word_of_int offset) md1,
                              th1\<lparr>th_lastMonotonicTime := GetMonotonicTime oc\<rparr>)))"

definition GetTime :: "os_clock \<Rightarrow> metadata \<times> time_helper \<Rightarrow> u64 \<times> metadata \<times> time_helper" where
  "GetTime oc st =
     (case st of (md, th) \<Rightarrow>
        let (currentSysTime, th1) = GetSysCurrentTime oc th;
            currentLocalTime = currentSysTime + word_of_int (GetLocalTimeOffset md);
            lastLocalTime = GetLastLocalTime md;
            currentMonotonicTime = GetMonotonicTime oc;
            deltaTime = (if currentMonotonicTime \<noteq> INVALID_TIMESTAMP \<and> th_lastMonotonicTime th1 \<noteq> INVALID_TIMESTAMP
                         then currentMonotonicTime - th_lastMonotonicTime th1 else 1);
            th2 = th1\<lparr>th_lastMonotonicTime := currentMonotonicTime\<rparr>
        in if currentLocalTime \<le> lastLocalTime \<or> currentLocalTime > BUFFER_VALID_TIME
           then (lastLocalTime + deltaTime, SetLastLocalTime (lastLocalTime + deltaTime) md, th2)
           else (currentLocalTime, SetLastLocalTime currentLocalTime md, th2))"

fun GetTimes :: "os_clock list \<Rightarrow> metadata \<times> time_helper \<Rightarrow> u64 list" where
  "GetTimes [] st = []"
| "GetTimes (oc # ocs) st = (case GetTime oc st of (t, st') \<Rightarrow> t # GetTimes ocs st')"

section \<open>Timestamps do not go back\<close>

text \<open>
  The readings of the monotonic clock that succeed do not go back, from \<open>p\<close> on and up to \<open>m\<close>; or they
  go forward each time.
\<close>

fun mono_clock :: "u64 \<Rightarrow> nat \<Rightarrow> os_clock list \<Rightarrow> bool" where
  "mono_clock p m [] \<longleftrightarrow> unat p \<le> m"
| "mono_clock p m (oc # ocs) \<longleftrightarrow>
     (case oc_mono oc of None \<Rightarrow> mono_clock p m ocs | Some t \<Rightarrow> p \<le> t \<and> mono_clock t m ocs)"

fun ticking_clock :: "u64 \<Rightarrow> os_clock list \<Rightarrow> bool" where
  "ticking_clock p [] \<longleftrightarrow> True"
| "ticking_clock p (oc # ocs) \<longleftrightarrow>
     (case oc_mono oc of None \<Rightarrow> ticking_clock p ocs | Some t \<Rightarrow> p < t \<and> ticking_clock t ocs)"

lemma mono_clock_bound: "mono_clock p m ocs \<Longrightarrow> unat p \<le> m"
  by (induction ocs arbitrary: p) (auto simp: word_le_nat_alt split: option.splits intro: le_trans)

text \<open>The last reading the helper remembers is the latest that succeeded, or the mark that there is none.\<close>

definition remembers :: "u64 \<Rightarrow> time_helper \<Rightarrow> bool" where
  "remembers p th \<longleftrightarrow> th_lastMonotonicTime th = 0 \<or> th_lastMonotonicTime th = p"

text \<open>There is room for the time that passes until \<open>m\<close> and for \<open>n\<close> further calls.\<close>

definition room :: "u64 \<Rightarrow> nat \<Rightarrow> nat \<Rightarrow> metadata \<Rightarrow> bool" where
  "room p m n md \<longleftrightarrow> unat (GetLastLocalTime md) + (m - unat p) + n < 2 ^ 64 \<and> unat BUFFER_VALID_TIME + m + n < 2 ^ 64"

lemma GetSysCurrentTime_mono [simp]:
  "th_lastMonotonicTime (snd (GetSysCurrentTime oc th)) = th_lastMonotonicTime th"
  by (auto simp: GetSysCurrentTime_def Let_def split: option.splits)

text \<open>What one call adds at least and at most when the system clock is behind.\<close>

definition delta :: "os_clock \<Rightarrow> time_helper \<Rightarrow> u64" where
  "delta oc th =
     (if GetMonotonicTime oc \<noteq> INVALID_TIMESTAMP \<and> th_lastMonotonicTime th \<noteq> INVALID_TIMESTAMP
      then GetMonotonicTime oc - th_lastMonotonicTime th else 1)"

definition next_mono :: "u64 \<Rightarrow> os_clock \<Rightarrow> u64" where
  "next_mono p oc = (case oc_mono oc of None \<Rightarrow> p | Some t \<Rightarrow> t)"

lemma GetTime_cases:
  assumes "GetTime oc (md, th) = (t, md', th')"
  obtains
    (behind) "t = GetLastLocalTime md + delta oc th" "md' = SetLastLocalTime t md" "th_lastMonotonicTime th' = GetMonotonicTime oc"
  | (ahead) "GetLastLocalTime md < t" "t \<le> BUFFER_VALID_TIME" "md' = SetLastLocalTime t md"
      "th_lastMonotonicTime th' = GetMonotonicTime oc"
proof -
  obtain c th1 where sys: "GetSysCurrentTime oc th = (c, th1)"
    by (cases "GetSysCurrentTime oc th")
  then have "th_lastMonotonicTime th1 = th_lastMonotonicTime th"
    using GetSysCurrentTime_mono[of oc th] by simp
  with assms sys that show thesis
    by (auto simp: GetTime_def delta_def Let_def not_le split: if_splits)
qed

lemma SetLastLocalTime_above [simp]:
  "GetLastLocalTime md \<le> t \<Longrightarrow> GetLastLocalTime (SetLastLocalTime t md) = t"
  by (auto simp: GetLastLocalTime_def SetLastLocalTime_def)

lemma delta_bounds:
  assumes "remembers p th" "case oc_mono oc of None \<Rightarrow> True | Some t \<Rightarrow> p \<le> t"
  shows "unat (delta oc th) \<le> unat (next_mono p oc) - unat p + 1"
    and "(case oc_mono oc of None \<Rightarrow> True | Some t \<Rightarrow> p < t) \<Longrightarrow> 0 < unat (delta oc th)"
  using assms
  by (auto simp: delta_def remembers_def next_mono_def GetMonotonicTime_def INVALID_TIMESTAMP_def unat_sub word_le_nat_alt
      word_less_nat_alt unat_gt_0 split: option.splits)

text \<open>One call: the timestamp is not below the last one, and there is room for the calls to come.\<close>

lemma GetTime_step:
  assumes "GetTime oc (md, th) = (t, md', th')" "remembers p th" "room p m (Suc n) md"
    and "mono_clock p m (oc # ocs)"
  shows "GetLastLocalTime md \<le> t" "GetLastLocalTime md' = t" "remembers (next_mono p oc) th'" "room (next_mono p oc) m n md'"
    "mono_clock (next_mono p oc) m ocs" "ticking_clock p (oc # ocs) \<Longrightarrow> GetLastLocalTime md < t"
proof -
  have le: "case oc_mono oc of None \<Rightarrow> True | Some t \<Rightarrow> p \<le> t" and rest: "mono_clock (next_mono p oc) m ocs"
    using assms(4) by (auto simp: next_mono_def split: option.splits)
  have lem: "unat p \<le> unat (next_mono p oc)" "unat (next_mono p oc) \<le> m"
    using le mono_clock_bound[OF rest] by (auto simp: next_mono_def word_le_nat_alt split: option.splits)
  note d = delta_bounds(1)[OF assms(2) le]
  have mem: "remembers (next_mono p oc) th'" if "th_lastMonotonicTime th' = GetMonotonicTime oc"
    using that by (auto simp: remembers_def next_mono_def GetMonotonicTime_def INVALID_TIMESTAMP_def split: option.splits)
  have "GetLastLocalTime md \<le> t \<and> GetLastLocalTime md' = t \<and> remembers (next_mono p oc) th' \<and> room (next_mono p oc) m n md'
      \<and> (ticking_clock p (oc # ocs) \<longrightarrow> GetLastLocalTime md < t)"
    using assms(1)
  proof (cases rule: GetTime_cases)
    case behind
    have room: "unat (GetLastLocalTime md) + (m - unat p) + Suc n < 2 ^ 64" "unat BUFFER_VALID_TIME + m + Suc n < 2 ^ 64"
      using assms(3) unfolding room_def by blast+
    then have "unat (GetLastLocalTime md) + unat (delta oc th) < 2 ^ 64"
      using d lem by linarith
    then have t: "unat t = unat (GetLastLocalTime md) + unat (delta oc th)"
      using behind(1) by (simp add: unat_word_ariths)
    then have ge: "GetLastLocalTime md \<le> t" by (simp add: word_le_nat_alt)
    moreover have "room (next_mono p oc) m n md'"
      unfolding room_def behind(2) SetLastLocalTime_above[OF ge] t using d lem room by linarith
    moreover have "GetLastLocalTime md < t" if "ticking_clock p (oc # ocs)"
      using that t delta_bounds(2)[OF assms(2) le] by (auto simp: word_less_nat_alt split: option.splits)
    ultimately show ?thesis
      using behind mem by simp
  next
    case ahead
    have ge: "GetLastLocalTime md \<le> t" using ahead(1) by simp
    have "room (next_mono p oc) m n md'"
      using assms(3) ahead(2) lem unfolding room_def ahead(3) SetLastLocalTime_above[OF ge] word_le_nat_alt by linarith
    with ahead ge mem show ?thesis by simp
  qed
  then show "GetLastLocalTime md \<le> t" "GetLastLocalTime md' = t" "remembers (next_mono p oc) th'" "room (next_mono p oc) m n md'"
    "mono_clock (next_mono p oc) m ocs" "ticking_clock p (oc # ocs) \<Longrightarrow> GetLastLocalTime md < t"
    using rest by auto
qed

lemma ticking_next: "ticking_clock p (oc # ocs) \<Longrightarrow> ticking_clock (next_mono p oc) ocs"
  by (auto simp: next_mono_def split: option.splits)

lemma GetTimes_sorted:
  assumes "remembers p th" "room p m (length ocs) md" "mono_clock p m ocs"
  shows "sorted (GetLastLocalTime md # GetTimes ocs (md, th)) \<and>
    (ticking_clock p ocs \<longrightarrow> sorted_wrt (<) (GetLastLocalTime md # GetTimes ocs (md, th)))"
  using assms
proof (induction ocs arbitrary: md th p)
  case (Cons oc ocs)
  obtain t md' th' where g: "GetTime oc (md, th) = (t, md', th')"
    by (cases "GetTime oc (md, th)")
  have len: "room p m (Suc (length ocs)) md" using Cons.prems by simp
  note step = GetTime_step[OF g Cons.prems(1) len Cons.prems(3)]
  from Cons.IH[OF step(3-5)] step(1,2,6) ticking_next[of p oc ocs] g show ?case
    by (auto simp del: ticking_clock.simps)
qed simp

text \<open>
  C29: timestamps never go back.  As long as the last timestamp is a valid one, the successful readings of the monotonic
  clock do not go back and the counters are far from their limits, the timestamps of a sequence of calls are sorted and not below the
  last one given before, whatever the system clock does: it may jump in both directions or fail.  When the monotonic clock
  moves between any two calls, every timestamp is greater than the one before it.
\<close>

theorem timestamps_never_go_back:
  assumes "GetLastLocalTime md \<le> MAX_VALID_TIME" "length ocs \<le> 2 ^ 60" "mono_clock (th_lastMonotonicTime th) (2 ^ 60) ocs"
  shows "sorted (GetLastLocalTime md # GetTimes ocs (md, th)) \<and>
    (ticking_clock (th_lastMonotonicTime th) ocs \<longrightarrow> sorted_wrt (<) (GetLastLocalTime md # GetTimes ocs (md, th)))"
proof (rule GetTimes_sorted)
  have "unat (GetLastLocalTime md) \<le> unat MAX_VALID_TIME" using assms(1) by (simp add: word_le_nat_alt)
  then show "room (th_lastMonotonicTime th) (2 ^ 60) (length ocs) md"
    using assms(2) by (simp add: room_def MAX_VALID_TIME_def BUFFER_VALID_TIME_def BASE_OFFSET_def)
qed (use assms in \<open>auto simp: remembers_def\<close>)

theorem timestamps_never_go_back_witness:
  "sorted [100 :: u64, 101, 108, 109, 140] \<and>
   GetTimes [\<lparr>oc_sys = Some 3, oc_mono = Some 11\<rparr>, \<lparr>oc_sys = Some 2, oc_mono = Some 18\<rparr>, \<lparr>oc_sys = None, oc_mono = None\<rparr>,
             \<lparr>oc_sys = Some 14, oc_mono = Some 19\<rparr>]
     (new_Metadata\<lparr>md_lastLocalTime := 100\<rparr>, \<lparr>th_lastSystemTimeUs = 0, th_currentIncCount = 0, th_lastMonotonicTime = 10\<rparr>)
   = [101, 108, 109, 140]"
  using timestamps_never_go_back[of "new_Metadata\<lparr>md_lastLocalTime := 100\<rparr>"
      "[\<lparr>oc_sys = Some 3, oc_mono = Some 11\<rparr>, \<lparr>oc_sys = Some 2, oc_mono = Some 18\<rparr>, \<lparr>oc_sys = None, oc_mono = None\<rparr>,
        \<lparr>oc_sys = Some 14, oc_mono = Some 19\<rparr>]"
      "\<lparr>th_lastSystemTimeUs = 0, th_currentIncCount = 0, th_lastMonotonicTime = 10\<rparr>"]
  by (simp add: GetTime_def GetSysCurrentTime_def GetMonotonicTime_def GetLastLocalTime_def SetLastLocalTime_def new_Metadata_def
      GetLocalTimeOffset_def INVALID_TIMESTAMP_def MAX_INC_COUNT_def TO_100_NS_def BUFFER_VALID_TIME_def BASE_OFFSET_def
      MAX_VALID_TIME_def)

text \<open>
  Two calls within a microsecond with the system clock behind get the same timestamp: the increment is the time that
  has passed, which is zero then.
\<close>

lemma equal_timestamps:
  "GetTimes [\<lparr>oc_sys = Some 3, oc_mono = Some 11\<rparr>, \<lparr>oc_sys = Some 3, oc_mono = Some 11\<rparr>]
     (new_Metadata\<lparr>md_lastLocalTime := 100\<rparr>, \<lparr>th_lastSystemTimeUs = 0, th_currentIncCount = 0, th_lastMonotonicTime = 10\<rparr>)
   = [101, 101]"
  by (simp add: GetTime_def GetSysCurrentTime_def GetMonotonicTime_def GetLastLocalTime_def SetLastLocalTime_def new_Metadata_def
      GetLocalTimeOffset_def INVALID_TIMESTAMP_def MAX_INC_COUNT_def TO_100_NS_def BUFFER_VALID_TIME_def BASE_OFFSET_def)

section \<open>Starting up\<close>

text \<open>After a successful start the last timestamp is above the greatest one in the store, and still far from the limit of the counter.\<close>

lemma raised_offset:
  assumes "maxItem \<le> MAX_VALID_TIME"
  shows "cur + word_of_int (sint (maxItem - cur + MS_TO_100_NS)) = maxItem + MS_TO_100_NS"
    and "unat (maxItem + MS_TO_100_NS) = unat maxItem + 10000"
proof -
  show "cur + word_of_int (sint (maxItem - cur + MS_TO_100_NS)) = maxItem + MS_TO_100_NS"
    by simp
  have "unat maxItem \<le> unat MAX_VALID_TIME" using assms by (simp add: word_le_nat_alt)
  then show "unat (maxItem + MS_TO_100_NS) = unat maxItem + 10000"
    by (simp add: unat_word_ariths MS_TO_100_NS_def MAX_VALID_TIME_def)
qed

lemma Initialize_above:
  assumes "TimeHelper_Initialize env oc maxItem (md, th) = Ok (E_OK, md', th')"
  shows "maxItem < GetLastLocalTime md'" and "unat (GetLastLocalTime md') \<le> max (unat (GetLastLocalTime md)) (2 ^ 63 + 10000)"
proof -
  obtain c th1 where sys: "GetSysCurrentTime oc th = (c, th1)"
    by (cases "GetSysCurrentTime oc th")
  define v where "v = (word_of_int (sint c + GetLocalTimeOffset md) :: u64)"
  have item: "maxItem \<le> MAX_VALID_TIME"
    using assms sys by (auto simp: TimeHelper_Initialize_def Let_def split: if_splits)
  have top: "GetLastLocalTime md' = max (GetLastLocalTime md) (if v \<le> maxItem \<or> v > BUFFER_VALID_TIME then maxItem + MS_TO_100_NS else v)"
  proof (cases "v \<le> maxItem \<or> v > BUFFER_VALID_TIME")
    case True
    with assms sys item show ?thesis
      by (auto simp: TimeHelper_Initialize_def Let_def v_def[symmetric] s64_def SaveLocalTimeOffset_def raised_offset(1)
          GetLastLocalTime_def SetLastLocalTime_def max_def simp del: of_int_add split: if_splits)
  next
    case False
    have v: "c + word_of_int (GetLocalTimeOffset md) = v" by (simp add: v_def)
    from False assms sys show ?thesis
      by (auto simp: TimeHelper_Initialize_def Let_def v_def[symmetric] v s64_def GetLastLocalTime_def SetLastLocalTime_def max_def
          simp del: of_int_add split: if_splits)
  qed
  have "unat maxItem < 2 ^ 63" using item by (simp add: MAX_VALID_TIME_def word_le_nat_alt)
  moreover have "unat v \<le> 2 ^ 63" if "v \<le> BUFFER_VALID_TIME"
    using that by (simp add: BUFFER_VALID_TIME_def BASE_OFFSET_def word_le_nat_alt)
  ultimately show "maxItem < GetLastLocalTime md'" "unat (GetLastLocalTime md') \<le> max (unat (GetLastLocalTime md)) (2 ^ 63 + 10000)"
    using raised_offset(2)[OF item] unfolding top by (auto simp: word_less_nat_alt word_le_nat_alt max_def)
qed

lemma Initialize_mono:
  assumes "TimeHelper_Initialize env oc maxItem (md, th) = Ok (E_OK, md', th')"
  shows "th_lastMonotonicTime th' = GetMonotonicTime oc"
  using assms by (auto simp: TimeHelper_Initialize_def Let_def s64_def split: if_splits prod.splits)

text \<open>
  C30: new data get timestamps above all the stored ones.  When the helper has started successfully on a store whose greatest timestamp is
  \<open>maxItem\<close>, every timestamp it gives out from then on is greater than \<open>maxItem\<close>, however far back the system clock was set
  and whatever it does afterwards.
\<close>

theorem timestamps_above_stored:
  assumes "TimeHelper_Initialize env oc maxItem (md, th) = Ok (E_OK, md', th')" "GetLastLocalTime md \<le> MAX_VALID_TIME"
    and "length ocs \<le> 2 ^ 60" "mono_clock (GetMonotonicTime oc) (2 ^ 60) ocs" "t \<in> set (GetTimes ocs (md', th'))"
  shows "maxItem < t"
proof -
  have "unat (GetLastLocalTime md) \<le> unat MAX_VALID_TIME" using assms(2) by (simp add: word_le_nat_alt)
  then have "unat (GetLastLocalTime md') \<le> 2 ^ 63 + 10000"
    using Initialize_above(2)[OF assms(1)] by (simp add: MAX_VALID_TIME_def)
  then have "room (GetMonotonicTime oc) (2 ^ 60) (length ocs) md'"
    using assms(3) by (simp add: room_def BUFFER_VALID_TIME_def BASE_OFFSET_def)
  then have "sorted (GetLastLocalTime md' # GetTimes ocs (md', th'))"
    using GetTimes_sorted[of "GetMonotonicTime oc" th' "2 ^ 60" ocs md'] assms(4) Initialize_mono[OF assms(1)] by (simp add: remembers_def)
  then show ?thesis
    using assms(5) Initialize_above(1)[OF assms(1)] by auto
qed

text \<open>A store with data from the future: the system clock is at 3 microseconds, the data go up to 5000.\<close>

definition future_env :: meta_env where
  "future_env = \<lparr>me_be = False, me_hash = id, me_getErr = (\<lambda>_. E_OK), me_putErr = (\<lambda>_. E_OK), me_keysErr = E_OK,
     me_timeChanged = False, me_sysTime = 0, me_rawTime = None\<rparr>"

definition future_clock :: os_clock where
  "future_clock = \<lparr>oc_sys = Some 3, oc_mono = Some 7\<rparr>"

definition future_helper :: time_helper where
  "future_helper = \<lparr>th_lastSystemTimeUs = 0, th_currentIncCount = 0, th_lastMonotonicTime = 0\<rparr>"

lemmas time_evals = TimeHelper_Initialize_def GetTime_def GetSysCurrentTime_def GetMonotonicTime_def GetLastLocalTime_def SetLastLocalTime_def
  new_Metadata_def GetLocalTimeOffset_def INVALID_TIMESTAMP_def MAX_INC_COUNT_def TO_100_NS_def BUFFER_VALID_TIME_def BASE_OFFSET_def
  MAX_VALID_TIME_def MS_TO_100_NS_def SaveLocalTimeOffset_def s64_def in_range_def future_clock_def future_helper_def

lemma future_start:
  "TimeHelper_Initialize future_env future_clock 5000 (new_Metadata, future_helper) =
     Ok (E_OK, new_Metadata\<lparr>md_localTimeOffset := 14970, md_lastLocalTime := 15000\<rparr>,
         \<lparr>th_lastSystemTimeUs = 3, th_currentIncCount = 0, th_lastMonotonicTime = 7\<rparr>)"
  by (simp add: time_evals)

theorem timestamps_above_stored_witness:
  "(5000 :: u64) < 15001 \<and>
   GetTimes [future_clock, \<lparr>oc_sys = Some 3, oc_mono = Some 8\<rparr>]
     (new_Metadata\<lparr>md_localTimeOffset := 14970, md_lastLocalTime := 15000\<rparr>,
      \<lparr>th_lastSystemTimeUs = 3, th_currentIncCount = 0, th_lastMonotonicTime = 7\<rparr>) = [15001, 15002]"
  using timestamps_above_stored[OF future_start, of "[future_clock, \<lparr>oc_sys = Some 3, oc_mono = Some 8\<rparr>]" 15001]
  by (simp add: time_evals)

end
