(* ===== verification/Time_Sync_Packet.thy ===== *)
theory Time_Sync_Packet
  imports Time_Helper Message_Model
begin

text \<open>
  The packets of \<^verbatim>\<open>TimeSync\<close> (\<^verbatim>\<open>syncer/src/device/time_sync.cpp\<close>) and the functions that it registers with the message
  layer: lengths, writing into a frame and reading from it.  A packet is read back as it was written; packets of
  older versions, which are shorter, and of newer ones, of which only the version is read, are accepted.
\<close>

section \<open>Packets\<close>

definition TIME_SYNC_MESSAGE :: u32 where "TIME_SYNC_MESSAGE = 1"
definition TIME_SYNC_VERSION_V1 :: u32 where "TIME_SYNC_VERSION_V1 = 101"

record TimeSyncPacket =
  tp_sourceTimeBegin :: u64
  tp_sourceTimeEnd :: u64
  tp_targetTimeBegin :: u64
  tp_targetTimeEnd :: u64
  tp_version :: u32
  tp_requestLocalOffset :: int
  tp_responseLocalOffset :: int

definition new_TimeSyncPacket :: TimeSyncPacket where
  "new_TimeSyncPacket =
     \<lparr>tp_sourceTimeBegin = 0, tp_sourceTimeEnd = 0, tp_targetTimeBegin = 0, tp_targetTimeEnd = 0,
      tp_version = TIME_SYNC_VERSION_V1, tp_requestLocalOffset = 0, tp_responseLocalOffset = 0\<rparr>"

type_synonym ts_message = "TimeSyncPacket message"

definition TimeSyncPacket_CalculateLen :: u32 where
  "TimeSyncPacket_CalculateLen =
     (let len = GetUInt32Len + GetUInt64Len + GetUInt64Len + GetUInt64Len + GetUInt64Len
      in GetEightByteAlign len + GetInt64Len + GetInt64Len)"

definition IsPacketValid :: "ts_message option \<Rightarrow> u16 \<Rightarrow> bool" where
  "IsPacketValid inMsg mtype \<longleftrightarrow>
     (case inMsg of None \<Rightarrow> False | Some m \<Rightarrow> messageId m = TIME_SYNC_MESSAGE \<and> mtype = messageType m)"

definition either_valid :: "ts_message option \<Rightarrow> bool" where
  "either_valid inMsg \<longleftrightarrow> IsPacketValid inMsg TYPE_RESPONSE \<or> IsPacketValid inMsg TYPE_REQUEST"

definition TimeSync_CalculateLen :: "ts_message \<Rightarrow> u32" where
  "TimeSync_CalculateLen m =
     (if \<not> either_valid (Some m) then 0
      else case holder m of None \<Rightarrow> 0 | Some packet \<Rightarrow> TimeSyncPacket_CalculateLen)"

text \<open>A write whose error ends the serialization.\<close>

definition checked :: "pc_write \<Rightarrow> (parcel \<Rightarrow> (errcode \<times> byte list option) res) \<Rightarrow> parcel \<Rightarrow> (errcode \<times> byte list option) res" where
  "checked w k p = res_bind (w p) (\<lambda>(e, p'). if e \<noteq> E_OK then Ok (E_SECUREC_ERROR, pc_buf p') else k p')"

definition TimeSync_Serialization :: "bool \<Rightarrow> byte list option \<Rightarrow> u32 \<Rightarrow> ts_message \<Rightarrow> (errcode \<times> byte list option) res" where
  "TimeSync_Serialization be buffer len m =
     (if buffer = None \<or> \<not> either_valid (Some m) then Ok (E_INVALID_ARGS, buffer)
      else case holder m of
        None \<Rightarrow> Ok (E_INVALID_ARGS, buffer)
      | Some packet \<Rightarrow>
          if len \<noteq> TimeSyncPacket_CalculateLen then Ok (E_INVALID_ARGS, buffer)
          else checked (WriteUInt32 be TIME_SYNC_VERSION_V1)
                (checked (WriteUInt64 be (tp_sourceTimeBegin packet))
                 (checked (WriteUInt64 be (tp_sourceTimeEnd packet))
                  (checked (WriteUInt64 be (tp_targetTimeBegin packet))
                   (checked (WriteUInt64 be (tp_targetTimeEnd packet))
                    (\<lambda>p. res_bind (WriteInt64 be (tp_requestLocalOffset packet) (EightByteAlign p)) (\<lambda>(_, p1).
                         res_bind (WriteInt64 be (tp_responseLocalOffset packet) p1) (\<lambda>(_, p2).
                         Ok (if pc_isError p2 then E_PARSE_FAIL else E_OK, pc_buf p2))))))))
               (new_Parcel buffer len))"

text \<open>
  A failed read leaves the variable of the caller as it was, but its value is not used then, because the error of the parcel is
  looked at first; \<open>read_val\<close> stands for the variable.
\<close>

definition read_val :: "'v::zero option \<Rightarrow> 'v" where
  "read_val d = (case d of None \<Rightarrow> 0 | Some v \<Rightarrow> v)"

definition TimeSync_DeSerialization :: "bool \<Rightarrow> byte list option \<Rightarrow> u32 \<Rightarrow> ts_message \<Rightarrow> (errcode \<times> ts_message) res" where
  "TimeSync_DeSerialization be buffer len m =
     (if buffer = None \<or> \<not> either_valid (Some m) then Ok (E_INVALID_ARGS, m)
      else res_bind (ReadUInt32 be (new_Parcel buffer len)) (\<lambda>(_, version, p0).
        if pc_isError p0 then Ok (E_INVALID_ARGS, m)
        else if read_val version > TIME_SYNC_VERSION_V1
             then Ok (E_OK, m\<lparr>holder := Some (new_TimeSyncPacket\<lparr>tp_version := read_val version\<rparr>)\<rparr>)
        else res_bind (ReadUInt64 be p0) (\<lambda>(_, srcBegin, p1).
             res_bind (ReadUInt64 be p1) (\<lambda>(_, srcEnd, p2).
             res_bind (ReadUInt64 be p2) (\<lambda>(_, targetBegin, p3).
             res_bind (ReadUInt64 be p3) (\<lambda>(_, targetEnd, p4).
             if pc_isError p4 then Ok (E_INVALID_ARGS, m)
             else let packet = new_TimeSyncPacket\<lparr>tp_sourceTimeBegin := read_val srcBegin, tp_sourceTimeEnd := read_val srcEnd,
                        tp_targetTimeBegin := read_val targetBegin, tp_targetTimeEnd := read_val targetEnd\<rparr>;
                      p5 = EightByteAlign p4
                  in if \<not> IsContinueRead p5 then Ok (E_OK, m\<lparr>holder := Some packet\<rparr>)
                     else res_bind (ReadInt64 be p5) (\<lambda>(_, request, p6).
                          res_bind (ReadInt64 be p6) (\<lambda>(_, response, p7).
                          if pc_isError p7 then Ok (E_PARSE_FAIL, m)
                          else Ok (E_OK, m\<lparr>holder := Some (packet\<lparr>tp_requestLocalOffset := read_val request,
                                 tp_responseLocalOffset := read_val response\<rparr>)\<rparr>)))))))))"

text \<open>The functions registered for the message, on a buffer of the announced length.\<close>

definition RegisterTransformFunc :: "bool \<Rightarrow> TimeSyncPacket transforms \<Rightarrow> errcode \<times> TimeSyncPacket transforms" where
  "RegisterTransformFunc be = RegTransformFunction TIME_SYNC_MESSAGE
     \<lparr>rq_compute = Some TimeSync_CalculateLen,
      rq_serialize = Some (\<lambda>len m. case TimeSync_Serialization be (Some (replicate (unat len) 0)) len m of
        Ok (e, Some bs) \<Rightarrow> if e = E_OK then Some bs else None | _ \<Rightarrow> None),
      rq_deserialize = Some (\<lambda>bs m. case TimeSync_DeSerialization be (Some bs) (of_nat (length bs)) m of
        Ok (e, m') \<Rightarrow> if e = E_OK then Some m' else None | _ \<Rightarrow> None)\<rparr>"

section \<open>Packets on the wire\<close>

definition packet_ok :: "TimeSyncPacket \<Rightarrow> bool" where
  "packet_ok pk \<longleftrightarrow> tp_version pk = TIME_SYNC_VERSION_V1 \<and> in_range 64 (tp_requestLocalOffset pk) \<and> in_range 64 (tp_responseLocalOffset pk)"

text \<open>The packet as a sequence of fields, so that the laws of parcels apply.\<close>

definition times_items :: "TimeSyncPacket \<Rightarrow> parcel_item list" where
  "times_items pk = [PUInt32 TIME_SYNC_VERSION_V1, PUInt64 (tp_sourceTimeBegin pk), PUInt64 (tp_sourceTimeEnd pk),
     PUInt64 (tp_targetTimeBegin pk), PUInt64 (tp_targetTimeEnd pk), PAlign]"

definition packet_items :: "TimeSyncPacket \<Rightarrow> parcel_item list" where
  "packet_items pk = times_items pk @ [PInt64 (tp_requestLocalOffset pk), PInt64 (tp_responseLocalOffset pk)]"

lemma packet_len: "TimeSyncPacket_CalculateLen = 56"
  by (simp add: TimeSyncPacket_CalculateLen_def item_lens GetEightByteAlign_def BYTE_8_ALIGN_def)

lemma write_items_Cons_Ok:
  "write_items be (it # its) p = Ok (E_OK, p') \<longleftrightarrow>
     (\<exists>p1. write_item be it p = Ok (E_OK, p1) \<and> write_items be its p1 = Ok (E_OK, p'))"
  by (cases "write_item be it p") (auto split: if_splits)

lemma read_items_Cons_Ok:
  "read_items be (it # its) p = Ok (v # vs, p') \<longleftrightarrow>
     (\<exists>l p1. read_item be it p = Ok (l, v, p1) \<and> read_items be its p1 = Ok (vs, p'))"
  by (cases "read_item be it p"; cases "\<exists>x. read_items be its (snd (snd x)) = Fault") (auto simp: res_bind_eq_Ok)

lemma map_value_Ok: "inj K \<Longrightarrow> map_value K r = Ok (l, Some (K v), p) \<longleftrightarrow> r = Ok (l, Some v, p)"
  by (cases r) (auto simp: map_value_def dest: injD)

lemma read_items_error: "pc_isError p \<Longrightarrow> \<exists>vs. read_items be its p = Ok (vs, p)"
proof (induction its)
  case (Cons it its)
  then show ?case using error_items[of p be it] by auto
qed simp

lemma read_fields:
  "map_value PUInt32 r = Ok (l, Some (PUInt32 v), p) \<longleftrightarrow> r = Ok (l, Some v, p)"
  "map_value PUInt64 r' = Ok (l, Some (PUInt64 w), p) \<longleftrightarrow> r' = Ok (l, Some w, p)"
  "map_value PInt64 r'' = Ok (l, Some (PInt64 i), p) \<longleftrightarrow> r'' = Ok (l, Some i, p)"
  by (simp_all add: map_value_Ok inj_def)

text \<open>What the two functions do when the fields can be written and read.\<close>

lemma TimeSync_Serialization_items:
  assumes "either_valid (Some m)" "holder m = Some pk"
    and "write_items be (packet_items pk) (new_Parcel (Some bs) 56) = Ok (E_OK, p)" "\<not> pc_isError p"
  shows "TimeSync_Serialization be (Some bs) 56 m = Ok (E_OK, pc_buf p)"
  using assms
  by (auto simp: TimeSync_Serialization_def packet_items_def times_items_def write_items_Cons_Ok packet_len checked_def Let_def
      simp del: write_items.simps(2) split: if_splits)

lemma DeSerialization_times:
  assumes "either_valid (Some m)" "read_items be (times_items pk) (new_Parcel (Some bs) len) = Ok (map Some (times_items pk), p)" "\<not> pc_isError p"
  shows "TimeSync_DeSerialization be (Some bs) len m =
    (let packet = pk\<lparr>tp_version := TIME_SYNC_VERSION_V1, tp_requestLocalOffset := 0, tp_responseLocalOffset := 0\<rparr>
     in if \<not> IsContinueRead p then Ok (E_OK, m\<lparr>holder := Some packet\<rparr>)
        else res_bind (ReadInt64 be p) (\<lambda>(_, request, p6).
             res_bind (ReadInt64 be p6) (\<lambda>(_, response, p7).
             if pc_isError p7 then Ok (E_PARSE_FAIL, m)
             else Ok (E_OK, m\<lparr>holder := Some (packet\<lparr>tp_requestLocalOffset := read_val request, tp_responseLocalOffset := read_val response\<rparr>)\<rparr>))))"
proof -
  from assms(2) obtain l0 p0 where r0: "ReadUInt32 be (new_Parcel (Some bs) len) = Ok (l0, Some TIME_SYNC_VERSION_V1, p0)"
    and rest: "read_items be (tl (times_items pk)) p0 = Ok (map Some (tl (times_items pk)), p)"
    by (auto simp: times_items_def read_items_Cons_Ok[of _ "PUInt32 _"] read_fields simp del: read_items.simps(2))
  from rest obtain l1 p1 l2 p2 l3 p3 l4 p4 where r:
    "ReadUInt64 be p0 = Ok (l1, Some (tp_sourceTimeBegin pk), p1)" "ReadUInt64 be p1 = Ok (l2, Some (tp_sourceTimeEnd pk), p2)"
    "ReadUInt64 be p2 = Ok (l3, Some (tp_targetTimeBegin pk), p3)" "ReadUInt64 be p3 = Ok (l4, Some (tp_targetTimeEnd pk), p4)"
    "EightByteAlign p4 = p"
    by (auto simp: times_items_def read_items_Cons_Ok read_fields Let_def simp del: read_items.simps(2))
  have "\<not> pc_isError p4" using r(5) assms(3) by (auto simp: EightByteAlign_def)
  moreover have "\<not> pc_isError p0" using rest read_items_error[of p0 be "tl (times_items pk)"] assms(3) by auto
  moreover have "pk\<lparr>tp_version := TIME_SYNC_VERSION_V1, tp_requestLocalOffset := 0, tp_responseLocalOffset := 0\<rparr> =
     new_TimeSyncPacket\<lparr>tp_sourceTimeBegin := tp_sourceTimeBegin pk, tp_sourceTimeEnd := tp_sourceTimeEnd pk,
       tp_targetTimeBegin := tp_targetTimeBegin pk, tp_targetTimeEnd := tp_targetTimeEnd pk\<rparr>"
    by (cases pk) (simp add: new_TimeSyncPacket_def)
  ultimately show ?thesis using r0 r assms(1) by (simp add: TimeSync_DeSerialization_def read_val_def Let_def)
qed

lemma write_items_append:
  "write_items be (xs @ ys) p = Ok (E_OK, p') \<longleftrightarrow>
     (\<exists>p1. write_items be xs p = Ok (E_OK, p1) \<and> write_items be ys p1 = Ok (E_OK, p'))"
  by (induction xs arbitrary: p) (auto simp: write_items_Cons_Ok simp del: write_items.simps(2))

lemma items_ends: "items_end 0 (times_items pk) = 40" "items_end 40 [PInt64 a, PInt64 b] = 56"
  by (simp_all add: times_items_def item_lens align8_def)

lemma times_items_valid: "\<forall>it \<in> set (times_items pk). item_valid it"
  by (simp add: times_items_def)

text \<open>Writing the times and reading them back, in a buffer that has room for them.\<close>

lemma times_written:
  assumes "40 \<le> t" "length bs = t" "t < 2 ^ 32"
  shows "\<exists>b. write_items be (times_items pk) (pc_at bs 0 t) = Ok (E_OK, pc_at b 40 t) \<and> length b = t \<and>
    (\<forall>b2. length b2 = t \<longrightarrow> take 40 b2 = take 40 b \<longrightarrow>
      read_items be' (times_items pk) (pc_at b2 0 t) = Ok (map Some (times_items pk), pc_at b2 40 t))"
proof -
  have l: "pc_live bs 0 t" and e: "items_end 0 (times_items pk) \<le> t" using assms by (simp_all add: pc_live_def items_ends)
  from write_items_ok[OF l times_items_valid e, of be be'] show ?thesis
    using assms by (auto simp: items_ends pc_live_def)
qed

lemma offsets_written:
  assumes "packet_ok pk" "length bs = 56"
  shows "\<exists>b. write_items be [PInt64 (tp_requestLocalOffset pk), PInt64 (tp_responseLocalOffset pk)] (pc_at bs 40 56) = Ok (E_OK, pc_at b 56 56) \<and>
    length b = 56 \<and> take 40 b = take 40 bs \<and>
    (\<exists>l1 p1 l2. ReadInt64 be' (pc_at b 40 56) = Ok (l1, Some (tp_requestLocalOffset pk), p1) \<and>
      ReadInt64 be' p1 = Ok (l2, Some (tp_responseLocalOffset pk), pc_at b 56 56))"
proof -
  let ?its = "[PInt64 (tp_requestLocalOffset pk), PInt64 (tp_responseLocalOffset pk)]"
  have l: "pc_live bs 40 56" and v: "\<forall>it \<in> set ?its. item_valid it" and e: "items_end 40 ?its \<le> 56"
    using assms by (auto simp: pc_live_def packet_ok_def item_lens)
  from write_items_ok[OF l v e, of be be'] obtain b where b: "write_items be ?its (pc_at bs 40 56) = Ok (E_OK, pc_at b 56 56)"
    "take 40 b = take 40 bs" "length b = 56" "pc_live b 40 56 \<Longrightarrow> read_items be' ?its (pc_at b 40 56) = Ok (map Some ?its, pc_at b 56 56)"
    using assms(2) items_ends(2) by auto
  from b(3) have "read_items be' ?its (pc_at b 40 56) = Ok (map Some ?its, pc_at b 56 56)" by (intro b(4)) (simp add: pc_live_def)
  then show ?thesis
    using b(1-3) by (auto simp: read_items_Cons_Ok read_fields simp del: read_items.simps(2) write_items.simps(2))
qed

text \<open>A packet of the current length, and one of an older version without the local offsets.\<close>

lemma packet_roundtrip:
  assumes "either_valid (Some m)" "holder m = Some pk" "packet_ok pk" "either_valid (Some m')" "length bs = 56"
  shows "\<exists>b. TimeSync_Serialization be (Some bs) TimeSyncPacket_CalculateLen m = Ok (E_OK, Some b) \<and> length b = 56 \<and>
    TimeSync_DeSerialization be' (Some b) 56 m' = Ok (E_OK, m'\<lparr>holder := Some pk\<rparr>)"
proof -
  have new: "new_Parcel (Some b) 56 = pc_at b 0 56" for b by (simp add: new_Parcel_at)
  from times_written[OF _ assms(5), of be pk be'] obtain b1 where b1:
    "write_items be (times_items pk) (pc_at bs 0 56) = Ok (E_OK, pc_at b1 40 56)" "length b1 = 56"
    "\<And>b2. length b2 = 56 \<Longrightarrow> take 40 b2 = take 40 b1 \<Longrightarrow>
      read_items be' (times_items pk) (pc_at b2 0 56) = Ok (map Some (times_items pk), pc_at b2 40 56)" by fastforce
  from offsets_written[OF assms(3) b1(2), of be be'] obtain b l1 p1 l2 where b:
    "write_items be [PInt64 (tp_requestLocalOffset pk), PInt64 (tp_responseLocalOffset pk)] (pc_at b1 40 56) = Ok (E_OK, pc_at b 56 56)"
    "length b = 56" "take 40 b = take 40 b1" "ReadInt64 be' (pc_at b 40 56) = Ok (l1, Some (tp_requestLocalOffset pk), p1)"
    "ReadInt64 be' p1 = Ok (l2, Some (tp_responseLocalOffset pk), pc_at b 56 56)" by blast
  have w: "write_items be (packet_items pk) (new_Parcel (Some bs) 56) = Ok (E_OK, pc_at b 56 56)"
    using b1(1) b(1) by (auto simp: packet_items_def write_items_append new simp del: write_items.simps(2))
  have r: "read_items be' (times_items pk) (new_Parcel (Some b) 56) = Ok (map Some (times_items pk), pc_at b 40 56)"
    using b1(3)[OF b(2,3)] by (simp add: new)
  show ?thesis
    using TimeSync_Serialization_items[OF assms(1,2) w] DeSerialization_times[OF assms(4) r] b assms(3)
    by (simp add: packet_len IsContinueRead_def read_val_def packet_ok_def Let_def)
qed

lemma old_packet_read:
  assumes "either_valid (Some m')" "length bs = 40"
  shows "\<exists>b. write_items be (times_items pk) (new_Parcel (Some bs) 40) = Ok (E_OK, pc_at b 40 40) \<and>
    TimeSync_DeSerialization be' (Some b) 40 m' =
      Ok (E_OK, m'\<lparr>holder := Some (pk\<lparr>tp_version := TIME_SYNC_VERSION_V1, tp_requestLocalOffset := 0, tp_responseLocalOffset := 0\<rparr>)\<rparr>)"
proof -
  have new: "new_Parcel (Some b) 40 = pc_at b 0 40" for b by (simp add: new_Parcel_at)
  from times_written[OF _ assms(2), of be pk be'] obtain b where b:
    "write_items be (times_items pk) (pc_at bs 0 40) = Ok (E_OK, pc_at b 40 40)"
    "read_items be' (times_items pk) (pc_at b 0 40) = Ok (map Some (times_items pk), pc_at b 40 40)" by fastforce
  then have r: "read_items be' (times_items pk) (new_Parcel (Some b) 40) = Ok (map Some (times_items pk), pc_at b 40 40)" by (simp add: new)
  show ?thesis using DeSerialization_times[OF assms(1) r] b(1) by (auto simp: new IsContinueRead_def Let_def)
qed

text \<open>A packet of a newer version is accepted, with its version only.\<close>

lemma new_packet_read:
  assumes "either_valid (Some m')" "TIME_SYNC_VERSION_V1 < v" "WriteUInt32 be v (new_Parcel (Some bs) len) = Ok (E_OK, p)"
    and "len \<noteq> 0" "unat len \<le> length bs" "pc_buf p = Some b"
  shows "TimeSync_DeSerialization be' (Some b) len m' = Ok (E_OK, m'\<lparr>holder := Some (new_TimeSyncPacket\<lparr>tp_version := v\<rparr>)\<rparr>)"
proof -
  note l = new_Parcel_live[OF assms(5)] and a = new_Parcel_at[OF assms(4)]
  have room: "0 + 4 \<le> unat len"
    using u32.write_full[OF l, where v=v and be=be] assms(3) by (auto simp: a not_less[symmetric])
  from u32.write_then_read[OF l _ room, where v=v and be=be and K=id and be'=be'] assms(3,6)
  have "length b = length bs" "map_value id (ReadUInt32 be' (pc_at b 0 (unat len))) = Ok (4, Some v, pc_at b 4 (unat len))"
    by (auto simp: a pc_live_def)
  then have "ReadUInt32 be' (pc_at b 0 (unat len)) = Ok (4, Some v, pc_at b 4 (unat len))"
    by (simp add: map_value_def res_bind_eq_Ok split: prod.splits)
  then show ?thesis using assms(1,2) by (simp add: TimeSync_DeSerialization_def a read_val_def)
qed

end
