(* ===== verification/Time_Sync.thy ===== *)
theory Time_Sync
  imports Time_Sync_Packet "HOL-Library.Signed_Division"
begin

text \<open>
  \<^verbatim>\<open>TimeSync\<close> (\<^verbatim>\<open>syncer/src/device/time_sync.cpp\<close>): how two devices find the offset between their clocks.  The requester sends the
  time at which it started, the responder adds the times at which it received and answered, and the
  requester computes the offset when the answer arrives.  The world of one instance is its members, the metadata, the time helper, the
  table of offsets that the process keeps (\<^verbatim>\<open>RuntimeContextImpl\<close>), the readings of the clocks to come and the messages
  handed to the communicator.  The reading of the clock inside \<^verbatim>\<open>Metadata::SaveTimeOffset\<close> is a field of the metadata's environment.
  Signed arithmetic that leaves its range is a \<open>Fault\<close>.
\<close>

section \<open>State\<close>

record DeviceTimeInfo =
  di_recordTime :: u64
  di_systemTimeOffset :: int
  di_rtt :: int

definition new_DeviceTimeInfo :: DeviceTimeInfo where
  "new_DeviceTimeInfo = \<lparr>di_recordTime = 0, di_systemTimeOffset = 0, di_rtt = 0\<rparr>"

type_synonym time_infos = "(string, DeviceTimeInfo) omap"

definition GetDeviceTimeInfo :: "string \<Rightarrow> time_infos \<Rightarrow> errcode \<times> DeviceTimeInfo" where
  "GetDeviceTimeInfo device infos =
     (case om_find infos device of None \<Rightarrow> (E_NOT_FOUND, new_DeviceTimeInfo) | Some info \<Rightarrow> (E_OK, info))"

definition SetDeviceTimeInfo :: "string \<Rightarrow> DeviceTimeInfo \<Rightarrow> time_infos \<Rightarrow> time_infos" where
  "SetDeviceTimeInfo device info infos = om_insert device info infos"

definition ClearDeviceTimeInfo :: "string \<Rightarrow> time_infos \<Rightarrow> time_infos" where
  "ClearDeviceTimeInfo device infos = om_erase device infos"

definition ClearAllDeviceTimeInfo :: "time_infos \<Rightarrow> time_infos" where
  "ClearAllDeviceTimeInfo infos = []"

definition INVALID_TASK_ID :: u64 where "INVALID_TASK_ID = 0"

record time_sync =
  ts_deviceId :: string
  ts_userId :: string
  ts_retryTime :: nat
  ts_driverTimerId :: u64
  ts_isSynced :: bool
  ts_isAckReceived :: bool
  ts_isOnline :: bool
  ts_closed :: bool
  ts_sessionBeginTime :: "(u32, u64) omap"
  ts_timeDriverTaskId :: u64

definition new_TimeSync :: "time_sync" where
  "new_TimeSync = \<lparr>ts_deviceId = [], ts_userId = [], ts_retryTime = 0, ts_driverTimerId = 0, ts_isSynced = False,
     ts_isAckReceived = False, ts_isOnline = True, ts_closed = False, ts_sessionBeginTime = [], ts_timeDriverTaskId = INVALID_TASK_ID\<rparr>"

text \<open>The handler a message was sent with: the one that notes the sending time, with or without the one that follows the connection.\<close>

datatype send_end = NoHandler | SendEnd bool

record ts_world =
  tw_ts :: time_sync
  tw_md :: metadata
  tw_th :: time_helper
  tw_infos :: time_infos
  tw_clocks :: "os_clock list"
  tw_sent :: "(ts_message \<times> send_end \<times> bool) list"

text \<open>
  What the surroundings answer: the version of the remote communicator, the result of handing a message over,
  of setting a timer and of scheduling a task, and whether memory is available.
\<close>

record ts_env =
  te_meta :: meta_env
  te_version :: "errcode \<times> u16"
  te_send :: "ts_message \<Rightarrow> errcode"
  te_timer :: "errcode \<times> u64"
  te_task :: "errcode \<times> u64"
  te_memory :: bool

definition TIME_SYNC_INTERVAL :: u64 where "TIME_SYNC_INTERVAL = 24 * 60 * 60 * 1000"
definition MAX_TIME_OFFSET_NOISE :: int where "MAX_TIME_OFFSET_NOISE = 1 * 1000 * 10000"
definition MAX_TIME_RTT_NOISE :: int where "MAX_TIME_RTT_NOISE = 1 * 1000 * 10000"
definition RTT_NOISE_CHECK_INTERVAL :: u64 where "RTT_NOISE_CHECK_INTERVAL = 30 * 60 * 1000 * 10000"
definition MAX_RETRY_TIME :: nat where "MAX_RETRY_TIME = 1"
definition SOFTWARE_VERSION_RELEASE_9_0 :: u32 where "SOFTWARE_VERSION_RELEASE_9_0 = 109"
definition INT64_MAX :: int where "INT64_MAX = 2 ^ 63 - 1"

type_synonym 'v ts_op = "ts_world \<Rightarrow> ('v \<times> ts_world) res"

text \<open>Readings of the clocks are used up one by one; without any left the clocks fail.\<close>

definition next_clock :: "ts_world \<Rightarrow> os_clock \<times> ts_world" where
  "next_clock w =
     (case tw_clocks w of [] \<Rightarrow> (\<lparr>oc_sys = None, oc_mono = None\<rparr>, w) | oc # ocs \<Rightarrow> (oc, w\<lparr>tw_clocks := ocs\<rparr>))"

definition time_now :: "ts_world \<Rightarrow> u64 \<times> ts_world" where
  "time_now w = (let (oc, w1) = next_clock w; (t, md, th) = GetTime oc (tw_md w1, tw_th w1) in (t, w1\<lparr>tw_md := md, tw_th := th\<rparr>))"

definition sys_now :: "ts_world \<Rightarrow> u64 \<times> ts_world" where
  "sys_now w = (let (oc, w1) = next_clock w; (t, th) = GetSysCurrentTime oc (tw_th w1) in (t, w1\<lparr>tw_th := th\<rparr>))"

text \<open>An operation of the metadata, for the remote device and user of the instance.\<close>

definition on_meta :: "(string \<Rightarrow> string \<Rightarrow> metadata \<Rightarrow> 'v \<times> metadata) \<Rightarrow> ts_world \<Rightarrow> 'v \<times> ts_world" where
  "on_meta f w = (let (v, md) = f (ts_deviceId (tw_ts w)) (ts_userId (tw_ts w)) (tw_md w) in (v, w\<lparr>tw_md := md\<rparr>))"

section \<open>Arithmetic\<close>

definition s_abs :: "int \<Rightarrow> int res" where "s_abs i = s64 \<bar>i\<bar>"

definition CalculateTimeOffset :: "TimeSyncPacket \<Rightarrow> (int \<times> int) res" where
  "CalculateTimeOffset pk =
     (let roundTrip = sint ((tp_sourceTimeEnd pk - tp_sourceTimeBegin pk) - (tp_targetTimeEnd pk - tp_targetTimeBegin pk))
      in res_bind (s64 (sint (tp_targetTimeBegin pk - tp_sourceTimeBegin pk) - roundTrip sdiv 2)) (\<lambda>offset1.
         res_bind (s64 (sint (tp_targetTimeEnd pk - tp_sourceTimeEnd pk) + roundTrip sdiv 2)) (\<lambda>offset2.
         res_bind (s64 (offset1 sdiv 2 + offset2 sdiv 2)) (\<lambda>offset. Ok (offset, roundTrip)))))"

definition CalculateRawTimeOffset :: "TimeSyncPacket \<Rightarrow> int \<Rightarrow> int res" where
  "CalculateRawTimeOffset pk deltaTime =
     res_bind (s64 (deltaTime + tp_requestLocalOffset pk)) (\<lambda>d. s64 (d - tp_responseLocalOffset pk))"

section \<open>Marks\<close>

definition IsRemoteLowVersion :: "ts_env \<Rightarrow> u32 \<Rightarrow> bool" where
  "IsRemoteLowVersion env checkVersion \<longleftrightarrow>
     (case te_version env of (errCode, ver) \<Rightarrow>
        errCode = E_NOT_FOUND \<or> ucast ver < checkVersion - SOFTWARE_VERSION_EARLIEST)"

definition IsNeedSync :: "ts_world \<Rightarrow> bool" where
  "IsNeedSync w \<longleftrightarrow> \<not> ts_isSynced (tw_ts w)"

definition SetTimeSyncFinishInner :: "ts_env \<Rightarrow> bool \<Rightarrow> ts_world \<Rightarrow> ts_world" where
  "SetTimeSyncFinishInner env finish w =
     (let w1 = w\<lparr>tw_ts := (tw_ts w)\<lparr>ts_isSynced := finish\<rparr>\<rparr>
      in if IsRemoteLowVersion env SOFTWARE_VERSION_RELEASE_9_0 then w1
         else snd (on_meta (\<lambda>d u. SetTimeSyncFinishMark (te_meta env) d u finish) w1))"

definition clear_info :: "ts_world \<Rightarrow> ts_world" where
  "clear_info w = w\<lparr>tw_infos := ClearDeviceTimeInfo (ts_deviceId (tw_ts w)) (tw_infos w)\<rparr>"

definition ClearTimeSyncFinish :: "ts_env \<Rightarrow> ts_world \<Rightarrow> ts_world" where
  "ClearTimeSyncFinish env w = SetTimeSyncFinishInner env False (clear_info w)"

definition CheckSkipTimeSync :: "DeviceTimeInfo \<Rightarrow> ts_world \<Rightarrow> bool \<times> ts_world" where
  "CheckSkipTimeSync info w =
     (let (currentRawTime, w1) = sys_now w
      in if currentRawTime < di_recordTime info then (False, w1)
         else let (t, w2) = sys_now w1; interval = t - di_recordTime info
              in (di_rtt info < MAX_TIME_RTT_NOISE \<or> \<not> interval > RTT_NOISE_CHECK_INTERVAL, w2))"

definition SetTimeSyncFinishIfNeed :: "ts_env \<Rightarrow> ts_world \<Rightarrow> ts_world res" where
  "SetTimeSyncFinishIfNeed env w =
     (let (errCode, info) = GetDeviceTimeInfo (ts_deviceId (tw_ts w)) (tw_infos w)
      in if errCode \<noteq> E_OK then Ok w
         else let (systemTimeOffset, w1) = on_meta (GetSystemTimeOffset (te_meta env)) w;
                  (skip, w2) = CheckSkipTimeSync info w1
              in res_bind (if skip \<and> IsNeedSync w2
                           then res_bind (s64 (systemTimeOffset - di_systemTimeOffset info)) (\<lambda>d.
                                res_bind (s_abs d) (\<lambda>a. Ok (a \<ge> MAX_TIME_OFFSET_NOISE)))
                           else Ok (\<not> skip)) (\<lambda>again.
                 if again then Ok (SetTimeSyncFinishInner env False w2)
                 else let w3 = (if IsNeedSync w2 then SetTimeSyncFinishInner env True w2 else w2)
                      in Ok (if systemTimeOffset \<noteq> di_systemTimeOffset info
                             then snd (on_meta (\<lambda>d u. SetSystemTimeOffset (te_meta env) d u (di_systemTimeOffset info)) w3)
                             else w3)))"

section \<open>Requesting\<close>

definition SendPacket :: "ts_env \<Rightarrow> ts_message \<Rightarrow> send_end \<Rightarrow> bool \<Rightarrow> ts_world \<Rightarrow> errcode \<times> ts_world" where
  "SendPacket env m handler isRetryTask w =
     (let errCode = te_send env m
      in (errCode, if errCode = E_OK then w\<lparr>tw_sent := tw_sent w @ [(m, handler, isRetryTask)]\<rparr> else w))"

definition SyncStart :: "ts_env \<Rightarrow> bool \<Rightarrow> u32 \<Rightarrow> bool \<Rightarrow> ts_world \<Rightarrow> errcode \<times> ts_world" where
  "SyncStart env handler sid isRetryTask w0 =
     (let w = w0\<lparr>tw_ts := (tw_ts w0)\<lparr>ts_isOnline := True\<rparr>\<rparr>;
          (startTime, w1) = time_now w;
          packet = new_TimeSyncPacket\<lparr>tp_sourceTimeBegin := startTime, tp_requestLocalOffset := GetLocalTimeOffset (tw_md w1)\<rparr>
      in if \<not> te_memory env then (E_OUT_OF_MEMORY, w1)
         else SendPacket env
                ((SetMessageType TYPE_REQUEST (new_Message\<lparr>messageId := TIME_SYNC_MESSAGE, sessionId := sid\<rparr>))\<lparr>msg_prio := NORMAL,
                   holder := Some packet\<rparr>) (SendEnd handler) isRetryTask w1)"

definition SetOnline :: "bool \<Rightarrow> ts_world \<Rightarrow> ts_world" where
  "SetOnline isOnline w = w\<lparr>tw_ts := (tw_ts w)\<lparr>ts_isOnline := isOnline\<rparr>\<rparr>"

definition CommErrHandlerFunc :: "errcode \<Rightarrow> ts_world \<Rightarrow> ts_world" where
  "CommErrHandlerFunc errCode w = SetOnline (errCode = E_OK) w"

text \<open>What the communicator calls when the request has left, and when it could not be sent.\<close>

definition OnSendEnd :: "bool \<Rightarrow> u32 \<Rightarrow> errcode \<Rightarrow> ts_world \<Rightarrow> ts_world" where
  "OnSendEnd handler sid errCode w =
     (if ts_closed (tw_ts w) then w
      else let (t, w1) = time_now w;
               w2 = w1\<lparr>tw_ts := (tw_ts w1)\<lparr>ts_sessionBeginTime := om_insert sid t []\<rparr>\<rparr>
           in if handler then CommErrHandlerFunc errCode w2 else w2)"

definition GetSourceBeginTime :: "u64 \<Rightarrow> u32 \<Rightarrow> ts_world \<Rightarrow> u64" where
  "GetSourceBeginTime packetBeginTime sid w =
     (case om_find (ts_sessionBeginTime (tw_ts w)) sid of None \<Rightarrow> packetBeginTime | Some sendTime \<Rightarrow> sendTime)"

definition ResetTimer :: "ts_env \<Rightarrow> ts_world \<Rightarrow> ts_world" where
  "ResetTimer env w =
     (let timerId = ts_driverTimerId (tw_ts w); w1 = w\<lparr>tw_ts := (tw_ts w)\<lparr>ts_driverTimerId := 0\<rparr>\<rparr>
      in if timerId = 0 then w1
         else case te_timer env of (errCode, newId) \<Rightarrow>
                if errCode \<noteq> E_OK then w1 else w1\<lparr>tw_ts := (tw_ts w1)\<lparr>ts_driverTimerId := newId\<rparr>\<rparr>)"

definition SaveOffsetWithAck :: "ts_env \<Rightarrow> TimeSyncPacket \<Rightarrow> errcode ts_op" where
  "SaveOffsetWithAck env ackPacket w =
     res_bind (CalculateTimeOffset ackPacket) (\<lambda>(offset, rtt).
     res_bind (CalculateRawTimeOffset ackPacket offset) (\<lambda>rawOffset.
       let (errCode, w1) = on_meta (\<lambda>d u. SaveTimeOffset (te_meta env) d u offset) w
       in if errCode \<noteq> E_OK then Ok (errCode, w1)
          else let (errCode', w2) = on_meta (\<lambda>d u. SetSystemTimeOffset (te_meta env) d u rawOffset) w1
               in if errCode' \<noteq> E_OK then Ok (errCode', w2)
                  else let (t, w3) = sys_now w2;
                           info = \<lparr>di_recordTime = t, di_systemTimeOffset = rawOffset, di_rtt = rtt\<rparr>;
                           w4 = w3\<lparr>tw_infos := SetDeviceTimeInfo (ts_deviceId (tw_ts w3)) info (tw_infos w3)\<rparr>
                       in Ok (E_OK, SetTimeSyncFinishInner env True w4)))"

definition AckRecv :: "ts_env \<Rightarrow> ts_message option \<Rightarrow> u32 \<Rightarrow> errcode ts_op" where
  "AckRecv env inMsg targetSessionId w =
     (if (case inMsg of None \<Rightarrow> False | Some m \<Rightarrow>
            sessionId m \<noteq> 0 \<and> sessionId m = targetSessionId \<and> errorNo m = FEEDBACK_COMMUNICATOR_NOT_FOUND_NO)
      then Ok (E_FEEDBACK_COMMUNICATOR_NOT_FOUND, w)
      else if \<not> IsPacketValid inMsg TYPE_RESPONSE then Ok (E_INVALID_ARGS, w)
      else case holder (the inMsg) of
        None \<Rightarrow> Ok (E_INVALID_ARGS, w)
      | Some packet \<Rightarrow>
          let (sourceTimeEnd, w1) = time_now w;
              pd = packet\<lparr>tp_sourceTimeBegin := GetSourceBeginTime (tp_sourceTimeBegin packet) targetSessionId w1,
                     tp_sourceTimeEnd := sourceTimeEnd\<rparr>
          in if tp_sourceTimeBegin pd > tp_sourceTimeEnd pd \<or> tp_targetTimeBegin pd > tp_targetTimeEnd pd \<or>
                tp_sourceTimeEnd pd > MAX_VALID_TIME \<or> tp_targetTimeEnd pd > MAX_VALID_TIME
             then Ok (E_INVALID_TIME, w1)
             else res_bind (SaveOffsetWithAck env pd w1) (\<lambda>(errCode, w2).
                    Ok (errCode, ResetTimer env (w2\<lparr>tw_ts := (tw_ts w2)\<lparr>ts_isAckReceived := True\<rparr>\<rparr>))))"

section \<open>Responding\<close>

definition BuildAckPacket :: "TimeSyncPacket \<Rightarrow> ts_world \<Rightarrow> TimeSyncPacket \<times> ts_world" where
  "BuildAckPacket request w =
     (let (targetTimeBegin, w1) = time_now w; (targetTimeEnd, w2) = time_now w1
      in (request\<lparr>tp_targetTimeBegin := targetTimeBegin, tp_targetTimeEnd := targetTimeEnd,
            tp_requestLocalOffset := tp_requestLocalOffset request, tp_responseLocalOffset := GetLocalTimeOffset (tw_md w2)\<rparr>, w2))"

definition CheckReTimeSyncIfNeedWithLowVersion :: "ts_env \<Rightarrow> int \<Rightarrow> bool ts_op" where
  "CheckReTimeSyncIfNeedWithLowVersion env timeOffsetIgnoreRtt w =
     (let (metadataTimeOffset, w1) = on_meta (GetTimeOffset (te_meta env)) w
      in res_bind (s_abs metadataTimeOffset) (\<lambda>a.
         if a \<ge> INT64_MAX div 2 then Ok (True, w1)
         else res_bind (s64 (metadataTimeOffset - timeOffsetIgnoreRtt)) (\<lambda>d.
              res_bind (s_abs d) (\<lambda>n. Ok (n > MAX_TIME_OFFSET_NOISE, w1)))))"

definition CheckReTimeSyncIfNeedWithHighVersion :: "int \<Rightarrow> TimeSyncPacket \<Rightarrow> bool ts_op" where
  "CheckReTimeSyncIfNeedWithHighVersion timeOffsetIgnoreRtt ackPacket w =
     res_bind (s64 (timeOffsetIgnoreRtt - tp_requestLocalOffset ackPacket)) (\<lambda>d.
     res_bind (s64 (d + tp_responseLocalOffset ackPacket)) (\<lambda>rawTimeOffset.
       let (errCode, info) = GetDeviceTimeInfo (ts_deviceId (tw_ts w)) (tw_infos w)
       in if errCode = E_NOT_FOUND then Ok (True, w)
          else res_bind (s64 (di_systemTimeOffset info - rawTimeOffset)) (\<lambda>x.
               res_bind (s_abs x) (\<lambda>n. Ok (n > MAX_TIME_OFFSET_NOISE, w)))))"

definition ReTimeSyncIfNeed :: "ts_env \<Rightarrow> TimeSyncPacket \<Rightarrow> ts_world \<Rightarrow> ts_world res" where
  "ReTimeSyncIfNeed env ackPacket w =
     (let timeOffsetIgnoreRtt = sint (tp_sourceTimeBegin ackPacket - tp_targetTimeBegin ackPacket)
      in res_bind (if IsRemoteLowVersion env SOFTWARE_VERSION_RELEASE_9_0
                   then CheckReTimeSyncIfNeedWithLowVersion env timeOffsetIgnoreRtt w
                   else CheckReTimeSyncIfNeedWithHighVersion timeOffsetIgnoreRtt ackPacket w) (\<lambda>(reTimeSync, w1).
         res_bind (s_abs timeOffsetIgnoreRtt) (\<lambda>a.
           let w2 = (if a \<ge> INT64_MAX div 2 \<or> reTimeSync then clear_info (SetTimeSyncFinishInner env False w1) else w1)
           in Ok (snd (on_meta (\<lambda>d u. SetTimeChangeMark (te_meta env) d u False) w2)))))"

definition RequestRecv :: "ts_env \<Rightarrow> ts_message option \<Rightarrow> errcode ts_op" where
  "RequestRecv env inMsg w =
     (if \<not> IsPacketValid inMsg TYPE_REQUEST then Ok (E_INVALID_ARGS, w)
      else case holder (the inMsg) of
        None \<Rightarrow> Ok (E_INVALID_ARGS, w)
      | Some packet \<Rightarrow>
          let (ackPacket, w1) = BuildAckPacket packet w
          in if tp_sourceTimeBegin ackPacket > MAX_VALID_TIME then Ok (E_INVALID_TIME, w1)
             else res_bind (ReTimeSyncIfNeed env ackPacket w1) (\<lambda>w2.
                  if \<not> te_memory env then Ok (E_OUT_OF_MEMORY, w2)
                  else Ok (SendPacket env
                         ((SetMessageType TYPE_RESPONSE (new_Message\<lparr>messageId := TIME_SYNC_MESSAGE, sessionId := sessionId (the inMsg),
                             msg_prio := NORMAL\<rparr>))\<lparr>msg_target := ts_deviceId (tw_ts w2), holder := Some ackPacket\<rparr>) NoHandler True w2)))"

section \<open>Offsets found by the other side\<close>

definition GenerateTimeOffsetIfNeed :: "ts_env \<Rightarrow> int \<Rightarrow> int \<Rightarrow> errcode ts_op" where
  "GenerateTimeOffsetIfNeed env systemOffset senderLocalOffset w =
     (if IsRemoteLowVersion env SOFTWARE_VERSION_RELEASE_9_0 then Ok (E_OK, w)
      else let (errCode, info) = GetDeviceTimeInfo (ts_deviceId (tw_ts w)) (tw_infos w);
               syncFinish = \<not> IsNeedSync w;
               (timeChange, w1) = on_meta (IsTimeChange (te_meta env)) w
           in res_bind (if timeChange \<and> \<not> syncFinish then Ok True
                        else if errCode = E_OK
                        then res_bind (s64 (di_systemTimeOffset info + systemOffset)) (\<lambda>d.
                             res_bind (s_abs d) (\<lambda>a. Ok (a > MAX_TIME_OFFSET_NOISE)))
                        else Ok False) (\<lambda>again.
              if again then Ok (E_NEED_TIME_SYNC, clear_info (ClearTimeSyncFinish env w1))
              else res_bind (s64 (- systemOffset)) (\<lambda>neg.
                   res_bind (s64 (neg + senderLocalOffset)) (\<lambda>d.
                   res_bind (s64 (d - GetLocalTimeOffset (tw_md w1))) (\<lambda>offset.
                     let (e1, w2) = on_meta (\<lambda>d u. SetSystemTimeOffset (te_meta env) d u neg) w1
                     in if e1 \<noteq> E_OK then Ok (e1, w2)
                        else let (e2, w3) = on_meta (\<lambda>d u. SaveTimeOffset (te_meta env) d u offset) w2
                             in if e2 \<noteq> E_OK then Ok (e2, w3)
                                else let w4 = SetTimeSyncFinishInner env True w3; (t, w5) = sys_now w4
                                     in Ok (E_OK, w5\<lparr>tw_infos := SetDeviceTimeInfo (ts_deviceId (tw_ts w5))
                                              (info\<lparr>di_systemTimeOffset := neg, di_recordTime := t\<rparr>) (tw_infos w5)\<rparr>))))))"

section \<open>Life of an instance\<close>

definition TimeSync_Initialize :: "ts_env \<Rightarrow> u64 \<Rightarrow> string \<Rightarrow> string \<Rightarrow> errcode ts_op" where
  "TimeSync_Initialize env maxItemTime deviceId userId w =
     (let w0 = w\<lparr>tw_ts := (tw_ts w)\<lparr>ts_deviceId := deviceId, ts_userId := userId\<rparr>\<rparr>; (oc, w1) = next_clock w0
      in res_bind (TimeHelper_Initialize (te_meta env) oc maxItemTime (tw_md w1, tw_th w1)) (\<lambda>(errCode, md, th).
           let w2 = w1\<lparr>tw_md := md, tw_th := th\<rparr>
           in if errCode \<noteq> E_OK then Ok (errCode, w2)
              else case te_timer env of (errCode', timerId) \<Rightarrow>
                if errCode' \<noteq> E_OK then Ok (errCode', w2)
                else let w3 = w2\<lparr>tw_ts := (tw_ts w2)\<lparr>ts_driverTimerId := timerId\<rparr>\<rparr>;
                         (synced, w4) = on_meta (IsTimeSyncFinish (te_meta env)) w3
                     in Ok (E_OK, w4\<lparr>tw_ts := (tw_ts w4)\<lparr>ts_isSynced := synced\<rparr>\<rparr>)))"

definition TimeSync_Finalize :: "ts_world \<Rightarrow> ts_world" where
  "TimeSync_Finalize w = w\<lparr>tw_ts := (tw_ts w)\<lparr>ts_timeDriverTaskId := INVALID_TASK_ID\<rparr>\<rparr>"

definition TimeSync_Close :: "ts_world \<Rightarrow> ts_world" where
  "TimeSync_Close w = (let w1 = TimeSync_Finalize w in w1\<lparr>tw_ts := (tw_ts w1)\<lparr>ts_closed := True\<rparr>\<rparr>)"

definition TimeSyncDriver :: "ts_env \<Rightarrow> u64 \<Rightarrow> ts_world \<Rightarrow> errcode \<times> ts_world" where
  "TimeSyncDriver env timerId w =
     (if timerId \<noteq> ts_driverTimerId (tw_ts w) then (E_INTERNAL_ERROR, w)
      else if \<not> ts_isOnline (tw_ts w) then (E_OK, w)
      else if ts_timeDriverTaskId (tw_ts w) \<noteq> INVALID_TASK_ID then (E_OK, w)
      else case te_task env of (errCode, taskId) \<Rightarrow>
             if errCode \<noteq> E_OK then (errCode, w) else (E_OK, w\<lparr>tw_ts := (tw_ts w)\<lparr>ts_timeDriverTaskId := taskId\<rparr>\<rparr>))"

text \<open>The scheduled task.\<close>

definition driver_task :: "ts_env \<Rightarrow> ts_world \<Rightarrow> ts_world" where
  "driver_task env w =
     (let (_, w1) = SyncStart env True 0 True w in w1\<lparr>tw_ts := (tw_ts w1)\<lparr>ts_timeDriverTaskId := INVALID_TASK_ID\<rparr>\<rparr>)"

text \<open>
  \<^verbatim>\<open>GetTimeOffset\<close> sends a request and waits on the condition variable.  What other threads do meanwhile is
  \<open>during\<close>; \<open>wait_for\<close> returns whether the condition holds at the end.
\<close>

definition own_offset :: "ts_env \<Rightarrow> ts_world \<Rightarrow> (errcode \<times> int option) \<times> ts_world" where
  "own_offset env w =
     (if ts_closed (tw_ts w) then ((E_BUSY, None), w)
      else let (v, w1) = on_meta (GetTimeOffset (te_meta env)) (w\<lparr>tw_ts := (tw_ts w)\<lparr>ts_retryTime := 0\<rparr>\<rparr>) in ((E_OK, Some v), w1))"

function TimeSync_GetTimeOffset :: "ts_env \<Rightarrow> (ts_world \<Rightarrow> ts_world) \<Rightarrow> u32 \<Rightarrow> ts_world \<Rightarrow> (errcode \<times> int option) \<times> ts_world" where
  "TimeSync_GetTimeOffset env during sid w0 =
     (if ts_isSynced (tw_ts w0) then own_offset env w0
      else let (errCode, w1) = SyncStart env True sid True (w0\<lparr>tw_ts := (tw_ts w0)\<lparr>ts_isAckReceived := False\<rparr>\<rparr>);
               (_, w2) = sys_now w1;
               w3 = (if errCode = E_OK then during w2 else w2)
           in if errCode \<noteq> E_OK \<or> \<not> (ts_isAckReceived (tw_ts w3) \<or> ts_closed (tw_ts w3))
              then let w4 = w3\<lparr>tw_ts := (tw_ts w3)\<lparr>ts_retryTime := ts_retryTime (tw_ts w3) + 1\<rparr>\<rparr>
                   in if ts_retryTime (tw_ts w4) < MAX_RETRY_TIME then TimeSync_GetTimeOffset env during 0 w4
                      else ((E_TIMEOUT, None), w4\<lparr>tw_ts := (tw_ts w4)\<lparr>ts_retryTime := 0\<rparr>\<rparr>)
              else own_offset env w3)"
  by pat_completeness auto
termination
  by (relation "measure (\<lambda>_. 0)") (simp_all add: MAX_RETRY_TIME_def)

declare TimeSync_GetTimeOffset.simps [simp del]

section \<open>The offset computed from the four times\<close>

lemma in_range64: "in_range 64 i \<longleftrightarrow> - (2 ^ 63) \<le> i \<and> i < 2 ^ 63"
  by (simp add: in_range_def)

lemma sint_sub:
  assumes "uint (x :: u64) < 2 ^ 63" "uint y < 2 ^ 63"
  shows "sint (x - y) = uint x - uint y"
proof -
  have "in_range 64 (uint x - uint y)" unfolding in_range64 using assms uint_ge_0[of x] uint_ge_0[of y] by linarith
  then show ?thesis using sint_of_range[where 'a=64, of "uint x - uint y"] by simp
qed

lemma valid_uint: "x \<le> MAX_VALID_TIME \<Longrightarrow> uint x < 2 ^ 63"
  by (simp add: MAX_VALID_TIME_def word_le_def)

lemma half: "\<bar>i - 2 * (i sdiv 2)\<bar> \<le> (1 :: int)"
  by (simp add: signed_divide_int_def sgn_if split: if_splits) presburger+

lemma half_le: "\<bar>2 * (i sdiv 2)\<bar> \<le> \<bar>i :: int\<bar>"
  by (simp add: signed_divide_int_def sgn_if split: if_splits) presburger

lemma half_range: "in_range 64 i \<Longrightarrow> - (2 ^ 62) \<le> i sdiv 2 \<and> i sdiv 2 < 2 ^ 62"
  using half[of i] half_le[of i] by (simp add: in_range64 del: abs_mult) linarith

text \<open>The times that pass the checks of \<^verbatim>\<open>AckRecv\<close>: no step of the computation leaves its range, and the offset is the mean of the two differences.\<close>

definition times_valid :: "TimeSyncPacket \<Rightarrow> bool" where
  "times_valid pk \<longleftrightarrow> tp_sourceTimeBegin pk \<le> tp_sourceTimeEnd pk \<and> tp_targetTimeBegin pk \<le> tp_targetTimeEnd pk \<and>
     tp_sourceTimeEnd pk \<le> MAX_VALID_TIME \<and> tp_targetTimeEnd pk \<le> MAX_VALID_TIME"

lemma abs_sum: "\<bar>a - h - 2 * x\<bar> \<le> 1 \<Longrightarrow> \<bar>b + h - 2 * y\<bar> \<le> 1 \<Longrightarrow> \<bar>2 * (x + y) - (a + b)\<bar> \<le> (2 :: int)"
  using abs_triangle_ineq[of "a - h - 2 * x" "b + h - 2 * y"] abs_minus_commute[of "2 * (x + y)" "a + b"] by (simp add: algebra_simps)

lemma mean_in_range:
  fixes a b h r1 r2 :: int
  assumes "- (2 ^ 63) < a" "a < 2 ^ 63" "- (2 ^ 63) < b" "b < 2 ^ 63" "\<bar>(a - b) - 2 * h\<bar> \<le> 1"
  shows "in_range 64 (a - h)" "in_range 64 (b + h)"
    "in_range 64 ((a - h) sdiv 2 + (b + h) sdiv 2)" "\<bar>2 * ((a - h) sdiv 2 + (b + h) sdiv 2) - (a + b)\<bar> \<le> 2"
proof -
  show r: "in_range 64 (a - h)" "in_range 64 (b + h)" using assms unfolding in_range64 by linarith+
  show "in_range 64 ((a - h) sdiv 2 + (b + h) sdiv 2)"
    using half_range[OF r(1)] half_range[OF r(2)] by (simp add: in_range64)
  show "\<bar>2 * ((a - h) sdiv 2 + (b + h) sdiv 2) - (a + b)\<bar> \<le> 2"
    using half[of "a - h"] half[of "b + h"] by (intro abs_sum) simp_all
qed

lemma CalculateTimeOffset_mean:
  assumes "times_valid pk"
  obtains offset where "CalculateTimeOffset pk =
      Ok (offset, (uint (tp_sourceTimeEnd pk) - uint (tp_sourceTimeBegin pk)) - (uint (tp_targetTimeEnd pk) - uint (tp_targetTimeBegin pk)))"
    "in_range 64 offset"
    "\<bar>2 * offset - ((uint (tp_targetTimeBegin pk) - uint (tp_sourceTimeBegin pk)) + (uint (tp_targetTimeEnd pk) - uint (tp_sourceTimeEnd pk)))\<bar> \<le> 2"
proof -
  let ?sb = "uint (tp_sourceTimeBegin pk)" and ?se = "uint (tp_sourceTimeEnd pk)"
  let ?tb = "uint (tp_targetTimeBegin pk)" and ?te = "uint (tp_targetTimeEnd pk)"
  have o: "?sb \<le> ?se" "?tb \<le> ?te" "?se < 2 ^ 63" "?te < 2 ^ 63" "0 \<le> ?sb" "0 \<le> ?tb"
    using assms valid_uint by (auto simp: times_valid_def word_le_def)
  then have b: "?sb < 2 ^ 63" "?tb < 2 ^ 63" by linarith+
  have w: "(tp_sourceTimeEnd pk - tp_sourceTimeBegin pk) - (tp_targetTimeEnd pk - tp_targetTimeBegin pk) =
      word_of_int ((?se - ?sb) - (?te - ?tb))" by simp
  have "in_range 64 ((?se - ?sb) - (?te - ?tb))" unfolding in_range64 using o by linarith
  then have rtt: "sint ((tp_sourceTimeEnd pk - tp_sourceTimeBegin pk) - (tp_targetTimeEnd pk - tp_targetTimeBegin pk)) =
      (?se - ?sb) - (?te - ?tb)" unfolding w by (intro sint_of_range[where 'a=64]) simp
  let ?h = "((?se - ?sb) - (?te - ?tb)) sdiv 2"
  have d: "- (2 ^ 63) < ?tb - ?sb" "?tb - ?sb < 2 ^ 63" "- (2 ^ 63) < ?te - ?se" "?te - ?se < 2 ^ 63" using o b by linarith+
  have e: "\<bar>((?tb - ?sb) - (?te - ?se)) - 2 * ?h\<bar> \<le> 1" using half[of "(?se - ?sb) - (?te - ?tb)"] by linarith
  note r = mean_in_range[OF d e]
  have "CalculateTimeOffset pk =
      Ok (((?tb - ?sb) - ?h) sdiv 2 + ((?te - ?se) + ?h) sdiv 2, (?se - ?sb) - (?te - ?tb))"
    unfolding CalculateTimeOffset_def rtt sint_sub[OF b(2,1)] sint_sub[OF o(4,3)] Let_def s64_def using r by simp
  then show ?thesis using r(3,4) by (rule that)
qed

section \<open>One entry of the metadata\<close>

definition ts_entry :: "ts_env \<Rightarrow> ts_world \<Rightarrow> MetaDataValue" where
  "ts_entry env w = meta_cur (te_meta env) (meta_at (te_meta env) (tw_md w) (ts_deviceId (tw_ts w), ts_userId (tw_ts w)))"

definition ts_ok :: "ts_env \<Rightarrow> ts_world \<Rightarrow> bool" where
  "ts_ok env w \<longleftrightarrow> md_ok (te_meta env) (tw_md w) \<and> storage_works (te_meta env) \<and>
     hash_ok (te_meta env) {ts_deviceId (tw_ts w)} \<and> om_ok (tw_infos w)"

lemma wf_entry: "wf_meta (ts_entry env w)"
  unfolding ts_entry_def by (rule wf_cur)

text \<open>What a step keeps of the world when only the metadata or the clocks are touched.\<close>

definition md_only :: "ts_world \<Rightarrow> ts_world \<Rightarrow> bool" where
  "md_only w w' \<longleftrightarrow> tw_ts w' = tw_ts w \<and> tw_infos w' = tw_infos w \<and> tw_sent w' = tw_sent w \<and>
     GetLocalTimeOffset (tw_md w') = GetLocalTimeOffset (tw_md w)"

lemma md_only_trans: "md_only a b \<Longrightarrow> md_only b c \<Longrightarrow> md_only a c"
  by (simp add: md_only_def)

lemma hash_local: "md_localTimeOffset (snd (GetHashDeviceId env d u b md)) = md_localTimeOffset md"
  by (auto simp: GetHashDeviceId_def Let_def split: option.splits)

lemma get_local: "md_localTimeOffset (snd (snd (GetMetaDataValue env d u b md))) = md_localTimeOffset md"
  using hash_local[of env d u b md]
  by (auto simp: GetMetaDataValue_def GetMetaDataValueFromDB_def Let_def split: prod.splits)

lemma save_local: "md_localTimeOffset (snd (SaveMetaDataValue env d u v b md)) = md_localTimeOffset md"
  using hash_local[of env d u b md] by (auto simp: SaveMetaDataValue_def SetMetadataToDb_def Let_def split: prod.splits)

lemma modify_local: "md_localTimeOffset (snd (modify_meta env d u f md)) = md_localTimeOffset md"
  using get_local[of env d u True md] save_local[of env d u] by (auto simp: modify_meta_def split: prod.splits)

lemma on_modify:
  assumes "ts_ok env w" "wf_meta (f (ts_entry env w))"
  shows "\<exists>w'. on_meta (\<lambda>d u. modify_meta (te_meta env) d u f) w = (E_OK, w') \<and> ts_ok env w' \<and> ts_entry env w' = f (ts_entry env w) \<and> md_only w w'"
proof -
  let ?d = "ts_deviceId (tw_ts w)" and ?u = "ts_userId (tw_ts w)" and ?m = "te_meta env"
  have h: "md_ok ?m (tw_md w)" "storage_works ?m" "hash_ok ?m {?d}" "?d \<in> {?d}" using assms(1) by (simp_all add: ts_ok_def)
  from modify_ok[OF h, of f ?u] assms(2) obtain md' where md: "modify_meta ?m ?d ?u f (tw_md w) = (E_OK, md')" "md_ok ?m md'"
    "meta_at ?m md' (?d, ?u) = Some (f (ts_entry env w))" by (auto simp: ts_entry_def)
  have "md_localTimeOffset md' = md_localTimeOffset (tw_md w)" using modify_local[of ?m ?d ?u f "tw_md w"] md(1) by simp
  then show ?thesis using md assms(1)
    by (auto simp: on_meta_def ts_ok_def ts_entry_def meta_cur_def md_only_def GetLocalTimeOffset_def)
qed

lemma on_read:
  assumes "ts_ok env w"
  shows "\<exists>w'. on_meta (\<lambda>d u. read_meta (te_meta env) d u True g) w = (g (ts_entry env w), w') \<and> ts_ok env w' \<and> ts_entry env w' = ts_entry env w \<and> md_only w w'"
proof -
  let ?d = "ts_deviceId (tw_ts w)" and ?u = "ts_userId (tw_ts w)" and ?m = "te_meta env"
  from assms Get_ok[of ?m "tw_md w" ?d ?u] obtain e md' where md: "GetMetaDataValue ?m ?d ?u True (tw_md w) = (e, ts_entry env w, md')"
    "md_ok ?m md'" "md_store md' = md_store (tw_md w)" by (auto simp: ts_ok_def ts_entry_def)
  have "md_localTimeOffset md' = md_localTimeOffset (tw_md w)" using get_local[of ?m ?d ?u True "tw_md w"] md(1) by simp
  then show ?thesis using md assms meta_at_store[OF md(3), of ?m]
    by (auto simp: on_meta_def read_meta_def ts_ok_def ts_entry_def md_only_def GetLocalTimeOffset_def)
qed

text \<open>Reading the clocks leaves the entry alone.\<close>

lemma next_clock_keeps: "next_clock w = (oc, w') \<Longrightarrow> \<exists>ocs. w' = w\<lparr>tw_clocks := ocs\<rparr>"
  by (cases "tw_clocks w") (auto simp: next_clock_def intro: exI[of _ "tw_clocks w"])

lemma GetTime_md: "GetTime oc (md, th) = (t, md', th') \<Longrightarrow> \<exists>x. md' = md\<lparr>md_lastLocalTime := x\<rparr>"
  by (erule GetTime_cases) (auto simp: SetLastLocalTime_def intro: exI[of _ "md_lastLocalTime md"])

lemma lastLocal_at: "meta_at env (md\<lparr>md_lastLocalTime := x\<rparr>) = meta_at env md" "md_ok env (md\<lparr>md_lastLocalTime := x\<rparr>) = md_ok env md"
  by (simp_all add: meta_at_def md_ok_def fun_eq_iff)

lemma time_now_ok:
  assumes "time_now w = (t, w')"
  shows "md_only w w'" "ts_entry env w' = ts_entry env w" "ts_ok env w \<Longrightarrow> ts_ok env w'"
proof -
  obtain oc w1 where c: "next_clock w = (oc, w1)" by (cases "next_clock w")
  obtain md th where g: "GetTime oc (tw_md w1, tw_th w1) = (t, md, th)" "w' = w1\<lparr>tw_md := md, tw_th := th\<rparr>"
    using assms c by (auto simp: time_now_def split: prod.splits)
  obtain x where "md = (tw_md w1)\<lparr>md_lastLocalTime := x\<rparr>" using GetTime_md[OF g(1)] by blast
  then show "md_only w w'" "ts_entry env w' = ts_entry env w" "ts_ok env w \<Longrightarrow> ts_ok env w'"
    using next_clock_keeps[OF c] g(2) by (auto simp: md_only_def ts_entry_def ts_ok_def lastLocal_at GetLocalTimeOffset_def)
qed

lemma sys_now_ok:
  assumes "sys_now w = (t, w')"
  shows "md_only w w'" "ts_entry env w' = ts_entry env w" "ts_ok env w \<Longrightarrow> ts_ok env w'"
proof -
  obtain oc w1 where c: "next_clock w = (oc, w1)" by (cases "next_clock w")
  then obtain th where "w' = w1\<lparr>tw_th := th\<rparr>" using assms by (auto simp: sys_now_def split: prod.splits)
  then show "md_only w w'" "ts_entry env w' = ts_entry env w" "ts_ok env w \<Longrightarrow> ts_ok env w'"
    using next_clock_keeps[OF c] by (auto simp: md_only_def ts_entry_def ts_ok_def)
qed

text \<open>The setters that an exchange uses.\<close>

lemma set_offsets:
  assumes "ts_ok env w" "in_range 64 i"
  shows "\<exists>w'. on_meta (\<lambda>d u. SaveTimeOffset (te_meta env) d u i) w = (E_OK, w') \<and> ts_ok env w' \<and>
      ts_entry env w' = (ts_entry env w)\<lparr>mv_timeOffset := i, mv_lastUpdateTime := me_sysTime (te_meta env)\<rparr> \<and> md_only w w'"
    and "\<exists>w'. on_meta (\<lambda>d u. SetSystemTimeOffset (te_meta env) d u i) w = (E_OK, w') \<and> ts_ok env w' \<and>
      ts_entry env w' = (ts_entry env w)\<lparr>mv_systemTimeOffset := i\<rparr> \<and> md_only w w'"
  using on_modify[OF assms(1), of "\<lambda>v. v\<lparr>mv_timeOffset := i, mv_lastUpdateTime := me_sysTime (te_meta env)\<rparr>"]
    on_modify[OF assms(1), of "mv_systemTimeOffset_update (\<lambda>_. i)"] wf_entry[of env w] assms(2)
  by (simp_all add: SaveTimeOffset_def SetSystemTimeOffset_def wf_meta_def)

lemma set_mark:
  assumes "ts_ok env w"
  shows "\<exists>w'. on_meta (\<lambda>d u. SetSyncMark (te_meta env) d u m b) w = (E_OK, w') \<and> ts_ok env w' \<and>
    (\<exists>x. ts_entry env w' = (ts_entry env w)\<lparr>mv_syncMark := x\<rparr>) \<and> md_only w w'"
proof -
  let ?f = "mv_syncMark_update (\<lambda>x. if b then x OR mark_val m else EraseBit x (mark_val m))"
  obtain x where x: "?f (ts_entry env w) = (ts_entry env w)\<lparr>mv_syncMark := x\<rparr>" by (cases "ts_entry env w") auto
  have "wf_meta (?f (ts_entry env w))" using wf_entry[of env w] by (simp add: wf_meta_def)
  from on_modify[OF assms, of ?f, OF this] show ?thesis unfolding SetSyncMark_def x by blast
qed

lemma finish_ok:
  assumes "ts_ok env w"
  shows "\<exists>x w1. SetTimeSyncFinishInner env b w = w1 \<and> ts_ok env w1 \<and> ts_entry env w1 = (ts_entry env w)\<lparr>mv_syncMark := x\<rparr> \<and>
    tw_ts w1 = (tw_ts w)\<lparr>ts_isSynced := b\<rparr> \<and> tw_infos w1 = tw_infos w \<and> tw_sent w1 = tw_sent w \<and>
    GetLocalTimeOffset (tw_md w1) = GetLocalTimeOffset (tw_md w)"
proof -
  let ?w = "w\<lparr>tw_ts := (tw_ts w)\<lparr>ts_isSynced := b\<rparr>\<rparr>"
  have ok: "ts_ok env ?w" "ts_entry env ?w = ts_entry env w" using assms by (simp_all add: ts_ok_def ts_entry_def)
  show ?thesis
  proof (cases "IsRemoteLowVersion env SOFTWARE_VERSION_RELEASE_9_0")
    case True
    then have "SetTimeSyncFinishInner env b w = ?w" by (simp add: SetTimeSyncFinishInner_def)
    then show ?thesis using ok by (intro exI[of _ "mv_syncMark (ts_entry env w)"] exI[of _ ?w]) simp
  next
    case False
    from set_mark[OF ok(1), of SYNC_MARK_TIME_SYNC b] obtain w1 x where
      "on_meta (\<lambda>d u. SetTimeSyncFinishMark (te_meta env) d u b) ?w = (E_OK, w1)" "ts_ok env w1"
      "ts_entry env w1 = (ts_entry env w)\<lparr>mv_syncMark := x\<rparr>" "md_only ?w w1" using ok(2) by (auto simp: SetTimeSyncFinishMark_def)
    then show ?thesis using False by (auto simp: SetTimeSyncFinishInner_def md_only_def)
  qed
qed

section \<open>The exchange\<close>

definition small_offset :: "int \<Rightarrow> bool" where
  "small_offset i \<longleftrightarrow> \<bar>i\<bar> \<le> 3 * 2 ^ 60"

lemma CalculateRawTimeOffset_ok:
  assumes "\<bar>offset\<bar> < 2 ^ 60" "small_offset (tp_requestLocalOffset pk)" "small_offset (tp_responseLocalOffset pk)"
  shows "CalculateRawTimeOffset pk offset = Ok (offset + tp_requestLocalOffset pk - tp_responseLocalOffset pk)"
    "in_range 64 (offset + tp_requestLocalOffset pk - tp_responseLocalOffset pk)"
proof -
  have "- (2 ^ 60) < offset" "offset < 2 ^ 60" "- (3 * 2 ^ 60) \<le> tp_requestLocalOffset pk" "tp_requestLocalOffset pk \<le> 3 * 2 ^ 60"
    "- (3 * 2 ^ 60) \<le> tp_responseLocalOffset pk" "tp_responseLocalOffset pk \<le> 3 * 2 ^ 60"
    using assms by (auto simp: small_offset_def abs_less_iff abs_le_iff)
  then have "in_range 64 (offset + tp_requestLocalOffset pk)"
    and r: "in_range 64 (offset + tp_requestLocalOffset pk - tp_responseLocalOffset pk)" by (simp_all add: in_range64)
  then show "CalculateRawTimeOffset pk offset = Ok (offset + tp_requestLocalOffset pk - tp_responseLocalOffset pk)"
    by (simp add: CalculateRawTimeOffset_def s64_def)
  show "in_range 64 (offset + tp_requestLocalOffset pk - tp_responseLocalOffset pk)" by (rule r)
qed

text \<open>What storing the result leaves, for times that passed the checks.\<close>

lemma SaveOffsetWithAck_ok:
  assumes "ts_ok env w" "CalculateTimeOffset pk = Ok (offset, rtt)" "in_range 64 offset" "\<bar>offset\<bar> < 2 ^ 60"
    and "small_offset (tp_requestLocalOffset pk)" "small_offset (tp_responseLocalOffset pk)"
  defines "raw \<equiv> offset + tp_requestLocalOffset pk - tp_responseLocalOffset pk"
  shows "\<exists>w'. SaveOffsetWithAck env pk w = Ok (E_OK, w') \<and> ts_ok env w' \<and> mv_timeOffset (ts_entry env w') = offset \<and>
    mv_systemTimeOffset (ts_entry env w') = raw \<and> tw_ts w' = (tw_ts w)\<lparr>ts_isSynced := True\<rparr> \<and>
    (\<exists>t. om_find (tw_infos w') (ts_deviceId (tw_ts w)) = Some \<lparr>di_recordTime = t, di_systemTimeOffset = raw, di_rtt = rtt\<rparr>)"
proof -
  note r = CalculateRawTimeOffset_ok[OF assms(4-6), folded raw_def]
  from set_offsets(1)[OF assms(1,3)] obtain w1 where w1: "on_meta (\<lambda>d u. SaveTimeOffset (te_meta env) d u offset) w = (E_OK, w1)"
    "ts_ok env w1" "mv_timeOffset (ts_entry env w1) = offset" "md_only w w1" by force
  from set_offsets(2)[OF w1(2) r(2)] obtain w2 where w2: "on_meta (\<lambda>d u. SetSystemTimeOffset (te_meta env) d u raw) w1 = (E_OK, w2)"
    "ts_ok env w2" "mv_timeOffset (ts_entry env w2) = offset" "mv_systemTimeOffset (ts_entry env w2) = raw" "md_only w1 w2" using w1(3) by force
  obtain t w3 where s: "sys_now w2 = (t, w3)" by (cases "sys_now w2")
  let ?info = "\<lparr>di_recordTime = t, di_systemTimeOffset = raw, di_rtt = rtt\<rparr>"
  let ?w4 = "w3\<lparr>tw_infos := SetDeviceTimeInfo (ts_deviceId (tw_ts w3)) ?info (tw_infos w3)\<rparr>"
  have w3: "ts_ok env w3" "ts_entry env w3 = ts_entry env w2" "md_only w w3"
    using sys_now_ok[OF s] w2(2,5) w1(4) md_only_trans by blast+
  have w4: "ts_ok env ?w4" "ts_entry env ?w4 = ts_entry env w2"
    using w3 by (auto simp: ts_ok_def ts_entry_def SetDeviceTimeInfo_def om_ok_insert)
  have info: "om_find (tw_infos ?w4) (ts_deviceId (tw_ts w)) = Some ?info"
    using w3 by (simp add: SetDeviceTimeInfo_def om_find_insert ts_ok_def md_only_def)
  from finish_ok[OF w4(1), of True] obtain x w5 where w5: "SetTimeSyncFinishInner env True ?w4 = w5" "ts_ok env w5"
    "ts_entry env w5 = (ts_entry env w2)\<lparr>mv_syncMark := x\<rparr>" "tw_ts w5 = (tw_ts w)\<lparr>ts_isSynced := True\<rparr>" "tw_infos w5 = tw_infos ?w4"
    using w4(2) w3(3) by (auto simp: md_only_def)
  have "SaveOffsetWithAck env pk w = Ok (E_OK, w5)"
    unfolding SaveOffsetWithAck_def assms(2) res_bind.simps prod.case r(1) w1(1) w2(1) s Let_def w5(1) by simp
  then show ?thesis using w5 w2(3,4) info by auto
qed

text \<open>
  The four times of an exchange with a device whose clock is ahead by \<open>skew\<close>: the request travels for \<open>d1\<close> and the
  answer for \<open>d2\<close>.
\<close>

definition exchange_times :: "TimeSyncPacket \<Rightarrow> int \<Rightarrow> int \<Rightarrow> int \<Rightarrow> bool" where
  "exchange_times pk skew d1 d2 \<longleftrightarrow>
     uint (tp_targetTimeBegin pk) = uint (tp_sourceTimeBegin pk) + skew + d1 \<and>
     uint (tp_sourceTimeEnd pk) = uint (tp_targetTimeEnd pk) - skew + d2"

definition ack_packet :: "TimeSyncPacket \<Rightarrow> u32 \<Rightarrow> ts_world \<Rightarrow> TimeSyncPacket" where
  "ack_packet pk sid w = pk\<lparr>tp_sourceTimeBegin := GetSourceBeginTime (tp_sourceTimeBegin pk) sid w, tp_sourceTimeEnd := fst (time_now w)\<rparr>"

lemma exchange_offset:
  assumes "times_valid pk" "exchange_times pk skew d1 d2"
  obtains offset where "CalculateTimeOffset pk = Ok (offset, d1 + d2)" "in_range 64 offset" "\<bar>2 * offset - (2 * skew + (d1 - d2))\<bar> \<le> 2"
proof (rule CalculateTimeOffset_mean[OF assms(1)])
  fix offset
  assume c: "CalculateTimeOffset pk = Ok (offset, uint (tp_sourceTimeEnd pk) - uint (tp_sourceTimeBegin pk) -
      (uint (tp_targetTimeEnd pk) - uint (tp_targetTimeBegin pk)))" and r: "in_range 64 offset"
    and m: "\<bar>2 * offset - (uint (tp_targetTimeBegin pk) - uint (tp_sourceTimeBegin pk) +
      (uint (tp_targetTimeEnd pk) - uint (tp_sourceTimeEnd pk)))\<bar> \<le> 2"
  have e: "uint (tp_sourceTimeEnd pk) - uint (tp_sourceTimeBegin pk) - (uint (tp_targetTimeEnd pk) - uint (tp_targetTimeBegin pk)) = d1 + d2"
    "uint (tp_targetTimeBegin pk) - uint (tp_sourceTimeBegin pk) + (uint (tp_targetTimeEnd pk) - uint (tp_sourceTimeEnd pk)) = 2 * skew + (d1 - d2)"
    using assms(2) by (simp_all add: exchange_times_def)
  show thesis by (rule that[OF c[unfolded e(1)] r m[unfolded e(2)]])
qed

text \<open>The distance of the offset to the skew, from the distance of the doubled values.\<close>

lemma near_skew:
  assumes "\<bar>2 * offset - (2 * skew + e)\<bar> \<le> (2 :: int)"
  shows "2 * \<bar>offset - skew\<bar> \<le> \<bar>e\<bar> + 2"
proof -
  have "2 * (offset - skew) = (2 * offset - (2 * skew + e)) + e" by simp
  then have "\<bar>2 * (offset - skew)\<bar> \<le> \<bar>2 * offset - (2 * skew + e)\<bar> + \<bar>e\<bar>" by (metis abs_triangle_ineq)
  moreover have "\<bar>2 * (offset - skew)\<bar> = 2 * \<bar>offset - skew\<bar>" by (simp only: abs_mult abs_numeral)
  ultimately show ?thesis using assms by simp
qed

lemma bound_sum: "x \<le> y + s \<Longrightarrow> 2 * y \<le> e + 2 \<Longrightarrow> s + e \<le> 2 ^ 59 \<Longrightarrow> 0 \<le> s \<Longrightarrow> 0 \<le> e \<Longrightarrow> x < (2 ^ 60 :: int)"
  by simp

lemma offset_bound:
  assumes "2 * \<bar>offset - skew\<bar> \<le> \<bar>e\<bar> + (2 :: int)" "\<bar>skew\<bar> + \<bar>e\<bar> \<le> 2 ^ 59"
  shows "\<bar>offset\<bar> < 2 ^ 60"
proof -
  have "\<bar>offset\<bar> \<le> \<bar>offset - skew\<bar> + \<bar>skew\<bar>" using abs_triangle_ineq[of "offset - skew" skew] by simp
  then show ?thesis by (rule bound_sum[OF _ assms]) simp_all
qed

text \<open>
  C31: how good the offset is.  When the answer to a request arrives and its times are plausible, the requester stores an
  offset that differs from the true difference of the two clocks by at most half the difference of the two
  travelling times, plus one unit for rounding; no intermediate result leaves its range.  It also
  records the round trip, the offset without the local corrections, and that the device is synchronised.
\<close>

theorem time_sync_accuracy:
  assumes "ts_ok env w" "IsPacketValid (Some m) TYPE_RESPONSE" "errorNo m \<noteq> FEEDBACK_COMMUNICATOR_NOT_FOUND_NO" "holder m = Some pk"
    and "times_valid (ack_packet pk sid w)" "exchange_times (ack_packet pk sid w) skew d1 d2" "\<bar>skew\<bar> + \<bar>d1 - d2\<bar> \<le> 2 ^ 59"
    and "small_offset (tp_requestLocalOffset pk)" "small_offset (tp_responseLocalOffset pk)"
  shows "\<exists>w' offset raw t. AckRecv env (Some m) sid w = Ok (E_OK, w') \<and>
    mv_timeOffset (ts_entry env w') = offset \<and> 2 * \<bar>offset - skew\<bar> \<le> \<bar>d1 - d2\<bar> + 2 \<and>
    mv_systemTimeOffset (ts_entry env w') = raw \<and> raw = offset + tp_requestLocalOffset pk - tp_responseLocalOffset pk \<and>
    om_find (tw_infos w') (ts_deviceId (tw_ts w)) = Some \<lparr>di_recordTime = t, di_systemTimeOffset = raw, di_rtt = d1 + d2\<rparr> \<and>
    ts_isSynced (tw_ts w') \<and> ts_isAckReceived (tw_ts w')"
proof -
  let ?pk = "ack_packet pk sid w"
  obtain se w1 where n: "time_now w = (se, w1)" by (cases "time_now w")
  have w1: "ts_ok env w1" "md_only w w1" using time_now_ok[OF n] assms(1) by blast+
  have p: "pk\<lparr>tp_sourceTimeBegin := GetSourceBeginTime (tp_sourceTimeBegin pk) sid w1, tp_sourceTimeEnd := se\<rparr> = ?pk"
    using w1(2) n by (simp add: ack_packet_def GetSourceBeginTime_def md_only_def)
  have local: "tp_requestLocalOffset ?pk = tp_requestLocalOffset pk" "tp_responseLocalOffset ?pk = tp_responseLocalOffset pk"
    by (simp_all add: ack_packet_def)
  obtain offset where o: "CalculateTimeOffset ?pk = Ok (offset, d1 + d2)" "in_range 64 offset" "\<bar>2 * offset - (2 * skew + (d1 - d2))\<bar> \<le> 2"
    using exchange_offset[OF assms(5,6)] .
  note near = near_skew[OF o(3)]
  note small = offset_bound[OF near assms(7)]
  from SaveOffsetWithAck_ok[OF w1(1) o(1,2) small] assms(8,9) obtain w2 t where w2: "SaveOffsetWithAck env ?pk w1 = Ok (E_OK, w2)"
    "mv_timeOffset (ts_entry env w2) = offset" "tw_ts w2 = (tw_ts w1)\<lparr>ts_isSynced := True\<rparr>"
    "mv_systemTimeOffset (ts_entry env w2) = offset + tp_requestLocalOffset pk - tp_responseLocalOffset pk"
    "om_find (tw_infos w2) (ts_deviceId (tw_ts w1)) =
       Some \<lparr>di_recordTime = t, di_systemTimeOffset = offset + tp_requestLocalOffset pk - tp_responseLocalOffset pk, di_rtt = d1 + d2\<rparr>"
    unfolding local by blast
  define w3 where "w3 = ResetTimer env (w2\<lparr>tw_ts := (tw_ts w2)\<lparr>ts_isAckReceived := True\<rparr>\<rparr>)"
  have w3: "tw_md w3 = tw_md w2" "tw_infos w3 = tw_infos w2" "ts_deviceId (tw_ts w3) = ts_deviceId (tw_ts w2)"
    "ts_userId (tw_ts w3) = ts_userId (tw_ts w2)" "ts_isSynced (tw_ts w3) = ts_isSynced (tw_ts w2)" "ts_isAckReceived (tw_ts w3)"
    by (simp_all add: w3_def ResetTimer_def Let_def split: prod.split)
  have c: "GetSourceBeginTime (tp_sourceTimeBegin pk) sid w1 \<le> se" "tp_targetTimeBegin pk \<le> tp_targetTimeEnd pk" "se \<le> MAX_VALID_TIME"
    "tp_targetTimeEnd pk \<le> MAX_VALID_TIME" using assms(5) unfolding times_valid_def p[symmetric] by simp_all
  have "AckRecv env (Some m) sid w = Ok (E_OK, w3)"
    using assms(2-4) c w2(1) by (simp add: AckRecv_def n p w3_def Let_def not_less)
  moreover have "ts_entry env w3 = ts_entry env w2" by (simp add: ts_entry_def w3)
  ultimately show ?thesis using w2 w3 w1(2) near by (auto simp: md_only_def)
qed

section \<open>The other side\<close>

definition time_changed :: "ts_env \<Rightarrow> ts_world \<Rightarrow> bool" where
  "time_changed env w \<longleftrightarrow> mv_syncMark (ts_entry env w) AND mark_val SYNC_MARK_TIME_CHANGE = mark_val SYNC_MARK_TIME_CHANGE"

text \<open>When the offset that the sender reports is not believed.\<close>

definition offset_doubted :: "ts_env \<Rightarrow> int \<Rightarrow> ts_world \<Rightarrow> bool" where
  "offset_doubted env systemOffset w \<longleftrightarrow> time_changed env w \<and> IsNeedSync w \<or>
     (\<exists>info. om_find (tw_infos w) (ts_deviceId (tw_ts w)) = Some info \<and> \<bar>di_systemTimeOffset info + systemOffset\<bar> > MAX_TIME_OFFSET_NOISE)"

lemma GetDeviceTimeInfo_find:
  "GetDeviceTimeInfo dev infos = (E_OK, info) \<longleftrightarrow> om_find infos dev = Some info"
  "fst (GetDeviceTimeInfo dev infos) = E_OK \<longleftrightarrow> om_find infos dev \<noteq> None"
  by (auto simp: GetDeviceTimeInfo_def split: option.splits)

lemma IsTimeChange_read:
  "IsTimeChange env = (\<lambda>d u. read_meta env d u True (\<lambda>v. mv_syncMark v AND mark_val SYNC_MARK_TIME_CHANGE = mark_val SYNC_MARK_TIME_CHANGE))"
  by (simp add: fun_eq_iff IsTimeChange_def IsContainSyncMark_def)

lemma clear_ok:
  assumes "ts_ok env w"
  shows "\<exists>w'. clear_info (ClearTimeSyncFinish env w) = w' \<and> \<not> ts_isSynced (tw_ts w') \<and> om_find (tw_infos w') (ts_deviceId (tw_ts w)) = None \<and>
    mv_timeOffset (ts_entry env w') = mv_timeOffset (ts_entry env w)"
proof -
  let ?w = "clear_info w"
  have c: "ts_ok env ?w" "ts_entry env ?w = ts_entry env w" "om_find (tw_infos ?w) (ts_deviceId (tw_ts w)) = None"
    using assms by (auto simp: clear_info_def ts_ok_def ts_entry_def ClearDeviceTimeInfo_def om_ok_erase om_find_erase)
  from finish_ok[OF c(1), of False] obtain x w1 where w1: "SetTimeSyncFinishInner env False ?w = w1" "ts_ok env w1"
    "ts_entry env w1 = (ts_entry env w)\<lparr>mv_syncMark := x\<rparr>" "tw_ts w1 = (tw_ts ?w)\<lparr>ts_isSynced := False\<rparr>" "tw_infos w1 = tw_infos ?w"
    using c(2) by auto
  have e: "ts_entry env (clear_info w1) = ts_entry env w1" by (simp add: clear_info_def ts_entry_def)
  have "om_find (tw_infos (clear_info w1)) (ts_deviceId (tw_ts w)) = None"
    using w1(2,4) by (auto simp: clear_info_def ClearDeviceTimeInfo_def ts_ok_def om_find_erase)
  then show ?thesis using w1 e by (simp add: ClearTimeSyncFinish_def) (simp add: clear_info_def)
qed

lemma doubted_check:
  assumes "case_option True (\<lambda>i. in_range 62 (di_systemTimeOffset i)) (om_find (tw_infos w) (ts_deviceId (tw_ts w)))" "in_range 62 s"
    and "GetDeviceTimeInfo (ts_deviceId (tw_ts w)) (tw_infos w) = (e, info)"
  shows "(if time_changed env w \<and> IsNeedSync w then Ok True
     else if e = E_OK then res_bind (s64 (di_systemTimeOffset info + s)) (\<lambda>d. res_bind (s_abs d) (\<lambda>a. Ok (a > MAX_TIME_OFFSET_NOISE)))
     else Ok False) = Ok (offset_doubted env s w)"
proof (cases "om_find (tw_infos w) (ts_deviceId (tw_ts w))")
  case None
  then show ?thesis using assms(3) by (auto simp: GetDeviceTimeInfo_def offset_doubted_def)
next
  case (Some i)
  then have i: "info = i" "e = E_OK" using assms(3) by (auto simp: GetDeviceTimeInfo_def)
  have "in_range 64 (di_systemTimeOffset i + s)" "in_range 64 \<bar>di_systemTimeOffset i + s\<bar>"
    using assms(1,2) Some by (auto simp: in_range_def)
  then show ?thesis using Some i by (auto simp: offset_doubted_def s64_def s_abs_def)
qed

text \<open>
  C32: both sides agree.  A device that is told the offset its peer has found stores the negation of the offset that the peer stored for it, although
  it only learns the offset without the local corrections and the peer's own correction; and it then counts as synchronised
  without an exchange of its own.  When the local clock was changed since, or the offset is far from the one it knows, it
  stores nothing, forgets what it knew and asks for a new exchange.
\<close>

theorem offsets_agree:
  assumes "ts_ok env w" "\<not> IsRemoteLowVersion env SOFTWARE_VERSION_RELEASE_9_0"
    and "peerRaw = peerOffset + peerLocal - GetLocalTimeOffset (tw_md w)" "in_range 62 peerRaw" "in_range 62 peerLocal" "in_range 62 peerOffset"
    and "case_option True (\<lambda>i. in_range 62 (di_systemTimeOffset i)) (om_find (tw_infos w) (ts_deviceId (tw_ts w)))"
  shows "if offset_doubted env peerRaw w
    then \<exists>w'. GenerateTimeOffsetIfNeed env peerRaw peerLocal w = Ok (E_NEED_TIME_SYNC, w') \<and> \<not> ts_isSynced (tw_ts w') \<and>
      om_find (tw_infos w') (ts_deviceId (tw_ts w)) = None \<and> mv_timeOffset (ts_entry env w') = mv_timeOffset (ts_entry env w)
    else \<exists>w' info. GenerateTimeOffsetIfNeed env peerRaw peerLocal w = Ok (E_OK, w') \<and> mv_timeOffset (ts_entry env w') = - peerOffset \<and>
      mv_systemTimeOffset (ts_entry env w') = - peerRaw \<and> ts_isSynced (tw_ts w') \<and>
      om_find (tw_infos w') (ts_deviceId (tw_ts w)) = Some info \<and> di_systemTimeOffset info = - peerRaw"
proof -
  obtain e info where g: "GetDeviceTimeInfo (ts_deviceId (tw_ts w)) (tw_infos w) = (e, info)" by (cases "GetDeviceTimeInfo (ts_deviceId (tw_ts w)) (tw_infos w)")
  from on_read[OF assms(1), of "\<lambda>v. mv_syncMark v AND mark_val SYNC_MARK_TIME_CHANGE = mark_val SYNC_MARK_TIME_CHANGE"]
  obtain w1 where w1: "on_meta (IsTimeChange (te_meta env)) w = (time_changed env w, w1)" "ts_ok env w1" "ts_entry env w1 = ts_entry env w" "md_only w w1"
    unfolding IsTimeChange_read time_changed_def by blast
  note d = doubted_check[OF assms(7,4) g, of env]
  note gen = GenerateTimeOffsetIfNeed_def[of env peerRaw peerLocal w, unfolded g w1(1) Let_def prod.case not_not d res_bind.simps]
  have t: "tw_ts w1 = tw_ts w" "tw_infos w1 = tw_infos w" "GetLocalTimeOffset (tw_md w1) = GetLocalTimeOffset (tw_md w)"
    using w1(4) by (simp_all add: md_only_def)
  show ?thesis
  proof (cases "offset_doubted env peerRaw w")
    case True
    then have "GenerateTimeOffsetIfNeed env peerRaw peerLocal w = Ok (E_NEED_TIME_SYNC, clear_info (ClearTimeSyncFinish env w1))"
      using assms(2) gen by simp
    then show ?thesis using True clear_ok[OF w1(2)] t w1(3) by simp
  next
    case False
    have r: "in_range 64 (- peerRaw)" "in_range 64 (- peerRaw + peerLocal)" "in_range 64 (- peerOffset)"
      using assms(4-6) by (auto simp: in_range_def)
    have o: "- peerRaw + peerLocal - GetLocalTimeOffset (tw_md w1) = - peerOffset" using assms(3) t(3) by simp
    from set_offsets(2)[OF w1(2) r(1)] obtain w2 where w2: "on_meta (\<lambda>d u. SetSystemTimeOffset (te_meta env) d u (- peerRaw)) w1 = (E_OK, w2)"
      "ts_ok env w2" "mv_systemTimeOffset (ts_entry env w2) = - peerRaw" "md_only w1 w2" by force
    from set_offsets(1)[OF w2(2) r(3)] obtain w3 where w3: "on_meta (\<lambda>d u. SaveTimeOffset (te_meta env) d u (- peerOffset)) w2 = (E_OK, w3)"
      "ts_ok env w3" "mv_timeOffset (ts_entry env w3) = - peerOffset" "mv_systemTimeOffset (ts_entry env w3) = - peerRaw" "md_only w2 w3"
      using w2(3) by force
    from finish_ok[OF w3(2), of True] obtain x w4 where w4: "SetTimeSyncFinishInner env True w3 = w4" "ts_ok env w4"
      "ts_entry env w4 = (ts_entry env w3)\<lparr>mv_syncMark := x\<rparr>" "tw_ts w4 = (tw_ts w3)\<lparr>ts_isSynced := True\<rparr>" by auto
    obtain now w5 where s: "sys_now w4 = (now, w5)" by (cases "sys_now w4")
    have w5: "ts_ok env w5" "ts_entry env w5 = ts_entry env w4" "md_only w4 w5" using sys_now_ok[OF s] w4(2) by blast+
    let ?info = "info\<lparr>di_systemTimeOffset := - peerRaw, di_recordTime := now\<rparr>"
    let ?w = "w5\<lparr>tw_infos := SetDeviceTimeInfo (ts_deviceId (tw_ts w5)) ?info (tw_infos w5)\<rparr>"
    have dev: "ts_deviceId (tw_ts w5) = ts_deviceId (tw_ts w)" "ts_isSynced (tw_ts w5)"
      using w5(3) w4(4) w3(5) w2(4) w1(4) by (simp_all add: md_only_def)
    have "GenerateTimeOffsetIfNeed env peerRaw peerLocal w = Ok (E_OK, ?w)"
      using assms(2) False gen r o w2(1) w3(1) w4(1) s by (simp add: s64_def)
    moreover have "ts_entry env ?w = ts_entry env w4" using w5(2) by (simp add: ts_entry_def)
    moreover have "om_find (tw_infos ?w) (ts_deviceId (tw_ts w)) = Some ?info"
      using w5(1) dev by (simp add: SetDeviceTimeInfo_def om_find_insert ts_ok_def)
    ultimately show ?thesis using False w3 w4 dev by force
  qed
qed

section \<open>Waiting for the offset\<close>

text \<open>
  The branch that tries again is never taken: the counter is incremented before it is compared with a limit of one.  A request that
  cannot be handed over, or is not answered in time, is reported as a timeout at once.
\<close>

lemma GetTimeOffset_never_retries:
  "TimeSync_GetTimeOffset env during sid w0 =
     (if ts_isSynced (tw_ts w0) then own_offset env w0
      else let (errCode, w1) = SyncStart env True sid True (w0\<lparr>tw_ts := (tw_ts w0)\<lparr>ts_isAckReceived := False\<rparr>\<rparr>);
               (_, w2) = sys_now w1;
               w3 = (if errCode = E_OK then during w2 else w2)
           in if errCode \<noteq> E_OK \<or> \<not> (ts_isAckReceived (tw_ts w3) \<or> ts_closed (tw_ts w3))
              then ((E_TIMEOUT, None), w3\<lparr>tw_ts := (tw_ts w3)\<lparr>ts_retryTime := 0\<rparr>\<rparr>)
              else own_offset env w3)"
  by (subst TimeSync_GetTimeOffset.simps) (simp add: MAX_RETRY_TIME_def Let_def split: prod.split)

text \<open>An answer that arrives while the caller waits gives the caller the offset that it stored.\<close>

lemma GetTimeOffset_answered:
  assumes "\<not> ts_isSynced (tw_ts w0)" "SyncStart env True sid True (w0\<lparr>tw_ts := (tw_ts w0)\<lparr>ts_isAckReceived := False\<rparr>\<rparr>) = (E_OK, w1)"
    and "sys_now w1 = (t, w2)" "ts_isAckReceived (tw_ts (during w2))" "\<not> ts_closed (tw_ts (during w2))" "ts_ok env (during w2)"
  shows "fst (TimeSync_GetTimeOffset env during sid w0) = (E_OK, Some (mv_timeOffset (ts_entry env (during w2))))"
proof -
  let ?w = "(during w2)\<lparr>tw_ts := (tw_ts (during w2))\<lparr>ts_retryTime := 0\<rparr>\<rparr>"
  have w: "ts_ok env ?w" "ts_entry env ?w = ts_entry env (during w2)" using assms(6) by (simp_all add: ts_ok_def ts_entry_def)
  have "GetTimeOffset (te_meta env) = (\<lambda>d u. read_meta (te_meta env) d u True mv_timeOffset)" by (simp add: fun_eq_iff GetTimeOffset_def)
  then have "fst (on_meta (GetTimeOffset (te_meta env)) ?w) = mv_timeOffset (ts_entry env (during w2))"
    using on_read[OF w(1), of mv_timeOffset] w(2) by auto
  then show ?thesis
    using assms(1-5) unfolding GetTimeOffset_never_retries[of env during sid w0]
    by (simp add: own_offset_def Let_def case_prod_unfold)
qed

section \<open>Offsets of the peer are not checked\<close>

text \<open>
  The local corrections in an answer are added as they come.  One at the end of the range makes the addition overflow, although the
  times passed the checks.
\<close>

lemma raw_offset_overflows:
  assumes "0 \<le> offset"
  shows "CalculateRawTimeOffset (pk\<lparr>tp_requestLocalOffset := 0, tp_responseLocalOffset := - (2 ^ 63)\<rparr>) offset = Fault"
  using assms by (simp add: CalculateRawTimeOffset_def s64_def in_range64)

section \<open>Witnesses\<close>

definition sample_ts_env :: ts_env where
  "sample_ts_env = \<lparr>te_meta = sample_meta_env, te_version = (E_OK, 11), te_send = (\<lambda>m. E_OK), te_timer = (E_OK, 5), te_task = (E_OK, 6),
     te_memory = True\<rparr>"

definition sample_world :: ts_world where
  "sample_world = \<lparr>tw_ts = new_TimeSync\<lparr>ts_deviceId := ''a'', ts_userId := ''u''\<rparr>, tw_md = sample_md,
     tw_th = \<lparr>th_lastSystemTimeUs = 0, th_currentIncCount = 0, th_lastMonotonicTime = 0\<rparr>, tw_infos = [],
     tw_clocks = [\<lparr>oc_sys = Some 100, oc_mono = Some 1\<rparr>], tw_sent = []\<rparr>"

definition sample_packet :: TimeSyncPacket where
  "sample_packet = new_TimeSyncPacket\<lparr>tp_sourceTimeBegin := 900, tp_targetTimeBegin := 5940, tp_targetTimeEnd := 5940,
     tp_requestLocalOffset := 7, tp_responseLocalOffset := 3\<rparr>"

definition sample_ack :: ts_message where
  "sample_ack = new_Message\<lparr>messageId := TIME_SYNC_MESSAGE, messageType := TYPE_RESPONSE, holder := Some sample_packet\<rparr>"

lemma sample_ts_ok: "ts_ok sample_ts_env sample_world"
proof -
  have "hash_ok sample_meta_env {''a''}" using sample_md_ok(3) by (simp add: hash_ok_def)
  then show ?thesis using sample_md_ok(1,2) by (simp add: ts_ok_def sample_ts_env_def sample_world_def new_TimeSync_def om_ok_def)
qed

lemma sample_now: "fst (time_now sample_world) = 1000"
  by (simp add: time_now_def next_clock_def sample_world_def GetTime_def GetSysCurrentTime_def GetMonotonicTime_def TO_100_NS_def
      GetLocalTimeOffset_def GetLastLocalTime_def sample_md_def new_Metadata_def BUFFER_VALID_TIME_def BASE_OFFSET_def INVALID_TIMESTAMP_def)

lemma sample_ack_packet: "ack_packet sample_packet 0 sample_world = sample_packet\<lparr>tp_sourceTimeEnd := 1000\<rparr>"
proof -
  have "GetSourceBeginTime x 0 sample_world = x" for x by (simp add: GetSourceBeginTime_def sample_world_def new_TimeSync_def om_find_def)
  then show ?thesis by (simp add: ack_packet_def sample_now)
qed

lemma sample_ack_facts:
  "IsPacketValid (Some sample_ack) TYPE_RESPONSE" "errorNo sample_ack \<noteq> FEEDBACK_COMMUNICATOR_NOT_FOUND_NO" "holder sample_ack = Some sample_packet"
  "small_offset (tp_requestLocalOffset sample_packet)" "small_offset (tp_responseLocalOffset sample_packet)"
  by (simp_all add: sample_ack_def IsPacketValid_def new_Message_def sample_packet_def small_offset_def FEEDBACK_COMMUNICATOR_NOT_FOUND_NO_def)

theorem time_sync_accuracy_witness:
  "\<exists>w' offset. AckRecv sample_ts_env (Some sample_ack) 0 sample_world = Ok (E_OK, w') \<and>
     mv_timeOffset (ts_entry sample_ts_env w') = offset \<and> 2 * \<bar>offset - 5000\<bar> \<le> 22"
proof -
  have "times_valid (ack_packet sample_packet 0 sample_world)" "exchange_times (ack_packet sample_packet 0 sample_world) 5000 40 60"
    unfolding sample_ack_packet by (simp_all add: times_valid_def exchange_times_def sample_packet_def new_TimeSyncPacket_def MAX_VALID_TIME_def)
  then show ?thesis
    using time_sync_accuracy[OF sample_ts_ok, of sample_ack sample_packet 0 5000 40 60] sample_ack_facts by auto
qed

theorem offsets_agree_witness:
  "\<exists>w'. GenerateTimeOffsetIfNeed sample_ts_env 24 20 sample_world = Ok (E_OK, w') \<and> mv_timeOffset (ts_entry sample_ts_env w') = - 4"
proof -
  have l: "GetLocalTimeOffset (tw_md sample_world) = 0" by (simp add: GetLocalTimeOffset_def sample_world_def sample_md_def new_Metadata_def)
  have i: "om_find (tw_infos sample_world) (ts_deviceId (tw_ts sample_world)) = None" by (simp add: sample_world_def om_find_def)
  have "mv_syncMark (ts_entry sample_ts_env sample_world) = 0"
    by (simp add: ts_entry_def sample_ts_env_def sample_world_def meta_cur_def meta_at_def sample_md_def new_Metadata_def om_find_def
        sample_meta_env_def new_MetaDataValue_def)
  then have "\<not> offset_doubted sample_ts_env 24 sample_world" by (simp add: offset_doubted_def time_changed_def i)
  moreover have "\<not> IsRemoteLowVersion sample_ts_env SOFTWARE_VERSION_RELEASE_9_0"
    by (simp add: IsRemoteLowVersion_def sample_ts_env_def SOFTWARE_VERSION_RELEASE_9_0_def SOFTWARE_VERSION_EARLIEST_def)
  ultimately show ?thesis
    using offsets_agree[OF sample_ts_ok, of 24 4 20] by (auto simp: l i in_range_def)
qed

end
