(* ===== verification/Data_Message_Schedule.thy ===== *)
theory Data_Message_Schedule
  imports Message_Model "HOL-Library.Multiset"
begin

text \<open>
  \<^verbatim>\<open>SingleVerDataMessageSchedule\<close> (\<^verbatim>\<open>syncer/src/device/singlever/single_ver_data_message_schedule.cpp\<close>) and the loop
  \<^verbatim>\<open>SingleVerSyncStateMachine::ScheduleMsgAndHandle\<close> that uses it: the data messages of a remote device arrive in any order and more
  than once, and are handled in the order of their sequence numbers.  Each section under a lock is a step; \<open>ms_deleted\<close> and
  \<open>ms_events\<close> record which messages were released and what the state machine was told to do.  Whether the timer service accepts
  a timer is a parameter, and so is the handler of a message.  The references that a timer holds on the context are left out.
\<close>

section \<open>State\<close>

record DataRequestPacket =
  rp_reserved :: "u64 list"

type_synonym data_msg = "DataRequestPacket message"

datatype data_event = Handled data_msg | FinishedAck data_msg

record msg_schedule =
  ms_queue :: "data_msg list"
  ms_needReload :: bool
  ms_working :: bool
  ms_map :: "(u32, data_msg) omap"
  ms_prevSession :: u32
  ms_curSession :: u32
  ms_finishedPacketId :: u64
  ms_expectedSeq :: u32
  ms_timer :: u64
  ms_deleted :: "data_msg list"
  ms_events :: "data_event list"

definition new_schedule :: msg_schedule where
  "new_schedule = \<lparr>ms_queue = [], ms_needReload = False, ms_working = False, ms_map = [], ms_prevSession = 0, ms_curSession = 0,
     ms_finishedPacketId = 0, ms_expectedSeq = 0, ms_timer = 0, ms_deleted = [], ms_events = []\<rparr>"

definition SOFTWARE_VERSION_RELEASE_3_0 :: u32 where "SOFTWARE_VERSION_RELEASE_3_0 = 103"

text \<open>The version of the remote device, the answer of the timer service and the result of handling a message: its error code and
  whether a water mark error was found.\<close>

record schedule_env =
  sv_remoteVersion :: u32
  sv_timer :: "errcode \<times> u64"
  sv_handle :: "data_msg \<Rightarrow> errcode \<times> bool"

definition delete_msgs :: "data_msg list \<Rightarrow> msg_schedule \<Rightarrow> msg_schedule" where
  "delete_msgs ms s = s\<lparr>ms_deleted := ms_deleted s @ ms\<rparr>"

section \<open>Operations\<close>

text \<open>The packet id of a request is the first of its reserved words.\<close>

definition Packet_GetPacketId :: "DataRequestPacket \<Rightarrow> u64" where
  "Packet_GetPacketId p = (if length (rp_reserved p) > 0 then rp_reserved p ! 0 else 0)"

definition GetPacketId :: "data_msg \<Rightarrow> u64 option" where
  "GetPacketId m = map_option Packet_GetPacketId (holder m)"

definition PutMsg :: "data_msg option \<Rightarrow> msg_schedule \<Rightarrow> msg_schedule" where
  "PutMsg inMsg s = (case inMsg of None \<Rightarrow> s | Some m \<Rightarrow> s\<lparr>ms_queue := ms_queue s @ [m], ms_needReload := True\<rparr>)"

definition IsNeedReloadQueue :: "msg_schedule \<Rightarrow> bool" where
  "IsNeedReloadQueue s = ms_needReload s"

definition ClearMsgMapWithNoLock :: "msg_schedule \<Rightarrow> msg_schedule" where
  "ClearMsgMapWithNoLock s = (delete_msgs (map snd (ms_map s)) s)\<lparr>ms_map := []\<rparr>"

definition ClearMsgQueue :: "msg_schedule \<Rightarrow> msg_schedule" where
  "ClearMsgQueue s = (delete_msgs (ms_queue s) s)\<lparr>ms_queue := []\<rparr>"

definition StartTimer :: "schedule_env \<Rightarrow> msg_schedule \<Rightarrow> msg_schedule" where
  "StartTimer env s = (case sv_timer env of (errCode, timerId) \<Rightarrow> if errCode \<noteq> E_OK then s else s\<lparr>ms_timer := timerId\<rparr>)"

definition StopTimer :: "msg_schedule \<Rightarrow> msg_schedule" where
  "StopTimer s = s\<lparr>ms_timer := 0\<rparr>"

definition Schedule_ResetTimer :: "schedule_env \<Rightarrow> msg_schedule \<Rightarrow> msg_schedule" where
  "Schedule_ResetTimer env s = StartTimer env (StopTimer s)"

definition TimeOut :: "u64 \<Rightarrow> msg_schedule \<Rightarrow> msg_schedule" where
  "TimeOut timerId s =
     (if IsNeedReloadQueue s \<or> ms_working s then s
      else if timerId = ms_timer s then (ClearMsgMapWithNoLock s)\<lparr>ms_timer := 0\<rparr> else s)"

definition ClearMsg :: "msg_schedule \<Rightarrow> msg_schedule" where
  "ClearMsg s = ClearMsgMapWithNoLock (ClearMsgQueue (StopTimer s))"

definition UpdateMsgMapIfNeed :: "data_msg \<Rightarrow> msg_schedule \<Rightarrow> errcode \<times> msg_schedule" where
  "UpdateMsgMapIfNeed msg s0 =
     (case GetPacketId msg of
        None \<Rightarrow> (E_INVALID_ARGS, s0)
      | Some packetId \<Rightarrow>
          if ms_prevSession s0 \<noteq> 0 \<and> sessionId msg = ms_prevSession s0 then (E_INVALID_ARGS, s0)
          else let s = (if sessionId msg \<noteq> ms_curSession s0
                        then (ClearMsgMapWithNoLock s0)\<lparr>ms_prevSession := ms_curSession s0, ms_curSession := sessionId msg,
                               ms_finishedPacketId := 0, ms_expectedSeq := 1\<rparr>
                        else s0)
               in case om_find (ms_map s) (sequenceId msg) of
                    None \<Rightarrow> (E_OK, s\<lparr>ms_map := om_insert (sequenceId msg) msg (ms_map s)\<rparr>)
                  | Some cached \<Rightarrow>
                      if (case GetPacketId cached of None \<Rightarrow> False | Some cachePacketId \<Rightarrow> packetId \<noteq> 0 \<and> packetId < cachePacketId)
                      then (E_INVALID_ARGS, s)
                      else (E_OK, (delete_msgs [cached] s)\<lparr>ms_map := om_insert (sequenceId msg) msg (ms_map s)\<rparr>))"

fun UpdateMsgMapInner :: "data_msg list \<Rightarrow> msg_schedule \<Rightarrow> msg_schedule" where
  "UpdateMsgMapInner [] s = s"
| "UpdateMsgMapInner (msg # msgs) s =
     (case UpdateMsgMapIfNeed msg s of
        (errCode, s') \<Rightarrow> UpdateMsgMapInner msgs (if errCode \<noteq> E_OK then delete_msgs [msg] s' else s'))"

definition UpdateMsgMap :: "msg_schedule \<Rightarrow> msg_schedule" where
  "UpdateMsgMap s = UpdateMsgMapInner (ms_queue s) (s\<lparr>ms_queue := [], ms_needReload := False\<rparr>)"

text \<open>The loop of \<^verbatim>\<open>GetMsgFromMap\<close> over the entries of the map; the result is the message with the flag whether it is to be
  handled, the entries left and the messages deleted on the way.\<close>

fun get_from_map :: "u32 \<Rightarrow> u64 \<Rightarrow> (u32, data_msg) omap \<Rightarrow> (data_msg \<times> bool) option \<times> (u32, data_msg) omap \<times> data_msg list" where
  "get_from_map expected finished [] = (None, [], [])"
| "get_from_map expected finished ((key, msg) # rest) =
     (let skip = (case get_from_map expected finished rest of (r, m, del) \<Rightarrow> (r, m, msg # del))
      in case GetPacketId msg of
           None \<Rightarrow> skip
         | Some packetId \<Rightarrow>
             if sequenceId msg < expected
             then (if packetId < finished - ucast (expected - 1 - sequenceId msg) then skip else (Some (msg, False), rest, []))
             else if sequenceId msg = expected
             then (if packetId < finished then skip else (Some (msg, True), rest, []))
             else (None, om_insert (sequenceId msg) msg rest, []))"

definition GetMsgFromMap :: "msg_schedule \<Rightarrow> (data_msg \<times> bool) option \<times> msg_schedule" where
  "GetMsgFromMap s =
     (case get_from_map (ms_expectedSeq s) (ms_finishedPacketId s) (ms_map s) of
        (r, m, del) \<Rightarrow> (r, (delete_msgs del s)\<lparr>ms_map := m\<rparr>))"

definition GetLastMsgFromQueue :: "msg_schedule \<Rightarrow> data_msg option \<times> msg_schedule" where
  "GetLastMsgFromQueue s =
     (if ms_queue s = [] then (None, s\<lparr>ms_needReload := False\<rparr>)
      else (Some (last (ms_queue s)), (delete_msgs (butlast (ms_queue s)) s)\<lparr>ms_queue := [], ms_needReload := False\<rparr>))"

text \<open>The message and whether it is to be handled, whether the caller goes on, and the new state.\<close>

definition MoveNextMsg :: "schedule_env \<Rightarrow> msg_schedule \<Rightarrow> (data_msg \<times> bool) option \<times> bool \<times> msg_schedule" where
  "MoveNextMsg env s0 =
     (if ms_working s0 then (None, False, s0)
      else let s = s0\<lparr>ms_working := True\<rparr>
           in if sv_remoteVersion env < SOFTWARE_VERSION_RELEASE_3_0
              then (case GetLastMsgFromQueue s of (msg, s1) \<Rightarrow> (map_option (\<lambda>m. (m, True)) msg, True, s1))
              else case GetMsgFromMap (UpdateMsgMap (Schedule_ResetTimer env s)) of
                     (None, s1) \<Rightarrow> (None, True, (StopTimer s1)\<lparr>ms_working := False\<rparr>)
                   | (Some r, s1) \<Rightarrow> (Some r, True, s1))"

definition ScheduleInfoHandle :: "bool \<Rightarrow> bool \<Rightarrow> data_msg option \<Rightarrow> msg_schedule \<Rightarrow> msg_schedule res" where
  "ScheduleInfoHandle isNeedHandleStatus isNeedClearMap inMsg s =
     (if \<not> isNeedHandleStatus then Ok (s\<lparr>ms_working := False\<rparr>)
      else case inMsg of
             None \<Rightarrow> Fault
           | Some msg \<Rightarrow>
               (case GetPacketId msg of
                  None \<Rightarrow> Ok s
                | Some curPacketId \<Rightarrow>
                    let s1 = s\<lparr>ms_finishedPacketId := curPacketId\<rparr>;
                        s2 = (if isNeedClearMap then (ClearMsgMapWithNoLock s1)\<lparr>ms_expectedSeq := 1\<rparr>
                              else s1\<lparr>ms_expectedSeq := ms_expectedSeq s1 + 1\<rparr>)
                    in Ok (s2\<lparr>ms_working := False\<rparr>)))"

section \<open>The loop of the state machine\<close>

definition note_event :: "data_event \<Rightarrow> msg_schedule \<Rightarrow> msg_schedule" where
  "note_event e s = s\<lparr>ms_events := ms_events s @ [e]\<rparr>"

text \<open>One message: it is handled or acknowledged, the schedule is told, and the message is deleted.\<close>

definition handle_msg :: "schedule_env \<Rightarrow> data_msg \<Rightarrow> bool \<Rightarrow> msg_schedule \<Rightarrow> msg_schedule res" where
  "handle_msg env msg isNeedHandle s =
     (let (errCode, waterMarkErr) = sv_handle env msg;
          isNeedClearMap = isNeedHandle \<and> (waterMarkErr \<or> errCode = E_NEED_ABILITY_SYNC \<or> errCode = E_NEED_TIME_SYNC);
          needStatus = isNeedHandle \<and> errCode \<noteq> E_TIMEOUT \<and> \<not> sv_remoteVersion env < SOFTWARE_VERSION_RELEASE_3_0
      in res_bind (ScheduleInfoHandle needStatus isNeedClearMap (Some msg)
                     (note_event (if isNeedHandle then Handled msg else FinishedAck msg) s))
           (\<lambda>s1. Ok (delete_msgs [msg] s1)))"

section \<open>The invariant, and what becomes of every message\<close>

definition ms_ok :: "msg_schedule \<Rightarrow> bool" where
  "ms_ok s \<longleftrightarrow> om_ok (ms_map s) \<and> (\<forall>(k, m) \<in> set (ms_map s). k = sequenceId m \<and> GetPacketId m \<noteq> None)"

text \<open>The messages the schedule has not given away: waiting, cached, or released.\<close>

definition msgs_kept :: "msg_schedule \<Rightarrow> data_msg multiset" where
  "msgs_kept s = mset (ms_queue s) + mset (map snd (ms_map s)) + mset (ms_deleted s)"

lemma mset_om_insert:
  "om_find m k = None \<Longrightarrow> mset (om_insert k v m) = add_mset (k, v) (mset m)"
  "om_ok m \<Longrightarrow> om_find m k = Some w \<Longrightarrow> add_mset (k, w) (mset (om_insert k v m)) = add_mset (k, v) (mset m)"
proof -
  show "om_find m k = None \<Longrightarrow> mset (om_insert k v m) = add_mset (k, v) (mset m)"
    by (induction m) (auto simp: om_find_Cons split: if_splits)
  show "om_ok m \<Longrightarrow> om_find m k = Some w \<Longrightarrow> add_mset (k, w) (mset (om_insert k v m)) = add_mset (k, v) (mset m)"
  proof (induction m)
    case (Cons e m)
    obtain a b where e: "e = (a, b)" by (cases e)
    have "a < k" if "k \<noteq> a" using Cons.prems that om_find_Some_mem[of m k w] by (auto simp: e om_find_Cons om_ok_Cons)
    then show ?case using Cons by (auto simp: e om_find_Cons om_ok_Cons add_mset_commute)
  qed simp
qed

lemma set_om_insert: "om_ok m \<Longrightarrow> set (om_insert k v m) = insert (k, v) {e \<in> set m. fst e \<noteq> k}"
  by (auto simp: om_find_iff_mem[symmetric] om_find_insert split: if_splits)

lemma kept_simps [simp]:
  "msgs_kept (s\<lparr>ms_needReload := b\<rparr>) = msgs_kept s" "msgs_kept (s\<lparr>ms_working := b\<rparr>) = msgs_kept s" "msgs_kept (s\<lparr>ms_timer := t\<rparr>) = msgs_kept s"
  "msgs_kept (s\<lparr>ms_expectedSeq := e\<rparr>) = msgs_kept s" "msgs_kept (s\<lparr>ms_finishedPacketId := p\<rparr>) = msgs_kept s" "msgs_kept (s\<lparr>ms_prevSession := x\<rparr>) = msgs_kept s"
  "msgs_kept (s\<lparr>ms_curSession := x\<rparr>) = msgs_kept s" "msgs_kept (s\<lparr>ms_events := ev\<rparr>) = msgs_kept s"
  "msgs_kept (delete_msgs ms s) = mset ms + msgs_kept s"
  by (simp_all add: msgs_kept_def delete_msgs_def)

lemma ms_ok_simps [simp]:
  "ms_ok (s\<lparr>ms_needReload := b\<rparr>) = ms_ok s" "ms_ok (s\<lparr>ms_working := b\<rparr>) = ms_ok s" "ms_ok (s\<lparr>ms_timer := t\<rparr>) = ms_ok s"
  "ms_ok (s\<lparr>ms_expectedSeq := e\<rparr>) = ms_ok s" "ms_ok (s\<lparr>ms_finishedPacketId := p\<rparr>) = ms_ok s" "ms_ok (s\<lparr>ms_prevSession := x\<rparr>) = ms_ok s"
  "ms_ok (s\<lparr>ms_curSession := x\<rparr>) = ms_ok s" "ms_ok (s\<lparr>ms_events := ev\<rparr>) = ms_ok s" "ms_ok (s\<lparr>ms_queue := q\<rparr>) = ms_ok s"
  "ms_ok (delete_msgs ms s) = ms_ok s"
  by (simp_all add: ms_ok_def delete_msgs_def)

lemma clear_map_kept [simp]: "msgs_kept (ClearMsgMapWithNoLock s) = msgs_kept s" "ms_ok (ClearMsgMapWithNoLock s)"
  by (simp_all add: ClearMsgMapWithNoLock_def msgs_kept_def delete_msgs_def ms_ok_def)

lemma timer_kept [simp]:
  "msgs_kept (StopTimer s) = msgs_kept s" "ms_ok (StopTimer s) = ms_ok s"
  "msgs_kept (Schedule_ResetTimer env s) = msgs_kept s" "ms_ok (Schedule_ResetTimer env s) = ms_ok s"
  by (simp_all add: StopTimer_def Schedule_ResetTimer_def StartTimer_def split: prod.split)

text \<open>Entering a message into the map: what is not entered is returned as an error and deleted by the caller.\<close>

lemma cache_msg:
  assumes "ms_ok s" "GetPacketId msg \<noteq> None"
  shows "om_find (ms_map s) (sequenceId msg) = None \<Longrightarrow>
      ms_ok (s\<lparr>ms_map := om_insert (sequenceId msg) msg (ms_map s)\<rparr>) \<and>
      msgs_kept (s\<lparr>ms_map := om_insert (sequenceId msg) msg (ms_map s)\<rparr>) = add_mset msg (msgs_kept s)"
    and "om_find (ms_map s) (sequenceId msg) = Some cached \<Longrightarrow>
      ms_ok ((delete_msgs [cached] s)\<lparr>ms_map := om_insert (sequenceId msg) msg (ms_map s)\<rparr>) \<and>
      msgs_kept ((delete_msgs [cached] s)\<lparr>ms_map := om_insert (sequenceId msg) msg (ms_map s)\<rparr>) = add_mset msg (msgs_kept s)"
proof -
  let ?m = "om_insert (sequenceId msg) msg (ms_map s)"
  have ok: "om_ok ?m" "\<forall>(k, m) \<in> set ?m. k = sequenceId m \<and> GetPacketId m \<noteq> None"
    using assms by (auto simp: ms_ok_def set_om_insert)
  {
    assume "om_find (ms_map s) (sequenceId msg) = None"
    from mset_om_insert(1)[OF this, of msg] have "image_mset snd (mset ?m) = add_mset msg (image_mset snd (mset (ms_map s)))" by simp
    then show "ms_ok (s\<lparr>ms_map := ?m\<rparr>) \<and> msgs_kept (s\<lparr>ms_map := ?m\<rparr>) = add_mset msg (msgs_kept s)"
      using ok by (simp add: ms_ok_def msgs_kept_def)
  }
  {
    assume "om_find (ms_map s) (sequenceId msg) = Some cached"
    with assms(1) have "add_mset (sequenceId msg, cached) (mset ?m) = add_mset (sequenceId msg, msg) (mset (ms_map s))"
      by (intro mset_om_insert(2)) (simp_all add: ms_ok_def)
    from arg_cong[OF this, of "image_mset snd"]
    have "add_mset cached (image_mset snd (mset ?m)) = add_mset msg (image_mset snd (mset (ms_map s)))" by simp
    then show "ms_ok ((delete_msgs [cached] s)\<lparr>ms_map := ?m\<rparr>) \<and> msgs_kept ((delete_msgs [cached] s)\<lparr>ms_map := ?m\<rparr>) = add_mset msg (msgs_kept s)"
      using ok by (simp add: ms_ok_def msgs_kept_def delete_msgs_def)
  }
qed

lemma UpdateMsgMapIfNeed_kept:
  assumes "ms_ok s" "UpdateMsgMapIfNeed msg s = (e, s')"
  shows "ms_ok s'" "msgs_kept s' = (if e = E_OK then add_mset msg (msgs_kept s) else msgs_kept s)"
proof -
  let ?t = "if sessionId msg \<noteq> ms_curSession s
    then (ClearMsgMapWithNoLock s)\<lparr>ms_prevSession := ms_curSession s, ms_curSession := sessionId msg, ms_finishedPacketId := 0, ms_expectedSeq := 1\<rparr>
    else s"
  have t: "ms_ok ?t" "msgs_kept ?t = msgs_kept s" using assms(1) by simp_all
  have "ms_ok s' \<and> msgs_kept s' = (if e = E_OK then add_mset msg (msgs_kept s) else msgs_kept s)"
  proof (cases "GetPacketId msg")
    case None
    then show ?thesis using assms by (auto simp: UpdateMsgMapIfNeed_def)
  next
    case (Some p)
    note c = cache_msg[OF t(1), of msg]
    show ?thesis
    proof (cases "om_find (ms_map ?t) (sequenceId msg)")
      case None
      then show ?thesis using assms Some c(1) t by (auto simp: UpdateMsgMapIfNeed_def Let_def split: if_splits)
    next
      case (Some cached)
      then show ?thesis using assms \<open>GetPacketId msg = Some p\<close> c(2)[of cached] t
        by (auto simp: UpdateMsgMapIfNeed_def Let_def split: if_splits option.splits)
    qed
  qed
  then show "ms_ok s'" "msgs_kept s' = (if e = E_OK then add_mset msg (msgs_kept s) else msgs_kept s)" by auto
qed

lemma UpdateMsgMapInner_kept:
  "ms_ok s \<Longrightarrow> ms_ok (UpdateMsgMapInner msgs s) \<and> msgs_kept (UpdateMsgMapInner msgs s) = mset msgs + msgs_kept s"
proof (induction msgs arbitrary: s)
  case (Cons msg msgs)
  obtain e s' where u: "UpdateMsgMapIfNeed msg s = (e, s')" by (cases "UpdateMsgMapIfNeed msg s")
  then show ?case using Cons.IH[of "if e \<noteq> E_OK then delete_msgs [msg] s' else s'"] UpdateMsgMapIfNeed_kept[OF Cons.prems u] by auto
qed simp

lemma UpdateMsgMap_kept: "ms_ok s \<Longrightarrow> ms_ok (UpdateMsgMap s) \<and> msgs_kept (UpdateMsgMap s) = msgs_kept s"
  unfolding UpdateMsgMap_def using UpdateMsgMapInner_kept[of "s\<lparr>ms_queue := [], ms_needReload := False\<rparr>" "ms_queue s"]
  by (simp add: msgs_kept_def)

definition given :: "(data_msg \<times> bool) option \<Rightarrow> data_msg multiset" where
  "given r = (case r of None \<Rightarrow> {#} | Some (m, _) \<Rightarrow> {#m#})"

lemma get_from_map_kept:
  assumes "om_ok mp" "\<forall>(k, m) \<in> set mp. k = sequenceId m \<and> GetPacketId m \<noteq> None" "get_from_map e f mp = (r, mp', del)"
  shows "om_ok mp'" "set mp' \<subseteq> set mp" "mset (map snd mp) = mset (map snd mp') + mset del + given r"
    "r \<noteq> None \<Longrightarrow> length mp' < length mp"
proof -
  have "om_ok mp' \<and> set mp' \<subseteq> set mp \<and> mset (map snd mp) = mset (map snd mp') + mset del + given r \<and> (r \<noteq> None \<longrightarrow> length mp' < length mp)"
    using assms
  proof (induction mp arbitrary: r mp' del)
    case Nil
    then show ?case by (simp add: given_def)
  next
    case (Cons kv rest)
    obtain k msg where kv: "kv = (k, msg)" by (cases kv)
    obtain r1 m1 d1 where g: "get_from_map e f rest = (r1, m1, d1)" by (cases "get_from_map e f rest")
    have ih: "om_ok m1 \<and> set m1 \<subseteq> set rest \<and> mset (map snd rest) = mset (map snd m1) + mset d1 + given r1 \<and> (r1 \<noteq> None \<longrightarrow> length m1 < length rest)"
      using Cons.IH[OF _ _ g] Cons.prems(1,2) by (auto simp: kv om_ok_Cons)
    have key: "k = sequenceId msg" "om_ok rest" "\<forall>x \<in> set rest. k < fst x" using Cons.prems(1,2) by (auto simp: kv om_ok_Cons)
    have again: "om_insert (sequenceId msg) msg rest = (k, msg) # rest" using key(1,3) by (cases rest) auto
    have "(r, mp', del) \<in> {(r1, m1, msg # d1), (Some (msg, False), rest, []), (Some (msg, True), rest, []), (None, (k, msg) # rest, [])}"
      using Cons.prems(3) by (auto simp: kv g again Let_def split: option.splits if_splits)
    then show ?case using ih key(2) Cons.prems(1) by (auto simp: kv given_def)
  qed
  then show "om_ok mp'" "set mp' \<subseteq> set mp" "mset (map snd mp) = mset (map snd mp') + mset del + given r" "r \<noteq> None \<Longrightarrow> length mp' < length mp"
    by auto
qed

lemma GetMsgFromMap_kept:
  assumes "ms_ok s" "GetMsgFromMap s = (r, s')"
  shows "ms_ok s'" "msgs_kept s = msgs_kept s' + given r" "ms_queue s' = ms_queue s" "ms_needReload s' = ms_needReload s"
    "r \<noteq> None \<Longrightarrow> length (ms_map s') < length (ms_map s)"
proof -
  obtain mp del where g: "get_from_map (ms_expectedSeq s) (ms_finishedPacketId s) (ms_map s) = (r, mp, del)"
    and s': "s' = (delete_msgs del s)\<lparr>ms_map := mp\<rparr>" using assms(2) by (auto simp: GetMsgFromMap_def split: prod.splits)
  have ok: "om_ok (ms_map s)" "\<forall>(k, m) \<in> set (ms_map s). k = sequenceId m \<and> GetPacketId m \<noteq> None" using assms(1) by (simp_all add: ms_ok_def)
  note k = get_from_map_kept[OF ok g]
  show "ms_ok s'" using k(1,2) ok(2) by (auto simp: s' ms_ok_def)
  show "msgs_kept s = msgs_kept s' + given r" using k(3) by (simp add: s' msgs_kept_def delete_msgs_def)
  show "ms_queue s' = ms_queue s" "ms_needReload s' = ms_needReload s" by (simp_all add: s' delete_msgs_def)
  show "r \<noteq> None \<Longrightarrow> length (ms_map s') < length (ms_map s)" using k(4) by (simp add: s')
qed

lemma length_map_update: "length (ms_map (UpdateMsgMapInner msgs s)) \<le> length msgs + length (ms_map s)"
proof (induction msgs arbitrary: s)
  case (Cons msg msgs)
  have ins: "length (om_insert k v m) \<le> Suc (length m)" for k :: u32 and v :: data_msg and m by (induction m) auto
  obtain e s' where u: "UpdateMsgMapIfNeed msg s = (e, s')" by (cases "UpdateMsgMapIfNeed msg s")
  have "length (ms_map s') \<le> Suc (length (ms_map s))"
    using u ins[of "sequenceId msg" msg "ms_map s"]
    by (auto simp: UpdateMsgMapIfNeed_def ClearMsgMapWithNoLock_def delete_msgs_def Let_def split: option.splits if_splits)
  then show ?case using Cons.IH[of "if e \<noteq> E_OK then delete_msgs [msg] s' else s'"] u by (auto simp: delete_msgs_def split: if_splits)
qed simp

definition weight :: "msg_schedule \<Rightarrow> nat" where
  "weight s = length (ms_queue s) + length (ms_map s)"

lemma get_from_map_shorter: "get_from_map e f mp = (Some x, mp', del) \<Longrightarrow> length mp' < length mp"
proof (induction mp arbitrary: mp' del)
  case (Cons kv rest)
  obtain k msg where kv: "kv = (k, msg)" by (cases kv)
  obtain r1 m1 d1 where g: "get_from_map e f rest = (r1, m1, d1)" by (cases "get_from_map e f rest")
  have "mp' = rest \<or> (r1 = Some x \<and> mp' = m1)"
    using Cons.prems by (auto simp: kv g Let_def split: option.splits if_splits)
  then show ?case using Cons.IH g by fastforce
qed simp

lemma queue_update [simp]: "ms_queue (UpdateMsgMapInner msgs s) = ms_queue s" "ms_needReload (UpdateMsgMapInner msgs s) = ms_needReload s"
proof -
  have one: "ms_queue (snd (UpdateMsgMapIfNeed msg s)) = ms_queue s \<and> ms_needReload (snd (UpdateMsgMapIfNeed msg s)) = ms_needReload s" for msg s
    by (simp add: UpdateMsgMapIfNeed_def ClearMsgMapWithNoLock_def delete_msgs_def Let_def split: option.split)
  have "ms_queue (UpdateMsgMapInner msgs s) = ms_queue s \<and> ms_needReload (UpdateMsgMapInner msgs s) = ms_needReload s" for s
  proof (induction msgs arbitrary: s)
    case (Cons msg msgs)
    then show ?case using one[of msg s] by (cases "UpdateMsgMapIfNeed msg s") (simp add: delete_msgs_def)
  qed simp
  then show "ms_queue (UpdateMsgMapInner msgs s) = ms_queue s" "ms_needReload (UpdateMsgMapInner msgs s) = ms_needReload s" by auto
qed

text \<open>A message that is handed out leaves the schedule smaller, and after a look nothing waits to be reloaded.\<close>

lemma MoveNextMsg_weight:
  assumes "MoveNextMsg env s = (r, True, s')"
  shows "\<not> ms_needReload s'" "r \<noteq> None \<Longrightarrow> weight s' < weight s"
proof -
  have "\<not> ms_needReload s' \<and> (r \<noteq> None \<longrightarrow> weight s' < weight s)"
  proof (cases "sv_remoteVersion env < SOFTWARE_VERSION_RELEASE_3_0")
    case True
    then show ?thesis using assms
      by (auto simp: MoveNextMsg_def GetLastMsgFromQueue_def delete_msgs_def weight_def Let_def split: if_splits)
  next
    case False
    let ?t = "Schedule_ResetTimer env (s\<lparr>ms_working := True\<rparr>)"
    have t: "ms_queue ?t = ms_queue s" "ms_map ?t = ms_map s"
      by (auto simp: Schedule_ResetTimer_def StartTimer_def StopTimer_def split: prod.split)
    let ?u = "UpdateMsgMap ?t"
    have u: "ms_queue ?u = []" "\<not> ms_needReload ?u" "length (ms_map ?u) \<le> weight s"
      using length_map_update[of "ms_queue ?t" "?t\<lparr>ms_queue := [], ms_needReload := False\<rparr>"] t
      by (simp_all add: UpdateMsgMap_def weight_def)
    obtain r1 s1 where g: "GetMsgFromMap ?u = (r1, s1)" by (cases "GetMsgFromMap ?u")
    have "ms_queue s1 = []" "\<not> ms_needReload s1" "r1 \<noteq> None \<longrightarrow> length (ms_map s1) < length (ms_map ?u)"
      using g u(1,2) get_from_map_shorter by (auto simp: GetMsgFromMap_def delete_msgs_def split: prod.splits)
    moreover have "r = r1 \<and> (s' = s1 \<or> r = None \<and> s' = (StopTimer s1)\<lparr>ms_working := False\<rparr>)"
      using assms False g by (auto simp: MoveNextMsg_def Let_def split: if_splits option.splits)
    ultimately show ?thesis using u(3) by (auto simp: weight_def StopTimer_def)
  qed
  then show "\<not> ms_needReload s'" "r \<noteq> None \<Longrightarrow> weight s' < weight s" by auto
qed

lemma handle_msg_weight: "handle_msg env msg h s = Ok s' \<Longrightarrow> weight s' \<le> weight s"
  by (auto simp: handle_msg_def ScheduleInfoHandle_def note_event_def delete_msgs_def ClearMsgMapWithNoLock_def weight_def Let_def
      res_bind_eq_Ok split: if_splits option.splits prod.splits)

function schedule_loop :: "schedule_env \<Rightarrow> msg_schedule \<Rightarrow> msg_schedule res" where
  "schedule_loop env s =
     (case MoveNextMsg env s of
        (r, cont, s1) \<Rightarrow>
          if \<not> cont then Ok s1
          else case r of
                 None \<Rightarrow> if IsNeedReloadQueue s1 then schedule_loop env s1 else ScheduleInfoHandle False False None s1
               | Some (msg, isNeedHandle) \<Rightarrow>
                   (case handle_msg env msg isNeedHandle s1 of Ok s2 \<Rightarrow> schedule_loop env s2 | Err e \<Rightarrow> Err e | Fault \<Rightarrow> Fault))"
  by pat_completeness auto
termination
proof (relation "measure (\<lambda>(env, s). weight s)")
  show "wf (measure (\<lambda>(env :: schedule_env, s). weight s))" by simp
next
  fix env s r y cont s1
  assume "(r, y) = MoveNextMsg env s" "(cont, s1) = y" "\<not> \<not> cont" "r = None" "IsNeedReloadQueue s1"
  then show "((env, s1), env, s) \<in> measure (\<lambda>(env, s). weight s)"
    using MoveNextMsg_weight(1)[of env s r s1] by (simp add: IsNeedReloadQueue_def)
next
  fix env s r y cont s1 a msg isNeedHandle s2
  assume "(r, y) = MoveNextMsg env s" "(cont, s1) = y" "\<not> \<not> cont" "r = Some a" "(msg, isNeedHandle) = a"
    "handle_msg env msg isNeedHandle s1 = Ok s2"
  then show "((env, s2), env, s) \<in> measure (\<lambda>(env, s). weight s)"
    using MoveNextMsg_weight(2)[of env s r s1] handle_msg_weight[of env msg isNeedHandle s1 s2] by fastforce
qed

declare schedule_loop.simps [simp del]

definition ScheduleMsgAndHandle :: "schedule_env \<Rightarrow> data_msg option \<Rightarrow> msg_schedule \<Rightarrow> msg_schedule res" where
  "ScheduleMsgAndHandle env inMsg s = schedule_loop env (PutMsg inMsg s)"

section \<open>Arrivals and turns in any order\<close>

text \<open>
  Messages arrive from any thread at any time; a thread that finds another one working leaves its message in the queue.  A turn
  is one round of the loop of the working thread.  The timer may fire, and the schedule may be cleared, between turns.
\<close>

datatype sched_act = Arrive data_msg | Turn | Expire u64 | Clear

definition turn :: "schedule_env \<Rightarrow> msg_schedule \<Rightarrow> msg_schedule res" where
  "turn env s =
     (case MoveNextMsg env s of
        (r, cont, s1) \<Rightarrow>
          if \<not> cont then Ok s1
          else case r of
                 None \<Rightarrow> if IsNeedReloadQueue s1 then Ok s1 else ScheduleInfoHandle False False None s1
               | Some (msg, isNeedHandle) \<Rightarrow> handle_msg env msg isNeedHandle s1)"

fun sched_step :: "schedule_env \<Rightarrow> sched_act \<Rightarrow> msg_schedule \<Rightarrow> msg_schedule res" where
  "sched_step env (Arrive m) s = Ok (PutMsg (Some m) s)"
| "sched_step env Turn s = turn env s"
| "sched_step env (Expire t) s = Ok (TimeOut t s)"
| "sched_step env Clear s = Ok (ClearMsg s)"

fun sched_run :: "schedule_env \<Rightarrow> sched_act list \<Rightarrow> msg_schedule \<Rightarrow> msg_schedule res" where
  "sched_run env [] s = Ok s"
| "sched_run env (a # acts) s = res_bind (sched_step env a s) (sched_run env acts)"

fun arrivals :: "sched_act list \<Rightarrow> data_msg list" where
  "arrivals [] = []"
| "arrivals (Arrive m # acts) = m # arrivals acts"
| "arrivals (_ # acts) = arrivals acts"

fun event_msg :: "data_event \<Rightarrow> data_msg" where
  "event_msg (Handled m) = m"
| "event_msg (FinishedAck m) = m"

text \<open>What has been handled has been deleted afterwards.\<close>

definition ms_inv :: "msg_schedule \<Rightarrow> bool" where
  "ms_inv s \<longleftrightarrow> ms_ok s \<and> mset (map event_msg (ms_events s)) \<subseteq># mset (ms_deleted s)"

lemma deleted_grows:
  "mset (ms_deleted s) \<subseteq># mset (ms_deleted (UpdateMsgMapInner msgs s)) \<and> ms_events (UpdateMsgMapInner msgs s) = ms_events s"
proof (induction msgs arbitrary: s)
  case (Cons msg msgs)
  obtain e s' where u: "UpdateMsgMapIfNeed msg s = (e, s')" by (cases "UpdateMsgMapIfNeed msg s")
  let ?t = "if e \<noteq> E_OK then delete_msgs [msg] s' else s'"
  have "mset (ms_deleted s) \<subseteq># mset (ms_deleted ?t) \<and> ms_events ?t = ms_events s"
    using u by (auto simp: UpdateMsgMapIfNeed_def ClearMsgMapWithNoLock_def delete_msgs_def Let_def split: option.splits if_splits)
  then show ?case using Cons.IH[of ?t] u by (auto intro: subset_mset.order_trans)
qed simp

text \<open>Looking for the next message changes neither the events nor releases a message twice.\<close>

lemma MoveNextMsg_kept:
  assumes "ms_inv s" "MoveNextMsg env s = (r, cont, s')"
  shows "ms_inv s'" "msgs_kept s = msgs_kept s' + given r" "ms_events s' = ms_events s"
proof -
  have "ms_inv s' \<and> msgs_kept s = msgs_kept s' + given r \<and> ms_events s' = ms_events s"
  proof (cases "ms_working s")
    case True
    then show ?thesis using assms by (auto simp: MoveNextMsg_def given_def)
  next
    case w: False
    show ?thesis
    proof (cases "sv_remoteVersion env < SOFTWARE_VERSION_RELEASE_3_0")
      case True
      have q: "mset q = add_mset (last q) (mset (butlast q))" if "q \<noteq> []" for q :: "data_msg list"
        using append_butlast_last_id[OF that] by (metis add_mset_add_single mset_append mset_single_iff_right)
      show ?thesis using assms w True q[of "ms_queue s"]
        by (auto simp: MoveNextMsg_def GetLastMsgFromQueue_def delete_msgs_def given_def ms_inv_def ms_ok_def msgs_kept_def Let_def
            split: if_splits intro: subset_mset.order_trans)
    next
      case False
      let ?t = "Schedule_ResetTimer env (s\<lparr>ms_working := True\<rparr>)"
      have t: "ms_ok ?t" "msgs_kept ?t = msgs_kept s" "ms_deleted ?t = ms_deleted s" "ms_events ?t = ms_events s"
        using assms(1) by (simp_all add: ms_inv_def) (simp_all add: Schedule_ResetTimer_def StartTimer_def StopTimer_def split: prod.split)
      let ?u = "UpdateMsgMap ?t"
      have u: "ms_ok ?u" "msgs_kept ?u = msgs_kept s" using UpdateMsgMap_kept[OF t(1)] t(2) by auto
      have d: "mset (ms_deleted s) \<subseteq># mset (ms_deleted ?u)" "ms_events ?u = ms_events s"
        using deleted_grows[of "?t\<lparr>ms_queue := [], ms_needReload := False\<rparr>" "ms_queue ?t"] t(3,4) by (simp_all add: UpdateMsgMap_def)
      obtain r1 s1 where g: "GetMsgFromMap ?u = (r1, s1)" by (cases "GetMsgFromMap ?u")
      note k = GetMsgFromMap_kept(1,2)[OF u(1) g]
      have e: "mset (ms_deleted ?u) \<subseteq># mset (ms_deleted s1)" "ms_events s1 = ms_events s"
        using g d(2) by (auto simp: GetMsgFromMap_def delete_msgs_def split: prod.splits)
      have "ms_inv s1" using k(1) d(1) e assms(1) by (auto simp: ms_inv_def intro: subset_mset.order_trans)
      moreover have "r = r1 \<and> (s' = s1 \<or> s' = (StopTimer s1)\<lparr>ms_working := False\<rparr>)"
        using assms(2) w False g by (auto simp: MoveNextMsg_def Let_def split: option.splits)
      ultimately show ?thesis using k(2) u(2) e(2) by (auto simp: ms_inv_def StopTimer_def ms_ok_def msgs_kept_def)
    qed
  qed
  then show "ms_inv s'" "msgs_kept s = msgs_kept s' + given r" "ms_events s' = ms_events s" by auto
qed

lemma handle_msg_kept:
  assumes "ms_inv s"
  shows "\<exists>s'. handle_msg env msg h s = Ok s' \<and> ms_inv s' \<and> msgs_kept s' = add_mset msg (msgs_kept s) \<and>
    ms_events s' = ms_events s @ [if h then Handled msg else FinishedAck msg]"
proof -
  obtain e w where h: "sv_handle env msg = (e, w)" by (cases "sv_handle env msg")
  let ?ev = "if h then Handled msg else FinishedAck msg"
  let ?s = "note_event ?ev s"
  have em: "event_msg ?ev = msg" by simp
  obtain s1 where s1: "ScheduleInfoHandle (h \<and> e \<noteq> E_TIMEOUT \<and> \<not> sv_remoteVersion env < SOFTWARE_VERSION_RELEASE_3_0)
      (h \<and> (w \<or> e = E_NEED_ABILITY_SYNC \<or> e = E_NEED_TIME_SYNC)) (Some msg) ?s = Ok s1"
    and ok: "ms_ok s1" "msgs_kept s1 = msgs_kept s" "ms_events s1 = ms_events s @ [?ev]" "mset (ms_deleted s) \<subseteq># mset (ms_deleted s1)"
  proof (cases "h \<and> e \<noteq> E_TIMEOUT \<and> \<not> sv_remoteVersion env < SOFTWARE_VERSION_RELEASE_3_0")
    case False
    then show thesis using assms by (intro that[of "?s\<lparr>ms_working := False\<rparr>"])
      (auto simp: ScheduleInfoHandle_def note_event_def ms_inv_def ms_ok_def msgs_kept_def)
  next
    case True
    show thesis
    proof (cases "GetPacketId msg")
      case None
      then show thesis using True assms by (intro that[of ?s])
        (auto simp: ScheduleInfoHandle_def note_event_def ms_inv_def ms_ok_def msgs_kept_def)
    next
      case (Some p)
      let ?s1 = "?s\<lparr>ms_finishedPacketId := p\<rparr>"
      let ?s2 = "if h \<and> (w \<or> e = E_NEED_ABILITY_SYNC \<or> e = E_NEED_TIME_SYNC) then (ClearMsgMapWithNoLock ?s1)\<lparr>ms_expectedSeq := 1\<rparr>
        else ?s1\<lparr>ms_expectedSeq := ms_expectedSeq ?s1 + 1\<rparr>"
      show thesis using True Some assms by (intro that[of "?s2\<lparr>ms_working := False\<rparr>"])
        (auto simp: ScheduleInfoHandle_def ClearMsgMapWithNoLock_def delete_msgs_def note_event_def ms_inv_def ms_ok_def msgs_kept_def Let_def)
    qed
  qed
  have r: "handle_msg env msg h s = Ok (delete_msgs [msg] s1)" using s1 by (simp add: handle_msg_def h)
  have "mset (map event_msg (ms_events s)) \<subseteq># mset (ms_deleted s1)"
    using assms ok(4) by (auto simp: ms_inv_def intro: subset_mset.order_trans)
  then have "ms_inv (delete_msgs [msg] s1)" using ok(1,3) em by (simp add: ms_inv_def) (simp add: delete_msgs_def)
  then show ?thesis using r ok(2,3) by (simp add: delete_msgs_def msgs_kept_def)
qed

lemma turn_kept:
  assumes "ms_inv s"
  shows "\<exists>s'. turn env s = Ok s' \<and> ms_inv s' \<and> msgs_kept s' = msgs_kept s"
proof -
  obtain r cont s1 where m: "MoveNextMsg env s = (r, cont, s1)" by (cases "MoveNextMsg env s")
  note k = MoveNextMsg_kept[OF assms m]
  show ?thesis
  proof (cases r)
    case None
    then show ?thesis using m k by (auto simp: turn_def ScheduleInfoHandle_def given_def ms_inv_def)
  next
    case (Some a)
    obtain msg h where a: "a = (msg, h)" by (cases a)
    have "cont" using m Some by (auto simp: MoveNextMsg_def Let_def split: if_splits prod.splits option.splits)
    then show ?thesis using m k Some handle_msg_kept[OF k(1), of env msg h] by (auto simp: turn_def given_def a)
  qed
qed

lemma sched_run_kept:
  "ms_inv s \<Longrightarrow> \<exists>s'. sched_run env acts s = Ok s' \<and> ms_inv s' \<and> msgs_kept s' = msgs_kept s + mset (arrivals acts)"
proof (induction acts arbitrary: s)
  case (Cons a acts)
  have "\<exists>s1. sched_step env a s = Ok s1 \<and> ms_inv s1 \<and> msgs_kept s1 = msgs_kept s + mset (arrivals [a])"
  proof (cases a)
    case Turn
    then show ?thesis using turn_kept[OF Cons.prems] by auto
  qed (use Cons.prems in \<open>auto simp: PutMsg_def TimeOut_def ClearMsg_def ClearMsgQueue_def ClearMsgMapWithNoLock_def StopTimer_def
        delete_msgs_def ms_inv_def ms_ok_def msgs_kept_def intro: subset_mset.order_trans\<close>)
  moreover have "arrivals (a # acts) = arrivals [a] @ arrivals acts" by (cases a) auto
  ultimately show ?case using Cons.IH by force
qed auto

section \<open>One session in order\<close>

fun handled_msgs :: "data_event list \<Rightarrow> data_msg list" where
  "handled_msgs [] = []"
| "handled_msgs (Handled m # es) = m # handled_msgs es"
| "handled_msgs (FinishedAck m # es) = handled_msgs es"

lemma handled_append [simp]: "handled_msgs (es @ es') = handled_msgs es @ handled_msgs es'"
  by (induction es rule: handled_msgs.induct) auto

text \<open>
  The messages of a session: numbered from one, with packet ids that do not decrease.  The handler accepts all of them.
\<close>

definition msg_packet :: "data_msg \<Rightarrow> u64" where
  "msg_packet x = (case GetPacketId x of None \<Rightarrow> 0 | Some p \<Rightarrow> p)"

definition session_ok :: "schedule_env \<Rightarrow> (nat \<Rightarrow> data_msg) \<Rightarrow> u32 \<Rightarrow> nat \<Rightarrow> bool" where
  "session_ok env m sid n \<longleftrightarrow> n + 1 < 2 ^ 32 \<and> \<not> sv_remoteVersion env < SOFTWARE_VERSION_RELEASE_3_0 \<and>
     (\<forall>j \<in> {1..n}. sequenceId (m j) = of_nat j \<and> sessionId (m j) = sid \<and> GetPacketId (m j) \<noteq> None \<and> sv_handle env (m j) = (E_OK, False)) \<and>
     (\<forall>i \<in> {1..n}. \<forall>j \<in> {1..n}. i \<le> j \<longrightarrow> msg_packet (m i) \<le> msg_packet (m j))"

lemma session_okD:
  assumes "session_ok env m sid n" "j \<in> {1..n}"
  shows "sequenceId (m j) = of_nat j" "sessionId (m j) = sid" "GetPacketId (m j) = Some (msg_packet (m j))" "sv_handle env (m j) = (E_OK, False)"
    "j < 2 ^ 32"
  using assms by (auto simp: session_ok_def msg_packet_def split: option.split)

lemma of_nat32_less: "i < 2 ^ 32 \<Longrightarrow> j < 2 ^ 32 \<Longrightarrow> (of_nat i :: u32) < of_nat j \<longleftrightarrow> i < j"
  by (simp add: word_less_nat_alt unat_of_nat32)

lemma of_nat32_eq: "i < 2 ^ 32 \<Longrightarrow> j < 2 ^ 32 \<Longrightarrow> (of_nat i :: u32) = of_nat j \<longleftrightarrow> i = j"
  by (metis unat_of_nat32)

text \<open>The map holds the messages with the numbers \<open>K\<close>; the last packet handled is that of number \<open>k\<close>.\<close>

definition rep :: "(nat \<Rightarrow> data_msg) \<Rightarrow> nat set \<Rightarrow> (u32, data_msg) omap \<Rightarrow> bool" where
  "rep m K mp \<longleftrightarrow> om_ok mp \<and> set mp = (\<lambda>j. (of_nat j, m j)) ` K"

definition fin :: "(nat \<Rightarrow> data_msg) \<Rightarrow> nat \<Rightarrow> u64" where
  "fin m k = (if k = 0 then 0 else msg_packet (m k))"

lemma rep_keys:
  assumes "rep m K mp" "K \<subseteq> {1..n}" "n + 1 < 2 ^ 32" "j \<in> {1..n}"
  shows "(of_nat j, v) \<in> set mp \<longleftrightarrow> j \<in> K \<and> v = m j"
proof -
  have eq: "(of_nat j :: u32) = of_nat i \<longleftrightarrow> j = i" if "i \<in> K" for i
    by (rule of_nat32_eq) (use that assms(2-4) in auto)
  have "(of_nat j, v) \<in> set mp \<longleftrightarrow> (\<exists>i \<in> K. (of_nat j :: u32) = of_nat i \<and> v = m i)" using assms(1) by (auto simp: rep_def)
  then show ?thesis using eq by blast
qed

lemma rep_find:
  assumes "rep m K mp" "K \<subseteq> {1..n}" "n + 1 < 2 ^ 32" "j \<in> {1..n}"
  shows "om_find mp (of_nat j) = (if j \<in> K then Some (m j) else None)"
proof -
  have "om_find mp (of_nat j) = Some v \<longleftrightarrow> j \<in> K \<and> v = m j" for v
    using rep_keys[OF assms] om_find_iff_mem[of mp] assms(1) by (simp add: rep_def)
  then show ?thesis by (cases "om_find mp (of_nat j)") auto
qed

lemma rep_insert:
  assumes "rep m K mp" "K \<subseteq> {1..n}" "n + 1 < 2 ^ 32" "j \<in> {1..n}"
  shows "rep m (insert j K) (om_insert (of_nat j) (m j) mp)"
proof -
  have ok: "om_ok mp" and st: "set mp = (\<lambda>j. (of_nat j, m j)) ` K" using assms(1) by (simp_all add: rep_def)
  have eq: "(of_nat i :: u32) = of_nat j \<longleftrightarrow> i = j" if "i \<in> K" for i
    by (rule of_nat32_eq) (use that assms(2-4) in auto)
  have "insert (of_nat j, m j) {e \<in> (\<lambda>j. (of_nat j :: u32, m j)) ` K. fst e \<noteq> of_nat j} = (\<lambda>j. (of_nat j, m j)) ` insert j K"
    using eq by auto
  then show ?thesis using ok by (simp add: rep_def set_om_insert st)
qed

lemma rep_Cons:
  assumes "rep m K ((key, x) # rest)" "K \<subseteq> {1..n}" "n + 1 < 2 ^ 32"
  obtains j where "j \<in> K" "key = of_nat j" "x = m j" "rep m (K - {j}) rest" "\<forall>i \<in> K - {j}. j < i"
proof -
  have "(key, x) \<in> (\<lambda>j. (of_nat j, m j)) ` K" using assms(1) by (auto simp: rep_def)
  then obtain j where j: "j \<in> K" "key = of_nat j" "x = m j" by auto
  have lt: "i < 2 ^ 32" if "i \<in> K" for i using that assms(2,3) by auto
  have ok: "om_ok rest" "\<forall>e \<in> set rest. of_nat j < fst e" using assms(1) j by (auto simp: rep_def om_ok_Cons)
  have st: "insert (of_nat j, m j) (set rest) = (\<lambda>j. (of_nat j, m j)) ` K" using assms(1) j by (auto simp: rep_def)
  have "set rest = (\<lambda>j. (of_nat j, m j)) ` (K - {j})"
  proof (intro equalityI subsetI)
    fix e assume e: "e \<in> set rest"
    then obtain i where i: "i \<in> K" "e = (of_nat i, m i)" using st by auto
    have "(of_nat j :: u32) < of_nat i" using ok(2) e i(2) by auto
    then show "e \<in> (\<lambda>j. (of_nat j, m j)) ` (K - {j})" using i by auto
  next
    fix e :: "u32 \<times> data_msg" assume "e \<in> (\<lambda>j. (of_nat j, m j)) ` (K - {j})"
    then obtain i where i: "i \<in> K" "i \<noteq> j" "e = (of_nat i, m i)" by auto
    then have "e \<noteq> (of_nat j, m j)" using of_nat32_eq[OF lt[OF i(1)] lt[OF j(1)]] by auto
    moreover have "e \<in> insert (of_nat j, m j) (set rest)" unfolding st using i by auto
    ultimately show "e \<in> set rest" by auto
  qed
  then have r: "rep m (K - {j}) rest" using ok(1) by (simp add: rep_def)
  have "j < i" if "i \<in> K - {j}" for i
  proof -
    have "(of_nat i, m i) \<in> set rest" using r that by (auto simp: rep_def)
    then have "(of_nat j :: u32) < of_nat i" using ok(2) by fastforce
    then show ?thesis using of_nat32_less[OF lt[OF j(1)] lt, of i] that by simp
  qed
  then show thesis using that j r by blast
qed

text \<open>Looking into the map: an old message is acknowledged or dropped, the next one is handed out, later ones stay.\<close>

lemma get_from_map_session:
  assumes "session_ok env m sid n" "rep m K mp" "K \<subseteq> {1..n}" "k \<le> n" "get_from_map (of_nat (Suc k)) (fin m k) mp = (r, mp', del)"
  shows "\<exists>K'. rep m K' mp' \<and> K' \<subseteq> K \<and>
    (case r of None \<Rightarrow> Suc k \<notin> K \<and> {j \<in> K. k < j} \<subseteq> K'
     | Some (x, True) \<Rightarrow> Suc k \<in> K \<and> x = m (Suc k) \<and> {j \<in> K. Suc k < j} \<subseteq> K'
     | Some (x, False) \<Rightarrow> (\<exists>j \<in> K. j \<le> k \<and> x = m j) \<and> {j \<in> K. k < j} \<subseteq> K')"
  using assms(2,3,5)
proof (induction mp arbitrary: K r mp' del)
  case Nil
  then show ?case by (auto simp: rep_def)
next
  case (Cons kv rest)
  have n: "n + 1 < 2 ^ 32" using assms(1) by (simp add: session_ok_def)
  obtain key x where kv: "kv = (key, x)" by (cases kv)
  from rep_Cons[OF Cons.prems(1)[unfolded kv] Cons.prems(2) n] obtain j where j: "j \<in> K" "key = of_nat j" "x = m j" "rep m (K - {j}) rest"
    "\<forall>i \<in> K - {j}. j < i" by blast
  have jn: "j \<in> {1..n}" using j(1) Cons.prems(2) by blast
  note sj = session_okD[OF assms(1) jn]
  have cmp: "(of_nat j :: u32) < of_nat (Suc k) \<longleftrightarrow> j \<le> k" "(of_nat j :: u32) = of_nat (Suc k) \<longleftrightarrow> j = Suc k"
    using of_nat32_less[of j "Suc k"] of_nat32_eq[of j "Suc k"] sj(5) n assms(4) by auto
  obtain r1 m1 d1 where g: "get_from_map (of_nat (Suc k)) (fin m k) rest = (r1, m1, d1)" by (cases "get_from_map (of_nat (Suc k)) (fin m k) rest")
  from Cons.IH[OF j(4) _ g] Cons.prems(2) obtain K1 where K1: "rep m K1 m1" "K1 \<subseteq> K - {j}"
    "case r1 of None \<Rightarrow> Suc k \<notin> K - {j} \<and> {i \<in> K - {j}. k < i} \<subseteq> K1
     | Some (x, True) \<Rightarrow> Suc k \<in> K - {j} \<and> x = m (Suc k) \<and> {i \<in> K - {j}. Suc k < i} \<subseteq> K1
     | Some (x, False) \<Rightarrow> (\<exists>i \<in> K - {j}. i \<le> k \<and> x = m i) \<and> {i \<in> K - {j}. k < i} \<subseteq> K1" by blast
  consider (old) "j \<le> k" | (now) "j = Suc k" | (later) "Suc k < j" by linarith
  then show ?case
  proof cases
    case old
    then have c: "sequenceId x < of_nat (Suc k)" using cmp j(3) sj(1) by simp
    show ?thesis
    proof (cases "r = r1 \<and> mp' = m1")
      case True
      then show ?thesis using K1 old by (intro exI[of _ K1]) (auto split: option.splits bool.splits)
    next
      case False
      then have "r = Some (m j, False)" "mp' = rest"
        using Cons.prems(3) c sj(3) j(3) by (auto simp: kv g Let_def simp del: of_nat_Suc split: if_splits)
      then show ?thesis using j old by (intro exI[of _ "K - {j}"]) auto
    qed
  next
    case now
    have "\<not> msg_packet (m (Suc k)) < fin m k"
      using assms(1,4) jn now by (auto simp: fin_def session_ok_def not_less)
    then have "r = Some (m j, True)" "mp' = rest"
      using Cons.prems(3) now sj j(3) by (auto simp: kv g Let_def simp del: of_nat_Suc)
    then show ?thesis using j now by (intro exI[of _ "K - {j}"]) auto
  next
    case later
    then have c: "\<not> sequenceId x < of_nat (Suc k)" "sequenceId x \<noteq> of_nat (Suc k)" using cmp j(3) sj(1) by auto
    then have "r = None" "mp' = om_insert (of_nat j) (m j) rest" using Cons.prems(3) sj j(3) by (auto simp: kv Let_def simp del: of_nat_Suc)
    moreover have "rep m K (om_insert (of_nat j) (m j) rest)"
      using rep_insert[OF j(4) subset_trans[OF Diff_subset Cons.prems(2)] n jn] j(1) by (simp add: insert_absorb)
    moreover have "Suc k \<notin> K" using later bspec[OF j(5), of "Suc k"] by auto
    ultimately show ?thesis by (intro exI[of _ K]) auto
  qed
qed

text \<open>
  The state of the schedule in a session: the messages \<open>m 1\<close> to \<open>m k\<close> are done and those numbered \<open>K\<close> are cached; before the
  first message is seen the schedule is still at an older session.
\<close>

definition fresh_for :: "u32 \<Rightarrow> msg_schedule \<Rightarrow> bool" where
  "fresh_for sid s \<longleftrightarrow> ms_curSession s \<noteq> sid \<and> \<not> (ms_prevSession s \<noteq> 0 \<and> ms_prevSession s = sid) \<and> ms_map s = []"

definition started :: "(nat \<Rightarrow> data_msg) \<Rightarrow> u32 \<Rightarrow> nat \<Rightarrow> nat set \<Rightarrow> msg_schedule \<Rightarrow> bool" where
  "started m sid k K s \<longleftrightarrow> ms_curSession s = sid \<and> ms_prevSession s \<noteq> sid \<and> ms_expectedSeq s = of_nat (Suc k) \<and>
     ms_finishedPacketId s = fin m k \<and> rep m K (ms_map s)"

definition sess :: "(nat \<Rightarrow> data_msg) \<Rightarrow> u32 \<Rightarrow> nat \<Rightarrow> nat set \<Rightarrow> msg_schedule \<Rightarrow> bool" where
  "sess m sid k K s \<longleftrightarrow> fresh_for sid s \<and> k = 0 \<and> K = {} \<or> started m sid k K s"

lemma sess_simps [simp]:
  "sess m sid k K (s\<lparr>ms_working := b\<rparr>) = sess m sid k K s" "sess m sid k K (s\<lparr>ms_timer := t\<rparr>) = sess m sid k K s"
  "sess m sid k K (s\<lparr>ms_queue := q\<rparr>) = sess m sid k K s" "sess m sid k K (s\<lparr>ms_needReload := b\<rparr>) = sess m sid k K s"
  "sess m sid k K (s\<lparr>ms_events := ev\<rparr>) = sess m sid k K s" "sess m sid k K (delete_msgs ms s) = sess m sid k K s"
  by (simp_all add: sess_def fresh_for_def started_def delete_msgs_def)

lemma UpdateMsgMapIfNeed_session:
  assumes "session_ok env m sid n" "sess m sid k K s" "K \<subseteq> {1..n}" "j \<in> {1..n}"
  shows "\<exists>s'. UpdateMsgMapIfNeed (m j) s = (E_OK, s') \<and> started m sid k (insert j K) s'"
proof -
  note sj = session_okD[OF assms(1,4)]
  have n: "n + 1 < 2 ^ 32" using assms(1) by (simp add: session_ok_def)
  have empty: "rep m {} []" by (simp add: rep_def)
  show ?thesis
  proof (cases "started m sid k K s")
    case True
    then have r: "rep m K (ms_map s)" and c: "ms_curSession s = sid" "ms_prevSession s \<noteq> sid" by (simp_all add: started_def)
    note f = rep_find[OF r assms(3) n assms(4)] and i = rep_insert[OF r assms(3) n assms(4)]
    show ?thesis using True c sj(1-3) f i by (cases "j \<in> K") (auto simp: UpdateMsgMapIfNeed_def started_def delete_msgs_def)
  next
    case False
    with assms(2) have c: "fresh_for sid s" "k = 0" "K = {}" by (auto simp: sess_def)
    have i: "rep m {j} (om_insert (of_nat j) (m j) [])" using rep_insert[OF empty _ n assms(4)] by simp
    have c1: "sid \<noteq> ms_curSession s" "ms_prevSession s = 0 \<or> ms_prevSession s \<noteq> sid" "ms_map s = []" using c(1) by (auto simp: fresh_for_def)
    show ?thesis using c(2,3) c1 sj(1-3) i
      by (auto simp: UpdateMsgMapIfNeed_def started_def fin_def ClearMsgMapWithNoLock_def delete_msgs_def Let_def)
  qed
qed

lemma UpdateMsgMapInner_session:
  assumes "session_ok env m sid n" "set Q \<subseteq> {1..n}" "sess m sid k K s" "K \<subseteq> {1..n}"
  shows "sess m sid k (K \<union> set Q) (UpdateMsgMapInner (map m Q) s)"
  using assms(2-4)
proof (induction Q arbitrary: K s)
  case (Cons j Q)
  obtain s' where u: "UpdateMsgMapIfNeed (m j) s = (E_OK, s')" "started m sid k (insert j K) s'"
    using UpdateMsgMapIfNeed_session[OF assms(1) Cons.prems(2,3), of j] Cons.prems(1) by auto
  have "sess m sid k (insert j K \<union> set Q) (UpdateMsgMapInner (map m Q) s')"
    by (rule Cons.IH) (use u(2) Cons.prems in \<open>auto simp: sess_def\<close>)
  then show ?case using u(1) by simp
qed simp

text \<open>The whole state, with what waits in the queue; \<open>R\<close> are the numbers that have arrived and \<open>H\<close> the messages of earlier sessions.\<close>

definition in_session :: "(nat \<Rightarrow> data_msg) \<Rightarrow> u32 \<Rightarrow> nat \<Rightarrow> data_msg list \<Rightarrow> nat set \<Rightarrow> nat \<Rightarrow> msg_schedule \<Rightarrow> bool" where
  "in_session m sid n H R k s \<longleftrightarrow>
     \<not> ms_working s \<and> k \<le> n \<and> handled_msgs (ms_events s) = H @ map m [1..<Suc k] \<and>
     (\<exists>K Q. sess m sid k K s \<and> K \<subseteq> {1..n} \<and> ms_queue s = map m Q \<and> set Q \<subseteq> {1..n} \<and> R = {1..k} \<union> K \<union> set Q)"

lemma in_session_arrive:
  assumes "in_session m sid n H R k s" "j \<in> {1..n}"
  shows "in_session m sid n H (insert j R) k (PutMsg (Some (m j)) s)"
proof -
  obtain K Q where kq: "sess m sid k K s" "K \<subseteq> {1..n}" "ms_queue s = map m Q" "set Q \<subseteq> {1..n}" "R = {1..k} \<union> K \<union> set Q"
    using assms(1) by (auto simp: in_session_def)
  have "ms_queue (PutMsg (Some (m j)) s) = map m (Q @ [j])" "set (Q @ [j]) \<subseteq> {1..n}" "insert j R = {1..k} \<union> K \<union> set (Q @ [j])"
    "sess m sid k K (PutMsg (Some (m j)) s)"
    using kq assms(2) by (auto simp: PutMsg_def)
  moreover have "\<not> ms_working (PutMsg (Some (m j)) s)" "k \<le> n" "handled_msgs (ms_events (PutMsg (Some (m j)) s)) = H @ map m [1..<Suc k]"
    using assms(1) by (simp_all add: in_session_def PutMsg_def)
  ultimately show ?thesis using kq(2) unfolding in_session_def by blast
qed

text \<open>What the look into the map leaves of the numbers \<open>R\<close> that have arrived: the numbers \<open>K\<close> are still cached.\<close>

definition seq_taken :: "(nat \<Rightarrow> data_msg) \<Rightarrow> nat \<Rightarrow> nat set \<Rightarrow> nat \<Rightarrow> (data_msg \<times> bool) option \<Rightarrow> nat set \<Rightarrow> bool" where
  "seq_taken m n R k r K \<longleftrightarrow>
     (case r of None \<Rightarrow> R = {1..k} \<union> K \<and> Suc k \<notin> R
      | Some (x, True) \<Rightarrow> Suc k \<le> n \<and> x = m (Suc k) \<and> R = {1..Suc k} \<union> K
      | Some (x, False) \<Rightarrow> R = {1..k} \<union> K)"

lemma get_from_map_arrived:
  assumes ok: "session_ok env m sid n" and r: "rep m K mp" and sub: "K \<subseteq> {1..n}" and k: "k \<le> n"
    and g: "get_from_map (of_nat (Suc k)) (fin m k) mp = (r, mp', del)"
  shows "\<exists>K'. rep m K' mp' \<and> K' \<subseteq> {1..n} \<and> seq_taken m n ({1..k} \<union> K) k r K'"
proof -
  let ?R = "{1..k} \<union> K"
  from get_from_map_session[OF ok r sub k g] obtain K' where K': "rep m K' mp'" "K' \<subseteq> K"
    "case r of None \<Rightarrow> Suc k \<notin> K \<and> {j \<in> K. k < j} \<subseteq> K'
     | Some (x, True) \<Rightarrow> Suc k \<in> K \<and> x = m (Suc k) \<and> {j \<in> K. Suc k < j} \<subseteq> K'
     | Some (x, False) \<Rightarrow> (\<exists>j \<in> K. j \<le> k \<and> x = m j) \<and> {j \<in> K. k < j} \<subseteq> K'" by blast
  have split: "?R = {1..k} \<union> {j \<in> K. k < j}" using sub by fastforce
  have split': "?R = {1..Suc k} \<union> {j \<in> K. Suc k < j}" if "Suc k \<in> K"
    unfolding split using that by (auto simp: le_Suc_eq intro: Suc_lessI)
  have both: "?R = {1..k} \<union> K'" if "{j \<in> K. k < j} \<subseteq> K'" using that split K'(2) by blast
  have both': "?R = {1..Suc k} \<union> K'" if "Suc k \<in> K" "{j \<in> K. Suc k < j} \<subseteq> K'" using that split' K'(2) by blast
  consider (stay) "r = None" "Suc k \<notin> K" "{j \<in> K. k < j} \<subseteq> K'"
    | (next_one) "r = Some (m (Suc k), True)" "Suc k \<in> K" "{j \<in> K. Suc k < j} \<subseteq> K'"
    | (old) x where "r = Some (x, False)" "{j \<in> K. k < j} \<subseteq> K'"
    using K'(3) by (cases r) (auto split: bool.splits)
  then have "seq_taken m n ?R k r K'"
  proof cases
    case stay
    then have "Suc k \<notin> ?R" by simp
    moreover have "?R = {1..k} \<union> K'" by (rule both[OF stay(3)])
    ultimately show ?thesis unfolding seq_taken_def stay(1) option.case by (intro conjI)
  next
    case next_one
    then have "Suc k \<le> n" using sub by auto
    then show ?thesis using next_one(1) both'[OF next_one(2,3)] unfolding seq_taken_def by simp
  next
    case old
    then show ?thesis using both unfolding seq_taken_def by simp
  qed
  then show ?thesis using K'(1) subset_trans[OF K'(2) sub] by blast
qed

text \<open>Looking for the next message of the session.\<close>

lemma MoveNextMsg_session:
  assumes ok: "session_ok env m sid n" and s: "in_session m sid n H R k s" and mv: "MoveNextMsg env s = (r, cont, s1)"
  shows "cont \<and> ms_events s1 = ms_events s \<and> ms_queue s1 = [] \<and>
    \<not> ms_needReload s1 \<and> (r = None \<longrightarrow> \<not> ms_working s1) \<and>
    (\<exists>K. sess m sid k K s1 \<and> K \<subseteq> {1..n} \<and> (r \<noteq> None \<longrightarrow> started m sid k K s1) \<and> seq_taken m n R k r K)"
proof -
  obtain K Q where kq: "sess m sid k K s" "K \<subseteq> {1..n}" "ms_queue s = map m Q" "set Q \<subseteq> {1..n}" "R = {1..k} \<union> K \<union> set Q"
    using s by (auto simp: in_session_def)
  have w: "\<not> ms_working s" "k \<le> n" using s by (simp_all add: in_session_def)
  have v: "\<not> sv_remoteVersion env < SOFTWARE_VERSION_RELEASE_3_0" using ok by (simp add: session_ok_def)
  let ?t = "(Schedule_ResetTimer env (s\<lparr>ms_working := True\<rparr>))\<lparr>ms_queue := [], ms_needReload := False\<rparr>"
  have t: "sess m sid k K ?t" "ms_events ?t = ms_events s" "ms_queue (Schedule_ResetTimer env (s\<lparr>ms_working := True\<rparr>)) = map m Q"
    using kq(1,3) by (auto simp: Schedule_ResetTimer_def StartTimer_def StopTimer_def split: prod.split)
  define u where "u = UpdateMsgMap (Schedule_ResetTimer env (s\<lparr>ms_working := True\<rparr>))"
  let ?K = "K \<union> set Q"
  have u: "u = UpdateMsgMapInner (map m Q) ?t" using t(3) by (simp add: u_def UpdateMsgMap_def)
  have us: "sess m sid k ?K u" unfolding u by (rule UpdateMsgMapInner_session[OF ok kq(4) t(1) kq(2)])
  have ue: "ms_events u = ms_events s" "ms_queue u = []" "\<not> ms_needReload u" unfolding u using deleted_grows t(2) by auto
  obtain r1 mp del where g: "get_from_map (ms_expectedSeq u) (ms_finishedPacketId u) (ms_map u) = (r1, mp, del)"
    by (cases "get_from_map (ms_expectedSeq u) (ms_finishedPacketId u) (ms_map u)")
  let ?g = "(delete_msgs del u)\<lparr>ms_map := mp\<rparr>"
  have r: "r = r1" "cont" "s1 = (if r = None then (StopTimer ?g)\<lparr>ms_working := False\<rparr> else ?g)"
    using mv w(1) v g by (auto simp: MoveNextMsg_def u_def[symmetric] GetMsgFromMap_def Let_def split: option.splits)
  have same: "ms_events s1 = ms_events s" "ms_queue s1 = []" "\<not> ms_needReload s1" "r = None \<Longrightarrow> \<not> ms_working s1"
    using ue r(3) by (auto simp: delete_msgs_def StopTimer_def)
  have keep: "started m sid k K' s1" if "started m sid k ?K u" "rep m K' mp" for K'
    using that r(3) by (auto simp: started_def delete_msgs_def StopTimer_def)
  have "\<exists>K'. sess m sid k K' s1 \<and> K' \<subseteq> {1..n} \<and> (r \<noteq> None \<longrightarrow> started m sid k K' s1) \<and> seq_taken m n R k r K'"
  proof (cases "started m sid k ?K u")
    case True
    have sub: "?K \<subseteq> {1..n}" using kq(2,4) by auto
    have "rep m ?K (ms_map u)" "get_from_map (of_nat (Suc k)) (fin m k) (ms_map u) = (r, mp, del)" using True g r(1) by (simp_all add: started_def)
    from get_from_map_arrived[OF ok this(1) sub w(2) this(2)] obtain K' where K': "rep m K' mp" "K' \<subseteq> {1..n}"
      "seq_taken m n ({1..k} \<union> ?K) k r K'" by blast
    moreover have "{1..k} \<union> ?K = R" using kq(5) by blast
    ultimately show ?thesis using keep[OF True K'(1)] unfolding sess_def by metis
  next
    case False
    with us have f: "fresh_for sid u" "k = 0" "?K = {}" by (auto simp: sess_def)
    then have "r = None" "mp = []" using g r(1) by (auto simp: fresh_for_def)
    moreover from this have "fresh_for sid s1" using f(1) r(3) by (auto simp: fresh_for_def delete_msgs_def StopTimer_def)
    ultimately show ?thesis using f(2,3) kq(5) by (auto simp: sess_def seq_taken_def)
  qed
  then show ?thesis using r(2) same by blast
qed

lemma handle_next_session:
  assumes "session_ok env m sid n" "Suc k \<le> n" "started m sid k K s"
  shows "\<exists>s'. handle_msg env (m (Suc k)) True s = Ok s' \<and> \<not> ms_working s' \<and> started m sid (Suc k) K s' \<and>
    ms_queue s' = ms_queue s \<and> ms_events s' = ms_events s @ [Handled (m (Suc k))]"
proof -
  have "Suc k \<in> {1..n}" using assms(2) by auto
  note sj = session_okD[OF assms(1) this]
  have v: "\<not> sv_remoteVersion env < SOFTWARE_VERSION_RELEASE_3_0" using assms(1) by (simp add: session_ok_def)
  show ?thesis using assms(3) sj(3,4) v
    by (auto simp: handle_msg_def ScheduleInfoHandle_def note_event_def delete_msgs_def started_def fin_def Let_def)
qed

lemma handle_old:
  "\<exists>s'. handle_msg env x False s = Ok s' \<and> \<not> ms_working s' \<and> ms_queue s' = ms_queue s \<and> ms_events s' = ms_events s @ [FinishedAck x] \<and>
     (sess m sid k K s' \<longleftrightarrow> sess m sid k K s)"
  by (simp add: handle_msg_def ScheduleInfoHandle_def note_event_def Let_def split: prod.split) (simp add: delete_msgs_def)

text \<open>A round of the loop stays in the session; it ends when the next message has not arrived.\<close>

lemma session_round:
  assumes ok: "session_ok env m sid n" and s: "in_session m sid n H R k s" and mv: "MoveNextMsg env s = (r, cont, s1)"
  shows "cont" and "r = None \<Longrightarrow> \<not> IsNeedReloadQueue s1 \<and> \<not> ms_working s1 \<and> in_session m sid n H R k s1 \<and> Suc k \<notin> R"
    and "r = Some (msg, h) \<Longrightarrow> \<exists>s2 k'. handle_msg env msg h s1 = Ok s2 \<and> in_session m sid n H R k' s2"
proof -
  from MoveNextMsg_session[OF ok s mv] obtain K where c: "cont" and e: "ms_events s1 = ms_events s" "ms_queue s1 = []"
    and w: "\<not> ms_needReload s1" "r = None \<longrightarrow> \<not> ms_working s1"
    and K: "sess m sid k K s1" "K \<subseteq> {1..n}" "r \<noteq> None \<longrightarrow> started m sid k K s1" "seq_taken m n R k r K" by blast
  have h: "k \<le> n" "handled_msgs (ms_events s1) = H @ map m [1..<Suc k]" using s e(1) by (simp_all add: in_session_def)
  have intro_session: "in_session m sid n H R k' s'"
    if "\<not> ms_working s'" "k' \<le> n" "handled_msgs (ms_events s') = H @ map m [1..<Suc k']" "sess m sid k' K s'" "ms_queue s' = []" "R = {1..k'} \<union> K" for k' s'
    using that K(2) unfolding in_session_def by (auto intro!: exI[of _ K])
  show "cont" by (rule c)
  show "\<not> IsNeedReloadQueue s1 \<and> \<not> ms_working s1 \<and> in_session m sid n H R k s1 \<and> Suc k \<notin> R" if "r = None"
  proof -
    have p: "\<not> ms_working s1" "\<not> ms_needReload s1" "R = {1..k} \<union> K" "Suc k \<notin> R" using that K(4) w by (auto simp: seq_taken_def)
    then show ?thesis using intro_session[OF p(1) h K(1) e(2) p(3)] by (auto simp: IsNeedReloadQueue_def)
  qed
  show "\<exists>s2 k'. handle_msg env msg h s1 = Ok s2 \<and> in_session m sid n H R k' s2" if r: "r = Some (msg, h)"
  proof (cases h)
    case True
    then have n: "Suc k \<le> n" "msg = m (Suc k)" "started m sid k K s1" "R = {1..Suc k} \<union> K" using r K(3,4) by (simp_all add: seq_taken_def)
    from handle_next_session[OF ok n(1,3)] obtain s2 where s2: "handle_msg env (m (Suc k)) True s1 = Ok s2" "\<not> ms_working s2"
      "started m sid (Suc k) K s2" "ms_queue s2 = ms_queue s1" "ms_events s2 = ms_events s1 @ [Handled (m (Suc k))]" by blast
    have "in_session m sid n H R (Suc k) s2"
      by (rule intro_session) (use s2 n(1,4) h(2) e(2) in \<open>simp_all add: sess_def\<close>)
    then show ?thesis using s2(1) n(2) True by auto
  next
    case False
    then have n: "R = {1..k} \<union> K" using r K(4) by (simp add: seq_taken_def)
    from handle_old[of env msg s1 m sid k K] obtain s2 where s2: "handle_msg env msg False s1 = Ok s2" "\<not> ms_working s2"
      "ms_queue s2 = ms_queue s1" "ms_events s2 = ms_events s1 @ [FinishedAck msg]" "sess m sid k K s2" using K(1) by blast
    have "in_session m sid n H R k s2"
      by (rule intro_session) (use s2 n h e(2) in simp_all)
    then show ?thesis using s2(1) False by auto
  qed
qed

lemma in_session_idle: "in_session m sid n H R k s \<Longrightarrow> in_session m sid n H R k (s\<lparr>ms_working := False\<rparr>)"
  by (simp add: in_session_def)

lemma turn_session:
  assumes "session_ok env m sid n" "in_session m sid n H R k s"
  shows "\<exists>s' k'. turn env s = Ok s' \<and> in_session m sid n H R k' s'"
proof -
  obtain r cont s1 where mv: "MoveNextMsg env s = (r, cont, s1)" by (cases "MoveNextMsg env s")
  note b = session_round[OF assms mv]
  show ?thesis
  proof (cases r)
    case None
    then show ?thesis using mv b(1) b(2)[OF None] in_session_idle[of m sid n H R k s1] by (auto simp: turn_def ScheduleInfoHandle_def)
  next
    case (Some a)
    obtain x h where a: "a = (x, h)" by (cases a)
    show ?thesis using mv b(1) b(3)[OF Some[unfolded a]] Some a by (auto simp: turn_def)
  qed
qed

lemma schedule_loop_session:
  assumes "session_ok env m sid n" "in_session m sid n H R k s"
  shows "\<exists>s' k'. schedule_loop env s = Ok s' \<and> in_session m sid n H R k' s' \<and> Suc k' \<notin> R"
  using assms(2)
proof (induction "weight s" arbitrary: s k rule: less_induct)
  case less
  obtain r cont s1 where mv: "MoveNextMsg env s = (r, cont, s1)" by (cases "MoveNextMsg env s")
  note b = session_round[OF assms(1) less.prems mv]
  show ?case
  proof (cases r)
    case None
    then show ?thesis using mv b(1) b(2)[OF None] in_session_idle[of m sid n H R k s1]
      by (subst schedule_loop.simps) (auto simp: ScheduleInfoHandle_def)
  next
    case (Some a)
    obtain x h where a: "a = (x, h)" by (cases a)
    from b(3)[OF Some[unfolded a]] obtain s2 k' where s2: "handle_msg env x h s1 = Ok s2" "in_session m sid n H R k' s2" by blast
    have "weight s2 < weight s" using MoveNextMsg_weight(2)[of env s r s1] mv b(1) Some handle_msg_weight[OF s2(1)] by simp
    from less.hyps[OF this s2(2)] show ?thesis using mv b(1) Some a s2(1) by (subst schedule_loop.simps) auto
  qed
qed

text \<open>Any interleaving of arrivals of the session with turns.\<close>

definition session_acts :: "(nat \<Rightarrow> data_msg) \<Rightarrow> nat \<Rightarrow> sched_act list \<Rightarrow> bool" where
  "session_acts m n acts \<longleftrightarrow> (\<forall>a \<in> set acts. a = Turn \<or> a \<in> (\<lambda>j. Arrive (m j)) ` {1..n})"

lemma sched_run_session:
  assumes "session_ok env m sid n" "session_acts m n acts" "in_session m sid n H R k s"
  shows "\<exists>s' k' R'. sched_run env acts s = Ok s' \<and> in_session m sid n H R' k' s' \<and> m ` R' = m ` R \<union> set (arrivals acts)"
  using assms(2,3)
proof (induction acts arbitrary: s k R)
  case (Cons a acts)
  have rest: "session_acts m n acts" using Cons.prems(1) by (simp add: session_acts_def)
  consider (turn) "a = Turn" | (arrive) j where "j \<in> {1..n}" "a = Arrive (m j)" using Cons.prems(1) by (auto simp: session_acts_def)
  then show ?case
  proof cases
    case turn
    with turn_session[OF assms(1) Cons.prems(2)] Cons.IH[OF rest] show ?thesis by fastforce
  next
    case arrive
    from Cons.IH[OF rest in_session_arrive[OF Cons.prems(2) arrive(1)]] show ?thesis using arrive(2) by auto
  qed
qed auto

lemma session_inj:
  assumes "session_ok env m sid n" "i \<in> {1..n}" "j \<in> {1..n}" "m i = m j"
  shows "i = j"
  using session_okD(1,5)[OF assms(1,2)] session_okD(1,5)[OF assms(1,3)] assms(4) of_nat32_eq[of i j] by auto

lemma session_start:
  "\<not> ms_working s \<Longrightarrow> ms_queue s = [] \<Longrightarrow> fresh_for sid s \<Longrightarrow> in_session m sid n (handled_msgs (ms_events s)) {} 0 s"
  by (simp add: in_session_def sess_def)

section \<open>Theorems\<close>

text \<open>
  C23: Whatever arrives, and however the turns of the handling thread, expiring timers and clearing of the schedule interleave with the
  arrivals, the schedule never faults; every message that arrived is at any time exactly once in the queue, in the map or among the
  deleted ones, so that none is lost and none is deleted twice; and what was handled or acknowledged was deleted afterwards.
\<close>

theorem messages_released_once:
  "\<exists>s. sched_run env acts new_schedule = Ok s \<and> om_ok (ms_map s) \<and>
     mset (ms_queue s) + mset (map snd (ms_map s)) + mset (ms_deleted s) = mset (arrivals acts) \<and>
     mset (map event_msg (ms_events s)) \<subseteq># mset (ms_deleted s)"
proof -
  have "ms_inv new_schedule" "msgs_kept new_schedule = {#}" by (simp_all add: ms_inv_def ms_ok_def msgs_kept_def new_schedule_def)
  then show ?thesis using sched_run_kept[of new_schedule env acts] by (auto simp: ms_inv_def ms_ok_def msgs_kept_def)
qed


definition sample_msg :: "nat \<Rightarrow> data_msg" where
  "sample_msg j = \<lparr>version = 0, messageType = 1, messageId = 3, sessionId = 7, sequenceId = of_nat j, errorNo = 0,
     remoteSoftwareVersion = 0, holder = Some \<lparr>rp_reserved = [of_nat j]\<rparr>, msg_target = [], senderUserId = [], msg_prio = LOW\<rparr>"

definition sample_schedule_env :: "u32 \<Rightarrow> schedule_env" where
  "sample_schedule_env v = \<lparr>sv_remoteVersion = v, sv_timer = (E_OK, 1), sv_handle = (\<lambda>_. (E_OK, False))\<rparr>"


section \<open>Interleavings that break the one working thread\<close>

text \<open>
  A remote device of a version below 3.0: a thread finds the queue empty and keeps the working flag; a message that arrives before it
  asks whether to reload makes it try again, find the flag set, and leave.  From then on no message is handled again, whatever
  arrives.
\<close>

lemma working_forever:
  "ms_working s \<Longrightarrow> \<exists>s'. sched_run env acts s = Ok s' \<and> ms_working s' \<and> ms_events s' = ms_events s"
proof (induction acts arbitrary: s)
  case (Cons a acts)
  have "\<exists>s1. sched_step env a s = Ok s1 \<and> ms_working s1 \<and> ms_events s1 = ms_events s"
    using Cons.prems by (cases a) (auto simp: PutMsg_def turn_def MoveNextMsg_def TimeOut_def ClearMsg_def ClearMsgQueue_def
        ClearMsgMapWithNoLock_def StopTimer_def delete_msgs_def)
  then show ?case using Cons.IH by force
qed simp

lemma lower_version_left_working:
  assumes "sv_remoteVersion env < SOFTWARE_VERSION_RELEASE_3_0" "\<not> ms_working s" "ms_queue s = []"
  obtains s1 where "MoveNextMsg env s = (None, True, s1)" "IsNeedReloadQueue (PutMsg (Some m) s1)"
    "MoveNextMsg env (PutMsg (Some m) s1) = (None, False, PutMsg (Some m) s1)"
    "\<And>acts. \<exists>s'. sched_run env acts (PutMsg (Some m) s1) = Ok s' \<and> ms_events s' = ms_events s1"
proof
  let ?s1 = "s\<lparr>ms_working := True, ms_needReload := False\<rparr>"
  show "MoveNextMsg env s = (None, True, ?s1)" using assms by (simp add: MoveNextMsg_def GetLastMsgFromQueue_def)
  show "IsNeedReloadQueue (PutMsg (Some m) ?s1)" "MoveNextMsg env (PutMsg (Some m) ?s1) = (None, False, PutMsg (Some m) ?s1)"
    by (simp_all add: IsNeedReloadQueue_def PutMsg_def MoveNextMsg_def)
  show "\<exists>s'. sched_run env acts (PutMsg (Some m) ?s1) = Ok s' \<and> ms_events s' = ms_events ?s1" for acts
    using working_forever[of "PutMsg (Some m) ?s1" env acts] by (auto simp: PutMsg_def)
qed

text \<open>
  The first thread found nothing and has already released the flag; a second one puts a message and takes it; the first one then
  releases the flag that the second one holds, and a third one takes a repeated message while the second still works.
\<close>

lemma two_threads_at_work:
  "let env = sample_schedule_env 103;
       (r1, c1, s1) = MoveNextMsg env new_schedule;
       (r2, c2, s2) = MoveNextMsg env (PutMsg (Some (sample_msg 1)) s1)
   in r1 = None \<and> c1 \<and> r2 = Some (sample_msg 1, True) \<and> \<not> IsNeedReloadQueue s2 \<and>
      (case ScheduleInfoHandle False False None s2 of
         Ok s3 \<Rightarrow> fst (MoveNextMsg env (PutMsg (Some (sample_msg 1)) s3)) = Some (sample_msg 1, True)
       | _ \<Rightarrow> False)"
  by code_simp

end
