(* ===== verification/Subscribe_Manager.thy ===== *)
theory Subscribe_Manager
  imports Ordered_Map
begin

text \<open>
  \<^verbatim>\<open>SubscribeManager\<close> (\<^verbatim>\<open>syncer/src/device/subscribe_manager.cpp\<close>): which device subscribes to which query, here and at remote
  devices.  Each side has a table of the queries of every device with their status, and a table of all queries with the number of devices
  that use them.  The private functions work on one such pair of tables.  The query object is a type parameter; its
  \<^verbatim>\<open>GetIdentify\<close> is the parameter \<open>identify\<close>.
\<close>

section \<open>State\<close>

datatype SubscribeStatus = NOT_ACTIVE | ACTIVE

record 'q sub_table =
  subscribeMap :: "(string, (string, SubscribeStatus) omap) omap"
  subscribedTotalMap :: "(string, 'q \<times> int) omap"

record 'q subscribe_manager =
  sm_local :: "'q sub_table"
  sm_remote :: "'q sub_table"
  unFinishedLocalAutoSubMap :: "(string, string list) omap"

definition new_sub_table :: "'q sub_table" where
  "new_sub_table = \<lparr>subscribeMap = [], subscribedTotalMap = []\<rparr>"

definition new_SubscribeManager :: "'q subscribe_manager" where
  "new_SubscribeManager = \<lparr>sm_local = new_sub_table, sm_remote = new_sub_table, unFinishedLocalAutoSubMap = []\<rparr>"

definition MAX_SUBSCRIBE_NUM_PER_DEV :: nat where "MAX_SUBSCRIBE_NUM_PER_DEV = 4"
definition MAX_SUBSCRIBE_NUM_PER_DB :: nat where "MAX_SUBSCRIBE_NUM_PER_DB = 8"
definition MAX_DEVICES_NUM :: nat where "MAX_DEVICES_NUM = 32"

lemmas subscribe_limits = MAX_SUBSCRIBE_NUM_PER_DEV_def MAX_SUBSCRIBE_NUM_PER_DB_def MAX_DEVICES_NUM_def

section \<open>Operations on a pair of tables\<close>

text \<open>The loop of \<^verbatim>\<open>ClearSubscribeQuery\<close> over the queries of the device.\<close>

fun clear_totals :: "(string, SubscribeStatus) omap \<Rightarrow> (string, 'q \<times> int) omap \<Rightarrow> (string, 'q \<times> int) omap" where
  "clear_totals [] tot = tot"
| "clear_totals ((queryId, _) # rest) tot =
     clear_totals rest
       (case om_find tot queryId of
          None \<Rightarrow> tot
        | Some (query, n) \<Rightarrow>
            let n' = (if n > 0 then n - 1 else n)
            in if n' = 0 then om_erase queryId tot else om_insert queryId (query, n') tot)"

definition ClearSubscribeQuery :: "string \<Rightarrow> 'q sub_table \<Rightarrow> 'q sub_table" where
  "ClearSubscribeQuery device t =
     (case om_find (subscribeMap t) device of
        None \<Rightarrow> t
      | Some queries \<Rightarrow> \<lparr>subscribeMap = om_erase device (subscribeMap t), subscribedTotalMap = clear_totals queries (subscribedTotalMap t)\<rparr>)"

definition ReserveSubscribeQuery :: "('q \<Rightarrow> string) \<Rightarrow> string \<Rightarrow> 'q \<Rightarrow> 'q sub_table \<Rightarrow> errcode \<times> 'q sub_table" where
  "ReserveSubscribeQuery identify device query t =
     (let queryId = identify query;
          iter = om_find (subscribeMap t) device;
          allIter = om_find (subscribedTotalMap t) queryId
      in if allIter = None \<and> length (subscribedTotalMap t) \<ge> MAX_SUBSCRIBE_NUM_PER_DB then (E_MAX_LIMITS, t)
         else if iter = None \<and> length (subscribeMap t) \<ge> MAX_DEVICES_NUM then (E_MAX_LIMITS, t)
         else if (case iter of None \<Rightarrow> False | Some m \<Rightarrow> om_find m queryId = None \<and> length m \<ge> MAX_SUBSCRIBE_NUM_PER_DEV)
         then (E_MAX_LIMITS, t)
         else if (case iter of None \<Rightarrow> False | Some m \<Rightarrow> om_find m queryId = Some ACTIVE) then (E_OK, t)
         else let m = (case iter of None \<Rightarrow> [] | Some m \<Rightarrow> m);
                  isNeedInc = (om_find m queryId = None);
                  m' = (if isNeedInc then om_insert queryId NOT_ACTIVE m else m);
                  tot' = (case allIter of
                            None \<Rightarrow> om_insert queryId (query, 1) (subscribedTotalMap t)
                          | Some (q, n) \<Rightarrow> if isNeedInc then om_insert queryId (q, n + 1) (subscribedTotalMap t) else subscribedTotalMap t)
              in (E_OK, \<lparr>subscribeMap = om_insert device m' (subscribeMap t), subscribedTotalMap = tot'\<rparr>))"

definition ActiveSubscribeQuery :: "string \<Rightarrow> string \<Rightarrow> 'q sub_table \<Rightarrow> errcode \<times> 'q sub_table" where
  "ActiveSubscribeQuery device queryId t =
     (if om_find (subscribedTotalMap t) queryId = None then (E_INTERNAL_ERROR, t)
      else case om_find (subscribeMap t) device of
             None \<Rightarrow> (E_INTERNAL_ERROR, t)
           | Some m \<Rightarrow>
               if om_find m queryId = None then (E_INTERNAL_ERROR, t)
               else (E_OK, t\<lparr>subscribeMap := om_insert device (om_insert queryId ACTIVE m) (subscribeMap t)\<rparr>))"

text \<open>The common end of the two functions below: the query leaves the device and its number of users goes down.\<close>

definition drop_query :: "string \<Rightarrow> string \<Rightarrow> (string, SubscribeStatus) omap \<Rightarrow> 'q sub_table \<Rightarrow> 'q sub_table" where
  "drop_query device queryId m t =
     (let t1 = t\<lparr>subscribeMap := om_insert device (om_erase queryId m) (subscribeMap t)\<rparr>
      in case om_find (subscribedTotalMap t) queryId of
           None \<Rightarrow> t1
         | Some (q, n) \<Rightarrow>
             t1\<lparr>subscribedTotalMap := (if n - 1 \<le> 0 then om_erase queryId (subscribedTotalMap t)
                                       else om_insert queryId (q, n - 1) (subscribedTotalMap t))\<rparr>)"

definition DeleteSubscribeQuery :: "string \<Rightarrow> string \<Rightarrow> 'q sub_table \<Rightarrow> 'q sub_table" where
  "DeleteSubscribeQuery device queryId t =
     (case om_find (subscribeMap t) device of
        None \<Rightarrow> t
      | Some m \<Rightarrow> (case om_find m queryId of
                     None \<Rightarrow> t
                   | Some queryStatus \<Rightarrow> if queryStatus = ACTIVE then t else drop_query device queryId m t))"

definition RemoveSubscribeQuery :: "string \<Rightarrow> string \<Rightarrow> 'q sub_table \<Rightarrow> 'q sub_table" where
  "RemoveSubscribeQuery device queryId t =
     (case om_find (subscribeMap t) device of
        None \<Rightarrow> t
      | Some m \<Rightarrow> if om_find m queryId = None then t else drop_query device queryId m t)"

definition GetSubscribeQueries :: "string \<Rightarrow> 'q sub_table \<Rightarrow> 'q list" where
  "GetSubscribeQueries device t =
     (case om_find (subscribeMap t) device of
        None \<Rightarrow> []
      | Some m \<Rightarrow> concat (map (\<lambda>(queryId, _). case om_find (subscribedTotalMap t) queryId of None \<Rightarrow> [] | Some (q, _) \<Rightarrow> [q]) m))"

section \<open>Operations of the manager\<close>

definition ClearRemoteSubscribeQuery :: "string \<Rightarrow> 'q subscribe_manager \<Rightarrow> 'q subscribe_manager" where
  "ClearRemoteSubscribeQuery device s = s\<lparr>sm_remote := ClearSubscribeQuery device (sm_remote s)\<rparr>"

definition ClearAllRemoteQuery :: "'q subscribe_manager \<Rightarrow> 'q subscribe_manager" where
  "ClearAllRemoteQuery s = s\<lparr>sm_remote := \<lparr>subscribeMap = [], subscribedTotalMap = []\<rparr>\<rparr>"

definition ClearLocalSubscribeQuery :: "string \<Rightarrow> 'q subscribe_manager \<Rightarrow> 'q subscribe_manager" where
  "ClearLocalSubscribeQuery device s =
     s\<lparr>unFinishedLocalAutoSubMap := om_erase device (unFinishedLocalAutoSubMap s), sm_local := ClearSubscribeQuery device (sm_local s)\<rparr>"

definition ReserveRemoteSubscribeQuery :: "('q \<Rightarrow> string) \<Rightarrow> string \<Rightarrow> 'q \<Rightarrow> 'q subscribe_manager \<Rightarrow> errcode \<times> 'q subscribe_manager" where
  "ReserveRemoteSubscribeQuery identify device query s =
     (case ReserveSubscribeQuery identify device query (sm_remote s) of (errCode, t) \<Rightarrow> (errCode, s\<lparr>sm_remote := t\<rparr>))"

definition ActiveRemoteSubscribeQuery :: "('q \<Rightarrow> string) \<Rightarrow> string \<Rightarrow> 'q \<Rightarrow> 'q subscribe_manager \<Rightarrow> errcode \<times> 'q subscribe_manager" where
  "ActiveRemoteSubscribeQuery identify device query s =
     (case ActiveSubscribeQuery device (identify query) (sm_remote s) of (errCode, t) \<Rightarrow> (errCode, s\<lparr>sm_remote := t\<rparr>))"

definition ReserveLocalSubscribeQuery :: "('q \<Rightarrow> string) \<Rightarrow> string \<Rightarrow> 'q \<Rightarrow> 'q subscribe_manager \<Rightarrow> errcode \<times> 'q subscribe_manager" where
  "ReserveLocalSubscribeQuery identify device query s =
     (case ReserveSubscribeQuery identify device query (sm_local s) of (errCode, t) \<Rightarrow> (errCode, s\<lparr>sm_local := t\<rparr>))"

definition ActiveLocalSubscribeQuery :: "('q \<Rightarrow> string) \<Rightarrow> string \<Rightarrow> 'q \<Rightarrow> 'q subscribe_manager \<Rightarrow> errcode \<times> 'q subscribe_manager" where
  "ActiveLocalSubscribeQuery identify device query s =
     (let queryId = identify query
      in case ActiveSubscribeQuery device queryId (sm_local s) of
           (errCode, t) \<Rightarrow>
             let s1 = s\<lparr>sm_local := t\<rparr>
             in if errCode \<noteq> E_OK then (errCode, s1)
                else case om_find (unFinishedLocalAutoSubMap s) device of
                       None \<Rightarrow> (errCode, s1)
                     | Some ids \<Rightarrow>
                         if queryId \<in> set ids
                         then (errCode, s1\<lparr>unFinishedLocalAutoSubMap := om_insert device (removeAll queryId ids) (unFinishedLocalAutoSubMap s)\<rparr>)
                         else (errCode, s1))"

definition DeleteLocalSubscribeQuery :: "('q \<Rightarrow> string) \<Rightarrow> string \<Rightarrow> 'q \<Rightarrow> 'q subscribe_manager \<Rightarrow> 'q subscribe_manager" where
  "DeleteLocalSubscribeQuery identify device query s = s\<lparr>sm_local := DeleteSubscribeQuery device (identify query) (sm_local s)\<rparr>"

definition DeleteRemoteSubscribeQuery :: "('q \<Rightarrow> string) \<Rightarrow> string \<Rightarrow> 'q \<Rightarrow> 'q subscribe_manager \<Rightarrow> 'q subscribe_manager" where
  "DeleteRemoteSubscribeQuery identify device query s = s\<lparr>sm_remote := DeleteSubscribeQuery device (identify query) (sm_remote s)\<rparr>"

definition PutLocalUnFinishedSubQueries :: "('q \<Rightarrow> string) \<Rightarrow> string \<Rightarrow> 'q list \<Rightarrow> 'q subscribe_manager \<Rightarrow> 'q subscribe_manager" where
  "PutLocalUnFinishedSubQueries identify device subscribeQueries s =
     (if subscribeQueries = [] then s\<lparr>unFinishedLocalAutoSubMap := om_erase device (unFinishedLocalAutoSubMap s)\<rparr>
      else s\<lparr>unFinishedLocalAutoSubMap := om_insert device (fold (\<lambda>query. insort_insert (identify query)) subscribeQueries [])
               (unFinishedLocalAutoSubMap s)\<rparr>)"

text \<open>The devices with unfinished queries replace what the caller passes for them.\<close>

fun unfinished_loop :: "(string, 'q \<times> int) omap \<Rightarrow> (string, string list) omap \<Rightarrow> (string, 'q list) omap \<Rightarrow> (string, 'q list) omap" where
  "unfinished_loop tot [] out = out"
| "unfinished_loop tot ((device, ids) # rest) out =
     unfinished_loop tot rest
       (if ids = [] then out
        else om_insert device (concat (map (\<lambda>queryId. case om_find tot queryId of None \<Rightarrow> [] | Some (q, _) \<Rightarrow> [q]) ids)) out)"

definition GetAllUnFinishSubQueries :: "'q subscribe_manager \<Rightarrow> (string, 'q list) omap \<Rightarrow> (string, 'q list) omap" where
  "GetAllUnFinishSubQueries s allSyncQueries =
     unfinished_loop (subscribedTotalMap (sm_local s)) (unFinishedLocalAutoSubMap s) allSyncQueries"

definition RemoveRemoteSubscribeQuery :: "('q \<Rightarrow> string) \<Rightarrow> string \<Rightarrow> 'q \<Rightarrow> 'q subscribe_manager \<Rightarrow> 'q subscribe_manager" where
  "RemoveRemoteSubscribeQuery identify device query s = s\<lparr>sm_remote := RemoveSubscribeQuery device (identify query) (sm_remote s)\<rparr>"

definition RemoveLocalSubscribeQuery :: "('q \<Rightarrow> string) \<Rightarrow> string \<Rightarrow> 'q \<Rightarrow> 'q subscribe_manager \<Rightarrow> 'q subscribe_manager" where
  "RemoveLocalSubscribeQuery identify device query s =
     (let queryId = identify query; s1 = s\<lparr>sm_local := RemoveSubscribeQuery device queryId (sm_local s)\<rparr>
      in case om_find (unFinishedLocalAutoSubMap s) device of
           None \<Rightarrow> s1
         | Some ids \<Rightarrow>
             if queryId \<in> set ids
             then let ids' = removeAll queryId ids
                  in if ids' = [] then s1\<lparr>unFinishedLocalAutoSubMap := om_erase device (unFinishedLocalAutoSubMap s)\<rparr>
                     else s1\<lparr>unFinishedLocalAutoSubMap := om_insert device ids' (unFinishedLocalAutoSubMap s)\<rparr>
             else s1)"

definition GetLocalSubscribeQueries :: "string \<Rightarrow> 'q subscribe_manager \<Rightarrow> 'q list" where
  "GetLocalSubscribeQueries device s = GetSubscribeQueries device (sm_local s)"

definition GetRemoteSubscribeQueries :: "string \<Rightarrow> 'q subscribe_manager \<Rightarrow> 'q list" where
  "GetRemoteSubscribeQueries device s = GetSubscribeQueries device (sm_remote s)"

definition IsLastRemoteContainSubscribe :: "string \<Rightarrow> string \<Rightarrow> 'q subscribe_manager \<Rightarrow> bool" where
  "IsLastRemoteContainSubscribe device queryId s =
     (om_find (subscribeMap (sm_remote s)) device \<noteq> None \<and>
      (case om_find (subscribedTotalMap (sm_remote s)) queryId of None \<Rightarrow> False | Some (_, n) \<Rightarrow> n = 1))"

definition GetRemoteSubscribeQueryIds :: "string \<Rightarrow> 'q subscribe_manager \<Rightarrow> string list" where
  "GetRemoteSubscribeQueryIds device s =
     (case om_find (subscribeMap (sm_remote s)) device of
        None \<Rightarrow> []
      | Some m \<Rightarrow> filter (om_count (subscribedTotalMap (sm_remote s))) (map fst m))"

text \<open>The loop of \<^verbatim>\<open>LocalSubscribeLimitCheck\<close>: whether the devices stay within the limit.\<close>

fun devices_within :: "('q sub_table) \<Rightarrow> nat \<Rightarrow> string list \<Rightarrow> bool" where
  "devices_within t devNum [] = True"
| "devices_within t devNum (device # devices) =
     (if om_find (subscribeMap t) device \<noteq> None then devices_within t devNum devices
      else devNum + 1 \<le> MAX_DEVICES_NUM \<and> devices_within t (devNum + 1) devices)"

definition LocalSubscribeLimitCheck :: "('q \<Rightarrow> string) \<Rightarrow> string list \<Rightarrow> 'q \<Rightarrow> 'q subscribe_manager \<Rightarrow> errcode" where
  "LocalSubscribeLimitCheck identify devices query s =
     (if \<not> devices_within (sm_local s) (length (subscribeMap (sm_local s))) devices then E_MAX_LIMITS
      else if om_find (subscribedTotalMap (sm_local s)) (identify query) = None \<and>
              length (subscribedTotalMap (sm_local s)) \<ge> MAX_SUBSCRIBE_NUM_PER_DB then E_MAX_LIMITS
      else E_OK)"

definition IsQueryExistSubscribe :: "string \<Rightarrow> 'q subscribe_manager \<Rightarrow> bool" where
  "IsQueryExistSubscribe queryId s = (om_find (subscribedTotalMap (sm_remote s)) queryId \<noteq> None)"

section \<open>What the tables stand for\<close>

text \<open>The devices that are known, and for each the status of its queries.\<close>

type_synonym subs = "string \<rightharpoonup> (string \<rightharpoonup> SubscribeStatus)"

definition subs :: "'q sub_table \<Rightarrow> subs" where
  "subs t device = map_option om_find (om_find (subscribeMap t) device)"

definition users :: "subs \<Rightarrow> string \<Rightarrow> string set" where
  "users A queryId = {device. \<exists>m. A device = Some m \<and> m queryId \<noteq> None}"

definition used :: "subs \<Rightarrow> string set" where
  "used A = {queryId. users A queryId \<noteq> {}}"

datatype 'q table_op = Reserve string 'q | Activate string 'q | Delete string 'q | Remove string 'q | ClearDevice string

fun table_step :: "('q \<Rightarrow> string) \<Rightarrow> 'q table_op \<Rightarrow> 'q sub_table \<Rightarrow> errcode \<times> 'q sub_table" where
  "table_step identify (Reserve device query) t = ReserveSubscribeQuery identify device query t"
| "table_step identify (Activate device query) t = ActiveSubscribeQuery device (identify query) t"
| "table_step identify (Delete device query) t = (E_OK, DeleteSubscribeQuery device (identify query) t)"
| "table_step identify (Remove device query) t = (E_OK, RemoveSubscribeQuery device (identify query) t)"
| "table_step identify (ClearDevice device) t = (E_OK, ClearSubscribeQuery device t)"

text \<open>The specification knows no counters: the limits are on the numbers of queries in use, of devices, and of queries of a device.\<close>

definition spec_reserve :: "string \<Rightarrow> string \<Rightarrow> subs \<Rightarrow> errcode \<times> subs" where
  "spec_reserve device queryId A =
     (if queryId \<notin> used A \<and> MAX_SUBSCRIBE_NUM_PER_DB \<le> card (used A) then (E_MAX_LIMITS, A)
      else case A device of
             None \<Rightarrow> if MAX_DEVICES_NUM \<le> card (dom A) then (E_MAX_LIMITS, A) else (E_OK, A(device \<mapsto> [queryId \<mapsto> NOT_ACTIVE]))
           | Some m \<Rightarrow>
               if m queryId \<noteq> None then (E_OK, A)
               else if MAX_SUBSCRIBE_NUM_PER_DEV \<le> card (dom m) then (E_MAX_LIMITS, A)
               else (E_OK, A(device \<mapsto> m(queryId \<mapsto> NOT_ACTIVE))))"

definition spec_drop :: "(SubscribeStatus \<Rightarrow> bool) \<Rightarrow> string \<Rightarrow> string \<Rightarrow> subs \<Rightarrow> subs" where
  "spec_drop may device queryId A =
     (case A device of
        None \<Rightarrow> A
      | Some m \<Rightarrow> (case m queryId of None \<Rightarrow> A | Some st \<Rightarrow> if may st then A(device \<mapsto> m(queryId := None)) else A))"

fun spec_step :: "('q \<Rightarrow> string) \<Rightarrow> 'q table_op \<Rightarrow> subs \<Rightarrow> errcode \<times> subs" where
  "spec_step identify (Reserve device query) A = spec_reserve device (identify query) A"
| "spec_step identify (Activate device query) A =
     (case A device of
        None \<Rightarrow> (E_INTERNAL_ERROR, A)
      | Some m \<Rightarrow> if m (identify query) = None then (E_INTERNAL_ERROR, A) else (E_OK, A(device \<mapsto> m(identify query \<mapsto> ACTIVE))))"
| "spec_step identify (Delete device query) A = (E_OK, spec_drop (\<lambda>st. st = NOT_ACTIVE) device (identify query) A)"
| "spec_step identify (Remove device query) A = (E_OK, spec_drop (\<lambda>_. True) device (identify query) A)"
| "spec_step identify (ClearDevice device) A = (E_OK, A(device := None))"

section \<open>The invariant\<close>

definition num_users :: "string \<Rightarrow> (string, (string, SubscribeStatus) omap) omap \<Rightarrow> nat" where
  "num_users queryId mp = sum_list (map (\<lambda>e. of_bool (om_count (snd e) queryId)) mp)"

definition count_right :: "('q \<Rightarrow> string) \<Rightarrow> string \<Rightarrow> nat \<Rightarrow> ('q \<times> int) option \<Rightarrow> bool" where
  "count_right identify queryId u entry =
     (case entry of None \<Rightarrow> u = 0 | Some (q, n) \<Rightarrow> identify q = queryId \<and> 0 < u \<and> n = int u)"

definition users_counted :: "('q \<Rightarrow> string) \<Rightarrow> (string, (string, SubscribeStatus) omap) omap \<Rightarrow> (string, 'q \<times> int) omap \<Rightarrow> bool" where
  "users_counted identify mp tot \<longleftrightarrow> om_ok tot \<and> (\<forall>queryId. count_right identify queryId (num_users queryId mp) (om_find tot queryId))"

definition devices_ok :: "(string, (string, SubscribeStatus) omap) omap \<Rightarrow> bool" where
  "devices_ok mp \<longleftrightarrow> om_ok mp \<and> length mp \<le> MAX_DEVICES_NUM \<and> (\<forall>e \<in> set mp. om_ok (snd e) \<and> length (snd e) \<le> MAX_SUBSCRIBE_NUM_PER_DEV)"

definition table_ok :: "('q \<Rightarrow> string) \<Rightarrow> 'q sub_table \<Rightarrow> bool" where
  "table_ok identify t \<longleftrightarrow> devices_ok (subscribeMap t) \<and> users_counted identify (subscribeMap t) (subscribedTotalMap t) \<and>
     length (subscribedTotalMap t) \<le> MAX_SUBSCRIBE_NUM_PER_DB"

lemma dom_om_find: "dom (om_find m) = fst ` set m"
  by (simp add: om_find_def[abs_def] dom_map_of_conv_image_fst)

lemma card_dom_om_find: "om_ok m \<Longrightarrow> card (dom (om_find m)) = length m"
  using om_ok_distinct[of m] distinct_card[of "map fst m"] by (simp add: dom_om_find)

lemma card_dom_subs: "om_ok (subscribeMap t) \<Longrightarrow> card (dom (subs t)) = length (subscribeMap t)"
  using card_dom_om_find[of "subscribeMap t"] by (simp add: subs_def dom_def)

lemma num_users_set: "num_users queryId mp = length (filter (\<lambda>e. om_count (snd e) queryId) mp)"
  by (induction mp) (auto simp: num_users_def)

lemma users_subs:
  assumes "om_ok (subscribeMap t)"
  shows "card (users (subs t) queryId) = num_users queryId (subscribeMap t)" "users (subs t) queryId \<noteq> {} \<longleftrightarrow> 0 < num_users queryId (subscribeMap t)"
proof -
  let ?f = "filter (\<lambda>e. om_count (snd e) queryId) (subscribeMap t)"
  have "users (subs t) queryId = fst ` set ?f"
    using assms by (force simp: users_def subs_def om_find_iff_mem om_count_def)
  moreover have "distinct (map fst ?f)" using om_ok_distinct[OF om_ok_filter[OF assms]] by simp
  ultimately show c: "card (users (subs t) queryId) = num_users queryId (subscribeMap t)"
    using distinct_card[of "map fst ?f"] by (simp add: num_users_set)
  have "finite (users (subs t) queryId)" using \<open>users (subs t) queryId = fst ` set ?f\<close> by simp
  then show "users (subs t) queryId \<noteq> {} \<longleftrightarrow> 0 < num_users queryId (subscribeMap t)" using c by auto
qed

lemma used_subs:
  assumes "table_ok identify t"
  shows "used (subs t) = dom (om_find (subscribedTotalMap t))" "card (used (subs t)) = length (subscribedTotalMap t)"
proof -
  have ok: "om_ok (subscribeMap t)" "users_counted identify (subscribeMap t) (subscribedTotalMap t)"
    using assms by (simp_all add: table_ok_def devices_ok_def)
  have "0 < num_users queryId (subscribeMap t) \<longleftrightarrow> om_find (subscribedTotalMap t) queryId \<noteq> None" for queryId
    using ok(2) by (auto simp: users_counted_def count_right_def split: option.splits dest: spec[of _ queryId])
  then show u: "used (subs t) = dom (om_find (subscribedTotalMap t))"
    using users_subs(2)[OF ok(1)] by (auto simp: used_def dom_def)
  show "card (used (subs t)) = length (subscribedTotalMap t)" unfolding u using ok(2) by (simp add: users_counted_def card_dom_om_find)
qed

text \<open>How the number of users changes with the entry of a device.\<close>

lemma num_users_new: "om_find mp d = None \<Longrightarrow> num_users q (om_insert d m mp) = of_bool (om_count m q) + num_users q mp"
  unfolding num_users_def by (subst sum_om_insert_new) auto

lemma num_users_old:
  "om_ok mp \<Longrightarrow> om_find mp d = Some m \<Longrightarrow> num_users q (om_insert d m' mp) + of_bool (om_count m q) = of_bool (om_count m' q) + num_users q mp"
  unfolding num_users_def using sum_om_update[of mp d m "\<lambda>e. of_bool (om_count (snd e) q)" m'] by simp

lemma num_users_erase:
  "om_ok mp \<Longrightarrow> om_find mp d = Some m \<Longrightarrow> num_users q mp = of_bool (om_count m q) + num_users q (om_erase d mp)"
  unfolding num_users_def using sum_om_erase[of mp d m "\<lambda>e. of_bool (om_count (snd e) q)"] by simp

lemma devices_ok_update:
  assumes "devices_ok mp" "om_ok m" "length m \<le> MAX_SUBSCRIBE_NUM_PER_DEV" "om_find mp d \<noteq> None \<or> length mp < MAX_DEVICES_NUM"
  shows "devices_ok (om_insert d m mp)"
proof -
  have "length (om_insert d m mp) \<le> MAX_DEVICES_NUM"
    using assms(1,4) by (cases "om_find mp d") (auto simp: devices_ok_def length_om_insert_new length_om_insert_old)
  then show ?thesis using assms(1-3) set_om_insert_sub[of d m mp] by (auto simp: devices_ok_def)
qed

lemma devices_okD:
  assumes "devices_ok mp" "om_find mp d = Some m" shows "om_ok m" "length m \<le> MAX_SUBSCRIBE_NUM_PER_DEV" "om_ok mp"
  using assms om_find_Some_mem[OF assms(2)] by (auto simp: devices_ok_def)

lemma subs_insert: "subs (t\<lparr>subscribeMap := om_insert d m mp\<rparr>) = (subs (t\<lparr>subscribeMap := mp\<rparr>))(d \<mapsto> om_find m)"
  by (rule ext) (simp add: subs_def om_find_insert)

lemma om_find_erase_fun: "om_find (om_erase k m) = (om_find m)(k := None)"
  by (rule ext) (simp add: om_find_erase)

lemma om_find_insert_fun: "om_find (om_insert k v m) = (om_find m)(k \<mapsto> v)"
  by (rule ext) (simp add: om_find_insert)

lemma om_count_find: "om_count m k \<longleftrightarrow> om_find m k \<noteq> None"
  by (simp add: om_count_def)

text \<open>One query changes its number of users, and the table of totals follows.\<close>

lemma counted_update:
  assumes "users_counted identify mp tot" "om_ok tot'" "\<And>q. q \<noteq> queryId \<Longrightarrow> num_users q mp' = num_users q mp"
    "\<And>q. q \<noteq> queryId \<Longrightarrow> om_find tot' q = om_find tot q"
    "count_right identify queryId (num_users queryId mp') (om_find tot' queryId)"
  shows "users_counted identify mp' tot'"
  using assms unfolding users_counted_def by metis

lemma counted_same:
  assumes "users_counted identify mp tot" "\<And>q. num_users q mp' = num_users q mp" shows "users_counted identify mp' tot"
  using assms unfolding users_counted_def by metis

lemma countedD:
  assumes "users_counted identify mp tot" "om_find tot queryId = Some (q, n)"
  shows "identify q = queryId" "0 < num_users queryId mp" "n = int (num_users queryId mp)"
  using assms by (auto simp: users_counted_def count_right_def dest: spec[of _ queryId])

lemma user_counted:
  assumes "users_counted identify mp tot" "om_ok mp" "om_find mp d = Some m" "om_find m queryId \<noteq> None"
  obtains q where "om_find tot queryId = Some (q, int (num_users queryId mp))" "identify q = queryId" "0 < num_users queryId mp"
proof -
  have "0 < num_users queryId mp" using num_users_erase[OF assms(2,3), of queryId] assms(4) by (simp add: om_count_find)
  then show thesis using assms(1) that by (auto simp: users_counted_def count_right_def split: option.splits dest: spec[of _ queryId])
qed

lemma drop_query_ok:
  assumes ok: "table_ok identify t" and d: "om_find (subscribeMap t) device = Some m" and q: "om_find m queryId \<noteq> None"
  shows "table_ok identify (drop_query device queryId m t)"
    "subs (drop_query device queryId m t) = (subs t)(device \<mapsto> (om_find m)(queryId := None))"
proof -
  let ?mp = "subscribeMap t" and ?tot = "subscribedTotalMap t"
  let ?mp' = "om_insert device (om_erase queryId m) ?mp"
  have o: "devices_ok ?mp" "users_counted identify ?mp ?tot" "length ?tot \<le> MAX_SUBSCRIBE_NUM_PER_DB" using ok by (simp_all add: table_ok_def)
  note dm = devices_okD[OF o(1) d]
  obtain x where x: "om_find ?tot queryId = Some (x, int (num_users queryId ?mp))" "identify x = queryId" "0 < num_users queryId ?mp"
    using user_counted[OF o(2) dm(3) d q] .
  obtain tot' where t': "drop_query device queryId m t = \<lparr>subscribeMap = ?mp', subscribedTotalMap = tot'\<rparr>"
    and tot': "tot' = (if int (num_users queryId ?mp) - 1 \<le> 0 then om_erase queryId ?tot else om_insert queryId (x, int (num_users queryId ?mp) - 1) ?tot)"
    using x(1) by (simp add: drop_query_def)
  have len: "length (om_erase queryId m) \<le> length m" by (simp add: om_erase_def)
  have dev: "devices_ok ?mp'" using dm len d by (intro devices_ok_update[OF o(1)]) auto
  have n1: "num_users k ?mp' = num_users k ?mp" if "k \<noteq> queryId" for k using num_users_old[OF dm(3) d, of k "om_erase queryId m"] that by simp
  have n2: "Suc (num_users queryId ?mp') = num_users queryId ?mp"
    using num_users_old[OF dm(3) d, of queryId "om_erase queryId m"] q by (simp add: om_count_find om_find_erase)
  have "users_counted identify ?mp' tot'"
  proof (rule counted_update[OF o(2)])
    show "om_ok tot'" using o(2) by (simp add: tot' users_counted_def)
    show "om_find tot' k = om_find ?tot k" if "k \<noteq> queryId" for k using that by (simp add: tot' om_find_erase om_find_insert)
    show "count_right identify queryId (num_users queryId ?mp') (om_find tot' queryId)"
      using n2 x(2) by (auto simp: count_right_def tot' om_find_erase)
  qed (rule n1)
  moreover have "length tot' \<le> length ?tot"
    using x(1) o(2) by (simp add: tot' om_erase_def users_counted_def length_om_insert_old)
  ultimately show "table_ok identify (drop_query device queryId m t)" using dev o(3) by (simp add: t' table_ok_def)
  show "subs (drop_query device queryId m t) = (subs t)(device \<mapsto> (om_find m)(queryId := None))"
    by (rule ext) (simp add: t' subs_def om_find_insert om_find_erase_fun)
qed

lemma clear_totals_find:
  "om_ok tot \<Longrightarrow> distinct (map fst es) \<Longrightarrow> om_ok (clear_totals es tot) \<and> length (clear_totals es tot) \<le> length tot \<and>
     om_find (clear_totals es tot) k =
       (if k \<in> fst ` set es
        then (case om_find tot k of
                None \<Rightarrow> None
              | Some (q, n) \<Rightarrow> let n' = (if n > 0 then n - 1 else n) in if n' = 0 then None else Some (q, n'))
        else om_find tot k)"
proof (induction es arbitrary: tot)
  case (Cons e es)
  obtain a st where e: "e = (a, st)" by (cases e)
  let ?t = "case om_find tot a of None \<Rightarrow> tot
     | Some (q, n) \<Rightarrow> let n' = (if n > 0 then n - 1 else n) in if n' = 0 then om_erase a tot else om_insert a (q, n') tot"
  have t: "om_ok ?t" "length ?t \<le> length tot"
    using Cons.prems(1) by (auto simp: Let_def om_erase_def length_om_insert_old split: option.split)
  have f: "om_find ?t k = (if k = a then (case om_find tot a of None \<Rightarrow> None
       | Some (q, n) \<Rightarrow> let n' = (if n > 0 then n - 1 else n) in if n' = 0 then None else Some (q, n')) else om_find tot k)"
    by (auto simp: Let_def om_find_erase om_find_insert split: option.split)
  have "a \<notin> fst ` set es" using Cons.prems(2) by (simp add: e)
  then show ?case using Cons.IH[OF t(1)] Cons.prems(2) t(2) f by (auto simp: e)
qed simp

lemma ClearSubscribeQuery_ok:
  assumes ok: "table_ok identify t"
  shows "table_ok identify (ClearSubscribeQuery device t)" "subs (ClearSubscribeQuery device t) = (subs t)(device := None)"
proof -
  let ?mp = "subscribeMap t" and ?tot = "subscribedTotalMap t"
  have o: "devices_ok ?mp" "users_counted identify ?mp ?tot" "length ?tot \<le> MAX_SUBSCRIBE_NUM_PER_DB" using ok by (simp_all add: table_ok_def)
  have "table_ok identify (ClearSubscribeQuery device t) \<and> subs (ClearSubscribeQuery device t) = (subs t)(device := None)"
  proof (cases "om_find ?mp device")
    case None
    then show ?thesis using ok by (auto simp: ClearSubscribeQuery_def subs_def)
  next
    case (Some m)
    note dm = devices_okD[OF o(1) Some]
    let ?mp' = "om_erase device ?mp"
    have n: "num_users k ?mp = of_bool (k \<in> fst ` set m) + num_users k ?mp'" for k
      using num_users_erase[OF dm(3) Some, of k] by (simp add: om_count_find om_find_None_iff)
    note c = clear_totals_find[OF _ om_ok_distinct[OF dm(1)], of ?tot]
    have tok: "om_ok ?tot" using o(2) by (simp add: users_counted_def)
    have "users_counted identify ?mp' (clear_totals m ?tot)"
      unfolding users_counted_def
    proof (intro conjI allI)
      fix k
      have "count_right identify k (num_users k ?mp) (om_find ?tot k)" using o(2) by (simp add: users_counted_def)
      then show "count_right identify k (num_users k ?mp') (om_find (clear_totals m ?tot) k)"
        using n[of k] c[OF tok, of k] by (cases "om_find ?tot k") (auto simp: count_right_def Let_def split: if_splits)
    qed (use c tok in blast)
    moreover have "devices_ok ?mp'" using o(1) length_om_erase[OF dm(3) Some] by (auto simp: devices_ok_def om_erase_def)
    ultimately have "table_ok identify (ClearSubscribeQuery device t)"
      using Some c[OF tok] o(3) by (simp add: ClearSubscribeQuery_def table_ok_def) (meson le_trans)
    moreover have "subs (ClearSubscribeQuery device t) = (subs t)(device := None)"
      using Some by (intro ext) (simp add: ClearSubscribeQuery_def subs_def om_find_erase)
    ultimately show ?thesis by blast
  qed
  then show "table_ok identify (ClearSubscribeQuery device t)" "subs (ClearSubscribeQuery device t) = (subs t)(device := None)" by auto
qed

text \<open>A query that is new for its device.\<close>

lemma reserve_new:
  assumes ok: "table_ok identify t" and m: "om_ok m" "length m < MAX_SUBSCRIBE_NUM_PER_DEV" "om_find m queryId = None"
    and d: "om_find (subscribeMap t) device = Some m \<or> om_find (subscribeMap t) device = None \<and> m = [] \<and> length (subscribeMap t) < MAX_DEVICES_NUM"
    and q: "identify query = queryId" "om_find (subscribedTotalMap t) queryId \<noteq> None \<or> length (subscribedTotalMap t) < MAX_SUBSCRIBE_NUM_PER_DB"
    and tot': "tot' = (case om_find (subscribedTotalMap t) queryId of None \<Rightarrow> om_insert queryId (query, 1) (subscribedTotalMap t)
        | Some (x, n) \<Rightarrow> om_insert queryId (x, n + 1) (subscribedTotalMap t))"
  shows "table_ok identify \<lparr>subscribeMap = om_insert device (om_insert queryId NOT_ACTIVE m) (subscribeMap t), subscribedTotalMap = tot'\<rparr>"
proof -
  let ?mp = "subscribeMap t" and ?tot = "subscribedTotalMap t" and ?m = "om_insert queryId NOT_ACTIVE m"
  let ?mp' = "om_insert device ?m ?mp"
  have o: "devices_ok ?mp" "users_counted identify ?mp ?tot" "length ?tot \<le> MAX_SUBSCRIBE_NUM_PER_DB" using ok by (simp_all add: table_ok_def)
  have mp: "om_ok ?mp" "om_ok ?tot" using o(1,2) by (simp_all add: devices_ok_def users_counted_def)
  have n: "num_users k ?mp' = (if k = queryId then 1 else 0) + num_users k ?mp" for k
    using d num_users_old[OF mp(1), of device m k ?m] num_users_new[of ?mp device k ?m] m(3) by (auto simp: om_count_find om_find_insert om_find_Cons split: if_splits)
  have "devices_ok ?mp'" using d m by (intro devices_ok_update[OF o(1)]) (auto simp: length_om_insert_new)
  moreover have "users_counted identify ?mp' tot'"
  proof (rule counted_update[OF o(2)])
    show "om_ok tot'" using mp(2) by (auto simp: tot' split: option.split)
    show "om_find tot' k = om_find ?tot k" if "k \<noteq> queryId" for k using that by (auto simp: tot' om_find_insert split: option.split)
    have "count_right identify queryId (num_users queryId ?mp) (om_find ?tot queryId)" using o(2) by (simp add: users_counted_def)
    then show "count_right identify queryId (num_users queryId ?mp') (om_find tot' queryId)"
      using n[of queryId] q(1) by (auto simp: count_right_def tot' split: option.splits)
  qed (use n in simp)
  moreover have "length tot' \<le> MAX_SUBSCRIBE_NUM_PER_DB"
    using q(2) o(3) mp(2) by (cases "om_find ?tot queryId") (auto simp: tot' length_om_insert_new length_om_insert_old)
  ultimately show ?thesis by (simp add: table_ok_def)
qed

abbreviation total_after :: "'q \<Rightarrow> string \<Rightarrow> (string, 'q \<times> int) omap \<Rightarrow> (string, 'q \<times> int) omap" where
  "total_after query queryId tot \<equiv>
     (case om_find tot queryId of None \<Rightarrow> om_insert queryId (query, 1) tot | Some (x, n) \<Rightarrow> om_insert queryId (x, n + 1) tot)"

abbreviation room_for :: "string \<Rightarrow> 'q sub_table \<Rightarrow> bool" where
  "room_for queryId t \<equiv> om_find (subscribedTotalMap t) queryId \<noteq> None \<or> length (subscribedTotalMap t) < MAX_SUBSCRIBE_NUM_PER_DB"

lemma used_iff: "table_ok identify t \<Longrightarrow> q \<notin> used (subs t) \<longleftrightarrow> om_find (subscribedTotalMap t) q = None"
  using used_subs(1) domIff by metis

lemma reserve_new_device:
  assumes ok: "table_ok identify t" and r: "ReserveSubscribeQuery identify device query t = (e, t')"
    and room: "room_for (identify query) t" and new: "om_find (subscribeMap t) device = None"
  shows "table_ok identify t' \<and> (e, subs t') = spec_reserve device (identify query) (subs t)"
proof -
  let ?q = "identify query"
  have mp: "om_ok (subscribeMap t)" using ok by (simp add: table_ok_def devices_ok_def)
  have s: "spec_reserve device ?q (subs t) =
      (if MAX_DEVICES_NUM \<le> length (subscribeMap t) then (E_MAX_LIMITS, subs t) else (E_OK, (subs t)(device \<mapsto> [?q \<mapsto> NOT_ACTIVE])))"
    using room new used_iff[OF ok, of ?q] used_subs(2)[OF ok] card_dom_subs[OF mp] by (auto simp: spec_reserve_def subs_def)
  show ?thesis
  proof (cases "MAX_DEVICES_NUM \<le> length (subscribeMap t)")
    case True
    then show ?thesis using r ok s new room by (auto simp: ReserveSubscribeQuery_def)
  next
    case False
    have t': "e = E_OK" "t' = \<lparr>subscribeMap = om_insert device (om_insert ?q NOT_ACTIVE []) (subscribeMap t),
        subscribedTotalMap = total_after query ?q (subscribedTotalMap t)\<rparr>"
      using r new room False by (auto simp: ReserveSubscribeQuery_def Let_def not_le split: option.splits)
    have "table_ok identify t'" unfolding t'(2)
      using new room False by (intro reserve_new[OF ok _ _ _ _ refl _ refl]) (auto simp: MAX_SUBSCRIBE_NUM_PER_DEV_def)
    moreover have "subs t' = (subs t)(device \<mapsto> [?q \<mapsto> NOT_ACTIVE])"
      by (rule ext) (auto simp: t'(2) subs_def om_find_insert om_find_Cons)
    ultimately show ?thesis using t'(1) s False by simp
  qed
qed

lemma reserve_known_device:
  assumes ok: "table_ok identify t" and r: "ReserveSubscribeQuery identify device query t = (e, t')"
    and room: "room_for (identify query) t" and old: "om_find (subscribeMap t) device = Some m"
  shows "table_ok identify t' \<and> (e, subs t') = spec_reserve device (identify query) (subs t)"
proof -
  let ?q = "identify query"
  have o: "devices_ok (subscribeMap t)" "users_counted identify (subscribeMap t) (subscribedTotalMap t)" using ok by (simp_all add: table_ok_def)
  note dm = devices_okD[OF o(1) old]
  have s: "spec_reserve device ?q (subs t) =
      (if om_find m ?q \<noteq> None then (E_OK, subs t) else if MAX_SUBSCRIBE_NUM_PER_DEV \<le> length m then (E_MAX_LIMITS, subs t)
       else (E_OK, (subs t)(device \<mapsto> (om_find m)(?q \<mapsto> NOT_ACTIVE))))"
    using room old used_iff[OF ok, of ?q] used_subs(2)[OF ok] card_dom_om_find[OF dm(1)] by (auto simp: spec_reserve_def subs_def)
  show ?thesis
  proof (cases "om_find m ?q = None \<and> length m < MAX_SUBSCRIBE_NUM_PER_DEV")
    case True
    have t': "e = E_OK" "t' = \<lparr>subscribeMap = om_insert device (om_insert ?q NOT_ACTIVE m) (subscribeMap t),
        subscribedTotalMap = total_after query ?q (subscribedTotalMap t)\<rparr>"
      using r old room True by (auto simp: ReserveSubscribeQuery_def Let_def not_le split: option.splits)
    have "table_ok identify t'" unfolding t'(2) using old room True dm(1) by (intro reserve_new[OF ok _ _ _ _ refl _ refl]) auto
    moreover have "subs t' = (subs t)(device \<mapsto> (om_find m)(?q \<mapsto> NOT_ACTIVE))"
      by (rule ext) (auto simp: t'(2) subs_def om_find_insert om_find_insert_fun)
    ultimately show ?thesis using t'(1) s True by simp
  next
    case False
    have same: "om_insert device m (subscribeMap t) = subscribeMap t"
      using dm(3) old by (intro om_ext) (auto simp: om_find_insert)
    have tot: "om_find (subscribedTotalMap t) ?q \<noteq> None" if "om_find m ?q \<noteq> None"
      using user_counted[OF o(2) dm(3) old that] by (metis option.distinct(1))
    have "t' = t" "e = (if om_find m ?q \<noteq> None then E_OK else E_MAX_LIMITS)"
      using r old room False same tot by (auto simp: ReserveSubscribeQuery_def Let_def split: if_splits option.splits)
    then show ?thesis using s ok False by auto
  qed
qed

lemma ReserveSubscribeQuery_ok:
  assumes ok: "table_ok identify t" and r: "ReserveSubscribeQuery identify device query t = (e, t')"
  shows "table_ok identify t' \<and> (e, subs t') = spec_reserve device (identify query) (subs t)"
proof (cases "room_for (identify query) t")
  case True
  then show ?thesis using reserve_new_device[OF ok r] reserve_known_device[OF ok r] by (cases "om_find (subscribeMap t) device") blast+
next
  case False
  then have "om_find (subscribedTotalMap t) (identify query) = None" "MAX_SUBSCRIBE_NUM_PER_DB \<le> length (subscribedTotalMap t)" using not_le by blast+
  then show ?thesis using r ok used_iff[OF ok, of "identify query"] used_subs(2)[OF ok] by (simp add: ReserveSubscribeQuery_def spec_reserve_def)
qed

lemma ActiveSubscribeQuery_ok:
  assumes ok: "table_ok identify t" and r: "ActiveSubscribeQuery device (identify query) t = (e, t')"
  shows "table_ok identify t' \<and> (e, subs t') = spec_step identify (Activate device query) (subs t)"
proof (cases "om_find (subscribeMap t) device")
  case None
  then show ?thesis using r ok by (auto simp: ActiveSubscribeQuery_def subs_def split: if_splits)
next
  case (Some m)
  let ?q = "identify query"
  have o: "devices_ok (subscribeMap t)" "users_counted identify (subscribeMap t) (subscribedTotalMap t)" using ok by (simp_all add: table_ok_def)
  note dm = devices_okD[OF o(1) Some]
  show ?thesis
  proof (cases "om_find m ?q")
    case None
    then show ?thesis using r ok Some by (auto simp: ActiveSubscribeQuery_def subs_def split: if_splits)
  next
    case (Some st)
    let ?m = "om_insert ?q ACTIVE m"
    obtain x where tot: "om_find (subscribedTotalMap t) ?q = Some (x, int (num_users ?q (subscribeMap t)))"
      using user_counted[OF o(2) dm(3) \<open>om_find (subscribeMap t) device = Some m\<close>, of ?q] Some by blast
    have t': "e = E_OK" "t' = t\<lparr>subscribeMap := om_insert device ?m (subscribeMap t)\<rparr>"
      using r tot Some \<open>om_find (subscribeMap t) device = Some m\<close> by (auto simp: ActiveSubscribeQuery_def)
    have n: "num_users k (om_insert device ?m (subscribeMap t)) = num_users k (subscribeMap t)" for k
      using num_users_old[OF dm(3) \<open>om_find (subscribeMap t) device = Some m\<close>, of k ?m] Some by (auto simp: om_count_find om_find_insert split: if_splits)
    have "devices_ok (om_insert device ?m (subscribeMap t))"
      using dm Some \<open>om_find (subscribeMap t) device = Some m\<close> by (intro devices_ok_update[OF o(1)]) (auto simp: length_om_insert_old)
    then have "table_ok identify t'" using ok counted_same[OF o(2) n] by (simp add: t'(2) table_ok_def)
    moreover have "subs t' = (subs t)(device \<mapsto> (om_find m)(?q \<mapsto> ACTIVE))"
      by (rule ext) (auto simp: t'(2) subs_def om_find_insert om_find_insert_fun)
    ultimately show ?thesis using t'(1) Some \<open>om_find (subscribeMap t) device = Some m\<close> by (simp add: subs_def)
  qed
qed

text \<open>Every operation on a pair of tables keeps the invariant and does what the specification says.\<close>

lemma table_step_ok:
  assumes ok: "table_ok identify t" and r: "table_step identify op t = (e, t')"
  shows "table_ok identify t' \<and> (e, subs t') = spec_step identify op (subs t)"
proof (cases op)
  case (Delete d q)
  then show ?thesis using r ok drop_query_ok[OF ok]
    by (auto simp: DeleteSubscribeQuery_def spec_drop_def subs_def split: option.splits) (metis SubscribeStatus.exhaust)+
next
  case (Remove d q)
  then show ?thesis using r ok drop_query_ok[OF ok]
    by (auto simp: RemoveSubscribeQuery_def spec_drop_def subs_def split: option.splits)
qed (use r ReserveSubscribeQuery_ok[OF ok] ActiveSubscribeQuery_ok[OF ok] ClearSubscribeQuery_ok[OF ok] in auto)

section \<open>The manager\<close>

datatype 'q sub_op = OnLocal "'q table_op" | OnRemote "'q table_op" | ClearAllRemote | PutUnFinished string "'q list"

fun sub_step :: "('q \<Rightarrow> string) \<Rightarrow> 'q sub_op \<Rightarrow> 'q subscribe_manager \<Rightarrow> errcode \<times> 'q subscribe_manager" where
  "sub_step identify (OnLocal (Reserve device query)) s = ReserveLocalSubscribeQuery identify device query s"
| "sub_step identify (OnLocal (Activate device query)) s = ActiveLocalSubscribeQuery identify device query s"
| "sub_step identify (OnLocal (Delete device query)) s = (E_OK, DeleteLocalSubscribeQuery identify device query s)"
| "sub_step identify (OnLocal (Remove device query)) s = (E_OK, RemoveLocalSubscribeQuery identify device query s)"
| "sub_step identify (OnLocal (ClearDevice device)) s = (E_OK, ClearLocalSubscribeQuery device s)"
| "sub_step identify (OnRemote (Reserve device query)) s = ReserveRemoteSubscribeQuery identify device query s"
| "sub_step identify (OnRemote (Activate device query)) s = ActiveRemoteSubscribeQuery identify device query s"
| "sub_step identify (OnRemote (Delete device query)) s = (E_OK, DeleteRemoteSubscribeQuery identify device query s)"
| "sub_step identify (OnRemote (Remove device query)) s = (E_OK, RemoveRemoteSubscribeQuery identify device query s)"
| "sub_step identify (OnRemote (ClearDevice device)) s = (E_OK, ClearRemoteSubscribeQuery device s)"
| "sub_step identify ClearAllRemote s = (E_OK, ClearAllRemoteQuery s)"
| "sub_step identify (PutUnFinished device queries) s = (E_OK, PutLocalUnFinishedSubQueries identify device queries s)"

fun sub_run :: "('q \<Rightarrow> string) \<Rightarrow> 'q sub_op list \<Rightarrow> 'q subscribe_manager \<Rightarrow> errcode list \<times> 'q subscribe_manager" where
  "sub_run identify [] s = ([], s)"
| "sub_run identify (op # ops) s =
     (case sub_step identify op s of (e, s1) \<Rightarrow> (case sub_run identify ops s1 of (es, s2) \<Rightarrow> (e # es, s2)))"

text \<open>The specification: two independent maps.\<close>

fun spec_sub_step :: "('q \<Rightarrow> string) \<Rightarrow> 'q sub_op \<Rightarrow> subs \<times> subs \<Rightarrow> errcode \<times> subs \<times> subs" where
  "spec_sub_step identify (OnLocal op) (L, R) = (case spec_step identify op L of (e, L') \<Rightarrow> (e, L', R))"
| "spec_sub_step identify (OnRemote op) (L, R) = (case spec_step identify op R of (e, R') \<Rightarrow> (e, L, R'))"
| "spec_sub_step identify ClearAllRemote (L, R) = (E_OK, L, Map.empty)"
| "spec_sub_step identify (PutUnFinished device queries) (L, R) = (E_OK, L, R)"

fun spec_run :: "('q \<Rightarrow> string) \<Rightarrow> 'q sub_op list \<Rightarrow> subs \<times> subs \<Rightarrow> errcode list \<times> subs \<times> subs" where
  "spec_run identify [] A = ([], A)"
| "spec_run identify (op # ops) A =
     (case spec_sub_step identify op A of (e, A1) \<Rightarrow> (case spec_run identify ops A1 of (es, A2) \<Rightarrow> (e # es, A2)))"

definition manager_ok :: "('q \<Rightarrow> string) \<Rightarrow> 'q subscribe_manager \<Rightarrow> bool" where
  "manager_ok identify s \<longleftrightarrow> table_ok identify (sm_local s) \<and> table_ok identify (sm_remote s) \<and> om_ok (unFinishedLocalAutoSubMap s)"

definition manager_subs :: "'q subscribe_manager \<Rightarrow> subs \<times> subs" where
  "manager_subs s = (subs (sm_local s), subs (sm_remote s))"

text \<open>An operation of the manager is that operation on one pair of tables, the other one is left alone.\<close>

lemma sub_step_local:
  "sub_step identify (OnLocal op) s = (e, s') \<Longrightarrow>
     table_step identify op (sm_local s) = (e, sm_local s') \<and> sm_remote s' = sm_remote s \<and>
     (om_ok (unFinishedLocalAutoSubMap s) \<longrightarrow> om_ok (unFinishedLocalAutoSubMap s'))"
  by (cases op) (auto simp: ReserveLocalSubscribeQuery_def ActiveLocalSubscribeQuery_def DeleteLocalSubscribeQuery_def
      RemoveLocalSubscribeQuery_def ClearLocalSubscribeQuery_def Let_def split: prod.splits option.splits if_splits)

lemma sub_step_remote:
  "sub_step identify (OnRemote op) s = (e, s') \<Longrightarrow>
     table_step identify op (sm_remote s) = (e, sm_remote s') \<and> sm_local s' = sm_local s \<and>
     unFinishedLocalAutoSubMap s' = unFinishedLocalAutoSubMap s"
  by (cases op) (auto simp: ReserveRemoteSubscribeQuery_def ActiveRemoteSubscribeQuery_def DeleteRemoteSubscribeQuery_def
      RemoveRemoteSubscribeQuery_def ClearRemoteSubscribeQuery_def split: prod.splits)

lemma new_table_ok: "table_ok identify \<lparr>subscribeMap = [], subscribedTotalMap = []\<rparr>"
  by (simp add: table_ok_def devices_ok_def users_counted_def count_right_def num_users_def)

lemma subs_new: "subs \<lparr>subscribeMap = [], subscribedTotalMap = []\<rparr> = Map.empty"
  by (rule ext) (simp add: subs_def)

lemma sub_step_ok:
  assumes ok: "manager_ok identify s" and r: "sub_step identify op s = (e, s')"
  shows "manager_ok identify s' \<and> spec_sub_step identify op (manager_subs s) = (e, manager_subs s')"
proof (cases op)
  case (OnLocal o')
  then show ?thesis using r ok sub_step_local[of identify o' s e s'] table_step_ok[of identify "sm_local s" o' e "sm_local s'"]
    by (auto simp: manager_ok_def manager_subs_def split: prod.split)
next
  case (OnRemote o')
  then show ?thesis using r ok sub_step_remote[of identify o' s e s'] table_step_ok[of identify "sm_remote s" o' e "sm_remote s'"]
    by (auto simp: manager_ok_def manager_subs_def split: prod.split)
next
  case ClearAllRemote
  then show ?thesis using r ok new_table_ok[of identify] by (auto simp: ClearAllRemoteQuery_def manager_ok_def manager_subs_def subs_new)
next
  case (PutUnFinished device queries)
  then show ?thesis using r ok by (auto simp: PutLocalUnFinishedSubQueries_def manager_ok_def manager_subs_def split: if_splits)
qed

lemma sub_run_ok:
  "manager_ok identify s \<Longrightarrow> sub_run identify ops s = (es, s') \<Longrightarrow>
     manager_ok identify s' \<and> spec_run identify ops (manager_subs s) = (es, manager_subs s')"
proof (induction ops arbitrary: s es s')
  case (Cons op ops)
  obtain e s1 where s1: "sub_step identify op s = (e, s1)" by (cases "sub_step identify op s")
  obtain es1 s2 where s2: "sub_run identify ops s1 = (es1, s2)" by (cases "sub_run identify ops s1")
  show ?case using sub_step_ok[OF Cons.prems(1) s1] Cons.IH[OF _ s2] Cons.prems(2) s1 s2 by simp
qed simp

lemma new_manager_ok: "manager_ok identify new_SubscribeManager" "manager_subs new_SubscribeManager = (Map.empty, Map.empty)"
proof -
  show "manager_ok identify new_SubscribeManager"
    using new_table_ok[of identify] by (simp add: manager_ok_def new_SubscribeManager_def new_sub_table_def)
  show "manager_subs new_SubscribeManager = (Map.empty, Map.empty)"
    by (simp add: manager_subs_def new_SubscribeManager_def new_sub_table_def subs_new)
qed

section \<open>What the readers return\<close>

definition queries_of :: "subs \<Rightarrow> string \<Rightarrow> string list" where
  "queries_of A device = (case A device of None \<Rightarrow> [] | Some m \<Rightarrow> sorted_list_of_set (dom m))"

definition within_limits :: "subs \<Rightarrow> bool" where
  "within_limits A \<longleftrightarrow> card (dom A) \<le> MAX_DEVICES_NUM \<and> card (used A) \<le> MAX_SUBSCRIBE_NUM_PER_DB \<and>
     (\<forall>device. length (queries_of A device) \<le> MAX_SUBSCRIBE_NUM_PER_DEV)"

lemma keys_sorted: "om_ok m \<Longrightarrow> map fst m = sorted_list_of_set (dom (om_find m))"
  using sorted_list_of_set.idem_if_sorted_distinct[of "map fst m"] by (simp add: om_ok_def strict_sorted_iff dom_om_find)

lemma queries_of_subs:
  assumes "devices_ok (subscribeMap t)"
  shows "queries_of (subs t) device = (case om_find (subscribeMap t) device of None \<Rightarrow> [] | Some m \<Rightarrow> map fst m)"
  using keys_sorted[OF devices_okD(1)[OF assms, of device]] by (auto simp: queries_of_def subs_def split: option.split)

lemma table_limits: "table_ok identify t \<Longrightarrow> within_limits (subs t)"
  using used_subs(2)[of identify t] card_dom_subs[of t] queries_of_subs[of t] devices_okD(2)[of "subscribeMap t"]
  by (auto simp: within_limits_def table_ok_def devices_ok_def split: option.split)

lemma entries_counted:
  assumes "table_ok identify t" "om_find (subscribeMap t) device = Some m" "queryId \<in> fst ` set m"
  obtains q n where "om_find (subscribedTotalMap t) queryId = Some (q, n)" "identify q = queryId"
proof -
  have "om_find m queryId \<noteq> None" using assms(3) by (simp add: om_find_None_iff)
  then show thesis using user_counted[OF _ _ assms(2)] that assms(1) unfolding table_ok_def devices_ok_def by metis
qed

lemma GetSubscribeQueries_ids:
  assumes "table_ok identify t"
  shows "map identify (GetSubscribeQueries device t) = queries_of (subs t) device"
proof (cases "om_find (subscribeMap t) device")
  case None
  then show ?thesis using assms by (simp add: GetSubscribeQueries_def queries_of_def subs_def)
next
  case (Some m)
  have "map identify (concat (map (\<lambda>(queryId, _). case om_find (subscribedTotalMap t) queryId of None \<Rightarrow> [] | Some (q, _) \<Rightarrow> [q]) es)) = map fst es"
    if "set es \<subseteq> set m" for es
    using that
  proof (induction es)
    case (Cons e es)
    obtain a st where e: "e = (a, st)" by (cases e)
    obtain q n where "om_find (subscribedTotalMap t) a = Some (q, n)" "identify q = a"
      by (rule entries_counted[OF assms Some, of a]) (use Cons.prems in \<open>force simp: e\<close>)
    then show ?case using Cons by (simp add: e)
  qed simp
  then show ?thesis using Some assms queries_of_subs[of t device] by (simp add: GetSubscribeQueries_def table_ok_def)
qed

lemma GetRemoteSubscribeQueryIds_ids:
  assumes "table_ok identify (sm_remote s)"
  shows "GetRemoteSubscribeQueryIds device s = queries_of (subs (sm_remote s)) device"
proof (cases "om_find (subscribeMap (sm_remote s)) device")
  case None
  then show ?thesis by (simp add: GetRemoteSubscribeQueryIds_def queries_of_def subs_def)
next
  case (Some m)
  have "om_count (subscribedTotalMap (sm_remote s)) k" if "k \<in> fst ` set m" for k
    by (rule entries_counted[OF assms Some that]) (simp add: om_count_def)
  then have "filter (om_count (subscribedTotalMap (sm_remote s))) (map fst m) = map fst m" by (simp add: filter_id_conv)
  then show ?thesis using Some assms queries_of_subs[of "sm_remote s" device] by (simp add: GetRemoteSubscribeQueryIds_def table_ok_def)
qed

lemma total_users:
  assumes "table_ok identify t"
  shows "om_find (subscribedTotalMap t) queryId \<noteq> None \<longleftrightarrow> users (subs t) queryId \<noteq> {}"
    "(case om_find (subscribedTotalMap t) queryId of None \<Rightarrow> False | Some (_, n) \<Rightarrow> n = 1) \<longleftrightarrow> card (users (subs t) queryId) = 1"
proof -
  have "count_right identify queryId (num_users queryId (subscribeMap t)) (om_find (subscribedTotalMap t) queryId)" "om_ok (subscribeMap t)"
    using assms by (simp_all add: table_ok_def users_counted_def devices_ok_def)
  then show "om_find (subscribedTotalMap t) queryId \<noteq> None \<longleftrightarrow> users (subs t) queryId \<noteq> {}"
    "(case om_find (subscribedTotalMap t) queryId of None \<Rightarrow> False | Some (_, n) \<Rightarrow> n = 1) \<longleftrightarrow> card (users (subs t) queryId) = 1"
    using users_subs[of t queryId] by (auto simp: count_right_def split: option.splits)
qed

section \<open>Theorems\<close>

text \<open>
  C24: The tables of the manager, with their counters of users, implement two maps from devices to the status of their queries.  Any
  sequence of operations returns the error codes of the specification, whose limits are on the number of queries in use, of devices, and of
  queries of a device, and ends with the maps of the specification.
\<close>

theorem subscriptions_refine_maps:
  "case sub_run identify ops new_SubscribeManager of
     (codes, s) \<Rightarrow> spec_run identify ops (Map.empty, Map.empty) = (codes, subs (sm_local s), subs (sm_remote s))"
proof -
  obtain codes s where r: "sub_run identify ops new_SubscribeManager = (codes, s)" by (cases "sub_run identify ops new_SubscribeManager")
  then show ?thesis using sub_run_ok[OF new_manager_ok(1) r] by (simp add: new_manager_ok(2)) (simp add: manager_subs_def)
qed


section \<open>Unfinished subscriptions\<close>

text \<open>A query that has become active is no longer unfinished; the unfinished queries of a device replace what the caller had.\<close>

lemma active_is_finished:
  assumes "ActiveLocalSubscribeQuery identify device query s = (E_OK, s')" "om_find (unFinishedLocalAutoSubMap s') device = Some ids"
  shows "identify query \<notin> set ids"
  using assms by (auto simp: ActiveLocalSubscribeQuery_def Let_def split: prod.splits if_splits option.splits)

lemma GetAllUnFinishSubQueries_find:
  assumes "om_ok (unFinishedLocalAutoSubMap s)"
  shows "om_find (GetAllUnFinishSubQueries s out) device =
    (case om_find (unFinishedLocalAutoSubMap s) device of
       None \<Rightarrow> om_find out device
     | Some ids \<Rightarrow>
         if ids = [] then om_find out device
         else Some (concat (map (\<lambda>queryId. case om_find (subscribedTotalMap (sm_local s)) queryId of None \<Rightarrow> [] | Some (q, _) \<Rightarrow> [q]) ids)))"
proof -
  have "om_find (unfinished_loop tot uf out) device =
    (case om_find uf device of None \<Rightarrow> om_find out device
     | Some ids \<Rightarrow> if ids = [] then om_find out device
         else Some (concat (map (\<lambda>queryId. case om_find tot queryId of None \<Rightarrow> [] | Some (q, _) \<Rightarrow> [q]) ids)))"
    if "om_ok uf" for tot :: "(string, 'a \<times> int) omap" and uf
    using that
  proof (induction uf arbitrary: out)
    case (Cons e uf)
    obtain d ids where e: "e = (d, ids)" by (cases e)
    have "om_find uf d = None" using Cons.prems by (auto simp: e om_ok_Cons om_find_None_iff)
    then show ?case using Cons by (auto simp: e om_ok_Cons om_find_Cons om_find_insert split: option.split)
  qed simp
  then show ?thesis using assms by (simp add: GetAllUnFinishSubQueries_def)
qed

section \<open>Corner cases\<close>

text \<open>A device that has only other queries passes for the last one that subscribes to a query of somebody else.\<close>

lemma last_of_other_device:
  "IsLastRemoteContainSubscribe ''B'' ''q1''
     (snd (sub_run id [OnRemote (Reserve ''A'' ''q1''), OnRemote (Reserve ''B'' ''q2'')] new_SubscribeManager)) \<and>
   ''q1'' \<notin> set (GetRemoteSubscribeQueryIds ''B''
     (snd (sub_run id [OnRemote (Reserve ''A'' ''q1''), OnRemote (Reserve ''B'' ''q2'')] new_SubscribeManager)))"
  by code_simp

text \<open>A device that has removed its last query still counts: when there are as many of them as the limit, no other device can subscribe.\<close>

lemma emptied_devices_fill_table:
  assumes "table_ok identify t" "card (dom (subs t)) = MAX_DEVICES_NUM" "used (subs t) = {}" "subs t device = None"
  shows "ReserveSubscribeQuery identify device query t = (E_MAX_LIMITS, t)"
proof -
  have mp: "om_ok (subscribeMap t)" using assms(1) by (simp add: table_ok_def devices_ok_def)
  have "length (subscribeMap t) = MAX_DEVICES_NUM" "length (subscribedTotalMap t) = 0"
    using card_dom_subs[OF mp] used_subs(2)[OF assms(1)] assms(2,3) by simp_all
  then show ?thesis using assms(4) by (simp add: ReserveSubscribeQuery_def subs_def MAX_SUBSCRIBE_NUM_PER_DB_def)
qed

lemma removed_device_stays_known: "dom (subs (RemoveSubscribeQuery device queryId t)) = dom (subs t)"
  by (auto simp: RemoveSubscribeQuery_def drop_query_def subs_def om_find_insert dom_def Let_def split: option.split)

text \<open>The queries returned for a device include those that are only reserved.\<close>

lemma reserved_query_returned:
  "GetLocalSubscribeQueries ''A'' (snd (sub_run id [OnLocal (Reserve ''A'' ''q1'')] new_SubscribeManager)) = [''q1'']"
  by code_simp

end
