(* ===== verification/Sync_State_Machine.thy ===== *)
theory Sync_State_Machine
  imports Ordered_Map
begin

text \<open>
  The sync state machine (\<^verbatim>\<open>syncer/src/device/sync_state_machine.cpp\<close> and the table of
  \<^verbatim>\<open>singlever/single_ver_sync_state_machine.cpp\<close>): how states are switched, and the timers that keep a long running sync alive: the watch
  dog of the task, the notifications while data are saved, the feeding of the watch dog while data are sent, received or read.
  The timer service is part of the state as the timers that are alive, each with a reference on the context; its answer to
  \<^verbatim>\<open>SetTimer\<close> is an argument.  What is done in a state is a parameter.
\<close>

section \<open>States and events\<close>

datatype State =
    IDLE | TIME_SYNC | ABILITY_SYNC | WAIT_FOR_RECEIVE_DATA_FINISH | SYNC_TASK_FINISHED | SYNC_TIME_OUT | INNER_ERR
  | START_INITIACTIVE_DATA_SYNC | START_PASSIVE_DATA_SYNC | SYNC_CONTROL_CMD

fun state_val :: "State \<Rightarrow> u8" where
  "state_val IDLE = 0"
| "state_val TIME_SYNC = 1"
| "state_val ABILITY_SYNC = 2"
| "state_val WAIT_FOR_RECEIVE_DATA_FINISH = 3"
| "state_val SYNC_TASK_FINISHED = 4"
| "state_val SYNC_TIME_OUT = 5"
| "state_val INNER_ERR = 6"
| "state_val START_INITIACTIVE_DATA_SYNC = 7"
| "state_val START_PASSIVE_DATA_SYNC = 8"
| "state_val SYNC_CONTROL_CMD = 9"

datatype Event =
    START_SYNC_EVENT | TIME_SYNC_FINISHED_EVENT | ABILITY_SYNC_FINISHED_EVENT | VERSION_NOT_SUPPOR_EVENT | SEND_DATA_EVENT
  | SEND_FINISHED_EVENT | RECV_FINISHED_EVENT | NEED_ABILITY_SYNC_EVENT | RESPONSE_TASK_FINISHED_EVENT | START_PULL_RESPONSE_EVENT
  | WAIT_ACK_EVENT | ALL_TASK_FINISHED_EVENT | TIME_OUT_EVENT | INNER_ERR_EVENT | WAIT_TIME_OUT_EVENT | RE_SEND_DATA_EVENT
  | CONTROL_CMD_EVENT | NEED_TIME_SYNC_EVENT | NEED_RESYNC_EVENT | ANY_EVENT

fun event_val :: "Event \<Rightarrow> u8" where
  "event_val START_SYNC_EVENT = 1"
| "event_val TIME_SYNC_FINISHED_EVENT = 2"
| "event_val ABILITY_SYNC_FINISHED_EVENT = 3"
| "event_val VERSION_NOT_SUPPOR_EVENT = 4"
| "event_val SEND_DATA_EVENT = 5"
| "event_val SEND_FINISHED_EVENT = 6"
| "event_val RECV_FINISHED_EVENT = 7"
| "event_val NEED_ABILITY_SYNC_EVENT = 8"
| "event_val RESPONSE_TASK_FINISHED_EVENT = 9"
| "event_val START_PULL_RESPONSE_EVENT = 10"
| "event_val WAIT_ACK_EVENT = 11"
| "event_val ALL_TASK_FINISHED_EVENT = 12"
| "event_val TIME_OUT_EVENT = 13"
| "event_val INNER_ERR_EVENT = 14"
| "event_val WAIT_TIME_OUT_EVENT = 15"
| "event_val RE_SEND_DATA_EVENT = 16"
| "event_val CONTROL_CMD_EVENT = 17"
| "event_val NEED_TIME_SYNC_EVENT = 18"
| "event_val NEED_RESYNC_EVENT = 19"
| "event_val ANY_EVENT = 20"

definition switch_rows :: "(State \<times> Event \<times> State) list" where
  "switch_rows =
    [(IDLE, START_SYNC_EVENT, TIME_SYNC),
     (TIME_SYNC, TIME_SYNC_FINISHED_EVENT, ABILITY_SYNC),
     (TIME_SYNC, TIME_OUT_EVENT, SYNC_TIME_OUT),
     (TIME_SYNC, INNER_ERR_EVENT, INNER_ERR),
     (TIME_SYNC, NEED_RESYNC_EVENT, TIME_SYNC),
     (ABILITY_SYNC, VERSION_NOT_SUPPOR_EVENT, INNER_ERR),
     (ABILITY_SYNC, ABILITY_SYNC_FINISHED_EVENT, START_INITIACTIVE_DATA_SYNC),
     (ABILITY_SYNC, TIME_OUT_EVENT, SYNC_TIME_OUT),
     (ABILITY_SYNC, INNER_ERR_EVENT, INNER_ERR),
     (ABILITY_SYNC, CONTROL_CMD_EVENT, SYNC_CONTROL_CMD),
     (ABILITY_SYNC, NEED_RESYNC_EVENT, ABILITY_SYNC),
     (START_INITIACTIVE_DATA_SYNC, NEED_ABILITY_SYNC_EVENT, ABILITY_SYNC),
     (START_INITIACTIVE_DATA_SYNC, TIME_OUT_EVENT, SYNC_TIME_OUT),
     (START_INITIACTIVE_DATA_SYNC, INNER_ERR_EVENT, INNER_ERR),
     (START_INITIACTIVE_DATA_SYNC, SEND_FINISHED_EVENT, START_PASSIVE_DATA_SYNC),
     (START_INITIACTIVE_DATA_SYNC, RE_SEND_DATA_EVENT, START_INITIACTIVE_DATA_SYNC),
     (START_INITIACTIVE_DATA_SYNC, NEED_TIME_SYNC_EVENT, TIME_SYNC),
     (START_INITIACTIVE_DATA_SYNC, NEED_RESYNC_EVENT, START_INITIACTIVE_DATA_SYNC),
     (START_PASSIVE_DATA_SYNC, SEND_FINISHED_EVENT, START_PASSIVE_DATA_SYNC),
     (START_PASSIVE_DATA_SYNC, RESPONSE_TASK_FINISHED_EVENT, WAIT_FOR_RECEIVE_DATA_FINISH),
     (START_PASSIVE_DATA_SYNC, TIME_OUT_EVENT, SYNC_TIME_OUT),
     (START_PASSIVE_DATA_SYNC, INNER_ERR_EVENT, INNER_ERR),
     (START_PASSIVE_DATA_SYNC, NEED_ABILITY_SYNC_EVENT, ABILITY_SYNC),
     (START_PASSIVE_DATA_SYNC, RE_SEND_DATA_EVENT, START_PASSIVE_DATA_SYNC),
     (START_PASSIVE_DATA_SYNC, NEED_TIME_SYNC_EVENT, TIME_SYNC),
     (START_PASSIVE_DATA_SYNC, NEED_RESYNC_EVENT, START_PASSIVE_DATA_SYNC),
     (WAIT_FOR_RECEIVE_DATA_FINISH, RECV_FINISHED_EVENT, SYNC_TASK_FINISHED),
     (WAIT_FOR_RECEIVE_DATA_FINISH, START_PULL_RESPONSE_EVENT, START_PASSIVE_DATA_SYNC),
     (WAIT_FOR_RECEIVE_DATA_FINISH, TIME_OUT_EVENT, SYNC_TIME_OUT),
     (WAIT_FOR_RECEIVE_DATA_FINISH, INNER_ERR_EVENT, INNER_ERR),
     (WAIT_FOR_RECEIVE_DATA_FINISH, NEED_ABILITY_SYNC_EVENT, ABILITY_SYNC),
     (WAIT_FOR_RECEIVE_DATA_FINISH, NEED_RESYNC_EVENT, START_PASSIVE_DATA_SYNC),
     (SYNC_CONTROL_CMD, SEND_FINISHED_EVENT, SYNC_TASK_FINISHED),
     (SYNC_CONTROL_CMD, TIME_OUT_EVENT, SYNC_TIME_OUT),
     (SYNC_CONTROL_CMD, INNER_ERR_EVENT, INNER_ERR),
     (SYNC_CONTROL_CMD, NEED_ABILITY_SYNC_EVENT, ABILITY_SYNC),
     (SYNC_CONTROL_CMD, NEED_RESYNC_EVENT, SYNC_CONTROL_CMD),
     (SYNC_TASK_FINISHED, ALL_TASK_FINISHED_EVENT, IDLE),
     (SYNC_TASK_FINISHED, START_SYNC_EVENT, TIME_SYNC),
     (SYNC_TIME_OUT, ANY_EVENT, SYNC_TASK_FINISHED),
     (INNER_ERR, ANY_EVENT, SYNC_TASK_FINISHED)]"

definition STATE_SWITCH_TABLE_V3 :: "u8 list list" where
  "STATE_SWITCH_TABLE_V3 = map (\<lambda>(a, e, b). [state_val a, event_val e, state_val b]) switch_rows"

type_synonym switch_table = "(u8, (u8, u8) omap) omap"

definition SINGLE_VER_SYNC_PROCTOL_V3 :: u32 where "SINGLE_VER_SYNC_PROCTOL_V3 = 103"

text \<open>The loop of \<^verbatim>\<open>InitStateSwitchTable\<close>; a row that is too short gives up the whole table.\<close>

fun init_rows :: "u8 list list \<Rightarrow> switch_table \<Rightarrow> switch_table option" where
  "init_rows [] t = Some t"
| "init_rows (row # rows) t =
     (if length row \<le> 2 then None
      else init_rows rows
        (case om_find t (row ! 0) of
           None \<Rightarrow> om_insert (row ! 0) (om_insert (row ! 1) (row ! 2) []) t
         | Some es \<Rightarrow> om_insert (row ! 0) (om_insert (row ! 1) (row ! 2) es) t))"

definition InitStateSwitchTable :: "u32 \<Rightarrow> u8 list list \<Rightarrow> (u32 \<times> switch_table) list \<Rightarrow> (u32 \<times> switch_table) list" where
  "InitStateSwitchTable version rows tables = (case init_rows rows [] of None \<Rightarrow> tables | Some t \<Rightarrow> tables @ [(version, t)])"

text \<open>The static tables with the flag whether they are initialised.\<close>

definition InitStateSwitchTables :: "bool \<times> (u32 \<times> switch_table) list \<Rightarrow> bool \<times> (u32 \<times> switch_table) list" where
  "InitStateSwitchTables st =
     (if fst st then st
      else (True, rev (sort_key fst (InitStateSwitchTable SINGLE_VER_SYNC_PROCTOL_V3 STATE_SWITCH_TABLE_V3 (snd st)))))"

section \<open>The machine\<close>

datatype SyncDirectionFlag = SEND | RECEIVE

record WatchDogController =
  feedDogTimerId :: u64
  feedDogCnt :: u8
  feedDogUpperLimit :: u8
  refCount :: int

datatype timer_use = WatchDog | SaveDataNotify u32 u32 u32 | FeedDog SyncDirectionFlag | GetDataNotify u32

record sync_machine =
  currentState :: u8
  watchDogStarted :: bool
  currentSyncProctolVersion :: u32
  saveDataNotifyTimerId :: u64
  saveDataNotifyCount :: u8
  waitingResetLockBySaveData :: bool
  saveDataNotifyRefCount :: u32
  getDataNotifyTimerId :: u64
  getDataNotifyCount :: u8
  watchDogController :: "SyncDirectionFlag \<Rightarrow> WatchDogController"
  cx_timerId :: u64
  cx_retryTime :: int
  cx_refs :: int
  live_timers :: "(u64, timer_use) omap"
  notify_sent :: "(u32 \<times> u32 \<times> u32) list"

definition new_WatchDogController :: WatchDogController where
  "new_WatchDogController = \<lparr>feedDogTimerId = 0, feedDogCnt = 0, feedDogUpperLimit = 0, refCount = 0\<rparr>"

definition new_SyncStateMachine :: sync_machine where
  "new_SyncStateMachine = \<lparr>currentState = 0, watchDogStarted = False, currentSyncProctolVersion = SINGLE_VER_SYNC_PROCTOL_V3,
     saveDataNotifyTimerId = 0, saveDataNotifyCount = 0, waitingResetLockBySaveData = False, saveDataNotifyRefCount = 0,
     getDataNotifyTimerId = 0, getDataNotifyCount = 0, watchDogController = (\<lambda>_. new_WatchDogController), cx_timerId = 0,
     cx_retryTime = 0, cx_refs = 0, live_timers = [], notify_sent = []\<rparr>"

definition SetCurStateErrStatus :: "sync_machine \<Rightarrow> sync_machine" where
  "SetCurStateErrStatus m = m\<lparr>currentState := state_val INNER_ERR\<rparr>"

definition SwitchMachineState :: "(u32 \<times> switch_table) list \<Rightarrow> u8 \<Rightarrow> sync_machine \<Rightarrow> errcode \<times> sync_machine" where
  "SwitchMachineState tables event m =
     (case find (\<lambda>(version, _). version \<le> currentSyncProctolVersion m) tables of
        None \<Rightarrow> (E_NOT_FOUND, m)
      | Some (_, table) \<Rightarrow>
          (case om_find table (currentState m) of
             None \<Rightarrow> (E_OK, SetCurStateErrStatus m)
           | Some eventToState \<Rightarrow>
               (case om_find eventToState event of
                  None \<Rightarrow> (E_NOT_FOUND, m)
                | Some st \<Rightarrow> (E_OK, m\<lparr>currentState := st\<rparr>))))"

text \<open>The states that have a handler.\<close>

definition stateMapping :: "u8 list" where
  "stateMapping = map state_val [TIME_SYNC, ABILITY_SYNC, WAIT_FOR_RECEIVE_DATA_FINISH, SYNC_TASK_FINISHED, SYNC_TIME_OUT, INNER_ERR,
     START_INITIACTIVE_DATA_SYNC, START_PASSIVE_DATA_SYNC, SYNC_CONTROL_CMD]"

text \<open>The loop runs until a state waits, an event is not expected, or the machine is idle; it need not end, so the result is an option.\<close>

partial_function (option) SyncStepInner ::
  "(u32 \<times> switch_table) list \<Rightarrow> (u8 \<Rightarrow> sync_machine \<Rightarrow> u8 \<times> sync_machine) \<Rightarrow> sync_machine \<Rightarrow> sync_machine option" where
  "SyncStepInner tables handle m =
     (if currentState m \<notin> set stateMapping then Some m
      else let (event, m1) = handle (currentState m) m
           in if event = event_val WAIT_ACK_EVENT then Some m1
              else let (errCode, m2) = SwitchMachineState tables event m1
                   in if errCode = E_OK \<and> currentState m2 \<noteq> state_val IDLE then SyncStepInner tables handle m2 else Some m2)"

definition SwitchStateAndStep ::
  "(u32 \<times> switch_table) list \<Rightarrow> (u8 \<Rightarrow> sync_machine \<Rightarrow> u8 \<times> sync_machine) \<Rightarrow> u8 \<Rightarrow> sync_machine \<Rightarrow> sync_machine option" where
  "SwitchStateAndStep tables handle event m =
     (let (errCode, m1) = SwitchMachineState tables event m in if errCode = E_OK then SyncStepInner tables handle m1 else Some m1)"

text \<open>
  The event for an error code.  \<open>retry\<close> says whether the task is still to be retried.  The case of the source for the value
  \<open>- VERSION_NOT_SUPPOR_EVENT\<close>, minus four, has no counterpart: error codes start at a thousand.
\<close>

definition TransformErrCodeToEvent :: "bool \<Rightarrow> errcode \<Rightarrow> Event" where
  "TransformErrCodeToEvent retry errCode =
     (case errCode of
        E_TIMEOUT \<Rightarrow> if retry then WAIT_TIME_OUT_EVENT else TIME_OUT_EVENT
      | E_SEND_DATA \<Rightarrow> SEND_DATA_EVENT
      | E_NO_DATA_SEND \<Rightarrow> SEND_FINISHED_EVENT
      | E_RECV_FINISHED \<Rightarrow> RECV_FINISHED_EVENT
      | E_NEED_ABILITY_SYNC \<Rightarrow> NEED_ABILITY_SYNC_EVENT
      | E_NO_SYNC_TASK \<Rightarrow> ALL_TASK_FINISHED_EVENT
      | E_NEED_PULL_REPONSE \<Rightarrow> START_PULL_RESPONSE_EVENT
      | E_RE_SEND_DATA \<Rightarrow> RE_SEND_DATA_EVENT
      | E_NEED_TIME_SYNC \<Rightarrow> NEED_TIME_SYNC_EVENT
      | _ \<Rightarrow> INNER_ERR_EVENT)"

section \<open>Timers\<close>

text \<open>The runtime: a timer that is removed gives back the reference its finalizer holds.\<close>

definition add_timer :: "u64 \<Rightarrow> timer_use \<Rightarrow> sync_machine \<Rightarrow> sync_machine" where
  "add_timer i u m = m\<lparr>live_timers := om_insert i u (live_timers m)\<rparr>"

definition RemoveTimer :: "u64 \<Rightarrow> sync_machine \<Rightarrow> sync_machine" where
  "RemoveTimer i m =
     (if om_find (live_timers m) i = None then m
      else m\<lparr>live_timers := om_erase i (live_timers m), cx_refs := cx_refs m - 1\<rparr>)"

definition Context_StartTimer :: "errcode \<times> u64 \<Rightarrow> sync_machine \<Rightarrow> errcode \<times> sync_machine" where
  "Context_StartTimer answer m =
     (if cx_timerId m > 0 then (E_UNEXPECTED_DATA, m)
      else case answer of
             (errCode, timerId) \<Rightarrow>
               if errCode \<noteq> E_OK then (errCode, m)
               else (E_OK, add_timer timerId WatchDog (m\<lparr>cx_timerId := timerId, cx_refs := cx_refs m + 1\<rparr>)))"

definition Context_StopTimer :: "sync_machine \<Rightarrow> sync_machine" where
  "Context_StopTimer m = (if cx_timerId m = 0 then m else RemoveTimer (cx_timerId m) (m\<lparr>cx_timerId := 0\<rparr>))"

definition StartWatchDog :: "errcode \<times> u64 \<Rightarrow> sync_machine \<Rightarrow> errcode \<times> sync_machine" where
  "StartWatchDog answer m =
     (case Context_StartTimer answer m of (errCode, m1) \<Rightarrow> (errCode, if errCode = E_OK then m1\<lparr>watchDogStarted := True\<rparr> else m1))"

definition ResetWatchDog :: "errcode \<times> u64 \<Rightarrow> sync_machine \<Rightarrow> errcode \<times> sync_machine" where
  "ResetWatchDog answer m =
     (if \<not> watchDogStarted m then (E_OK, m) else Context_StartTimer answer ((Context_StopTimer m)\<lparr>cx_retryTime := 0\<rparr>))"

definition StopWatchDog :: "sync_machine \<Rightarrow> sync_machine" where
  "StopWatchDog m = Context_StopTimer (m\<lparr>watchDogStarted := False\<rparr>)"

definition PrepareNextSyncTask :: "errcode \<times> u64 \<Rightarrow> errcode \<times> u64 \<Rightarrow> sync_machine \<Rightarrow> errcode \<times> sync_machine" where
  "PrepareNextSyncTask answer answer2 m =
     (case StartWatchDog answer m of
        (errCode, m1) \<Rightarrow>
          if errCode \<noteq> E_OK \<and> errCode \<noteq> E_UNEXPECTED_DATA then (errCode, m1)
          else let m2 = (if errCode = E_UNEXPECTED_DATA then snd (ResetWatchDog answer2 m1) else m1)
               in (E_OK, if currentState m2 \<noteq> state_val IDLE \<and> currentState m2 \<noteq> state_val SYNC_TASK_FINISHED
                         then m2\<lparr>currentState := state_val IDLE\<rparr> else m2))"

subsection \<open>Notifications while data are saved\<close>

definition MAX_DATA_NOTIFY_COUNT :: u8 where "MAX_DATA_NOTIFY_COUNT = 15"

definition StartSaveDataNotify :: "errcode \<times> u64 \<Rightarrow> u32 \<Rightarrow> u32 \<Rightarrow> u32 \<Rightarrow> sync_machine \<Rightarrow> bool \<times> sync_machine" where
  "StartSaveDataNotify answer sessionId sequenceId inMsgId m =
     (let m1 = m\<lparr>saveDataNotifyRefCount := saveDataNotifyRefCount m + 1\<rparr>
      in if saveDataNotifyTimerId m > 0 then (True, m1\<lparr>saveDataNotifyCount := 0\<rparr>)
         else case answer of
                (errCode, timerId) \<Rightarrow>
                  let m2 = m1\<lparr>cx_refs := cx_refs m1 + 1\<rparr>
                  in if errCode \<noteq> E_OK
                     then (False, m2\<lparr>saveDataNotifyTimerId := 0, saveDataNotifyRefCount := saveDataNotifyRefCount m2 - 1\<rparr>)
                     else (True, add_timer timerId (SaveDataNotify sessionId sequenceId inMsgId) (m2\<lparr>saveDataNotifyTimerId := timerId\<rparr>)))"

definition StopSaveDataNotify :: "sync_machine \<Rightarrow> sync_machine" where
  "StopSaveDataNotify m =
     (if saveDataNotifyTimerId m = 0 then m
      else let m1 = m\<lparr>saveDataNotifyRefCount := saveDataNotifyRefCount m - 1\<rparr>
           in if saveDataNotifyRefCount m1 > 0 then m1
              else (RemoveTimer (saveDataNotifyTimerId m1) m1)
                     \<lparr>saveDataNotifyTimerId := 0, saveDataNotifyCount := 0, saveDataNotifyRefCount := 0\<rparr>)"

text \<open>The two sections of \<^verbatim>\<open>DoSaveDataNotify\<close>; the first one tells whether the second one follows.\<close>

definition save_notify_send :: "u32 \<Rightarrow> u32 \<Rightarrow> u32 \<Rightarrow> sync_machine \<Rightarrow> bool \<times> sync_machine" where
  "save_notify_send sessionId sequenceId inMsgId m =
     (if saveDataNotifyCount m \<ge> MAX_DATA_NOTIFY_COUNT then (False, StopSaveDataNotify m)
      else let m1 = m\<lparr>notify_sent := notify_sent m @ [(sessionId, sequenceId, inMsgId)], saveDataNotifyCount := saveDataNotifyCount m + 1\<rparr>
           in if waitingResetLockBySaveData m1 then (False, m1) else (True, m1\<lparr>waitingResetLockBySaveData := True\<rparr>))"

definition save_notify_reset :: "errcode \<times> u64 \<Rightarrow> sync_machine \<Rightarrow> sync_machine" where
  "save_notify_reset answer m = snd (ResetWatchDog answer (m\<lparr>waitingResetLockBySaveData := False\<rparr>))"

definition DoSaveDataNotify :: "errcode \<times> u64 \<Rightarrow> u32 \<Rightarrow> u32 \<Rightarrow> u32 \<Rightarrow> sync_machine \<Rightarrow> sync_machine" where
  "DoSaveDataNotify answer sessionId sequenceId inMsgId m =
     (let (go, m1) = save_notify_send sessionId sequenceId inMsgId m in if go then save_notify_reset answer m1 else m1)"

subsection \<open>Feeding the watch dog while data are sent or received\<close>

definition DATA_NOTIFY_INTERVAL :: u32 where "DATA_NOTIFY_INTERVAL = 2000"

definition GetFeedDogTimeout :: "u32 \<Rightarrow> u8" where
  "GetFeedDogTimeout timeoutCount = (if timeoutCount > 255 then 255 else ucast timeoutCount)"

definition set_dog :: "SyncDirectionFlag \<Rightarrow> (WatchDogController \<Rightarrow> WatchDogController) \<Rightarrow> sync_machine \<Rightarrow> sync_machine" where
  "set_dog flag f m = m\<lparr>watchDogController := (watchDogController m)(flag := f (watchDogController m flag))\<rparr>"

definition StartFeedDogForSync :: "errcode \<times> u64 \<Rightarrow> u32 \<Rightarrow> SyncDirectionFlag \<Rightarrow> sync_machine \<Rightarrow> bool \<times> sync_machine" where
  "StartFeedDogForSync answer time flag m =
     (let cnt = GetFeedDogTimeout (time div DATA_NOTIFY_INTERVAL);
          m1 = set_dog flag (\<lambda>d. d\<lparr>refCount := refCount d + 1\<rparr>) m
      in if feedDogTimerId (watchDogController m flag) > 0
         then (False, set_dog flag (\<lambda>d. d\<lparr>feedDogUpperLimit := (if cnt > feedDogUpperLimit d then cnt else feedDogUpperLimit d), feedDogCnt := 0\<rparr>) m1)
         else case answer of
                (errCode, timerId) \<Rightarrow>
                  let m2 = set_dog flag (\<lambda>d. d\<lparr>feedDogUpperLimit := cnt\<rparr>) (m1\<lparr>cx_refs := cx_refs m1 + 1\<rparr>)
                  in if errCode \<noteq> E_OK then (False, set_dog flag (\<lambda>d. d\<lparr>feedDogTimerId := 0\<rparr>) m2)
                     else (True, add_timer timerId (FeedDog flag) (set_dog flag (\<lambda>d. d\<lparr>feedDogTimerId := timerId\<rparr>) m2)))"

definition StopFeedDogForSync :: "SyncDirectionFlag \<Rightarrow> sync_machine \<Rightarrow> sync_machine" where
  "StopFeedDogForSync flag m =
     (if feedDogTimerId (watchDogController m flag) = 0 then m
      else set_dog flag (\<lambda>d. d\<lparr>feedDogTimerId := 0, feedDogCnt := 0, refCount := 0\<rparr>)
             (RemoveTimer (feedDogTimerId (watchDogController m flag)) m))"

definition DecRefCountOfFeedDogTimer :: "SyncDirectionFlag \<Rightarrow> sync_machine \<Rightarrow> sync_machine" where
  "DecRefCountOfFeedDogTimer flag m =
     (if feedDogTimerId (watchDogController m flag) = 0 then m
      else let m1 = set_dog flag (\<lambda>d. d\<lparr>refCount := refCount d - 1\<rparr>) m
           in if refCount (watchDogController m1 flag) \<le> 0 then StopFeedDogForSync flag m1 else m1)"

definition DoFeedDogForSync :: "errcode \<times> u64 \<Rightarrow> SyncDirectionFlag \<Rightarrow> sync_machine \<Rightarrow> sync_machine" where
  "DoFeedDogForSync answer flag m =
     (let m1 = snd (ResetWatchDog answer m); d = watchDogController m1 flag
      in if feedDogCnt d \<ge> feedDogUpperLimit d then StopFeedDogForSync flag m1
         else set_dog flag (\<lambda>d. d\<lparr>feedDogCnt := feedDogCnt d + 1\<rparr>) m1)"

subsection \<open>Feeding the watch dog while data are read\<close>

definition DATA_SYNC_MESSAGE :: u32 where "DATA_SYNC_MESSAGE = 2"

definition StartFeedDogForGetData :: "errcode \<times> u64 \<Rightarrow> u32 \<Rightarrow> sync_machine \<Rightarrow> sync_machine" where
  "StartFeedDogForGetData answer sessionId m =
     (let m1 = (if getDataNotifyTimerId m > 0 then m\<lparr>getDataNotifyCount := 0\<rparr> else m);
          m2 = m1\<lparr>cx_refs := cx_refs m1 + 1\<rparr>
      in case answer of
           (errCode, timerId) \<Rightarrow>
             if errCode \<noteq> E_OK then m2\<lparr>getDataNotifyTimerId := 0\<rparr>
             else add_timer timerId (GetDataNotify sessionId) (m2\<lparr>getDataNotifyTimerId := timerId\<rparr>))"

definition StopFeedDogForGetDataInner :: "u64 \<Rightarrow> sync_machine \<Rightarrow> sync_machine" where
  "StopFeedDogForGetDataInner timerId m =
     (if getDataNotifyTimerId m = 0 \<or> getDataNotifyTimerId m \<noteq> timerId then m
      else (RemoveTimer timerId m)\<lparr>getDataNotifyTimerId := 0, getDataNotifyCount := 0\<rparr>)"

definition StopFeedDogForGetData :: "sync_machine \<Rightarrow> sync_machine" where
  "StopFeedDogForGetData m = (if getDataNotifyTimerId m = 0 then m else StopFeedDogForGetDataInner (getDataNotifyTimerId m) m)"

definition DoGetAndSendDataNotify :: "errcode \<times> u64 \<Rightarrow> u32 \<Rightarrow> sync_machine \<Rightarrow> sync_machine" where
  "DoGetAndSendDataNotify answer sessionId m =
     (let m1 = snd (ResetWatchDog answer m)
      in if getDataNotifyCount m1 \<ge> MAX_DATA_NOTIFY_COUNT then m1
         else (if sessionId \<noteq> 0 then m1\<lparr>notify_sent := notify_sent m1 @ [(sessionId, 0, DATA_SYNC_MESSAGE)]\<rparr> else m1)
                \<lparr>getDataNotifyCount := getDataNotifyCount m1 + 1\<rparr>)"

text \<open>The task that the timer schedules.\<close>

definition get_data_task :: "errcode \<times> u64 \<Rightarrow> u64 \<Rightarrow> u32 \<Rightarrow> sync_machine \<Rightarrow> sync_machine" where
  "get_data_task answer timerId sessionId m =
     (let m1 = DoGetAndSendDataNotify answer sessionId m
      in if getDataNotifyCount m1 \<ge> MAX_DATA_NOTIFY_COUNT then StopFeedDogForGetDataInner timerId m1 else m1)"

section \<open>Time out and abort\<close>

text \<open>What the code does next: nothing, the step to the time out state, or another step of the task.\<close>

datatype timeout_act = NoStep | StepToTimeout | SyncStep

definition AUTO_RETRY_TIMES :: int where "AUTO_RETRY_TIMES = 3"
definition MANUAL_RETRY_TIMES :: int where "MANUAL_RETRY_TIMES = 1"

definition GetSyncRetryTimes :: "bool \<Rightarrow> bool \<Rightarrow> int" where
  "GetSyncRetryTimes isAutoSync isSubscribe = (if isAutoSync \<or> isSubscribe then AUTO_RETRY_TIMES else MANUAL_RETRY_TIMES)"

definition TimeoutCallback :: "bool \<Rightarrow> bool \<Rightarrow> int \<Rightarrow> u64 \<Rightarrow> sync_machine \<Rightarrow> errcode \<times> timeout_act \<times> sync_machine" where
  "TimeoutCallback isKilled isNeedRetry syncRetryTimes timerId m =
     (if isKilled then (E_OBJ_IS_KILLED, NoStep, m)
      else if cx_timerId m \<noteq> timerId then (E_UNEXPECTED_DATA, NoStep, m)
      else if cx_retryTime m \<ge> syncRetryTimes \<or> \<not> isNeedRetry then (E_OK, StepToTimeout, m)
      else (E_OK, SyncStep, m\<lparr>cx_retryTime := cx_retryTime m + 1\<rparr>))"

text \<open>What clearing the context does to its timer.\<close>

definition Context_Clear :: "sync_machine \<Rightarrow> sync_machine" where
  "Context_Clear m = (Context_StopTimer m)\<lparr>cx_retryTime := 0\<rparr>"

definition AbortImmediately :: "sync_machine \<Rightarrow> sync_machine" where
  "AbortImmediately m = (StopWatchDog (Context_Clear m))\<lparr>currentState := 0\<rparr>"

section \<open>Switching states\<close>

definition row_entry :: "u8 list \<Rightarrow> (u8 \<times> u8) \<times> u8" where
  "row_entry row = ((row ! 0, row ! 1), row ! 2)"

definition lookup :: "switch_table \<Rightarrow> u8 \<times> u8 \<Rightarrow> u8 option" where
  "lookup t se = (case om_find t (fst se) of None \<Rightarrow> None | Some es \<Rightarrow> om_find es (snd se))"

text \<open>The nested maps hold the last row for each state and event, and a state is known when it has a row.\<close>

lemma init_rows_lookup:
  "\<forall>row \<in> set rows. 2 < length row \<Longrightarrow>
     \<exists>t'. init_rows rows t = Some t' \<and> (\<forall>se. lookup t' se = (lookup t ++ map_of (rev (map row_entry rows))) se) \<and>
       (\<forall>st. om_find t' st \<noteq> None \<longleftrightarrow> om_find t st \<noteq> None \<or> st \<in> (\<lambda>row. row ! 0) ` set rows)"
proof (induction rows arbitrary: t)
  case (Cons row rows)
  let ?t = "case om_find t (row ! 0) of None \<Rightarrow> om_insert (row ! 0) (om_insert (row ! 1) (row ! 2) []) t
     | Some es \<Rightarrow> om_insert (row ! 0) (om_insert (row ! 1) (row ! 2) es) t"
  have one: "lookup ?t se = (lookup t ++ map_of [row_entry row]) se" for se
    by (cases se) (auto simp: lookup_def row_entry_def om_find_insert om_find_Cons map_add_def split: option.splits)
  have two: "om_find ?t st \<noteq> None \<longleftrightarrow> om_find t st \<noteq> None \<or> st = row ! 0" for st
    by (auto simp: om_find_insert split: option.splits)
  have "\<forall>row \<in> set rows. 2 < length row" using Cons.prems by simp
  from Cons.IH[OF this, of ?t] obtain t' where t': "init_rows rows ?t = Some t'"
    "\<forall>se. lookup t' se = (lookup ?t ++ map_of (rev (map row_entry rows))) se"
    "\<forall>st. om_find t' st \<noteq> None \<longleftrightarrow> om_find ?t st \<noteq> None \<or> st \<in> (\<lambda>row. row ! 0) ` set rows" by blast
  have "lookup t' se = (lookup t ++ map_of (rev (map row_entry (row # rows)))) se" for se
    using t'(2)[rule_format, of se] one[of se] by (simp add: map_add_def map_of_append split: option.splits)
  moreover have "om_find t' st \<noteq> None \<longleftrightarrow> om_find t st \<noteq> None \<or> st \<in> (\<lambda>row. row ! 0) ` set (row # rows)" for st
    using t'(3) two[of st] by auto
  moreover have "init_rows (row # rows) t = Some t'" using Cons.prems t'(1) by simp
  ultimately show ?case by blast
qed simp

text \<open>The transitions of the table on the states themselves.\<close>

definition next_state :: "State \<Rightarrow> Event \<Rightarrow> State option" where
  "next_state s e = map_of (map (\<lambda>(a, ev, b). ((a, ev), b)) switch_rows) (s, e)"

definition tables_V3 :: "(u32 \<times> switch_table) list" where
  "tables_V3 = snd (InitStateSwitchTables (False, []))"

lemma state_val_inj: "state_val s = state_val s' \<longleftrightarrow> s = s'"
  by (cases s; cases s'; simp)

lemma event_val_inj: "event_val e = event_val e' \<longleftrightarrow> e = e'"
  by (cases e; cases e'; simp)

lemma map_of_coded:
  "map_of (map (\<lambda>(a, ev, b). ((state_val a, event_val ev), state_val b)) rows) (state_val s, event_val e) =
   map_option state_val (map_of (map (\<lambda>(a, ev, b). ((a, ev), b)) rows) (s, e))"
  by (induction rows) (auto simp: state_val_inj event_val_inj)

lemma rows_distinct: "distinct (map (\<lambda>(a, ev, b). (a, ev)) switch_rows)"
  by (simp add: switch_rows_def)

lemma rows_coded: "map row_entry STATE_SWITCH_TABLE_V3 = map (\<lambda>(a, ev, b). ((state_val a, event_val ev), state_val b)) switch_rows"
  by (simp add: STATE_SWITCH_TABLE_V3_def row_entry_def case_prod_unfold)

lemma map_of_rev_distinct: "distinct (map fst xs) \<Longrightarrow> map_of (rev xs) k = map_of xs k"
proof -
  assume d: "distinct (map fst xs)"
  then have "distinct (map fst (rev xs))" by (simp add: rev_map[symmetric])
  then have "map_of (rev xs) k = Some v \<longleftrightarrow> map_of xs k = Some v" for v using d by (simp add: map_of_eq_Some_iff)
  then show ?thesis by (metis not_None_eq)
qed

lemma V3_next: "map_of (rev (map row_entry STATE_SWITCH_TABLE_V3)) (state_val s, event_val e) = map_option state_val (next_state s e)"
proof -
  have "inj_on (\<lambda>(a, ev). (state_val a, event_val ev)) A" for A by (auto simp: inj_on_def state_val_inj event_val_inj)
  then have "distinct (map ((\<lambda>(a, ev). (state_val a, event_val ev)) \<circ> (\<lambda>(a, ev, b). (a, ev))) switch_rows)"
    using rows_distinct by (subst map_map[symmetric]) (simp only: distinct_map)
  then have "distinct (map fst (map row_entry STATE_SWITCH_TABLE_V3))" unfolding rows_coded by (simp add: comp_def case_prod_unfold)
  then show ?thesis using map_of_rev_distinct map_of_coded[of switch_rows s e] unfolding rows_coded next_state_def by metis
qed

lemma V3_rows: "\<forall>row \<in> set STATE_SWITCH_TABLE_V3. 2 < length row"
  by (auto simp: STATE_SWITCH_TABLE_V3_def)

lemma every_state_has_row: "state_val s \<in> (\<lambda>row. row ! 0) ` set STATE_SWITCH_TABLE_V3"
  by (cases s) (simp_all add: STATE_SWITCH_TABLE_V3_def switch_rows_def)

lemma SwitchMachineState_rows:
  assumes "\<forall>row \<in> set rows. 2 < length row" "version \<le> currentSyncProctolVersion m"
  shows "SwitchMachineState (InitStateSwitchTable version rows []) event m =
    (if currentState m \<notin> (\<lambda>row. row ! 0) ` set rows then (E_OK, SetCurStateErrStatus m)
     else case map_of (rev (map row_entry rows)) (currentState m, event) of
            None \<Rightarrow> (E_NOT_FOUND, m)
          | Some st \<Rightarrow> (E_OK, m\<lparr>currentState := st\<rparr>))"
proof -
  obtain t where t: "init_rows rows [] = Some t" "\<forall>se. lookup t se = (lookup [] ++ map_of (rev (map row_entry rows))) se"
    "\<forall>st. om_find t st \<noteq> None \<longleftrightarrow> st \<in> (\<lambda>row. row ! 0) ` set rows"
    using init_rows_lookup[OF assms(1), of "[]"] by auto
  have l: "lookup t (currentState m, event) = map_of (rev (map row_entry rows)) (currentState m, event)"
    using t(2) by (simp add: lookup_def map_add_def split: option.split)
  show ?thesis using t(1) t(3)[rule_format, of "currentState m"] l assms(2)
    by (cases "om_find t (currentState m)") (auto simp: SwitchMachineState_def InitStateSwitchTable_def lookup_def)
qed

lemma tables_V3_eq: "tables_V3 = InitStateSwitchTable SINGLE_VER_SYNC_PROCTOL_V3 STATE_SWITCH_TABLE_V3 []"
proof -
  obtain t where "init_rows STATE_SWITCH_TABLE_V3 [] = Some t" using init_rows_lookup[OF V3_rows, of "[]"] by blast
  then show ?thesis by (simp add: tables_V3_def InitStateSwitchTables_def InitStateSwitchTable_def)
qed

lemma SwitchMachineState_V3:
  assumes "SINGLE_VER_SYNC_PROCTOL_V3 \<le> currentSyncProctolVersion m" "currentState m = state_val s"
  shows "SwitchMachineState tables_V3 (event_val e) m =
    (case next_state s e of None \<Rightarrow> (E_NOT_FOUND, m) | Some s' \<Rightarrow> (E_OK, m\<lparr>currentState := state_val s'\<rparr>))"
  unfolding tables_V3_eq SwitchMachineState_rows[OF V3_rows assms(1)] assms(2) V3_next using every_state_has_row[of s]
  by (simp split: option.split)

text \<open>A machine in one of its states; the handlers leave it in one and answer with an event.\<close>

definition typed :: "sync_machine \<Rightarrow> bool" where
  "typed m \<longleftrightarrow> currentState m \<in> range state_val \<and> SINGLE_VER_SYNC_PROCTOL_V3 \<le> currentSyncProctolVersion m"

definition handlers_typed :: "(u8 \<Rightarrow> sync_machine \<Rightarrow> u8 \<times> sync_machine) \<Rightarrow> bool" where
  "handlers_typed handle \<longleftrightarrow> (\<forall>st m. typed m \<longrightarrow> fst (handle st m) \<in> range event_val \<and> typed (snd (handle st m)))"

lemma SwitchMachineState_typed: "typed m \<Longrightarrow> ev \<in> range event_val \<Longrightarrow> SwitchMachineState tables_V3 ev m = (e, m') \<Longrightarrow> typed m'"
  by (auto simp: typed_def SwitchMachineState_V3 split: option.splits)

lemma SyncStepInner_typed:
  assumes h: "handlers_typed handle" and m: "typed m" and r: "SyncStepInner tables_V3 handle m = Some m'"
  shows "typed m'"
proof -
  let ?P = "\<lambda>tables hd' m m'. tables = tables_V3 \<longrightarrow> hd' = handle \<longrightarrow> typed m \<longrightarrow> typed m'"
  have "?P tables_V3 handle m m'"
  proof (rule SyncStepInner.raw_induct[where P = ?P, OF _ r])
    fix step tables hd' m m'
    assume ih: "\<And>a b c y. step a b c = Some y \<Longrightarrow> ?P a b c y"
      and res: "(if currentState m \<notin> set stateMapping then Some m
         else let (event, m1) = hd' (currentState m) m
              in if event = event_val WAIT_ACK_EVENT then Some m1
                 else let (errCode, m2) = SwitchMachineState tables event m1
                      in if errCode = E_OK \<and> currentState m2 \<noteq> state_val IDLE then step tables hd' m2 else Some m2) = Some m'"
    show "?P tables hd' m m'"
    proof (intro impI)
      assume a: "tables = tables_V3" "hd' = handle" "typed m"
      obtain ev m1 where ev: "handle (currentState m) m = (ev, m1)" by (cases "handle (currentState m) m")
      obtain e m2 where e: "SwitchMachineState tables_V3 ev m1 = (e, m2)" by (cases "SwitchMachineState tables_V3 ev m1")
      have "ev \<in> range event_val" "typed m1" using h a(3) ev unfolding handlers_typed_def by (metis fst_conv snd_conv)+
      moreover from this have "typed m2" using SwitchMachineState_typed e by blast
      ultimately show "typed m'" using res ih[of tables_V3 handle m2 m'] a ev e by (auto split: if_splits)
    qed
  qed
  then show ?thesis using m by blast
qed

section \<open>The timers\<close>

definition is_save :: "timer_use option \<Rightarrow> bool" where
  "is_save u = (case u of Some (SaveDataNotify _ _ _) \<Rightarrow> True | _ \<Rightarrow> False)"

definition is_get :: "timer_use option \<Rightarrow> bool" where
  "is_get u = (case u of Some (GetDataNotify _) \<Rightarrow> True | _ \<Rightarrow> False)"

definition timers_ok :: "sync_machine \<Rightarrow> bool" where
  "timers_ok m \<longleftrightarrow> om_ok (live_timers m) \<and> om_find (live_timers m) 0 = None \<and>
     (cx_timerId m = 0 \<or> om_find (live_timers m) (cx_timerId m) = Some WatchDog) \<and>
     (if saveDataNotifyTimerId m = 0 then saveDataNotifyRefCount m = 0
      else is_save (om_find (live_timers m) (saveDataNotifyTimerId m)) \<and> saveDataNotifyRefCount m \<noteq> 0) \<and>
     (getDataNotifyTimerId m = 0 \<or> is_get (om_find (live_timers m) (getDataNotifyTimerId m))) \<and>
     (feedDogTimerId (watchDogController m SEND) = 0 \<or>
        om_find (live_timers m) (feedDogTimerId (watchDogController m SEND)) = Some (FeedDog SEND)) \<and>
     (feedDogTimerId (watchDogController m RECEIVE) = 0 \<or>
        om_find (live_timers m) (feedDogTimerId (watchDogController m RECEIVE)) = Some (FeedDog RECEIVE)) \<and>
     int (length (live_timers m)) \<le> cx_refs m \<and> saveDataNotifyCount m \<le> MAX_DATA_NOTIFY_COUNT \<and> getDataNotifyCount m \<le> MAX_DATA_NOTIFY_COUNT"

text \<open>The answer of the timer service: when it succeeds, an identifier that is not in use.\<close>

definition answer_ok :: "errcode \<times> u64 \<Rightarrow> sync_machine \<Rightarrow> bool" where
  "answer_ok answer m \<longleftrightarrow> fst answer \<noteq> E_OK \<or> snd answer \<noteq> 0 \<and> om_find (live_timers m) (snd answer) = None"

lemma is_save_simps [simp]: "\<not> is_save None" "is_save (Some u) \<longleftrightarrow> (\<exists>a b c. u = SaveDataNotify a b c)"
  by (auto simp: is_save_def split: timer_use.split)

lemma is_get_simps [simp]: "\<not> is_get None" "is_get (Some u) \<longleftrightarrow> (\<exists>a. u = GetDataNotify a)"
  by (auto simp: is_get_def split: timer_use.split)

lemma length_erase_live: "om_ok l \<Longrightarrow> om_find l i = Some u \<Longrightarrow> int (length (om_erase i l)) = int (length l) - 1"
  using length_om_erase[of l i u] by simp

lemmas timer_simps = add_timer_def RemoveTimer_def om_find_insert om_find_erase length_om_insert_new length_erase_live

lemma stop_timer_ok:
  assumes "timers_ok m" shows "timers_ok (Context_StopTimer m)"
  using assms by (auto simp: timers_ok_def Context_StopTimer_def timer_simps split: if_splits)

lemma stop_timer_live: "om_find (live_timers m) i = None \<Longrightarrow> om_find (live_timers (Context_StopTimer m)) i = None"
  by (simp add: Context_StopTimer_def timer_simps)

lemma stop_timer_id [simp]: "cx_timerId (Context_StopTimer m) = 0"
  by (simp add: Context_StopTimer_def RemoveTimer_def)

lemma start_timer_ok:
  assumes "timers_ok m" "answer_ok answer m" shows "timers_ok (snd (Context_StartTimer answer m))"
  using assms by (cases answer) (auto simp: timers_ok_def answer_ok_def Context_StartTimer_def timer_simps word_neq_0_conv[symmetric])

lemma retry_ok [simp]: "timers_ok (m\<lparr>cx_retryTime := r\<rparr>) = timers_ok m" "timers_ok (m\<lparr>currentState := s\<rparr>) = timers_ok m"
  "timers_ok (m\<lparr>watchDogStarted := b\<rparr>) = timers_ok m" "timers_ok (m\<lparr>waitingResetLockBySaveData := b\<rparr>) = timers_ok m"
  "timers_ok (m\<lparr>notify_sent := ns\<rparr>) = timers_ok m"
  by (simp_all add: timers_ok_def)

lemma ResetWatchDog_ok:
  assumes "timers_ok m" "answer_ok answer m" shows "timers_ok (snd (ResetWatchDog answer m))"
proof -
  have "answer_ok answer ((Context_StopTimer m)\<lparr>cx_retryTime := 0\<rparr>)" using assms(2) stop_timer_live by (auto simp: answer_ok_def)
  then show ?thesis using assms(1) stop_timer_ok start_timer_ok by (simp add: ResetWatchDog_def)
qed

text \<open>Resetting the watch dog leaves the other timers alone.\<close>

lemma ResetWatchDog_frame [simp]:
  "saveDataNotifyTimerId (snd (ResetWatchDog answer m)) = saveDataNotifyTimerId m"
    "saveDataNotifyCount (snd (ResetWatchDog answer m)) = saveDataNotifyCount m"
    "saveDataNotifyRefCount (snd (ResetWatchDog answer m)) = saveDataNotifyRefCount m"
    "waitingResetLockBySaveData (snd (ResetWatchDog answer m)) = waitingResetLockBySaveData m"
    "watchDogController (snd (ResetWatchDog answer m)) = watchDogController m"
    "getDataNotifyTimerId (snd (ResetWatchDog answer m)) = getDataNotifyTimerId m"
    "getDataNotifyCount (snd (ResetWatchDog answer m)) = getDataNotifyCount m"
    "notify_sent (snd (ResetWatchDog answer m)) = notify_sent m"
  by (auto simp: ResetWatchDog_def Context_StartTimer_def Context_StopTimer_def timer_simps split: prod.split)

lemma StartWatchDog_ok: "timers_ok m \<Longrightarrow> answer_ok answer m \<Longrightarrow> timers_ok (snd (StartWatchDog answer m))"
  using start_timer_ok[of m answer] by (auto simp: StartWatchDog_def split: prod.splits)

lemma StopWatchDog_ok: "timers_ok m \<Longrightarrow> timers_ok (StopWatchDog m)"
  unfolding StopWatchDog_def by (rule stop_timer_ok) simp

lemma AbortImmediately_ok: "timers_ok m \<Longrightarrow> timers_ok (AbortImmediately m)"
  by (simp add: AbortImmediately_def Context_Clear_def StopWatchDog_ok stop_timer_ok)

lemma PrepareNextSyncTask_ok:
  assumes "timers_ok m" "answer_ok answer m" "answer_ok answer2 m"
  shows "timers_ok (snd (PrepareNextSyncTask answer answer2 m))"
proof -
  obtain e m1 where s: "StartWatchDog answer m = (e, m1)" by (cases "StartWatchDog answer m")
  have m1: "timers_ok m1" using StartWatchDog_ok[OF assms(1,2)] s by simp
  have "m1 = m" if "e = E_UNEXPECTED_DATA" using s that by (auto simp: StartWatchDog_def Context_StartTimer_def split: prod.splits if_splits)
  then have "timers_ok (snd (ResetWatchDog answer2 m1))" if "e = E_UNEXPECTED_DATA" using that ResetWatchDog_ok[OF assms(1,3)] by simp
  then show ?thesis using m1 s by (simp add: PrepareNextSyncTask_def Let_def)
qed

lemma StartSaveDataNotify_ok:
  assumes "timers_ok m" "answer_ok answer m" "saveDataNotifyRefCount m + 1 \<noteq> 0"
  shows "timers_ok (snd (StartSaveDataNotify answer a b c m))"
  using assms by (cases answer) (auto simp: timers_ok_def answer_ok_def StartSaveDataNotify_def timer_simps Let_def word_neq_0_conv[symmetric]
      split: if_splits)

lemma StopSaveDataNotify_ok: "timers_ok m \<Longrightarrow> timers_ok (StopSaveDataNotify m)"
  by (auto simp: timers_ok_def StopSaveDataNotify_def timer_simps Let_def word_neq_0_conv[symmetric] split: if_splits)

lemma notify_count_step: "c \<le> MAX_DATA_NOTIFY_COUNT \<Longrightarrow> \<not> MAX_DATA_NOTIFY_COUNT \<le> c \<Longrightarrow> c + 1 \<le> MAX_DATA_NOTIFY_COUNT" for c :: u8
  unfolding MAX_DATA_NOTIFY_COUNT_def by (metis inc_le le_less_linear)

lemma save_notify_send_ok: "timers_ok m \<Longrightarrow> timers_ok (snd (save_notify_send a b c m))"
  using StopSaveDataNotify_ok[of m] notify_count_step[of "saveDataNotifyCount m"]
  by (auto simp: save_notify_send_def Let_def timers_ok_def)

lemma DoSaveDataNotify_ok:
  assumes "timers_ok m" "answer_ok answer m" shows "timers_ok (DoSaveDataNotify answer a b c m)"
proof -
  obtain go m1 where s: "save_notify_send a b c m = (go, m1)" by (cases "save_notify_send a b c m")
  have "timers_ok m1" using save_notify_send_ok[OF assms(1), of a b c] s by simp
  moreover have "answer_ok answer m1" if go using s that assms(2) by (auto simp: save_notify_send_def answer_ok_def Let_def split: if_splits)
  ultimately show ?thesis using s ResetWatchDog_ok[of "m1\<lparr>waitingResetLockBySaveData := False\<rparr>" answer]
    by (auto simp: DoSaveDataNotify_def save_notify_reset_def answer_ok_def)
qed

lemma StartFeedDogForSync_ok:
  assumes "timers_ok m" "answer_ok answer m" shows "timers_ok (snd (StartFeedDogForSync answer time flag m))"
  using assms by (cases answer; cases flag) (auto simp: timers_ok_def answer_ok_def StartFeedDogForSync_def set_dog_def timer_simps Let_def word_neq_0_conv[symmetric]
      split: if_splits)

lemma StopFeedDogForSync_ok: "timers_ok m \<Longrightarrow> timers_ok (StopFeedDogForSync flag m)"
  by (cases flag) (auto simp: timers_ok_def StopFeedDogForSync_def set_dog_def timer_simps split: if_splits)

lemma set_dog_ok:
  assumes "timers_ok m" "feedDogTimerId (f (watchDogController m flag)) = feedDogTimerId (watchDogController m flag)"
  shows "timers_ok (set_dog flag f m)"
  using assms by (cases flag) (auto simp: timers_ok_def set_dog_def)

lemma DecRefCountOfFeedDogTimer_ok: "timers_ok m \<Longrightarrow> timers_ok (DecRefCountOfFeedDogTimer flag m)"
  using StopFeedDogForSync_ok set_dog_ok by (simp add: DecRefCountOfFeedDogTimer_def Let_def)

lemma DoFeedDogForSync_ok:
  assumes "timers_ok m" "answer_ok answer m" shows "timers_ok (DoFeedDogForSync answer flag m)"
  using StopFeedDogForSync_ok set_dog_ok ResetWatchDog_ok[OF assms] by (simp add: DoFeedDogForSync_def Let_def)

lemma StartFeedDogForGetData_ok:
  assumes "timers_ok m" "answer_ok answer m" shows "timers_ok (StartFeedDogForGetData answer a m)"
  using assms by (cases answer) (auto simp: timers_ok_def answer_ok_def StartFeedDogForGetData_def timer_simps Let_def word_neq_0_conv[symmetric]
      split: if_splits)

lemma StopFeedDogForGetDataInner_ok: "timers_ok m \<Longrightarrow> timers_ok (StopFeedDogForGetDataInner i m)"
  by (auto simp: timers_ok_def StopFeedDogForGetDataInner_def timer_simps split: if_splits)

lemma get_data_task_ok:
  assumes "timers_ok m" "answer_ok answer m" shows "timers_ok (get_data_task answer i a m)"
proof -
  let ?m = "snd (ResetWatchDog answer m)"
  have r: "timers_ok ?m" by (rule ResetWatchDog_ok[OF assms])
  have n: "timers_ok (m'\<lparr>getDataNotifyCount := getDataNotifyCount m' + 1\<rparr>)"
    if "timers_ok m'" "\<not> MAX_DATA_NOTIFY_COUNT \<le> getDataNotifyCount m'" for m'
    using that notify_count_step[of "getDataNotifyCount m'"] by (auto simp: timers_ok_def)
  have "timers_ok (DoGetAndSendDataNotify answer a m)"
    using r n[of ?m] n[of "?m\<lparr>notify_sent := notify_sent ?m @ [(a, 0, DATA_SYNC_MESSAGE)]\<rparr>"] by (auto simp: DoGetAndSendDataNotify_def Let_def)
  then show ?thesis using StopFeedDogForGetDataInner_ok by (simp add: get_data_task_def Let_def)
qed

section \<open>All operations in any order\<close>

inductive machine_reach :: "sync_machine \<Rightarrow> bool" where
  init: "machine_reach new_SyncStateMachine"
| switch: "machine_reach m \<Longrightarrow> machine_reach (m\<lparr>currentState := st\<rparr>)"
| prepare: "machine_reach m \<Longrightarrow> answer_ok a m \<Longrightarrow> answer_ok a2 m \<Longrightarrow> machine_reach (snd (PrepareNextSyncTask a a2 m))"
| reset: "machine_reach m \<Longrightarrow> answer_ok a m \<Longrightarrow> machine_reach (snd (ResetWatchDog a m))"
| stop: "machine_reach m \<Longrightarrow> machine_reach (StopWatchDog m)"
| abort: "machine_reach m \<Longrightarrow> machine_reach (AbortImmediately m)"
| timeout: "machine_reach m \<Longrightarrow> machine_reach (snd (snd (TimeoutCallback killed need maxRetry i m)))"
| save_start: "machine_reach m \<Longrightarrow> answer_ok a m \<Longrightarrow> saveDataNotifyRefCount m + 1 \<noteq> 0 \<Longrightarrow>
    machine_reach (snd (StartSaveDataNotify a sid seqId msgId m))"
| save_stop: "machine_reach m \<Longrightarrow> machine_reach (StopSaveDataNotify m)"
| save_send: "machine_reach m \<Longrightarrow> machine_reach (snd (save_notify_send sid seqId msgId m))"
| save_reset: "machine_reach m \<Longrightarrow> answer_ok a m \<Longrightarrow> machine_reach (save_notify_reset a m)"
| feed_start: "machine_reach m \<Longrightarrow> answer_ok a m \<Longrightarrow> machine_reach (snd (StartFeedDogForSync a time flag m))"
| feed_stop: "machine_reach m \<Longrightarrow> machine_reach (StopFeedDogForSync flag m)"
| feed_ack: "machine_reach m \<Longrightarrow> machine_reach (DecRefCountOfFeedDogTimer flag m)"
| feed_tick: "machine_reach m \<Longrightarrow> answer_ok a m \<Longrightarrow> machine_reach (DoFeedDogForSync a flag m)"
| get_start: "machine_reach m \<Longrightarrow> answer_ok a m \<Longrightarrow> machine_reach (StartFeedDogForGetData a sid m)"
| get_stop: "machine_reach m \<Longrightarrow> machine_reach (StopFeedDogForGetData m)"
| get_tick: "machine_reach m \<Longrightarrow> answer_ok a m \<Longrightarrow> machine_reach (get_data_task a i sid m)"

lemma new_machine_ok: "timers_ok new_SyncStateMachine"
  by (simp add: timers_ok_def new_SyncStateMachine_def new_WatchDogController_def)

lemma machine_reach_ok: "machine_reach m \<Longrightarrow> timers_ok m"
proof (induction rule: machine_reach.induct)
  case (timeout m killed need maxRetry i)
  then show ?case by (simp add: TimeoutCallback_def)
next
  case (save_reset m a)
  then show ?case using ResetWatchDog_ok[of "m\<lparr>waitingResetLockBySaveData := False\<rparr>" a] by (simp add: save_notify_reset_def answer_ok_def)
next
  case (get_stop m)
  then show ?case by (simp add: StopFeedDogForGetData_def StopFeedDogForGetDataInner_ok)
qed (simp_all add: new_machine_ok PrepareNextSyncTask_ok ResetWatchDog_ok StopWatchDog_ok AbortImmediately_ok StartSaveDataNotify_ok
    StopSaveDataNotify_ok save_notify_send_ok StartFeedDogForSync_ok StopFeedDogForSync_ok DecRefCountOfFeedDogTimer_ok DoFeedDogForSync_ok
    StartFeedDogForGetData_ok get_data_task_ok)

section \<open>Keeping alive ends\<close>

lemma unat_next: "a < b \<Longrightarrow> unat (a + 1) = Suc (unat a)" for a b :: u8
proof -
  assume "a < b"
  then have "unat a < unat b" by (simp only: word_less_nat_alt)
  moreover have "unat b < 256" by (rule order_less_le_trans[OF unsigned_less]) simp
  ultimately have "Suc (unat a) < 256" by linarith
  then show ?thesis by (simp add: unat_word_ariths)
qed

lemma save_tick_sends:
  assumes "saveDataNotifyCount m < MAX_DATA_NOTIFY_COUNT"
  shows "saveDataNotifyTimerId (DoSaveDataNotify a x y z m) = saveDataNotifyTimerId m"
    "saveDataNotifyCount (DoSaveDataNotify a x y z m) = saveDataNotifyCount m + 1"
    "saveDataNotifyRefCount (DoSaveDataNotify a x y z m) = saveDataNotifyRefCount m"
    "notify_sent (DoSaveDataNotify a x y z m) = notify_sent m @ [(x, y, z)]"
  using assms by (auto simp: DoSaveDataNotify_def save_notify_send_def save_notify_reset_def Let_def not_le[symmetric])

lemma save_tick_stops:
  assumes "\<not> saveDataNotifyCount m < MAX_DATA_NOTIFY_COUNT"
  shows "DoSaveDataNotify a x y z m = StopSaveDataNotify m"
  using assms by (auto simp: DoSaveDataNotify_def save_notify_send_def not_le[symmetric])

lemma stop_many:
  fixes x y z :: u32
  assumes "saveDataNotifyTimerId m = i" "i \<noteq> 0" "\<not> saveDataNotifyCount m < MAX_DATA_NOTIFY_COUNT" "unat (saveDataNotifyRefCount m) = length as" "as \<noteq> []"
  defines "m' \<equiv> fold (\<lambda>a. DoSaveDataNotify a x y z) as m"
  shows "saveDataNotifyTimerId m' = 0 \<and> om_find (live_timers m') i = None \<and> notify_sent m' = notify_sent m"
  using assms(1-5) unfolding m'_def
proof (induction as arbitrary: m)
  case (Cons a as)
  let ?m = "StopSaveDataNotify m"
  have t: "DoSaveDataNotify a x y z m = ?m" by (rule save_tick_stops[OF Cons.prems(3)])
  have r: "unat (saveDataNotifyRefCount m - 1) = length as" 
    using Cons.prems(4) unat_minus_one[of "saveDataNotifyRefCount m"] by (metis diff_Suc_1 length_Cons nat.distinct(1) unat_0)
  show ?case
  proof (cases "as = []")
    case True
    then have "saveDataNotifyRefCount m - 1 = 0" using r by (simp add: unat_eq_0)
    then show ?thesis using Cons.prems(1,2) True t by (simp add: StopSaveDataNotify_def RemoveTimer_def om_find_erase Let_def)
  next
    case False
    then have "0 < saveDataNotifyRefCount m - 1" using r by (metis length_greater_0_conv unat_gt_0 word_neq_0_conv)
    then have m: "?m = m\<lparr>saveDataNotifyRefCount := saveDataNotifyRefCount m - 1\<rparr>" using Cons.prems(1,2) by (simp add: StopSaveDataNotify_def)
    show ?thesis using Cons.IH[of ?m] Cons.prems False r t by (simp add: m)
  qed
qed simp

lemma save_notify_ends:
  fixes x y z :: u32
  assumes "saveDataNotifyTimerId m = i" "i \<noteq> 0" "saveDataNotifyCount m \<le> MAX_DATA_NOTIFY_COUNT" "saveDataNotifyRefCount m \<noteq> 0"
    and "length as = (15 - unat (saveDataNotifyCount m)) + unat (saveDataNotifyRefCount m)"
  defines "m' \<equiv> fold (\<lambda>a. DoSaveDataNotify a x y z) as m"
  shows "saveDataNotifyTimerId m' = 0 \<and> om_find (live_timers m') i = None \<and>
    notify_sent m' = notify_sent m @ replicate (15 - unat (saveDataNotifyCount m)) (x, y, z)"
  using assms(1-5) unfolding m'_def
proof (induction "15 - unat (saveDataNotifyCount m)" arbitrary: m as)
  case 0
  have max: "unat MAX_DATA_NOTIFY_COUNT = 15" by (simp add: MAX_DATA_NOTIFY_COUNT_def)
  have "\<not> saveDataNotifyCount m < MAX_DATA_NOTIFY_COUNT" using "0.hyps" by (simp add: word_less_nat_alt max)
  moreover have "as \<noteq> []" using "0.prems"(4,5) by (auto simp: unat_eq_0)
  ultimately show ?case using stop_many[of m i as x y z] "0.prems" "0.hyps" by simp
next
  case (Suc n)
  have max: "unat MAX_DATA_NOTIFY_COUNT = 15" by (simp add: MAX_DATA_NOTIFY_COUNT_def)
  have lt: "saveDataNotifyCount m < MAX_DATA_NOTIFY_COUNT" using Suc.hyps(2) by (simp add: word_less_nat_alt max)
  obtain a as' where as: "as = a # as'" using Suc.prems(5) Suc.hyps(2) by (cases as) auto
  let ?m = "DoSaveDataNotify a x y z m"
  note s = save_tick_sends[OF lt, of a x y z]
  have c: "unat (saveDataNotifyCount ?m) = Suc (unat (saveDataNotifyCount m))"
    unfolding s(2) by (rule unat_next[OF lt])
  have n: "n = 15 - unat (saveDataNotifyCount ?m)" using c Suc.hyps(2) by simp
  have le: "saveDataNotifyCount ?m \<le> MAX_DATA_NOTIFY_COUNT" using lt c Suc.hyps(2) by (simp add: word_le_nat_alt max)
  have "saveDataNotifyTimerId (fold (\<lambda>a. DoSaveDataNotify a x y z) as' ?m) = 0 \<and> om_find (live_timers (fold (\<lambda>a. DoSaveDataNotify a x y z) as' ?m)) i = None \<and>
      notify_sent (fold (\<lambda>a. DoSaveDataNotify a x y z) as' ?m) = notify_sent ?m @ replicate n (x, y, z)"
    using Suc.hyps(1)[OF n _ Suc.prems(2) le, of as'] Suc.prems s as n c Suc.hyps(2) by simp
  then show ?case using as s(4) Suc.hyps(2)[symmetric] by simp
qed

lemma feed_dog_ends:
  fixes flag :: SyncDirectionFlag
  assumes "feedDogTimerId (watchDogController m flag) = i" "i \<noteq> 0"
    and "length as = Suc (unat (feedDogUpperLimit (watchDogController m flag)) - unat (feedDogCnt (watchDogController m flag)))"
  defines "m' \<equiv> fold (\<lambda>a. DoFeedDogForSync a flag) as m"
  shows "feedDogTimerId (watchDogController m' flag) = 0 \<and> om_find (live_timers m') i = None"
  using assms(1-3) unfolding m'_def
proof (induction as arbitrary: m)
  case (Cons a as)
  let ?d = "watchDogController m flag"
  show ?case
  proof (cases "feedDogCnt ?d \<ge> feedDogUpperLimit ?d")
    case True
    then have "as = []" using Cons.prems(3) by (simp add: word_le_nat_alt)
    then show ?thesis using True Cons.prems(1,2) by (simp add: DoFeedDogForSync_def Let_def StopFeedDogForSync_def set_dog_def RemoveTimer_def om_find_erase)
  next
    case False
    let ?m = "DoFeedDogForSync a flag m"
    have m: "feedDogTimerId (watchDogController ?m flag) = i" "feedDogUpperLimit (watchDogController ?m flag) = feedDogUpperLimit ?d"
      "feedDogCnt (watchDogController ?m flag) = feedDogCnt ?d + 1"
      using False Cons.prems(1) by (simp_all add: DoFeedDogForSync_def Let_def set_dog_def)
    have lt: "feedDogCnt ?d < feedDogUpperLimit ?d" using False by simp
    then have c: "unat (feedDogCnt (watchDogController ?m flag)) = Suc (unat (feedDogCnt ?d))"
      unfolding m(3) by (rule unat_next)
    have "length as = Suc (unat (feedDogUpperLimit ?d) - Suc (unat (feedDogCnt ?d)))"
      using Cons.prems(3) lt by (simp add: word_less_nat_alt)
    then show ?thesis using Cons.IH[of ?m] m c Cons.prems(2) by simp
  qed
qed simp

section \<open>Theorems\<close>

text \<open>
  C36: Whatever rows a table has, the nested maps built from them switch the machine as a search for the last row with the
  current state and the event does: the machine moves to the output state of that row, stays where it is when the state has no row for the
  event, and goes to the error state only when the state has no row at all.
\<close>

theorem switch_follows_last_row:
  assumes "\<forall>row \<in> set rows. 2 < length row" "ver \<le> currentSyncProctolVersion m"
  shows "SwitchMachineState (InitStateSwitchTable ver rows []) event m =
    (if currentState m \<notin> (\<lambda>row. row ! 0) ` set rows then (E_OK, SetCurStateErrStatus m)
     else case map_of (rev (map row_entry rows)) (currentState m, event) of
            None \<Rightarrow> (E_NOT_FOUND, m)
          | Some st \<Rightarrow> (E_OK, m\<lparr>currentState := st\<rparr>))"
  by (rule SwitchMachineState_rows[OF assms])

theorem switch_follows_last_row_witness:
  "SwitchMachineState (InitStateSwitchTable 103 [[0, 1, 1], [0, 1, 2]] []) 1 new_SyncStateMachine = (E_OK, new_SyncStateMachine\<lparr>currentState := 2\<rparr>)"
  by (subst switch_follows_last_row)
    (simp_all add: new_SyncStateMachine_def SINGLE_VER_SYNC_PROCTOL_V3_def row_entry_def)




definition sample_machine :: sync_machine where
  "sample_machine = snd (StartFeedDogForSync (E_OK, 2) 4000 SEND (snd (StartSaveDataNotify (E_OK, 1) 7 1 2 new_SyncStateMachine)))"

lemma sample_machine_reach: "machine_reach sample_machine"
  unfolding sample_machine_def
proof (rule machine_reach.feed_start, rule machine_reach.save_start, rule machine_reach.init)
  show "answer_ok (E_OK, 1) new_SyncStateMachine" "saveDataNotifyRefCount new_SyncStateMachine + 1 \<noteq> 0"
    by (simp_all add: answer_ok_def new_SyncStateMachine_def)
  show "answer_ok (E_OK, 2) (snd (StartSaveDataNotify (E_OK, 1) 7 1 2 new_SyncStateMachine))"
    by (simp add: answer_ok_def StartSaveDataNotify_def add_timer_def om_find_Cons new_SyncStateMachine_def)
qed




section \<open>Corner cases\<close>

text \<open>In every state of a running task a time out or an error leads to the states that end the task, and from there to the next task or to rest.\<close>

lemma running_states_abort:
  "s \<notin> {IDLE, SYNC_TASK_FINISHED, SYNC_TIME_OUT, INNER_ERR} \<Longrightarrow>
     next_state s TIME_OUT_EVENT = Some SYNC_TIME_OUT \<and> next_state s INNER_ERR_EVENT = Some INNER_ERR"
  "s \<in> {SYNC_TIME_OUT, INNER_ERR} \<Longrightarrow> next_state s ANY_EVENT = Some SYNC_TASK_FINISHED"
  "next_state SYNC_TASK_FINISHED ALL_TASK_FINISHED_EVENT = Some IDLE" "next_state SYNC_TASK_FINISHED START_SYNC_EVENT = Some TIME_SYNC"
  by (cases s; simp add: next_state_def switch_rows_def)+

text \<open>Retries are bounded: a task that has been retried as often as its mode allows steps to the time out state.\<close>

lemma retries_bounded:
  "cx_timerId m = i \<Longrightarrow> TimeoutCallback False need maxRetry i m = (E_OK, SyncStep, m') \<Longrightarrow> cx_retryTime m < maxRetry \<and> cx_retryTime m' = cx_retryTime m + 1"
  by (auto simp: TimeoutCallback_def split: if_splits)

text \<open>No error code raises the event for a version that is not supported.\<close>

lemma version_event_never_raised: "TransformErrCodeToEvent retry errCode \<noteq> VERSION_NOT_SUPPOR_EVENT"
  by (simp add: TransformErrCodeToEvent_def split: errcode.split)

text \<open>
  Starting to feed for reading while the timer already runs replaces its identifier but not the timer: the old one is then neither
  stopped by its own task after the last notification nor by the regular stop, and goes on resetting the watch dog.
\<close>

lemma second_start_leaves_timer:
  assumes "getDataNotifyTimerId m = i" "om_find (live_timers m) i = Some u" "j \<noteq> i"
  shows "getDataNotifyTimerId (StartFeedDogForGetData (E_OK, j) sid m) = j" "om_find (live_timers (StartFeedDogForGetData (E_OK, j) sid m)) i = Some u"
  using assms by (simp_all add: StartFeedDogForGetData_def add_timer_def om_find_insert Let_def)

lemma stale_timer_stays:
  assumes "getDataNotifyTimerId m \<noteq> i" "cx_timerId m \<noteq> i" "snd a \<noteq> i"
  shows "om_find (live_timers (get_data_task a i sid m)) i = om_find (live_timers m) i"
    "getDataNotifyTimerId (get_data_task a i sid m) \<noteq> i" "om_find (live_timers (StopFeedDogForGetData m)) i = om_find (live_timers m) i"
proof -
  have "om_find (live_timers (snd (ResetWatchDog a m))) i = om_find (live_timers m) i"
    using assms by (cases a) (auto simp: ResetWatchDog_def Context_StartTimer_def Context_StopTimer_def add_timer_def RemoveTimer_def om_find_insert om_find_erase)
  then show "om_find (live_timers (get_data_task a i sid m)) i = om_find (live_timers m) i" "getDataNotifyTimerId (get_data_task a i sid m) \<noteq> i"
    using assms(1) by (auto simp: get_data_task_def DoGetAndSendDataNotify_def StopFeedDogForGetDataInner_def Let_def)
  show "om_find (live_timers (StopFeedDogForGetData m)) i = om_find (live_timers m) i"
    using assms(1) by (auto simp: StopFeedDogForGetData_def StopFeedDogForGetDataInner_def RemoveTimer_def om_find_erase)
qed

text \<open>A start that the timer service refuses still counts as a user of the feeding timer, and the reference taken for it is not given back.\<close>

lemma refused_start_counts:
  assumes "feedDogTimerId (watchDogController m flag) = 0" "fst a \<noteq> E_OK"
  shows "refCount (watchDogController (snd (StartFeedDogForSync a time flag m)) flag) = refCount (watchDogController m flag) + 1"
    "cx_refs (snd (StartFeedDogForSync a time flag m)) = cx_refs m + 1" "live_timers (snd (StartFeedDogForSync a time flag m)) = live_timers m"
  using assms by (cases a; simp add: StartFeedDogForSync_def set_dog_def Let_def)+

end
