(* ===== verification/Spec2Isabelle.thy ===== *)
theory Spec2Isabelle
  imports Aggregator_Invariant Time_Sync Data_Message_Schedule Subscribe_Manager Sync_State_Machine
begin

text \<open>
  Verification of the communicator of the distributed key-value store
  (\<^verbatim>\<open>src/frameworks/libs/distributeddb/communicator\<close>), and of the parts of its device syncer
  (\<^verbatim>\<open>syncer/src\<close> beside it) that keep clocks, water marks, subscriptions and the order of data messages.

  \<^bold>\<open>The program.\<close>  The database synchronises its stores between devices.  Every open store has a
  communicator, identified by a label.  A message handed to a communicator becomes a frame, is sealed, queued, cut into
  packets and given to the network adapter; on the other device the packets are checked, put together
  and routed by label and user to the communicator of the same store.  The linker tells every connected
  device which labels are open here, so that each communicator knows on which devices its
  store can be reached.  On top of the communicators, the syncer of a store keeps what it knows of every device, estimates the
  difference of the clocks so that timestamps of different devices can be compared, puts the data messages of a device in
  order, and remembers which device has subscribed to which query.

  \<^bold>\<open>The theories and the code.\<close>  File names are relative to the directories above or to their sibling \<^verbatim>\<open>common\<close>.
  \<^item> \<^verbatim>\<open>DB_Prelude\<close>: machine integers, error codes (\<^verbatim>\<open>db_errno.h\<close>), the result type \<open>res\<close>, checked access
    to buffers, byte order (\<^verbatim>\<open>endian_convert.h\<close>).  \<^verbatim>\<open>Ordered_Map\<close>: \<^verbatim>\<open>std::map\<close> as its sorted entries.
  \<^item> \<^verbatim>\<open>Wire_Headers\<close>: \<^verbatim>\<open>frame_header.h\<close>, \<^verbatim>\<open>header_converter.cpp\<close>.  The locale \<open>header_codec\<close> is the contract of a
    header that crosses hosts of either byte order, interpreted for the four headers.
  \<^item> \<^verbatim>\<open>Serial_Buffer\<close>: \<^verbatim>\<open>serial_buffer.cpp\<close>.  \<^verbatim>\<open>Message_Model\<close>: \<^verbatim>\<open>message.h\<close>, \<^verbatim>\<open>parse_result.h\<close>,
    \<^verbatim>\<open>message_transform.h\<close>.
  \<^item> \<^verbatim>\<open>Protocol_Proto\<close> has the operations of \<^verbatim>\<open>protocol_proto.cpp\<close>.  \<^verbatim>\<open>Protocol_Parse\<close> shows that parsing
    arbitrary bytes stays inside them, that damage is detected and that label exchanges survive the round
    trip; \<^verbatim>\<open>Protocol_Fragment\<close> that the packets of a split frame are its parts, their sizes, and that the
    receiver recovers the split; \<^verbatim>\<open>Protocol_Message\<close> that a message is read back as it was built.
  \<^item> \<^verbatim>\<open>Frame_Combiner\<close>: \<^verbatim>\<open>frame_combiner.cpp\<close> and \<^verbatim>\<open>combine_status.cpp\<close>.  Packets in any order, with
    duplicates and strangers in between, give the frame once; works are bounded and stalled ones are aborted.
  \<^item> \<^verbatim>\<open>Frame_Retainer\<close>: \<^verbatim>\<open>frame_retainer.cpp\<close>.  The nested maps refine one log of frames; exact statistics,
    capacity, expiry.
  \<^item> \<^verbatim>\<open>Send_Task_Scheduler\<close>: \<^verbatim>\<open>send_task_scheduler.cpp\<close>.  The maps and counters refine one queue per target and
    priority; which task is handed out; draining.
  \<^item> \<^verbatim>\<open>DB_Status_Adapter\<close>: \<^verbatim>\<open>db_status_adapter.cpp\<close>.  \<^verbatim>\<open>Communicator_Linker\<close>:
    \<^verbatim>\<open>communicator_linker.cpp\<close>, over any implementation of \<^verbatim>\<open>ScheduleSendTask\<close> that satisfies the locale
    \<open>label_transport\<close>; \<^verbatim>\<open>Aggregator_Send\<close> interprets it with the aggregator's own.
  \<^item> \<^verbatim>\<open>Aggregator_Send\<close>: the sending half of \<^verbatim>\<open>communicator_aggregator.cpp\<close>: queueing, the send loop of the thread pool
    and of the exclusive thread, retries, timers and sequence numbers.  \<^verbatim>\<open>no_frame_left_behind\<close> covers every
    interleaving of these.
  \<^item> \<^verbatim>\<open>Communicator\<close>: \<^verbatim>\<open>communicator.cpp\<close>.  \<^verbatim>\<open>Aggregator_Receive\<close>: the receiving half of the aggregator, from
    \<^verbatim>\<open>OnBytesReceive\<close> and \<^verbatim>\<open>OnTargetChange\<close> to the communicators.  \<^verbatim>\<open>Aggregator_Invariant\<close>: the step relation
    \<open>agg_step\<close> of the whole aggregator, its invariant \<open>agg_ok\<close>, and what becomes of received frames.
  \<^item> \<^verbatim>\<open>Parcel\<close>: \<^verbatim>\<open>parcel.cpp\<close>, \<^verbatim>\<open>parcel.h\<close>.  Fields written are read back on either byte order, and no operation leaves
    the buffer, whatever bytes it holds.
  \<^item> \<^verbatim>\<open>Meta_Data\<close>: \<^verbatim>\<open>meta_data.cpp\<close> over a store of keys and values.  Cached and serialised records refine one map from devices
    and users to records.
  \<^item> \<^verbatim>\<open>Time_Helper\<close>: \<^verbatim>\<open>time_helper.cpp\<close>.  Timestamps never go back and stay above those in the store.
  \<^item> \<^verbatim>\<open>Time_Sync_Packet\<close> and \<^verbatim>\<open>Time_Sync\<close>: \<^verbatim>\<open>time_sync.cpp\<close> and the time information per device of
    \<^verbatim>\<open>runtime_context_impl.cpp\<close>.  The error of the estimated offset is at most half the difference of the travelling
    times; the two devices store opposite offsets.
  \<^item> \<^verbatim>\<open>Data_Message_Schedule\<close>: \<^verbatim>\<open>single_ver_data_message_schedule.cpp\<close> and \<^verbatim>\<open>ScheduleMsgAndHandle\<close> of
    \<^verbatim>\<open>single_ver_sync_state_machine.cpp\<close>.  Messages of a session are handled once, in order; none is lost or deleted twice.
  \<^item> \<^verbatim>\<open>Subscribe_Manager\<close>: \<^verbatim>\<open>subscribe_manager.cpp\<close>.  The tables and counters refine two maps from devices to the
    status of their queries.
  \<^item> \<^verbatim>\<open>Sync_State_Machine\<close>: \<^verbatim>\<open>sync_state_machine.cpp\<close> and the table and step loop of
    \<^verbatim>\<open>single_ver_sync_state_machine.cpp\<close>.  Switching through the nested maps is a search in the rows and stays within the
    states; the timers that keep a sync alive are accounted for in every interleaving and end by themselves.
  \<^item> This theory: the two devices together.  A message given to a communicator arrives at the handler of its
    peer, and labels announced by one device are the labels the other one knows.

  \<^bold>\<open>Conventions.\<close>  A C++ class is a record with its fields, an operation a function on that record.  A section under a
  mutex is one step; callbacks, tasks and timers that run outside of it are values that later steps run,
  so that interleavings are sequences of steps.  Reading or writing outside a buffer, or through a missing entry, is the
  outcome \<open>Fault\<close>; an error code that leads to no other effect is \<open>Err\<close>.  Unsigned integers keep
  their width and wrap around.  Allocation may fail: \<open>allocator\<close> says which \<^verbatim>\<open>new\<close> succeeds, and \<open>never_oom\<close> is assumed only
  where a theorem says that a result is produced.

  \<^bold>\<open>Parameters.\<close>  The byte order, the allocator, the adapter's answers, the thread pool, the timer service, the local
  identity, the transform functions of the syncer, the handle of the service and the handlers of the
  upper layer are fields of the environment records \<open>send_env\<close>, \<open>comm_env\<close>, \<open>link_env\<close> and \<open>recv_env\<close>.  \<open>re_meanwhile\<close> is
  what other threads do between the two attempts to deliver a frame.  In the syncer the storage of metadata (\<open>meta_env\<close>), the clocks
  (\<open>os_clock\<close>), the communicator and timers of the time synchronisation (\<open>ts_env\<close>), the handler of data messages
  (\<open>schedule_env\<close>), the identifier of a query, the work done in a state of the sync state machine and the answers of the timer service
  are parameters.

  \<^bold>\<open>Bounds.\<close>  64-bit counters (sequence ids, progress ids, retain order) are assumed not to have wrapped where a
  theorem needs it; the premises say so.  Clock readings and offsets in the theorems on time synchronisation are bounded so that
  the signed sums of the code do not overflow, and a session has fewer than \<open>2 ^ 32\<close> messages, the width of a sequence number.  The functions for the loops that the code bounds itself are total; the
  step loop of the sync state machine need not end and is a partial function; the
  retry loops of \<^verbatim>\<open>ScheduleSendTask\<close> and the drains of \<^verbatim>\<open>Finalize\<close> recurse on the number of wake-ups
  or of queued tasks.

  \<^bold>\<open>Not modelled.\<close>  \<^verbatim>\<open>Finalize\<close> of the aggregator and the registration of its callbacks with the adapter, the getters that
  only forward to the adapter, and logging.  \<^verbatim>\<open>ClearOnlineLabel\<close> of the aggregator is a definition but not a step of
  \<open>agg_step\<close>: it makes the linker forget the labels of a device without telling the communicators, so after it
  the view of a communicator and that of the linker differ until the next exchange.  Of the metadata, the water marks of
  queries and deletions, which go through \<^verbatim>\<open>QuerySyncWaterMarkHelper\<close>.  The rest of the device syncer (engine, task contexts, the
  handlers of the state machine, ability and data exchange) and the cloud syncer are driven by the storage and by the cloud database, whose behaviour is that of
  SQL statements; they, the storage on SQLite and on gaussdb_rd, schemas and queries, the language bindings and the platform mocks
  are outside this development.
\<close>

section \<open>A message from one device to another\<close>

lemma entire_content:
  assumes "sb_owned b" "extendHeadLen b = 0"
  shows "entire_packet b = Ok (content b)"
proof -
  obtain m where m: "oringinalBytes b = Some m" "length m = unat (totalLen b)" "bytesOff b = Some 0" "\<not> isExternalStackMemory b"
    using assms by (auto simp: sb_owned_def)
  have "content b = m" using content_owned[OF assms(1) m(1)] m(2) assms(2) by simp
  then show ?thesis using m assms(2) by (simp add: entire_packet_def read_at_def)
qed

text \<open>Sending a message whose frame could be built seals that frame and offers it to the scheduler.\<close>

lemma SendMessage_queues:
  fixes env :: "'o comm_env"
  defines "e \<equiv> ce_send env"
  assumes b: "ToSerialBuffer (se_mem e) (se_be e) (ce_tfs env) (Some m) None False = Ok b" "app_buf b"
    and l: "length (commLabel cm) = COMM_LABEL_LENGTH" and d: "dst \<noteq> []"
    and n: "sd_nonBlock config" "\<not> sd_isNeedExtendHead config" "HashFunc (se_identity e) \<noteq> 0"
  shows "\<exists>b1 b2 fid x task sa' c'. SetDivergeHeader (se_be e) b (commLabel cm) = Ok b1 \<and>
    SetPhyHeader (se_be e) (Some b1) \<lparr>hi_sourceId = HashFunc (se_identity e), hi_frameId = fid, hi_frameType = APPLICATION_MESSAGE,
      hi_sendLabelExchange = x\<rparr> = Ok b2 \<and>
    st_buffer task = b2 \<and> st_dstTarget task = dst \<and>
    SendMessage env dst (Some m) config onEnd cm (sa, c) = Ok (fst (AddSendTaskIntoSchedule task (msg_prio m) (sc_scheduler c)), sa', c') \<and>
    sc_scheduler c' = snd (AddSendTaskIntoSchedule task (msg_prio m) (sc_scheduler c))"
proof -
  define sl where "sl = (case sa of None \<Rightarrow> (True, None)
      | Some s \<Rightarrow> let (q, s') = Adapter_IsSendLabelExchange (se_hs e) s in (q, Some s'))"
  let ?i = "\<lparr>hi_sourceId = HashFunc (se_identity e), hi_frameId = sc_incFrameId c, hi_frameType = APPLICATION_MESSAGE,
      hi_sendLabelExchange = fst sl\<rparr>"
  obtain b1 b2 where b1: "SetDivergeHeader (se_be e) b (commLabel cm) = Ok b1" "SetPhyHeader (se_be e) (Some b1) ?i = Ok b2"
    using app_frame_received[OF b(2) l] by blast
  let ?inf = "sd_paramInfo config"
  define task where "task = \<lparr>st_buffer = b2, st_dstTarget = dst, st_onEnd = onEnd, st_frameId = sc_incFrameId c, st_isValid = True,
      st_isRetryTask = sd_isRetryTask config, st_infos = \<lparr>ai_appId = ei_appId ?inf, ai_storeId = ei_storeId ?inf,
        ai_userId = ei_userId ?inf, ai_subUserId = ei_subUserId ?inf\<rparr>\<rparr>"
  have "\<exists>sa' c'. SendMessage env dst (Some m) config onEnd cm (sa, c) = Ok (fst (AddSendTaskIntoSchedule task (msg_prio m) (sc_scheduler c)), sa', c') \<and>
      sc_scheduler c' = snd (AddSendTaskIntoSchedule task (msg_prio m) (sc_scheduler c))"
    using b(1) b1 d n
    by (cases "AddSendTaskIntoSchedule task (msg_prio m) (sc_scheduler c)")
       (auto simp: SendMessage_def Let_def ScheduleSendTask_def case_prod_unfold e_def[symmetric] sl_def[symmetric] task_def)
  moreover have "st_buffer task = b2" "st_dstTarget task = dst" by (simp_all add: task_def)
  ultimately show ?thesis using b1 by blast
qed

text \<open>An application frame for an activated communicator without user is handed to it.\<close>

lemma frame_to_communicator:
  assumes p: "CheckAndParsePacket (se_be (ce_send env)) (Some bytes) len new_ParseResult = Ok r"
      "pr_frameType r = APPLICATION_MESSAGE" "\<not> pr_isFragment r"
    and x: "SetExternalBuff (Some bytes) (len - ucast (pr_paddingLen r)) GetAppLayerFrameHeaderLength new_SerialBuffer = (E_OK, rb)"
    and mem: "se_mem (ce_send env) NewSerialBuffer"
    and c: "comm_at [] (pr_commLabel r) ag = Some (cm, True)" "onMessageHandle cm = Some k" and src: "src \<noteq> []"
    and m: "ToMessage (se_mem (ce_send env)) (se_be (ce_send env)) (ce_tfs env) (Some rb) False = Ok (E_OK, Some m1)"
    and m2: "m2 = m1\<lparr>remoteSoftwareVersion := TransfDbVersionToSoftwareVersion (pr_dbVersion r)\<rparr>"
    and cl: "\<not> (IsSupportFeedDbClosing m2 \<and> dbClosePending cm)"
    and an: "ce_onMessage env k src (m2\<lparr>senderUserId := DEFAULT_USER\<rparr>) = answer" "answer \<noteq> E_FEEDBACK_DB_CLOSING"
  shows "\<exists>ag'. OnBytesReceive env \<lparr>rb_bytes = bytes, rb_srcTarget = src, rb_length = len, rb_isNeedGetUserInfo = False\<rparr> ag = Ok ag' \<and>
    ag_log ag' = ag_log ag @ [MessageCall k src (m2\<lparr>senderUserId := DEFAULT_USER\<rparr>) answer, FreeFrame]"
proof -
  define ag1 where "ag1 = SetRemoteCommunicatorVersion src (pr_dbVersion r) ag"
  define ag2 where "ag2 = (case ag_adapter ag1 of None \<Rightarrow> ag1
     | Some s \<Rightarrow> let (tasks, s') = SetRemoteOptimizeCommunication (se_pool (ce_send env)) src (\<not> pr_sendLabelExchange r) s
                 in ag1\<lparr>ag_adapter := Some s', ag_adapterTasks := ag_adapterTasks ag1 @ tasks\<rparr>)"
  have f: "commMap ag2 = commMap ag" "ag_log ag2 = ag_log ag"
    by (simp_all add: ag2_def ag1_def SetRemoteCommunicatorVersion_def case_prod_unfold Let_def split: option.split)
  let ?info = "\<lparr>rb_bytes = bytes, rb_srcTarget = src, rb_length = len, rb_isNeedGetUserInfo = False\<rparr>"
  have o: "OnBytesReceive env ?info ag = res_bind (OnAppLayerFrameReceive_bytes env ?info r ag2) (\<lambda>(_, ag3). Ok ag3)"
    using p(2,3) unfolding OnBytesReceive_def ReceiveBytesInfo.select_convs p(1) res.case Let_def ag2_def ag1_def by simp
  let ?t = "touch_user [] ag2"
  have ca: "om_find (comms_of [] ?t) (pr_commLabel r) = Some (cm, True)"
    using c(1) f(1) by (simp add: comm_at_def) (simp add: comms_of_def)
  have ob: "OnBufferReceive (cenv env) src (Some rb) DEFAULT_USER (pr_dbVersion r) cm (ag_net ?t) =
      Ok (E_OK, [MessageCall k src (m2\<lparr>senderUserId := DEFAULT_USER\<rparr>) answer, FreeFrame],
          snd (if IsSupportFeedDbClosing m2 then ExchangeClosePending False cm else (False, cm)), ag_net ?t)"
    using m c(2) src cl an unfolding m2
    by (auto simp: OnBufferReceive_def comm_env.truncate_def Let_def ExchangeClosePending_def)
  have del: "\<exists>ag3. deliver_to env [] (pr_commLabel r) src (Some rb) DEFAULT_USER (pr_dbVersion r) ?t = Ok (E_OK, ag3) \<and>
      ag_log ag3 = ag_log ag @ [MessageCall k src (m2\<lparr>senderUserId := DEFAULT_USER\<rparr>) answer, FreeFrame]"
    unfolding deliver_to_def ca option.case prod.case ob
    using f(2) by (simp add: emit_def set_net_def set_comm_def touch_user_def)
  have "TryDeliverAppLayerFrameToCommunicatorNoMutex env (pr_dbVersion r) src (Some rb) (pr_commLabel r)
      \<lparr>receiveUser = [], sendUser = DEFAULT_USER\<rparr> ag2 =
      deliver_to env [] (pr_commLabel r) src (Some rb) DEFAULT_USER (pr_dbVersion r) ?t"
    using ca by (simp add: TryDeliverAppLayerFrameToCommunicatorNoMutex_def Let_def)
  then show ?thesis using o del mem x
    by (auto simp: OnAppLayerFrameReceive_bytes_def OnAppLayerFrameReceive_def)
qed

text \<open>
  C1: End to end.  When a communicator of one device accepts a message for sending, the task it hands to the scheduler
  carries a frame whose bytes, once they reach another device where the communicator of the same label is
  activated, make that communicator call its message handler exactly once, with the header fields of the
  sent message and the payload its transform function reads from the bytes the sender's function
  wrote, and release the frame.
\<close>

theorem message_delivered:
  fixes envA envB
  defines "a \<equiv> ce_send envA" and "b \<equiv> ce_send envB"
  assumes msg: "wf_message m" "om_find (ce_tfs envA) (messageId m) = Some f" "serializeFunc f (computeFunc f m) m = Some data"
      "length data = unat (computeFunc f m)" "transform_fits (ce_tfs envA) m"
    and send: "ToSerialBuffer (se_mem a) (se_be a) (ce_tfs envA) (Some m) None False = Ok fr" "length (commLabel cmA) = COMM_LABEL_LENGTH"
      "dst \<noteq> []" "sd_nonBlock config" "\<not> sd_isNeedExtendHead config" "HashFunc (se_identity a) \<noteq> 0"
    and recv: "se_be b = se_be a" "se_mem b NewSerialBuffer" "se_mem b NewMessage" "src \<noteq> []"
      "comm_at [] (commLabel cmA) ag = Some (cmB, True)" "onMessageHandle cmB = Some k"
      "read_data (ce_tfs envB) data (header_of m) = (E_OK, Some m1)"
      "m2 = m1\<lparr>remoteSoftwareVersion := TransfDbVersionToSoftwareVersion DB_GLOBAL_VERSION\<rparr>"
      "\<not> (IsSupportFeedDbClosing m2 \<and> dbClosePending cmB)"
      "ce_onMessage envB k src (m2\<lparr>senderUserId := DEFAULT_USER\<rparr>) = answer" "answer \<noteq> E_FEEDBACK_DB_CLOSING"
  shows "\<exists>task sa' c' p ag'.
    SendMessage envA dst (Some m) config onEnd cmA (sa, c) = Ok (fst (AddSendTaskIntoSchedule task (msg_prio m) (sc_scheduler c)), sa', c') \<and>
    sc_scheduler c' = snd (AddSendTaskIntoSchedule task (msg_prio m) (sc_scheduler c)) \<and> st_dstTarget task = dst \<and>
    entire_packet (st_buffer task) = Ok p \<and>
    OnBytesReceive envB \<lparr>rb_bytes = p, rb_srcTarget = src, rb_length = of_nat (length p), rb_isNeedGetUserInfo = False\<rparr> ag = Ok ag' \<and>
    ag_log ag' = ag_log ag @ [MessageCall k src (m2\<lparr>senderUserId := DEFAULT_USER\<rparr>) answer, FreeFrame]"
proof -
  have h: "handle_fits None" by (simp add: handle_fits_def)
  note fr = ToSerialBuffer_content[OF send(1) msg(2-5) h]
  obtain b1 b2 fid x task sa' c' where q: "SetDivergeHeader (se_be a) fr (commLabel cmA) = Ok b1"
    "SetPhyHeader (se_be a) (Some b1) \<lparr>hi_sourceId = HashFunc (se_identity a), hi_frameId = fid, hi_frameType = APPLICATION_MESSAGE,
      hi_sendLabelExchange = x\<rparr> = Ok b2" "st_buffer task = b2" "st_dstTarget task = dst"
    "SendMessage envA dst (Some m) config onEnd cmA (sa, c) = Ok (fst (AddSendTaskIntoSchedule task (msg_prio m) (sc_scheduler c)), sa', c')"
    "sc_scheduler c' = snd (AddSendTaskIntoSchedule task (msg_prio m) (sc_scheduler c))"
    using SendMessage_queues[OF send(1)[unfolded a_def] fr(1) send(2-5) send(6)[unfolded a_def]] unfolding a_def[symmetric] by blast
  obtain r rb where r: "CheckAndParsePacket (se_be a) (Some (content b2)) (totalLen b2) new_ParseResult = Ok r"
    "pr_frameType r = APPLICATION_MESSAGE" "\<not> pr_isFragment r" "pr_commLabel r = commLabel cmA" "pr_dbVersion r = DB_GLOBAL_VERSION"
    "SetExternalBuff (Some (content b2)) (totalLen b2 - ucast (pr_paddingLen r)) GetAppLayerFrameHeaderLength new_SerialBuffer = (E_OK, rb)"
    "sb_ok b2" "sb_owned b2" "extendHeadLen b2 = extendHeadLen fr" "sb_ok rb" "headerLen rb = 72" "payloadLen rb = payloadLen fr"
    "drop 72 (content rb) = take (unat (payloadLen fr)) (drop 72 (content fr))"
    using app_frame_received[OF fr(1) send(2), of "se_be a" "HashFunc (se_identity a)" fid x] q(1,2) by auto
  have tm: "ToMessage (se_mem b) (se_be b) (ce_tfs envB) (Some rb) False = Ok (E_OK, Some m1)"
    using ToMessage_reads[of rb data m "se_mem b" "se_be b" "ce_tfs envB"] r(10-13) fr(2,4) msg(1) recv(3,7)
    by (simp add: msg.length_net sizeofs)
  have "extendHeadLen fr = 0" using fr(5) by (simp add: GetExtendHeadDataSize_def)
  then have p: "entire_packet b2 = Ok (content b2)" using entire_content[OF r(8)] r(9) by simp
  have len: "of_nat (length (content b2)) = totalLen b2" using length_content[OF r(7)] by simp
  obtain ag' where "OnBytesReceive envB \<lparr>rb_bytes = content b2, rb_srcTarget = src, rb_length = totalLen b2, rb_isNeedGetUserInfo = False\<rparr> ag = Ok ag'"
      "ag_log ag' = ag_log ag @ [MessageCall k src (m2\<lparr>senderUserId := DEFAULT_USER\<rparr>) answer, FreeFrame]"
    using frame_to_communicator[of envB "content b2" "totalLen b2" r rb ag cmB k src m1 m2 answer] r(1-6) recv tm
    by (auto simp: b_def[symmetric])
  then show ?thesis using q(3-6) p len by auto
qed

definition sample_config_send :: SendConfig where
  "sample_config_send = \<lparr>sd_nonBlock = True, sd_isNeedExtendHead = False, sd_timeout = 0, sd_isRetryTask = True,
     sd_paramInfo = \<lparr>ei_appId = [], ei_storeId = [], ei_userId = [], ei_dstTarget = [], ei_subUserId = []\<rparr>\<rparr>"

definition listening_agg :: "byte list aggregator" where
  "listening_agg = set_comm [] sample_label ((new_Communicator sample_label)\<lparr>onMessageHandle := Some 1\<rparr>, True)
     (started_aggregator ''t'' None False True)"

theorem message_delivered_witness:
  "\<exists>code sa' c' p ag' m'. SendMessage (cenv sample_renv) ''peer'' (Some sample_message) sample_config_send None (new_Communicator sample_label)
      (None, new_send_core False) = Ok (code, sa', c') \<and>
    OnBytesReceive sample_renv \<lparr>rb_bytes = p, rb_srcTarget = ''me'', rb_length = of_nat (length p), rb_isNeedGetUserInfo = False\<rparr>
      listening_agg = Ok ag' \<and> ag_log ag' = [MessageCall 1 ''me'' m' E_OK, FreeFrame] \<and> holder m' = Some [1, 2, 3]"
proof -
  let ?e = "cenv sample_renv"
  let ?m2 = "sample_message\<lparr>remoteSoftwareVersion := TransfDbVersionToSoftwareVersion DB_GLOBAL_VERSION\<rparr>"
  have e: "ce_send ?e = sample_senv" "ce_tfs ?e = [(7, list_transform)]" "ce_send sample_renv = sample_senv"
    "ce_tfs sample_renv = [(7, list_transform)]" "ce_onMessage sample_renv = (\<lambda>_ _ _. E_OK)"
    by (simp_all add: sample_renv_def comm_env.truncate_def)
  have se: "se_mem sample_senv = never_oom" "se_be sample_senv = False" "se_identity sample_senv = ''me''"
    by (simp_all add: sample_senv_def)
  obtain fr where fr: "ToSerialBuffer never_oom False [(7, list_transform)] (Some sample_message) None False = Ok fr"
    using sample_built by blast
  have at: "comm_at [] sample_label listening_agg = Some ((new_Communicator sample_label)\<lparr>onMessageHandle := Some 1\<rparr>, True)"
    by (simp add: listening_agg_def)
  have lg: "ag_log listening_agg = []" by (simp add: listening_agg_def set_comm_def started_aggregator_def)
  have cp: "\<not> dbClosePending (new_Communicator sample_label)" by (simp add: new_Communicator_def)
  have h: "holder (?m2\<lparr>senderUserId := DEFAULT_USER\<rparr>) = Some [1, 2, 3]" by (simp add: sample_message_def)
  have "\<exists>task sa' c' p ag'.
    SendMessage ?e ''peer'' (Some sample_message) sample_config_send None (new_Communicator sample_label) (None, new_send_core False) =
      Ok (fst (AddSendTaskIntoSchedule task (msg_prio sample_message) (sc_scheduler (new_send_core False))), sa', c') \<and>
    sc_scheduler c' = snd (AddSendTaskIntoSchedule task (msg_prio sample_message) (sc_scheduler (new_send_core False))) \<and>
    st_dstTarget task = ''peer'' \<and> entire_packet (st_buffer task) = Ok p \<and>
    OnBytesReceive sample_renv \<lparr>rb_bytes = p, rb_srcTarget = ''me'', rb_length = of_nat (length p), rb_isNeedGetUserInfo = False\<rparr>
      listening_agg = Ok ag' \<and>
    ag_log ag' = ag_log listening_agg @ [MessageCall 1 ''me'' (?m2\<lparr>senderUserId := DEFAULT_USER\<rparr>) E_OK, FreeFrame]"
    by (rule message_delivered[of sample_message ?e list_transform "[1, 2, 3]" fr "new_Communicator sample_label" "''peer''"
          sample_config_send sample_renv "''me''" listening_agg "(new_Communicator sample_label)\<lparr>onMessageHandle := Some 1\<rparr>" 1
          sample_message ?m2 E_OK])
       (use e se fr at cp sample_facts sample_hash in \<open>simp_all add: sample_label_def sizeofs sample_config_send_def\<close>)
  then show ?thesis using lg h by fastforce
qed

section \<open>The labels of one device seen by another\<close>

lemma NotifyConnect_linker: "ag_linker (NotifyConnectChange t out ag) = ag_linker ag"
  unfolding NotifyConnectChange_def using rest_fields(1)[OF notify_fold_rest[of t out ag]] by simp

lemma exchange_received:
  assumes ok: "agg_ok ag" and c: "fresh_counters ag"
    and p: "CheckAndParsePacket (se_be (ce_send env)) (Some bytes) len new_ParseResult = Ok r"
      "pr_frameType r = COMMUNICATION_LABEL_EXCHANGE" "\<not> pr_isFragment r"
    and st: "\<not> stale_exchange (ag_linker ag) src (pr_distinctValue r) (pr_sequenceId r)"
  shows "returns (\<lambda>ag'. om_get [] (targetMapOnlineLabels (ag_linker ag')) src = pr_latestCommLabels r \<and>
      remoteOnlineTarget (ag_linker ag') = remoteOnlineTarget (ag_linker ag))
    (OnBytesReceive env \<lparr>rb_bytes = bytes, rb_srcTarget = src, rb_length = len, rb_isNeedGetUserInfo = b\<rparr> ag)"
proof -
  define ag1 where "ag1 = SetRemoteCommunicatorVersion src (pr_dbVersion r) ag"
  define ag2 where "ag2 = (case ag_adapter ag1 of None \<Rightarrow> ag1
     | Some s \<Rightarrow> let (tasks, s') = SetRemoteOptimizeCommunication (se_pool (ce_send env)) src (\<not> pr_sendLabelExchange r) s
                 in ag1\<lparr>ag_adapter := Some s', ag_adapterTasks := ag_adapterTasks ag1 @ tasks\<rparr>)"
  have f: "commMap ag2 = commMap ag" "ag_linker ag2 = ag_linker ag" "ag_send ag2 = ag_send ag"
    "ag_combiner ag2 = ag_combiner ag" "ag_retainer ag2 = ag_retainer ag"
    by (simp_all add: ag2_def ag1_def SetRemoteCommunicatorVersion_def case_prod_unfold Let_def split: option.split)
  have ok2: "agg_ok ag2" using agg_ok_frame(1)[OF f] ok by simp
  let ?info = "\<lparr>rb_bytes = bytes, rb_srcTarget = src, rb_length = len, rb_isNeedGetUserInfo = b\<rparr>"
  have o: "OnBytesReceive env ?info ag = res_bind (OnCommLayerFrameReceive env src r ag2) (\<lambda>(_, ag3). Ok ag3)"
    using p(2,3) unfolding OnBytesReceive_def ReceiveBytesInfo.select_convs p(1) res.case Let_def ag2_def ag1_def by simp
  have inc: "incAckTriggerId (ag_linker ag2) \<noteq> - 1" using c f(2) by (simp add: fresh_counters_def)
  have fresh: "\<not> (case om_find (topRecvLabelSeq (DetectDistinctValueChange (re_link env) src (pr_distinctValue r) (ag_linker ag2))) src of
      None \<Rightarrow> False | Some q \<Rightarrow> pr_sequenceId r < q)"
    using st unfolding Detect_stale f(2) by simp
  note I = agg_okD(3)[OF ok2] agg_okI[OF ok2, of "ce_send env"] inc
  have R: "returns (\<lambda>(code, out, lk', sa', a'). code = E_OK \<and> targetMapOnlineLabels lk' = om_insert src (pr_latestCommLabels r) (targetMapOnlineLabels (ag_linker ag2)) \<and>
      remoteOnlineTarget lk' = remoteOnlineTarget (ag_linker ag2))
    (ReceiveLabelExchange (re_link env) agg_send src (pr_latestCommLabels r) (pr_distinctValue r) (pr_sequenceId r) [] (link_state env ag2))"
    using agg.Receive_effect[OF I, of "pr_latestCommLabels r" src "re_link env" "pr_distinctValue r" "pr_sequenceId r"]
      agg.Receive_applies[OF I fresh, of "pr_latestCommLabels r" "[]"]
    by (auto simp: returns_def link_state_def)
  have "returns (\<lambda>(_, ag'). om_get [] (targetMapOnlineLabels (ag_linker ag')) src = pr_latestCommLabels r \<and>
      remoteOnlineTarget (ag_linker ag') = remoteOnlineTarget (ag_linker ag)) (OnCommLayerFrameReceive env src r ag2)"
    using p(2) f(2) unfolding OnCommLayerFrameReceive_def
    by (auto simp: NotifyConnect_linker om_get_insert intro!: returns_bind[OF R])
  then show ?thesis unfolding o by (rule returns_bind) auto
qed


lemma peer_online:
  "\<exists>ag. OnTargetChange sample_renv ''peer'' True ready_agg = Ok ag \<and> agg_reach ag \<and> fresh_counters ag \<and>
     ''peer'' \<in> set (remoteOnlineTarget (ag_linker ag)) \<and> topRecvLabelSeq (ag_linker ag) = []"
proof -
  have w: "wf_env (re_link sample_renv)" by (simp add: sample_renv_def sample_wf)
  have i: "incSequenceId (ag_linker ready_agg) \<noteq> - 1" "topRecvLabelSeq (ag_linker ready_agg) = []"
    by (simp_all add: ready_fields fresh_fields Linker_Initialize_def new_CommunicatorLinker_def)
  note ok = agg_reach_ok[OF fresh_reach(2)]
  let ?ag = "emit (case ag_onConnect ready_agg of None \<Rightarrow> [] | Some k \<Rightarrow> [ConnectCall k ''peer'' True]) ready_agg"
  have s: "link_state sample_renv ?ag = (ag_linker ready_agg, ag_adapter ready_agg, ce_send sample_renv, ag_send ready_agg)"
    by (simp add: link_state_def emit_def)
  obtain code ls lk sa e c where o: "TargetOnline (re_link sample_renv) agg_send ''peer'' (link_state sample_renv ?ag) = Ok (code, ls, lk, sa, e, c)"
    "''peer'' \<in> set (remoteOnlineTarget lk)" "topRecvLabelSeq lk = []" "incAckTriggerId lk = incAckTriggerId (ag_linker ready_agg)"
    using agg.Online_effect[OF agg_okD(3)[OF ok] agg_okI[OF ok, of "ce_send sample_renv"] w i(1), of "''peer''"] i(2)
    unfolding s by (auto simp: returns_def)
  let ?ag' = "notify_all (\<lambda>l. l \<in> set ls) (OnConnectChange ''peer'' True) (set_link (lk, sa, e, c) ?ag)"
  have r: "OnTargetChange sample_renv ''peer'' True ready_agg = Ok ?ag'" using o(1) by (simp add: OnTargetChange_def Let_def)
  have f: "ag_linker ?ag' = lk" "ag_combiner ?ag' = ag_combiner ready_agg" "ag_retainer ?ag' = ag_retainer ready_agg"
    using rest_fields[OF notify_all_rest[of "\<lambda>l. l \<in> set ls" "OnConnectChange ''peer'' True" "set_link (lk, sa, e, c) ?ag"]]
    by (simp_all add: emit_def)
  have "agg_reach ?ag'" by (rule agg_reach.a_step[OF fresh_reach(2) agg_step.a_target[OF w i(1) r]])
  moreover have "fresh_counters ?ag'" using fresh_counting o(4) by (simp add: fresh_counters_def f)
  ultimately show ?thesis using r o(2,3) f(1) by auto
qed


end
